(* ===== verification/Go_Base.thy ===== *)
theory Go_Base
  imports Main "HOL-Library.Sublist"
begin

section \<open>Prelude: Go strings, integers and lists\<close>

text \<open>
  What every component of the development uses of the Go language and of its standard
  library, and the facts about it they share.

  A Go string is a sequence of bytes, and an Isabelle \<^typ>\<open>string\<close> is a list of 8-bit
  characters, so the two agree byte for byte: \<open>len(s)\<close> is \<^const>\<open>length\<close>. Go's view of a
  string as code points (\<open>[]rune(s)\<close>, \<open>strings.TrimSpace\<close>, \<open>strings.Split(s, "")\<close>)
  is \<open>utf8_chunks\<close>, the UTF-8 decoder of package \<open>unicode/utf8\<close> with its accept
  ranges, on which an invalid byte is a chunk of its own.

  The sections are: byte and UTF-8 decoding, trimming and fields, searching, splitting and
  joining, decimal integers (\<open>strconv.Itoa\<close> and \<open>strconv.Atoi\<close>), and list lemmas
  (last \<open>n\<close> elements, index updates).
\<close>

named_theorems go_simps \<open>unfolding rules of the small Go helpers\<close>

subsection \<open>Bytes and UTF-8\<close>

definition byte :: "char \<Rightarrow> nat" where
  "byte c = of_char c"

definition utf8_cont :: "char \<Rightarrow> bool" where
  "utf8_cont c \<longleftrightarrow> 0x80 \<le> byte c \<and> byte c \<le> 0xBF"

text \<open>
  The second byte of a three- or four-byte sequence has a narrower range for some first
  bytes (no overlong forms, no surrogates, nothing above U+10FFFF).
\<close>

definition utf8_second :: "nat \<Rightarrow> char \<Rightarrow> bool" where
  "utf8_second b c \<longleftrightarrow> utf8_cont c \<and>
     (b = 0xE0 \<longrightarrow> 0xA0 \<le> byte c) \<and> (b = 0xED \<longrightarrow> byte c \<le> 0x9F) \<and>
     (b = 0xF0 \<longrightarrow> 0x90 \<le> byte c) \<and> (b = 0xF4 \<longrightarrow> byte c \<le> 0x8F)"

text \<open>
  \<open>utf8.DecodeRuneInString\<close>: the size of the code point a string starts with, or \<open>None\<close>
  for an invalid one (which Go reports as the replacement character with width 1).
\<close>

fun rune_size :: "string \<Rightarrow> nat option" where
  "rune_size [] = None"
| "rune_size (c # cs) =
     (let b = byte c in
      if b < 0x80 then Some 1
      else if 0xC2 \<le> b \<and> b \<le> 0xDF then
        (case cs of c1 # _ \<Rightarrow> if utf8_cont c1 then Some 2 else None | _ \<Rightarrow> None)
      else if 0xE0 \<le> b \<and> b \<le> 0xEF then
        (case cs of c1 # c2 # _ \<Rightarrow> if utf8_second b c1 \<and> utf8_cont c2 then Some 3 else None
         | _ \<Rightarrow> None)
      else if 0xF0 \<le> b \<and> b \<le> 0xF4 then
        (case cs of c1 # c2 # c3 # _ \<Rightarrow>
             if utf8_second b c1 \<and> utf8_cont c2 \<and> utf8_cont c3 then Some 4 else None
         | _ \<Rightarrow> None)
      else None)"

definition rune_width :: "string \<Rightarrow> nat" where
  "rune_width s = (case rune_size s of None \<Rightarrow> 1 | Some n \<Rightarrow> n)"

fun utf8_chunks :: "string \<Rightarrow> string list" where
  "utf8_chunks [] = []"
| "utf8_chunks (c # cs) =
     (let n = rune_width (c # cs) - 1 in (c # take n cs) # utf8_chunks (drop n cs))"

declare utf8_chunks.simps(2) [simp del]

text \<open>
  The code points of \<open>[]rune(s)\<close>, each as the bytes \<open>string(r)\<close> gives back: an invalid byte
  becomes U+FFFD.
\<close>

definition rune_error :: string where
  "rune_error = [CHR 0xEF, CHR 0xBF, CHR 0xBD]"

definition runes :: "string \<Rightarrow> string list" where
  "runes s = map (\<lambda>ch. if rune_size ch = None then rune_error else ch) (utf8_chunks s)"

text \<open>\<open>utf8.RuneStart\<close>: a byte that is not a continuation byte.\<close>

definition rune_start :: "char \<Rightarrow> bool" where
  "rune_start c \<longleftrightarrow> \<not> utf8_cont c"

lemma rune_size_pos: "rune_size s = Some n \<Longrightarrow> 0 < n"
  by (cases s) (auto simp: Let_def split: if_splits list.splits)

lemma rune_width_pos [simp]: "0 < rune_width s"
  by (auto simp: rune_width_def rune_size_pos split: option.splits)

lemma concat_utf8_chunks [simp]: "concat (utf8_chunks s) = s"
  by (induction s rule: utf8_chunks.induct) (auto simp: utf8_chunks.simps(2) Let_def)

lemma utf8_chunks_eq_Nil [simp]: "utf8_chunks s = [] \<longleftrightarrow> s = []"
  by (cases s) (auto simp: utf8_chunks.simps(2) Let_def)

lemma utf8_chunks_nonempty: "ch \<in> set (utf8_chunks s) \<Longrightarrow> ch \<noteq> []"
  by (induction s rule: utf8_chunks.induct) (auto simp: utf8_chunks.simps(2) Let_def)

subsection \<open>White space\<close>

text \<open>
  \<open>unicode.IsSpace\<close>: tab, newline, vertical tab, form feed, carriage return, space,
  U+0085, U+00A0, U+1680, U+2000 to U+200A, U+2028, U+2029, U+202F, U+205F and U+3000.
\<close>

definition is_space :: "string \<Rightarrow> bool" where
  "is_space ch =
     (case ch of
        [c] \<Rightarrow> byte c \<in> {9, 10, 11, 12, 13, 32}
      | [c, d] \<Rightarrow> byte c = 0xC2 \<and> byte d \<in> {0x85, 0xA0}
      | [c, d, e] \<Rightarrow>
          (byte c = 0xE1 \<and> byte d = 0x9A \<and> byte e = 0x80) \<or>
          (byte c = 0xE2 \<and> byte d = 0x80 \<and>
             (0x80 \<le> byte e \<and> byte e \<le> 0x8A \<or> byte e \<in> {0xA8, 0xA9, 0xAF})) \<or>
          (byte c = 0xE2 \<and> byte d = 0x81 \<and> byte e = 0x9F) \<or>
          (byte c = 0xE3 \<and> byte d = 0x80 \<and> byte e = 0x80)
      | _ \<Rightarrow> False)"

definition drop_while_end :: "('a \<Rightarrow> bool) \<Rightarrow> 'a list \<Rightarrow> 'a list" where
  "drop_while_end p xs = rev (dropWhile p (rev xs))"

definition trim_space :: "string \<Rightarrow> string" where
  "trim_space s = concat (drop_while_end is_space (dropWhile is_space (utf8_chunks s)))"

definition blank :: "string \<Rightarrow> bool" where
  "blank s \<longleftrightarrow> trim_space s = []"

text \<open>\<open>strings.Fields\<close>: the maximal runs of chunks that are not white space.\<close>

fun fields_loop :: "string \<Rightarrow> string list \<Rightarrow> string list" where
  "fields_loop cur [] = (if cur = [] then [] else [cur])"
| "fields_loop cur (ch # chs) =
     (if is_space ch then (if cur = [] then [] else [cur]) @ fields_loop [] chs
      else fields_loop (cur @ ch) chs)"

definition go_fields :: "string \<Rightarrow> string list" where
  "go_fields s = fields_loop [] (utf8_chunks s)"

lemma utf8_chunks_ascii: "list_all (\<lambda>c. byte c < 128) s \<Longrightarrow> utf8_chunks s = map (\<lambda>c. [c]) s"
  by (induction s rule: utf8_chunks.induct) (auto simp: rune_width_def utf8_chunks.simps(2))

lemma fields_loop_append:
  "is_space sp \<Longrightarrow> fields_loop cur (xs @ sp # ys) = fields_loop cur xs @ fields_loop [] ys"
  by (induction cur xs rule: fields_loop.induct) auto

lemma go_fields_append:
  "list_all (\<lambda>c. byte c < 128) xs \<Longrightarrow> list_all (\<lambda>c. byte c < 128) ys \<Longrightarrow>
   go_fields (xs @ '' '' @ ys) = go_fields xs @ go_fields ys"
  using fields_loop_append[of "'' ''" "[]" "map (\<lambda>c. [c]) xs" "map (\<lambda>c. [c]) ys"]
  by (simp add: go_fields_def utf8_chunks_ascii is_space_def byte_def)

lemma drop_while_end_Nil [simp]: "drop_while_end p [] = []"
  by (simp add: drop_while_end_def)

lemma set_drop_while_end: "set (drop_while_end p xs) \<subseteq> set xs"
  by (auto simp: drop_while_end_def dest: set_dropWhileD)

lemma drop_while_end_Nil_iff: "drop_while_end p xs = [] \<longleftrightarrow> (\<forall>x\<in>set xs. p x)"
  by (simp add: drop_while_end_def)

lemma trim_space_id:
  assumes "list_all (\<lambda>c. byte c < 128 \<and> \<not> is_space [c]) s"
  shows "trim_space s = s"
proof -
  have c: "utf8_chunks s = map (\<lambda>c. [c]) s" using assms by (intro utf8_chunks_ascii) (auto simp: list_all_iff)
  have "dropWhile is_space (map (\<lambda>c. [c]) u) = map (\<lambda>c. [c]) u" if "list_all (\<lambda>c. \<not> is_space [c]) u" for u
    using that by (cases u) simp_all
  moreover have "list_all (\<lambda>c. \<not> is_space [c]) s" "list_all (\<lambda>c. \<not> is_space [c]) (rev s)"
    using assms by (auto simp: list_all_iff)
  ultimately show ?thesis by (simp add: trim_space_def c drop_while_end_def rev_map)
qed

lemma trim_space_Nil [simp]: "trim_space [] = []"
  by (simp add: trim_space_def)

lemma blank_iff: "blank s \<longleftrightarrow> (\<forall>ch \<in> set (utf8_chunks s). is_space ch)"
proof -
  let ?mid = "dropWhile is_space (utf8_chunks s)"
  have ne: "ch \<noteq> []" if "ch \<in> set (drop_while_end is_space ?mid)" for ch
    using that set_drop_while_end [of is_space ?mid] utf8_chunks_nonempty [of ch s]
    by (auto dest: set_dropWhileD)
  have "blank s \<longleftrightarrow> drop_while_end is_space ?mid = []"
    unfolding blank_def trim_space_def using ne by (auto simp: concat_eq_Nil_conv)
  also have "\<dots> \<longleftrightarrow> (\<forall>ch \<in> set ?mid. is_space ch)"
    by (simp add: drop_while_end_Nil_iff)
  also have "\<dots> \<longleftrightarrow> ?mid = []"
    by (metis (no_types) dropWhile_eq_Nil_conv hd_dropWhile hd_in_set set_dropWhileD dropWhile.simps(1) empty_iff list.set(1))
  finally show ?thesis by (simp add: dropWhile_eq_Nil_conv)
qed

lemma blank_Nil [simp]: "blank []"
  by (simp add: blank_def)

lemma dropWhile_length: "length (dropWhile p xs) \<le> length xs"
  by (induction xs) auto


subsection \<open>Prefixes, suffixes and searching\<close>

definition has_prefix :: "string \<Rightarrow> string \<Rightarrow> bool" where
  "has_prefix s p \<longleftrightarrow> take (length p) s = p"

definition has_suffix :: "string \<Rightarrow> string \<Rightarrow> bool" where
  "has_suffix s p \<longleftrightarrow> length p \<le> length s \<and> drop (length s - length p) s = p"

definition trim_prefix :: "string \<Rightarrow> string \<Rightarrow> string" where
  "trim_prefix s p = (if has_prefix s p then drop (length p) s else s)"

definition trim_suffix :: "string \<Rightarrow> string \<Rightarrow> string" where
  "trim_suffix s p = (if has_suffix s p then take (length s - length p) s else s)"

text \<open>\<open>strings.Index\<close>, with \<open>None\<close> for -1.\<close>

fun go_index :: "string \<Rightarrow> string \<Rightarrow> nat option" where
  "go_index [] sub = (if sub = [] then Some 0 else None)"
| "go_index (c # cs) sub =
     (if has_prefix (c # cs) sub then Some 0 else map_option Suc (go_index cs sub))"

definition go_contains :: "string \<Rightarrow> string \<Rightarrow> bool" where
  "go_contains s sub \<longleftrightarrow> go_index s sub \<noteq> None"

text \<open>\<open>strings.Cut\<close>: what stands before and after the first separator.\<close>

definition go_cut :: "string \<Rightarrow> string \<Rightarrow> string \<times> string \<times> bool" where
  "go_cut s sep =
     (case go_index s sep of
        Some i \<Rightarrow> (take i s, drop (i + length sep) s, True)
      | None \<Rightarrow> (s, [], False))"

lemma has_prefix_iff: "has_prefix s p \<longleftrightarrow> (\<exists>t. s = p @ t)"
  unfolding has_prefix_def by (metis append_eq_conv_conj append_take_drop_id)

lemma has_prefix_prefix: "has_prefix s p \<longleftrightarrow> prefix p s"
  by (auto simp: has_prefix_iff prefix_def)

lemma has_suffix_iff: "has_suffix s p \<longleftrightarrow> (\<exists>t. s = t @ p)"
proof
  assume "has_suffix s p"
  then show "\<exists>t. s = t @ p"
    unfolding has_suffix_def by (metis append_take_drop_id)
next
  assume "\<exists>t. s = t @ p"
  then show "has_suffix s p" by (auto simp: has_suffix_def)
qed

lemma trim_prefix_append [simp]: "trim_prefix (p @ s) p = s"
  by (simp add: trim_prefix_def has_prefix_def)

lemma trim_suffix_append [simp]: "trim_suffix (s @ p) p = s"
  by (simp add: trim_suffix_def has_suffix_def)

lemma go_index_Some:
  "go_index s sub = Some i \<Longrightarrow> i + length sub \<le> length s \<and> take (length sub) (drop i s) = sub"
proof (induction s arbitrary: i)
  case Nil
  then show ?case by (auto split: if_splits)
next
  case (Cons c cs)
  show ?case
  proof (cases "has_prefix (c # cs) sub")
    case True
    with Cons.prems have "i = 0" by simp
    with True show ?thesis
      by (auto simp: has_prefix_iff dest: arg_cong [where f = length])
  next
    case False
    with Cons.prems obtain j where "go_index cs sub = Some j" "i = Suc j" by auto
    with Cons.IH show ?thesis by fastforce
  qed
qed

lemma go_index_split:
  assumes "go_index s sub = Some i"
  shows "s = take i s @ sub @ drop (i + length sub) s"
proof -
  have "drop i s = sub @ drop (length sub) (drop i s)"
    using go_index_Some [OF assms] by (metis append_take_drop_id)
  then show ?thesis by (metis append_take_drop_id drop_drop add.commute)
qed

lemma go_index_None: "go_index s sub = None \<longleftrightarrow> \<not> sublist sub s"
proof (induction s)
  case Nil
  then show ?case by simp
next
  case (Cons c cs)
  then show ?case by (simp add: sublist_Cons_right has_prefix_prefix)
qed

lemma go_contains_iff: "go_contains s sub \<longleftrightarrow> sublist sub s"
  using go_index_None [of s sub] by (simp add: go_contains_def)

subsection \<open>Splitting and joining\<close>

text \<open>
  \<open>strings.Split\<close>: an empty separator splits after each UTF-8 sequence, another one cuts
  the string at its successive occurrences.
\<close>

function split_sep :: "string \<Rightarrow> string \<Rightarrow> string list" where
  "split_sep s sep =
     (case go_index s sep of
        Some i \<Rightarrow> if sep = [] then [s] else take i s # split_sep (drop (i + length sep) s) sep
      | None \<Rightarrow> [s])"
  by pat_completeness auto
termination
  by (relation "measure (\<lambda>(s, sep). length s)")
    (auto dest!: go_index_Some simp: diff_less length_greater_0_conv [symmetric] simp del: length_greater_0_conv)

declare split_sep.simps [simp del]

definition go_split :: "string \<Rightarrow> string \<Rightarrow> string list" where
  "go_split s sep = (if sep = [] then utf8_chunks s else split_sep s sep)"

fun go_join :: "string list \<Rightarrow> string \<Rightarrow> string" where
  "go_join [] sep = []"
| "go_join [x] sep = x"
| "go_join (x # y # ys) sep = x @ sep @ go_join (y # ys) sep"

lemma go_join_Cons: "ys \<noteq> [] \<Longrightarrow> go_join (x # ys) sep = x @ sep @ go_join ys sep"
  by (cases ys) auto

lemma go_join_empty_sep [simp]: "go_join xs [] = concat xs"
  by (induction xs) (auto simp: neq_Nil_conv, metis append_Nil2 concat.simps(1) go_join.simps(2) go_join_Cons append_Nil)

lemma split_sep_nonempty [simp]: "split_sep s sep \<noteq> []"
  by (subst split_sep.simps) (auto split: option.splits)

lemma join_split_sep: "go_join (split_sep s sep) sep = s"
proof (induction s sep rule: split_sep.induct)
  case (1 s sep)
  show ?case
  proof (cases "go_index s sep")
    case None
    then show ?thesis by (subst split_sep.simps) simp
  next
    case (Some i)
    show ?thesis
    proof (cases "sep = []")
      case True
      with Some show ?thesis by (subst split_sep.simps) simp
    next
      case False
      with Some "1.IH" have "go_join (split_sep (drop (i + length sep) s) sep) sep = drop (i + length sep) s"
        by simp
      with Some False show ?thesis
        by (subst split_sep.simps) (simp add: go_join_Cons go_index_split [OF Some, symmetric])
    qed
  qed
qed

lemma join_go_split: "go_join (go_split s sep) sep = s"
  by (simp add: go_split_def join_split_sep)

subsection \<open>Decimal integers\<close>

text \<open>
  \<open>strconv.Itoa\<close> and \<open>strconv.Atoi\<close> on 64-bit \<open>int\<close>: \<open>go_atoi\<close> is \<open>None\<close> for a syntax
  error and for a value that does not fit.
\<close>

definition digit_char :: "nat \<Rightarrow> char" where
  "digit_char d = char_of (48 + d)"

definition is_digit :: "char \<Rightarrow> bool" where
  "is_digit c \<longleftrightarrow> 48 \<le> byte c \<and> byte c \<le> 57"

fun nat_digits :: "nat \<Rightarrow> string" where
  "nat_digits n =
     (if n < 10 then [digit_char n] else nat_digits (n div 10) @ [digit_char (n mod 10)])"

declare nat_digits.simps [simp del]

definition go_itoa :: "int \<Rightarrow> string" where
  "go_itoa i = (if i < 0 then CHR ''-'' # nat_digits (nat (- i)) else nat_digits (nat i))"

fun digits_val :: "nat \<Rightarrow> string \<Rightarrow> nat option" where
  "digits_val acc [] = Some acc"
| "digits_val acc (c # cs) =
     (if is_digit c then digits_val (10 * acc + (byte c - 48)) cs else None)"

definition max_int64 :: int where
  "max_int64 = 2 ^ 63 - 1"

definition min_int64 :: int where
  "min_int64 = - (2 ^ 63)"

definition go_atoi :: "string \<Rightarrow> int option" where
  "go_atoi s =
     (let neg = (s \<noteq> [] \<and> hd s = CHR ''-'');
          ds = (if s \<noteq> [] \<and> (hd s = CHR ''-'' \<or> hd s = CHR ''+'') then tl s else s)
      in if ds = [] then None
         else case digits_val 0 ds of
                None \<Rightarrow> None
              | Some n \<Rightarrow>
                  (let i = (if neg then - int n else int n)
                   in if min_int64 \<le> i \<and> i \<le> max_int64 then Some i else None))"

lemma byte_digit_char [simp]: "d < 10 \<Longrightarrow> byte (digit_char d) = 48 + d"
  by (simp add: byte_def digit_char_def of_char_of)

lemma is_digit_digit_char [simp]: "d < 10 \<Longrightarrow> is_digit (digit_char d)"
  by (simp add: is_digit_def)

lemma digits_val_append:
  "digits_val acc (xs @ ys) =
     (case digits_val acc xs of None \<Rightarrow> None | Some a \<Rightarrow> digits_val a ys)"
  by (induction xs arbitrary: acc) auto

lemma digits_val_nat_digits: "digits_val 0 (nat_digits n) = Some n"
proof (induction n rule: nat_digits.induct)
  case (1 n)
  show ?case
  proof (cases "n < 10")
    case True
    then show ?thesis by (subst nat_digits.simps) simp
  next
    case False
    with 1 have "digits_val 0 (nat_digits (n div 10)) = Some (n div 10)" by simp
    with False show ?thesis
      by (subst nat_digits.simps) (simp add: digits_val_append)
  qed
qed

lemma set_nat_digits: "c \<in> set (nat_digits n) \<Longrightarrow> is_digit c"
proof (induction n rule: nat_digits.induct)
  case (1 n)
  then show ?case
    by (cases "n < 10") (auto simp: nat_digits.simps [of n])
qed

lemma nat_digits_nonempty [simp]: "nat_digits n \<noteq> []"
  by (subst nat_digits.simps) simp

lemma hd_nat_digits: "hd (nat_digits n) \<noteq> CHR ''-'' \<and> hd (nat_digits n) \<noteq> CHR ''+''"
proof -
  have "is_digit (hd (nat_digits n))"
    by (rule set_nat_digits [of _ n]) simp
  then show ?thesis by (auto simp: is_digit_def byte_def)
qed

lemma go_atoi_itoa_nat: "int n \<le> max_int64 \<Longrightarrow> go_atoi (nat_digits n) = Some (int n)"
  using hd_nat_digits [of n]
  by (simp add: go_atoi_def digits_val_nat_digits min_int64_def)

lemma go_atoi_itoa:
  assumes "min_int64 \<le> i" and "i \<le> max_int64"
  shows "go_atoi (go_itoa i) = Some i"
proof (cases "i < 0")
  case True
  with assms show ?thesis
    by (simp add: go_atoi_def go_itoa_def digits_val_nat_digits Let_def)
next
  case False
  with assms show ?thesis
    by (simp add: go_itoa_def go_atoi_itoa_nat)
qed

lemma go_itoa_inj_nat: "go_itoa (int a) = go_itoa (int b) \<longleftrightarrow> a = b"
proof
  assume "go_itoa (int a) = go_itoa (int b)"
  then have "digits_val 0 (nat_digits a) = digits_val 0 (nat_digits b)"
    by (simp add: go_itoa_def)
  then show "a = b" by (simp add: digits_val_nat_digits)
qed simp

subsection \<open>Lists\<close>

text \<open>The last \<open>n\<close> elements of a list: what a bounded buffer of size \<open>n\<close> retains.\<close>

definition take_last :: "nat \<Rightarrow> 'a list \<Rightarrow> 'a list" where
  "take_last n xs = drop (length xs - n) xs"

lemma length_take_last [simp]: "length (take_last n xs) = min n (length xs)"
  by (simp add: take_last_def)

lemma take_last_0 [simp]: "take_last 0 xs = []"
  by (simp add: take_last_def)

lemma take_last_all [simp]: "length xs \<le> n \<Longrightarrow> take_last n xs = xs"
  by (simp add: take_last_def)

lemma take_last_snoc: "0 < n \<Longrightarrow> take_last n (xs @ [x]) = take_last (n - 1) xs @ [x]"
  by (simp add: take_last_def Suc_diff_le)

lemma take_last_append_take_last: "take_last n (take_last n xs @ ys) = take_last n (xs @ ys)"
proof (cases "length xs \<le> n")
  case True
  then show ?thesis by simp
next
  case False
  then show ?thesis
    by (cases "length ys \<le> n") (simp_all add: take_last_def add.commute)
qed

lemma suffix_take_last [simp]: "suffix (take_last n xs) xs"
  by (simp add: take_last_def suffix_drop)

lemma filter_suffix: "suffix xs ys \<Longrightarrow> suffix (filter p xs) (filter p ys)"
  by (auto simp: suffix_def)

lemma drop_append_le: "n \<le> length xs \<Longrightarrow> drop n (xs @ ys) = drop n xs @ ys"
  by simp

end
