(* ===== verification/Go_Errors.thy ===== *)
theory Go_Errors
  imports Go_Base
begin

section \<open>Error values\<close>

text \<open>
  Go errors are values that form a tree under \<open>Unwrap\<close>. The sentinel variables of each package
  are one enumeration per package; the error types the modelled packages declare, and the errors
  \<open>fmt.Errorf\<close> and \<open>errors.Join\<close> build, are the constructors of \<open>err\<close>.
  \<open>err_is\<close> is \<open>errors.Is\<close> (with the \<open>Is\<close> methods of \<open>llm.ProviderError\<close>,
  \<open>middleware.GuardrailError\<close> and \<open>permission.DeniedError\<close>), \<open>err_as_provider\<close> is
  \<open>errors.As\<close> for \<open>*llm.ProviderError\<close>, and \<open>err_text\<close> is the \<open>Error\<close> method.

  An error of a third party (an SDK, the operating system) is \<open>Opaque\<close> with its text, or
  \<open>NetErr\<close> when it implements \<open>net.Error\<close>. \<open>%q\<close> is \<open>go_quote\<close>: it escapes as
  \<open>strconv.Quote\<close> does on ASCII text and leaves other bytes as they are.
\<close>

datatype agent_err =
    ErrUndefinedLLM | ErrDescriptionRequired | ErrNameRequired | ErrMaxIterationsReached
  | ErrSessionSaveFailed | ErrStopRun | ErrIncompleteStream | ErrInvalidCompaction
  | ErrSnapshotMismatch | ErrNoCompactor

datatype memory_err = ErrSnapshotsUnsupported | ErrSnapshotConflict | ErrInvalidCursor

datatype llm_err =
    ErrToolNameRequired | ErrInvalidToolChoice | ErrInvalidResponseFormat
  | ErrUnsupportedCallOption | ErrContextLengthExceeded | ErrGuardrailBlocked

datatype middleware_err =
    ErrInvalidRate | ErrInvalidBufferSize | ErrStopped | ErrInvalidMaxConcurrentRequests
  | ErrInvalidMaxAttempts | ErrNilEmbedder | ErrNilStore | ErrInvalidThreshold
  | ErrStreamStopped

datatype permission_err = ErrDenied | ErrInvalidRule | ErrNoRun

text \<open>The sentinel errors of the standard library the code compares with.\<close>

datatype std_err = CtxCanceled | CtxDeadlineExceeded | ErrUnexpectedEOF | ErrNotExist

text \<open>
  The sentinels of the packages modelled in one theory are \<open>VarE\<close>: the name of the variable and the
  text it was made with.
\<close>

datatype sentinel =
    AgentE agent_err
  | MemoryE memory_err
  | LlmE llm_err
  | MiddlewareE middleware_err
  | PermissionE permission_err
  | StdE std_err
  | VarE string string

datatype err =
    Sentinel sentinel
  | Opaque string
  | NetErr string
  | Wrapped string "err list"
  | ProviderError string int int bool err
  | GuardrailError string string err
  | MaxAttemptsExceededError int err
  | CompactionError err
  | ToolAlreadyExistsError string
  | ToolUnknownError string
  | ToolExecutionError string err
  | ToolPanicError string string
  | ToolArgumentParseError err
  | DeniedError string string string
  | CodedError int string string int "err option"
  | ServiceError int string string string int
  | QueryError string string

text \<open>What a \<open>ServiceError\<close> and a \<open>QueryError\<close> unwrap to (package nats).\<close>

definition ErrServiceError :: sentinel where
  "ErrServiceError = VarE ''nats.ErrServiceError'' ''nats: agent returned a service error''"

definition ErrQueryNotSupported :: sentinel where
  "ErrQueryNotSupported =
     VarE ''nats.ErrQueryNotSupported'' ''nats: agent asked a question this client cannot answer''"

fun agent_err_text :: "agent_err \<Rightarrow> string" where
  "agent_err_text ErrUndefinedLLM = ''undefined LLM client''"
| "agent_err_text ErrDescriptionRequired = ''agent description is required''"
| "agent_err_text ErrNameRequired = ''agent name is required''"
| "agent_err_text ErrMaxIterationsReached = ''maximum iterations reached''"
| "agent_err_text ErrSessionSaveFailed = ''session save failed''"
| "agent_err_text ErrStopRun = ''run stopped by a tool''"
| "agent_err_text ErrIncompleteStream = ''llm stream ended without a complete message''"
| "agent_err_text ErrInvalidCompaction = ''invalid compaction''"
| "agent_err_text ErrSnapshotMismatch = ''compacted messages not found in the memory log''"
| "agent_err_text ErrNoCompactor = ''no compactor set''"

fun memory_err_text :: "memory_err \<Rightarrow> string" where
  "memory_err_text ErrSnapshotsUnsupported =
     ''memory: snapshots unsupported with this configuration''"
| "memory_err_text ErrSnapshotConflict = ''memory: snapshot conflict''"
| "memory_err_text ErrInvalidCursor = ''memory: invalid cursor''"

fun llm_err_text :: "llm_err \<Rightarrow> string" where
  "llm_err_text ErrToolNameRequired = ''tool name is required''"
| "llm_err_text ErrInvalidToolChoice = ''invalid tool choice''"
| "llm_err_text ErrInvalidResponseFormat =
     ''invalid response format: name and schema are required''"
| "llm_err_text ErrUnsupportedCallOption = ''call option not supported by this LLM''"
| "llm_err_text ErrContextLengthExceeded = ''context length exceeded''"
| "llm_err_text ErrGuardrailBlocked = ''guardrail blocked the call''"

fun middleware_err_text :: "middleware_err \<Rightarrow> string" where
  "middleware_err_text ErrInvalidRate = ''middleware: rate must be greater than zero''"
| "middleware_err_text ErrInvalidBufferSize = ''middleware: buffer size must be non-negative''"
| "middleware_err_text ErrStopped = ''middleware: LLM middleware has been stopped''"
| "middleware_err_text ErrInvalidMaxConcurrentRequests =
     ''middleware: maxConcurrentRequests must be greater than zero''"
| "middleware_err_text ErrInvalidMaxAttempts = ''middleware: maxAttempts must be at least 1''"
| "middleware_err_text ErrNilEmbedder = ''middleware: embedder must not be nil''"
| "middleware_err_text ErrNilStore = ''middleware: vector store must not be nil''"
| "middleware_err_text ErrInvalidThreshold =
     ''middleware: similarity threshold must be between 0 and 1''"
| "middleware_err_text ErrStreamStopped = ''stream stopped by the caller''"

fun permission_err_text :: "permission_err \<Rightarrow> string" where
  "permission_err_text ErrDenied = ''tool call denied''"
| "permission_err_text ErrInvalidRule = ''invalid permission rule''"
| "permission_err_text ErrNoRun = ''permission: no agent run in context''"

fun std_err_text :: "std_err \<Rightarrow> string" where
  "std_err_text CtxCanceled = ''context canceled''"
| "std_err_text CtxDeadlineExceeded = ''context deadline exceeded''"
| "std_err_text ErrUnexpectedEOF = ''unexpected EOF''"
| "std_err_text ErrNotExist = ''file does not exist''"

fun sentinel_text :: "sentinel \<Rightarrow> string" where
  "sentinel_text (AgentE e) = agent_err_text e"
| "sentinel_text (MemoryE e) = memory_err_text e"
| "sentinel_text (LlmE e) = llm_err_text e"
| "sentinel_text (MiddlewareE e) = middleware_err_text e"
| "sentinel_text (PermissionE e) = permission_err_text e"
| "sentinel_text (StdE e) = std_err_text e"
| "sentinel_text (VarE name t) = t"

subsection \<open>Quoting\<close>

definition hex_digit :: "nat \<Rightarrow> char" where
  "hex_digit n = (if n < 10 then char_of (48 + n) else char_of (87 + n))"

definition quote_char :: "char \<Rightarrow> string" where
  "quote_char c =
     (let b = byte c in
      if b = 34 then [CHR 0x5C, CHR 0x22]
      else if b = 92 then [CHR 0x5C, CHR 0x5C]
      else if b = 7 then [CHR 0x5C, CHR ''a'']
      else if b = 8 then [CHR 0x5C, CHR ''b'']
      else if b = 12 then [CHR 0x5C, CHR ''f'']
      else if b = 10 then [CHR 0x5C, CHR ''n'']
      else if b = 13 then [CHR 0x5C, CHR ''r'']
      else if b = 9 then [CHR 0x5C, CHR ''t'']
      else if b = 11 then [CHR 0x5C, CHR ''v'']
      else if b < 32 \<or> b = 127 then [CHR 0x5C, CHR ''x'', hex_digit (b div 16), hex_digit (b mod 16)]
      else [c])"

definition go_quote :: "string \<Rightarrow> string" where
  "go_quote s = [CHR 0x22] @ concat (map quote_char s) @ [CHR 0x22]"

subsection \<open>The text of an error\<close>

fun err_text :: "err \<Rightarrow> string" where
  "err_text (Sentinel s) = sentinel_text s"
| "err_text (Opaque t) = t"
| "err_text (NetErr t) = t"
| "err_text (Wrapped t es) = t"
| "err_text (ProviderError p code after ctxlen e) = err_text e"
| "err_text (GuardrailError stage name e) =
     ''middleware: '' @ stage @ '' guard '' @ go_quote name @ '' failed: '' @ err_text e"
| "err_text (MaxAttemptsExceededError n e) =
     ''middleware: all '' @ go_itoa n @ '' attempts failed: '' @ err_text e"
| "err_text (CompactionError e) = ''session compaction failed: '' @ err_text e"
| "err_text (ToolAlreadyExistsError name) = ''tool with name '' @ go_quote name @ '' already exists''"
| "err_text (ToolUnknownError name) = ''tool with name '' @ go_quote name @ '' not found''"
| "err_text (ToolExecutionError name e) = ''error executing tool '' @ name @ '': '' @ err_text e"
| "err_text (ToolPanicError name v) = ''tool '' @ name @ '' panicked: '' @ v"
| "err_text (ToolArgumentParseError e) = ''failed to parse arguments: '' @ err_text e"
| "err_text (DeniedError tool subject reason) =
     (if subject = [] then ''permission denied for '' @ tool @ '': '' @ reason
      else ''permission denied for '' @ tool @ ''('' @ subject @ ''): '' @ reason)"
| "err_text (CodedError code ec msg after e) =
     (if msg \<noteq> [] then ''nats: code='' @ go_itoa code @ '' '' @ msg
      else case e of
        Some x \<Rightarrow> ''nats: code='' @ go_itoa code @ '' '' @ err_text x
      | None \<Rightarrow> ''nats: code='' @ go_itoa code)"
| "err_text (ServiceError code desc ec msg after) =
     sentinel_text ErrServiceError @ '': code='' @ go_itoa code @ '' '' @ desc"
| "err_text (QueryError i q) = sentinel_text ErrQueryNotSupported @ '': '' @ go_quote q"

subsection \<open>Wrapping, joining and matching\<close>

text \<open>\<open>fmt.Errorf("%w: %w", a, b)\<close>, and \<open>fmt.Errorf("%w: ...", a)\<close> with the text after it.\<close>

definition errorf2 :: "err \<Rightarrow> err \<Rightarrow> err" where
  "errorf2 a b = Wrapped (err_text a @ '': '' @ err_text b) [a, b]"

definition errorf1 :: "err \<Rightarrow> string \<Rightarrow> err" where
  "errorf1 a t = Wrapped (err_text a @ t) [a]"

text \<open>\<open>errors.Join\<close>: nil arguments are dropped, and joining only nils is nil.\<close>

definition errors_join :: "err option list \<Rightarrow> err option" where
  "errors_join es =
     (let es' = List.map_filter id es
      in if es' = [] then None
         else Some (Wrapped (go_join (map err_text es') [CHR 0x0A]) es'))"

fun err_is :: "err \<Rightarrow> sentinel \<Rightarrow> bool" where
  "err_is (Sentinel s) t \<longleftrightarrow> s = t"
| "err_is (Opaque _) t \<longleftrightarrow> False"
| "err_is (NetErr _) t \<longleftrightarrow> False"
| "err_is (Wrapped _ es) t \<longleftrightarrow> list_ex (\<lambda>e. err_is e t) es"
| "err_is (ProviderError p code after ctxlen e) t \<longleftrightarrow>
     t = LlmE ErrContextLengthExceeded \<and> ctxlen \<or> err_is e t"
| "err_is (GuardrailError stage name e) t \<longleftrightarrow> t = LlmE ErrGuardrailBlocked \<or> err_is e t"
| "err_is (MaxAttemptsExceededError n e) t \<longleftrightarrow> err_is e t"
| "err_is (CompactionError e) t \<longleftrightarrow> err_is e t"
| "err_is (ToolAlreadyExistsError _) t \<longleftrightarrow> False"
| "err_is (ToolUnknownError _) t \<longleftrightarrow> False"
| "err_is (ToolExecutionError _ e) t \<longleftrightarrow> err_is e t"
| "err_is (ToolPanicError _ _) t \<longleftrightarrow> False"
| "err_is (ToolArgumentParseError e) t \<longleftrightarrow> err_is e t"
| "err_is (DeniedError _ _ _) t \<longleftrightarrow> t = PermissionE ErrDenied"
| "err_is (CodedError code ec msg after e) t \<longleftrightarrow> (case e of None \<Rightarrow> False | Some x \<Rightarrow> err_is x t)"
| "err_is (ServiceError _ _ _ _ _) t \<longleftrightarrow> t = ErrServiceError"
| "err_is (QueryError _ _) t \<longleftrightarrow> t = ErrQueryNotSupported"

text \<open>
  \<open>errors.As\<close> for \<open>*llm.ProviderError\<close>: the first one of the tree in depth-first order, as its
  status code, \<open>RetryAfter\<close> and \<open>ContextLengthExceeded\<close>; and for \<open>net.Error\<close>.
\<close>

fun err_as_provider :: "err \<Rightarrow> (int \<times> int \<times> bool) option"
  and errs_as_provider :: "err list \<Rightarrow> (int \<times> int \<times> bool) option" where
  "err_as_provider (ProviderError p code after ctxlen e) = Some (code, after, ctxlen)"
| "err_as_provider (Wrapped _ es) = errs_as_provider es"
| "err_as_provider (GuardrailError _ _ e) = err_as_provider e"
| "err_as_provider (MaxAttemptsExceededError _ e) = err_as_provider e"
| "err_as_provider (CompactionError e) = err_as_provider e"
| "err_as_provider (ToolExecutionError _ e) = err_as_provider e"
| "err_as_provider (ToolArgumentParseError e) = err_as_provider e"
| "err_as_provider (CodedError _ _ _ _ (Some e)) = err_as_provider e"
| "err_as_provider e = None"
| "errs_as_provider [] = None"
| "errs_as_provider (e # es) =
     (case err_as_provider e of Some p \<Rightarrow> Some p | None \<Rightarrow> errs_as_provider es)"

fun err_is_net :: "err \<Rightarrow> bool" where
  "err_is_net (NetErr _) \<longleftrightarrow> True"
| "err_is_net (Sentinel s) \<longleftrightarrow> s = StdE CtxDeadlineExceeded"
| "err_is_net (Wrapped _ es) \<longleftrightarrow> list_ex err_is_net es"
| "err_is_net (ProviderError _ _ _ _ e) \<longleftrightarrow> err_is_net e"
| "err_is_net (GuardrailError _ _ e) \<longleftrightarrow> err_is_net e"
| "err_is_net (MaxAttemptsExceededError _ e) \<longleftrightarrow> err_is_net e"
| "err_is_net (CompactionError e) \<longleftrightarrow> err_is_net e"
| "err_is_net (ToolExecutionError _ e) \<longleftrightarrow> err_is_net e"
| "err_is_net (ToolArgumentParseError e) \<longleftrightarrow> err_is_net e"
| "err_is_net (CodedError _ _ _ _ (Some e)) \<longleftrightarrow> err_is_net e"
| "err_is_net e \<longleftrightarrow> False"

lemma err_is_errorf2 [simp]: "err_is (errorf2 a b) t \<longleftrightarrow> err_is a t \<or> err_is b t"
  by (simp add: errorf2_def)

lemma err_is_errorf1 [simp]: "err_is (errorf1 a s) t \<longleftrightarrow> err_is a t"
  by (simp add: errorf1_def)

lemma errors_join_eq_None [simp]: "errors_join es = None \<longleftrightarrow> (\<forall>e \<in> set es. e = None)"
  by (induction es) (auto simp: errors_join_def Let_def List.map_filter_def)

lemma err_is_errors_join:
  assumes "errors_join es = Some e"
  shows "err_is e t \<longleftrightarrow> (\<exists>x. Some x \<in> set es \<and> err_is x t)"
  using assms
  by (force simp: errors_join_def Let_def List.map_filter_def list_ex_iff split: if_splits)

end
