(* ===== verification/Llm.thy ===== *)
theory Llm
  imports Go_Errors
begin

section \<open>Package llm: messages, tools, calls and streams\<close>

text \<open>
  The provider-agnostic types of \<open>src/llm\<close>: content parts, messages, tool calls, usage and
  results (\<open>llm.go\<close>), tools with their middleware (\<open>tool.go\<close>), per-call options
  (\<open>call.go\<close>), streaming (\<open>stream.go\<close>), the run a context carries (\<open>run.go\<close>), the token
  estimate and tool-name sanitizer (\<open>estimate.go\<close>), and the retry classification of errors
  (\<open>errors.go\<close>).

  The effects of a call are explicit: an LLM or a tool handler takes the state of the world, of
  any type \<open>'w\<close>, and returns the new one with its result. A Go pointer that may be nil is an
  \<open>option\<close>. The JSON schemas a tool or a response format carries are values of \<open>json\<close>.
\<close>

subsection \<open>Messages\<close>

datatype json =
    JNull | JBool bool | JNum string | JStr string | JArr "json list" | JObj "(string \<times> json) list"

definition ContentTypeText :: string where "ContentTypeText = ''text''"
definition ContentTypeImageURL :: string where "ContentTypeImageURL = ''image_url''"
definition ContentTypeImageBase64 :: string where "ContentTypeImageBase64 = ''image_base64''"
definition ContentTypeReasoning :: string where "ContentTypeReasoning = ''reasoning''"
definition ContentTypeRedactedReasoning :: string where
  "ContentTypeRedactedReasoning = ''redacted_reasoning''"

lemmas content_types = ContentTypeText_def ContentTypeImageURL_def ContentTypeImageBase64_def
  ContentTypeReasoning_def ContentTypeRedactedReasoning_def

record content_part =
  cp_type :: string
  cp_text :: string
  cp_image_url :: string
  cp_image_base64 :: string
  cp_mime_type :: string
  cp_signature :: string

definition empty_part :: content_part where
  "empty_part = \<lparr>cp_type = [], cp_text = [], cp_image_url = [], cp_image_base64 = [],
     cp_mime_type = [], cp_signature = []\<rparr>"

definition Text :: "string \<Rightarrow> content_part" where
  "Text s = empty_part\<lparr>cp_type := ContentTypeText, cp_text := s\<rparr>"

definition ImageURL :: "string \<Rightarrow> content_part" where
  "ImageURL url = empty_part\<lparr>cp_type := ContentTypeImageURL, cp_image_url := url\<rparr>"

definition Reasoning :: "string \<Rightarrow> string \<Rightarrow> content_part" where
  "Reasoning t sig = empty_part\<lparr>cp_type := ContentTypeReasoning, cp_text := t, cp_signature := sig\<rparr>"

definition RedactedReasoning :: "string \<Rightarrow> content_part" where
  "RedactedReasoning d = empty_part\<lparr>cp_type := ContentTypeRedactedReasoning, cp_text := d\<rparr>"

definition ImageBase64 :: "string \<Rightarrow> string \<Rightarrow> content_part" where
  "ImageBase64 mime d =
     empty_part\<lparr>cp_type := ContentTypeImageBase64, cp_mime_type := mime, cp_image_base64 := d\<rparr>"

record function_call =
  fc_name :: string
  fc_arguments :: string

record tool_call =
  tc_id :: string
  tc_type :: string
  tc_function :: function_call

definition RoleSystem :: string where "RoleSystem = ''system''"
definition RoleUser :: string where "RoleUser = ''user''"
definition RoleAssistant :: string where "RoleAssistant = ''assistant''"
definition RoleTool :: string where "RoleTool = ''tool''"

lemmas roles = RoleSystem_def RoleUser_def RoleAssistant_def RoleTool_def

lemma role_distinct [simp]:
  "RoleSystem \<noteq> RoleUser" "RoleSystem \<noteq> RoleAssistant" "RoleSystem \<noteq> RoleTool"
  "RoleUser \<noteq> RoleSystem" "RoleUser \<noteq> RoleAssistant" "RoleUser \<noteq> RoleTool"
  "RoleAssistant \<noteq> RoleSystem" "RoleAssistant \<noteq> RoleUser" "RoleAssistant \<noteq> RoleTool"
  "RoleTool \<noteq> RoleSystem" "RoleTool \<noteq> RoleUser" "RoleTool \<noteq> RoleAssistant"
  by (simp_all add: roles)

record message =
  role :: string
  parts :: "content_part list"
  tool_calls :: "tool_call list"
  tool_call_id :: string
  tool_error :: bool
  msg_name :: string

definition empty_message :: message where
  "empty_message = \<lparr>role = [], parts = [], tool_calls = [], tool_call_id = [],
     tool_error = False, msg_name = []\<rparr>"

definition SystemMessage :: "string \<Rightarrow> message" where
  "SystemMessage t = empty_message\<lparr>role := RoleSystem, parts := [Text t]\<rparr>"

definition UserMessage :: "content_part list \<Rightarrow> message" where
  "UserMessage ps = empty_message\<lparr>role := RoleUser, parts := ps\<rparr>"

definition AssistantMessage :: "content_part list \<Rightarrow> tool_call list \<Rightarrow> message" where
  "AssistantMessage ps tcs = empty_message\<lparr>role := RoleAssistant, parts := ps, tool_calls := tcs\<rparr>"

definition ToolResultMessage :: "string \<Rightarrow> content_part list \<Rightarrow> message" where
  "ToolResultMessage i ps = empty_message\<lparr>role := RoleTool, tool_call_id := i, parts := ps\<rparr>"

text \<open>
  \<open>TextContent\<close>: the loop over the parts with its string builder \<open>sb\<close>; a newline is written
  before a text part other than the first part, when something was written already.
\<close>

fun text_content_loop :: "nat \<Rightarrow> string \<Rightarrow> content_part list \<Rightarrow> string" where
  "text_content_loop i sb [] = sb"
| "text_content_loop i sb (p # ps) =
     text_content_loop (Suc i)
       (if cp_type p = ContentTypeText
        then (if 0 < i \<and> sb \<noteq> [] then sb @ [CHR 0x0A] else sb) @ cp_text p
        else sb) ps"

definition TextContent :: "content_part list \<Rightarrow> string" where
  "TextContent ps = text_content_loop 0 [] ps"

definition msg_text :: "message \<Rightarrow> string" where
  "msg_text m = TextContent (parts m)"

fun reasoning_loop :: "string \<Rightarrow> content_part list \<Rightarrow> string" where
  "reasoning_loop sb [] = sb"
| "reasoning_loop sb (p # ps) =
     reasoning_loop
       (if cp_type p = ContentTypeReasoning \<and> cp_text p \<noteq> []
        then (if sb \<noteq> [] then sb @ [CHR 0x0A] else sb) @ cp_text p
        else sb) ps"

definition ReasoningContent :: "message \<Rightarrow> string" where
  "ReasoningContent m = reasoning_loop [] (parts m)"

subsection \<open>Usage and results\<close>

record usage =
  input_tokens :: int
  output_tokens :: int
  cache_read_tokens :: int
  cache_write_tokens :: int
  reasoning_tokens :: int

text \<open>
  The normalised finish reasons are strings, as in the code; \<open>[]\<close> is "not reported".
\<close>

definition FinishStop :: string where "FinishStop = ''stop''"
definition FinishLength :: string where "FinishLength = ''length''"
definition FinishToolCalls :: string where "FinishToolCalls = ''tool_calls''"
definition FinishContentFilter :: string where "FinishContentFilter = ''content_filter''"
definition FinishError :: string where "FinishError = ''error''"

record llm_result =
  res_message :: "message option"
  res_usage :: "usage option"
  res_model :: string
  res_finish :: string
  res_raw_finish :: string

definition empty_result :: llm_result where
  "empty_result = \<lparr>res_message = None, res_usage = None, res_model = [], res_finish = [],
     res_raw_finish = []\<rparr>"

subsection \<open>Contexts\<close>

text \<open>
  What the code reads from a \<open>context.Context\<close>: whether it is done and why (which depends on the
  world, since anyone may cancel it), the run it belongs to, and the tool call it runs for.
\<close>

record 'w goctx =
  ctx_err :: "'w \<Rightarrow> err option"
  ctx_cause :: "'w \<Rightarrow> err option"
  ctx_run :: "string option"
  ctx_call :: "tool_call option"

definition without_cancel :: "'w goctx \<Rightarrow> 'w goctx" where
  "without_cancel c = c\<lparr>ctx_err := (\<lambda>_. None), ctx_cause := (\<lambda>_. None)\<rparr>"

definition ContextWithRun :: "'w goctx \<Rightarrow> string \<Rightarrow> 'w goctx" where
  "ContextWithRun c i = c\<lparr>ctx_run := Some i\<rparr>"

definition RunFromContext :: "'w goctx \<Rightarrow> string option" where
  "RunFromContext c = ctx_run c"

definition ContextWithToolCall :: "'w goctx \<Rightarrow> tool_call \<Rightarrow> 'w goctx" where
  "ContextWithToolCall c call = c\<lparr>ctx_call := Some call\<rparr>"

definition ToolCallFromContext :: "'w goctx \<Rightarrow> tool_call option" where
  "ToolCallFromContext c = ctx_call c"

subsection \<open>Tools\<close>

text \<open>
  The dynamic type of a handler's result, as the agent tells them apart: nil, a list of parts, a
  string, or another value with the outcome of \<open>json.Marshal\<close> on it.
\<close>

datatype tool_value = VNil | VParts "content_part list" | VString string | VOther "err + string"

text \<open>A handler returns an error or a value, or panics with a value printed as the string.\<close>

datatype 'a outcome = Returned 'a | Panicked string

type_synonym 'w handler =
  "'w goctx \<Rightarrow> string \<Rightarrow> 'w \<Rightarrow> (err + tool_value) outcome \<times> 'w"

record tool_info =
  ti_name :: string
  ti_description :: string
  ti_input_schema :: "json option"
  ti_loose_schema :: "json option"
  ti_strict :: bool
  ti_exclusive :: bool

type_synonym 'w tool_middleware = "tool_info \<Rightarrow> 'w handler \<Rightarrow> 'w handler"

record 'w tool =
  tl_info :: tool_info
  tl_handle :: "'w handler"
  tl_middlewares :: "'w tool_middleware list"

definition tool_name :: "'w tool \<Rightarrow> string" where
  "tool_name t = ti_name (tl_info t)"

definition SetStrict :: "bool \<Rightarrow> 'w tool \<Rightarrow> 'w tool" where
  "SetStrict b t = t\<lparr>tl_info := (tl_info t)\<lparr>ti_strict := b\<rparr>\<rparr>"

definition Strict :: "'w tool \<Rightarrow> bool" where
  "Strict t = ti_strict (tl_info t)"

definition Schema :: "'w tool \<Rightarrow> bool \<Rightarrow> json option" where
  "Schema t strict =
     (if strict \<or> ti_loose_schema (tl_info t) = None then ti_input_schema (tl_info t)
      else ti_loose_schema (tl_info t))"

definition SetExclusive :: "bool \<Rightarrow> 'w tool \<Rightarrow> 'w tool" where
  "SetExclusive b t = t\<lparr>tl_info := (tl_info t)\<lparr>ti_exclusive := b\<rparr>\<rparr>"

definition Exclusive :: "'w tool \<Rightarrow> bool" where
  "Exclusive t = ti_exclusive (tl_info t)"

definition tool_description :: "'w tool \<Rightarrow> string" where
  "tool_description t = ti_description (tl_info t)"

definition InputSchema :: "'w tool \<Rightarrow> json option" where
  "InputSchema t = Schema t (Strict t)"

text \<open>
  \<open>Handle\<close> wraps the handler from the last middleware to the first, so the first added runs
  first.
\<close>

fun wrap_handler :: "tool_info \<Rightarrow> 'w tool_middleware list \<Rightarrow> 'w handler \<Rightarrow> 'w handler" where
  "wrap_handler ti [] h = h"
| "wrap_handler ti (m # ms) h = m ti (wrap_handler ti ms h)"

definition Handle :: "'w tool \<Rightarrow> 'w handler" where
  "Handle t = wrap_handler (tl_info t) (tl_middlewares t) (tl_handle t)"

definition Use_tool :: "'w tool_middleware list \<Rightarrow> 'w tool \<Rightarrow> 'w tool" where
  "Use_tool ms t = t\<lparr>tl_middlewares := tl_middlewares t @ ms\<rparr>"

subsection \<open>Per-call options\<close>

record tool_choice =
  tch_mode :: string
  tch_name :: string

definition ToolChoiceAuto :: string where "ToolChoiceAuto = ''auto''"
definition ToolChoiceNone :: string where "ToolChoiceNone = ''none''"
definition ToolChoiceRequired :: string where "ToolChoiceRequired = ''required''"
definition ToolChoiceTool :: string where "ToolChoiceTool = ''tool''"

lemmas tool_choice_modes = ToolChoiceAuto_def ToolChoiceNone_def ToolChoiceRequired_def
  ToolChoiceTool_def

record response_format =
  rf_name :: string
  rf_description :: string
  rf_schema :: "json option"

record 'w call_config =
  cc_tools :: "'w tool list"
  cc_tool_choice :: "tool_choice option"
  cc_response_format :: "response_format option"
  cc_max_output_tokens :: int

type_synonym 'w call_option = "'w call_config \<Rightarrow> 'w call_config"

definition empty_config :: "'w call_config" where
  "empty_config = \<lparr>cc_tools = [], cc_tool_choice = None, cc_response_format = None,
     cc_max_output_tokens = 0\<rparr>"

text \<open>A nil option is \<open>None\<close> and skipped.\<close>

fun apply_call_options :: "'w call_option option list \<Rightarrow> 'w call_config \<Rightarrow> 'w call_config" where
  "apply_call_options [] c = c"
| "apply_call_options (None # os) c = apply_call_options os c"
| "apply_call_options (Some f # os) c = apply_call_options os (f c)"

definition NewCallConfig :: "'w call_option option list \<Rightarrow> 'w call_config" where
  "NewCallConfig os = apply_call_options os empty_config"

definition WithTools :: "'w tool option list \<Rightarrow> 'w call_option" where
  "WithTools ts c = c\<lparr>cc_tools := cc_tools c @ List.map_filter id ts\<rparr>"

definition WithToolChoice :: "string \<Rightarrow> 'w call_option" where
  "WithToolChoice mode c = c\<lparr>cc_tool_choice := Some \<lparr>tch_mode = mode, tch_name = []\<rparr>\<rparr>"

definition WithForcedTool :: "string \<Rightarrow> 'w call_option" where
  "WithForcedTool name c =
     c\<lparr>cc_tool_choice := Some \<lparr>tch_mode = ToolChoiceTool, tch_name = name\<rparr>\<rparr>"

definition WithMaxOutputTokens :: "int \<Rightarrow> 'w call_option" where
  "WithMaxOutputTokens n c = c\<lparr>cc_max_output_tokens := max n 0\<rparr>"

definition WithResponseFormat :: "response_format option \<Rightarrow> 'w call_option" where
  "WithResponseFormat f c = c\<lparr>cc_response_format := f\<rparr>"

definition hasTool :: "'w call_config \<Rightarrow> string \<Rightarrow> bool" where
  "hasTool c name \<longleftrightarrow> list_ex (\<lambda>t. tool_name t = name) (cc_tools c)"

definition validate_choice :: "'w call_config \<Rightarrow> tool_choice \<Rightarrow> err option" where
  "validate_choice c ch =
     (if tch_mode ch = ToolChoiceAuto \<or> tch_mode ch = ToolChoiceNone then None
      else if tch_mode ch = ToolChoiceRequired then
        (if cc_tools c = []
         then Some (errorf1 (Sentinel (LlmE ErrInvalidToolChoice))
                ('': '' @ go_quote (tch_mode ch) @ '' requires at least one tool''))
         else None)
      else if tch_mode ch = ToolChoiceTool then
        (if tch_name ch = []
         then Some (errorf1 (Sentinel (LlmE ErrInvalidToolChoice)) '': forced tool has no name'')
         else if \<not> hasTool c (tch_name ch)
         then Some (errorf1 (Sentinel (LlmE ErrInvalidToolChoice))
                ('': forced tool '' @ go_quote (tch_name ch) @ '' is not offered on this call''))
         else None)
      else Some (errorf1 (Sentinel (LlmE ErrInvalidToolChoice))
             ('': unknown mode '' @ go_quote (tch_mode ch))))"

definition Validate :: "'w call_config \<Rightarrow> err option" where
  "Validate c =
     (case (case cc_tool_choice c of None \<Rightarrow> None | Some ch \<Rightarrow> validate_choice c ch) of
        Some e \<Rightarrow> Some e
      | None \<Rightarrow>
          (case cc_response_format c of
             Some f \<Rightarrow> if rf_name f = [] \<or> rf_schema f = None
                       then Some (Sentinel (LlmE ErrInvalidResponseFormat)) else None
           | None \<Rightarrow> None))"

subsection \<open>LLM clients\<close>

record stream_chunk =
  ch_text_delta :: string
  ch_reasoning_delta :: string
  ch_tool_call :: "tool_call option"
  ch_message :: "message option"
  ch_usage :: "usage option"
  ch_model :: string
  ch_finish :: string
  ch_raw_finish :: string
  ch_done :: bool

definition empty_chunk :: stream_chunk where
  "empty_chunk = \<lparr>ch_text_delta = [], ch_reasoning_delta = [], ch_tool_call = None,
     ch_message = None, ch_usage = None, ch_model = [], ch_finish = [], ch_raw_finish = [],
     ch_done = False\<rparr>"

text \<open>
  \<open>Execute\<close> returns an error or a possibly nil result. A stream is the list of what its iterator
  yields to a consumer that reads it to the end: chunks, and an error as its last item.
\<close>

type_synonym 'w execute =
  "'w goctx \<Rightarrow> message list \<Rightarrow> 'w call_option option list \<Rightarrow> 'w \<Rightarrow> (err + llm_result option) \<times> 'w"

type_synonym 'w execute_stream =
  "'w goctx \<Rightarrow> message list \<Rightarrow> 'w call_option option list \<Rightarrow> 'w \<Rightarrow> (err + stream_chunk) list \<times> 'w"

text \<open>
  An LLM client; \<open>llm_stream\<close> is set when it implements \<open>StreamingLLM\<close>, \<open>llm_describer\<close>
  (provider and model) when it implements \<open>Describer\<close>.
\<close>

record 'w llm =
  llm_execute :: "'w execute"
  llm_stream :: "'w execute_stream option"
  llm_describer :: "(string \<times> string) option"

definition llm_func :: "'w execute \<Rightarrow> 'w llm" where
  "llm_func f = \<lparr>llm_execute = f, llm_stream = None, llm_describer = None\<rparr>"

type_synonym 'w middleware = "'w llm \<Rightarrow> 'w llm"

text \<open>\<open>Use\<close>: the first middleware is the outermost layer.\<close>

fun Use_llm :: "'w llm \<Rightarrow> 'w middleware list \<Rightarrow> 'w llm" where
  "Use_llm base [] = base"
| "Use_llm base (m # ms) = m (Use_llm base ms)"

text \<open>\<open>FromLegacy\<close>: a v1 client takes tools only, so other options are refused.\<close>

definition FromLegacy ::
  "('w goctx \<Rightarrow> message list \<Rightarrow> 'w tool list \<Rightarrow> 'w \<Rightarrow> (err + llm_result option) \<times> 'w) \<Rightarrow> 'w llm" where
  "FromLegacy legacy = llm_func (\<lambda>ctx ms os w.
     let cfg = NewCallConfig os in
     if cc_tool_choice cfg \<noteq> None
     then (Inl (errorf1 (Sentinel (LlmE ErrUnsupportedCallOption)) '': tool choice''), w)
     else if cc_response_format cfg \<noteq> None
     then (Inl (errorf1 (Sentinel (LlmE ErrUnsupportedCallOption)) '': response format''), w)
     else legacy ctx ms (cc_tools cfg) w)"

definition chunk_of_result :: "llm_result option \<Rightarrow> stream_chunk" where
  "chunk_of_result r =
     (case r of
        None \<Rightarrow> empty_chunk\<lparr>ch_done := True\<rparr>
      | Some res \<Rightarrow> empty_chunk\<lparr>ch_done := True, ch_message := res_message res,
          ch_usage := res_usage res, ch_model := res_model res, ch_finish := res_finish res,
          ch_raw_finish := res_raw_finish res,
          ch_text_delta := (case res_message res of None \<Rightarrow> [] | Some m \<Rightarrow> msg_text m)\<rparr>)"

definition StreamOrBuffer :: "'w llm \<Rightarrow> 'w execute_stream" where
  "StreamOrBuffer client ctx ms os w =
     (case llm_stream client of
        Some s \<Rightarrow> s ctx ms os w
      | None \<Rightarrow>
          (case llm_execute client ctx ms os w of
             (Inl e, w') \<Rightarrow> ([Inl e], w')
           | (Inr r, w') \<Rightarrow> ([Inr (chunk_of_result r)], w')))"

subsection \<open>Token estimate and tool names\<close>

definition charsPerToken :: nat where "charsPerToken = 4"
definition messageOverheadTokens :: nat where "messageOverheadTokens = 4"
definition imageTokens :: nat where "imageTokens = 1000"

lemmas estimate_consts = charsPerToken_def messageOverheadTokens_def imageTokens_def

fun count_parts :: "content_part list \<Rightarrow> nat \<Rightarrow> nat \<Rightarrow> nat \<times> nat" where
  "count_parts [] chars images = (chars, images)"
| "count_parts (p # ps) chars images =
     (if cp_type p = ContentTypeImageURL \<or> cp_type p = ContentTypeImageBase64
      then count_parts ps chars (images + 1)
      else count_parts ps (chars + length (cp_text p)) images)"

fun count_calls :: "tool_call list \<Rightarrow> nat \<Rightarrow> nat" where
  "count_calls [] chars = chars"
| "count_calls (tc # tcs) chars =
     count_calls tcs
       (chars + (length (fc_name (tc_function tc)) + length (fc_arguments (tc_function tc))))"

fun count_messages :: "message list \<Rightarrow> nat \<Rightarrow> nat \<Rightarrow> nat \<times> nat" where
  "count_messages [] chars images = (chars, images)"
| "count_messages (m # ms) chars images =
     (case count_parts (parts m) chars images of
        (chars', images') \<Rightarrow> count_messages ms (count_calls (tool_calls m) chars') images')"

definition EstimateTokens :: "message list \<Rightarrow> nat" where
  "EstimateTokens ms =
     (case count_messages ms 0 0 of
        (chars, images) \<Rightarrow>
          chars div charsPerToken + length ms * messageOverheadTokens + images * imageTokens)"

definition MaxToolNameLength :: nat where "MaxToolNameLength = 64"

definition tool_name_char :: "char \<Rightarrow> bool" where
  "tool_name_char c \<longleftrightarrow>
     (97 \<le> byte c \<and> byte c \<le> 122) \<or> (65 \<le> byte c \<and> byte c \<le> 90) \<or>
     (48 \<le> byte c \<and> byte c \<le> 57) \<or> c = CHR ''_'' \<or> c = CHR ''-''"

definition sanitize_rune :: "string \<Rightarrow> char" where
  "sanitize_rune ch =
     (case ch of [c] \<Rightarrow> if tool_name_char c then c else CHR ''_'' | _ \<Rightarrow> CHR ''_'')"

definition SanitizeToolName :: "string \<Rightarrow> string" where
  "SanitizeToolName name = take MaxToolNameLength (map sanitize_rune (utf8_chunks name))"

subsection \<open>Retryable errors\<close>

text \<open>The statuses are \<open>http.StatusRequestTimeout\<close>, \<open>Conflict\<close>, \<open>TooManyRequests\<close> and the 5xx.\<close>

definition IsRetryable :: "err option \<Rightarrow> bool" where
  "IsRetryable eo =
     (case eo of
        None \<Rightarrow> False
      | Some e \<Rightarrow>
          if err_is e (StdE CtxCanceled) then False
          else if err_is e (StdE CtxDeadlineExceeded) then True
          else if err_is e (LlmE ErrContextLengthExceeded) \<or> err_is e (LlmE ErrGuardrailBlocked)
          then False
          else (case err_as_provider e of
                  Some (status, after, ctxlen) \<Rightarrow>
                    status = 408 \<or> status = 409 \<or> status = 429 \<or> 500 \<le> status
                | None \<Rightarrow> err_is_net e \<or> err_is e (StdE ErrUnexpectedEOF)))"

subsection \<open>Facts about messages and estimates\<close>

lemma message_constructors [simp]:
  "role (SystemMessage t) = RoleSystem" "tool_calls (SystemMessage t) = []"
  "role (UserMessage ps) = RoleUser" "parts (UserMessage ps) = ps" "tool_calls (UserMessage ps) = []"
  "role (AssistantMessage ps tcs) = RoleAssistant" "tool_calls (AssistantMessage ps tcs) = tcs"
  "parts (AssistantMessage ps tcs) = ps"
  "role (ToolResultMessage i ps) = RoleTool" "tool_call_id (ToolResultMessage i ps) = i"
  "tool_calls (ToolResultMessage i ps) = []" "parts (ToolResultMessage i ps) = ps"
  by (simp_all add: SystemMessage_def UserMessage_def AssistantMessage_def ToolResultMessage_def
      empty_message_def)

lemma Text_simps [simp]: "cp_type (Text s) = ContentTypeText" "cp_text (Text s) = s"
  by (simp_all add: Text_def empty_part_def)

lemma TextContent_Text [simp]: "TextContent [Text s] = s"
  by (simp add: TextContent_def)

lemma TextContent_Nil [simp]: "TextContent [] = []"
  by (simp add: TextContent_def)

definition part_chars :: "content_part \<Rightarrow> nat" where
  "part_chars p = (if cp_type p = ContentTypeImageURL \<or> cp_type p = ContentTypeImageBase64 then 0
     else length (cp_text p))"

definition part_images :: "content_part \<Rightarrow> nat" where
  "part_images p =
     (if cp_type p = ContentTypeImageURL \<or> cp_type p = ContentTypeImageBase64 then 1 else 0)"

definition call_chars :: "tool_call \<Rightarrow> nat" where
  "call_chars tc = length (fc_name (tc_function tc)) + length (fc_arguments (tc_function tc))"

definition msg_chars :: "message \<Rightarrow> nat" where
  "msg_chars m = sum_list (map part_chars (parts m)) + sum_list (map call_chars (tool_calls m))"

definition msg_images :: "message \<Rightarrow> nat" where
  "msg_images m = sum_list (map part_images (parts m))"

lemma count_parts_eq:
  "count_parts ps chars images =
     (chars + sum_list (map part_chars ps), images + sum_list (map part_images ps))"
  by (induction ps chars images rule: count_parts.induct) (auto simp: part_chars_def part_images_def)

lemma count_calls_eq: "count_calls tcs chars = chars + sum_list (map call_chars tcs)"
  by (induction tcs chars rule: count_calls.induct) (auto simp: call_chars_def)

lemma count_messages_eq:
  "count_messages ms chars images =
     (chars + sum_list (map msg_chars ms), images + sum_list (map msg_images ms))"
  by (induction ms arbitrary: chars images)
    (auto simp: count_parts_eq count_calls_eq msg_chars_def msg_images_def)

text \<open>The loop over messages, parts and calls is a sum over the messages.\<close>

lemma EstimateTokens_eq:
  "EstimateTokens ms =
     sum_list (map msg_chars ms) div 4 + 4 * length ms + 1000 * sum_list (map msg_images ms)"
  by (simp add: EstimateTokens_def count_messages_eq estimate_consts)

lemma EstimateTokens_Nil [simp]: "EstimateTokens [] = 0"
  by (simp add: EstimateTokens_eq)

lemma EstimateTokens_append_le: "EstimateTokens ys \<le> EstimateTokens (xs @ ys)"
  by (simp add: EstimateTokens_eq add_mono div_le_mono)

lemma EstimateTokens_pos: "ms \<noteq> [] \<Longrightarrow> 0 < EstimateTokens ms"
  by (simp add: EstimateTokens_eq)

lemma EstimateTokens_mono_chars:
  assumes "list_all2 (\<lambda>a b. msg_chars a \<le> msg_chars b \<and> msg_images a = msg_images b) xs ys"
  shows "EstimateTokens xs \<le> EstimateTokens ys"
proof -
  from assms have "sum_list (map msg_chars xs) \<le> sum_list (map msg_chars ys)
      \<and> sum_list (map msg_images xs) = sum_list (map msg_images ys) \<and> length xs = length ys"
    by (induction rule: list_all2_induct) (auto intro: add_mono)
  then show ?thesis by (simp add: EstimateTokens_eq add_mono div_le_mono)
qed

lemma tool_name_char_sanitize [simp]: "tool_name_char (sanitize_rune ch)"
  by (auto simp: sanitize_rune_def tool_name_char_def split: list.splits)

lemma rune_size_tool_name_char: "tool_name_char c \<Longrightarrow> rune_size (c # cs) = Some 1"
  by (auto simp: tool_name_char_def byte_def Let_def)

lemma utf8_chunks_tool_name:
  "list_all tool_name_char s \<Longrightarrow> utf8_chunks s = map (\<lambda>c. [c]) s"
proof (induction s)
  case Nil
  then show ?case by simp
next
  case (Cons c s)
  then show ?case
    using rune_size_tool_name_char [of c s]
    by (simp add: utf8_chunks.simps(2) rune_width_def del: rune_size.simps)
qed

lemma sanitize_tool_name_char: "tool_name_char c \<Longrightarrow> sanitize_rune [c] = c"
  by (simp add: sanitize_rune_def)

lemma SanitizeToolName_accepts:
  assumes "list_all tool_name_char s"
  shows "SanitizeToolName s = take MaxToolNameLength s"
  using assms
  by (simp add: SanitizeToolName_def utf8_chunks_tool_name comp_def map_idI list_all_iff
      sanitize_tool_name_char cong: map_cong)

lemma SanitizeToolName_chars: "list_all tool_name_char (SanitizeToolName s)"
  using set_take_subset [of MaxToolNameLength "map sanitize_rune (utf8_chunks s)"]
  by (auto simp: SanitizeToolName_def list_all_iff)

lemma SanitizeToolName_length: "length (SanitizeToolName s) \<le> MaxToolNameLength"
  by (simp add: SanitizeToolName_def)

lemma SanitizeToolName_eq_Nil: "SanitizeToolName s = [] \<longleftrightarrow> s = []"
  by (simp add: SanitizeToolName_def MaxToolNameLength_def)

lemma Use_llm_append: "Use_llm base (ms @ ns) = Use_llm (Use_llm base ns) ms"
  by (induction ms) auto

subsection \<open>Properties\<close>

text \<open>
  A sanitized tool name has at most 64 characters, all of them letters, digits, \<open>_\<close> or \<open>-\<close>;
  sanitizing it again changes nothing, a valid name is only cut, and only the empty
  name gives an empty one.
\<close>

theorem sanitized_tool_names:
  "length (SanitizeToolName s) \<le> MaxToolNameLength \<and> list_all tool_name_char (SanitizeToolName s) \<and>
   SanitizeToolName (SanitizeToolName s) = SanitizeToolName s \<and>
   (SanitizeToolName s = [] \<longleftrightarrow> s = [])"
proof -
  have "SanitizeToolName (SanitizeToolName s) = take MaxToolNameLength (SanitizeToolName s)"
    using SanitizeToolName_accepts [OF SanitizeToolName_chars] .
  then have "SanitizeToolName (SanitizeToolName s) = SanitizeToolName s"
    using SanitizeToolName_length [of s] by simp
  then show ?thesis
    using SanitizeToolName_chars SanitizeToolName_length SanitizeToolName_eq_Nil by simp
qed

end
