(* ===== verification/Text_Render.thy ===== *)
theory Text_Render
  imports Llm
begin

section \<open>Packages internal/textcut and internal/summary: cutting and rendering text\<close>

text \<open>
  \<open>textcut.Head\<close> cuts tool output to a number of bytes without splitting a UTF-8 character;
  \<open>summary.Conversation\<close> renders messages for a summary prompt, with \<open>clip\<close> cutting tool
  arguments and results to a number of code points.

  A cut never splits a character: on a string whose chunks are all valid, \<open>Head\<close> keeps whole
  chunks (\<open>Head_chunks\<close>).
\<close>

subsection \<open>textcut.Head\<close>

text \<open>The loop \<open>for n > 0 && !utf8.RuneStart(s[n]) { n-- }\<close>, for \<open>n < len(s)\<close>.\<close>

fun head_loop :: "string \<Rightarrow> nat \<Rightarrow> nat" where
  "head_loop s 0 = 0"
| "head_loop s (Suc n) = (if rune_start (s ! Suc n) then Suc n else head_loop s n)"

definition Head :: "string \<Rightarrow> int \<Rightarrow> string" where
  "Head s n =
     (if int (length s) \<le> n then s
      else if n \<le> 0 then []
      else take (head_loop s (nat n)) s)"

lemma head_loop_le: "head_loop s n \<le> n"
  by (induction n) (auto simp: le_SucI)

lemma head_loop_start: "head_loop s n \<noteq> 0 \<Longrightarrow> rune_start (s ! head_loop s n)"
  by (induction n) (auto split: if_splits)

lemma head_loop_largest: "m \<le> n \<Longrightarrow> rune_start (s ! m) \<Longrightarrow> m \<le> head_loop s n"
  by (induction n) (auto simp: le_Suc_eq)

text \<open>The result is a prefix within the cap, cut where a character starts.\<close>

lemma Head_prefix: "prefix (Head s n) s"
  by (simp add: Head_def take_is_prefix)

lemma Head_length: "0 \<le> n \<Longrightarrow> int (length (Head s n)) \<le> n"
  using head_loop_le [of s "nat n"] by (auto simp: Head_def min_def)

text \<open>
  A string all of whose chunks are valid UTF-8: inside a chunk every byte but the first is a
  continuation byte.
\<close>

definition valid_utf8 :: "string \<Rightarrow> bool" where
  "valid_utf8 s \<longleftrightarrow> (\<forall>ch \<in> set (utf8_chunks s). rune_size ch \<noteq> None)"

lemma utf8_second_cont: "utf8_second b c \<Longrightarrow> utf8_cont c"
  by (simp add: utf8_second_def)

lemma rune_size_Some_start: "rune_size (c # cs) = Some n \<Longrightarrow> rune_start c"
  by (auto simp: Let_def rune_start_def utf8_cont_def split: if_splits)

lemma rune_size_Some_conts:
  "rune_size (c # cs) = Some n \<Longrightarrow>
     n \<le> Suc (length cs) \<and> list_all utf8_cont (take (n - 1) cs)"
  by (auto simp: Let_def utf8_second_cont split: if_splits list.splits)

lemma rune_size_Some_shape:
  assumes "rune_size (c # cs) = Some n"
  shows "rune_start c \<and> n \<le> Suc (length cs) \<and> (\<forall>i < n - 1. utf8_cont (cs ! i))"
proof -
  have le: "n \<le> Suc (length cs)" and conts: "list_all utf8_cont (take (n - 1) cs)"
    using rune_size_Some_conts [OF assms] by auto
  have "utf8_cont (cs ! i)" if "i < n - 1" for i
  proof -
    have "take (n - 1) cs ! i = cs ! i" using that by simp
    moreover have "i < length (take (n - 1) cs)" using that le by auto
    ultimately show ?thesis using conts by (metis list_all_length)
  qed
  then show ?thesis using le rune_size_Some_start [OF assms] by blast
qed

text \<open>
  \<open>s = concat chs\<close> with \<open>chs\<close> valid chunks: a position where a character starts is a chunk
  boundary.
\<close>

lemma valid_chunks_Cons:
  assumes "valid_utf8 (c # cs)"
  obtains n where "rune_size (c # cs) = Some n" "utf8_chunks (c # cs) = (c # take (n - 1) cs) # utf8_chunks (drop (n - 1) cs)"
    "valid_utf8 (drop (n - 1) cs)"
proof (cases "rune_size (c # cs)")
  case None
  then have "utf8_chunks (c # cs) = [c] # utf8_chunks cs"
    by (simp add: utf8_chunks.simps(2) rune_width_def del: rune_size.simps)
  with assms have "rune_size [c] \<noteq> None" by (simp add: valid_utf8_def del: rune_size.simps)
  then have "byte c < 0x80" by (auto simp: Let_def split: if_splits)
  then have "rune_size (c # cs) = Some 1" by (simp add: Let_def)
  with None show ?thesis by simp
next
  case (Some n)
  then have "utf8_chunks (c # cs) = (c # take (n - 1) cs) # utf8_chunks (drop (n - 1) cs)"
    by (simp add: utf8_chunks.simps(2) rune_width_def Let_def del: rune_size.simps)
  moreover from this assms have "valid_utf8 (drop (n - 1) cs)"
    by (simp add: valid_utf8_def del: rune_size.simps)
  ultimately show ?thesis using Some that by blast
qed

lemma start_is_boundary:
  assumes "valid_utf8 s" and "k \<le> length s" and "k < length s \<longrightarrow> rune_start (s ! k)"
  shows "\<exists>j. take k s = concat (take j (utf8_chunks s))"
  using assms
proof (induction "length s" arbitrary: s k rule: less_induct)
  case less
  show ?case
  proof (cases s)
    case Nil
    then show ?thesis by (intro exI [of _ 0]) simp
  next
    case (Cons c cs)
    show ?thesis
    proof (cases "k = 0")
      case True
      then show ?thesis by (intro exI [of _ 0]) simp
    next
      case False
      from less.prems(1) Cons obtain n where n: "rune_size (c # cs) = Some n"
        and ch: "utf8_chunks (c # cs) = (c # take (n - 1) cs) # utf8_chunks (drop (n - 1) cs)"
        and v: "valid_utf8 (drop (n - 1) cs)"
        by (metis valid_chunks_Cons)
      have shape: "n \<le> Suc (length cs)" "\<And>i. i < n - 1 \<Longrightarrow> utf8_cont (cs ! i)"
        using rune_size_Some_shape [OF n] by auto
      have n0: "0 < n" using rune_size_pos [OF n] .
      have "n \<le> k"
      proof (rule ccontr)
        assume "\<not> n \<le> k"
        with False have "k - 1 < n - 1" by simp
        with shape have "utf8_cont (s ! k)" using Cons False by (simp add: nth_Cons')
        moreover have "k < length s" using \<open>\<not> n \<le> k\<close> shape(1) Cons by simp
        ultimately show False using less.prems(3) by (simp add: rune_start_def)
      qed
      let ?s' = "drop (n - 1) cs"
      have s': "?s' = drop n s" "length ?s' < length s"
        using Cons n0 by (simp_all add: drop_Cons')
      have "\<exists>j. take (k - n) ?s' = concat (take j (utf8_chunks ?s'))"
      proof (rule less.hyps)
        show "length ?s' < length s" by (rule s')
        show "valid_utf8 ?s'" by (rule v)
        show "k - n \<le> length ?s'" using less.prems(2) s'(1) by simp
        show "k - n < length ?s' \<longrightarrow> rune_start (?s' ! (k - n))"
          using less.prems(2,3) s'(1) \<open>n \<le> k\<close> by (simp add: nth_drop)
      qed
      then obtain j where j: "take (k - n) ?s' = concat (take j (utf8_chunks ?s'))" ..
      have "take k s = take n s @ take (k - n) ?s'"
        using \<open>n \<le> k\<close> s'(1) by (metis le_add_diff_inverse take_add)
      also have "take n s = c # take (n - 1) cs"
        using Cons n0 by (simp add: take_Cons')
      finally have "take k s = concat (take (Suc j) (utf8_chunks s))"
        using Cons ch j by simp
      then show ?thesis by blast
    qed
  qed
qed

lemma Head_chunks:
  assumes "valid_utf8 s"
  shows "\<exists>j. Head s n = concat (take j (utf8_chunks s))"
proof -
  have 1: "\<exists>j. s = concat (take j (utf8_chunks s))"
    by (rule exI [of _ "length (utf8_chunks s)"]) simp
  have 2: "\<exists>j. [] = concat (take j (utf8_chunks s))"
    by (rule exI [of _ 0]) simp
  let ?k = "head_loop s (nat n)"
  have "\<exists>j. take ?k s = concat (take j (utf8_chunks s))" if "n < int (length s)" "0 < n"
  proof (cases "?k = 0")
    case True
    then show ?thesis using 2 by simp
  next
    case False
    show ?thesis
      using assms head_loop_start [OF False] head_loop_le [of s "nat n"] that
      by (intro start_is_boundary) auto
  qed
  with 1 2 show ?thesis by (auto simp: Head_def)
qed

subsection \<open>summary.Conversation\<close>

definition toolArgsLimit :: nat where "toolArgsLimit = 500"
definition toolTextLimit :: nat where "toolTextLimit = 4000"

text \<open>The mark \<open>" [\<dots>]"\<close> has the ellipsis U+2026, three bytes.\<close>

definition clip_mark :: string where
  "clip_mark = '' ['' @ [CHR 0xE2, CHR 0x80, CHR 0xA6] @ '']''"

definition clip :: "string \<Rightarrow> nat \<Rightarrow> string" where
  "clip s limit =
     (let rs = runes s in if length rs \<le> limit then s else concat (take limit rs) @ clip_mark)"

definition nl :: string where "nl = [CHR 0x0A]"

definition render_call :: "tool_call \<Rightarrow> string" where
  "render_call tc =
     ''- tool call '' @ tc_id tc @ '': '' @ fc_name (tc_function tc) @ ''('' @
     clip (fc_arguments (tc_function tc)) toolArgsLimit @ '')'' @ nl"

definition render_message :: "message \<Rightarrow> string" where
  "render_message m =
     ''## '' @ role m @
     (if role m = RoleTool
      then '' '' @ (if tool_error m then ''error'' else ''result'') @
           '' (call '' @ tool_call_id m @ '')'' @ nl @ clip (msg_text m) toolTextLimit @ nl
      else nl @ msg_text m @ nl) @
     concat (map render_call (tool_calls m)) @ nl"

definition Conversation :: "message list \<Rightarrow> string" where
  "Conversation ms = concat (map render_message ms)"

subsection \<open>Properties\<close>

text \<open>
  Cutting text to \<open>n\<close> bytes gives a prefix of at most \<open>n\<close> bytes (nothing for a cap of zero or
  less), and on valid UTF-8 it never splits a character: the prefix consists of whole characters.
\<close>

theorem head_cuts_at_characters:
  assumes "valid_utf8 s"
  shows "prefix (Head s n) s \<and> int (length (Head s n)) \<le> max n 0 \<and>
    (\<exists>j. Head s n = concat (take j (utf8_chunks s)))"
proof -
  have "int (length (Head s n)) \<le> max n 0"
  proof (cases "0 \<le> n")
    case True
    then show ?thesis using Head_length [OF True, of s] by simp
  next
    case False
    then show ?thesis by (auto simp: Head_def)
  qed
  with Head_prefix [of s n] Head_chunks [OF assms, of n] show ?thesis by blast
qed

theorem head_cuts_at_characters_witness:
  "prefix (Head [CHR ''a'', CHR 0xC3, CHR 0xA9] 2) [CHR ''a'', CHR 0xC3, CHR 0xA9] \<and>
   Head [CHR ''a'', CHR 0xC3, CHR 0xA9] 2 = ''a''"
proof -
  have "valid_utf8 [CHR ''a'', CHR 0xC3, CHR 0xA9]" by code_simp
  moreover have "Head [CHR ''a'', CHR 0xC3, CHR 0xA9] 2 = ''a''" by code_simp
  ultimately show ?thesis using head_cuts_at_characters by blast
qed

end
