(* ===== verification/Memory_Core.thy ===== *)
theory Memory_Core
  imports Text_Render
begin

section \<open>Packages memory and internal/snaplog: snapshots, cursors and splits\<close>

text \<open>
  The types of \<open>memory/snapshot.go\<close>, the split of \<open>memory/split.go\<close>, the summary prompt of
  \<open>memory/summary.go\<close>, and the cursor arithmetic of \<open>internal/snaplog/snaplog.go\<close>.

  A cursor names an absolute position of a log, so it stays valid while older messages are
  evicted (\<open>Tail_evict\<close>). The locale \<open>snapshot_store\<close> states what a \<open>memory.SnapshotStore\<close>
  promises the agent, and proves inside it what the agent relies on: of two writers that loaded
  the same snapshot, the second one fails with \<open>ErrSnapshotConflict\<close>.

  Positions are \<^typ>\<open>int\<close>: \<open>upTo+1\<close> wraps only for the cursor of position \<open>2^63-1\<close>, which no
  log reaches, and \<open>SaveSnapshot\<close> refuses a cursor of a message not saved yet.
\<close>

subsection \<open>Snapshots\<close>

type_synonym cursor = string

record snapshot =
  sn_summary :: string
  sn_pinned :: "message list"
  sn_upTo :: cursor

record logged_message =
  lm_message :: message
  lm_cursor :: cursor

definition SummarySystemMessagePrefix :: string where
  "SummarySystemMessagePrefix = ''Summary of previous conversation:'' @ nl"

definition SummaryMessages :: "snapshot \<Rightarrow> message list" where
  "SummaryMessages s =
     UserMessage [Text (SummarySystemMessagePrefix @ sn_summary s)] # sn_pinned s"

subsection \<open>Where to split a conversation\<close>

definition is_tool :: "message \<Rightarrow> bool" where
  "is_tool m \<longleftrightarrow> role m = RoleTool"

function split_loop :: "message list \<Rightarrow> nat \<Rightarrow> nat" where
  "split_loop ms i =
     (if i < length ms \<and> role (ms ! i) = RoleTool then split_loop ms (Suc i) else i)"
  by pat_completeness auto
termination
  by (relation "measure (\<lambda>(ms, i). length ms - i)") auto

declare split_loop.simps [simp del]

definition SplitPoint :: "message list \<Rightarrow> int \<Rightarrow> nat" where
  "SplitPoint ms i = split_loop ms (nat (max 0 (min i (int (length ms)))))"

lemma drop_split_loop: "drop (split_loop ms i) ms = dropWhile is_tool (drop i ms)"
proof (induction ms i rule: split_loop.induct)
  case (1 ms i)
  show ?case
  proof (cases "i < length ms \<and> role (ms ! i) = RoleTool")
    case True
    then have "split_loop ms i = split_loop ms (Suc i)" by (subst split_loop.simps) simp
    moreover have "dropWhile is_tool (drop i ms) = dropWhile is_tool (drop (Suc i) ms)"
      using True by (simp add: is_tool_def Cons_nth_drop_Suc [symmetric])
    ultimately show ?thesis using 1 True by simp
  next
    case False
    then have "split_loop ms i = i" by (simp only: split_loop.simps [of ms i] if_False)
    moreover have "drop i ms = dropWhile is_tool (drop i ms)"
      using False by (cases "i < length ms") (auto simp: is_tool_def Cons_nth_drop_Suc [symmetric])
    ultimately show ?thesis by simp
  qed
qed

lemma split_loop_bounds: "i \<le> length ms \<Longrightarrow> i \<le> split_loop ms i \<and> split_loop ms i \<le> length ms"
proof (induction ms i rule: split_loop.induct)
  case (1 ms i)
  then show ?case by (subst (1 2) split_loop.simps) auto
qed

lemma SplitPoint_le: "SplitPoint ms i \<le> length ms"
  using split_loop_bounds [of "nat (max 0 (min i (int (length ms))))" ms]
  by (auto simp: SplitPoint_def)

lemma SplitPoint_ge: "i \<le> int (length ms) \<Longrightarrow> i \<le> int (SplitPoint ms i)"
  using split_loop_bounds [of "nat (max 0 (min i (int (length ms))))" ms]
  by (cases "0 \<le> i") (auto simp: SplitPoint_def min_def max_def nat_le_iff split: if_splits)

lemma drop_SplitPoint:
  "drop (SplitPoint ms i) ms = dropWhile is_tool (drop (nat (min i (int (length ms)))) ms)"
  by (cases "0 \<le> i") (simp_all add: SplitPoint_def drop_split_loop max_def min_def)

lemma drop_SplitPoint_0: "drop (SplitPoint ms 0) ms = dropWhile is_tool ms"
  by (simp add: drop_SplitPoint)

lemma hd_dropWhile_is_tool: "dropWhile is_tool ms = m # rest \<Longrightarrow> role m \<noteq> RoleTool"
  by (metis dropWhile_eq_Cons_conv is_tool_def)

text \<open>What is skipped between the wanted index and the split is tool results.\<close>

lemma SplitPoint_skips:
  assumes "nat i \<le> k" and "k < SplitPoint ms i"
  shows "role (ms ! k) = RoleTool"
proof -
  let ?i = "nat (max 0 (min i (int (length ms))))"
  have aux: "j \<le> k \<Longrightarrow> k < split_loop ms j \<Longrightarrow> role (ms ! k) = RoleTool" for j
  proof (induction ms j rule: split_loop.induct)
    case (1 ms j)
    show ?case
    proof (cases "j < length ms \<and> role (ms ! j) = RoleTool")
      case True
      with 1 show ?thesis
        by (cases "j = k") (auto simp: split_loop.simps [of ms j])
    next
      case False
      with "1.prems" show ?thesis by (simp add: split_loop.simps [of ms j])
    qed
  qed
  have "?i \<le> k" using assms SplitPoint_le [of ms i] by auto
  then show ?thesis using aux assms(2) by (simp add: SplitPoint_def)
qed

subsection \<open>Summaries\<close>

definition summaryPrompt :: string where
  \<open>summaryPrompt = go_join [
    ''# Role'',
    ''You are a Memory Synthesis Module for an AI Agent. Your goal is to condense the provided'',
    ''conversation history into a structured "State Snapshot" while preserving crucial details for'',
    ''future reasoning.'',
    '''',
    ''# Task'',
    ''Analyze the dialogue below and generate a concise summary based on these four pillars:'',
    '''',
    ''1. **Entities & Facts:** List key people, technical stacks, or specific data points mentioned.'',
    ''2. **User Preferences:** Explicit or implicit likes, dislikes, and stylistic requirements'',
    ''(e.g., "Prefers Go over Python," "Dislikes verbose explanations").'',
    ''3. **Current Progress:** What was achieved in this window? What problems were solved?'',
    ''Include the tool calls that mattered and their outcome: files read or changed, commands'',
    ''run, errors met.'',
    ''4. **Open Loops:** What are the pending questions, tasks, or follow-up items the user is expecting?'',
    '''',
    ''# Constraints'',
    ''- Do not use filler phrases like "The user and the AI discussed..."'',
    ''- Be dense and factual. '',
    ''- Use Markdown bullet points.'',
    ''- If a fact has changed (e.g., User changed their mind), only record the most recent state.'',
    '''',
    ''---'',
    ''# CONVERSATION TO SUMMARIZE:'',
    ''''] nl\<close>

definition FormatSummaryPrompt :: "message list \<Rightarrow> message" where
  "FormatSummaryPrompt conversation =
     UserMessage [Text (summaryPrompt @ Conversation conversation)]"

definition summaryDefaultHalve :: nat where "summaryDefaultHalve = 2"

definition ClampSummarySize :: "nat \<Rightarrow> nat \<Rightarrow> nat" where
  "ClampSummarySize threshold size0 =
     (let size1 = (if size0 = 0 \<and> 0 < threshold
                   then (let h = threshold div summaryDefaultHalve in if h = 0 then 1 else h)
                   else size0)
      in if threshold \<le> size1 \<and> 0 < threshold
         then (if 1 < threshold then threshold - 1 else 1)
         else size1)"

lemma ClampSummarySize_pos: "0 < threshold \<Longrightarrow> 0 < ClampSummarySize threshold n"
  by (simp add: ClampSummarySize_def Let_def)

lemma ClampSummarySize_less: "1 < threshold \<Longrightarrow> ClampSummarySize threshold n < threshold"
  by (auto simp: ClampSummarySize_def Let_def summaryDefaultHalve_def)

lemma ClampSummarySize_id: "0 < n \<Longrightarrow> n < threshold \<Longrightarrow> ClampSummarySize threshold n = n"
  by (simp add: ClampSummarySize_def Let_def)

subsection \<open>Cursors\<close>

definition Cursor :: "int \<Rightarrow> cursor" where
  "Cursor pos = go_itoa pos"

definition invalid_cursor :: "cursor \<Rightarrow> err" where
  "invalid_cursor c = errorf1 (Sentinel (MemoryE ErrInvalidCursor)) ('': '' @ go_quote c)"

definition Position :: "cursor \<Rightarrow> err + int" where
  "Position c =
     (case go_atoi c of
        Some pos \<Rightarrow> if pos < 0 then Inl (invalid_cursor c) else Inr pos
      | None \<Rightarrow> Inl (invalid_cursor c))"

definition Same :: "snapshot option \<Rightarrow> snapshot option \<Rightarrow> bool" where
  "Same a b \<longleftrightarrow>
     (case (a, b) of
        (Some x, Some y) \<Rightarrow> sn_upTo x = sn_upTo y
      | _ \<Rightarrow> a = None \<and> b = None)"

fun tail_loop :: "int \<Rightarrow> message list \<Rightarrow> logged_message list \<Rightarrow> logged_message list" where
  "tail_loop pos [] out = out"
| "tail_loop pos (m # ms) out =
     (if out = [] \<and> role m = RoleTool then tail_loop (pos + 1) ms out
      else tail_loop (pos + 1) ms (out @ [\<lparr>lm_message = m, lm_cursor = Cursor pos\<rparr>]))"

definition tail_start :: "int \<Rightarrow> snapshot option \<Rightarrow> nat" where
  "tail_start offset sn =
     (case sn of
        None \<Rightarrow> 0
      | Some s \<Rightarrow> (case Position (sn_upTo s) of
                    Inr upTo \<Rightarrow> nat (max (upTo + 1 - offset) 0)
                  | Inl e \<Rightarrow> 0))"

definition Tail :: "message list \<Rightarrow> int \<Rightarrow> snapshot option \<Rightarrow> logged_message list" where
  "Tail ms offset sn =
     (let start = tail_start offset sn in tail_loop (offset + int start) (drop start ms) [])"

definition View :: "message list \<Rightarrow> int \<Rightarrow> snapshot \<Rightarrow> message list" where
  "View ms offset sn = SummaryMessages sn @ map lm_message (Tail ms offset (Some sn))"

definition Cutoff ::
  "snapshot option \<Rightarrow> snapshot option \<Rightarrow> cursor \<Rightarrow> int \<Rightarrow> err + int" where
  "Cutoff current prev upTo next =
     (if \<not> Same current prev then Inl (Sentinel (MemoryE ErrSnapshotConflict))
      else case Position upTo of
        Inl e \<Rightarrow> Inl (invalid_cursor upTo)
      | Inr pos \<Rightarrow>
          if next \<le> pos then Inl (invalid_cursor upTo)
          else (case current of
                  None \<Rightarrow> Inr pos
                | Some cur \<Rightarrow>
                    (case Position (sn_upTo cur) of
                       Inl e \<Rightarrow> Inr pos
                     | Inr prevPos \<Rightarrow>
                         if pos \<le> prevPos
                         then Inl (errorf1 (Sentinel (MemoryE ErrInvalidCursor))
                                ('': '' @ go_quote upTo @ '' does not move past '' @
                                 go_quote (sn_upTo cur)))
                         else Inr pos)))"

lemma Position_Cursor:
  assumes "0 \<le> pos" and "pos \<le> max_int64"
  shows "Position (Cursor pos) = Inr pos"
  using assms go_atoi_itoa [of pos] by (simp add: Position_def Cursor_def min_int64_def)

lemma Position_nonneg: "Position c = Inr p \<Longrightarrow> 0 \<le> p"
  by (auto simp: Position_def split: option.splits if_splits)

lemma Same_refl [simp]: "Same a a"
  by (simp add: Same_def split: option.splits)

lemma Same_sym: "Same a b \<Longrightarrow> Same b a"
  by (auto simp: Same_def split: option.splits)

lemma Same_trans: "Same a b \<Longrightarrow> Same b c \<Longrightarrow> Same a c"
  by (auto simp: Same_def split: option.splits)

lemma Cutoff_Inr:
  "Cutoff current prev upTo next = Inr pos \<longleftrightarrow>
     Same current prev \<and> Position upTo = Inr pos \<and> pos < next \<and>
     (case current of None \<Rightarrow> True
      | Some cur \<Rightarrow> (case Position (sn_upTo cur) of Inl _ \<Rightarrow> True | Inr q \<Rightarrow> q < pos))"
  by (auto simp: Cutoff_def split: sum.splits option.splits if_splits)

lemma Cutoff_conflict:
  "\<not> Same current prev \<Longrightarrow> Cutoff current prev upTo next = Inl (Sentinel (MemoryE ErrSnapshotConflict))"
  by (simp add: Cutoff_def)

lemma Cutoff_invalid:
  assumes "Cutoff current prev upTo next = Inl e" and "Same current prev"
  shows "err_is e (MemoryE ErrInvalidCursor)"
  using assms by (auto simp: Cutoff_def invalid_cursor_def split: sum.splits option.splits if_splits)

text \<open>A snapshot that was saved past another one is not the same as it.\<close>

lemma Cutoff_moves:
  assumes "Cutoff current prev upTo next = Inr pos"
  shows "\<not> Same current (Some (s\<lparr>sn_upTo := upTo\<rparr>))"
  using assms by (auto simp: Cutoff_Inr Same_def split: option.splits sum.splits)

subsection \<open>The tail of a log\<close>

definition log_at :: "int \<Rightarrow> message list \<Rightarrow> logged_message list" where
  "log_at pos ms =
     map (\<lambda>i. \<lparr>lm_message = ms ! i, lm_cursor = Cursor (pos + int i)\<rparr>) [0..<length ms]"

lemma log_at_Nil [simp]: "log_at pos [] = []"
  by (simp add: log_at_def)

lemma log_at_Cons:
  "log_at pos (m # ms) = \<lparr>lm_message = m, lm_cursor = Cursor pos\<rparr> # log_at (pos + 1) ms"
  unfolding log_at_def
  by (simp add: upt_conv_Cons map_Suc_upt [symmetric] add.assoc del: upt_Suc)

lemma map_lm_message_log_at [simp]: "map lm_message (log_at pos ms) = ms"
  by (simp add: log_at_def comp_def map_nth)

lemma length_log_at [simp]: "length (log_at pos ms) = length ms"
  by (simp add: log_at_def)

lemma log_at_eq_Nil [simp]: "log_at pos ms = [] \<longleftrightarrow> ms = []"
  by (simp add: log_at_def)

lemma log_at_append: "log_at pos (xs @ ys) = log_at pos xs @ log_at (pos + int (length xs)) ys"
  by (induction xs arbitrary: pos) (simp_all add: log_at_Cons add.assoc add.commute [of 1])

lemma drop_log_at: "drop k (log_at pos ms) = log_at (pos + int k) (drop k ms)"
proof (cases "k \<le> length ms")
  case True
  have "drop k (log_at pos (take k ms @ drop k ms)) = log_at (pos + int k) (drop k ms)"
    using True by (simp only: log_at_append) simp
  then show ?thesis by simp
qed simp

definition drop_orphans :: "logged_message list \<Rightarrow> logged_message list" where
  "drop_orphans = dropWhile (\<lambda>l. is_tool (lm_message l))"

lemma tail_loop_started: "out \<noteq> [] \<Longrightarrow> tail_loop pos ms out = out @ log_at pos ms"
  by (induction ms arbitrary: pos out) (auto simp: log_at_Cons)

lemma tail_loop_eq: "tail_loop pos ms [] = drop_orphans (log_at pos ms)"
  by (induction ms arbitrary: pos)
    (auto simp: log_at_Cons drop_orphans_def is_tool_def tail_loop_started)

lemma Tail_eq:
  "Tail ms offset sn = drop_orphans (drop (tail_start offset sn) (log_at offset ms))"
  by (simp add: Tail_def Let_def tail_loop_eq drop_log_at)

lemma map_lm_message_Tail:
  "map lm_message (Tail ms offset sn) = dropWhile is_tool (drop (tail_start offset sn) ms)"
  by (simp add: Tail_eq drop_orphans_def drop_log_at dropWhile_map [unfolded comp_def, symmetric])

lemma suffix_dropWhile_mono: "suffix xs ys \<Longrightarrow> suffix (dropWhile p xs) (dropWhile p ys)"
proof (induction ys)
  case (Cons y ys)
  then consider "xs = y # ys" | "suffix xs ys" by (auto simp: suffix_Cons)
  then show ?case
  proof cases
    case 2
    then have "suffix (dropWhile p xs) (dropWhile p ys)" by (rule Cons.IH)
    moreover have "suffix (dropWhile p xs) ys"
      using 2 suffix_dropWhile suffix_order.trans by blast
    ultimately show ?thesis by (auto intro: suffix_ConsI)
  qed simp
qed simp

text \<open>Evicting the \<open>k\<close> oldest messages leaves a suffix of the tail, under the same cursors.\<close>

lemma Tail_evict:
  assumes "k \<le> length ms"
  shows "suffix (Tail (drop k ms) (offset + int k) sn) (Tail ms offset sn)"
proof -
  let ?a = "tail_start offset sn" and ?b = "tail_start (offset + int k) sn"
  have ab: "?a \<le> ?b + k" by (auto simp: tail_start_def split: option.splits sum.splits)
  have "log_at (offset + int k) (drop k ms) = drop k (log_at offset ms)"
    by (simp add: drop_log_at)
  then have "drop ?b (log_at (offset + int k) (drop k ms)) = drop (?b + k) (log_at offset ms)"
    by (simp add: add.commute)
  also have "suffix \<dots> (drop ?a (log_at offset ms))"
    using ab by (metis drop_drop le_add_diff_inverse2 suffix_drop)
  finally show ?thesis
    by (simp add: Tail_eq drop_orphans_def suffix_dropWhile_mono)
qed

lemma Tail_not_orphan: 
  assumes "Tail ms offset sn = l # ls"
  shows "role (lm_message l) \<noteq> RoleTool"
proof (rule hd_dropWhile_is_tool)
  show "dropWhile is_tool (drop (tail_start offset sn) ms) = lm_message l # map lm_message ls"
    using map_lm_message_Tail [of ms offset sn] assms by simp
qed

subsection \<open>What a snapshot store promises\<close>

text \<open>
  The contract of \<open>memory.SnapshotStore\<close> as the agent uses it: \<open>load\<close> is \<open>LoadSnapshot\<close>,
  \<open>add\<close> is \<open>Save\<close>, \<open>store\<close> is \<open>SaveSnapshot\<close>. Adding messages keeps the snapshot and
  leaves a suffix of the old tail with the new messages (a bounded store evicts from the front);
  storing a snapshot compares \<open>prev\<close>, moves the cutoff forward and leaves a suffix of the
  tail; no tail starts with a tool result.
\<close>

locale snapshot_store =
  fixes load :: "'s \<Rightarrow> snapshot option \<times> logged_message list"
    and add :: "message list \<Rightarrow> 's \<Rightarrow> 's"
    and store :: "snapshot \<Rightarrow> cursor \<Rightarrow> snapshot option \<Rightarrow> 's \<Rightarrow> err + 's"
    and inv :: "'s \<Rightarrow> bool"
  assumes add_inv: "inv s \<Longrightarrow> inv (add ms s)"
    and add_snapshot: "inv s \<Longrightarrow> fst (load (add ms s)) = fst (load s)"
    and add_tail: "inv s \<Longrightarrow>
      suffix (map lm_message (snd (load (add ms s)))) (map lm_message (snd (load s)) @ ms)"
    and no_orphan: "inv s \<Longrightarrow> snd (load s) = l # ls \<Longrightarrow> role (lm_message l) \<noteq> RoleTool"
    and store_inv: "inv s \<Longrightarrow> store sn c prev s = Inr s' \<Longrightarrow> inv s'"
    and store_snapshot: "inv s \<Longrightarrow> store sn c prev s = Inr s' \<Longrightarrow>
      fst (load s') = Some (sn\<lparr>sn_upTo := c\<rparr>)"
    and store_tail: "inv s \<Longrightarrow> store sn c prev s = Inr s' \<Longrightarrow> suffix (snd (load s')) (snd (load s))"
    and store_moves: "inv s \<Longrightarrow> store sn c prev s = Inr s' \<Longrightarrow>
      \<not> Same (fst (load s)) (Some (sn\<lparr>sn_upTo := c\<rparr>))"
    and store_conflict: "inv s \<Longrightarrow> \<not> Same (fst (load s)) prev \<Longrightarrow>
      store sn c prev s = Inl (Sentinel (MemoryE ErrSnapshotConflict))"
begin

lemma store_same: "inv s \<Longrightarrow> store sn c prev s = Inr s' \<Longrightarrow> Same (fst (load s)) prev"
  using store_conflict [of s prev sn c] by fastforce

text \<open>
  Two writers that loaded the same snapshot: once the first one stored, the second one conflicts,
  whatever was added in between.
\<close>

lemma two_writers:
  assumes "inv s" and "Same prev1 prev2"
    and first: "store sn1 c1 prev1 s = Inr s1"
  shows "store sn2 c2 prev2 (add ms s1) = Inl (Sentinel (MemoryE ErrSnapshotConflict))"
proof (rule store_conflict)
  from \<open>inv s\<close> first have "inv s1" by (rule store_inv)
  then show "inv (add ms s1)" by (rule add_inv)
  show "\<not> Same (fst (load (add ms s1))) prev2"
  proof
    assume "Same (fst (load (add ms s1))) prev2"
    with \<open>inv s1\<close> add_snapshot store_snapshot [OF \<open>inv s\<close> first]
    have "Same (Some (sn1\<lparr>sn_upTo := c1\<rparr>)) prev2" by metis
    with store_same [OF \<open>inv s\<close> first] \<open>Same prev1 prev2\<close>
    have "Same (fst (load s)) (Some (sn1\<lparr>sn_upTo := c1\<rparr>))"
      using Same_sym Same_trans by blast
    with store_moves [OF \<open>inv s\<close> first] show False by simp
  qed
qed

text \<open>What is loaded after a store and more messages: the new snapshot and a suffix of the rest.\<close>

lemma store_then_add:
  assumes "inv s" and "store sn c prev s = Inr s'"
  shows "fst (load (add ms s')) = Some (sn\<lparr>sn_upTo := c\<rparr>) \<and>
    suffix (map lm_message (snd (load (add ms s')))) (map lm_message (snd (load s)) @ ms)"
proof -
  from assms have i: "inv s'" by (rule store_inv)
  have "suffix (map lm_message (snd (load s'))) (map lm_message (snd (load s)))"
    using store_tail [OF assms] by (auto simp: suffix_def)
  then have "suffix (map lm_message (snd (load s')) @ ms) (map lm_message (snd (load s)) @ ms)"
    by (auto simp: suffix_def)
  with add_tail [OF i, of ms] have
    "suffix (map lm_message (snd (load (add ms s')))) (map lm_message (snd (load s)) @ ms)"
    by (rule suffix_order.trans)
  with add_snapshot [OF i, of ms] store_snapshot [OF assms] show ?thesis by simp
qed

end

subsection \<open>Properties\<close>

text \<open>
  A split never leaves a tool result without its call on the kept side: the kept part is what
  stands from the wanted index (clamped to the conversation) without its leading tool results, so
  it does not start with one, and only tool results move to the summarized side.
\<close>

theorem split_keeps_tool_results:
  "SplitPoint ms i \<le> length ms \<and>
   drop (SplitPoint ms i) ms = dropWhile is_tool (drop (nat (min i (int (length ms)))) ms) \<and>
   list_all is_tool (drop (nat (min i (int (length ms)))) (take (SplitPoint ms i) ms))"
proof -
  let ?i = "nat (min i (int (length ms)))"
  have "is_tool (ms ! k)" if "?i \<le> k" "k < SplitPoint ms i" for k
    using SplitPoint_skips [of i k ms] SplitPoint_le [of ms i] that by (auto simp: is_tool_def)
  then have "list_all is_tool (drop ?i (take (SplitPoint ms i) ms))"
    using SplitPoint_le [of ms i] by (auto simp: list_all_length)
  then show ?thesis by (simp add: SplitPoint_le drop_SplitPoint)
qed

text \<open>
  A cursor survives eviction: when the \<open>k\<close> oldest messages of a log are evicted, the tail
  after a snapshot is a suffix of the one before, with the same cursors.
\<close>

theorem cursors_survive_eviction:
  "suffix (Tail (drop k ms) (offset + int k) sn) (Tail ms offset sn)"
proof (cases "k \<le> length ms")
  case True
  then show ?thesis by (rule Tail_evict)
next
  case False
  then show ?thesis by (simp add: Tail_eq drop_orphans_def)
qed

end
