(* ===== verification/Ring_Buffer.thy ===== *)
theory Ring_Buffer
  imports Go_Base
begin

section \<open>Package memory/simple: the ring buffer\<close>

text \<open>
  \<open>ringBuffer[T]\<close> of \<open>memory/simple/ringbuffer.go\<close>: a slice of fixed size, the index of the
  next write and the number of elements. \<open>z\<close> is the zero value of the element type, which
  \<open>make\<close> fills the slice with. A write to a buffer of size 0 panics: \<open>Add_ring\<close> is \<open>None\<close>.

  The locale \<open>bounded_buffer\<close> is the contract the memory relies on: a FIFO that keeps the last
  \<open>cap\<close> elements. The ring buffer implements it (\<open>rb\<close>), with \<open>Get_ring\<close> as abstraction.
\<close>

record 'a ring =
  rb_buffer :: "'a list"
  rb_size :: nat
  rb_write :: nat
  rb_count :: nat

definition newRingBuffer :: "'a \<Rightarrow> nat \<Rightarrow> 'a ring" where
  "newRingBuffer z n =
     \<lparr>rb_buffer = replicate n z, rb_size = n, rb_write = 0, rb_count = 0\<rparr>"

definition Add_ring :: "'a \<Rightarrow> 'a ring \<Rightarrow> 'a ring option" where
  "Add_ring v rb =
     (if rb_write rb < length (rb_buffer rb)
      then Some (rb\<lparr>rb_buffer := (rb_buffer rb)[rb_write rb := v],
                   rb_write := (rb_write rb + 1) mod rb_size rb,
                   rb_count := (if rb_count rb < rb_size rb then rb_count rb + 1
                                else rb_count rb)\<rparr>)
      else None)"

definition Clear_ring :: "'a \<Rightarrow> 'a ring \<Rightarrow> 'a ring" where
  "Clear_ring z rb =
     rb\<lparr>rb_buffer := replicate (rb_size rb) z, rb_write := 0, rb_count := 0\<rparr>"

text \<open>The loop over the values in \<open>Replace\<close> and in \<open>Memory.Save\<close>.\<close>

fun add_loop :: "('a \<Rightarrow> 'b \<Rightarrow> 'b option) \<Rightarrow> 'a list \<Rightarrow> 'b \<Rightarrow> 'b option" where
  "add_loop add [] b = Some b"
| "add_loop add (x # xs) b = (case add x b of None \<Rightarrow> None | Some b' \<Rightarrow> add_loop add xs b')"

definition Replace_ring :: "'a \<Rightarrow> 'a list \<Rightarrow> 'a ring \<Rightarrow> 'a ring option" where
  "Replace_ring z vs rb = add_loop Add_ring vs (Clear_ring z rb)"

definition ring_index :: "'a ring \<Rightarrow> nat \<Rightarrow> nat" where
  "ring_index rb i = (rb_write rb + rb_size rb - rb_count rb + i) mod rb_size rb"

definition Get_ring :: "'a ring \<Rightarrow> 'a list" where
  "Get_ring rb = map (\<lambda>i. rb_buffer rb ! ring_index rb i) [0..<rb_count rb]"

definition Len_ring :: "'a ring \<Rightarrow> nat" where
  "Len_ring rb = rb_count rb"

definition ring_wf :: "'a ring \<Rightarrow> bool" where
  "ring_wf rb \<longleftrightarrow> 0 < rb_size rb \<and> length (rb_buffer rb) = rb_size rb \<and>
     rb_write rb < rb_size rb \<and> rb_count rb \<le> rb_size rb"

lemma length_Get_ring [simp]: "length (Get_ring rb) = Len_ring rb"
  by (simp add: Get_ring_def Len_ring_def)

lemma ring_index_eq:
  assumes "ring_wf rb" and "i < rb_count rb"
  shows "ring_index rb i =
    (if rb_write rb + i < rb_count rb then rb_write rb + rb_size rb - rb_count rb + i
     else rb_write rb + i - rb_count rb)"
proof (cases "rb_write rb + i < rb_count rb")
  case True
  with assms have "rb_write rb + rb_size rb - rb_count rb + i < rb_size rb"
    unfolding ring_wf_def by linarith
  with True show ?thesis by (simp add: ring_index_def)
next
  case False
  with assms have "rb_write rb + rb_size rb - rb_count rb + i
      = rb_size rb + (rb_write rb + i - rb_count rb)"
    and "rb_write rb + i - rb_count rb < rb_size rb"
    unfolding ring_wf_def by linarith+
  with False show ?thesis unfolding ring_index_def by (metis mod_add_self1 mod_less)
qed

lemma Add_ring_Some:
  assumes "ring_wf rb"
  shows "Add_ring v rb = Some
    \<lparr>rb_buffer = (rb_buffer rb)[rb_write rb := v], rb_size = rb_size rb,
     rb_write = (if rb_write rb + 1 = rb_size rb then 0 else rb_write rb + 1),
     rb_count = (if rb_count rb < rb_size rb then rb_count rb + 1 else rb_count rb)\<rparr>"
proof -
  have "(rb_write rb + 1) mod rb_size rb = (if rb_write rb + 1 = rb_size rb then 0 else rb_write rb + 1)"
    using assms by (auto simp: ring_wf_def)
  with assms show ?thesis by (simp add: Add_ring_def ring_wf_def)
qed

lemma Add_ring_wf: "ring_wf rb \<Longrightarrow> Add_ring v rb = Some rb' \<Longrightarrow> ring_wf rb' \<and> rb_size rb' = rb_size rb"
  by (auto simp: Add_ring_Some) (auto simp: ring_wf_def)

lemma Get_ring_Add:
  assumes wf: "ring_wf rb" and add: "Add_ring v rb = Some rb'"
  shows "Get_ring rb' = take_last (rb_size rb) (Get_ring rb @ [v])"
proof -
  have rb': "rb_buffer rb' = (rb_buffer rb)[rb_write rb := v]" "rb_size rb' = rb_size rb"
    "rb_write rb' = (if rb_write rb + 1 = rb_size rb then 0 else rb_write rb + 1)"
    "rb_count rb' = (if rb_count rb < rb_size rb then rb_count rb + 1 else rb_count rb)"
    using add by (auto simp: Add_ring_Some [OF wf])
  have wf': "ring_wf rb'" using Add_ring_wf [OF wf add] by simp
  have pos: "0 < rb_size rb" using wf by (simp add: ring_wf_def)
  have snoc: "take_last (rb_size rb) (Get_ring rb @ [v]) = take_last (rb_size rb - 1) (Get_ring rb) @ [v]"
    using pos by (rule take_last_snoc)
  have cnt: "rb_count rb' = min (rb_size rb - 1) (rb_count rb) + 1"
    using rb' wf by (auto simp: ring_wf_def)
  have "Get_ring rb' = take_last (rb_size rb - 1) (Get_ring rb) @ [v]"
  proof (rule nth_equalityI)
    show "length (Get_ring rb') = length (take_last (rb_size rb - 1) (Get_ring rb) @ [v])"
      using cnt by (simp add: Len_ring_def)
    fix i assume "i < length (Get_ring rb')"
    then have i: "i < rb_count rb'" by (simp add: Len_ring_def)
    show "Get_ring rb' ! i = (take_last (rb_size rb - 1) (Get_ring rb) @ [v]) ! i"
    proof (cases "i = min (rb_size rb - 1) (rb_count rb)")
      case True
      then have "ring_index rb' i = rb_write rb"
        unfolding ring_index_eq [OF wf' i] using wf rb' i by (auto simp: ring_wf_def split: if_splits)
      then show ?thesis
        using True i wf rb' by (auto simp: Get_ring_def nth_append Len_ring_def ring_wf_def)
    next
      case False
      let ?k = "rb_count rb - (rb_size rb - 1)"
      from False i cnt have lt: "i < rb_size rb - 1" "i < rb_count rb" "?k + i < rb_count rb" by auto
      have kle: "?k \<le> rb_count rb" and ik: "i < rb_count rb - ?k"
        using lt by auto
      have "ring_index rb' i = ring_index rb (?k + i)"
        unfolding ring_index_eq [OF wf' i] ring_index_eq [OF wf lt(3)]
        using wf rb' i lt by (auto simp: ring_wf_def split: if_splits)
      moreover have "ring_index rb (?k + i) \<noteq> rb_write rb"
        unfolding ring_index_eq [OF wf lt(3)] using wf lt by (auto simp: ring_wf_def)
      moreover have "rb_buffer rb' = (rb_buffer rb)[rb_write rb := v]" using rb' by simp
      ultimately show ?thesis
        using i lt(2,3) kle ik by (simp add: Get_ring_def nth_append Len_ring_def take_last_def)
    qed
  qed
  with snoc show ?thesis by simp
qed

lemma Add_ring_panics: "rb_size rb = 0 \<Longrightarrow> length (rb_buffer rb) = rb_size rb \<Longrightarrow> Add_ring v rb = None"
  by (simp add: Add_ring_def)

lemma newRingBuffer_wf: "0 < n \<Longrightarrow> ring_wf (newRingBuffer z n)"
  by (simp add: newRingBuffer_def ring_wf_def)

lemma Get_newRingBuffer [simp]: "Get_ring (newRingBuffer z n) = []"
  by (simp add: newRingBuffer_def Get_ring_def)

lemma Clear_ring_wf: "ring_wf rb \<Longrightarrow> ring_wf (Clear_ring z rb)"
  by (simp add: Clear_ring_def ring_wf_def)

lemma Get_Clear_ring [simp]: "Get_ring (Clear_ring z rb) = []"
  by (simp add: Clear_ring_def Get_ring_def)

lemma rb_size_Clear_ring [simp]: "rb_size (Clear_ring z rb) = rb_size rb"
  by (simp add: Clear_ring_def)

subsection \<open>The contract of a bounded buffer\<close>

locale bounded_buffer =
  fixes add :: "'a \<Rightarrow> 'b \<Rightarrow> 'b option"
    and get :: "'b \<Rightarrow> 'a list"
    and reset :: "'b \<Rightarrow> 'b"
    and cap :: "'b \<Rightarrow> nat"
    and wf :: "'b \<Rightarrow> bool"
  assumes add_ok: "wf b \<Longrightarrow> \<exists>b'. add x b = Some b' \<and> wf b' \<and> cap b' = cap b \<and>
      get b' = take_last (cap b) (get b @ [x])"
    and reset_ok: "wf b \<Longrightarrow> wf (reset b) \<and> cap (reset b) = cap b \<and> get (reset b) = []"
    and get_cap: "wf b \<Longrightarrow> length (get b) \<le> cap b"
begin

lemma add_loop_ok:
  "wf b \<Longrightarrow> \<exists>b'. add_loop add xs b = Some b' \<and> wf b' \<and> cap b' = cap b \<and>
     get b' = take_last (cap b) (get b @ xs)"
proof (induction xs arbitrary: b)
  case Nil
  then show ?case using get_cap by simp
next
  case (Cons x xs)
  from add_ok [OF Cons.prems, of x] obtain b1 where b1: "add x b = Some b1" "wf b1"
    "cap b1 = cap b" "get b1 = take_last (cap b) (get b @ [x])" by blast
  from Cons.IH [OF b1(2)] obtain b2 where "add_loop add xs b1 = Some b2" "wf b2"
    "cap b2 = cap b1" "get b2 = take_last (cap b1) (get b1 @ xs)" by blast
  with b1 show ?case by (simp add: take_last_append_take_last)
qed

lemma replace_ok:
  assumes "wf b"
  shows "\<exists>b'. add_loop add xs (reset b) = Some b' \<and> wf b' \<and> cap b' = cap b \<and>
    get b' = take_last (cap b) xs"
  using reset_ok [OF assms] add_loop_ok [of "reset b" xs] by simp

end

interpretation rb: bounded_buffer Add_ring Get_ring "Clear_ring z" rb_size ring_wf for z
proof
  fix b :: "'a ring" and x
  assume wf: "ring_wf b"
  obtain b' where "Add_ring x b = Some b'" using Add_ring_Some [OF wf] by blast
  with Add_ring_wf [OF wf this] Get_ring_Add [OF wf this]
  show "\<exists>b'. Add_ring x b = Some b' \<and> ring_wf b' \<and> rb_size b' = rb_size b \<and>
      Get_ring b' = take_last (rb_size b) (Get_ring b @ [x])" by blast
next
  fix b :: "'a ring"
  assume "ring_wf b"
  then show "ring_wf (Clear_ring z b) \<and> rb_size (Clear_ring z b) = rb_size b \<and>
      Get_ring (Clear_ring z b) = []"
    by (simp add: Clear_ring_wf)
next
  fix b :: "'a ring"
  assume "ring_wf b"
  then show "length (Get_ring b) \<le> rb_size b" by (simp add: Len_ring_def ring_wf_def)
qed

lemma Replace_ring_ok:
  "ring_wf b \<Longrightarrow> \<exists>b'. Replace_ring z vs b = Some b' \<and> ring_wf b' \<and> rb_size b' = rb_size b \<and>
     Get_ring b' = take_last (rb_size b) vs"
  using rb.replace_ok [of b vs z] by (simp add: Replace_ring_def)

subsection \<open>Properties\<close>

text \<open>
  A ring buffer of size \<open>n + 1\<close> holds the last \<open>n + 1\<close> elements added to it, oldest first,
  whatever was added before, and adding never panics.
\<close>

theorem ring_keeps_last:
  "case add_loop Add_ring xs (newRingBuffer z (Suc n)) of
     None \<Rightarrow> False
   | Some b \<Rightarrow> Get_ring b = take_last (Suc n) xs \<and> Len_ring b = min (Suc n) (length xs)"
proof -
  have wf: "ring_wf (newRingBuffer z (Suc n))" by (rule newRingBuffer_wf) simp
  have cap: "rb_size (newRingBuffer z (Suc n)) = Suc n" by (simp add: newRingBuffer_def)
  from rb.add_loop_ok [OF wf, of xs] cap obtain b where
    b: "add_loop Add_ring xs (newRingBuffer z (Suc n)) = Some b" "Get_ring b = take_last (Suc n) xs"
    by auto
  then have "Len_ring b = min (Suc n) (length xs)" by (metis length_Get_ring length_take_last)
  with b show ?thesis by simp
qed

end
