(* ===== verification/Simple_Memory.thy ===== *)
theory Simple_Memory
  imports Memory_Core Ring_Buffer
begin

section \<open>Package memory/simple: the in-process memory\<close>

text \<open>
  \<open>Memory\<close> of \<open>memory/simple/memory.go\<close>: a ring buffer of messages, the absolute position
  \<open>next\<close> of the next message saved, the latest snapshot, and the deprecated summarization with
  an LLM. \<open>instrument\<close> stands for \<open>trace.InstrumentLLM\<close>, which \<open>WithSummarization\<close> wraps the
  LLM with. The operations are atomic: each takes \<open>mu\<close>, except the summarization at the end of
  \<open>Save\<close>, which is modelled as part of the same step.

  The memory implements the locale \<open>snapshot_store\<close> (interpretation \<open>sm\<close>) when no
  summarization LLM is set.
\<close>

record 'w simple_memory =
  sm_buffer :: "message ring"
  sm_llm :: "'w llm option"
  sm_capacity :: nat
  sm_threshold :: nat
  sm_size :: nat
  sm_next :: int
  sm_snapshot :: "snapshot option"
  sm_prune :: bool

type_synonym 'w sm_option = "'w simple_memory \<Rightarrow> 'w simple_memory"

definition WithPruneCompacted :: "bool \<Rightarrow> 'w sm_option" where
  "WithPruneCompacted prune m = m\<lparr>sm_prune := prune\<rparr>"

fun apply_sm_options :: "'w sm_option list \<Rightarrow> 'w simple_memory \<Rightarrow> 'w simple_memory" where
  "apply_sm_options [] m = m"
| "apply_sm_options (f # fs) m = apply_sm_options fs (f m)"

definition New_simple :: "nat \<Rightarrow> 'w sm_option list \<Rightarrow> 'w simple_memory" where
  "New_simple maxItems options =
     apply_sm_options options
       \<lparr>sm_buffer = newRingBuffer empty_message maxItems, sm_llm = None, sm_capacity = maxItems,
        sm_threshold = 0, sm_size = 0, sm_next = 0, sm_snapshot = None, sm_prune = False\<rparr>"

definition WithSummarization ::
  "('w llm \<Rightarrow> 'w llm) \<Rightarrow> 'w llm option \<Rightarrow> nat \<Rightarrow> nat \<Rightarrow> 'w sm_option" where
  "WithSummarization instrument summaryLLM threshold summarySize m =
     (let m1 = (case summaryLLM of None \<Rightarrow> m | Some l \<Rightarrow> m\<lparr>sm_llm := Some (instrument l)\<rparr>);
          threshold' = (if threshold = 0 \<or> sm_capacity m1 < threshold then sm_capacity m1
                        else threshold)
      in m1\<lparr>sm_size := ClampSummarySize threshold' summarySize, sm_threshold := threshold'\<rparr>)"

definition needSummarization :: "'w simple_memory \<Rightarrow> bool" where
  "needSummarization m \<longleftrightarrow>
     sm_llm m \<noteq> None \<and> 0 < sm_threshold m \<and> sm_threshold m \<le> Len_ring (sm_buffer m)"

definition nil_deref :: string where
  "nil_deref = ''runtime error: invalid memory address or nil pointer dereference''"

definition index_panic :: string where
  "index_panic = ''runtime error: index out of range''"

text \<open>The second half of \<open>Save\<close>: summarize the oldest messages and rewrite the buffer.\<close>

definition summarize_simple ::
  "'w llm \<Rightarrow> 'w goctx \<Rightarrow> 'w simple_memory \<Rightarrow> 'w \<Rightarrow> err option outcome \<times> 'w simple_memory \<times> 'w" where
  "summarize_simple l ctx m w =
     (let buffered = Get_ring (sm_buffer m);
          toSummarize0 = drop (SplitPoint buffered 0) buffered;
          split = SplitPoint toSummarize0 (int (sm_size m));
          toAppend = drop split toSummarize0;
          toSummarize = take split toSummarize0;
          history = FormatSummaryPrompt toSummarize
      in case llm_execute l ctx [history] [] w of
           (Inl e, w') \<Rightarrow> (Returned (Some e), m, w')
         | (Inr None, w') \<Rightarrow> (Panicked nil_deref, m, w')
         | (Inr (Some r), w') \<Rightarrow>
             (case res_message r of
                None \<Rightarrow> (Panicked nil_deref, m, w')
              | Some summaryMsg \<Rightarrow>
                  (let messagesToStore =
                         SystemMessage (SummarySystemMessagePrefix @ msg_text summaryMsg) # toAppend
                   in case Replace_ring empty_message messagesToStore (sm_buffer m) of
                        None \<Rightarrow> (Panicked index_panic, m, w')
                      | Some b \<Rightarrow> (Returned None, m\<lparr>sm_buffer := b\<rparr>, w'))))"

definition Save_simple ::
  "'w goctx \<Rightarrow> message list \<Rightarrow> 'w simple_memory \<Rightarrow> 'w \<Rightarrow>
     err option outcome \<times> 'w simple_memory \<times> 'w" where
  "Save_simple ctx messages m w =
     (case add_loop Add_ring messages (sm_buffer m) of
        None \<Rightarrow> (Panicked index_panic, m, w)
      | Some b \<Rightarrow>
          (let m1 = m\<lparr>sm_buffer := b, sm_next := sm_next m + int (length messages)\<rparr> in
           if needSummarization m1
           then (case sm_llm m1 of
                   None \<Rightarrow> (Panicked nil_deref, m1, w)
                 | Some l \<Rightarrow> summarize_simple l ctx m1 w)
           else (Returned None, m1, w)))"

definition tail_simple :: "'w simple_memory \<Rightarrow> logged_message list" where
  "tail_simple m =
     (let msgs = Get_ring (sm_buffer m)
      in Tail msgs (sm_next m - int (length msgs)) (sm_snapshot m))"

definition Retrieve_simple :: "'w simple_memory \<Rightarrow> message list" where
  "Retrieve_simple m =
     (case sm_snapshot m of
        None \<Rightarrow>
          (let buffered = Get_ring (sm_buffer m) in drop (SplitPoint buffered 0) buffered)
      | Some s \<Rightarrow>
          if sm_llm m \<noteq> None
          then (let buffered = Get_ring (sm_buffer m) in drop (SplitPoint buffered 0) buffered)
          else (let msgs = Get_ring (sm_buffer m)
                in View msgs (sm_next m - int (length msgs)) s))"

definition LoadSnapshot_simple ::
  "'w simple_memory \<Rightarrow> err + (snapshot option \<times> logged_message list)" where
  "LoadSnapshot_simple m =
     (if sm_llm m \<noteq> None then Inl (Sentinel (MemoryE ErrSnapshotsUnsupported))
      else Inr (sm_snapshot m, tail_simple m))"

definition SaveSnapshot_simple ::
  "snapshot \<Rightarrow> cursor \<Rightarrow> snapshot option \<Rightarrow> 'w simple_memory \<Rightarrow>
     err option outcome \<times> 'w simple_memory" where
  "SaveSnapshot_simple s upTo prev m =
     (if sm_llm m \<noteq> None then (Returned (Some (Sentinel (MemoryE ErrSnapshotsUnsupported))), m)
      else case Cutoff (sm_snapshot m) prev upTo (sm_next m) of
        Inl e \<Rightarrow> (Returned (Some e), m)
      | Inr pos \<Rightarrow>
          (let m1 = m\<lparr>sm_snapshot := Some (s\<lparr>sn_upTo := upTo\<rparr>)\<rparr> in
           if sm_prune m1
           then (case Replace_ring empty_message (map lm_message (tail_simple m1)) (sm_buffer m1) of
                   None \<Rightarrow> (Panicked index_panic, m1)
                 | Some b \<Rightarrow> (Returned None, m1\<lparr>sm_buffer := b\<rparr>))
           else (Returned None, m1)))"

definition Clear_simple :: "'w simple_memory \<Rightarrow> 'w simple_memory" where
  "Clear_simple m =
     m\<lparr>sm_buffer := Clear_ring empty_message (sm_buffer m), sm_snapshot := None\<rparr>"

definition Len_simple :: "'w simple_memory \<Rightarrow> nat" where
  "Len_simple m = Len_ring (sm_buffer m)"

subsection \<open>The invariant and the operations\<close>

definition sm_wf :: "'w simple_memory \<Rightarrow> bool" where
  "sm_wf m \<longleftrightarrow> ring_wf (sm_buffer m) \<and> rb_size (sm_buffer m) = sm_capacity m \<and>
     int (Len_ring (sm_buffer m)) \<le> sm_next m"

definition contents :: "'w simple_memory \<Rightarrow> message list" where
  "contents m = Get_ring (sm_buffer m)"

lemma length_contents_le: "sm_wf m \<Longrightarrow> length (contents m) \<le> sm_capacity m"
  using rb.get_cap [of "sm_buffer m"] by (auto simp: sm_wf_def contents_def)

lemma New_simple_wf: "0 < n \<Longrightarrow> sm_wf (New_simple n [])"
  by (simp add: New_simple_def sm_wf_def newRingBuffer_wf)
    (simp add: newRingBuffer_def Len_ring_def)

text \<open>\<open>Save\<close> up to its summarization.\<close>

lemma Save_simple_plain:
  assumes "sm_wf m" and "sm_llm m = None"
  shows "\<exists>m'. Save_simple ctx ms m w = (Returned None, m', w) \<and> sm_wf m' \<and> sm_llm m' = None \<and>
    contents m' = take_last (sm_capacity m) (contents m @ ms) \<and>
    sm_next m' = sm_next m + int (length ms) \<and> sm_snapshot m' = sm_snapshot m \<and>
    sm_capacity m' = sm_capacity m \<and> sm_prune m' = sm_prune m"
proof -
  from assms obtain b where b: "add_loop Add_ring ms (sm_buffer m) = Some b" "ring_wf b"
    "rb_size b = sm_capacity m" "Get_ring b = take_last (sm_capacity m) (Get_ring (sm_buffer m) @ ms)"
    using rb.add_loop_ok [of "sm_buffer m" ms] by (auto simp: sm_wf_def)
  have "Len_ring b \<le> Len_ring (sm_buffer m) + length ms"
    using arg_cong [OF b(4), of length] by simp
  with b assms show ?thesis
    by (auto simp: Save_simple_def needSummarization_def sm_wf_def contents_def)
qed

lemma suffix_drop_append:
  "suffix (dropWhile p (drop k (xs @ ys))) (dropWhile p (drop k xs) @ ys)"
proof -
  have "suffix (dropWhile p (zs @ ys)) (dropWhile p zs @ ys)" for zs
    by (induction zs) (auto simp: suffix_dropWhile)
  moreover have "suffix (drop k (xs @ ys)) (drop k xs @ ys)"
    by (cases "k \<le> length xs") (auto simp: suffix_drop)
  ultimately show ?thesis
    using suffix_dropWhile_mono suffix_order.trans by blast
qed

lemma tail_simple_alt:
  "tail_simple m = Tail (contents m) (sm_next m - int (length (contents m))) (sm_snapshot m)"
  by (simp add: tail_simple_def contents_def Let_def)

lemma tail_simple_Save:
  assumes wf: "sm_wf m" and "sm_snapshot m' = sm_snapshot m"
    and c: "contents m' = take_last (sm_capacity m) (contents m @ ms)"
    and n: "sm_next m' = sm_next m + int (length ms)"
  shows "suffix (map lm_message (tail_simple m')) (map lm_message (tail_simple m) @ ms)"
proof -
  let ?all = "contents m @ ms" and ?off = "sm_next m - int (length (contents m))"
  let ?k = "length ?all - length (contents m')"
  have len: "length (contents m') = min (sm_capacity m) (length ?all)" using c by simp
  have "contents m' = drop ?k ?all"
    using c unfolding len take_last_def by (simp add: min_def del: drop_append length_append)
  moreover have "sm_next m' - int (length (contents m')) = ?off + int ?k"
    using n len by simp
  ultimately have "tail_simple m' = Tail (drop ?k ?all) (?off + int ?k) (sm_snapshot m)"
    unfolding tail_simple_alt assms(2) by (simp only:)
  then have "suffix (tail_simple m') (Tail ?all ?off (sm_snapshot m))"
    using Tail_evict [of ?k ?all ?off "sm_snapshot m"] diff_le_self by metis
  then have "suffix (map lm_message (tail_simple m')) (map lm_message (Tail ?all ?off (sm_snapshot m)))"
    by (auto simp: suffix_def)
  also have "suffix \<dots> (map lm_message (tail_simple m) @ ms)"
    by (simp only: map_lm_message_Tail tail_simple_alt suffix_drop_append)
  finally show ?thesis .
qed

lemma tail_start_mono:
  assumes "Cutoff current prev upTo next = Inr pos"
  shows "tail_start offset current \<le> tail_start offset (Some (s\<lparr>sn_upTo := upTo\<rparr>))"
  using assms by (auto simp: Cutoff_Inr tail_start_def split: option.splits sum.splits)

lemma Tail_cutoff_suffix:
  assumes "Cutoff current prev upTo next = Inr pos"
  shows "suffix (Tail ms offset (Some (s\<lparr>sn_upTo := upTo\<rparr>))) (Tail ms offset current)"
proof -
  let ?a = "tail_start offset current" and ?b = "tail_start offset (Some (s\<lparr>sn_upTo := upTo\<rparr>))"
  have "?a \<le> ?b" using assms by (rule tail_start_mono)
  then have "suffix (drop ?b (log_at offset ms)) (drop ?a (log_at offset ms))"
    by (metis drop_drop le_add_diff_inverse2 suffix_drop)
  then show ?thesis by (simp add: Tail_eq drop_orphans_def suffix_dropWhile_mono)
qed

text \<open>
  Pruning keeps the tail of the log at its positions: what \<open>LoadSnapshot\<close> returns does not change.
\<close>

lemma Tail_prune:
  assumes pos: "Position (sn_upTo s) = Inr pos" and "pos < offset + int (length ms)"
    and kept: "kept = map lm_message (Tail ms offset (Some s))"
  shows "Tail kept (offset + int (length ms) - int (length kept)) (Some s) = Tail ms offset (Some s)"
proof -
  let ?n = "tail_start offset (Some s)"
  have "suffix (Tail ms offset (Some s)) (drop ?n (log_at offset ms))"
    by (simp add: Tail_eq drop_orphans_def suffix_dropWhile)
  then have "suffix (Tail ms offset (Some s)) (log_at offset ms)"
    using suffix_drop suffix_order.trans by blast
  then obtain k where k: "Tail ms offset (Some s) = drop k (log_at offset ms)" "k \<le> length ms"
    by (metis length_log_at suffix_take diff_le_self suffix_length_le append_eq_conv_conj suffixE length_append le_add1)
  have len: "length kept = length ms - k" using kept k by simp
  then have off: "offset + int (length ms) - int (length kept) = offset + int k" using k(2) by simp
  have kept': "kept = drop k ms" using kept k by (simp add: drop_log_at)
  have nk: "?n \<le> k \<or> kept = []"
  proof (cases "?n \<le> length ms")
    case True
    have "length (Tail ms offset (Some s)) \<le> length ms - ?n"
      using \<open>suffix (Tail ms offset (Some s)) (drop ?n (log_at offset ms))\<close>
      by (auto dest: suffix_length_le)
    then show ?thesis using k True by auto
  next
    case False
    then show ?thesis using kept by (simp add: Tail_eq drop_orphans_def)
  qed
  have idem: "drop_orphans (Tail ms offset (Some s)) = Tail ms offset (Some s)"
    by (simp add: Tail_eq drop_orphans_def dropWhile_idem)
  have at: "log_at (offset + int k) kept = Tail ms offset (Some s)"
    using k kept' by (simp add: drop_log_at)
  have "drop (tail_start (offset + int k) (Some s)) (log_at (offset + int k) kept)
      = Tail ms offset (Some s)"
  proof (cases "?n \<le> k")
    case True
    then have "tail_start (offset + int k) (Some s) = 0"
      using pos by (auto simp: tail_start_def)
    with at show ?thesis by simp
  next
    case False
    with nk have "kept = []" by simp
    with at show ?thesis by simp
  qed
  then have "Tail kept (offset + int k) (Some s) = Tail ms offset (Some s)"
    using idem by (simp only: Tail_eq [of kept])
  then show ?thesis by (simp only: off)
qed

subsection \<open>Storing snapshots\<close>

lemma SaveSnapshot_simple_ok:
  assumes wf: "sm_wf m" and "sm_llm m = None"
    and cut: "Cutoff (sm_snapshot m) prev upTo (sm_next m) = Inr pos"
  shows "\<exists>m'. SaveSnapshot_simple s upTo prev m = (Returned None, m') \<and> sm_wf m' \<and>
    sm_llm m' = None \<and> sm_next m' = sm_next m \<and> sm_capacity m' = sm_capacity m \<and>
    sm_snapshot m' = Some (s\<lparr>sn_upTo := upTo\<rparr>) \<and>
    tail_simple m' = Tail (contents m) (sm_next m - int (length (contents m))) (Some (s\<lparr>sn_upTo := upTo\<rparr>)) \<and>
    suffix (contents m') (contents m)"
proof (cases "sm_prune m")
  case False
  with assms show ?thesis
    by (auto simp: SaveSnapshot_simple_def Let_def sm_wf_def tail_simple_alt contents_def)
next
  case True
  let ?s = "s\<lparr>sn_upTo := upTo\<rparr>"
  let ?m1 = "m\<lparr>sm_snapshot := Some ?s\<rparr>"
  let ?off = "sm_next m - int (length (contents m))"
  let ?kept = "map lm_message (tail_simple ?m1)"
  have kept: "?kept = map lm_message (Tail (contents m) ?off (Some ?s))"
    by (simp add: tail_simple_alt contents_def)
  have suf: "suffix ?kept (contents m)"
    unfolding kept map_lm_message_Tail using suffix_dropWhile suffix_drop suffix_order.trans by blast
  have le: "length ?kept \<le> sm_capacity m"
    using suffix_length_le [OF suf] length_contents_le [OF wf] by linarith
  have "ring_wf (sm_buffer m)" "rb_size (sm_buffer m) = sm_capacity m"
    using wf by (simp_all add: sm_wf_def)
  with Replace_ring_ok [of "sm_buffer m" empty_message ?kept] le obtain b where
    b: "Replace_ring empty_message ?kept (sm_buffer m) = Some b" "ring_wf b"
      "rb_size b = sm_capacity m" "Get_ring b = ?kept" by auto
  let ?m' = "?m1\<lparr>sm_buffer := b\<rparr>"
  have run: "SaveSnapshot_simple s upTo prev m = (Returned None, ?m')"
    using assms True b by (simp add: SaveSnapshot_simple_def Let_def)
  have c': "contents ?m' = ?kept" using b by (simp add: contents_def)
  have "Position (sn_upTo ?s) = Inr pos" "pos < ?off + int (length (contents m))"
    using cut by (simp_all add: Cutoff_Inr)
  from Tail_prune [OF this kept]
  have t: "tail_simple ?m' = Tail (contents m) ?off (Some ?s)"
    unfolding tail_simple_alt c' by simp
  have "length ?kept \<le> Len_ring (sm_buffer m)"
    using suffix_length_le [OF suf] by (simp add: contents_def)
  then have "sm_wf ?m'"
    using wf b length_Get_ring [of b] by (simp add: sm_wf_def)
  with run t c' suf assms(2) show ?thesis
    by (intro exI [of _ ?m']) (simp del: map_map)
qed

lemma SaveSnapshot_simple_error:
  assumes "sm_llm m = None" and "Cutoff (sm_snapshot m) prev upTo (sm_next m) = Inl e"
  shows "SaveSnapshot_simple s upTo prev m = (Returned (Some e), m)"
  using assms by (simp add: SaveSnapshot_simple_def)

text \<open>The operations as the contract takes them: total functions on the state.\<close>

definition load_sm :: "'w simple_memory \<Rightarrow> snapshot option \<times> logged_message list" where
  "load_sm m = (case LoadSnapshot_simple m of Inl e \<Rightarrow> (None, []) | Inr r \<Rightarrow> r)"

definition save_sm ::
  "'w goctx \<Rightarrow> 'w \<Rightarrow> message list \<Rightarrow> 'w simple_memory \<Rightarrow> 'w simple_memory" where
  "save_sm ctx w ms m = fst (snd (Save_simple ctx ms m w))"

definition store_sm ::
  "snapshot \<Rightarrow> cursor \<Rightarrow> snapshot option \<Rightarrow> 'w simple_memory \<Rightarrow> err + 'w simple_memory" where
  "store_sm s upTo prev m =
     (case SaveSnapshot_simple s upTo prev m of
        (Returned None, m') \<Rightarrow> Inr m'
      | (Returned (Some e), m') \<Rightarrow> Inl e
      | (Panicked p, m') \<Rightarrow> Inl (Opaque p))"

definition sm_inv :: "'w simple_memory \<Rightarrow> bool" where
  "sm_inv m \<longleftrightarrow> sm_wf m \<and> sm_llm m = None"

lemma load_sm_eq: "sm_llm m = None \<Longrightarrow> load_sm m = (sm_snapshot m, tail_simple m)"
  by (simp add: load_sm_def LoadSnapshot_simple_def)

lemma store_sm_Inr:
  assumes "sm_inv m" and "store_sm s upTo prev m = Inr m'"
  shows "\<exists>pos. Cutoff (sm_snapshot m) prev upTo (sm_next m) = Inr pos \<and> sm_inv m' \<and>
    load_sm m' = (Some (s\<lparr>sn_upTo := upTo\<rparr>),
      Tail (contents m) (sm_next m - int (length (contents m))) (Some (s\<lparr>sn_upTo := upTo\<rparr>)))"
proof (cases "Cutoff (sm_snapshot m) prev upTo (sm_next m)")
  case (Inl e)
  with assms show ?thesis by (simp add: SaveSnapshot_simple_error store_sm_def sm_inv_def)
next
  case (Inr pos)
  with assms SaveSnapshot_simple_ok [of m prev upTo pos s] show ?thesis
    by (auto simp: store_sm_def sm_inv_def load_sm_eq)
qed

interpretation sm: snapshot_store load_sm "save_sm ctx w" store_sm sm_inv for ctx w
proof
  fix m :: "'a simple_memory" and ms
  assume m: "sm_inv m"
  then obtain m' where m': "Save_simple ctx ms m w = (Returned None, m', w)" "sm_inv m'"
    "contents m' = take_last (sm_capacity m) (contents m @ ms)"
    "sm_next m' = sm_next m + int (length ms)" "sm_snapshot m' = sm_snapshot m"
    using Save_simple_plain [of m ctx ms w] by (auto simp: sm_inv_def)
  then have s: "save_sm ctx w ms m = m'" by (simp add: save_sm_def)
  show "sm_inv (save_sm ctx w ms m)" using m' s by simp
  show "fst (load_sm (save_sm ctx w ms m)) = fst (load_sm m)"
    using m m' s by (simp add: load_sm_eq sm_inv_def)
  show "suffix (map lm_message (snd (load_sm (save_sm ctx w ms m))))
      (map lm_message (snd (load_sm m)) @ ms)"
    using m m' s tail_simple_Save [of m m' ms] by (simp add: load_sm_eq sm_inv_def)
next
  fix m :: "'a simple_memory" and l ls
  assume "sm_inv m" and "snd (load_sm m) = l # ls"
  then show "role (lm_message l) \<noteq> RoleTool"
    by (intro Tail_not_orphan [of "contents m"]) (simp add: load_sm_eq sm_inv_def tail_simple_alt)
next
  fix m m' :: "'a simple_memory" and s c prev
  assume m: "sm_inv m" and st: "store_sm s c prev m = Inr m'"
  from store_sm_Inr [OF m st] obtain pos where pos:
    "Cutoff (sm_snapshot m) prev c (sm_next m) = Inr pos" "sm_inv m'"
    "load_sm m' = (Some (s\<lparr>sn_upTo := c\<rparr>),
      Tail (contents m) (sm_next m - int (length (contents m))) (Some (s\<lparr>sn_upTo := c\<rparr>)))"
    by blast
  have m0: "load_sm m = (sm_snapshot m, tail_simple m)" using m by (simp add: load_sm_eq sm_inv_def)
  show "sm_inv m'" by (rule pos(2))
  show "fst (load_sm m') = Some (s\<lparr>sn_upTo := c\<rparr>)" using pos by simp
  show "suffix (snd (load_sm m')) (snd (load_sm m))"
    using pos(3) m0 Tail_cutoff_suffix [OF pos(1)] by (simp add: tail_simple_alt)
  show "\<not> Same (fst (load_sm m)) (Some (s\<lparr>sn_upTo := c\<rparr>))"
    using m0 Cutoff_moves [OF pos(1)] by simp
next
  fix m :: "'a simple_memory" and s c prev
  assume "sm_inv m" and "\<not> Same (fst (load_sm m)) prev"
  then show "store_sm s c prev m = Inl (Sentinel (MemoryE ErrSnapshotConflict))"
    by (simp add: load_sm_eq sm_inv_def store_sm_def SaveSnapshot_simple_error Cutoff_conflict)
qed

lemma Retrieve_simple_eq:
  "Retrieve_simple m =
     (if sm_snapshot m = None \<or> sm_llm m \<noteq> None then dropWhile is_tool (contents m)
      else SummaryMessages (the (sm_snapshot m)) @ map lm_message (tail_simple m))"
  by (auto simp: Retrieve_simple_def contents_def drop_SplitPoint_0 View_def tail_simple_def Let_def
      split: option.splits)

subsection \<open>Properties\<close>

text \<open>
  A memory of capacity \<open>n + 1\<close> returns the last \<open>n + 1\<close> messages saved to it, in order,
  without the tool results at the start whose call was evicted.
\<close>

theorem retrieve_after_saves:
  "Retrieve_simple (fold (save_sm ctx w) batches (New_simple (Suc n) [])) =
     dropWhile is_tool (take_last (Suc n) (concat batches))"
proof -
  let ?m0 = "New_simple (Suc n) [] :: 'a simple_memory"
  have "let m = fold (save_sm ctx w) batches ?m0 in
      sm_wf m \<and> sm_llm m = None \<and> sm_snapshot m = None \<and> sm_capacity m = Suc n \<and>
      contents m = take_last (Suc n) (concat batches)"
  proof (induction batches rule: rev_induct)
    case Nil
    then show ?case using New_simple_wf [of "Suc n"] by (simp add: New_simple_def contents_def)
  next
    case (snoc ms batches)
    obtain m where m: "m = fold (save_sm ctx w) batches ?m0" by blast
    with snoc have i: "sm_wf m" "sm_llm m = None" "sm_snapshot m = None" "sm_capacity m = Suc n"
      "contents m = take_last (Suc n) (concat batches)" by (simp_all add: Let_def)
    from Save_simple_plain [OF i(1,2), of ctx ms w] obtain m' where
      "Save_simple ctx ms m w = (Returned None, m', w)" "sm_wf m'" "sm_llm m' = None"
      "contents m' = take_last (Suc n) (contents m @ ms)" "sm_snapshot m' = None"
      "sm_capacity m' = Suc n" using i by auto
    moreover from this have "save_sm ctx w ms m = m'" by (simp add: save_sm_def)
    ultimately show ?case
      using m i(5) by (simp add: Let_def take_last_append_take_last)
  qed
  then show ?thesis by (simp add: Retrieve_simple_eq Let_def)
qed

text \<open>
  Two writers cannot overwrite each other's snapshot: of two that started from the same
  snapshot, the second to store fails with \<open>ErrSnapshotConflict\<close>, also when messages were saved
  in between.
\<close>

theorem second_writer_conflicts:
  assumes "sm_inv m" and "Same prev1 prev2" and "store_sm s1 c1 prev1 m = Inr m1"
  shows "store_sm s2 c2 prev2 (save_sm ctx w ms m1) = Inl (Sentinel (MemoryE ErrSnapshotConflict))"
  using assms by (rule sm.two_writers)

definition wit_memory :: "nat simple_memory" where
  "wit_memory = New_simple 4 []"

definition wit_ctx :: "nat goctx" where
  "wit_ctx = \<lparr>ctx_err = (\<lambda>_. None), ctx_cause = (\<lambda>_. None), ctx_run = None, ctx_call = None\<rparr>"

definition wit_saved :: "nat simple_memory" where
  "wit_saved = save_sm wit_ctx 0 [UserMessage [Text ''a''], UserMessage [Text ''b'']] wit_memory"

definition wit_snapshot :: snapshot where
  "wit_snapshot = \<lparr>sn_summary = ''s'', sn_pinned = [], sn_upTo = []\<rparr>"

definition wit_stored :: "nat simple_memory" where
  "wit_stored = (case store_sm wit_snapshot ''0'' None wit_saved of Inr m \<Rightarrow> m | Inl e \<Rightarrow> wit_saved)"

lemma wit_saved_inv: "sm_inv wit_saved"
proof -
  have "sm_inv wit_memory" using New_simple_wf [of 4] by (simp add: wit_memory_def sm_inv_def) (simp add: New_simple_def)
  then show ?thesis unfolding wit_saved_def by (rule sm.add_inv)
qed

lemma wit_store: "store_sm wit_snapshot ''0'' None wit_saved = Inr wit_stored"
proof -
  have "(case store_sm wit_snapshot ''0'' None wit_saved of Inr m \<Rightarrow> True | Inl e \<Rightarrow> False)" by code_simp
  then show ?thesis by (simp add: wit_stored_def split: sum.splits)
qed

theorem second_writer_conflicts_witness:
  "store_sm wit_snapshot ''1'' None (save_sm wit_ctx 0 [UserMessage [Text ''c'']] wit_stored) =
     Inl (Sentinel (MemoryE ErrSnapshotConflict))"
  by (rule second_writer_conflicts [OF wit_saved_inv Same_refl wit_store])

text \<open>
  Pruning the messages a snapshot stands for is invisible: with and without it, storing a
  snapshot fails the same way or leaves a memory that loads and retrieves the same.
\<close>

theorem prune_is_invisible:
  assumes "sm_inv m"
  shows "map_sum id (\<lambda>x. (load_sm x, Retrieve_simple x)) (store_sm s c prev (m\<lparr>sm_prune := True\<rparr>)) =
    map_sum id (\<lambda>x. (load_sm x, Retrieve_simple x)) (store_sm s c prev (m\<lparr>sm_prune := False\<rparr>))"
proof -
  let ?s = "s\<lparr>sn_upTo := c\<rparr>" and ?off = "sm_next m - int (length (contents m))"
  have inv: "sm_inv (m\<lparr>sm_prune := b\<rparr>)" for b using assms by (simp add: sm_inv_def sm_wf_def)
  have view: "Retrieve_simple x = SummaryMessages ?s @ map lm_message (Tail (contents m) ?off (Some ?s))"
    if "sm_inv x" "load_sm x = (Some ?s, Tail (contents m) ?off (Some ?s))" for x :: "'a simple_memory"
    using that by (auto simp: Retrieve_simple_eq load_sm_eq sm_inv_def)
  show ?thesis
  proof (cases "Cutoff (sm_snapshot m) prev c (sm_next m)")
    case (Inl e)
    have "store_sm s c prev (m\<lparr>sm_prune := b\<rparr>) = Inl e" for b
      using Inl assms SaveSnapshot_simple_error [of "m\<lparr>sm_prune := b\<rparr>"]
      by (simp add: store_sm_def sm_inv_def)
    then show ?thesis by simp
  next
    case (Inr pos)
    have "\<exists>x. store_sm s c prev (m\<lparr>sm_prune := b\<rparr>) = Inr x \<and> sm_inv x \<and>
        load_sm x = (Some ?s, Tail (contents m) ?off (Some ?s))" for b
      using Inr inv [of b] SaveSnapshot_simple_ok [of "m\<lparr>sm_prune := b\<rparr>" prev c pos s]
      by (auto simp: store_sm_def sm_inv_def load_sm_eq contents_def)
    then obtain x y where "store_sm s c prev (m\<lparr>sm_prune := True\<rparr>) = Inr x" "sm_inv x"
      "load_sm x = (Some ?s, Tail (contents m) ?off (Some ?s))"
      "store_sm s c prev (m\<lparr>sm_prune := False\<rparr>) = Inr y" "sm_inv y"
      "load_sm y = (Some ?s, Tail (contents m) ?off (Some ?s))" by metis
    with view show ?thesis by simp
  qed
qed

theorem prune_is_invisible_witness:
  "map_sum id (\<lambda>x. (load_sm x, Retrieve_simple x)) (store_sm wit_snapshot ''0'' None (wit_saved\<lparr>sm_prune := True\<rparr>)) =
    map_sum id (\<lambda>x. (load_sm x, Retrieve_simple x)) (store_sm wit_snapshot ''0'' None (wit_saved\<lparr>sm_prune := False\<rparr>))"
  by (rule prune_is_invisible [OF wit_saved_inv])

text \<open>
  A memory of capacity zero is accepted by \<open>New\<close>, and the first message saved to it crashes.
\<close>

theorem zero_capacity_panics:
  "fst (Save_simple ctx (m # ms) (New_simple 0 []) w) = Panicked index_panic"
  by (simp add: Save_simple_def New_simple_def newRingBuffer_def Add_ring_def)

end
