(* ===== verification/Message_Json.thy ===== *)
theory Message_Json
  imports Memory_Core Text_Render
begin

section \<open>Messages and snapshots as JSON values\<close>

text \<open>
  What \<open>encoding/json\<close> makes of the structs with \<open>json\<close> tags that the memories store:
  \<open>llm.Message\<close> and its parts and tool calls (\<open>llm.go\<close>) and \<open>memory.Snapshot\<close>
  (\<open>snapshot.go\<close>). The values are those of \<^typ>\<open>json\<close>; printing one as text and parsing it is left out.
  Encoding replaces the bytes of a string that are not UTF-8 (\<open>to_valid\<close>) and leaves out an empty
  member marked \<open>omitempty\<close>. Decoding goes through the members in order, matches their names
  without regard to case, skips the unknown ones, and fails on a value of another type; \<open>null\<close>
  leaves the field as it is. The last section shows that what is encoded is decoded again, for
  text that is UTF-8.
\<close>

subsection \<open>Struct codecs\<close>

type_synonym 'a field = "string \<times> (json \<Rightarrow> 'a \<Rightarrow> 'a option)"

definition ascii_lower :: "char \<Rightarrow> char" where
  "ascii_lower c = (if 65 \<le> byte c \<and> byte c \<le> 90 then char_of (byte c + 32) else c)"

definition same_key :: "string \<Rightarrow> string \<Rightarrow> bool" where
  "same_key a b \<longleftrightarrow> map ascii_lower a = map ascii_lower b"

fun find_field :: "'a field list \<Rightarrow> string \<Rightarrow> (json \<Rightarrow> 'a \<Rightarrow> 'a option) option" where
  "find_field [] k = None"
| "find_field ((n, f) # fs) k = (if n = k \<or> same_key n k then Some f else find_field fs k)"

fun dec_members :: "'a field list \<Rightarrow> (string \<times> json) list \<Rightarrow> 'a \<Rightarrow> 'a option" where
  "dec_members fs [] x = Some x"
| "dec_members fs ((k, v) # ms) x =
     (case find_field fs k of
        None \<Rightarrow> dec_members fs ms x
      | Some f \<Rightarrow> (case f v x of None \<Rightarrow> None | Some x' \<Rightarrow> dec_members fs ms x'))"

definition dec_struct :: "'a field list \<Rightarrow> json \<Rightarrow> 'a \<Rightarrow> 'a option" where
  "dec_struct fs j x =
     (case j of JNull \<Rightarrow> Some x | JObj ms \<Rightarrow> dec_members fs ms x | _ \<Rightarrow> None)"

definition dec_string :: "(string \<Rightarrow> 'a \<Rightarrow> 'a) \<Rightarrow> json \<Rightarrow> 'a \<Rightarrow> 'a option" where
  "dec_string upd j x = (case j of JNull \<Rightarrow> Some x | JStr s \<Rightarrow> Some (upd s x) | _ \<Rightarrow> None)"

definition dec_bool :: "(bool \<Rightarrow> 'a \<Rightarrow> 'a) \<Rightarrow> json \<Rightarrow> 'a \<Rightarrow> 'a option" where
  "dec_bool upd j x = (case j of JNull \<Rightarrow> Some x | JBool b \<Rightarrow> Some (upd b x) | _ \<Rightarrow> None)"

definition dec_int :: "(int \<Rightarrow> 'a \<Rightarrow> 'a) \<Rightarrow> json \<Rightarrow> 'a \<Rightarrow> 'a option" where
  "dec_int upd j x =
     (case j of JNull \<Rightarrow> Some x | JNum l \<Rightarrow> map_option (\<lambda>i. upd i x) (go_atoi l) | _ \<Rightarrow> None)"

fun dec_elems :: "(json \<Rightarrow> 'b option) \<Rightarrow> json list \<Rightarrow> 'b list option" where
  "dec_elems f [] = Some []"
| "dec_elems f (j # js) =
     (case f j of None \<Rightarrow> None | Some y \<Rightarrow> map_option ((#) y) (dec_elems f js))"

text \<open>A \<open>null\<close> makes a slice nil.\<close>

definition dec_slice :: "(json \<Rightarrow> 'b option) \<Rightarrow> ('b list \<Rightarrow> 'a \<Rightarrow> 'a) \<Rightarrow> json \<Rightarrow> 'a \<Rightarrow> 'a option" where
  "dec_slice f upd j x =
     (case j of
        JNull \<Rightarrow> Some (upd [] x)
      | JArr js \<Rightarrow> map_option (\<lambda>ys. upd ys x) (dec_elems f js)
      | _ \<Rightarrow> None)"

definition to_valid :: "string \<Rightarrow> string" where
  "to_valid s = concat (runes s)"

definition enc_string :: "string \<Rightarrow> json" where
  "enc_string s = JStr (to_valid s)"

definition omitempty :: "bool \<Rightarrow> string \<Rightarrow> json \<Rightarrow> (string \<times> json) list" where
  "omitempty skip k v = (if skip then [] else [(k, v)])"

subsection \<open>\<open>llm.Message\<close>\<close>

definition enc_part :: "content_part \<Rightarrow> json" where
  "enc_part p = JObj
     ([(''type'', enc_string (cp_type p))] @
      omitempty (cp_text p = []) ''text'' (enc_string (cp_text p)) @
      omitempty (cp_image_url p = []) ''imageUrl'' (enc_string (cp_image_url p)) @
      omitempty (cp_image_base64 p = []) ''imageBase64'' (enc_string (cp_image_base64 p)) @
      omitempty (cp_mime_type p = []) ''mimeType'' (enc_string (cp_mime_type p)) @
      omitempty (cp_signature p = []) ''signature'' (enc_string (cp_signature p)))"

definition part_fields :: "content_part field list" where
  "part_fields =
     [(''type'', dec_string (\<lambda>s p. p\<lparr>cp_type := s\<rparr>)),
      (''text'', dec_string (\<lambda>s p. p\<lparr>cp_text := s\<rparr>)),
      (''imageUrl'', dec_string (\<lambda>s p. p\<lparr>cp_image_url := s\<rparr>)),
      (''imageBase64'', dec_string (\<lambda>s p. p\<lparr>cp_image_base64 := s\<rparr>)),
      (''mimeType'', dec_string (\<lambda>s p. p\<lparr>cp_mime_type := s\<rparr>)),
      (''signature'', dec_string (\<lambda>s p. p\<lparr>cp_signature := s\<rparr>))]"

definition dec_part :: "json \<Rightarrow> content_part option" where
  "dec_part j = dec_struct part_fields j empty_part"

definition empty_function_call :: function_call where
  "empty_function_call = \<lparr>fc_name = [], fc_arguments = []\<rparr>"

definition empty_tool_call :: tool_call where
  "empty_tool_call = \<lparr>tc_id = [], tc_type = [], tc_function = empty_function_call\<rparr>"

definition enc_function_call :: "function_call \<Rightarrow> json" where
  "enc_function_call f = JObj [(''name'', enc_string (fc_name f)), (''arguments'', enc_string (fc_arguments f))]"

definition function_call_fields :: "function_call field list" where
  "function_call_fields =
     [(''name'', dec_string (\<lambda>s f. f\<lparr>fc_name := s\<rparr>)), (''arguments'', dec_string (\<lambda>s f. f\<lparr>fc_arguments := s\<rparr>))]"

definition enc_tool_call :: "tool_call \<Rightarrow> json" where
  "enc_tool_call t = JObj
     [(''id'', enc_string (tc_id t)), (''type'', enc_string (tc_type t)), (''function'', enc_function_call (tc_function t))]"

definition tool_call_fields :: "tool_call field list" where
  "tool_call_fields =
     [(''id'', dec_string (\<lambda>s t. t\<lparr>tc_id := s\<rparr>)), (''type'', dec_string (\<lambda>s t. t\<lparr>tc_type := s\<rparr>)),
      (''function'', \<lambda>j t. map_option (\<lambda>f. t\<lparr>tc_function := f\<rparr>) (dec_struct function_call_fields j (tc_function t)))]"

definition dec_tool_call :: "json \<Rightarrow> tool_call option" where
  "dec_tool_call j = dec_struct tool_call_fields j empty_tool_call"

definition enc_message :: "message \<Rightarrow> json" where
  "enc_message m = JObj
     ([(''role'', enc_string (role m))] @
      omitempty (parts m = []) ''parts'' (JArr (map enc_part (parts m))) @
      omitempty (tool_calls m = []) ''toolCalls'' (JArr (map enc_tool_call (tool_calls m))) @
      omitempty (tool_call_id m = []) ''toolCallId'' (enc_string (tool_call_id m)) @
      omitempty (\<not> tool_error m) ''toolError'' (JBool (tool_error m)) @
      omitempty (msg_name m = []) ''name'' (enc_string (msg_name m)))"

definition message_fields :: "message field list" where
  "message_fields =
     [(''role'', dec_string (\<lambda>s m. m\<lparr>role := s\<rparr>)),
      (''parts'', dec_slice dec_part (\<lambda>ps m. m\<lparr>parts := ps\<rparr>)),
      (''toolCalls'', dec_slice dec_tool_call (\<lambda>ts m. m\<lparr>tool_calls := ts\<rparr>)),
      (''toolCallId'', dec_string (\<lambda>s m. m\<lparr>tool_call_id := s\<rparr>)),
      (''toolError'', dec_bool (\<lambda>b m. m\<lparr>tool_error := b\<rparr>)),
      (''name'', dec_string (\<lambda>s m. m\<lparr>msg_name := s\<rparr>))]"

definition dec_message :: "json \<Rightarrow> message option" where
  "dec_message j = dec_struct message_fields j empty_message"

text \<open>A nil slice is written as \<open>null\<close>, and reads back as the same empty list.\<close>

definition enc_messages :: "message list \<Rightarrow> json" where
  "enc_messages ms = JArr (map enc_message ms)"

definition dec_messages :: "json \<Rightarrow> message list option" where
  "dec_messages j = dec_slice dec_message (\<lambda>ms _. ms) j []"

subsection \<open>\<open>memory.Snapshot\<close>\<close>

definition enc_snapshot :: "snapshot \<Rightarrow> json" where
  "enc_snapshot s = JObj
     ([(''summary'', enc_string (sn_summary s))] @
      omitempty (sn_pinned s = []) ''pinned'' (JArr (map enc_message (sn_pinned s))) @
      [(''upTo'', enc_string (sn_upTo s))])"

definition empty_snapshot :: snapshot where
  "empty_snapshot = \<lparr>sn_summary = [], sn_pinned = [], sn_upTo = []\<rparr>"

definition snapshot_fields :: "snapshot field list" where
  "snapshot_fields =
     [(''summary'', dec_string (\<lambda>x s. s\<lparr>sn_summary := x\<rparr>)),
      (''pinned'', dec_slice dec_message (\<lambda>ms s. s\<lparr>sn_pinned := ms\<rparr>)),
      (''upTo'', dec_string (\<lambda>x s. s\<lparr>sn_upTo := x\<rparr>))]"

text \<open>A pointer: \<open>null\<close> makes it nil.\<close>

definition dec_snapshot_ptr :: "json \<Rightarrow> snapshot option \<Rightarrow> snapshot option option" where
  "dec_snapshot_ptr j x =
     (case j of
        JNull \<Rightarrow> Some None
      | _ \<Rightarrow> map_option Some (dec_struct snapshot_fields j (case x of None \<Rightarrow> empty_snapshot | Some s \<Rightarrow> s)))"

subsection \<open>What is encoded is decoded again\<close>

definition valid_part :: "content_part \<Rightarrow> bool" where
  "valid_part p \<longleftrightarrow> list_all valid_utf8
     [cp_type p, cp_text p, cp_image_url p, cp_image_base64 p, cp_mime_type p, cp_signature p]"

definition valid_tool_call :: "tool_call \<Rightarrow> bool" where
  "valid_tool_call t \<longleftrightarrow> list_all valid_utf8
     [tc_id t, tc_type t, fc_name (tc_function t), fc_arguments (tc_function t)]"

definition valid_message :: "message \<Rightarrow> bool" where
  "valid_message m \<longleftrightarrow> list_all valid_utf8 [role m, tool_call_id m, msg_name m] \<and>
     list_all valid_part (parts m) \<and> list_all valid_tool_call (tool_calls m)"

definition valid_snapshot :: "snapshot \<Rightarrow> bool" where
  "valid_snapshot s \<longleftrightarrow> list_all valid_utf8 [sn_summary s, sn_upTo s] \<and> list_all valid_message (sn_pinned s)"

lemma to_valid_id [simp]: "valid_utf8 s \<Longrightarrow> to_valid s = s"
proof -
  assume "valid_utf8 s"
  then have "runes s = utf8_chunks s"
    by (auto simp: runes_def valid_utf8_def intro!: map_idI)
  then show ?thesis by (simp add: to_valid_def)
qed

lemma dec_members_append:
  "dec_members fs (as @ bs) x = (case dec_members fs as x of None \<Rightarrow> None | Some y \<Rightarrow> dec_members fs bs y)"
  by (induction fs as x rule: dec_members.induct) (auto split: option.splits)

lemma dec_members_omitempty:
  "dec_members fs (omitempty e k v @ ms) x = (if e then dec_members fs ms x else dec_members fs ((k, v) # ms) x)"
  "dec_members fs (omitempty e k v) x = (if e then Some x else dec_members fs [(k, v)] x)"
  by (simp_all add: omitempty_def)

lemma dec_elems_map: "list_all (\<lambda>x. f (g x) = Some x) xs \<Longrightarrow> dec_elems f (map g xs) = Some xs"
  by (induction xs) auto

lemmas dec_simps = dec_struct_def dec_members_omitempty dec_string_def dec_bool_def dec_slice_def
  enc_string_def same_key_def ascii_lower_def byte_def

lemma dec_enc_part: "valid_part p \<Longrightarrow> dec_part (enc_part p) = Some p"
  by (simp add: dec_part_def enc_part_def part_fields_def valid_part_def dec_simps empty_part_def)

lemma dec_enc_tool_call: "valid_tool_call t \<Longrightarrow> dec_tool_call (enc_tool_call t) = Some t"
  by (simp add: dec_tool_call_def enc_tool_call_def tool_call_fields_def valid_tool_call_def dec_simps
      enc_function_call_def function_call_fields_def empty_tool_call_def empty_function_call_def)

lemma dec_enc_message: "valid_message m \<Longrightarrow> dec_message (enc_message m) = Some m"
proof -
  assume v: "valid_message m"
  have "dec_elems dec_part (map enc_part (parts m)) = Some (parts m)"
    "dec_elems dec_tool_call (map enc_tool_call (tool_calls m)) = Some (tool_calls m)"
    using v by (auto simp: valid_message_def list_all_iff dec_enc_part dec_enc_tool_call intro!: dec_elems_map)
  then show ?thesis using v
    by (simp add: dec_message_def enc_message_def message_fields_def valid_message_def dec_simps empty_message_def)
qed

lemma dec_enc_messages: "list_all valid_message ms \<Longrightarrow> dec_messages (enc_messages ms) = Some ms"
  by (simp add: dec_messages_def enc_messages_def dec_slice_def dec_elems_map list_all_iff dec_enc_message)

lemma dec_enc_snapshot:
  "valid_snapshot s \<Longrightarrow> dec_snapshot_ptr (enc_snapshot s) None = Some (Some s)"
proof -
  assume v: "valid_snapshot s"
  have "dec_elems dec_message (map enc_message (sn_pinned s)) = Some (sn_pinned s)"
    using v by (auto simp: valid_snapshot_def list_all_iff dec_enc_message intro!: dec_elems_map)
  then show ?thesis using v
    by (simp add: dec_snapshot_ptr_def enc_snapshot_def snapshot_fields_def valid_snapshot_def empty_snapshot_def dec_simps)
qed

end
