(* ===== verification/Session_Log.thy ===== *)
theory Session_Log
  imports Simple_Memory Message_Json
begin

section \<open>Memories that keep the whole log\<close>

text \<open>
  \<open>memory/jsonfile\<close> and \<open>memory/nats\<close> keep an unbounded log: messages, the absolute position of
  the first one, and the latest snapshot. Both drop the messages a snapshot stands for in the same
  way, and add messages at the end. The lemmas say what that does to the tail of the log, for the
  interpretations of \<open>snapshot_store\<close>.
\<close>

text \<open>The summary of the oldest messages, as both memories ask for it: a nil result or message panics.\<close>

definition summary_message ::
  "'w llm \<Rightarrow> 'w goctx \<Rightarrow> message list \<Rightarrow> 'w \<Rightarrow> (err + message) outcome \<times> 'w" where
  "summary_message l ctx toSummarize w =
     (case llm_execute l ctx [FormatSummaryPrompt toSummarize] [] w of
        (Inl e, w') \<Rightarrow> (Returned (Inl e), w')
      | (Inr None, w') \<Rightarrow> (Panicked nil_deref, w')
      | (Inr (Some r), w') \<Rightarrow>
          (case res_message r of
             None \<Rightarrow> (Panicked nil_deref, w')
           | Some summaryMsg \<Rightarrow>
               (Returned (Inr (SystemMessage (SummarySystemMessagePrefix @ msg_text summaryMsg))), w')))"

text \<open>\<open>if m.prune && pos >= m.offset\<close>: the messages up to \<open>pos\<close> go, the positions stay.\<close>

definition prune_log :: "bool \<Rightarrow> int \<Rightarrow> message list \<Rightarrow> int \<Rightarrow> message list \<times> int" where
  "prune_log prune pos ms offset =
     (if prune \<and> offset \<le> pos then (drop (nat (pos + 1 - offset)) ms, pos + 1) else (ms, offset))"

lemma map_Tail_append:
  "suffix (map lm_message (Tail (ms @ new) offset sn)) (map lm_message (Tail ms offset sn) @ new)"
  by (simp only: map_lm_message_Tail suffix_drop_append)

lemma Tail_prune_log:
  assumes "prune_log b pos ms offset = (ms', offset')"
    and "Position c = Inr pos" and "pos < offset + int (length ms)"
  shows "Tail ms' offset' (Some (s\<lparr>sn_upTo := c\<rparr>)) = Tail ms offset (Some (s\<lparr>sn_upTo := c\<rparr>)) \<and>
    offset' + int (length ms') = offset + int (length ms)"
proof (cases "b \<and> offset \<le> pos")
  case True
  let ?k = "nat (pos + 1 - offset)"
  have m: "ms' = drop ?k ms" "offset' = pos + 1" "offset' = offset + int ?k"
    using assms(1) True by (auto simp: prune_log_def)
  have "tail_start offset (Some (s\<lparr>sn_upTo := c\<rparr>)) = ?k" "tail_start offset' (Some (s\<lparr>sn_upTo := c\<rparr>)) = 0"
    using assms(2) True m by (auto simp: tail_start_def max_def)
  moreover have "?k \<le> length ms" using assms(3) True by linarith
  ultimately show ?thesis using m by (simp add: Tail_eq drop_log_at)
next
  case False
  then have "ms' = ms" "offset' = offset" using assms(1) by (auto simp: prune_log_def)
  then show ?thesis by simp
qed

end
