(* ===== verification/Json_Memory.thy ===== *)
theory Json_Memory
  imports Session_Log "HOL-Library.List_Lexorder" "HOL-Library.Char_ord"
begin

section \<open>Package memory/jsonfile: the log in a JSON file\<close>

text \<open>
  \<open>Memory\<close> of \<open>memory/jsonfile/memory.go\<close> and \<open>meta.go\<close>: the whole log in memory, written to its
  file after every change. The file is what \<open>json.Unmarshal\<close> makes of it: a JSON value, text that
  is not JSON, or no file. The steps of \<open>persist\<close> fail when the environment says so
  (\<open>disk_io\<close>); encoding never fails for these types, and the texts of decoding errors are left out.
  A Go map from strings is an association list in the order of the keys, as \<open>encoding/json\<close> writes
  it; a map that is nil is \<open>None\<close>.

  The memory with its disk implements \<open>snapshot_store\<close> (interpretation \<open>jf\<close>) while the disk works
  and no summarization LLM is set.
\<close>

subsection \<open>The file and its disk\<close>

definition ErrEmptyFilePath :: err where
  "ErrEmptyFilePath = Sentinel (VarE ''jsonfile.ErrEmptyFilePath'' ''empty file path'')"

definition ErrUnknownFileVersion :: err where
  "ErrUnknownFileVersion = Sentinel (VarE ''jsonfile.ErrUnknownFileVersion'' ''unknown memory file version'')"

datatype mem_file = NoFile | Holds json | NotJson

record json_disk =
  jd_file :: mem_file
  jd_mtime :: int
  jd_temps :: nat

record disk_io =
  io_read :: "string option"
  io_stat :: "string option"
  io_create :: "string option"
  io_write :: "string option"
  io_sync :: "string option"
  io_close :: "string option"
  io_rename :: "string option"
  io_remove :: bool
  io_time :: int

definition io_fine :: "disk_io \<Rightarrow> bool" where
  "io_fine io \<longleftrightarrow> io_read io = None \<and> io_stat io = None \<and> io_create io = None \<and> io_write io = None \<and>
     io_sync io = None \<and> io_close io = None \<and> io_rename io = None"

subsection \<open>Metadata\<close>

type_synonym meta = "(string \<times> string) list"

fun meta_put :: "string \<Rightarrow> string \<Rightarrow> meta \<Rightarrow> meta" where
  "meta_put k v [] = [(k, v)]"
| "meta_put k v ((k', v') # ms) =
     (if k = k' then (k, v) # ms
      else if k < k' then (k, v) # (k', v') # ms
      else (k', v') # meta_put k v ms)"

definition meta_delete :: "string \<Rightarrow> meta \<Rightarrow> meta" where
  "meta_delete k ms = filter (\<lambda>(k', v). k' \<noteq> k) ms"

definition meta_list :: "meta option \<Rightarrow> meta" where
  "meta_list m = (case m of None \<Rightarrow> [] | Some ms \<Rightarrow> ms)"

definition enc_meta :: "meta \<Rightarrow> json" where
  "enc_meta ms = JObj (map (\<lambda>(k, v). (to_valid k, enc_string v)) ms)"

fun dec_entries :: "(string \<times> json) list \<Rightarrow> meta \<Rightarrow> meta option" where
  "dec_entries [] ms = Some ms"
| "dec_entries ((k, j) # js) ms =
     (case j of
        JStr v \<Rightarrow> dec_entries js (meta_put k v ms)
      | JNull \<Rightarrow> dec_entries js (meta_put k [] ms)
      | _ \<Rightarrow> None)"

definition dec_meta :: "json \<Rightarrow> meta option \<Rightarrow> meta option option" where
  "dec_meta j m =
     (case j of
        JNull \<Rightarrow> Some None
      | JObj js \<Rightarrow> map_option Some (dec_entries js (meta_list m))
      | _ \<Rightarrow> None)"

subsection \<open>The file format\<close>

definition fileVersion :: int where "fileVersion = 2"

record 'm stored_file =
  sf_version :: int
  sf_offset :: int
  sf_messages :: "'m list"
  sf_snapshot :: "snapshot option"
  sf_meta :: "meta option"

definition empty_file :: "'m stored_file" where
  "empty_file = \<lparr>sf_version = 0, sf_offset = 0, sf_messages = [], sf_snapshot = None, sf_meta = None\<rparr>"

definition file_fields :: "(json \<Rightarrow> 'm option) \<Rightarrow> 'm stored_file field list" where
  "file_fields dec =
     [(''version'', dec_int (\<lambda>i f. f\<lparr>sf_version := i\<rparr>)),
      (''offset'', dec_int (\<lambda>i f. f\<lparr>sf_offset := i\<rparr>)),
      (''messages'', dec_slice dec (\<lambda>ms f. f\<lparr>sf_messages := ms\<rparr>)),
      (''snapshot'', \<lambda>j f. map_option (\<lambda>s. f\<lparr>sf_snapshot := s\<rparr>) (dec_snapshot_ptr j (sf_snapshot f))),
      (''meta'', \<lambda>j f. map_option (\<lambda>m. f\<lparr>sf_meta := m\<rparr>) (dec_meta j (sf_meta f)))]"

definition decode_error :: err where
  "decode_error = Opaque ''json: cannot decode''"

definition decodeFile :: "(json \<Rightarrow> 'm option) \<Rightarrow> json option \<Rightarrow> err + 'm stored_file" where
  "decodeFile dec data =
     (case data of
        None \<Rightarrow> Inl decode_error
      | Some (JObj ms) \<Rightarrow>
          (case dec_struct (file_fields dec) (JObj ms) empty_file of
             None \<Rightarrow> Inl decode_error
           | Some f \<Rightarrow>
               if sf_version f \<noteq> fileVersion
               then Inl (errorf1 ErrUnknownFileVersion ('': '' @ go_itoa (sf_version f)))
               else Inr f)
      | Some j \<Rightarrow>
          (case dec_slice dec (\<lambda>ms f. f\<lparr>sf_messages := ms\<rparr>) j empty_file of
             None \<Rightarrow> Inl decode_error
           | Some f \<Rightarrow> Inr f))"

subsection \<open>The memory\<close>

record 'w json_memory =
  jm_messages :: "message list"
  jm_path :: string
  jm_llm :: "'w llm option"
  jm_threshold :: nat
  jm_size :: nat
  jm_offset :: int
  jm_snapshot :: "snapshot option"
  jm_prune :: bool
  jm_meta :: "meta option"

type_synonym 'w json_option = "'w json_memory \<Rightarrow> 'w json_memory"

definition WithPruneCompacted_json :: "bool \<Rightarrow> 'w json_option" where
  "WithPruneCompacted_json prune m = m\<lparr>jm_prune := prune\<rparr>"

definition WithSummarization_json ::
  "('w llm \<Rightarrow> 'w llm) \<Rightarrow> 'w llm option \<Rightarrow> nat \<Rightarrow> nat \<Rightarrow> 'w json_option" where
  "WithSummarization_json instrument summaryLLM threshold summarySize m =
     (let m1 = (case summaryLLM of None \<Rightarrow> m | Some l \<Rightarrow> m\<lparr>jm_llm := Some (instrument l)\<rparr>)
      in m1\<lparr>jm_size := ClampSummarySize threshold summarySize, jm_threshold := threshold\<rparr>)"

text \<open>\<open>os.ReadFile\<close>.\<close>

definition read_memory_file :: "disk_io \<Rightarrow> string \<Rightarrow> json_disk \<Rightarrow> err + json option" where
  "read_memory_file io path d =
     (case io_read io of
        Some e \<Rightarrow> Inl (Opaque e)
      | None \<Rightarrow>
          (case jd_file d of
             NoFile \<Rightarrow> Inl (Wrapped (''open '' @ path @ '': no such file or directory'') [Sentinel (StdE ErrNotExist)])
           | Holds j \<Rightarrow> Inr (Some j)
           | NotJson \<Rightarrow> Inr None))"

definition load_json :: "disk_io \<Rightarrow> json_disk \<Rightarrow> 'w json_memory \<Rightarrow> err + 'w json_memory" where
  "load_json io d m =
     (case read_memory_file io (jm_path m) d of
        Inl e \<Rightarrow> if err_is e (StdE ErrNotExist) then Inr m else Inl e
      | Inr data \<Rightarrow>
          (case decodeFile dec_message data of
             Inl e \<Rightarrow> Inl e
           | Inr f \<Rightarrow> Inr (m\<lparr>jm_messages := sf_messages f, jm_offset := sf_offset f,
                            jm_snapshot := sf_snapshot f, jm_meta := sf_meta f\<rparr>)))"

definition New_json :: "disk_io \<Rightarrow> json_disk \<Rightarrow> string \<Rightarrow> 'w json_option list \<Rightarrow> err + 'w json_memory" where
  "New_json io d path options =
     (if path = [] then Inl ErrEmptyFilePath
      else load_json io d (fold (\<lambda>f. f) options
        \<lparr>jm_messages = [], jm_path = path, jm_llm = None, jm_threshold = 0, jm_size = 0, jm_offset = 0,
         jm_snapshot = None, jm_prune = False, jm_meta = None\<rparr>))"

definition encode_json :: "'w json_memory \<Rightarrow> json" where
  "encode_json m =
     (if jm_snapshot m = None \<and> jm_offset m = 0 \<and> meta_list (jm_meta m) = []
      then enc_messages (jm_messages m)
      else JObj
        ([(''version'', JNum (go_itoa fileVersion)), (''offset'', JNum (go_itoa (jm_offset m))),
          (''messages'', enc_messages (jm_messages m))] @
         (case jm_snapshot m of None \<Rightarrow> [] | Some s \<Rightarrow> [(''snapshot'', enc_snapshot s)]) @
         omitempty (meta_list (jm_meta m) = []) ''meta'' (enc_meta (meta_list (jm_meta m)))))"

text \<open>A step of \<open>persist\<close> that fails after the temporary file was made removes it, if it can.\<close>

definition drop_temp :: "disk_io \<Rightarrow> json_disk \<Rightarrow> json_disk" where
  "drop_temp io d = (if io_remove io then d else d\<lparr>jd_temps := Suc (jd_temps d)\<rparr>)"

definition step_error :: "string \<Rightarrow> string \<Rightarrow> err" where
  "step_error what e = Wrapped (what @ '': '' @ e) [Opaque e]"

definition persist :: "disk_io \<Rightarrow> 'w json_memory \<Rightarrow> json_disk \<Rightarrow> err option \<times> json_disk" where
  "persist io m d =
     (case io_create io of
        Some e \<Rightarrow> (Some (step_error ''create temp file'' e), d)
      | None \<Rightarrow> (case io_write io of
        Some e \<Rightarrow> (Some (step_error ''write temp file'' e), drop_temp io d)
      | None \<Rightarrow> (case io_sync io of
        Some e \<Rightarrow> (Some (step_error ''sync temp file'' e), drop_temp io d)
      | None \<Rightarrow> (case io_close io of
        Some e \<Rightarrow> (Some (step_error ''close temp file'' e), drop_temp io d)
      | None \<Rightarrow> (case io_rename io of
        Some e \<Rightarrow> (Some (step_error ''rename temp file'' e), drop_temp io d)
      | None \<Rightarrow> (None, d\<lparr>jd_file := Holds (encode_json m), jd_mtime := io_time io\<rparr>))))))"

definition needSummarization_json :: "'w json_memory \<Rightarrow> bool" where
  "needSummarization_json m \<longleftrightarrow>
     jm_llm m \<noteq> None \<and> 0 < jm_threshold m \<and> jm_threshold m \<le> length (jm_messages m)"

definition summarize_log ::
  "'w llm \<Rightarrow> 'w goctx \<Rightarrow> nat \<Rightarrow> message list \<Rightarrow> 'w \<Rightarrow> (err + message list) outcome \<times> 'w" where
  "summarize_log l ctx n ms w =
     (let split = SplitPoint ms (int n)
      in case summary_message l ctx (take split ms) w of
           (Panicked p, w') \<Rightarrow> (Panicked p, w')
         | (Returned (Inl e), w') \<Rightarrow> (Returned (Inl e), w')
         | (Returned (Inr summaryMsg), w') \<Rightarrow> (Returned (Inr (summaryMsg # drop split ms)), w'))"

type_synonym 'w json_result = "err option outcome \<times> 'w json_memory \<times> 'w \<times> json_disk"

definition save_json ::
  "'w goctx \<Rightarrow> disk_io \<Rightarrow> message list \<Rightarrow> 'w json_memory \<Rightarrow> 'w \<Rightarrow> json_disk \<Rightarrow> 'w json_result" where
  "save_json ctx io messages m w d =
     (let m1 = m\<lparr>jm_messages := jm_messages m @ messages\<rparr> in
      if needSummarization_json m1
      then (case jm_llm m1 of
              None \<Rightarrow> (Panicked nil_deref, m1, w, d)
            | Some l \<Rightarrow>
                (case summarize_log l ctx (jm_size m1) (jm_messages m1) w of
                   (Panicked p, w1) \<Rightarrow> (Panicked p, m1, w1, d)
                 | (Returned (Inl e), w1) \<Rightarrow> (Returned (Some e), m1, w1, d)
                 | (Returned (Inr ms), w1) \<Rightarrow>
                     (let m2 = m1\<lparr>jm_messages := ms\<rparr>; (e, d1) = persist io m2 d
                      in (Returned e, m2, w1, d1))))
      else (let (e, d1) = persist io m1 d in (Returned e, m1, w, d1)))"

definition Save_json ::
  "'w goctx \<Rightarrow> disk_io \<Rightarrow> message list \<Rightarrow> 'w json_memory \<Rightarrow> 'w \<Rightarrow> json_disk \<Rightarrow> 'w json_result" where
  "Save_json ctx io messages m w d =
     (case save_json ctx io messages m w d of
        (Returned (Some e), m1, w1, d1) \<Rightarrow> (Returned (Some e), m1\<lparr>jm_messages := jm_messages m\<rparr>, w1, d1)
      | r \<Rightarrow> r)"

definition Retrieve_json :: "'w json_memory \<Rightarrow> message list" where
  "Retrieve_json m =
     (case jm_snapshot m of
        Some s \<Rightarrow> if jm_llm m = None then View (jm_messages m) (jm_offset m) s else jm_messages m
      | None \<Rightarrow> jm_messages m)"

definition LoadSnapshot_json :: "'w json_memory \<Rightarrow> err + (snapshot option \<times> logged_message list)" where
  "LoadSnapshot_json m =
     (if jm_llm m \<noteq> None then Inl (Sentinel (MemoryE ErrSnapshotsUnsupported))
      else Inr (jm_snapshot m, Tail (jm_messages m) (jm_offset m) (jm_snapshot m)))"

definition SaveSnapshot_json ::
  "disk_io \<Rightarrow> snapshot \<Rightarrow> cursor \<Rightarrow> snapshot option \<Rightarrow> 'w json_memory \<Rightarrow> json_disk \<Rightarrow>
     err option \<times> 'w json_memory \<times> json_disk" where
  "SaveSnapshot_json io s upTo prev m d =
     (if jm_llm m \<noteq> None then (Some (Sentinel (MemoryE ErrSnapshotsUnsupported)), m, d)
      else case Cutoff (jm_snapshot m) prev upTo (jm_offset m + int (length (jm_messages m))) of
        Inl e \<Rightarrow> (Some e, m, d)
      | Inr pos \<Rightarrow>
          (let m1 = m\<lparr>jm_snapshot := Some (s\<lparr>sn_upTo := upTo\<rparr>)\<rparr>;
               (ms, offset) = prune_log (jm_prune m) pos (jm_messages m) (jm_offset m);
               m2 = m1\<lparr>jm_messages := ms, jm_offset := offset\<rparr>;
               (err, d1) = persist io m2 d
           in case err of
                Some e \<Rightarrow> (Some e, m2\<lparr>jm_messages := jm_messages m, jm_offset := jm_offset m,
                                    jm_snapshot := jm_snapshot m\<rparr>, d1)
              | None \<Rightarrow> (None, m2, d1)))"

definition Clear_json :: "disk_io \<Rightarrow> 'w json_memory \<Rightarrow> json_disk \<Rightarrow> err option \<times> 'w json_memory \<times> json_disk" where
  "Clear_json io m d =
     (let m1 = m\<lparr>jm_messages := [], jm_offset := 0, jm_snapshot := None, jm_meta := None\<rparr>;
          (e, d1) = persist io m1 d
      in (e, m1, d1))"

definition Len_json :: "'w json_memory \<Rightarrow> nat" where
  "Len_json m = length (jm_messages m)"

definition SetMeta ::
  "disk_io \<Rightarrow> string \<Rightarrow> string \<Rightarrow> 'w json_memory \<Rightarrow> json_disk \<Rightarrow> err option \<times> 'w json_memory \<times> json_disk" where
  "SetMeta io key val m d =
     (let old = jm_meta m;
          m1 = m\<lparr>jm_meta := (if val = [] then map_option (meta_delete key) old
                             else Some (meta_put key val (meta_list old)))\<rparr>;
          (err, d1) = persist io m1 d
      in case err of
           Some e \<Rightarrow> (Some e, m1\<lparr>jm_meta := old\<rparr>, d1)
         | None \<Rightarrow> (None, m1, d1))"

definition Meta :: "'w json_memory \<Rightarrow> meta option" where
  "Meta m = jm_meta m"

record info =
  inf_messages :: int
  inf_updated :: int
  inf_compacted :: bool
  inf_meta :: "meta option"

definition Inspect :: "disk_io \<Rightarrow> json_disk \<Rightarrow> string \<Rightarrow> err + info" where
  "Inspect io d path =
     (if path = [] then Inl ErrEmptyFilePath
      else case read_memory_file io path d of
        Inl e \<Rightarrow> Inl e
      | Inr data \<Rightarrow>
          (case io_stat io of
             Some e \<Rightarrow> Inl (Opaque e)
           | None \<Rightarrow>
               (case decodeFile Some data of
                  Inl e \<Rightarrow> Inl (Wrapped (path @ '': '' @ err_text e) [e])
                | Inr f \<Rightarrow> Inr \<lparr>inf_messages = sf_offset f + int (length (sf_messages f)), inf_updated = jd_mtime d,
                    inf_compacted = sf_snapshot f \<noteq> None, inf_meta = sf_meta f\<rparr>)))"

subsection \<open>What is written is read again\<close>

lemma meta_list_simps [simp]: "meta_list None = []" "meta_list (Some ms) = ms"
  by (simp_all add: meta_list_def)

definition meta_keys_sorted :: "meta \<Rightarrow> bool" where
  "meta_keys_sorted ms \<longleftrightarrow> sorted_wrt (\<lambda>a b. fst a < fst b) ms"

definition valid_meta :: "meta \<Rightarrow> bool" where
  "valid_meta ms \<longleftrightarrow> meta_keys_sorted ms \<and> list_all (\<lambda>(k, v). valid_utf8 k \<and> valid_utf8 v) ms"

lemma meta_put_all: "list_all P ms \<Longrightarrow> P (k, v) \<Longrightarrow> list_all P (meta_put k v ms)"
  by (induction k v ms rule: meta_put.induct) auto

lemma meta_put_sorted: "meta_keys_sorted ms \<Longrightarrow> meta_keys_sorted (meta_put k v ms)"
proof (induction k v ms rule: meta_put.induct)
  case (2 k v k' v' ms)
  have "list_all (\<lambda>a. k' < fst a) (meta_put k v ms)" if "k' < k"
    using "2.prems" that by (intro meta_put_all) (auto simp: meta_keys_sorted_def list_all_iff)
  moreover have "list_all (\<lambda>a. k < fst a) ms" if "k < k'"
    using "2.prems" that by (auto simp: meta_keys_sorted_def list_all_iff)
  ultimately show ?case using 2
    by (auto simp: meta_keys_sorted_def list_all_iff)
qed (simp add: meta_keys_sorted_def)

lemma meta_put_valid:
  "valid_meta ms \<Longrightarrow> valid_utf8 k \<Longrightarrow> valid_utf8 v \<Longrightarrow> valid_meta (meta_put k v ms)"
  by (simp add: valid_meta_def meta_put_sorted meta_put_all)

lemma meta_delete_valid: "valid_meta ms \<Longrightarrow> valid_meta (meta_delete k ms)"
  by (auto simp: valid_meta_def meta_keys_sorted_def meta_delete_def list_all_iff sorted_wrt_filter)

lemma meta_put_last: "list_all (\<lambda>(k', v'). k' < k) ms \<Longrightarrow> meta_put k v ms = ms @ [(k, v)]"
  by (induction k v ms rule: meta_put.induct) auto

lemma dec_entries_enc:
  assumes "valid_meta (acc @ ms)"
  shows "dec_entries (map (\<lambda>(k, v). (to_valid k, enc_string v)) ms) acc = Some (acc @ ms)"
  using assms
proof (induction ms arbitrary: acc)
  case (Cons x ms)
  obtain k v where x: "x = (k, v)" by fastforce
  have "list_all (\<lambda>(k', v'). k' < k) acc"
    using Cons.prems x by (auto simp: valid_meta_def meta_keys_sorted_def sorted_wrt_append list_all_iff)
  moreover have "valid_utf8 k" "valid_utf8 v" using Cons.prems x by (simp_all add: valid_meta_def)
  ultimately show ?case using Cons.IH [of "acc @ [x]"] Cons.prems x
    by (simp add: enc_string_def meta_put_last)
qed simp

lemma dec_enc_meta: "valid_meta ms \<Longrightarrow> dec_meta (enc_meta ms) None = Some (Some ms)"
  using dec_entries_enc [of "[]" ms] by (simp add: dec_meta_def enc_meta_def)

definition json_valid :: "'w json_memory \<Rightarrow> bool" where
  "json_valid m \<longleftrightarrow> list_all valid_message (jm_messages m) \<and> pred_option valid_snapshot (jm_snapshot m) \<and>
     valid_meta (meta_list (jm_meta m)) \<and> 0 \<le> jm_offset m \<and>
     jm_offset m + int (length (jm_messages m)) \<le> max_int64"

text \<open>The contents of a memory, and of a file.\<close>

definition contents_json :: "'w json_memory \<Rightarrow> message list \<times> int \<times> snapshot option \<times> meta" where
  "contents_json m = (jm_messages m, jm_offset m, jm_snapshot m, meta_list (jm_meta m))"

definition contents_file :: "message stored_file \<Rightarrow> message list \<times> int \<times> snapshot option \<times> meta" where
  "contents_file f = (sf_messages f, sf_offset f, sf_snapshot f, meta_list (sf_meta f))"

lemma dec_slice_messages:
  "list_all valid_message ms \<Longrightarrow> dec_slice dec_message upd (enc_messages ms) x = Some (upd ms x)"
  by (simp add: dec_slice_def enc_messages_def dec_elems_map list_all_iff dec_enc_message)

lemma dec_int_itoa:
  "min_int64 \<le> i \<Longrightarrow> i \<le> max_int64 \<Longrightarrow> dec_int upd (JNum (go_itoa i)) x = Some (upd i x)"
  by (simp add: dec_int_def go_atoi_itoa)

lemma decode_encode:
  assumes "json_valid m"
  shows "\<exists>f. decodeFile dec_message (Some (encode_json m)) = Inr f \<and> contents_file f = contents_json m"
proof (cases "jm_snapshot m = None \<and> jm_offset m = 0 \<and> meta_list (jm_meta m) = []")
  case True
  then show ?thesis using assms
    by (simp add: encode_json_def decodeFile_def enc_messages_def contents_file_def contents_json_def empty_file_def
        json_valid_def dec_slice_messages [unfolded enc_messages_def])
next
  case False
  have len: "0 \<le> jm_offset m" "jm_offset m \<le> max_int64" "list_all valid_message (jm_messages m)"
    "pred_option valid_snapshot (jm_snapshot m)" "valid_meta (meta_list (jm_meta m))"
    using assms by (auto simp: json_valid_def)
  have nums: "dec_int upd (JNum (go_itoa 2)) x = Some (upd 2 x)"
    "dec_int upd (JNum (go_itoa (jm_offset m))) x = Some (upd (jm_offset m) x)" for upd and x :: "message stored_file"
    using len by (simp_all add: dec_int_itoa min_int64_def max_int64_def)
  show ?thesis using False len
    by (cases "jm_snapshot m")
      (auto simp: encode_json_def decodeFile_def dec_struct_def file_fields_def nums dec_slice_messages
        dec_members_append dec_members_omitempty same_key_def ascii_lower_def byte_def fileVersion_def
        dec_enc_snapshot dec_enc_meta empty_file_def contents_file_def contents_json_def)
qed

subsection \<open>Writing the file\<close>

lemma persist_ok: "persist io m d = (None, d') \<Longrightarrow> jd_file d' = Holds (encode_json m)"
  by (auto simp: persist_def split: option.splits)

lemma persist_failed: "persist io m d = (Some e, d') \<Longrightarrow> jd_file d' = jd_file d"
  by (auto simp: persist_def drop_temp_def split: option.splits)

lemma persist_fine: "io_fine io \<Longrightarrow> persist io m d = (None, d\<lparr>jd_file := Holds (encode_json m), jd_mtime := io_time io\<rparr>)"
  by (simp add: io_fine_def persist_def)

text \<open>A disk that holds a memory: opening it again gives the memory's contents.\<close>

definition disk_holds :: "'w json_memory \<Rightarrow> json_disk \<Rightarrow> bool" where
  "disk_holds m d \<longleftrightarrow>
     (case jd_file d of
        NoFile \<Rightarrow> contents_json m = ([], 0, None, [])
      | Holds j \<Rightarrow> (case decodeFile dec_message (Some j) of
                     Inl e \<Rightarrow> False
                   | Inr f \<Rightarrow> contents_file f = contents_json m)
      | NotJson \<Rightarrow> False)"

lemma persist_holds:
  assumes "json_valid m" and "persist io m d = (None, d')"
  shows "disk_holds m d'"
  using decode_encode [OF assms(1)] persist_ok [OF assms(2)] by (auto simp: disk_holds_def)

lemma persist_keeps: "persist io m d = (Some e, d') \<Longrightarrow> disk_holds m' d' = disk_holds m' d"
  by (simp add: disk_holds_def persist_failed)

lemma New_json_holds:
  assumes "disk_holds m d" and "io_read io = None" and "path \<noteq> []"
  shows "\<exists>m'. New_json io d path [] = Inr m' \<and> contents_json m' = contents_json m \<and> jm_llm m' = None"
  using assms by (cases "jd_file d")
    (auto simp: disk_holds_def New_json_def load_json_def read_memory_file_def contents_json_def contents_file_def
      split: sum.splits)

subsection \<open>Calls\<close>

datatype json_call =
    CallSave "message list"
  | CallSaveSnapshot snapshot cursor "snapshot option"
  | CallClear
  | CallSetMeta string string

fun run_json_call ::
  "'w goctx \<Rightarrow> disk_io \<Rightarrow> json_call \<Rightarrow> 'w json_memory \<Rightarrow> 'w \<Rightarrow> json_disk \<Rightarrow> 'w json_result" where
  "run_json_call ctx io (CallSave ms) m w d = Save_json ctx io ms m w d"
| "run_json_call ctx io (CallSaveSnapshot s c prev) m w d =
     (let (e, m1, d1) = SaveSnapshot_json io s c prev m d in (Returned e, m1, w, d1))"
| "run_json_call ctx io CallClear m w d = (let (e, m1, d1) = Clear_json io m d in (Returned e, m1, w, d1))"
| "run_json_call ctx io (CallSetMeta k v) m w d = (let (e, m1, d1) = SetMeta io k v m d in (Returned e, m1, w, d1))"

text \<open>
  Text that is UTF-8, and a disk that works while the memory is cleared: \<open>Clear\<close> does not take a
  failed write back.
\<close>

fun valid_json_call :: "disk_io \<times> json_call \<Rightarrow> bool" where
  "valid_json_call (io, CallSave ms) = list_all valid_message ms"
| "valid_json_call (io, CallSaveSnapshot s c prev) = (valid_snapshot s \<and> valid_utf8 c)"
| "valid_json_call (io, CallClear) = io_fine io"
| "valid_json_call (io, CallSetMeta k v) = (valid_utf8 k \<and> valid_utf8 v)"

fun saved_by :: "disk_io \<times> json_call \<Rightarrow> nat" where
  "saved_by (io, CallSave ms) = length ms"
| "saved_by (io, c) = 0"

fun run_json_calls ::
  "'w goctx \<Rightarrow> (disk_io \<times> json_call) list \<Rightarrow> 'w json_memory \<times> 'w \<times> json_disk \<Rightarrow> 'w json_memory \<times> 'w \<times> json_disk" where
  "run_json_calls ctx [] s = s"
| "run_json_calls ctx ((io, c) # cs) (m, w, d) = run_json_calls ctx cs (snd (run_json_call ctx io c m w d))"

definition json_inv :: "nat \<Rightarrow> 'w json_memory \<Rightarrow> json_disk \<Rightarrow> bool" where
  "json_inv room m d \<longleftrightarrow> jm_llm m = None \<and> json_valid m \<and> disk_holds m d \<and>
     jm_offset m + int (length (jm_messages m)) + int room \<le> max_int64"

lemma Save_json_plain:
  assumes "jm_llm m = None"
  shows "Save_json ctx io ms m w d =
    (let m1 = m\<lparr>jm_messages := jm_messages m @ ms\<rparr>; (e, d1) = persist io m1 d
     in (Returned e, if e = None then m1 else m, w, d1))"
  using assms by (auto simp: Save_json_def save_json_def needSummarization_json_def Let_def split: prod.splits option.splits)

lemma SaveSnapshot_json_plain:
  assumes "jm_llm m = None"
  shows "SaveSnapshot_json io s c prev m d =
    (case Cutoff (jm_snapshot m) prev c (jm_offset m + int (length (jm_messages m))) of
       Inl e \<Rightarrow> (Some e, m, d)
     | Inr pos \<Rightarrow>
         (let (ms, off) = prune_log (jm_prune m) pos (jm_messages m) (jm_offset m);
              m2 = m\<lparr>jm_snapshot := Some (s\<lparr>sn_upTo := c\<rparr>), jm_messages := ms, jm_offset := off\<rparr>;
              (e, d1) = persist io m2 d
          in (e, if e = None then m2 else m, d1)))"
  using assms by (auto simp: SaveSnapshot_json_def Let_def split: prod.splits option.splits sum.splits)

lemma SetMeta_eq:
  "SetMeta io k v m d =
     (let m1 = m\<lparr>jm_meta := (if v = [] then map_option (meta_delete k) (jm_meta m)
                             else Some (meta_put k v (meta_list (jm_meta m))))\<rparr>; (e, d1) = persist io m1 d
      in (e, if e = None then m1 else m, d1))"
  by (auto simp: SetMeta_def Let_def split: prod.splits option.splits)

lemmas json_plain = Save_json_plain SaveSnapshot_json_plain SetMeta_eq Clear_json_def

text \<open>What a call makes of the memory, before it is written.\<close>

lemma written_inv:
  assumes "json_inv (n + room) m d" and "persist io m1 d = (e, d1)" and "m' = (if e = None then m1 else m)"
    and "jm_llm m1 = None" and "json_valid m1"
    and "jm_offset m1 + int (length (jm_messages m1)) \<le> jm_offset m + int (length (jm_messages m)) + int n"
  shows "json_inv room m' d1"
  using assms by (cases e) (auto simp: json_inv_def persist_holds persist_keeps)

lemma run_json_call_inv:
  assumes inv: "json_inv (saved_by (io, c) + room) m d" and v: "valid_json_call (io, c)"
  shows "\<exists>e m1 d1. run_json_call ctx io c m w d = (Returned e, m1, w, d1) \<and> json_inv room m1 d1"
proof -
  have llm: "jm_llm m = None" and valid: "json_valid m" using inv by (simp_all add: json_inv_def)
  show ?thesis
  proof (cases c)
    case (CallSave ms)
    obtain e d1 where p: "persist io (m\<lparr>jm_messages := jm_messages m @ ms\<rparr>) d = (e, d1)" by fastforce
    have "json_inv room (if e = None then m\<lparr>jm_messages := jm_messages m @ ms\<rparr> else m) d1"
      by (rule written_inv [OF inv p refl]) (use inv v llm valid CallSave in \<open>auto simp: json_valid_def json_inv_def\<close>)
    then show ?thesis using p CallSave llm by (simp add: json_plain Let_def)
  next
    case (CallSaveSnapshot s cu prev)
    show ?thesis
    proof (cases "Cutoff (jm_snapshot m) prev cu (jm_offset m + int (length (jm_messages m)))")
      case (Inl e)
      then show ?thesis using inv llm CallSaveSnapshot by (simp add: json_plain json_inv_def)
    next
      case (Inr pos)
      obtain ms off where pr: "prune_log (jm_prune m) pos (jm_messages m) (jm_offset m) = (ms, off)" by fastforce
      let ?m1 = "m\<lparr>jm_snapshot := Some (s\<lparr>sn_upTo := cu\<rparr>), jm_messages := ms, jm_offset := off\<rparr>"
      obtain e d1 where p: "persist io ?m1 d = (e, d1)" by fastforce
      have pos: "Position cu = Inr pos" "pos < jm_offset m + int (length (jm_messages m))"
        using Inr by (simp_all add: Cutoff_Inr)
      have len: "off + int (length ms) = jm_offset m + int (length (jm_messages m))"
        using Tail_prune_log [OF pr pos] by simp
      have "0 \<le> off" "set ms \<subseteq> set (jm_messages m)"
        using pr valid Position_nonneg [OF pos(1)] by (auto simp: prune_log_def json_valid_def in_set_dropD split: if_splits)
      then have "json_valid ?m1"
        using valid v len CallSaveSnapshot by (auto simp: json_valid_def valid_snapshot_def list_all_iff)
      then have "json_inv room (if e = None then ?m1 else m) d1"
        by (intro written_inv [OF inv p refl]) (use llm len in auto)
      then show ?thesis using p pr Inr CallSaveSnapshot llm by (simp add: json_plain Let_def)
    qed
  next
    case CallClear
    let ?m1 = "m\<lparr>jm_messages := [], jm_offset := 0, jm_snapshot := None, jm_meta := None\<rparr>"
    have "json_valid ?m1" by (simp add: json_valid_def valid_meta_def meta_keys_sorted_def max_int64_def)
    then have "json_inv room ?m1 (d\<lparr>jd_file := Holds (encode_json ?m1), jd_mtime := io_time io\<rparr>)"
      using v CallClear by (intro written_inv [OF inv persist_fine]) (use valid llm in \<open>auto simp: json_valid_def\<close>)
    then show ?thesis using v CallClear by (simp add: json_plain persist_fine Let_def)
  next
    case (CallSetMeta k v')
    let ?m1 = "m\<lparr>jm_meta := (if v' = [] then map_option (meta_delete k) (jm_meta m)
                             else Some (meta_put k v' (meta_list (jm_meta m))))\<rparr>"
    obtain e d1 where p: "persist io ?m1 d = (e, d1)" by fastforce
    have "json_valid ?m1" using valid v CallSetMeta
      using meta_put_valid [of "[]" k v'] meta_put_valid [of "meta_list (jm_meta m)" k v']
      by (cases "jm_meta m") (auto simp: json_valid_def meta_delete_valid)
    then have "json_inv room (if e = None then ?m1 else m) d1"
      by (intro written_inv [OF inv p refl]) (use llm in auto)
    then show ?thesis using p CallSetMeta by (simp add: json_plain Let_def split del: if_split)
  qed
qed

lemma run_json_calls_inv:
  assumes "json_inv (sum_list (map saved_by cs) + room) m d" and "list_all valid_json_call cs"
  shows "\<exists>m1 d1. run_json_calls ctx cs (m, w, d) = (m1, w, d1) \<and> json_inv room m1 d1"
  using assms
proof (induction cs arbitrary: m d)
  case (Cons x cs)
  obtain io c where x: "x = (io, c)" by fastforce
  have "json_inv (saved_by (io, c) + (sum_list (map saved_by cs) + room)) m d"
    using Cons.prems(1) x by (simp add: add.assoc)
  from run_json_call_inv [OF this, of ctx w] obtain e m1 d1 where
    "run_json_call ctx io c m w d = (Returned e, m1, w, d1)" "json_inv (sum_list (map saved_by cs) + room) m1 d1"
    using Cons.prems(2) x by auto
  with Cons.IH [of m1 d1] Cons.prems(2) x show ?case by simp
qed simp

subsection \<open>The memory as a snapshot store\<close>

text \<open>The operations as the contract takes them, on a memory and its disk.\<close>

type_synonym 'w json_store = "'w json_memory \<times> json_disk"

definition load_jf :: "'w json_store \<Rightarrow> snapshot option \<times> logged_message list" where
  "load_jf s = (case LoadSnapshot_json (fst s) of Inl e \<Rightarrow> (None, []) | Inr r \<Rightarrow> r)"

definition working_disk :: "int \<Rightarrow> disk_io" where
  "working_disk t = \<lparr>io_read = None, io_stat = None, io_create = None, io_write = None, io_sync = None,
     io_close = None, io_rename = None, io_remove = True, io_time = t\<rparr>"

lemma working_disk_fine [simp]: "io_fine (working_disk t)"
  by (simp add: working_disk_def io_fine_def)

definition save_jf :: "'w goctx \<Rightarrow> int \<Rightarrow> 'w \<Rightarrow> message list \<Rightarrow> 'w json_store \<Rightarrow> 'w json_store" where
  "save_jf ctx t w ms s =
     (case Save_json ctx (working_disk t) ms (fst s) w (snd s) of (r, m, w', d) \<Rightarrow> (m, d))"

definition store_jf ::
  "disk_io \<Rightarrow> snapshot \<Rightarrow> cursor \<Rightarrow> snapshot option \<Rightarrow> 'w json_store \<Rightarrow> err + 'w json_store" where
  "store_jf io sn c prev s =
     (case SaveSnapshot_json io sn c prev (fst s) (snd s) of
        (None, m, d) \<Rightarrow> Inr (m, d)
      | (Some e, m, d) \<Rightarrow> Inl e)"

definition jf_inv :: "'w json_store \<Rightarrow> bool" where
  "jf_inv s \<longleftrightarrow> jm_llm (fst s) = None"

lemma load_jf_eq:
  "jf_inv s \<Longrightarrow> load_jf s = (jm_snapshot (fst s), Tail (jm_messages (fst s)) (jm_offset (fst s)) (jm_snapshot (fst s)))"
  by (simp add: load_jf_def jf_inv_def LoadSnapshot_json_def)

lemma save_jf_eq:
  assumes "jf_inv s"
  shows "jf_inv (save_jf ctx t w ms s) \<and> jm_snapshot (fst (save_jf ctx t w ms s)) = jm_snapshot (fst s) \<and>
    jm_offset (fst (save_jf ctx t w ms s)) = jm_offset (fst s) \<and>
    jm_messages (fst (save_jf ctx t w ms s)) = jm_messages (fst s) @ ms"
  using assms by (simp add: save_jf_def jf_inv_def json_plain persist_fine Let_def)

lemma store_jf_Inr:
  assumes "jf_inv s" and "store_jf io sn c prev s = Inr s'"
  shows "\<exists>pos. Cutoff (jm_snapshot (fst s)) prev c (jm_offset (fst s) + int (length (jm_messages (fst s)))) = Inr pos \<and>
    jf_inv s' \<and> load_jf s' =
      (Some (sn\<lparr>sn_upTo := c\<rparr>), Tail (jm_messages (fst s)) (jm_offset (fst s)) (Some (sn\<lparr>sn_upTo := c\<rparr>)))"
proof (cases "Cutoff (jm_snapshot (fst s)) prev c (jm_offset (fst s) + int (length (jm_messages (fst s))))")
  case (Inl e)
  with assms show ?thesis by (simp add: store_jf_def jf_inv_def json_plain)
next
  case (Inr pos)
  obtain ms off where pr: "prune_log (jm_prune (fst s)) pos (jm_messages (fst s)) (jm_offset (fst s)) = (ms, off)" by fastforce
  have "Tail ms off (Some (sn\<lparr>sn_upTo := c\<rparr>)) = Tail (jm_messages (fst s)) (jm_offset (fst s)) (Some (sn\<lparr>sn_upTo := c\<rparr>))"
    using Tail_prune_log [OF pr] Inr by (simp add: Cutoff_Inr)
  then show ?thesis using assms Inr pr
    by (auto simp: store_jf_def jf_inv_def json_plain Let_def load_jf_eq split: prod.splits option.splits if_splits)
qed

interpretation jf: snapshot_store load_jf "save_jf ctx t w" "store_jf io'" jf_inv for ctx t w io'
proof
  fix s :: "'a json_store" and ms
  assume s: "jf_inv s"
  note sv = save_jf_eq [OF s, of ctx t w ms]
  show "jf_inv (save_jf ctx t w ms s)" using sv by simp
  show "fst (load_jf (save_jf ctx t w ms s)) = fst (load_jf s)" using s sv by (simp add: load_jf_eq)
  show "suffix (map lm_message (snd (load_jf (save_jf ctx t w ms s)))) (map lm_message (snd (load_jf s)) @ ms)"
    using s sv map_Tail_append by (simp add: load_jf_eq)
next
  fix s :: "'a json_store" and l ls
  assume "jf_inv s" "snd (load_jf s) = l # ls"
  then show "role (lm_message l) \<noteq> RoleTool"
    by (intro Tail_not_orphan [of "jm_messages (fst s)"]) (simp add: load_jf_eq)
next
  fix s s' :: "'a json_store" and sn c prev
  assume s: "jf_inv s" and st: "store_jf io' sn c prev s = Inr s'"
  from store_jf_Inr [OF s st] obtain pos where pos:
    "Cutoff (jm_snapshot (fst s)) prev c (jm_offset (fst s) + int (length (jm_messages (fst s)))) = Inr pos" "jf_inv s'"
    "load_jf s' = (Some (sn\<lparr>sn_upTo := c\<rparr>), Tail (jm_messages (fst s)) (jm_offset (fst s)) (Some (sn\<lparr>sn_upTo := c\<rparr>)))"
    by blast
  show "jf_inv s'" by (rule pos(2))
  show "fst (load_jf s') = Some (sn\<lparr>sn_upTo := c\<rparr>)" using pos by simp
  show "suffix (snd (load_jf s')) (snd (load_jf s))"
    using pos(3) Tail_cutoff_suffix [OF pos(1)] s by (simp add: load_jf_eq)
  show "\<not> Same (fst (load_jf s)) (Some (sn\<lparr>sn_upTo := c\<rparr>))"
    using Cutoff_moves [OF pos(1)] s by (simp add: load_jf_eq)
next
  fix s :: "'a json_store" and sn c prev
  assume "jf_inv s" and "\<not> Same (fst (load_jf s)) prev"
  then show "store_jf io' sn c prev s = Inl (Sentinel (MemoryE ErrSnapshotConflict))"
    by (simp add: load_jf_eq) (simp add: jf_inv_def store_jf_def json_plain Cutoff_conflict)
qed

subsection \<open>Properties\<close>

definition new_json_memory :: "string \<Rightarrow> bool \<Rightarrow> 'w json_memory" where
  "new_json_memory path prune =
     \<lparr>jm_messages = [], jm_path = path, jm_llm = None, jm_threshold = 0, jm_size = 0, jm_offset = 0,
      jm_snapshot = None, jm_prune = prune, jm_meta = None\<rparr>"

lemma new_json_inv: "room \<le> nat max_int64 \<Longrightarrow> jd_file d = NoFile \<Longrightarrow> json_inv room (new_json_memory path prune) d"
  by (simp add: json_inv_def new_json_memory_def json_valid_def valid_meta_def meta_keys_sorted_def disk_holds_def
      contents_json_def max_int64_def)

lemma contents_json_views:
  assumes "contents_json a = contents_json b" and "jm_llm a = jm_llm b"
  shows "Retrieve_json a = Retrieve_json b" "LoadSnapshot_json a = LoadSnapshot_json b"
    "meta_list (Meta a) = meta_list (Meta b)"
proof -
  have "jm_messages a = jm_messages b" "jm_offset a = jm_offset b" "jm_snapshot a = jm_snapshot b"
    "meta_list (jm_meta a) = meta_list (jm_meta b)" using assms(1) by (simp_all add: contents_json_def)
  then show "Retrieve_json a = Retrieve_json b" "LoadSnapshot_json a = LoadSnapshot_json b"
    "meta_list (Meta a) = meta_list (Meta b)"
    unfolding Retrieve_json_def LoadSnapshot_json_def Meta_def by (cases "jm_snapshot b"; simp add: assms(2))+
qed


definition demo_io :: disk_io where
  "demo_io = working_disk 1"

definition demo_calls :: "(disk_io \<times> json_call) list" where
  "demo_calls =
     [(demo_io, CallSave [UserMessage [Text ''a''], UserMessage [Text ''b'']]),
      (demo_io, CallSetMeta ''title'' ''t''),
      (demo_io\<lparr>io_sync := Some ''full''\<rparr>, CallSave [UserMessage [Text ''c'']]),
      (demo_io, CallSaveSnapshot wit_snapshot ''0'' None)]"




end
