(* ===== verification/Nats_Memory.thy ===== *)
theory Nats_Memory
  imports Session_Log
begin

section \<open>Package memory/nats: the log in a NATS key-value bucket\<close>

text \<open>
  \<open>Memory\<close> of \<open>memory/nats/memory.go\<close> and \<open>OpenBucket\<close> of \<open>internal/natskv\<close>. The NATS client is not
  part of the repository: a bucket is a parameter (\<open>kv_store\<close>), as are the connection, the error
  code of a JetStream error (\<open>me_api_code\<close>), the length of the encoded session (\<open>me_size\<close>) and the
  random pause between attempts (\<open>me_sleep\<close>). All of them change the world, so other processes can
  write to the session between any two steps. What the code relies on is \<open>kv_keeps_revisions\<close>: the
  writes of a key form a history, \<open>Get\<close> returns the last one, and \<open>Update\<close> and \<open>Create\<close> succeed only
  when nothing was written since the revision they name.

  \<open>save_appends\<close> shows that a \<open>Save\<close> which reports success put its messages right behind the messages
  of the write before its own, whoever made it, and \<open>snapshot_replaces_prev\<close> the same of a snapshot.
\<close>

subsection \<open>The bucket\<close>

type_synonym revision = nat

record 'w kv_store =
  kv_get :: "string \<Rightarrow> 'w \<Rightarrow> (err + (json option \<times> revision)) \<times> 'w"
  kv_create :: "string \<Rightarrow> json \<Rightarrow> 'w \<Rightarrow> err option \<times> 'w"
  kv_update :: "string \<Rightarrow> json \<Rightarrow> revision \<Rightarrow> 'w \<Rightarrow> err option \<times> 'w"
  kv_purge :: "string \<Rightarrow> 'w \<Rightarrow> err option \<times> 'w"

definition ErrKeyNotFound :: sentinel where
  "ErrKeyNotFound = VarE ''nats.ErrKeyNotFound'' ''nats: key not found''"
definition ErrKeyExists :: sentinel where
  "ErrKeyExists = VarE ''nats.ErrKeyExists'' ''nats: key exists''"
definition ErrMaxPayload :: sentinel where
  "ErrMaxPayload = VarE ''nats.ErrMaxPayload'' ''nats: maximum payload exceeded''"
definition ErrStreamNameAlreadyInUse :: sentinel where
  "ErrStreamNameAlreadyInUse = VarE ''nats.ErrStreamNameAlreadyInUse'' ''nats: stream name already in use''"

definition ErrNilKeyValue :: err where
  "ErrNilKeyValue = Sentinel (VarE ''natsmemory.ErrNilKeyValue'' ''nil key-value store'')"
definition ErrEmptySessionID :: err where
  "ErrEmptySessionID = Sentinel (VarE ''natsmemory.ErrEmptySessionID'' ''empty session id'')"
definition ErrConcurrentUpdate :: err where
  "ErrConcurrentUpdate = Sentinel (VarE ''natsmemory.ErrConcurrentUpdate'' ''session updated concurrently'')"
definition ErrUnknownValueVersion :: err where
  "ErrUnknownValueVersion = Sentinel (VarE ''natsmemory.ErrUnknownValueVersion'' ''unknown session value version'')"
definition ErrSessionTooLarge :: err where
  "ErrSessionTooLarge = Sentinel (VarE ''natsmemory.ErrSessionTooLarge'' ''session too large to store'')"

text \<open>The error matches \<open>ErrSessionTooLarge\<close> and what it wraps.\<close>

definition SessionTooLargeError :: "string \<Rightarrow> nat \<Rightarrow> err \<Rightarrow> err" where
  "SessionTooLargeError sess n e =
     Wrapped (err_text ErrSessionTooLarge @ '': session '' @ go_quote sess @ '' is '' @ go_itoa (int n) @
              '' bytes: '' @ err_text e) [ErrSessionTooLarge, e]"

record 'w nats_conn =
  nc_jetstream :: "'w \<Rightarrow> err option \<times> 'w"
  nc_create_kv :: "string \<Rightarrow> 'w \<Rightarrow> (err + 'w kv_store) \<times> 'w"
  nc_bind_kv :: "string \<Rightarrow> 'w \<Rightarrow> (err + 'w kv_store) \<times> 'w"

definition errorf_text :: "string \<Rightarrow> err \<Rightarrow> err" where
  "errorf_text t e = Wrapped (t @ '': '' @ err_text e) [e]"

definition OpenBucket :: "'w nats_conn option \<Rightarrow> string \<Rightarrow> 'w \<Rightarrow> (err + 'w kv_store) \<times> 'w" where
  "OpenBucket nc bucket w =
     (case nc of
        None \<Rightarrow> (Inl (Sentinel (VarE ''natskv.ErrNilConn'' ''natskv: NATS connection must not be nil'')), w)
      | Some c \<Rightarrow>
          if bucket = [] then (Inl (Sentinel (VarE ''natskv.ErrEmptyBucket'' ''natskv: bucket must not be empty'')), w)
          else case nc_jetstream c w of
            (Some e, w1) \<Rightarrow> (Inl (errorf_text ''natskv: jetstream'' e), w1)
          | (None, w1) \<Rightarrow>
              (case nc_create_kv c bucket w1 of
                 (Inr kv, w2) \<Rightarrow> (Inr kv, w2)
               | (Inl e, w2) \<Rightarrow>
                   if \<not> err_is e ErrStreamNameAlreadyInUse
                   then (Inl (errorf_text (''natskv: create bucket '' @ go_quote bucket) e), w2)
                   else (case nc_bind_kv c bucket w2 of
                           (Inr kv, w3) \<Rightarrow> (Inr kv, w3)
                         | (Inl e', w3) \<Rightarrow> (Inl (errorf_text (''natskv: bind bucket '' @ go_quote bucket) e'), w3))))"

subsection \<open>The session and its value\<close>

definition valueVersion :: int where "valueVersion = 2"

record session =
  se_version :: int
  se_offset :: int
  se_messages :: "message list"
  se_snapshot :: "snapshot option"

definition empty_session :: session where
  "empty_session = \<lparr>se_version = 0, se_offset = 0, se_messages = [], se_snapshot = None\<rparr>"

definition session_fields :: "session field list" where
  "session_fields =
     [(''version'', dec_int (\<lambda>i s. s\<lparr>se_version := i\<rparr>)),
      (''offset'', dec_int (\<lambda>i s. s\<lparr>se_offset := i\<rparr>)),
      (''messages'', dec_slice dec_message (\<lambda>ms s. s\<lparr>se_messages := ms\<rparr>)),
      (''snapshot'', \<lambda>j s. map_option (\<lambda>x. s\<lparr>se_snapshot := x\<rparr>) (dec_snapshot_ptr j (se_snapshot s)))]"

definition value_error :: err where
  "value_error = Opaque ''json: cannot decode''"

definition decode_session :: "json option \<Rightarrow> err + session" where
  "decode_session v =
     (case v of
        None \<Rightarrow> Inl value_error
      | Some (JObj ms) \<Rightarrow>
          (case dec_struct session_fields (JObj ms) empty_session of
             None \<Rightarrow> Inl value_error
           | Some s \<Rightarrow>
               if se_version s \<noteq> valueVersion
               then Inl (errorf1 ErrUnknownValueVersion ('': '' @ go_itoa (se_version s)))
               else Inr s)
      | Some j \<Rightarrow>
          (case dec_slice dec_message (\<lambda>ms s. s\<lparr>se_messages := ms\<rparr>) j empty_session of
             None \<Rightarrow> Inl value_error
           | Some s \<Rightarrow> Inr s))"

definition encode_session :: "session \<Rightarrow> json" where
  "encode_session s =
     (if se_snapshot s = None \<and> se_offset s = 0 then enc_messages (se_messages s)
      else JObj
        ([(''version'', JNum (go_itoa valueVersion)), (''offset'', JNum (go_itoa (se_offset s))),
          (''messages'', enc_messages (se_messages s))] @
         (case se_snapshot s of None \<Rightarrow> [] | Some x \<Rightarrow> [(''snapshot'', enc_snapshot x)])))"

subsection \<open>The memory\<close>

record 'w nats_memory =
  nm_kv :: "'w kv_store"
  nm_session :: string
  nm_llm :: "'w llm option"
  nm_threshold :: nat
  nm_size :: nat
  nm_prune :: bool

record 'w memory_env =
  me_api_code :: "err \<Rightarrow> nat option"
  me_size :: "json \<Rightarrow> nat"
  me_sleep :: "'w goctx \<Rightarrow> nat \<Rightarrow> 'w \<Rightarrow> err option \<times> 'w"

type_synonym 'w nats_option = "'w nats_memory \<Rightarrow> 'w nats_memory"

definition WithPruneCompacted_nats :: "bool \<Rightarrow> 'w nats_option" where
  "WithPruneCompacted_nats prune m = m\<lparr>nm_prune := prune\<rparr>"

definition WithSummarization_nats ::
  "('w llm \<Rightarrow> 'w llm) \<Rightarrow> 'w llm option \<Rightarrow> nat \<Rightarrow> nat \<Rightarrow> 'w nats_option" where
  "WithSummarization_nats instrument summaryLLM threshold summarySize m =
     (let m1 = (case summaryLLM of None \<Rightarrow> m | Some l \<Rightarrow> m\<lparr>nm_llm := Some (instrument l)\<rparr>)
      in m1\<lparr>nm_size := ClampSummarySize threshold summarySize, nm_threshold := threshold\<rparr>)"

definition New_nats :: "'w kv_store option \<Rightarrow> string \<Rightarrow> 'w nats_option option list \<Rightarrow> err + 'w nats_memory" where
  "New_nats kv sessionID options =
     (case kv of
        None \<Rightarrow> Inl ErrNilKeyValue
      | Some k \<Rightarrow>
          if trim_space sessionID = [] then Inl ErrEmptySessionID
          else Inr (fold (\<lambda>f m. case f of None \<Rightarrow> m | Some g \<Rightarrow> g m) options
            \<lparr>nm_kv = k, nm_session = sessionID, nm_llm = None, nm_threshold = 0, nm_size = 0, nm_prune = True\<rparr>))"

definition Open_nats ::
  "'w nats_conn option \<Rightarrow> string \<Rightarrow> string \<Rightarrow> 'w nats_option option list \<Rightarrow> 'w \<Rightarrow> (err + 'w nats_memory) \<times> 'w" where
  "Open_nats nc bucket sessionID options w =
     (case OpenBucket nc bucket w of
        (Inl e, w1) \<Rightarrow> (Inl e, w1)
      | (Inr kv, w1) \<Rightarrow> (New_nats (Some kv) sessionID options, w1))"

definition needSummarization_nats :: "'w nats_memory \<Rightarrow> nat \<Rightarrow> bool" where
  "needSummarization_nats m msgCount \<longleftrightarrow> nm_llm m \<noteq> None \<and> 0 < nm_threshold m \<and> nm_threshold m \<le> msgCount"

definition saveAttempts :: nat where "saveAttempts = 5"

definition load_session :: "'w nats_memory \<Rightarrow> 'w \<Rightarrow> (err + (session \<times> revision)) \<times> 'w" where
  "load_session m w =
     (case kv_get (nm_kv m) (nm_session m) w of
        (Inl e, w1) \<Rightarrow>
          if err_is e ErrKeyNotFound then (Inr (empty_session, 0), w1) else (Inl e, w1)
      | (Inr (v, r), w1) \<Rightarrow>
          (case decode_session v of
             Inl e \<Rightarrow> (Inl e, w1)
           | Inr s \<Rightarrow> (Inr (s, r), w1)))"

definition jsErrMessageTooLarge :: nat where "jsErrMessageTooLarge = 10054"

definition tooLarge :: "'w memory_env \<Rightarrow> err option \<Rightarrow> bool" where
  "tooLarge env e =
     (case e of
        None \<Rightarrow> False
      | Some x \<Rightarrow> err_is x ErrMaxPayload \<or> me_api_code env x = Some jsErrMessageTooLarge)"

definition store_session ::
  "'w memory_env \<Rightarrow> 'w nats_memory \<Rightarrow> session \<Rightarrow> revision \<Rightarrow> 'w \<Rightarrow> err option \<times> 'w" where
  "store_session env m s rv w =
     (let data = encode_session s;
          (e, w1) = (if rv = 0 then kv_create (nm_kv m) (nm_session m) data w
                     else kv_update (nm_kv m) (nm_session m) data rv w)
      in case e of
           None \<Rightarrow> (None, w1)
         | Some x \<Rightarrow> if tooLarge env (Some x) then (Some (SessionTooLargeError (nm_session m) (me_size env data) x), w1)
                     else (Some x, w1))"

text \<open>The summary computed last and the messages it covers, as they are encoded.\<close>

type_synonym summary_cache = "(json \<times> message) option"

definition merge ::
  "'w nats_memory \<Rightarrow> 'w goctx \<Rightarrow> message list \<Rightarrow> message list \<Rightarrow> summary_cache \<Rightarrow> 'w \<Rightarrow>
     (err + message list) outcome \<times> summary_cache \<times> 'w" where
  "merge m ctx existing messages summary w =
     (let merged = existing @ messages in
      if \<not> needSummarization_nats m (length merged) then (Returned (Inr merged), summary, w)
      else
        (let split = SplitPoint merged (int (nm_size m));
             toSummarize = take split merged; toAppend = drop split merged;
             key = enc_messages toSummarize;
             fresh = (case nm_llm m of
                        None \<Rightarrow> (Panicked nil_deref, summary, w)
                      | Some l \<Rightarrow>
                          (case summary_message l ctx toSummarize w of
                             (Panicked p, w1) \<Rightarrow> (Panicked p, summary, w1)
                           | (Returned (Inl e), w1) \<Rightarrow> (Returned (Inl e), summary, w1)
                           | (Returned (Inr msg), w1) \<Rightarrow> (Returned (Inr (msg # toAppend)), Some (key, msg), w1)))
         in case summary of
              None \<Rightarrow> fresh
            | Some (k, msg) \<Rightarrow>
                if k = key then (Returned (Inr (msg # toAppend)), summary, w) else fresh))"

text \<open>
  One attempt of \<open>Save\<close> and of \<open>SaveSnapshot\<close>: the session is loaded, changed and stored.
  \<open>Done\<close> ends the loop; \<open>Lost\<close> is an attempt that lost the race.
\<close>

datatype attempt = Done "err option outcome" | Lost err

definition store_attempt ::
  "'w memory_env \<Rightarrow> 'w nats_memory \<Rightarrow> session \<Rightarrow> revision \<Rightarrow> 'w \<Rightarrow> attempt \<times> 'w" where
  "store_attempt env m s rv w =
     (case store_session env m s rv w of
        (None, w1) \<Rightarrow> (Done (Returned None), w1)
      | (Some e, w1) \<Rightarrow> if err_is e ErrKeyExists then (Lost e, w1) else (Done (Returned (Some e)), w1))"

definition save_attempt ::
  "'w memory_env \<Rightarrow> 'w nats_memory \<Rightarrow> 'w goctx \<Rightarrow> message list \<Rightarrow> summary_cache \<Rightarrow> 'w \<Rightarrow>
     attempt \<times> summary_cache \<times> 'w" where
  "save_attempt env m ctx messages summary w =
     (case load_session m w of
        (Inl e, w1) \<Rightarrow> (Done (Returned (Some e)), summary, w1)
      | (Inr (s, rv), w1) \<Rightarrow>
          (case merge m ctx (se_messages s) messages summary w1 of
             (Panicked p, summary1, w2) \<Rightarrow> (Done (Panicked p), summary1, w2)
           | (Returned (Inl e), summary1, w2) \<Rightarrow> (Done (Returned (Some e)), summary1, w2)
           | (Returned (Inr ms), summary1, w2) \<Rightarrow>
               (let (a, w3) = store_attempt env m (s\<lparr>se_messages := ms\<rparr>) rv w2 in (a, summary1, w3))))"

text \<open>The loops: \<open>left\<close> attempts remain, and all but the first one wait before.\<close>

fun save_loop ::
  "'w memory_env \<Rightarrow> 'w nats_memory \<Rightarrow> 'w goctx \<Rightarrow> message list \<Rightarrow> nat \<Rightarrow> nat \<Rightarrow> summary_cache \<Rightarrow> err \<Rightarrow> 'w \<Rightarrow>
     err option outcome \<times> 'w" where
  "save_loop env m ctx messages 0 attempt summary lastErr w = (Returned (Some (errorf2 ErrConcurrentUpdate lastErr)), w)"
| "save_loop env m ctx messages (Suc left) attempt summary lastErr w =
     (case (if 0 < attempt then me_sleep env ctx attempt w else (None, w)) of
        (Some e, w1) \<Rightarrow> (Returned (Some e), w1)
      | (None, w1) \<Rightarrow>
          (case save_attempt env m ctx messages summary w1 of
             (Done r, summary1, w2) \<Rightarrow> (r, w2)
           | (Lost e, summary1, w2) \<Rightarrow> save_loop env m ctx messages left (Suc attempt) summary1 e w2))"

definition Save_nats ::
  "'w memory_env \<Rightarrow> 'w nats_memory \<Rightarrow> 'w goctx \<Rightarrow> message list \<Rightarrow> 'w \<Rightarrow> err option outcome \<times> 'w" where
  "Save_nats env m ctx messages w =
     (if messages = [] then (Returned None, w)
      else save_loop env m ctx messages saveAttempts 0 None (Opaque []) w)"

definition Retrieve_nats :: "'w nats_memory \<Rightarrow> 'w \<Rightarrow> (err + message list) \<times> 'w" where
  "Retrieve_nats m w =
     (case load_session m w of
        (Inl e, w1) \<Rightarrow> (Inl e, w1)
      | (Inr (s, rv), w1) \<Rightarrow>
          (Inr (case se_snapshot s of
                  Some x \<Rightarrow> if nm_llm m = None then View (se_messages s) (se_offset s) x else se_messages s
                | None \<Rightarrow> se_messages s), w1))"

definition LoadSnapshot_nats :: "'w nats_memory \<Rightarrow> 'w \<Rightarrow> (err + (snapshot option \<times> logged_message list)) \<times> 'w" where
  "LoadSnapshot_nats m w =
     (if nm_llm m \<noteq> None then (Inl (Sentinel (MemoryE ErrSnapshotsUnsupported)), w)
      else case load_session m w of
        (Inl e, w1) \<Rightarrow> (Inl e, w1)
      | (Inr (s, rv), w1) \<Rightarrow> (Inr (se_snapshot s, Tail (se_messages s) (se_offset s) (se_snapshot s)), w1))"

definition snapshot_attempt ::
  "'w memory_env \<Rightarrow> 'w nats_memory \<Rightarrow> snapshot \<Rightarrow> cursor \<Rightarrow> snapshot option \<Rightarrow> 'w \<Rightarrow> attempt \<times> 'w" where
  "snapshot_attempt env m sn upTo prev w =
     (case load_session m w of
        (Inl e, w1) \<Rightarrow> (Done (Returned (Some e)), w1)
      | (Inr (s, rv), w1) \<Rightarrow>
          (case Cutoff (se_snapshot s) prev upTo (se_offset s + int (length (se_messages s))) of
             Inl e \<Rightarrow> (Done (Returned (Some e)), w1)
           | Inr pos \<Rightarrow>
               (let (ms, offset) = prune_log (nm_prune m) pos (se_messages s) (se_offset s)
                in store_attempt env m
                     (s\<lparr>se_snapshot := Some (sn\<lparr>sn_upTo := upTo\<rparr>), se_messages := ms, se_offset := offset\<rparr>) rv w1)))"

fun snapshot_loop ::
  "'w memory_env \<Rightarrow> 'w nats_memory \<Rightarrow> 'w goctx \<Rightarrow> snapshot \<Rightarrow> cursor \<Rightarrow> snapshot option \<Rightarrow> nat \<Rightarrow> nat \<Rightarrow> err \<Rightarrow> 'w \<Rightarrow>
     err option outcome \<times> 'w" where
  "snapshot_loop env m ctx sn upTo prev 0 attempt lastErr w = (Returned (Some (errorf2 ErrConcurrentUpdate lastErr)), w)"
| "snapshot_loop env m ctx sn upTo prev (Suc left) attempt lastErr w =
     (case (if 0 < attempt then me_sleep env ctx attempt w else (None, w)) of
        (Some e, w1) \<Rightarrow> (Returned (Some e), w1)
      | (None, w1) \<Rightarrow>
          (case snapshot_attempt env m sn upTo prev w1 of
             (Done r, w2) \<Rightarrow> (r, w2)
           | (Lost e, w2) \<Rightarrow> snapshot_loop env m ctx sn upTo prev left (Suc attempt) e w2))"

definition SaveSnapshot_nats ::
  "'w memory_env \<Rightarrow> 'w nats_memory \<Rightarrow> 'w goctx \<Rightarrow> snapshot \<Rightarrow> cursor \<Rightarrow> snapshot option \<Rightarrow> 'w \<Rightarrow>
     err option outcome \<times> 'w" where
  "SaveSnapshot_nats env m ctx sn upTo prev w =
     (if nm_llm m \<noteq> None then (Returned (Some (Sentinel (MemoryE ErrSnapshotsUnsupported))), w)
      else snapshot_loop env m ctx sn upTo prev saveAttempts 0 (Opaque []) w)"

definition Clear_nats :: "'w nats_memory \<Rightarrow> 'w \<Rightarrow> err option \<times> 'w" where
  "Clear_nats m w =
     (case kv_purge (nm_kv m) (nm_session m) w of
        (Some e, w1) \<Rightarrow> (if err_is e ErrKeyNotFound then None else Some e, w1)
      | (None, w1) \<Rightarrow> (None, w1))"

subsection \<open>What the bucket promises\<close>

text \<open>
  The writes of a key, oldest first: the revision of each and its value, \<open>None\<close> when the key was
  purged or deleted.
\<close>

type_synonym kv_write = "revision \<times> json option option"

definition current :: "kv_write list \<Rightarrow> json option option" where
  "current h = (if h = [] then None else snd (last h))"

definition session_of :: "kv_write list \<Rightarrow> err + session" where
  "session_of h = (case current h of None \<Rightarrow> Inr empty_session | Some v \<Rightarrow> decode_session v)"

text \<open>
  \<open>kv_keeps_revisions\<close>: revisions are positive and never reused; every operation only adds to the
  history, others' writes included; \<open>Get\<close> answers with the last write; a successful \<open>Create\<close> or
  \<open>Update\<close> adds its write when nothing followed the revision it names.
\<close>

definition wrote :: "kv_write list \<Rightarrow> json \<Rightarrow> (kv_write list \<Rightarrow> bool) \<Rightarrow> kv_write list \<Rightarrow> bool" where
  "wrote h data ok h' \<longleftrightarrow>
     (\<exists>before r after. h' = before @ (r, Some (Some data)) # after \<and> prefix h before \<and> ok before)"

definition kv_keeps_revisions :: "'w kv_store \<Rightarrow> string \<Rightarrow> ('w \<Rightarrow> kv_write list) \<Rightarrow> bool" where
  "kv_keeps_revisions kv key hist \<longleftrightarrow>
     (\<forall>w. distinct (map fst (hist w)) \<and> 0 \<notin> fst ` set (hist w)) \<and>
     (\<forall>w r w'. kv_get kv key w = (r, w') \<longrightarrow> prefix (hist w) (hist w') \<and>
        (case r of
           Inr (v, n) \<Rightarrow> hist w' \<noteq> [] \<and> last (hist w') = (n, Some v)
         | Inl e \<Rightarrow> err_is e ErrKeyNotFound \<longrightarrow> current (hist w') = None)) \<and>
     (\<forall>data w e w'. kv_create kv key data w = (e, w') \<longrightarrow> prefix (hist w) (hist w') \<and>
        (e = None \<longrightarrow> wrote (hist w) data (\<lambda>h. current h = None) (hist w'))) \<and>
     (\<forall>data n w e w'. kv_update kv key data n w = (e, w') \<longrightarrow> prefix (hist w) (hist w') \<and>
        (e = None \<longrightarrow> wrote (hist w) data (\<lambda>h. h \<noteq> [] \<and> fst (last h) = n) (hist w')))"

text \<open>While the code waits, other processes may write.\<close>

definition waiting_adds :: "'w memory_env \<Rightarrow> ('w \<Rightarrow> kv_write list) \<Rightarrow> bool" where
  "waiting_adds env hist \<longleftrightarrow> (\<forall>ctx n w. prefix (hist w) (hist (snd (me_sleep env ctx n w))))"

lemma load_session_history:
  assumes "kv_keeps_revisions (nm_kv m) (nm_session m) hist" and "load_session m w = (r, w1)"
  shows "prefix (hist w) (hist w1)"
    and "r = Inr (s, n) \<Longrightarrow> session_of (hist w1) = Inr s \<and>
      (if n = 0 then True else hist w1 \<noteq> [] \<and> fst (last (hist w1)) = n)"
    and "r = Inr (s, 0) \<Longrightarrow> s = empty_session"
proof -
  obtain g w2 where g: "kv_get (nm_kv m) (nm_session m) w = (g, w2)" by fastforce
  have w2: "w2 = w1" using g assms(2) by (auto simp: load_session_def split: sum.splits if_splits prod.splits)
  have h: "prefix (hist w) (hist w1)"
    "case g of Inr (v, n) \<Rightarrow> hist w1 \<noteq> [] \<and> last (hist w1) = (n, Some v)
     | Inl e \<Rightarrow> err_is e ErrKeyNotFound \<longrightarrow> current (hist w1) = None"
    and pos: "0 \<notin> fst ` set (hist w1)"
    using assms(1) g w2 unfolding kv_keeps_revisions_def by blast+
  show "prefix (hist w) (hist w1)" by (rule h)
  show "r = Inr (s, n) \<Longrightarrow> session_of (hist w1) = Inr s \<and>
      (if n = 0 then True else hist w1 \<noteq> [] \<and> fst (last (hist w1)) = n)"
    using assms(2) g h(2) by (auto simp: load_session_def session_of_def current_def split: sum.splits if_splits prod.splits)
  show "r = Inr (s, 0) \<Longrightarrow> s = empty_session"
  proof -
    assume r: "r = Inr (s, 0)"
    have "0 \<noteq> n" if "last (hist w1) = (n, Some v)" "hist w1 \<noteq> []" for n v
      using pos last_in_set [OF that(2)] that(1) by force
    with r show ?thesis using assms(2) g h(2) by (auto simp: load_session_def split: sum.splits if_splits prod.splits)
  qed
qed

lemma wrote_mono:
  assumes "wrote h data ok h'" and "prefix h0 h" and "\<And>b. ok b \<Longrightarrow> ok' b"
  shows "wrote h0 data ok' h'"
  using assms unfolding wrote_def by (blast intro: prefix_order.trans)

lemma wrote_before: "wrote h data ok h' \<Longrightarrow> prefix h0 h \<Longrightarrow> wrote h0 data ok h'"
  by (rule wrote_mono)

text \<open>
  The compare-and-swap: a successful store wrote right after the session that was loaded, whatever
  others did since.
\<close>

lemma store_session_wrote:
  assumes kv: "kv_keeps_revisions (nm_kv m) (nm_session m) hist"
    and l: "load_session m w = (Inr (s, n), w1)" and p: "prefix (hist w1) (hist w2)"
    and st: "store_session env m s' n w2 = (None, w3)"
  shows "wrote (hist w1) (encode_session s') (\<lambda>h. session_of h = Inr s) (hist w3)"
proof (cases "n = 0")
  case True
  have "kv_create (nm_kv m) (nm_session m) (encode_session s') w2 = (None, w3)"
    using st True by (auto simp: store_session_def Let_def split: prod.splits option.splits if_splits)
  then have "wrote (hist w2) (encode_session s') (\<lambda>h. current h = None) (hist w3)"
    using kv unfolding kv_keeps_revisions_def by blast
  moreover have "s = empty_session" using load_session_history(3) [OF kv l] True by simp
  ultimately show ?thesis using p by (auto elim!: wrote_mono simp: session_of_def)
next
  case False
  have "kv_update (nm_kv m) (nm_session m) (encode_session s') n w2 = (None, w3)"
    using st False by (auto simp: store_session_def Let_def split: prod.splits option.splits if_splits)
  then have "wrote (hist w2) (encode_session s') (\<lambda>h. h \<noteq> [] \<and> fst (last h) = n) (hist w3)"
    using kv unfolding kv_keeps_revisions_def by blast
  then obtain before r after where b: "hist w3 = before @ (r, Some (Some (encode_session s'))) # after"
    "prefix (hist w2) before" "before \<noteq> []" "fst (last before) = n" by (auto simp: wrote_def)
  have l1: "session_of (hist w1) = Inr s" "hist w1 \<noteq> []" "fst (last (hist w1)) = n"
    using load_session_history(2) [OF kv l] False by auto
  have d: "distinct (map fst before)"
    using kv b(1) unfolding kv_keeps_revisions_def by (metis distinct_append map_append)
  have "last (hist w1) \<in> set before"
    using p b(2) l1(2) by (metis in_mono last_in_set set_mono_prefix)
  then have "last (hist w1) = last before"
    using d b(3,4) l1(3) last_in_set [OF b(3)] by (metis eq_key_imp_eq_value prod.collapse)
  then have "session_of before = Inr s" using l1(1,2) b(3) by (simp add: session_of_def current_def)
  then show ?thesis using b p unfolding wrote_def by (blast intro: prefix_order.trans)
qed

lemma store_session_prefix:
  assumes "kv_keeps_revisions (nm_kv m) (nm_session m) hist" and "store_session env m s n w = (e, w')"
  shows "prefix (hist w) (hist w')"
  using assms unfolding kv_keeps_revisions_def store_session_def
  by (auto simp: Let_def split: prod.splits option.splits if_splits)

lemma store_attempt_cases:
  assumes kv: "kv_keeps_revisions (nm_kv m) (nm_session m) hist"
    and l: "load_session m w = (Inr (s, n), w1)" and p: "prefix (hist w1) (hist w2)"
    and st: "store_attempt env m s' n w2 = (a, w3)"
  shows "prefix (hist w2) (hist w3)"
    and "a = Done (Returned None) \<Longrightarrow> wrote (hist w1) (encode_session s') (\<lambda>h. session_of h = Inr s) (hist w3)"
proof -
  obtain e w4 where e: "store_session env m s' n w2 = (e, w4)" by fastforce
  have w: "w4 = w3" using e st by (auto simp: store_attempt_def split: option.splits if_splits)
  show "prefix (hist w2) (hist w3)" using store_session_prefix [OF kv e] w by simp
  show "a = Done (Returned None) \<Longrightarrow> wrote (hist w1) (encode_session s') (\<lambda>h. session_of h = Inr s) (hist w3)"
    using store_session_wrote [OF kv l p] e w st by (auto simp: store_attempt_def split: option.splits if_splits)
qed

lemma save_attempt_cases:
  assumes kv: "kv_keeps_revisions (nm_kv m) (nm_session m) hist" and llm: "nm_llm m = None"
    and run: "save_attempt env m ctx messages summary w = (a, summary', w')"
  shows "prefix (hist w) (hist w')"
    and "a = Done (Returned None) \<Longrightarrow> \<exists>s. wrote (hist w)
      (encode_session (s\<lparr>se_messages := se_messages s @ messages\<rparr>)) (\<lambda>h. session_of h = Inr s) (hist w')"
proof -
  obtain r w1 where l: "load_session m w = (r, w1)" by fastforce
  have p: "prefix (hist w) (hist w1)" by (rule load_session_history(1) [OF kv l])
  have "prefix (hist w) (hist w') \<and> (a = Done (Returned None) \<longrightarrow> (\<exists>s. wrote (hist w)
      (encode_session (s\<lparr>se_messages := se_messages s @ messages\<rparr>)) (\<lambda>h. session_of h = Inr s) (hist w')))"
  proof (cases r)
    case (Inl e)
    then show ?thesis using run l p by (auto simp: save_attempt_def)
  next
    case (Inr x)
    obtain s n where x: "x = (s, n)" by fastforce
    from run l Inr x llm have st: "store_attempt env m (s\<lparr>se_messages := se_messages s @ messages\<rparr>) n w1 = (a, w')"
      by (auto simp: save_attempt_def merge_def needSummarization_nats_def split: prod.splits)
    note c = store_attempt_cases [OF kv l [unfolded Inr x] prefix_order.refl st]
    show ?thesis using c p by (blast intro: prefix_order.trans wrote_before)
  qed
  then show "prefix (hist w) (hist w')"
    and "a = Done (Returned None) \<Longrightarrow> \<exists>s. wrote (hist w)
      (encode_session (s\<lparr>se_messages := se_messages s @ messages\<rparr>)) (\<lambda>h. session_of h = Inr s) (hist w')"
    by auto
qed

lemma sleep_step:
  assumes "waiting_adds env hist" and "(if 0 < attempt then me_sleep env ctx attempt w else (None, w)) = (e, w1)"
  shows "prefix (hist w) (hist w1)"
  using assms unfolding waiting_adds_def by (metis prefix_order.refl snd_conv)

lemma save_loop_wrote:
  assumes kv: "kv_keeps_revisions (nm_kv m) (nm_session m) hist" and llm: "nm_llm m = None"
    and sl: "waiting_adds env hist"
    and run: "save_loop env m ctx messages left attempt summary e w = (Returned None, w')"
  shows "\<exists>s. wrote (hist w)
      (encode_session (s\<lparr>se_messages := se_messages s @ messages\<rparr>)) (\<lambda>h. session_of h = Inr s) (hist w')"
  using run
proof (induction left arbitrary: attempt summary e w)
  case (Suc left)
  obtain e1 w1 where s: "(if 0 < attempt then me_sleep env ctx attempt w else (None, w)) = (e1, w1)" by fastforce
  have p: "prefix (hist w) (hist w1)" by (rule sleep_step [OF sl s])
  have e1: "e1 = None" using Suc.prems s by (auto split: option.splits)
  obtain a summary1 w2 where a: "save_attempt env m ctx messages summary w1 = (a, summary1, w2)" by (metis prod_cases3)
  note c = save_attempt_cases [OF kv llm a]
  show ?case
  proof (cases a)
    case (Done r)
    then have "r = Returned None" "w2 = w'" using Suc.prems s e1 a by simp_all
    with c(2) Done p show ?thesis by (blast intro: wrote_before)
  next
    case (Lost e2)
    then have "save_loop env m ctx messages left (Suc attempt) summary1 e2 w2 = (Returned None, w')"
      using Suc.prems s e1 a by simp
    from Suc.IH [OF this] c(1) p show ?thesis by (blast intro: wrote_before prefix_order.trans)
  qed
qed simp

text \<open>What a stored snapshot makes of the session it replaces.\<close>

definition snapshot_stored :: "bool \<Rightarrow> snapshot \<Rightarrow> cursor \<Rightarrow> snapshot option \<Rightarrow> session \<Rightarrow> session \<Rightarrow> bool" where
  "snapshot_stored prune sn upTo prev s s' \<longleftrightarrow>
     (case Cutoff (se_snapshot s) prev upTo (se_offset s + int (length (se_messages s))) of
        Inl e \<Rightarrow> False
      | Inr pos \<Rightarrow> s' = s\<lparr>se_snapshot := Some (sn\<lparr>sn_upTo := upTo\<rparr>),
          se_messages := fst (prune_log prune pos (se_messages s) (se_offset s)),
          se_offset := snd (prune_log prune pos (se_messages s) (se_offset s))\<rparr>)"

lemma snapshot_stored_log:
  assumes "snapshot_stored prune sn upTo prev s s'"
  shows "Same (se_snapshot s) prev \<and> se_snapshot s' = Some (sn\<lparr>sn_upTo := upTo\<rparr>) \<and>
    Tail (se_messages s') (se_offset s') (se_snapshot s') = Tail (se_messages s) (se_offset s) (se_snapshot s') \<and>
    se_offset s' + int (length (se_messages s')) = se_offset s + int (length (se_messages s))"
proof -
  obtain pos where c: "Cutoff (se_snapshot s) prev upTo (se_offset s + int (length (se_messages s))) = Inr pos"
    using assms by (auto simp: snapshot_stored_def split: sum.splits)
  obtain ms off where pr: "prune_log prune pos (se_messages s) (se_offset s) = (ms, off)" by fastforce
  have "Position upTo = Inr pos" "pos < se_offset s + int (length (se_messages s))" "Same (se_snapshot s) prev"
    using c by (simp_all add: Cutoff_Inr)
  with Tail_prune_log [OF pr this(1,2), of sn] assms c pr show ?thesis
    by (simp add: snapshot_stored_def)
qed

lemma snapshot_attempt_cases:
  assumes kv: "kv_keeps_revisions (nm_kv m) (nm_session m) hist"
    and run: "snapshot_attempt env m sn upTo prev w = (a, w')"
  shows "prefix (hist w) (hist w')"
    and "a = Done (Returned None) \<Longrightarrow> \<exists>s s'. snapshot_stored (nm_prune m) sn upTo prev s s' \<and>
      wrote (hist w) (encode_session s') (\<lambda>h. session_of h = Inr s) (hist w')"
proof -
  obtain r w1 where l: "load_session m w = (r, w1)" by fastforce
  have p: "prefix (hist w) (hist w1)" by (rule load_session_history(1) [OF kv l])
  have "prefix (hist w) (hist w') \<and> (a = Done (Returned None) \<longrightarrow>
      (\<exists>s s'. snapshot_stored (nm_prune m) sn upTo prev s s' \<and>
      wrote (hist w) (encode_session s') (\<lambda>h. session_of h = Inr s) (hist w')))"
  proof (cases r)
    case (Inl e)
    then show ?thesis using run l p by (auto simp: snapshot_attempt_def)
  next
    case (Inr x)
    obtain s n where x: "x = (s, n)" by fastforce
    show ?thesis
    proof (cases "Cutoff (se_snapshot s) prev upTo (se_offset s + int (length (se_messages s)))")
      case (Inl e)
      then show ?thesis using run l p Inr x by (auto simp: snapshot_attempt_def)
    next
      case (Inr pos)
      obtain ms off where pr: "prune_log (nm_prune m) pos (se_messages s) (se_offset s) = (ms, off)" by fastforce
      let ?s = "s\<lparr>se_snapshot := Some (sn\<lparr>sn_upTo := upTo\<rparr>), se_messages := ms, se_offset := off\<rparr>"
      have st: "store_attempt env m ?s n w1 = (a, w')"
        using run l \<open>r = Inr x\<close> x Inr pr by (simp add: snapshot_attempt_def)
      have "snapshot_stored (nm_prune m) sn upTo prev s ?s" using Inr pr by (simp add: snapshot_stored_def)
      then show ?thesis
        using store_attempt_cases [OF kv l [unfolded \<open>r = Inr x\<close> x] prefix_order.refl st] p
        by (blast intro: prefix_order.trans wrote_before)
    qed
  qed
  then show "prefix (hist w) (hist w')"
    and "a = Done (Returned None) \<Longrightarrow> \<exists>s s'. snapshot_stored (nm_prune m) sn upTo prev s s' \<and>
      wrote (hist w) (encode_session s') (\<lambda>h. session_of h = Inr s) (hist w')"
    by auto
qed

lemma snapshot_loop_wrote:
  assumes kv: "kv_keeps_revisions (nm_kv m) (nm_session m) hist" and sl: "waiting_adds env hist"
    and run: "snapshot_loop env m ctx sn upTo prev left attempt e w = (Returned None, w')"
  shows "\<exists>s s'. snapshot_stored (nm_prune m) sn upTo prev s s' \<and>
      wrote (hist w) (encode_session s') (\<lambda>h. session_of h = Inr s) (hist w')"
  using run
proof (induction left arbitrary: attempt e w)
  case (Suc left)
  obtain e1 w1 where s: "(if 0 < attempt then me_sleep env ctx attempt w else (None, w)) = (e1, w1)" by fastforce
  have p: "prefix (hist w) (hist w1)" by (rule sleep_step [OF sl s])
  have e1: "e1 = None" using Suc.prems s by (auto split: option.splits)
  obtain a w2 where a: "snapshot_attempt env m sn upTo prev w1 = (a, w2)" by fastforce
  note c = snapshot_attempt_cases [OF kv a]
  show ?case
  proof (cases a)
    case (Done r)
    then have "r = Returned None" "w2 = w'" using Suc.prems s e1 a by simp_all
    with c(2) Done p show ?thesis by (blast intro: wrote_before)
  next
    case (Lost e2)
    then have "snapshot_loop env m ctx sn upTo prev left (Suc attempt) e2 w2 = (Returned None, w')"
      using Suc.prems s e1 a by simp
    from Suc.IH [OF this] c(1) p show ?thesis by (blast intro: wrote_before prefix_order.trans)
  qed
qed simp

subsection \<open>A bucket with other writers\<close>

text \<open>
  A bucket in memory, for the witnesses: its values, and the writes other processes make, one before
  each write of ours.
\<close>

type_synonym demo_world = "json option option list \<times> json list"

definition demo_hist :: "demo_world \<Rightarrow> kv_write list" where
  "demo_hist w = map (\<lambda>i. (Suc i, fst w ! i)) [0..<length (fst w)]"

fun demo_interfere :: "demo_world \<Rightarrow> demo_world" where
  "demo_interfere (vs, []) = (vs, [])"
| "demo_interfere (vs, j # js) = (vs @ [Some (Some j)], js)"

definition demo_current :: "json option option list \<Rightarrow> json option option" where
  "demo_current vs = (if vs = [] then None else last vs)"

definition demo_put :: "(json option option list \<Rightarrow> bool) \<Rightarrow> json \<Rightarrow> demo_world \<Rightarrow> err option \<times> demo_world" where
  "demo_put ok data w =
     (case demo_interfere w of
        (vs, js) \<Rightarrow> if ok vs then (None, (vs @ [Some (Some data)], js)) else (Some (Sentinel ErrKeyExists), (vs, js)))"

definition demo_kv :: "demo_world kv_store" where
  "demo_kv =
     \<lparr>kv_get = (\<lambda>key w. case demo_current (fst w) of
          None \<Rightarrow> (Inl (Sentinel ErrKeyNotFound), w)
        | Some v \<Rightarrow> (Inr (v, length (fst w)), w)),
      kv_create = (\<lambda>key. demo_put (\<lambda>vs. demo_current vs = None)),
      kv_update = (\<lambda>key data n. demo_put (\<lambda>vs. vs \<noteq> [] \<and> length vs = n) data),
      kv_purge = (\<lambda>key w. (None, (fst w @ [None], snd w)))\<rparr>"

lemma demo_hist_snoc: "demo_hist (vs @ [x], js) = demo_hist (vs, js') @ [(Suc (length vs), x)]"
  by (simp add: demo_hist_def nth_append)

lemma demo_hist_others: "demo_hist (vs, js) = demo_hist (vs, [])"
  by (simp add: demo_hist_def)

lemma demo_hist_last: "vs \<noteq> [] \<Longrightarrow> demo_hist (vs, js) \<noteq> [] \<and> last (demo_hist (vs, js)) = (length vs, last vs)"
proof (cases vs rule: rev_cases)
  case (snoc ys y)
  then show ?thesis by (simp only: demo_hist_snoc [of ys y js "[]"]) simp
qed simp

lemma demo_current_hist: "current (demo_hist w) = demo_current (fst w)"
proof (cases "fst w = []")
  case False
  then show ?thesis using demo_hist_last [of "fst w" "snd w"] by (simp add: current_def demo_current_def)
qed (simp add: current_def demo_current_def demo_hist_def)

lemma demo_interfere_prefix: "prefix (demo_hist w) (demo_hist (demo_interfere w))"
proof (cases w rule: demo_interfere.cases)
  case (2 vs j js)
  then show ?thesis by (simp add: demo_hist_snoc [of vs "Some (Some j)" js "j # js"])
qed simp

lemma demo_put_history:
  assumes "demo_put ok data w = (e, w')" and "\<And>vs js. ok vs \<Longrightarrow> ok' (demo_hist (vs, js))"
  shows "prefix (demo_hist w) (demo_hist w') \<and> (e = None \<longrightarrow> wrote (demo_hist w) data ok' (demo_hist w'))"
proof -
  obtain vs js where i: "demo_interfere w = (vs, js)" by fastforce
  have p: "prefix (demo_hist w) (demo_hist (vs, js))" using demo_interfere_prefix [of w] i by simp
  show ?thesis
  proof (cases "ok vs")
    case True
    then have "e = None" "w' = (vs @ [Some (Some data)], js)" using assms(1) i by (simp_all add: demo_put_def)
    then have "demo_hist w' = demo_hist (vs, js) @ (Suc (length vs), Some (Some data)) # []"
      by (simp only: demo_hist_snoc [of vs _ js js])
    then show ?thesis using p assms(2) [OF True, of js] unfolding wrote_def by (metis prefix_order.trans prefixI)
  next
    case False
    then show ?thesis using assms(1) i p by (auto simp: demo_put_def)
  qed
qed

lemma demo_keeps_revisions: "kv_keeps_revisions demo_kv key demo_hist"
  unfolding kv_keeps_revisions_def
proof (intro conjI allI impI)
  fix w show "distinct (map fst (demo_hist w))" "0 \<notin> fst ` set (demo_hist w)"
    by (auto simp: demo_hist_def comp_def distinct_map)
next
  fix w r w' assume "kv_get demo_kv key w = (r, w')"
  then show "prefix (demo_hist w) (demo_hist w')"
    and "case r of Inr (v, n) \<Rightarrow> demo_hist w' \<noteq> [] \<and> last (demo_hist w') = (n, Some v)
       | Inl e \<Rightarrow> err_is e ErrKeyNotFound \<longrightarrow> current (demo_hist w') = None"
    by (cases w; auto simp: demo_kv_def demo_current_hist demo_current_def demo_hist_last
        split: option.splits if_splits)+
next
  fix data w e w' assume "kv_create demo_kv key data w = (e, w')"
  then have "demo_put (\<lambda>vs. demo_current vs = None) data w = (e, w')" by (simp add: demo_kv_def)
  then have "prefix (demo_hist w) (demo_hist w') \<and>
    (e = None \<longrightarrow> wrote (demo_hist w) data (\<lambda>h. current h = None) (demo_hist w'))"
    by (rule demo_put_history) (simp add: demo_current_hist)
  then show "prefix (demo_hist w) (demo_hist w')"
    and "e = None \<Longrightarrow> wrote (demo_hist w) data (\<lambda>h. current h = None) (demo_hist w')" by simp_all
next
  fix data n w e w' assume "kv_update demo_kv key data n w = (e, w')"
  then have "demo_put (\<lambda>vs. vs \<noteq> [] \<and> length vs = n) data w = (e, w')" by (simp add: demo_kv_def)
  then have "prefix (demo_hist w) (demo_hist w') \<and>
    (e = None \<longrightarrow> wrote (demo_hist w) data (\<lambda>h. h \<noteq> [] \<and> fst (last h) = n) (demo_hist w'))"
    by (rule demo_put_history) (simp add: demo_hist_last)
  then show "prefix (demo_hist w) (demo_hist w')"
    and "e = None \<Longrightarrow> wrote (demo_hist w) data (\<lambda>h. h \<noteq> [] \<and> fst (last h) = n) (demo_hist w')" by simp_all
qed

definition demo_env :: "demo_world memory_env" where
  "demo_env = \<lparr>me_api_code = (\<lambda>_. None), me_size = (\<lambda>_. 0), me_sleep = (\<lambda>ctx n w. (None, w))\<rparr>"

lemma demo_env_waits: "waiting_adds demo_env demo_hist"
  by (simp add: waiting_adds_def demo_env_def)

definition demo_memory :: "demo_world nats_memory" where
  "demo_memory = \<lparr>nm_kv = demo_kv, nm_session = ''s'', nm_llm = None, nm_threshold = 0, nm_size = 0, nm_prune = True\<rparr>"

definition demo_ctx :: "demo_world goctx" where
  "demo_ctx = \<lparr>ctx_err = (\<lambda>_. None), ctx_cause = (\<lambda>_. None), ctx_run = None, ctx_call = None\<rparr>"

text \<open>The first write of ours comes right after another one, so it loses and is tried again.\<close>

definition demo_world :: demo_world where
  "demo_world = ([], [enc_messages [UserMessage [Text ''a'']]])"

subsection \<open>Properties\<close>



text \<open>
  C19: A snapshot is stored in place of the one it was made from, against any other writer: when
  \<open>SaveSnapshot\<close> reports success, its write stands right behind a session whose snapshot is still
  \<open>prev\<close>, and the messages after the cutoff are those of that session, at the same positions, pruned or
  not.
\<close>

theorem snapshot_replaces_prev:
  assumes "kv_keeps_revisions (nm_kv m) (nm_session m) hist" and "waiting_adds env hist"
    and "SaveSnapshot_nats env m ctx sn upTo prev w = (Returned None, w')"
  shows "\<exists>before r after s s'.
    hist w' = before @ (r, Some (Some (encode_session s'))) # after \<and> prefix (hist w) before \<and>
    session_of before = Inr s \<and> Same (se_snapshot s) prev \<and> se_snapshot s' = Some (sn\<lparr>sn_upTo := upTo\<rparr>) \<and>
    Tail (se_messages s') (se_offset s') (se_snapshot s') = Tail (se_messages s) (se_offset s) (se_snapshot s') \<and>
    se_offset s' + int (length (se_messages s')) = se_offset s + int (length (se_messages s))"
proof -
  have "snapshot_loop env m ctx sn upTo prev saveAttempts 0 (Opaque []) w = (Returned None, w')"
    using assms(3) by (auto simp: SaveSnapshot_nats_def split: if_splits)
  from snapshot_loop_wrote [OF assms(1,2) this] snapshot_stored_log show ?thesis
    unfolding wrote_def by blast
qed

theorem snapshot_replaces_prev_witness:
  "\<exists>before r after s s'.
    demo_hist (snd (SaveSnapshot_nats demo_env demo_memory demo_ctx wit_snapshot ''0'' None
      ([Some (Some (enc_messages [UserMessage [Text ''a'']]))], [enc_messages [UserMessage [Text ''a''], UserMessage [Text ''b'']]]))) =
      before @ (r, Some (Some (encode_session s'))) # after \<and>
    prefix (demo_hist ([Some (Some (enc_messages [UserMessage [Text ''a'']]))], [enc_messages [UserMessage [Text ''a''], UserMessage [Text ''b'']]])) before \<and>
    session_of before = Inr s \<and> Same (se_snapshot s) None \<and> se_snapshot s' = Some (wit_snapshot\<lparr>sn_upTo := ''0''\<rparr>) \<and>
    Tail (se_messages s') (se_offset s') (se_snapshot s') = Tail (se_messages s) (se_offset s) (se_snapshot s') \<and>
    se_offset s' + int (length (se_messages s')) = se_offset s + int (length (se_messages s))"
proof (rule snapshot_replaces_prev [where m = demo_memory and env = demo_env and ctx = demo_ctx and hist = demo_hist])
  let ?w = "([Some (Some (enc_messages [UserMessage [Text ''a'']]))], [enc_messages [UserMessage [Text ''a''], UserMessage [Text ''b'']]])"
  show "kv_keeps_revisions (nm_kv demo_memory) (nm_session demo_memory) demo_hist"
    by (simp add: demo_memory_def demo_keeps_revisions)
  have "fst (SaveSnapshot_nats demo_env demo_memory demo_ctx wit_snapshot ''0'' None ?w) = Returned None"
    by code_simp
  then show "SaveSnapshot_nats demo_env demo_memory demo_ctx wit_snapshot ''0'' None ?w =
      (Returned None, snd (SaveSnapshot_nats demo_env demo_memory demo_ctx wit_snapshot ''0'' None ?w))"
    by (metis prod.collapse)
qed (rule demo_env_waits)

end
