(* ===== verification/Json_Text.thy ===== *)
theory Json_Text
  imports Message_Json
begin

section \<open>JSON text\<close>

text \<open>
  Printing and parsing JSON as \<open>encoding/json\<close> does: \<open>json_print\<close> is \<open>json.Marshal\<close> (no white
  space; control characters, the characters of HTML tags, U+2028 and U+2029 escaped; a byte that is
  not UTF-8 written as U+FFFD), \<open>json_parse\<close> the first half of \<open>json.Unmarshal\<close>: text to value. A
  JSON object keeps its members in order. The parser takes fuel for the nesting and the elements: one
  more than the length of the text is enough (\<open>parse_print\<close>). Go refuses a nesting over 10000, which
  is left out.
\<close>

subsection \<open>Strings\<close>

definition quote_mark :: char where "quote_mark = CHR 0x22"
definition backslash :: char where "backslash = CHR 0x5C"

definition u_escape :: "nat \<Rightarrow> string" where
  "u_escape n = [backslash, CHR ''u'', hex_digit (n div 4096), hex_digit (n div 256 mod 16),
     hex_digit (n div 16 mod 16), hex_digit (n mod 16)]"

definition escape_byte :: "char \<Rightarrow> string" where
  "escape_byte c =
     (let b = byte c in
      if b = 34 \<or> b = 92 then [backslash, c]
      else if b = 8 then [backslash, CHR ''b'']
      else if b = 12 then [backslash, CHR ''f'']
      else if b = 10 then [backslash, CHR ''n'']
      else if b = 13 then [backslash, CHR ''r'']
      else if b = 9 then [backslash, CHR ''t'']
      else if b < 32 \<or> b = 60 \<or> b = 62 \<or> b = 38 then u_escape b
      else [c])"

definition escape_rune :: "string \<Rightarrow> string" where
  "escape_rune ch =
     (if rune_size ch = None then u_escape 0xFFFD
      else case ch of
        [c] \<Rightarrow> escape_byte c
      | _ \<Rightarrow> if ch = [CHR 0xE2, CHR 0x80, CHR 0xA8] then u_escape 0x2028
             else if ch = [CHR 0xE2, CHR 0x80, CHR 0xA9] then u_escape 0x2029
             else ch)"

definition json_escape :: "string \<Rightarrow> string" where
  "json_escape s = concat (map escape_rune (utf8_chunks s))"

definition json_quote :: "string \<Rightarrow> string" where
  "json_quote s = quote_mark # json_escape s @ [quote_mark]"

text \<open>\<open>utf8.EncodeRune\<close>.\<close>

definition utf8_encode :: "nat \<Rightarrow> string" where
  "utf8_encode n =
     (if n < 0x80 then [char_of n]
      else if n < 0x800 then [char_of (0xC0 + n div 64), char_of (0x80 + n mod 64)]
      else if (0xD800 \<le> n \<and> n \<le> 0xDFFF) \<or> 0x10FFFF < n then rune_error
      else if n < 0x10000 then
        [char_of (0xE0 + n div 4096), char_of (0x80 + n div 64 mod 64), char_of (0x80 + n mod 64)]
      else [char_of (0xF0 + n div 262144), char_of (0x80 + n div 4096 mod 64),
            char_of (0x80 + n div 64 mod 64), char_of (0x80 + n mod 64)])"

definition hex_val :: "char \<Rightarrow> nat option" where
  "hex_val c =
     (let b = byte c in
      if 48 \<le> b \<and> b \<le> 57 then Some (b - 48)
      else if 97 \<le> b \<and> b \<le> 102 then Some (b - 87)
      else if 65 \<le> b \<and> b \<le> 70 then Some (b - 55)
      else None)"

definition hex4 :: "string \<Rightarrow> nat option" where
  "hex4 s =
     (case s of
        a # b # c # d # _ \<Rightarrow>
          (case (hex_val a, hex_val b, hex_val c, hex_val d) of
             (Some w, Some x, Some y, Some z) \<Rightarrow> Some (4096 * w + 256 * x + 16 * y + z)
           | _ \<Rightarrow> None)
      | _ \<Rightarrow> None)"

definition surrogate :: "nat \<Rightarrow> bool" where
  "surrogate n \<longleftrightarrow> 0xD800 \<le> n \<and> n \<le> 0xDFFF"

text \<open>An escape after \<open>u\<close>: the text it stands for and how many more bytes it takes.\<close>

definition u_unit :: "string \<Rightarrow> (string \<times> nat) option" where
  "u_unit ds =
     (case hex4 ds of
        None \<Rightarrow> None
      | Some n \<Rightarrow>
          if surrogate n then
            (case (if take 2 (drop 4 ds) = [backslash, CHR ''u''] then hex4 (drop 6 ds) else None) of
               Some n2 \<Rightarrow>
                 if n < 0xDC00 \<and> 0xDC00 \<le> n2 \<and> n2 \<le> 0xDFFF
                 then Some (utf8_encode (0x10000 + (n - 0xD800) * 0x400 + (n2 - 0xDC00)), 10)
                 else Some (rune_error, 4)
             | None \<Rightarrow> Some (rune_error, 4))
          else Some (utf8_encode n, 4))"

text \<open>The first unit inside a string: the text it stands for and its size in bytes.\<close>

definition json_unit :: "string \<Rightarrow> (string \<times> nat) option" where
  "json_unit s =
     (case s of
        [] \<Rightarrow> None
      | c # cs \<Rightarrow>
          if byte c < 32 then None
          else if c = backslash then
            (case cs of
               [] \<Rightarrow> None
             | d # ds \<Rightarrow>
                 (if d = quote_mark \<or> d = backslash \<or> d = CHR ''/'' then Some ([d], 2)
                  else if d = CHR ''b'' then Some ([CHR 0x08], 2)
                  else if d = CHR ''f'' then Some ([CHR 0x0C], 2)
                  else if d = CHR ''n'' then Some ([CHR 0x0A], 2)
                  else if d = CHR ''r'' then Some ([CHR 0x0D], 2)
                  else if d = CHR ''t'' then Some ([CHR 0x09], 2)
                  else if d = CHR ''u'' then map_option (\<lambda>(t, n). (t, n + 2)) (u_unit ds)
                  else None))
          else Some (if rune_size s = None then rune_error else take (rune_width s) s, rune_width s))"

lemma json_unit_size: "json_unit s = Some (t, n) \<Longrightarrow> 0 < n \<and> s \<noteq> []"
  by (auto simp: json_unit_def split: list.splits if_splits)

function parse_string :: "string \<Rightarrow> (string \<times> string) option" where
  "parse_string s =
     (case s of
        [] \<Rightarrow> None
      | c # cs \<Rightarrow>
          if c = quote_mark then Some ([], cs)
          else case json_unit s of
            None \<Rightarrow> None
          | Some (t, n) \<Rightarrow> map_option (\<lambda>(u, r). (t @ u, r)) (parse_string (drop n s)))"
  by pat_completeness auto
termination
proof (relation "measure length")
  fix s c cs x t n
  assume "s = c # cs" "json_unit s = Some x" "(t, n) = x"
  then show "(drop n s, s) \<in> measure length" using json_unit_size [of s t n] by auto
qed simp

declare parse_string.simps [simp del]

subsection \<open>Values\<close>

definition comma_join :: "string list \<Rightarrow> string" where
  "comma_join xs = go_join xs '',''"

fun json_print :: "json \<Rightarrow> string" where
  "json_print JNull = ''null''"
| "json_print (JBool b) = (if b then ''true'' else ''false'')"
| "json_print (JNum l) = l"
| "json_print (JStr s) = json_quote s"
| "json_print (JArr js) = ''['' @ comma_join (map json_print js) @ '']''"
| "json_print (JObj ms) = ''{'' @ comma_join (map (\<lambda>(k, v). json_quote k @ '':'' @ json_print v) ms) @ ''}''"

definition json_space :: "char \<Rightarrow> bool" where
  "json_space c \<longleftrightarrow> c = CHR '' '' \<or> c = CHR 0x09 \<or> c = CHR 0x0A \<or> c = CHR 0x0D"

definition skip_space :: "string \<Rightarrow> string" where
  "skip_space s = dropWhile json_space s"

text \<open>A number literal.\<close>

definition number_char :: "char \<Rightarrow> bool" where
  "number_char c \<longleftrightarrow> is_digit c \<or> c \<in> set ''+-.eE''"

definition digits_then :: "(string \<Rightarrow> bool) \<Rightarrow> string \<Rightarrow> bool" where
  "digits_then ok s \<longleftrightarrow> (case s of c # cs \<Rightarrow> is_digit c \<and> ok (dropWhile is_digit cs) | [] \<Rightarrow> False)"

definition exponent_ok :: "string \<Rightarrow> bool" where
  "exponent_ok s \<longleftrightarrow>
     (case s of
        [] \<Rightarrow> True
      | c # cs \<Rightarrow> c \<in> set ''eE'' \<and>
          digits_then (\<lambda>r. r = []) (case cs of d # ds \<Rightarrow> if d \<in> set ''+-'' then ds else cs | [] \<Rightarrow> cs))"

definition fraction_ok :: "string \<Rightarrow> bool" where
  "fraction_ok s \<longleftrightarrow>
     (case s of c # cs \<Rightarrow> if c = CHR ''.'' then digits_then exponent_ok cs else exponent_ok s | [] \<Rightarrow> True)"

definition is_number :: "string \<Rightarrow> bool" where
  "is_number s \<longleftrightarrow>
     (case (case s of c # cs \<Rightarrow> if c = CHR ''-'' then cs else s | [] \<Rightarrow> s) of
        [] \<Rightarrow> False
      | c # cs \<Rightarrow> if c = CHR ''0'' then fraction_ok cs else digits_then fraction_ok (c # cs))"

definition parse_number :: "string \<Rightarrow> (json \<times> string) option" where
  "parse_number s =
     (let l = takeWhile number_char s in if is_number l then Some (JNum l, dropWhile number_char s) else None)"

definition parse_word :: "string \<Rightarrow> json \<Rightarrow> string \<Rightarrow> (json \<times> string) option" where
  "parse_word w j s = (if has_prefix s w then Some (j, drop (length w) s) else None)"

fun parse_value :: "nat \<Rightarrow> string \<Rightarrow> (json \<times> string) option"
  and parse_elems :: "nat \<Rightarrow> string \<Rightarrow> (json list \<times> string) option"
  and parse_members :: "nat \<Rightarrow> string \<Rightarrow> ((string \<times> json) list \<times> string) option" where
  "parse_value 0 s = None"
| "parse_value (Suc n) s =
     (case skip_space s of
        [] \<Rightarrow> None
      | c # cs \<Rightarrow>
          if c = quote_mark then map_option (\<lambda>(t, r). (JStr t, r)) (parse_string cs)
          else if c = CHR ''{'' then
            (case skip_space cs of
               [] \<Rightarrow> None
             | d # ds \<Rightarrow> if d = CHR ''}'' then Some (JObj [], ds)
                 else map_option (\<lambda>(ms, r). (JObj ms, r)) (parse_members n (d # ds)))
          else if c = CHR ''['' then
            (case skip_space cs of
               [] \<Rightarrow> None
             | d # ds \<Rightarrow> if d = CHR '']'' then Some (JArr [], ds)
                 else map_option (\<lambda>(js, r). (JArr js, r)) (parse_elems n (d # ds)))
          else if c = CHR ''n'' then parse_word ''null'' JNull (c # cs)
          else if c = CHR ''t'' then parse_word ''true'' (JBool True) (c # cs)
          else if c = CHR ''f'' then parse_word ''false'' (JBool False) (c # cs)
          else parse_number (c # cs))"
| "parse_elems 0 s = None"
| "parse_elems (Suc n) s =
     (case parse_value n s of
        None \<Rightarrow> None
      | Some (j, r) \<Rightarrow>
          (case skip_space r of
             [] \<Rightarrow> None
           | c # cs \<Rightarrow>
               if c = CHR '']'' then Some ([j], cs)
               else if c = CHR '','' then map_option (\<lambda>(js, r'). (j # js, r')) (parse_elems n cs)
               else None))"
| "parse_members 0 s = None"
| "parse_members (Suc n) s =
     (case skip_space s of
        [] \<Rightarrow> None
      | q # qs \<Rightarrow>
          if q \<noteq> quote_mark then None
          else case parse_string qs of
            None \<Rightarrow> None
          | Some (k, r) \<Rightarrow>
              (case skip_space r of
                 [] \<Rightarrow> None
               | c # cs \<Rightarrow>
                   if c \<noteq> CHR '':'' then None
                   else case parse_value n cs of
                     None \<Rightarrow> None
                   | Some (v, r2) \<Rightarrow>
                       (case skip_space r2 of
                          [] \<Rightarrow> None
                        | d # ds \<Rightarrow>
                            if d = CHR ''}'' then Some ([(k, v)], ds)
                            else if d = CHR '','' then map_option (\<lambda>(ms, r'). ((k, v) # ms, r')) (parse_members n ds)
                            else None)))"

definition json_parse :: "string \<Rightarrow> json option" where
  "json_parse s =
     (case parse_value (Suc (length s)) s of
        None \<Rightarrow> None
      | Some (j, r) \<Rightarrow> if skip_space r = [] then Some j else None)"

subsection \<open>Strings are read back\<close>

lemma byte_char_of [simp]: "byte (char_of n) = n mod 256"
  by (simp add: byte_def)

lemma byte_less [simp]: "byte c < 256"
  by (simp add: byte_def)

lemma char_of_byte [simp]: "char_of (byte c) = c"
  by (simp add: byte_def)

lemma special_bytes:
  "char_of (34::nat) = CHR 0x22" "char_of (92::nat) = CHR 0x5C" "char_of (8::nat) = CHR 0x08" "char_of (12::nat) = CHR 0x0C"
  "char_of (10::nat) = CHR 0x0A" "char_of (13::nat) = CHR 0x0D" "char_of (9::nat) = CHR 0x09"
  "char_of (239::nat) = CHR 0xEF" "char_of (191::nat) = CHR 0xBF" "char_of (189::nat) = CHR 0xBD"
  "char_of (226::nat) = CHR 0xE2" "char_of (128::nat) = CHR 0x80" "char_of (168::nat) = CHR 0xA8" "char_of (169::nat) = CHR 0xA9"
  by code_simp+

lemma hex_digits:
  "4096 * (n div 4096) + 256 * (n div 256 mod 16) + 16 * (n div 16 mod 16) + n mod 16 = (n :: nat)"
proof -
  have add: "16 * c + d = m \<Longrightarrow> 16 * b + c' = c \<Longrightarrow> 16 * a + b' = b \<Longrightarrow>
      4096 * a + 256 * b' + 16 * c' + d = m" for a b b' c c' d m :: nat by simp
  have "n div 256 = n div 16 div 16" "n div 4096 = n div 16 div 16 div 16"
    by (simp_all add: div_mult2_eq [symmetric])
  then show ?thesis by (simp only:) (rule add, (rule mult_div_mod_eq)+)
qed

lemma hex_val_digit: "d < 16 \<Longrightarrow> hex_val (hex_digit d) = Some d"
  by (auto simp: hex_val_def hex_digit_def Let_def)

lemma hex4_u_escape:
  assumes "n < 65536"
  shows "\<exists>ds. u_escape n = backslash # CHR ''u'' # ds \<and> length ds = 4 \<and> hex4 (ds @ r) = Some n"
proof -
  have "n div 4096 < 16" using assms by simp
  then show ?thesis by (simp add: u_escape_def hex4_def hex_val_digit hex_digits)
qed

lemma json_unit_u_escape:
  assumes "n < 65536" and "\<not> surrogate n"
  shows "json_unit (u_escape n @ r) = Some (utf8_encode n, length (u_escape n))"
proof -
  obtain ds where "u_escape n = backslash # CHR ''u'' # ds" "length ds = 4" "hex4 (ds @ r) = Some n"
    using hex4_u_escape [OF assms(1)] by blast
  then show ?thesis using assms(2) by (simp add: json_unit_def u_unit_def backslash_def quote_mark_def byte_def)
qed

lemma rune_size_take: "rune_size s = Some n \<Longrightarrow> n \<le> length s \<and> rune_size (take n s @ t) = Some n"
  by (cases s) (auto simp: Let_def split: if_splits list.splits)

lemma rune_size_single: "rune_size (c # cs) = None \<Longrightarrow> rune_size [c] = None"
  by (auto simp: Let_def split: if_splits)

text \<open>A chunk of a string is a whole character or one byte that starts none.\<close>

definition rune_chunk :: "string \<Rightarrow> bool" where
  "rune_chunk ch \<longleftrightarrow> rune_size ch = Some (length ch) \<or> (rune_size ch = None \<and> length ch = 1)"

lemma utf8_chunks_rune_chunk: "ch \<in> set (utf8_chunks s) \<Longrightarrow> rune_chunk ch"
proof (induction s rule: utf8_chunks.induct)
  case (2 c cs)
  let ?n = "rune_width (c # cs) - 1"
  consider "ch = c # take ?n cs" | "ch \<in> set (utf8_chunks (drop ?n cs))"
    using "2.prems" by (auto simp: utf8_chunks.simps(2) Let_def)
  then show ?case
  proof cases
    case 1
    show ?thesis
    proof (cases "rune_size (c # cs)")
      case None
      then show ?thesis using 1 rune_size_single [OF None] by (simp add: rune_width_def rune_chunk_def del: rune_size.simps)
    next
      case (Some n)
      then have "ch = take n (c # cs)" using 1 rune_size_pos [OF Some] by (cases n) (simp_all add: rune_width_def del: rune_size.simps)
      with rune_size_take [OF Some, of "[]"] show ?thesis by (simp add: rune_chunk_def del: rune_size.simps)
    qed
  qed (use 2 in \<open>simp add: Let_def\<close>)
qed simp

lemma rune_size_ascii: "byte c < 128 \<Longrightarrow> rune_size (c # cs) = Some 1"
  by (simp add: Let_def)

lemma json_unit_plain:
  assumes "rune_size ch = Some (length ch)" and "32 \<le> byte (hd ch)" and "hd ch \<noteq> backslash"
  shows "json_unit (ch @ r) = Some (ch, length ch)"
proof (cases ch)
  case (Cons c cs)
  have "rune_size (ch @ r) = Some (length ch)" using rune_size_take [OF assms(1), of r] by simp
  then show ?thesis using assms(2,3) Cons by (simp add: json_unit_def rune_width_def del: rune_size.simps)
qed (use assms in simp)

lemma json_unit_escape_byte:
  assumes "byte c < 128"
  shows "json_unit (escape_byte c @ r) = Some ([c], length (escape_byte c)) \<and> hd (escape_byte c) \<noteq> quote_mark"
proof -
  have c: "c = char_of (byte c)" by simp
  have sz: "rune_size [c] = Some 1" using assms by (rule rune_size_ascii)
  consider "byte c \<in> {34, 92, 8, 12, 10, 13, 9}" | "byte c < 32 \<or> byte c \<in> {60, 62, 38}" "byte c \<notin> {34, 92, 8, 12, 10, 13, 9}"
    | "32 \<le> byte c" "byte c \<notin> {34, 92, 60, 62, 38}" by fastforce
  then show ?thesis
  proof cases
    case 1
    have "json_unit (escape_byte (char_of b) @ r) = Some ([char_of b], length (escape_byte (char_of b))) \<and>
        hd (escape_byte (char_of b)) \<noteq> quote_mark" if "b \<in> {34, 92, 8, 12, 10, 13, 9}" for b :: nat
      using that by (auto simp: escape_byte_def json_unit_def backslash_def quote_mark_def byte_def special_bytes)
    then show ?thesis using 1 c by metis
  next
    case 2
    then have e: "escape_byte c = u_escape (byte c)" by (auto simp: escape_byte_def Let_def)
    have "json_unit (u_escape (byte c) @ r) = Some (utf8_encode (byte c), length (u_escape (byte c)))"
      using assms by (intro json_unit_u_escape) (auto simp: surrogate_def)
    moreover have "utf8_encode (byte c) = [c]" using assms by (simp add: utf8_encode_def)
    ultimately show ?thesis using e by (simp add: u_escape_def backslash_def quote_mark_def)
  next
    case 3
    then have e: "escape_byte c = [c]" by (auto simp: escape_byte_def Let_def)
    have "c \<noteq> backslash" "c \<noteq> quote_mark" using 3 by (auto simp: backslash_def quote_mark_def byte_def)
    then show ?thesis using e json_unit_plain [of "[c]" r] sz 3 by simp
  qed
qed

definition valid_rune :: "string \<Rightarrow> string" where
  "valid_rune ch = (if rune_size ch = None then rune_error else ch)"

lemma json_unit_escape_rune:
  assumes "rune_chunk ch"
  shows "json_unit (escape_rune ch @ r) = Some (valid_rune ch, length (escape_rune ch)) \<and>
    escape_rune ch \<noteq> [] \<and> hd (escape_rune ch) \<noteq> quote_mark"
proof (cases "rune_size ch")
  case None
  have "utf8_encode 0xFFFD = rune_error" by (simp add: utf8_encode_def rune_error_def special_bytes)
  then show ?thesis using None json_unit_u_escape [of 65533 r]
    by (simp add: escape_rune_def valid_rune_def surrogate_def) (simp add: u_escape_def backslash_def quote_mark_def)
next
  case (Some n)
  then have sz: "rune_size ch = Some (length ch)" using assms by (simp add: rune_chunk_def)
  then obtain c cs where ch: "ch = c # cs" by (cases ch) simp_all
  show ?thesis
  proof (cases cs)
    case Nil
    have "byte c < 128" using sz ch Nil by (auto simp: Let_def split: if_splits)
    from json_unit_escape_byte [OF this, of r] show ?thesis
      using Some ch Nil by (auto simp: escape_rune_def valid_rune_def escape_byte_def u_escape_def Let_def simp del: rune_size.simps)
  next
    case (Cons d ds)
    have b: "128 \<le> byte c" using sz ch Cons by (auto simp: Let_def split: if_splits)
    have h: "hd ch \<noteq> backslash" "hd ch \<noteq> quote_mark" using b ch by (auto simp: backslash_def quote_mark_def byte_def)
    have e: "escape_rune ch =
        (if ch = [CHR 0xE2, CHR 0x80, CHR 0xA8] then u_escape 0x2028
         else if ch = [CHR 0xE2, CHR 0x80, CHR 0xA9] then u_escape 0x2029 else ch)"
      using Some unfolding ch Cons by (simp add: escape_rune_def del: rune_size.simps)
    consider "ch = [CHR 0xE2, CHR 0x80, CHR 0xA8]" | "ch = [CHR 0xE2, CHR 0x80, CHR 0xA9]"
      | "ch \<noteq> [CHR 0xE2, CHR 0x80, CHR 0xA8]" "ch \<noteq> [CHR 0xE2, CHR 0x80, CHR 0xA9]" by blast
    then show ?thesis
    proof cases
      case 1
      have "utf8_encode 0x2028 = [CHR 0xE2, CHR 0x80, CHR 0xA8]" by (simp add: utf8_encode_def special_bytes)
      then show ?thesis using Some 1 json_unit_u_escape [of 8232 r]
        by (simp add: escape_rune_def valid_rune_def surrogate_def del: rune_size.simps) (simp add: u_escape_def backslash_def quote_mark_def)
    next
      case 2
      have "utf8_encode 0x2029 = [CHR 0xE2, CHR 0x80, CHR 0xA9]" by (simp add: utf8_encode_def special_bytes)
      then show ?thesis using Some 2 json_unit_u_escape [of 8233 r]
        by (simp add: escape_rune_def valid_rune_def surrogate_def del: rune_size.simps) (simp add: u_escape_def backslash_def quote_mark_def)
    next
      case 3
      then have "escape_rune ch = ch" using e by simp
      then show ?thesis using json_unit_plain [OF sz, of r] b h ch Some by (simp add: valid_rune_def del: rune_size.simps)
    qed
  qed
qed

lemma parse_string_runes:
  assumes "list_all rune_chunk chs"
  shows "parse_string (concat (map escape_rune chs) @ quote_mark # r) = Some (concat (map valid_rune chs), r)"
  using assms
proof (induction chs)
  case Nil
  then show ?case by (simp add: parse_string.simps [of "quote_mark # r"])
next
  case (Cons ch chs)
  let ?rest = "concat (map escape_rune chs) @ quote_mark # r"
  have u: "json_unit (escape_rune ch @ ?rest) = Some (valid_rune ch, length (escape_rune ch))"
    "escape_rune ch \<noteq> []" "hd (escape_rune ch) \<noteq> quote_mark"
    using json_unit_escape_rune [of ch ?rest] Cons.prems by simp_all
  obtain x xs where x: "escape_rune ch = x # xs" using u(2) by (cases "escape_rune ch") simp_all
  show ?case using u x Cons
    by (simp add: parse_string.simps [of "x # xs @ ?rest"])
qed

lemma parse_string_escape: "parse_string (json_escape s @ quote_mark # r) = Some (to_valid s, r)"
proof -
  have "list_all rune_chunk (utf8_chunks s)" by (simp add: list_all_iff utf8_chunks_rune_chunk)
  moreover have "map valid_rune (utf8_chunks s) = runes s"
    by (simp add: runes_def valid_rune_def [abs_def])
  ultimately show ?thesis using parse_string_runes [of "utf8_chunks s" r]
    by (simp add: json_escape_def to_valid_def)
qed

subsection \<open>Values are read back\<close>

text \<open>What reading makes of a value: its strings become UTF-8.\<close>

fun json_norm :: "json \<Rightarrow> json" where
  "json_norm (JStr s) = JStr (to_valid s)"
| "json_norm (JArr js) = JArr (map json_norm js)"
| "json_norm (JObj ms) = JObj (map (\<lambda>(k, v). (to_valid k, json_norm v)) ms)"
| "json_norm j = j"

fun numbers_ok :: "json \<Rightarrow> bool" where
  "numbers_ok (JNum l) = is_number l"
| "numbers_ok (JArr js) = list_all numbers_ok js"
| "numbers_ok (JObj ms) = list_all (\<lambda>(k, v). numbers_ok v) ms"
| "numbers_ok j = True"

text \<open>What may follow a number.\<close>

definition after_value :: "string \<Rightarrow> bool" where
  "after_value r \<longleftrightarrow> (case r of [] \<Rightarrow> True | c # cs \<Rightarrow> \<not> number_char c)"

lemma skip_space_char: "\<not> json_space c \<Longrightarrow> skip_space (c # cs) = c # cs"
  by (simp add: skip_space_def)

lemma json_space_marks [simp]:
  "\<not> json_space quote_mark" "\<not> json_space CHR ''{''" "\<not> json_space CHR ''}''" "\<not> json_space CHR ''[''"
  "\<not> json_space CHR '']''" "\<not> json_space CHR '',''" "\<not> json_space CHR '':''" "\<not> json_space CHR ''n''"
  "\<not> json_space CHR ''t''" "\<not> json_space CHR ''f''"
  by (simp_all add: json_space_def quote_mark_def)

lemma quote_mark_distinct [simp]:
  "CHR ''{'' \<noteq> quote_mark" "CHR ''['' \<noteq> quote_mark" "quote_mark \<noteq> CHR ''}''"
  by (simp_all add: quote_mark_def)

lemma number_char_marks [simp]:
  "\<not> number_char CHR '']''" "\<not> number_char CHR '',''" "\<not> number_char CHR ''}''"
  by (simp_all add: number_char_def is_digit_def byte_def)

lemma number_char_intros: "is_digit c \<Longrightarrow> number_char c" "c \<in> set ''+-.eE'' \<Longrightarrow> number_char c"
  by (simp_all add: number_char_def)

lemma digits_then_chars:
  assumes "digits_then ok s" and "\<And>u. ok u \<Longrightarrow> list_all number_char u"
  shows "list_all number_char s"
proof (cases s)
  case (Cons c cs)
  have "list_all number_char (takeWhile is_digit cs)"
    by (auto simp: list_all_iff number_char_intros dest: set_takeWhileD)
  moreover have "list_all number_char (dropWhile is_digit cs)" "is_digit c"
    using assms Cons by (simp_all add: digits_then_def)
  ultimately have "list_all number_char cs" "is_digit c"
    by (metis list_all_append takeWhile_dropWhile_id)+
  then show ?thesis using Cons by (simp add: number_char_intros)
qed simp

lemma exponent_ok_chars: "exponent_ok s \<Longrightarrow> list_all number_char s"
proof (cases s)
  case (Cons c cs)
  assume "exponent_ok s"
  then have "c \<in> set ''eE''" "digits_then (\<lambda>r. r = []) (case cs of d # ds \<Rightarrow> if d \<in> set ''+-'' then ds else cs | [] \<Rightarrow> cs)"
    using Cons by (simp_all add: exponent_ok_def)
  moreover have "number_char c" if "c \<in> set ''eE''" for c using that by (intro number_char_intros) auto
  moreover have "number_char c" if "c \<in> set ''+-''" for c using that by (intro number_char_intros) auto
  ultimately show ?thesis using Cons digits_then_chars [of "\<lambda>r. r = []" cs] digits_then_chars [of "\<lambda>r. r = []" "tl cs"]
    by (cases cs) (simp_all split: if_splits)
qed simp

lemma fraction_ok_chars: "fraction_ok s \<Longrightarrow> list_all number_char s"
proof (cases s)
  case (Cons c cs)
  assume "fraction_ok s"
  then show ?thesis
    using Cons digits_then_chars [of exponent_ok cs, OF _ exponent_ok_chars] exponent_ok_chars [of "c # cs"]
      number_char_intros(2) [of c]
    by (simp add: fraction_ok_def split: if_splits)
qed simp

lemma is_number_chars: "is_number s \<Longrightarrow> list_all number_char s \<and> s \<noteq> []"
proof (cases s)
  case (Cons c cs)
  assume n: "is_number s"
  let ?u = "if c = CHR ''-'' then cs else s"
  have "list_all number_char ?u"
  proof (cases ?u)
    case (Cons d ds)
    have "if d = CHR ''0'' then fraction_ok ds else digits_then fraction_ok (d # ds)"
      using n \<open>s = c # cs\<close> Cons by (simp add: is_number_def split: if_splits)
    moreover have "number_char CHR ''0''" by (rule number_char_intros) (simp add: is_digit_def byte_def)
    ultimately show ?thesis
      using Cons digits_then_chars [of fraction_ok "d # ds", OF _ fraction_ok_chars] fraction_ok_chars [of ds]
      by (simp split: if_splits)
  qed simp
  then show ?thesis using Cons number_char_intros(2) [of c] by (simp split: if_splits)
qed (simp add: is_number_def)

lemma number_char_not_space: "number_char c \<Longrightarrow> \<not> json_space c \<and> c \<notin> {quote_mark, CHR ''{'', CHR ''['', CHR ''n'', CHR ''t'', CHR ''f''}"
  by (auto simp: number_char_def json_space_def is_digit_def byte_def quote_mark_def)

lemma parse_number_print:
  assumes "is_number l" and "after_value r"
  shows "parse_value (Suc n) (l @ r) = Some (JNum l, r)"
proof -
  have l: "list_all number_char l" "l \<noteq> []" using is_number_chars [OF assms(1)] by simp_all
  then obtain c cs where c: "l = c # cs" "number_char c" by (cases l) simp_all
  have "takeWhile number_char (l @ r) = l" "dropWhile number_char (l @ r) = r"
    using l(1) assms(2) by (auto simp: after_value_def list_all_iff takeWhile_append dropWhile_append split: list.splits)
  then have "parse_number (c # cs @ r) = Some (JNum l, r)"
    using assms(1) c by (simp add: parse_number_def)
  then show ?thesis using c number_char_not_space [OF c(2)] by (auto simp: skip_space_char)
qed

lemma parse_string_quote: "parse_value (Suc n) (json_quote s @ r) = Some (JStr (to_valid s), r)"
  by (simp add: json_quote_def skip_space_char parse_string_escape)

text \<open>The first byte of a value, which is neither white space nor a closing bracket.\<close>

lemma json_print_start:
  assumes "numbers_ok j"
  shows "\<exists>c cs. json_print j = c # cs \<and> \<not> json_space c \<and> c \<noteq> CHR '']'' \<and> c \<noteq> CHR ''}''"
proof (cases j)
  case (JNum l)
  then obtain c cs where c: "l = c # cs" "number_char c"
    using assms is_number_chars [of l] by (cases l) simp_all
  then have "c \<noteq> CHR '']''" "c \<noteq> CHR ''}''" by auto
  then show ?thesis using c JNum number_char_not_space [OF c(2)] by simp
qed (auto simp: json_quote_def quote_mark_def json_space_def)

lemma comma_join_simps [simp]: "comma_join [] = []" "comma_join [x] = x"
  "comma_join (x # y # zs) = x @ '','' @ comma_join (y # zs)"
  by (simp_all add: comma_join_def)

lemma parse_elems_print:
  assumes "\<And>j m r. j \<in> set js \<Longrightarrow> length (json_print j) < m \<Longrightarrow> after_value r \<Longrightarrow>
      parse_value m (json_print j @ r) = Some (json_norm j, r)"
    and "js \<noteq> []" and "length (comma_join (map json_print js)) < n"
  shows "parse_elems (Suc n) (comma_join (map json_print js) @ '']'' @ r) = Some (map json_norm js, r)"
  using assms
proof (induction js arbitrary: n)
  case (Cons j js)
  obtain n' where n: "n = Suc n'" using Cons.prems(3) by (cases n) simp_all
  show ?case
  proof (cases js)
    case Nil
    have "parse_value n (json_print j @ '']'' @ r) = Some (json_norm j, '']'' @ r)"
      by (rule Cons.prems(1)) (use Cons.prems Nil in \<open>simp_all add: after_value_def\<close>)
    then show ?thesis using Nil by (simp add: skip_space_char)
  next
    case (Cons x xs)
    let ?rest = "comma_join (map json_print js) @ '']'' @ r"
    have "parse_value n (json_print j @ '','' @ ?rest) = Some (json_norm j, '','' @ ?rest)"
      by (rule Cons.prems(1)) (use Cons.prems Cons in \<open>simp_all add: after_value_def\<close>)
    moreover have "parse_elems (Suc n') ?rest = Some (map json_norm js, r)"
      by (rule Cons.IH) (use Cons.prems Cons n in simp_all)
    ultimately show ?thesis using Cons n by (simp add: skip_space_char del: parse_value.simps parse_elems.simps(2))
        (simp add: parse_elems.simps(2) [of "Suc n'"] skip_space_char del: parse_value.simps parse_elems.simps(2))
  qed
qed simp

lemma parse_members_print:
  assumes "\<And>k v m r. (k, v) \<in> set ms \<Longrightarrow> length (json_print v) < m \<Longrightarrow> after_value r \<Longrightarrow>
      parse_value m (json_print v @ r) = Some (json_norm v, r)"
    and "ms \<noteq> []" and "length (comma_join (map (\<lambda>(k, v). json_quote k @ '':'' @ json_print v) ms)) < n"
  shows "parse_members (Suc n) (comma_join (map (\<lambda>(k, v). json_quote k @ '':'' @ json_print v) ms) @ ''}'' @ r) =
    Some (map (\<lambda>(k, v). (to_valid k, json_norm v)) ms, r)"
  using assms
proof (induction ms arbitrary: n)
  case (Cons x ms)
  obtain k v where x: "x = (k, v)" by fastforce
  obtain n' where n: "n = Suc n'" using Cons.prems(3) by (cases n) simp_all
  have key: "parse_string (json_escape k @ quote_mark # u) = Some (to_valid k, u)" for u
    by (rule parse_string_escape)
  show ?case
  proof (cases ms)
    case Nil
    have "parse_value n (json_print v @ ''}'' @ r) = Some (json_norm v, ''}'' @ r)"
      by (rule Cons.prems(1) [of k v]) (use Cons.prems Nil x in \<open>simp_all add: after_value_def\<close>)
    then show ?thesis using Nil x key by (simp add: json_quote_def skip_space_char)
  next
    case (Cons y ys)
    let ?rest = "comma_join (map (\<lambda>(k, v). json_quote k @ '':'' @ json_print v) ms) @ ''}'' @ r"
    have "parse_value n (json_print v @ '','' @ ?rest) = Some (json_norm v, '','' @ ?rest)"
      by (rule Cons.prems(1) [of k v]) (use Cons.prems Cons x in \<open>simp_all add: after_value_def\<close>)
    moreover have "parse_members (Suc n') ?rest = Some (map (\<lambda>(k, v). (to_valid k, json_norm v)) ms, r)"
      by (rule Cons.IH) (use Cons.prems Cons n x in \<open>auto simp: case_prod_beta\<close>)
    ultimately show ?thesis using Cons n x key
      by (simp add: json_quote_def skip_space_char del: parse_value.simps parse_members.simps(2))
        (simp add: parse_members.simps(2) [of "Suc n'"] json_quote_def skip_space_char del: parse_value.simps parse_members.simps(2))
  qed
qed simp

lemma parse_print:
  assumes "numbers_ok j" and "length (json_print j) < n" and "after_value r"
  shows "parse_value n (json_print j @ r) = Some (json_norm j, r)"
  using assms
proof (induction j arbitrary: n r)
  case (JArr js)
  obtain n' where n: "n = Suc n'" using JArr.prems by (cases n) simp_all
  show ?case
  proof (cases js)
    case (Cons j0 js0)
    obtain c cs where c: "json_print j0 = c # cs" "\<not> json_space c" "c \<noteq> CHR '']''"
      using json_print_start [of j0] JArr.prems(1) Cons by auto
    obtain n'' where n'': "n' = Suc n''" using JArr.prems(2) n by (cases n') simp_all
    have start: "\<exists>ds. comma_join (map json_print js) = c # ds" using Cons c(1) by (cases js0) simp_all
    have "parse_elems (Suc n'') (comma_join (map json_print js) @ '']'' @ r) = Some (map json_norm js, r)"
      by (rule parse_elems_print)
        (use JArr Cons n n'' in \<open>auto simp: list_all_iff simp del: json_print.simps\<close>, use JArr.prems(2) n n'' in simp)
    then show ?thesis using n n'' c start by (auto simp: skip_space_char simp del: parse_elems.simps parse_members.simps)
  qed (use n in \<open>simp add: skip_space_char\<close>)
next
  case (JObj ms)
  obtain n' where n: "n = Suc n'" using JObj.prems by (cases n) simp_all
  show ?case
  proof (cases ms)
    case (Cons m0 ms0)
    obtain n'' where n'': "n' = Suc n''" using JObj.prems(2) n by (cases n') simp_all
    have start: "\<exists>ds. comma_join (map (\<lambda>(k, v). json_quote k @ '':'' @ json_print v) ms) = quote_mark # ds"
      using Cons by (cases ms0; cases m0) (simp_all add: json_quote_def)
    have "parse_members (Suc n'') (comma_join (map (\<lambda>(k, v). json_quote k @ '':'' @ json_print v) ms) @ ''}'' @ r) =
        Some (map (\<lambda>(k, v). (to_valid k, json_norm v)) ms, r)"
    proof (rule parse_members_print)
      fix k v m r
      assume "(k, v) \<in> set ms" "length (json_print v) < m" "after_value r"
      then show "parse_value m (json_print v @ r) = Some (json_norm v, r)"
        using JObj.IH [of "(k, v)" v m r] JObj.prems(1) by (auto simp: list_all_iff)
    qed (use Cons JObj.prems(2) n n'' in simp_all)
    then show ?thesis using n n'' start by (auto simp: skip_space_char simp del: parse_elems.simps parse_members.simps)
  qed (use n in \<open>simp add: skip_space_char\<close>)
next
  case (JStr s)
  then show ?case by (cases n) (simp_all add: parse_string_quote del: parse_value.simps)
next
  case (JNum l)
  then show ?case by (cases n) (simp_all add: parse_number_print del: parse_value.simps)
qed (auto simp: gr0_conv_Suc skip_space_char parse_word_def has_prefix_def quote_mark_def split: nat.splits elim!: less_natE)

lemma json_parse_print: "numbers_ok j \<Longrightarrow> json_parse (json_print j) = Some (json_norm j)"
  using parse_print [of j "Suc (length (json_print j))" "[]"]
  by (simp add: json_parse_def after_value_def skip_space_def del: parse_value.simps)

subsection \<open>Integers and names\<close>

lemma ascii_valid: "list_all (\<lambda>c. byte c < 128) s \<Longrightarrow> valid_utf8 s"
  by (auto simp: valid_utf8_def utf8_chunks_ascii list_all_iff)

lemma nat_digits_chars: "list_all is_digit (nat_digits n)"
  by (simp add: list_all_iff set_nat_digits)

lemma hd_nat_digits_pos: "0 < n \<Longrightarrow> hd (nat_digits n) \<noteq> CHR ''0''"
proof (induction n rule: nat_digits.induct)
  case (1 n)
  show ?case
  proof (cases "n < 10")
    case True
    then have "byte (digit_char n) = 48 + n" by simp
    then have "digit_char n \<noteq> CHR ''0''" using 1 by (auto simp: byte_def)
    then show ?thesis using True by (simp add: nat_digits.simps [of n])
  next
    case False
    then show ?thesis using 1 by (simp add: nat_digits.simps [of n])
  qed
qed

lemma is_number_nat_digits:
  assumes "0 < n"
  shows "is_number (nat_digits n)"
proof -
  obtain c cs where c: "nat_digits n = c # cs" by (cases "nat_digits n") simp_all
  have d: "is_digit c" "list_all is_digit cs" using nat_digits_chars [of n] c by simp_all
  have "c \<noteq> CHR ''0''" "c \<noteq> CHR ''-''" using hd_nat_digits_pos [OF assms] hd_nat_digits [of n] c by simp_all
  moreover have "dropWhile is_digit cs = []" using d(2) by (simp add: list_all_iff)
  ultimately show ?thesis using d(1)
    by (simp add: c is_number_def digits_then_def fraction_ok_def del: dropWhile_eq_Nil_conv)
qed

lemma is_number_go_itoa: "is_number (go_itoa i)"
proof (cases "i = 0")
  case True
  then show ?thesis by (simp add: go_itoa_def) code_simp
next
  case False
  have "is_number (CHR ''-'' # nat_digits n)" if "0 < n" for n
  proof -
    obtain c cs where c: "nat_digits n = c # cs" by (cases "nat_digits n") simp_all
    then have "c \<noteq> CHR ''-''" using hd_nat_digits [of n] by simp
    then show ?thesis using is_number_nat_digits [OF that] by (simp add: c is_number_def)
  qed
  then show ?thesis using False by (auto simp: go_itoa_def intro: is_number_nat_digits)
qed

end
