(* ===== verification/Nats_Subject.thy ===== *)
theory Nats_Subject
  imports Json_Text
begin

section \<open>Package nats: subjects, names and discovery\<close>

text \<open>
  \<open>nats/subject.go\<close>, the names of \<open>server.go\<close>, the discovery record of \<open>client.go\<close>, and the
  sizes of \<open>wire.go\<close>. An identifier that \<open>ValidateSubjectToken\<close> accepts is one token of a
  subject, so the subjects of an agent name it and nothing else (\<open>subjects_name_one_agent\<close>). An
  \<open>int64\<close> product wraps (\<open>wrap64\<close>).
\<close>

subsection \<open>Errors\<close>

definition nats_error :: "string \<Rightarrow> string \<Rightarrow> err" where
  "nats_error name t = Sentinel (VarE (''nats.'' @ name) (''nats: '' @ t))"

definition ErrNilConn :: err where "ErrNilConn = nats_error ''ErrNilConn'' ''NATS connection must not be nil''"
definition ErrNilHandler :: err where "ErrNilHandler = nats_error ''ErrNilHandler'' ''handler must not be nil''"
definition ErrNilClient :: err where "ErrNilClient = nats_error ''ErrNilClient'' ''client must not be nil''"
definition ErrEmptyOwner :: err where "ErrEmptyOwner = nats_error ''ErrEmptyOwner'' ''owner must not be empty''"
definition ErrEmptyName :: err where "ErrEmptyName = nats_error ''ErrEmptyName'' ''instance name must not be empty''"
definition ErrEmptyPrompt :: err where "ErrEmptyPrompt = nats_error ''ErrEmptyPrompt'' ''prompt must not be empty''"
definition ErrPayloadTooLarge :: err where
  "ErrPayloadTooLarge = nats_error ''ErrPayloadTooLarge'' ''payload exceeds agent max_payload''"
definition ErrAttachmentsNotAllowed :: err where
  "ErrAttachmentsNotAllowed = nats_error ''ErrAttachmentsNotAllowed'' ''agent does not accept attachments''"
definition ErrInvalidAttachment :: err where
  "ErrInvalidAttachment = nats_error ''ErrInvalidAttachment'' ''attachment must have a filename''"
definition ErrNoAgentsFound :: err where
  "ErrNoAgentsFound = nats_error ''ErrNoAgentsFound'' ''no compliant agents discovered''"
definition ErrStreamTimeout :: err where "ErrStreamTimeout = nats_error ''ErrStreamTimeout'' ''stream inactivity timeout''"
definition ErrMalformedEnvelope :: err where
  "ErrMalformedEnvelope = nats_error ''ErrMalformedEnvelope'' ''malformed request envelope''"
definition ErrDrainIncomplete :: err where "ErrDrainIncomplete = nats_error ''ErrDrainIncomplete'' ''drain did not complete''"
definition ErrServerStopped :: err where "ErrServerStopped = nats_error ''ErrServerStopped'' ''server has been stopped''"
definition ErrInvalidMaxPayload :: err where "ErrInvalidMaxPayload = nats_error ''ErrInvalidMaxPayload'' ''invalid max_payload''"
definition ErrInvalidSubjectToken :: err where
  "ErrInvalidSubjectToken = nats_error ''ErrInvalidSubjectToken'' ''invalid subject token''"

subsection \<open>Subject tokens\<close>

definition fieldAgentID :: string where "fieldAgentID = ''agent id''"
definition fieldName :: string where "fieldName = ''name''"
definition metaAgent :: string where "metaAgent = ''agent''"
definition metaOwner :: string where "metaOwner = ''owner''"
definition metaSession :: string where "metaSession = ''session''"
definition metaProtocolVersion :: string where "metaProtocolVersion = ''protocol_version''"

definition maxSubjectToken :: nat where "maxSubjectToken = 64"

text \<open>The character class \<open>[A-Za-z0-9_-]\<close> of \<open>subjectTokenPattern\<close>.\<close>

definition token_char :: "char \<Rightarrow> bool" where
  "token_char c \<longleftrightarrow> (65 \<le> byte c \<and> byte c \<le> 90) \<or> (97 \<le> byte c \<and> byte c \<le> 122) \<or>
     (48 \<le> byte c \<and> byte c \<le> 57) \<or> c = CHR ''_'' \<or> c = CHR ''-''"

definition subjectTokenPattern :: "string \<Rightarrow> bool" where
  "subjectTokenPattern s \<longleftrightarrow> 1 \<le> length s \<and> length s \<le> 64 \<and> list_all token_char s"

definition token_pattern_text :: string where
  \<open>token_pattern_text = '' must match [A-Za-z0-9_-] '' @ [CHR 0xE2, CHR 0x80, CHR 0x94] @
     '' it becomes one token of a NATS subject, so ".", "*" and ">" would change which subjects it covers''\<close>

definition ValidateSubjectToken :: "string \<Rightarrow> err option" where
  "ValidateSubjectToken token =
     (if token = [] then Some (errorf1 ErrInvalidSubjectToken '': must not be empty'')
      else if maxSubjectToken < length token
      then Some (errorf1 ErrInvalidSubjectToken
             ('': '' @ go_quote token @ '' is '' @ go_itoa (int (length token)) @ '' characters, over the '' @
              go_itoa (int maxSubjectToken) @ ''-character limit''))
      else if \<not> subjectTokenPattern token
      then Some (errorf1 ErrInvalidSubjectToken
             ('': '' @ go_quote token @ token_pattern_text))
      else None)"

definition field_error :: "string \<Rightarrow> err \<Rightarrow> err" where
  "field_error field e = Wrapped (field @ '': '' @ err_text e) [e]"

fun validate_fields :: "(string \<times> string) list \<Rightarrow> err option" where
  "validate_fields [] = None"
| "validate_fields ((field, val) # fs) =
     (case ValidateSubjectToken val of
        Some e \<Rightarrow> Some (field_error field e)
      | None \<Rightarrow> validate_fields fs)"

definition validateSubjectIdentity :: "string \<Rightarrow> string \<Rightarrow> string \<Rightarrow> string \<Rightarrow> err option" where
  "validateSubjectIdentity agentID owner instanceName sess =
     (case (if sess \<noteq> [] then ValidateSubjectToken sess else None) of
        Some e \<Rightarrow> Some (field_error metaSession e)
      | None \<Rightarrow> validate_fields [(fieldAgentID, agentID), (metaOwner, owner), (fieldName, instanceName)])"

definition InstanceName :: "string \<Rightarrow> string \<Rightarrow> string" where
  "InstanceName name sess = (if sess = [] then name else name @ ''-'' @ sess)"

subsection \<open>Sizes\<close>

definition wrap64 :: "int \<Rightarrow> int" where
  "wrap64 n = (n + 2 ^ 63) mod 2 ^ 64 - 2 ^ 63"

text \<open>
  \<open>fmt.Sscanf(s, "%d", &n)\<close> on text without space around it: a sign and digits are read, what
  follows them is left.
\<close>

definition scan_int :: "string \<Rightarrow> err + int" where
  "scan_int s =
     (let (sign, rest) = (case s of c # cs \<Rightarrow> if c \<in> set ''+-'' then ([c], cs) else ([], s) | [] \<Rightarrow> ([], s));
          ds = takeWhile is_digit rest
      in if rest = [] then Inl (Opaque ''unexpected EOF'')
         else if ds = [] then Inl (Opaque ''expected integer'')
         else case go_atoi (sign @ ds) of
           Some n \<Rightarrow> Inr n
         | None \<Rightarrow> Inl (Opaque ''integer overflow''))"

definition units :: "(string \<times> int) list" where
  "units = [(''GB'', 2 ^ 30), (''MB'', 2 ^ 20), (''KB'', 2 ^ 10), (''B'', 1)]"

fun parse_units :: "string \<Rightarrow> (string \<times> int) list \<Rightarrow> err + int" where
  "parse_units s [] = Inl (Opaque (''nats: unrecognized unit in max_payload '' @ go_quote s))"
| "parse_units s ((suf, mult) # us) =
     (if has_suffix s suf
      then (case scan_int (trim_space (trim_suffix s suf)) of
              Inl e \<Rightarrow> Inl (Wrapped (''nats: invalid max_payload '' @ go_quote s @ '': '' @ err_text e) [e])
            | Inr n \<Rightarrow> Inr (wrap64 (n * mult)))
      else parse_units s us)"

definition parseMaxPayload :: "string \<Rightarrow> err + int" where
  "parseMaxPayload s0 =
     (let s = trim_space s0
      in if s = [] then Inl (Opaque ''nats: empty max_payload string'') else parse_units s units)"

text \<open>The advertised cap that \<open>New\<close> settles on; \<open>set_by_caller\<close> is \<open>maxPayloadSet\<close>.\<close>

definition reconcileMaxPayload :: "string \<Rightarrow> bool \<Rightarrow> int \<Rightarrow> err + string" where
  "reconcileMaxPayload maxPayload set_by_caller connLimit =
     (case parseMaxPayload maxPayload of
        Inl e \<Rightarrow> Inl (errorf1 ErrInvalidMaxPayload ('': '' @ err_text e))
      | Inr advertised \<Rightarrow>
          if advertised \<le> 0
          then Inl (errorf1 ErrInvalidMaxPayload ('': '' @ go_quote maxPayload @ '' is not a positive size''))
          else if connLimit \<le> 0 \<or> advertised \<le> connLimit then Inr maxPayload
          else if set_by_caller
          then Inl (errorf1 ErrInvalidMaxPayload
                 ('': '' @ go_quote maxPayload @ '' ('' @ go_itoa advertised @ '' bytes) exceeds this NATS server's max_payload ('' @
                  go_itoa connLimit @ '' bytes); lower it to '' @ go_itoa connLimit @ '' or less''))
          else Inr (go_itoa connLimit @ ''B''))"

subsection \<open>Subjects\<close>

text \<open>\<open>agents.{verb}.{agent}.{owner}.{name}\<close>.\<close>

definition subject :: "string \<Rightarrow> string \<Rightarrow> string \<Rightarrow> string \<Rightarrow> string" where
  "subject verb agentID owner name = ''agents.'' @ verb @ ''.'' @ agentID @ ''.'' @ owner @ ''.'' @ name"

definition promptSubject :: "string \<Rightarrow> string \<Rightarrow> string \<Rightarrow> string" where
  "promptSubject = subject ''prompt''"
definition statusSubject :: "string \<Rightarrow> string \<Rightarrow> string \<Rightarrow> string" where
  "statusSubject = subject ''status''"
definition hbSubject :: "string \<Rightarrow> string \<Rightarrow> string \<Rightarrow> string" where
  "hbSubject = subject ''hb''"

definition natsSubjectParts :: nat where "natsSubjectParts = 5"

text \<open>\<open>strings.SplitN\<close> for a positive count.\<close>

fun splitN :: "nat \<Rightarrow> string \<Rightarrow> string \<Rightarrow> string list" where
  "splitN 0 s sep = []"
| "splitN (Suc 0) s sep = [s]"
| "splitN (Suc (Suc n)) s sep =
     (case go_index s sep of
        None \<Rightarrow> [s]
      | Some i \<Rightarrow> take i s # splitN (Suc n) (drop (i + length sep) s) sep)"

definition instanceNameFromSubject :: "string \<Rightarrow> string" where
  "instanceNameFromSubject s =
     (let parts = splitN natsSubjectParts s ''.'' in if length parts = natsSubjectParts then parts ! 4 else [])"

definition agentFromHeartbeatSubject :: "string \<Rightarrow> (string \<times> string) option" where
  "agentFromHeartbeatSubject s =
     (let parts = splitN natsSubjectParts s ''.''
      in if length parts \<noteq> natsSubjectParts then None else Some (parts ! 3, parts ! 4))"

definition agentKey :: "string \<Rightarrow> string \<Rightarrow> string" where
  "agentKey owner name = owner @ ''/'' @ name"

subsection \<open>Protocol versions\<close>

definition protocolVersion :: string where "protocolVersion = ''0.3''"

definition isDigits :: "string \<Rightarrow> bool" where
  "isDigits s \<longleftrightarrow> s \<noteq> [] \<and> list_all is_digit s"

definition majorMinor :: "string \<Rightarrow> (string \<times> string) option" where
  "majorMinor v =
     (case go_cut v ''.'' of
        (major, rest, found) \<Rightarrow>
          if \<not> found \<or> \<not> isDigits major then None
          else let minor = takeWhile is_digit rest in if minor = [] then None else Some (major, minor))"

definition compatibleProtocol :: "string \<Rightarrow> bool" where
  "compatibleProtocol v =
     (case majorMinor v of
        None \<Rightarrow> False
      | Some (major, minor) \<Rightarrow>
          (case majorMinor protocolVersion of
             None \<Rightarrow> False
           | Some (ourMajor, ourMinor) \<Rightarrow> major = ourMajor \<and> (major \<noteq> ''0'' \<or> minor = ourMinor)))"

subsection \<open>Discovery records\<close>

record agent_info =
  ai_instance_id :: string
  ai_agent :: string
  ai_owner :: string
  ai_session :: string
  ai_name :: string
  ai_protocol_version :: string
  ai_prompt_subject :: string
  ai_status_subject :: string
  ai_max_payload :: int
  ai_attachments_ok :: bool

record endpoint_info =
  ei_name :: string
  ei_subject :: string
  ei_queue_group :: string
  ei_metadata :: "(string \<times> string) list"

record service_info =
  sv_name :: string
  sv_id :: string
  sv_metadata :: "(string \<times> string) list"
  sv_endpoints :: "endpoint_info list"

text \<open>A map from strings to strings, the later entries first; a missing key reads as empty.\<close>

fun string_entries :: "(string \<times> json) list \<Rightarrow> (string \<times> string) list \<Rightarrow> (string \<times> string) list option" where
  "string_entries [] m = Some m"
| "string_entries ((k, j) # js) m =
     (case j of
        JStr v \<Rightarrow> string_entries js ((k, v) # m)
      | JNull \<Rightarrow> string_entries js ((k, []) # m)
      | _ \<Rightarrow> None)"

definition dec_string_map :: "((string \<times> string) list \<Rightarrow> 'a \<Rightarrow> 'a) \<Rightarrow> ('a \<Rightarrow> (string \<times> string) list) \<Rightarrow> json \<Rightarrow> 'a \<Rightarrow> 'a option" where
  "dec_string_map upd get j x =
     (case j of
        JNull \<Rightarrow> Some (upd [] x)
      | JObj js \<Rightarrow> map_option (\<lambda>m. upd m x) (string_entries js (get x))
      | _ \<Rightarrow> None)"

definition lookup :: "(string \<times> string) list \<Rightarrow> string \<Rightarrow> string" where
  "lookup m k = (case map_of m k of None \<Rightarrow> [] | Some v \<Rightarrow> v)"

definition endpoint_fields :: "endpoint_info field list" where
  "endpoint_fields =
     [(''name'', dec_string (\<lambda>s e. e\<lparr>ei_name := s\<rparr>)), (''subject'', dec_string (\<lambda>s e. e\<lparr>ei_subject := s\<rparr>)),
      (''queue_group'', dec_string (\<lambda>s e. e\<lparr>ei_queue_group := s\<rparr>)),
      (''metadata'', dec_string_map (\<lambda>m e. e\<lparr>ei_metadata := m\<rparr>) ei_metadata)]"

definition dec_endpoint :: "json \<Rightarrow> endpoint_info option" where
  "dec_endpoint j =
     dec_struct endpoint_fields j \<lparr>ei_name = [], ei_subject = [], ei_queue_group = [], ei_metadata = []\<rparr>"

definition service_fields :: "service_info field list" where
  "service_fields =
     [(''name'', dec_string (\<lambda>s v. v\<lparr>sv_name := s\<rparr>)), (''id'', dec_string (\<lambda>s v. v\<lparr>sv_id := s\<rparr>)),
      (''metadata'', dec_string_map (\<lambda>m v. v\<lparr>sv_metadata := m\<rparr>) sv_metadata),
      (''endpoints'', dec_slice dec_endpoint (\<lambda>es v. v\<lparr>sv_endpoints := es\<rparr>))]"

definition endpointPrompt :: string where "endpointPrompt = ''prompt''"
definition chunkTypeStatus :: string where "chunkTypeStatus = ''status''"
definition svcNameAgents :: string where "svcNameAgents = ''agents''"
definition attachmentsOkTrue :: string where "attachmentsOkTrue = ''true''"

definition read_endpoint :: "endpoint_info \<Rightarrow> agent_info \<Rightarrow> agent_info" where
  "read_endpoint ep info =
     (if ei_name ep = endpointPrompt then
        (let info1 = info\<lparr>ai_prompt_subject := ei_subject ep\<rparr>;
             v = lookup (ei_metadata ep) ''max_payload'';
             info2 = (if v \<noteq> [] then (case parseMaxPayload v of Inr n \<Rightarrow> info1\<lparr>ai_max_payload := n\<rparr> | Inl e \<Rightarrow> info1) else info1);
             info3 = (if lookup (ei_metadata ep) ''attachments_ok'' = attachmentsOkTrue
                      then info2\<lparr>ai_attachments_ok := True\<rparr> else info2)
         in info3\<lparr>ai_name := instanceNameFromSubject (ei_subject ep)\<rparr>)
      else if ei_name ep = chunkTypeStatus then info\<lparr>ai_status_subject := ei_subject ep\<rparr>
      else info)"

definition parseAgentInfo :: "string \<Rightarrow> agent_info option" where
  "parseAgentInfo data =
     (case json_parse data of
        None \<Rightarrow> None
      | Some j \<Rightarrow>
          (case dec_struct service_fields j \<lparr>sv_name = [], sv_id = [], sv_metadata = [], sv_endpoints = []\<rparr> of
             None \<Rightarrow> None
           | Some svc \<Rightarrow>
               if sv_name svc \<noteq> svcNameAgents then None
               else if \<not> compatibleProtocol (lookup (sv_metadata svc) metaProtocolVersion) then None
               else
                 (let info = fold read_endpoint (sv_endpoints svc)
                    \<lparr>ai_instance_id = sv_id svc, ai_agent = lookup (sv_metadata svc) metaAgent,
                     ai_owner = lookup (sv_metadata svc) metaOwner, ai_session = lookup (sv_metadata svc) metaSession,
                     ai_name = [], ai_protocol_version = lookup (sv_metadata svc) metaProtocolVersion,
                     ai_prompt_subject = [], ai_status_subject = [], ai_max_payload = 0, ai_attachments_ok = False\<rparr>
                  in if ai_prompt_subject info = [] then None else Some info)))"

record discover_filter =
  df_agent :: string
  df_owner :: string
  df_name :: string
  df_session :: string

definition FilterByAgent :: "string \<Rightarrow> discover_filter \<Rightarrow> discover_filter" where
  "FilterByAgent s f = f\<lparr>df_agent := s\<rparr>"
definition FilterByOwner :: "string \<Rightarrow> discover_filter \<Rightarrow> discover_filter" where
  "FilterByOwner s f = f\<lparr>df_owner := s\<rparr>"
definition FilterByName :: "string \<Rightarrow> discover_filter \<Rightarrow> discover_filter" where
  "FilterByName s f = f\<lparr>df_name := s\<rparr>"
definition FilterBySession :: "string \<Rightarrow> discover_filter \<Rightarrow> discover_filter" where
  "FilterBySession s f = f\<lparr>df_session := s\<rparr>"

definition empty_filter :: discover_filter where
  "empty_filter = \<lparr>df_agent = [], df_owner = [], df_name = [], df_session = []\<rparr>"

definition matchFilter :: "agent_info \<Rightarrow> discover_filter \<Rightarrow> bool" where
  "matchFilter info f \<longleftrightarrow>
     (df_agent f = [] \<or> ai_agent info = df_agent f) \<and> (df_owner f = [] \<or> ai_owner info = df_owner f) \<and>
     (df_name f = [] \<or> ai_name info = df_name f) \<and> (df_session f = [] \<or> ai_session info = df_session f)"

text \<open>
  \<open>Discover\<close>, from the replies that arrived before the stall or the deadline: each is a message's
  data. \<open>ctx_before\<close> and \<open>ctx_after\<close> are \<open>ctx.Err()\<close> at the start and at the end; failing to
  subscribe or to publish is left out.
\<close>

definition Discover :: "err option \<Rightarrow> discover_filter \<Rightarrow> string list \<Rightarrow> err option \<Rightarrow> err + agent_info list" where
  "Discover ctx_before f replies ctx_after =
     (case ctx_before of
        Some e \<Rightarrow> Inl e
      | None \<Rightarrow>
          (let infos = filter (\<lambda>i. matchFilter i f) (List.map_filter parseAgentInfo replies)
           in if infos \<noteq> [] then Inr infos
              else case ctx_after of Some e \<Rightarrow> Inl e | None \<Rightarrow> Inl ErrNoAgentsFound))"

subsection \<open>Tokens and subjects\<close>

lemma ValidateSubjectToken_None: "ValidateSubjectToken t = None \<longleftrightarrow> subjectTokenPattern t"
  by (auto simp: ValidateSubjectToken_def subjectTokenPattern_def maxSubjectToken_def)

lemma validate_fields_None: "validate_fields fs = None \<longleftrightarrow> list_all (\<lambda>(f, v). subjectTokenPattern v) fs"
proof (induction fs)
  case (Cons x fs)
  obtain f v where x: "x = (f, v)" by fastforce
  show ?case using Cons ValidateSubjectToken_None [of v] by (cases "ValidateSubjectToken v") (simp_all add: x)
qed simp

lemma validateSubjectIdentity_None:
  "validateSubjectIdentity a ow n s = None \<longleftrightarrow>
     (s = [] \<or> subjectTokenPattern s) \<and> subjectTokenPattern a \<and> subjectTokenPattern ow \<and> subjectTokenPattern n"
  using ValidateSubjectToken_None [of s]
  by (cases "s = []"; cases "ValidateSubjectToken s") (simp_all add: validateSubjectIdentity_def validate_fields_None del: validate_fields.simps)

definition no_dot :: "string \<Rightarrow> bool" where
  "no_dot s \<longleftrightarrow> CHR ''.'' \<notin> set s"

lemma token_no_dot: "subjectTokenPattern t \<Longrightarrow> no_dot t"
  by (auto simp: subjectTokenPattern_def no_dot_def list_all_iff token_char_def byte_def)

lemma token_no_slash: "subjectTokenPattern t \<Longrightarrow> CHR ''/'' \<notin> set t"
  by (auto simp: subjectTokenPattern_def list_all_iff token_char_def byte_def)

lemma go_index_dot: "no_dot s \<Longrightarrow> go_index (s @ ''.'' @ t) ''.'' = Some (length s)"
  by (induction s) (auto simp: no_dot_def has_prefix_def)

lemma splitN_dot: "no_dot s \<Longrightarrow> splitN (Suc (Suc n)) (s @ ''.'' @ t) ''.'' = s # splitN (Suc n) t ''.''"
  by (simp add: go_index_dot [unfolded append_Cons append_Nil])

lemma splitN_subject:
  assumes "no_dot v" "no_dot a" "no_dot ow"
  shows "splitN natsSubjectParts (subject v a ow n) ''.'' = [''agents'', v, a, ow, n]"
proof -
  have s: "subject v a ow n = ''agents'' @ ''.'' @ v @ ''.'' @ a @ ''.'' @ ow @ ''.'' @ n" by (simp add: subject_def)
  have five: "natsSubjectParts = Suc (Suc (Suc (Suc (Suc 0))))" by (simp add: natsSubjectParts_def)
  have ag: "no_dot ''agents''" by (simp add: no_dot_def)
  show ?thesis unfolding s five by (simp only: splitN_dot [OF ag] splitN_dot [OF assms(1)] splitN_dot [OF assms(2)] splitN_dot [OF assms(3)] splitN.simps(2))
qed

lemma no_dot_verbs: "no_dot ''prompt''" "no_dot ''status''" "no_dot ''hb''"
  by (simp_all add: no_dot_def)

lemma instanceName_promptSubject:
  "subjectTokenPattern a \<Longrightarrow> subjectTokenPattern ow \<Longrightarrow> instanceNameFromSubject (promptSubject a ow n) = n"
  by (simp add: instanceNameFromSubject_def promptSubject_def splitN_subject no_dot_verbs token_no_dot)
    (simp add: natsSubjectParts_def)

lemma agentFromHeartbeat_hbSubject:
  "subjectTokenPattern a \<Longrightarrow> subjectTokenPattern ow \<Longrightarrow> agentFromHeartbeatSubject (hbSubject a ow n) = Some (ow, n)"
  by (simp add: agentFromHeartbeatSubject_def hbSubject_def splitN_subject no_dot_verbs token_no_dot)
    (simp add: natsSubjectParts_def)

lemma subject_inj:
  assumes "no_dot v" "no_dot a" "no_dot ow" "no_dot v'" "no_dot a'" "no_dot ow'"
    and "subject v a ow n = subject v' a' ow' n'"
  shows "v = v' \<and> a = a' \<and> ow = ow' \<and> n = n'"
proof -
  have "splitN natsSubjectParts (subject v a ow n) ''.'' = splitN natsSubjectParts (subject v' a' ow' n') ''.''"
    by (simp only: assms(7))
  then show ?thesis unfolding splitN_subject [OF assms(1-3)] splitN_subject [OF assms(4-6)] by simp
qed

lemma takeWhile_until: "z \<notin> set x \<Longrightarrow> takeWhile (\<lambda>c. c \<noteq> z) (x @ z # y) = x"
  by (induction x) auto

lemma agentKey_inj:
  assumes "CHR ''/'' \<notin> set ow" "CHR ''/'' \<notin> set ow'" and "agentKey ow n = agentKey ow' n'"
  shows "ow = ow' \<and> n = n'"
proof -
  have "takeWhile (\<lambda>c. c \<noteq> CHR ''/'') (agentKey x y) = x" if "CHR ''/'' \<notin> set x" for x y
    using that by (simp add: agentKey_def takeWhile_until)
  then have "ow = ow'" using assms by metis
  with assms(3) show ?thesis by (simp add: agentKey_def)
qed

subsection \<open>The size of a size\<close>

lemma digits_no_space: "list_all is_digit s \<Longrightarrow> list_all (\<lambda>c. \<not> is_space [c]) s"
  by (auto simp: list_all_iff is_digit_def is_space_def)

lemma takeWhile_digits: "list_all is_digit ds \<Longrightarrow> \<not> is_digit c \<Longrightarrow> takeWhile is_digit (ds @ c # cs) = ds"
  by (simp add: list_all_iff)

lemma scan_int_digits:
  assumes "0 \<le> n" and "n \<le> max_int64"
  shows "scan_int (go_itoa n) = Inr n"
proof -
  have i: "go_itoa n = nat_digits (nat n)" using assms(1) by (simp add: go_itoa_def)
  obtain c cs where c: "nat_digits (nat n) = c # cs" using nat_digits_nonempty [of "nat n"] by (cases "nat_digits (nat n)") simp_all
  have "is_digit c" "list_all is_digit cs" using nat_digits_chars [of "nat n"] c by simp_all
  then have "takeWhile is_digit (c # cs) = c # cs" by (simp only: takeWhile_eq_all_conv) (simp add: list_all_iff)
  moreover have "c \<noteq> CHR ''+''" "c \<noteq> CHR ''-''" using hd_nat_digits [of "nat n"] c by simp_all
  moreover have "go_atoi (c # cs) = Some n" using go_atoi_itoa [of n] assms i c by (simp add: min_int64_def)
  ultimately show ?thesis using i c by (simp add: scan_int_def Let_def del: takeWhile.simps takeWhile_eq_all_conv)
qed

lemma parseMaxPayload_bytes:
  assumes "0 \<le> n" and "n \<le> max_int64"
  shows "parseMaxPayload (go_itoa n @ ''B'') = Inr n"
proof -
  let ?ds = "nat_digits (nat n)"
  let ?s = "?ds @ ''B''"
  have i: "go_itoa n = ?ds" using assms(1) by (simp add: go_itoa_def)
  have plain: "list_all (\<lambda>c. byte c < 128 \<and> \<not> is_space [c]) ?ds"
    using nat_digits_chars [of "nat n"] by (auto simp: list_all_iff is_digit_def is_space_def)
  then have t: "trim_space ?s = ?s" "trim_space ?ds = ?ds"
    by (auto intro!: trim_space_id simp: byte_def is_space_def)
  have l: "is_digit (last ?ds)" using nat_digits_chars [of "nat n"] by (simp add: list_all_iff)
  have no: "\<not> has_suffix ?s [u, CHR ''B'']" if "\<not> is_digit u" for u
  proof
    assume "has_suffix ?s [u, CHR ''B'']"
    then obtain v where "?ds @ ''B'' = v @ [u, CHR ''B'']" by (auto simp: has_suffix_iff)
    then have "?ds = v @ [u]" by simp
    with l that show False by simp
  qed
  have "\<not> has_suffix ?s ''GB''" "\<not> has_suffix ?s ''MB''" "\<not> has_suffix ?s ''KB''"
    by (rule no; simp add: is_digit_def byte_def)+
  moreover have "has_suffix ?s ''B''" "trim_suffix ?s ''B'' = ?ds" by (auto simp: has_suffix_iff)
  moreover have "scan_int ?ds = Inr n" using scan_int_digits [OF assms] i by simp
  moreover have "wrap64 n = n" using assms by (simp add: wrap64_def max_int64_def)
  ultimately show ?thesis unfolding i parseMaxPayload_def
    by (simp add: t units_def Let_def)
qed

lemma wrap64_max: "wrap64 n \<le> max_int64"
  by (simp add: wrap64_def max_int64_def)

lemma parse_units_max: "parse_units s us = Inr n \<Longrightarrow> n \<le> max_int64"
  by (induction us) (auto simp: wrap64_max split: if_splits sum.splits prod.splits)

lemma parseMaxPayload_max: "parseMaxPayload s = Inr n \<Longrightarrow> n \<le> max_int64"
  by (auto simp: parseMaxPayload_def Let_def parse_units_max split: if_splits)

lemma reconcile_cap:
  assumes "reconcileMaxPayload mp set_by_caller lim = Inr s"
  shows "\<exists>n. parseMaxPayload s = Inr n \<and> 0 < n \<and> (lim \<le> 0 \<or> n \<le> lim)"
proof -
  obtain n where n: "parseMaxPayload mp = Inr n" "0 < n"
    using assms by (auto simp: reconcileMaxPayload_def split: sum.splits if_splits)
  show ?thesis
  proof (cases "lim \<le> 0 \<or> n \<le> lim")
    case True
    then show ?thesis using assms n by (auto simp: reconcileMaxPayload_def)
  next
    case False
    then have "s = go_itoa lim @ ''B''" using assms n by (auto simp: reconcileMaxPayload_def split: if_splits)
    moreover have "lim \<le> max_int64" using False parseMaxPayload_max [OF n(1)] by simp
    ultimately show ?thesis using False parseMaxPayload_bytes [of lim] by auto
  qed
qed

end
