(* ===== verification/Nats_Wire.thy ===== *)
theory Nats_Wire
  imports Nats_Subject Complex_Main
begin

section \<open>Package nats: envelopes, chunks and service errors\<close>

text \<open>
  \<open>nats/wire.go\<close>, \<open>message.go\<close> and \<open>request.go\<close>, and the error bodies of \<open>errormap.go\<close>. A NATS
  message is its headers and its data (\<open>wire_msg\<close>); \<open>Header.Get\<close> is \<open>header_get\<close>. The texts of JSON
  and base64 errors are left out. A number read as \<open>float64\<close> is the rational it denotes.
\<close>

subsection \<open>Messages\<close>

record wire_msg =
  wm_header :: "(string \<times> string list) list"
  wm_data :: string

definition header_get :: "(string \<times> string list) list \<Rightarrow> string \<Rightarrow> string" where
  "header_get h k = (case map_of h k of Some (v # vs) \<Rightarrow> v | _ \<Rightarrow> [])"

definition errorCodeHeader :: string where "errorCodeHeader = ''Nats-Service-Error-Code''"
definition errorHeader :: string where "errorHeader = ''Nats-Service-Error''"

definition isTerminator :: "wire_msg \<Rightarrow> bool" where
  "isTerminator m \<longleftrightarrow> wm_data m = [] \<and> wm_header m = []"

definition isServiceError :: "wire_msg \<Rightarrow> bool" where
  "isServiceError m \<longleftrightarrow> header_get (wm_header m) errorCodeHeader \<noteq> []"

subsection \<open>Base64\<close>

text \<open>\<open>base64.StdEncoding\<close>: decoding skips line breaks and needs the padding.\<close>

definition b64_char :: "nat \<Rightarrow> char" where
  "b64_char n =
     (if n < 26 then char_of (65 + n) else if n < 52 then char_of (71 + n) else if n < 62 then char_of (n - 4)
      else if n = 62 then CHR ''+'' else CHR ''/'')"

definition b64_val :: "char \<Rightarrow> nat option" where
  "b64_val c =
     (let b = byte c in
      if 65 \<le> b \<and> b \<le> 90 then Some (b - 65)
      else if 97 \<le> b \<and> b \<le> 122 then Some (b - 71)
      else if 48 \<le> b \<and> b \<le> 57 then Some (b + 4)
      else if c = CHR ''+'' then Some 62
      else if c = CHR ''/'' then Some 63
      else None)"

fun b64_encode :: "string \<Rightarrow> string" where
  "b64_encode [] = []"
| "b64_encode [a] =
     (let n = byte a * 16 in [b64_char (n div 64), b64_char (n mod 64), CHR ''='', CHR ''=''])"
| "b64_encode [a, b] =
     (let n = (byte a * 256 + byte b) * 4
      in [b64_char (n div 4096), b64_char (n div 64 mod 64), b64_char (n mod 64), CHR ''=''])"
| "b64_encode (a # b # c # cs) =
     (let n = byte a * 65536 + byte b * 256 + byte c
      in [b64_char (n div 262144), b64_char (n div 4096 mod 64), b64_char (n div 64 mod 64), b64_char (n mod 64)] @
         b64_encode cs)"

fun b64_groups :: "string \<Rightarrow> string option" where
  "b64_groups [] = Some []"
| "b64_groups (a # b # c # d # rest) =
     (case (b64_val a, b64_val b) of
        (Some w, Some x) \<Rightarrow>
          if c = CHR ''='' then
            (if d = CHR ''='' \<and> rest = [] then Some [char_of ((w * 64 + x) div 16)] else None)
          else (case b64_val c of
            None \<Rightarrow> None
          | Some y \<Rightarrow>
              if d = CHR ''='' then
                (if rest = [] then Some [char_of ((w * 4096 + x * 64 + y) div 1024),
                                         char_of ((w * 4096 + x * 64 + y) div 4 mod 256)] else None)
              else (case b64_val d of
                None \<Rightarrow> None
              | Some z \<Rightarrow>
                  (let n = w * 262144 + x * 4096 + y * 64 + z in
                   map_option (\<lambda>t. [char_of (n div 65536), char_of (n div 256 mod 256), char_of (n mod 256)] @ t)
                     (b64_groups rest))))
      | _ \<Rightarrow> None)"
| "b64_groups s = None"

definition b64_decode :: "string \<Rightarrow> string option" where
  "b64_decode s = b64_groups (filter (\<lambda>c. c \<noteq> CHR 0x0A \<and> c \<noteq> CHR 0x0D) s)"

subsection \<open>Envelopes and requests\<close>

record attachment =
  at_filename :: string
  at_content :: string

record envelope =
  en_prompt :: string
  en_attachments :: "attachment list"

record prompt_request =
  rq_prompt :: string
  rq_attachments :: "attachment list"
  rq_header :: "(string \<times> string list) list"

definition enc_attachment :: "attachment \<Rightarrow> json" where
  "enc_attachment a = JObj [(''filename'', JStr (at_filename a)), (''content'', JStr (at_content a))]"

definition enc_envelope :: "envelope \<Rightarrow> json" where
  "enc_envelope e = JObj
     ([(''prompt'', JStr (en_prompt e))] @
      omitempty (en_attachments e = []) ''attachments'' (JArr (map enc_attachment (en_attachments e))))"

definition attachment_fields :: "attachment field list" where
  "attachment_fields =
     [(''filename'', dec_string (\<lambda>s a. a\<lparr>at_filename := s\<rparr>)), (''content'', dec_string (\<lambda>s a. a\<lparr>at_content := s\<rparr>))]"

definition dec_attachment :: "json \<Rightarrow> attachment option" where
  "dec_attachment j = dec_struct attachment_fields j \<lparr>at_filename = [], at_content = []\<rparr>"

definition envelope_fields :: "envelope field list" where
  "envelope_fields =
     [(''prompt'', dec_string (\<lambda>s e. e\<lparr>en_prompt := s\<rparr>)),
      (''attachments'', dec_slice dec_attachment (\<lambda>as e. e\<lparr>en_attachments := as\<rparr>))]"

definition malformed :: "string \<Rightarrow> err" where
  "malformed t = errorf1 ErrMalformedEnvelope ('': '' @ t)"

definition decodeEnvelope :: "string \<Rightarrow> err + envelope" where
  "decodeEnvelope data =
     (if data = [] then Inl (malformed ''zero-byte payload'')
      else case dropWhile (\<lambda>c. c \<in> {CHR '' '', CHR 0x09, CHR 0x0A, CHR 0x0D}) data of
        [] \<Rightarrow> Inl (malformed ''whitespace-only payload'')
      | c # cs \<Rightarrow>
          if c = CHR ''{'' then
            (case json_parse (c # cs) of
               None \<Rightarrow> Inl (malformed ''JSON parse error'')
             | Some j \<Rightarrow>
                 (case dec_struct envelope_fields j \<lparr>en_prompt = [], en_attachments = []\<rparr> of
                    None \<Rightarrow> Inl (malformed ''JSON parse error'')
                  | Some env \<Rightarrow>
                      if en_prompt env = [] then Inl (malformed ''missing or empty prompt field'') else Inr env))
          else Inr \<lparr>en_prompt = data, en_attachments = []\<rparr>)"

text \<open>\<open>Request.envelope\<close> and \<open>requestFromEnvelope\<close>.\<close>

definition request_envelope :: "prompt_request \<Rightarrow> envelope" where
  "request_envelope r =
     \<lparr>en_prompt = rq_prompt r,
      en_attachments = map (\<lambda>a. \<lparr>at_filename = at_filename a, at_content = b64_encode (at_content a)\<rparr>) (rq_attachments r)\<rparr>"

definition bad_base64 :: "attachment \<Rightarrow> err" where
  "bad_base64 a = malformed (''attachment '' @ go_quote (at_filename a) @ '': invalid base64'')"

fun decode_attachments :: "attachment list \<Rightarrow> err + attachment list" where
  "decode_attachments [] = Inr []"
| "decode_attachments (a # as) =
     (case b64_decode (at_content a) of
        None \<Rightarrow> Inl (bad_base64 a)
      | Some content \<Rightarrow>
          (case decode_attachments as of
             Inl e \<Rightarrow> Inl e
           | Inr bs \<Rightarrow> Inr (\<lparr>at_filename = at_filename a, at_content = content\<rparr> # bs)))"

definition requestFromEnvelope :: "envelope \<Rightarrow> (string \<times> string list) list \<Rightarrow> err + prompt_request" where
  "requestFromEnvelope env header =
     (case decode_attachments (en_attachments env) of
        Inl e \<Rightarrow> Inl e
      | Inr as \<Rightarrow> Inr \<lparr>rq_prompt = en_prompt env, rq_attachments = as, rq_header = header\<rparr>)"

definition mimeJPEG :: string where "mimeJPEG = ''image/jpeg''"

definition imageExtensions :: "(string \<times> string) list" where
  "imageExtensions =
     [(''.png'', ''image/png''), (''.jpg'', mimeJPEG), (''.jpeg'', mimeJPEG), (''.gif'', ''image/gif''), (''.webp'', ''image/webp'')]"

text \<open>
  \<open>strings.ToLower(filepath.Ext(s))\<close>: what matters is when it is one of the extensions, so of the
  characters that are not ASCII only U+0130 counts, which is lowered to i.
\<close>

definition file_ext :: "string \<Rightarrow> string" where
  "file_ext s =
     (let r = rev (takeWhile (\<lambda>c. c \<noteq> CHR ''/'') (rev s)); e = rev (takeWhile (\<lambda>c. c \<noteq> CHR ''.'') (rev r))
      in if CHR ''.'' \<in> set r then CHR ''.'' # e else [])"

definition lower_rune :: "string \<Rightarrow> string" where
  "lower_rune ch = (if ch = [CHR 0xC4, CHR 0xB0] then ''i'' else map ascii_lower ch)"

definition lower_ext :: "string \<Rightarrow> string" where
  "lower_ext s = concat (map lower_rune (utf8_chunks (file_ext s)))"

fun attachment_parts :: "attachment list \<Rightarrow> err + content_part list" where
  "attachment_parts [] = Inr []"
| "attachment_parts (a # as) =
     (case b64_decode (at_content a) of
        None \<Rightarrow> Inl (bad_base64 a)
      | Some content \<Rightarrow>
          (let p = (case map_of imageExtensions (lower_ext (at_filename a)) of
                      Some mime \<Rightarrow> ImageBase64 mime (at_content a)
                    | None \<Rightarrow> Text (''[attachment: '' @ at_filename a @ '']''))
           in case attachment_parts as of Inl e \<Rightarrow> Inl e | Inr ps \<Rightarrow> Inr (p # ps)))"

definition envelopeToContentParts :: "envelope \<Rightarrow> err + content_part list" where
  "envelopeToContentParts env =
     (case attachment_parts (en_attachments env) of
        Inl e \<Rightarrow> Inl e
      | Inr ps \<Rightarrow> Inr (Text (en_prompt env) # ps))"

subsection \<open>Chunks\<close>

definition chunkTypeResponse :: string where "chunkTypeResponse = ''response''"
definition chunkTypeQuery :: string where "chunkTypeQuery = ''query''"

definition encode_chunk :: "string \<Rightarrow> string \<Rightarrow> string" where
  "encode_chunk typ data = json_print (JObj [(''type'', JStr typ), (''data'', JStr data)])"

definition encodeResponseChunk :: "string \<Rightarrow> string" where
  "encodeResponseChunk t = encode_chunk chunkTypeResponse t"

definition encodeStatusChunk :: "string \<Rightarrow> string" where
  "encodeStatusChunk s = encode_chunk chunkTypeStatus s"

fun boundary_loop :: "nat \<Rightarrow> string \<Rightarrow> nat \<Rightarrow> nat" where
  "boundary_loop 0 t n = n"
| "boundary_loop (Suc back) t n =
     (if 0 < n \<and> \<not> rune_start (t ! n) then boundary_loop back t (n - 1) else n)"

definition runeBoundary :: "string \<Rightarrow> nat \<Rightarrow> nat" where
  "runeBoundary t n = (if n = 0 \<or> length t \<le> n then n else boundary_loop 3 t n)"

lemma boundary_loop_le: "boundary_loop k t n \<le> n"
  by (induction k t n rule: boundary_loop.induct) auto

lemma runeBoundary_le: "runeBoundary t n \<le> n"
  by (simp add: runeBoundary_def boundary_loop_le)

text \<open>The size of an empty chunk.\<close>

definition overhead :: nat where "overhead = length (encodeResponseChunk [])"

text \<open>The inner loop: a piece of the text that fits, and its chunk.\<close>

function fit_loop :: "nat \<Rightarrow> string \<Rightarrow> nat \<Rightarrow> (nat \<times> string) option" where
  "fit_loop limit t n0 =
     (let n = runeBoundary t n0 in
      if n = 0 then None
      else
        (let b = encodeResponseChunk (take n t) in
         if length b \<le> limit then Some (n, b)
         else
           (let next = (if overhead < limit then n * (limit - overhead) div (length b - overhead) else 0)
            in fit_loop limit t (min next (n - 1)))))"
  by pat_completeness auto
termination
proof (relation "measure (\<lambda>(limit, t, n0). n0)")
  fix limit :: nat and t :: string and n0 n b next'
  assume "n = runeBoundary t n0" "n \<noteq> 0"
  then show "((limit, t, min next' (n - 1)), (limit, t, n0)) \<in> measure (\<lambda>(limit, t, n0). n0)"
    using runeBoundary_le [of t n0] by simp
qed simp

declare fit_loop.simps [simp del]

lemma fit_loop_Some:
  "fit_loop limit t n0 = Some (n, b) \<Longrightarrow>
     0 < n \<and> n \<le> n0 \<and> b = encodeResponseChunk (take n t) \<and> length b \<le> limit \<and> (\<exists>k. n = runeBoundary t k)"
proof (induction limit t n0 rule: fit_loop.induct)
  case (1 limit t n0)
  let ?n = "runeBoundary t n0" and ?b = "encodeResponseChunk (take (runeBoundary t n0) t)"
  have le: "?n \<le> n0" by (rule runeBoundary_le)
  have n: "?n \<noteq> 0"
  proof
    assume "?n = 0"
    then have "fit_loop limit t n0 = None" by (simp add: fit_loop.simps [of limit t n0] Let_def)
    then show False using "1.prems" by simp
  qed
  show ?case
  proof (cases "length ?b \<le> limit")
    case True
    then show ?thesis using "1.prems" n le by (auto simp: fit_loop.simps [of limit t n0] Let_def)
  next
    case False
    have "fit_loop limit t (min (if overhead < limit then ?n * (limit - overhead) div (length ?b - overhead) else 0) (?n - 1)) = Some (n, b)"
      using "1.prems" n False by (simp add: fit_loop.simps [of limit t n0] Let_def split del: if_split)
    note IH = "1.IH" [OF refl n refl False refl this]
    have "n \<le> ?n - 1" using IH by simp
    then have "n \<le> n0" using le by linarith
    then show ?thesis using IH by blast
  qed
qed

function split_chunks :: "nat \<Rightarrow> string \<Rightarrow> string list option" where
  "split_chunks limit t =
     (if t = [] then Some []
      else case fit_loop limit t (min (length t) limit) of
        None \<Rightarrow> None
      | Some (n, b) \<Rightarrow> map_option ((#) b) (split_chunks limit (drop n t)))"
  by pat_completeness auto
termination
  by (relation "measure (\<lambda>(limit, t). length t)") (auto dest!: fit_loop_Some intro: diff_less)

declare split_chunks.simps [simp del]

definition encodeResponseChunks :: "string \<Rightarrow> nat \<Rightarrow> string list option" where
  "encodeResponseChunks t limit =
     (let b = encodeResponseChunk t in if length b \<le> limit then Some [b] else split_chunks limit t)"

text \<open>Reading chunks: \<open>data\<close> is left undecoded.\<close>

record raw_chunk =
  rc_type :: string
  rc_data :: "json option"

definition chunk_fields :: "raw_chunk field list" where
  "chunk_fields =
     [(''type'', dec_string (\<lambda>s c. c\<lparr>rc_type := s\<rparr>)), (''data'', \<lambda>j c. Some (c\<lparr>rc_data := Some j\<rparr>))]"

definition decode_chunk :: "string \<Rightarrow> raw_chunk option" where
  "decode_chunk data =
     (case json_parse data of
        None \<Rightarrow> None
      | Some j \<Rightarrow> dec_struct chunk_fields j \<lparr>rc_type = [], rc_data = None\<rparr>)"

definition decodeResponseText :: "json option \<Rightarrow> string" where
  "decodeResponseText data =
     (case data of
        None \<Rightarrow> []
      | Some j \<Rightarrow>
          (case dec_string (\<lambda>s _. s) j [] of
             Some t \<Rightarrow> t
           | None \<Rightarrow>
               (case dec_struct [(''text'', dec_string (\<lambda>s _. s))] j [] of
                  Some t \<Rightarrow> t
                | None \<Rightarrow> [])))"

text \<open>A struct read leniently: a member of another type is skipped.\<close>

fun read_members :: "'a field list \<Rightarrow> (string \<times> json) list \<Rightarrow> 'a \<Rightarrow> 'a" where
  "read_members fs [] x = x"
| "read_members fs ((k, v) # ms) x =
     read_members fs ms (case find_field fs k of
        None \<Rightarrow> x
      | Some f \<Rightarrow> (case f v x of None \<Rightarrow> x | Some x' \<Rightarrow> x'))"

definition parseQuery :: "json option \<Rightarrow> err" where
  "parseQuery data =
     (let (i, q) = (case data of
                      Some (JObj ms) \<Rightarrow>
                        read_members [(''id'', dec_string (\<lambda>s (i, q). (s, q))), (''prompt'', dec_string (\<lambda>s (i, q). (i, s)))]
                          ms ([], [])
                    | _ \<Rightarrow> ([], []))
      in QueryError i q)"

subsection \<open>Service errors\<close>

text \<open>Durations are in nanoseconds.\<close>

definition second :: int where "second = 1000000000"

definition retryAfterSeconds :: "int \<Rightarrow> int" where
  "retryAfterSeconds d = (if d \<le> 0 then 0 else (d + second - 1) div second)"

definition encodeErrorBody :: "string \<Rightarrow> string \<Rightarrow> int \<Rightarrow> string" where
  "encodeErrorBody errCode message retryAfter =
     json_print (JObj
       ([(''error'', JStr errCode), (''message'', JStr message)] @
        omitempty (retryAfterSeconds retryAfter = 0) ''retry_after_s'' (JNum (go_itoa (retryAfterSeconds retryAfter)))))"

text \<open>The number a literal denotes.\<close>

definition nat_of_digits :: "string \<Rightarrow> nat" where
  "nat_of_digits s = (case digits_val 0 s of Some n \<Rightarrow> n | None \<Rightarrow> 0)"

definition number_value :: "string \<Rightarrow> rat" where
  "number_value l =
     (let neg = (l \<noteq> [] \<and> hd l = CHR ''-''); u = (if neg then tl l else l);
          int_part = takeWhile is_digit u; r = dropWhile is_digit u;
          frac = (case r of c # cs \<Rightarrow> if c = CHR ''.'' then takeWhile is_digit cs else [] | [] \<Rightarrow> []);
          ex = (case dropWhile (\<lambda>c. c \<notin> set ''eE'') u of
                  c # cs \<Rightarrow> (case go_atoi cs of Some i \<Rightarrow> i | None \<Rightarrow> 0)
                | [] \<Rightarrow> 0);
          m = rat_of_nat (nat_of_digits (int_part @ frac)) / 10 ^ length frac;
          v = (if 0 \<le> ex then m * 10 ^ nat ex else m / 10 ^ nat (- ex))
      in if neg then - v else v)"

definition maxRetryAfterSeconds :: rat where
  "maxRetryAfterSeconds = of_int (max_int64 div second)"

definition last_member :: "(string \<times> json) list \<Rightarrow> string \<Rightarrow> json option" where
  "last_member ms k = map_of (rev ms) k"

definition string_member :: "(string \<times> json) list \<Rightarrow> string \<Rightarrow> string" where
  "string_member ms k = (case last_member ms k of Some (JStr s) \<Rightarrow> s | _ \<Rightarrow> [])"

definition retry_member :: "(string \<times> json) list \<Rightarrow> int" where
  "retry_member ms =
     (case last_member ms ''retry_after_s'' of
        Some (JNum l) \<Rightarrow>
          (let r = number_value l in if 0 < r \<and> r < maxRetryAfterSeconds then \<lfloor>r * of_int second\<rfloor> else 0)
      | _ \<Rightarrow> 0)"

text \<open>The value \<open>strconv.Atoi\<close> returns beside its error: 0 for text, the nearest bound out of range.\<close>

definition atoi_value :: "string \<Rightarrow> int" where
  "atoi_value s =
     (case go_atoi s of
        Some n \<Rightarrow> n
      | None \<Rightarrow>
          (let neg = (s \<noteq> [] \<and> hd s = CHR ''-'');
               ds = (if s \<noteq> [] \<and> hd s \<in> set ''+-'' then tl s else s)
           in if ds \<noteq> [] \<and> list_all is_digit ds then (if neg then min_int64 else max_int64) else 0))"

definition parseServiceError :: "wire_msg \<Rightarrow> err" where
  "parseServiceError m =
     (let code = atoi_value (header_get (wm_header m) errorCodeHeader);
          desc = header_get (wm_header m) errorHeader;
          ms = (case json_parse (wm_data m) of Some (JObj ms) \<Rightarrow> ms | _ \<Rightarrow> []);
          msg = string_member ms ''message''
      in ServiceError code desc (string_member ms ''error'') (if msg = [] then desc else msg) (retry_member ms))"

subsection \<open>Pieces of a text\<close>

lemma utf8_chunks_rune:
  assumes "rune_size ch = Some (length ch)"
  shows "utf8_chunks (ch @ s) = ch # utf8_chunks s"
proof (cases ch)
  case (Cons c cs)
  have "rune_size (ch @ s) = Some (length ch)" using rune_size_take [OF assms, of s] by simp
  then have "rune_width (c # cs @ s) = Suc (length cs)" using Cons by (simp add: rune_width_def del: rune_size.simps)
  then show ?thesis using Cons by (simp add: utf8_chunks.simps(2))
qed (use assms in simp)

lemma valid_utf8_rune:
  "rune_size ch = Some (length ch) \<Longrightarrow> valid_utf8 s \<Longrightarrow> valid_utf8 (ch @ s)"
  by (simp add: valid_utf8_def utf8_chunks_rune)

lemma valid_utf8_Nil [simp]: "valid_utf8 []"
  by (simp add: valid_utf8_def)

lemma boundary_loop_eq:
  assumes "p \<le> k" and "k \<le> p + m" and "rune_start (t ! p)" and "\<And>i. p < i \<Longrightarrow> i \<le> k \<Longrightarrow> \<not> rune_start (t ! i)"
  shows "boundary_loop m t k = p"
  using assms
proof (induction m t k rule: boundary_loop.induct)
  case (2 m t k)
  show ?case
  proof (cases "p = k")
    case False
    then have "0 < k" "\<not> rune_start (t ! k)" using "2.prems" by auto
    then show ?thesis using 2 False by auto
  qed (use "2.prems" in simp)
qed simp

text \<open>The start of the character a position of a UTF-8 text falls in.\<close>

lemma valid_utf8_start:
  assumes "valid_utf8 t" and "k < length t"
  shows "\<exists>p \<le> k. k \<le> p + 3 \<and> rune_start (t ! p) \<and> (\<forall>i. p < i \<and> i \<le> k \<longrightarrow> \<not> rune_start (t ! i)) \<and>
    valid_utf8 (take p t) \<and> valid_utf8 (drop p t)"
  using assms
proof (induction "length t" arbitrary: t k rule: less_induct)
  case less
  then obtain c cs where t: "t = c # cs" by (cases t) simp_all
  obtain n where n: "rune_size t = Some n" and v: "valid_utf8 (drop (n - 1) cs)"
    using less.prems(1) t valid_chunks_Cons [of c cs] by metis
  have n0: "0 < n" "n \<le> 4" using n rune_size_pos [OF n] t by (auto simp: Let_def split: if_splits list.splits)
  have shape: "rune_start c" "n \<le> Suc (length cs)" "\<forall>i < n - 1. utf8_cont (cs ! i)"
    using rune_size_Some_shape [of c cs n] n t by auto
  have d: "drop (n - 1) cs = drop n t" using t n0 by (cases n) simp_all
  show ?case
  proof (cases "k < n")
    case True
    have "\<not> rune_start (t ! i)" if "0 < i" "i \<le> k" for i
      using shape(3) that True t by (auto simp: rune_start_def nth_Cons' Suc_diff_Suc)
    then show ?thesis using True shape(1) n0 less.prems(1) t by (intro exI [of _ 0]) auto
  next
    case False
    have "length (drop n t) < length t" using n0 t by simp
    moreover have "valid_utf8 (drop n t)" using v d by simp
    moreover have "k - n < length (drop n t)" using False less.prems(2) by simp
    ultimately have "\<exists>p \<le> k - n. k - n \<le> p + 3 \<and> rune_start (drop n t ! p) \<and>
      (\<forall>i. p < i \<and> i \<le> k - n \<longrightarrow> \<not> rune_start (drop n t ! i)) \<and>
      valid_utf8 (take p (drop n t)) \<and> valid_utf8 (drop p (drop n t))"
      by (rule less.hyps)
    then obtain p where
      p: "p \<le> k - n" "k - n \<le> p + 3" "rune_start (drop n t ! p)"
        "\<forall>i. p < i \<and> i \<le> k - n \<longrightarrow> \<not> rune_start (drop n t ! i)"
        "valid_utf8 (take p (drop n t))" "valid_utf8 (drop p (drop n t))" by blast
    have len: "n \<le> length t" using shape(2) t by simp
    have "rune_size (take n t) = Some (length (take n t))"
      using rune_size_take [OF n, of "[]"] len by (simp del: rune_size.simps)
    from valid_utf8_rune [OF this p(5)] have "valid_utf8 (take (n + p) t)" by (simp add: take_add)
    moreover have "\<not> rune_start (t ! i)" if "n + p < i" "i \<le> k" for i
    proof -
      have "p < i - n" "i - n \<le> k - n" using that by auto
      then have "\<not> rune_start (drop n t ! (i - n))" using p(4) by blast
      then show ?thesis using that len by simp
    qed
    moreover have "valid_utf8 (drop (n + p) t)" using p(6) by (simp add: add.commute)
    moreover have "rune_start (t ! (n + p))" using p(3) len by simp
    moreover have "n + p \<le> k" "k \<le> n + p + 3" using p(1,2) False by auto
    ultimately show ?thesis by (intro exI [of _ "n + p"]) blast
  qed
qed

lemma valid_utf8_pieces:
  assumes "valid_utf8 t" and "n = runeBoundary t k"
  shows "valid_utf8 (take n t) \<and> valid_utf8 (drop n t)"
proof (cases "k = 0 \<or> length t \<le> k")
  case True
  then show ?thesis using assms by (auto simp: runeBoundary_def)
next
  case False
  then obtain p where p: "p \<le> k" "k \<le> p + 3" "rune_start (t ! p)" "\<forall>i. p < i \<and> i \<le> k \<longrightarrow> \<not> rune_start (t ! i)"
    "valid_utf8 (take p t)" "valid_utf8 (drop p t)" using valid_utf8_start [OF assms(1), of k] by auto
  then have "n = p" using assms(2) False boundary_loop_eq [of p k 3 t] by (simp add: runeBoundary_def)
  then show ?thesis using p by simp
qed

lemma length_escape_rune:
  assumes "rune_chunk ch"
  shows "length (escape_rune ch) \<le> 6 * length ch"
proof -
  have "length (escape_byte c) \<le> 6" for c by (simp add: escape_byte_def u_escape_def Let_def)
  moreover have "1 \<le> length ch" using assms by (cases ch) (auto simp: rune_chunk_def)
  ultimately show ?thesis
    by (auto simp: escape_rune_def u_escape_def split: list.split)
qed

lemma length_json_escape: "length (json_escape s) \<le> 6 * length s"
proof -
  have "length (concat (map escape_rune chs)) \<le> 6 * length (concat chs)" if "list_all rune_chunk chs" for chs
    using that by (induction chs) (auto dest: length_escape_rune)
  from this [of "utf8_chunks s"] show ?thesis
    by (simp add: json_escape_def list_all_iff utf8_chunks_rune_chunk)
qed

lemma encodeResponseChunk_eq:
  "encodeResponseChunk t =
     ''{'' @ json_quote ''type'' @ '':'' @ json_quote ''response'' @ '','' @ json_quote ''data'' @ '':'' @ json_quote t @ ''}''"
  by (simp add: encodeResponseChunk_def encode_chunk_def chunkTypeResponse_def)

lemma json_escape_Nil [simp]: "json_escape [] = []"
  by (simp add: json_escape_def)

lemma length_encodeResponseChunk: "length (encodeResponseChunk t) = overhead + length (json_escape t)"
  unfolding overhead_def encodeResponseChunk_eq by (simp add: json_quote_def)

lemma overhead_eq: "overhead = 29"
  by code_simp

subsection \<open>Splitting ends with pieces that fit\<close>

lemma boundary_loop_ge: "n \<le> boundary_loop k t n + k"
  by (induction k t n rule: boundary_loop.induct) auto

lemma fit_loop_fits:
  assumes "overhead + 24 \<le> limit" and "4 \<le> n0 \<or> (0 < n0 \<and> length t \<le> n0)"
  shows "fit_loop limit t n0 \<noteq> None"
  using assms
proof (induction limit t n0 rule: fit_loop.induct)
  case (1 limit t n0)
  let ?n = "runeBoundary t n0"
  let ?b = "encodeResponseChunk (take ?n t)"
  let ?L = "limit - overhead" and ?e = "length ?b - overhead"
  have n: "0 < ?n" using "1.prems"(2) boundary_loop_ge [of n0 3 t] by (auto simp: runeBoundary_def)
  show ?case
  proof (cases "length ?b \<le> limit")
    case True
    then show ?thesis using n by (simp add: fit_loop.simps [of limit t n0] Let_def)
  next
    case False
    have e: "?e = length (json_escape (take ?n t))" by (simp add: length_encodeResponseChunk)
    have "length (take ?n t) \<le> ?n" by simp
    then have e6: "?e \<le> 6 * ?n" using length_json_escape [of "take ?n t"] unfolding e by linarith
    have L: "24 \<le> ?L" using "1.prems"(1) by simp
    have eL: "?L < ?e" using False "1.prems"(1) unfolding length_encodeResponseChunk by linarith
    have "4 * ?e \<le> ?n * ?L"
    proof -
      have "4 * ?e \<le> 24 * ?n" using e6 by simp
      also have "\<dots> \<le> ?n * ?L" using L by (simp add: mult.commute mult_le_mono1)
      finally show ?thesis .
    qed
    then have next4: "4 \<le> ?n * ?L div ?e" using eL by (simp add: less_eq_div_iff_mult_less_eq)
    have n5: "5 \<le> ?n" using e6 eL L by simp
    let ?next = "if overhead < limit then ?n * ?L div ?e else 0"
    have "overhead < limit" using L by linarith
    then have "?next = ?n * ?L div ?e" by simp
    moreover have "4 \<le> ?n - 1" using n5 by linarith
    ultimately have "4 \<le> min ?next (?n - 1)" using next4 by (simp only: min.bounded_iff)
    with "1.IH" [OF refl _ refl False refl] "1.prems"(1) n have "fit_loop limit t (min ?next (?n - 1)) \<noteq> None" by blast
    then show ?thesis using n False by (simp add: fit_loop.simps [of limit t n0] Let_def split del: if_split)
  qed
qed

lemma split_chunks_total:
  assumes "overhead + 24 \<le> limit"
  shows "split_chunks limit t \<noteq> None"
  using assms
proof (induction limit t rule: split_chunks.induct)
  case (1 limit t)
  show ?case
  proof (cases "t = []")
    case False
    have "4 \<le> min (length t) limit \<or> (0 < min (length t) limit \<and> length t \<le> min (length t) limit)"
      using False "1.prems" by (cases "4 \<le> length t") (auto simp: min_def)
    then obtain n b where f: "fit_loop limit t (min (length t) limit) = Some (n, b)"
      using fit_loop_fits [OF "1.prems"] by fastforce
    with "1.IH" [OF False f refl "1.prems"] False show ?thesis by (auto simp: split_chunks.simps [of limit t])
  qed (simp add: split_chunks.simps)
qed

lemma split_chunks_pieces:
  assumes "split_chunks limit t = Some bs"
  shows "\<exists>ts. bs = map encodeResponseChunk ts \<and> concat ts = t \<and> list_all (\<lambda>b. length b \<le> limit) bs \<and>
    (valid_utf8 t \<longrightarrow> list_all valid_utf8 ts)"
  using assms
proof (induction limit t arbitrary: bs rule: split_chunks.induct)
  case (1 limit t)
  show ?case
  proof (cases "t = []")
    case True
    then show ?thesis using "1.prems" by (intro exI [of _ "[]"]) (simp add: split_chunks.simps)
  next
    case False
    then obtain n b bs' where f: "fit_loop limit t (min (length t) limit) = Some (n, b)"
      and bs': "split_chunks limit (drop n t) = Some bs'" "bs = b # bs'"
      using "1.prems" by (auto simp: split_chunks.simps [of limit t] split: option.splits)
    from fit_loop_Some [OF f] obtain k where n: "0 < n" "b = encodeResponseChunk (take n t)" "length b \<le> limit" "n = runeBoundary t k"
      by blast
    from "1.IH" [OF False f refl bs'(1)] obtain ts where ts: "bs' = map encodeResponseChunk ts" "concat ts = drop n t"
      "list_all (\<lambda>b. length b \<le> limit) bs'" "valid_utf8 (drop n t) \<longrightarrow> list_all valid_utf8 ts" by blast
    then show ?thesis using n bs' valid_utf8_pieces [OF _ n(4)]
      by (intro exI [of _ "take n t # ts"]) auto
  qed
qed

lemma encodeResponseChunks_pieces:
  assumes "encodeResponseChunks t limit = Some bs"
  shows "\<exists>ts. bs = map encodeResponseChunk ts \<and> concat ts = t \<and> list_all (\<lambda>b. length b \<le> limit) bs \<and>
    (valid_utf8 t \<longrightarrow> list_all valid_utf8 ts)"
proof (cases "length (encodeResponseChunk t) \<le> limit")
  case True
  then have "bs = [encodeResponseChunk t]" using assms by (simp add: encodeResponseChunks_def Let_def)
  then show ?thesis using True by (intro exI [of _ "[t]"]) simp
next
  case False
  then show ?thesis using assms split_chunks_pieces [of limit t bs] by (simp add: encodeResponseChunks_def Let_def)
qed

lemma encodeResponseChunks_total: "overhead + 24 \<le> limit \<Longrightarrow> encodeResponseChunks t limit \<noteq> None"
  using split_chunks_total by (simp add: encodeResponseChunks_def Let_def)

end
