(* ===== verification/Nats_Config.thy ===== *)
theory Nats_Config
  imports Nats_Subject
begin

section \<open>Package nats: a server's configuration and registration\<close>

text \<open>
  \<open>New\<close>, the server options of \<open>nats/options.go\<close>, and what \<open>register\<close> hands to the micro library. A
  connection is its max_payload. How the library answers a discovery request is an argument of the
  lemmas: that the reply decodes to the configuration it was given is its documented behaviour.
  Durations are in nanoseconds.
\<close>

subsection \<open>Options\<close>

definition seconds :: "int \<Rightarrow> int" where "seconds n = n * 1000000000"

record coded_error =
  ce_code :: int
  ce_err_code :: string
  ce_message :: string
  ce_retry_after :: int
  ce_err :: "err option"

record server_config =
  sc_agent_id :: string
  sc_session :: string
  sc_version :: string
  sc_max_payload :: string
  sc_max_payload_set :: bool
  sc_attachments_ok :: bool
  sc_heartbeat_interval :: int
  sc_keepalive_interval :: int
  sc_drain_timeout :: int
  sc_error_mapper :: "(err \<Rightarrow> coded_error option) option"

type_synonym server_option = "server_config \<Rightarrow> server_config"

definition defaultMaxPayload :: string where "defaultMaxPayload = ''1MB''"
definition defaultAgentID :: string where "defaultAgentID = ''phero''"
definition defaultHeartbeatInterval :: int where "defaultHeartbeatInterval = seconds 30"
definition defaultKeepaliveInterval :: int where "defaultKeepaliveInterval = seconds 30"
definition defaultDrainTimeout :: int where "defaultDrainTimeout = seconds 30"

definition defaultServerConfig :: server_config where
  "defaultServerConfig =
     \<lparr>sc_agent_id = defaultAgentID, sc_session = [], sc_version = ''0.1.0'', sc_max_payload = defaultMaxPayload,
      sc_max_payload_set = False, sc_attachments_ok = False, sc_heartbeat_interval = defaultHeartbeatInterval,
      sc_keepalive_interval = defaultKeepaliveInterval, sc_drain_timeout = defaultDrainTimeout,
      sc_error_mapper = None\<rparr>"

definition WithAgentID :: "string \<Rightarrow> server_option" where "WithAgentID i c = c\<lparr>sc_agent_id := i\<rparr>"
definition WithSession :: "string \<Rightarrow> server_option" where "WithSession s c = c\<lparr>sc_session := s\<rparr>"
definition WithVersion :: "string \<Rightarrow> server_option" where "WithVersion v c = c\<lparr>sc_version := v\<rparr>"
definition WithMaxPayload :: "string \<Rightarrow> server_option" where
  "WithMaxPayload s c = c\<lparr>sc_max_payload := s, sc_max_payload_set := True\<rparr>"
definition WithAttachmentsOk :: "bool \<Rightarrow> server_option" where "WithAttachmentsOk b c = c\<lparr>sc_attachments_ok := b\<rparr>"
definition WithHeartbeatInterval :: "int \<Rightarrow> server_option" where
  "WithHeartbeatInterval d c = c\<lparr>sc_heartbeat_interval := d\<rparr>"
definition WithKeepaliveInterval :: "int \<Rightarrow> server_option" where
  "WithKeepaliveInterval d c = c\<lparr>sc_keepalive_interval := d\<rparr>"
definition WithDrainTimeout :: "int \<Rightarrow> server_option" where "WithDrainTimeout d c = c\<lparr>sc_drain_timeout := d\<rparr>"
definition WithErrorMapper :: "(err \<Rightarrow> coded_error option) \<Rightarrow> server_option" where
  "WithErrorMapper f c = c\<lparr>sc_error_mapper := Some f\<rparr>"

definition apply_option :: "server_option option \<Rightarrow> server_config \<Rightarrow> server_config" where
  "apply_option opt c = (case opt of None \<Rightarrow> c | Some f \<Rightarrow> f c)"

subsection \<open>New\<close>

record server =
  srv_cfg :: server_config
  srv_owner :: string
  srv_name :: string
  srv_conn_max :: int

definition New_server :: "int option \<Rightarrow> bool \<Rightarrow> string \<Rightarrow> string \<Rightarrow> server_option option list \<Rightarrow> err + server" where
  "New_server nc has_handler owner name opts =
     (case nc of
        None \<Rightarrow> Inl ErrNilConn
      | Some connMax \<Rightarrow>
          if \<not> has_handler then Inl ErrNilHandler
          else if owner = [] then Inl ErrEmptyOwner
          else if name = [] then Inl ErrEmptyName
          else
            (let cfg = fold apply_option opts defaultServerConfig; name' = InstanceName name (sc_session cfg) in
             case validateSubjectIdentity (sc_agent_id cfg) owner name' (sc_session cfg) of
               Some e \<Rightarrow> Inl e
             | None \<Rightarrow>
                 (case reconcileMaxPayload (sc_max_payload cfg) (sc_max_payload_set cfg) connMax of
                    Inl e \<Rightarrow> Inl e
                  | Inr cap \<Rightarrow>
                      Inr \<lparr>srv_cfg = cfg\<lparr>sc_max_payload := cap\<rparr>, srv_owner = owner, srv_name = name',
                           srv_conn_max = connMax\<rparr>)))"

subsection \<open>Registration\<close>

definition server_promptSubject :: "server \<Rightarrow> string" where
  "server_promptSubject s = promptSubject (sc_agent_id (srv_cfg s)) (srv_owner s) (srv_name s)"

definition server_statusSubject :: "server \<Rightarrow> string" where
  "server_statusSubject s = statusSubject (sc_agent_id (srv_cfg s)) (srv_owner s) (srv_name s)"

definition server_hbSubject :: "server \<Rightarrow> string" where
  "server_hbSubject s = hbSubject (sc_agent_id (srv_cfg s)) (srv_owner s) (srv_name s)"

definition promptMetadata :: "server \<Rightarrow> (string \<times> string) list" where
  "promptMetadata s =
     [(''max_payload'', sc_max_payload (srv_cfg s)),
      (''attachments_ok'', if sc_attachments_ok (srv_cfg s) then attachmentsOkTrue else ''false'')]"

definition service_metadata :: "server \<Rightarrow> (string \<times> string) list" where
  "service_metadata s =
     [(metaAgent, sc_agent_id (srv_cfg s)), (metaOwner, srv_owner s), (metaProtocolVersion, protocolVersion)] @
     (if sc_session (srv_cfg s) \<noteq> [] then [(metaSession, sc_session (srv_cfg s))] else [])"

text \<open>
  The service and its endpoints, in the order they are added. The id is the library's; the queue
  group of both endpoints is the one of the service.
\<close>

definition registration :: "server \<Rightarrow> string \<Rightarrow> service_info" where
  "registration s ident =
     \<lparr>sv_name = svcNameAgents, sv_id = ident, sv_metadata = service_metadata s,
      sv_endpoints =
        [\<lparr>ei_name = endpointPrompt, ei_subject = server_promptSubject s, ei_queue_group = svcNameAgents,
          ei_metadata = promptMetadata s\<rparr>,
         \<lparr>ei_name = chunkTypeStatus, ei_subject = server_statusSubject s, ei_queue_group = svcNameAgents,
          ei_metadata = []\<rparr>]\<rparr>"

subsection \<open>What a server is\<close>

lemma New_server_Inr:
  assumes "New_server nc h owner name opts = Inr s"
  shows "subjectTokenPattern (sc_agent_id (srv_cfg s))" "subjectTokenPattern (srv_owner s)" "subjectTokenPattern (srv_name s)"
    "sc_session (srv_cfg s) = [] \<or> subjectTokenPattern (sc_session (srv_cfg s))"
    "srv_owner s = owner" "srv_name s = InstanceName name (sc_session (srv_cfg s))"
    "\<exists>n. parseMaxPayload (sc_max_payload (srv_cfg s)) = Inr n \<and> 0 < n \<and> (srv_conn_max s \<le> 0 \<or> n \<le> srv_conn_max s)"
    "nc = Some (srv_conn_max s)"
proof -
  obtain connMax where c: "nc = Some connMax" using assms by (cases nc) (simp_all add: New_server_def)
  let ?cfg = "fold apply_option opts defaultServerConfig"
  let ?name = "InstanceName name (sc_session ?cfg)"
  have v: "validateSubjectIdentity (sc_agent_id ?cfg) owner ?name (sc_session ?cfg) = None"
    using assms c by (auto simp: New_server_def Let_def split: if_splits option.splits)
  then obtain cap where cap: "reconcileMaxPayload (sc_max_payload ?cfg) (sc_max_payload_set ?cfg) connMax = Inr cap"
    and s: "s = \<lparr>srv_cfg = ?cfg\<lparr>sc_max_payload := cap\<rparr>, srv_owner = owner, srv_name = ?name, srv_conn_max = connMax\<rparr>"
    using assms c by (auto simp: New_server_def Let_def split: if_splits sum.splits)
  show "subjectTokenPattern (sc_agent_id (srv_cfg s))" "subjectTokenPattern (srv_owner s)" "subjectTokenPattern (srv_name s)"
    "sc_session (srv_cfg s) = [] \<or> subjectTokenPattern (sc_session (srv_cfg s))"
    "srv_owner s = owner" "srv_name s = InstanceName name (sc_session (srv_cfg s))" "nc = Some (srv_conn_max s)"
    using v [unfolded validateSubjectIdentity_None] c by (simp_all add: s)
  show "\<exists>n. parseMaxPayload (sc_max_payload (srv_cfg s)) = Inr n \<and> 0 < n \<and> (srv_conn_max s \<le> 0 \<or> n \<le> srv_conn_max s)"
    using reconcile_cap [OF cap] by (simp add: s)
qed

text \<open>What a client reads from a registration.\<close>

definition advertised :: "server \<Rightarrow> string \<Rightarrow> int \<Rightarrow> agent_info" where
  "advertised s ident cap =
     \<lparr>ai_instance_id = ident, ai_agent = sc_agent_id (srv_cfg s), ai_owner = srv_owner s,
      ai_session = sc_session (srv_cfg s), ai_name = srv_name s, ai_protocol_version = protocolVersion,
      ai_prompt_subject = server_promptSubject s, ai_status_subject = server_statusSubject s,
      ai_max_payload = cap, ai_attachments_ok = sc_attachments_ok (srv_cfg s)\<rparr>"

definition decodes_to :: "string \<Rightarrow> service_info \<Rightarrow> bool" where
  "decodes_to data svc \<longleftrightarrow>
     (case json_parse data of
        None \<Rightarrow> False
      | Some j \<Rightarrow>
          dec_struct service_fields j \<lparr>sv_name = [], sv_id = [], sv_metadata = [], sv_endpoints = []\<rparr> = Some svc)"

lemma lookup_service_metadata:
  "lookup (service_metadata s) metaAgent = sc_agent_id (srv_cfg s)"
  "lookup (service_metadata s) metaOwner = srv_owner s"
  "lookup (service_metadata s) metaProtocolVersion = protocolVersion"
  "lookup (service_metadata s) metaSession = sc_session (srv_cfg s)"
  by (simp_all add: lookup_def service_metadata_def metaAgent_def metaOwner_def metaProtocolVersion_def metaSession_def)

lemma lookup_promptMetadata:
  "lookup (promptMetadata s) ''max_payload'' = sc_max_payload (srv_cfg s)"
  "lookup (promptMetadata s) ''attachments_ok'' = attachmentsOkTrue \<longleftrightarrow> sc_attachments_ok (srv_cfg s)"
  by (simp_all add: lookup_def promptMetadata_def attachmentsOkTrue_def)

lemma compatible_own: "compatibleProtocol protocolVersion"
  by code_simp

lemma parse_registration:
  assumes "New_server nc h owner name opts = Inr s" and "decodes_to data (registration s ident)"
  shows "\<exists>cap. parseAgentInfo data = Some (advertised s ident cap) \<and> 0 < cap \<and> (srv_conn_max s \<le> 0 \<or> cap \<le> srv_conn_max s)"
proof -
  obtain n where n: "parseMaxPayload (sc_max_payload (srv_cfg s)) = Inr n" "0 < n" "srv_conn_max s \<le> 0 \<or> n \<le> srv_conn_max s"
    using New_server_Inr(7) [OF assms(1)] by blast
  have ne: "sc_max_payload (srv_cfg s) \<noteq> []" using n by (auto simp: parseMaxPayload_def)
  have names: "endpointPrompt \<noteq> chunkTypeStatus" by (simp add: endpointPrompt_def chunkTypeStatus_def)
  have subj: "server_promptSubject s \<noteq> []" by (simp add: server_promptSubject_def promptSubject_def subject_def)
  have inst: "instanceNameFromSubject (server_promptSubject s) = srv_name s"
    using New_server_Inr(1,2) [OF assms(1)] by (simp add: server_promptSubject_def instanceName_promptSubject)
  obtain j where "json_parse data = Some j"
    "dec_struct service_fields j \<lparr>sv_name = [], sv_id = [], sv_metadata = [], sv_endpoints = []\<rparr> = Some (registration s ident)"
    using assms(2) by (auto simp: decodes_to_def split: option.splits)
  then have "parseAgentInfo data = Some (advertised s ident n)"
    using ne names subj inst n(1)
    by (simp add: parseAgentInfo_def registration_def lookup_service_metadata compatible_own read_endpoint_def
        lookup_promptMetadata advertised_def Let_def)
  with n show ?thesis by blast
qed

end
