(* ===== verification/Nats_Resolver.thy ===== *)
theory Nats_Resolver
  imports Nats_Wire Nats_Config "HOL-Library.List_Lexorder" "HOL-Library.Char_ord"
begin

section \<open>Package nats: heartbeats and the resolver\<close>

text \<open>
  \<open>nats/heartbeat.go\<close>, the heartbeat payload of \<open>nats/wire.go\<close> and \<open>nats/resolver.go\<close>. Times and
  durations are in nanoseconds, and a duration computed by the code wraps at 64 bits. The text of a
  time stamp is an argument. A resolver's state is its cache; the discovery it shares between callers
  (singleflight) is one result, which each of them gets.
\<close>

subsection \<open>The payload\<close>

record heartbeat_endpoint =
  hbe_subject :: string
  hbe_metadata :: "(string \<times> string) list"

record heartbeat_payload =
  hb_agent :: string
  hb_owner :: string
  hb_session :: string
  hb_instance_id :: string
  hb_ts :: string
  hb_interval_s :: int
  hb_protocol_version :: string
  hb_endpoints :: "(string \<times> heartbeat_endpoint) list"

text \<open>\<open>int(d.Seconds())\<close> cuts the fraction off.\<close>

definition heartbeatIntervalSeconds :: "int \<Rightarrow> int" where
  "heartbeatIntervalSeconds d = (let s = (if 0 \<le> d then d div second else - ((- d) div second)) in if 0 < s then s else 1)"

definition heartbeat :: "server \<Rightarrow> string \<Rightarrow> string \<Rightarrow> heartbeat_payload" where
  "heartbeat s instanceID ts =
     \<lparr>hb_agent = sc_agent_id (srv_cfg s), hb_owner = srv_owner s, hb_session = sc_session (srv_cfg s),
      hb_instance_id = instanceID, hb_ts = ts,
      hb_interval_s = heartbeatIntervalSeconds (sc_heartbeat_interval (srv_cfg s)),
      hb_protocol_version = protocolVersion,
      hb_endpoints = [(endpointPrompt, \<lparr>hbe_subject = server_promptSubject s, hbe_metadata = promptMetadata s\<rparr>)]\<rparr>"

text \<open>\<open>json.Marshal\<close> writes a map's keys in order; these maps are given in it or sorted here.\<close>

definition enc_map :: "(string \<times> string) list \<Rightarrow> json" where
  "enc_map m = JObj (map (\<lambda>(k, v). (k, JStr v)) (sort_key fst m))"

definition enc_hb_endpoint :: "heartbeat_endpoint \<Rightarrow> json" where
  "enc_hb_endpoint e = JObj ([(''subject'', JStr (hbe_subject e))] @
     omitempty (hbe_metadata e = []) ''metadata'' (enc_map (hbe_metadata e)))"

definition enc_heartbeat :: "heartbeat_payload \<Rightarrow> json" where
  "enc_heartbeat p = JObj
     ([(''agent'', JStr (hb_agent p)), (''owner'', JStr (hb_owner p))] @
      omitempty (hb_session p = []) ''session'' (JStr (hb_session p)) @
      [(''instance_id'', JStr (hb_instance_id p)), (''ts'', JStr (hb_ts p)), (''interval_s'', JNum (go_itoa (hb_interval_s p)))] @
      omitempty (hb_protocol_version p = []) ''protocol_version'' (JStr (hb_protocol_version p)) @
      omitempty (hb_endpoints p = []) ''endpoints''
        (JObj (map (\<lambda>(k, e). (k, enc_hb_endpoint e)) (sort_key fst (hb_endpoints p)))))"

definition encodeHeartbeat :: "heartbeat_payload \<Rightarrow> string" where
  "encodeHeartbeat p = json_print (enc_heartbeat p)"

text \<open>
  \<open>decodeHeartbeat\<close>: a bad protocol version or bad endpoints are ignored. What a listener reads of the
  endpoints is nothing, so they are kept undecoded.
\<close>

record raw_heartbeat =
  rh_agent :: string
  rh_owner :: string
  rh_session :: string
  rh_instance_id :: string
  rh_ts :: string
  rh_interval_s :: int
  rh_protocol_version :: "json option"
  rh_endpoints :: "json option"

definition heartbeat_fields :: "raw_heartbeat field list" where
  "heartbeat_fields =
     [(''agent'', dec_string (\<lambda>s p. p\<lparr>rh_agent := s\<rparr>)), (''owner'', dec_string (\<lambda>s p. p\<lparr>rh_owner := s\<rparr>)),
      (''session'', dec_string (\<lambda>s p. p\<lparr>rh_session := s\<rparr>)),
      (''instance_id'', dec_string (\<lambda>s p. p\<lparr>rh_instance_id := s\<rparr>)), (''ts'', dec_string (\<lambda>s p. p\<lparr>rh_ts := s\<rparr>)),
      (''interval_s'', dec_int (\<lambda>i p. p\<lparr>rh_interval_s := i\<rparr>)),
      (''protocol_version'', \<lambda>j p. Some (p\<lparr>rh_protocol_version := Some j\<rparr>)),
      (''endpoints'', \<lambda>j p. Some (p\<lparr>rh_endpoints := Some j\<rparr>))]"

definition empty_raw_heartbeat :: raw_heartbeat where
  "empty_raw_heartbeat =
     \<lparr>rh_agent = [], rh_owner = [], rh_session = [], rh_instance_id = [], rh_ts = [], rh_interval_s = 0,
      rh_protocol_version = None, rh_endpoints = None\<rparr>"

definition dec_hb_endpoint :: "json \<Rightarrow> heartbeat_endpoint option" where
  "dec_hb_endpoint j =
     dec_struct [(''subject'', dec_string (\<lambda>s e. e\<lparr>hbe_subject := s\<rparr>)),
                 (''metadata'', dec_string_map (\<lambda>m e. e\<lparr>hbe_metadata := m\<rparr>) hbe_metadata)] j
       \<lparr>hbe_subject = [], hbe_metadata = []\<rparr>"

fun dec_hb_endpoints :: "(string \<times> json) list \<Rightarrow> (string \<times> heartbeat_endpoint) list option" where
  "dec_hb_endpoints [] = Some []"
| "dec_hb_endpoints ((k, j) # js) =
     (case dec_hb_endpoint j of
        None \<Rightarrow> None
      | Some e \<Rightarrow> map_option (\<lambda>es. es @ [(k, e)]) (dec_hb_endpoints js))"

definition decodeHeartbeat :: "string \<Rightarrow> heartbeat_payload option" where
  "decodeHeartbeat data =
     (case json_parse data of
        None \<Rightarrow> None
      | Some j \<Rightarrow>
          (case dec_struct heartbeat_fields j empty_raw_heartbeat of
             None \<Rightarrow> None
           | Some r \<Rightarrow>
               Some \<lparr>hb_agent = rh_agent r, hb_owner = rh_owner r, hb_session = rh_session r,
                     hb_instance_id = rh_instance_id r, hb_ts = rh_ts r, hb_interval_s = rh_interval_s r,
                     hb_protocol_version = (case rh_protocol_version r of Some (JStr v) \<Rightarrow> v | _ \<Rightarrow> []),
                     hb_endpoints = (case rh_endpoints r of
                        Some (JObj js) \<Rightarrow> (case dec_hb_endpoints js of Some es \<Rightarrow> es | None \<Rightarrow> [])
                      | _ \<Rightarrow> [])\<rparr>))"

subsection \<open>The tracker\<close>

record heartbeat_entry =
  he_payload :: heartbeat_payload
  he_last_seen :: int

record tracker =
  tk_seen :: "string \<rightharpoonup> heartbeat_entry"
  tk_by_agent :: "string \<rightharpoonup> heartbeat_entry"

definition heartbeatMissedFactor :: int where "heartbeatMissedFactor = 3"

definition new_tracker :: tracker where
  "new_tracker = \<lparr>tk_seen = Map.empty, tk_by_agent = Map.empty\<rparr>"

definition entry_online :: "heartbeat_entry \<Rightarrow> int \<Rightarrow> bool" where
  "entry_online e now =
     (let i = wrap64 (hb_interval_s (he_payload e) * second); interval = (if i \<le> 0 then second else i)
      in now - he_last_seen e \<le> wrap64 (interval * heartbeatMissedFactor))"

definition observe :: "int \<Rightarrow> string \<Rightarrow> string \<Rightarrow> tracker \<Rightarrow> tracker" where
  "observe now subj data t =
     (case decodeHeartbeat data of
        None \<Rightarrow> t
      | Some p \<Rightarrow>
          if hb_instance_id p = [] then t
          else
            (let entry = \<lparr>he_payload = p, he_last_seen = now\<rparr>;
                 t1 = t\<lparr>tk_seen := (tk_seen t)(hb_instance_id p \<mapsto> entry)\<rparr>
             in case agentFromHeartbeatSubject subj of
                  Some (owner, name) \<Rightarrow> t1\<lparr>tk_by_agent := (tk_by_agent t1)(agentKey owner name \<mapsto> entry)\<rparr>
                | None \<Rightarrow> t1))"

definition IsOnline :: "tracker \<Rightarrow> int \<Rightarrow> string \<Rightarrow> bool" where
  "IsOnline t now instanceID = (case tk_seen t instanceID of Some e \<Rightarrow> entry_online e now | None \<Rightarrow> False)"

definition IsAgentOnline :: "tracker \<Rightarrow> int \<Rightarrow> string \<Rightarrow> string \<Rightarrow> bool" where
  "IsAgentOnline t now owner name =
     (case tk_by_agent t (agentKey owner name) of Some e \<Rightarrow> entry_online e now | None \<Rightarrow> False)"

subsection \<open>The resolver\<close>

definition defaultResolverCacheTTL :: int where "defaultResolverCacheTTL = 5 * 60 * second"

definition WithResolverCacheTTL :: "int \<Rightarrow> int \<Rightarrow> int" where
  "WithResolverCacheTTL d ttl = (if 0 < d then d else ttl)"

record resolver =
  rs_ttl :: int
  rs_cache :: "string \<rightharpoonup> agent_info \<times> int"

definition NewResolver :: "bool \<Rightarrow> (int \<Rightarrow> int) option list \<Rightarrow> err option \<Rightarrow> err + resolver" where
  "NewResolver has_client opts tracker_err =
     (if \<not> has_client then Inl ErrNilClient
      else
        (let ttl = fold (\<lambda>opt c. case opt of Some f \<Rightarrow> f c | None \<Rightarrow> c) opts defaultResolverCacheTTL in
         case tracker_err of
           Some e \<Rightarrow> Inl (errorf2 (Opaque ''nats: resolver heartbeat tracker'') e)
         | None \<Rightarrow> Inr \<lparr>rs_ttl = ttl, rs_cache = Map.empty\<rparr>))"

definition no_agent_responded :: "string \<Rightarrow> err" where
  "no_agent_responded key = Opaque (''nats: resolve '' @ key @ '': no agent responded'')"

text \<open>The filters a resolve discovers with.\<close>

definition resolve_filter :: "string \<Rightarrow> string \<Rightarrow> discover_filter" where
  "resolve_filter owner name = FilterByName name (FilterByOwner owner empty_filter)"

text \<open>\<open>discoverAndCache\<close>; \<open>discover\<close> is the client's, \<open>now\<close> the time when it stores.\<close>

definition discoverAndCache ::
    "(discover_filter \<Rightarrow> err + agent_info list) \<Rightarrow> int \<Rightarrow> string \<Rightarrow> string \<Rightarrow> resolver \<Rightarrow> (err + agent_info) \<times> resolver" where
  "discoverAndCache discover now owner name r =
     (let key = agentKey owner name in
      case discover (resolve_filter owner name) of
        Inl e \<Rightarrow> (Inl e, r)
      | Inr [] \<Rightarrow> (Inl (no_agent_responded key), r)
      | Inr (h # hs) \<Rightarrow> (Inr h, r\<lparr>rs_cache := (rs_cache r)(key \<mapsto> (h, now + rs_ttl r))\<rparr>))"

text \<open>
  \<open>Resolve\<close> at time \<open>now\<close>: \<open>ctx\<close> is \<open>ctx.Err()\<close> before the discovery, \<open>gave_up\<close> the context's error when
  the caller stops waiting before the discovery ends at time \<open>later\<close>; it is stored all the same.
\<close>

definition Resolve ::
    "(discover_filter \<Rightarrow> err + agent_info list) \<Rightarrow> tracker \<Rightarrow> int \<Rightarrow> int \<Rightarrow> err option \<Rightarrow> err option \<Rightarrow> string \<Rightarrow> string
      \<Rightarrow> resolver \<Rightarrow> (err + agent_info) \<times> resolver" where
  "Resolve discover t now later ctx gave_up owner name r =
     (case rs_cache r (agentKey owner name) of
        Some (h, expiry) \<Rightarrow>
          if now < expiry \<and> IsAgentOnline t now owner name then (Inr h, r)
          else (case ctx of
                  Some e \<Rightarrow> (Inl e, r)
                | None \<Rightarrow>
                    (let (res, r') = discoverAndCache discover later owner name r
                     in (case gave_up of Some e \<Rightarrow> (Inl e, r') | None \<Rightarrow> (res, r'))))
      | None \<Rightarrow>
          (case ctx of
             Some e \<Rightarrow> (Inl e, r)
           | None \<Rightarrow>
               (let (res, r') = discoverAndCache discover later owner name r
                in (case gave_up of Some e \<Rightarrow> (Inl e, r') | None \<Rightarrow> (res, r')))))"

definition Invalidate :: "string \<Rightarrow> string \<Rightarrow> resolver \<Rightarrow> resolver" where
  "Invalidate owner name r = r\<lparr>rs_cache := (rs_cache r)(agentKey owner name := None)\<rparr>"

text \<open>The handler of \<open>AsTool\<close>: \<open>ask\<close> prompts the agent and reads the stream's text.\<close>

definition resolver_tool ::
    "(discover_filter \<Rightarrow> err + agent_info list) \<Rightarrow> tracker \<Rightarrow> int \<Rightarrow> int \<Rightarrow> err option \<Rightarrow> err option \<Rightarrow> string \<Rightarrow> string
      \<Rightarrow> (agent_info \<Rightarrow> string \<Rightarrow> err + string) \<Rightarrow> string \<Rightarrow> resolver \<Rightarrow> (err + string) \<times> resolver" where
  "resolver_tool discover t now later ctx gave_up owner name ask prompt r =
     (case Resolve discover t now later ctx gave_up owner name r of
        (Inl e, r') \<Rightarrow> (Inl e, r')
      | (Inr h, r') \<Rightarrow>
          (case ask h prompt of
             Inl e \<Rightarrow> (Inl e, Invalidate owner name r')
           | Inr t \<Rightarrow> (Inr t, r')))"

definition missing :: "tracker \<Rightarrow> int \<Rightarrow> (string \<times> string) list \<Rightarrow> string list" where
  "missing t now keys =
     List.map_filter (\<lambda>(owner, name). if IsAgentOnline t now owner name then None else Some (agentKey owner name)) keys"

text \<open>
  \<open>WaitReady\<close> over its polls: the tracker and the time of each, and \<open>ctx.Err()\<close> when the wait after
  it ended by the context. \<open>None\<close> when the polls end and it is still waiting.
\<close>

fun WaitReady :: "int \<Rightarrow> (string \<times> string) list \<Rightarrow> (tracker \<times> int \<times> err option) list \<Rightarrow> err option option" where
  "WaitReady deadline keys [] = None"
| "WaitReady deadline keys ((t, now, ctx) # polls) =
     (let ms = missing t now keys in
      if ms = [] then Some None
      else if deadline < now
      then Some (Some (Opaque (''nats: timeout waiting for agents to become discoverable: ['' @ go_join ms '' '' @ '']'')))
      else case ctx of Some e \<Rightarrow> Some (Some e) | None \<Rightarrow> WaitReady deadline keys polls)"

end
