(* ===== verification/Agent_Compact.thy ===== *)
theory Agent_Compact
  imports Memory_Core
begin

section \<open>Package agent: compactors (compact.go)\<close>

text \<open>
  What an agent gives a \<open>Compactor\<close>, what it gets back, the check it makes on it, and the
  \<open>SummaryCompactor\<close>, which replaces the older messages by a summary and keeps the recent ones
  within a budget. A compactor calls an LLM, so it threads the world.

  The locale \<open>valid_compactor\<close> is the contract of \<open>Compactor\<close>; the \<open>SummaryCompactor\<close>
  implements it (interpretation \<open>sc\<close>), whatever its LLM returns.
\<close>

definition DefaultKeepRecent :: int where "DefaultKeepRecent = 20"
definition DefaultKeepTokens :: int where "DefaultKeepTokens = 20000"
definition keptToolResultChars :: nat where "keptToolResultChars = 8000"

record compact_input =
  ci_previous :: "snapshot option"
  ci_messages :: "message list"
  ci_keep_tokens :: int

record compaction =
  co_snapshot :: snapshot
  co_kept :: "message list"

type_synonym 'w compactor =
  "'w goctx \<Rightarrow> compact_input \<Rightarrow> 'w \<Rightarrow> (err + compaction option) \<times> 'w"

datatype compaction_trigger = CompactThreshold | CompactContextLength | CompactManual

fun trigger_string :: "compaction_trigger \<Rightarrow> string" where
  "trigger_string CompactThreshold = ''threshold''"
| "trigger_string CompactContextLength = ''context length''"
| "trigger_string CompactManual = ''manual''"

record compaction_info =
  inf_trigger :: compaction_trigger
  inf_tokens_before :: nat
  inf_messages_before :: nat
  inf_tokens_after :: nat
  inf_messages_after :: nat
  inf_compacted :: bool
  inf_err :: "err option"

subsection \<open>The agent's check\<close>

definition sameToolCalls :: "message \<Rightarrow> message \<Rightarrow> bool" where
  "sameToolCalls a b \<longleftrightarrow> list_all2 (\<lambda>x y. tc_id x = tc_id y) (tool_calls a) (tool_calls b)"

fun check_loop :: "message list \<Rightarrow> nat \<Rightarrow> nat \<Rightarrow> message list \<Rightarrow> err option" where
  "check_loop ms off i [] = None"
| "check_loop ms off i (k # ks) =
     (let orig = ms ! (off + i) in
      if role k \<noteq> role orig \<or> tool_call_id k \<noteq> tool_call_id orig \<or> \<not> sameToolCalls k orig
      then Some (errorf1 (Sentinel (AgentE ErrInvalidCompaction))
             ('': kept message '' @ go_itoa (int i) @ '' is not the input's message '' @
              go_itoa (int (off + i))))
      else check_loop ms off (Suc i) ks)"

definition check_compaction :: "compaction \<Rightarrow> compact_input \<Rightarrow> err option" where
  "check_compaction c inp =
     (let kept = co_kept c; ms = ci_messages inp in
      if 0 < length kept \<and> length ms \<le> length kept
      then Some (errorf1 (Sentinel (AgentE ErrInvalidCompaction)) '': it keeps every message'')
      else if 0 < length kept \<and> role (hd kept) = RoleTool
      then Some (errorf1 (Sentinel (AgentE ErrInvalidCompaction))
             '': the kept messages start with a tool result'')
      else check_loop ms (length ms - length kept) 0 kept)"

text \<open>What the check accepts: the last messages, shortened but not otherwise changed.\<close>

definition lines_up :: "message \<Rightarrow> message \<Rightarrow> bool" where
  "lines_up k orig \<longleftrightarrow> role k = role orig \<and> tool_call_id k = tool_call_id orig \<and> sameToolCalls k orig"

lemma check_loop_None:
  "off + i + length ks \<le> length ms \<Longrightarrow>
     check_loop ms off i ks = None \<longleftrightarrow> list_all2 lines_up ks (take (length ks) (drop (off + i) ms))"
proof (induction ks arbitrary: i)
  case Nil
  then show ?case by simp
next
  case (Cons k ks)
  then have "drop (off + i) ms = ms ! (off + i) # drop (Suc (off + i)) ms"
    by (simp add: Cons_nth_drop_Suc)
  with Cons.IH [of "Suc i"] Cons.prems show ?case
    by (simp add: Let_def lines_up_def) blast
qed

lemma check_loop_invalid: "check_loop ms off i ks = Some e \<Longrightarrow> err_is e (AgentE ErrInvalidCompaction)"
  by (induction ks arbitrary: i) (auto simp: Let_def split: if_splits)

lemma check_compaction_invalid:
  "check_compaction c inp = Some e \<Longrightarrow> err_is e (AgentE ErrInvalidCompaction)"
  by (auto simp: check_compaction_def Let_def check_loop_invalid split: if_splits)

lemma check_compaction_None:
  "check_compaction c inp = None \<longleftrightarrow>
     co_kept c = [] \<or>
     length (co_kept c) < length (ci_messages inp) \<and> role (hd (co_kept c)) \<noteq> RoleTool \<and>
     list_all2 lines_up (co_kept c)
       (drop (length (ci_messages inp) - length (co_kept c)) (ci_messages inp))"
  using check_loop_None [of "length (ci_messages inp) - length (co_kept c)" 0 "co_kept c" "ci_messages inp"]
  by (cases "co_kept c = []") (auto simp: check_compaction_def Let_def)

subsection \<open>Clipping tool results\<close>

definition clipMiddle :: "string \<Rightarrow> nat \<Rightarrow> string" where
  "clipMiddle s limit =
     (let rs = runes s in
      if length rs \<le> limit then s
      else let half = limit div 2 in
        concat (take half rs) @
        (nl @ ''[... '' @ go_itoa (int (length rs - 2 * half)) @ '' characters cut ...]'' @ nl) @
        concat (drop (length rs - half) rs))"

definition clip_part :: "content_part \<Rightarrow> content_part" where
  "clip_part p =
     (if cp_type p = ContentTypeText then p\<lparr>cp_text := clipMiddle (cp_text p) keptToolResultChars\<rparr>
      else p)"

definition clip_message :: "message \<Rightarrow> message" where
  "clip_message m = (if role m \<noteq> RoleTool then m else m\<lparr>parts := map clip_part (parts m)\<rparr>)"

definition clipToolResults :: "message list \<Rightarrow> message list" where
  "clipToolResults ms = map clip_message ms"

lemma clip_message_simps [simp]:
  "role (clip_message m) = role m" "tool_call_id (clip_message m) = tool_call_id m"
  "tool_calls (clip_message m) = tool_calls m"
  by (simp_all add: clip_message_def)

lemma sameToolCalls_refl [simp]: "sameToolCalls m m"
  by (simp add: sameToolCalls_def list_all2_refl)

lemma lines_up_clip [simp]: "lines_up (clip_message m) m"
  by (simp add: lines_up_def sameToolCalls_def list_all2_refl)

lemma length_clipToolResults [simp]: "length (clipToolResults ms) = length ms"
  by (simp add: clipToolResults_def)

lemma clipToolResults_Nil [simp]: "clipToolResults ms = [] \<longleftrightarrow> ms = []"
  by (simp add: clipToolResults_def)

lemma clipToolResults_drop: "clipToolResults (drop n ms) = drop n (clipToolResults ms)"
  by (simp add: clipToolResults_def drop_map)

lemma lines_up_clipToolResults: "list_all2 lines_up (clipToolResults ms) ms"
  by (simp add: clipToolResults_def list_all2_map1 list_all2_refl)

subsection \<open>SummaryCompactor\<close>

record 'w summary_compactor =
  sc_llm :: "'w llm"
  sc_keep_recent :: int
  sc_keep_tokens :: int
  sc_summary_tokens :: int
  sc_instructions :: string

definition WithSummaryKeepRecent :: "int \<Rightarrow> 'w summary_compactor \<Rightarrow> 'w summary_compactor" where
  "WithSummaryKeepRecent n c = c\<lparr>sc_keep_recent := max n 0\<rparr>"

definition WithSummaryKeepTokens :: "int \<Rightarrow> 'w summary_compactor \<Rightarrow> 'w summary_compactor" where
  "WithSummaryKeepTokens n c = c\<lparr>sc_keep_tokens := max n 0\<rparr>"

definition WithSummaryMaxTokens :: "int \<Rightarrow> 'w summary_compactor \<Rightarrow> 'w summary_compactor" where
  "WithSummaryMaxTokens n c = c\<lparr>sc_summary_tokens := max n 0\<rparr>"

definition WithSummaryPrompt :: "string \<Rightarrow> 'w summary_compactor \<Rightarrow> 'w summary_compactor" where
  "WithSummaryPrompt i c = c\<lparr>sc_instructions := i\<rparr>"

text \<open>\<open>instrument\<close> stands for \<open>trace.InstrumentLLM\<close>.\<close>

definition NewSummaryCompactor ::
  "('w llm \<Rightarrow> 'w llm) \<Rightarrow> 'w llm \<Rightarrow> ('w summary_compactor \<Rightarrow> 'w summary_compactor) list \<Rightarrow>
     'w summary_compactor" where
  "NewSummaryCompactor instrument l opts =
     fold (\<lambda>f c. f c) opts
       \<lparr>sc_llm = instrument l, sc_keep_recent = DefaultKeepRecent, sc_keep_tokens = 0,
        sc_summary_tokens = 0, sc_instructions = []\<rparr>"

definition isUserMessage :: "message \<Rightarrow> bool" where
  "isUserMessage m \<longleftrightarrow> role m = RoleUser"

text \<open>\<open>lastUserMessage\<close> loops from the last message to the first.\<close>

fun last_user_loop :: "message list \<Rightarrow> message option" where
  "last_user_loop [] = None"
| "last_user_loop (m # ms) = (if isUserMessage m then Some m else last_user_loop ms)"

definition lastUserMessage :: "message list \<Rightarrow> message option" where
  "lastUserMessage ms = last_user_loop (rev ms)"

definition defaultSummaryInstructions :: string where
  \<open>defaultSummaryInstructions = go_join [
    ''# Role'',
    ''You maintain the working memory of an AI agent in the middle of a long task. Write an updated'',
    ''summary that lets the agent continue without the messages it replaces.'',
    '''',
    ''# Task'',
    ''Update the previous summary (if any) with the new conversation below. Keep everything from the'',
    ''previous summary that is still true; replace what changed. Use exactly these sections:'',
    '''',
    ''## Task'',
    ''The user's goal and the current sub-task, in their words where it matters.'',
    '''',
    ''## Decisions and facts'',
    ''Decisions taken and why, constraints, and facts learned.'',
    '''',
    ''## Work done'',
    ''Actions taken and their outcome: the tool calls that mattered and what they used or changed,'',
    ''errors met and whether they were resolved.'',
    '''',
    ''## User preferences'',
    ''Explicit or implicit preferences about the work and the answers.'',
    '''',
    ''## Open items / next steps'',
    ''What is left to do, pending questions, and the next step the agent was about to take.'',
    '''',
    ''# Constraints'',
    ''- Be dense and factual. Use Markdown bullet points under each section.'',
    ''- No filler such as "The user and the assistant discussed".'',
    ''- If something changed, record only its latest state.''] nl\<close>

definition summaryBudgetPrompt :: "int \<Rightarrow> int \<Rightarrow> string" where
  "summaryBudgetPrompt tokens words =
     nl @ nl @ ''# LENGTH'' @ nl @ ''Keep the summary under '' @ go_itoa tokens @
     '' tokens (about '' @ go_itoa words @
     '' words). Prefer short bullet points; drop detail before dropping sections.''"

definition summary_prompt :: "'w summary_compactor \<Rightarrow> string \<Rightarrow> message list \<Rightarrow> message" where
  "summary_prompt c previous conversation =
     (let instructions = (if blank (sc_instructions c) then defaultSummaryInstructions
                          else sc_instructions c);
          previous' = (if blank previous then ''(none)'' else previous)
      in UserMessage [Text (trim_space instructions @ nl @ nl @ ''# PREVIOUS SUMMARY'' @ nl @
           previous' @ nl @ nl @ ''# NEW CONVERSATION'' @ nl @ Conversation conversation)])"

definition add_text_0 :: "string \<Rightarrow> message \<Rightarrow> message" where
  "add_text_0 s m =
     (case parts m of [] \<Rightarrow> m
      | p # ps \<Rightarrow> m\<lparr>parts := p\<lparr>cp_text := cp_text p @ s\<rparr> # ps\<rparr>)"

definition summarize ::
  "'w summary_compactor \<Rightarrow> 'w goctx \<Rightarrow> string \<Rightarrow> message list \<Rightarrow> 'w \<Rightarrow> (err + string) \<times> 'w" where
  "summarize c ctx previous older w =
     (let prompt0 = summary_prompt c previous older;
          n = sc_summary_tokens c;
          prompt = (if 0 < n then add_text_0 (summaryBudgetPrompt n (n * 3 div 4)) prompt0 else prompt0);
          opts = (if 0 < n then [Some (WithMaxOutputTokens (n + n div 2))] else []);
          (res1, w1) = llm_execute (sc_llm c) ctx [prompt] opts w;
          (res, w2) =
            (case res1 of
               Inr (Some r) \<Rightarrow>
                 if opts \<noteq> [] \<and> res_finish r = FinishLength
                 then llm_execute (sc_llm c) ctx [prompt] [] w1 else (res1, w1)
             | _ \<Rightarrow> (res1, w1))
      in case res of
           Inl e \<Rightarrow> (Inl (CompactionError e), w2)
         | Inr None \<Rightarrow> (Inl (CompactionError (Sentinel (AgentE ErrIncompleteStream))), w2)
         | Inr (Some r) \<Rightarrow>
             (case res_message r of
                None \<Rightarrow> (Inl (CompactionError (Sentinel (AgentE ErrIncompleteStream))), w2)
              | Some m \<Rightarrow> (Inr (msg_text m), w2)))"

definition keep_budget :: "'w summary_compactor \<Rightarrow> compact_input \<Rightarrow> int" where
  "keep_budget c inp =
     (let b0 = sc_keep_tokens c;
          b1 = (if b0 \<le> 0 then ci_keep_tokens inp else b0)
      in if b1 \<le> 0 then DefaultKeepTokens else b1)"

function keep_loop :: "message list \<Rightarrow> int \<Rightarrow> nat \<Rightarrow> nat" where
  "keep_loop ms budget start =
     (if start < length ms \<and> budget < int (EstimateTokens (clipToolResults (drop start ms)))
      then keep_loop ms budget (Suc start) else start)"
  by pat_completeness auto
termination
  by (relation "measure (\<lambda>(ms, budget, start). length ms - start)") auto

declare keep_loop.simps [simp del]

definition keepFrom :: "'w summary_compactor \<Rightarrow> compact_input \<Rightarrow> nat" where
  "keepFrom c inp =
     keep_loop (ci_messages inp) (keep_budget c inp)
       (nat (max (int (length (ci_messages inp)) - sc_keep_recent c) 0))"

definition Compact_summary :: "'w summary_compactor \<Rightarrow> 'w compactor" where
  "Compact_summary c ctx inp w =
     (let ms = ci_messages inp; split = SplitPoint ms (int (keepFrom c inp)) in
      if split = 0 then (Inr None, w)
      else
        let older = take split ms; recent = drop split ms;
            previous = (case ci_previous inp of None \<Rightarrow> [] | Some s \<Rightarrow> sn_summary s)
        in case summarize c ctx previous older w of
             (Inl e, w') \<Rightarrow> (Inl e, w')
           | (Inr t, w') \<Rightarrow>
               (let pinned =
                      (if list_ex isUserMessage recent then []
                       else case lastUserMessage older of
                              Some task \<Rightarrow> [task]
                            | None \<Rightarrow> (case ci_previous inp of None \<Rightarrow> [] | Some s \<Rightarrow> sn_pinned s))
                in (Inr (Some \<lparr>co_snapshot = \<lparr>sn_summary = t, sn_pinned = pinned, sn_upTo = []\<rparr>,
                               co_kept = clipToolResults recent\<rparr>), w')))"

subsection \<open>Facts about the SummaryCompactor\<close>

lemma keep_budget_pos: "0 < keep_budget c inp"
  by (simp add: keep_budget_def Let_def DefaultKeepTokens_def)

lemma keep_loop_props:
  "start \<le> length ms \<Longrightarrow> 0 < budget \<Longrightarrow>
     start \<le> keep_loop ms budget start \<and> keep_loop ms budget start \<le> length ms \<and>
     int (EstimateTokens (clipToolResults (drop (keep_loop ms budget start) ms))) \<le> budget \<and>
     (\<forall>k. start \<le> k \<and> k < keep_loop ms budget start \<longrightarrow>
        budget < int (EstimateTokens (clipToolResults (drop k ms))))"
proof (induction ms budget start rule: keep_loop.induct)
  case (1 ms budget start)
  show ?case
  proof (cases "start < length ms \<and> budget < int (EstimateTokens (clipToolResults (drop start ms)))")
    case True
    then have e: "keep_loop ms budget start = keep_loop ms budget (Suc start)"
      by (simp add: keep_loop.simps [of ms budget start])
    have "k = start \<or> Suc start \<le> k" if "start \<le> k" for k using that by auto
    then show ?thesis
      unfolding e using 1 True by (metis Suc_leD Suc_leI)
  next
    case False
    then have e: "keep_loop ms budget start = start"
      by (subst keep_loop.simps) (simp only: if_False)
    show ?thesis
      unfolding e using False "1.prems" by (cases "start < length ms") (auto simp: clipToolResults_def)
  qed
qed

lemma EstimateTokens_drop_le: "EstimateTokens (drop n ms) \<le> EstimateTokens ms"
  using EstimateTokens_append_le [of "drop n ms" "take n ms"] by simp

lemma last_user_loop_skip:
  "list_all (\<lambda>m. role m \<noteq> RoleUser) ys \<Longrightarrow> last_user_loop (ys @ zs) = last_user_loop zs"
  by (induction ys) (auto simp: isUserMessage_def)

text \<open>The last user message: it is in the list, and no user message follows it.\<close>

lemma lastUserMessage_last:
  assumes "role m = RoleUser" and "list_all (\<lambda>y. role y \<noteq> RoleUser) ys"
  shows "lastUserMessage (xs @ m # ys) = Some m"
  using assms last_user_loop_skip [of "rev ys" "m # rev xs"]
  by (simp add: lastUserMessage_def isUserMessage_def)

lemma lastUserMessage_None: "lastUserMessage ms = None \<longleftrightarrow> list_all (\<lambda>y. role y \<noteq> RoleUser) ms"
proof -
  have "last_user_loop zs = None \<longleftrightarrow> list_all (\<lambda>y. role y \<noteq> RoleUser) zs" for zs
    by (induction zs) (auto simp: isUserMessage_def)
  then show ?thesis by (simp add: lastUserMessage_def)
qed

lemma lastUserMessage_role: "lastUserMessage ms = Some m \<Longrightarrow> role m = RoleUser \<and> m \<in> set ms"
proof -
  have "last_user_loop zs = Some m \<Longrightarrow> role m = RoleUser \<and> m \<in> set zs" for zs
    by (induction zs) (auto simp: isUserMessage_def split: if_splits)
  from this [of "rev ms"] show "lastUserMessage ms = Some m \<Longrightarrow> role m = RoleUser \<and> m \<in> set ms"
    by (simp add: lastUserMessage_def)
qed

text \<open>What the compactor returns, by the split it computes.\<close>

definition compact_split :: "'w summary_compactor \<Rightarrow> compact_input \<Rightarrow> nat" where
  "compact_split c inp = SplitPoint (ci_messages inp) (int (keepFrom c inp))"

lemma keepFrom_props:
  assumes "0 \<le> sc_keep_recent c"
  shows "keepFrom c inp \<le> length (ci_messages inp)"
    and "int (length (ci_messages inp)) - sc_keep_recent c \<le> int (keepFrom c inp)"
    and "int (EstimateTokens (clipToolResults (drop (keepFrom c inp) (ci_messages inp)))) \<le> keep_budget c inp"
proof -
  let ?start = "nat (max (int (length (ci_messages inp)) - sc_keep_recent c) 0)"
  have "?start \<le> length (ci_messages inp)" using assms by simp
  note p = keep_loop_props [OF this keep_budget_pos [of c inp], folded keepFrom_def]
  from p show "keepFrom c inp \<le> length (ci_messages inp)"
    and "int (EstimateTokens (clipToolResults (drop (keepFrom c inp) (ci_messages inp)))) \<le> keep_budget c inp"
    by blast+
  from p have "?start \<le> keepFrom c inp" by blast
  then show "int (length (ci_messages inp)) - sc_keep_recent c \<le> int (keepFrom c inp)" by linarith
qed

lemma compact_split_le: "compact_split c inp \<le> length (ci_messages inp)"
  by (simp add: compact_split_def SplitPoint_le)

lemma Compact_summary_kept:
  assumes "Compact_summary c ctx inp w = (Inr (Some co), w')"
  shows "0 < compact_split c inp \<and>
    co_kept co = clipToolResults (drop (compact_split c inp) (ci_messages inp))"
  using assms
  by (auto simp: Compact_summary_def compact_split_def Let_def split: if_splits prod.splits sum.splits)

lemma Compact_summary_valid:
  assumes "Compact_summary c ctx inp w = (Inr (Some co), w')"
  shows "check_compaction co inp = None"
proof -
  let ?ms = "ci_messages inp" and ?n = "compact_split c inp"
  from Compact_summary_kept [OF assms] have n: "0 < ?n"
    and kept: "co_kept co = clipToolResults (drop ?n ?ms)" by auto
  have le: "?n \<le> length ?ms" by (rule compact_split_le)
  show ?thesis
  proof (cases "drop ?n ?ms")
    case Nil
    with kept show ?thesis by (simp add: check_compaction_None)
  next
    case (Cons m rest)
    have "dropWhile is_tool (drop (nat (min (int (keepFrom c inp)) (int (length ?ms)))) ?ms) = m # rest"
      using Cons by (simp add: compact_split_def drop_SplitPoint)
    then have "role m \<noteq> RoleTool" by (rule hd_dropWhile_is_tool)
    moreover have "hd (co_kept co) = clip_message m" using kept Cons by (simp add: clipToolResults_def)
    moreover have "length (co_kept co) = length ?ms - ?n" using kept by simp
    moreover have "length ?ms - (length ?ms - ?n) = ?n" using le by simp
    moreover have "length ?ms - ?n < length ?ms" using n le by simp
    ultimately show ?thesis
      using kept lines_up_clipToolResults [of "drop ?n ?ms"] by (simp add: check_compaction_None)
  qed
qed

lemma Compact_summary_budget:
  assumes "Compact_summary c ctx inp w = (Inr (Some co), w')" and "0 \<le> sc_keep_recent c"
  shows "int (length (co_kept co)) \<le> sc_keep_recent c \<and>
    int (EstimateTokens (co_kept co)) \<le> keep_budget c inp"
proof -
  let ?ms = "ci_messages inp" and ?n = "compact_split c inp"
  note kf = keepFrom_props [OF assms(2), of inp]
  have kept: "co_kept co = clipToolResults (drop ?n ?ms)"
    using Compact_summary_kept [OF assms(1)] by simp
  have ge: "keepFrom c inp \<le> ?n"
    using SplitPoint_ge [of "int (keepFrom c inp)" ?ms] kf(1) by (simp add: compact_split_def)
  have "drop ?n ?ms = drop (?n - keepFrom c inp) (drop (keepFrom c inp) ?ms)" using ge by simp
  then have "co_kept co = drop (?n - keepFrom c inp) (clipToolResults (drop (keepFrom c inp) ?ms))"
    using kept clipToolResults_drop by metis
  then have "EstimateTokens (co_kept co) \<le> EstimateTokens (clipToolResults (drop (keepFrom c inp) ?ms))"
    by (simp only: EstimateTokens_drop_le)
  moreover have "int (length (co_kept co)) \<le> sc_keep_recent c"
    using kept kf(2) ge assms(2) by simp
  ultimately show ?thesis using kf(3) by linarith
qed

subsection \<open>The contract of a compactor\<close>

locale valid_compactor =
  fixes compact :: "'w compactor"
  assumes valid: "compact ctx inp w = (Inr (Some co), w') \<Longrightarrow> check_compaction co inp = None"
begin

lemma keeps_fewer:
  assumes "compact ctx inp w = (Inr (Some co), w')" and "ci_messages inp \<noteq> []"
  shows "length (co_kept co) < length (ci_messages inp)"
  using valid [OF assms(1)] assms(2) by (auto simp: check_compaction_None)

lemma keeps_roles:
  assumes "compact ctx inp w = (Inr (Some co), w')"
  shows "map role (co_kept co) =
    map role (drop (length (ci_messages inp) - length (co_kept co)) (ci_messages inp))"
proof (cases "co_kept co = []")
  case True
  then show ?thesis by simp
next
  case False
  with valid [OF assms] have "list_all2 lines_up (co_kept co)
      (drop (length (ci_messages inp) - length (co_kept co)) (ci_messages inp))"
    by (simp add: check_compaction_None)
  then show ?thesis by (induction rule: list_all2_induct) (auto simp: lines_up_def)
qed

end

interpretation sc: valid_compactor "Compact_summary c" for c
  by unfold_locales (rule Compact_summary_valid)

subsection \<open>Properties\<close>

text \<open>
  What the \<open>SummaryCompactor\<close> returns always passes the agent's check: it keeps the last
  messages, in order, with their roles and tool calls, not all of them, and not starting with a
  tool result.
\<close>

theorem summary_compaction_valid:
  "case Compact_summary c ctx inp w of
     (Inr (Some co), w') \<Rightarrow> check_compaction co inp = None
   | _ \<Rightarrow> True"
  using Compact_summary_valid by (auto split: prod.splits sum.splits option.splits)

text \<open>
  The messages it keeps are at most the number of \<open>WithSummaryKeepRecent\<close>, and they fit the token
  budget: the one of \<open>WithSummaryKeepTokens\<close>, else the agent's, else the default.
\<close>

theorem summary_compaction_in_budget:
  "case Compact_summary (WithSummaryKeepRecent n c) ctx inp w of
     (Inr (Some co), w') \<Rightarrow>
       int (length (co_kept co)) \<le> max n 0 \<and>
       int (EstimateTokens (co_kept co)) \<le>
         (if 0 < sc_keep_tokens c then sc_keep_tokens c
          else if 0 < ci_keep_tokens inp then ci_keep_tokens inp else DefaultKeepTokens)
   | _ \<Rightarrow> True"
proof -
  let ?c = "WithSummaryKeepRecent n c"
  have r: "sc_keep_recent ?c = max n 0" by (simp add: WithSummaryKeepRecent_def)
  have b: "keep_budget ?c inp = (if 0 < sc_keep_tokens c then sc_keep_tokens c
      else if 0 < ci_keep_tokens inp then ci_keep_tokens inp else DefaultKeepTokens)"
    by (simp add: keep_budget_def WithSummaryKeepRecent_def Let_def)
  have "int (length (co_kept co)) \<le> max n 0 \<and> int (EstimateTokens (co_kept co)) \<le> keep_budget ?c inp"
    if "Compact_summary ?c ctx inp w = (Inr (Some co), w')" for co w'
    using Compact_summary_budget [OF that] r by simp
  then show ?thesis unfolding b [symmetric] by (auto split: prod.splits sum.splits option.splits)
qed

text \<open>
  The task stays verbatim: the last user message of the messages compacted, when they hold one,
  is the last user message of the pinned and kept messages.
\<close>

theorem summary_compaction_keeps_task:
  "case Compact_summary c ctx inp w of
     (Inr (Some co), w') \<Rightarrow>
       lastUserMessage (ci_messages inp) = None \<or>
       lastUserMessage (sn_pinned (co_snapshot co) @ co_kept co) = lastUserMessage (ci_messages inp)
   | _ \<Rightarrow> True"
proof -
  have last_append: "lastUserMessage (xs @ ys) =
      (case lastUserMessage ys of None \<Rightarrow> lastUserMessage xs | Some m \<Rightarrow> Some m)" for xs ys
  proof -
    have "last_user_loop (us @ vs) = (case last_user_loop us of None \<Rightarrow> last_user_loop vs | Some m \<Rightarrow> Some m)"
      for us vs by (induction us) auto
    then show ?thesis unfolding lastUserMessage_def rev_append by (simp only:)
  qed
  have clip: "lastUserMessage (clipToolResults ms) = lastUserMessage ms" for ms
  proof -
    have "last_user_loop (map clip_message us) = last_user_loop us" for us
      by (induction us) (auto simp: isUserMessage_def clip_message_def)
    then show ?thesis by (simp add: lastUserMessage_def clipToolResults_def rev_map)
  qed
  have "lastUserMessage (ci_messages inp) = None \<or>
       lastUserMessage (sn_pinned (co_snapshot co) @ co_kept co) = lastUserMessage (ci_messages inp)"
    if co: "Compact_summary c ctx inp w = (Inr (Some co), w')" for co w'
  proof -
    let ?older = "take (compact_split c inp) (ci_messages inp)"
    let ?recent = "drop (compact_split c inp) (ci_messages inp)"
    have kept: "co_kept co = clipToolResults ?recent" using Compact_summary_kept [OF co] by simp
    have pinned: "sn_pinned (co_snapshot co) = (if list_ex isUserMessage ?recent then []
        else case lastUserMessage ?older of Some task \<Rightarrow> [task]
          | None \<Rightarrow> (case ci_previous inp of None \<Rightarrow> [] | Some s \<Rightarrow> sn_pinned s))"
      using co by (auto simp: Compact_summary_def compact_split_def Let_def
          split: if_splits prod.splits sum.splits)
    have all: "lastUserMessage (ci_messages inp) =
        (case lastUserMessage ?recent of None \<Rightarrow> lastUserMessage ?older | Some m \<Rightarrow> Some m)"
      using last_append [of ?older ?recent] by simp
    have ex: "list_ex isUserMessage ?recent \<longleftrightarrow> lastUserMessage ?recent \<noteq> None"
      by (auto simp: lastUserMessage_None list_ex_iff list_all_iff isUserMessage_def)
    have single: "lastUserMessage [m] = Some m" if "lastUserMessage ?older = Some m" for m
      using lastUserMessage_role [OF that] lastUserMessage_last [of m "[]" "[]"] by simp
    show ?thesis
      unfolding last_append kept clip all pinned ex
      by (cases "lastUserMessage ?recent"; cases "lastUserMessage ?older") (simp_all add: single)
  qed
  then show ?thesis by (auto split: prod.splits sum.splits option.splits)
qed

end
