(* ===== verification/Agent_Core.thy ===== *)
theory Agent_Core
  imports Agent_Compact
begin

section \<open>Package agent: the agent, its tools and the round of tool calls\<close>

text \<open>
  The data of \<open>agent/agent.go\<close>, \<open>agent/stream.go\<close> and \<open>agent/errors.go\<close>, the agent's
  configuration (\<open>New\<close>, \<open>AddTool\<close>, \<open>AddHandoff\<close> and the setters), the pure helpers on messages,
  and the execution of a round of tool calls. The loop itself is in theory \<open>Agent_Run\<close>.

  What the agent's environment provides is an argument: \<open>env_decode_handoff\<close> is
  \<open>json.Unmarshal\<close> into a \<open>HandoffInput\<close>, \<open>env_handoff_schema\<close> is the schema
  reflection of \<open>llm.NewTool\<close> for it, \<open>env_sched\<close> the order in which the goroutines of a batch
  get to run, and \<open>env_run_id\<close> the random identifier of a run. A handler is one atomic step of the world,
  so a batch is an interleaving of whole handlers.

  The spans an agent records are the values of \<open>span\<close>, in the order they end; durations and
  span identifiers are left out. A pointer to another agent is an \<open>agent_ref\<close>.
\<close>

subsection \<open>Errors\<close>

definition StopRun :: "err option \<Rightarrow> err" where
  "StopRun cause =
     (case cause of
        None \<Rightarrow> Sentinel (AgentE ErrStopRun)
      | Some e \<Rightarrow> errorf2 (Sentinel (AgentE ErrStopRun)) e)"

lemma StopRun_is [simp]: "err_is (StopRun cause) (AgentE ErrStopRun)"
  by (simp add: StopRun_def split: option.splits)

lemma StopRun_cause: "err_is e t \<Longrightarrow> err_is (StopRun (Some e)) t"
  by (simp add: StopRun_def)

subsection \<open>Agents, results and events\<close>

record agent_ref =
  ar_id :: nat
  ar_name :: string
  ar_description :: string

record 'w snapshot_ops =
  so_load :: "'w goctx \<Rightarrow> 'w \<Rightarrow> (err + snapshot option \<times> logged_message list) \<times> 'w"
  so_save :: "'w goctx \<Rightarrow> snapshot \<Rightarrow> cursor \<Rightarrow> snapshot option \<Rightarrow> 'w \<Rightarrow> err option \<times> 'w"

text \<open>A memory; \<open>mem_store\<close> is set when it implements \<open>memory.SnapshotStore\<close>.\<close>

record 'w memory_ops =
  mem_save :: "'w goctx \<Rightarrow> message list \<Rightarrow> 'w \<Rightarrow> err option \<times> 'w"
  mem_retrieve :: "'w goctx \<Rightarrow> string \<Rightarrow> 'w \<Rightarrow> (err + message list) \<times> 'w"
  mem_store :: "'w snapshot_ops option"

record 'w agent =
  ag_llm :: "'w llm"
  ag_name :: string
  ag_description :: string
  ag_max_iterations :: int
  ag_tools :: "'w tool list"
  ag_response_format :: "response_format option"
  ag_memory :: "'w memory_ops option"
  ag_handoffs :: "string \<rightharpoonup> agent_ref"
  ag_compactor :: "'w compactor option"
  ag_compact_at :: int
  ag_checkpoint :: bool
  ag_max_parallel :: int

record handoff =
  ho_agent :: "agent_ref option"
  ho_context :: string

record run_result =
  rr_parts :: "content_part list"
  rr_handoffs :: "handoff list"
  rr_finish :: string

definition empty_run_result :: run_result where
  "empty_run_result = \<lparr>rr_parts = [], rr_handoffs = [], rr_finish = []\<rparr>"

datatype event_type =
    EventTextDelta | EventReasoningDelta | EventToolCall | EventToolResult | EventDone
  | EventUsage | EventCompactionStart | EventCompactionEnd

record event =
  ev_type :: event_type
  ev_text_delta :: string
  ev_reasoning_delta :: string
  ev_tool_call_id :: string
  ev_tool_name :: string
  ev_tool_args :: string
  ev_tool_result :: string
  ev_tool_error :: bool
  ev_usage :: "usage option"
  ev_compaction :: "compaction_info option"
  ev_iteration :: nat
  ev_result :: "run_result option"

definition empty_event :: event where
  "empty_event = \<lparr>ev_type = EventTextDelta, ev_text_delta = [], ev_reasoning_delta = [],
     ev_tool_call_id = [], ev_tool_name = [], ev_tool_args = [], ev_tool_result = [],
     ev_tool_error = False, ev_usage = None, ev_compaction = None, ev_iteration = 0,
     ev_result = None\<rparr>"

datatype memory_op = MemoryRetrieve | MemorySave | MemoryCompact | MemorySnapshot

record memory_payload =
  mp_op :: memory_op
  mp_query :: string
  mp_messages :: "message list"
  mp_count :: nat

record tool_payload =
  tp_name :: string
  tp_call_id :: string
  tp_iteration :: nat
  tp_arguments :: string
  tp_result :: string

record llm_call =
  lc_provider :: string
  lc_request_model :: string
  lc_response_model :: string
  lc_iteration :: nat
  lc_message_offset :: nat
  lc_messages :: "message list"
  lc_tools :: "(string \<times> string \<times> json option) list"
  lc_response_format :: string
  lc_response :: "message option"
  lc_usage :: "usage option"
  lc_finish :: string
  lc_raw_finish :: string
  lc_streaming :: bool

datatype span =
    LLMSpan llm_call "err option"
  | MemorySpan memory_payload "err option"
  | ToolSpan tool_payload "err option"
  | HandoffSpan string string string

record 'w agent_env =
  env_decode_handoff :: "string \<Rightarrow> err + string"
  env_handoff_schema :: "string \<Rightarrow> err + json \<times> json"
  env_sched :: "'w \<Rightarrow> nat list \<Rightarrow> nat list"
  env_run_id :: string

subsection \<open>Configuration\<close>

definition DefaultMaxIterations :: int where "DefaultMaxIterations = 25"

definition New_agent :: "'w llm option \<Rightarrow> string \<Rightarrow> string \<Rightarrow> err + 'w agent" where
  "New_agent client name description =
     (case client of
        None \<Rightarrow> Inl (Sentinel (AgentE ErrUndefinedLLM))
      | Some l \<Rightarrow>
          if name = [] then Inl (Sentinel (AgentE ErrNameRequired))
          else if description = [] then Inl (Sentinel (AgentE ErrDescriptionRequired))
          else Inr \<lparr>ag_llm = l, ag_name = name, ag_description = description,
            ag_max_iterations = DefaultMaxIterations, ag_tools = [], ag_response_format = None,
            ag_memory = None, ag_handoffs = Map.empty, ag_compactor = None, ag_compact_at = 0,
            ag_checkpoint = False, ag_max_parallel = 0\<rparr>)"

definition getTool :: "'w agent \<Rightarrow> string \<Rightarrow> 'w tool option" where
  "getTool a n = List.find (\<lambda>t. tool_name t = n) (ag_tools a)"

definition AddTool :: "'w tool \<Rightarrow> 'w agent \<Rightarrow> err + 'w agent" where
  "AddTool t a =
     (if getTool a (tool_name t) \<noteq> None then Inl (ToolAlreadyExistsError (tool_name t))
      else Inr (a\<lparr>ag_tools := ag_tools a @ [t]\<rparr>))"

definition SanitizeToolName_agent :: "string \<Rightarrow> string" where
  "SanitizeToolName_agent name =
     (let s = SanitizeToolName name in if s \<noteq> [] then s else ''agent'')"

text \<open>
  \<open>llm.NewTool\<close>: \<open>schemas\<close> is the schema reflection with its strict and loose transforms,
  \<open>decode\<close> is \<open>json.Unmarshal\<close> into the handler's argument type.
\<close>

definition NewTool ::
  "(string \<Rightarrow> err + json \<times> json) \<Rightarrow> (string \<Rightarrow> err + 'a) \<Rightarrow> string \<Rightarrow> string \<Rightarrow>
     ('w goctx \<Rightarrow> 'a \<Rightarrow> 'w \<Rightarrow> (err + tool_value) outcome \<times> 'w) \<Rightarrow> err + 'w tool" where
  "NewTool schemas decode name description handler =
     (if name = [] then Inl (Sentinel (LlmE ErrToolNameRequired))
      else case schemas description of
        Inl e \<Rightarrow> Inl e
      | Inr (strictSchema, looseSchema) \<Rightarrow>
          Inr \<lparr>tl_info = \<lparr>ti_name = name, ti_description = description,
                  ti_input_schema = Some strictSchema, ti_loose_schema = Some looseSchema,
                  ti_strict = True, ti_exclusive = False\<rparr>,
               tl_handle = (\<lambda>ctx arguments w.
                 case decode arguments of
                   Inl e \<Rightarrow> (Returned (Inl (ToolArgumentParseError e)), w)
                 | Inr args \<Rightarrow> handler ctx args w),
               tl_middlewares = []\<rparr>)"

definition handoff_tool_name :: "agent_ref \<Rightarrow> string" where
  "handoff_tool_name h = ''handoff_to_'' @ SanitizeToolName_agent (ar_name h)"

definition AddHandoff :: "'w agent_env \<Rightarrow> agent_ref \<Rightarrow> 'w agent \<Rightarrow> err + 'w agent" where
  "AddHandoff env h a =
     (let toolName = handoff_tool_name h in
      if getTool a toolName \<noteq> None then Inl (ToolAlreadyExistsError toolName)
      else case NewTool (env_handoff_schema env) (env_decode_handoff env) toolName (ar_description h)
                  (\<lambda>ctx args w. (Returned (Inr (VString (toolName @ '': success''))), w)) of
        Inl e \<Rightarrow> Inl e
      | Inr t \<Rightarrow> Inr (a\<lparr>ag_tools := ag_tools a @ [t],
                       ag_handoffs := (ag_handoffs a)(toolName \<mapsto> h)\<rparr>))"

definition SetLLM :: "'w llm option \<Rightarrow> 'w agent \<Rightarrow> err + 'w agent" where
  "SetLLM client a =
     (case client of None \<Rightarrow> Inl (Sentinel (AgentE ErrUndefinedLLM)) | Some l \<Rightarrow> Inr (a\<lparr>ag_llm := l\<rparr>))"

definition SetMemory :: "'w memory_ops option \<Rightarrow> 'w agent \<Rightarrow> 'w agent" where
  "SetMemory mem a = a\<lparr>ag_memory := mem\<rparr>"

definition SetCheckpoint :: "bool \<Rightarrow> 'w agent \<Rightarrow> 'w agent" where
  "SetCheckpoint enabled a = a\<lparr>ag_checkpoint := enabled\<rparr>"

definition SetMaxParallelTools :: "int \<Rightarrow> 'w agent \<Rightarrow> 'w agent" where
  "SetMaxParallelTools n a = a\<lparr>ag_max_parallel := max n 0\<rparr>"

definition SetMaxIterations :: "int \<Rightarrow> 'w agent \<Rightarrow> 'w agent" where
  "SetMaxIterations n a = a\<lparr>ag_max_iterations := n\<rparr>"

definition SetResponseFormat :: "response_format option \<Rightarrow> 'w agent \<Rightarrow> 'w agent" where
  "SetResponseFormat f a = a\<lparr>ag_response_format := f\<rparr>"

definition SetCompaction :: "'w compactor option \<Rightarrow> int \<Rightarrow> 'w agent \<Rightarrow> 'w agent" where
  "SetCompaction c atTokens a = a\<lparr>ag_compactor := c, ag_compact_at := max atTokens 0\<rparr>"

definition keepTokens :: "'w agent \<Rightarrow> int" where
  "keepTokens a = ag_compact_at a div 4"

definition callOptions :: "'w agent \<Rightarrow> 'w call_option option list" where
  "callOptions a =
     [Some (WithTools (map Some (ag_tools a)))] @
     (case ag_response_format a of None \<Rightarrow> [] | Some f \<Rightarrow> [Some (WithResponseFormat (Some f))])"

subsection \<open>Messages\<close>

definition textOnly :: "content_part list \<Rightarrow> content_part list" where
  "textOnly ps = filter (\<lambda>p. cp_type p = ContentTypeText) ps"

definition nonBlankParts :: "content_part list \<Rightarrow> content_part list" where
  "nonBlankParts ps = filter (\<lambda>p. \<not> (cp_type p = ContentTypeText \<and> blank (cp_text p))) ps"

fun empty_parts :: "content_part list \<Rightarrow> bool" where
  "empty_parts [] = True"
| "empty_parts (p # ps) =
     (if (cp_type p = ContentTypeText \<or> cp_type p = ContentTypeReasoning) \<and> \<not> blank (cp_text p)
      then False
      else if cp_type p = ContentTypeRedactedReasoning \<and> cp_text p \<noteq> [] then False
      else if cp_type p = ContentTypeImageURL \<and> cp_image_url p \<noteq> [] then False
      else if cp_type p = ContentTypeImageBase64 \<and> cp_image_base64 p \<noteq> [] then False
      else empty_parts ps)"

definition isEmptyAnswer :: "message \<Rightarrow> bool" where
  "isEmptyAnswer m \<longleftrightarrow>
     (if role m \<noteq> RoleAssistant \<or> tool_calls m \<noteq> [] then False else empty_parts (parts m))"

definition replayable :: "message list \<Rightarrow> message list" where
  "replayable ms =
     (if \<not> list_ex isEmptyAnswer ms then ms else filter (\<lambda>m. \<not> isEmptyAnswer m) ms)"

text \<open>\<open>partialResultFromSession\<close> scans from the last message to the first.\<close>

fun partial_loop :: "message list \<Rightarrow> run_result" where
  "partial_loop [] = empty_run_result"
| "partial_loop (m # ms) =
     (if role m \<noteq> RoleAssistant then partial_loop ms
      else let textParts = textOnly (parts m) in
        if 0 < length textParts then empty_run_result\<lparr>rr_parts := textParts\<rparr> else partial_loop ms)"

definition partialResultFromSession :: "message list \<Rightarrow> run_result" where
  "partialResultFromSession session = partial_loop (rev session)"

definition result_text :: "run_result option \<Rightarrow> string" where
  "result_text r = (case r of None \<Rightarrow> [] | Some r' \<Rightarrow> TextContent (rr_parts r'))"

definition handoff_note :: "handoff \<Rightarrow> string" where
  "handoff_note h =
     (let name = (case ho_agent h of None \<Rightarrow> [] | Some r \<Rightarrow> ar_name r);
          note = ''handed off to '' @ name; c = trim_space (ho_context h)
      in if c \<noteq> [] then note @ '': '' @ c else note)"

definition ReplyText :: "run_result option \<Rightarrow> string" where
  "ReplyText r =
     (case r of
        None \<Rightarrow> []
      | Some r' \<Rightarrow>
          let t = result_text r in
          if \<not> blank t \<or> rr_handoffs r' = [] then t
          else go_join (map handoff_note (rr_handoffs r')) nl)"

definition cancellationError :: "'w goctx \<Rightarrow> 'w \<Rightarrow> err option" where
  "cancellationError ctx w =
     (case ctx_err ctx w of
        None \<Rightarrow> None
      | Some e \<Rightarrow>
          (case ctx_cause ctx w of
             None \<Rightarrow> Some e
           | Some cause \<Rightarrow>
               (case e of
                  Sentinel s \<Rightarrow> if err_is cause s then Some e else Some (errorf2 e cause)
                | _ \<Rightarrow> Some (errorf2 e cause))))"

datatype stop_reason =
    StopFinal | StopMaxIterations | StopHandoff | StopRequested | StopCancelled | StopGuardrail
  | StopError

definition errors_is :: "err option \<Rightarrow> sentinel \<Rightarrow> bool" where
  "errors_is e s = (case e of None \<Rightarrow> False | Some e' \<Rightarrow> err_is e' s)"

definition stopReason :: "'w goctx \<Rightarrow> 'w \<Rightarrow> run_result option \<Rightarrow> err option \<Rightarrow> stop_reason" where
  "stopReason ctx w result e =
     (if errors_is e (AgentE ErrMaxIterationsReached) then StopMaxIterations
      else if errors_is e (AgentE ErrStopRun) then StopRequested
      else if e \<noteq> None \<and> (ctx_err ctx w \<noteq> None \<or> errors_is e (StdE CtxCanceled) \<or>
                            errors_is e (StdE CtxDeadlineExceeded)) then StopCancelled
      else if errors_is e (LlmE ErrGuardrailBlocked) then StopGuardrail
      else if e \<noteq> None then StopError
      else (case result of
              Some r \<Rightarrow> if 0 < length (rr_handoffs r) then StopHandoff else StopFinal
            | None \<Rightarrow> StopFinal))"

subsection \<open>One tool call\<close>

definition anyToContentParts :: "tool_value \<Rightarrow> content_part list" where
  "anyToContentParts v =
     (case v of
        VNil \<Rightarrow> []
      | VParts ps \<Rightarrow> ps
      | VString s \<Rightarrow> [Text s]
      | VOther (Inl e) \<Rightarrow> [Text (''failed to marshal tool result: '' @ err_text e)]
      | VOther (Inr b) \<Rightarrow> [Text b])"

definition executeToolCall ::
  "'w agent \<Rightarrow> 'w goctx \<Rightarrow> tool_call \<Rightarrow> 'w \<Rightarrow> (err + content_part list) \<times> 'w" where
  "executeToolCall a ctx tc w =
     (let name = fc_name (tc_function tc) in
      case getTool a name of
        None \<Rightarrow> (Inl (ToolUnknownError name), w)
      | Some tool \<Rightarrow>
          (case Handle tool (ContextWithToolCall ctx tc) (fc_arguments (tc_function tc)) w of
             (Panicked v, w') \<Rightarrow> (Inl (ToolExecutionError name (ToolPanicError name v)), w')
           | (Returned (Inl e), w') \<Rightarrow> (Inl (ToolExecutionError name e), w')
           | (Returned (Inr v), w') \<Rightarrow> (Inr (anyToContentParts v), w')))"

definition tool_error_text :: "string \<Rightarrow> err \<Rightarrow> string" where
  "tool_error_text name e =
     ''Error executing tool '' @ [CHR 0x27] @ name @ [CHR 0x27] @ '': '' @ err_text e"

definition handleToolCall ::
  "'w agent \<Rightarrow> 'w goctx \<Rightarrow> tool_call \<Rightarrow> nat \<Rightarrow> 'w \<Rightarrow> (message \<times> err option \<times> span) \<times> 'w" where
  "handleToolCall a ctx tc iteration w =
     (let (res, w') = executeToolCall a ctx tc w;
          name = fc_name (tc_function tc);
          (resultParts, e, stop) =
            (case res of
               Inr ps \<Rightarrow> (ps, None, None)
             | Inl e \<Rightarrow>
                 if err_is e (AgentE ErrStopRun)
                 then ([Text (''The run was stopped: '' @ err_text e)], None, Some e)
                 else ([Text (tool_error_text name e)], Some e, None));
          payload = \<lparr>tp_name = name, tp_call_id = tc_id tc, tp_iteration = iteration,
                     tp_arguments = fc_arguments (tc_function tc),
                     tp_result = TextContent resultParts\<rparr>
      in ((\<lparr>role = RoleTool, parts = resultParts, tool_calls = [], tool_call_id = tc_id tc,
            tool_error = e \<noteq> None, msg_name = []\<rparr>, stop, ToolSpan payload e), w'))"

text \<open>A handler that returns an error matching \<open>ErrStopRun\<close> stops the run; every other outcome does not.\<close>

lemma handleToolCall_message:
  assumes "handleToolCall a ctx tc iteration w = ((m, stop, sp), w')"
  shows "role m = RoleTool" "tool_call_id m = tc_id tc" "tool_calls m = []"
    and "stop \<noteq> None \<Longrightarrow> \<not> tool_error m \<and> errors_is stop (AgentE ErrStopRun)"
  using assms
  by (auto simp: handleToolCall_def Let_def errors_is_def split: prod.splits sum.splits if_splits)

end
