(* ===== verification/Nats_Stream.thy ===== *)
theory Nats_Stream
  imports Nats_Wire Nats_Config Agent_Core
begin

section \<open>Package nats: a prompt and its reply\<close>

text \<open>
  \<open>processPrompt\<close> and what it sends (\<open>nats/server.go\<close>, \<open>nats/errormap.go\<close>), \<open>Client.Send\<close> and
  \<open>Stream.Text\<close> (\<open>nats/client.go\<close>), and \<open>Permanent\<close> (\<open>nats/errors.go\<close>). The server's effect on a
  request is the log of the calls it made on it with their outcomes; the outcomes, the headers' size
  on the wire and the message a call publishes belong to the client library and are arguments. The
  log warnings are left out.
\<close>

subsection \<open>Finding an error in a chain\<close>

text \<open>\<open>errors.AsType\<close> for \<open>*CodedError\<close> and \<open>errors.As\<close> for \<open>*ServiceError\<close> (its code).\<close>

fun err_as_coded :: "err \<Rightarrow> coded_error option"
  and errs_as_coded :: "err list \<Rightarrow> coded_error option" where
  "err_as_coded (CodedError code ec msg after e) =
     Some \<lparr>ce_code = code, ce_err_code = ec, ce_message = msg, ce_retry_after = after, ce_err = e\<rparr>"
| "err_as_coded (Wrapped _ es) = errs_as_coded es"
| "err_as_coded (ProviderError _ _ _ _ e) = err_as_coded e"
| "err_as_coded (GuardrailError _ _ e) = err_as_coded e"
| "err_as_coded (MaxAttemptsExceededError _ e) = err_as_coded e"
| "err_as_coded (CompactionError e) = err_as_coded e"
| "err_as_coded (ToolExecutionError _ e) = err_as_coded e"
| "err_as_coded (ToolArgumentParseError e) = err_as_coded e"
| "err_as_coded e = None"
| "errs_as_coded [] = None"
| "errs_as_coded (e # es) = (case err_as_coded e of Some c \<Rightarrow> Some c | None \<Rightarrow> errs_as_coded es)"

fun err_as_service :: "err \<Rightarrow> int option"
  and errs_as_service :: "err list \<Rightarrow> int option" where
  "err_as_service (ServiceError code desc ec msg after) = Some code"
| "err_as_service (Wrapped _ es) = errs_as_service es"
| "err_as_service (ProviderError _ _ _ _ e) = err_as_service e"
| "err_as_service (GuardrailError _ _ e) = err_as_service e"
| "err_as_service (MaxAttemptsExceededError _ e) = err_as_service e"
| "err_as_service (CompactionError e) = err_as_service e"
| "err_as_service (ToolExecutionError _ e) = err_as_service e"
| "err_as_service (ToolArgumentParseError e) = err_as_service e"
| "err_as_service (CodedError _ _ _ _ (Some e)) = err_as_service e"
| "err_as_service e = None"
| "errs_as_service [] = None"
| "errs_as_service (e # es) = (case err_as_service e of Some c \<Rightarrow> Some c | None \<Rightarrow> errs_as_service es)"

text \<open>\<open>Permanent\<close>; \<open>Sentinel\<close>s of this package are errors, so the list is of errors too.\<close>

definition codeTooManyRequests :: int where "codeTooManyRequests = 429"

definition ClientError :: "int \<Rightarrow> bool" where "ClientError code \<longleftrightarrow> 400 \<le> code \<and> code < 500"

definition permanent_errors :: "err list" where
  "permanent_errors =
     [ErrEmptyPrompt, ErrPayloadTooLarge, ErrAttachmentsNotAllowed, ErrInvalidAttachment, ErrMalformedEnvelope,
      Sentinel ErrQueryNotSupported, ErrInvalidSubjectToken, ErrInvalidMaxPayload, ErrNilConn, ErrNilHandler,
      ErrNilClient, ErrEmptyOwner, ErrEmptyName, ErrServerStopped]"

definition err_is_err :: "err \<Rightarrow> err \<Rightarrow> bool" where
  "err_is_err e t = (case t of Sentinel s \<Rightarrow> err_is e s | _ \<Rightarrow> False)"

definition Permanent :: "err option \<Rightarrow> bool" where
  "Permanent err =
     (case err of
        None \<Rightarrow> False
      | Some e \<Rightarrow>
          if list_ex (err_is_err e) permanent_errors then True
          else case err_as_service e of
            Some code \<Rightarrow> ClientError code \<and> code \<noteq> codeTooManyRequests
          | None \<Rightarrow> False)"

subsection \<open>Errors sent to a caller\<close>

definition errCodeInternal :: string where "errCodeInternal = ''internal_error''"
definition errCodeLLMAuthFailed :: string where "errCodeLLMAuthFailed = ''llm_auth_failed''"
definition errCodeLLMRejected :: string where "errCodeLLMRejected = ''llm_rejected''"
definition errCodeLLMError :: string where "errCodeLLMError = ''llm_error''"
definition errCodeRateLimited :: string where "errCodeRateLimited = ''rate_limited''"
definition errCodeServerDraining :: string where "errCodeServerDraining = ''server_draining''"
definition drainingMessage :: string where "drainingMessage = ''server is draining''"
definition errCodeResponseTooLarge :: string where "errCodeResponseTooLarge = ''response_too_large''"
definition errCodeResponseFailed :: string where "errCodeResponseFailed = ''response_failed''"

definition defaultErrCodes :: "(int \<times> string) list" where
  "defaultErrCodes =
     [(400, ''bad_request''), (401, ''unauthorized''), (403, ''forbidden''), (404, ''not_found''),
      (409, ''conflict''), (429, errCodeRateLimited), (500, errCodeInternal)]"

text \<open>\<open>http.StatusText\<close> of these codes.\<close>

definition status_text :: "int \<Rightarrow> string" where
  "status_text code =
     (case map_of [(400, ''Bad Request''), (401, ''Unauthorized''), (403, ''Forbidden''), (404, ''Not Found''),
                   (409, ''Conflict''), (429, ''Too Many Requests''), (500, ''Internal Server Error'')] code of
        Some t \<Rightarrow> t | None \<Rightarrow> [])"

definition providerErrorFor :: "err \<Rightarrow> coded_error option" where
  "providerErrorFor runErr =
     (let coded = (\<lambda>code ec after.
            Some \<lparr>ce_code = code, ce_err_code = ec, ce_message = [], ce_retry_after = after, ce_err = Some runErr\<rparr>)
      in case err_as_provider runErr of
           None \<Rightarrow> None
         | Some (status, after, ctxlen) \<Rightarrow>
             if status = 429 then coded 429 errCodeRateLimited after
             else if status \<in> {401, 403} then coded 500 errCodeLLMAuthFailed 0
             else if status \<in> {400, 413, 422} then coded 500 errCodeLLMRejected 0
             else coded 500 errCodeLLMError 0)"

text \<open>\<open>errorFor\<close>; \<open>cancelled\<close> is \<open>ctx.Err() != nil\<close>.\<close>

definition errorFor :: "server \<Rightarrow> bool \<Rightarrow> err \<Rightarrow> coded_error" where
  "errorFor s cancelled runErr =
     (case (case sc_error_mapper (srv_cfg s) of Some f \<Rightarrow> f runErr | None \<Rightarrow> None) of
        Some ce \<Rightarrow> ce
      | None \<Rightarrow>
          case err_as_coded runErr of
            Some ce \<Rightarrow> ce
          | None \<Rightarrow>
              if cancelled \<and> err_is runErr (StdE CtxCanceled)
              then \<lparr>ce_code = 500, ce_err_code = errCodeServerDraining, ce_message = drainingMessage,
                    ce_retry_after = 0, ce_err = Some runErr\<rparr>
              else case providerErrorFor runErr of
                Some ce \<Rightarrow> ce
              | None \<Rightarrow>
                  \<lparr>ce_code = 500, ce_err_code = errCodeInternal, ce_message = [], ce_retry_after = 0,
                   ce_err = Some runErr\<rparr>)"

definition headerSafe :: "string \<Rightarrow> string" where
  "headerSafe s = (let t = go_join (go_fields s) '' '' in if t = [] then status_text 500 else t)"

subsection \<open>The server\<close>

text \<open>The calls on a micro request: \<open>Respond\<close> and \<open>Error\<close>.\<close>

datatype req_call = Respond string | Error string string string

type_synonym call_log = "(req_call \<times> err option) list"
type_synonym outcomes = "call_log \<Rightarrow> req_call \<Rightarrow> err option"
type_synonym prompt_handler = "prompt_request \<Rightarrow> content_part list \<Rightarrow> err + run_result option"

definition call :: "outcomes \<Rightarrow> call_log \<Rightarrow> req_call \<Rightarrow> call_log" where
  "call out lg c = lg @ [(c, out lg c)]"

definition sendErrorBody :: "outcomes \<Rightarrow> call_log \<Rightarrow> string \<Rightarrow> string \<Rightarrow> string \<Rightarrow> call_log" where
  "sendErrorBody out lg code description body = call out (call out lg (Error code description body)) (Respond [])"

definition sendError :: "outcomes \<Rightarrow> call_log \<Rightarrow> string \<Rightarrow> string \<Rightarrow> string \<Rightarrow> call_log" where
  "sendError out lg code errCode message =
     sendErrorBody out lg code (headerSafe message) (encodeErrorBody errCode message 0)"

text \<open>What \<open>sendCodedError\<close> sends: code, error code and message.\<close>

definition coded_code :: "coded_error \<Rightarrow> int" where
  "coded_code ce = (if map_of defaultErrCodes (ce_code ce) = None then 500 else ce_code ce)"

definition coded_err_code :: "coded_error \<Rightarrow> string" where
  "coded_err_code ce =
     (if ce_err_code ce = [] then (case map_of defaultErrCodes (coded_code ce) of Some c \<Rightarrow> c | None \<Rightarrow> [])
      else ce_err_code ce)"

definition coded_message :: "coded_error \<Rightarrow> string" where
  "coded_message ce =
     (let m = (case (ce_message ce, ce_err ce) of ([], Some e) \<Rightarrow> err_text e | (m, _) \<Rightarrow> m)
      in if m = [] then status_text (coded_code ce) else m)"

definition sendCodedError :: "outcomes \<Rightarrow> call_log \<Rightarrow> coded_error \<Rightarrow> call_log" where
  "sendCodedError out lg ce =
     sendErrorBody out lg (go_itoa (coded_code ce)) (headerSafe (coded_message ce))
       (encodeErrorBody (coded_err_code ce) (coded_message ce) (ce_retry_after ce))"

definition ErrMaxPayload_conn :: sentinel where
  "ErrMaxPayload_conn = VarE ''natsclient.ErrMaxPayload'' ''nats: maximum payload exceeded''"

definition isMaxPayloadError :: "err \<Rightarrow> bool" where
  "isMaxPayloadError e \<longleftrightarrow> err_is e ErrMaxPayload_conn \<or> go_contains (err_text e) (sentinel_text ErrMaxPayload_conn)"

definition natsDefaultMaxPayload :: nat where "natsDefaultMaxPayload = 2 ^ 20"

definition maxPublishBytes :: "int \<Rightarrow> nat" where
  "maxPublishBytes conn_max = (if 0 < conn_max then nat conn_max else natsDefaultMaxPayload)"

fun send_chunks :: "outcomes \<Rightarrow> call_log \<Rightarrow> string list \<Rightarrow> call_log" where
  "send_chunks out lg [] = call out lg (Respond [])"
| "send_chunks out lg (b # bs) =
     (let lg' = call out lg (Respond b) in
      case out lg (Respond b) of
        Some e \<Rightarrow>
          sendError out lg' ''500'' (if isMaxPayloadError e then errCodeResponseTooLarge else errCodeResponseFailed)
            (''send response: '' @ err_text e)
      | None \<Rightarrow> send_chunks out lg' bs)"

definition sendResponse :: "outcomes \<Rightarrow> call_log \<Rightarrow> int \<Rightarrow> string \<Rightarrow> call_log" where
  "sendResponse out lg conn_max t =
     (case encodeResponseChunks t (maxPublishBytes conn_max) of
        None \<Rightarrow>
          sendError out lg ''500'' errCodeResponseTooLarge ''response does not fit in this connection's max_payload''
      | Some chunks \<Rightarrow> send_chunks out lg chunks)"

text \<open>
  \<open>processPrompt\<close>: \<open>ticks\<close> is how many keepalives go out while the handler runs, \<open>cancelled\<close> whether its
  context was cancelled when it returned, \<open>conn_max\<close> the connection's max_payload.
\<close>

fun send_acks :: "outcomes \<Rightarrow> nat \<Rightarrow> call_log \<Rightarrow> call_log" where
  "send_acks out 0 lg = lg"
| "send_acks out (Suc n) lg = send_acks out n (call out lg (Respond (encodeStatusChunk ''ack'')))"

definition processPrompt :: "server \<Rightarrow> prompt_handler \<Rightarrow> outcomes \<Rightarrow> nat \<Rightarrow> bool \<Rightarrow> int \<Rightarrow> wire_msg \<Rightarrow> call_log" where
  "processPrompt s run out ticks cancelled conn_max req =
     (let badRequest = (\<lambda>errCode message. sendError out [] ''400'' errCode message)
      in case decodeEnvelope (wm_data req) of
           Inl e \<Rightarrow> badRequest ''malformed_envelope'' (err_text e)
         | Inr env \<Rightarrow>
             if \<not> sc_attachments_ok (srv_cfg s) \<and> en_attachments env \<noteq> []
             then badRequest ''attachments_not_allowed'' ''this agent does not accept attachments''
             else case envelopeToContentParts env of
               Inl e \<Rightarrow> badRequest ''malformed_envelope'' (err_text e)
             | Inr ps \<Rightarrow>
                 (case requestFromEnvelope env (wm_header req) of
                    Inl e \<Rightarrow> badRequest ''malformed_envelope'' (err_text e)
                  | Inr request \<Rightarrow>
                      (let lg = send_acks out (Suc ticks) [] in
                       case run request ps of
                         Inl e \<Rightarrow> sendCodedError out lg (errorFor s cancelled e)
                       | Inr result \<Rightarrow> sendResponse out lg conn_max (ReplyText result))))"

subsection \<open>The client\<close>

text \<open>\<open>requestMsg\<close>; \<open>header_size\<close> is the length of the headers as the library encodes them.\<close>

definition requestMsg :: "((string \<times> string list) list \<Rightarrow> nat) \<Rightarrow> int \<Rightarrow> agent_info \<Rightarrow> prompt_request option \<Rightarrow> err + wire_msg" where
  "requestMsg header_size connLimit info req =
     (case req of
        None \<Rightarrow> Inl ErrEmptyPrompt
      | Some r \<Rightarrow>
          if blank (rq_prompt r) then Inl ErrEmptyPrompt
          else if rq_attachments r \<noteq> [] \<and> \<not> ai_attachments_ok info then Inl ErrAttachmentsNotAllowed
          else if list_ex (\<lambda>a. blank (at_filename a)) (rq_attachments r) then Inl ErrInvalidAttachment
          else
            (let body = json_print (enc_envelope (request_envelope r)); n = int (header_size (rq_header r) + length body)
             in if 0 < ai_max_payload info \<and> ai_max_payload info < n then Inl ErrPayloadTooLarge
                else if 0 < connLimit \<and> connLimit < n
                then Inl (errorf1 ErrPayloadTooLarge
                       ('': '' @ go_itoa n @ '' bytes exceeds this connection's max_payload ('' @ go_itoa connLimit @ '' bytes)''))
                else Inr \<lparr>wm_header = rq_header r, wm_data = body\<rparr>))"

text \<open>\<open>Send\<close>, up to the message it publishes; \<open>sub_err\<close> and \<open>pub_err\<close> are the library's errors.\<close>

definition Send :: "err option \<Rightarrow> err option \<Rightarrow> err option \<Rightarrow> ((string \<times> string list) list \<Rightarrow> nat) \<Rightarrow> int \<Rightarrow> agent_info
    \<Rightarrow> prompt_request option \<Rightarrow> err + wire_msg" where
  "Send ctx sub_err pub_err header_size connLimit info req =
     (case ctx of
        Some e \<Rightarrow> Inl e
      | None \<Rightarrow>
          (case requestMsg header_size connLimit info req of
             Inl e \<Rightarrow> Inl e
           | Inr msg \<Rightarrow>
               (case sub_err of
                  Some e \<Rightarrow> Inl (errorf2 (Opaque ''nats: subscribe reply'') e)
                | None \<Rightarrow>
                    (case pub_err of
                       Some e \<Rightarrow> Inl (errorf2 (Opaque ''nats: publish prompt'') e)
                     | None \<Rightarrow> Inr msg))))"

definition Prompt :: "string \<Rightarrow> prompt_request" where
  "Prompt t = \<lparr>rq_prompt = t, rq_attachments = [], rq_header = []\<rparr>"

text \<open>\<open>Stream.Text\<close> over what \<open>next\<close> returns; \<open>None\<close> when the list ends and it is still waiting.\<close>

definition ErrTimeout :: sentinel where "ErrTimeout = VarE ''natsclient.ErrTimeout'' ''nats: timeout''"

fun text_loop :: "(err + wire_msg) list \<Rightarrow> string \<Rightarrow> (err + string) option" where
  "text_loop [] sb = None"
| "text_loop (Inl e # ms) sb = Some (Inl (if err_is e ErrTimeout then ErrStreamTimeout else e))"
| "text_loop (Inr m # ms) sb =
     (if isTerminator m then Some (Inr sb)
      else if isServiceError m then Some (Inl (parseServiceError m))
      else case decode_chunk (wm_data m) of
        None \<Rightarrow> text_loop ms sb
      | Some c \<Rightarrow>
          if rc_type c = chunkTypeResponse then text_loop ms (sb @ decodeResponseText (rc_data c))
          else if rc_type c = chunkTypeQuery then Some (Inl (parseQuery (rc_data c)))
          else text_loop ms sb)"

definition Stream_Text :: "(err + wire_msg) list \<Rightarrow> (err + string) option" where
  "Stream_Text ms = text_loop ms []"

text \<open>
  What the library publishes for a call, and what reaches the caller: the messages of the calls that
  did not fail, in order. \<open>Error\<close> sets the two headers; a header holds a line without space around it.
\<close>

definition header_value :: "string \<Rightarrow> bool" where
  "header_value v \<longleftrightarrow>
     v \<noteq> [] \<and> list_all (\<lambda>c. c \<notin> {CHR 0x0A, CHR 0x0D}) v \<and> \<not> is_space [hd v] \<and> \<not> is_space [last v]"

definition micro_wire :: "(req_call \<Rightarrow> wire_msg) \<Rightarrow> bool" where
  "micro_wire wire \<longleftrightarrow>
     (\<forall>data. wire (Respond data) = \<lparr>wm_header = [], wm_data = data\<rparr>) \<and>
     (\<forall>code desc body. header_value code \<and> header_value desc \<longrightarrow>
        header_get (wm_header (wire (Error code desc body))) errorCodeHeader = code \<and>
        header_get (wm_header (wire (Error code desc body))) errorHeader = desc \<and>
        wm_data (wire (Error code desc body)) = body)"

definition delivered_msgs :: "(req_call \<Rightarrow> wire_msg) \<Rightarrow> call_log \<Rightarrow> (err + wire_msg) list" where
  "delivered_msgs wire lg = map (\<lambda>(c, e). Inr (wire c)) (filter (\<lambda>(c, e). e = None) lg)"

end
