(* ===== verification/Nats_Exchange.thy ===== *)
theory Nats_Exchange
  imports Nats_Stream
begin

section \<open>Package nats: what reaches the caller\<close>

text \<open>
  The server's side of an exchange composed with the client's: replies, errors and requests arrive as
  they were sent. Strings are valid UTF-8; \<open>encoding/json\<close> replaces what is not.
\<close>

named_theorems wire_simps

subsection \<open>Chunks read back\<close>

lemma valid_names [simp]:
  "to_valid ''type'' = ''type''" "to_valid ''data'' = ''data''" "to_valid ''error'' = ''error''"
  "to_valid ''message'' = ''message''" "to_valid ''retry_after_s'' = ''retry_after_s''" "to_valid ''prompt'' = ''prompt''"
  "to_valid ''attachments'' = ''attachments''" "to_valid ''filename'' = ''filename''" "to_valid ''content'' = ''content''"
  by code_simp+

lemma chunk_names [simp]:
  "to_valid chunkTypeResponse = chunkTypeResponse" "to_valid chunkTypeStatus = chunkTypeStatus"
  "chunkTypeStatus \<noteq> chunkTypeResponse" "chunkTypeStatus \<noteq> chunkTypeQuery" "chunkTypeResponse \<noteq> chunkTypeQuery"
  by code_simp+

lemma field_names [simp]:
  "same_key ''type'' ''data'' = False" "same_key ''prompt'' ''attachments'' = False"
  "same_key ''filename'' ''content'' = False"
  by code_simp+

lemma decode_chunk_encode:
  "decode_chunk (encode_chunk typ d) = Some \<lparr>rc_type = to_valid typ, rc_data = Some (JStr (to_valid d))\<rparr>"
  by (simp add: decode_chunk_def encode_chunk_def json_parse_print chunk_fields_def dec_struct_def dec_string_def del: json_print.simps)

lemma encode_chunk_nonempty: "encode_chunk typ d \<noteq> []"
  by (simp add: encode_chunk_def)

lemma header_get_Nil [simp]: "header_get [] k = []"
  by (simp add: header_get_def)

lemma text_loop_ack [wire_simps]:
  "text_loop (Inr \<lparr>wm_header = [], wm_data = encodeStatusChunk t\<rparr> # ms) sb = text_loop ms sb"
  by (simp add: isTerminator_def isServiceError_def encodeStatusChunk_def encode_chunk_nonempty decode_chunk_encode)

lemma text_loop_response [wire_simps]:
  "valid_utf8 t \<Longrightarrow>
   text_loop (Inr \<lparr>wm_header = [], wm_data = encodeResponseChunk t\<rparr> # ms) sb = text_loop ms (sb @ t)"
  by (simp add: isTerminator_def isServiceError_def encodeResponseChunk_def encode_chunk_nonempty decode_chunk_encode
      decodeResponseText_def dec_string_def)

lemma text_loop_terminator [wire_simps]:
  "text_loop (Inr \<lparr>wm_header = [], wm_data = []\<rparr> # ms) sb = Some (Inr sb)"
  by (simp add: isTerminator_def)

lemma text_loop_error [wire_simps]:
  assumes "header_get (wm_header m) errorCodeHeader \<noteq> []"
  shows "text_loop (Inr m # ms) sb = Some (Inl (parseServiceError m))"
  using assms by (auto simp: isTerminator_def isServiceError_def)

declare text_loop.simps(3) [simp del]

subsection \<open>What is delivered\<close>

lemma wire_Respond [wire_simps]: "micro_wire wire \<Longrightarrow> wire (Respond d) = \<lparr>wm_header = [], wm_data = d\<rparr>"
  by (simp add: micro_wire_def)

lemma wire_Error:
  assumes "micro_wire wire" "header_value code" "header_value desc"
  shows "header_get (wm_header (wire (Error code desc body))) errorCodeHeader = code"
    "header_get (wm_header (wire (Error code desc body))) errorHeader = desc"
    "wm_data (wire (Error code desc body)) = body"
  using assms by (simp_all add: micro_wire_def)

lemma delivered_msgs_Nil [simp]: "delivered_msgs wire [] = []"
  by (simp add: delivered_msgs_def)

lemma delivered_msgs_call [wire_simps]:
  "delivered_msgs wire (call out lg c) = delivered_msgs wire lg @ (if out lg c = None then [Inr (wire c)] else [])"
  by (simp add: delivered_msgs_def call_def)

definition ack_msgs :: "nat \<Rightarrow> (err + wire_msg) list" where
  "ack_msgs n = replicate n (Inr \<lparr>wm_header = [], wm_data = encodeStatusChunk ''ack''\<rparr>)"

lemma text_loop_acks: "text_loop (ack_msgs n @ ms) sb = text_loop ms sb"
  by (induction n) (simp_all add: ack_msgs_def wire_simps)

lemma ack_msgs_snoc: "ack_msgs n @ [Inr \<lparr>wm_header = [], wm_data = encodeStatusChunk ''ack''\<rparr>] = ack_msgs (Suc n)"
  by (simp add: ack_msgs_def replicate_append_same)

lemma delivered_acks:
  assumes "micro_wire wire" and "delivered_msgs wire lg = ack_msgs k"
  shows "\<exists>n. delivered_msgs wire (send_acks out m lg) = ack_msgs n"
  using assms(2)
proof (induction out m lg arbitrary: k rule: send_acks.induct)
  case (2 out m lg)
  let ?c = "Respond (encodeStatusChunk ''ack'')"
  have "delivered_msgs wire (call out lg ?c) = ack_msgs (if out lg ?c = None then Suc k else k)"
    using "2.prems" by (simp add: delivered_msgs_call wire_Respond [OF assms(1)] ack_msgs_snoc)
  from "2.IH" [OF this] show ?case by simp
qed auto

subsection \<open>The reply\<close>

definition no_space :: "char \<Rightarrow> bool" where
  "no_space c \<longleftrightarrow> \<not> is_space [c]"

lemma no_space_chunk:
  assumes "rune_chunk ch" and "\<not> is_space ch"
  shows "ch \<noteq> [] \<and> list_all no_space ch"
proof (cases "length ch = 1")
  case True
  then obtain c where "ch = [c]" by (auto simp: length_Suc_conv)
  then show ?thesis using assms by (simp add: no_space_def)
next
  case False
  then have n: "rune_size ch = Some (length ch)" using assms by (simp add: rune_chunk_def)
  then have "list_all (\<lambda>c. 128 \<le> byte c) ch" using False
    by (cases ch) (auto simp: Let_def utf8_cont_def utf8_second_def split: if_splits list.splits)
  moreover have "no_space c" if "128 \<le> byte c" for c using that by (simp add: no_space_def is_space_def)
  ultimately show ?thesis using n by (cases ch) (auto simp: list_all_iff)
qed

lemma fields_loop_no_space:
  "list_all rune_chunk chs \<Longrightarrow> list_all no_space cur \<Longrightarrow>
   list_all (\<lambda>f. f \<noteq> [] \<and> list_all no_space f) (fields_loop cur chs)"
  by (induction cur chs rule: fields_loop.induct) (auto dest: no_space_chunk)

lemma join_no_space:
  "list_all (\<lambda>f. f \<noteq> [] \<and> list_all no_space f) fs \<Longrightarrow> fs \<noteq> [] \<Longrightarrow>
   go_join fs '' '' \<noteq> [] \<and> no_space (hd (go_join fs '' '')) \<and> no_space (last (go_join fs '' '')) \<and>
   list_all (\<lambda>c. no_space c \<or> c = CHR '' '') (go_join fs '' '')"
proof (induction fs)
  case (Cons f fs)
  have f: "f \<noteq> []" "list_all no_space f" using Cons.prems by auto
  then have ends: "no_space (hd f)" "no_space (last f)" "list_all (\<lambda>c. no_space c \<or> c = CHR '' '') f"
    by (auto simp: list_all_iff)
  show ?case
  proof (cases "fs = []")
    case True
    then show ?thesis using f ends by simp
  next
    case False
    then show ?thesis using Cons f ends by (simp add: go_join_Cons)
  qed
qed simp

lemma header_value_headerSafe: "header_value (headerSafe s)"
proof (cases "go_fields s = []")
  case True
  then show ?thesis by (simp add: headerSafe_def header_value_def status_text_def is_space_def byte_def)
next
  case False
  have "list_all rune_chunk (utf8_chunks s)" using utf8_chunks_rune_chunk by (auto simp: list_all_iff)
  then have "list_all (\<lambda>f. f \<noteq> [] \<and> list_all no_space f) (go_fields s)"
    unfolding go_fields_def by (rule fields_loop_no_space) simp
  from join_no_space [OF this False] show ?thesis
    by (auto simp: headerSafe_def header_value_def no_space_def list_all_iff is_space_def byte_def)
qed

definition errors_go_out :: "outcomes \<Rightarrow> bool" where
  "errors_go_out out \<longleftrightarrow> (\<forall>lg code desc body. out lg (Error code desc body) = None)"

lemma delivered_sendErrorBody:
  assumes "micro_wire wire" and "errors_go_out out" and "header_value code" and "header_value desc"
  shows "\<exists>rest. delivered_msgs wire (sendErrorBody out lg code desc body) = delivered_msgs wire lg @ Inr (wire (Error code desc body)) # rest"
  using assms(2) by (auto simp: sendErrorBody_def delivered_msgs_call errors_go_out_def)

lemma stream_sendErrorBody:
  assumes "micro_wire wire" and "errors_go_out out" and "header_value code" and "header_value desc"
  shows "\<exists>rest. delivered_msgs wire (sendErrorBody out lg code desc body) = delivered_msgs wire lg @ rest \<and>
    (\<forall>sb. text_loop rest sb = Some (Inl (parseServiceError (wire (Error code desc body)))))"
proof -
  obtain rest where "delivered_msgs wire (sendErrorBody out lg code desc body) = delivered_msgs wire lg @ Inr (wire (Error code desc body)) # rest"
    using delivered_sendErrorBody [OF assms] by blast
  moreover have "code \<noteq> []" using assms(3) by (simp add: header_value_def)
  ultimately show ?thesis using text_loop_error [of "wire (Error code desc body)" rest] wire_Error(1) [OF assms(1,3,4)] by auto
qed

text \<open>A reader of the chunks either gets all of them or an error, or is still waiting.\<close>

definition whole_or_error :: "string \<Rightarrow> (err + string) option \<Rightarrow> bool" where
  "whole_or_error t r \<longleftrightarrow> (case r of Some (Inr x) \<Rightarrow> x = t | _ \<Rightarrow> True)"

lemma whole_or_error_simps [simp]:
  "whole_or_error t None" "whole_or_error t (Some (Inl e))" "whole_or_error t (Some (Inr x)) \<longleftrightarrow> x = t"
  by (simp_all add: whole_or_error_def)

lemma stream_send_chunks:
  assumes "micro_wire wire" and "errors_go_out out" and "list_all valid_utf8 ts"
  shows "\<exists>rest. delivered_msgs wire (send_chunks out lg (map encodeResponseChunk ts)) = delivered_msgs wire lg @ rest \<and>
    (\<forall>sb. whole_or_error (sb @ concat ts) (text_loop rest sb))"
  using assms(3)
proof (induction ts arbitrary: lg)
  case Nil
  show ?case by (auto simp: wire_simps wire_Respond [OF assms(1)])
next
  case (Cons t ts)
  let ?b = "encodeResponseChunk t"
  let ?lg = "call out lg (Respond ?b)"
  show ?case
  proof (cases "out lg (Respond ?b)")
    case (Some e)
    have sent: "send_chunks out lg (map encodeResponseChunk (t # ts)) =
      sendError out ?lg ''500'' (if isMaxPayloadError e then errCodeResponseTooLarge else errCodeResponseFailed)
        (''send response: '' @ err_text e)" using Some by (simp add: Let_def)
    have lg: "delivered_msgs wire ?lg = delivered_msgs wire lg" using Some by (simp add: delivered_msgs_call)
    have "header_value ''500''" by (simp add: header_value_def is_space_def byte_def)
    from stream_sendErrorBody [OF assms(1,2) this header_value_headerSafe]
    obtain rest err where "delivered_msgs wire (sendError out ?lg ''500'' (if isMaxPayloadError e then errCodeResponseTooLarge else errCodeResponseFailed)
        (''send response: '' @ err_text e)) = delivered_msgs wire ?lg @ rest" "\<forall>sb. text_loop rest sb = Some (Inl err)"
      unfolding sendError_def by blast
    then show ?thesis unfolding sent lg by (intro exI [of _ rest]) simp
  next
    case None
    from Cons obtain rest where rest:
      "delivered_msgs wire (send_chunks out ?lg (map encodeResponseChunk ts)) = delivered_msgs wire ?lg @ rest"
      "\<And>sb. whole_or_error (sb @ concat ts) (text_loop rest sb)" by auto
    have "text_loop (Inr (wire (Respond ?b)) # rest) sb = text_loop rest (sb @ t)" for sb
      using Cons.prems by (simp add: wire_Respond [OF assms(1)] text_loop_response)
    then have "whole_or_error (sb @ concat (t # ts)) (text_loop (Inr (wire (Respond ?b)) # rest) sb)" for sb
      using rest(2) [of "sb @ t"] by simp
    moreover have "delivered_msgs wire (send_chunks out lg (map encodeResponseChunk (t # ts))) =
      delivered_msgs wire lg @ Inr (wire (Respond ?b)) # rest"
      using rest(1) None by (simp add: delivered_msgs_call Let_def)
    ultimately show ?thesis by blast
  qed
qed

text \<open>And gets all of them when every call goes out.\<close>

definition all_go_out :: "outcomes \<Rightarrow> bool" where
  "all_go_out out \<longleftrightarrow> (\<forall>lg c. out lg c = None)"

lemma stream_send_chunks_all:
  assumes "micro_wire wire" and "all_go_out out" and "list_all valid_utf8 ts"
  shows "\<exists>rest. delivered_msgs wire (send_chunks out lg (map encodeResponseChunk ts)) = delivered_msgs wire lg @ rest \<and>
    (\<forall>sb. text_loop rest sb = Some (Inr (sb @ concat ts)))"
  using assms(3)
proof (induction ts arbitrary: lg)
  case Nil
  show ?case using assms(2) by (simp add: wire_simps wire_Respond [OF assms(1)] all_go_out_def)
next
  case (Cons t ts)
  let ?b = "encodeResponseChunk t"
  let ?lg = "call out lg (Respond ?b)"
  have out: "out lg (Respond ?b) = None" using assms(2) by (simp add: all_go_out_def)
  from Cons obtain rest where
    "delivered_msgs wire (send_chunks out ?lg (map encodeResponseChunk ts)) = delivered_msgs wire ?lg @ rest"
    "\<forall>sb. text_loop rest sb = Some (Inr (sb @ concat ts))" by auto
  then show ?case using out Cons.prems
    by (intro exI [of _ "Inr (wire (Respond ?b)) # rest"])
      (simp add: delivered_msgs_call Let_def wire_Respond [OF assms(1)] text_loop_response)
qed

subsection \<open>A prompt that is accepted\<close>

definition accepts :: "server \<Rightarrow> wire_msg \<Rightarrow> (prompt_request \<times> content_part list) option" where
  "accepts s req =
     (case decodeEnvelope (wm_data req) of
        Inl e \<Rightarrow> None
      | Inr env \<Rightarrow>
          if \<not> sc_attachments_ok (srv_cfg s) \<and> en_attachments env \<noteq> [] then None
          else case (envelopeToContentParts env, requestFromEnvelope env (wm_header req)) of
            (Inr ps, Inr request) \<Rightarrow> Some (request, ps)
          | _ \<Rightarrow> None)"

lemma processPrompt_accepted:
  assumes "accepts s req = Some (request, ps)"
  shows "processPrompt s run out ticks cancelled conn_max req =
    (let lg = send_acks out (Suc ticks) [] in
     case run request ps of
       Inl e \<Rightarrow> sendCodedError out lg (errorFor s cancelled e)
     | Inr result \<Rightarrow> sendResponse out lg conn_max (ReplyText result))"
  using assms
  by (auto simp: accepts_def processPrompt_def split: sum.splits if_splits)

lemma Stream_Text_after_acks:
  assumes "micro_wire wire"
    and "\<And>lg. \<exists>rest. delivered_msgs wire (f lg) = delivered_msgs wire lg @ rest \<and> (\<forall>sb. P sb (text_loop rest sb))"
  shows "P [] (Stream_Text (delivered_msgs wire (f (send_acks out n []))))"
proof -
  have "delivered_msgs wire [] = ack_msgs 0" by (simp add: ack_msgs_def)
  from delivered_acks [OF assms(1) this] obtain k where "delivered_msgs wire (send_acks out n []) = ack_msgs k" by blast
  with assms(2) [of "send_acks out n []"] show ?thesis by (auto simp: Stream_Text_def text_loop_acks)
qed

definition min_chunk_limit :: nat where "min_chunk_limit = overhead + 24"

lemma min_chunk_limit_eq: "min_chunk_limit = 53"
  by (simp add: min_chunk_limit_def overhead_eq)

lemma sendResponse_chunks:
  assumes "min_chunk_limit \<le> maxPublishBytes conn_max" and "valid_utf8 t"
  shows "\<exists>ts. (\<forall>lg. sendResponse out lg conn_max t = send_chunks out lg (map encodeResponseChunk ts)) \<and>
    concat ts = t \<and> list_all valid_utf8 ts \<and> list_all (\<lambda>b. length b \<le> maxPublishBytes conn_max) (map encodeResponseChunk ts)"
proof -
  obtain bs where bs: "encodeResponseChunks t (maxPublishBytes conn_max) = Some bs"
    using encodeResponseChunks_total [of "maxPublishBytes conn_max" t] assms(1) by (auto simp: min_chunk_limit_def)
  from encodeResponseChunks_pieces [OF bs] assms(2) show ?thesis by (auto simp: sendResponse_def bs)
qed

end
