(* ===== verification/Nats_Correct.thy ===== *)
theory Nats_Correct
  imports Nats_Exchange
begin

section \<open>Package nats: properties of an exchange\<close>

text \<open>
  Base64 and the JSON envelope round trip, the error body round trips, and the properties: a prompt's
  request reaches the handler, its reply reaches the caller whole or not at all, a failure reaches it
  with its code and a retry hint that is never early, and discovery finds a server under its own name.
\<close>

subsection \<open>Base64\<close>

lemma byte_b64_char:
  "n < 64 \<Longrightarrow> byte (b64_char n) =
     (if n < 26 then 65 + n else if n < 52 then 71 + n else if n < 62 then n - 4 else if n = 62 then 43 else 47)"
  by (simp add: b64_char_def byte_def [of "CHR ''+''"] byte_def [of "CHR ''/''"])

lemma b64_char_plain [simp]:
  assumes "n < 64"
  shows "b64_char n \<noteq> CHR ''=''" "b64_char n \<noteq> CHR 0x0A" "b64_char n \<noteq> CHR 0x0D"
proof -
  have "byte (b64_char n) \<notin> {61, 10, 13}" using assms by (auto simp: byte_b64_char)
  moreover have "byte (CHR ''='') = 61" "byte (CHR 0x0A) = 10" "byte (CHR 0x0D) = 13" by (simp_all add: byte_def)
  ultimately show "b64_char n \<noteq> CHR ''=''" "b64_char n \<noteq> CHR 0x0A" "b64_char n \<noteq> CHR 0x0D" by auto
qed

lemma b64_val_char [simp]:
  assumes "n < 64"
  shows "b64_val (b64_char n) = Some n"
proof (cases "n < 62")
  case True
  then show ?thesis by (auto simp: b64_val_def byte_b64_char Let_def)
next
  case False
  then have "n = 62 \<or> n = 63" using assms by auto
  then show ?thesis by (auto simp: b64_val_def b64_char_def byte_def Let_def)
qed

lemma base256:
  fixes x y :: nat
  assumes "x < 256"
  shows "(x + 256 * y) div 256 = y" "(x + 256 * y) mod 256 = x"
  using assms by simp_all

lemma base64_digits:
  fixes n :: nat
  shows "n div 64 * 64 + n mod 64 = n"
    "n div 4096 * 4096 + n div 64 mod 64 * 64 + n mod 64 = n"
    "n div 262144 * 262144 + n div 4096 mod 64 * 4096 + n div 64 mod 64 * 64 + n mod 64 = n"
proof -
  have d: "n div 4096 = n div 64 div 64" "n div 262144 = n div 64 div 64 div 64"
    using div_mult2_eq [of n 64 64] div_mult2_eq [of n 64 4096] div_mult2_eq [of "n div 64" 64 64] by simp_all
  have s: "n = n div 64 * 64 + n mod 64" "n div 64 = n div 64 div 64 * 64 + n div 64 mod 64"
    "n div 64 div 64 = n div 64 div 64 div 64 * 64 + n div 64 div 64 mod 64" by (simp_all only: div_mult_mod_eq)
  show "n div 64 * 64 + n mod 64 = n" by simp
  show "n div 4096 * 4096 + n div 64 mod 64 * 64 + n mod 64 = n"
    using s(1,2) unfolding d by linarith
  show "n div 262144 * 262144 + n div 4096 mod 64 * 4096 + n div 64 mod 64 * 64 + n mod 64 = n"
    using s unfolding d by linarith
qed

lemma group3:
  fixes n :: nat
  assumes "a < 256" "b < 256" "c < 256" and "n = a * 65536 + b * 256 + c"
  shows "n div 262144 < 64" "n div 65536 = a" "n div 256 mod 256 = b" "n mod 256 = c"
proof -
  have n: "n = c + 256 * (b + 256 * a)" using assms(4) by simp
  have d: "n div 256 = b + 256 * a" "n mod 256 = c" unfolding n by (simp_all only: base256 [OF assms(3)])
  then show "n div 256 mod 256 = b" "n mod 256 = c" by (simp_all only: base256 [OF assms(2)])
  have "n div 65536 = n div 256 div 256" using div_mult2_eq [of n 256 256] by simp
  then show a: "n div 65536 = a" by (simp only: d base256 [OF assms(2)])
  have "n div 262144 = n div 65536 div 4" using div_mult2_eq [of n 65536 4] by simp
  then have "n div 262144 = a div 4" by (simp only: a)
  then show "n div 262144 < 64" using assms(1) less_mult_imp_div_less [of a 64 4] by simp
qed

lemma group2:
  fixes n :: nat
  assumes "a < 256" "b < 256" and "n = (a * 256 + b) * 4"
  shows "n div 4096 < 64" "n div 1024 = a" "n div 4 mod 256 = b"
proof -
  have d: "n div 4 = b + 256 * a" using assms(3) by simp
  then show "n div 4 mod 256 = b" by (simp only: base256 [OF assms(2)])
  have "n div 1024 = n div 4 div 256" using div_mult2_eq [of n 4 256] by simp
  then show a: "n div 1024 = a" by (simp only: d base256 [OF assms(2)])
  have "n div 4096 = n div 1024 div 4" using div_mult2_eq [of n 1024 4] by simp
  then have "n div 4096 = a div 4" by (simp only: a)
  then show "n div 4096 < 64" using assms(1) less_mult_imp_div_less [of a 64 4] by simp
qed

lemma group1:
  fixes n :: nat
  assumes "a < 256" and "n = a * 16"
  shows "n div 64 < 64" "n div 16 = a"
proof -
  show "n div 16 = a" using assms(2) by simp
  then have "n div 64 = a div 4" using div_mult2_eq [of n 16 4] by simp
  then show "n div 64 < 64" using assms(1) less_mult_imp_div_less [of a 64 4] by simp
qed

lemma char_of_digit: "m mod 256 = byte c \<Longrightarrow> char_of m = c"
  by (metis byte_char_of char_of_byte)

lemma b64_encode_plain: "filter (\<lambda>c. c \<noteq> CHR 0x0A \<and> c \<noteq> CHR 0x0D) (b64_encode s) = b64_encode s"
proof (induction s rule: b64_encode.induct)
  case (2 a)
  show ?case using group1(1) [OF byte_less [of a] refl] by (simp add: Let_def del: div_mult_self1)
next
  case (3 a b)
  show ?case using group2(1) [OF byte_less [of a] byte_less [of b] refl] by (simp add: Let_def del: div_mult_self1)
next
  case (4 a b c cs)
  then show ?case using group3(1) [OF byte_less [of a] byte_less [of b] byte_less [of c] refl] by (simp add: Let_def)
qed simp

lemma b64_groups_encode: "b64_groups (b64_encode s) = Some s"
proof (induction s rule: b64_encode.induct)
  case (2 a)
  define n where "n = byte a * 16"
  note g = group1 [OF byte_less [of a] n_def]
  have e: "b64_encode [a] = [b64_char (n div 64), b64_char (n mod 64), CHR ''='', CHR ''='']"
    by (simp add: Let_def n_def)
  show ?case unfolding e using g(1) by (simp add: base64_digits g(2))
next
  case (3 a b)
  define n where "n = (byte a * 256 + byte b) * 4"
  note g = group2 [OF byte_less [of a] byte_less [of b] n_def]
  have e: "b64_encode [a, b] = [b64_char (n div 4096), b64_char (n div 64 mod 64), b64_char (n mod 64), CHR ''='']"
    by (simp add: Let_def n_def)
  show ?case unfolding e using g(1) char_of_digit [OF g(3)] by (simp add: base64_digits g(2))
next
  case (4 a b c cs)
  define n where "n = byte a * 65536 + byte b * 256 + byte c"
  note g = group3 [OF byte_less [of a] byte_less [of b] byte_less [of c] n_def]
  have e: "b64_encode (a # b # c # cs) =
    [b64_char (n div 262144), b64_char (n div 4096 mod 64), b64_char (n div 64 mod 64), b64_char (n mod 64)] @ b64_encode cs"
    by (simp add: Let_def n_def)
  show ?case unfolding e using g(1) 4 char_of_digit [OF g(3)] char_of_digit [OF g(4)]
    by (simp add: Let_def base64_digits g(2))
qed simp

lemma b64_decode_encode [simp]: "b64_decode (b64_encode s) = Some s"
  by (simp add: b64_decode_def b64_encode_plain b64_groups_encode)

lemma b64_char_ascii [simp]: "byte (b64_char n) < 128"
  by (auto simp: b64_char_def byte_def)

lemma b64_encode_ascii: "list_all (\<lambda>c. byte c < 128) (b64_encode s)"
  by (induction s rule: b64_encode.induct) (simp_all add: Let_def byte_def [of "CHR ''=''"])

lemma valid_b64: "valid_utf8 (b64_encode s)"
  by (rule ascii_valid [OF b64_encode_ascii])

subsection \<open>The request\<close>

definition valid_request :: "prompt_request \<Rightarrow> bool" where
  "valid_request r \<longleftrightarrow> valid_utf8 (rq_prompt r) \<and> list_all (\<lambda>a. valid_utf8 (at_filename a)) (rq_attachments r)"

lemma dec_enc_attachment:
  "valid_utf8 (at_filename a) \<Longrightarrow> valid_utf8 (at_content a) \<Longrightarrow> dec_attachment (json_norm (enc_attachment a)) = Some a"
  by (simp add: dec_attachment_def enc_attachment_def attachment_fields_def dec_struct_def dec_string_def)

lemma numbers_ok_envelope: "numbers_ok (enc_envelope e)"
  by (simp add: enc_envelope_def omitempty_def list_all_iff enc_attachment_def)

lemma dec_enc_envelope:
  assumes "valid_utf8 (en_prompt e)"
    and "list_all (\<lambda>a. valid_utf8 (at_filename a) \<and> valid_utf8 (at_content a)) (en_attachments e)"
  shows "dec_struct envelope_fields (json_norm (enc_envelope e)) \<lparr>en_prompt = [], en_attachments = []\<rparr> = Some e"
proof -
  have "dec_elems dec_attachment (map (json_norm \<circ> enc_attachment) (en_attachments e)) = Some (en_attachments e)"
    using dec_elems_map [of dec_attachment "json_norm \<circ> enc_attachment"] assms(2) by (simp add: list_all_iff dec_enc_attachment)
  then show ?thesis using assms(1)
    by (simp add: enc_envelope_def omitempty_def envelope_fields_def dec_struct_def dec_string_def dec_slice_def)
qed

lemma json_print_obj_start: "\<exists>cs. json_print (JObj ms) = CHR ''{'' # cs"
  by simp

lemma decodeEnvelope_encode:
  assumes "en_prompt e \<noteq> []" and "valid_utf8 (en_prompt e)"
    and "list_all (\<lambda>a. valid_utf8 (at_filename a) \<and> valid_utf8 (at_content a)) (en_attachments e)"
  shows "decodeEnvelope (json_print (enc_envelope e)) = Inr e"
proof -
  obtain cs where cs: "json_print (enc_envelope e) = CHR ''{'' # cs"
    using json_print_obj_start unfolding enc_envelope_def by blast
  have "json_parse (CHR ''{'' # cs) = Some (json_norm (enc_envelope e))"
    using json_parse_print [OF numbers_ok_envelope [of e]] by (simp only: cs)
  then show ?thesis using dec_enc_envelope [OF assms(2,3)] assms(1) unfolding cs decodeEnvelope_def by simp
qed

lemma decode_attachments_encode:
  "decode_attachments (map (\<lambda>a. \<lparr>at_filename = at_filename a, at_content = b64_encode (at_content a)\<rparr>) as) = Inr as"
  by (induction as) simp_all

lemma blank_nonempty: "\<not> blank t \<Longrightarrow> t \<noteq> []"
  by auto

text \<open>The parts a handler gets for a request.\<close>

definition attachment_part :: "attachment \<Rightarrow> content_part" where
  "attachment_part a =
     (case map_of imageExtensions (lower_ext (at_filename a)) of
        Some mime \<Rightarrow> ImageBase64 mime (b64_encode (at_content a))
      | None \<Rightarrow> Text (''[attachment: '' @ at_filename a @ '']''))"

definition request_parts :: "prompt_request \<Rightarrow> content_part list" where
  "request_parts r = Text (rq_prompt r) # map attachment_part (rq_attachments r)"

lemma attachment_parts_encode:
  "attachment_parts (map (\<lambda>a. \<lparr>at_filename = at_filename a, at_content = b64_encode (at_content a)\<rparr>) as) =
   Inr (map attachment_part as)"
  by (induction as) (simp_all add: attachment_part_def Let_def split: option.split)

lemma accepts_request:
  assumes "requestMsg hs connLimit info (Some r) = Inr m" and "valid_request r"
    and "ai_attachments_ok info = sc_attachments_ok (srv_cfg s)"
  shows "accepts s m = Some (r, request_parts r)"
proof -
  have m: "m = \<lparr>wm_header = rq_header r, wm_data = json_print (enc_envelope (request_envelope r))\<rparr>"
    and b: "\<not> blank (rq_prompt r)" and a: "rq_attachments r = [] \<or> sc_attachments_ok (srv_cfg s)"
    using assms(1,3) by (auto simp: requestMsg_def Let_def split: if_splits)
  have "decodeEnvelope (json_print (enc_envelope (request_envelope r))) = Inr (request_envelope r)"
    using decodeEnvelope_encode [of "request_envelope r"] b assms(2)
    by (simp add: request_envelope_def valid_request_def list_all_iff valid_b64 blank_nonempty)
  then show ?thesis using a
    by (auto simp: m accepts_def envelopeToContentParts_def requestFromEnvelope_def request_envelope_def
        attachment_parts_encode decode_attachments_encode request_parts_def)
qed

subsection \<open>A failure's body\<close>

lemma number_value_nat_digits: "number_value (nat_digits n) = of_nat n"
proof -
  have ds: "list_all is_digit (nat_digits n)" by (rule nat_digits_chars)
  have neg: "hd (nat_digits n) \<noteq> CHR ''-''" using hd_nat_digits by simp
  have "takeWhile is_digit (nat_digits n) = nat_digits n" "dropWhile is_digit (nat_digits n) = []"
    using ds by (simp_all add: list_all_iff)
  moreover have "\<not> is_digit c" if "c \<in> set ''eE''" for c using that by (auto simp: is_digit_def byte_def)
  then have "dropWhile (\<lambda>c. c \<notin> set ''eE'') (nat_digits n) = []"
    using ds unfolding list_all_iff by (auto simp: dropWhile_eq_Nil_conv)
  ultimately show ?thesis using neg
    by (simp add: number_value_def Let_def nat_of_digits_def digits_val_nat_digits
        del: dropWhile_eq_Nil_conv takeWhile_eq_all_conv set_simps)
qed

lemma body_keys [simp]:
  "(''error'' = ''message'') = False" "(''error'' = ''retry_after_s'') = False" "(''message'' = ''retry_after_s'') = False"
  by simp_all

lemma retryAfterSeconds_bounds:
  "d \<le> retryAfterSeconds d * second" "0 \<le> retryAfterSeconds d" "0 < d \<Longrightarrow> retryAfterSeconds d * second < d + second"
proof -
  have "(d + second - 1) div second * second + (d + second - 1) mod second = d + second - 1" by simp
  moreover have "0 \<le> (d + second - 1) mod second" "(d + second - 1) mod second < second" by (simp_all add: second_def)
  ultimately have "d \<le> (d + second - 1) div second * second" "(d + second - 1) div second * second < d + second"
    by linarith+
  then show "d \<le> retryAfterSeconds d * second" "0 < d \<Longrightarrow> retryAfterSeconds d * second < d + second"
    by (auto simp: retryAfterSeconds_def)
  show "0 \<le> retryAfterSeconds d" by (simp add: retryAfterSeconds_def second_def pos_imp_zdiv_nonneg_iff)
qed

definition max_hint :: int where "max_hint = 8 * 10 ^ 15"

lemma retryAfterSeconds_small: "d \<le> max_hint \<Longrightarrow> retryAfterSeconds d \<le> 8000000"
  using zdiv_mono1 [of "d + second - 1" "max_hint + second - 1" second]
  by (simp add: retryAfterSeconds_def second_def max_hint_def)

lemma parse_body:
  assumes "valid_utf8 ec" "valid_utf8 msg" "after \<le> max_hint"
  shows "\<exists>ms. json_parse (encodeErrorBody ec msg after) = Some (JObj ms) \<and> string_member ms ''error'' = ec \<and>
    string_member ms ''message'' = msg \<and> retry_member ms = retryAfterSeconds after * second"
proof -
  define n where "n = nat (retryAfterSeconds after)"
  have n: "retryAfterSeconds after = int n" using retryAfterSeconds_bounds(2) [of after] by (simp add: n_def)
  define ms where "ms = [(''error'', JStr ec), (''message'', JStr msg)] @
    omitempty (n = 0) ''retry_after_s'' (JNum (nat_digits n))"
  have body: "encodeErrorBody ec msg after = json_print (JObj ms)"
    by (simp add: encodeErrorBody_def ms_def n go_itoa_def)
  have "numbers_ok (JObj ms)" using is_number_nat_digits [of n] by (simp add: ms_def omitempty_def)
  then have p: "json_parse (encodeErrorBody ec msg after) = Some (json_norm (JObj ms))"
    unfolding body by (rule json_parse_print)
  have norm: "json_norm (JObj ms) = JObj ms" using assms(1,2) by (simp add: ms_def omitempty_def)
  have small: "of_nat n < maxRetryAfterSeconds"
    using retryAfterSeconds_small [OF assms(3)] unfolding n maxRetryAfterSeconds_def max_int64_def second_def
    by (simp add: of_nat_less_numeral_iff)
  have "retry_member ms = int n * second"
  proof (cases "n = 0")
    case False
    have "\<lfloor>rat_of_nat n * rat_of_int second\<rfloor> = int n * second"
      by (metis floor_of_int of_int_mult of_int_of_nat_eq)
    then show ?thesis using False small
      by (simp add: retry_member_def last_member_def ms_def omitempty_def number_value_nat_digits Let_def)
  qed (simp add: retry_member_def last_member_def ms_def omitempty_def)
  moreover have "string_member ms ''error'' = ec" "string_member ms ''message'' = msg"
    by (simp_all add: string_member_def last_member_def ms_def omitempty_def)
  ultimately show ?thesis using p norm n by simp
qed

lemma parseServiceError_wire:
  assumes "micro_wire wire" "header_value desc" "0 < code" "code \<le> max_int64"
    and "valid_utf8 ec" "valid_utf8 msg" "msg \<noteq> []" "after \<le> max_hint"
  shows "parseServiceError (wire (Error (go_itoa code) desc (encodeErrorBody ec msg after))) =
    ServiceError code desc ec msg (retryAfterSeconds after * second)"
proof -
  have "header_value (go_itoa code)"
  proof -
    have "list_all is_digit (go_itoa code)" "go_itoa code \<noteq> []"
      using assms(3) nat_digits_chars by (simp_all add: go_itoa_def)
    moreover have "c \<notin> {CHR 0x0A, CHR 0x0D} \<and> \<not> is_space [c]" if "is_digit c" for c
      using that by (auto simp: is_digit_def is_space_def byte_def)
    ultimately show ?thesis by (auto simp: header_value_def list_all_iff)
  qed
  note w = wire_Error [OF assms(1) this assms(2)]
  have "atoi_value (go_itoa code) = code"
    using go_atoi_itoa [of code] assms(3,4) by (simp add: atoi_value_def min_int64_def)
  then show ?thesis using parse_body [OF assms(5,6,8)] assms(7) by (auto simp: parseServiceError_def w Let_def)
qed

subsection \<open>Properties\<close>

text \<open>
  C9: A prompt's reply reaches its caller unchanged: the request a client sends is the one the handler
  gets, with its attachments and headers, and however the server cuts the reply into messages and
  however many keepalives it sends, \<open>Stream.Text\<close> returns exactly the handler's reply.
\<close>

theorem reply_reaches_caller:
  assumes "Send ctx sub_err pub_err hs connLimit info (Some r) = Inr m" and "valid_request r"
    and "ai_attachments_ok info = sc_attachments_ok (srv_cfg s)"
    and "run r (request_parts r) = Inr result" and "valid_utf8 (ReplyText result)"
    and "min_chunk_limit \<le> maxPublishBytes conn_max" and "micro_wire wire" and "all_go_out out"
  shows "Stream_Text (delivered_msgs wire (processPrompt s run out ticks cancelled conn_max m)) = Some (Inr (ReplyText result))"
proof -
  have "requestMsg hs connLimit info (Some r) = Inr m"
    using assms(1) by (auto simp: Send_def split: option.splits sum.splits)
  from accepts_request [OF this assms(2,3)] have a: "accepts s m = Some (r, request_parts r)" .
  obtain ts where ts: "\<And>lg. sendResponse out lg conn_max (ReplyText result) = send_chunks out lg (map encodeResponseChunk ts)"
    "concat ts = ReplyText result" "list_all valid_utf8 ts"
    using sendResponse_chunks [OF assms(6,5), of out] by blast
  from Stream_Text_after_acks [where P = "\<lambda>sb r. r = Some (Inr (sb @ concat ts))", OF assms(7)
      stream_send_chunks_all [OF assms(7,8) ts(3)]]
  show ?thesis using assms(4) by (simp add: processPrompt_accepted [OF a] ts del: send_acks.simps)
qed

text \<open>
  C17: A caller never takes part of a reply for the whole of it: whichever publishes fail, as long as an
  error the server reports goes out, \<open>Stream.Text\<close> returns the handler's whole reply, an error, or
  goes on waiting.
\<close>

theorem no_partial_reply:
  assumes "accepts s m = Some (r, ps)" and "run r ps = Inr result" and "valid_utf8 (ReplyText result)"
    and "micro_wire wire" and "errors_go_out out"
  shows "whole_or_error (ReplyText result)
    (Stream_Text (delivered_msgs wire (processPrompt s run out ticks cancelled conn_max m)))"
proof -
  have s: "processPrompt s run out ticks cancelled conn_max m =
    sendResponse out (send_acks out (Suc ticks) []) conn_max (ReplyText result)"
    using assms(2) by (simp add: processPrompt_accepted [OF assms(1)] del: send_acks.simps)
  show ?thesis
  proof (cases "encodeResponseChunks (ReplyText result) (maxPublishBytes conn_max)")
    case None
    have "header_value ''500''" by (simp add: header_value_def is_space_def byte_def)
    note e = stream_sendErrorBody [OF assms(4,5) this header_value_headerSafe]
    have "\<exists>rest. delivered_msgs wire (sendResponse out lg conn_max (ReplyText result)) = delivered_msgs wire lg @ rest \<and>
      (\<forall>sb. whole_or_error (ReplyText result) (text_loop rest sb))" for lg
      using e [of lg "''response does not fit in this connection's max_payload''"] unfolding sendResponse_def None sendError_def
      by (metis option.case(1) whole_or_error_simps(2))
    from Stream_Text_after_acks [where P = "\<lambda>sb. whole_or_error (ReplyText result)", OF assms(4) this]
    show ?thesis unfolding s .
  next
    case (Some bs)
    from encodeResponseChunks_pieces [OF Some] assms(3) obtain ts where
      ts: "bs = map encodeResponseChunk ts" "concat ts = ReplyText result" "list_all valid_utf8 ts" by blast
    from Stream_Text_after_acks [where P = "\<lambda>sb r. whole_or_error (sb @ concat ts) r", OF assms(4)
        stream_send_chunks [OF assms(4,5) ts(3)]]
    show ?thesis unfolding s by (simp add: sendResponse_def Some ts del: send_acks.simps)
  qed
qed

text \<open>
  C38: No message of a reply is larger than the connection's max_payload, or NATS's default when the
  connection reports none.
\<close>

theorem reply_messages_fit:
  "list_all (\<lambda>(c, e). case c of Respond b \<Rightarrow> length b \<le> maxPublishBytes conn_max | _ \<Rightarrow> True)
     (sendResponse out [] conn_max t)"
proof -
  let ?ok = "\<lambda>(c, e :: err option). case c of Respond b \<Rightarrow> length b \<le> maxPublishBytes conn_max | _ \<Rightarrow> True"
  have call: "list_all ?ok (call out lg c)" if "list_all ?ok lg" "?ok (c, out lg c)" for out lg c
    using that by (simp add: call_def)
  have err: "list_all ?ok (sendError out lg code ec msg)" if "list_all ?ok lg" for out lg code ec msg
    unfolding sendError_def sendErrorBody_def by (intro call that) simp_all
  have chunks: "list_all ?ok (send_chunks out lg bs)"
    if "list_all ?ok lg" "list_all (\<lambda>b. length b \<le> maxPublishBytes conn_max) bs" for out lg bs
    using that
  proof (induction out lg bs rule: send_chunks.induct)
    case (2 out lg b bs)
    let ?lg = "call out lg (Respond b)"
    have lg: "list_all ?ok ?lg" by (rule call) (use 2 in simp_all)
    show ?case
    proof (cases "out lg (Respond b)")
      case None
      then show ?thesis using "2.IH" [OF refl None lg] "2.prems" by simp
    next
      case (Some e)
      then show ?thesis using err [OF lg] by simp
    qed
  qed (simp add: call_def)
  show ?thesis
  proof (cases "encodeResponseChunks t (maxPublishBytes conn_max)")
    case None
    then show ?thesis using err [of "[]"] by (simp add: sendResponse_def)
  next
    case (Some bs)
    then show ?thesis using chunks [of "[]" bs] encodeResponseChunks_pieces [OF Some] by (auto simp: sendResponse_def)
  qed
qed

text \<open>
  C20: A failed run reaches the caller as the protocol's error: the mapper's choice, a \<open>CodedError\<close> of
  the chain, a drain, the provider's error or 500, in that order; its code is one the protocol
  allows, its text and machine-readable code arrive unchanged, the wait it asks for is never shorter
  than the handler's and less than a second longer, and \<open>Permanent\<close> calls it retryable just for 429
  and 500.
\<close>

lemma service_error_not_sentinel: "\<not> list_ex (err_is_err (ServiceError code desc ec msg after)) permanent_errors"
  by (simp add: permanent_errors_def err_is_err_def nats_error_def ErrServiceError_def ErrEmptyPrompt_def ErrPayloadTooLarge_def
      ErrAttachmentsNotAllowed_def ErrInvalidAttachment_def ErrMalformedEnvelope_def ErrQueryNotSupported_def
      ErrInvalidSubjectToken_def ErrInvalidMaxPayload_def ErrNilConn_def ErrNilHandler_def ErrNilClient_def ErrEmptyOwner_def
      ErrEmptyName_def ErrServerStopped_def)

lemma coded_code_table: "coded_code ce \<in> {400, 401, 403, 404, 409, 429, 500}"
  by (simp add: coded_code_def defaultErrCodes_def)

lemma coded_message_nonempty: "coded_message ce \<noteq> []"
  using coded_code_table [of ce] by (auto simp: coded_message_def status_text_def Let_def)

theorem failure_reaches_caller:
  assumes "accepts s m = Some (r, ps)" and "run r ps = Inl e" and "errorFor s cancelled e = ce"
    and "valid_utf8 (coded_err_code ce)" and "valid_utf8 (coded_message ce)" and "ce_retry_after ce \<le> max_hint"
    and "micro_wire wire" and "errors_go_out out"
  shows "\<exists>after err. Stream_Text (delivered_msgs wire (processPrompt s run out ticks cancelled conn_max m)) = Some (Inl err) \<and>
    err = ServiceError (coded_code ce) (headerSafe (coded_message ce)) (coded_err_code ce) (coded_message ce) after \<and>
    coded_code ce \<in> {400, 401, 403, 404, 409, 429, 500} \<and>
    ce_retry_after ce \<le> after \<and> after < max 0 (ce_retry_after ce) + second \<and>
    (Permanent (Some err) \<longleftrightarrow> coded_code ce \<notin> {429, 500})"
proof -
  let ?after = "retryAfterSeconds (ce_retry_after ce) * second"
  let ?err = "ServiceError (coded_code ce) (headerSafe (coded_message ce)) (coded_err_code ce) (coded_message ce) ?after"
  have code: "0 < coded_code ce" "coded_code ce \<le> max_int64" using coded_code_table [of ce] by (auto simp: max_int64_def)
  have hv: "header_value (go_itoa (coded_code ce))"
  proof -
    have "list_all (\<lambda>c. header_value (go_itoa c)) [400, 401, 403, 404, 409, 429, 500]" by code_simp
    then show ?thesis using coded_code_table [of ce] by auto
  qed
  have p: "parseServiceError (wire (Error (go_itoa (coded_code ce)) (headerSafe (coded_message ce))
      (encodeErrorBody (coded_err_code ce) (coded_message ce) (ce_retry_after ce)))) = ?err"
    by (rule parseServiceError_wire [OF assms(7) header_value_headerSafe code assms(4,5) coded_message_nonempty assms(6)])
  note send = stream_sendErrorBody [OF assms(7,8) hv header_value_headerSafe [of "coded_message ce"],
      of _ "encodeErrorBody (coded_err_code ce) (coded_message ce) (ce_retry_after ce)", unfolded p, folded sendCodedError_def]
  from Stream_Text_after_acks [where P = "\<lambda>sb r. r = Some (Inl ?err)", OF assms(7) send]
  have "Stream_Text (delivered_msgs wire (processPrompt s run out ticks cancelled conn_max m)) = Some (Inl ?err)"
    using assms(2,3) by (simp add: processPrompt_accepted [OF assms(1)] del: send_acks.simps)
  moreover have "?after < max 0 (ce_retry_after ce) + second"
    using retryAfterSeconds_bounds(3) [of "ce_retry_after ce"] by (auto simp: retryAfterSeconds_def second_def)
  moreover have "Permanent (Some ?err) \<longleftrightarrow> coded_code ce \<notin> {429, 500}"
    using coded_code_table [of ce] service_error_not_sentinel
    by (auto simp: Permanent_def ClientError_def codeTooManyRequests_def)
  ultimately show ?thesis using retryAfterSeconds_bounds(1) coded_code_table [of ce] by blast
qed

text \<open>
  Discovery finds a served agent under its own identity: for whatever options \<open>New\<close> accepted, the
  record a client reads from the service's registration has the agent id, owner, session and name the
  server was made with, the subject its prompts are served on, and a max_payload that is positive and
  no larger than the server's connection carries.
\<close>

theorem discovery_finds_server:
  assumes "New_server nc h owner name opts = Inr s" and "decodes_to data (registration s ident)"
  shows "\<exists>info. Discover None (FilterByName (srv_name s) (FilterByOwner owner empty_filter)) [data] ctx = Inr [info] \<and>
    ai_prompt_subject info = server_promptSubject s \<and> ai_owner info = owner \<and>
    ai_name info = InstanceName name (ai_session info) \<and> ai_attachments_ok info = sc_attachments_ok (srv_cfg s) \<and>
    0 < ai_max_payload info \<and> (srv_conn_max s \<le> 0 \<or> ai_max_payload info \<le> srv_conn_max s)"
proof -
  from parse_registration [OF assms] obtain cap where
    p: "parseAgentInfo data = Some (advertised s ident cap)" "0 < cap" "srv_conn_max s \<le> 0 \<or> cap \<le> srv_conn_max s" by blast
  have "srv_owner s = owner" "srv_name s = InstanceName name (sc_session (srv_cfg s))"
    using New_server_Inr(5,6) [OF assms(1)] .
  with p show ?thesis
    by (auto simp: Discover_def List.map_filter_def matchFilter_def FilterByName_def FilterByOwner_def empty_filter_def advertised_def)
qed

text \<open>
  Every prompt subject names one agent: two servers that \<open>New\<close> accepted serve the same subject only if
  they have the same agent id, owner and instance name, so a prompt never reaches another's queue group.
\<close>

theorem subjects_name_one_agent:
  assumes "New_server nc h owner name opts = Inr s" and "New_server nc' h' owner' name' opts' = Inr s'"
    and "server_promptSubject s = server_promptSubject s'"
  shows "sc_agent_id (srv_cfg s) = sc_agent_id (srv_cfg s') \<and> owner = owner' \<and> srv_name s = srv_name s'"
proof -
  note a = New_server_Inr [OF assms(1)] and b = New_server_Inr [OF assms(2)]
  have "sc_agent_id (srv_cfg s) = sc_agent_id (srv_cfg s') \<and> srv_owner s = srv_owner s' \<and> srv_name s = srv_name s'"
    using subject_inj [OF no_dot_verbs(1) token_no_dot [OF a(1)] token_no_dot [OF a(2)]
        no_dot_verbs(1) token_no_dot [OF b(1)] token_no_dot [OF b(2)]] assms(3)
    by (simp add: server_promptSubject_def promptSubject_def)
  then show ?thesis using a(5) b(5) by simp
qed

end
