(* ===== verification/Nats_Liveness.thy ===== *)
theory Nats_Liveness
  imports Nats_Resolver Nats_Correct
begin

section \<open>Package nats: liveness and resolving, properties\<close>

text \<open>
  A server that beats at its cadence is online, an agent is online only through its last heartbeat, and
  a resolver serves the agent that was asked for: its laws rest on the contract \<open>discovery\<close>, which the
  client's \<open>Discover\<close> satisfies.
\<close>

subsection \<open>A heartbeat read back\<close>

lemma token_ascii: "subjectTokenPattern t \<Longrightarrow> list_all (\<lambda>c. byte c < 128) t"
  by (auto simp: subjectTokenPattern_def list_all_iff token_char_def byte_def)

lemma token_valid: "subjectTokenPattern t \<Longrightarrow> to_valid t = t"
  by (simp add: ascii_valid token_ascii)

lemma heartbeatIntervalSeconds_pos: "0 < heartbeatIntervalSeconds d"
  by (simp add: heartbeatIntervalSeconds_def Let_def)

lemma heartbeatIntervalSeconds_covers:
  assumes "d \<le> max_int64 div 3"
  shows "d \<le> heartbeatIntervalSeconds d * second * 3" "heartbeatIntervalSeconds d * second * 3 \<le> max_int64"
proof -
  have m: "d = d div second * second + d mod second" "d mod second < second" "0 \<le> d mod second"
    by (simp_all add: second_def)
  show "d \<le> heartbeatIntervalSeconds d * second * 3"
    using m unfolding heartbeatIntervalSeconds_def Let_def second_def by (auto split: if_splits)
  show "heartbeatIntervalSeconds d * second * 3 \<le> max_int64"
    using m assms unfolding heartbeatIntervalSeconds_def Let_def second_def max_int64_def by (auto split: if_splits)
qed

lemma numbers_ok_strings: "numbers_ok (JObj (map (\<lambda>(k, v). (k, JStr v)) m))"
  by (auto simp: list_all_iff)

lemma numbers_ok_heartbeat: "0 < hb_interval_s p \<Longrightarrow> numbers_ok (enc_heartbeat p)"
  by (auto simp: enc_heartbeat_def enc_hb_endpoint_def enc_map_def omitempty_def is_number_go_itoa list_all_iff)

lemma heartbeat_names [simp]:
  "to_valid ''agent'' = ''agent''" "to_valid ''owner'' = ''owner''" "to_valid ''session'' = ''session''"
  "to_valid ''instance_id'' = ''instance_id''" "to_valid ''ts'' = ''ts''" "to_valid ''interval_s'' = ''interval_s''"
  "to_valid ''protocol_version'' = ''protocol_version''" "to_valid ''endpoints'' = ''endpoints''"
  by code_simp+

lemma heartbeat_find [simp]:
  "find_field heartbeat_fields ''agent'' = Some (dec_string (\<lambda>s p. p\<lparr>rh_agent := s\<rparr>))"
  "find_field heartbeat_fields ''owner'' = Some (dec_string (\<lambda>s p. p\<lparr>rh_owner := s\<rparr>))"
  "find_field heartbeat_fields ''session'' = Some (dec_string (\<lambda>s p. p\<lparr>rh_session := s\<rparr>))"
  "find_field heartbeat_fields ''instance_id'' = Some (dec_string (\<lambda>s p. p\<lparr>rh_instance_id := s\<rparr>))"
  "find_field heartbeat_fields ''ts'' = Some (dec_string (\<lambda>s p. p\<lparr>rh_ts := s\<rparr>))"
  "find_field heartbeat_fields ''interval_s'' = Some (dec_int (\<lambda>i p. p\<lparr>rh_interval_s := i\<rparr>))"
  "find_field heartbeat_fields ''protocol_version'' = Some (\<lambda>j p. Some (p\<lparr>rh_protocol_version := Some j\<rparr>))"
  "find_field heartbeat_fields ''endpoints'' = Some (\<lambda>j p. Some (p\<lparr>rh_endpoints := Some j\<rparr>))"
  by (simp_all add: heartbeat_fields_def same_key_def ascii_lower_def byte_def)

lemma decode_heartbeat:
  assumes "valid_utf8 (hb_instance_id p)" and "0 < hb_interval_s p" and "hb_interval_s p \<le> max_int64"
  shows "\<exists>q. decodeHeartbeat (encodeHeartbeat p) = Some q \<and> hb_instance_id q = hb_instance_id p \<and> hb_interval_s q = hb_interval_s p"
proof -
  have j: "json_parse (encodeHeartbeat p) = Some (json_norm (enc_heartbeat p))"
    unfolding encodeHeartbeat_def by (rule json_parse_print [OF numbers_ok_heartbeat [OF assms(2)]])
  have "go_atoi (go_itoa (hb_interval_s p)) = Some (hb_interval_s p)"
    using go_atoi_itoa [of "hb_interval_s p"] assms(2,3) by (simp add: min_int64_def)
  then have "\<exists>r. dec_struct heartbeat_fields (json_norm (enc_heartbeat p)) empty_raw_heartbeat = Some r \<and>
    rh_instance_id r = hb_instance_id p \<and> rh_interval_s r = hb_interval_s p"
    using assms(1) by (simp add: enc_heartbeat_def omitempty_def dec_struct_def dec_string_def dec_int_def empty_raw_heartbeat_def)
  then show ?thesis by (auto simp: decodeHeartbeat_def j)
qed

subsection \<open>The last heartbeat\<close>

type_synonym beat = "int \<times> string \<times> string"

definition track :: "beat list \<Rightarrow> tracker" where
  "track beats = fold (\<lambda>(now, subj, data). observe now subj data) beats new_tracker"

text \<open>The entry a beat makes, for an agent.\<close>

definition beat_entry :: "string \<Rightarrow> beat \<Rightarrow> heartbeat_entry option" where
  "beat_entry key b =
     (case b of (now, subj, data) \<Rightarrow>
        (case (decodeHeartbeat data, agentFromHeartbeatSubject subj) of
           (Some p, Some (owner, name)) \<Rightarrow>
             if hb_instance_id p \<noteq> [] \<and> agentKey owner name = key then Some \<lparr>he_payload = p, he_last_seen = now\<rparr> else None
         | _ \<Rightarrow> None))"

fun last_entry :: "string \<Rightarrow> beat list \<Rightarrow> heartbeat_entry option" where
  "last_entry key [] = None"
| "last_entry key (b # bs) = (case last_entry key bs of Some e \<Rightarrow> Some e | None \<Rightarrow> beat_entry key b)"

lemma observe_entry:
  "tk_by_agent (observe now subj data t) key =
     (case beat_entry key (now, subj, data) of Some e \<Rightarrow> Some e | None \<Rightarrow> tk_by_agent t key)"
  by (auto simp: observe_def beat_entry_def Let_def split: option.splits)

lemma track_entry_from:
  "tk_by_agent (fold (\<lambda>(now, subj, data). observe now subj data) beats t) key =
     (case last_entry key beats of Some e \<Rightarrow> Some e | None \<Rightarrow> tk_by_agent t key)"
proof (induction beats arbitrary: t)
  case (Cons b beats)
  obtain now subj data where b: "b = (now, subj, data)" by (cases b)
  show ?case by (simp add: Cons b observe_entry split: option.splits)
qed simp

lemma track_entry: "tk_by_agent (track beats) key = last_entry key beats"
  by (simp add: track_def track_entry_from new_tracker_def split: option.splits)

subsection \<open>The contract of discovery\<close>

locale discovery =
  fixes discover :: "discover_filter \<Rightarrow> err + agent_info list"
  assumes discover_matches: "discover f = Inr hs \<Longrightarrow> list_all (\<lambda>i. matchFilter i f) hs"
begin

lemma discover_requested:
  assumes "discover (resolve_filter owner name) = Inr (h # hs)" and "owner \<noteq> []" "name \<noteq> []"
  shows "ai_owner h = owner \<and> ai_name h = name"
  using discover_matches [OF assms(1)] assms(2,3)
  by (simp add: matchFilter_def resolve_filter_def FilterByName_def FilterByOwner_def empty_filter_def)

end

lemma Discover_matches: "Discover c f replies c' = Inr hs \<Longrightarrow> list_all (\<lambda>i. matchFilter i f) hs"
  by (auto simp: Discover_def Let_def list_all_iff split: option.splits if_splits)

interpretation client: discovery "\<lambda>f. Discover c f replies c'" for c replies c'
  by unfold_locales (rule Discover_matches)

text \<open>A cached handle is for the agent its key names.\<close>

definition cache_ok :: "resolver \<Rightarrow> bool" where
  "cache_ok r \<longleftrightarrow> (\<forall>key h expiry. rs_cache r key = Some (h, expiry) \<longrightarrow>
     key = agentKey (ai_owner h) (ai_name h) \<and> CHR ''/'' \<notin> set (ai_owner h))"

lemma cache_ok_store:
  assumes "cache_ok r" and "ai_owner h = owner \<and> ai_name h = name" and "CHR ''/'' \<notin> set owner"
  shows "cache_ok (r\<lparr>rs_cache := (rs_cache r)(agentKey owner name \<mapsto> (h, e))\<rparr>)"
  unfolding cache_ok_def
proof (intro allI impI)
  fix key h' expiry
  assume "rs_cache (r\<lparr>rs_cache := (rs_cache r)(agentKey owner name \<mapsto> (h, e))\<rparr>) key = Some (h', expiry)"
  then show "key = agentKey (ai_owner h') (ai_name h') \<and> CHR ''/'' \<notin> set (ai_owner h')"
    using assms unfolding cache_ok_def by (cases "key = agentKey owner name") auto
qed

context discovery
begin

lemma discoverAndCache_ok:
  assumes "discoverAndCache discover now owner name r = (res, r')" and "cache_ok r"
    and "owner \<noteq> []" "name \<noteq> []" "CHR ''/'' \<notin> set owner"
  shows "cache_ok r' \<and> (case res of Inr h \<Rightarrow> ai_owner h = owner \<and> ai_name h = name | Inl e \<Rightarrow> True)"
proof (cases "discover (resolve_filter owner name)")
  case (Inl e)
  then show ?thesis using assms by (auto simp: discoverAndCache_def Let_def)
next
  case (Inr hs)
  then show ?thesis
  proof (cases hs)
    case Nil
    then show ?thesis using Inr assms by (auto simp: discoverAndCache_def Let_def)
  next
    case (Cons h hs')
    have "ai_owner h = owner \<and> ai_name h = name"
      using discover_requested [OF _ assms(3,4)] Inr Cons by blast
    then show ?thesis using Inr Cons assms cache_ok_store [OF assms(2), of h owner name]
      by (auto simp: discoverAndCache_def Let_def)
  qed
qed

lemma Resolve_ok:
  assumes "Resolve discover t now later ctx gave_up owner name r = (res, r')" and "cache_ok r"
    and "owner \<noteq> []" "name \<noteq> []" "CHR ''/'' \<notin> set owner"
  shows "cache_ok r' \<and> (case res of Inr h \<Rightarrow> ai_owner h = owner \<and> ai_name h = name | Inl e \<Rightarrow> True)"
proof -
  obtain dres dr where d: "discoverAndCache discover later owner name r = (dres, dr)" by fastforce
  note ok = discoverAndCache_ok [OF d assms(2-5)]
  have hit: "ai_owner h = owner \<and> ai_name h = name" if "rs_cache r (agentKey owner name) = Some (h, expiry)" for h expiry
    using assms(2) that agentKey_inj [OF assms(5)] unfolding cache_ok_def by metis
  show ?thesis using assms(1,2) ok hit
    by (auto simp: Resolve_def d split: option.splits if_splits prod.splits)
qed

end

lemma Invalidate_ok: "cache_ok r \<Longrightarrow> cache_ok (Invalidate owner name r)"
  by (auto simp: cache_ok_def Invalidate_def)

text \<open>
  The states of a resolver over a client, under any interleaving of its calls: a lookup changes nothing,
  so what happens in between is the store of a discovery, which may end after its callers gave up.
\<close>

inductive resolver_state :: "resolver \<Rightarrow> bool" where
  start: "NewResolver True opts None = Inr r \<Longrightarrow> resolver_state r"
| resolve: "resolver_state r \<Longrightarrow> subjectTokenPattern owner \<Longrightarrow> name \<noteq> [] \<Longrightarrow>
    Resolve (\<lambda>f. Discover c f replies c') t now later ctx gave_up owner name r = (res, r') \<Longrightarrow> resolver_state r'"
| store: "resolver_state r \<Longrightarrow> subjectTokenPattern owner \<Longrightarrow> name \<noteq> [] \<Longrightarrow>
    discoverAndCache (\<lambda>f. Discover c f replies c') now owner name r = (res, r') \<Longrightarrow> resolver_state r'"
| invalidate: "resolver_state r \<Longrightarrow> resolver_state (Invalidate owner name r)"

lemma token_nonempty: "subjectTokenPattern t \<Longrightarrow> t \<noteq> []"
  by (auto simp: subjectTokenPattern_def)

lemma resolver_state_ok: "resolver_state r \<Longrightarrow> cache_ok r"
proof (induction rule: resolver_state.induct)
  case (start opts r)
  then show ?case by (auto simp: NewResolver_def cache_ok_def Let_def)
next
  case (resolve r owner name c replies c' t now later ctx gave_up res r')
  then show ?case using client.Resolve_ok token_nonempty token_no_slash by metis
next
  case (store r owner name c replies c' now res r')
  then show ?case using client.discoverAndCache_ok token_nonempty token_no_slash by metis
next
  case (invalidate r owner name)
  show ?case by (rule Invalidate_ok [OF invalidate.IH])
qed

definition fresh_handle :: "err + agent_info list \<Rightarrow> agent_info \<Rightarrow> bool" where
  "fresh_handle res h \<longleftrightarrow> (case res of Inr (x # xs) \<Rightarrow> x = h | _ \<Rightarrow> False)"

subsection \<open>Properties\<close>

text \<open>
  C30: A server that beats at the cadence it was configured with stays online: from a heartbeat until the
  next one is due, both its instance and its (owner, name) read as online to a tracker that received
  it, whatever the tracker saw before.
\<close>

theorem heartbeat_keeps_online:
  assumes "New_server nc h owner name opts = Inr s" and "inst \<noteq> []" and "valid_utf8 inst"
    and "sc_heartbeat_interval (srv_cfg s) \<le> max_int64 div 3"
    and "t' = observe sent (server_hbSubject s) (encodeHeartbeat (heartbeat s inst ts)) t"
    and "now \<le> sent + sc_heartbeat_interval (srv_cfg s)"
  shows "IsAgentOnline t' now (srv_owner s) (srv_name s) \<and> IsOnline t' now inst"
proof -
  let ?d = "sc_heartbeat_interval (srv_cfg s)"
  let ?i = "heartbeatIntervalSeconds ?d"
  have pos: "0 < ?i" by (rule heartbeatIntervalSeconds_pos)
  note c = heartbeatIntervalSeconds_covers [OF assms(4)]
  have small: "?i \<le> max_int64" using c(2) pos by (simp add: second_def)
  have "hb_instance_id (heartbeat s inst ts) = inst" "hb_interval_s (heartbeat s inst ts) = ?i" by (simp_all add: heartbeat_def)
  then obtain q where q: "decodeHeartbeat (encodeHeartbeat (heartbeat s inst ts)) = Some q" "hb_instance_id q = inst" "hb_interval_s q = ?i"
    using decode_heartbeat [of "heartbeat s inst ts"] assms(3) pos small by auto
  have subj: "agentFromHeartbeatSubject (server_hbSubject s) = Some (srv_owner s, srv_name s)"
    using agentFromHeartbeat_hbSubject New_server_Inr(1,2) [OF assms(1)] by (simp add: server_hbSubject_def)
  have w: "wrap64 (?i * second) = ?i * second" "wrap64 (?i * second * 3) = ?i * second * 3"
    using pos c(2) by (auto simp: wrap64_def second_def max_int64_def)
  have on: "entry_online \<lparr>he_payload = q, he_last_seen = sent\<rparr> now"
    using w pos c(1) assms(6) by (simp add: entry_online_def q(3) heartbeatMissedFactor_def Let_def second_def)
  show ?thesis using on assms(2) by (simp add: assms(5) observe_def q subj IsAgentOnline_def IsOnline_def Let_def)
qed

text \<open>
  An agent is online exactly when the last heartbeat received on its subject, from whichever of its
  instances, is recent enough: what a tracker answers depends on nothing else it ever received.
\<close>

theorem online_by_last_beat:
  "IsAgentOnline (track beats) now owner name \<longleftrightarrow>
     (case last_entry (agentKey owner name) beats of Some e \<Rightarrow> entry_online e now | None \<Rightarrow> False)"
  by (simp add: IsAgentOnline_def track_entry)

text \<open>
  C23: A resolver answers with the agent that was asked for: in any state that resolves, discoveries of
  other callers and invalidations can lead to, a handle \<open>Resolve\<close> returns has the requested owner and
  instance name, and one that did not come from a new discovery is unexpired and its agent online.
\<close>

theorem resolve_serves_requested_agent:
  assumes "resolver_state r" and "subjectTokenPattern owner" and "name \<noteq> []"
    and "Resolve (\<lambda>f. Discover c f replies c') t now later ctx gave_up owner name r = (Inr h, r')"
  shows "ai_owner h = owner \<and> ai_name h = name \<and>
    (case rs_cache r (agentKey owner name) of
       Some (h', expiry) \<Rightarrow>
         if now < expiry \<and> IsAgentOnline t now owner name then h = h' \<and> r' = r
         else fresh_handle (Discover c (resolve_filter owner name) replies c') h
     | None \<Rightarrow> fresh_handle (Discover c (resolve_filter owner name) replies c') h)"
proof -
  have "ai_owner h = owner \<and> ai_name h = name"
    using client.Resolve_ok [OF assms(4) resolver_state_ok [OF assms(1)] token_nonempty [OF assms(2)] assms(3) token_no_slash [OF assms(2)]]
    by simp
  moreover have "fresh_handle (Discover c (resolve_filter owner name) replies c') h"
    if "discoverAndCache (\<lambda>f. Discover c f replies c') later owner name r = (Inr h, r')"
    using that by (auto simp: discoverAndCache_def fresh_handle_def Let_def split: sum.splits list.splits)
  ultimately show ?thesis using assms(4)
    by (auto simp: Resolve_def split: option.splits if_splits prod.splits)
qed

text \<open>
  Waiting for readiness ends: once a poll comes after the deadline, \<open>WaitReady\<close> has returned, and it
  reports success only if at some poll every agent asked for was online.
\<close>

theorem wait_ready_ends:
  "(case WaitReady deadline keys polls of
      None \<Rightarrow> list_all (\<lambda>(t, now, ctx). now \<le> deadline \<and> ctx = None) polls
    | Some None \<Rightarrow> list_ex (\<lambda>(t, now, ctx). list_all (\<lambda>(owner, name). IsAgentOnline t now owner name) keys) polls
    | Some (Some e) \<Rightarrow> \<not> list_all (\<lambda>(t, now, ctx). now \<le> deadline \<and> ctx = None) polls)"
proof (induction polls)
  case (Cons p polls)
  obtain t now ctx where p: "p = (t, now, ctx)" by (cases p)
  have m: "missing t now keys = [] \<longleftrightarrow> list_all (\<lambda>(owner, name). IsAgentOnline t now owner name) keys"
    by (induction keys) (auto simp: missing_def List.map_filter_def split: if_splits)
  show ?case using Cons by (auto simp: p m Let_def split: option.splits)
qed simp

end
