(* ===== verification/Nats_Demo.thy ===== *)
theory Nats_Demo
  imports Nats_Liveness
begin

section \<open>Package nats: an exchange run\<close>

text \<open>
  One server, one request with an attachment and one wire, on which the properties of an exchange are
  evaluated: a reply, a reply whose publish fails, a rate-limited handler, and the server's discovery.
\<close>

definition demo_wire :: "req_call \<Rightarrow> wire_msg" where
  "demo_wire c =
     (case c of
        Respond d \<Rightarrow> \<lparr>wm_header = [], wm_data = d\<rparr>
      | Error code desc body \<Rightarrow> \<lparr>wm_header = [(errorHeader, [desc]), (errorCodeHeader, [code])], wm_data = body\<rparr>)"

lemma micro_demo_wire: "micro_wire demo_wire"
  by (simp add: micro_wire_def demo_wire_def header_get_def errorCodeHeader_def errorHeader_def)

definition demo_server :: server where
  "demo_server =
     \<lparr>srv_cfg = defaultServerConfig\<lparr>sc_session := ''prod'', sc_attachments_ok := True\<rparr>, srv_owner = ''acme'',
      srv_name = ''bot-prod'', srv_conn_max = 1048576\<rparr>"

lemma demo_cap: "reconcileMaxPayload ''1MB'' False 1048576 = Inr ''1MB''"
  by code_simp

lemma demo_identity: "validateSubjectIdentity ''phero'' ''acme'' ''bot-prod'' ''prod'' = None"
  by code_simp

lemma demo_server_New:
  "New_server (Some 1048576) True ''acme'' ''bot'' [Some (WithSession ''prod''), None, Some (WithAttachmentsOk True)] = Inr demo_server"
  by (simp add: New_server_def apply_option_def WithSession_def WithAttachmentsOk_def defaultServerConfig_def InstanceName_def
      defaultAgentID_def defaultMaxPayload_def demo_cap demo_identity demo_server_def)

definition demo_info :: agent_info where "demo_info = advertised demo_server ''id'' 0"

definition demo_request :: prompt_request where
  "demo_request = \<lparr>rq_prompt = ''Say \"hi\"'', rq_attachments = [\<lparr>at_filename = ''a.PNG'', at_content = ''data''\<rparr>],
     rq_header = [(''tenant'', [''t1''])]\<rparr>"

definition demo_msg :: wire_msg where
  "demo_msg = \<lparr>wm_header = rq_header demo_request, wm_data = json_print (enc_envelope (request_envelope demo_request))\<rparr>"

definition demo_header_size :: "(string \<times> string list) list \<Rightarrow> nat" where
  "demo_header_size h = (\<Sum>(k, vs) \<leftarrow> h. length k + sum_list (map length vs))"

lemma demo_requestMsg: "requestMsg demo_header_size 0 demo_info (Some demo_request) = Inr demo_msg"
proof -
  have "\<not> blank (rq_prompt demo_request)" "list_ex (\<lambda>a. blank (at_filename a)) (rq_attachments demo_request) = False"
    by code_simp+
  then show ?thesis
    by (simp add: requestMsg_def demo_info_def advertised_def demo_server_def demo_msg_def Let_def)
qed

lemma demo_Send: "Send None None None demo_header_size 0 demo_info (Some demo_request) = Inr demo_msg"
  by (simp add: Send_def demo_requestMsg)

lemma demo_valid: "valid_request demo_request" "ai_attachments_ok demo_info = sc_attachments_ok (srv_cfg demo_server)"
  by code_simp (simp add: demo_info_def advertised_def demo_server_def)

lemma demo_accepts: "accepts demo_server demo_msg = Some (demo_request, request_parts demo_request)"
  by (rule accepts_request [OF demo_requestMsg demo_valid])

definition demo_result :: "run_result option" where
  "demo_result = Some (empty_run_result\<lparr>rr_parts := [Text ''Hello'']\<rparr>)"

definition demo_run :: prompt_handler where "demo_run r ps = Inr demo_result"

definition demo_busy :: prompt_handler where
  "demo_busy r ps = Inl (Wrapped ''llm: 429'' [ProviderError ''openai'' 429 1500000000 False (Opaque ''slow down'')])"

definition demo_out :: outcomes where "demo_out lg c = None"

text \<open>The second publish fails.\<close>

definition demo_flaky :: outcomes where
  "demo_flaky lg c = (case c of Respond d \<Rightarrow> if length lg = 2 then Some (Opaque ''nats: connection closed'') else None | _ \<Rightarrow> None)"

lemma demo_reply: "ReplyText demo_result = ''Hello''" "valid_utf8 ''Hello''"
  by code_simp+

theorem reply_reaches_caller_witness:
  "Stream_Text (delivered_msgs demo_wire (processPrompt demo_server demo_run demo_out 1 False 65536 demo_msg)) = Some (Inr ''Hello'')"
proof -
  have "min_chunk_limit \<le> maxPublishBytes 65536" by (simp add: min_chunk_limit_eq maxPublishBytes_def)
  moreover have "all_go_out demo_out" by (simp add: all_go_out_def demo_out_def)
  moreover have "demo_run demo_request (request_parts demo_request) = Inr demo_result" by (simp add: demo_run_def)
  ultimately show ?thesis
    using reply_reaches_caller [OF demo_Send demo_valid, where run = demo_run and result = demo_result] micro_demo_wire demo_reply
    by simp
qed

theorem no_partial_reply_witness:
  "whole_or_error ''Hello''
     (Stream_Text (delivered_msgs demo_wire (processPrompt demo_server demo_run demo_flaky 1 False 65536 demo_msg)))"
proof -
  have "errors_go_out demo_flaky" by (simp add: errors_go_out_def demo_flaky_def)
  moreover have "demo_run demo_request (request_parts demo_request) = Inr demo_result" by (simp add: demo_run_def)
  ultimately show ?thesis
    using no_partial_reply [OF demo_accepts, where run = demo_run and result = demo_result] micro_demo_wire demo_reply by simp
qed

lemma demo_errorFor:
  "errorFor demo_server False (Wrapped ''llm: 429'' [ProviderError ''openai'' 429 1500000000 False (Opaque ''slow down'')]) =
     \<lparr>ce_code = 429, ce_err_code = ''rate_limited'', ce_message = [], ce_retry_after = 1500000000,
      ce_err = Some (Wrapped ''llm: 429'' [ProviderError ''openai'' 429 1500000000 False (Opaque ''slow down'')])\<rparr>"
  by (simp add: errorFor_def providerErrorFor_def demo_server_def defaultServerConfig_def errCodeRateLimited_def)

theorem failure_reaches_caller_witness:
  "\<exists>after err. Stream_Text (delivered_msgs demo_wire (processPrompt demo_server demo_busy demo_out 1 False 65536 demo_msg)) = Some (Inl err) \<and>
    err = ServiceError 429 ''llm: 429'' ''rate_limited'' ''llm: 429'' after \<and> 1500000000 \<le> after \<and> after < 2500000000"
proof -
  let ?e = "Wrapped ''llm: 429'' [ProviderError ''openai'' 429 1500000000 False (Opaque ''slow down'')]"
  let ?ce = "errorFor demo_server False ?e"
  have "errors_go_out demo_out" by (simp add: errors_go_out_def demo_out_def)
  moreover have "valid_utf8 (coded_err_code ?ce)" "valid_utf8 (coded_message ?ce)" "ce_retry_after ?ce \<le> max_hint"
    unfolding demo_errorFor by code_simp+
  moreover have "coded_code ?ce = 429" "headerSafe (coded_message ?ce) = ''llm: 429''" "coded_err_code ?ce = ''rate_limited''"
    "coded_message ?ce = ''llm: 429''" "ce_retry_after ?ce = 1500000000" unfolding demo_errorFor by code_simp+
  ultimately show ?thesis
    using failure_reaches_caller [OF demo_accepts, where run = demo_busy and e = ?e and cancelled = False and ce = ?ce]
      micro_demo_wire by (auto simp: demo_busy_def second_def) blast
qed

text \<open>What the library answers for a registration: here, its fields as JSON.\<close>

definition demo_map :: "(string \<times> string) list \<Rightarrow> json" where "demo_map m = JObj (map (\<lambda>(k, v). (k, JStr v)) m)"

definition demo_reply_data :: "service_info \<Rightarrow> string" where
  "demo_reply_data svc = json_print (JObj
     [(''name'', JStr (sv_name svc)), (''id'', JStr (sv_id svc)), (''metadata'', demo_map (rev (sv_metadata svc))),
      (''endpoints'', JArr (map (\<lambda>e. JObj [(''name'', JStr (ei_name e)), (''subject'', JStr (ei_subject e)),
         (''queue_group'', JStr (ei_queue_group e)), (''metadata'', demo_map (rev (ei_metadata e)))]) (sv_endpoints svc)))])"

lemma demo_decodes: "decodes_to (demo_reply_data (registration demo_server ''i1'')) (registration demo_server ''i1'')"
proof -
  let ?svc = "registration demo_server ''i1''"
  let ?j = "JObj
     [(''name'', JStr (sv_name ?svc)), (''id'', JStr (sv_id ?svc)), (''metadata'', demo_map (rev (sv_metadata ?svc))),
      (''endpoints'', JArr (map (\<lambda>e. JObj [(''name'', JStr (ei_name e)), (''subject'', JStr (ei_subject e)),
         (''queue_group'', JStr (ei_queue_group e)), (''metadata'', demo_map (rev (ei_metadata e)))]) (sv_endpoints ?svc)))]"
  have "numbers_ok ?j" by (auto simp: demo_map_def list_all_iff)
  then have "json_parse (demo_reply_data ?svc) = Some (json_norm ?j)"
    unfolding demo_reply_data_def by (rule json_parse_print)
  moreover have "dec_struct service_fields (json_norm ?j) \<lparr>sv_name = [], sv_id = [], sv_metadata = [], sv_endpoints = []\<rparr> = Some ?svc"
    by code_simp
  ultimately show ?thesis by (simp add: decodes_to_def)
qed

theorem discovery_finds_server_witness:
  "\<exists>info. Discover None (FilterByName ''bot-prod'' (FilterByOwner ''acme'' empty_filter)) [demo_reply_data (registration demo_server ''i1'')] None
     = Inr [info] \<and> ai_prompt_subject info = ''agents.prompt.phero.acme.bot-prod''"
proof -
  have "decodes_to (demo_reply_data (registration demo_server ''i1'')) (registration demo_server ''i1'')"
    by (rule demo_decodes)
  from discovery_finds_server [OF demo_server_New this, of None]
  have "\<exists>info. Discover None (FilterByName (srv_name demo_server) (FilterByOwner ''acme'' empty_filter))
      [demo_reply_data (registration demo_server ''i1'')] None = Inr [info] \<and> ai_prompt_subject info = server_promptSubject demo_server"
    by blast
  moreover have "srv_name demo_server = ''bot-prod''" "server_promptSubject demo_server = ''agents.prompt.phero.acme.bot-prod''"
    by code_simp+
  ultimately show ?thesis by simp
qed

text \<open>A replica of the server, on another version.\<close>

definition demo_replica :: server where
  "demo_replica = demo_server\<lparr>srv_cfg := (srv_cfg demo_server)\<lparr>sc_version := ''2''\<rparr>\<rparr>"

lemma demo_replica_New:
  "New_server (Some 1048576) True ''acme'' ''bot'' [Some (WithAttachmentsOk True), Some (WithVersion ''2''), Some (WithSession ''prod'')] =
    Inr demo_replica"
  by (simp add: New_server_def apply_option_def WithSession_def WithAttachmentsOk_def WithVersion_def defaultServerConfig_def
      InstanceName_def defaultAgentID_def defaultMaxPayload_def demo_cap demo_identity demo_server_def demo_replica_def)

theorem subjects_name_one_agent_witness:
  "sc_agent_id (srv_cfg demo_server) = sc_agent_id (srv_cfg demo_replica) \<and> srv_name demo_server = srv_name demo_replica"
proof -
  have "server_promptSubject demo_server = server_promptSubject demo_replica"
    by (simp add: server_promptSubject_def demo_replica_def)
  from subjects_name_one_agent [OF demo_server_New demo_replica_New this] show ?thesis by simp
qed

text \<open>A heartbeat of the server, and a resolver that finds it.\<close>

theorem heartbeat_keeps_online_witness:
  "IsAgentOnline (observe 0 (server_hbSubject demo_server) (encodeHeartbeat (heartbeat demo_server ''i1'' ''t'')) new_tracker)
     30000000000 ''acme'' ''bot-prod''"
proof -
  have "valid_utf8 ''i1''" by code_simp
  moreover have "sc_heartbeat_interval (srv_cfg demo_server) = 30000000000"
    by (simp add: demo_server_def defaultServerConfig_def defaultHeartbeatInterval_def seconds_def)
  moreover have "srv_owner demo_server = ''acme''" "srv_name demo_server = ''bot-prod''" by (simp_all add: demo_server_def)
  ultimately show ?thesis
    using heartbeat_keeps_online [OF demo_server_New, of "''i1''" _ 0 "''t''" new_tracker 30000000000] by (simp add: max_int64_def)
qed

lemma demo_resolver: "resolver_state \<lparr>rs_ttl = defaultResolverCacheTTL, rs_cache = Map.empty\<rparr>"
  by (rule resolver_state.start [of "[]"]) (simp add: NewResolver_def)

theorem resolve_serves_requested_agent_witness:
  "\<exists>h r'. Resolve (\<lambda>f. Discover None f [demo_reply_data (registration demo_server ''i1'')] None) new_tracker 0 1 None None
      ''acme'' ''bot-prod'' \<lparr>rs_ttl = defaultResolverCacheTTL, rs_cache = Map.empty\<rparr> = (Inr h, r') \<and>
    ai_owner h = ''acme'' \<and> ai_name h = ''bot-prod''"
proof -
  from parse_registration [OF demo_server_New demo_decodes] obtain cap where
    p: "parseAgentInfo (demo_reply_data (registration demo_server ''i1'')) = Some (advertised demo_server ''i1'' cap)" by blast
  let ?h = "advertised demo_server ''i1'' cap"
  have "matchFilter ?h (resolve_filter ''acme'' ''bot-prod'')"
    by (simp add: matchFilter_def resolve_filter_def FilterByName_def FilterByOwner_def empty_filter_def advertised_def demo_server_def)
  then have "Discover None (resolve_filter ''acme'' ''bot-prod'') [demo_reply_data (registration demo_server ''i1'')] None = Inr [?h]"
    by (simp add: Discover_def List.map_filter_def p)
  then obtain r' where r: "Resolve (\<lambda>f. Discover None f [demo_reply_data (registration demo_server ''i1'')] None) new_tracker 0 1 None None
      ''acme'' ''bot-prod'' \<lparr>rs_ttl = defaultResolverCacheTTL, rs_cache = Map.empty\<rparr> = (Inr ?h, r')"
    by (simp add: Resolve_def discoverAndCache_def Let_def)
  have t: "subjectTokenPattern ''acme''" by code_simp
  from resolve_serves_requested_agent [OF demo_resolver t _ r] r show ?thesis by blast
qed

end
