(* ===== verification/Nats_Drain.thy ===== *)
theory Nats_Drain
  imports Nats_Config
begin

section \<open>Package nats: admission, start and drain of a server\<close>

text \<open>
  \<open>nats/drain.go\<close> and \<open>Start\<close>, \<open>register\<close>, \<open>markReady\<close> and \<open>handlePrompt\<close> of \<open>nats/server.go\<close> as a step
  relation. What runs under a mutex is one step; \<open>runDrain\<close> is a program counter. A service a \<open>Start\<close>
  registered is a number, and so is its serving context; a timer may fire at any time after a wait
  with a positive budget began.
\<close>

subsection \<open>The gate\<close>

record gate =
  g_open :: bool
  g_closed :: bool
  g_inflight :: int
  g_idle :: bool

definition newGate :: gate where
  "newGate = \<lparr>g_open = False, g_closed = False, g_inflight = 0, g_idle = False\<rparr>"

definition gate_unlock :: "gate \<Rightarrow> gate" where
  "gate_unlock g = (if \<not> g_closed g then g\<lparr>g_open := True\<rparr> else g)"

definition gate_enter :: "gate \<Rightarrow> bool \<times> gate" where
  "gate_enter g = (if \<not> g_open g \<or> g_closed g then (False, g) else (True, g\<lparr>g_inflight := g_inflight g + 1\<rparr>))"

definition signalIdle :: "gate \<Rightarrow> gate" where "signalIdle g = g\<lparr>g_idle := True\<rparr>"

definition gate_leave :: "gate \<Rightarrow> gate" where
  "gate_leave g =
     (let g1 = g\<lparr>g_inflight := g_inflight g - 1\<rparr>
      in if g_closed g1 \<and> g_inflight g1 = 0 then signalIdle g1 else g1)"

definition gate_close :: "gate \<Rightarrow> gate" where
  "gate_close g =
     (let g1 = g\<lparr>g_closed := True\<rparr> in if g_inflight g1 = 0 then signalIdle g1 else g1)"

subsection \<open>The budget\<close>

definition graceGranularity :: int where "graceGranularity = 5"
definition drainCancelGrace :: int where "drainCancelGrace = seconds 5"

definition drainPhases :: "int \<Rightarrow> int \<times> int" where
  "drainPhases budget =
     (if budget \<le> 0 then (0, drainCancelGrace)
      else (let unwind = budget div graceGranularity in (budget - unwind, unwind)))"

subsection \<open>The server\<close>

text \<open>What a drain has done so far; it keeps the service and the contexts it found in its snapshot.\<close>

datatype drain_pc =
    DIdle | DClosed | DSnapped "nat option" "nat option" | DStopped "nat option" | DGrace "nat option" | DUnwind
  | DJoin | DDone

record srv_state =
  ss_gate :: gate
  ss_draining :: bool
  ss_svc :: "nat option"
  ss_serve :: "nat option"
  ss_started :: nat
  ss_services :: "nat set"
  ss_stopped :: "nat set"
  ss_cancelled :: "nat set"
  ss_beating :: "nat set"
  ss_prompts_cancelled :: "nat set"
  ss_ready :: bool
  ss_drain :: drain_pc
  ss_drain_err :: bool

definition new_state :: srv_state where
  "new_state =
     \<lparr>ss_gate = newGate, ss_draining = False, ss_svc = None, ss_serve = None, ss_started = 0, ss_services = {},
      ss_stopped = {}, ss_cancelled = {}, ss_beating = {}, ss_prompts_cancelled = {}, ss_ready = False,
      ss_drain = DIdle, ss_drain_err = False\<rparr>"

text \<open>
  The critical section of \<open>Start\<close>, with \<open>register\<close>. \<open>added\<close> is whether the library added the service,
  \<open>ok\<close> whether it added the endpoints too; a \<open>Start\<close> that fails cancels its contexts on return, and
  leaves the gate as it is.
\<close>

definition start_step :: "bool \<Rightarrow> bool \<Rightarrow> srv_state \<Rightarrow> srv_state" where
  "start_step added ok s =
     (if ss_draining s then s
      else
        (let n = ss_started s; s1 = s\<lparr>ss_started := n + 1, ss_serve := Some n\<rparr>;
             failed = (\<lambda>s. s\<lparr>ss_cancelled := insert n (ss_cancelled s), ss_prompts_cancelled := insert n (ss_prompts_cancelled s)\<rparr>)
         in if \<not> added then failed s1
            else
              (let s2 = s1\<lparr>ss_gate := gate_unlock (ss_gate s1)\<rparr> in
               if ok then s2\<lparr>ss_svc := Some n, ss_services := insert n (ss_services s2), ss_beating := insert n (ss_beating s2)\<rparr>
               else failed s2)))"

definition markReady :: "srv_state \<Rightarrow> srv_state" where
  "markReady s = (if ss_draining s then s else s\<lparr>ss_ready := True\<rparr>)"

definition gate_step :: "(gate \<Rightarrow> gate) \<Rightarrow> srv_state \<Rightarrow> srv_state" where
  "gate_step f s = s\<lparr>ss_gate := f (ss_gate s)\<rparr>"

text \<open>\<open>handlePrompt\<close>: admitted or refused.\<close>

definition handlePrompt :: "srv_state \<Rightarrow> bool \<times> srv_state" where
  "handlePrompt s = (let (ok, g) = gate_enter (ss_gate s) in (ok, s\<lparr>ss_gate := g\<rparr>))"

text \<open>What \<open>waitIdle\<close> may report: the current state without a budget, and either when both are ready.\<close>

definition waitIdle :: "bool \<Rightarrow> int \<Rightarrow> bool \<Rightarrow> bool" where
  "waitIdle idle budget b \<longleftrightarrow> (if budget \<le> 0 then b = idle else b \<longrightarrow> idle)"

text \<open>The steps of \<open>runDrain\<close>, with the configured budget.\<close>

inductive drain_step :: "int \<Rightarrow> srv_state \<Rightarrow> srv_state \<Rightarrow> bool" for budget where
  close_gate: "ss_drain s = DIdle \<Longrightarrow> drain_step budget s (s\<lparr>ss_gate := gate_close (ss_gate s), ss_drain := DClosed\<rparr>)"
| snapshot: "ss_drain s = DClosed \<Longrightarrow>
    drain_step budget s (s\<lparr>ss_draining := True, ss_drain := DSnapped (ss_svc s) (ss_serve s)\<rparr>)"
| stop_service: "ss_drain s = DSnapped svc n \<Longrightarrow>
    drain_step budget s (s\<lparr>ss_stopped := ss_stopped s \<union> set_option svc, ss_drain := DStopped n\<rparr>)"
| stop_serving: "ss_drain s = DStopped n \<Longrightarrow>
    drain_step budget s (s\<lparr>ss_cancelled := ss_cancelled s \<union> set_option n, ss_drain := DGrace n\<rparr>)"
| graceful: "ss_drain s = DGrace n \<Longrightarrow> waitIdle (g_idle (ss_gate s)) (fst (drainPhases budget)) True \<Longrightarrow>
    drain_step budget s (s\<lparr>ss_drain := DJoin\<rparr>)"
| cancel_prompts: "ss_drain s = DGrace n \<Longrightarrow> waitIdle (g_idle (ss_gate s)) (fst (drainPhases budget)) False \<Longrightarrow>
    drain_step budget s (s\<lparr>ss_prompts_cancelled := ss_prompts_cancelled s \<union> set_option n, ss_drain := DUnwind\<rparr>)"
| unwound: "ss_drain s = DUnwind \<Longrightarrow> waitIdle (g_idle (ss_gate s)) (snd (drainPhases budget)) True \<Longrightarrow>
    drain_step budget s (s\<lparr>ss_drain := DJoin\<rparr>)"
| incomplete: "ss_drain s = DUnwind \<Longrightarrow> waitIdle (g_idle (ss_gate s)) (snd (drainPhases budget)) False \<Longrightarrow>
    drain_step budget s (s\<lparr>ss_drain_err := True, ss_drain := DJoin\<rparr>)"
| join_heartbeats: "ss_drain s = DJoin \<Longrightarrow> ss_beating s = {} \<Longrightarrow> drain_step budget s (s\<lparr>ss_drain := DDone\<rparr>)"

text \<open>
  All steps: a drain's, a \<open>Start\<close>, its readiness after a flush, a prompt, a handler's return, the end of
  a caller's context, and a heartbeat publisher's exit.
\<close>

inductive server_step :: "int \<Rightarrow> srv_state \<Rightarrow> srv_state \<Rightarrow> bool" for budget where
  drain: "drain_step budget s s' \<Longrightarrow> server_step budget s s'"
| start: "server_step budget s (start_step added ok s)"
| ready: "n \<in> ss_services s \<Longrightarrow> server_step budget s (markReady s)"
| prompt: "handlePrompt s = (ok, s') \<Longrightarrow> server_step budget s s'"
| leave: "0 < g_inflight (ss_gate s) \<Longrightarrow> server_step budget s (gate_step gate_leave s)"
| ctx_done: "n < ss_started s \<Longrightarrow> server_step budget s (s\<lparr>ss_cancelled := insert n (ss_cancelled s)\<rparr>)"
| heartbeat_exit: "n \<in> ss_beating s \<Longrightarrow> n \<in> ss_cancelled s \<Longrightarrow>
    server_step budget s (s\<lparr>ss_beating := ss_beating s - {n}\<rparr>)"

inductive server_reachable :: "int \<Rightarrow> srv_state \<Rightarrow> bool" for budget where
  init: "server_reachable budget new_state"
| step: "server_reachable budget s \<Longrightarrow> server_step budget s s' \<Longrightarrow> server_reachable budget s'"

inductive_cases drain_stepE: "drain_step budget s s'"
inductive_cases server_stepE: "server_step budget s s'"

subsection \<open>The invariant\<close>

definition gate_ok :: "gate \<Rightarrow> bool" where
  "gate_ok g \<longleftrightarrow> 0 \<le> g_inflight g \<and> (g_idle g \<longleftrightarrow> g_closed g \<and> g_inflight g = 0)"

lemma gate_ok_new: "gate_ok newGate"
  by (simp add: gate_ok_def newGate_def)

lemma gate_ok_ops:
  assumes "gate_ok g"
  shows "gate_ok (gate_unlock g)" "gate_ok (snd (gate_enter g))" "gate_ok (gate_close g)"
    "0 < g_inflight g \<Longrightarrow> gate_ok (gate_leave g)"
  using assms by (auto simp: gate_ok_def gate_unlock_def gate_enter_def gate_close_def gate_leave_def signalIdle_def Let_def)

lemma gate_closed_ops [simp]:
  "g_closed (gate_unlock g) = g_closed g" "g_closed (snd (gate_enter g)) = g_closed g" "g_closed (gate_close g)"
  "g_closed (gate_leave g) = g_closed g" "g_inflight (gate_unlock g) = g_inflight g" "g_idle (gate_unlock g) = g_idle g"
  by (simp_all add: gate_unlock_def gate_enter_def gate_close_def gate_leave_def signalIdle_def Let_def)

text \<open>What holds of a drain at each of its points.\<close>

fun drain_ok :: "srv_state \<Rightarrow> drain_pc \<Rightarrow> bool" where
  "drain_ok s DIdle \<longleftrightarrow> \<not> g_closed (ss_gate s) \<and> \<not> ss_draining s"
| "drain_ok s DClosed \<longleftrightarrow> g_closed (ss_gate s) \<and> \<not> ss_draining s"
| "drain_ok s (DSnapped svc n) \<longleftrightarrow> g_closed (ss_gate s) \<and> ss_draining s \<and> svc = ss_svc s \<and> n = ss_serve s"
| "drain_ok s (DStopped n) \<longleftrightarrow> g_closed (ss_gate s) \<and> ss_draining s \<and> set_option (ss_svc s) \<subseteq> ss_stopped s \<and> n = ss_serve s"
| "drain_ok s (DGrace n) \<longleftrightarrow> g_closed (ss_gate s) \<and> ss_draining s \<and> set_option (ss_svc s) \<subseteq> ss_stopped s \<and> n = ss_serve s \<and>
     set_option (ss_serve s) \<subseteq> ss_cancelled s"
| "drain_ok s DUnwind \<longleftrightarrow> g_closed (ss_gate s) \<and> ss_draining s \<and> set_option (ss_svc s) \<subseteq> ss_stopped s \<and>
     set_option (ss_serve s) \<subseteq> ss_cancelled s"
| "drain_ok s DJoin \<longleftrightarrow> g_closed (ss_gate s) \<and> ss_draining s \<and> set_option (ss_svc s) \<subseteq> ss_stopped s \<and>
     set_option (ss_serve s) \<subseteq> ss_cancelled s \<and> (ss_drain_err s \<or> g_idle (ss_gate s))"
| "drain_ok s DDone \<longleftrightarrow> g_closed (ss_gate s) \<and> ss_draining s \<and> set_option (ss_svc s) \<subseteq> ss_stopped s \<and>
     set_option (ss_serve s) \<subseteq> ss_cancelled s \<and> (ss_drain_err s \<or> g_idle (ss_gate s)) \<and> ss_beating s = {}"

definition late :: "drain_pc \<Rightarrow> bool" where
  "late pc \<longleftrightarrow> pc = DUnwind \<or> pc = DJoin \<or> pc = DDone"

definition state_ok :: "srv_state \<Rightarrow> bool" where
  "state_ok s \<longleftrightarrow> gate_ok (ss_gate s) \<and> drain_ok s (ss_drain s) \<and>
     (ss_services s \<inter> ss_prompts_cancelled s = {} \<or> late (ss_drain s)) \<and>
     (\<forall>n \<in> ss_services s \<union> ss_prompts_cancelled s. n < ss_started s) \<and>
     ss_beating s \<subseteq> ss_services s \<and> (ss_started s \<le> 1 \<longrightarrow> ss_beating s \<subseteq> set_option (ss_serve s)) \<and>
     (\<forall>n. ss_serve s = Some n \<longrightarrow> n < ss_started s)"

lemma state_ok_new: "state_ok new_state"
proof -
  have "\<not> g_closed newGate" by (simp add: newGate_def)
  then show ?thesis using gate_ok_new by (simp add: state_ok_def new_state_def)
qed

text \<open>A step that keeps what \<open>drain_ok\<close> reads.\<close>

lemma drain_ok_gate:
  assumes "drain_ok s pc" and "g_closed g = g_closed (ss_gate s)" and "g_idle (ss_gate s) \<Longrightarrow> g_idle g"
  shows "drain_ok (s\<lparr>ss_gate := g\<rparr>) pc"
  using assms by (cases pc) auto

lemma state_ok_gate:
  assumes "state_ok s" and "gate_ok g" and "g_closed g = g_closed (ss_gate s)" and "g_idle (ss_gate s) \<Longrightarrow> g_idle g"
  shows "state_ok (s\<lparr>ss_gate := g\<rparr>)"
  using assms drain_ok_gate [of s "ss_drain s" g] by (simp add: state_ok_def)

lemma state_ok_drain: "drain_step budget s s' \<Longrightarrow> state_ok s \<Longrightarrow> state_ok s'"
proof (induction rule: drain_step.induct)
  case (close_gate s)
  then show ?case using gate_ok_ops(3) [of "ss_gate s"] by (auto simp: state_ok_def late_def)
next
  case (cancel_prompts s n)
  then show ?case by (auto simp: state_ok_def late_def)
qed (auto simp: state_ok_def late_def waitIdle_def gate_ok_def split: if_splits)

lemma state_ok_start:
  assumes "state_ok s"
  shows "state_ok (start_step added ok s)"
proof (cases "ss_draining s")
  case False
  let ?n = "ss_started s"
  let ?g = "gate_unlock (ss_gate s)"
  have early: "ss_drain s = DIdle \<or> ss_drain s = DClosed" using assms False by (cases "ss_drain s") (auto simp: state_ok_def)
  have new: "?n \<notin> ss_prompts_cancelled s" "?n \<notin> ss_services s" using assms by (auto simp: state_ok_def)
  have sub: "ss_started s = 0 \<Longrightarrow> ss_beating s = {}" using assms by (auto simp: state_ok_def)
  have "gate_ok ?g" using assms by (simp add: state_ok_def gate_ok_ops)
  then show ?thesis using assms False early new sub
    by (auto simp: start_step_def state_ok_def late_def Let_def less_Suc_eq)
qed (use assms in \<open>simp add: start_step_def\<close>)

lemma state_ok_step: "server_step budget s s' \<Longrightarrow> state_ok s \<Longrightarrow> state_ok s'"
proof (induction rule: server_step.induct)
  case (drain s s')
  then show ?case using state_ok_drain by blast
next
  case (start s added ok)
  then show ?case by (rule state_ok_start)
next
  case (ready n s)
  have "drain_ok (s\<lparr>ss_ready := True\<rparr>) pc = drain_ok s pc" for pc by (cases pc) auto
  then show ?case using ready by (auto simp: state_ok_def markReady_def)
next
  case (prompt s ok s')
  then have "s' = s\<lparr>ss_gate := snd (gate_enter (ss_gate s))\<rparr>" by (auto simp: handlePrompt_def split: prod.splits)
  moreover have "g_idle (ss_gate s) \<Longrightarrow> g_idle (snd (gate_enter (ss_gate s)))"
    using prompt by (auto simp: gate_enter_def state_ok_def gate_ok_def)
  moreover have "gate_ok (snd (gate_enter (ss_gate s)))" using prompt gate_ok_ops(2) by (simp add: state_ok_def)
  ultimately show ?case using prompt state_ok_gate by simp
next
  case (leave s)
  then have "\<not> g_idle (ss_gate s)" by (auto simp: state_ok_def gate_ok_def)
  moreover have "gate_ok (gate_leave (ss_gate s))" using leave gate_ok_ops(4) by (simp add: state_ok_def)
  ultimately show ?case using leave state_ok_gate [of s "gate_leave (ss_gate s)"] by (simp add: gate_step_def)
next
  case (ctx_done n s)
  have "drain_ok s pc \<Longrightarrow> drain_ok (s\<lparr>ss_cancelled := insert n (ss_cancelled s)\<rparr>) pc" for pc by (cases pc) auto
  then show ?case using ctx_done by (auto simp: state_ok_def)
next
  case (heartbeat_exit n s)
  have "drain_ok s pc \<Longrightarrow> drain_ok (s\<lparr>ss_beating := ss_beating s - {n}\<rparr>) pc" for pc by (cases pc) auto
  then show ?case using heartbeat_exit by (auto simp: state_ok_def)
qed

lemma reachable_ok: "server_reachable budget s \<Longrightarrow> state_ok s"
  by (induction rule: server_reachable.induct) (auto intro: state_ok_new state_ok_step)

subsection \<open>Properties\<close>


text \<open>
  Once a drain has begun no prompt is admitted: the handlers it waits for can only become fewer.
\<close>

theorem no_prompt_after_drain_begins:
  assumes "server_reachable budget s" and "ss_drain s \<noteq> DIdle" and "server_step budget s s'"
  shows "\<not> fst (handlePrompt s) \<and> g_inflight (ss_gate s') \<le> g_inflight (ss_gate s)"
proof -
  have "g_closed (ss_gate s)" using reachable_ok [OF assms(1)] assms(2) by (cases "ss_drain s") (auto simp: state_ok_def)
  moreover from assms(3) have "g_inflight (ss_gate s') \<le> g_inflight (ss_gate s)"
  proof cases
    case drain
    then show ?thesis using assms(2) by (cases rule: drain_step.cases) auto
  qed (use \<open>g_closed (ss_gate s)\<close> in \<open>auto simp: start_step_def markReady_def handlePrompt_def gate_enter_def gate_step_def
        gate_leave_def signalIdle_def Let_def split: if_splits\<close>)
  ultimately show ?thesis by (simp add: handlePrompt_def gate_enter_def)
qed

text \<open>
  C35: A shutdown does not abandon work: the context the prompts of a started service run on is cancelled
  only by a drain whose graceful wait is over.
\<close>

theorem prompts_cancelled_only_after_grace:
  assumes "server_reachable budget s" and "n \<in> ss_services s" and "n \<in> ss_prompts_cancelled s"
  shows "ss_drain s = DUnwind \<or> ss_drain s = DJoin \<or> ss_drain s = DDone"
  using reachable_ok [OF assms(1)] assms(2,3) by (auto simp: state_ok_def late_def)

text \<open>
  A server that is going away never announces itself: readiness is only ever signalled by a started
  service, before the drain has taken its snapshot.
\<close>

theorem ready_never_while_draining:
  assumes "server_step budget s s'" and "ss_ready s' \<noteq> ss_ready s"
  shows "ss_ready s' \<and> \<not> ss_draining s \<and> ss_services s \<noteq> {}"
  using assms
proof cases
  case drain
  then show ?thesis using assms(2) by (cases rule: drain_step.cases) auto
qed (use assms(2) in \<open>auto simp: start_step_def markReady_def handlePrompt_def gate_step_def Let_def split: if_splits prod.splits\<close>)

text \<open>
  The budget of a drain is a total: the graceful wait and the unwind wait together are the budget, the
  graceful one is the larger, and without a budget the handlers still get a grace to unwind in.
\<close>

theorem drain_budget_is_total:
  "(if 0 < budget then fst (drainPhases budget) + snd (drainPhases budget) = budget \<and>
      4 * snd (drainPhases budget) \<le> fst (drainPhases budget) \<and> 0 \<le> snd (drainPhases budget)
    else drainPhases budget = (0, drainCancelGrace))"
  by (auto simp: drainPhases_def graceGranularity_def Let_def)

text \<open>
  A drain ends: of a server that was started at most once, every step of the drain brings it nearer to
  its end, and until it has ended it can take its next step or a heartbeat publisher it waits for can
  exit.
\<close>

fun drain_rank :: "drain_pc \<Rightarrow> nat" where
  "drain_rank DIdle = 7"
| "drain_rank DClosed = 6"
| "drain_rank (DSnapped svc n) = 5"
| "drain_rank (DStopped n) = 4"
| "drain_rank (DGrace n) = 3"
| "drain_rank DUnwind = 2"
| "drain_rank DJoin = 1"
| "drain_rank DDone = 0"

lemma drain_rank_less: "drain_step budget s s' \<Longrightarrow> drain_rank (ss_drain s') < drain_rank (ss_drain s)"
  by (cases rule: drain_step.cases) auto

theorem drain_ends:
  assumes "server_reachable budget s" and "ss_started s \<le> 1" and "ss_drain s \<noteq> DDone"
  shows "(\<exists>s'. drain_step budget s s' \<and> drain_rank (ss_drain s') < drain_rank (ss_drain s)) \<or>
    (ss_drain s = DJoin \<and> (\<exists>n. n \<in> ss_beating s \<and> n \<in> ss_cancelled s))"
proof -
  note ok = reachable_ok [OF assms(1)]
  have wait: "waitIdle i b True \<or> waitIdle i b False" for i b by (cases i) (auto simp: waitIdle_def)
  have "(\<exists>s'. drain_step budget s s') \<or> (ss_drain s = DJoin \<and> (\<exists>n. n \<in> ss_beating s \<and> n \<in> ss_cancelled s))"
  proof (cases "ss_drain s")
    case (DGrace n)
    then show ?thesis using wait drain_step.graceful drain_step.cancel_prompts by metis
  next
    case DUnwind
    then show ?thesis using wait drain_step.unwound drain_step.incomplete by metis
  next
    case DJoin
    show ?thesis
    proof (cases "ss_beating s = {}")
      case True
      then show ?thesis using DJoin drain_step.join_heartbeats by blast
    next
      case False
      then show ?thesis using ok DJoin assms(2) by (auto simp: state_ok_def)
    qed
  qed (use assms(3) drain_step.intros in blast)+
  then show ?thesis using drain_rank_less by blast
qed

text \<open>
  A run: a server starts, admits a prompt, and drains without a budget while the prompt runs; the
  handler returns after its cancellation.
\<close>

definition run0 :: srv_state where "run0 = start_step True True new_state"
definition run1 :: srv_state where "run1 = snd (handlePrompt run0)"
definition run2 :: srv_state where "run2 = run1\<lparr>ss_gate := gate_close (ss_gate run1), ss_drain := DClosed\<rparr>"
definition run3 :: srv_state where "run3 = run2\<lparr>ss_draining := True, ss_drain := DSnapped (Some 0) (Some 0)\<rparr>"
definition run4 :: srv_state where "run4 = run3\<lparr>ss_stopped := {0}, ss_drain := DStopped (Some 0)\<rparr>"
definition run5 :: srv_state where "run5 = run4\<lparr>ss_cancelled := {0}, ss_drain := DGrace (Some 0)\<rparr>"
definition run6 :: srv_state where "run6 = run5\<lparr>ss_prompts_cancelled := {0}, ss_drain := DUnwind\<rparr>"
definition run7 :: srv_state where "run7 = gate_step gate_leave run6"
definition run8 :: srv_state where "run8 = run7\<lparr>ss_drain := DJoin\<rparr>"
definition run9 :: srv_state where "run9 = run8\<lparr>ss_beating := {}\<rparr>"
definition run10 :: srv_state where "run10 = run9\<lparr>ss_drain := DDone\<rparr>"

lemmas run_defs = run0_def run1_def run2_def run3_def run4_def run5_def run6_def run7_def run8_def run9_def run10_def
  new_state_def newGate_def start_step_def handlePrompt_def gate_unlock_def gate_enter_def gate_close_def gate_leave_def
  gate_step_def signalIdle_def Let_def

lemma run_start: "server_reachable 0 run0"
  unfolding run0_def by (rule server_reachable.step [OF server_reachable.init server_step.start])

lemma run_prompt: "server_reachable 0 run1"
  by (rule server_reachable.step [OF run_start server_step.prompt [of _ True]]) (simp add: run_defs)

lemma run_close: "server_reachable 0 run2"
  unfolding run2_def
  by (rule server_reachable.step [OF run_prompt server_step.drain [OF drain_step.close_gate]]) (simp add: run_defs)

lemma run_snapshot: "server_reachable 0 run3"
proof -
  have "ss_drain run2 = DClosed" "ss_svc run2 = Some 0" "ss_serve run2 = Some 0" by (simp_all add: run_defs)
  then show ?thesis using server_reachable.step [OF run_close server_step.drain [OF drain_step.snapshot]] by (simp add: run3_def)
qed

lemma run_stop: "server_reachable 0 run4"
proof -
  have "ss_drain run3 = DSnapped (Some 0) (Some 0)" "ss_stopped run3 = {}" by (simp_all add: run_defs)
  then show ?thesis using server_reachable.step [OF run_snapshot server_step.drain [OF drain_step.stop_service]] by (simp add: run4_def)
qed

lemma run_serving: "server_reachable 0 run5"
proof -
  have "ss_drain run4 = DStopped (Some 0)" "ss_cancelled run4 = {}" by (simp_all add: run_defs)
  then show ?thesis using server_reachable.step [OF run_stop server_step.drain [OF drain_step.stop_serving]] by (simp add: run5_def)
qed

lemma run_cancel: "server_reachable 0 run6"
proof -
  have "ss_drain run5 = DGrace (Some 0)" "ss_prompts_cancelled run5 = {}" by (simp_all add: run_defs)
  moreover have "waitIdle (g_idle (ss_gate run5)) (fst (drainPhases 0)) False" by (simp add: waitIdle_def drainPhases_def run_defs)
  ultimately show ?thesis
    using server_reachable.step [OF run_serving server_step.drain [OF drain_step.cancel_prompts]] by (simp add: run6_def)
qed

lemma run_leave: "server_reachable 0 run7"
  unfolding run7_def by (rule server_reachable.step [OF run_cancel server_step.leave]) (simp add: run_defs)

lemma run_unwound: "server_reachable 0 run8"
  unfolding run8_def
proof (rule server_reachable.step [OF run_leave server_step.drain [OF drain_step.unwound]])
  show "ss_drain run7 = DUnwind" by (simp add: run_defs)
  show "waitIdle (g_idle (ss_gate run7)) (snd (drainPhases 0)) True" by (simp add: waitIdle_def run_defs)
qed

lemma run_beat: "server_reachable 0 run9"
proof -
  have "0 \<in> ss_beating run8" "0 \<in> ss_cancelled run8" "ss_beating run8 - {0} = {}" by (simp_all add: run_defs)
  then show ?thesis using server_reachable.step [OF run_unwound server_step.heartbeat_exit] by (metis run9_def)
qed

lemma run_done: "server_reachable 0 run10"
  unfolding run10_def
  by (rule server_reachable.step [OF run_beat server_step.drain [OF drain_step.join_heartbeats]]) (simp_all add: run_defs)


theorem no_prompt_after_drain_begins_witness: "\<not> fst (handlePrompt run6) \<and> g_inflight (ss_gate run7) \<le> 1"
proof -
  have "ss_drain run6 \<noteq> DIdle" "0 < g_inflight (ss_gate run6)" "g_inflight (ss_gate run6) = 1" by (simp_all add: run_defs)
  with no_prompt_after_drain_begins [OF run_cancel this(1) server_step.leave [OF this(2)]] show ?thesis by (simp add: run7_def)
qed

theorem prompts_cancelled_only_after_grace_witness: "ss_drain run6 = DUnwind"
proof -
  have "0 \<in> ss_services run6" "0 \<in> ss_prompts_cancelled run6" by (simp_all add: run_defs)
  from prompts_cancelled_only_after_grace [OF run_cancel this] show ?thesis by (simp add: run6_def)
qed

theorem ready_never_while_draining_witness: "ss_services run0 \<noteq> {} \<and> \<not> ss_draining run0"
proof -
  have "0 \<in> ss_services run0" "ss_ready (markReady run0) \<noteq> ss_ready run0" by (simp_all add: run_defs markReady_def)
  from ready_never_while_draining [OF server_step.ready [OF this(1), of 0] this(2)] show ?thesis by blast
qed

theorem drain_ends_witness: "\<exists>s'. drain_step 0 run5 s' \<and> drain_rank (ss_drain s') < 3"
proof -
  have "ss_started run5 \<le> 1" "ss_drain run5 \<noteq> DDone" "drain_rank (ss_drain run5) = 3" "ss_drain run5 \<noteq> DJoin"
    by (simp_all add: run_defs)
  with drain_ends [OF run_serving this(1,2)] show ?thesis by simp
qed

end
