(* ===== verification/Agent_Run.thy ===== *)
theory Agent_Run
  imports Agent_Core "HOL-Library.Multiset"
begin

section \<open>Package agent: the run loop\<close>

text \<open>
  The loop of \<open>Agent.Run\<close> and \<open>Agent.RunStream\<close> (\<open>agent.go\<close>, \<open>stream.go\<close>, \<open>llmcall.go\<close>):
  preparing the session from memory, one LLM call per iteration, the round of tool calls,
  compaction, checkpoints, and finishing the run. Every function threads the run state
  (\<open>runState\<close>, with the spans recorded and the events emitted so far) and the world.

  \<open>run_loop\<close> takes fuel, since an agent without an iteration limit may call its LLM forever;
  \<open>None\<close> is "still running". The consumer of a stream is a function of the world; it sees the events of
  an LLM stream after the stream has been read, and those of a batch of tool calls after the
  batch has run, in the order the calls finished.
\<close>

subsection \<open>The run state and its events\<close>

record run_payload =
  rp_agent :: string
  rp_description :: string
  rp_input :: "content_part list"
  rp_output :: "content_part list"
  rp_iterations :: nat
  rp_max_iterations :: int
  rp_stop_reason :: stop_reason
  rp_handoffs :: "string list"

type_synonym 'w yield = "event \<Rightarrow> err option \<Rightarrow> 'w \<Rightarrow> bool \<times> 'w"

text \<open>
  The two \<open>emit\<close> functions of the package: the one of \<open>RunStream\<close>, which yields to a consumer
  until it stops, and the one of \<open>Agent.Compact\<close>, which keeps the event.
\<close>

datatype 'w emitter = Yielding "'w yield" | Capturing

record 'w run_state =
  rs_run :: run_payload
  rs_prompt_len :: nat
  rs_snapshot :: "snapshot option"
  rs_stored :: "snapshot option"
  rs_context_tokens :: int
  rs_compacted_on_error :: bool
  rs_saved_to :: nat
  rs_emit :: "'w emitter option"
  rs_snapshot_err :: "err option"
  rs_stopped :: bool
  rs_events :: "event list"
  rs_spans :: "span list"

definition emit_event :: "event \<Rightarrow> 'w run_state \<Rightarrow> 'w \<Rightarrow> 'w run_state \<times> 'w" where
  "emit_event ev rs w =
     (case rs_emit rs of
        None \<Rightarrow> (rs, w)
      | Some Capturing \<Rightarrow> (rs\<lparr>rs_events := rs_events rs @ [ev]\<rparr>, w)
      | Some (Yielding y) \<Rightarrow>
          if rs_stopped rs then (rs, w)
          else (case y ev None w of
                  (goOn, w') \<Rightarrow>
                    (rs\<lparr>rs_events := rs_events rs @ [ev], rs_stopped := \<not> goOn\<rparr>, w')))"

fun emit_all :: "event list \<Rightarrow> 'w run_state \<Rightarrow> 'w \<Rightarrow> 'w run_state \<times> 'w" where
  "emit_all [] rs w = (rs, w)"
| "emit_all (ev # evs) rs w = (case emit_event ev rs w of (rs', w') \<Rightarrow> emit_all evs rs' w')"

definition end_span :: "span \<Rightarrow> 'w run_state \<Rightarrow> 'w run_state" where
  "end_span sp rs = rs\<lparr>rs_spans := rs_spans rs @ [sp]\<rparr>"

definition tailStart :: "'w run_state \<Rightarrow> nat" where
  "tailStart rs =
     (case rs_snapshot rs of None \<Rightarrow> 1 | Some s \<Rightarrow> 1 + length (SummaryMessages s))"

subsection \<open>The LLM call\<close>

definition toolDefs :: "'w agent \<Rightarrow> (string \<times> string \<times> json option) list" where
  "toolDefs a = map (\<lambda>t. (tool_name t, tool_description t, InputSchema t)) (ag_tools a)"

definition startLLMCall ::
  "'w agent \<Rightarrow> 'w run_state \<Rightarrow> message list \<Rightarrow> nat \<Rightarrow> bool \<Rightarrow> llm_call \<times> 'w run_state" where
  "startLLMCall a rs session iteration streaming =
     (let offset = min (rs_prompt_len rs) (length session);
          (provider, model) = (case llm_describer (ag_llm a) of None \<Rightarrow> ([], []) | Some d \<Rightarrow> d)
      in (\<lparr>lc_provider = provider, lc_request_model = model, lc_response_model = [],
           lc_iteration = iteration, lc_message_offset = offset,
           lc_messages = drop offset session, lc_tools = toolDefs a,
           lc_response_format = (case ag_response_format a of None \<Rightarrow> [] | Some f \<Rightarrow> rf_name f),
           lc_response = None, lc_usage = None, lc_finish = [], lc_raw_finish = [],
           lc_streaming = streaming\<rparr>,
          rs\<lparr>rs_prompt_len := length session\<rparr>))"

definition SetResult :: "llm_result option \<Rightarrow> llm_call \<Rightarrow> llm_call" where
  "SetResult res c =
     (case res of
        None \<Rightarrow> c
      | Some r \<Rightarrow> c\<lparr>lc_response := res_message r, lc_response_model := res_model r,
          lc_finish := res_finish r, lc_raw_finish := res_raw_finish r,
          lc_usage := (case res_usage r of None \<Rightarrow> lc_usage c | Some u \<Rightarrow> Some u)\<rparr>)"

definition endLLMCall ::
  "llm_call \<Rightarrow> llm_result option \<Rightarrow> err option \<Rightarrow> 'w run_state \<Rightarrow> 'w run_state" where
  "endLLMCall c res e rs = end_span (LLMSpan (SetResult res c) e) rs"

text \<open>The buffered call of \<open>handleAgentIteration\<close>: a result without a message is an error.\<close>

definition bufferedCall ::
  "'w agent \<Rightarrow> 'w goctx \<Rightarrow> message list \<Rightarrow> nat \<Rightarrow> 'w run_state \<Rightarrow> 'w \<Rightarrow>
     (err + llm_result) \<times> 'w run_state \<times> 'w" where
  "bufferedCall a ctx session iteration rs w =
     (let (call, rs1) = startLLMCall a rs session iteration False in
      case llm_execute (ag_llm a) ctx session (callOptions a) w of
        (Inl e, w') \<Rightarrow> (Inl e, endLLMCall call None (Some e) rs1, w')
      | (Inr None, w') \<Rightarrow>
          (let e = Sentinel (AgentE ErrIncompleteStream)
           in (Inl e, endLLMCall call None (Some e) rs1, w'))
      | (Inr (Some r), w') \<Rightarrow>
          if res_message r = None
          then (let e = Sentinel (AgentE ErrIncompleteStream)
                in (Inl e, endLLMCall call (Some r) (Some e) rs1, w'))
          else (Inr r, endLLMCall call (Some r) None rs1, w'))"

text \<open>
  The loop of \<open>streamIteration\<close> over the stream, with the last chunk that was marked done.
\<close>

fun stream_loop ::
  "(err + stream_chunk) list \<Rightarrow> nat \<Rightarrow> stream_chunk option \<Rightarrow> 'w run_state \<Rightarrow> 'w \<Rightarrow>
     (err + stream_chunk option) \<times> 'w run_state \<times> 'w" where
  "stream_loop [] iteration final rs w = (Inr final, rs, w)"
| "stream_loop (Inl e # items) iteration final rs w = (Inl e, rs, w)"
| "stream_loop (Inr chunk # items) iteration final rs w =
     (let (rs1, w1) =
            (if ch_text_delta chunk \<noteq> []
             then emit_event (empty_event\<lparr>ev_type := EventTextDelta,
                    ev_text_delta := ch_text_delta chunk, ev_iteration := iteration\<rparr>) rs w
             else (rs, w));
          (rs2, w2) =
            (if ch_reasoning_delta chunk \<noteq> []
             then emit_event (empty_event\<lparr>ev_type := EventReasoningDelta,
                    ev_reasoning_delta := ch_reasoning_delta chunk, ev_iteration := iteration\<rparr>) rs1 w1
             else (rs1, w1))
      in stream_loop items iteration (if ch_done chunk then Some chunk else final) rs2 w2)"

definition streamIteration ::
  "'w agent \<Rightarrow> 'w goctx \<Rightarrow> message list \<Rightarrow> nat \<Rightarrow> 'w run_state \<Rightarrow> 'w \<Rightarrow>
     (err + llm_result) \<times> 'w run_state \<times> 'w" where
  "streamIteration a ctx session iteration rs w =
     (let (call, rs1) = startLLMCall a rs session iteration True;
          (items, w1) = StreamOrBuffer (ag_llm a) ctx session (callOptions a) w
      in case stream_loop items iteration None rs1 w1 of
           (Inl e, rs2, w2) \<Rightarrow> (Inl e, endLLMCall call None (Some e) rs2, w2)
         | (Inr final, rs2, w2) \<Rightarrow>
             (case final of
                Some chunk \<Rightarrow>
                  if ch_message chunk = None
                  then (let e = Sentinel (AgentE ErrIncompleteStream)
                        in (Inl e, endLLMCall call None (Some e) rs2, w2))
                  else
                    (let result = \<lparr>res_message = ch_message chunk, res_usage = ch_usage chunk,
                           res_model = ch_model chunk, res_finish = ch_finish chunk,
                           res_raw_finish = ch_raw_finish chunk\<rparr>;
                         rs3 = endLLMCall call (Some result) None rs2;
                         (rs4, w4) =
                           (if ch_usage chunk \<noteq> None
                            then emit_event (empty_event\<lparr>ev_type := EventUsage,
                                   ev_usage := ch_usage chunk, ev_iteration := iteration\<rparr>) rs3 w2
                            else (rs3, w2))
                     in (Inr result, rs4, w4))
              | None \<Rightarrow>
                  (let e = Sentinel (AgentE ErrIncompleteStream)
                   in (Inl e, endLLMCall call None (Some e) rs2, w2))))"

subsection \<open>A round of tool calls\<close>

text \<open>
  The results and stops of a round, the indexes of the calls in the order they finished, and
  the spans of the calls. \<open>batch_order\<close> is the order the scheduler lets the goroutines of a
  batch run in: some permutation of the batch, whatever the scheduler is.
\<close>

record tool_round =
  tr_results :: "message option list"
  tr_stops :: "err option list"
  tr_finished :: "nat list"

definition batch_order :: "'w agent_env \<Rightarrow> 'w \<Rightarrow> nat list \<Rightarrow> nat list" where
  "batch_order env w indexes =
     (let order = env_sched env w indexes
      in if mset order = mset indexes then order else indexes)"

text \<open>One goroutine of a batch: the call at index \<open>i\<close>, whose result and stop are stored.\<close>

definition run_call ::
  "'w agent \<Rightarrow> 'w goctx \<Rightarrow> tool_call list \<Rightarrow> nat \<Rightarrow> nat \<Rightarrow> tool_round \<Rightarrow> 'w run_state \<Rightarrow> 'w \<Rightarrow>
     tool_round \<times> 'w run_state \<times> 'w" where
  "run_call a ctx calls iteration i tr rs w =
     (case handleToolCall a ctx (calls ! i) iteration w of
        ((m, stop, sp), w') \<Rightarrow>
          (\<lparr>tr_results = (tr_results tr)[i := Some m], tr_stops = (tr_stops tr)[i := stop],
            tr_finished = tr_finished tr @ [i]\<rparr>, end_span sp rs, w'))"

fun run_batch_loop ::
  "'w agent \<Rightarrow> 'w goctx \<Rightarrow> tool_call list \<Rightarrow> nat \<Rightarrow> nat list \<Rightarrow> tool_round \<Rightarrow> 'w run_state \<Rightarrow> 'w \<Rightarrow>
     tool_round \<times> 'w run_state \<times> 'w" where
  "run_batch_loop a ctx calls iteration [] tr rs w = (tr, rs, w)"
| "run_batch_loop a ctx calls iteration (i # idx) tr rs w =
     (case run_call a ctx calls iteration i tr rs w of
        (tr', rs', w') \<Rightarrow> run_batch_loop a ctx calls iteration idx tr' rs' w')"

definition tool_result_event :: "tool_call \<Rightarrow> message \<Rightarrow> nat \<Rightarrow> event" where
  "tool_result_event tc m iteration =
     empty_event\<lparr>ev_type := EventToolResult, ev_tool_call_id := tc_id tc,
       ev_tool_name := fc_name (tc_function tc), ev_tool_result := TextContent (parts m),
       ev_tool_error := tool_error m, ev_iteration := iteration\<rparr>"

definition runToolBatch ::
  "'w agent_env \<Rightarrow> 'w agent \<Rightarrow> 'w goctx \<Rightarrow> tool_call list \<Rightarrow> nat list \<Rightarrow> nat \<Rightarrow>
     tool_round \<Rightarrow> 'w run_state \<Rightarrow> 'w \<Rightarrow> tool_round \<times> 'w run_state \<times> 'w" where
  "runToolBatch env a ctx calls indexes iteration tr rs w =
     (let order = batch_order env w indexes;
          (tr', rs', w') = run_batch_loop a ctx calls iteration order tr rs w;
          evs = map (\<lambda>i. tool_result_event (calls ! i) (the (tr_results tr' ! i)) iteration) order;
          (rs'', w'') = emit_all evs rs' w'
      in (tr', rs'', w''))"

definition exclusive_call :: "'w agent \<Rightarrow> tool_call \<Rightarrow> bool" where
  "exclusive_call a tc =
     (case getTool a (fc_name (tc_function tc)) of None \<Rightarrow> False | Some t \<Rightarrow> Exclusive t)"

text \<open>The loop of \<open>runToolCalls\<close> over the calls from index \<open>i\<close>, with the batch collected so far.\<close>

fun run_rounds ::
  "'w agent_env \<Rightarrow> 'w agent \<Rightarrow> 'w goctx \<Rightarrow> tool_call list \<Rightarrow> nat \<Rightarrow> tool_call list \<Rightarrow> nat \<Rightarrow>
     nat list \<Rightarrow> tool_round \<Rightarrow> 'w run_state \<Rightarrow> 'w \<Rightarrow> tool_round \<times> 'w run_state \<times> 'w" where
  "run_rounds env a ctx calls iteration [] i batch tr rs w =
     runToolBatch env a ctx calls batch iteration tr rs w"
| "run_rounds env a ctx calls iteration (tc # tcs) i batch tr rs w =
     (if exclusive_call a tc
      then (case runToolBatch env a ctx calls batch iteration tr rs w of
              (tr1, rs1, w1) \<Rightarrow>
                (case runToolBatch env a ctx calls [i] iteration tr1 rs1 w1 of
                   (tr2, rs2, w2) \<Rightarrow> run_rounds env a ctx calls iteration tcs (Suc i) [] tr2 rs2 w2))
      else run_rounds env a ctx calls iteration tcs (Suc i) (batch @ [i]) tr rs w)"

definition runToolCalls ::
  "'w agent_env \<Rightarrow> 'w agent \<Rightarrow> 'w goctx \<Rightarrow> tool_call list \<Rightarrow> nat \<Rightarrow> 'w run_state \<Rightarrow> 'w \<Rightarrow>
     tool_round \<times> 'w run_state \<times> 'w" where
  "runToolCalls env a ctx calls iteration rs w =
     run_rounds env a ctx calls iteration calls 0 []
       \<lparr>tr_results = replicate (length calls) None, tr_stops = replicate (length calls) None,
        tr_finished = []\<rparr> rs w"

definition truncatedToolCallResult :: string where
  "truncatedToolCallResult =
     ''The call'' @ [CHR 0x27] @ ''s arguments were cut off at the output limit and it was not run. '' @
     ''Retry with smaller arguments, for example write the file in several edits.''"

definition truncated_result :: "tool_call \<Rightarrow> message" where
  "truncated_result tc =
     \<lparr>role = RoleTool, parts = [Text truncatedToolCallResult], tool_calls = [],
      tool_call_id = tc_id tc, tool_error = True, msg_name = []\<rparr>"

fun truncated_loop ::
  "tool_call list \<Rightarrow> nat \<Rightarrow> message list \<Rightarrow> 'w run_state \<Rightarrow> 'w \<Rightarrow> message list \<times> 'w run_state \<times> 'w" where
  "truncated_loop [] iteration results rs w = (results, rs, w)"
| "truncated_loop (tc # tcs) iteration results rs w =
     (case emit_event (empty_event\<lparr>ev_type := EventToolResult, ev_tool_call_id := tc_id tc,
              ev_tool_name := fc_name (tc_function tc), ev_tool_result := truncatedToolCallResult,
              ev_tool_error := True, ev_iteration := iteration\<rparr>) rs w of
        (rs', w') \<Rightarrow> truncated_loop tcs iteration (results @ [truncated_result tc]) rs' w')"

definition truncatedToolResults ::
  "tool_call list \<Rightarrow> nat \<Rightarrow> 'w run_state \<Rightarrow> 'w \<Rightarrow> message list \<times> 'w run_state \<times> 'w" where
  "truncatedToolResults calls iteration rs w = truncated_loop calls iteration [] rs w"

record agent_iteration =
  it_session :: "message list"
  it_result :: "run_result option"
  it_stop :: "err option"

definition handoffContext :: "'w agent_env \<Rightarrow> tool_call \<Rightarrow> string" where
  "handoffContext env tc =
     (case env_decode_handoff env (fc_arguments (tc_function tc)) of Inl e \<Rightarrow> [] | Inr c \<Rightarrow> c)"

definition make_handoff ::
  "'w agent \<Rightarrow> agent_ref \<Rightarrow> string \<Rightarrow> 'w run_state \<Rightarrow> handoff \<times> 'w run_state" where
  "make_handoff a target c rs =
     (\<lparr>ho_agent = Some target, ho_context = c\<rparr>,
      end_span (HandoffSpan (ag_name a) (ar_name target) c) rs)"

fun collect_results ::
  "'w agent_env \<Rightarrow> 'w agent \<Rightarrow> (message \<times> tool_call) list \<Rightarrow> message list \<Rightarrow> handoff list \<Rightarrow>
     'w run_state \<Rightarrow> message list \<times> handoff list \<times> 'w run_state" where
  "collect_results env a [] session handoffs rs = (session, handoffs, rs)"
| "collect_results env a ((m, tc) # rest) session handoffs rs =
     (case ag_handoffs a (fc_name (tc_function tc)) of
        None \<Rightarrow> collect_results env a rest (session @ [m]) handoffs rs
      | Some target \<Rightarrow>
          (case make_handoff a target (handoffContext env tc) rs of
             (h, rs') \<Rightarrow> collect_results env a rest (session @ [m]) (handoffs @ [h]) rs'))"

definition tool_call_event :: "nat \<Rightarrow> tool_call \<Rightarrow> event" where
  "tool_call_event iteration tc =
     empty_event\<lparr>ev_type := EventToolCall, ev_tool_call_id := tc_id tc,
       ev_tool_name := fc_name (tc_function tc), ev_tool_args := fc_arguments (tc_function tc),
       ev_iteration := iteration\<rparr>"

definition processToolCalls ::
  "'w agent_env \<Rightarrow> 'w agent \<Rightarrow> 'w goctx \<Rightarrow> message list \<Rightarrow> message \<Rightarrow> string \<Rightarrow> nat \<Rightarrow>
     'w run_state \<Rightarrow> 'w \<Rightarrow> agent_iteration \<times> 'w run_state \<times> 'w" where
  "processToolCalls env a ctx session msg finish iteration rs w =
     (let calls = tool_calls msg in
      if calls = []
      then (\<lparr>it_session = session,
             it_result = Some (empty_run_result\<lparr>rr_parts := parts msg, rr_finish := finish\<rparr>),
             it_stop = None\<rparr>, rs, w)
      else
        (let (rs1, w1) = emit_all (map (tool_call_event iteration) calls) rs w in
         if finish = FinishLength
         then (case truncatedToolResults calls iteration rs1 w1 of
                 (results, rs2, w2) \<Rightarrow>
                   (\<lparr>it_session = session @ results, it_result = None, it_stop = None\<rparr>, rs2, w2))
         else
           (let (tr, rs2, w2) = runToolCalls env a ctx calls iteration rs1 w1;
                (session', handoffs, rs3) =
                  collect_results env a (zip (map the (tr_results tr)) calls) session [] rs2
            in case errors_join (tr_stops tr) of
                 Some stop \<Rightarrow>
                   (\<lparr>it_session = session',
                     it_result = Some (empty_run_result\<lparr>rr_parts := nonBlankParts (textOnly (parts msg)),
                       rr_finish := finish\<rparr>),
                     it_stop = Some stop\<rparr>, rs3, w2)
               | None \<Rightarrow>
                   if handoffs \<noteq> []
                   then (\<lparr>it_session = session',
                          it_result = Some (empty_run_result\<lparr>rr_parts := nonBlankParts (textOnly (parts msg)),
                            rr_handoffs := handoffs, rr_finish := finish\<rparr>),
                          it_stop = None\<rparr>, rs3, w2)
                   else (\<lparr>it_session = session', it_result = None, it_stop = None\<rparr>, rs3, w2))))"

definition handleAgentIteration ::
  "'w agent_env \<Rightarrow> 'w agent \<Rightarrow> 'w goctx \<Rightarrow> message list \<Rightarrow> nat \<Rightarrow> 'w run_state \<Rightarrow> 'w \<Rightarrow>
     (err + agent_iteration) \<times> 'w run_state \<times> 'w" where
  "handleAgentIteration env a ctx session iteration rs w =
     (case (if rs_emit rs = None then bufferedCall a ctx session iteration rs w
            else streamIteration a ctx session iteration rs w) of
        (Inl e, rs1, w1) \<Rightarrow> (Inl e, rs1, w1)
      | (Inr res, rs1, w1) \<Rightarrow>
          (let rs2 = (case res_usage res of
                        None \<Rightarrow> rs1
                      | Some u \<Rightarrow> rs1\<lparr>rs_context_tokens :=
                          input_tokens u + cache_read_tokens u + cache_write_tokens u + output_tokens u\<rparr>);
               msg = the (res_message res);
               (it, rs3, w3) =
                 processToolCalls env a ctx (session @ [msg]) msg (res_finish res) iteration rs2 w1
           in (Inr it, rs3, w3)))"

subsection \<open>Memory\<close>

definition session_save_failed :: "err \<Rightarrow> err" where
  "session_save_failed e = errorf2 (Sentinel (AgentE ErrSessionSaveFailed)) e"

definition saveSession ::
  "'w agent \<Rightarrow> 'w goctx \<Rightarrow> message list \<Rightarrow> nat \<Rightarrow> 'w run_state \<Rightarrow> 'w \<Rightarrow> err option \<times> 'w run_state \<times> 'w" where
  "saveSession a ctx messages sessionIndex rs w =
     (case ag_memory a of
        None \<Rightarrow> (None, rs, w)
      | Some mem \<Rightarrow>
          (let turn = replayable (drop sessionIndex messages) in
           if turn = [] then (None, rs, w)
           else (case mem_save mem ctx turn w of
                   (e, w') \<Rightarrow>
                     (e, end_span (MemorySpan \<lparr>mp_op = MemorySave, mp_query = [], mp_messages = turn,
                           mp_count = (if e = None then length turn else 0)\<rparr> e) rs, w'))))"

definition retrieveMemory ::
  "'w memory_ops \<Rightarrow> 'w goctx \<Rightarrow> content_part list \<Rightarrow> 'w run_state \<Rightarrow> 'w \<Rightarrow>
     (err + message list) \<times> 'w run_state \<times> 'w" where
  "retrieveMemory mem ctx ps rs w =
     (let query = TextContent ps in
      case mem_retrieve mem ctx query w of
        (Inl e, w') \<Rightarrow>
          (Inl e, end_span (MemorySpan \<lparr>mp_op = MemoryRetrieve, mp_query = query, mp_messages = [],
             mp_count = 0\<rparr> (Some e)) rs, w')
      | (Inr ms, w') \<Rightarrow>
          (let ms' = replayable ms in
           (Inr ms', end_span (MemorySpan \<lparr>mp_op = MemoryRetrieve, mp_query = query,
              mp_messages = ms', mp_count = length ms'\<rparr> None) rs, w')))"

definition loadMemory ::
  "'w memory_ops \<Rightarrow> 'w goctx \<Rightarrow> content_part list \<Rightarrow> 'w run_state \<Rightarrow> 'w \<Rightarrow>
     (err + snapshot option \<times> message list) \<times> 'w run_state \<times> 'w" where
  "loadMemory mem ctx ps rs w =
     (case mem_store mem of
        None \<Rightarrow>
          (case retrieveMemory mem ctx ps rs w of
             (Inl e, rs', w') \<Rightarrow> (Inl e, rs', w')
           | (Inr ms, rs', w') \<Rightarrow> (Inr (None, ms), rs', w'))
      | Some store \<Rightarrow>
          (let query = TextContent ps;
               payload = \<lparr>mp_op = MemoryRetrieve, mp_query = query, mp_messages = [], mp_count = 0\<rparr>
           in case so_load store ctx w of
                (Inl e, w') \<Rightarrow>
                  if err_is e (MemoryE ErrSnapshotsUnsupported)
                  then (case retrieveMemory mem ctx ps (end_span (MemorySpan payload None) rs) w' of
                          (Inl e', rs'', w'') \<Rightarrow> (Inl e', rs'', w'')
                        | (Inr ms, rs'', w'') \<Rightarrow> (Inr (None, ms), rs'', w''))
                  else (Inl e, end_span (MemorySpan payload (Some e)) rs, w')
              | (Inr (sn, logged), w') \<Rightarrow>
                  (let ms = replayable (map lm_message logged) in
                   (Inr (sn, ms),
                    end_span (MemorySpan (payload\<lparr>mp_messages := ms, mp_count := length ms\<rparr>) None) rs, w'))))"

definition prepareSession ::
  "'w agent \<Rightarrow> 'w goctx \<Rightarrow> content_part list \<Rightarrow> 'w run_state \<Rightarrow> 'w \<Rightarrow>
     (err + message list \<times> nat) \<times> 'w run_state \<times> 'w" where
  "prepareSession a ctx ps rs w =
     (let messages = [SystemMessage (ag_description a)];
          loaded = (case ag_memory a of
                      None \<Rightarrow> (Inr messages, rs, w)
                    | Some mem \<Rightarrow>
                        (case loadMemory mem ctx ps rs w of
                           (Inl e, rs', w') \<Rightarrow> (Inl e, rs', w')
                         | (Inr (sn, ms), rs', w') \<Rightarrow>
                             (case sn of
                                None \<Rightarrow> (Inr (messages @ ms), rs', w')
                              | Some s \<Rightarrow>
                                  (Inr (messages @ SummaryMessages s @ ms),
                                   rs'\<lparr>rs_snapshot := Some s, rs_stored := Some s\<rparr>, w'))))
      in case loaded of
           (Inl e, rs', w') \<Rightarrow> (Inl e, rs', w')
         | (Inr messages', rs', w') \<Rightarrow>
             (let sessionIndex = length messages';
                  content = nonBlankParts ps
              in (Inr (messages' @ (if content \<noteq> [] then [UserMessage content] else []), sessionIndex),
                  rs', w')))"

subsection \<open>Compaction\<close>

fun alignedWithLog :: "logged_message list \<Rightarrow> message list \<Rightarrow> bool" where
  "alignedWithLog logged [] = True"
| "alignedWithLog [] (m # ms) = False"
| "alignedWithLog (lm # logged) (m # ms) =
     (let l = lm_message lm in
      if role l \<noteq> role m \<or> tool_call_id l \<noteq> tool_call_id m \<or> \<not> sameToolCalls l m then False
      else if role m \<noteq> RoleTool \<and> msg_text l \<noteq> msg_text m then False
      else alignedWithLog logged ms)"

text \<open>The loop of \<open>snapshotCursor\<close>, from \<open>start = n - 1\<close> down to 0.\<close>

fun cursor_loop :: "logged_message list \<Rightarrow> message list \<Rightarrow> nat \<Rightarrow> nat \<Rightarrow> cursor option" where
  "cursor_loop logged tail covered 0 = None"
| "cursor_loop logged tail covered (Suc start) =
     (if alignedWithLog (take (length tail) (drop start logged)) tail
      then Some (lm_cursor (logged ! (start + covered - 1)))
      else cursor_loop logged tail covered start)"

definition snapshotCursor ::
  "'w snapshot_ops \<Rightarrow> 'w goctx \<Rightarrow> snapshot option \<Rightarrow> compact_input \<Rightarrow> compaction \<Rightarrow> 'w \<Rightarrow>
     (err + cursor) \<times> 'w" where
  "snapshotCursor store ctx stored inp co w =
     (case so_load store ctx w of
        (Inl e, w') \<Rightarrow> (Inl e, w')
      | (Inr (current, logged), w') \<Rightarrow>
          if \<not> Same current stored then (Inl (Sentinel (MemoryE ErrSnapshotConflict)), w')
          else
            (let ms = ci_messages inp;
                 covered = replayable (take (length ms - length (co_kept co)) ms);
                 tail = replayable ms;
                 loggedMsgs = filter (\<lambda>lm. \<not> isEmptyAnswer (lm_message lm)) logged
             in if covered = []
                then (Inl (errorf1 (Sentinel (AgentE ErrSnapshotMismatch)) '': it covers no saved message''), w')
                else case cursor_loop loggedMsgs tail (length covered)
                            (length loggedMsgs + 1 - length tail) of
                       Some c \<Rightarrow> (Inr c, w')
                     | None \<Rightarrow> (Inl (Sentinel (AgentE ErrSnapshotMismatch)), w')))"

definition storeSnapshot ::
  "'w snapshot_ops \<Rightarrow> 'w goctx \<Rightarrow> compact_input \<Rightarrow> compaction \<Rightarrow> 'w run_state \<Rightarrow> 'w \<Rightarrow>
     err option \<times> 'w run_state \<times> 'w" where
  "storeSnapshot store ctx inp co rs w =
     (let payload = \<lparr>mp_op = MemorySnapshot, mp_query = [], mp_messages = [], mp_count = 0\<rparr>;
          ctx' = without_cancel ctx;
          failed = (\<lambda>e rs. end_span (MemorySpan payload (Some e)) rs)
      in case snapshotCursor store ctx' (rs_stored rs) inp co w of
           (Inl e, w1) \<Rightarrow> (Some e, failed e rs, w1)
         | (Inr upTo, w1) \<Rightarrow>
             (case so_save store ctx' (co_snapshot co) upTo (rs_stored rs) w1 of
                (Some e, w2) \<Rightarrow> (Some e, failed e rs, w2)
              | (None, w2) \<Rightarrow>
                  (let saved = (co_snapshot co)\<lparr>sn_upTo := upTo\<rparr>; ms = SummaryMessages saved
                   in (None, end_span (MemorySpan (payload\<lparr>mp_messages := ms, mp_count := length ms\<rparr>) None)
                         (rs\<lparr>rs_stored := Some saved\<rparr>), w2))))"

text \<open>\<open>compact\<close>, with the session, its index, whether it was replaced, and the error.\<close>

definition compact ::
  "'w compactor \<Rightarrow> 'w agent \<Rightarrow> 'w goctx \<Rightarrow> message list \<Rightarrow> nat \<Rightarrow> 'w run_state \<Rightarrow> 'w \<Rightarrow>
     (message list \<times> nat \<times> bool \<times> err option) \<times> 'w run_state \<times> 'w" where
  "compact c a ctx session sessionIndex rs w =
     (let payload = \<lparr>mp_op = MemoryCompact, mp_query = [], mp_messages = [], mp_count = 0\<rparr>;
          inp = \<lparr>ci_previous = rs_snapshot rs, ci_messages = drop (tailStart rs) session,
                 ci_keep_tokens = keepTokens a\<rparr>;
          (res, w1) = c ctx inp w;
          checked = (case res of
                       Inl e \<Rightarrow> Inl e
                     | Inr None \<Rightarrow> Inr None
                     | Inr (Some co) \<Rightarrow>
                         (case check_compaction co inp of Some e \<Rightarrow> Inl e | None \<Rightarrow> Inr (Some co)))
      in case checked of
           Inl e \<Rightarrow> ((session, sessionIndex, False, Some e), end_span (MemorySpan payload (Some e)) rs, w1)
         | Inr None \<Rightarrow> ((session, sessionIndex, False, None), end_span (MemorySpan payload None) rs, w1)
         | Inr (Some co) \<Rightarrow>
             (case saveSession a (without_cancel ctx) session (rs_saved_to rs) rs w1 of
                (Some e, rs2, w2) \<Rightarrow>
                  (let e' = session_save_failed e in
                   ((session, sessionIndex, False, Some e'), end_span (MemorySpan payload (Some e')) rs2, w2))
              | (None, rs2, w2) \<Rightarrow>
                  (let (rs3, w3) =
                         (case Option.bind (ag_memory a) mem_store of
                            None \<Rightarrow> (rs2, w2)
                          | Some store \<Rightarrow>
                              (case storeSnapshot store ctx inp co rs2 w2 of
                                 (e, rs3, w3) \<Rightarrow> (rs3\<lparr>rs_snapshot_err := e\<rparr>, w3)));
                       newSession = hd session # SummaryMessages (co_snapshot co) @ co_kept co;
                       rs4 = end_span (MemorySpan (payload\<lparr>mp_messages := tl newSession,
                               mp_count := length newSession - 1\<rparr>) None) rs3;
                       rs5 = rs4\<lparr>rs_snapshot := Some (co_snapshot co), rs_context_tokens := 0,
                               rs_prompt_len := 0, rs_saved_to := length newSession\<rparr>
                   in ((newSession, tailStart rs5, True, None), rs5, w3))))"

definition compactSession ::
  "'w compactor \<Rightarrow> 'w agent \<Rightarrow> 'w goctx \<Rightarrow> message list \<Rightarrow> nat \<Rightarrow> compaction_trigger \<Rightarrow> nat \<Rightarrow>
     'w run_state \<Rightarrow> 'w \<Rightarrow> (message list \<times> nat \<times> err option) \<times> 'w run_state \<times> 'w" where
  "compactSession c a ctx session sessionIndex trigger next rs w =
     (let before = \<lparr>inf_trigger = trigger, inf_tokens_before = EstimateTokens session,
            inf_messages_before = length session, inf_tokens_after = 0, inf_messages_after = 0,
            inf_compacted = False, inf_err = None\<rparr>;
          (rs1, w1) = emit_event (empty_event\<lparr>ev_type := EventCompactionStart,
                        ev_compaction := Some before, ev_iteration := next\<rparr>) rs w;
          ((newSession, newIndex, compacted, e), rs2, w2) = compact c a ctx session sessionIndex rs1 w1;
          after = before\<lparr>inf_tokens_after := EstimateTokens newSession,
                    inf_messages_after := length newSession, inf_compacted := compacted, inf_err := e\<rparr>;
          (rs3, w3) = emit_event (empty_event\<lparr>ev_type := EventCompactionEnd,
                        ev_compaction := Some after, ev_iteration := next\<rparr>) rs2 w2
      in ((newSession, newIndex, e), rs3, w3))"

definition compactIfNeeded ::
  "'w agent \<Rightarrow> 'w goctx \<Rightarrow> message list \<Rightarrow> nat \<Rightarrow> nat \<Rightarrow> 'w run_state \<Rightarrow> 'w \<Rightarrow>
     (message list \<times> nat \<times> err option) \<times> 'w run_state \<times> 'w" where
  "compactIfNeeded a ctx session sessionIndex next rs w =
     (case ag_compactor a of
        None \<Rightarrow> ((session, sessionIndex, None), rs, w)
      | Some c \<Rightarrow>
          if ag_compact_at a \<le> 0 then ((session, sessionIndex, None), rs, w)
          else
            (let tokens = (if rs_context_tokens rs = 0 then int (EstimateTokens session)
                           else rs_context_tokens rs)
             in if tokens < ag_compact_at a then ((session, sessionIndex, None), rs, w)
                else if int (EstimateTokens (drop (tailStart rs) session)) < keepTokens a
                then ((session, sessionIndex, None), rs, w)
                else compactSession c a ctx session sessionIndex CompactThreshold next rs w))"

definition compactAfterError ::
  "'w agent \<Rightarrow> 'w goctx \<Rightarrow> message list \<Rightarrow> nat \<Rightarrow> nat \<Rightarrow> err \<Rightarrow> 'w run_state \<Rightarrow> 'w \<Rightarrow>
     (bool \<times> message list \<times> nat \<times> err option) \<times> 'w run_state \<times> 'w" where
  "compactAfterError a ctx session sessionIndex next callErr rs w =
     (case ag_compactor a of
        None \<Rightarrow> ((False, session, sessionIndex, None), rs, w)
      | Some c \<Rightarrow>
          if rs_compacted_on_error rs \<or> \<not> err_is callErr (LlmE ErrContextLengthExceeded)
          then ((False, session, sessionIndex, None), rs, w)
          else
            (case compactSession c a ctx session sessionIndex CompactContextLength next
                    (rs\<lparr>rs_compacted_on_error := True\<rparr>) w of
               ((session', idx', e), rs', w') \<Rightarrow> ((e = None, session', idx', e), rs', w')))"

text \<open>\<open>iterationFailed\<close>: \<open>None\<close> as its error means that the call is made again.\<close>

definition iterationFailed ::
  "'w agent \<Rightarrow> 'w goctx \<Rightarrow> message list \<Rightarrow> nat \<Rightarrow> nat \<Rightarrow> err \<Rightarrow> 'w run_state \<Rightarrow> 'w \<Rightarrow>
     (err option \<times> message list \<times> nat) \<times> 'w run_state \<times> 'w" where
  "iterationFailed a ctx session sessionIndex next iterErr rs w =
     (if ctx_err ctx w \<noteq> None then ((cancellationError ctx w, session, sessionIndex), rs, w)
      else case compactAfterError a ctx session sessionIndex next iterErr rs w of
        ((retry, session', idx', compactErr), rs', w') \<Rightarrow>
          if retry then ((None, session', idx'), rs', w')
          else (case compactErr of
                  Some e \<Rightarrow> ((errors_join [Some iterErr, Some e], session', idx'), rs', w')
                | None \<Rightarrow> ((Some iterErr, session', idx'), rs', w')))"

subsection \<open>The loop\<close>

definition saveCheckpoint ::
  "'w agent \<Rightarrow> 'w goctx \<Rightarrow> message list \<Rightarrow> 'w run_state \<Rightarrow> 'w \<Rightarrow> err option \<times> 'w run_state \<times> 'w" where
  "saveCheckpoint a ctx session rs w =
     (if \<not> ag_checkpoint a \<or> ag_memory a = None then (None, rs, w)
      else case saveSession a (without_cancel ctx) session (rs_saved_to rs) rs w of
        (Some e, rs', w') \<Rightarrow> (Some (session_save_failed e), rs', w')
      | (None, rs', w') \<Rightarrow> (None, rs'\<lparr>rs_saved_to := length session\<rparr>, w'))"

text \<open>\<open>afterIteration\<close>: \<open>None\<close> when the loop goes on, the result and error of the run otherwise.\<close>

definition afterIteration ::
  "'w agent \<Rightarrow> 'w goctx \<Rightarrow> agent_iteration \<Rightarrow> nat \<Rightarrow> 'w run_state \<Rightarrow> 'w \<Rightarrow>
     (run_result option \<times> err option) option \<times> 'w run_state \<times> 'w" where
  "afterIteration a ctx it sessionIndex rs w =
     (if it_stop it \<noteq> None then (Some (it_result it, it_stop it), rs, w)
      else if it_result it \<noteq> None then (Some (it_result it, None), rs, w)
      else case saveCheckpoint a ctx (it_session it) rs w of
        (Some e, rs', w') \<Rightarrow>
          (Some (Some (partialResultFromSession (drop sessionIndex (it_session it))), Some e), rs', w')
      | (None, rs', w') \<Rightarrow> (None, rs', w'))"

record 'w loop_state =
  ls_session :: "message list"
  ls_index :: nat
  ls_iteration :: nat
  ls_rs :: "'w run_state"
  ls_world :: 'w

type_synonym run_end = "run_result option \<times> err option"

definition partial_end :: "message list \<Rightarrow> nat \<Rightarrow> err option \<Rightarrow> run_end" where
  "partial_end session idx e = (Some (partialResultFromSession (drop idx session)), e)"

text \<open>One pass of the loop body: the run ends, or it goes on with the next pass.\<close>

definition loop_pass ::
  "'w agent_env \<Rightarrow> 'w agent \<Rightarrow> 'w goctx \<Rightarrow> 'w loop_state \<Rightarrow> run_end option \<times> 'w loop_state" where
  "loop_pass env a ctx st =
     (let w = ls_world st; session = ls_session st; idx = ls_index st in
      if ctx_err ctx w \<noteq> None then (Some (partial_end session idx (cancellationError ctx w)), st)
      else if 0 < ag_max_iterations a \<and> ag_max_iterations a \<le> int (ls_iteration st)
      then (Some (partial_end session idx (Some (Sentinel (AgentE ErrMaxIterationsReached)))), st)
      else case compactIfNeeded a ctx session idx (ls_iteration st + 1) (ls_rs st) w of
        ((session1, idx1, Some e), rs1, w1) \<Rightarrow>
          (Some (partial_end session1 idx1 (Some e)),
           st\<lparr>ls_session := session1, ls_index := idx1, ls_rs := rs1, ls_world := w1\<rparr>)
      | ((session1, idx1, None), rs1, w1) \<Rightarrow>
          (let iteration = ls_iteration st + 1 in
           case handleAgentIteration env a ctx session1 iteration rs1 w1 of
             (Inl e, rs2, w2) \<Rightarrow>
               (case iterationFailed a ctx session1 idx1 (iteration + 1) e rs2 w2 of
                  ((None, session3, idx3), rs3, w3) \<Rightarrow>
                    (None, \<lparr>ls_session = session3, ls_index = idx3, ls_iteration = iteration,
                            ls_rs = rs3, ls_world = w3\<rparr>)
                | ((Some failErr, session3, idx3), rs3, w3) \<Rightarrow>
                    (Some (partial_end session3 idx3 (Some failErr)),
                     \<lparr>ls_session = session3, ls_index = idx3, ls_iteration = iteration,
                      ls_rs = rs3, ls_world = w3\<rparr>))
           | (Inr it, rs2, w2) \<Rightarrow>
               (case afterIteration a ctx it idx1 (rs2\<lparr>rs_compacted_on_error := False\<rparr>) w2 of
                  (done, rs3, w3) \<Rightarrow>
                    (done, \<lparr>ls_session = it_session it, ls_index = idx1, ls_iteration = iteration,
                            ls_rs = rs3, ls_world = w3\<rparr>))))"

fun run_loop ::
  "nat \<Rightarrow> 'w agent_env \<Rightarrow> 'w agent \<Rightarrow> 'w goctx \<Rightarrow> 'w loop_state \<Rightarrow> (run_end \<times> 'w loop_state) option" where
  "run_loop 0 env a ctx st = None"
| "run_loop (Suc n) env a ctx st =
     (case loop_pass env a ctx st of
        (Some fin, st') \<Rightarrow> Some (fin, st')
      | (None, st') \<Rightarrow> run_loop n env a ctx st')"

text \<open>
  \<open>finishRun\<close>, deferred by \<open>run\<close>: the session is \<open>None\<close> when it could not be prepared.
\<close>

definition finishRun ::
  "'w agent \<Rightarrow> 'w goctx \<Rightarrow> message list option \<Rightarrow> nat \<Rightarrow> run_end \<Rightarrow> 'w run_state \<Rightarrow> 'w \<Rightarrow>
     run_end \<times> 'w run_state \<times> 'w" where
  "finishRun a ctx session iteration fin rs w =
     (let (result, e) = fin;
          rs1 = rs\<lparr>rs_run := (rs_run rs)\<lparr>rp_stop_reason := stopReason ctx w result e\<rparr>\<rparr>;
          (e', rs2, w2) =
            (case session of
               None \<Rightarrow> (e, rs1, w)
             | Some s \<Rightarrow>
                 (case saveSession a (without_cancel ctx) s (rs_saved_to rs1) rs1 w of
                    (None, rs2, w2) \<Rightarrow> (e, rs2, w2)
                  | (Some saveErr, rs2, w2) \<Rightarrow>
                      (errors_join [e, Some (session_save_failed saveErr)], rs2, w2)));
          run' = (rs_run rs2)\<lparr>rp_iterations := iteration\<rparr>;
          run'' = (case result of
                     None \<Rightarrow> run'
                   | Some r \<Rightarrow> run'\<lparr>rp_output := rr_parts r,
                       rp_handoffs := rp_handoffs run' @ map (ar_name \<circ> the \<circ> ho_agent) (rr_handoffs r)\<rparr>)
      in ((result, e'), rs2\<lparr>rs_run := run''\<rparr>, w2))"

definition init_run_state :: "'w agent \<Rightarrow> 'w emitter option \<Rightarrow> content_part list \<Rightarrow> 'w run_state" where
  "init_run_state a emit ps =
     \<lparr>rs_run = \<lparr>rp_agent = ag_name a, rp_description = ag_description a, rp_input = ps,
        rp_output = [], rp_iterations = 0, rp_max_iterations = max (ag_max_iterations a) 0,
        rp_stop_reason = StopFinal, rp_handoffs = []\<rparr>,
      rs_prompt_len = 0, rs_snapshot = None, rs_stored = None, rs_context_tokens = 0,
      rs_compacted_on_error = False, rs_saved_to = 0, rs_emit = emit, rs_snapshot_err = None,
      rs_stopped = False, rs_events = [], rs_spans = []\<rparr>"

definition run_agent ::
  "nat \<Rightarrow> 'w agent_env \<Rightarrow> 'w agent \<Rightarrow> 'w goctx \<Rightarrow> 'w emitter option \<Rightarrow> content_part list \<Rightarrow> 'w \<Rightarrow>
     (run_end \<times> 'w run_state \<times> 'w) option" where
  "run_agent fuel env a ctx0 emit ps w =
     (let ctx = ContextWithRun ctx0 (env_run_id env) in
      case prepareSession a ctx ps (init_run_state a emit ps) w of
        (Inl e, rs, w1) \<Rightarrow> Some (finishRun a ctx None 0 (Some empty_run_result, Some e) rs w1)
      | (Inr (session, idx), rs, w1) \<Rightarrow>
          (case run_loop fuel env a ctx
                  \<lparr>ls_session = session, ls_index = idx, ls_iteration = 0,
                   ls_rs = rs\<lparr>rs_saved_to := idx\<rparr>, ls_world = w1\<rparr> of
             None \<Rightarrow> None
           | Some (fin, st) \<Rightarrow>
               Some (finishRun a ctx (Some (ls_session st)) (ls_iteration st) fin (ls_rs st) (ls_world st))))"

definition Run ::
  "nat \<Rightarrow> 'w agent_env \<Rightarrow> 'w agent \<Rightarrow> 'w goctx \<Rightarrow> content_part list \<Rightarrow> 'w \<Rightarrow> (run_end \<times> 'w) option" where
  "Run fuel env a ctx ps w =
     map_option (\<lambda>(e, rs, w'). (e, w')) (run_agent fuel env a ctx None ps w)"

text \<open>\<open>RunStream\<close>: the world after the consumer has seen the last item.\<close>

definition RunStream ::
  "nat \<Rightarrow> 'w agent_env \<Rightarrow> 'w agent \<Rightarrow> 'w goctx \<Rightarrow> 'w yield \<Rightarrow> content_part list \<Rightarrow> 'w \<Rightarrow>
     ('w run_state \<times> 'w) option" where
  "RunStream fuel env a ctx yield ps w =
     (case run_agent fuel env a ctx (Some (Yielding yield)) ps w of
        None \<Rightarrow> None
      | Some ((result, e), rs, w') \<Rightarrow>
          if rs_stopped rs then Some (rs, w')
          else (case e of
                  Some e' \<Rightarrow> Some (rs, snd (yield (empty_event\<lparr>ev_result := result\<rparr>) (Some e') w'))
                | None \<Rightarrow> Some (emit_event (empty_event\<lparr>ev_type := EventDone, ev_result := result\<rparr>) rs w')))"

text \<open>\<open>Agent.Compact\<close>, with the info and the error.\<close>

definition empty_info :: compaction_info where
  "empty_info = \<lparr>inf_trigger = CompactManual, inf_tokens_before = 0, inf_messages_before = 0,
     inf_tokens_after = 0, inf_messages_after = 0, inf_compacted = False, inf_err = None\<rparr>"

definition captured_info :: "event list \<Rightarrow> compaction_info" where
  "captured_info evs =
     fold (\<lambda>ev info. if ev_type ev = EventCompactionEnd then the (ev_compaction ev) else info) evs empty_info"

definition Compact_agent ::
  "'w agent \<Rightarrow> 'w goctx \<Rightarrow> 'w \<Rightarrow> (compaction_info \<times> err option) \<times> 'w" where
  "Compact_agent a ctx w =
     (case ag_compactor a of
        None \<Rightarrow> ((empty_info, Some (Sentinel (AgentE ErrNoCompactor))), w)
      | Some c \<Rightarrow>
          if Option.bind (ag_memory a) mem_store = None
          then ((empty_info, Some (Sentinel (MemoryE ErrSnapshotsUnsupported))), w)
          else case prepareSession a ctx [] (init_run_state a (Some Capturing) []) w of
            (Inl e, rs, w1) \<Rightarrow> ((empty_info, Some e), w1)
          | (Inr (session, idx), rs, w1) \<Rightarrow>
              (case compactSession c a ctx session idx CompactManual 0 (rs\<lparr>rs_saved_to := idx\<rparr>) w1 of
                 ((_, _, Some e), rs2, w2) \<Rightarrow> ((captured_info (rs_events rs2), Some e), w2)
               | ((_, _, None), rs2, w2) \<Rightarrow>
                   (let info = captured_info (rs_events rs2) in
                    if inf_compacted info \<and> rs_snapshot_err rs2 \<noteq> None
                    then ((info\<lparr>inf_compacted := False, inf_err := rs_snapshot_err rs2\<rparr>,
                           rs_snapshot_err rs2), w2)
                    else ((info, None), w2))))"

text \<open>\<open>AsTool\<close>: the handler runs the agent on the input and replies with the text of its result.\<close>

definition AsTool_handler ::
  "nat \<Rightarrow> 'w agent_env \<Rightarrow> 'w agent \<Rightarrow> (string \<Rightarrow> err + string) \<Rightarrow> 'w goctx \<Rightarrow> string \<Rightarrow> 'w \<Rightarrow>
     ((err + tool_value) outcome \<times> 'w) option" where
  "AsTool_handler fuel env a marshal ctx input w =
     (case Run fuel env a ctx [Text input] w of
        None \<Rightarrow> None
      | Some ((result, Some e), w') \<Rightarrow> Some (Returned (Inl e), w')
      | Some ((result, None), w') \<Rightarrow> Some (Returned (Inr (VOther (marshal (ReplyText result)))), w'))"

end
