(* ===== verification/Agent_Round.thy ===== *)
theory Agent_Round
  imports Agent_Run
begin

section \<open>Package agent: facts about one round of tool calls\<close>

text \<open>
  What a round of tool calls leaves behind, for every scheduler: a result per call, in call order
  (\<open>runToolCalls_results\<close>), an execution order in which an exclusive call stands after the
  calls before it and before the calls after it (\<open>runToolCalls_order\<close>), and a run state that
  changed only in its events and its tool and handoff spans (\<open>rs_frame\<close>).
\<close>

subsection \<open>Frames\<close>

definition quiet_span :: "span \<Rightarrow> bool" where
  "quiet_span sp =
     (case sp of
        LLMSpan c e \<Rightarrow> False
      | MemorySpan p e \<Rightarrow> mp_op p \<noteq> MemorySave
      | ToolSpan p e \<Rightarrow> True
      | HandoffSpan f t c \<Rightarrow> True)"

text \<open>\<open>rs'\<close> differs from \<open>rs\<close> in its events, and in spans that are no LLM calls and no saves.\<close>

definition rs_frame :: "'w run_state \<Rightarrow> 'w run_state \<Rightarrow> bool" where
  "rs_frame rs rs' \<longleftrightarrow>
     rs_run rs' = rs_run rs \<and> rs_prompt_len rs' = rs_prompt_len rs \<and> rs_snapshot rs' = rs_snapshot rs \<and>
     rs_stored rs' = rs_stored rs \<and> rs_context_tokens rs' = rs_context_tokens rs \<and>
     rs_compacted_on_error rs' = rs_compacted_on_error rs \<and> rs_saved_to rs' = rs_saved_to rs \<and>
     rs_emit rs' = rs_emit rs \<and> rs_snapshot_err rs' = rs_snapshot_err rs \<and>
     (\<exists>sps. rs_spans rs' = rs_spans rs @ sps \<and> list_all quiet_span sps)"

lemma rs_frame_refl [simp, intro]: "rs_frame rs rs"
  by (simp add: rs_frame_def)

lemma rs_frame_trans [trans]: "rs_frame a b \<Longrightarrow> rs_frame b c \<Longrightarrow> rs_frame a c"
  by (force simp: rs_frame_def)

lemma rs_frame_fields:
  assumes "rs_frame rs rs'"
  shows "rs_run rs' = rs_run rs" "rs_prompt_len rs' = rs_prompt_len rs"
    "rs_snapshot rs' = rs_snapshot rs" "rs_stored rs' = rs_stored rs"
    "rs_context_tokens rs' = rs_context_tokens rs"
    "rs_compacted_on_error rs' = rs_compacted_on_error rs" "rs_saved_to rs' = rs_saved_to rs"
    "rs_emit rs' = rs_emit rs" "rs_snapshot_err rs' = rs_snapshot_err rs"
    "tailStart rs' = tailStart rs"
  using assms by (simp_all add: rs_frame_def tailStart_def)

lemma emit_event_frame: "emit_event ev rs w = (rs', w') \<Longrightarrow> rs_frame rs rs'"
  by (auto simp: emit_event_def rs_frame_def split: option.splits emitter.splits if_splits prod.splits)

lemma emit_event_spans: "emit_event ev rs w = (rs', w') \<Longrightarrow> rs_spans rs' = rs_spans rs"
  by (auto simp: emit_event_def split: option.splits emitter.splits if_splits prod.splits)

lemma emit_event_None: "rs_emit rs = None \<Longrightarrow> emit_event ev rs w = (rs, w)"
  by (simp add: emit_event_def)

lemma emit_all_frame: "emit_all evs rs w = (rs', w') \<Longrightarrow> rs_frame rs rs'"
proof (induction evs arbitrary: rs w)
  case Nil
  then show ?case by simp
next
  case (Cons ev evs)
  obtain rs1 w1 where e: "emit_event ev rs w = (rs1, w1)" by fastforce
  with Cons have "rs_frame rs1 rs'" by simp
  with emit_event_frame [OF e] show ?case by (rule rs_frame_trans)
qed

lemma emit_all_None: "rs_emit rs = None \<Longrightarrow> emit_all evs rs w = (rs, w)"
  by (induction evs) (simp_all add: emit_event_None)

lemma end_span_frame: "quiet_span sp \<Longrightarrow> rs_frame rs (end_span sp rs)"
  by (simp add: rs_frame_def end_span_def)

lemma handleToolCall_quiet: "handleToolCall a ctx tc i w = ((m, stop, sp), w') \<Longrightarrow> quiet_span sp"
  by (auto simp: handleToolCall_def Let_def quiet_span_def split: prod.splits)

subsection \<open>Batches\<close>

lemma batch_order_mset [simp]: "mset (batch_order env w indexes) = mset indexes"
  by (simp add: batch_order_def Let_def)

lemma batch_order_set [simp]: "set (batch_order env w indexes) = set indexes"
  by (metis batch_order_mset set_mset_mset)

lemma batch_order_distinct [simp]: "distinct (batch_order env w indexes) = distinct indexes"
  by (metis batch_order_mset mset_eq_imp_distinct_iff)

text \<open>
  The result of the call at index \<open>i\<close> answers that call; a result not reached yet is nil.
\<close>

definition answers :: "tool_call list \<Rightarrow> nat \<Rightarrow> message \<Rightarrow> bool" where
  "answers calls i m \<longleftrightarrow> role m = RoleTool \<and> tool_call_id m = tc_id (calls ! i) \<and> tool_calls m = []"

definition round_ok :: "tool_call list \<Rightarrow> tool_round \<Rightarrow> bool" where
  "round_ok calls tr \<longleftrightarrow>
     length (tr_results tr) = length calls \<and> length (tr_stops tr) = length calls \<and>
     (\<forall>i < length calls. (i \<in> set (tr_finished tr) \<longleftrightarrow> tr_results tr ! i \<noteq> None) \<and>
        (\<forall>m. tr_results tr ! i = Some m \<longrightarrow> answers calls i m))"

lemma run_call_ok:
  assumes "run_call a ctx calls n i tr rs w = (tr', rs', w')" and "round_ok calls tr"
  shows "round_ok calls tr' \<and> tr_finished tr' = tr_finished tr @ [i] \<and> rs_frame rs rs'"
proof -
  obtain m stop sp w1 where h: "handleToolCall a ctx (calls ! i) n w = ((m, stop, sp), w1)"
    by (metis surj_pair)
  have "answers calls i m"
    using handleToolCall_message [OF h] by (simp add: answers_def)
  moreover have "rs_frame rs (end_span sp rs)"
    using handleToolCall_quiet [OF h] by (rule end_span_frame)
  moreover have "(tr_results tr)[i := Some m] ! j = (if j = i then Some m else tr_results tr ! j)"
    if "j < length calls" for j
    using that assms(2) by (auto simp: round_ok_def nth_list_update)
  moreover have "tr' = \<lparr>tr_results = (tr_results tr)[i := Some m],
      tr_stops = (tr_stops tr)[i := stop], tr_finished = tr_finished tr @ [i]\<rparr>" "rs' = end_span sp rs"
    using assms(1) h by (simp_all add: run_call_def)
  ultimately show ?thesis
    using assms(2) by (simp add: round_ok_def)
qed

lemma run_batch_loop_ok:
  "run_batch_loop a ctx calls n order tr rs w = (tr', rs', w') \<Longrightarrow> round_ok calls tr \<Longrightarrow>
     round_ok calls tr' \<and> tr_finished tr' = tr_finished tr @ order \<and> rs_frame rs rs'"
proof (induction order arbitrary: tr rs w)
  case Nil
  then show ?case by simp
next
  case (Cons i order)
  obtain tr1 rs1 w1 where c: "run_call a ctx calls n i tr rs w = (tr1, rs1, w1)"
    by (metis prod_cases3)
  with Cons show ?case
    using run_call_ok [OF c] rs_frame_trans by fastforce
qed

lemma runToolBatch_ok:
  assumes "runToolBatch env a ctx calls indexes n tr rs w = (tr', rs', w')" and "round_ok calls tr"
  shows "round_ok calls tr' \<and>
    (\<exists>order. mset order = mset indexes \<and> tr_finished tr' = tr_finished tr @ order) \<and> rs_frame rs rs'"
proof -
  let ?order = "batch_order env w indexes"
  obtain tr1 rs1 w1 where b: "run_batch_loop a ctx calls n ?order tr rs w = (tr1, rs1, w1)"
    by (metis prod_cases3)
  with assms(1) obtain evs where e: "emit_all evs rs1 w1 = (rs', w')" and "tr' = tr1"
    by (auto simp: runToolBatch_def Let_def split: prod.splits)
  with run_batch_loop_ok [OF b assms(2)] rs_frame_trans [OF _ emit_all_frame [OF e]]
  show ?thesis by (metis batch_order_mset)
qed

subsection \<open>The whole round\<close>

text \<open>
  The order in which the calls of a round finished: an exclusive call after the calls before it,
  and before the calls after it.
\<close>

definition order_ok :: "(nat \<Rightarrow> bool) \<Rightarrow> nat \<Rightarrow> nat list \<Rightarrow> bool" where
  "order_ok excl n order \<longleftrightarrow>
     mset order = mset [0..<n] \<and>
     (\<forall>i < n. excl i \<longrightarrow> (\<exists>xs ys. order = xs @ i # ys \<and> mset xs = mset [0..<i] \<and> mset ys = mset [Suc i..<n]))"

lemma order_ok_Suc:
  assumes "order_ok excl n order" and "\<not> excl n"
  shows "order_ok excl (Suc n) (order @ [n])"
  unfolding order_ok_def
proof (intro conjI allI impI)
  show "mset (order @ [n]) = mset [0..<Suc n]" using assms by (simp add: order_ok_def)
  fix i assume i: "i < Suc n" "excl i"
  with assms(2) have "i < n" by (cases "i = n") auto
  with assms(1) i(2) obtain xs ys where "order = xs @ i # ys" "mset xs = mset [0..<i]"
    "mset ys = mset [Suc i..<n]" by (auto simp: order_ok_def)
  with \<open>i < n\<close> show "\<exists>xs ys. order @ [n] = xs @ i # ys \<and> mset xs = mset [0..<i] \<and> mset ys = mset [Suc i..<Suc n]"
    by (intro exI [of _ xs] exI [of _ "ys @ [n]"]) simp
qed

lemma order_ok_excl:
  assumes "order_ok excl n order"
  shows "order_ok excl (Suc n) (order @ [n])"
  unfolding order_ok_def
proof (intro conjI allI impI)
  show "mset (order @ [n]) = mset [0..<Suc n]" using assms by (simp add: order_ok_def)
  fix i assume i: "i < Suc n" "excl i"
  show "\<exists>xs ys. order @ [n] = xs @ i # ys \<and> mset xs = mset [0..<i] \<and> mset ys = mset [Suc i..<Suc n]"
  proof (cases "i = n")
    case True
    with assms show ?thesis
      by (intro exI [of _ order] exI [of _ "[]"]) (simp add: order_ok_def)
  next
    case False
    with i have "i < n" by simp
    with assms i(2) obtain xs ys where "order = xs @ i # ys" "mset xs = mset [0..<i]"
      "mset ys = mset [Suc i..<n]" by (auto simp: order_ok_def)
    with \<open>i < n\<close> show ?thesis
      by (intro exI [of _ xs] exI [of _ "ys @ [n]"]) simp
  qed
qed

text \<open>Reordering the last calls, none of them exclusive, keeps the order right.\<close>

lemma order_ok_permute:
  assumes ok: "order_ok excl n (done @ batch)" and m: "mset batch' = mset batch"
    and none: "\<And>i. i \<in> set batch \<Longrightarrow> \<not> excl i"
  shows "order_ok excl n (done @ batch')"
  unfolding order_ok_def
proof (intro conjI allI impI)
  show "mset (done @ batch') = mset [0..<n]" using ok m by (simp add: order_ok_def)
  fix i assume i: "i < n" "excl i"
  from ok i obtain xs ys where xy: "done @ batch = xs @ i # ys" "mset xs = mset [0..<i]"
    "mset ys = mset [Suc i..<n]" by (auto simp: order_ok_def)
  have "length xs < length done"
  proof (rule ccontr)
    assume "\<not> length xs < length done"
    moreover have "(done @ batch) ! length xs = i" using xy(1) by simp
    moreover have "length xs < length (done @ batch)" using xy(1) by simp
    ultimately have "i \<in> set batch" by (auto simp: nth_append)
    with none i show False by blast
  qed
  then obtain zs where "done = xs @ i # zs" "ys = zs @ batch"
    using xy(1) by (auto simp: append_eq_append_conv2 append_eq_Cons_conv Cons_eq_append_conv)
  with xy m show "\<exists>xs ys. done @ batch' = xs @ i # ys \<and> mset xs = mset [0..<i] \<and> mset ys = mset [Suc i..<n]"
    by (intro exI [of _ xs] exI [of _ "zs @ batch'"]) simp
qed

definition exclusive_at :: "'w agent \<Rightarrow> tool_call list \<Rightarrow> nat \<Rightarrow> bool" where
  "exclusive_at a calls i = exclusive_call a (calls ! i)"

lemma run_rounds_ok:
  "run_rounds env a ctx calls n tcs i batch tr rs w = (tr', rs', w') \<Longrightarrow>
   i \<le> length calls \<Longrightarrow> tcs = drop i calls \<Longrightarrow> round_ok calls tr \<Longrightarrow>
   order_ok (exclusive_at a calls) i (tr_finished tr @ batch) \<Longrightarrow>
   (\<forall>j \<in> set batch. \<not> exclusive_at a calls j) \<Longrightarrow>
     round_ok calls tr' \<and> order_ok (exclusive_at a calls) (length calls) (tr_finished tr') \<and> rs_frame rs rs'"
proof (induction tcs arbitrary: i batch tr rs w)
  case Nil
  then have i: "i = length calls" by simp
  from Nil.prems(1) have b: "runToolBatch env a ctx calls batch n tr rs w = (tr', rs', w')" by simp
  from runToolBatch_ok [OF b Nil.prems(4)] obtain order where o: "round_ok calls tr'" "rs_frame rs rs'"
    "mset order = mset batch" "tr_finished tr' = tr_finished tr @ order" by auto
  have "order_ok (exclusive_at a calls) i (tr_finished tr @ order)"
    using Nil.prems(5) o(3) by (rule order_ok_permute) (use Nil.prems(6) in blast)
  with o i show ?case by simp
next
  case (Cons tc tcs)
  have i: "i < length calls" using Cons.prems(2,3) by (cases "i = length calls") auto
  then have tc: "tc = calls ! i" "tcs = drop (Suc i) calls"
    using Cons.prems(3) by (simp_all add: Cons_nth_drop_Suc [symmetric])
  show ?case
  proof (cases "exclusive_call a tc")
    case False
    then have "run_rounds env a ctx calls n tcs (Suc i) (batch @ [i]) tr rs w = (tr', rs', w')"
      using Cons.prems(1) by simp
    moreover have "order_ok (exclusive_at a calls) (Suc i) (tr_finished tr @ (batch @ [i]))"
      using order_ok_Suc [OF Cons.prems(5)] False tc unfolding exclusive_at_def by simp
    moreover have "\<forall>j \<in> set (batch @ [i]). \<not> exclusive_at a calls j"
      using Cons.prems(6) False tc by (auto simp: exclusive_at_def)
    ultimately show ?thesis
      using Cons.IH [of "Suc i" "batch @ [i]" tr rs w] i tc Cons.prems(4) by simp
  next
    case True
    obtain tr1 rs1 w1 where b1: "runToolBatch env a ctx calls batch n tr rs w = (tr1, rs1, w1)"
      by (metis surj_pair)
    obtain tr2 rs2 w2 where b2: "runToolBatch env a ctx calls [i] n tr1 rs1 w1 = (tr2, rs2, w2)"
      by (metis surj_pair)
    have r: "run_rounds env a ctx calls n tcs (Suc i) [] tr2 rs2 w2 = (tr', rs', w')"
      using Cons.prems(1) True b1 b2 by simp
    from runToolBatch_ok [OF b1 Cons.prems(4)] obtain order where o1: "round_ok calls tr1"
      "rs_frame rs rs1" "mset order = mset batch" "tr_finished tr1 = tr_finished tr @ order" by auto
    from runToolBatch_ok [OF b2 o1(1)] have o2: "round_ok calls tr2" "rs_frame rs1 rs2"
      "tr_finished tr2 = tr_finished tr1 @ [i]" by auto
    have "order_ok (exclusive_at a calls) i (tr_finished tr @ order)"
      using Cons.prems(5) o1(3) by (rule order_ok_permute) (use Cons.prems(6) in blast)
    then have "order_ok (exclusive_at a calls) (Suc i) (tr_finished tr2 @ [])"
      using order_ok_excl [of "exclusive_at a calls" i "tr_finished tr @ order"] o1(4) o2(3) by simp
    with Cons.IH [OF r _ tc(2) o2(1)] i
    have "round_ok calls tr' \<and> order_ok (exclusive_at a calls) (length calls) (tr_finished tr') \<and>
      rs_frame rs2 rs'" by simp
    with rs_frame_trans [OF o1(2) o2(2)] show ?thesis using rs_frame_trans by blast
  qed
qed

lemma runToolCalls_ok:
  assumes "runToolCalls env a ctx calls n rs w = (tr, rs', w')"
  shows "round_ok calls tr" "order_ok (exclusive_at a calls) (length calls) (tr_finished tr)"
    "rs_frame rs rs'"
proof -
  let ?tr0 = "\<lparr>tr_results = replicate (length calls) None, tr_stops = replicate (length calls) None,
        tr_finished = []\<rparr>"
  have "round_ok calls ?tr0" by (simp add: round_ok_def)
  moreover have "order_ok (exclusive_at a calls) 0 []" by (simp add: order_ok_def)
  ultimately have "round_ok calls tr \<and> order_ok (exclusive_at a calls) (length calls) (tr_finished tr) \<and>
      rs_frame rs rs'"
    using assms run_rounds_ok [of env a ctx calls n calls 0 "[]" ?tr0 rs w tr rs' w']
    by (simp add: runToolCalls_def)
  then show "round_ok calls tr" "order_ok (exclusive_at a calls) (length calls) (tr_finished tr)"
    "rs_frame rs rs'" by auto
qed

text \<open>Every call of a round has its result, in call order.\<close>

lemma runToolCalls_results:
  assumes "runToolCalls env a ctx calls n rs w = (tr, rs', w')"
  shows "list_all2 (\<lambda>m tc. role m = RoleTool \<and> tool_call_id m = tc_id tc \<and> tool_calls m = [])
    (map the (tr_results tr)) calls"
proof -
  note ok = runToolCalls_ok [OF assms]
  have "set (tr_finished tr) = {0..<length calls}"
    using ok(2) by (metis order_ok_def set_mset_mset set_upt)
  then have "\<exists>m. tr_results tr ! i = Some m \<and> answers calls i m" if "i < length calls" for i
    using ok(1) that by (force simp: round_ok_def)
  then show ?thesis
    using ok(1) by (force simp: list_all2_conv_all_nth answers_def round_ok_def)
qed

lemma collect_results_session:
  "collect_results env a mts session hs rs = (session', hs', rs') \<Longrightarrow>
     session' = session @ map fst mts \<and> rs_frame rs rs' \<and>
     map ho_agent hs' = map ho_agent hs @
       filter (\<lambda>x. x \<noteq> None) (map (\<lambda>(m, tc). ag_handoffs a (fc_name (tc_function tc))) mts)"
proof (induction mts arbitrary: session hs rs)
  case Nil
  then show ?case by simp
next
  case (Cons mt mts)
  obtain m tc where mt: "mt = (m, tc)" by fastforce
  show ?case
  proof (cases "ag_handoffs a (fc_name (tc_function tc))")
    case None
    with Cons mt show ?thesis by fastforce
  next
    case (Some target)
    obtain h rs1 where h: "make_handoff a target (handoffContext env tc) rs = (h, rs1)" by fastforce
    then have "ho_agent h = Some target" and f: "rs_frame rs rs1"
      by (auto simp: make_handoff_def quiet_span_def end_span_frame)
    with Cons.IH [of "session @ [m]" "hs @ [h]" rs1] Cons.prems mt Some h
    show ?thesis using rs_frame_trans [OF f] by auto
  qed
qed

lemma truncated_loop_eq:
  "truncated_loop calls n results rs w = (results', rs', w') \<Longrightarrow>
     results' = results @ map truncated_result calls \<and> rs_frame rs rs' \<and> rs_spans rs' = rs_spans rs \<and>
     (rs_emit rs = None \<longrightarrow> rs' = rs \<and> w' = w)"
proof (induction calls arbitrary: results rs w)
  case Nil
  then show ?case by simp
next
  case (Cons tc calls)
  obtain ev where ev: "truncated_loop (tc # calls) n results rs w =
      (case emit_event ev rs w of (rs', w') \<Rightarrow> truncated_loop calls n (results @ [truncated_result tc]) rs' w')"
    by simp
  obtain rs1 w1 where e: "emit_event ev rs w = (rs1, w1)" by fastforce
  note f = emit_event_frame [OF e]
  from Cons.IH [of "results @ [truncated_result tc]" rs1 w1] Cons.prems ev e
  have "results' = results @ map truncated_result (tc # calls)" "rs_frame rs1 rs'"
    "rs_spans rs' = rs_spans rs1" "rs_emit rs1 = None \<longrightarrow> rs' = rs1 \<and> w' = w1" by auto
  with rs_frame_trans [OF f] emit_event_spans [OF e] rs_frame_fields(8) [OF f] e
  show ?case by (auto simp: emit_event_None)
qed

text \<open>
  The session after a round: the session before it, and one tool result per call of the message,
  in call order.
\<close>

definition tool_results_for :: "tool_call list \<Rightarrow> message list \<Rightarrow> bool" where
  "tool_results_for calls results \<longleftrightarrow>
     list_all2 (\<lambda>m tc. role m = RoleTool \<and> tool_call_id m = tc_id tc \<and> tool_calls m = []) results calls"

lemma processToolCalls_session:
  assumes "processToolCalls env a ctx session msg finish n rs w = (it, rs', w')"
  shows "\<exists>results. it_session it = session @ results \<and> tool_results_for (tool_calls msg) results \<and>
    rs_frame rs rs'"
proof (cases "tool_calls msg = []")
  case True
  with assms show ?thesis by (auto simp: processToolCalls_def tool_results_for_def)
next
  case False
  obtain rs1 w1 where e: "emit_all (map (tool_call_event n) (tool_calls msg)) rs w = (rs1, w1)"
    by fastforce
  note f1 = emit_all_frame [OF e]
  show ?thesis
  proof (cases "finish = FinishLength")
    case True
    obtain results rs2 w2 where t: "truncatedToolResults (tool_calls msg) n rs1 w1 = (results, rs2, w2)"
      by (metis surj_pair)
    then have "results = map truncated_result (tool_calls msg)" "rs_frame rs1 rs2"
      using truncated_loop_eq by (fastforce simp: truncatedToolResults_def)+
    moreover have "list_all2 (\<lambda>m tc. role m = RoleTool \<and> tool_call_id m = tc_id tc \<and> tool_calls m = [])
        (map truncated_result calls) calls" for calls
      by (simp add: list_all2_map1 truncated_result_def list_all2_refl)
    ultimately show ?thesis
      using assms False True e t rs_frame_trans [OF f1]
      by (auto simp: processToolCalls_def tool_results_for_def)
  next
    case False2: False
    obtain tr rs2 w2 where r: "runToolCalls env a ctx (tool_calls msg) n rs1 w1 = (tr, rs2, w2)"
      by (metis surj_pair)
    obtain session' hs rs3 where c:
      "collect_results env a (zip (map the (tr_results tr)) (tool_calls msg)) session [] rs2 = (session', hs, rs3)"
      by (metis surj_pair)
    have it: "it_session it = session'" "rs' = rs3"
      using assms False False2 e r c
      by (auto simp: processToolCalls_def Let_def split: option.splits if_splits)
    note res = runToolCalls_results [OF r]
    have "session' = session @ map the (tr_results tr)" "rs_frame rs2 rs3"
      using collect_results_session [OF c] list_all2_lengthD [OF res] by simp_all
    with it res rs_frame_trans [OF rs_frame_trans [OF f1 runToolCalls_ok(3) [OF r]]]
    show ?thesis by (auto simp: tool_results_for_def)
  qed
qed

text \<open>A response cut off at the output limit runs no tool, and the run goes on.\<close>

lemma processToolCalls_truncated:
  assumes "tool_calls msg \<noteq> []"
    and "processToolCalls env a ctx session msg FinishLength n rs w = (it, rs', w')"
  shows "it_session it = session @ map truncated_result (tool_calls msg) \<and> it_result it = None \<and>
    it_stop it = None \<and> rs_spans rs' = rs_spans rs \<and> (rs_emit rs = None \<longrightarrow> w' = w)"
proof -
  obtain rs1 w1 where e: "emit_all (map (tool_call_event n) (tool_calls msg)) rs w = (rs1, w1)"
    by fastforce
  obtain results rs2 w2 where t: "truncatedToolResults (tool_calls msg) n rs1 w1 = (results, rs2, w2)"
    by (metis surj_pair)
  then have r: "results = map truncated_result (tool_calls msg)" "rs_spans rs2 = rs_spans rs1"
    "rs_emit rs1 = None \<longrightarrow> rs2 = rs1 \<and> w2 = w1"
    using truncated_loop_eq by (fastforce simp: truncatedToolResults_def)+
  have "emit_all evs rs w = (rs', w') \<Longrightarrow> rs_spans rs' = rs_spans rs" for evs rs w rs' w'
  proof (induction evs arbitrary: rs w)
    case (Cons ev evs)
    then show ?case using emit_event_spans by (fastforce split: prod.splits)
  qed simp
  with e r assms t show ?thesis
    by (auto simp: processToolCalls_def emit_all_None)
qed

end
