(* ===== verification/Agent_Loop.thy ===== *)
theory Agent_Loop
  imports Agent_Round
begin

section \<open>Package agent: facts about runs\<close>

text \<open>
  Invariants of the loop, by rule induction over the states a run can reach (\<open>run_reach\<close>):
  the indexes into the session stay in range, one LLM call per iteration, the prompts can be
  rebuilt from the deltas of the call spans, and what was saved to memory with what is still to
  be saved is the conversation the run produced, through checkpoints and compactions.
\<close>

subsection \<open>What the spans record\<close>

fun span_saved :: "span \<Rightarrow> message list" where
  "span_saved (MemorySpan p None) = (if mp_op p = MemorySave then mp_messages p else [])"
| "span_saved sp = []"

fun span_calls :: "span \<Rightarrow> llm_call list" where
  "span_calls (LLMSpan c e) = [c]"
| "span_calls sp = []"

fun span_answers :: "span \<Rightarrow> message list" where
  "span_answers (LLMSpan c None) = (case lc_response c of None \<Rightarrow> [] | Some m \<Rightarrow> [m])"
| "span_answers sp = []"

text \<open>The messages saved, the LLM calls made and the answers they gave, in order.\<close>

definition saved_log :: "span list \<Rightarrow> message list" where
  "saved_log sps = concat (map span_saved sps)"

definition llm_calls :: "span list \<Rightarrow> llm_call list" where
  "llm_calls sps = concat (map span_calls sps)"

definition llm_answers :: "span list \<Rightarrow> message list" where
  "llm_answers sps = concat (map span_answers sps)"

lemma observe_append [simp]:
  "saved_log (xs @ ys) = saved_log xs @ saved_log ys"
  "llm_calls (xs @ ys) = llm_calls xs @ llm_calls ys"
  "llm_answers (xs @ ys) = llm_answers xs @ llm_answers ys"
  by (simp_all add: saved_log_def llm_calls_def llm_answers_def)

lemma observe_Nil [simp]: "saved_log [] = []" "llm_calls [] = []" "llm_answers [] = []"
  by (simp_all add: saved_log_def llm_calls_def llm_answers_def)

lemma observe_single:
  "saved_log [sp] = span_saved sp" "llm_calls [sp] = span_calls sp" "llm_answers [sp] = span_answers sp"
  by (simp_all add: saved_log_def llm_calls_def llm_answers_def)

lemma observe_quiet:
  assumes "list_all quiet_span sps"
  shows "saved_log sps = []" "llm_calls sps = []" "llm_answers sps = []"
proof -
  have "span_saved sp = [] \<and> span_calls sp = [] \<and> span_answers sp = []" if "quiet_span sp" for sp
    using that by (cases sp rule: span_saved.cases) (auto simp: quiet_span_def)
  with assms show "saved_log sps = []" "llm_calls sps = []" "llm_answers sps = []"
    by (auto simp: saved_log_def llm_calls_def llm_answers_def list_all_iff)
qed

lemma observe_frame:
  assumes "rs_frame rs rs'"
  shows "saved_log (rs_spans rs') = saved_log (rs_spans rs)"
    "llm_calls (rs_spans rs') = llm_calls (rs_spans rs)"
    "llm_answers (rs_spans rs') = llm_answers (rs_spans rs)"
  using assms observe_quiet unfolding rs_frame_def by force+

lemmas span_simps = end_span_def observe_single

subsection \<open>One LLM call\<close>

text \<open>
  What an LLM call does to the run state: one call span, with the part of the prompt that is
  new, and the prompt length.
\<close>

definition called :: "message list \<Rightarrow> 'w run_state \<Rightarrow> 'w run_state \<Rightarrow> bool" where
  "called session rs rs' \<longleftrightarrow>
     rs_snapshot rs' = rs_snapshot rs \<and> rs_stored rs' = rs_stored rs \<and> rs_saved_to rs' = rs_saved_to rs \<and>
     rs_compacted_on_error rs' = rs_compacted_on_error rs \<and> rs_emit rs' = rs_emit rs \<and>
     rs_run rs' = rs_run rs \<and> rs_prompt_len rs' = length session \<and>
     saved_log (rs_spans rs') = saved_log (rs_spans rs) \<and>
     (\<exists>c. llm_calls (rs_spans rs') = llm_calls (rs_spans rs) @ [c] \<and>
        lc_message_offset c = min (rs_prompt_len rs) (length session) \<and>
        lc_messages c = drop (min (rs_prompt_len rs) (length session)) session)"

lemma SetResult_delta [simp]:
  "lc_message_offset (SetResult r c) = lc_message_offset c" "lc_messages (SetResult r c) = lc_messages c"
  by (simp_all add: SetResult_def split: option.splits)

lemma startLLMCall_simps:
  assumes "startLLMCall a rs session n streaming = (c, rs')"
  shows "lc_message_offset c = min (rs_prompt_len rs) (length session)"
    "lc_messages c = drop (min (rs_prompt_len rs) (length session)) session"
    "rs' = rs\<lparr>rs_prompt_len := length session\<rparr>"
  using assms by (auto simp: startLLMCall_def Let_def split: prod.splits)

lemma called_end:
  assumes s: "startLLMCall a rs session n streaming = (c, rs1)" and "rs_frame rs1 rs2"
  shows "called session rs (endLLMCall c r e rs2)"
  using startLLMCall_simps [OF s] rs_frame_fields [OF assms(2)] observe_frame [OF assms(2)]
  by (simp add: called_def endLLMCall_def span_simps)

lemma called_frame: "called session rs rs1 \<Longrightarrow> rs_frame rs1 rs2 \<Longrightarrow> called session rs rs2"
  by (simp add: called_def rs_frame_fields observe_frame)

lemma bufferedCall_called:
  assumes "bufferedCall a ctx session n rs w = (r, rs', w')"
  shows "called session rs rs'"
    and "case r of Inl e \<Rightarrow> llm_answers (rs_spans rs') = llm_answers (rs_spans rs)
      | Inr res \<Rightarrow> \<exists>m. res_message res = Some m \<and>
          llm_answers (rs_spans rs') = llm_answers (rs_spans rs) @ [m]"
proof -
  obtain c rs1 where s: "startLLMCall a rs session n False = (c, rs1)" by fastforce
  note called = called_end [OF s rs_frame_refl]
  have rs1: "rs_spans rs1 = rs_spans rs" using startLLMCall_simps(3) [OF s] by simp
  show "called session rs rs'"
    using assms s called
    by (auto simp: bufferedCall_def Let_def split: prod.splits sum.splits option.splits if_splits)
  show "case r of Inl e \<Rightarrow> llm_answers (rs_spans rs') = llm_answers (rs_spans rs)
      | Inr res \<Rightarrow> \<exists>m. res_message res = Some m \<and>
          llm_answers (rs_spans rs') = llm_answers (rs_spans rs) @ [m]"
    using assms s rs1
    by (auto simp: bufferedCall_def Let_def endLLMCall_def span_simps SetResult_def
        split: prod.splits sum.splits option.splits if_splits)
qed

lemma stream_loop_frame:
  "stream_loop items n final rs w = (r, rs', w') \<Longrightarrow> rs_frame rs rs'"
proof (induction items n final rs w rule: stream_loop.induct)
  case (3 chunk items n final rs w)
  obtain rs1 w1 where 1: "(if ch_text_delta chunk \<noteq> []
       then emit_event (empty_event\<lparr>ev_type := EventTextDelta,
              ev_text_delta := ch_text_delta chunk, ev_iteration := n\<rparr>) rs w
       else (rs, w)) = (rs1, w1)" by fastforce
  obtain rs2 w2 where 2: "(if ch_reasoning_delta chunk \<noteq> []
       then emit_event (empty_event\<lparr>ev_type := EventReasoningDelta,
              ev_reasoning_delta := ch_reasoning_delta chunk, ev_iteration := n\<rparr>) rs1 w1
       else (rs1, w1)) = (rs2, w2)" by fastforce
  have "rs_frame rs rs1" using 1 emit_event_frame by (auto split: if_splits)
  moreover have "rs_frame rs1 rs2" using 2 emit_event_frame by (auto split: if_splits)
  moreover have "rs_frame rs2 rs'"
    using "3.IH" [OF _ _ _ _ ] "3.prems" 1 2 by (simp add: Let_def)
  ultimately show ?case using rs_frame_trans by blast
qed simp_all

lemma streamIteration_called:
  assumes "streamIteration a ctx session n rs w = (r, rs', w')"
  shows "called session rs rs'"
    and "case r of Inl e \<Rightarrow> llm_answers (rs_spans rs') = llm_answers (rs_spans rs)
      | Inr res \<Rightarrow> \<exists>m. res_message res = Some m \<and>
          llm_answers (rs_spans rs') = llm_answers (rs_spans rs) @ [m]"
proof -
  obtain c rs1 where s: "startLLMCall a rs session n True = (c, rs1)" by fastforce
  obtain items w1 where i: "StreamOrBuffer (ag_llm a) ctx session (callOptions a) w = (items, w1)"
    by fastforce
  obtain x rs2 w2 where l: "stream_loop items n None rs1 w1 = (x, rs2, w2)" by (metis surj_pair)
  note f = stream_loop_frame [OF l]
  note called = called_end [OF s f]
  have ans: "llm_answers (rs_spans rs2) = llm_answers (rs_spans rs)"
    using observe_frame(3) [OF f] startLLMCall_simps(3) [OF s] by simp
  have "called session rs rs' \<and> (case r of Inl e \<Rightarrow> llm_answers (rs_spans rs') = llm_answers (rs_spans rs)
      | Inr res \<Rightarrow> \<exists>m. res_message res = Some m \<and>
          llm_answers (rs_spans rs') = llm_answers (rs_spans rs) @ [m])"
  proof (cases "\<exists>chunk m. x = Inr (Some chunk) \<and> ch_message chunk = Some m")
    case False
    with assms s i l show ?thesis using called ans
      by (auto simp: streamIteration_def Let_def endLLMCall_def span_simps
          split: sum.splits option.splits if_splits)
  next
    case True
    then obtain chunk m where x: "x = Inr (Some chunk)" "ch_message chunk = Some m" by blast
    let ?res = "\<lparr>res_message = ch_message chunk, res_usage = ch_usage chunk,
       res_model = ch_model chunk, res_finish = ch_finish chunk, res_raw_finish = ch_raw_finish chunk\<rparr>"
    let ?rs3 = "endLLMCall c (Some ?res) None rs2"
    obtain rs4 w4 where e: "(if ch_usage chunk \<noteq> None
        then emit_event (empty_event\<lparr>ev_type := EventUsage, ev_usage := ch_usage chunk,
               ev_iteration := n\<rparr>) ?rs3 w2
        else (?rs3, w2)) = (rs4, w4)" by fastforce
    have r: "r = Inr ?res" "rs' = rs4"
      using assms s i l x e by (auto simp: streamIteration_def Let_def split: if_splits)
    have f4: "rs_frame ?rs3 rs4" using e emit_event_frame by (auto split: if_splits)
    have "llm_answers (rs_spans ?rs3) = llm_answers (rs_spans rs) @ [m]"
      using ans x by (simp add: endLLMCall_def span_simps SetResult_def)
    with r x called_frame [OF called f4] observe_frame(3) [OF f4] show ?thesis by simp
  qed
  then show "called session rs rs'" "case r of Inl e \<Rightarrow> llm_answers (rs_spans rs') = llm_answers (rs_spans rs)
      | Inr res \<Rightarrow> \<exists>m. res_message res = Some m \<and>
          llm_answers (rs_spans rs') = llm_answers (rs_spans rs) @ [m]" by auto
qed

lemma called_context_tokens: "called session rs rs1 \<Longrightarrow> called session rs (rs1\<lparr>rs_context_tokens := k\<rparr>)"
  by (simp add: called_def)

text \<open>
  An iteration: one LLM call, and on success the answer with one tool result per call appended.
\<close>

lemma handleAgentIteration_spec:
  assumes "handleAgentIteration env a ctx session n rs w = (r, rs', w')"
  shows "called session rs rs'"
    and "case r of Inl e \<Rightarrow> llm_answers (rs_spans rs') = llm_answers (rs_spans rs)
      | Inr it \<Rightarrow> \<exists>m results. it_session it = session @ m # results \<and>
          tool_results_for (tool_calls m) results \<and>
          llm_answers (rs_spans rs') = llm_answers (rs_spans rs) @ [m]"
proof -
  obtain x rs1 w1 where c: "(if rs_emit rs = None then bufferedCall a ctx session n rs w
        else streamIteration a ctx session n rs w) = (x, rs1, w1)" by (metis surj_pair)
  have both: "called session rs rs1 \<and> (case x of Inl e \<Rightarrow> llm_answers (rs_spans rs1) = llm_answers (rs_spans rs)
      | Inr res \<Rightarrow> \<exists>m. res_message res = Some m \<and>
          llm_answers (rs_spans rs1) = llm_answers (rs_spans rs) @ [m])"
  proof (cases "rs_emit rs = None")
    case True
    with c have b: "bufferedCall a ctx session n rs w = (x, rs1, w1)" by simp
    from bufferedCall_called [OF b] show ?thesis by blast
  next
    case False
    with c have b: "streamIteration a ctx session n rs w = (x, rs1, w1)" by simp
    from streamIteration_called [OF b] show ?thesis by blast
  qed
  note called = conjunct1 [OF both] and ans = conjunct2 [OF both]
  have "called session rs rs' \<and> (case r of Inl e \<Rightarrow> llm_answers (rs_spans rs') = llm_answers (rs_spans rs)
      | Inr it \<Rightarrow> \<exists>m results. it_session it = session @ m # results \<and>
          tool_results_for (tool_calls m) results \<and>
          llm_answers (rs_spans rs') = llm_answers (rs_spans rs) @ [m])"
  proof (cases x)
    case (Inl e)
    with assms c called ans show ?thesis by (auto simp: handleAgentIteration_def)
  next
    case (Inr res)
    with ans obtain m where m: "res_message res = Some m"
      "llm_answers (rs_spans rs1) = llm_answers (rs_spans rs) @ [m]" by auto
    obtain rs2 where rs2: "rs2 = (case res_usage res of None \<Rightarrow> rs1
       | Some u \<Rightarrow> rs1\<lparr>rs_context_tokens :=
           input_tokens u + cache_read_tokens u + cache_write_tokens u + output_tokens u\<rparr>)" by blast
    obtain it rs3 w3 where p: "processToolCalls env a ctx (session @ [m]) m (res_finish res) n rs2 w1
        = (it, rs3, w3)" by (metis surj_pair)
    have r: "r = Inr it" "rs' = rs3"
      using assms c Inr m p rs2 by (simp_all add: handleAgentIteration_def Let_def)
    have c2: "called session rs rs2" "llm_answers (rs_spans rs2) = llm_answers (rs_spans rs) @ [m]"
      using called m(2) rs2 by (simp_all add: called_context_tokens split: option.splits)
    from processToolCalls_session [OF p] obtain results where
      "it_session it = (session @ [m]) @ results" "tool_results_for (tool_calls m) results"
      and f: "rs_frame rs2 rs3" by blast
    with r c2 called_frame [OF c2(1) f] observe_frame(3) [OF f] show ?thesis by auto
  qed
  then show "called session rs rs'" "case r of Inl e \<Rightarrow> llm_answers (rs_spans rs') = llm_answers (rs_spans rs)
      | Inr it \<Rightarrow> \<exists>m results. it_session it = session @ m # results \<and>
          tool_results_for (tool_calls m) results \<and>
          llm_answers (rs_spans rs') = llm_answers (rs_spans rs) @ [m]" by auto
qed

subsection \<open>Saving and loading\<close>

lemma replayable_filter: "replayable ms = filter (\<lambda>m. \<not> isEmptyAnswer m) ms"
  by (auto simp: replayable_def list_ex_iff intro: filter_True [symmetric])

lemma replayable_append [simp]: "replayable (xs @ ys) = replayable xs @ replayable ys"
  by (simp add: replayable_filter)

lemma replayable_Nil [simp]: "replayable [] = []"
  by (simp add: replayable_filter)

lemma replayable_idem [simp]: "replayable (replayable ms) = replayable ms"
  by (simp add: replayable_filter)

text \<open>
  What memory operations leave alone: everything but what is stored and the memory spans.
\<close>

definition mem_frame :: "'w run_state \<Rightarrow> 'w run_state \<Rightarrow> bool" where
  "mem_frame rs rs' \<longleftrightarrow>
     rs_run rs' = rs_run rs \<and> rs_prompt_len rs' = rs_prompt_len rs \<and> rs_snapshot rs' = rs_snapshot rs \<and>
     rs_compacted_on_error rs' = rs_compacted_on_error rs \<and> rs_saved_to rs' = rs_saved_to rs \<and>
     rs_emit rs' = rs_emit rs \<and> llm_calls (rs_spans rs') = llm_calls (rs_spans rs) \<and>
     llm_answers (rs_spans rs') = llm_answers (rs_spans rs)"

lemma mem_frame_refl [simp, intro]: "mem_frame rs rs"
  by (simp add: mem_frame_def)

lemma mem_frame_trans [trans]: "mem_frame a b \<Longrightarrow> mem_frame b c \<Longrightarrow> mem_frame a c"
  by (simp add: mem_frame_def)

lemma rs_frame_mem_frame: "rs_frame rs rs' \<Longrightarrow> mem_frame rs rs'"
  by (simp add: mem_frame_def rs_frame_fields observe_frame)

lemma mem_frame_span: "mem_frame rs (end_span (MemorySpan p e) rs)"
  by (simp add: mem_frame_def span_simps)

lemma saved_log_span:
  "saved_log (rs_spans (end_span (MemorySpan p e) rs)) =
     saved_log (rs_spans rs) @ (if mp_op p = MemorySave \<and> e = None then mp_messages p else [])"
  by (cases e) (simp_all add: span_simps)

lemma saveSession_spec:
  assumes "saveSession a ctx ms i rs w = (e, rs', w')"
  shows "mem_frame rs rs'"
    and "rs_stored rs' = rs_stored rs \<and> rs_snapshot_err rs' = rs_snapshot_err rs"
    and "saved_log (rs_spans rs') = saved_log (rs_spans rs) @
      (if ag_memory a \<noteq> None \<and> e = None then replayable (drop i ms) else [])"
  using assms
  by (auto simp: saveSession_def Let_def mem_frame_def span_simps
      split: option.splits if_splits prod.splits)

lemma retrieveMemory_spec:
  assumes "retrieveMemory mem ctx ps rs w = (r, rs', w')"
  shows "mem_frame rs rs' \<and> saved_log (rs_spans rs') = saved_log (rs_spans rs)"
  using assms
  by (auto simp: retrieveMemory_def Let_def saved_log_span mem_frame_span split: prod.splits sum.splits)

lemma loadMemory_spec:
  assumes "loadMemory mem ctx ps rs w = (r, rs', w')"
  shows "mem_frame rs rs' \<and> saved_log (rs_spans rs') = saved_log (rs_spans rs)"
proof (cases "mem_store mem")
  case None
  obtain x rs1 w1 where r: "retrieveMemory mem ctx ps rs w = (x, rs1, w1)" by (metis surj_pair)
  with assms None have "rs' = rs1" by (auto simp: loadMemory_def split: sum.splits)
  with retrieveMemory_spec [OF r] show ?thesis by simp
next
  case (Some store)
  let ?p = "\<lparr>mp_op = MemoryRetrieve, mp_query = TextContent ps, mp_messages = [], mp_count = 0\<rparr>"
  obtain x w1 where l: "so_load store ctx w = (x, w1)" by fastforce
  show ?thesis
  proof (cases "\<exists>e. x = Inl e \<and> err_is e (MemoryE ErrSnapshotsUnsupported)")
    case True
    obtain y rs1 w2 where r: "retrieveMemory mem ctx ps (end_span (MemorySpan ?p None) rs) w1 = (y, rs1, w2)"
      by (metis surj_pair)
    have f: "mem_frame rs (end_span (MemorySpan ?p None) rs)" by (rule mem_frame_span)
    from True assms Some l r have "rs' = rs1"
      by (auto simp: loadMemory_def Let_def split: sum.splits)
    with retrieveMemory_spec [OF r] mem_frame_trans [OF f] show ?thesis by (simp add: saved_log_span)
  next
    case False
    with assms Some l show ?thesis
      by (auto simp: loadMemory_def Let_def mem_frame_span saved_log_span split: sum.splits prod.splits)
  qed
qed

lemma storeSnapshot_spec:
  assumes "storeSnapshot store ctx inp co rs w = (e, rs', w')"
  shows "mem_frame rs rs' \<and> saved_log (rs_spans rs') = saved_log (rs_spans rs)"
  using assms
  by (auto simp: storeSnapshot_def Let_def mem_frame_def span_simps split: prod.splits sum.splits option.splits)

subsection \<open>The invariant\<close>

definition session_ok :: "message list \<Rightarrow> nat \<Rightarrow> 'w run_state \<Rightarrow> bool" where
  "session_ok session idx rs \<longleftrightarrow>
     0 < length session \<and> tailStart rs \<le> length session \<and> rs_saved_to rs \<le> length session \<and>
     idx \<le> length session \<and> rs_prompt_len rs \<le> length session"

text \<open>The prompt a reader of the spans rebuilds from the deltas of the calls.\<close>

definition rebuild :: "llm_call list \<Rightarrow> message list" where
  "rebuild cs = fold (\<lambda>c p. take (lc_message_offset c) p @ lc_messages c) cs []"

lemma rebuild_snoc: "rebuild (cs @ [c]) = take (lc_message_offset c) (rebuild cs) @ lc_messages c"
  by (simp add: rebuild_def)

definition prompt_ok :: "message list \<Rightarrow> 'w run_state \<Rightarrow> bool" where
  "prompt_ok session rs \<longleftrightarrow>
     (rs_prompt_len rs = 0 \<or> take (rs_prompt_len rs) session = rebuild (llm_calls (rs_spans rs)))"

text \<open>A round: an answer, and one result per tool call of it, in call order.\<close>

definition round_shape :: "message list \<Rightarrow> bool" where
  "round_shape r \<longleftrightarrow> (\<exists>m results. r = m # results \<and> tool_results_for (tool_calls m) results)"

text \<open>What is saved, with what is still to be saved.\<close>

definition total :: "'w run_state \<Rightarrow> message list \<Rightarrow> message list" where
  "total rs session = saved_log (rs_spans rs) @ replayable (drop (rs_saved_to rs) session)"

definition conv_ok :: "message list \<Rightarrow> 'w run_state \<Rightarrow> message list \<Rightarrow> bool" where
  "conv_ok inp rs session \<longleftrightarrow>
     (\<exists>rounds. total rs session = replayable (inp @ concat rounds) \<and> list_all round_shape rounds \<and>
        map hd rounds = llm_answers (rs_spans rs))"

lemma mem_frame_session_ok: "mem_frame rs rs' \<Longrightarrow> session_ok s i rs' = session_ok s i rs"
  by (simp add: mem_frame_def session_ok_def tailStart_def)

lemma mem_frame_prompt_ok: "mem_frame rs rs' \<Longrightarrow> prompt_ok s rs' = prompt_ok s rs"
  by (simp add: mem_frame_def prompt_ok_def)

lemma mem_frame_total:
  "mem_frame rs rs' \<Longrightarrow> saved_log (rs_spans rs') = saved_log (rs_spans rs) \<Longrightarrow> total rs' s = total rs s"
  by (simp add: mem_frame_def total_def)

lemma called_prompt_ok:
  assumes "called session rs rs'" and "prompt_ok session rs" and "rs_prompt_len rs \<le> length session"
  shows "rebuild (llm_calls (rs_spans rs')) = session"
proof -
  from assms(1) obtain c where c: "llm_calls (rs_spans rs') = llm_calls (rs_spans rs) @ [c]"
    "lc_message_offset c = rs_prompt_len rs" "lc_messages c = drop (rs_prompt_len rs) session"
    using assms(3) by (auto simp: called_def min_def)
  have "take (rs_prompt_len rs) (rebuild (llm_calls (rs_spans rs))) = take (rs_prompt_len rs) session"
  proof (cases "rs_prompt_len rs = 0")
    case False
    with assms(2) have "rebuild (llm_calls (rs_spans rs)) = take (rs_prompt_len rs) session"
      by (simp add: prompt_ok_def)
    then show ?thesis by simp
  qed simp
  with c show ?thesis by (simp add: rebuild_snoc)
qed

subsection \<open>Compaction keeps the invariant\<close>

text \<open>What a compaction leaves: the same session on failure, the compacted one on success.\<close>

lemma compact_spec:
  assumes "compact c a ctx session idx rs w = ((s', idx', ok, e), rs', w')"
  shows "rs_emit rs' = rs_emit rs \<and> rs_compacted_on_error rs' = rs_compacted_on_error rs \<and>
      rs_run rs' = rs_run rs \<and> llm_calls (rs_spans rs') = llm_calls (rs_spans rs) \<and>
      llm_answers (rs_spans rs') = llm_answers (rs_spans rs)"
    and "\<not> ok \<Longrightarrow> s' = session \<and> idx' = idx \<and> mem_frame rs rs' \<and>
      saved_log (rs_spans rs') = saved_log (rs_spans rs)"
    and "ok \<Longrightarrow> e = None \<and> (\<exists>co. s' = hd session # SummaryMessages (co_snapshot co) @ co_kept co \<and>
      check_compaction co \<lparr>ci_previous = rs_snapshot rs, ci_messages = drop (tailStart rs) session,
        ci_keep_tokens = keepTokens a\<rparr> = None \<and>
      rs_snapshot rs' = Some (co_snapshot co)) \<and>
      idx' = tailStart rs' \<and> rs_saved_to rs' = length s' \<and> rs_prompt_len rs' = 0 \<and>
      saved_log (rs_spans rs') = saved_log (rs_spans rs) @
        (if ag_memory a \<noteq> None then replayable (drop (rs_saved_to rs) session) else [])"
proof -
  let ?payload = "\<lparr>mp_op = MemoryCompact, mp_query = [], mp_messages = [], mp_count = 0\<rparr>"
  let ?inp = "\<lparr>ci_previous = rs_snapshot rs, ci_messages = drop (tailStart rs) session,
                 ci_keep_tokens = keepTokens a\<rparr>"
  obtain res w1 where c: "c ctx ?inp w = (res, w1)" by fastforce
  have "(rs_emit rs' = rs_emit rs \<and> rs_compacted_on_error rs' = rs_compacted_on_error rs \<and>
      rs_run rs' = rs_run rs \<and> llm_calls (rs_spans rs') = llm_calls (rs_spans rs) \<and>
      llm_answers (rs_spans rs') = llm_answers (rs_spans rs)) \<and>
    (if ok then e = None \<and> (\<exists>co. s' = hd session # SummaryMessages (co_snapshot co) @ co_kept co \<and>
        check_compaction co ?inp = None \<and> rs_snapshot rs' = Some (co_snapshot co)) \<and>
      idx' = tailStart rs' \<and> rs_saved_to rs' = length s' \<and> rs_prompt_len rs' = 0 \<and>
      saved_log (rs_spans rs') = saved_log (rs_spans rs) @
        (if ag_memory a \<noteq> None then replayable (drop (rs_saved_to rs) session) else [])
     else s' = session \<and> idx' = idx \<and> mem_frame rs rs' \<and>
      saved_log (rs_spans rs') = saved_log (rs_spans rs))"
  proof (cases "\<exists>co. res = Inr (Some co) \<and> check_compaction co ?inp = None")
    case False
    with assms c show ?thesis
      by (auto simp: compact_def Let_def mem_frame_def span_simps split: sum.splits option.splits)
  next
    case True
    then obtain co where co: "res = Inr (Some co)" "check_compaction co ?inp = None" by blast
    obtain e1 rs2 w2 where s: "saveSession a (without_cancel ctx) session (rs_saved_to rs) rs w1 = (e1, rs2, w2)"
      by (metis surj_pair)
    note sv = saveSession_spec [OF s]
    show ?thesis
    proof (cases e1)
      case (Some e2)
      with assms c co s sv show ?thesis
        by (auto simp: compact_def Let_def mem_frame_def span_simps)
    next
      case None
      obtain rs3 w3 where st: "(case Option.bind (ag_memory a) mem_store of None \<Rightarrow> (rs2, w2)
          | Some store \<Rightarrow> (case storeSnapshot store ctx ?inp co rs2 w2 of
               (e, rs3, w3) \<Rightarrow> (rs3\<lparr>rs_snapshot_err := e\<rparr>, w3))) = (rs3, w3)" by fastforce
      have f3: "mem_frame rs2 rs3 \<and> saved_log (rs_spans rs3) = saved_log (rs_spans rs2)"
      proof (cases "Option.bind (ag_memory a) mem_store")
        case None
        with st show ?thesis by simp
      next
        case (Some store)
        obtain e4 rs4 w4 where x: "storeSnapshot store ctx ?inp co rs2 w2 = (e4, rs4, w4)"
          by (metis surj_pair)
        with st Some have "rs3 = rs4\<lparr>rs_snapshot_err := e4\<rparr>" by simp
        with storeSnapshot_spec [OF x] show ?thesis by (simp add: mem_frame_def)
      qed
      from assms c co s None st have heads:
        "ok" "e = None" "s' = hd session # SummaryMessages (co_snapshot co) @ co_kept co" "idx' = tailStart rs'"
        and rs': "rs' = (end_span (MemorySpan (?payload\<lparr>mp_messages := tl s', mp_count := length s' - 1\<rparr>) None) rs3)
          \<lparr>rs_snapshot := Some (co_snapshot co), rs_context_tokens := 0,
           rs_prompt_len := 0, rs_saved_to := length s'\<rparr>"
        by (auto simp: compact_def Let_def split: prod.splits)
      have fields: "rs_emit rs' = rs_emit rs3" "rs_compacted_on_error rs' = rs_compacted_on_error rs3"
        "rs_run rs' = rs_run rs3" "rs_snapshot rs' = Some (co_snapshot co)" "rs_prompt_len rs' = 0"
        "rs_saved_to rs' = length s'" "saved_log (rs_spans rs') = saved_log (rs_spans rs3)"
        "llm_calls (rs_spans rs') = llm_calls (rs_spans rs3)"
        "llm_answers (rs_spans rs') = llm_answers (rs_spans rs3)"
        unfolding rs' by (simp_all add: span_simps)
      have f: "mem_frame rs rs3" using sv(1) f3 mem_frame_trans by blast
      have "saved_log (rs_spans rs3) = saved_log (rs_spans rs) @
        (if ag_memory a \<noteq> None then replayable (drop (rs_saved_to rs) session) else [])"
        using sv(3) None f3 by simp
      with heads fields f co show ?thesis by (auto simp: mem_frame_def)
    qed
  qed
  then show "rs_emit rs' = rs_emit rs \<and> rs_compacted_on_error rs' = rs_compacted_on_error rs \<and>
      rs_run rs' = rs_run rs \<and> llm_calls (rs_spans rs') = llm_calls (rs_spans rs) \<and>
      llm_answers (rs_spans rs') = llm_answers (rs_spans rs)"
    and "\<not> ok \<Longrightarrow> s' = session \<and> idx' = idx \<and> mem_frame rs rs' \<and>
      saved_log (rs_spans rs') = saved_log (rs_spans rs)"
    and "ok \<Longrightarrow> e = None \<and> (\<exists>co. s' = hd session # SummaryMessages (co_snapshot co) @ co_kept co \<and>
      check_compaction co ?inp = None \<and> rs_snapshot rs' = Some (co_snapshot co)) \<and>
      idx' = tailStart rs' \<and> rs_saved_to rs' = length s' \<and> rs_prompt_len rs' = 0 \<and>
      saved_log (rs_spans rs') = saved_log (rs_spans rs) @
        (if ag_memory a \<noteq> None then replayable (drop (rs_saved_to rs) session) else [])"
    by auto
qed

text \<open>The invariant of the loop, with the number of LLM calls made so far.\<close>

definition loop_inv ::
  "'w agent \<Rightarrow> message list \<Rightarrow> nat \<Rightarrow> message list \<Rightarrow> nat \<Rightarrow> 'w run_state \<Rightarrow> bool" where
  "loop_inv a inp n session idx rs \<longleftrightarrow>
     session_ok session idx rs \<and> prompt_ok session rs \<and> length (llm_calls (rs_spans rs)) = n \<and>
     (ag_memory a \<noteq> None \<longrightarrow> conv_ok inp rs session)"

lemma loop_inv_mem_frame:
  assumes "mem_frame rs rs'" and "saved_log (rs_spans rs') = saved_log (rs_spans rs)"
    and "loop_inv a inp n s i rs"
  shows "loop_inv a inp n s i rs'"
  using assms mem_frame_session_ok [OF assms(1)] mem_frame_prompt_ok [OF assms(1)]
    mem_frame_total [OF assms(1,2)]
  by (simp add: loop_inv_def conv_ok_def mem_frame_def)

lemma loop_inv_frame: "rs_frame rs rs' \<Longrightarrow> loop_inv a inp n s i rs \<Longrightarrow> loop_inv a inp n s i rs'"
  by (rule loop_inv_mem_frame) (simp_all add: rs_frame_mem_frame observe_frame)

lemma loop_inv_flag: "loop_inv a inp n s i (rs\<lparr>rs_compacted_on_error := b\<rparr>) = loop_inv a inp n s i rs"
  by (simp add: loop_inv_def session_ok_def tailStart_def prompt_ok_def conv_ok_def total_def)

lemma compact_inv:
  assumes c: "compact c a ctx session idx rs w = ((s', idx', ok, e), rs', w')"
    and inv: "loop_inv a inp n session idx rs"
  shows "loop_inv a inp n s' idx' rs'"
proof (cases ok)
  case False
  with compact_spec(2) [OF c] loop_inv_mem_frame [OF _ _ inv] show ?thesis by simp
next
  case True
  note k = compact_spec(3) [OF c True] and f = compact_spec(1) [OF c]
  from k obtain co :: compaction where co: "s' = hd session # SummaryMessages (co_snapshot co) @ co_kept co"
    "rs_snapshot rs' = Some (co_snapshot co)" by blast
  then have ts: "tailStart rs' \<le> length s'" by (simp add: tailStart_def)
  have t: "total rs' s' = total rs session" if "ag_memory a \<noteq> None"
    using k that by (simp add: total_def)
  have "session_ok s' idx' rs'" using ts k co by (simp add: session_ok_def)
  moreover have "prompt_ok s' rs'" using k by (simp add: prompt_ok_def)
  ultimately show ?thesis
    using inv f t by (simp add: loop_inv_def conv_ok_def)
qed

lemma compactSession_inv:
  assumes "compactSession c a ctx session idx trigger next rs w = ((s', idx', e), rs', w')"
    and inv: "loop_inv a inp n session idx rs"
  shows "loop_inv a inp n s' idx' rs'"
proof -
  obtain ev1 ev2 rs1 w1 ok rs2 w2 where
    1: "emit_event ev1 rs w = (rs1, w1)"
    and 2: "compact c a ctx session idx rs1 w1 = ((s', idx', ok, e), rs2, w2)"
    and 3: "emit_event ev2 rs2 w2 = (rs', w')"
    using assms(1) by (auto simp: compactSession_def Let_def split: prod.splits)
  from emit_event_frame [OF 1] inv have "loop_inv a inp n session idx rs1" by (rule loop_inv_frame)
  with 2 have "loop_inv a inp n s' idx' rs2" by (rule compact_inv)
  with emit_event_frame [OF 3] show ?thesis by (rule loop_inv_frame)
qed

lemma compactSession_fields:
  assumes "compactSession c a ctx session idx trigger next rs w = ((s', idx', e), rs', w')"
  shows "rs_emit rs' = rs_emit rs \<and> rs_compacted_on_error rs' = rs_compacted_on_error rs \<and> rs_run rs' = rs_run rs"
proof -
  obtain ev1 ev2 rs1 w1 ok rs2 w2 where
    1: "emit_event ev1 rs w = (rs1, w1)"
    and 2: "compact c a ctx session idx rs1 w1 = ((s', idx', ok, e), rs2, w2)"
    and 3: "emit_event ev2 rs2 w2 = (rs', w')"
    using assms(1) by (auto simp: compactSession_def Let_def split: prod.splits)
  from compact_spec(1) [OF 2] rs_frame_fields [OF emit_event_frame [OF 1]]
    rs_frame_fields [OF emit_event_frame [OF 3]] show ?thesis by simp
qed

lemma compactIfNeeded_inv:
  assumes "compactIfNeeded a ctx session idx next rs w = ((s', idx', e), rs', w')"
    and "loop_inv a inp n session idx rs"
  shows "loop_inv a inp n s' idx' rs'"
    and "rs_compacted_on_error rs' = rs_compacted_on_error rs \<and> rs_emit rs' = rs_emit rs \<and> rs_run rs' = rs_run rs"
  using assms compactSession_inv compactSession_fields
  by (fastforce simp: compactIfNeeded_def Let_def split: option.splits if_splits)+

lemma compactAfterError_inv:
  assumes "compactAfterError a ctx session idx next err rs w = ((retry, s', idx', e), rs', w')"
    and inv: "loop_inv a inp n session idx rs"
  shows "loop_inv a inp n s' idx' rs'"
    and "rs_emit rs' = rs_emit rs \<and> rs_run rs' = rs_run rs"
    and "retry \<longleftrightarrow> \<not> rs_compacted_on_error rs \<and> ag_compactor a \<noteq> None \<and>
      err_is err (LlmE ErrContextLengthExceeded) \<and> e = None"
    and "retry \<Longrightarrow> rs_compacted_on_error rs'"
proof -
  have flag: "loop_inv a inp n session idx (rs\<lparr>rs_compacted_on_error := True\<rparr>)"
    using inv by (simp add: loop_inv_flag)
  have "loop_inv a inp n s' idx' rs' \<and> (rs_emit rs' = rs_emit rs \<and> rs_run rs' = rs_run rs) \<and>
      (retry \<longleftrightarrow> \<not> rs_compacted_on_error rs \<and> ag_compactor a \<noteq> None \<and>
         err_is err (LlmE ErrContextLengthExceeded) \<and> e = None) \<and>
      (retry \<longrightarrow> rs_compacted_on_error rs')"
  proof (cases "ag_compactor a = None \<or> rs_compacted_on_error rs \<or> \<not> err_is err (LlmE ErrContextLengthExceeded)")
    case True
    with assms show ?thesis by (auto simp: compactAfterError_def split: option.splits)
  next
    case False
    then obtain c where c: "ag_compactor a = Some c" by auto
    obtain s1 i1 e1 rs1 w1 where k: "compactSession c a ctx session idx CompactContextLength next
        (rs\<lparr>rs_compacted_on_error := True\<rparr>) w = ((s1, i1, e1), rs1, w1)" by (metis surj_pair)
    with assms(1) False c have "retry = (e1 = None)" "s' = s1" "idx' = i1" "e = e1" "rs' = rs1"
      by (auto simp: compactAfterError_def)
    with compactSession_inv [OF k flag] compactSession_fields [OF k] False show ?thesis by auto
  qed
  then show "loop_inv a inp n s' idx' rs'" "rs_emit rs' = rs_emit rs \<and> rs_run rs' = rs_run rs"
    "retry \<longleftrightarrow> \<not> rs_compacted_on_error rs \<and> ag_compactor a \<noteq> None \<and>
      err_is err (LlmE ErrContextLengthExceeded) \<and> e = None"
    "retry \<Longrightarrow> rs_compacted_on_error rs'" by auto
qed

lemma errors_join_Some: "\<exists>e. errors_join [Some a, b] = Some e"
  by (simp add: errors_join_def Let_def List.map_filter_def)

lemma iterationFailed_inv:
  assumes "iterationFailed a ctx session idx next err rs w = ((fail, s', idx'), rs', w')"
    and inv: "loop_inv a inp n session idx rs"
  shows "loop_inv a inp n s' idx' rs'"
    and "rs_emit rs' = rs_emit rs \<and> rs_run rs' = rs_run rs"
    and "fail = None \<Longrightarrow> \<not> rs_compacted_on_error rs \<and> rs_compacted_on_error rs' \<and>
      err_is err (LlmE ErrContextLengthExceeded) \<and> ctx_err ctx w = None"
proof -
  obtain retry s1 i1 e1 rs1 w1 where k: "compactAfterError a ctx session idx next err rs w = ((retry, s1, i1, e1), rs1, w1)"
    by (metis surj_pair)
  note c = compactAfterError_inv [OF k inv]
  have "loop_inv a inp n s' idx' rs' \<and> (rs_emit rs' = rs_emit rs \<and> rs_run rs' = rs_run rs) \<and>
      (fail = None \<longrightarrow> \<not> rs_compacted_on_error rs \<and> rs_compacted_on_error rs' \<and>
         err_is err (LlmE ErrContextLengthExceeded) \<and> ctx_err ctx w = None)"
  proof (cases "ctx_err ctx w")
    case (Some ce)
    have "cancellationError ctx w \<noteq> None"
      using Some by (simp add: cancellationError_def split: option.splits err.splits)
    with Some assms show ?thesis by (auto simp: iterationFailed_def)
  next
    case None
    with assms(1) k have "s' = s1 \<and> idx' = i1 \<and> rs' = rs1 \<and> (fail = None \<longleftrightarrow> retry)"
      by (cases retry; cases e1) (auto simp: iterationFailed_def errors_join_Some)
    with c None show ?thesis by auto
  qed
  then show "loop_inv a inp n s' idx' rs'" "rs_emit rs' = rs_emit rs \<and> rs_run rs' = rs_run rs"
    "fail = None \<Longrightarrow> \<not> rs_compacted_on_error rs \<and> rs_compacted_on_error rs' \<and>
      err_is err (LlmE ErrContextLengthExceeded) \<and> ctx_err ctx w = None" by auto
qed

subsection \<open>Iterations keep the invariant\<close>

lemma tailStart_snapshot: "rs_snapshot rs' = rs_snapshot rs \<Longrightarrow> tailStart rs' = tailStart rs"
  by (simp add: tailStart_def)

lemma take_append_le: "n \<le> length xs \<Longrightarrow> take n (xs @ ys) = take n xs"
  by simp

lemma conv_ok_round:
  assumes "conv_ok inp rs session" and "rs_saved_to rs \<le> length session"
    and "rs_saved_to rs' = rs_saved_to rs" and "saved_log (rs_spans rs') = saved_log (rs_spans rs)"
    and "llm_answers (rs_spans rs') = llm_answers (rs_spans rs) @ [m]"
    and "tool_results_for (tool_calls m) results"
  shows "conv_ok inp rs' (session @ m # results)"
proof -
  from assms(1) obtain rounds where r: "total rs session = replayable (inp @ concat rounds)"
    "list_all round_shape rounds" "map hd rounds = llm_answers (rs_spans rs)"
    by (auto simp: conv_ok_def)
  have "total rs' (session @ m # results) = total rs session @ replayable (m # results)"
    using assms by (simp add: total_def replayable_append [symmetric] del: replayable_append)
  with r assms(5,6) show ?thesis
    unfolding conv_ok_def
    by (intro exI [of _ "rounds @ [m # results]"]) (simp add: round_shape_def replayable_append [symmetric] del: replayable_append)
qed

text \<open>An iteration makes one LLM call, failed or not, and on success appends a round.\<close>

lemma handleAgentIteration_inv:
  assumes h: "handleAgentIteration env a ctx session k rs w = (r, rs', w')"
    and inv: "loop_inv a inp n session idx rs"
  shows "case r of Inl e \<Rightarrow> loop_inv a inp (Suc n) session idx rs'
    | Inr it \<Rightarrow> loop_inv a inp (Suc n) (it_session it) idx rs'"
    and "rebuild (llm_calls (rs_spans rs')) = session"
proof -
  note called = handleAgentIteration_spec(1) [OF h] and ans = handleAgentIteration_spec(2) [OF h]
  have so: "session_ok session idx rs" and po: "prompt_ok session rs"
    and n: "length (llm_calls (rs_spans rs)) = n"
    using inv by (simp_all add: loop_inv_def)
  show rb: "rebuild (llm_calls (rs_spans rs')) = session"
    using called_prompt_ok [OF called po] so by (simp add: session_ok_def)
  have n': "length (llm_calls (rs_spans rs')) = Suc n" using called n by (auto simp: called_def)
  have ts: "tailStart rs' = tailStart rs" using called by (intro tailStart_snapshot) (simp add: called_def)
  have f: "rs_saved_to rs' = rs_saved_to rs" "rs_prompt_len rs' = length session"
    "saved_log (rs_spans rs') = saved_log (rs_spans rs)" using called by (simp_all add: called_def)
  show "case r of Inl e \<Rightarrow> loop_inv a inp (Suc n) session idx rs'
    | Inr it \<Rightarrow> loop_inv a inp (Suc n) (it_session it) idx rs'"
  proof (cases r)
    case (Inl e)
    with ans have a: "llm_answers (rs_spans rs') = llm_answers (rs_spans rs)" by simp
    show ?thesis
      using Inl inv so n' ts f rb a
      by (simp add: loop_inv_def session_ok_def prompt_ok_def conv_ok_def total_def)
  next
    case (Inr it)
    with ans obtain m results where it: "it_session it = session @ m # results"
      "tool_results_for (tool_calls m) results"
      "llm_answers (rs_spans rs') = llm_answers (rs_spans rs) @ [m]" by auto
    have "conv_ok inp rs' (session @ m # results)" if "ag_memory a \<noteq> None"
      using that inv so f it by (intro conv_ok_round [of inp rs]) (simp_all add: loop_inv_def session_ok_def)
    with Inr it so n' ts f rb show ?thesis
      by (simp add: loop_inv_def session_ok_def prompt_ok_def)
  qed
qed

lemma saveCheckpoint_inv:
  assumes c: "saveCheckpoint a ctx session rs w = (e, rs', w')"
    and inv: "loop_inv a inp n session idx rs"
  shows "loop_inv a inp n session idx rs'"
proof (cases "\<not> ag_checkpoint a \<or> ag_memory a = None")
  case True
  with assms show ?thesis by (auto simp: saveCheckpoint_def)
next
  case False
  obtain e1 rs1 w1 where s: "saveSession a (without_cancel ctx) session (rs_saved_to rs) rs w = (e1, rs1, w1)"
    by (metis surj_pair)
  note sv = saveSession_spec [OF s]
  show ?thesis
  proof (cases e1)
    case (Some e2)
    with c False s have "rs' = rs1" by (auto simp: saveCheckpoint_def)
    with sv Some loop_inv_mem_frame [OF sv(1) _ inv] show ?thesis by simp
  next
    case None
    with c False s have rs': "rs' = rs1\<lparr>rs_saved_to := length session\<rparr>" by (auto simp: saveCheckpoint_def)
    have "total rs' session = total rs session" using sv(3) None False rs' by (simp add: total_def)
    with inv rs' sv(1) show ?thesis
      by (simp add: loop_inv_def conv_ok_def session_ok_def prompt_ok_def mem_frame_def tailStart_def)
  qed
qed

lemma afterIteration_inv:
  assumes a: "afterIteration a ctx it idx rs w = (r, rs', w')"
    and inv: "loop_inv a inp n (it_session it) idx rs"
  shows "loop_inv a inp n (it_session it) idx rs'"
proof (cases "it_stop it = None \<and> it_result it = None")
  case False
  with assms show ?thesis by (auto simp: afterIteration_def split: if_splits)
next
  case True
  obtain e rs1 w1 where s: "saveCheckpoint a ctx (it_session it) rs w = (e, rs1, w1)" by (metis surj_pair)
  with a True have "rs' = rs1" by (auto simp: afterIteration_def split: option.splits)
  with saveCheckpoint_inv [OF s inv] show ?thesis by simp
qed

subsection \<open>A pass of the loop\<close>

definition state_inv :: "'w agent \<Rightarrow> message list \<Rightarrow> 'w loop_state \<Rightarrow> bool" where
  "state_inv a inp st \<longleftrightarrow>
     loop_inv a inp (ls_iteration st) (ls_session st) (ls_index st) (ls_rs st)"

text \<open>Where a pass goes on, it made one LLM call below the limit; where it ends, one at most.\<close>

lemma loop_pass_inv:
  assumes p: "loop_pass env a ctx st = (r, st')" and inv: "state_inv a inp st"
  shows "state_inv a inp st'"
    and "ls_iteration st' \<le> Suc (ls_iteration st)"
    and "0 < ag_max_iterations a \<Longrightarrow> ls_iteration st' \<noteq> ls_iteration st \<Longrightarrow>
      int (ls_iteration st) < ag_max_iterations a"
    and "r = None \<Longrightarrow> ls_iteration st' = Suc (ls_iteration st)"
proof -
  let ?w = "ls_world st" and ?s = "ls_session st" and ?i = "ls_index st"
  let ?limit = "0 < ag_max_iterations a \<and> ag_max_iterations a \<le> int (ls_iteration st)"
  have li: "loop_inv a inp (ls_iteration st) ?s ?i (ls_rs st)" using inv by (simp add: state_inv_def)
  have "state_inv a inp st' \<and> (ls_iteration st' = Suc (ls_iteration st) \<and> \<not> ?limit \<or>
      ls_iteration st' = ls_iteration st \<and> r \<noteq> None)"
  proof (cases "ctx_err ctx ?w \<noteq> None \<or> ?limit")
    case True
    with p inv show ?thesis by (auto simp: loop_pass_def Let_def split: if_splits)
  next
    case go: False
    obtain s1 i1 e1 rs1 w1 where c:
      "compactIfNeeded a ctx ?s ?i (ls_iteration st + 1) (ls_rs st) ?w = ((s1, i1, e1), rs1, w1)"
      by (metis surj_pair)
    note li1 = compactIfNeeded_inv(1) [OF c li]
    show ?thesis
    proof (cases e1)
      case (Some e)
      with p go c have "r \<noteq> None" "st' = st\<lparr>ls_session := s1, ls_index := i1, ls_rs := rs1, ls_world := w1\<rparr>"
        by (auto simp: loop_pass_def Let_def)
      with li1 show ?thesis by (simp add: state_inv_def)
    next
      case None
      obtain x rs2 w2 where h:
        "handleAgentIteration env a ctx s1 (ls_iteration st + 1) rs1 w1 = (x, rs2, w2)"
        by (metis surj_pair)
      note li2 = handleAgentIteration_inv(1) [OF h li1]
      show ?thesis
      proof (cases x)
        case (Inl e)
        obtain f s3 i3 rs3 w3 where it:
          "iterationFailed a ctx s1 i1 (ls_iteration st + 1 + 1) e rs2 w2 = ((f, s3, i3), rs3, w3)"
          by (metis surj_pair)
        from li2 Inl have "loop_inv a inp (Suc (ls_iteration st)) s1 i1 rs2" by simp
        note li3 = iterationFailed_inv(1) [OF it this]
        have "st' = \<lparr>ls_session = s3, ls_index = i3, ls_iteration = ls_iteration st + 1,
            ls_rs = rs3, ls_world = w3\<rparr>"
          using p go c None h Inl it by (auto simp: loop_pass_def Let_def split: option.splits)
        with li3 go show ?thesis by (simp add: state_inv_def)
      next
        case (Inr it)
        obtain d rs3 w3 where a:
          "afterIteration a ctx it i1 (rs2\<lparr>rs_compacted_on_error := False\<rparr>) w2 = (d, rs3, w3)"
          by (metis surj_pair)
        from li2 Inr have "loop_inv a inp (Suc (ls_iteration st)) (it_session it) i1
            (rs2\<lparr>rs_compacted_on_error := False\<rparr>)" by (simp add: loop_inv_flag)
        note li3 = afterIteration_inv [OF a this]
        have "st' = \<lparr>ls_session = it_session it, ls_index = i1, ls_iteration = ls_iteration st + 1,
            ls_rs = rs3, ls_world = w3\<rparr>"
          using p go c None h Inr a by (auto simp: loop_pass_def Let_def)
        with li3 go show ?thesis by (simp add: state_inv_def)
      qed
    qed
  qed
  then show "state_inv a inp st'" "ls_iteration st' \<le> Suc (ls_iteration st)"
    "0 < ag_max_iterations a \<Longrightarrow> ls_iteration st' \<noteq> ls_iteration st \<Longrightarrow>
      int (ls_iteration st) < ag_max_iterations a"
    "r = None \<Longrightarrow> ls_iteration st' = Suc (ls_iteration st)" by auto
qed

subsection \<open>Reachable states\<close>

definition start_state :: "message list \<Rightarrow> nat \<Rightarrow> 'w run_state \<Rightarrow> 'w \<Rightarrow> 'w loop_state" where
  "start_state session idx rs w =
     \<lparr>ls_session = session, ls_index = idx, ls_iteration = 0, ls_rs = rs\<lparr>rs_saved_to := idx\<rparr>,
      ls_world = w\<rparr>"

inductive run_reach ::
  "'w agent_env \<Rightarrow> 'w agent \<Rightarrow> 'w goctx \<Rightarrow> 'w emitter option \<Rightarrow> content_part list \<Rightarrow> 'w loop_state \<Rightarrow> bool"
  for env a ctx emit ps where
  start: "prepareSession a ctx ps (init_run_state a emit ps) w = (Inr (session, idx), rs, w1) \<Longrightarrow>
     run_reach env a ctx emit ps (start_state session idx rs w1)"
| pass: "run_reach env a ctx emit ps st \<Longrightarrow> loop_pass env a ctx st = (None, st') \<Longrightarrow>
     run_reach env a ctx emit ps st'"

inductive_cases run_reachE: "run_reach env a ctx emit ps st"

text \<open>The user message of a run: none when the input is blank.\<close>

definition user_input :: "content_part list \<Rightarrow> message list" where
  "user_input ps = (let content = nonBlankParts ps in if content \<noteq> [] then [UserMessage content] else [])"

lemma prepareSession_spec:
  assumes p: "prepareSession a ctx ps rs w = (Inr (session, idx), rs', w')"
    and rs: "rs_snapshot rs = None"
  shows "\<exists>ms. session = SystemMessage (ag_description a) #
      (case rs_snapshot rs' of None \<Rightarrow> [] | Some s \<Rightarrow> SummaryMessages s) @ ms @ user_input ps \<and>
      idx = 1 + length (case rs_snapshot rs' of None \<Rightarrow> [] | Some s \<Rightarrow> SummaryMessages s) + length ms \<and>
      list_all (\<lambda>m. \<not> isEmptyAnswer m) ms"
    and "rs_prompt_len rs' = rs_prompt_len rs" "llm_calls (rs_spans rs') = llm_calls (rs_spans rs)"
    and "llm_answers (rs_spans rs') = llm_answers (rs_spans rs)"
    and "saved_log (rs_spans rs') = saved_log (rs_spans rs)" "rs_stored rs' = rs_snapshot rs' \<or> rs_stored rs' = rs_stored rs"
proof -
  have "(\<exists>ms. session = SystemMessage (ag_description a) #
      (case rs_snapshot rs' of None \<Rightarrow> [] | Some s \<Rightarrow> SummaryMessages s) @ ms @ user_input ps \<and>
      idx = 1 + length (case rs_snapshot rs' of None \<Rightarrow> [] | Some s \<Rightarrow> SummaryMessages s) + length ms \<and>
      list_all (\<lambda>m. \<not> isEmptyAnswer m) ms) \<and>
    rs_prompt_len rs' = rs_prompt_len rs \<and> llm_calls (rs_spans rs') = llm_calls (rs_spans rs) \<and>
    llm_answers (rs_spans rs') = llm_answers (rs_spans rs) \<and>
    saved_log (rs_spans rs') = saved_log (rs_spans rs) \<and>
    (rs_stored rs' = rs_snapshot rs' \<or> rs_stored rs' = rs_stored rs)"
  proof (cases "ag_memory a")
    case None
    with p rs show ?thesis
      by (auto simp: prepareSession_def Let_def user_input_def intro: exI [of _ "[]"])
  next
    case (Some mem)
    obtain x rs1 w1 where l: "loadMemory mem ctx ps rs w = (x, rs1, w1)" by (metis surj_pair)
    have stored: "rs_stored rs1 = rs_stored rs"
      using l by (auto simp: loadMemory_def retrieveMemory_def Let_def end_span_def
          split: option.splits sum.splits prod.splits if_splits)
    have ne: "list_all (\<lambda>m. \<not> isEmptyAnswer m) ms" if "x = Inr (sn, ms)" for sn ms
      using l that by (auto simp: loadMemory_def retrieveMemory_def Let_def list_all_iff replayable_filter
          split: option.splits sum.splits prod.splits if_splits)
    note lm = loadMemory_spec [OF l]
    from p Some l obtain sn ms where x: "x = Inr (sn, ms)"
      by (auto simp: prepareSession_def Let_def split: sum.splits)
    show ?thesis
    proof (cases sn)
      case None
      with p Some l x have "session = SystemMessage (ag_description a) # ms @ user_input ps"
        "idx = 1 + length ms" "rs' = rs1"
        by (auto simp: prepareSession_def Let_def user_input_def)
      with lm ne [OF x] rs stored show ?thesis
        by (auto simp: mem_frame_def intro!: exI [of _ ms])
    next
      case (Some s)
      with p \<open>ag_memory a = Some mem\<close> l x have
        "session = SystemMessage (ag_description a) # SummaryMessages s @ ms @ user_input ps"
        "idx = 1 + length (SummaryMessages s) + length ms"
        "rs' = rs1\<lparr>rs_snapshot := Some s, rs_stored := Some s\<rparr>"
        by (auto simp: prepareSession_def Let_def user_input_def)
      with lm ne [OF x] show ?thesis
        by (auto simp: mem_frame_def intro!: exI [of _ ms])
    qed
  qed
  then show "\<exists>ms. session = SystemMessage (ag_description a) #
      (case rs_snapshot rs' of None \<Rightarrow> [] | Some s \<Rightarrow> SummaryMessages s) @ ms @ user_input ps \<and>
      idx = 1 + length (case rs_snapshot rs' of None \<Rightarrow> [] | Some s \<Rightarrow> SummaryMessages s) + length ms \<and>
      list_all (\<lambda>m. \<not> isEmptyAnswer m) ms"
    "rs_prompt_len rs' = rs_prompt_len rs" "llm_calls (rs_spans rs') = llm_calls (rs_spans rs)"
    "llm_answers (rs_spans rs') = llm_answers (rs_spans rs)"
    "saved_log (rs_spans rs') = saved_log (rs_spans rs)" "rs_stored rs' = rs_snapshot rs' \<or> rs_stored rs' = rs_stored rs"
    by auto
qed

lemma start_state_inv:
  assumes "prepareSession a ctx ps (init_run_state a emit ps) w = (Inr (session, idx), rs, w1)"
  shows "state_inv a (user_input ps) (start_state session idx rs w1)"
proof -
  have init: "rs_snapshot (init_run_state a emit ps) = None" by (simp add: init_run_state_def)
  note p = prepareSession_spec [OF assms init]
  let ?pre = "case rs_snapshot rs of None \<Rightarrow> [] | Some s \<Rightarrow> SummaryMessages s"
  from p(1) obtain ms where ms: "session = SystemMessage (ag_description a) # ?pre @ ms @ user_input ps"
    "idx = 1 + length ?pre + length ms" by blast
  have ts: "tailStart rs = 1 + length ?pre" by (simp add: tailStart_def split: option.splits)
  have "drop idx session = user_input ps" using ms by simp
  then have "conv_ok (user_input ps) (rs\<lparr>rs_saved_to := idx\<rparr>) session"
    using p(4,5) unfolding conv_ok_def
    by (intro exI [of _ "[]"]) (simp add: total_def init_run_state_def)
  moreover have "session_ok session idx (rs\<lparr>rs_saved_to := idx\<rparr>)"
    using ms ts p(2) by (simp add: session_ok_def init_run_state_def tailStart_def)
  ultimately show ?thesis
    using p(2,3) by (simp add: state_inv_def start_state_def loop_inv_def prompt_ok_def init_run_state_def)
qed

lemma run_reach_inv:
  "run_reach env a ctx emit ps st \<Longrightarrow> state_inv a (user_input ps) st"
  by (induction rule: run_reach.induct) (auto intro: start_state_inv loop_pass_inv(1))

lemma run_reach_iterations:
  assumes "run_reach env a ctx emit ps st" and pos: "0 < ag_max_iterations a"
  shows "int (ls_iteration st) \<le> ag_max_iterations a"
  using assms(1)
proof (induction rule: run_reach.induct)
  case (start w session idx rs w1)
  then show ?case using pos by (simp add: start_state_def)
next
  case (pass st st')
  from loop_pass_inv [OF pass(2) run_reach_inv [OF pass(1)]] pos pass.IH show ?case by force
qed

text \<open>A run that ends does so in a pass from a reachable state.\<close>

lemma run_loop_reach:
  "run_reach env a ctx emit ps st \<Longrightarrow> run_loop fuel env a ctx st = Some (fin, st') \<Longrightarrow>
     \<exists>st0. run_reach env a ctx emit ps st0 \<and> loop_pass env a ctx st0 = (Some fin, st')"
proof (induction fuel arbitrary: st)
  case 0
  then show ?case by simp
next
  case (Suc n)
  obtain r st1 where p: "loop_pass env a ctx st = (r, st1)" by fastforce
  show ?case
  proof (cases r)
    case None
    with Suc p have "run_reach env a ctx emit ps st1" "run_loop n env a ctx st1 = Some (fin, st')"
      by (auto intro: run_reach.pass)
    then show ?thesis by (rule Suc.IH)
  next
    case (Some f)
    with Suc.prems p show ?thesis by auto
  qed
qed

text \<open>With an iteration limit, the loop ends within one pass more than the limit.\<close>

lemma run_loop_total:
  "state_inv a inp st \<Longrightarrow> 0 < ag_max_iterations a \<Longrightarrow>
     ag_max_iterations a < int (ls_iteration st + fuel) \<Longrightarrow> int (ls_iteration st) \<le> ag_max_iterations a \<Longrightarrow>
     \<exists>fin st'. run_loop fuel env a ctx st = Some (fin, st')"
proof (induction fuel arbitrary: st)
  case 0
  then show ?case by simp
next
  case (Suc n)
  obtain r st1 where p: "loop_pass env a ctx st = (r, st1)" by fastforce
  note i = loop_pass_inv [OF p Suc.prems(1)]
  show ?case
  proof (cases r)
    case None
    with i have it: "ls_iteration st1 = Suc (ls_iteration st)" by simp
    with i(3) Suc.prems have "int (ls_iteration st) < ag_max_iterations a" by simp
    with it Suc.IH [OF i(1)] Suc.prems None p show ?thesis by simp
  next
    case (Some f)
    with p show ?thesis by simp
  qed
qed

end
