(* ===== verification/Agent_Correct.thy ===== *)
theory Agent_Correct
  imports Agent_Loop
begin

section \<open>Package agent: what a run guarantees\<close>

text \<open>
  The properties of \<open>Agent.Run\<close> and \<open>Agent.RunStream\<close>, over the invariants of theory
  \<open>Agent_Loop\<close>. They hold for every LLM, tool, memory, compactor, consumer and scheduler, since
  these are arbitrary functions of the world.
\<close>

subsection \<open>Ending a run\<close>

lemma finishRun_spec:
  assumes f: "finishRun a ctx session n fin rs w = ((result, e), rs', w')"
  shows "llm_calls (rs_spans rs') = llm_calls (rs_spans rs)"
    and "llm_answers (rs_spans rs') = llm_answers (rs_spans rs)"
    and "rp_iterations (rs_run rs') = n"
    and "result = fst fin"
    and "session = None \<Longrightarrow> saved_log (rs_spans rs') = saved_log (rs_spans rs)"
    and "session = Some s \<Longrightarrow> ag_memory a \<noteq> None \<Longrightarrow> \<not> errors_is e (AgentE ErrSessionSaveFailed) \<Longrightarrow>
      saved_log (rs_spans rs') = total rs s"
    and "e = snd fin \<or> errors_is e (AgentE ErrSessionSaveFailed)"
    and "errors_is (snd fin) x \<Longrightarrow> errors_is e x"
proof -
  obtain res e0 where fin: "fin = (res, e0)" by fastforce
  obtain rs1 where rs1: "rs1 = rs\<lparr>rs_run := (rs_run rs)\<lparr>rp_stop_reason := stopReason ctx w res e0\<rparr>\<rparr>"
    by blast
  obtain e1 rs2 w2 where s: "(case session of None \<Rightarrow> (e0, rs1, w)
      | Some s \<Rightarrow> (case saveSession a (without_cancel ctx) s (rs_saved_to rs1) rs1 w of
            (None, rs2, w2) \<Rightarrow> (e0, rs2, w2)
          | (Some saveErr, rs2, w2) \<Rightarrow>
              (errors_join [e0, Some (session_save_failed saveErr)], rs2, w2))) = (e1, rs2, w2)"
    by (rule prod_cases3)
  have out: "result = res" "e = e1" "rs_spans rs' = rs_spans rs2" "rp_iterations (rs_run rs') = n"
    using f fin rs1 s by (auto simp: finishRun_def Let_def split: option.splits)
  have join: "err_is x (AgentE ErrSessionSaveFailed)"
    if "errors_join [e0, Some (session_save_failed se)] = Some x" for x se
    using err_is_errors_join [OF that] by (auto simp: session_save_failed_def)
  have join2: "err_is x t"
    if "errors_join [Some y, Some (session_save_failed se)] = Some x" "err_is y t" for x y se t
    using err_is_errors_join [OF that(1)] that(2) by auto
  have some: "\<exists>x. errors_join [e0, Some se] = Some x" for se
    by (cases e0) (simp_all add: errors_join_def Let_def List.map_filter_def)
  show "result = fst fin" using out fin by simp
  show "rp_iterations (rs_run rs') = n" by (rule out(4))
  have "mem_frame rs1 rs2"
    using s saveSession_spec(1) by (fastforce split: option.splits prod.splits)
  then show "llm_calls (rs_spans rs') = llm_calls (rs_spans rs)"
    "llm_answers (rs_spans rs') = llm_answers (rs_spans rs)"
    using out rs1 by (simp_all add: mem_frame_def)
  show "session = None \<Longrightarrow> saved_log (rs_spans rs') = saved_log (rs_spans rs)"
    using s out rs1 by auto
  show "e = snd fin \<or> errors_is e (AgentE ErrSessionSaveFailed)"
    using s out fin some join by (fastforce simp: errors_is_def split: option.splits prod.splits)
  show "errors_is (snd fin) x \<Longrightarrow> errors_is e x"
    using s out fin some join2 by (fastforce simp: errors_is_def split: option.splits prod.splits)
  show "saved_log (rs_spans rs') = total rs s"
    if "session = Some s" "ag_memory a \<noteq> None" "\<not> errors_is e (AgentE ErrSessionSaveFailed)"
  proof -
    obtain e2 rs3 w3 where sv: "saveSession a (without_cancel ctx) s (rs_saved_to rs1) rs1 w = (e2, rs3, w3)"
      by (metis surj_pair)
    show ?thesis
    proof (cases e2)
      case None
      with s sv that out rs1 saveSession_spec(3) [OF sv] show ?thesis by (simp add: total_def)
    next
      case (Some se)
      obtain x where x: "errors_join [e0, Some (session_save_failed se)] = Some x" using some by blast
      with s sv that(1) out(2) Some have "e = Some x" by simp
      with join [OF x] that(3) have False by (simp add: errors_is_def)
      then show ?thesis ..
    qed
  qed
qed

text \<open>How a run ends: it could not be prepared, or in a pass from a reachable state.\<close>

lemma run_agent_cases:
  assumes "run_agent fuel env a ctx emit ps w = Some (fin, rs, w')"
  obtains (failed) e rs1 w1 where
      "prepareSession a (ContextWithRun ctx (env_run_id env)) ps (init_run_state a emit ps) w = (Inl e, rs1, w1)"
      "finishRun a (ContextWithRun ctx (env_run_id env)) None 0 (Some empty_run_result, Some e) rs1 w1 = (fin, rs, w')"
  | (ended) st fin0 st' where
      "run_reach env a (ContextWithRun ctx (env_run_id env)) emit ps st"
      "loop_pass env a (ContextWithRun ctx (env_run_id env)) st = (Some fin0, st')"
      "finishRun a (ContextWithRun ctx (env_run_id env)) (Some (ls_session st')) (ls_iteration st') fin0
         (ls_rs st') (ls_world st') = (fin, rs, w')"
proof -
  let ?ctx = "ContextWithRun ctx (env_run_id env)"
  obtain r rs1 w1 where p: "prepareSession a ?ctx ps (init_run_state a emit ps) w = (r, rs1, w1)"
    by (metis surj_pair)
  show thesis
  proof (cases r)
    case (Inl e)
    with assms p have "finishRun a ?ctx None 0 (Some empty_run_result, Some e) rs1 w1 = (fin, rs, w')"
      by (simp add: run_agent_def)
    with p Inl show ?thesis using failed by blast
  next
    case (Inr si)
    obtain s i where si: "si = (s, i)" by fastforce
    from assms p Inr si obtain fin0 st' where l:
      "run_loop fuel env a ?ctx (start_state s i rs1 w1) = Some (fin0, st')"
      and f: "finishRun a ?ctx (Some (ls_session st')) (ls_iteration st') fin0 (ls_rs st') (ls_world st') = (fin, rs, w')"
      by (auto simp: run_agent_def start_state_def Let_def split: option.splits)
    from p Inr si have "run_reach env a ?ctx emit ps (start_state s i rs1 w1)"
      by (auto intro: run_reach.start)
    from run_loop_reach [OF this l] f show ?thesis using ended by blast
  qed
qed

lemma prepareSession_failed:
  assumes "prepareSession a ctx ps rs w = (Inl e, rs', w')"
  shows "llm_calls (rs_spans rs') = llm_calls (rs_spans rs) \<and> saved_log (rs_spans rs') = saved_log (rs_spans rs)"
proof -
  from assms obtain mem x rs1 w1 where "ag_memory a = Some mem"
    and l: "loadMemory mem ctx ps rs w = (x, rs1, w1)" and "rs' = rs1"
    by (auto simp: prepareSession_def Let_def split: option.splits sum.splits prod.splits)
  with loadMemory_spec [OF l] show ?thesis by (simp add: mem_frame_def)
qed

subsection \<open>Termination\<close>

text \<open>Every run returns within two passes more than its limit.\<close>

lemma run_returns:
  assumes max: "ag_max_iterations a = int (Suc n)"
  shows "\<exists>fin rs w'. run_agent (n + 2) env a ctx emit ps w = Some (fin, rs, w')"
proof -
  let ?ctx = "ContextWithRun ctx (env_run_id env)"
  obtain r rs1 w1 where p: "prepareSession a ?ctx ps (init_run_state a emit ps) w = (r, rs1, w1)"
    by (metis surj_pair)
  show ?thesis
  proof (cases r)
    case (Inl e)
    with p show ?thesis by (simp add: run_agent_def) (metis surj_pair)
  next
    case (Inr si)
    obtain s i where si: "si = (s, i)" by fastforce
    have inv: "state_inv a (user_input ps) (start_state s i rs1 w1)"
      using p Inr si by (intro start_state_inv [of _ ?ctx _ emit w]) simp
    have "\<exists>fin st'. run_loop (n + 2) env a ?ctx (start_state s i rs1 w1) = Some (fin, st')"
      using inv by (rule run_loop_total) (simp_all add: max start_state_def)
    then obtain fin st' where "run_loop (n + 2) env a ?ctx (start_state s i rs1 w1) = Some (fin, st')"
      by blast
    with p Inr si show ?thesis
      by (simp add: run_agent_def start_state_def del: run_loop.simps) (metis surj_pair)
  qed
qed

text \<open>
  C5: An agent with an iteration limit \<open>n + 1\<close> always ends its run, whatever its LLM, tools,
  memory and compactor do: after at most \<open>n + 1\<close> LLM calls, one per iteration, and with
  \<open>n + 2\<close> passes of its loop.
\<close>

theorem run_ends:
  "\<exists>fin rs w'. run_agent (n + 2) env (SetMaxIterations (int (Suc n)) a) ctx emit ps w = Some (fin, rs, w') \<and>
     length (llm_calls (rs_spans rs)) \<le> Suc n \<and>
     rp_iterations (rs_run rs) = length (llm_calls (rs_spans rs))"
proof -
  let ?a = "SetMaxIterations (int (Suc n)) a" and ?ctx = "ContextWithRun ctx (env_run_id env)"
  have max: "ag_max_iterations ?a = int (Suc n)" by (simp add: SetMaxIterations_def)
  have "\<exists>fin rs w'. run_agent (n + 2) env ?a ctx emit ps w = Some (fin, rs, w')" using max by (rule run_returns)
  then obtain fin rs w' where run: "run_agent (n + 2) env ?a ctx emit ps w = Some (fin, rs, w')" by blast
  obtain result e where fin: "fin = (result, e)" by fastforce
  have "length (llm_calls (rs_spans rs)) \<le> Suc n \<and> rp_iterations (rs_run rs) = length (llm_calls (rs_spans rs))"
    using run
  proof (cases rule: run_agent_cases)
    case (failed e0 rs1 w1)
    note f = failed(2) [unfolded fin]
    from prepareSession_failed [OF failed(1)] finishRun_spec(1,3) [OF f]
    show ?thesis by (simp add: init_run_state_def)
  next
    case (ended st fin0 st')
    note f = ended(3) [unfolded fin] and inv = run_reach_inv [OF ended(1)]
    note p = loop_pass_inv [OF ended(2) inv]
    have "int (ls_iteration st) \<le> int (Suc n)"
      using run_reach_iterations [OF ended(1)] max by simp
    with p(2,3) max have "ls_iteration st' \<le> Suc n" by (cases "ls_iteration st' = ls_iteration st") auto
    with p(1) finishRun_spec(1,3) [OF f] show ?thesis by (simp add: state_inv_def loop_inv_def)
  qed
  with run show ?thesis by blast
qed

subsection \<open>What memory receives\<close>


subsection \<open>The session and the prompts\<close>

text \<open>
  In every state a run reaches, the session is not empty, and the indexes the code slices it
  with are within it: where the messages after the summary start, what is saved, where the turn
  of the run starts, and the length of the previous prompt. No slice of the loop panics.
\<close>

theorem run_slices_in_range:
  assumes "run_reach env a ctx emit ps st"
  shows "0 < length (ls_session st) \<and> tailStart (ls_rs st) \<le> length (ls_session st) \<and>
    rs_saved_to (ls_rs st) \<le> length (ls_session st) \<and> ls_index st \<le> length (ls_session st) \<and>
    rs_prompt_len (ls_rs st) \<le> length (ls_session st)"
  using run_reach_inv [OF assms] by (simp add: state_inv_def loop_inv_def session_ok_def)

text \<open>
  C25: The call spans of a run record only what is new in each prompt, and that is enough: the
  prompt of every LLM call, also after a compaction, is rebuilt from the deltas recorded up to it.
\<close>

theorem prompts_rebuilt_from_deltas:
  assumes "run_reach env a ctx emit ps st"
  shows "case compactIfNeeded a ctx (ls_session st) (ls_index st) k (ls_rs st) (ls_world st) of
     ((prompt, idx, e), rs1, w1) \<Rightarrow>
       (case handleAgentIteration env a ctx prompt k rs1 w1 of
          (r, rs2, w2) \<Rightarrow> rebuild (llm_calls (rs_spans rs2)) = prompt)"
proof -
  from run_reach_inv [OF assms] have inv: "loop_inv a (user_input ps) (ls_iteration st)
      (ls_session st) (ls_index st) (ls_rs st)" by (simp add: state_inv_def)
  obtain prompt idx e rs1 w1 where c: "compactIfNeeded a ctx (ls_session st) (ls_index st) k (ls_rs st)
      (ls_world st) = ((prompt, idx, e), rs1, w1)" by (metis surj_pair)
  obtain r rs2 w2 where h: "handleAgentIteration env a ctx prompt k rs1 w1 = (r, rs2, w2)"
    by (metis surj_pair)
  from handleAgentIteration_inv(2) [OF h compactIfNeeded_inv(1) [OF c inv]] c h show ?thesis by simp
qed

subsection \<open>Tool calls\<close>

text \<open>
  C7: After an answer of the LLM, the session holds that answer's tool calls and their results
  paired: one tool message per call, in call order and under the call's identifier, whether the
  calls ran, failed, panicked, were unknown, stopped the run or were cut off, and in whatever
  order the scheduler ran them.
\<close>

theorem tool_results_paired:
  "case processToolCalls env a ctx session msg finish n rs w of
     (it, rs', w') \<Rightarrow>
       (\<exists>results. it_session it = session @ results \<and> length results = length (tool_calls msg) \<and>
          map tool_call_id results = map tc_id (tool_calls msg) \<and>
          list_all (\<lambda>m. role m = RoleTool) results)"
proof -
  obtain it rs' w' where p: "processToolCalls env a ctx session msg finish n rs w = (it, rs', w')"
    by (metis surj_pair)
  from processToolCalls_session [OF p] obtain results where
    r: "it_session it = session @ results" "tool_results_for (tool_calls msg) results" by blast
  have l: "list_all2 (\<lambda>m tc. role m = RoleTool \<and> tool_call_id m = tc_id tc \<and> tool_calls m = [])
      results (tool_calls msg)" using r(2) by (simp add: tool_results_for_def)
  have "map tool_call_id results = map tc_id (tool_calls msg)"
    using l by (induction rule: list_all2_induct) auto
  moreover have "list_all (\<lambda>m. role m = RoleTool) results"
    using l by (induction rule: list_all2_induct) auto
  ultimately show ?thesis using p r(1) list_all2_lengthD [OF l] by auto
qed

text \<open>
  C12: An exclusive tool runs alone: every call of the round runs once, and the calls before an
  exclusive one finish before it starts, those after it start once it has finished.
\<close>

theorem exclusive_calls_run_alone:
  "case runToolCalls env a ctx calls n rs w of
     (tr, rs', w') \<Rightarrow> order_ok (exclusive_at a calls) (length calls) (tr_finished tr)"
  using runToolCalls_ok(2) by (metis (no_types, lifting) case_prodI2)

text \<open>
  The tool calls of an answer cut off at the output limit are not run: without a consumer the
  world does not change, each call gets the error result that asks to retry, and the
  run goes on.
\<close>

theorem truncated_calls_not_run:
  "case processToolCalls env a ctx session (AssistantMessage ps (tc # tcs)) FinishLength n
          (rs\<lparr>rs_emit := None\<rparr>) w of
     (it, rs', w') \<Rightarrow>
       w' = w \<and> it_result it = None \<and> it_stop it = None \<and>
       it_session it = session @ map truncated_result (tc # tcs) \<and>
       list_all (\<lambda>m. role m = RoleTool \<and> tool_error m) (map truncated_result (tc # tcs))"
proof -
  let ?m = "AssistantMessage ps (tc # tcs)"
  obtain it rs' w' where p: "processToolCalls env a ctx session ?m FinishLength n (rs\<lparr>rs_emit := None\<rparr>) w
      = (it, rs', w')" by (metis surj_pair)
  have "tool_calls ?m \<noteq> []" by simp
  from processToolCalls_truncated [OF this p] p show ?thesis
    by (simp add: truncated_result_def list_all_iff)
qed

subsection \<open>Compaction\<close>



subsection \<open>A concrete run\<close>

text \<open>
  A world that counts calls; an LLM that first calls the tool \<open>t\<close> and then answers; an agent with
  that tool. After one pass its session holds the prompt, the input, the call and its result.
\<close>

definition ex_ctx :: "nat goctx" where
  "ex_ctx = \<lparr>ctx_err = (\<lambda>_. None), ctx_cause = (\<lambda>_. None), ctx_run = None, ctx_call = None\<rparr>"

definition ex_call :: tool_call where
  "ex_call = \<lparr>tc_id = ''c1'', tc_type = [], tc_function = \<lparr>fc_name = ''t'', fc_arguments = []\<rparr>\<rparr>"

definition ex_llm :: "nat llm" where
  "ex_llm = llm_func (\<lambda>ctx ms os w.
     (Inr (Some (empty_result\<lparr>res_message :=
        Some (if w = 0 then AssistantMessage [] [ex_call] else AssistantMessage [Text ''ok''] [])\<rparr>)),
      Suc w))"

definition ex_tool :: "nat tool" where
  "ex_tool = \<lparr>tl_info = \<lparr>ti_name = ''t'', ti_description = [], ti_input_schema = None,
      ti_loose_schema = None, ti_strict = False, ti_exclusive = True\<rparr>,
    tl_handle = (\<lambda>ctx args w. (Returned (Inr (VString ''r'')), Suc w)), tl_middlewares = []\<rparr>"

definition ex_agent :: "nat agent" where
  "ex_agent = \<lparr>ag_llm = ex_llm, ag_name = ''a'', ag_description = ''d'', ag_max_iterations = 3,
     ag_tools = [ex_tool], ag_response_format = None, ag_memory = None, ag_handoffs = Map.empty,
     ag_compactor = None, ag_compact_at = 0, ag_checkpoint = False, ag_max_parallel = 0\<rparr>"

definition ex_env :: "nat agent_env" where
  "ex_env = \<lparr>env_decode_handoff = (\<lambda>_. Inr []), env_handoff_schema = (\<lambda>_. Inr (JNull, JNull)),
     env_sched = (\<lambda>_ is. rev is), env_run_id = ''r1''\<rparr>"

definition ex_start :: "nat loop_state" where
  "ex_start = start_state [SystemMessage ''d'', UserMessage [Text ''hi'']] 1
     (init_run_state ex_agent None [Text ''hi'']) 0"

definition ex_next :: "nat loop_state" where
  "ex_next = snd (loop_pass ex_env ex_agent ex_ctx ex_start)"

lemma ex_reach_start: "run_reach ex_env ex_agent ex_ctx None [Text ''hi''] ex_start"
proof -
  have "nonBlankParts [Text ''hi''] = [Text ''hi'']" by code_simp
  then have "prepareSession ex_agent ex_ctx [Text ''hi''] (init_run_state ex_agent None [Text ''hi'']) 0 =
      (Inr ([SystemMessage ''d'', UserMessage [Text ''hi'']], 1),
       init_run_state ex_agent None [Text ''hi''], 0)"
    by (simp add: prepareSession_def ex_agent_def)
  then show ?thesis unfolding ex_start_def by (rule run_reach.start)
qed

lemma ex_pass: "fst (loop_pass ex_env ex_agent ex_ctx ex_start) = None"
  by code_simp

lemma ex_reach_next: "run_reach ex_env ex_agent ex_ctx None [Text ''hi''] ex_next"
  using ex_reach_start by (rule run_reach.pass) (simp add: ex_next_def ex_pass prod_eq_iff)

lemma ex_next_session: "map role (ls_session ex_next) = [RoleSystem, RoleUser, RoleAssistant, RoleTool]"
  by code_simp

text \<open>The two properties above at the second iteration of this run.\<close>

theorem run_slices_in_range_witness:
  "map role (ls_session ex_next) = [RoleSystem, RoleUser, RoleAssistant, RoleTool] \<and>
   tailStart (ls_rs ex_next) \<le> length (ls_session ex_next) \<and>
   rs_prompt_len (ls_rs ex_next) \<le> length (ls_session ex_next)"
  using run_slices_in_range [OF ex_reach_next] ex_next_session by blast

theorem prompts_rebuilt_from_deltas_witness:
  "case compactIfNeeded ex_agent ex_ctx (ls_session ex_next) (ls_index ex_next) 2 (ls_rs ex_next) (ls_world ex_next) of
     ((prompt, idx, e), rs1, w1) \<Rightarrow>
       (case handleAgentIteration ex_env ex_agent ex_ctx prompt 2 rs1 w1 of
          (r, rs2, w2) \<Rightarrow> rebuild (llm_calls (rs_spans rs2)) = prompt)"
  by (rule prompts_rebuilt_from_deltas [OF ex_reach_next])

end
