(* ===== verification/Go_Path.thy ===== *)
theory Go_Path
  imports Go_Base
begin

section \<open>Slash-separated paths\<close>

text \<open>
  The lexical functions of \<open>path\<close> and \<open>path/filepath\<close> the code calls, on a system whose
  separator is the slash. \<open>Clean\<close> is Go's rule, over the list of the path's elements: empty
  elements and \<open>.\<close> are dropped, and \<open>..\<close> removes the element before it, is dropped at the
  root, and is kept at the start of a relative path. The lemmas bound the length of the result, which
  is what makes a walk up the directories of a path end.
\<close>

definition slash :: string where
  "slash = ''/''"

definition IsAbs :: "string \<Rightarrow> bool" where
  "IsAbs p = has_prefix p slash"

text \<open>The elements kept so far are a stack, last first.\<close>

fun clean_elems :: "bool \<Rightarrow> string list \<Rightarrow> string list \<Rightarrow> string list" where
  "clean_elems rooted st [] = rev st"
| "clean_elems rooted st (c # cs) =
     (if c = [] \<or> c = ''.'' then clean_elems rooted st cs
      else if c = ''..'' then
        (case st of
           [] \<Rightarrow> if rooted then clean_elems rooted [] cs else clean_elems rooted [''..''] cs
         | d # ds \<Rightarrow>
             if d = ''..'' then clean_elems rooted (c # st) cs else clean_elems rooted ds cs)
      else clean_elems rooted (c # st) cs)"

definition Clean :: "string \<Rightarrow> string" where
  "Clean p =
     (if IsAbs p then slash @ go_join (clean_elems True [] (go_split (drop 1 p) slash)) slash
      else (let q = go_join (clean_elems False [] (go_split p slash)) slash in
        if q = [] then ''.'' else q))"

text \<open>\<open>Join\<close> skips the empty elements before the first other one; it is empty when all are.\<close>

definition Join :: "string list \<Rightarrow> string" where
  "Join es =
     (case dropWhile (\<lambda>e. e = []) es of
        [] \<Rightarrow> []
      | ds \<Rightarrow> Clean (go_join ds slash))"

definition Dir :: "string \<Rightarrow> string" where
  "Dir p = Clean (drop_while_end (\<lambda>c. c \<noteq> CHR ''/'') p)"

definition Base :: "string \<Rightarrow> string" where
  "Base p =
     (if p = [] then ''.''
      else (let q = drop_while_end (\<lambda>c. c = CHR ''/'') p;
                b = rev (takeWhile (\<lambda>c. c \<noteq> CHR ''/'') (rev q))
            in if b = [] then slash else b))"

subsection \<open>Lengths\<close>

definition elems_size :: "string list \<Rightarrow> nat" where
  "elems_size cs = sum_list (map (\<lambda>c. length c + 1) cs)"

lemma elems_size_simps [simp]:
  "elems_size [] = 0" "elems_size (c # cs) = length c + 1 + elems_size cs"
  "elems_size (as @ bs) = elems_size as + elems_size bs" "elems_size (rev as) = elems_size as"
  by (simp_all add: elems_size_def rev_map[symmetric])

lemma length_go_join: "cs \<noteq> [] \<Longrightarrow> length (go_join cs slash) + 1 = elems_size cs"
  by (induction cs) (case_tac cs; simp add: go_join_Cons slash_def)+

lemma go_split_slash: "go_join (go_split p slash) slash = p" "go_split p slash \<noteq> []"
  by (rule join_go_split) (simp add: go_split_def slash_def)

lemma elems_size_split: "elems_size (go_split p slash) = length p + 1"
  using length_go_join[OF go_split_slash(2), of p] go_split_slash(1)[of p] by simp

lemma clean_elems_size:
  "elems_size (clean_elems r st cs) \<le> elems_size st + elems_size cs \<and>
   (elems_size (clean_elems r st cs) = elems_size st + elems_size cs \<longrightarrow>
      clean_elems r st cs = rev st @ cs)"
proof (induction r st cs rule: clean_elems.induct)
  case (2 r st c cs)
  then show ?case by (cases st) (auto split: if_splits)
qed simp

lemma Clean_cases:
  obtains (root) q cs where "p = slash @ q" "Clean p = slash @ go_join cs slash"
      "elems_size cs \<le> length q + 1" "elems_size cs = length q + 1 \<longrightarrow> cs = go_split q slash"
  | (rel) cs where "Clean p = (if go_join cs slash = [] then ''.'' else go_join cs slash)"
      "elems_size cs \<le> length p + 1" "elems_size cs = length p + 1 \<longrightarrow> cs = go_split p slash"
proof (cases "IsAbs p")
  case True
  then obtain q where p: "p = slash @ q" by (auto simp: IsAbs_def has_prefix_iff)
  have "Clean p = slash @ go_join (clean_elems True [] (go_split q slash)) slash"
    using True by (simp add: Clean_def p slash_def)
  then show ?thesis
    using root[OF p] clean_elems_size[of True "[]" "go_split q slash"] by (simp add: elems_size_split)
next
  case False
  then have "Clean p = (let q = go_join (clean_elems False [] (go_split p slash)) slash in
      if q = [] then ''.'' else q)"
    by (simp add: Clean_def)
  then show ?thesis
    using rel clean_elems_size[of False "[]" "go_split p slash"]
    by (simp add: elems_size_split Let_def)
qed

lemma Clean_length:
  assumes "p \<noteq> []"
  shows "length (Clean p) \<le> length p"
proof (cases rule: Clean_cases[of p])
  case (root q cs)
  then show ?thesis using length_go_join[of cs] by (cases "cs = []") auto
next
  case (rel cs)
  then show ?thesis using length_go_join[of cs] assms by (cases "cs = []") (auto simp: Suc_le_eq)
qed

lemma Clean_same:
  assumes "length (Clean p) = length p"
  shows "Clean p = p \<or> Clean p = ''.''"
proof (cases rule: Clean_cases[of p])
  case (root q cs)
  show ?thesis
  proof (cases "cs = []")
    case False
    have len: "length (Clean p) = length slash + length (go_join cs slash)"
        "length p = length slash + length q"
      using arg_cong[OF root(2), of length] arg_cong[OF root(1), of length] by simp_all
    then have "elems_size cs = length q + 1" using assms length_go_join[OF False] by simp
    then have "cs = go_split q slash" using root by blast
    then show ?thesis using root(1,2) go_split_slash(1)[of q] by metis
  qed (use assms root in auto)
next
  case (rel cs)
  show ?thesis
  proof (cases "go_join cs slash = []")
    case False
    then have "cs \<noteq> []" by auto
    then have "elems_size cs = length p + 1" using assms length_go_join[of cs] False rel(1) by simp
    then show ?thesis using False rel by (simp add: go_split_slash)
  qed (simp add: rel)
qed

text \<open>A walk from a path to its parent directory ends: this measure goes down at every step.\<close>

definition path_height :: "string \<Rightarrow> nat" where
  "path_height p = (if p = ''.'' then 0 else length p + 1)"

lemma drop_while_end_prefix: "\<exists>t. xs = drop_while_end P xs @ t"
  by (metis drop_while_end_def rev_append rev_rev_ident takeWhile_dropWhile_id)

lemma drop_while_end_idem [simp]: "drop_while_end P (drop_while_end P xs) = drop_while_end P xs"
  by (simp add: drop_while_end_def)

lemma Dir_lower: "Dir p \<noteq> p \<Longrightarrow> path_height (Dir p) < path_height p"
proof -
  assume ne: "Dir p \<noteq> p"
  define d where "d = drop_while_end (\<lambda>c. c \<noteq> CHR ''/'') p"
  have Dir: "Dir p = Clean d" by (simp add: Dir_def d_def)
  obtain t where t: "p = d @ t" using drop_while_end_prefix d_def by metis
  have dot: "Clean [] = ''.''" by (simp add: Clean_def IsAbs_def has_prefix_def slash_def go_split_def split_sep.simps)
  show ?thesis
  proof (cases "Clean d = ''.''")
    case True
    then show ?thesis using ne by (simp add: Dir path_height_def)
  next
    case False
    then have "d \<noteq> []" using dot by auto
    then have le: "length (Clean d) \<le> length d" by (rule Clean_length)
    have pd: "p \<noteq> ''.''"
    proof
      assume "p = ''.''"
      then have "d = []" by (simp add: d_def drop_while_end_def)
      then show False using \<open>d \<noteq> []\<close> by simp
    qed
    show ?thesis
    proof (cases "length (Clean d) = length p")
      case True
      then have "length d = length p" "t = []" using le t by auto
      then have "Clean d = d" using True Clean_same[of d] False by simp
      then show ?thesis using ne \<open>t = []\<close> t Dir by simp
    next
      case False
      moreover have "length d \<le> length p" using t by simp
      ultimately show ?thesis
        using le pd \<open>Clean d \<noteq> ''.''\<close> by (simp add: Dir path_height_def)
    qed
  qed
qed

end
