(* ===== verification/Permission_Rules.thy ===== *)
theory Permission_Rules
  imports Llm Go_Path
begin

section \<open>Permission rules\<close>

text \<open>
  \<open>tool/permission/rule.go\<close> and \<open>skill.go\<close>: the rules of a permission policy, the wildcard
  patterns they are compiled to, and the grants a skill may ask for.

  A pattern is compiled to the regular expression \<open>^p1.*p2.*...$\<close>, where \<open>p1\<close>, \<open>p2\<close>... are
  the quoted texts between its stars. In Go \<open>.\<close> is any character but a newline, and an invalid
  byte counts as one character, so on the bytes of a text \<open>.*\<close> is any run without a newline: the
  texts of a pattern are valid UTF-8 (\<open>MustCompile\<close> panics on others), which can only match at a
  character boundary. Under \<open>(?i)\<close> letters are compared after case folding; the model folds the
  letters of ASCII and the two other characters that fold to them (the Kelvin sign and the long s),
  which is all that a pattern in ASCII can tell.
\<close>

datatype decision = Ask | Allow | Deny

definition decision_String :: "decision \<Rightarrow> string" where
  "decision_String d = (case d of Allow \<Rightarrow> ''allow'' | Deny \<Rightarrow> ''deny'' | Ask \<Rightarrow> ''ask'')"

subsection \<open>Wildcards\<close>

definition newline :: char where
  "newline = CHR 0x0A"

definition lower_char :: "char \<Rightarrow> char" where
  "lower_char c = (if 65 \<le> byte c \<and> byte c \<le> 90 then char_of (byte c + 32) else c)"

fun fold_case :: "string \<Rightarrow> string" where
  "fold_case [] = []"
| "fold_case (c # cs) =
     (if byte c = 0xE2 \<and> map byte (take 2 cs) = [0x84, 0xAA] then CHR ''k'' # fold_case (drop 2 cs)
      else if byte c = 0xC5 \<and> map byte (take 1 cs) = [0xBF] then CHR ''s'' # fold_case (drop 1 cs)
      else lower_char c # fold_case cs)"

definition valid_utf8 :: "string \<Rightarrow> bool" where
  "valid_utf8 s = list_all (\<lambda>ch. 1 < length ch \<or> byte (hd ch) < 128) (utf8_chunks s)"

text \<open>A compiled pattern: whether case is ignored, and the texts between the stars.\<close>

record wildcard =
  wc_fold :: bool
  wc_parts :: "string list"

definition compileWildcard :: "bool \<Rightarrow> string \<Rightarrow> wildcard outcome" where
  "compileWildcard fold_flag pattern =
     (if valid_utf8 pattern
      then Returned \<lparr>wc_fold = fold_flag, wc_parts = go_split pattern ''*''\<rparr>
      else Panicked ''regexp: Compile: invalid UTF-8'')"

text \<open>Matching the whole text: after each part but the last a run without a newline is skipped.\<close>

fun parts_match :: "string list \<Rightarrow> string \<Rightarrow> bool" where
  "parts_match [] s = (s = [])"
| "parts_match [p] s = (s = p)"
| "parts_match (p # q # ps) s =
     (has_prefix s p \<and>
      (let t = drop (length p) s in
         list_ex (\<lambda>k. parts_match (q # ps) (drop k t))
           [0..<Suc (length (takeWhile (\<lambda>c. c \<noteq> newline) t))]))"

definition MatchString :: "wildcard \<Rightarrow> string \<Rightarrow> bool" where
  "MatchString rx s =
     (if wc_fold rx then parts_match (map fold_case (wc_parts rx)) (fold_case s)
      else parts_match (wc_parts rx) s)"

subsection \<open>Rules\<close>

record rule =
  r_spec :: string
  r_decision :: decision
  r_tool :: wildcard
  r_subject :: "wildcard option"

definition suffixWildcard :: "string \<Rightarrow> string" where
  "suffixWildcard pattern = (if has_suffix pattern '':*'' then ''*'' else [])"

definition invalid_rule :: "string \<Rightarrow> string \<Rightarrow> err" where
  "invalid_rule spec why =
     errorf1 (Sentinel (PermissionE ErrInvalidRule)) ('' '' @ go_quote spec @ '': '' @ why)"

definition parseRule ::
  "string \<Rightarrow> decision \<Rightarrow> (string \<Rightarrow> string \<Rightarrow> string) \<Rightarrow> (err + rule) outcome" where
  "parseRule spec0 dec resolve =
     (let spec = trim_space spec0; (name0, pattern0, hasPattern) = go_cut spec ''('' in
        if hasPattern \<and> \<not> has_suffix pattern0 '')''
        then Returned (Inl (invalid_rule spec ''missing closing parenthesis''))
        else (let pattern = (if hasPattern then trim_suffix pattern0 '')'' else pattern0);
                  name = trim_space name0 in
          if name = [] then Returned (Inl (invalid_rule spec ''missing tool name''))
          else (case compileWildcard True name of
              Panicked v \<Rightarrow> Panicked v
            | Returned tool \<Rightarrow>
                if \<not> hasPattern
                then Returned (Inr \<lparr>r_spec = spec, r_decision = dec, r_tool = tool, r_subject = None\<rparr>)
                else (case compileWildcard False
                         (resolve name (trim_suffix pattern '':*'' @ suffixWildcard pattern)) of
                    Panicked v \<Rightarrow> Panicked v
                  | Returned subj \<Rightarrow>
                      Returned (Inr \<lparr>r_spec = spec, r_decision = dec, r_tool = tool,
                        r_subject = Some subj\<rparr>)))))"

definition rule_matches :: "rule \<Rightarrow> string \<Rightarrow> string \<Rightarrow> bool" where
  "rule_matches r tool subject =
     (MatchString (r_tool r) tool \<and>
      (case r_subject r of None \<Rightarrow> True | Some rx \<Rightarrow> MatchString rx subject))"

subsection \<open>Grants of a skill\<close>

definition bashTool :: string where
  "bashTool = ''bash''"

definition launchers :: string where
  "launchers =
     ''sh bash zsh dash ksh mksh ash tcsh csh fish pwsh powershell busybox '' @
     ''env sudo su doas eval exec xargs nohup timeout nice time command builtin chroot setsid stdbuf '' @
     ''script watch strace ltrace gdb '' @
     ''python node perl ruby php lua awk gawk mawk find''"

definition subcommandTools :: string where
  "subcommandTools = ''git''"

definition plainCommand :: "string \<Rightarrow> bool" where
  "plainCommand s =
     (s \<noteq> [] \<and> list_all (\<lambda>c. 65 \<le> byte c \<and> byte c \<le> 90 \<or> 97 \<le> byte c \<and> byte c \<le> 122 \<or>
        is_digit c \<or> c \<in> set ''_./+-'') s)"

definition broadBashGrant :: "string \<Rightarrow> bool outcome" where
  "broadBashGrant spec =
     (let (name0, pattern0, hasPattern) = go_cut (trim_space spec) ''(''; name = trim_space name0 in
        case compileWildcard True name of
          Panicked v \<Rightarrow> Panicked v
        | Returned rx \<Rightarrow>
            if \<not> MatchString rx bashTool then Returned False
            else if go_contains name ''*'' \<or> \<not> hasPattern then Returned True
            else (let pattern = trim_suffix (trim_suffix pattern0 '')'') '':*'' in
              case go_fields pattern of
                [] \<Rightarrow> Returned True
              | f # fs \<Rightarrow>
                  if \<not> plainCommand f then Returned True
                  else (let base = Base f;
                            unversioned = drop_while_end (\<lambda>c. is_digit c \<or> c = CHR ''.'') base;
                            cmd = (if unversioned \<noteq> [] then unversioned else base) in
                    if cmd \<in> set (go_fields subcommandTools) \<and>
                       (case fs of [] \<Rightarrow> True | g # gs \<Rightarrow> has_prefix g ''-'' \<or> go_contains g ''*'')
                    then Returned True
                    else Returned (cmd \<in> set (go_fields launchers)))))"

text \<open>The two result lists grow in the order of the specs.\<close>

fun skill_grants_loop ::
  "string list \<Rightarrow> string list \<Rightarrow> string list \<Rightarrow> (string list \<times> string list) outcome" where
  "skill_grants_loop granted refused [] = Returned (granted, refused)"
| "skill_grants_loop granted refused (spec # specs) =
     (case broadBashGrant spec of
        Panicked v \<Rightarrow> Panicked v
      | Returned broad \<Rightarrow>
          if broad then skill_grants_loop granted (refused @ [spec]) specs
          else skill_grants_loop (granted @ [spec]) refused specs)"

definition SkillGrants :: "string list \<Rightarrow> (string list \<times> string list) outcome" where
  "SkillGrants specs = skill_grants_loop [] [] specs"

lemma launcher_words:
  "go_fields launchers =
     [''sh'', ''bash'', ''zsh'', ''dash'', ''ksh'', ''mksh'', ''ash'', ''tcsh'', ''csh'', ''fish'', ''pwsh'',
      ''powershell'', ''busybox'', ''env'', ''sudo'', ''su'', ''doas'', ''eval'', ''exec'', ''xargs'',
      ''nohup'', ''timeout'', ''nice'', ''time'', ''command'', ''builtin'', ''chroot'', ''setsid'',
      ''stdbuf'', ''script'', ''watch'', ''strace'', ''ltrace'', ''gdb'', ''python'', ''node'', ''perl'',
      ''ruby'', ''php'', ''lua'', ''awk'', ''gawk'', ''mawk'', ''find'']"
  by (simp add: launchers_def go_fields_def utf8_chunks_ascii is_space_def byte_def)

subsection \<open>What a wildcard matches\<close>

text \<open>
  The reference: a pattern with each star, from the left, replaced by the next of a list of texts.
\<close>

fun fill :: "string \<Rightarrow> string list \<Rightarrow> string" where
  "fill [] gs = []"
| "fill (c # cs) gs =
     (if c = CHR ''*'' then (case gs of [] \<Rightarrow> fill cs [] | g # gs' \<Rightarrow> g @ fill cs gs')
      else c # fill cs gs)"

definition star_runs :: "string \<Rightarrow> string list \<Rightarrow> bool" where
  "star_runs pattern gs \<longleftrightarrow>
     length gs = count_list pattern (CHR ''*'') \<and> list_all (\<lambda>g. newline \<notin> set g) gs"

text \<open>Splitting at a one-character separator, character by character.\<close>

lemma go_index_char:
  "go_index (c # cs) [x] = (if c = x then Some 0 else map_option Suc (go_index cs [x]))"
  by (simp add: has_prefix_def)

lemma split_char_Nil: "split_sep [] [x] = [[]]"
  by (subst split_sep.simps) simp

lemma split_char_Cons:
  "split_sep (c # cs) [x] =
     (if c = x then [] # split_sep cs [x]
      else (c # hd (split_sep cs [x])) # tl (split_sep cs [x]))"
proof (cases "go_index cs [x]")
  case None
  then have "split_sep cs [x] = [cs]" by (subst split_sep.simps) simp
  then show ?thesis using None
    by (subst split_sep.simps) (simp add: go_index_char del: go_index.simps)
next
  case (Some i)
  then have "split_sep cs [x] = take i cs # split_sep (drop (i + 1) cs) [x]"
    by (subst split_sep.simps) simp
  then show ?thesis using Some
    by (subst split_sep.simps) (simp add: go_index_char del: go_index.simps)
qed

lemma split_char_length: "length (split_sep s [x]) = Suc (count_list s x)"
  by (induction s) (auto simp: split_char_Nil split_char_Cons length_tl)

text \<open>The texts of a pattern with the texts for its stars between them.\<close>

fun mix :: "string list \<Rightarrow> string list \<Rightarrow> string" where
  "mix [] gs = []"
| "mix [p] gs = p"
| "mix (p # q # ps) gs = (case gs of [] \<Rightarrow> p @ mix (q # ps) [] | g # gs' \<Rightarrow> p @ g @ mix (q # ps) gs')"

lemma mix_head: "mix ((c # hd ps) # tl ps) gs = c # mix (hd ps # tl ps) gs"
  by (cases "tl ps") (simp_all split: list.split)

lemma fill_mix: "fill p gs = mix (split_sep p ''*'') gs"
proof (induction p arbitrary: gs)
  case (Cons c cs)
  obtain q qs where q: "split_sep cs ''*'' = q # qs"
    by (metis split_sep_nonempty neq_Nil_conv)
  then show ?case
    using Cons mix_head[of c "q # qs" gs] by (auto simp: split_char_Cons split: list.split)
qed (simp add: split_char_Nil)

lemma no_newline_prefix:
  "k \<le> length (takeWhile (\<lambda>c. c \<noteq> newline) t) \<Longrightarrow> newline \<notin> set (take k t)"
  by (metis (mono_tags) in_set_takeD min.absorb1 set_takeWhileD takeWhile_eq_take take_take)

lemma parts_match_mix:
  "ps \<noteq> [] \<Longrightarrow> parts_match ps s \<longleftrightarrow>
     (\<exists>gs. length ps = Suc (length gs) \<and> list_all (\<lambda>g. newline \<notin> set g) gs \<and> s = mix ps gs)"
proof (induction ps arbitrary: s rule: induct_list012)
  case (3 p q ps)
  note IH = "3.IH"(2)[simplified]
  have "parts_match (p # q # ps) s \<longleftrightarrow>
    (\<exists>t k. s = p @ t \<and> k \<le> length (takeWhile (\<lambda>c. c \<noteq> newline) t) \<and> parts_match (q # ps) (drop k t))"
    by (fastforce simp: list_ex_iff has_prefix_iff Let_def less_Suc_eq_le simp del: upt_Suc)
  also have "\<dots> \<longleftrightarrow> (\<exists>t g. s = p @ g @ t \<and> newline \<notin> set g \<and> parts_match (q # ps) t)"
    (is "?A \<longleftrightarrow> ?B")
  proof
    assume ?A
    then show ?B by (metis append_take_drop_id no_newline_prefix)
  next
    assume ?B
    then obtain t g where "s = p @ g @ t" "newline \<notin> set g" "parts_match (q # ps) t" by blast
    moreover from this(2) have "length g \<le> length (takeWhile (\<lambda>c. c \<noteq> newline) (g @ t))"
      by (subst takeWhile_append2) auto
    ultimately show ?A by (intro exI[of _ "g @ t"] exI[of _ "length g"]) simp
  qed
  also have "\<dots> \<longleftrightarrow> (\<exists>gs. length (p # q # ps) = Suc (length gs) \<and>
      list_all (\<lambda>g. newline \<notin> set g) gs \<and> s = mix (p # q # ps) gs)" (is "_ \<longleftrightarrow> ?C")
  proof
    assume "\<exists>t g. s = p @ g @ t \<and> newline \<notin> set g \<and> parts_match (q # ps) t"
    then obtain t g gs where "s = p @ g @ t" "newline \<notin> set g" "length (q # ps) = Suc (length gs)"
        "list_all (\<lambda>g. newline \<notin> set g) gs" "t = mix (q # ps) gs"
      using IH by auto
    then show ?C by (intro exI[of _ "g # gs"]) simp
  next
    assume ?C
    then obtain hs where hs: "length (p # q # ps) = Suc (length hs)"
        "list_all (\<lambda>g. newline \<notin> set g) hs" "s = mix (p # q # ps) hs" by blast
    then obtain g gs where "hs = g # gs" by (cases hs) auto
    then have "length (q # ps) = Suc (length gs)" "newline \<notin> set g"
        "list_all (\<lambda>g. newline \<notin> set g) gs" "s = p @ g @ mix (q # ps) gs"
      using hs by simp_all
    then show "\<exists>t g. s = p @ g @ t \<and> newline \<notin> set g \<and> parts_match (q # ps) t"
      using IH by auto
  qed
  finally show ?case .
qed auto

lemma go_split_star: "go_split p ''*'' = split_sep p ''*''"
  by (simp add: go_split_def)

text \<open>
  A compiled pattern matches exactly the texts that the pattern gives when each of its stars is
  replaced by some run of characters without a newline: slashes included, everything else as it is.
\<close>

theorem wildcard_matches_runs:
  "(case compileWildcard False pattern of
      Panicked v \<Rightarrow> valid_utf8 pattern = False
    | Returned rx \<Rightarrow>
        MatchString rx s = (\<exists>gs. star_runs pattern gs \<and> s = fill pattern gs))"
proof -
  have "parts_match (split_sep pattern ''*'') s \<longleftrightarrow>
      (\<exists>gs. star_runs pattern gs \<and> s = fill pattern gs)"
    by (subst parts_match_mix)
      (simp_all add: split_char_length star_runs_def fill_mix eq_commute[of "count_list _ _"])
  then show ?thesis by (simp add: compileWildcard_def MatchString_def go_split_star)
qed

text \<open>
  A pattern without a newline never matches a subject that contains one. So a deny rule such as
  \<open>bash(rm *)\<close> does not stop a command whose quoted argument holds a newline, although a star is
  documented to match any run of characters.
\<close>

theorem newline_escapes_patterns:
  assumes "compileWildcard False pattern = Returned rx" "newline \<notin> set pattern" "newline \<in> set s"
  shows "\<not> MatchString rx s"
proof
  assume m: "MatchString rx s"
  have rx: "rx = \<lparr>wc_fold = False, wc_parts = split_sep pattern ''*''\<rparr>"
    using assms(1) by (auto simp: compileWildcard_def go_split_star split: if_splits)
  have fill: "newline \<notin> set (fill q gs)"
    if "newline \<notin> set q" "list_all (\<lambda>g. newline \<notin> set g) gs" for q gs
    using that by (induction q gs rule: fill.induct) (auto split: list.split)
  obtain gs where "list_all (\<lambda>g. newline \<notin> set g) gs" "s = fill pattern gs"
    using m by (auto simp: rx MatchString_def parts_match_mix fill_mix)
  then show False using fill assms(2,3) by blast
qed

theorem newline_escapes_patterns_witness:
  "\<exists>rx. compileWildcard False ''rm *'' = Returned rx \<and>
     \<not> MatchString rx (''rm -rf /home '' @ [newline])"
proof (intro exI conjI)
  show rx: "compileWildcard False ''rm *'' =
      Returned \<lparr>wc_fold = False, wc_parts = [''rm '', []]\<rparr>"
    by code_simp
  show "\<not> MatchString \<lparr>wc_fold = False, wc_parts = [''rm '', []]\<rparr> (''rm -rf /home '' @ [newline])"
    by (rule newline_escapes_patterns[OF rx]) code_simp+
qed

lemma grant_examples:
  "broadBashGrant ''Bash(s:*)'' = Returned False"
  "broadBashGrant ''Bash(sudo:*)'' = Returned True"
  "broadBashGrant ''Bash(git -c *)'' = Returned True"
  unfolding broadBashGrant_def launcher_words by code_simp+

text \<open>
  A skill may be granted bash at large: \<open>SkillGrants\<close> refuses \<open>Bash(sudo:*)\<close> but accepts
  \<open>Bash(s:*)\<close>, since \<open>s\<close> is a plain command and no launcher, and the rule it is parsed to matches
  every command line that starts with an \<open>s\<close>, such as one run by \<open>sudo\<close> or \<open>sh\<close>.
\<close>

theorem grant_covers_launchers:
  "SkillGrants [''Bash(s:*)'', ''Bash(sudo:*)''] = Returned ([''Bash(s:*)''], [''Bash(sudo:*)'']) \<and>
   (case parseRule ''Bash(s:*)'' Allow (\<lambda>_ p. p) of
      Returned (Inr r) \<Rightarrow>
        rule_matches r ''bash'' ''sudo rm -rf /'' \<and> rule_matches r ''bash'' ''sh -c evil''
    | _ \<Rightarrow> False)"
proof
  show "SkillGrants [''Bash(s:*)'', ''Bash(sudo:*)''] = Returned ([''Bash(s:*)''], [''Bash(sudo:*)''])"
    by (simp add: SkillGrants_def grant_examples)
qed code_simp

end
