(* ===== verification/Permission_Shell.thy ===== *)
theory Permission_Shell
  imports Permission_Rules
begin

section \<open>Shell command lines\<close>

text \<open>
  \<open>tool/permission/shell.go\<close>: splitting a shell command line into the simple commands the rules
  judge. The parser and printer (\<open>mvdan.cc/sh\<close>) are outside the repository: the parameter \<open>parse\<close>
  gives the nodes of the syntax tree in the order \<open>syntax.Walk\<close> visits them, or nothing when the line
  does not parse. A node holds what \<open>visit\<close> reads of it: the operator and the literal target of a
  redirection, the literal text of each argument of a call (empty when it is not a plain literal), and
  what the printer makes of the call.
\<close>

datatype redir_op =
    RdrIn | Hdoc | DashHdoc | WordHdoc | DplIn | DplOut
  | RdrOut | AppOut | RdrAll | AppAll | RdrClob | OtherRedir

record redirect =
  rd_op :: redir_op
  rd_word :: "string option"

record param_exp =
  pex_index :: bool
  pex_slice :: bool
  pex_excl :: bool
  pex_other_op :: bool

datatype sh_node =
    CmdSubst | ProcSubst | ArithmExp | ArithmCmd | TestClause | LetClause | DeclClause | TestDecl
  | ParamExp param_exp
  | FuncDecl string
  | Stmt "redirect list"
  | CallExpr "string list" "string option"
  | OtherNode

definition shellOperators :: "string list" where
  "shellOperators = [''&&'', ''||'', '';'', ''|'', ''&'', [newline]]"

definition containsAny :: "string \<Rightarrow> string list \<Rightarrow> bool" where
  "containsAny s subs = list_ex (go_contains s) subs"

fun splitOperators_loop :: "string list \<Rightarrow> string list \<Rightarrow> string list" where
  "splitOperators_loop [] ps = ps"
| "splitOperators_loop (op # ops) ps =
     splitOperators_loop ops (concat (map (\<lambda>p. go_split p op) ps))"

definition splitOperators :: "string \<Rightarrow> string list" where
  "splitOperators line =
     filter (\<lambda>p. p \<noteq> []) (map trim_space (splitOperators_loop shellOperators [line]))"

text \<open>\<open>strings.Trim(target, digits)\<close> is empty when the target has digits only.\<close>

definition all_digits :: "string \<Rightarrow> bool" where
  "all_digits target = (drop_while_end is_digit (dropWhile is_digit target) = [])"

definition harmlessRedirect :: "redirect \<Rightarrow> bool" where
  "harmlessRedirect r =
     (let target = (case rd_word r of None \<Rightarrow> [] | Some t \<Rightarrow> t) in
      case rd_op r of
        RdrIn \<Rightarrow> True | Hdoc \<Rightarrow> True | DashHdoc \<Rightarrow> True | WordHdoc \<Rightarrow> True | DplIn \<Rightarrow> True
      | DplOut \<Rightarrow> target = ''-'' \<or> (target \<noteq> [] \<and> all_digits target)
      | RdrOut \<Rightarrow> target = ''/dev/null'' | AppOut \<Rightarrow> target = ''/dev/null''
      | RdrAll \<Rightarrow> target = ''/dev/null'' | AppAll \<Rightarrow> target = ''/dev/null''
      | RdrClob \<Rightarrow> target = ''/dev/null''
      | OtherRedir \<Rightarrow> False)"

record shell_scan =
  ss_commands :: "string list"
  ss_safe :: bool
  ss_funcs :: "string list"

text \<open>\<open>call\<close>: a simple command is recorded as printed; \<open>None\<close> is a printer error.\<close>

definition scan_call :: "string list \<Rightarrow> string option \<Rightarrow> shell_scan \<Rightarrow> shell_scan" where
  "scan_call args printed s =
     (case args of
        [] \<Rightarrow> s\<lparr>ss_safe := False\<rparr>
      | name # rest \<Rightarrow>
          (case printed of
             None \<Rightarrow> s\<lparr>ss_safe := False\<rparr>
           | Some t \<Rightarrow>
               (let s' = s\<lparr>ss_commands := ss_commands s @ [trim_space t]\<rparr> in
                if name = [] \<or> go_contains name [CHR 0x5C] \<or> name \<in> set (ss_funcs s')
                then s'\<lparr>ss_safe := False\<rparr> else s')))"

definition visit :: "sh_node \<Rightarrow> shell_scan \<Rightarrow> shell_scan" where
  "visit node s =
     (case node of
        CmdSubst \<Rightarrow> s\<lparr>ss_safe := False\<rparr> | ProcSubst \<Rightarrow> s\<lparr>ss_safe := False\<rparr>
      | ArithmExp \<Rightarrow> s\<lparr>ss_safe := False\<rparr> | ArithmCmd \<Rightarrow> s\<lparr>ss_safe := False\<rparr>
      | TestClause \<Rightarrow> s\<lparr>ss_safe := False\<rparr> | LetClause \<Rightarrow> s\<lparr>ss_safe := False\<rparr>
      | DeclClause \<Rightarrow> s\<lparr>ss_safe := False\<rparr> | TestDecl \<Rightarrow> s\<lparr>ss_safe := False\<rparr>
      | ParamExp p \<Rightarrow>
          if pex_index p \<or> pex_slice p \<or> pex_excl p \<or> pex_other_op p then s\<lparr>ss_safe := False\<rparr> else s
      | FuncDecl name \<Rightarrow> s\<lparr>ss_funcs := name # ss_funcs s\<rparr>
      | Stmt redirs \<Rightarrow> fold (\<lambda>r s. s\<lparr>ss_safe := ss_safe s \<and> harmlessRedirect r\<rparr>) redirs s
      | CallExpr args printed \<Rightarrow> scan_call args printed s
      | OtherNode \<Rightarrow> s)"

definition walk :: "sh_node list \<Rightarrow> shell_scan \<Rightarrow> shell_scan" where
  "walk nodes s = fold visit nodes s"

definition splitShell :: "(string \<Rightarrow> sh_node list option) \<Rightarrow> string \<Rightarrow> string list \<times> bool" where
  "splitShell parse line =
     (case parse line of
        None \<Rightarrow> (splitOperators line, False)
      | Some nodes \<Rightarrow>
          (let scan = walk nodes
             \<lparr>ss_commands = [],
              ss_safe = (\<not> go_contains line ''`'' \<and> \<not> containsAny line [''$('', ''<('', ''>('']),
              ss_funcs = []\<rparr>
           in (ss_commands scan, ss_safe scan)))"

subsection \<open>A safe line\<close>

text \<open>What one node must be for a line to stay safe, and the command it adds.\<close>

definition call_command :: "sh_node \<Rightarrow> string list" where
  "call_command node =
     (case node of CallExpr (a # as) (Some t) \<Rightarrow> [trim_space t] | _ \<Rightarrow> [])"

definition plain_node :: "sh_node \<Rightarrow> bool" where
  "plain_node node =
     (case node of
        ParamExp p \<Rightarrow> \<not> pex_index p \<and> \<not> pex_slice p \<and> \<not> pex_excl p \<and> \<not> pex_other_op p
      | FuncDecl _ \<Rightarrow> True
      | Stmt redirs \<Rightarrow> list_all harmlessRedirect redirs
      | CallExpr (name # _) (Some _) \<Rightarrow> name \<noteq> [] \<and> \<not> go_contains name [CHR 0x5C]
      | OtherNode \<Rightarrow> True
      | _ \<Rightarrow> False)"

lemma fold_redirs:
  "fold (\<lambda>r s. s\<lparr>ss_safe := ss_safe s \<and> harmlessRedirect r\<rparr>) redirs s =
     s\<lparr>ss_safe := ss_safe s \<and> list_all harmlessRedirect redirs\<rparr>"
  by (induction redirs arbitrary: s) auto

lemma visit_commands: "ss_commands (visit node s) = ss_commands s @ call_command node"
  by (auto simp: visit_def scan_call_def call_command_def fold_redirs Let_def
      split: sh_node.split list.split option.split)

lemma visit_safe: "ss_safe (visit node s) \<Longrightarrow> ss_safe s \<and> plain_node node"
  by (auto simp: visit_def scan_call_def plain_node_def fold_redirs Let_def
      split: sh_node.splits list.splits option.splits if_splits)

lemma walk_commands: "ss_commands (walk nodes s) = ss_commands s @ concat (map call_command nodes)"
  unfolding walk_def by (induction nodes arbitrary: s) (simp_all add: visit_commands)

lemma walk_safe: "ss_safe (walk nodes s) \<Longrightarrow> ss_safe s \<and> list_all plain_node nodes"
  unfolding walk_def by (induction nodes arbitrary: s) (auto dest: visit_safe)

end
