(* ===== verification/Permission.thy ===== *)
theory Permission
  imports Permission_Shell "HOL-Library.AList" "HOL-Library.List_Lexorder" "HOL-Library.Char_ord"
begin

section \<open>The permission policy\<close>

text \<open>
  \<open>tool/permission/permission.go\<close>: the policy that decides, before a tool call runs, whether it is
  allowed, denied or put to a person. A policy has fixed settings (\<open>'w policy\<close>) and state that
  changes while it is in use (\<open>pstate\<close>): its rules, the subjects an "always" answer allows, the
  rules granted for one run, and the runs whose end will drop them. The state lives beside the rest
  of the world, so an asker, which runs with no lock held, may change it.

  What is outside the code is in \<open>perm_env\<close>: the members \<open>encoding/json\<close> decodes from the
  arguments, in order, up to the first error, each with the value \<open>json.Unmarshal\<close> gives a string
  (empty for a value that is no string); the shell parser; \<open>filepath.EvalSymlinks\<close>; the working and
  home directories of the process; and what other goroutines do to the world while a question waits
  for its turn. A map from strings with a lookup only is a function, one whose keys are listed an
  association list.
\<close>

datatype answer = Reject | AllowOnce | AllowAlways

datatype reason = ReasonNoRule | ReasonAskRule | ReasonOpaque

definition reason_String :: "reason \<Rightarrow> string" where
  "reason_String r =
     (case r of ReasonNoRule \<Rightarrow> ''no rule'' | ReasonAskRule \<Rightarrow> ''ask rule''
      | ReasonOpaque \<Rightarrow> ''opaque command'')"

record request =
  rq_tool :: string
  rq_call_id :: string
  rq_arguments :: string
  rq_subject :: string
  rq_raw :: string
  rq_subjects :: "string list option"
  rq_reason :: reason

record pstate =
  ps_rules :: "rule list"
  ps_always :: "(string \<times> string list) list"
  ps_run_rules :: "(string \<times> rule list) list"
  ps_after_end :: "string list"

type_synonym 'w asker =
  "(pstate \<times> 'w) goctx \<Rightarrow> request \<Rightarrow> pstate \<times> 'w \<Rightarrow> (err + answer) \<times> (pstate \<times> 'w)"

record 'w policy =
  pl_specs :: "(string \<times> decision) list"
  pl_fallback :: decision
  pl_asker :: "'w asker option"
  pl_args :: "string \<rightharpoonup> string"
  pl_working_dir :: string
  pl_home :: string

record 'w perm_env =
  en_members :: "string \<Rightarrow> (string \<times> string) list"
  en_parse :: "string \<Rightarrow> sh_node list option"
  en_eval_symlinks :: "'w \<Rightarrow> string \<Rightarrow> err + string"
  en_getwd :: "err + string"
  en_home_dir :: "err + string"
  en_wait_turn :: "pstate \<times> 'w \<Rightarrow> pstate \<times> 'w"

definition argFilePath :: string where "argFilePath = ''file_path''"
definition argPath :: string where "argPath = ''path''"

definition defaultSubjects :: "string \<rightharpoonup> string" where
  "defaultSubjects = map_of
     [(bashTool, ''command''), (''read'', argFilePath), (''write'', argFilePath),
      (''edit'', argFilePath), (''multi_edit'', argFilePath), (''glob'', argPath), (''grep'', argPath),
      (''web_fetch'', ''url'')]"

text \<open>\<open>strings.ToLower\<close> on ASCII and the two other characters whose lower case is in ASCII.\<close>

fun to_lower :: "string \<Rightarrow> string" where
  "to_lower [] = []"
| "to_lower (c # cs) =
     (if byte c = 0xE2 \<and> map byte (take 2 cs) = [0x84, 0xAA] then CHR ''k'' # to_lower (drop 2 cs)
      else if byte c = 0xC4 \<and> map byte (take 1 cs) = [0xB0] then CHR ''i'' # to_lower (drop 1 cs)
      else lower_char c # to_lower cs)"

text \<open>An absent key of a Go map reads as the empty string.\<close>

definition isPathTool :: "'w policy \<Rightarrow> string \<Rightarrow> bool" where
  "isPathTool p tool =
     (let arg = (case pl_args p tool of Some a \<Rightarrow> a
        | None \<Rightarrow> (case pl_args p (to_lower tool) of Some a \<Rightarrow> a | None \<Rightarrow> []))
      in arg = argFilePath \<or> arg = argPath)"

subsection \<open>Paths\<close>

definition absPath :: "'w policy \<Rightarrow> string \<Rightarrow> string" where
  "absPath p path0 =
     (let path1 = (if path0 = [] then pl_working_dir p else path0);
          path2 = (if pl_home p \<noteq> [] \<and> (path1 = ''~'' \<or> has_prefix path1 ''~/'')
                   then Join [pl_home p, trim_prefix path1 ''~''] else path1);
          path3 = (if \<not> IsAbs path2 \<and> pl_working_dir p \<noteq> [] then Join [pl_working_dir p, path2]
                   else path2)
      in Clean path3)"

text \<open>\<open>missing\<close> grows at its end; it is joined back from its last element to its first.\<close>

function resolve_loop ::
  "(string \<Rightarrow> err + string) \<Rightarrow> string \<Rightarrow> string \<Rightarrow> string list \<Rightarrow> string" where
  "resolve_loop eval path current missing =
     (case eval current of
        Inr resolved \<Rightarrow> fold (\<lambda>m r. Join [r, m]) (rev missing) resolved
      | Inl e \<Rightarrow>
          if \<not> err_is e (StdE ErrNotExist) \<or> Dir current = current then path
          else resolve_loop eval path (Dir current) (missing @ [Base current]))"
  by pat_completeness auto
termination
  by (relation "measure (\<lambda>(_, _, current, _). path_height current)") (auto intro: Dir_lower)

declare resolve_loop.simps [simp del]

definition resolveSymlinks :: "(string \<Rightarrow> err + string) \<Rightarrow> string \<Rightarrow> string" where
  "resolveSymlinks eval path = (if IsAbs path then resolve_loop eval path path [] else path)"

definition resolvePath :: "'w perm_env \<Rightarrow> 'w policy \<Rightarrow> 'w \<Rightarrow> string \<Rightarrow> string" where
  "resolvePath env p w path = resolveSymlinks (en_eval_symlinks env w) (absPath p path)"

definition last_slash :: "string \<Rightarrow> nat option" where
  "last_slash s =
     (case drop_while_end (\<lambda>c. c \<noteq> CHR ''/'') s of [] \<Rightarrow> None | c # cs \<Rightarrow> Some (length cs))"

definition resolvePattern :: "'w perm_env \<Rightarrow> 'w policy \<Rightarrow> 'w \<Rightarrow> string \<Rightarrow> string" where
  "resolvePattern env p w pattern =
     (case go_index pattern ''*'' of
        None \<Rightarrow> resolvePath env p w pattern
      | Some star \<Rightarrow>
          (case last_slash (take star pattern) of
             None \<Rightarrow> pattern
           | Some i \<Rightarrow>
               (let dir = (if take i pattern = [] then slash else take i pattern) in
                trim_suffix (resolvePath env p w dir) slash @ drop i pattern)))"

definition policy_parseRule ::
  "'w perm_env \<Rightarrow> 'w policy \<Rightarrow> 'w \<Rightarrow> string \<Rightarrow> decision \<Rightarrow> (err + rule) outcome" where
  "policy_parseRule env p w spec d =
     parseRule spec d
       (\<lambda>tool pattern. if isPathTool p tool then resolvePattern env p w pattern else pattern)"

text \<open>Parsing a list of rules stops at the first that fails.\<close>

fun parse_rules ::
  "'w perm_env \<Rightarrow> 'w policy \<Rightarrow> 'w \<Rightarrow> (string \<times> decision) list \<Rightarrow> rule list \<Rightarrow>
    (err + rule list) outcome" where
  "parse_rules env p w [] rs = Returned (Inr rs)"
| "parse_rules env p w ((spec, d) # specs) rs =
     (case policy_parseRule env p w spec d of
        Panicked v \<Rightarrow> Panicked v
      | Returned (Inl e) \<Rightarrow> Returned (Inl e)
      | Returned (Inr r) \<Rightarrow> parse_rules env p w specs (rs @ [r]))"

subsection \<open>Options and construction\<close>

type_synonym 'w policy_option = "'w policy \<Rightarrow> err + 'w policy"

definition withRules :: "decision \<Rightarrow> string list \<Rightarrow> 'w policy_option" where
  "withRules d specs p = Inr (p\<lparr>pl_specs := pl_specs p @ map (\<lambda>s. (s, d)) specs\<rparr>)"

definition WithAllow :: "string list \<Rightarrow> 'w policy_option" where
  "WithAllow = withRules Allow"
definition WithAsk :: "string list \<Rightarrow> 'w policy_option" where
  "WithAsk = withRules Ask"
definition WithDeny :: "string list \<Rightarrow> 'w policy_option" where
  "WithDeny = withRules Deny"

definition WithWorkingDir :: "'w perm_env \<Rightarrow> string \<Rightarrow> 'w policy_option" where
  "WithWorkingDir env dir p =
     (if IsAbs dir then Inr (p\<lparr>pl_working_dir := Clean dir\<rparr>)
      else (case en_getwd env of
          Inl e \<Rightarrow> Inl e
        | Inr wd \<Rightarrow> Inr (p\<lparr>pl_working_dir := Join [wd, dir]\<rparr>)))"

definition WithDefault :: "decision \<Rightarrow> 'w policy_option" where
  "WithDefault d p = Inr (p\<lparr>pl_fallback := d\<rparr>)"

definition WithAsker :: "'w asker option \<Rightarrow> 'w policy_option" where
  "WithAsker a p = Inr (p\<lparr>pl_asker := a\<rparr>)"

definition WithSubject :: "string \<Rightarrow> string \<Rightarrow> 'w policy_option" where
  "WithSubject tool argument p = Inr (p\<lparr>pl_args := (pl_args p)(tool \<mapsto> argument)\<rparr>)"

fun apply_policy_options :: "'w policy_option list \<Rightarrow> 'w policy \<Rightarrow> err + 'w policy" where
  "apply_policy_options [] p = Inr p"
| "apply_policy_options (opt # opts) p =
     (case opt p of Inl e \<Rightarrow> Inl e | Inr p' \<Rightarrow> apply_policy_options opts p')"

definition New_policy ::
  "'w perm_env \<Rightarrow> 'w policy_option list \<Rightarrow> 'w \<Rightarrow> (err + 'w policy \<times> pstate) outcome" where
  "New_policy env opts w =
     (case apply_policy_options opts
        \<lparr>pl_specs = [], pl_fallback = Ask, pl_asker = None, pl_args = defaultSubjects,
         pl_working_dir = (case en_getwd env of Inr wd \<Rightarrow> wd | Inl _ \<Rightarrow> []),
         pl_home = (case en_home_dir env of Inr h \<Rightarrow> h | Inl _ \<Rightarrow> [])\<rparr> of
        Inl e \<Rightarrow> Returned (Inl e)
      | Inr p \<Rightarrow>
          (case parse_rules env p w (pl_specs p) [] of
             Panicked v \<Rightarrow> Panicked v
           | Returned (Inl e) \<Rightarrow> Returned (Inl e)
           | Returned (Inr rs) \<Rightarrow>
               Returned (Inr (p, \<lparr>ps_rules = rs, ps_always = [], ps_run_rules = [],
                 ps_after_end = []\<rparr>))))"

subsection \<open>Changing a policy in use\<close>

definition Allow_policy ::
  "'w perm_env \<Rightarrow> 'w policy \<Rightarrow> string list \<Rightarrow> pstate \<times> 'w \<Rightarrow> (err option \<times> pstate \<times> 'w) outcome" where
  "Allow_policy env p specs sw =
     (let (st, w) = sw in
      case parse_rules env p w (map (\<lambda>s. (s, Allow)) specs) [] of
        Panicked v \<Rightarrow> Panicked v
      | Returned (Inl e) \<Rightarrow> Returned (Some e, st, w)
      | Returned (Inr rs) \<Rightarrow> Returned (None, st\<lparr>ps_rules := ps_rules st @ rs\<rparr>, w))"

definition run_rules_of :: "pstate \<Rightarrow> string \<Rightarrow> rule list" where
  "run_rules_of st i = (case map_of (ps_run_rules st) i of Some rs \<Rightarrow> rs | None \<Rightarrow> [])"

definition AllowForRun ::
  "'w perm_env \<Rightarrow> 'w policy \<Rightarrow> (pstate \<times> 'w) goctx \<Rightarrow> string list \<Rightarrow> pstate \<times> 'w \<Rightarrow>
    (err option \<times> pstate \<times> 'w) outcome" where
  "AllowForRun env p ctx specs sw =
     (let (st, w) = sw in
      case RunFromContext ctx of
        None \<Rightarrow> Returned (Some (Sentinel (PermissionE ErrNoRun)), st, w)
      | Some i \<Rightarrow>
          (case parse_rules env p w (map (\<lambda>s. (s, Allow)) specs) [] of
             Panicked v \<Rightarrow> Panicked v
           | Returned (Inl e) \<Rightarrow> Returned (Some e, st, w)
           | Returned (Inr rs) \<Rightarrow>
               (let st1 = (if map_of (ps_run_rules st) i = None
                           then st\<lparr>ps_after_end := i # ps_after_end st\<rparr> else st) in
                Returned (None,
                  st1\<lparr>ps_run_rules := AList.update i (run_rules_of st i @ rs) (ps_run_rules st1)\<rparr>, w))))"

text \<open>The end of a run calls the functions \<open>AfterEnd\<close> registered for it, once.\<close>

definition run_ended :: "string \<Rightarrow> pstate \<Rightarrow> pstate" where
  "run_ended i st =
     (if i \<in> set (ps_after_end st)
      then st\<lparr>ps_run_rules := AList.delete i (ps_run_rules st),
              ps_after_end := removeAll i (ps_after_end st)\<rparr>
      else st)"

definition always_of :: "pstate \<Rightarrow> string \<Rightarrow> string list" where
  "always_of st tool = (case map_of (ps_always st) tool of Some ss \<Rightarrow> ss | None \<Rightarrow> [])"

definition Always :: "pstate \<Rightarrow> (string \<times> string) list" where
  "Always st =
     concat (map (\<lambda>tool. map (Pair tool) (always_of st tool)) (sort (map fst (ps_always st))))"

definition Forget :: "string \<Rightarrow> string \<Rightarrow> pstate \<Rightarrow> bool \<times> pstate" where
  "Forget tool subject st =
     (if subject \<in> set (always_of st tool)
      then (let rest = remove1 subject (always_of st tool) in
        (True, st\<lparr>ps_always := (if rest = [] then AList.delete tool (ps_always st)
                               else AList.update tool rest (ps_always st))\<rparr>))
      else (False, st))"

definition runRulesFor :: "pstate \<Rightarrow> (pstate \<times> 'w) goctx \<Rightarrow> rule list" where
  "runRulesFor st ctx =
     (case RunFromContext ctx of Some i \<Rightarrow> run_rules_of st i | None \<Rightarrow> [])"

subsection \<open>What a call touches\<close>

text \<open>\<open>topLevelString\<close>: the last member whose key matches, and how many do.\<close>

fun top_loop :: "string \<Rightarrow> string \<Rightarrow> nat \<Rightarrow> (string \<times> string) list \<Rightarrow> string \<times> nat" where
  "top_loop key value n [] = (value, n)"
| "top_loop key value n ((name, v) # ms) =
     (if fold_case name = fold_case key then top_loop key v (Suc n) ms
      else top_loop key value n ms)"

definition topLevelString :: "'w perm_env \<Rightarrow> string \<Rightarrow> string \<Rightarrow> string \<times> nat" where
  "topLevelString env arguments key = top_loop key [] 0 (en_members env arguments)"

definition subjectValue :: "'w perm_env \<Rightarrow> 'w policy \<Rightarrow> string \<Rightarrow> string \<Rightarrow> string \<times> bool \<times> bool" where
  "subjectValue env p tool arguments =
     (case pl_args p tool of
        None \<Rightarrow> ([], False, False)
      | Some argument \<Rightarrow>
          (let (value, n) = topLevelString env arguments argument in (value, True, 1 < n)))"

text \<open>The subjects (\<open>None\<close> is the nil slice), the subjects as written, and whether the call is ambiguous.\<close>

definition subjects ::
  "'w perm_env \<Rightarrow> 'w policy \<Rightarrow> 'w \<Rightarrow> string \<Rightarrow> string \<Rightarrow> string list option \<times> string list \<times> bool" where
  "subjects env p w tool arguments =
     (let (value, ok, ambiguous) = subjectValue env p tool arguments in
      if ambiguous then (None, [], True)
      else if \<not> ok then (Some [[]], [], False)
      else if isPathTool p tool then
        (let written = absPath p value in
         (Some [resolveSymlinks (en_eval_symlinks env w) written], [written], False))
      else if tool \<noteq> bashTool then (Some [value], [], False)
      else (let (commands, safe) = splitShell (en_parse env) value in
        if \<not> safe then (None, commands, False)
        else if commands = [] then (Some [[]], [], False)
        else (Some commands, [], False)))"

subsection \<open>Decisions\<close>

text \<open>The map from decisions to booleans the code fills, rule by rule.\<close>

definition matched ::
  "pstate \<Rightarrow> string \<Rightarrow> string \<Rightarrow> string \<Rightarrow> rule list \<Rightarrow> decision \<Rightarrow> bool" where
  "matched st tool subject written runRules =
     fold (\<lambda>r m.
         if rule_matches r tool subject \<or>
            written \<noteq> [] \<and> r_decision r \<noteq> Allow \<and> rule_matches r tool written
         then m(r_decision r := True) else m)
       (ps_rules st @ runRules) (\<lambda>_. False)"

definition decideOne ::
  "'w policy \<Rightarrow> pstate \<Rightarrow> string \<Rightarrow> string \<Rightarrow> string \<Rightarrow> rule list \<Rightarrow> decision" where
  "decideOne p st tool subject written runRules =
     (let m = matched st tool subject written runRules in
      if m Deny then Deny
      else if m Ask then Ask
      else if m Allow \<or> subject \<in> set (always_of st tool) then Allow
      else pl_fallback p)"

text \<open>\<open>asWritten\<close>: the subject as written at the same index, empty past the end.\<close>

definition as_written :: "string list \<Rightarrow> string" where
  "as_written ws = (case ws of [] \<Rightarrow> [] | w # _ \<Rightarrow> w)"

fun decide_loop ::
  "'w policy \<Rightarrow> pstate \<Rightarrow> string \<Rightarrow> rule list \<Rightarrow> decision \<Rightarrow> string list \<Rightarrow> string list \<Rightarrow> decision" where
  "decide_loop p st tool runRules result [] ws = result"
| "decide_loop p st tool runRules result (s # ss) ws =
     (case decideOne p st tool s (as_written ws) runRules of
        Deny \<Rightarrow> Deny
      | Ask \<Rightarrow> decide_loop p st tool runRules Ask ss (tl ws)
      | Allow \<Rightarrow> decide_loop p st tool runRules result ss (tl ws))"

definition decide ::
  "'w policy \<Rightarrow> pstate \<Rightarrow> string \<Rightarrow> string list option \<Rightarrow> string list \<Rightarrow> rule list \<Rightarrow> decision" where
  "decide p st tool subjs written runRules =
     (case subjs of
        None \<Rightarrow>
          if list_ex (\<lambda>part. list_ex (\<lambda>r. r_decision r = Deny \<and> rule_matches r tool part) (ps_rules st))
               written
          then Deny else Ask
      | Some ss \<Rightarrow> decide_loop p st tool runRules Allow ss written)"

fun rememberable_loop ::
  "pstate \<Rightarrow> string \<Rightarrow> string list \<Rightarrow> string list \<Rightarrow> string list \<Rightarrow> string list" where
  "rememberable_loop st tool out [] ws = out"
| "rememberable_loop st tool out (s # ss) ws =
     (if s \<in> set out \<or> s \<in> set (always_of st tool) then rememberable_loop st tool out ss (tl ws)
      else if \<not> matched st tool s (as_written ws) [] Ask
      then rememberable_loop st tool (out @ [s]) ss (tl ws)
      else rememberable_loop st tool out ss (tl ws))"

definition rememberable ::
  "pstate \<Rightarrow> string \<Rightarrow> string list option \<Rightarrow> string list \<Rightarrow> string list option" where
  "rememberable st tool subjs written =
     (case subjs of None \<Rightarrow> None | Some ss \<Rightarrow> Some (rememberable_loop st tool [] ss written))"

fun askReason_loop :: "pstate \<Rightarrow> string \<Rightarrow> string list \<Rightarrow> string list \<Rightarrow> reason" where
  "askReason_loop st tool [] ws = ReasonNoRule"
| "askReason_loop st tool (s # ss) ws =
     (if matched st tool s (as_written ws) [] Ask then ReasonAskRule
      else askReason_loop st tool ss (tl ws))"

definition askReason :: "pstate \<Rightarrow> string \<Rightarrow> string list option \<Rightarrow> string list \<Rightarrow> reason" where
  "askReason st tool subjs written =
     (case subjs of None \<Rightarrow> ReasonOpaque | Some ss \<Rightarrow> askReason_loop st tool ss written)"

definition evaluate ::
  "'w perm_env \<Rightarrow> 'w policy \<Rightarrow> (pstate \<times> 'w) goctx \<Rightarrow> string \<Rightarrow> string \<Rightarrow> pstate \<times> 'w \<Rightarrow>
    decision \<times> string list option \<times> string list" where
  "evaluate env p ctx tool arguments sw =
     (let (st, w) = sw; (subjs, written, ambiguous) = subjects env p w tool arguments in
      if ambiguous then (Deny, subjs, written)
      else (decide p st tool subjs written (runRulesFor st ctx), subjs, written))"

definition DecideContext ::
  "'w perm_env \<Rightarrow> 'w policy \<Rightarrow> (pstate \<times> 'w) goctx \<Rightarrow> string \<Rightarrow> string \<Rightarrow> pstate \<times> 'w \<Rightarrow>
    decision \<times> string list option" where
  "DecideContext env p ctx tool arguments sw =
     (let (d, subjs, _) = evaluate env p ctx tool arguments sw in (d, subjs))"

definition background :: "'w goctx" where
  "background = \<lparr>ctx_err = (\<lambda>_. None), ctx_cause = (\<lambda>_. None), ctx_run = None, ctx_call = None\<rparr>"

definition Decide ::
  "'w perm_env \<Rightarrow> 'w policy \<Rightarrow> string \<Rightarrow> string \<Rightarrow> pstate \<times> 'w \<Rightarrow> decision \<times> string list option" where
  "Decide env p = DecideContext env p background"

subsection \<open>Enforcement\<close>

definition reasonDeniedByRule :: string where
  "reasonDeniedByRule = ''denied by a rule''"

text \<open>An "always" answer stores each subject once, at the end of the tool's list.\<close>

definition remember_subject :: "string \<Rightarrow> string \<Rightarrow> pstate \<Rightarrow> pstate" where
  "remember_subject tool s st =
     (if s \<in> set (always_of st tool) then st
      else st\<lparr>ps_always := AList.update tool (always_of st tool @ [s]) (ps_always st)\<rparr>)"

definition check ::
  "'w perm_env \<Rightarrow> 'w policy \<Rightarrow> (pstate \<times> 'w) goctx \<Rightarrow> string \<Rightarrow> string \<Rightarrow> pstate \<times> 'w \<Rightarrow>
    err option \<times> pstate \<times> 'w" where
  "check env p ctx tool arguments sw =
     (let (decision, subjs, written) = evaluate env p ctx tool arguments sw;
          (raw, _, ambiguous) = subjectValue env p tool arguments;
          subject = (case subjs of Some [s] \<Rightarrow> if isPathTool p tool then s else raw | _ \<Rightarrow> raw);
          denied = (\<lambda>why. Some (DeniedError tool subject why)) in
      case decision of
        Allow \<Rightarrow> (None, sw)
      | Deny \<Rightarrow>
          (denied
             (if ambiguous
              then ''the arguments give the '' @ (case pl_args p tool of Some a \<Rightarrow> a | None \<Rightarrow> []) @
                   '' argument more than once''
              else reasonDeniedByRule), sw)
      | Ask \<Rightarrow>
          (let sw1 = en_wait_turn env sw; st = fst sw1; remember = rememberable st tool subjs written in
           case decide p st tool subjs written (runRulesFor st ctx) of
             Allow \<Rightarrow> (None, sw1)
           | Deny \<Rightarrow> (denied reasonDeniedByRule, sw1)
           | Ask \<Rightarrow>
               (case pl_asker p of
                  None \<Rightarrow> (denied ''needs approval and no one can be asked'', sw1)
                | Some asker \<Rightarrow>
                    (case asker ctx
                        \<lparr>rq_tool = tool,
                         rq_call_id = (case ToolCallFromContext ctx of Some c \<Rightarrow> tc_id c | None \<Rightarrow> []),
                         rq_arguments = arguments, rq_subject = subject, rq_raw = raw,
                         rq_subjects = remember, rq_reason = askReason st tool subjs written\<rparr> sw1 of
                       (Inl e, sw2) \<Rightarrow> (denied (err_text e), sw2)
                     | (Inr AllowAlways, (st2, w2)) \<Rightarrow>
                         (None, fold (remember_subject tool)
                            (case remember of Some ss \<Rightarrow> ss | None \<Rightarrow> []) st2, w2)
                     | (Inr AllowOnce, sw2) \<Rightarrow> (None, sw2)
                     | (Inr Reject, sw2) \<Rightarrow> (denied ''denied by the user'', sw2)))))"

definition Middleware_policy ::
  "'w perm_env \<Rightarrow> 'w policy \<Rightarrow> (pstate \<times> 'w) tool_middleware" where
  "Middleware_policy env p ti next ctx arguments sw =
     (case check env p ctx (ti_name ti) arguments sw of
        (Some e, sw1) \<Rightarrow> (Returned (Inl e), sw1)
      | (None, sw1) \<Rightarrow> next ctx arguments sw1)"

definition Apply_policy ::
  "'w perm_env \<Rightarrow> 'w policy \<Rightarrow> (pstate \<times> 'w) tool list \<Rightarrow> (pstate \<times> 'w) tool list" where
  "Apply_policy env p tools = map (Use_tool [Middleware_policy env p]) tools"

end
