(* ===== verification/Permission_Correct.thy ===== *)
theory Permission_Correct
  imports Permission
begin

section \<open>Correctness of the permission policy\<close>

text \<open>
  What the policy promises: the strictest decision over all subjects of a call wins; a shell line is
  allowed only when it can be seen through and each of its commands is allowed on its own; an "always"
  answer lasts until it is forgotten, but never silences an ask rule; the rules granted for a run end
  with it. \<open>policy_inv\<close> is what every operation keeps of the policy's state.
\<close>

named_theorems perm_simps \<open>specifications of the policy's loops\<close>

subsection \<open>Rules that match\<close>

definition applies :: "string \<Rightarrow> string \<Rightarrow> string \<Rightarrow> rule \<Rightarrow> bool" where
  "applies tool subject written r \<longleftrightarrow>
     rule_matches r tool subject \<or> written \<noteq> [] \<and> r_decision r \<noteq> Allow \<and> rule_matches r tool written"

lemma matched_fold:
  "fold (\<lambda>r m. if P r then m(d r := True) else m) rs m x \<longleftrightarrow> m x \<or> (\<exists>r\<in>set rs. P r \<and> d r = x)"
  by (induction rs arbitrary: m) auto

lemma matched_iff [perm_simps]:
  "matched st tool subject written runRules d \<longleftrightarrow>
     (\<exists>r \<in> set (ps_rules st @ runRules). applies tool subject written r \<and> r_decision r = d)"
  unfolding matched_def matched_fold applies_def by auto

text \<open>The decisions on the subjects one by one, each with the subject as written at its index.\<close>

fun decisions ::
  "'w policy \<Rightarrow> pstate \<Rightarrow> string \<Rightarrow> rule list \<Rightarrow> string list \<Rightarrow> string list \<Rightarrow> decision list" where
  "decisions p st tool rr [] ws = []"
| "decisions p st tool rr (s # ss) ws =
     decideOne p st tool s (as_written ws) rr # decisions p st tool rr ss (tl ws)"

definition strictest :: "decision list \<Rightarrow> decision" where
  "strictest ds = (if Deny \<in> set ds then Deny else if Ask \<in> set ds then Ask else Allow)"

lemma decide_loop_decisions:
  "decide_loop p st tool rr result ss ws =
     (if Deny \<in> set (decisions p st tool rr ss ws) then Deny
      else if Ask \<in> set (decisions p st tool rr ss ws) then Ask else result)"
  by (induction p st tool rr result ss ws rule: decide_loop.induct) (auto split: decision.split)

lemma decide_Some [perm_simps]:
  "decide p st tool (Some ss) ws rr = strictest (decisions p st tool rr ss ws)"
  by (simp add: decide_def decide_loop_decisions strictest_def)

lemma decide_None [perm_simps]:
  "decide p st tool None ws rr =
     (if (\<exists>part \<in> set ws. \<exists>r \<in> set (ps_rules st). r_decision r = Deny \<and> rule_matches r tool part)
      then Deny else Ask)"
  by (auto simp: decide_def list_ex_iff)

lemma strictest_Allow: "strictest ds = Allow \<longleftrightarrow> (\<forall>d\<in>set ds. d = Allow)"
  by (auto simp: strictest_def) (metis decision.exhaust)

lemma strictest_Ask: "strictest ds = Ask \<longleftrightarrow> Ask \<in> set ds \<and> Deny \<notin> set ds"
  by (simp add: strictest_def)

lemma strictest_Deny: "strictest ds = Deny \<longleftrightarrow> Deny \<in> set ds"
  by (simp add: strictest_def)

lemma decisions_set:
  "d \<in> set (decisions p st tool rr ss ws) \<longleftrightarrow>
     (\<exists>k < length ss. d = decideOne p st tool (ss ! k) (if k < length ws then ws ! k else []) rr)"
proof (induction p st tool rr ss ws rule: decisions.induct)
  case (2 p st tool rr s ss ws)
  then show ?case
    by (cases ws) (simp_all add: as_written_def Ex_less_Suc2 del: ex_simps)
qed simp

lemma decideOne_Deny:
  "decideOne p st tool s w rr = Deny \<longleftrightarrow>
     matched st tool s w rr Deny \<or>
     \<not> matched st tool s w rr Ask \<and> \<not> matched st tool s w rr Allow \<and>
     s \<notin> set (always_of st tool) \<and> pl_fallback p = Deny"
  by (simp add: decideOne_def Let_def)

lemma decideOne_Allow:
  "decideOne p st tool s w rr = Allow \<longleftrightarrow>
     \<not> matched st tool s w rr Deny \<and> \<not> matched st tool s w rr Ask \<and>
     (matched st tool s w rr Allow \<or> s \<in> set (always_of st tool) \<or> pl_fallback p = Allow)"
  by (simp add: decideOne_def Let_def)

lemma decideOne_Ask:
  "decideOne p st tool s w rr = Ask \<longleftrightarrow>
     \<not> matched st tool s w rr Deny \<and>
     (matched st tool s w rr Ask \<or>
      \<not> matched st tool s w rr Allow \<and> s \<notin> set (always_of st tool) \<and> pl_fallback p = Ask)"
  by (simp add: decideOne_def Let_def)

text \<open>
  C14: The decision on a call is the strictest of the decisions on its subjects: denied when a deny
  rule matches one of them, else asked when an ask rule does, and allowed only when every subject is
  allowed by a rule, an earlier "always" answer or the default. A line that cannot be seen through is
  never allowed: it is denied when a deny rule matches one of its visible parts, and asked otherwise.
\<close>

theorem strictest_decision_wins:
  "decide p st tool subjs written rr =
     (case subjs of
        Some ss \<Rightarrow> strictest (decisions p st tool rr ss written)
      | None \<Rightarrow>
          (if (\<exists>part \<in> set written. \<exists>r \<in> set (ps_rules st).
                 r_decision r = Deny \<and> rule_matches r tool part)
           then Deny else Ask))"
  by (cases subjs) (simp_all add: decide_Some decide_None)

subsection \<open>The invariant of the policy's state\<close>

text \<open>
  Run rules only allow, and belong to runs whose end is hooked; the stored answers are listed once
  per tool, each subject once, and no tool has an empty list.
\<close>

definition policy_inv :: "pstate \<Rightarrow> bool" where
  "policy_inv st \<longleftrightarrow>
     list_all (\<lambda>(i, rs). i \<in> set (ps_after_end st) \<and> list_all (\<lambda>r. r_decision r = Allow) rs)
       (ps_run_rules st) \<and>
     distinct (map fst (ps_always st)) \<and>
     list_all (\<lambda>(t, ss). ss \<noteq> [] \<and> distinct ss) (ps_always st)"

lemma policy_inv_iff:
  "policy_inv st \<longleftrightarrow>
     (\<forall>i rs. (i, rs) \<in> set (ps_run_rules st) \<longrightarrow>
        i \<in> set (ps_after_end st) \<and> (\<forall>r \<in> set rs. r_decision r = Allow)) \<and>
     distinct (map fst (ps_always st)) \<and>
     (\<forall>t ss. (t, ss) \<in> set (ps_always st) \<longrightarrow> ss \<noteq> [] \<and> distinct ss)"
  by (auto simp: policy_inv_def list_all_iff)

lemma parseRule_decision: "parseRule spec d resolve = Returned (Inr r) \<Longrightarrow> r_decision r = d"
  by (auto simp: parseRule_def Let_def split: prod.splits if_splits outcome.splits)

lemma parse_rules_decisions:
  "parse_rules env p w (map (\<lambda>s. (s, d)) specs) rs = Returned (Inr rs') \<Longrightarrow>
   list_all (\<lambda>r. r_decision r = d) rs \<Longrightarrow> list_all (\<lambda>r. r_decision r = d) rs'"
  by (induction specs arbitrary: rs)
    (auto simp: policy_parseRule_def dest: parseRule_decision split: outcome.splits sum.splits)

lemma run_rules_in:
  "run_rules_of st i \<noteq> [] \<Longrightarrow> (i, run_rules_of st i) \<in> set (ps_run_rules st)"
  by (auto simp: run_rules_of_def split: option.splits dest!: map_of_SomeD)

lemma always_in: "always_of st t \<noteq> [] \<Longrightarrow> (t, always_of st t) \<in> set (ps_always st)"
  by (auto simp: always_of_def split: option.splits dest!: map_of_SomeD)

lemma run_rules_Allow:
  "policy_inv st \<Longrightarrow> r \<in> set (run_rules_of st i) \<Longrightarrow> r_decision r = Allow"
  using run_rules_in[of st i] by (force simp: policy_inv_iff)

lemma runRulesFor_Allow:
  "policy_inv st \<Longrightarrow> r \<in> set (runRulesFor st ctx) \<Longrightarrow> r_decision r = Allow"
  by (auto simp: runRulesFor_def run_rules_Allow split: option.splits)

lemma always_of_remember:
  "always_of (remember_subject tool s st) t =
     (if t = tool \<and> s \<notin> set (always_of st tool) then always_of st tool @ [s] else always_of st t)"
  by (simp add: remember_subject_def always_of_def update_conv')

lemma remember_subject_rest [simp]:
  "ps_rules (remember_subject tool s st) = ps_rules st"
  "ps_run_rules (remember_subject tool s st) = ps_run_rules st"
  "ps_after_end (remember_subject tool s st) = ps_after_end st"
  by (simp_all add: remember_subject_def)

lemma in_update: "(k', v') \<in> set (AList.update k v al) \<Longrightarrow> k' = k \<and> v' = v \<or> (k', v') \<in> set al"
  by (induction al) (auto split: if_splits)

lemma in_delete: "(k', v') \<in> set (AList.delete k al) \<Longrightarrow> (k', v') \<in> set al"
  by (simp add: AList.delete_eq)

lemma distinct_always_of: "policy_inv st \<Longrightarrow> distinct (always_of st t)"
  using always_in[of st t] by (cases "always_of st t = []") (auto simp: policy_inv_iff)

text \<open>Replacing one tool's answers keeps the invariant.\<close>

lemma always_update_inv:
  assumes "policy_inv st" "ss \<noteq> []" "distinct ss"
  shows "policy_inv (st\<lparr>ps_always := AList.update tool ss (ps_always st)\<rparr>)"
  using assms by (auto simp: policy_inv_iff distinct_update dest!: in_update)

lemma remember_subject_inv: "policy_inv st \<Longrightarrow> policy_inv (remember_subject tool s st)"
  using distinct_always_of[of st tool] by (simp add: remember_subject_def always_update_inv)

lemma remember_fold_inv: "policy_inv st \<Longrightarrow> policy_inv (fold (remember_subject tool) ss st)"
  by (induction ss arbitrary: st) (simp_all add: remember_subject_inv)

lemma remember_fold_rest [simp]:
  "ps_rules (fold (remember_subject tool) ss st) = ps_rules st"
  "ps_run_rules (fold (remember_subject tool) ss st) = ps_run_rules st"
  "ps_after_end (fold (remember_subject tool) ss st) = ps_after_end st"
  by (induction ss arbitrary: st) simp_all

lemma remember_fold_always:
  "set (always_of (fold (remember_subject tool) ss st) t) =
     set (always_of st t) \<union> (if t = tool then set ss else {})"
  by (induction ss arbitrary: st) (auto simp: always_of_remember)

lemma Forget_inv:
  assumes "policy_inv st"
  shows "policy_inv (snd (Forget tool s st))"
proof -
  have "policy_inv (st\<lparr>ps_always := AList.delete tool (ps_always st)\<rparr>)"
    using assms by (auto simp: policy_inv_iff distinct_delete dest!: in_delete)
  then show ?thesis
    using assms distinct_always_of[of st tool]
    by (simp add: Forget_def Let_def always_update_inv distinct_remove1)
qed

lemma Allow_policy_inv:
  "Allow_policy env p specs (st, w) = Returned (e, st', w') \<Longrightarrow> policy_inv st \<Longrightarrow> policy_inv st'"
  by (auto simp: Allow_policy_def policy_inv_def split: outcome.splits sum.splits)

lemma AllowForRun_cases:
  assumes "AllowForRun env p ctx specs (st, w) = Returned (e, st', w')"
  obtains (failed) err where "e = Some err" "st' = st"
  | (granted) i rs where "e = None" "RunFromContext ctx = Some i"
      "parse_rules env p w (map (\<lambda>s. (s, Allow)) specs) [] = Returned (Inr rs)"
      "st' = (if map_of (ps_run_rules st) i = None then st\<lparr>ps_after_end := i # ps_after_end st\<rparr> else st)
         \<lparr>ps_run_rules := AList.update i (run_rules_of st i @ rs) (ps_run_rules st)\<rparr>"
proof (cases "RunFromContext ctx")
  case (Some i)
  show ?thesis
  proof (cases "parse_rules env p w (map (\<lambda>s. (s, Allow)) specs) []")
    case (Returned r)
    then show ?thesis
      using assms Some by (cases r) (auto simp: AllowForRun_def Let_def intro: failed granted)
  qed (use assms Some in \<open>simp add: AllowForRun_def\<close>)
qed (use assms in \<open>auto simp: AllowForRun_def intro: failed\<close>)

lemma AllowForRun_inv:
  assumes "AllowForRun env p ctx specs (st, w) = Returned (e, st', w')" "policy_inv st"
  shows "policy_inv st'"
  using assms(1)
proof (cases rule: AllowForRun_cases)
  case (granted i rs)
  have allows: "\<forall>r \<in> set (run_rules_of st i @ rs). r_decision r = Allow"
    using parse_rules_decisions[OF granted(3)] run_rules_Allow[OF assms(2)]
    by (auto simp: list_all_iff)
  have hooked: "i \<in> set (ps_after_end st')"
  proof (cases "map_of (ps_run_rules st) i")
    case (Some rs0)
    then have "(i, rs0) \<in> set (ps_run_rules st)" by (rule map_of_SomeD)
    then show ?thesis using granted(4) assms(2) Some unfolding policy_inv_iff by simp
  qed (use granted(4) in simp)
  have more: "set (ps_after_end st) \<subseteq> set (ps_after_end st')" using granted(4) by auto
  have same: "ps_always st' = ps_always st" using granted(4) by simp
  have "j \<in> set (ps_after_end st') \<and> (\<forall>r \<in> set rs'. r_decision r = Allow)"
    if "(j, rs') \<in> set (ps_run_rules st')" for j rs'
  proof -
    have "j = i \<and> rs' = run_rules_of st i @ rs \<or> (j, rs') \<in> set (ps_run_rules st)"
      using that granted(4) by (auto dest: in_update)
    then show ?thesis
    proof
      assume "(j, rs') \<in> set (ps_run_rules st)"
      then show ?thesis using assms(2) more unfolding policy_inv_iff by blast
    qed (use allows hooked in simp)
  qed
  then show ?thesis using assms(2) same unfolding policy_inv_iff by simp
qed (use assms in simp)

lemma run_ended_inv: "policy_inv st \<Longrightarrow> policy_inv (run_ended i st)"
  by (auto simp: policy_inv_iff run_ended_def AList.delete_eq)

lemma New_policy_inv:
  "New_policy env opts w = Returned (Inr (p, st)) \<Longrightarrow> policy_inv st"
  by (auto simp: New_policy_def policy_inv_def split: outcome.splits sum.splits)

subsection \<open>A concrete policy\<close>

text \<open>
  The policy the witnesses run: \<open>bash(ls *)\<close> is allowed, \<open>bash(rm *)\<close> denied, anything else asked, and
  the person asked answers "always". The lines it is given are "ls -l", "rm -rf x" and "make".
\<close>

definition ex_rule :: "string \<Rightarrow> decision \<Rightarrow> rule" where
  "ex_rule spec d =
     (case parseRule spec d (\<lambda>_ pat. pat) of
        Returned (Inr r) \<Rightarrow> r
      | _ \<Rightarrow> \<lparr>r_spec = [], r_decision = Deny, r_tool = \<lparr>wc_fold = False, wc_parts = []\<rparr>, r_subject = None\<rparr>)"

definition ex_line :: "string \<Rightarrow> string list \<Rightarrow> sh_node list" where
  "ex_line line args = [Stmt [], CallExpr args (Some line)]"

definition ex_env :: "unit perm_env" where
  "ex_env =
     \<lparr>en_members = (\<lambda>arguments. [(''command'', arguments)]),
      en_parse = (\<lambda>line. Some (ex_line line (go_fields line))),
      en_eval_symlinks = (\<lambda>_ path. Inr path), en_getwd = Inr ''/work'', en_home_dir = Inr ''/home'',
      en_wait_turn = (\<lambda>sw. sw)\<rparr>"

definition ex_policy :: "unit policy" where
  "ex_policy =
     \<lparr>pl_specs = [], pl_fallback = Ask, pl_asker = Some (\<lambda>_ _ sw. (Inr AllowAlways, sw)),
      pl_args = defaultSubjects, pl_working_dir = ''/work'', pl_home = ''/home''\<rparr>"

definition ex_state :: pstate where
  "ex_state =
     \<lparr>ps_rules = [ex_rule ''bash(ls *)'' Allow, ex_rule ''bash(rm *)'' Deny], ps_always = [],
      ps_run_rules = [], ps_after_end = []\<rparr>"

definition ex_ctx :: "(pstate \<times> unit) goctx" where
  "ex_ctx = background\<lparr>ctx_run := Some ''run1''\<rparr>"

subsection \<open>Denied calls\<close>

text \<open>The subjects of a call, or what can be seen of a line that cannot be split.\<close>

definition visible :: "string list option \<Rightarrow> string list \<Rightarrow> string list" where
  "visible subjs written = (case subjs of None \<Rightarrow> written | Some ss \<Rightarrow> ss)"

lemma decide_denied:
  assumes "s \<in> set (visible subjs written)" "r \<in> set (ps_rules st)" "r_decision r = Deny"
    "rule_matches r tool s"
  shows "decide p st tool subjs written rr = Deny"
proof (cases subjs)
  case None
  then show ?thesis using assms by (auto simp: decide_None visible_def)
next
  case (Some ss)
  then obtain k where k: "k < length ss" "s = ss ! k"
    using assms(1) by (auto simp: visible_def in_set_conv_nth)
  have "matched st tool s w rr Deny" for w
    using assms by (auto simp: matched_iff applies_def)
  then have "Deny \<in> set (decisions p st tool rr ss written)"
    unfolding decisions_set using k by (metis decideOne_Deny)
  then show ?thesis by (simp add: Some decide_Some strictest_Deny)
qed

text \<open>
  C8: A call that a deny rule matches, on any of its subjects or on any visible part of a line that
  cannot be split, is refused with an error that is \<open>ErrDenied\<close>: no one is asked, the tool's handler does
  not run, and nothing changes.
\<close>

theorem denied_calls_not_run:
  assumes "subjects env p w (ti_name ti) arguments = (subjs, written, ambiguous)"
    "s \<in> set (visible subjs written)" "r \<in> set (ps_rules st)" "r_decision r = Deny"
    "rule_matches r (ti_name ti) s"
  shows "\<exists>e. err_is e (PermissionE ErrDenied) \<and>
     Middleware_policy env p ti next ctx arguments (st, w) = (Returned (Inl e), st, w)"
proof -
  have "fst (evaluate env p ctx (ti_name ti) arguments (st, w)) = Deny"
    by (simp add: evaluate_def assms(1) decide_denied[OF assms(2-5)])
  then show ?thesis
    by (auto simp: Middleware_policy_def check_def Let_def split: prod.split)
qed

definition ex_bash :: tool_info where
  "ex_bash = \<lparr>ti_name = ''bash'', ti_description = ''runs a command'', ti_input_schema = None,
     ti_loose_schema = None, ti_strict = True, ti_exclusive = False\<rparr>"

theorem denied_calls_not_run_witness:
  "\<exists>e. err_is e (PermissionE ErrDenied) \<and>
     Middleware_policy ex_env ex_policy ex_bash (\<lambda>_ _ sw. (Returned (Inr VNil), sw)) ex_ctx ''rm -rf x''
       (ex_state, ()) = (Returned (Inl e), ex_state, ())"
proof (rule denied_calls_not_run)
  show "subjects ex_env ex_policy () (ti_name ex_bash) ''rm -rf x'' = (Some [''rm -rf x''], [], False)"
    by code_simp
  show "''rm -rf x'' \<in> set (visible (Some [''rm -rf x'']) [])" by (simp add: visible_def)
  show "ex_rule ''bash(rm *)'' Deny \<in> set (ps_rules ex_state)" by (simp add: ex_state_def)
  show "r_decision (ex_rule ''bash(rm *)'' Deny) = Deny" by code_simp
  show "rule_matches (ex_rule ''bash(rm *)'' Deny) (ti_name ex_bash) ''rm -rf x''" by code_simp
qed

subsection \<open>Shell lines\<close>

lemma splitShell_safe:
  assumes "splitShell parse line = (cmds, True)"
  obtains nodes where "parse line = Some nodes" "list_all plain_node nodes"
    "cmds = concat (map call_command nodes)"
    "\<not> go_contains line ''`''" "\<not> containsAny line [''$('', ''<('', ''>('']"
  using assms by (auto simp: splitShell_def Let_def walk_commands dest!: walk_safe split: option.splits)

lemma strictest_decisions_Allow:
  "strictest (decisions p st tool rr ss []) = Allow \<Longrightarrow> s \<in> set ss \<Longrightarrow>
   decideOne p st tool s [] rr = Allow"
proof -
  assume all: "strictest (decisions p st tool rr ss []) = Allow" and "s \<in> set ss"
  then obtain k where "k < length ss" "s = ss ! k" by (auto simp: in_set_conv_nth)
  then have "decideOne p st tool s [] rr \<in> set (decisions p st tool rr ss [])"
    unfolding decisions_set by (intro exI[of _ k]) simp
  then show ?thesis using all by (simp add: strictest_Allow)
qed

text \<open>
  C2: A bash line is allowed only when it parses, holds no substitution, evaluates and redirects
  nothing that could hide a command (every node of its syntax tree is a plain one), and each simple
  command of the tree is allowed on its own, whatever operators, subshells, loops or functions it
  stands in.
\<close>

theorem allowed_line_each_command:
  assumes "pl_args p bashTool = Some ''command''"
    "fst (evaluate env p ctx bashTool arguments (st, w)) = Allow"
  shows "let line = fst (topLevelString env arguments ''command'') in
     \<not> go_contains line ''`'' \<and> \<not> containsAny line [''$('', ''<('', ''>(''] \<and>
     (\<exists>nodes. en_parse env line = Some nodes \<and> list_all plain_node nodes \<and>
        list_all (\<lambda>c. decideOne p st bashTool c [] (runRulesFor st ctx) = Allow)
          (concat (map call_command nodes)))"
proof -
  obtain line n where top: "topLevelString env arguments ''command'' = (line, n)" by fastforce
  have path: "\<not> isPathTool p bashTool"
    using assms(1) by (simp add: isPathTool_def argFilePath_def argPath_def)
  obtain cmds safe where split: "splitShell (en_parse env) line = (cmds, safe)" by fastforce
  have "safe" and cmds: "cmds = [] \<or>
      strictest (decisions p st bashTool (runRulesFor st ctx) cmds []) = Allow"
    using assms top path split
    by (auto simp: evaluate_def subjects_def subjectValue_def perm_simps split: if_splits)
  then obtain nodes where "en_parse env line = Some nodes" "list_all plain_node nodes"
      "cmds = concat (map call_command nodes)" "\<not> go_contains line ''`''"
      "\<not> containsAny line [''$('', ''<('', ''>('']"
    using split splitShell_safe by metis
  then show ?thesis using cmds strictest_decisions_Allow[of p st bashTool _ cmds]
    by (auto simp: top list_all_iff)
qed

theorem allowed_line_each_command_witness:
  "let line = fst (topLevelString ex_env ''ls -l'' ''command'') in
     \<not> go_contains line ''`'' \<and> \<not> containsAny line [''$('', ''<('', ''>(''] \<and>
     (\<exists>nodes. en_parse ex_env line = Some nodes \<and> list_all plain_node nodes \<and>
        list_all (\<lambda>c. decideOne ex_policy ex_state bashTool c [] (runRulesFor ex_state ex_ctx) = Allow)
          (concat (map call_command nodes)))"
  by (rule allowed_line_each_command[where w = "()"]) code_simp+

subsection \<open>Answers that last\<close>

lemma rememberable_loop_keeps: "set out \<subseteq> set (rememberable_loop st tool out ss ws)"
  by (induction st tool out ss ws rule: rememberable_loop.induct) auto

lemma rememberable_loop_covers:
  "askReason_loop st tool ss ws = ReasonNoRule \<Longrightarrow> s \<in> set ss \<Longrightarrow>
   s \<in> set (always_of st tool) \<or> s \<in> set (rememberable_loop st tool out ss ws)"
proof (induction st tool out ss ws rule: rememberable_loop.induct)
  case (2 st tool out x ss ws)
  have no_ask: "\<not> matched st tool x (as_written ws) [] Ask"
      "askReason_loop st tool ss (tl ws) = ReasonNoRule"
    using 2(4) by (simp_all split: if_splits)
  consider "x \<in> set out \<or> x \<in> set (always_of st tool)" | "x \<notin> set out" "x \<notin> set (always_of st tool)"
    by blast
  then show ?case
  proof cases
    case 1
    then show ?thesis
      using 2(1)[OF 1 no_ask(2)] 2(5) rememberable_loop_keeps[of out st tool ss "tl ws"] by auto
  next
    case new: 2
    then show ?thesis
      using 2(2)[OF _ no_ask] 2(5) no_ask rememberable_loop_keeps[of "out @ [x]" st tool ss "tl ws"]
      by auto
  qed
qed simp

lemma askReason_no_ask:
  "askReason_loop st tool ss ws = ReasonNoRule \<Longrightarrow> k < length ss \<Longrightarrow>
   \<not> matched st tool (ss ! k) (if k < length ws then ws ! k else []) [] Ask"
proof (induction st tool ss ws arbitrary: k rule: askReason_loop.induct)
  case (2 st tool s ss ws)
  have no_ask: "\<not> matched st tool s (as_written ws) [] Ask"
      "askReason_loop st tool ss (tl ws) = ReasonNoRule"
    using 2(2) by (simp_all split: if_splits)
  show ?case
  proof (cases k)
    case 0
    then show ?thesis using no_ask(1) by (cases ws) (simp_all add: as_written_def)
  next
    case (Suc j)
    then have "\<not> matched st tool (ss ! j) (if j < length (tl ws) then tl ws ! j else []) [] Ask"
      using 2(1)[OF no_ask, of j] 2(3) by simp
    then show ?thesis by (cases ws) (simp_all add: Suc split: if_splits)
  qed
qed simp

text \<open>Storing the answer allows every subject of the call, when no ask rule matches one.\<close>

lemma remembered_call_allowed:
  assumes "policy_inv st" "decide p st tool (Some ss) ws (runRulesFor st ctx) = Ask"
    "askReason st tool (Some ss) ws = ReasonNoRule"
    "rememberable st tool (Some ss) ws = Some out"
  shows "decide p (fold (remember_subject tool) out st) tool (Some ss) ws (runRulesFor st ctx) = Allow"
proof -
  let ?st = "fold (remember_subject tool) out st"
  have no_ask: "askReason_loop st tool ss ws = ReasonNoRule" using assms(3) by (simp add: askReason_def)
  have "d = Allow" if d: "d \<in> set (decisions p ?st tool (runRulesFor st ctx) ss ws)" for d
  proof -
    obtain k where k: "k < length ss"
        "d = decideOne p ?st tool (ss ! k) (if k < length ws then ws ! k else []) (runRulesFor st ctx)"
      using d by (auto simp: decisions_set)
    let ?w = "if k < length ws then ws ! k else []"
    have "Deny \<notin> set (decisions p st tool (runRulesFor st ctx) ss ws)"
      using assms(2) by (simp add: decide_Some strictest_Ask)
    then have "decideOne p st tool (ss ! k) ?w (runRulesFor st ctx) \<noteq> Deny"
      using k(1) by (metis decisions_set)
    then have "\<not> matched st tool (ss ! k) ?w (runRulesFor st ctx) Deny" by (simp add: decideOne_Deny)
    moreover have "\<not> matched st tool (ss ! k) ?w (runRulesFor st ctx) Ask"
      using askReason_no_ask[OF no_ask k(1)]
      by (auto simp: matched_iff dest: runRulesFor_Allow[OF assms(1)])
    moreover have "ss ! k \<in> set (always_of ?st tool)"
      using rememberable_loop_covers[OF no_ask nth_mem[OF k(1)], of "[]"] assms(4)
      by (auto simp: remember_fold_always rememberable_def)
    moreover have "matched ?st tool s v rr e = matched st tool s v rr e" for s v rr e
      by (simp add: matched_iff)
    ultimately show ?thesis by (simp add: k(2) decideOne_Allow)
  qed
  then show ?thesis by (simp add: decide_Some strictest_Allow)
qed

text \<open>
  When the person answers "always" to a call that no ask rule matches, the call runs, and the same
  call made again runs without a question: as long as its paths resolve as before and the asker did
  not itself change the policy.
\<close>

theorem always_answer_lasts:
  assumes "subjects env p w (ti_name ti) arguments = (Some ss, ws, False)"
    "decide p st (ti_name ti) (Some ss) ws (runRulesFor st ctx) = Ask"
    "en_wait_turn env (st, w) = (st', w')" "policy_inv st'"
    "decide p st' (ti_name ti) (Some ss) ws (runRulesFor st' ctx) = Ask"
    "askReason st' (ti_name ti) (Some ss) ws = ReasonNoRule"
    "pl_asker p = Some asker" "\<And>rq. asker ctx rq (st', w') = (Inr AllowAlways, st', w'')"
    "subjects env p w'' (ti_name ti) arguments = (Some ss, ws, False)"
  shows "\<exists>st2. Middleware_policy env p ti next ctx arguments (st, w) = next ctx arguments (st2, w'') \<and>
     Middleware_policy env p ti next ctx arguments (st2, w'') = next ctx arguments (st2, w'')"
proof -
  obtain out where out: "rememberable st' (ti_name ti) (Some ss) ws = Some out"
    by (simp add: rememberable_def)
  define st2 where "st2 = fold (remember_subject (ti_name ti)) out st'"
  have first: "check env p ctx (ti_name ti) arguments (st, w) = (None, st2, w'')"
    using assms(1-3,5,7,8) out
    by (simp add: check_def evaluate_def Let_def st2_def split: prod.split)
  have "runRulesFor st2 ctx = runRulesFor st' ctx"
    by (simp add: st2_def runRulesFor_def run_rules_of_def split: option.split)
  then have "decide p st2 (ti_name ti) (Some ss) ws (runRulesFor st2 ctx) = Allow"
    using remembered_call_allowed[OF assms(4-6) out] by (simp add: st2_def)
  then have "check env p ctx (ti_name ti) arguments (st2, w'') = (None, st2, w'')"
    using assms(9) by (simp add: check_def evaluate_def Let_def split: prod.split)
  then show ?thesis using first by (auto simp: Middleware_policy_def)
qed

theorem always_answer_lasts_witness:
  "\<exists>st2. Middleware_policy ex_env ex_policy ex_bash (\<lambda>_ _ sw. (Returned (Inr VNil), sw)) ex_ctx
       ''make all'' (ex_state, ()) = (Returned (Inr VNil), st2, ()) \<and>
     Middleware_policy ex_env ex_policy ex_bash (\<lambda>_ _ sw. (Returned (Inr VNil), sw)) ex_ctx
       ''make all'' (st2, ()) = (Returned (Inr VNil), st2, ())"
proof (rule always_answer_lasts[where ss = "[''make all'']" and ws = "[]" and st' = ex_state and w' = "()"
      and asker = "\<lambda>_ _ sw. (Inr AllowAlways, sw)"])
  show "en_wait_turn ex_env (ex_state, ()) = (ex_state, ())" by (simp add: ex_env_def)
  show "pl_asker ex_policy = Some (\<lambda>_ _ sw. (Inr AllowAlways, sw))" by (simp add: ex_policy_def)
  show "policy_inv ex_state" by (simp add: policy_inv_def ex_state_def)
qed (code_simp | simp)+

lemma decide_cong_state:
  assumes "ps_rules st' = ps_rules st" "\<And>t. set (always_of st' t) = set (always_of st t)"
  shows "decide p st' tool subjs written rr = decide p st tool subjs written rr"
proof -
  have "decideOne p st' tool s w rr = decideOne p st tool s w rr" for s w
    unfolding decideOne_def matched_def assms ..
  then have "decisions p st' tool rr ss ws = decisions p st tool rr ss ws" for ss ws
    by (induction ss arbitrary: ws) simp_all
  then show ?thesis by (cases subjs) (simp_all add: perm_simps assms)
qed

text \<open>
  Forgetting an answer undoes it: an "always" answer that is stored and then forgotten leaves every
  later decision of the policy as it was before the answer.
\<close>

theorem forget_undoes_answer:
  assumes "s \<notin> set (always_of st tool)"
  shows "case Forget tool s (remember_subject tool s st) of
     (found, st') \<Rightarrow> found \<and>
       (\<forall>t subjs ws rr. decide p st' t subjs ws rr = decide p st t subjs ws rr)"
proof -
  let ?st = "remember_subject tool s st"
  have new: "always_of ?st tool = always_of st tool @ [s]" using assms by (simp add: always_of_remember)
  have rest: "remove1 s (always_of st tool @ [s]) = always_of st tool"
    using assms by (simp add: remove1_append)
  obtain st' where st': "Forget tool s ?st = (True, st')" "ps_rules st' = ps_rules st"
    by (simp add: Forget_def new Let_def)
  have "always_of st' t = always_of st t" for t
  proof (cases "always_of st tool = []")
    case True
    then have "st' = ?st\<lparr>ps_always := AList.delete tool (ps_always ?st)\<rparr>"
      using st'(1) by (simp add: Forget_def new Let_def)
    then show ?thesis
      using True always_of_remember[of tool s st t] assms
      by (auto simp: always_of_def delete_conv')
  next
    case False
    then have "st' = ?st\<lparr>ps_always := AList.update tool (always_of st tool) (ps_always ?st)\<rparr>"
      using st'(1) rest by (simp add: Forget_def new Let_def)
    then show ?thesis
      using always_of_remember[of tool s st t] assms
      by (auto simp: always_of_def update_conv')
  qed
  then show ?thesis using st' by (simp add: decide_cong_state[of st' st])
qed

theorem forget_undoes_answer_witness:
  "case Forget ''bash'' ''make'' (remember_subject ''bash'' ''make'' ex_state) of
     (found, st') \<Rightarrow> found \<and>
       (\<forall>t subjs ws rr. decide ex_policy st' t subjs ws rr = decide ex_policy ex_state t subjs ws rr)"
  by (rule forget_undoes_answer) (simp add: ex_state_def always_of_def)

subsection \<open>Grants of one run\<close>

text \<open>
  The rules granted for a run change no decision on a call outside that run, and once the run has
  ended every decision is what it was before the grant.
\<close>

theorem run_grants_end_with_run:
  assumes "AllowForRun env p ctx specs (st, w) = Returned (None, st', w')"
    "RunFromContext ctx = Some i" "map_of (ps_run_rules st) i = None"
  shows "(RunFromContext ctx' = Some i \<or>
       decide p st' t subjs ws (runRulesFor st' ctx') = decide p st t subjs ws (runRulesFor st ctx')) \<and>
     decide p (run_ended i st') t subjs ws (runRulesFor (run_ended i st') ctx') =
       decide p st t subjs ws (runRulesFor st ctx')"
  using assms(1)
proof (cases rule: AllowForRun_cases)
  case (granted j rs)
  then have st': "st' = st\<lparr>ps_after_end := i # ps_after_end st,
      ps_run_rules := AList.update i rs (ps_run_rules st)\<rparr>"
    using assms(2,3) by (simp add: run_rules_of_def)
  have always: "always_of st' x = always_of st x" "always_of (run_ended i st') x = always_of st x" for x
    by (simp_all add: st' always_of_def run_ended_def)
  have rules: "ps_rules st' = ps_rules st" "ps_rules (run_ended i st') = ps_rules st"
    by (simp_all add: st' run_ended_def)
  have out: "run_rules_of st' j = run_rules_of st j" if "j \<noteq> i" for j
    using that by (simp add: st' run_rules_of_def update_conv')
  have ended: "run_rules_of (run_ended i st') j = run_rules_of st j" for j
    using assms(3) by (simp add: st' run_rules_of_def run_ended_def update_conv' delete_conv')
  have "RunFromContext ctx' = Some i \<or> runRulesFor st' ctx' = runRulesFor st ctx'"
    using out by (auto simp: runRulesFor_def split: option.split)
  moreover have "runRulesFor (run_ended i st') ctx' = runRulesFor st ctx'"
    by (simp add: runRulesFor_def ended split: option.split)
  ultimately show ?thesis
    by (auto simp: decide_cong_state[of st' st] decide_cong_state[of "run_ended i st'" st] always rules)
qed simp

definition ex_granted :: pstate where
  "ex_granted =
     (case AllowForRun ex_env ex_policy ex_ctx [''bash(make *)''] (ex_state, ()) of
        Returned (_, st', _) \<Rightarrow> st'
      | Panicked _ \<Rightarrow> ex_state)"

theorem run_grants_end_with_run_witness:
  "decide ex_policy ex_granted ''bash'' (Some [''make all'']) [] (runRulesFor ex_granted ex_ctx) = Allow \<and>
   (RunFromContext ex_ctx = Some ''run1'' \<or>
     decide ex_policy ex_granted ''bash'' (Some [''make all'']) [] (runRulesFor ex_granted ex_ctx) =
     decide ex_policy ex_state ''bash'' (Some [''make all'']) [] (runRulesFor ex_state ex_ctx)) \<and>
   decide ex_policy (run_ended ''run1'' ex_granted) ''bash'' (Some [''make all''])
       [] (runRulesFor (run_ended ''run1'' ex_granted) ex_ctx) =
     decide ex_policy ex_state ''bash'' (Some [''make all'']) [] (runRulesFor ex_state ex_ctx)"
proof (rule conjI)
  show "decide ex_policy ex_granted ''bash'' (Some [''make all'']) []
      (runRulesFor ex_granted ex_ctx) = Allow"
    by code_simp
qed (rule run_grants_end_with_run[where specs = "[''bash(make *)'']" and ctx = ex_ctx and env = ex_env
      and p = ex_policy and w = "()" and w' = "()"], code_simp+)

subsection \<open>The policy in use\<close>

text \<open>
  The states a policy goes through: what \<open>New\<close> returns, then any of its operations in any order, by
  anyone, and the ends of runs. An "always" answer stores the subjects of the question.
\<close>

inductive policy_reach :: "'w perm_env \<Rightarrow> 'w policy \<Rightarrow> pstate \<Rightarrow> bool" for env p where
  new: "New_policy env opts w = Returned (Inr (p, st)) \<Longrightarrow> policy_reach env p st"
| allow: "policy_reach env p st \<Longrightarrow> Allow_policy env p specs (st, w) = Returned (e, st', w') \<Longrightarrow>
    policy_reach env p st'"
| grant: "policy_reach env p st \<Longrightarrow> AllowForRun env p ctx specs (st, w) = Returned (e, st', w') \<Longrightarrow>
    policy_reach env p st'"
| ended: "policy_reach env p st \<Longrightarrow> policy_reach env p (run_ended i st)"
| forget: "policy_reach env p st \<Longrightarrow> policy_reach env p (snd (Forget tool s st))"
| answered: "policy_reach env p st \<Longrightarrow> policy_reach env p (fold (remember_subject tool) ss st)"

lemma policy_reach_inv: "policy_reach env p st \<Longrightarrow> policy_inv st"
  by (induction rule: policy_reach.induct)
    (auto intro: New_policy_inv Allow_policy_inv AllowForRun_inv run_ended_inv Forget_inv remember_fold_inv)

lemma distinct_pairs: "distinct ts \<Longrightarrow> (\<And>t. distinct (f t)) \<Longrightarrow> distinct (concat (map (\<lambda>t. map (Pair t) (f t)) ts))"
  by (induction ts) (auto simp: distinct_map inj_on_def)

lemma map_fst_pairs: "map fst (concat (map (\<lambda>t. map (Pair t) (f t)) ts)) = concat (map (\<lambda>t. replicate (length (f t)) t) ts)"
  by (induction ts) (simp_all add: comp_def map_replicate_const)

lemma sorted_replicates: "sorted ts \<Longrightarrow> sorted (concat (map (\<lambda>t. replicate (n t) t) ts))"
  for ts :: "'a::linorder list"
  by (induction ts) (auto simp: sorted_append sorted_replicate)

text \<open>
  C40: However a policy has been used, \<open>Always\<close> lists exactly the stored answers, each once and sorted by
  tool, and the grants it still holds belong to runs whose end will drop them and only ever allow.
\<close>

theorem policy_state_wellformed:
  assumes "policy_reach env p st"
  shows "distinct (Always st) \<and> sorted (map fst (Always st)) \<and>
    (\<forall>tool s. (tool, s) \<in> set (Always st) \<longleftrightarrow> s \<in> set (always_of st tool)) \<and>
    list_all (\<lambda>(i, rs). i \<in> set (ps_after_end st) \<and> list_all (\<lambda>r. r_decision r = Allow) rs)
      (ps_run_rules st)"
proof -
  have inv: "policy_inv st" using assms by (rule policy_reach_inv)
  have "distinct (Always st)"
    unfolding Always_def using inv distinct_always_of[OF inv]
    by (intro distinct_pairs) (simp_all add: policy_inv_def)
  moreover have "sorted (map fst (Always st))"
    unfolding Always_def map_fst_pairs by (rule sorted_replicates) simp
  moreover have "(tool, s) \<in> set (Always st) \<longleftrightarrow> s \<in> set (always_of st tool)" for tool s
  proof
    assume s: "s \<in> set (always_of st tool)"
    then have "(tool, always_of st tool) \<in> set (ps_always st)" by (intro always_in) auto
    then have "tool \<in> set (sort (map fst (ps_always st)))" by force
    then show "(tool, s) \<in> set (Always st)" using s unfolding Always_def by auto
  qed (auto simp: Always_def)
  moreover have "list_all (\<lambda>(i, rs). i \<in> set (ps_after_end st) \<and> list_all (\<lambda>r. r_decision r = Allow) rs)
      (ps_run_rules st)"
    using inv by (simp add: policy_inv_def)
  ultimately show ?thesis by blast
qed

definition ex_answered :: pstate where
  "ex_answered = fold (remember_subject ''bash'') [''make'', ''ls'', ''make'']
     \<lparr>ps_rules = [], ps_always = [], ps_run_rules = [], ps_after_end = []\<rparr>"

theorem policy_state_wellformed_witness:
  "distinct (Always ex_answered) \<and> sorted (map fst (Always ex_answered)) \<and>
    (\<forall>tool s. (tool, s) \<in> set (Always ex_answered) \<longleftrightarrow> s \<in> set (always_of ex_answered tool)) \<and>
    list_all (\<lambda>(i, rs). i \<in> set (ps_after_end ex_answered) \<and> list_all (\<lambda>r. r_decision r = Allow) rs)
      (ps_run_rules ex_answered)"
proof (rule policy_state_wellformed)
  show "policy_reach ex_env (\<lparr>pl_specs = [], pl_fallback = Ask, pl_asker = None, pl_args = defaultSubjects,
      pl_working_dir = ''/work'', pl_home = ''/home''\<rparr> :: unit policy) ex_answered"
    unfolding ex_answered_def
    by (rule answered, rule new[where opts = "[]" and w = "()"]) (simp add: New_policy_def ex_env_def)
qed

end
