(* ===== verification/Middleware.thy ===== *)
theory Middleware
  imports Llm
begin

section \<open>LLM middlewares: retry and guardrails\<close>

text \<open>
  \<open>llm/middleware/retry.go\<close>, \<open>guardrails.go\<close> and \<open>stream.go\<close>. A duration is a signed 64-bit number
  of nanoseconds, whose wrap-around is \<open>wrap64\<close>. What is random or takes time is in \<open>retry_env\<close>: a
  draw of \<open>rand.Int63n\<close>, and a wait, which says whether the timer fired or the context was done first,
  with the error of the context then. Trace spans and events are left out.
\<close>

definition wrap64 :: "int \<Rightarrow> int" where
  "wrap64 x = (x + 2 ^ 63) mod 2 ^ 64 - 2 ^ 63"

text \<open>Go's integer division, which truncates toward zero.\<close>

definition quot :: "int \<Rightarrow> int \<Rightarrow> int" where
  "quot a b = (if a < 0 then - ((- a) div b) else a div b)"

definition millisecond :: int where "millisecond = 1000000"
definition defaultInitialBackoff :: int where "defaultInitialBackoff = 500 * millisecond"
definition defaultMaxBackoff :: int where "defaultMaxBackoff = 30000 * millisecond"
definition jitterHalfDivisor :: int where "jitterHalfDivisor = 2"
definition jitterQuarterDivisor :: int where "jitterQuarterDivisor = 4"
definition backoffFactor :: int where "backoffFactor = 2"

lemmas retry_constants = millisecond_def defaultInitialBackoff_def defaultMaxBackoff_def
  jitterHalfDivisor_def jitterQuarterDivisor_def backoffFactor_def

subsection \<open>Retry\<close>

record retry_config =
  rc_max_attempts :: int
  rc_initial_backoff :: int
  rc_max_backoff :: int
  rc_should_retry :: "err \<Rightarrow> bool"

type_synonym retry_option = "retry_config \<Rightarrow> retry_config"

record 'w retry_env =
  re_rand :: "int \<Rightarrow> 'w \<Rightarrow> int \<times> 'w"
  re_wait :: "'w goctx \<Rightarrow> int \<Rightarrow> 'w \<Rightarrow> err option \<times> 'w"

definition WithInitialBackoff :: "int \<Rightarrow> retry_option" where
  "WithInitialBackoff d c = c\<lparr>rc_initial_backoff := d\<rparr>"
definition WithMaxBackoff :: "int \<Rightarrow> retry_option" where
  "WithMaxBackoff d c = c\<lparr>rc_max_backoff := d\<rparr>"
definition WithShouldRetry :: "(err \<Rightarrow> bool) \<Rightarrow> retry_option" where
  "WithShouldRetry f c = c\<lparr>rc_should_retry := f\<rparr>"

text \<open>\<open>sleepFor\<close>: the jittered back-off, raised to the provider's hint, capped by the maximum.\<close>

definition sleepFor ::
  "'w retry_env \<Rightarrow> retry_config \<Rightarrow> int \<Rightarrow> err \<Rightarrow> 'w \<Rightarrow> int \<times> 'w" where
  "sleepFor env cfg backoff e w =
     (let half = quot backoff jitterHalfDivisor;
          (sleep, w') =
            (if 0 < half
             then (let (r, w') = re_rand env half w; jitter = wrap64 (r - quot backoff jitterQuarterDivisor) in
               (max (wrap64 (backoff + jitter)) 0, w'))
             else (backoff, w));
          sleep' = (case err_as_provider e of
              Some (_, after, _) \<Rightarrow> if sleep < after then after else sleep
            | None \<Rightarrow> sleep)
      in (min sleep' (rc_max_backoff cfg), w'))"

definition next_backoff :: "retry_config \<Rightarrow> int \<Rightarrow> int" where
  "next_backoff cfg backoff = min (wrap64 (backoff * backoffFactor)) (rc_max_backoff cfg)"

text \<open>The loop of \<open>Execute\<close>: \<open>left\<close> attempts remain, and \<open>e\<close> is the error of the last one.\<close>

fun retry_loop ::
  "'w retry_env \<Rightarrow> retry_config \<Rightarrow> ('w \<Rightarrow> (err + llm_result option) \<times> 'w) \<Rightarrow> 'w goctx \<Rightarrow> nat \<Rightarrow> int \<Rightarrow>
    err \<Rightarrow> 'w \<Rightarrow> (err + llm_result option) \<times> 'w" where
  "retry_loop env cfg call ctx 0 backoff e w =
     (if \<not> rc_should_retry cfg e then (Inl e, w)
      else (Inl (MaxAttemptsExceededError (rc_max_attempts cfg) e), w))"
| "retry_loop env cfg call ctx (Suc left) backoff e w =
     (if \<not> rc_should_retry cfg e then (Inl e, w)
      else (case ctx_err ctx w of
          Some ce \<Rightarrow> (Inl ce, w)
        | None \<Rightarrow>
            (let (sleep, w1) = sleepFor env cfg backoff e w in
             case re_wait env ctx sleep w1 of
               (Some ce, w2) \<Rightarrow> (Inl ce, w2)
             | (None, w2) \<Rightarrow>
                 (case call w2 of
                    (Inr r, w3) \<Rightarrow> (Inr r, w3)
                  | (Inl e', w3) \<Rightarrow>
                      retry_loop env cfg call ctx left (next_backoff cfg backoff) e' w3))))"

definition retry_execute ::
  "'w retry_env \<Rightarrow> retry_config \<Rightarrow> 'w llm \<Rightarrow> 'w execute" where
  "retry_execute env cfg inner ctx ms os w =
     (case ctx_err ctx w of
        Some e \<Rightarrow> (Inl e, w)
      | None \<Rightarrow>
          (case llm_execute inner ctx ms os w of
             (Inr r, w') \<Rightarrow> (Inr r, w')
           | (Inl e, w') \<Rightarrow>
               retry_loop env cfg (llm_execute inner ctx ms os) ctx
                 (nat (rc_max_attempts cfg - 1)) (rc_initial_backoff cfg) e w'))"

text \<open>\<open>streamAttempt\<close>: the chunks up to the first error, and that error.\<close>

fun stream_items :: "(err + stream_chunk) list \<Rightarrow> stream_chunk list \<times> err option" where
  "stream_items [] = ([], None)"
| "stream_items (Inl e # items) = ([], Some e)"
| "stream_items (Inr c # items) = (let (cs, eo) = stream_items items in (c # cs, eo))"

definition streamOutcome :: "retry_config \<Rightarrow> nat \<Rightarrow> bool \<Rightarrow> err option \<Rightarrow> bool \<times> err option" where
  "streamOutcome cfg attempt yielded eo =
     (case eo of
        None \<Rightarrow> (True, None)
      | Some e \<Rightarrow>
          if err_is e (MiddlewareE ErrStreamStopped) then (True, None)
          else if yielded \<or> \<not> rc_should_retry cfg e then (True, Some e)
          else if rc_max_attempts cfg \<le> int attempt
          then (True, Some (MaxAttemptsExceededError (rc_max_attempts cfg) e))
          else (False, None))"

text \<open>Every attempt after the first has a last error.\<close>

definition beginAttempt ::
  "'w retry_env \<Rightarrow> retry_config \<Rightarrow> 'w goctx \<Rightarrow> nat \<Rightarrow> int \<Rightarrow> err option \<Rightarrow> 'w \<Rightarrow> err option \<times> 'w" where
  "beginAttempt env cfg ctx attempt backoff lastErr w =
     (case ctx_err ctx w of
        Some e \<Rightarrow> (Some e, w)
      | None \<Rightarrow>
          if attempt = 1 then (None, w)
          else (case lastErr of
              None \<Rightarrow> (None, w)
            | Some e \<Rightarrow> (let (sleep, w1) = sleepFor env cfg backoff e w in re_wait env ctx sleep w1)))"

function retry_stream ::
  "'w retry_env \<Rightarrow> retry_config \<Rightarrow> ('w \<Rightarrow> (err + stream_chunk) list \<times> 'w) \<Rightarrow> 'w goctx \<Rightarrow> nat \<Rightarrow> int \<Rightarrow>
    err option \<Rightarrow> 'w \<Rightarrow> (err + stream_chunk) list \<times> 'w" where
  "retry_stream env cfg call ctx attempt backoff lastErr w =
     (case beginAttempt env cfg ctx attempt backoff lastErr w of
        (Some e, w1) \<Rightarrow> ([Inl e], w1)
      | (None, w1) \<Rightarrow>
          (let backoff' = (if 1 < attempt then next_backoff cfg backoff else backoff);
               (items, w2) = call w1; (chunks, eo) = stream_items items;
               (stop, final) = streamOutcome cfg attempt (chunks \<noteq> []) eo in
           if stop then (map Inr chunks @ (case final of Some e \<Rightarrow> [Inl e] | None \<Rightarrow> []), w2)
           else (let (rest, w3) = retry_stream env cfg call ctx (Suc attempt) backoff' eo w2 in
             (map Inr chunks @ rest, w3))))"
  by pat_completeness auto
termination
  by (relation "measure (\<lambda>(env, cfg, call, ctx, attempt, _). nat (rc_max_attempts cfg) - attempt)")
    (auto simp: streamOutcome_def split: option.splits if_splits)

declare retry_stream.simps [simp del]

definition retry_execute_stream ::
  "'w retry_env \<Rightarrow> retry_config \<Rightarrow> 'w llm \<Rightarrow> 'w execute_stream" where
  "retry_execute_stream env cfg inner ctx ms os w =
     retry_stream env cfg (StreamOrBuffer inner ctx ms os) ctx 1 (rc_initial_backoff cfg) None w"

definition NewRetry ::
  "'w retry_env \<Rightarrow> int \<Rightarrow> retry_option list \<Rightarrow> err + 'w middleware" where
  "NewRetry env maxAttempts opts =
     (if maxAttempts < 1 then Inl (Sentinel (MiddlewareE ErrInvalidMaxAttempts))
      else (let cfg = fold (\<lambda>opt c. opt c) opts
              \<lparr>rc_max_attempts = maxAttempts, rc_initial_backoff = defaultInitialBackoff,
               rc_max_backoff = defaultMaxBackoff, rc_should_retry = (\<lambda>e. IsRetryable (Some e))\<rparr>
            in Inr (\<lambda>inner. \<lparr>llm_execute = retry_execute env cfg inner,
                 llm_stream = Some (retry_execute_stream env cfg inner), llm_describer = None\<rparr>)))"

subsection \<open>Guardrails\<close>

definition stageInput :: string where "stageInput = ''input''"
definition stageOutput :: string where "stageOutput = ''output''"

type_synonym 'w message_guard = "'w goctx \<Rightarrow> message list \<Rightarrow> 'w \<Rightarrow> err option \<times> 'w"
type_synonym 'w result_guard = "'w goctx \<Rightarrow> llm_result option \<Rightarrow> 'w \<Rightarrow> err option \<times> 'w"

record 'w guardrail_config =
  gc_message_guards :: "(string \<times> 'w message_guard) list"
  gc_result_guards :: "(string \<times> 'w result_guard) list"

type_synonym 'w guardrail_option = "'w guardrail_config \<Rightarrow> 'w guardrail_config"

definition WithMessageGuard :: "string \<Rightarrow> 'w message_guard \<Rightarrow> 'w guardrail_option" where
  "WithMessageGuard name g c = c\<lparr>gc_message_guards := gc_message_guards c @ [(name, g)]\<rparr>"
definition WithResultGuard :: "string \<Rightarrow> 'w result_guard \<Rightarrow> 'w guardrail_option" where
  "WithResultGuard name g c = c\<lparr>gc_result_guards := gc_result_guards c @ [(name, g)]\<rparr>"

text \<open>The guards run in order up to the first that fails.\<close>

fun run_guards :: "string \<Rightarrow> (string \<times> ('w \<Rightarrow> err option \<times> 'w)) list \<Rightarrow> 'w \<Rightarrow> err option \<times> 'w" where
  "run_guards stage [] w = (None, w)"
| "run_guards stage ((name, g) # gs) w =
     (case g w of
        (Some e, w') \<Rightarrow> (Some (GuardrailError stage name e), w')
      | (None, w') \<Rightarrow> run_guards stage gs w')"

definition checkInput :: "'w guardrail_config \<Rightarrow> 'w goctx \<Rightarrow> message list \<Rightarrow> 'w \<Rightarrow> err option \<times> 'w" where
  "checkInput cfg ctx ms =
     run_guards stageInput (map (\<lambda>(name, g). (name, g ctx ms)) (gc_message_guards cfg))"

definition checkResult ::
  "'w guardrail_config \<Rightarrow> 'w goctx \<Rightarrow> llm_result option \<Rightarrow> 'w \<Rightarrow> err option \<times> 'w" where
  "checkResult cfg ctx r =
     run_guards stageOutput (map (\<lambda>(name, g). (name, g ctx r)) (gc_result_guards cfg))"

definition guard_execute :: "'w guardrail_config \<Rightarrow> 'w llm \<Rightarrow> 'w execute" where
  "guard_execute cfg inner ctx ms os w =
     (case checkInput cfg ctx ms w of
        (Some e, w1) \<Rightarrow> (Inl e, w1)
      | (None, w1) \<Rightarrow>
          (case llm_execute inner ctx ms os w1 of
             (Inl e, w2) \<Rightarrow> (Inl e, w2)
           | (Inr r, w2) \<Rightarrow>
               (case checkResult cfg ctx r w2 of
                  (Some e, w3) \<Rightarrow> (Inl e, w3)
                | (None, w3) \<Rightarrow> (Inr r, w3))))"

definition resultFromChunk :: "stream_chunk \<Rightarrow> llm_result" where
  "resultFromChunk c = \<lparr>res_message = ch_message c, res_usage = ch_usage c, res_model = ch_model c,
     res_finish = ch_finish c, res_raw_finish = ch_raw_finish c\<rparr>"

fun guard_chunks ::
  "'w guardrail_config \<Rightarrow> 'w goctx \<Rightarrow> (err + stream_chunk) list \<Rightarrow> 'w \<Rightarrow> (err + stream_chunk) list \<times> 'w" where
  "guard_chunks cfg ctx [] w = ([], w)"
| "guard_chunks cfg ctx (Inl e # items) w = ([Inl e], w)"
| "guard_chunks cfg ctx (Inr c # items) w =
     (if ch_done c
      then (case checkResult cfg ctx (Some (resultFromChunk c)) w of
          (Some e, w') \<Rightarrow> ([Inl e], w')
        | (None, w') \<Rightarrow>
            (let (rest, w'') = guard_chunks cfg ctx items w' in (Inr c # rest, w'')))
      else (let (rest, w') = guard_chunks cfg ctx items w in (Inr c # rest, w')))"

definition guard_execute_stream :: "'w guardrail_config \<Rightarrow> 'w llm \<Rightarrow> 'w execute_stream" where
  "guard_execute_stream cfg inner ctx ms os w =
     (case checkInput cfg ctx ms w of
        (Some e, w1) \<Rightarrow> ([Inl e], w1)
      | (None, w1) \<Rightarrow>
          (let (items, w2) = StreamOrBuffer inner ctx ms os w1 in guard_chunks cfg ctx items w2))"

definition NewGuardrails :: "'w guardrail_option list \<Rightarrow> 'w middleware" where
  "NewGuardrails opts inner =
     (let cfg = fold (\<lambda>opt c. opt c) opts \<lparr>gc_message_guards = [], gc_result_guards = []\<rparr> in
      \<lparr>llm_execute = guard_execute cfg inner, llm_stream = Some (guard_execute_stream cfg inner),
       llm_describer = None\<rparr>)"

subsection \<open>The back-off\<close>

lemma wrap64_id: "- (2 ^ 63) \<le> x \<Longrightarrow> x < 2 ^ 63 \<Longrightarrow> wrap64 x = x"
  by (simp add: wrap64_def)

lemma next_backoff_min:
  "0 \<le> b \<Longrightarrow> b \<le> rc_max_backoff cfg \<Longrightarrow> rc_max_backoff cfg < 2 ^ 62 \<Longrightarrow>
   next_backoff cfg b = min (2 * b) (rc_max_backoff cfg)"
  by (simp add: next_backoff_def backoffFactor_def wrap64_id)

lemma backoff_power:
  assumes "0 \<le> b" "b \<le> rc_max_backoff cfg" "rc_max_backoff cfg < 2 ^ 62"
  shows "(next_backoff cfg ^^ n) b = min (b * 2 ^ n) (rc_max_backoff cfg)"
proof (induction n)
  case (Suc n)
  have "0 \<le> (next_backoff cfg ^^ n) b" "(next_backoff cfg ^^ n) b \<le> rc_max_backoff cfg"
    using assms by (simp_all add: Suc)
  then have "(next_backoff cfg ^^ Suc n) b = min (2 * (next_backoff cfg ^^ n) b) (rc_max_backoff cfg)"
    using next_backoff_min[of "(next_backoff cfg ^^ n) b" cfg] assms(3) by simp
  also have "\<dots> = min (b * 2 ^ Suc n) (rc_max_backoff cfg)"
    using assms(1,2) by (simp add: Suc min_def)
  finally show ?case .
qed (use assms in simp)

text \<open>
  The waits back off exponentially and never pass the cap: the back-off after \<open>n\<close> retries is the
  initial one doubled \<open>n\<close> times, capped; and every wait drawn from it is between zero and the cap, and
  without a provider's hint between three quarters and five quarters of the back-off (rounding aside).
\<close>

theorem backoff_bounded:
  assumes "0 \<le> rc_initial_backoff cfg" "rc_initial_backoff cfg \<le> rc_max_backoff cfg"
    "rc_max_backoff cfg < 2 ^ 62"
    "\<And>h w. 0 < h \<Longrightarrow> 0 \<le> fst (re_rand env h w) \<and> fst (re_rand env h w) < h"
  shows "let b = (next_backoff cfg ^^ n) (rc_initial_backoff cfg);
             sleep = fst (sleepFor env cfg b e w) in
     b = min (rc_initial_backoff cfg * 2 ^ n) (rc_max_backoff cfg) \<and>
     0 \<le> sleep \<and> sleep \<le> rc_max_backoff cfg \<and> min (b - b div 4) (rc_max_backoff cfg) \<le> sleep \<and>
     (case err_as_provider e of None \<Rightarrow> sleep \<le> b + b div 4 + 1 | Some _ \<Rightarrow> True)"
proof -
  define b where "b = (next_backoff cfg ^^ n) (rc_initial_backoff cfg)"
  have b: "b = min (rc_initial_backoff cfg * 2 ^ n) (rc_max_backoff cfg)"
    unfolding b_def by (rule backoff_power) (use assms in auto)
  then have bounds: "0 \<le> b" "b \<le> rc_max_backoff cfg" "b < 2 ^ 62" using assms by auto
  obtain r w' where r: "re_rand env (quot b 2) w = (r, w')" by fastforce
  define s where "s = (if 0 < quot b 2
      then max (wrap64 (b + wrap64 (r - quot b 4))) 0 else b)"
  have fst_sleep: "fst (sleepFor env cfg b e w) =
      min (case err_as_provider e of Some (_, after, _) \<Rightarrow> if s < after then after else s | None \<Rightarrow> s)
        (rc_max_backoff cfg)"
    by (simp add: sleepFor_def Let_def r s_def jitterHalfDivisor_def jitterQuarterDivisor_def
        split: option.split)
  have s: "b - b div 4 \<le> s \<and> s \<le> b + b div 4 + 1"
  proof -
    have q: "quot b 2 = b div 2" "quot b 4 = b div 4" using bounds by (simp_all add: quot_def)
    show ?thesis
    proof (cases "0 < b div 2")
      case True
      then have "0 \<le> r" "r < b div 2" using assms(4)[of "b div 2" w] r q by auto
      moreover from this have "wrap64 (r - b div 4) = r - b div 4"
        using bounds by (intro wrap64_id) auto
      moreover have "wrap64 (b + (r - b div 4)) = b + (r - b div 4)"
        using calculation bounds by (intro wrap64_id) auto
      ultimately have "s = b + (r - b div 4)"
        using bounds True by (simp add: s_def q)
      then show ?thesis using \<open>0 \<le> r\<close> \<open>r < b div 2\<close> by auto
    qed (use bounds q in \<open>auto simp: s_def\<close>)
  qed
  define x where
    "x = (case err_as_provider e of Some (_, after, _) \<Rightarrow> if s < after then after else s | None \<Rightarrow> s)"
  have x: "s \<le> x" "err_as_provider e = None \<longrightarrow> x = s" by (auto simp: x_def split: option.split)
  have quarter: "0 \<le> b div 4" "b div 4 \<le> b" using bounds by auto
  then have "0 \<le> min x (rc_max_backoff cfg)" "min (b - b div 4) (rc_max_backoff cfg) \<le> min x (rc_max_backoff cfg)"
      "err_as_provider e = None \<longrightarrow> min x (rc_max_backoff cfg) \<le> b + b div 4 + 1"
    using s x bounds by auto
  then show ?thesis
    unfolding Let_def b_def[symmetric] fst_sleep x_def[symmetric] using b by (simp split: option.split)
qed

text \<open>A configuration and an environment for the witnesses: waits fire, draws are the middle value.\<close>

definition ex_retry_env :: "'w retry_env" where
  "ex_retry_env = \<lparr>re_rand = (\<lambda>h w. (h div 2, w)), re_wait = (\<lambda>_ _ w. (None, w))\<rparr>"

definition ex_retry_config :: retry_config where
  "ex_retry_config = \<lparr>rc_max_attempts = 3, rc_initial_backoff = defaultInitialBackoff,
     rc_max_backoff = defaultMaxBackoff, rc_should_retry = (\<lambda>e. IsRetryable (Some e))\<rparr>"

theorem backoff_bounded_witness:
  "let b = (next_backoff ex_retry_config ^^ 3) (rc_initial_backoff ex_retry_config);
       sleep = fst (sleepFor ex_retry_env ex_retry_config b (Opaque ''reset'') ()) in
     b = min (rc_initial_backoff ex_retry_config * 2 ^ 3) (rc_max_backoff ex_retry_config) \<and>
     0 \<le> sleep \<and> sleep \<le> rc_max_backoff ex_retry_config \<and>
     min (b - b div 4) (rc_max_backoff ex_retry_config) \<le> sleep \<and>
     (case err_as_provider (Opaque ''reset'') of None \<Rightarrow> sleep \<le> b + b div 4 + 1 | Some _ \<Rightarrow> True)"
  by (rule backoff_bounded) (simp_all add: ex_retry_config_def ex_retry_env_def retry_constants)

subsection \<open>What a retry returns\<close>

text \<open>
  The outcomes of the wrapped LLM, one per call, as a script that the world holds: a call takes the
  next. A failure to be retried is silent; the first other outcome within the allowed attempts is what
  the caller gets, and no further call is made.
\<close>

definition scripted :: "(err + llm_result option) list \<Rightarrow> (err + llm_result option) \<times> (err + llm_result option) list" where
  "scripted s = (case s of [] \<Rightarrow> (Inr None, []) | out # rest \<Rightarrow> (out, rest))"

definition retryable_outcome :: "retry_config \<Rightarrow> err + 'a \<Rightarrow> bool" where
  "retryable_outcome cfg out = (case out of Inl e \<Rightarrow> rc_should_retry cfg e | Inr _ \<Rightarrow> False)"

definition give_up :: "retry_config \<Rightarrow> err + 'a \<Rightarrow> err + 'b" where
  "give_up cfg out =
     (case out of
        Inl e \<Rightarrow> Inl (MaxAttemptsExceededError (rc_max_attempts cfg) e)
      | Inr _ \<Rightarrow> Inl (MaxAttemptsExceededError (rc_max_attempts cfg) (Opaque [])))"

definition retry_spec ::
  "retry_config \<Rightarrow> nat \<Rightarrow> (err + llm_result option) list \<Rightarrow>
    (err + llm_result option) \<times> (err + llm_result option) list" where
  "retry_spec cfg n s =
     (let k = length (takeWhile (retryable_outcome cfg) (take n s)) in
      if k < n then (s ! k, drop (Suc k) s) else (give_up cfg (s ! (n - 1)), drop n s))"

definition steady :: "'w retry_env \<Rightarrow> bool" where
  "steady env \<longleftrightarrow> (\<forall>h w. snd (re_rand env h w) = w) \<and> (\<forall>ctx d w. re_wait env ctx d w = (None, w))"

lemma sleepFor_steady: "steady env \<Longrightarrow> snd (sleepFor env cfg b e w) = w"
  by (auto simp: steady_def sleepFor_def Let_def split: prod.split) (metis snd_conv)

lemma retry_spec_Cons:
  "0 < n \<Longrightarrow> retry_spec cfg n (out # s) =
     (if retryable_outcome cfg out
      then (if n = 1 then (give_up cfg out, s) else retry_spec cfg (n - 1) s) else (out, s))"
  by (cases n) (auto simp: retry_spec_def Let_def nth_Cons split: nat.split)

lemma retry_loop_spec:
  assumes "steady env" "ctx_err ctx = (\<lambda>_. None)"
  shows "left \<le> length s \<Longrightarrow>
    retry_loop env cfg scripted ctx left b e s = retry_spec cfg (Suc left) (Inl e # s)"
proof (induction left arbitrary: b e s)
  case 0
  then show ?case by (simp add: retry_spec_Cons retryable_outcome_def give_up_def)
next
  case (Suc left)
  then obtain out s' where s: "s = out # s'" by (cases s) auto
  obtain d where "sleepFor env cfg b e s = (d, s)"
    using sleepFor_steady[OF assms(1), of cfg b e s] by (metis prod.collapse)
  moreover have "re_wait env ctx d s = (None, s)" using assms(1) by (simp add: steady_def)
  ultimately have "retry_loop env cfg scripted ctx (Suc left) b e s =
      (if rc_should_retry cfg e
       then (case out of Inr r \<Rightarrow> (Inr r, s') | Inl e' \<Rightarrow> retry_loop env cfg scripted ctx left (next_backoff cfg b) e' s')
       else (Inl e, s))"
    by (simp add: assms(2) s scripted_def)
  also have "\<dots> = retry_spec cfg (Suc (Suc left)) (Inl e # s)"
    using Suc s by (simp add: retry_spec_Cons retryable_outcome_def give_up_def split: sum.split)
  finally show ?case .
qed

text \<open>
  C16: A retried call ends with the first outcome a retry cannot fix, success or error, after exactly
  as many calls of the wrapped LLM as there were outcomes up to it; when \<open>maxAttempts\<close> calls fail with
  retryable errors it gives up with \<open>MaxAttemptsExceededError\<close> around the last, and makes no more calls.
\<close>

theorem retry_first_final_outcome:
  assumes "steady env" "ctx_err ctx = (\<lambda>_. None)" "1 \<le> rc_max_attempts cfg"
    "nat (rc_max_attempts cfg) \<le> length script" "llm_execute inner ctx ms os = scripted"
  shows "retry_execute env cfg inner ctx ms os script = retry_spec cfg (nat (rc_max_attempts cfg)) script"
proof -
  obtain out s where s: "script = out # s" using assms(3,4) by (cases script) auto
  obtain n where n: "nat (rc_max_attempts cfg) = Suc n" "nat (rc_max_attempts cfg - 1) = n"
    using assms(3) by (cases "nat (rc_max_attempts cfg)") auto
  then have "n \<le> length s" using assms(4) s by simp
  then show ?thesis
    using retry_loop_spec[OF assms(1,2), of n s]
    by (simp add: retry_execute_def assms(2,5) s n scripted_def retry_spec_Cons retryable_outcome_def
        give_up_def split: sum.split)
qed

theorem retry_first_final_outcome_witness:
  "retry_execute ex_retry_env ex_retry_config (llm_func (\<lambda>_ _ _. scripted))
      \<lparr>ctx_err = (\<lambda>_. None), ctx_cause = (\<lambda>_. None), ctx_run = None, ctx_call = None\<rparr> [] []
      [Inl (NetErr ''reset''), Inr None, Inr None] =
   (Inr None, [Inr None])"
proof -
  let ?s = "[Inl (NetErr ''reset''), Inr None, Inr None] :: (err + llm_result option) list"
  have "retry_execute ex_retry_env ex_retry_config (llm_func (\<lambda>_ _ _. scripted))
      \<lparr>ctx_err = (\<lambda>_. None), ctx_cause = (\<lambda>_. None), ctx_run = None, ctx_call = None\<rparr> [] [] ?s =
      retry_spec ex_retry_config (nat (rc_max_attempts ex_retry_config)) ?s"
    by (rule retry_first_final_outcome)
      (simp_all add: steady_def ex_retry_env_def ex_retry_config_def llm_func_def)
  also have "\<dots> = (Inr None, [Inr None])" by code_simp
  finally show ?thesis .
qed

subsection \<open>What a retried stream delivers\<close>

definition scripted_stream ::
  "(err + stream_chunk) list list \<Rightarrow> (err + stream_chunk) list \<times> (err + stream_chunk) list list" where
  "scripted_stream s = (case s of [] \<Rightarrow> ([], []) | items # rest \<Rightarrow> (items, rest))"

text \<open>An attempt that fails before its first chunk, with an error to be retried.\<close>

definition silent :: "retry_config \<Rightarrow> (err + stream_chunk) list \<Rightarrow> bool" where
  "silent cfg items =
     (case stream_items items of
        ([], Some e) \<Rightarrow> \<not> err_is e (MiddlewareE ErrStreamStopped) \<and> rc_should_retry cfg e
      | _ \<Rightarrow> False)"

definition delivered :: "(err + stream_chunk) list \<Rightarrow> (err + stream_chunk) list" where
  "delivered items =
     (let (cs, eo) = stream_items items in
      map Inr cs @
      (case eo of
         None \<Rightarrow> []
       | Some e \<Rightarrow> if err_is e (MiddlewareE ErrStreamStopped) then [] else [Inl e]))"

definition stream_give_up :: "retry_config \<Rightarrow> (err + stream_chunk) list \<Rightarrow> (err + stream_chunk) list" where
  "stream_give_up cfg items =
     (case snd (stream_items items) of
        Some e \<Rightarrow> [Inl (MaxAttemptsExceededError (rc_max_attempts cfg) e)]
      | None \<Rightarrow> [])"

definition stream_spec ::
  "retry_config \<Rightarrow> nat \<Rightarrow> (err + stream_chunk) list list \<Rightarrow>
    (err + stream_chunk) list \<times> (err + stream_chunk) list list" where
  "stream_spec cfg n s =
     (let k = length (takeWhile (silent cfg) (take n s)) in
      if k < n then (delivered (s ! k), drop (Suc k) s)
      else (stream_give_up cfg (s ! (n - 1)), drop n s))"

lemma stream_spec_Cons:
  "0 < n \<Longrightarrow> stream_spec cfg n (items # s) =
     (if silent cfg items
      then (if n = 1 then (stream_give_up cfg items, s) else stream_spec cfg (n - 1) s)
      else (delivered items, s))"
  by (cases n) (auto simp: stream_spec_def Let_def nth_Cons split: nat.split)

lemma streamOutcome_silent:
  assumes "stream_items items = (cs, eo)"
  shows "streamOutcome cfg attempt (cs \<noteq> []) eo =
    (if silent cfg items
     then (if rc_max_attempts cfg \<le> int attempt
           then (True, Some (MaxAttemptsExceededError (rc_max_attempts cfg) (the eo))) else (False, None))
     else (True, case eo of None \<Rightarrow> None
       | Some e \<Rightarrow> if err_is e (MiddlewareE ErrStreamStopped) then None else Some e))"
  using assms by (auto simp: streamOutcome_def silent_def split: option.split list.split)

lemma beginAttempt_steady:
  assumes "steady env" "ctx_err ctx = (\<lambda>_. None)"
  shows "beginAttempt env cfg ctx a b lastErr w = (None, w)"
proof (cases lastErr)
  case (Some e)
  then show ?thesis
    using sleepFor_steady[OF assms(1), of cfg b e w] assms
    by (auto simp: beginAttempt_def steady_def split: prod.split)
qed (simp add: beginAttempt_def assms)

lemma silent_items: "silent cfg items \<Longrightarrow> stream_items items = ([], Some (the (snd (stream_items items))))"
  by (auto simp: silent_def split: prod.splits list.splits option.splits)

lemma retry_stream_step:
  assumes "steady env" "ctx_err ctx = (\<lambda>_. None)" "1 \<le> rc_max_attempts cfg"
  shows "retry_stream env cfg scripted_stream ctx a b lastErr (items # s) =
    (if silent cfg items
     then (if nat (rc_max_attempts cfg) \<le> a then (stream_give_up cfg items, s)
           else retry_stream env cfg scripted_stream ctx (Suc a)
             (if 1 < a then next_backoff cfg b else b) (snd (stream_items items)) s)
     else (delivered items, s))"
proof -
  obtain cs eo where it: "stream_items items = (cs, eo)" by fastforce
  have le: "rc_max_attempts cfg \<le> int a \<longleftrightarrow> nat (rc_max_attempts cfg) \<le> a" using assms(3) by linarith
  show ?thesis
    using silent_items[of cfg items] it
    by (subst retry_stream.simps)
      (auto simp: beginAttempt_steady[OF assms(1,2)] scripted_stream_def Let_def le
        streamOutcome_silent[OF it] delivered_def stream_give_up_def split: option.split prod.split)
qed

lemma retry_stream_spec:
  assumes "steady env" "ctx_err ctx = (\<lambda>_. None)" "1 \<le> rc_max_attempts cfg"
  shows "a + n = nat (rc_max_attempts cfg) \<Longrightarrow> n < length s \<Longrightarrow>
    retry_stream env cfg scripted_stream ctx a b lastErr s = stream_spec cfg (Suc n) s"
proof (induction n arbitrary: a b lastErr s)
  case 0
  then show ?case by (cases s) (auto simp: retry_stream_step[OF assms] stream_spec_Cons)
next
  case (Suc n)
  then show ?case by (cases s) (auto simp: retry_stream_step[OF assms] stream_spec_Cons)
qed

text \<open>
  C22: A retried stream never delivers part of an answer twice: it delivers one attempt only, the first
  that yields a chunk or ends in a way a retry cannot fix, and what failed before it yielded nothing.
  When every attempt allowed fails before its first chunk, the stream is one error around the last.
\<close>

theorem stream_retries_before_first_chunk:
  assumes "steady env" "ctx_err ctx = (\<lambda>_. None)" "1 \<le> rc_max_attempts cfg"
    "nat (rc_max_attempts cfg) \<le> length script" "StreamOrBuffer inner ctx ms os = scripted_stream"
  shows "retry_execute_stream env cfg inner ctx ms os script =
    stream_spec cfg (nat (rc_max_attempts cfg)) script"
proof -
  obtain n where "nat (rc_max_attempts cfg) = Suc n" using assms(3) by (cases "nat (rc_max_attempts cfg)") auto
  then show ?thesis
    using retry_stream_spec[OF assms(1-3), of 1 n script] assms(4)
    by (simp add: retry_execute_stream_def assms(5))
qed

definition ex_script :: "(err + stream_chunk) list list" where
  "ex_script = [[Inl (NetErr ''reset'')], [Inr (chunk_of_result None), Inl (NetErr ''reset'')], []]"

theorem stream_retries_before_first_chunk_witness:
  "retry_execute_stream ex_retry_env ex_retry_config
      \<lparr>llm_execute = (\<lambda>_ _ _ w. (Inr None, w)), llm_stream = Some (\<lambda>_ _ _. scripted_stream), llm_describer = None\<rparr>
      \<lparr>ctx_err = (\<lambda>_. None), ctx_cause = (\<lambda>_. None), ctx_run = None, ctx_call = None\<rparr> [] [] ex_script =
   ([Inr (chunk_of_result None), Inl (NetErr ''reset'')], [[]])"
proof -
  have "retry_execute_stream ex_retry_env ex_retry_config
      \<lparr>llm_execute = (\<lambda>_ _ _ w. (Inr None, w)), llm_stream = Some (\<lambda>_ _ _. scripted_stream), llm_describer = None\<rparr>
      \<lparr>ctx_err = (\<lambda>_. None), ctx_cause = (\<lambda>_. None), ctx_run = None, ctx_call = None\<rparr> [] [] ex_script =
      stream_spec ex_retry_config (nat (rc_max_attempts ex_retry_config)) ex_script"
    by (rule stream_retries_before_first_chunk)
      (simp_all add: steady_def ex_retry_env_def ex_retry_config_def ex_script_def StreamOrBuffer_def fun_eq_iff)
  also have "\<dots> = ([Inr (chunk_of_result None), Inl (NetErr ''reset'')], [[]])" by code_simp
  finally show ?thesis .
qed

subsection \<open>Results a guard rejects\<close>

text \<open>A guard that rejects something whatever the state of the world.\<close>

definition rejects :: "('w \<Rightarrow> err option \<times> 'w) \<Rightarrow> bool" where
  "rejects g \<longleftrightarrow> (\<forall>w. fst (g w) \<noteq> None)"

lemma run_guards_rejects:
  "(n, g) \<in> set gs \<Longrightarrow> rejects g \<Longrightarrow>
   \<exists>m e w'. run_guards stage gs w = (Some (GuardrailError stage m e), w') \<and> m \<in> fst ` set gs"
proof (induction gs arbitrary: w)
  case (Cons ng gs)
  obtain m h where ng: "ng = (m, h)" by fastforce
  obtain eo w1 where h: "h w = (eo, w1)" by fastforce
  show ?case
  proof (cases eo)
    case None
    then have "g \<noteq> h" using Cons.prems(2) h by (auto simp: rejects_def dest: spec[of _ w])
    then have "(n, g) \<in> set gs" using Cons.prems(1) ng by auto
    then show ?thesis using Cons.IH[of w1] Cons.prems(2) None h ng by auto
  qed (use h ng in auto)
qed simp

lemma checkResult_rejects:
  assumes "(n, g) \<in> set (gc_result_guards cfg)" "rejects (g ctx r)"
  shows "\<exists>m e w'. checkResult cfg ctx r w = (Some (GuardrailError stageOutput m e), w')"
proof -
  have "(n, g ctx r) \<in> set (map (\<lambda>(name, g). (name, g ctx r)) (gc_result_guards cfg))"
    using assms(1) by force
  then show ?thesis
    using run_guards_rejects[OF _ assms(2)] unfolding checkResult_def by blast
qed

lemma guard_chunks_blocks:
  assumes "(n, g) \<in> set (gc_result_guards cfg)" "rejects (g ctx (Some (resultFromChunk c)))" "ch_done c"
  shows "Inr c \<notin> set (fst (guard_chunks cfg ctx items w))"
proof (induction items arbitrary: w)
  case (Cons item items)
  show ?case
  proof (cases item)
    case (Inr d)
    have next_items: "Inr c \<notin> set (fst (guard_chunks cfg ctx items v))" for v by (rule Cons.IH)
    show ?thesis
    proof (cases "d = c")
      case True
      then show ?thesis
        using checkResult_rejects[OF assms(1,2), of w] assms(3) Inr by auto
    next
      case False
      then show ?thesis
        by (auto simp: Inr Let_def case_prod_beta next_items split: option.split)
    qed
  qed simp
qed simp

text \<open>
  A result that one of the guards rejects never reaches the caller: a buffered call returns the
  guard's error instead, and a stream never delivers the terminal chunk that carries the result.
\<close>

theorem rejected_result_never_delivered:
  assumes "(n, g) \<in> set (gc_result_guards cfg)" "rejects (g ctx (Some (resultFromChunk c)))" "ch_done c"
  shows "fst (guard_execute cfg inner ctx ms os w) \<noteq> Inr (Some (resultFromChunk c)) \<and>
    Inr c \<notin> set (fst (guard_execute_stream cfg inner ctx ms os w))"
proof
  show "fst (guard_execute cfg inner ctx ms os w) \<noteq> Inr (Some (resultFromChunk c))"
  proof
    assume "fst (guard_execute cfg inner ctx ms os w) = Inr (Some (resultFromChunk c))"
    then obtain w' w'' where "checkResult cfg ctx (Some (resultFromChunk c)) w' = (None, w'')"
      by (auto simp: guard_execute_def split: prod.splits option.splits sum.splits)
    then show False using checkResult_rejects[OF assms(1,2), of w'] by simp
  qed
  show "Inr c \<notin> set (fst (guard_execute_stream cfg inner ctx ms os w))"
    using guard_chunks_blocks[OF assms]
    by (auto simp: guard_execute_stream_def split: prod.split option.split)
qed

definition ex_guards :: "unit guardrail_config" where
  "ex_guards = \<lparr>gc_message_guards = [],
     gc_result_guards = [(''not empty'', \<lambda>_ r w. (case r of Some res \<Rightarrow>
       if res_message res = None then Some (Opaque ''empty'') else None | None \<Rightarrow> None, w))]\<rparr>"

theorem rejected_result_never_delivered_witness:
  "fst (guard_execute ex_guards (llm_func (\<lambda>_ _ _ w. (Inr (Some empty_result), w)))
      \<lparr>ctx_err = (\<lambda>_. None), ctx_cause = (\<lambda>_. None), ctx_run = None, ctx_call = None\<rparr> [] [] ())
      \<noteq> Inr (Some (resultFromChunk (chunk_of_result None))) \<and>
   Inr (chunk_of_result None) \<notin>
     set (fst (guard_execute_stream ex_guards (llm_func (\<lambda>_ _ _ w. (Inr (Some empty_result), w)))
      \<lparr>ctx_err = (\<lambda>_. None), ctx_cause = (\<lambda>_. None), ctx_run = None, ctx_call = None\<rparr> [] [] ()))"
  by (rule rejected_result_never_delivered[where n = "''not empty''" and g = "snd (hd (gc_result_guards ex_guards))"])
    (simp_all add: ex_guards_def rejects_def resultFromChunk_def chunk_of_result_def empty_chunk_def)

end
