(* ===== verification/Limiter.thy ===== *)
theory Limiter
  imports Complex_Main Llm "HOL-Library.Multiset"
begin

section \<open>The rate and concurrency limiter\<close>

text \<open>
  \<open>llm/middleware/limiter.go\<close> as a state machine: the token bucket and the semaphore are counters of
  what their channels hold, each call is in one phase of \<open>acquire\<close> or runs, and a step is one channel
  operation of one call, a tick of the token producer, or \<open>stop\<close>. The interleaving of calls is any
  sequence of steps. Where a \<open>select\<close> has several ready cases each is a step of its own. Two counters are
  kept for the statements only: the ticks so far, and the calls that got through.

  The rate is a rational number; the code computes with \<open>float64\<close>, whose rounding is left out. Trace
  spans are left out, and the wrapped call is the time between two steps.
\<close>

definition second :: int where "second = 1000000000"

record limiter_config =
  lc_interval :: int
  lc_capacity :: nat
  lc_max :: nat

definition NewLimiter :: "rat \<Rightarrow> int \<Rightarrow> err + limiter_config" where
  "NewLimiter requestsPerSecond maxConcurrentRequests =
     (if requestsPerSecond \<le> 0 then Inl (Sentinel (MiddlewareE ErrInvalidRate))
      else if maxConcurrentRequests \<le> 0 then Inl (Sentinel (MiddlewareE ErrInvalidMaxConcurrentRequests))
      else Inr \<lparr>lc_interval = \<lfloor>of_int second / requestsPerSecond\<rfloor>,
          lc_capacity = nat (max 1 \<lfloor>requestsPerSecond\<rfloor>),
          lc_max = nat maxConcurrentRequests\<rparr>)"

text \<open>\<open>time.NewTicker\<close> panics on an interval that is not positive.\<close>

definition start_producer :: "limiter_config \<Rightarrow> unit outcome" where
  "start_producer cfg =
     (if lc_interval cfg \<le> 0 then Panicked ''non-positive interval for NewTicker'' else Returned ())"

datatype phase =
    Arriving | TokenTaken | NeedToken | NeedSlot | Calling | Ended "err option"

record limiter =
  lm_tokens :: nat
  lm_slots :: nat
  lm_stopped :: bool
  lm_producing :: bool
  lm_calls :: "phase list"
  lm_ticks :: nat
  lm_started :: nat

definition initial_limiter :: "limiter_config \<Rightarrow> limiter" where
  "initial_limiter cfg = \<lparr>lm_tokens = lc_capacity cfg, lm_slots = 0, lm_stopped = False,
     lm_producing = True, lm_calls = [], lm_ticks = 0, lm_started = 0\<rparr>"

definition set_phase :: "nat \<Rightarrow> phase \<Rightarrow> limiter \<Rightarrow> limiter" where
  "set_phase i p s = s\<lparr>lm_calls := (lm_calls s)[i := p]\<rparr>"

text \<open>The send of the producer: a token is discarded when the bucket is full.\<close>

definition tick :: "limiter_config \<Rightarrow> limiter \<Rightarrow> limiter" where
  "tick cfg s = s\<lparr>lm_ticks := Suc (lm_ticks s),
     lm_tokens := (if lm_tokens s < lc_capacity cfg then Suc (lm_tokens s) else lm_tokens s)\<rparr>"

definition take_token :: "nat \<Rightarrow> phase \<Rightarrow> limiter \<Rightarrow> limiter" where
  "take_token i p s = (set_phase i p s)\<lparr>lm_tokens := lm_tokens s - 1\<rparr>"

definition take_slot :: "nat \<Rightarrow> limiter \<Rightarrow> limiter" where
  "take_slot i s = (set_phase i Calling s)\<lparr>lm_slots := Suc (lm_slots s), lm_started := Suc (lm_started s)\<rparr>"

definition release_slot :: "nat \<Rightarrow> limiter \<Rightarrow> limiter" where
  "release_slot i s = (set_phase i (Ended None) s)\<lparr>lm_slots := lm_slots s - 1\<rparr>"

definition in_phase :: "limiter \<Rightarrow> nat \<Rightarrow> phase \<Rightarrow> bool" where
  "in_phase s i p \<longleftrightarrow> i < length (lm_calls s) \<and> lm_calls s ! i = p"

inductive limiter_step :: "limiter_config \<Rightarrow> limiter \<Rightarrow> limiter \<Rightarrow> bool" for cfg where
  arrive: "limiter_step cfg s (s\<lparr>lm_calls := lm_calls s @ [Arriving]\<rparr>)"
| token_now: "in_phase s i Arriving \<Longrightarrow> 0 < lm_tokens s \<Longrightarrow> limiter_step cfg s (take_token i TokenTaken s)"
| no_token: "in_phase s i Arriving \<Longrightarrow> lm_tokens s = 0 \<Longrightarrow> limiter_step cfg s (set_phase i NeedToken s)"
| slot_now: "in_phase s i TokenTaken \<Longrightarrow> lm_slots s < lc_max cfg \<Longrightarrow> limiter_step cfg s (take_slot i s)"
| no_slot: "in_phase s i TokenTaken \<Longrightarrow> \<not> lm_slots s < lc_max cfg \<Longrightarrow>
    limiter_step cfg s (set_phase i NeedSlot s)"
| token_later: "in_phase s i NeedToken \<Longrightarrow> 0 < lm_tokens s \<Longrightarrow> limiter_step cfg s (take_token i NeedSlot s)"
| slot_later: "in_phase s i NeedSlot \<Longrightarrow> lm_slots s < lc_max cfg \<Longrightarrow> limiter_step cfg s (take_slot i s)"
| cancelled: "in_phase s i p \<Longrightarrow> p = NeedToken \<or> p = NeedSlot \<Longrightarrow>
    limiter_step cfg s (set_phase i (Ended (Some e)) s)"
| stopped: "in_phase s i p \<Longrightarrow> p = NeedToken \<or> p = NeedSlot \<Longrightarrow> lm_stopped s \<Longrightarrow>
    limiter_step cfg s (set_phase i (Ended (Some (Sentinel (MiddlewareE ErrStopped)))) s)"
| return: "in_phase s i Calling \<Longrightarrow> limiter_step cfg s (release_slot i s)"
| tick: "lm_producing s \<Longrightarrow> limiter_step cfg s (tick cfg s)"
| stop: "limiter_step cfg s (s\<lparr>lm_stopped := True\<rparr>)"
| producer_exit: "lm_stopped s \<Longrightarrow> limiter_step cfg s (s\<lparr>lm_producing := False\<rparr>)"

inductive limiter_reach :: "limiter_config \<Rightarrow> limiter \<Rightarrow> bool" for cfg where
  start: "limiter_reach cfg (initial_limiter cfg)"
| step: "limiter_reach cfg s \<Longrightarrow> limiter_step cfg s s' \<Longrightarrow> limiter_reach cfg s'"

subsection \<open>The invariant\<close>

definition calls_in :: "limiter \<Rightarrow> phase \<Rightarrow> nat" where
  "calls_in s p = count (mset (lm_calls s)) p"

definition limiter_inv :: "limiter_config \<Rightarrow> limiter \<Rightarrow> bool" where
  "limiter_inv cfg s \<longleftrightarrow>
     lm_tokens s \<le> lc_capacity cfg \<and>
     calls_in s Calling = lm_slots s \<and> lm_slots s \<le> lc_max cfg \<and>
     lm_started s + lm_tokens s + calls_in s TokenTaken + calls_in s NeedSlot
       \<le> lc_capacity cfg + lm_ticks s"

lemma calls_in_arrive [simp]:
  "calls_in (s\<lparr>lm_calls := lm_calls s @ [Arriving]\<rparr>) p = calls_in s p + (if p = Arriving then 1 else 0)"
  by (simp add: calls_in_def)

text \<open>A call that changes phase leaves one count and joins another.\<close>

lemma calls_in_set_phase:
  assumes "in_phase s i q"
  shows "calls_in (set_phase i p s) r + (if r = q then 1 else 0) = calls_in s r + (if r = p then 1 else 0)"
proof -
  have i: "i < length (lm_calls s)" and q: "lm_calls s ! i = q" using assms by (auto simp: in_phase_def)
  have "q \<in># mset (lm_calls s)" using i q nth_mem_mset by blast
  then have "0 < count (mset (lm_calls s)) q" by simp
  then show ?thesis using i q by (auto simp: calls_in_def set_phase_def mset_update)
qed

lemma limiter_fields [simp]:
  "lm_tokens (set_phase i p s) = lm_tokens s" "lm_slots (set_phase i p s) = lm_slots s"
  "lm_ticks (set_phase i p s) = lm_ticks s" "lm_started (set_phase i p s) = lm_started s"
  "lm_tokens (take_token i p s) = lm_tokens s - 1" "lm_slots (take_token i p s) = lm_slots s"
  "lm_ticks (take_token i p s) = lm_ticks s" "lm_started (take_token i p s) = lm_started s"
  "lm_tokens (take_slot i s) = lm_tokens s" "lm_slots (take_slot i s) = Suc (lm_slots s)"
  "lm_ticks (take_slot i s) = lm_ticks s" "lm_started (take_slot i s) = Suc (lm_started s)"
  "lm_tokens (release_slot i s) = lm_tokens s" "lm_slots (release_slot i s) = lm_slots s - 1"
  "lm_ticks (release_slot i s) = lm_ticks s" "lm_started (release_slot i s) = lm_started s"
  "calls_in (take_token i p s) r = calls_in (set_phase i p s) r"
  "calls_in (take_slot i s) r = calls_in (set_phase i Calling s) r"
  "calls_in (release_slot i s) r = calls_in (set_phase i (Ended None) s) r"
  "calls_in (s\<lparr>lm_stopped := b\<rparr>) r = calls_in s r" "calls_in (s\<lparr>lm_producing := b\<rparr>) r = calls_in s r"
  "calls_in (tick cfg s) r = calls_in s r"
  by (simp_all add: set_phase_def take_token_def take_slot_def release_slot_def calls_in_def tick_def)

lemma phase_counts:
  assumes "in_phase s i q"
  shows "calls_in (set_phase i p s) Calling + (if Calling = q then 1 else 0) =
      calls_in s Calling + (if Calling = p then 1 else 0)"
    "calls_in (set_phase i p s) TokenTaken + (if TokenTaken = q then 1 else 0) =
      calls_in s TokenTaken + (if TokenTaken = p then 1 else 0)"
    "calls_in (set_phase i p s) NeedSlot + (if NeedSlot = q then 1 else 0) =
      calls_in s NeedSlot + (if NeedSlot = p then 1 else 0)"
  using calls_in_set_phase[OF assms] by blast+

lemma limiter_step_inv: "limiter_step cfg s s' \<Longrightarrow> limiter_inv cfg s \<Longrightarrow> limiter_inv cfg s'"
proof (induction rule: limiter_step.induct)
  case (token_now s i)
  then show ?case using phase_counts[OF token_now(1), of TokenTaken] by (auto simp: limiter_inv_def)
next
  case (no_token s i)
  then show ?case using phase_counts[OF no_token(1), of NeedToken] by (simp add: limiter_inv_def)
next
  case (slot_now s i)
  then show ?case using phase_counts[OF slot_now(1), of Calling] by (simp add: limiter_inv_def)
next
  case (no_slot s i)
  then show ?case using phase_counts[OF no_slot(1), of NeedSlot] by (simp add: limiter_inv_def)
next
  case (token_later s i)
  then show ?case using phase_counts[OF token_later(1), of NeedSlot] by (auto simp: limiter_inv_def)
next
  case (slot_later s i)
  then show ?case using phase_counts[OF slot_later(1), of Calling] by (simp add: limiter_inv_def)
next
  case (cancelled s i p e)
  then show ?case
    using phase_counts[OF cancelled(1), of "Ended (Some e)"] by (auto simp: limiter_inv_def)
next
  case (stopped s i p)
  then show ?case
    using phase_counts[OF stopped(1), of "Ended (Some (Sentinel (MiddlewareE ErrStopped)))"]
    by (auto simp: limiter_inv_def)
next
  case (return s i)
  then show ?case using phase_counts[OF return(1), of "Ended None"] by (auto simp: limiter_inv_def)
next
  case (tick s)
  then show ?case by (simp add: limiter_inv_def) (simp add: tick_def)
qed (simp_all add: limiter_inv_def)

lemma limiter_reach_inv: "limiter_reach cfg s \<Longrightarrow> limiter_inv cfg s"
proof (induction rule: limiter_reach.induct)
  case start
  then show ?case by (simp add: limiter_inv_def initial_limiter_def calls_in_def)
qed (rule limiter_step_inv)

subsection \<open>Properties\<close>

text \<open>
  C24: However the calls interleave, at most \<open>maxConcurrentRequests\<close> of them run at any time, each holding
  one slot, and no more have got through than the bucket's capacity and one for each tick since.
\<close>

theorem limiter_limits:
  assumes "limiter_reach cfg s"
  shows "calls_in s Calling = lm_slots s \<and> lm_slots s \<le> lc_max cfg \<and>
    lm_started s \<le> lc_capacity cfg + lm_ticks s"
  using limiter_reach_inv[OF assms] by (simp add: limiter_inv_def)

text \<open>A run for the witnesses: rate 2, and three calls that get through by the first tick.\<close>

definition ex_limiter :: limiter_config where
  "ex_limiter = \<lparr>lc_interval = 500000000, lc_capacity = 2, lc_max = 5\<rparr>"

definition ex_calls :: limiter where
  "ex_calls = (initial_limiter ex_limiter)\<lparr>lm_calls := [Arriving, Arriving, Arriving]\<rparr>"

definition ex_first_two :: limiter where
  "ex_first_two =
     take_slot 1 (take_slot 0 (take_token 1 TokenTaken (take_token 0 TokenTaken ex_calls)))"

definition ex_third :: limiter where
  "ex_third = take_slot 2 (take_token 2 TokenTaken (tick ex_limiter ex_first_two))"

lemma ex_calls_reach: "limiter_reach ex_limiter ex_calls"
proof -
  let ?more = "\<lambda>s. s\<lparr>lm_calls := lm_calls s @ [Arriving]\<rparr>"
  have "limiter_reach ex_limiter (?more (?more (?more (initial_limiter ex_limiter))))"
    by (intro limiter_reach.step[OF _ limiter_step.arrive] limiter_reach.start)
  then show ?thesis by (simp add: ex_calls_def initial_limiter_def)
qed

lemma ex_first_two_reach: "limiter_reach ex_limiter ex_first_two"
  unfolding ex_first_two_def
  by (rule limiter_reach.step[OF limiter_reach.step[OF limiter_reach.step[OF limiter_reach.step[OF
        ex_calls_reach limiter_step.token_now] limiter_step.token_now] limiter_step.slot_now]
        limiter_step.slot_now]) code_simp+

lemma ex_third_reach: "limiter_reach ex_limiter ex_third"
  unfolding ex_third_def
  by (rule limiter_reach.step[OF limiter_reach.step[OF limiter_reach.step[OF
        ex_first_two_reach limiter_step.tick] limiter_step.token_now] limiter_step.slot_now]) code_simp+

theorem limiter_limits_witness:
  "calls_in ex_third Calling = lm_slots ex_third \<and> lm_slots ex_third \<le> lc_max ex_limiter \<and>
    lm_started ex_third \<le> lc_capacity ex_limiter + lm_ticks ex_third"
  by (rule limiter_limits[OF ex_third_reach])

text \<open>
  The bound is reached, so more calls than \<open>requestsPerSecond\<close> may start within a second: with a rate
  of 2, a tick each half second, three calls have started by the first tick.
\<close>

theorem burst_exceeds_rate:
  "NewLimiter 2 5 = Inr ex_limiter \<and> lc_interval ex_limiter = second div 2 \<and>
   limiter_reach ex_limiter ex_third \<and> lm_ticks ex_third = 1 \<and> lm_started ex_third = 3"
proof (intro conjI)
  show "NewLimiter 2 5 = Inr ex_limiter" by (simp add: NewLimiter_def ex_limiter_def second_def)
  show "limiter_reach ex_limiter ex_third" by (rule ex_third_reach)
qed (simp add: ex_limiter_def second_def, code_simp+)

text \<open>
  A rate above a thousand million per second is accepted, although its interval rounds to zero, and
  the token producer then panics in its own goroutine.
\<close>

theorem fast_rate_panics:
  assumes "1000000000 < rate" "0 < n"
  shows "\<exists>cfg. NewLimiter rate n = Inr cfg \<and>
    start_producer cfg = Panicked ''non-positive interval for NewTicker''"
proof -
  have "\<lfloor>of_int second / rate\<rfloor> = 0"
    using assms(1) by (simp add: floor_eq_iff second_def)
  then show ?thesis using assms by (simp add: NewLimiter_def start_producer_def)
qed

theorem fast_rate_panics_witness:
  "\<exists>cfg. NewLimiter 2000000000 3 = Inr cfg \<and>
    start_producer cfg = Panicked ''non-positive interval for NewTicker''"
  by (rule fast_rate_panics) simp_all

text \<open>
  Once the limiter is stopped no call stays blocked: whatever the calls that run do, all those that
  wait for a token or a slot can end, without a further token or slot.
\<close>

theorem stop_frees_waiting_calls:
  assumes "lm_stopped s"
  shows "\<exists>s'. (limiter_step cfg)\<^sup>*\<^sup>* s s' \<and> calls_in s' NeedToken = 0 \<and> calls_in s' NeedSlot = 0 \<and>
    calls_in s' Calling = calls_in s Calling \<and> lm_tokens s' = lm_tokens s"
  using assms
proof (induction "calls_in s NeedToken + calls_in s NeedSlot" arbitrary: s)
  case (Suc n)
  let ?final = "Ended (Some (Sentinel (MiddlewareE ErrStopped)))"
  obtain p where p: "p = NeedToken \<or> p = NeedSlot" "0 < calls_in s p"
  proof (cases "calls_in s NeedToken = 0")
    case True
    then show ?thesis using that[of NeedSlot] Suc.hyps(2) by simp
  qed (use that[of NeedToken] in simp)
  then obtain i where i: "in_phase s i p"
    by (auto simp: calls_in_def in_phase_def in_set_conv_nth)
  let ?s = "set_phase i ?final s"
  have st: "limiter_step cfg s ?s" using i p(1) Suc.prems by (rule limiter_step.stopped)
  have counts: "calls_in ?s r + (if r = p then 1 else 0) = calls_in s r + (if r = ?final then 1 else 0)" for r
    by (rule calls_in_set_phase[OF i])
  have "n = calls_in ?s NeedToken + calls_in ?s NeedSlot"
    using Suc.hyps(2) p(1) counts[of NeedToken] counts[of NeedSlot] by auto
  moreover have "lm_stopped ?s" using Suc.prems by (simp add: set_phase_def)
  ultimately obtain s' where "(limiter_step cfg)\<^sup>*\<^sup>* ?s s'" "calls_in s' NeedToken = 0"
      "calls_in s' NeedSlot = 0" "calls_in s' Calling = calls_in ?s Calling" "lm_tokens s' = lm_tokens ?s"
    using Suc.hyps(1) by blast
  then show ?case using st p(1) counts[of Calling]
    by (intro exI[of _ s']) (auto intro: converse_rtranclp_into_rtranclp)
qed auto

theorem stop_frees_waiting_calls_witness:
  "\<exists>s'. (limiter_step ex_limiter)\<^sup>*\<^sup>* (ex_third\<lparr>lm_stopped := True\<rparr>) s' \<and>
    calls_in s' NeedToken = 0 \<and> calls_in s' NeedSlot = 0 \<and>
    calls_in s' Calling = calls_in (ex_third\<lparr>lm_stopped := True\<rparr>) Calling \<and>
    lm_tokens s' = lm_tokens (ex_third\<lparr>lm_stopped := True\<rparr>)"
  by (rule stop_frees_waiting_calls) simp

end
