(* ===== verification/Text_Splitter.thy ===== *)
theory Text_Splitter
  imports Go_Errors
begin

section \<open>The recursive text splitter\<close>

text \<open>
  \<open>textsplitter/recursive\<close> (and \<open>textsplitter/markdown\<close>, which only sets its separators): cutting a
  text into chunks at the first separator it contains, merging the pieces up to the chunk size with
  some overlap, and cutting longer pieces at the next separators. The length function is a parameter,
  as in the code; \<open>go_len\<close> is the default.

  The consumer reads every chunk. What is yielded comes with how the code ended: it returned, or it
  crashed on a slice index, after what it yielded before. The recursion on a longer piece takes fuel;
  \<open>OutOfFuel\<close> is what the theorem \<open>split_ends\<close> excludes.
\<close>

datatype ending = Finished | Crashed | OutOfFuel

type_synonym yielded = "string list \<times> ending"

definition and_then :: "yielded \<Rightarrow> yielded \<Rightarrow> yielded" where
  "and_then a b = (case snd a of Finished \<Rightarrow> (fst a @ fst b, snd b) | e \<Rightarrow> a)"

definition go_len :: "string \<Rightarrow> int" where
  "go_len s = int (length s)"

definition nl :: char where "nl = CHR 0x0A"

definition defaultSeparators :: "string list" where
  "defaultSeparators = [[nl, nl], [nl], '' '', []]"

definition markdown_separators :: "string list" where
  "markdown_separators =
     [nl # ''## '', nl # ''### '', nl # ''#### '', nl # ''##### '', nl # ''###### '',
      [nl, nl], [nl], '' '', []]"

record splitter =
  sp_source :: string
  sp_size :: int
  sp_overlap :: int
  sp_len :: "string \<Rightarrow> int"
  sp_separators :: "string list"

definition New_splitter :: "string \<Rightarrow> int \<Rightarrow> int \<Rightarrow> splitter" where
  "New_splitter source sz overlap = \<lparr>sp_source = source, sp_size = sz, sp_overlap = overlap,
     sp_len = go_len, sp_separators = defaultSeparators\<rparr>"

definition WithSeparators :: "string list \<Rightarrow> splitter \<Rightarrow> splitter" where
  "WithSeparators seps r = r\<lparr>sp_separators := seps\<rparr>"

definition WithLengthFunction :: "(string \<Rightarrow> int) \<Rightarrow> splitter \<Rightarrow> splitter" where
  "WithLengthFunction f r = r\<lparr>sp_len := f\<rparr>"

definition New_markdown :: "string \<Rightarrow> int \<Rightarrow> int \<Rightarrow> splitter" where
  "New_markdown source sz overlap = WithSeparators markdown_separators (New_splitter source sz overlap)"

subsection \<open>Merging pieces\<close>

definition separatorLen :: "string list \<Rightarrow> string \<Rightarrow> nat \<Rightarrow> int" where
  "separatorLen docs sep n = (if n < length docs then int (length sep) else 0)"

definition joinDocs :: "string list \<Rightarrow> string \<Rightarrow> string" where
  "joinDocs docs sep = trim_space (go_join docs sep)"

text \<open>The inner loop drops pieces from the front; \<open>currentDoc[0]\<close> of an empty slice crashes.\<close>

fun pop_docs :: "splitter \<Rightarrow> string \<Rightarrow> string list \<Rightarrow> int \<Rightarrow> (string list \<times> int) option" where
  "pop_docs r sep [] tot =
     (if sp_overlap r < tot \<or> sp_size r < separatorLen [] sep 0 \<and> 0 < tot then None
      else Some ([], tot))"
| "pop_docs r sep (d # ds) tot =
     (if sp_overlap r < tot \<or> sp_size r < separatorLen (d # ds) sep 0 \<and> 0 < tot
      then pop_docs r sep ds (tot - (sp_len r d + separatorLen (d # ds) sep 1))
      else Some (d # ds, tot))"

fun merge_loop :: "splitter \<Rightarrow> string \<Rightarrow> string list \<Rightarrow> int \<Rightarrow> string list \<Rightarrow> yielded" where
  "merge_loop r sep docs tot [] =
     (let doc = joinDocs docs sep in (if doc \<noteq> [] then [doc] else [], Finished))"
| "merge_loop r sep docs tot (d # ds) =
     (let splitLen = sp_len r d;
          add = (\<lambda>docs tot. merge_loop r sep (docs @ [d])
            (tot + separatorLen (docs @ [d]) sep 1 + splitLen) ds) in
      if sp_size r < tot + splitLen + separatorLen docs sep 0 \<and> docs \<noteq> []
      then (let doc = joinDocs docs sep; out = (if doc \<noteq> [] then [doc] else []) in
        case pop_docs r sep docs tot of
          None \<Rightarrow> (out, Crashed)
        | Some (docs', tot') \<Rightarrow> and_then (out, Finished) (add docs' tot'))
      else add docs tot)"

definition mergeSplits :: "splitter \<Rightarrow> string \<Rightarrow> string list \<Rightarrow> yielded" where
  "mergeSplits r sep splits = merge_loop r sep [] 0 splits"

subsection \<open>Splitting\<close>

fun choose_separator :: "string \<Rightarrow> string list \<Rightarrow> string \<Rightarrow> string \<times> string list" where
  "choose_separator dflt [] text = (dflt, [])"
| "choose_separator dflt (s # ss) text =
     (if s = [] then (s, [])
      else if go_contains text s then (s, ss)
      else choose_separator dflt ss text)"

text \<open>
  The loop over the pieces: \<open>good\<close> are the short ones not merged yet, \<open>recurse\<close> splits a long one.
\<close>

fun pieces_loop ::
  "splitter \<Rightarrow> (string \<Rightarrow> yielded) \<Rightarrow> string \<Rightarrow> string list \<Rightarrow> string list \<Rightarrow> string list \<Rightarrow> yielded" where
  "pieces_loop r recurse sep news good [] =
     (if good \<noteq> [] then mergeSplits r sep good else ([], Finished))"
| "pieces_loop r recurse sep news good (s # ss) =
     (if sp_len r s < sp_size r then pieces_loop r recurse sep news (good @ [s]) ss
      else and_then (if good \<noteq> [] then mergeSplits r sep good else ([], Finished))
        (and_then (if news = [] then ([s], Finished) else recurse s)
          (pieces_loop r recurse sep news [] ss)))"

fun splitStream :: "nat \<Rightarrow> splitter \<Rightarrow> string \<Rightarrow> yielded" where
  "splitStream 0 r text = ([], OutOfFuel)"
| "splitStream (Suc n) r text =
     (if sp_separators r = [] then ([], Crashed)
      else (let (sep, news) = choose_separator (last (sp_separators r)) (sp_separators r) text in
        pieces_loop r (splitStream n r) sep news [] (go_split text sep)))"

definition split_text :: "splitter \<Rightarrow> string \<Rightarrow> yielded" where
  "split_text r text = splitStream (Suc (length (sp_separators r))) r text"

text \<open>\<open>Split\<close>: each chunk with its index and byte offsets; -1 when it is not found past the cursor.\<close>

record document =
  doc_content :: string
  doc_source :: string
  doc_index :: nat
  doc_start :: int
  doc_end :: int

fun locate_chunks :: "string \<Rightarrow> string \<Rightarrow> nat \<Rightarrow> nat \<Rightarrow> string list \<Rightarrow> document list" where
  "locate_chunks source content cursor i [] = []"
| "locate_chunks source content cursor i (c # cs) =
     (case go_index (drop cursor content) c of
        Some k \<Rightarrow>
          \<lparr>doc_content = c, doc_source = source, doc_index = i, doc_start = int (cursor + k),
           doc_end = int (cursor + k + length c)\<rparr>
          # locate_chunks source content (cursor + k + length c) (Suc i) cs
      | None \<Rightarrow>
          \<lparr>doc_content = c, doc_source = source, doc_index = i, doc_start = -1, doc_end = -1\<rparr>
          # locate_chunks source content cursor (Suc i) cs)"

definition ReadFileError :: "string \<Rightarrow> err \<Rightarrow> err" where
  "ReadFileError source e = Wrapped (''reading file '' @ go_quote source @ '': '' @ err_text e) [e]"

definition Split :: "(string \<Rightarrow> err + string) \<Rightarrow> splitter \<Rightarrow> err + document list \<times> ending" where
  "Split read_file r =
     (case read_file (sp_source r) of
        Inl e \<Rightarrow> Inl (ReadFileError (sp_source r) e)
      | Inr content \<Rightarrow>
          (let (chunks, end) = split_text r content in
           Inr (locate_chunks (sp_source r) content 0 0 chunks, end)))"

subsection \<open>Merging covers every piece\<close>

text \<open>
  Runs of pieces that cover a list: each run starts inside the one before it or right after it, and
  the last ends at the end.
\<close>

fun covers :: "'a list \<Rightarrow> 'a list list \<Rightarrow> bool" where
  "covers xs [] = (xs = [])"
| "covers xs [r] = (r = xs)"
| "covers xs (r # r' # rs) =
     (take (length r) xs = r \<and> r \<noteq> [] \<and>
      list_ex (\<lambda>j. covers (drop j xs) (r' # rs)) [0..<Suc (length r)])"

definition chunk_of_runs :: "string \<Rightarrow> string list list \<Rightarrow> string list" where
  "chunk_of_runs sep runs = filter (\<lambda>c. c \<noteq> []) (map (\<lambda>r. joinDocs r sep) runs)"

text \<open>The measure the code keeps in \<open>total\<close>.\<close>

definition weight :: "splitter \<Rightarrow> string \<Rightarrow> string list \<Rightarrow> int" where
  "weight r sep docs =
     (if docs = [] then 0
      else sum_list (map (sp_len r) docs) + int (length sep) * int (length docs - 1))"

lemma weight_Nil [simp]: "weight r sep [] = 0"
  by (simp add: weight_def)

lemma weight_snoc: "weight r sep (docs @ [d]) = weight r sep docs + separatorLen (docs @ [d]) sep 1 + sp_len r d"
  by (cases docs) (auto simp: weight_def separatorLen_def algebra_simps)

lemma weight_Cons: "weight r sep (d # ds) = sp_len r d + separatorLen (d # ds) sep 1 + weight r sep ds"
  by (cases ds) (auto simp: weight_def separatorLen_def algebra_simps)

lemma pop_docs_spec:
  assumes "0 \<le> sp_overlap r"
  shows "\<exists>j. j \<le> length docs \<and> pop_docs r sep docs (weight r sep docs) =
      Some (drop j docs, weight r sep (drop j docs)) \<and> weight r sep (drop j docs) \<le> sp_overlap r"
proof (induction docs)
  case Nil
  then show ?case using assms by (simp add: weight_def separatorLen_def)
next
  case (Cons d ds)
  show ?case
  proof (cases "sp_overlap r < weight r sep (d # ds) \<or>
      sp_size r < separatorLen (d # ds) sep 0 \<and> 0 < weight r sep (d # ds)")
    case True
    have "weight r sep (d # ds) - (sp_len r d + separatorLen (d # ds) sep 1) = weight r sep ds"
      by (simp add: weight_Cons)
    then obtain j where "j \<le> length ds" "pop_docs r sep (d # ds) (weight r sep (d # ds)) =
        Some (drop j ds, weight r sep (drop j ds))" "weight r sep (drop j ds) \<le> sp_overlap r"
      using Cons True by auto
    then show ?thesis by (intro exI[of _ "Suc j"]) simp
  next
    case False
    then show ?thesis by (intro exI[of _ 0]) auto
  qed
qed

lemma covers_Cons:
  "r \<noteq> [] \<Longrightarrow> j \<le> length r \<Longrightarrow> covers (drop j (r @ xs)) rs \<Longrightarrow> rs \<noteq> [] \<Longrightarrow> covers (r @ xs) (r # rs)"
  by (cases rs) (auto simp: list_ex_iff simp del: upt_Suc intro!: bexI[of _ j])

text \<open>No run is heavier than this, when no piece is heavier than \<open>m\<close>.\<close>

definition run_bound :: "splitter \<Rightarrow> string \<Rightarrow> int \<Rightarrow> int" where
  "run_bound r sep m = max (sp_size r) (sp_overlap r + int (length sep) + m)"

lemma merge_loop_covers:
  assumes "0 \<le> sp_overlap r"
  shows "\<forall>d \<in> set ds. sp_len r d \<le> m \<Longrightarrow> weight r sep docs \<le> run_bound r sep m \<Longrightarrow>
    \<exists>runs. runs \<noteq> [] \<and> covers (docs @ ds) runs \<and>
      merge_loop r sep docs (weight r sep docs) ds = (chunk_of_runs sep runs, Finished) \<and>
      (\<forall>run \<in> set runs. weight r sep run \<le> run_bound r sep m)"
proof (induction ds arbitrary: docs)
  case Nil
  then show ?case
    by (intro exI[of _ "[docs]"]) (simp add: chunk_of_runs_def)
next
  case (Cons d ds)
  have step: "merge_loop r sep (xs @ [d])
      (weight r sep xs + separatorLen (xs @ [d]) sep 1 + sp_len r d) ds =
      merge_loop r sep (xs @ [d]) (weight r sep (xs @ [d])) ds" for xs
    by (simp add: weight_snoc)
  have sep_len: "separatorLen (xs @ [d]) sep 1 = separatorLen xs sep 0"
      "0 \<le> separatorLen xs sep 0" "separatorLen xs sep 0 \<le> int (length sep)" for xs
    by (cases xs) (auto simp: separatorLen_def)
  show ?case
  proof (cases "sp_size r < weight r sep docs + sp_len r d + separatorLen docs sep 0 \<and> docs \<noteq> []")
    case True
    obtain j where j: "j \<le> length docs" "weight r sep (drop j docs) \<le> sp_overlap r"
        "pop_docs r sep docs (weight r sep docs) = Some (drop j docs, weight r sep (drop j docs))"
      using pop_docs_spec[OF assms] by blast
    have "weight r sep (drop j docs @ [d]) \<le> run_bound r sep m"
      using j(2) sep_len[of "drop j docs"] Cons.prems(1) by (auto simp: weight_snoc run_bound_def)
    then obtain runs where runs: "runs \<noteq> []" "covers ((drop j docs @ [d]) @ ds) runs"
        "merge_loop r sep (drop j docs @ [d]) (weight r sep (drop j docs @ [d])) ds =
          (chunk_of_runs sep runs, Finished)"
        "\<forall>run \<in> set runs. weight r sep run \<le> run_bound r sep m"
      using Cons.IH[of "drop j docs @ [d]"] Cons.prems(1) by auto
    have "covers (docs @ d # ds) (docs # runs)"
      using True j(1) runs(1,2) by (intro covers_Cons) auto
    moreover have "merge_loop r sep docs (weight r sep docs) (d # ds) =
        (chunk_of_runs sep (docs # runs), Finished)"
      using True j(3) runs(3) step[of "drop j docs"]
      by (simp add: Let_def and_then_def chunk_of_runs_def)
    ultimately show ?thesis using runs(4) Cons.prems(2) by (intro exI[of _ "docs # runs"]) simp
  next
    case False
    have "weight r sep (docs @ [d]) \<le> run_bound r sep m"
    proof (cases "docs = []")
      case True
      then show ?thesis using Cons.prems(1) assms by (auto simp: weight_def run_bound_def)
    next
      case nonempty: False
      then show ?thesis using False sep_len(1)[of docs] by (simp add: weight_snoc run_bound_def)
    qed
    then have "\<exists>runs. runs \<noteq> [] \<and> covers ((docs @ [d]) @ ds) runs \<and>
        merge_loop r sep (docs @ [d]) (weight r sep (docs @ [d])) ds = (chunk_of_runs sep runs, Finished) \<and>
        (\<forall>run \<in> set runs. weight r sep run \<le> run_bound r sep m)"
      using Cons.prems(1) by (intro Cons.IH) auto
    then show ?thesis using False step[of docs] by (auto simp: Let_def)
  qed
qed

lemma mergeSplits_covers:
  assumes "0 \<le> sp_overlap r" "\<forall>d \<in> set splits. sp_len r d \<le> m" "0 \<le> m"
  shows "\<exists>runs. covers splits runs \<and> mergeSplits r sep splits = (chunk_of_runs sep runs, Finished) \<and>
    (\<forall>run \<in> set runs. weight r sep run \<le> run_bound r sep m)"
proof -
  have "weight r sep [] \<le> run_bound r sep m" using assms by (simp add: weight_def run_bound_def)
  then show ?thesis
    using merge_loop_covers[OF assms(1), of splits m sep "[]"] assms(2)
    by (auto simp: mergeSplits_def)
qed

text \<open>
  Merging loses no piece and reorders none: for every length function and every overlap that is not
  negative, the chunks are the joined and trimmed runs of a cover of the pieces, from the first to the
  last, each run starting within or right after the one before it; blank chunks are left out.
\<close>

theorem merge_covers_pieces:
  assumes "0 \<le> sp_overlap r"
  shows "\<exists>runs. covers splits runs \<and> mergeSplits r sep splits = (chunk_of_runs sep runs, Finished)"
proof -
  have "\<forall>d \<in> set splits. sp_len r d \<le> Max (insert 0 (sp_len r ` set splits))"
    by (simp add: Max_ge_iff)
  moreover have "0 \<le> Max (insert 0 (sp_len r ` set splits))" by (simp add: Max_ge_iff)
  ultimately show ?thesis using mergeSplits_covers[OF assms] by metis
qed

theorem merge_covers_pieces_witness:
  "\<exists>runs. covers [''aa'', ''bb'', ''cc'', ''dd''] runs \<and>
     mergeSplits (New_splitter ''f'' 5 2) '' '' [''aa'', ''bb'', ''cc'', ''dd''] =
       (chunk_of_runs '' '' runs, Finished)"
  by (rule merge_covers_pieces) (simp add: New_splitter_def)

subsection \<open>Splitting ends\<close>

lemma choose_separator_cases:
  "choose_separator dflt ss t = (sep, news) \<Longrightarrow>
   news = [] \<or>
   (\<exists>before. ss = before @ sep # news \<and> sep \<noteq> [] \<and> go_contains t sep \<and>
      (\<forall>s \<in> set before. s \<noteq> [] \<and> \<not> go_contains t s))"
proof (induction dflt ss t rule: choose_separator.induct)
  case (2 dflt s ss t)
  show ?case
  proof (cases "s = [] \<or> go_contains t s")
    case True
    then show ?thesis using 2(2) by (auto split: if_splits intro!: exI[of _ "[]"])
  next
    case False
    then consider "news = []" | before where "ss = before @ sep # news" "sep \<noteq> []" "go_contains t sep"
        "\<forall>s \<in> set before. s \<noteq> [] \<and> \<not> go_contains t s"
      using 2 by auto
    then show ?thesis
    proof cases
      case 2
      then show ?thesis using False by (intro disjI2 exI[of _ "s # before"]) auto
    qed simp
  qed
qed auto

lemma choose_separator_skip:
  "\<forall>s \<in> set before. s \<noteq> [] \<and> \<not> go_contains text s \<Longrightarrow>
   choose_separator dflt (before @ rest) text = choose_separator dflt rest text"
  by (induction before) auto

lemma choose_separator_shorter: "length (snd (choose_separator dflt ss text)) \<le> length ss - 1"
  by (induction dflt ss "text" rule: choose_separator.induct) auto

lemma split_piece_sublist: "p \<in> set (split_sep s sep) \<Longrightarrow> sublist p s"
proof (induction s sep rule: split_sep.induct)
  case (1 s sep)
  show ?case
  proof (cases "go_index s sep")
    case None
    then show ?thesis using "1.prems" by (simp add: split_sep.simps[of s])
  next
    case (Some i)
    consider "p = s" | "p = take i s" | "sep \<noteq> []" "p \<in> set (split_sep (drop (i + length sep) s) sep)"
      using "1.prems" Some by (auto simp: split_sep.simps[of s] split: if_splits)
    then show ?thesis
    proof cases
      case 3
      then have "sublist p (drop (i + length sep) s)" using "1.IH" Some by simp
      then show ?thesis by (meson sublist_drop sublist_order.order_trans)
    qed (simp_all add: sublist_take)
  qed
qed

text \<open>The first occurrence is before any other.\<close>

lemma go_index_first: "go_index s sub = Some i \<Longrightarrow> sub \<noteq> [] \<Longrightarrow> go_index (take i s) sub = None"
proof (induction s arbitrary: i)
  case (Cons c cs)
  show ?case
  proof (cases "has_prefix (c # cs) sub")
    case False
    then obtain j where j: "go_index cs sub = Some j" "i = Suc j" using Cons.prems by auto
    have "\<not> has_prefix (c # take j cs) sub"
    proof
      assume "has_prefix (c # take j cs) sub"
      then obtain t where "c # take j cs = sub @ t" by (auto simp: has_prefix_iff)
      then have "c # cs = sub @ t @ drop j cs" by (metis append.assoc append_Cons append_take_drop_id)
      then show False using False by (simp add: has_prefix_iff)
    qed
    then show ?thesis using Cons.IH[OF j(1) Cons.prems(2)] j by simp
  qed (use Cons.prems in auto)
qed (auto split: if_splits)

lemma split_piece_free: "sep \<noteq> [] \<Longrightarrow> p \<in> set (split_sep s sep) \<Longrightarrow> \<not> go_contains p sep"
proof (induction s sep rule: split_sep.induct)
  case (1 s sep)
  show ?case
  proof (cases "go_index s sep")
    case None
    then show ?thesis using "1.prems" by (simp add: split_sep.simps[of s] go_contains_def)
  next
    case (Some i)
    consider "p = take i s" | "p \<in> set (split_sep (drop (i + length sep) s) sep)"
      using "1.prems" Some by (auto simp: split_sep.simps[of s] split: if_splits)
    then show ?thesis
    proof cases
      case 1
      then show ?thesis using go_index_first[OF Some] "1.prems"(1) by (simp add: go_contains_def)
    qed (use "1.IH" Some "1.prems" in simp)
  qed
qed

lemma and_then_Finished [simp]:
  "and_then ([], Finished) b = b"
  by (simp add: and_then_def)

lemma pieces_loop_all:
  assumes merge: "\<And>g. \<forall>d \<in> set g. sp_len r d < sp_size r \<Longrightarrow>
      snd (mergeSplits r sep g) = Finished \<and> (\<forall>c \<in> set (fst (mergeSplits r sep g)). P c)"
  shows "\<forall>s \<in> set ps. if news = [] then P s
      else snd (recurse s) = Finished \<and> (\<forall>c \<in> set (fst (recurse s)). P c) \<Longrightarrow>
    \<forall>d \<in> set good. sp_len r d < sp_size r \<Longrightarrow>
    snd (pieces_loop r recurse sep news good ps) = Finished \<and>
    (\<forall>c \<in> set (fst (pieces_loop r recurse sep news good ps)). P c)"
proof (induction ps arbitrary: good)
  case Nil
  then show ?case using merge[of good] by simp
next
  case (Cons s ss)
  show ?case
  proof (cases "sp_len r s < sp_size r")
    case True
    then show ?thesis using Cons.IH[of "good @ [s]"] Cons.prems by (simp split: if_splits)
  next
    case False
    have rest: "snd (pieces_loop r recurse sep news [] ss) = Finished \<and>
        (\<forall>c \<in> set (fst (pieces_loop r recurse sep news [] ss)). P c)"
      using Cons.IH[of "[]"] Cons.prems(1) by simp
    have here: "news = [] \<Longrightarrow> P s" "news \<noteq> [] \<Longrightarrow> snd (recurse s) = Finished \<and> (\<forall>c \<in> set (fst (recurse s)). P c)"
      using Cons.prems(1) by (auto split: if_splits)
    show ?thesis
      using False rest here merge[OF Cons.prems(2)] by (auto simp: and_then_def)
  qed
qed

text \<open>A piece of a cut has fewer separators left to try than the text that was cut.\<close>

lemma piece_separators:
  assumes "choose_separator dflt ss t = (sep, news)" "news \<noteq> []" "p \<in> set (go_split t sep)"
  shows "length (snd (choose_separator dflt ss p)) < length news"
proof -
  obtain before where ss: "ss = before @ sep # news" "sep \<noteq> []"
      "\<forall>s \<in> set before. s \<noteq> [] \<and> \<not> go_contains t s"
    using choose_separator_cases[OF assms(1)] assms(2) by blast
  have p: "p \<in> set (split_sep t sep)" using assms(3) ss(2) by (simp add: go_split_def)
  have "\<not> go_contains p s" if "s \<in> set before" for s
    using that ss(3) split_piece_sublist[OF p] by (meson go_contains_iff sublist_order.order_trans)
  then have "\<forall>s \<in> set (before @ [sep]). s \<noteq> [] \<and> \<not> go_contains p s"
    using ss split_piece_free[OF ss(2) p] by auto
  then have "choose_separator dflt ((before @ [sep]) @ news) p = choose_separator dflt news p"
    by (rule choose_separator_skip)
  then have "choose_separator dflt ss p = choose_separator dflt news p" by (simp add: ss(1))
  moreover have "length (snd (choose_separator dflt news p)) \<le> length news - 1"
    by (rule choose_separator_shorter)
  ultimately show ?thesis using assms(2) by (cases news) auto
qed

lemma splitStream_all:
  assumes merge: "\<And>sep g. sep \<in> set (sp_separators r) \<Longrightarrow> \<forall>d \<in> set g. sp_len r d < sp_size r \<Longrightarrow>
      snd (mergeSplits r sep g) = Finished \<and> (\<forall>c \<in> set (fst (mergeSplits r sep g)). P c)"
    and raw: "\<And>t sep s. choose_separator (last (sp_separators r)) (sp_separators r) t = (sep, []) \<Longrightarrow>
      s \<in> set (go_split t sep) \<Longrightarrow> P s"
    and seps: "sp_separators r \<noteq> []"
  shows "length (snd (choose_separator (last (sp_separators r)) (sp_separators r) t)) < n \<Longrightarrow>
    snd (splitStream n r t) = Finished \<and> (\<forall>c \<in> set (fst (splitStream n r t)). P c)"
proof (induction n arbitrary: t)
  case (Suc n)
  let ?choose = "choose_separator (last (sp_separators r)) (sp_separators r)"
  obtain sep news where ch: "?choose t = (sep, news)" by fastforce
  have sep: "sep \<in> set (sp_separators r)"
  proof -
    have "sep' \<in> insert dflt (set ss)" if "choose_separator dflt ss u = (sep', n')" for dflt ss u sep' n'
      using that by (induction dflt ss u rule: choose_separator.induct) (auto split: if_splits)
    from this[OF ch] show ?thesis using seps by auto
  qed
  have "if news = [] then P s
      else snd (splitStream n r s) = Finished \<and> (\<forall>c \<in> set (fst (splitStream n r s)). P c)"
    if "s \<in> set (go_split t sep)" for s
  proof (cases "news = []")
    case True
    then show ?thesis using raw ch that by simp
  next
    case False
    then have "length (snd (?choose s)) < n" using piece_separators[OF ch False that] Suc.prems ch by simp
    then show ?thesis using Suc.IH False by simp
  qed
  then have "snd (pieces_loop r (splitStream n r) sep news [] (go_split t sep)) = Finished \<and>
      (\<forall>c \<in> set (fst (pieces_loop r (splitStream n r) sep news [] (go_split t sep))). P c)"
    by (intro pieces_loop_all merge sep) auto
  then show ?case using seps ch by simp
qed simp

lemma merge_Finished: "0 \<le> sp_overlap r \<Longrightarrow> snd (mergeSplits r sep g) = Finished"
proof -
  assume a: "0 \<le> sp_overlap r"
  have "\<forall>d \<in> set g. sp_len r d \<le> Max (insert 0 (sp_len r ` set g))" by (simp add: Max_ge_iff)
  moreover have "0 \<le> Max (insert 0 (sp_len r ` set g))" by (simp add: Max_ge_iff)
  ultimately show ?thesis using mergeSplits_covers[OF a] by (metis snd_conv)
qed

lemma fuel_enough:
  "length (snd (choose_separator dflt (sp_separators r) t)) < Suc (length (sp_separators r))"
  using choose_separator_shorter[of dflt "sp_separators r" t] by linarith

text \<open>
  Splitting ends and does not crash: for every text, length function and list of separators that is
  not empty, in any order, when the overlap is not negative.
\<close>

theorem split_ends:
  assumes "sp_separators r \<noteq> []" "0 \<le> sp_overlap r"
  shows "snd (split_text r t) = Finished"
  using splitStream_all[of r "\<lambda>_. True", OF _ _ assms(1) fuel_enough] merge_Finished[OF assms(2)]
  by (simp add: split_text_def)

theorem split_ends_witness:
  "snd (split_text (New_markdown ''README.md'' 20 5) ''one two'') = Finished"
  by (rule split_ends) (simp_all add: New_markdown_def New_splitter_def WithSeparators_def markdown_separators_def)

subsection \<open>The size of a chunk\<close>

lemma trim_space_length: "length (trim_space s) \<le> length s"
proof -
  have dw: "length (concat (dropWhile f xs)) \<le> length (concat xs)" for f and xs :: "string list"
    by (induction xs) auto
  have "length (concat (rev xs)) = length (concat xs)" for xs :: "string list"
    by (induction xs) auto
  then have "length (concat (drop_while_end f xs)) \<le> length (concat xs)" for f and xs :: "string list"
    using dw[of f "rev xs"] by (simp add: drop_while_end_def)
  then have "length (trim_space s) \<le> length (concat (utf8_chunks s))"
    unfolding trim_space_def using dw le_trans by blast
  then show ?thesis by simp
qed

lemma rune_width_le: "rune_width s \<le> 4"
  by (induction s rule: rune_size.induct) (auto simp: rune_width_def Let_def split: list.split)

lemma utf8_chunks_length: "c \<in> set (utf8_chunks s) \<Longrightarrow> length c \<le> 4"
proof (induction s rule: utf8_chunks.induct)
  case (2 x xs)
  then show ?case using rune_width_le[of "x # xs"] by (auto simp: utf8_chunks.simps(2) Let_def)
qed simp

lemma weight_go_len: "sp_len r = go_len \<Longrightarrow> weight r sep docs = int (length (go_join docs sep))"
proof (induction docs)
  case (Cons d ds)
  then show ?case
    by (cases ds) (simp_all add: weight_Cons go_len_def separatorLen_def go_join_Cons weight_def algebra_simps)
qed (simp add: weight_def)

text \<open>
  With the default separators and lengths, no chunk is longer than the chunk size plus the overlap
  plus one byte, or than one character when that is more.
\<close>

theorem chunk_size_bound:
  assumes "1 \<le> sz" "0 \<le> overlap"
  shows "list_all (\<lambda>c. go_len c \<le> max 4 (sz + overlap + 1))
    (fst (split_text (New_splitter source sz overlap) t))"
proof -
  let ?r = "New_splitter source sz overlap"
  have r: "sp_len ?r = go_len" "sp_overlap ?r = overlap" "sp_size ?r = sz"
      "sp_separators ?r = defaultSeparators"
    by (simp_all add: New_splitter_def)
  have merge: "snd (mergeSplits ?r sep g) = Finished \<and>
      (\<forall>c \<in> set (fst (mergeSplits ?r sep g)). go_len c \<le> max 4 (sz + overlap + 1))"
    if one: "sep \<in> set (sp_separators ?r)" and short: "\<forall>d \<in> set g. sp_len ?r d < sp_size ?r" for sep g
  proof -
    have "length sep \<le> 2" using one by (auto simp: r defaultSeparators_def)
    obtain runs where runs: "mergeSplits ?r sep g = (chunk_of_runs sep runs, Finished)"
        "\<forall>run \<in> set runs. weight ?r sep run \<le> run_bound ?r sep (sz - 1)"
      using mergeSplits_covers[of ?r g "sz - 1" sep] short assms by (auto simp: r)
    have "go_len c \<le> max 4 (sz + overlap + 1)" if c: "c \<in> set (chunk_of_runs sep runs)" for c
    proof -
      obtain run where run: "run \<in> set runs" "c = trim_space (go_join run sep)"
        using c by (auto simp: chunk_of_runs_def joinDocs_def)
      have "go_len c \<le> weight ?r sep run"
        using trim_space_length[of "go_join run sep"] by (simp add: run(2) weight_go_len[OF r(1)] go_len_def)
      also have "\<dots> \<le> run_bound ?r sep (sz - 1)" using runs(2) run(1) by blast
      also have "\<dots> \<le> sz + overlap + 1" using \<open>length sep \<le> 2\<close> assms by (simp add: run_bound_def r)
      finally show ?thesis by simp
    qed
    then show ?thesis using runs(1) by simp
  qed
  have raw: "go_len s \<le> max 4 (sz + overlap + 1)"
    if "choose_separator (last (sp_separators ?r)) (sp_separators ?r) u = (sep, [])" "s \<in> set (go_split u sep)"
    for u sep s
  proof -
    have "sep = []" using that(1) by (auto simp: r defaultSeparators_def split: if_splits)
    then show ?thesis using that(2) utf8_chunks_length[of s u] by (simp add: go_split_def go_len_def)
  qed
  have "sp_separators ?r \<noteq> []" by (simp add: r defaultSeparators_def)
  from splitStream_all[OF merge raw this fuel_enough] show ?thesis
    by (simp add: split_text_def list_all_iff)
qed

theorem chunk_size_bound_witness:
  "list_all (\<lambda>c. go_len c \<le> max 4 (5 + 3 + 1))
     (fst (split_text (New_splitter ''notes.txt'' 5 3) ''aaa bbb ccc''))"
  by (rule chunk_size_bound) simp_all

text \<open>
  The chunk size is no bound on a chunk once there is an overlap: two of the three chunks of this
  text are 7 bytes long, for a chunk size of 5. The loop that makes room for the next piece stops at the
  overlap, without looking at the piece.
\<close>

theorem chunk_exceeds_size:
  "split_text (New_splitter ''notes.txt'' 5 3) ''aaa bbb ccc'' =
     ([''aaa'', ''aaa bbb'', ''bbb ccc''], Finished)"
  by code_simp

text \<open>
  A negative overlap crashes the splitter: the same loop drops pieces past the last one.
\<close>

theorem negative_overlap_crashes:
  "split_text (New_splitter ''notes.txt'' 5 (-1)) ''aaa bbb'' = ([''aaa''], Crashed)"
  by code_simp

subsection \<open>Offsets\<close>

lemma located_later:
  "list_all (\<lambda>d. doc_start d = -1 \<or> int n \<le> doc_start d) (locate_chunks source content n i chunks)"
proof (induction chunks arbitrary: n i)
  case (Cons c cs)
  have "list_all (\<lambda>d. doc_start d = -1 \<or> int n \<le> doc_start d) (locate_chunks source content (n + k) j cs)"
    for k j
    using Cons.IH[of "n + k" j] by (rule list.pred_mono_strong) auto
  then show ?case using Cons.IH by (auto simp: add.assoc split: option.split)
qed simp

text \<open>
  Where a document gives offsets they are right: the bytes of the file between them are the chunk,
  and no two documents with offsets overlap; the documents are the chunks, numbered in order.
\<close>

theorem offsets_are_verbatim:
  "map doc_content (locate_chunks source content 0 0 chunks) = chunks \<and>
   map doc_index (locate_chunks source content 0 0 chunks) = [0..<length chunks] \<and>
   list_all (\<lambda>d. doc_start d = -1 \<or>
       take (nat (doc_end d) - nat (doc_start d)) (drop (nat (doc_start d)) content) = doc_content d)
     (locate_chunks source content 0 0 chunks) \<and>
   sorted_wrt (\<lambda>d e. doc_start d = -1 \<or> doc_start e = -1 \<or> doc_end d \<le> doc_start e)
     (locate_chunks source content 0 0 chunks)"
proof -
  have content: "map doc_content (locate_chunks source content n i chunks) = chunks" for n i
    by (induction chunks arbitrary: n i) (auto split: option.split)
  have index: "map doc_index (locate_chunks source content n i chunks) = [i..<i + length chunks]" for n i
    by (induction chunks arbitrary: n i) (simp_all add: upt_conv_Cons del: upt_Suc split: option.split)
  have verbatim: "list_all (\<lambda>d. doc_start d = -1 \<or>
       take (nat (doc_end d) - nat (doc_start d)) (drop (nat (doc_start d)) content) = doc_content d)
     (locate_chunks source content n i chunks)" for n i
  proof (induction chunks arbitrary: n i)
    case (Cons c cs)
    have "take (length c) (drop (n + k) content) = c" if "go_index (drop n content) c = Some k" for k
      using go_index_Some[OF that] by (simp add: add.commute)
    then show ?case using Cons by (auto simp: nat_add_distrib split: option.split)
  qed simp
  have sorted: "sorted_wrt (\<lambda>d e. doc_start d = -1 \<or> doc_start e = -1 \<or> doc_end d \<le> doc_start e)
     (locate_chunks source content n i chunks)" for n i
  proof (induction chunks arbitrary: n i)
    case (Cons c cs)
    have "doc_start d = -1 \<or> int m \<le> doc_start d" if "d \<in> set (locate_chunks source content m j cs)" for d m j
      using that located_later[of m source content j cs] by (auto simp: list_all_iff)
    then show ?case using Cons.IH by (fastforce split: option.split)
  qed simp
  show ?thesis using content index verbatim sorted by auto
qed

text \<open>
  A chunk that overlaps the one before it has no offsets, although the file contains it verbatim: the
  search for it starts where the chunk before it ended.
\<close>

theorem overlapping_chunk_not_located:
  "(case Split (\<lambda>_. Inr ''aa bb cc dd'') (New_splitter ''f'' 6 2) of
      Inl _ \<Rightarrow> False
    | Inr (docs, e) \<Rightarrow>
        map (\<lambda>d. (doc_content d, doc_start d)) docs = [(''aa bb'', 0), (''bb cc'', -1), (''cc dd'', 6)]) \<and>
   go_contains ''aa bb cc dd'' ''bb cc''"
  by code_simp

end
