(* ===== verification/Path_Names.thy ===== *)
theory Path_Names
  imports Go_Path
begin

section \<open>Absolute paths as lists of names\<close>

text \<open>
  A clean absolute path is the slash-separated list of its names, none of which is empty, \<open>.\<close>,
  \<open>..\<close> or holds a slash (\<open>name_ok\<close>). On such a path \<open>Clean\<close> is the identity and \<open>Dir\<close>, \<open>Base\<close>
  and \<open>Join\<close> take its names apart and put them together. \<open>filepath.Rel\<close> between two of them is
  here too, with the fact the confinement checks of the tools rest on: it starts with \<open>..\<close> exactly
  when the first path does not contain the second.
\<close>

definition name_ok :: "string \<Rightarrow> bool" where
  "name_ok c \<longleftrightarrow> c \<noteq> '''' \<and> c \<noteq> ''.'' \<and> c \<noteq> ''..'' \<and> CHR ''/'' \<notin> set c"

definition path_elems :: "string \<Rightarrow> string list" where
  "path_elems p = go_split p slash"

definition abs_path :: "string list \<Rightarrow> string" where
  "abs_path d = slash @ go_join d slash"

subsection \<open>Splitting at a slash\<close>

lemma go_index_slash_append:
  "CHR ''/'' \<notin> set x \<Longrightarrow> go_index (x @ CHR ''/'' # y) slash = Some (length x)"
  by (induction x) (auto simp: has_prefix_def slash_def)

lemma go_index_slash_None: "CHR ''/'' \<notin> set x \<Longrightarrow> go_index x slash = None"
  by (induction x) (auto simp: has_prefix_def slash_def)

lemma split_slash_Cons:
  "CHR ''/'' \<notin> set x \<Longrightarrow> path_elems (x @ CHR ''/'' # y) = x # path_elems y"
  unfolding path_elems_def go_split_def
  by (subst split_sep.simps) (simp add: go_index_slash_append, simp add: slash_def)

lemma split_slash_single: "CHR ''/'' \<notin> set x \<Longrightarrow> path_elems x = [x]"
  unfolding path_elems_def go_split_def
  by (subst split_sep.simps) (simp add: go_index_slash_None, simp add: slash_def)

lemma path_elems_no_slash: "c \<in> set (path_elems p) \<Longrightarrow> CHR ''/'' \<notin> set c"
proof (induction "length p" arbitrary: p rule: less_induct)
  case less
  show ?case
  proof (cases "CHR ''/'' \<in> set p")
    case True
    then obtain x y where p: "p = x @ CHR ''/'' # y" "CHR ''/'' \<notin> set x"
      by (meson split_list_first)
    then show ?thesis using less(1)[of y] less(2) by (auto simp: split_slash_Cons)
  next
    case False
    then show ?thesis using less(2) by (auto simp: split_slash_single)
  qed
qed

lemma path_elems_join:
  assumes "list_all name_ok d" "d \<noteq> []"
  shows "path_elems (go_join d slash) = d"
  using assms
proof (induction d)
  case (Cons c cs)
  then show ?case
    by (cases cs) (auto simp: name_ok_def split_slash_single split_slash_Cons slash_def)
qed simp

lemma path_elems_slash: "path_elems (slash @ y) = '''' # path_elems y"
  using split_slash_Cons[of "''''" y] by (simp add: slash_def)

lemma path_elems_abs_path:
  "list_all name_ok d \<Longrightarrow> path_elems (abs_path d) = '''' # (if d = [] then [''''] else d)"
  by (auto simp: abs_path_def path_elems_slash path_elems_join) (simp add: split_slash_single)

lemma IsAbs_abs_path [simp]: "IsAbs (abs_path d)"
  by (simp add: IsAbs_def abs_path_def has_prefix_def)

lemma abs_path_inj:
  assumes "list_all name_ok d" "list_all name_ok e"
  shows "abs_path d = abs_path e \<longleftrightarrow> d = e"
proof
  assume "abs_path d = abs_path e"
  then have "path_elems (abs_path d) = path_elems (abs_path e)" by simp
  then show "d = e" using assms by (auto simp: path_elems_abs_path name_ok_def split: if_splits)
qed simp

subsection \<open>\<open>Clean\<close>, \<open>Dir\<close>, \<open>Base\<close> and \<open>Join\<close>\<close>

lemma clean_elems_rooted_ok:
  "list_all name_ok st \<Longrightarrow> \<forall>c \<in> set cs. CHR ''/'' \<notin> set c \<Longrightarrow>
     list_all name_ok (clean_elems True st cs)"
proof (induction True st cs rule: clean_elems.induct)
  case (2 st c cs)
  then show ?case by (cases st) (auto simp: name_ok_def)
qed (simp add: list_all_iff)

lemma clean_elems_append:
  "list_all name_ok cs \<Longrightarrow> clean_elems r st (cs @ es) = clean_elems r (rev cs @ st) es"
  by (induction cs arbitrary: st) (auto simp: name_ok_def)

lemma clean_elems_ok_id: "list_all name_ok cs \<Longrightarrow> clean_elems r st cs = rev st @ cs"
  using clean_elems_append[of cs r st "[]"] by simp

lemma Clean_abs:
  assumes "IsAbs p"
  obtains d where "list_all name_ok d" "Clean p = abs_path d"
proof
  define d where "d = clean_elems True [] (go_split (drop 1 p) slash)"
  show "list_all name_ok d"
    unfolding d_def using path_elems_no_slash[of _ "drop 1 p"]
    by (intro clean_elems_rooted_ok) (auto simp: path_elems_def)
  show "Clean p = abs_path d" using assms by (simp add: Clean_def abs_path_def d_def)
qed

lemma IsAbs_Clean [simp]: "IsAbs p \<Longrightarrow> IsAbs (Clean p)"
  by (simp add: Clean_def IsAbs_def has_prefix_def slash_def)

lemma path_elems_append: "path_elems (x @ slash @ y) = path_elems x @ path_elems y"
proof (induction "length x" arbitrary: x rule: less_induct)
  case less
  show ?case
  proof (cases "CHR ''/'' \<in> set x")
    case True
    then obtain u v where x: "x = u @ CHR ''/'' # v" "CHR ''/'' \<notin> set u"
      by (meson split_list_first)
    then show ?thesis using less[of v] by (simp add: split_slash_Cons)
  next
    case False
    then show ?thesis by (simp add: split_slash_single split_slash_Cons slash_def)
  qed
qed

lemma path_elems_join_or_empty:
  "list_all name_ok f \<Longrightarrow> path_elems (go_join f slash) = (if f = [] then [''''] else f)"
  by (auto simp: path_elems_join split_slash_single)

lemma Clean_abs_path_append:
  assumes "list_all name_ok d" "list_all name_ok e"
  shows "Clean (abs_path d @ slash @ go_join e slash) = abs_path (d @ e)"
proof -
  have "clean_elems True [] (path_elems (go_join d slash @ slash @ go_join e slash)) = d @ e"
    using assms
    by (simp add: path_elems_append path_elems_join_or_empty clean_elems_append clean_elems_ok_id)
  then show ?thesis
    by (simp add: Clean_def abs_path_def path_elems_def IsAbs_def has_prefix_def slash_def)
qed

lemma Clean_abs_path [simp]: "list_all name_ok d \<Longrightarrow> Clean (abs_path d) = abs_path d"
  by (simp add: Clean_def abs_path_def IsAbs_def has_prefix_def slash_def[symmetric]
      path_elems_def[symmetric] path_elems_join_or_empty clean_elems_ok_id)
    (simp add: slash_def path_elems_join_or_empty[unfolded slash_def] path_elems_def[symmetric]
      clean_elems_ok_id path_elems_def[unfolded slash_def, symmetric])

lemma Join_abs_path:
  "list_all name_ok d \<Longrightarrow> name_ok c \<Longrightarrow> Join [abs_path d, c] = abs_path (d @ [c])"
  using Clean_abs_path_append[of d "[c]"] by (simp add: Join_def) (simp add: abs_path_def slash_def)

lemma go_join_snoc: "d \<noteq> [] \<Longrightarrow> go_join (d @ [c]) sep = go_join d sep @ sep @ c"
proof (induction d)
  case (Cons x d)
  then show ?case by (cases "d = []") (auto simp: go_join_Cons)
qed simp

lemma abs_path_snoc: "abs_path (d @ [c]) = (if d = [] then slash @ c else abs_path d @ slash @ c)"
  by (auto simp: abs_path_def go_join_snoc)

lemma Dir_abs_path:
  assumes "list_all name_ok (d @ [c])"
  shows "Dir (abs_path (d @ [c])) = abs_path d"
proof -
  have c: "CHR ''/'' \<notin> set c" using assms by (simp add: name_ok_def)
  have dw: "drop_while_end (\<lambda>x. x \<noteq> CHR ''/'') (u @ slash @ c) = u @ slash" for u
    using c by (simp add: drop_while_end_def slash_def dropWhile_append3)
      (metis (mono_tags, lifting) append_self_conv2 dropWhile.simps(2) dropWhile_append2 rev.simps(2) set_rev)
  have "drop_while_end (\<lambda>x. x \<noteq> CHR ''/'') (abs_path (d @ [c])) = (if d = [] then slash else abs_path d @ slash)"
    using dw[of "[]"] dw[of "abs_path d"] by (simp add: abs_path_snoc)
  then show ?thesis
    using Clean_abs_path_append[of d "[]"] assms Clean_abs_path[of "[]"]
    by (auto simp: Dir_def abs_path_def)
qed

lemma Base_abs_path:
  assumes "name_ok c"
  shows "Base (abs_path (d @ [c])) = c"
proof -
  have c: "CHR ''/'' \<notin> set c" "c \<noteq> []" using assms by (auto simp: name_ok_def)
  obtain u where u: "abs_path (d @ [c]) = u @ CHR ''/'' # c"
  proof (cases "d = []")
    case True
    then show ?thesis using that[of "[]"] by (simp add: abs_path_def slash_def)
  qed (use that in \<open>simp add: abs_path_snoc slash_def\<close>)
  have q: "drop_while_end (\<lambda>x. x = CHR ''/'') (u @ CHR ''/'' # c) = u @ CHR ''/'' # c"
    using c by (cases c rule: rev_cases) (auto simp: drop_while_end_def)
  have "takeWhile (\<lambda>x. x \<noteq> CHR ''/'') (rev c @ CHR ''/'' # rev u) = rev c"
    using c by (subst takeWhile_append2) auto
  then show ?thesis using c by (simp add: Base_def u q)
qed

lemma Dir_root [simp]: "Dir (abs_path []) = abs_path []"
  by (simp add: Dir_def abs_path_def drop_while_end_def slash_def Clean_def IsAbs_def has_prefix_def
      go_split_def split_sep.simps)

subsection \<open>\<open>filepath.Rel\<close>\<close>

fun rel_elems :: "string list \<Rightarrow> string list \<Rightarrow> string list" where
  "rel_elems (b # bs) (t # ts) =
     (if b = t then rel_elems bs ts else map (\<lambda>_. ''..'') (b # bs) @ t # ts)"
| "rel_elems bs ts = map (\<lambda>_. ''..'') bs @ ts"

definition Rel :: "string \<Rightarrow> string \<Rightarrow> string" where
  "Rel b t =
     (let r = rel_elems (clean_elems True [] (path_elems b)) (clean_elems True [] (path_elems t))
      in if r = [] then ''.'' else go_join r slash)"

lemma Rel_abs_path:
  "list_all name_ok b \<Longrightarrow> list_all name_ok t \<Longrightarrow> Rel (abs_path b) (abs_path t) =
     (let r = rel_elems b t in if r = [] then ''.'' else go_join r slash)"
  by (simp add: Rel_def path_elems_abs_path clean_elems_ok_id)

definition dotDot :: string where
  "dotDot = ''..''"

definition outside :: "string \<Rightarrow> bool" where
  "outside rel \<longleftrightarrow> rel = dotDot \<or> has_prefix rel (dotDot @ slash)"

lemma rel_elems_outside:
  "list_all name_ok b \<Longrightarrow> list_all name_ok t \<Longrightarrow>
   (prefix b t \<and> list_all name_ok (rel_elems b t)) \<or> (\<not> prefix b t \<and> (\<exists>r. rel_elems b t = ''..'' # r))"
proof (induction b t rule: rel_elems.induct [case_names both left_done right_done])
  case (right_done bs)
  then show ?case by (cases bs) auto
qed auto

lemma outside_Rel:
  assumes "list_all name_ok b" "list_all name_ok t"
  shows "outside (Rel (abs_path b) (abs_path t)) \<longleftrightarrow> \<not> prefix b t"
proof -
  have inside: "\<not> outside (go_join r slash)" if r: "list_all name_ok r" "r \<noteq> []" for r
  proof
    assume "outside (go_join r slash)"
    then obtain y where "go_join r slash = ''..'' \<or> go_join r slash = ''..'' @ slash @ y"
      by (auto simp: outside_def dotDot_def has_prefix_iff)
    then have "''..'' \<in> set (path_elems (go_join r slash))"
      using path_elems_append[of "''..''" y] split_slash_single[of "''..''"] by auto
    then show False using r by (auto simp: path_elems_join list_all_iff name_ok_def)
  qed
  have out: "outside (go_join (''..'' # r) slash)" for r
    by (cases r) (auto simp: outside_def dotDot_def has_prefix_iff slash_def)
  have "\<not> outside ''.''" by (simp add: outside_def dotDot_def has_prefix_def)
  then show ?thesis
    using rel_elems_outside[OF assms] inside out by (auto simp: Rel_abs_path[OF assms] Let_def)
qed

end
