(* ===== verification/Os_Files.thy ===== *)
theory Os_Files
  imports Path_Names
begin

section \<open>A file system with symbolic links\<close>

text \<open>
  What the file tools use of package \<open>os\<close> and of \<open>filepath\<close>'s functions that read the disk. A file
  system maps a physical path, the list of its components, to a directory, a file or a symbolic
  link. \<open>namei\<close> is the lookup of a path that follows the links it meets, at most as many as its
  limit (40 in the kernel, 255 in \<open>filepath.EvalSymlinks\<close>); every operation fails when the
  environment says so (\<open>fault\<close>), which stands for permissions, a full disk or a broken device, and
  gives the text of an error that is none of the others.

  \<open>wf_fs\<close> is what a file system keeps: the root is a directory, what stands in a directory has
  that directory, and components are proper names. The operations that change the file system keep
  it, and a path that a lookup returns crosses no link (\<open>real_path\<close>), so a later lookup finds the
  same place.
\<close>

subsection \<open>State\<close>

datatype os_err = ENOENT | ENOTDIR | EEXIST | EISDIR | ELOOP | OsFault string

datatype node = Folder nat | Regular string nat nat | Symlink string

datatype os_op =
  OpStat | OpRead | OpMkdir | OpCreate | OpWrite | OpChmod | OpClose | OpRename | OpEval

text \<open>
  \<open>clock\<close> stamps modifications; \<open>written\<close> is how much a write that fails still wrote, and
  \<open>suffixes\<close> the random numbers of \<open>os.CreateTemp\<close>.
\<close>

record fs =
  nodes :: "string list \<Rightarrow> node option"
  clock :: nat
  cwd :: string
  written :: nat
  suffixes :: "nat \<Rightarrow> nat"
  fault :: "os_op \<Rightarrow> string \<Rightarrow> string option"

subsection \<open>Lookup\<close>

function namei :: "(string list \<Rightarrow> node option) \<Rightarrow> bool \<Rightarrow> nat \<Rightarrow> string list \<Rightarrow> string list
    \<Rightarrow> os_err + string list" where
  "namei ns follow n d [] = Inr d"
| "namei ns follow n d (c # cs) =
     (if c = '''' \<or> c = ''.'' then namei ns follow n d cs
      else if c = ''..'' then namei ns follow n (butlast d) cs
      else case ns (d @ [c]) of
          None \<Rightarrow> Inl ENOENT
        | Some (Folder m) \<Rightarrow> namei ns follow n (d @ [c]) cs
        | Some (Regular t tm m) \<Rightarrow> if cs = [] then Inr (d @ [c]) else Inl ENOTDIR
        | Some (Symlink t) \<Rightarrow>
            if cs = [] \<and> \<not> follow then Inr (d @ [c])
            else if n = 0 then Inl ELOOP
            else namei ns follow (n - 1) (if IsAbs t then [] else d) (path_elems t @ cs))"
  by pat_completeness auto
termination
  by (relation "measures [\<lambda>(ns, follow, n, d, cs). n, \<lambda>(ns, follow, n, d, cs). length cs]") auto

declare namei.simps(2) [simp del]

lemma namei_special [simp]:
  "namei ns fl n d ('''' # cs) = namei ns fl n d cs"
  "namei ns fl n d (''.'' # cs) = namei ns fl n d cs"
  "namei ns fl n d (''..'' # cs) = namei ns fl n (butlast d) cs"
  by (simp_all add: namei.simps(2))

definition kernel_links :: nat where "kernel_links = 40"
definition eval_links :: nat where "eval_links = 255"

definition from_cwd :: "fs \<Rightarrow> string \<Rightarrow> string list" where
  "from_cwd s p = (if IsAbs p then path_elems p else path_elems (cwd s) @ path_elems p)"

definition check_fault :: "fs \<Rightarrow> os_op \<Rightarrow> string \<Rightarrow> (unit \<Rightarrow> os_err + 'a) \<Rightarrow> os_err + 'a" where
  "check_fault s op p k = (case fault s op p of Some e \<Rightarrow> Inl (OsFault e) | None \<Rightarrow> k ())"

definition stat :: "fs \<Rightarrow> string \<Rightarrow> os_err + node" where
  "stat s p = check_fault s OpStat p (\<lambda>_.
     (case namei (nodes s) True kernel_links [] (from_cwd s p) of
        Inl e \<Rightarrow> Inl e
      | Inr q \<Rightarrow> (case nodes s q of None \<Rightarrow> Inl ENOENT | Some nd \<Rightarrow> Inr nd)))"

definition lstat :: "fs \<Rightarrow> string \<Rightarrow> os_err + node" where
  "lstat s p = check_fault s OpStat p (\<lambda>_.
     (case namei (nodes s) False kernel_links [] (from_cwd s p) of
        Inl e \<Rightarrow> Inl e
      | Inr q \<Rightarrow> (case nodes s q of None \<Rightarrow> Inl ENOENT | Some nd \<Rightarrow> Inr nd)))"

definition read_file :: "fs \<Rightarrow> string \<Rightarrow> os_err + string" where
  "read_file s p = check_fault s OpRead p (\<lambda>_.
     (case namei (nodes s) True kernel_links [] (from_cwd s p) of
        Inl e \<Rightarrow> Inl e
      | Inr q \<Rightarrow> (case nodes s q of Some (Regular t tm m) \<Rightarrow> Inr t | Some _ \<Rightarrow> Inl EISDIR | None \<Rightarrow> Inl ENOENT)))"

text \<open>\<open>filepath.Abs\<close> and \<open>filepath.EvalSymlinks\<close>.\<close>

definition Abs :: "fs \<Rightarrow> string \<Rightarrow> string" where
  "Abs s p = (if IsAbs p then Clean p else Join [cwd s, p])"

definition EvalSymlinks :: "fs \<Rightarrow> string \<Rightarrow> os_err + string" where
  "EvalSymlinks s p = check_fault s OpEval p (\<lambda>_.
     (case namei (nodes s) True eval_links [] (from_cwd s p) of
        Inl e \<Rightarrow> Inl e
      | Inr q \<Rightarrow> Inr (abs_path q)))"

text \<open>The place a name has in its directory, whether anything stands there or not.\<close>

definition proper :: "string list \<Rightarrow> string list" where
  "proper cs = filter (\<lambda>c. c \<noteq> '''' \<and> c \<noteq> ''.'') cs"

definition place :: "fs \<Rightarrow> string \<Rightarrow> os_err + string list" where
  "place s p =
     (case rev (proper (from_cwd s p)) of
        [] \<Rightarrow> Inl EEXIST
      | c # ds \<Rightarrow>
          (case namei (nodes s) True kernel_links [] (rev ds) of
             Inl e \<Rightarrow> Inl e
           | Inr d \<Rightarrow> (case nodes s d of Some (Folder m) \<Rightarrow> Inr (d @ [c]) | _ \<Rightarrow> Inl ENOTDIR)))"

subsection \<open>Changes\<close>

definition set_node :: "fs \<Rightarrow> string list \<Rightarrow> node option \<Rightarrow> fs" where
  "set_node s q nd = s\<lparr>nodes := (nodes s)(q := nd)\<rparr>"

definition mkdir :: "fs \<Rightarrow> string \<Rightarrow> nat \<Rightarrow> os_err option \<times> fs" where
  "mkdir s p mode =
     (case check_fault s OpMkdir p (\<lambda>_. place s p) of
        Inl e \<Rightarrow> (Some e, s)
      | Inr q \<Rightarrow> if nodes s q = None then (None, set_node s q (Some (Folder mode))) else (Some EEXIST, s))"

text \<open>
  \<open>os.MkdirAll\<close> of the directory with the given elements, last first: the error of \<open>Mkdir\<close> is
  dropped when a directory is there all the same.
\<close>

definition mkdir_tolerant :: "fs \<Rightarrow> string \<Rightarrow> nat \<Rightarrow> os_err option \<times> fs" where
  "mkdir_tolerant s p mode =
     (case mkdir s p mode of
        (None, s') \<Rightarrow> (None, s')
      | (Some e, s') \<Rightarrow>
          (case lstat s' p of Inr (Folder m) \<Rightarrow> (None, s') | _ \<Rightarrow> (Some e, s')))"

fun mkdir_all :: "fs \<Rightarrow> nat \<Rightarrow> string list \<Rightarrow> os_err option \<times> fs" where
  "mkdir_all s mode [] =
     (case stat s (abs_path []) of
        Inr (Folder m) \<Rightarrow> (None, s)
      | Inr _ \<Rightarrow> (Some ENOTDIR, s)
      | Inl _ \<Rightarrow> mkdir_tolerant s (abs_path []) mode)"
| "mkdir_all s mode (d # ds) =
     (case stat s (abs_path (rev (d # ds))) of
        Inr (Folder m) \<Rightarrow> (None, s)
      | Inr _ \<Rightarrow> (Some ENOTDIR, s)
      | Inl _ \<Rightarrow>
          (case mkdir_all s mode ds of
             (Some e, s') \<Rightarrow> (Some e, s')
           | (None, s') \<Rightarrow> mkdir_tolerant s' (abs_path (rev (d # ds))) mode))"

definition MkdirAll :: "fs \<Rightarrow> string \<Rightarrow> nat \<Rightarrow> os_err option \<times> fs" where
  "MkdirAll s p mode = mkdir_all s mode (rev (proper (path_elems p)))"

text \<open>
  \<open>os.CreateTemp\<close>: a new file with mode 0600 (384) in the directory, under the first random name not yet taken (it gives
  up after 10000). The result is the path of the file and its place.
\<close>

definition temp_tries :: nat where "temp_tries = 10000"

function temp_name :: "fs \<Rightarrow> string list \<Rightarrow> string \<Rightarrow> nat \<Rightarrow> string option" where
  "temp_name s d pat k =
     (if nodes s (d @ [pat @ nat_digits (suffixes s k)]) = None then Some (pat @ nat_digits (suffixes s k))
      else if k < temp_tries then temp_name s d pat (k + 1) else None)"
  by pat_completeness auto
termination
  by (relation "measure (\<lambda>(s, d, pat, k). temp_tries - k)") auto

declare temp_name.simps [simp del]

definition CreateTemp :: "fs \<Rightarrow> string \<Rightarrow> string \<Rightarrow> (os_err + string \<times> string list) \<times> fs" where
  "CreateTemp s dir pat =
     (case check_fault s OpCreate dir (\<lambda>_. namei (nodes s) True kernel_links [] (from_cwd s dir)) of
        Inl e \<Rightarrow> (Inl e, s)
      | Inr d \<Rightarrow>
          (case nodes s d of
             Some (Folder m) \<Rightarrow>
               (case temp_name s d pat 0 of
                  None \<Rightarrow> (Inl EEXIST, s)
                | Some c \<Rightarrow>
                    (Inr ((if has_suffix dir slash then dir @ c else dir @ slash @ c), d @ [c]),
                     set_node s (d @ [c]) (Some (Regular '''' (clock s) 384))))
           | _ \<Rightarrow> (Inl ENOTDIR, s)))"

text \<open>Operations on an open file, by its place; a write that fails has written a part.\<close>

definition put_content :: "fs \<Rightarrow> string list \<Rightarrow> string \<Rightarrow> fs" where
  "put_content s q t =
     (case nodes s q of
        Some (Regular u tm m) \<Rightarrow> set_node s q (Some (Regular t (clock s) m))
      | _ \<Rightarrow> s)"

definition put_mode :: "fs \<Rightarrow> string list \<Rightarrow> nat \<Rightarrow> fs" where
  "put_mode s q mode =
     (case nodes s q of
        Some (Regular u tm m) \<Rightarrow> set_node s q (Some (Regular u tm mode))
      | _ \<Rightarrow> s)"

text \<open>
  \<open>os.Rename\<close> replaces what stands at the new name in one step; a directory is not replaced.
  \<open>os.Remove\<close> of a file.
\<close>

definition rename :: "fs \<Rightarrow> string \<Rightarrow> string \<Rightarrow> os_err option \<times> fs" where
  "rename s old new =
     (case check_fault s OpRename new (\<lambda>_. place s old) of
        Inl e \<Rightarrow> (Some e, s)
      | Inr q \<Rightarrow>
          (case place s new of
             Inl e \<Rightarrow> (Some e, s)
           | Inr r \<Rightarrow>
               (case (nodes s q, nodes s r) of
                  (None, _) \<Rightarrow> (Some ENOENT, s)
                | (_, Some (Folder m)) \<Rightarrow> (Some EEXIST, s)
                | (Some nd, _) \<Rightarrow> (None, set_node (set_node s q None) r (Some nd)))))"

definition remove :: "fs \<Rightarrow> string \<Rightarrow> fs" where
  "remove s p =
     (case place s p of
        Inl e \<Rightarrow> s
      | Inr q \<Rightarrow> (case nodes s q of Some (Regular t tm m) \<Rightarrow> set_node s q None | _ \<Rightarrow> s))"

subsection \<open>What a file system keeps\<close>

definition is_folder :: "(string list \<Rightarrow> node option) \<Rightarrow> string list \<Rightarrow> bool" where
  "is_folder ns d = (case ns d of Some (Folder m) \<Rightarrow> True | _ \<Rightarrow> False)"

definition wf_nodes :: "(string list \<Rightarrow> node option) \<Rightarrow> bool" where
  "wf_nodes ns \<longleftrightarrow> is_folder ns [] \<and>
     (\<forall>d c. ns (d @ [c]) \<noteq> None \<longrightarrow> is_folder ns d \<and> name_ok c)"

lemma is_folder_iff: "is_folder ns d \<longleftrightarrow> (\<exists>m. ns d = Some (Folder m))"
  by (auto simp: is_folder_def split: option.splits node.splits)

lemma wf_parent: "wf_nodes ns \<Longrightarrow> ns (d @ [c]) = Some nd \<Longrightarrow> is_folder ns d \<and> name_ok c"
  by (auto simp: wf_nodes_def)

lemma wf_above:
  "wf_nodes ns \<Longrightarrow> ns (d @ e) = Some nd \<Longrightarrow> e \<noteq> [] \<Longrightarrow> is_folder ns d"
proof (induction e arbitrary: nd rule: rev_induct)
  case (snoc c e)
  then have "is_folder ns (d @ e)" using wf_parent[of ns "d @ e" c] by simp
  then show ?case using snoc by (cases "e = []") (auto simp: is_folder_iff)
qed simp

lemma wf_names: "wf_nodes ns \<Longrightarrow> ns d = Some nd \<Longrightarrow> list_all name_ok d"
proof (induction d arbitrary: nd rule: rev_induct)
  case (snoc c d)
  then show ?case using wf_parent[of ns d c] by (auto simp: is_folder_iff)
qed simp

lemma wf_butlast: "wf_nodes ns \<Longrightarrow> is_folder ns d \<Longrightarrow> is_folder ns (butlast d)"
  by (cases d rule: rev_cases) (auto simp: is_folder_iff dest: wf_parent)

definition is_link :: "(string list \<Rightarrow> node option) \<Rightarrow> string list \<Rightarrow> bool" where
  "is_link ns d = (case ns d of Some (Symlink t) \<Rightarrow> True | _ \<Rightarrow> False)"

lemma namei_found:
  "wf_nodes ns \<Longrightarrow> is_folder ns d \<Longrightarrow> namei ns fl n d cs = Inr q \<Longrightarrow>
     (\<exists>nd. ns q = Some nd) \<and> (fl \<longrightarrow> \<not> is_link ns q)"
proof (induction ns fl n d cs rule: namei.induct)
  case (1 ns fl n d)
  then show ?case by (auto simp: is_folder_iff is_link_def)
next
  case (2 ns fl n d c cs)
  note step = "2.prems"(3)[unfolded namei.simps(2)[of ns fl n d c cs]]
  have up: "is_folder ns (butlast d)" and root: "is_folder ns []"
    using "2.prems" wf_butlast by (auto simp: wf_nodes_def)
  consider "c = '''' \<or> c = ''.''" | "c \<noteq> ''''" "c \<noteq> ''.''" "c = ''..''"
    | "c \<noteq> ''''" "c \<noteq> ''.''" "c \<noteq> ''..''"
    by blast
  then show ?case
  proof cases
    case 3
    then obtain nd where nd: "ns (d @ [c]) = Some nd" using step by (auto split: option.splits)
    then show ?thesis
    proof (cases nd)
      case (Folder m)
      then show ?thesis using 3 nd step 2(3)[of nd m] "2.prems" by (auto simp: is_folder_iff)
    next
      case (Regular t tm m)
      then show ?thesis using 3 nd step by (auto simp: is_link_def split: if_splits)
    next
      case (Symlink t)
      show ?thesis
      proof (cases "cs = [] \<and> \<not> fl \<or> n = 0")
        case True
        then show ?thesis using 3 nd step Symlink by (auto split: if_splits)
      next
        case False
        then have "namei ns fl (n - 1) (if IsAbs t then [] else d) (path_elems t @ cs) = Inr q"
          using 3 nd step Symlink by auto
        moreover have "is_folder ns (if IsAbs t then [] else d)" using root "2.prems"(2) by simp
        ultimately show ?thesis using 2(4)[of nd t] 3 nd Symlink False "2.prems"(1) by blast
      qed
    qed
  qed (use step up "2.IH"(1,2) "2.prems" in auto)
qed

lemma namei_real:
  assumes "wf_nodes ns" "list_all name_ok cs" "is_folder ns d"
    "\<And>e c. prefix (e @ [c]) cs \<Longrightarrow> e @ [c] \<noteq> cs \<Longrightarrow> is_folder ns (d @ e @ [c])"
    "cs \<noteq> [] \<Longrightarrow> ns (d @ cs) \<noteq> None \<and> (fl \<longrightarrow> \<not> is_link ns (d @ cs))"
  shows "namei ns fl n d cs = Inr (d @ cs)"
  using assms
proof (induction cs arbitrary: d)
  case (Cons c cs)
  have c: "c \<noteq> ''''" "c \<noteq> ''.''" "c \<noteq> ''..''" using Cons.prems(2) by (auto simp: name_ok_def)
  show ?case
  proof (cases "cs = []")
    case True
    then obtain nd where nd: "ns (d @ [c]) = Some nd" and lk: "fl \<longrightarrow> \<not> is_link ns (d @ [c])"
      using Cons.prems(5) by auto
    show ?thesis
      using nd lk c True by (cases nd) (auto simp: namei.simps(2) is_link_def)
  next
    case False
    then have f: "is_folder ns (d @ [c])" using Cons.prems(4)[of "[]" c] by auto
    have "namei ns fl n (d @ [c]) cs = Inr ((d @ [c]) @ cs)"
    proof (rule Cons.IH)
      fix e c' assume "prefix (e @ [c']) cs" "e @ [c'] \<noteq> cs"
      then show "is_folder ns ((d @ [c]) @ e @ [c'])" using Cons.prems(4)[of "c # e" c'] by auto
    qed (use Cons.prems f in auto)
    then show ?thesis using f c by (auto simp: namei.simps(2) is_folder_iff)
  qed
qed simp

lemma namei_existing:
  assumes "wf_nodes ns" "ns q = Some nd" "fl \<longrightarrow> \<not> is_link ns q"
  shows "namei ns fl n [] q = Inr q"
proof -
  have "namei ns fl n [] q = Inr ([] @ q)"
  proof (rule namei_real)
    fix e c assume p: "prefix (e @ [c]) q" "e @ [c] \<noteq> q"
    then obtain r where "q = (e @ [c]) @ r" "r \<noteq> []" by (metis append_Nil2 prefix_def)
    then show "is_folder ns ([] @ e @ [c])" using wf_above[OF assms(1), of "e @ [c]" r] assms(2) by simp
  qed (use assms wf_names in \<open>auto simp: wf_nodes_def\<close>)
  then show ?thesis by simp
qed

lemma namei_limit:
  "namei ns fl n d cs = Inr q \<Longrightarrow> namei ns fl n' d cs = Inr q \<or> namei ns fl n' d cs = Inl ELOOP"
proof (induction ns fl n d cs arbitrary: n' rule: namei.induct)
  case (2 ns fl n d c cs)
  note step = "2.prems"[unfolded namei.simps(2)[of ns fl n d c cs]]
  consider "c = '''' \<or> c = ''.''" | "c \<noteq> ''''" "c \<noteq> ''.''" "c = ''..''"
    | "c \<noteq> ''''" "c \<noteq> ''.''" "c \<noteq> ''..''"
    by blast
  then show ?case
  proof cases
    case 3
    then obtain nd where nd: "ns (d @ [c]) = Some nd" using step by (auto split: option.splits)
    show ?thesis
    proof (cases nd)
      case (Folder m)
      then show ?thesis using 3 nd step 2(3)[of nd m] by (simp add: namei.simps(2)[of ns fl n' d c cs])
    next
      case (Regular t tm m)
      then show ?thesis using 3 nd step by (simp add: namei.simps(2)[of ns fl n' d c cs])
    next
      case (Symlink t)
      then show ?thesis
        using 3 nd step 2(4)[of nd t "n' - 1"] by (auto simp: namei.simps(2)[of ns fl n' d c cs] split: if_splits)
    qed
  qed (use step "2.IH"(1,2)[of n'] in auto)
qed simp

lemma namei_append:
  "namei ns True n d cs = Inr q \<Longrightarrow> is_folder ns d \<Longrightarrow> wf_nodes ns \<Longrightarrow>
     \<exists>n'. namei ns True n d (cs @ [e]) =
        (if is_folder ns q then namei ns True n' q [e] else Inl ENOTDIR)"
proof (induction ns "True" n d cs rule: namei.induct)
  case (1 ns n d)
  then show ?case by auto
next
  case (2 ns n d c cs)
  note step = "2.prems"(1)[unfolded namei.simps(2)[of ns True n d c cs]]
  have up: "is_folder ns (butlast d)" and root: "is_folder ns []"
    using "2.prems" wf_butlast by (auto simp: wf_nodes_def)
  consider "c = '''' \<or> c = ''.''" | "c \<noteq> ''''" "c \<noteq> ''.''" "c = ''..''"
    | "c \<noteq> ''''" "c \<noteq> ''.''" "c \<noteq> ''..''"
    by blast
  then show ?case
  proof cases
    case 3
    then obtain nd where nd: "ns (d @ [c]) = Some nd" using step by (auto split: option.splits)
    show ?thesis
    proof (cases nd)
      case (Folder m)
      then show ?thesis using 3 nd step 2(3)[of nd m] "2.prems"
        by (simp add: namei.simps(2)[of ns True n d c "cs @ [e]"] is_folder_iff)
    next
      case (Regular t tm m)
      then have "cs = []" "q = d @ [c]" using 3 nd step by (auto split: if_splits)
      then show ?thesis using 3 nd Regular
        by (simp add: namei.simps(2)[of ns True n d c "[e]"] is_folder_iff)
    next
      case (Symlink t)
      then show ?thesis using 3 nd step 2(4)[of nd t] "2.prems" root
        by (auto simp: namei.simps(2)[of ns True n d c "cs @ [e]"] split: if_splits)
    qed
  qed (use step up 2(1,2) "2.prems" in auto)
qed

lemma namei_from_folder:
  "wf_nodes ns \<Longrightarrow> is_folder ns (d @ cs) \<Longrightarrow> namei ns fl n d (cs @ es) = namei ns fl n (d @ cs) es"
proof (induction cs arbitrary: d)
  case (Cons b cs)
  then obtain m where "ns (d @ [b]) = Some (Folder m)"
    using wf_above[of ns "d @ [b]" cs] by (cases "cs = []") (auto simp: is_folder_iff)
  moreover have "name_ok b" using wf_names[of ns "d @ b # cs"] Cons.prems by (auto simp: is_folder_iff)
  ultimately show ?case using Cons.IH[of "d @ [b]"] Cons.prems
    by (auto simp: namei.simps(2)[of ns fl n d b] name_ok_def)
qed simp

lemma namei_missing:
  assumes "namei ns True n q [c] = Inl ENOENT" "is_folder ns q" "name_ok c" "wf_nodes ns"
  shows "ns (q @ [c]) = None \<or> is_link ns (q @ [c]) \<and> (\<forall>n' r. namei ns True n' [] (q @ [c]) \<noteq> Inr r)"
proof (cases "ns (q @ [c])")
  case (Some nd)
  have c: "c \<noteq> ''''" "c \<noteq> ''.''" "c \<noteq> ''..''" using assms(3) by (auto simp: name_ok_def)
  have "namei ns True n' [] (q @ [c]) = namei ns True n' q [c]" for n'
    using namei_from_folder[of ns "[]" q True n' "[c]"] assms by simp
  then show ?thesis
    using assms(1) Some c namei_limit[of ns True _ q "[c]" _ n]
    by (cases nd) (auto simp: namei.simps(2)[of ns True n q] is_link_def)
qed simp

lemma namei_prefix:
  "namei ns True n d (as @ bs) = Inr q \<Longrightarrow> \<exists>r. namei ns True n d as = Inr r"
proof (induction ns "True" n d "as @ bs" arbitrary: as rule: namei.induct)
  case (2 ns n d c cs)
  show ?case
  proof (cases as)
    case (Cons c' as')
    then have [simp]: "c' = c" "as = c # as'" "cs = as' @ bs" using "2.hyps"(5) by auto
    note step = "2.prems"[simplified, unfolded namei.simps(2)[of ns True n d c]]
    consider "c = '''' \<or> c = ''.''" | "c \<noteq> ''''" "c \<noteq> ''.''" "c = ''..''"
      | "c \<noteq> ''''" "c \<noteq> ''.''" "c \<noteq> ''..''"
      by blast
    then show ?thesis
    proof cases
      case 3
      then obtain nd where nd: "ns (d @ [c]) = Some nd" using step by (auto split: option.splits)
      show ?thesis
      proof (cases nd)
        case (Symlink t)
        then show ?thesis using 3 nd step "2.hyps"(4)[of nd t "path_elems t @ as'"]
          by (auto simp: namei.simps(2)[of ns True n d c as'] split: if_splits)
      next
        case (Folder m)
        then show ?thesis using 3 nd step "2.hyps"(3)[of nd m as']
          by (auto simp: namei.simps(2)[of ns True n d c as'])
      qed (use 3 nd step in \<open>auto simp: namei.simps(2)[of ns True n d c as'] split: if_splits\<close>)
    qed (use step "2.hyps"(1)[of as'] "2.hyps"(2)[of as'] in auto)
  qed simp
qed simp

text \<open>A link that leads nowhere, and a path on which every link is one.\<close>

definition dangling :: "(string list \<Rightarrow> node option) \<Rightarrow> string list \<Rightarrow> bool" where
  "dangling ns p \<longleftrightarrow> is_link ns p \<and> (\<forall>n r. namei ns True n [] p \<noteq> Inr r)"

definition no_live_link :: "(string list \<Rightarrow> node option) \<Rightarrow> string list \<Rightarrow> bool" where
  "no_live_link ns t \<longleftrightarrow> (\<forall>p. prefix p t \<longrightarrow> is_link ns p \<longrightarrow> dangling ns p)"

lemma no_live_link_prefix: "no_live_link ns t \<Longrightarrow> prefix p t \<Longrightarrow> no_live_link ns p"
  by (auto simp: no_live_link_def)

lemma namei_no_live_link:
  "wf_nodes ns \<Longrightarrow> list_all name_ok t \<Longrightarrow> no_live_link ns t \<Longrightarrow> namei ns True n [] t = Inr q \<Longrightarrow> q = t"
proof (induction t arbitrary: q rule: rev_induct)
  case (snoc c t)
  obtain r where "namei ns True n [] t = Inr r" using namei_prefix[OF snoc.prems(4)] by blast
  moreover have "no_live_link ns t" using snoc.prems(3) no_live_link_prefix by auto
  ultimately have t: "namei ns True n [] t = Inr t" using snoc by auto
  have "is_folder ns t"
    using namei_append[OF t _ snoc.prems(1), of c] snoc.prems(1,4) by (auto simp: wf_nodes_def split: if_splits)
  then have s: "namei ns True n [] (t @ [c]) = namei ns True n t [c]"
    using namei_from_folder[of ns "[]" t True n "[c]"] snoc.prems(1) by simp
  have "\<not> is_link ns (t @ [c])"
    using snoc.prems(3,4) by (auto simp: no_live_link_def dangling_def)
  then show ?case
    using snoc.prems(2,4) s by (auto simp: namei.simps(2) name_ok_def is_link_def split: option.splits node.splits)
qed simp

subsection \<open>Operations on paths without live links\<close>

lemma from_cwd_abs [simp]: "from_cwd s (abs_path q) = path_elems (abs_path q)"
  by (simp add: from_cwd_def)

lemma proper_abs_path [simp]: "list_all name_ok q \<Longrightarrow> proper (path_elems (abs_path q)) = q"
  by (auto simp: path_elems_abs_path proper_def filter_id_conv list_all_iff name_ok_def)

lemma namei_abs_path [simp]:
  "list_all name_ok q \<Longrightarrow> namei ns fl n [] (path_elems (abs_path q)) = namei ns fl n [] q"
  by (auto simp: path_elems_abs_path)

lemma stat_node:
  assumes "wf_nodes (nodes s)" "list_all name_ok t" "no_live_link (nodes s) t" "stat s (abs_path t) = Inr nd"
  shows "nodes s t = Some nd" "\<not> is_link (nodes s) t"
proof -
  obtain q where q: "namei (nodes s) True kernel_links [] t = Inr q" "nodes s q = Some nd"
    using assms(2,4) by (auto simp: stat_def check_fault_def split: option.splits sum.splits)
  then have "q = t" using namei_no_live_link assms(1-3) by blast
  then show "nodes s t = Some nd" "\<not> is_link (nodes s) t"
    using q assms(3) by (auto simp: no_live_link_def dangling_def)
qed

lemma stat_existing:
  assumes "wf_nodes (nodes s)" "nodes s t = Some nd" "\<not> is_link (nodes s) t" "fault s OpStat (abs_path t) = None"
  shows "stat s (abs_path t) = Inr nd"
  using assms wf_names[OF assms(1,2)] namei_existing[OF assms(1,2)]
  by (simp add: stat_def check_fault_def)

lemma read_file_node:
  assumes "wf_nodes (nodes s)" "list_all name_ok t" "no_live_link (nodes s) t" "read_file s (abs_path t) = Inr x"
  obtains tm m where "nodes s t = Some (Regular x tm m)"
proof -
  obtain q tm m where q: "namei (nodes s) True kernel_links [] t = Inr q" "nodes s q = Some (Regular x tm m)"
    using assms(2,4) by (auto simp: read_file_def check_fault_def split: option.splits sum.splits node.splits)
  then have "q = t" using namei_no_live_link assms(1-3) by blast
  then show ?thesis using that q by blast
qed

lemma place_known:
  assumes "wf_nodes (nodes s)" "is_folder (nodes s) d" "name_ok c"
  shows "place s (abs_path (d @ [c])) = Inr (d @ [c])"
proof -
  have "list_all name_ok d" using assms(1,2) wf_names by (auto simp: is_folder_iff)
  moreover have "namei (nodes s) True kernel_links [] d = Inr d"
    using assms by (auto simp: is_folder_iff is_link_def intro: namei_existing)
  ultimately show ?thesis using assms(2,3) by (auto simp: place_def is_folder_iff)
qed

lemma wf_nodesI:
  "is_folder ns [] \<Longrightarrow> (\<And>d c nd. ns (d @ [c]) = Some nd \<Longrightarrow> is_folder ns d \<and> name_ok c) \<Longrightarrow> wf_nodes ns"
  by (auto simp: wf_nodes_def)

lemma is_folder_upd: "is_folder (ns(q := x)) d \<longleftrightarrow> (if d = q then is_folder (\<lambda>_. x) d else is_folder ns d)"
  by (auto simp: is_folder_def)

lemma wf_set_node:
  assumes "wf_nodes ns" "is_folder ns d" "name_ok c" "is_folder ns (d @ [c]) \<Longrightarrow> is_folder (\<lambda>_. Some nd) []"
  shows "wf_nodes (ns(d @ [c] \<mapsto> nd))"
proof (rule wf_nodesI)
  show "is_folder (ns(d @ [c] \<mapsto> nd)) []" using assms(1) by (simp add: is_folder_upd wf_nodes_def)
next
  fix e b nd' assume e: "(ns(d @ [c] \<mapsto> nd)) (e @ [b]) = Some nd'"
  show "is_folder (ns(d @ [c] \<mapsto> nd)) e \<and> name_ok b"
  proof (cases "e @ [b] = d @ [c]")
    case True
    then show ?thesis using assms by (simp add: is_folder_upd)
  next
    case False
    then have "is_folder ns e \<and> name_ok b" using e wf_parent[OF assms(1)] by (auto split: if_splits)
    then show ?thesis using assms(4) by (auto simp: is_folder_upd) (simp add: is_folder_def)
  qed
qed

lemma wf_unset_node:
  assumes "wf_nodes ns" "\<not> is_folder ns q"
  shows "wf_nodes (ns(q := None))"
proof (rule wf_nodesI)
  show "is_folder (ns(q := None)) []" using assms by (auto simp: is_folder_upd wf_nodes_def)
next
  fix e b nd' assume e: "(ns(q := None)) (e @ [b]) = Some nd'"
  then have "is_folder ns e \<and> name_ok b" using wf_parent[OF assms(1)] by (simp split: if_splits)
  then show "is_folder (ns(q := None)) e \<and> name_ok b" using assms(2) by (auto simp: is_folder_upd)
qed

end
