(* ===== verification/File_Core.thy ===== *)
theory File_Core
  imports Os_Files
begin

section \<open>The file tools: paths, tracking, writing and editing\<close>

text \<open>
  Package \<open>tool/file\<close>: the options of the tools (\<open>option.go\<close>), the resolution and confinement of
  paths (\<open>path.go\<close>), the tracker of what the model has read (\<open>tracker.go\<close>), changes and their
  atomic writing (\<open>change.go\<close>, \<open>write.go\<close>), and the \<open>write\<close>, \<open>edit\<close> and \<open>multi_edit\<close> tools. A
  tool is its options; the state of the tools of an agent is the file system, the tracker they
  share and the changes its \<open>WriteHook\<close> was called with. A nil tracker or hook is an option that
  is off.
\<close>

subsection \<open>Errors\<close>

datatype file_err =
    ErrPathRequired | ErrPatternRequired | ErrPathMustBeAbsolute | ErrPathOutsideWorkingDirectory
  | TooLargeError string int int
  | ErrFileExists | ErrOldStringRequired
  | ErrFileNotRead string
  | ChangedError string
  | ErrEditsRequired | ErrInvalidOutputMode | ErrContextFlagsRequireContentMode
  | OsError os_err
  | ResolveError string os_err
  | Errorf string
  | EditError nat nat file_err

fun file_err_text :: "file_err \<Rightarrow> string" where
  "file_err_text ErrPathRequired = ''file_path is required''"
| "file_err_text ErrPatternRequired = ''pattern is required''"
| "file_err_text ErrPathMustBeAbsolute = ''path must be absolute''"
| "file_err_text ErrPathOutsideWorkingDirectory = ''path is outside the working directory''"
| "file_err_text (TooLargeError p n lim) =
     p @ '': file size '' @ go_itoa n @ '' bytes exceeds limit of '' @ go_itoa lim @ '' bytes''"
| "file_err_text ErrFileExists = ''file already exists''"
| "file_err_text ErrOldStringRequired = ''old_string is required''"
| "file_err_text (ErrFileNotRead p) = ''file must be read before it is changed: '' @ p"
| "file_err_text (ChangedError p) = p @ '' changed since it was read: read it again''"
| "file_err_text ErrEditsRequired = ''edits are required''"
| "file_err_text ErrInvalidOutputMode = ''invalid output_mode''"
| "file_err_text ErrContextFlagsRequireContentMode = ''-A/-B/-C/-n require output_mode=content''"
| "file_err_text (OsError e) = (case e of OsFault t \<Rightarrow> t | _ \<Rightarrow> ''os error'')"
| "file_err_text (ResolveError what e) = what @ '': '' @ (case e of OsFault t \<Rightarrow> t | _ \<Rightarrow> ''os error'')"
| "file_err_text (Errorf t) = t"
| "file_err_text (EditError i n e) =
     ''edit '' @ nat_digits i @ '' of '' @ nat_digits n @ '': '' @ file_err_text e @ '' (no edit was applied)''"

subsection \<open>Options\<close>

definition DefaultMaxResults :: int where "DefaultMaxResults = 1000"
definition DefaultMaxFileSize :: int where "DefaultMaxFileSize = 10 * 2 ^ 20"
definition DefaultMaxOutputChars :: int where "DefaultMaxOutputChars = 30000"

record tool_options =
  workingDir :: string
  maxFileSize :: int
  maxOutput :: int
  noOverwrite :: bool
  maxResults :: int
  noIgnore :: bool
  tracked :: bool
  onWrite :: bool
  readRoots :: "string list"

definition default_options :: tool_options where
  "default_options = \<lparr>workingDir = [], maxFileSize = DefaultMaxFileSize, maxOutput = DefaultMaxOutputChars,
     noOverwrite = False, maxResults = DefaultMaxResults, noIgnore = False, tracked = False,
     onWrite = False, readRoots = []\<rparr>"

type_synonym file_option = "tool_options \<Rightarrow> tool_options"

definition WithWorkingDirectory :: "string \<Rightarrow> file_option" where
  "WithWorkingDirectory dir ot = ot\<lparr>workingDir := dir\<rparr>"

definition WithReadOnlyRoots :: "string list \<Rightarrow> file_option" where
  "WithReadOnlyRoots dirs ot = ot\<lparr>readRoots := readRoots ot @ filter (\<lambda>d. \<not> blank d) dirs\<rparr>"

definition WithMaxFileSize :: "int \<Rightarrow> file_option" where
  "WithMaxFileSize n ot = ot\<lparr>maxFileSize := n\<rparr>"

definition WithMaxOutputChars :: "int \<Rightarrow> file_option" where
  "WithMaxOutputChars n ot = ot\<lparr>maxOutput := n\<rparr>"

definition WithNoOverwrite :: file_option where
  "WithNoOverwrite ot = ot\<lparr>noOverwrite := True\<rparr>"

definition WithMaxResults :: "int \<Rightarrow> file_option" where
  "WithMaxResults n ot = ot\<lparr>maxResults := n\<rparr>"

definition WithNoIgnore :: file_option where
  "WithNoIgnore ot = ot\<lparr>noIgnore := True\<rparr>"

definition WithReadTracker :: "bool \<Rightarrow> file_option" where
  "WithReadTracker t ot = ot\<lparr>tracked := t\<rparr>"

definition WithOnWrite :: "bool \<Rightarrow> file_option" where
  "WithOnWrite h ot = ot\<lparr>onWrite := h\<rparr>"

definition applyOptions :: "file_option list \<Rightarrow> tool_options" where
  "applyOptions opts =
     (let ot = fold (\<lambda>f. f) opts default_options
      in if workingDir ot \<noteq> []
         then ot\<lparr>readRoots := map (\<lambda>r. if IsAbs r then r else Join [workingDir ot, r]) (readRoots ot)\<rparr>
         else ot)"


subsection \<open>Paths\<close>

text \<open>
  The path of a tool call is cleaned, must be absolute, and its links are resolved; those of the
  existing parents when the file is not there yet (\<open>resolve_links_loop\<close>, whose list holds the missing
  names, innermost first). With a working directory the result must lie inside it.
\<close>

function resolve_links_loop :: "fs \<Rightarrow> string \<Rightarrow> string list \<Rightarrow> os_err + string" where
  "resolve_links_loop s current missingParts =
     (case EvalSymlinks s current of
        Inr resolved \<Rightarrow> Inr (Clean (foldr (\<lambda>c r. Join [r, c]) missingParts resolved))
      | Inl e \<Rightarrow>
          if e \<noteq> ENOENT then Inl e
          else if Dir current = current then Inl e
          else resolve_links_loop s (Dir current) (missingParts @ [Base current]))"
  by pat_completeness auto
termination
  by (relation "measure (\<lambda>(s, current, missingParts). path_height current)") (auto simp: Dir_lower)

declare resolve_links_loop.simps [simp del]

definition resolvePathWithSymlinks :: "fs \<Rightarrow> string \<Rightarrow> os_err + string" where
  "resolvePathWithSymlinks s path = resolve_links_loop s (Clean path) []"

definition resolveToolPath :: "fs \<Rightarrow> string \<Rightarrow> string \<Rightarrow> file_err + string" where
  "resolveToolPath s wd inputPath =
     (let path = Clean inputPath
      in if \<not> IsAbs path then Inl ErrPathMustBeAbsolute
         else case resolvePathWithSymlinks s (Abs s path) of
             Inl e \<Rightarrow> Inl (ResolveError ''resolve path symlinks'' e)
           | Inr resolvedPath \<Rightarrow>
               if wd = [] then Inr resolvedPath
               else case EvalSymlinks s (Abs s (Clean wd)) of
                   Inl e \<Rightarrow> Inl (ResolveError ''resolve working directory symlinks'' e)
                 | Inr resolvedWorkingDir \<Rightarrow>
                     if outside (Rel resolvedWorkingDir resolvedPath) then Inl ErrPathOutsideWorkingDirectory
                     else Inr resolvedPath)"

definition ResolvePath :: "fs \<Rightarrow> string \<Rightarrow> string \<Rightarrow> file_err + string" where
  "ResolvePath s wd path = resolveToolPath s wd path"

fun first_root :: "(string \<Rightarrow> file_err + string) \<Rightarrow> string list \<Rightarrow> string option" where
  "first_root f [] = None"
| "first_root f (root # roots) =
     (case f root of Inr inRoot \<Rightarrow> Some inRoot | Inl _ \<Rightarrow> first_root f roots)"

definition resolveReadPath :: "fs \<Rightarrow> string \<Rightarrow> string list \<Rightarrow> string \<Rightarrow> file_err + string" where
  "resolveReadPath s wd roots inputPath =
     (case resolveToolPath s wd inputPath of
        Inl ErrPathOutsideWorkingDirectory \<Rightarrow>
          (case first_root (\<lambda>root. resolveToolPath s root inputPath) roots of
             Some inRoot \<Rightarrow> Inr inRoot
           | None \<Rightarrow> Inl ErrPathOutsideWorkingDirectory)
      | r \<Rightarrow> r)"

subsection \<open>The tracker\<close>

text \<open>
  A stamp is the modification time and the size of a file. A directory is never read by the tools
  nor recorded; its stamp is not looked at.
\<close>

type_synonym stamp = "nat \<times> nat"

definition node_stamp :: "node \<Rightarrow> stamp" where
  "node_stamp nd = (case nd of Regular t tm m \<Rightarrow> (tm, length t) | _ \<Rightarrow> (0, 0))"

definition node_perm :: "node \<Rightarrow> nat" where
  "node_perm nd = (case nd of Regular t tm m \<Rightarrow> m | Folder m \<Rightarrow> m | Symlink t \<Rightarrow> 0)"

record change =
  path :: string
  existed :: bool
  before :: "string option"
  after :: string
  perm :: nat

record file_state =
  disk :: fs
  seen :: "string \<Rightarrow> stamp option"
  hooked :: "change list"

definition NewReadTracker :: "string \<Rightarrow> stamp option" where
  "NewReadTracker = (\<lambda>_. None)"

definition Reset :: "file_state \<Rightarrow> file_state" where
  "Reset st = st\<lparr>seen := NewReadTracker\<rparr>"

definition tracker_record :: "tool_options \<Rightarrow> file_state \<Rightarrow> string \<Rightarrow> file_state" where
  "tracker_record opt st p =
     (if \<not> tracked opt then st
      else case stat (disk st) p of
          Inl _ \<Rightarrow> st
        | Inr nd \<Rightarrow> st\<lparr>seen := (seen st)(p \<mapsto> node_stamp nd)\<rparr>)"

definition tracker_check :: "tool_options \<Rightarrow> file_state \<Rightarrow> string \<Rightarrow> file_err option" where
  "tracker_check opt st p =
     (if \<not> tracked opt then None
      else case stat (disk st) p of
          Inl e \<Rightarrow> if e = ENOENT then None else Some (OsError e)
        | Inr nd \<Rightarrow>
            (case seen st p of
               None \<Rightarrow> Some (ErrFileNotRead p)
             | Some seen_stamp \<Rightarrow>
                 if fst seen_stamp \<noteq> fst (node_stamp nd) \<or> snd seen_stamp \<noteq> snd (node_stamp nd)
                 then Some (ChangedError p) else None))"

subsection \<open>Writing\<close>

definition temp_pattern :: string where
  "temp_pattern = ''.phero-write-''"

text \<open>
  \<open>atomicWriteFile\<close> with the states of the file system after each of its calls: the temporary file is
  created, written (in two steps, as a reader can see a part), made to have the permissions, closed
  and renamed over the path; on an error it is removed.
\<close>

definition atomicWriteFile :: "fs \<Rightarrow> string \<Rightarrow> string \<Rightarrow> nat \<Rightarrow> os_err option \<times> fs list" where
  "atomicWriteFile s p data mode =
     (case CreateTemp s (Dir p) temp_pattern of
        (Inl e, s1) \<Rightarrow> (Some e, [s1])
      | (Inr (tmp, q), s1) \<Rightarrow>
          (let part = put_content s1 q (take (written s) data)
           in case fault s OpWrite tmp of
                Some e \<Rightarrow> (Some (OsFault e), [s1, part, remove part tmp])
              | None \<Rightarrow>
                 (let s2 = put_content part q data
                  in case fault s OpChmod tmp of
                       Some e \<Rightarrow> (Some (OsFault e), [s1, part, s2, remove s2 tmp])
                     | None \<Rightarrow>
                        (let s3 = put_mode s2 q mode
                         in case fault s OpClose tmp of
                              Some e \<Rightarrow> (Some (OsFault e), [s1, part, s2, s3, remove s3 tmp])
                            | None \<Rightarrow>
                               (case rename s3 tmp p of
                                  (Some e, s4) \<Rightarrow> (Some e, [s1, part, s2, s3, s4, remove s4 tmp])
                                | (None, s4) \<Rightarrow> (None, [s1, part, s2, s3, s4]))))))"

definition dir_mode :: nat where "dir_mode = 488"
definition defaultFileMode :: nat where "defaultFileMode = 420"

definition applyChange :: "tool_options \<Rightarrow> change \<Rightarrow> file_state \<Rightarrow> file_err option \<times> file_state" where
  "applyChange opt ch st =
     (case (if existed ch then (None, disk st) else MkdirAll (disk st) (Dir (path ch)) dir_mode) of
        (Some e, s) \<Rightarrow> (Some (OsError e), st\<lparr>disk := s\<rparr>)
      | (None, s) \<Rightarrow>
          (case atomicWriteFile s (path ch) (after ch) (perm ch) of
             (Some e, ss) \<Rightarrow> (Some (OsError e), st\<lparr>disk := last ss\<rparr>)
           | (None, ss) \<Rightarrow>
               (let st' = tracker_record opt (st\<lparr>disk := last ss\<rparr>) (path ch)
                in (None, if onWrite opt then st'\<lparr>hooked := hooked st' @ [ch]\<rparr> else st'))))"

subsection \<open>The \<open>write\<close> tool\<close>

definition plan_write :: "tool_options \<Rightarrow> file_state \<Rightarrow> string \<Rightarrow> string \<Rightarrow> bool \<Rightarrow> file_err + change" where
  "plan_write opt st filePath content withBefore =
     (if blank filePath then Inl ErrPathRequired
      else case resolveToolPath (disk st) (workingDir opt) filePath of
          Inl e \<Rightarrow> Inl e
        | Inr resolvedPath \<Rightarrow>
           (case tracker_check opt st resolvedPath of
              Some e \<Rightarrow> Inl e
            | None \<Rightarrow>
               (let ch = \<lparr>path = resolvedPath, existed = False, before = None, after = content,
                          perm = defaultFileMode\<rparr>
                in case stat (disk st) resolvedPath of
                     Inl e \<Rightarrow> if e = ENOENT then Inr ch else Inl (OsError e)
                   | Inr info \<Rightarrow>
                       if noOverwrite opt then Inl ErrFileExists
                       else (let ch' = ch\<lparr>existed := True, perm := node_perm info\<rparr>
                             in if withBefore
                                then (case read_file (disk st) resolvedPath of
                                        Inl e \<Rightarrow> Inl (OsError e)
                                      | Inr t \<Rightarrow> Inr (ch'\<lparr>before := Some t\<rparr>))
                                else Inr ch'))))"

definition Preview_write :: "tool_options \<Rightarrow> file_state \<Rightarrow> string \<Rightarrow> string \<Rightarrow> file_err + change" where
  "Preview_write opt st filePath content = plan_write opt st filePath content True"

definition write_file :: "tool_options \<Rightarrow> file_state \<Rightarrow> string \<Rightarrow> string \<Rightarrow> (file_err + nat) \<times> file_state" where
  "write_file opt st filePath content =
     (case plan_write opt st filePath content (onWrite opt) of
        Inl e \<Rightarrow> (Inl e, st)
      | Inr ch \<Rightarrow>
          (case applyChange opt ch st of
             (Some e, st') \<Rightarrow> (Inl e, st')
           | (None, st') \<Rightarrow> (Inr (length content), st')))"

subsection \<open>The \<open>edit\<close> and \<open>multi_edit\<close> tools\<close>

text \<open>\<open>bytes.Count\<close> and \<open>bytes.Replace\<close> for a needle that is not empty.\<close>

function bytes_count :: "string \<Rightarrow> string \<Rightarrow> nat" where
  "bytes_count s needle =
     (case go_index s needle of
        Some i \<Rightarrow> if needle = [] then 0 else Suc (bytes_count (drop (i + length needle) s) needle)
      | None \<Rightarrow> 0)"
  by pat_completeness auto
termination
  by (relation "measure (\<lambda>(s, needle). length s)")
    (auto dest!: go_index_Some simp: diff_less length_greater_0_conv [symmetric] simp del: length_greater_0_conv)

declare bytes_count.simps [simp del]

primrec bytes_replace :: "nat \<Rightarrow> string \<Rightarrow> string \<Rightarrow> string \<Rightarrow> string" where
  "bytes_replace 0 s old new = s"
| "bytes_replace (Suc n) s old new =
     (case go_index s old of
        Some i \<Rightarrow> take i s @ new @ bytes_replace n (drop (i + length old) s) old new
      | None \<Rightarrow> s)"

record edit_operation =
  old_string :: string
  new_string :: string
  replace_all :: bool

definition applyEdit :: "string \<Rightarrow> edit_operation \<Rightarrow> string \<Rightarrow> file_err + string \<times> nat" where
  "applyEdit content e p =
     (if old_string e = [] then Inl ErrOldStringRequired
      else if old_string e = new_string e then Inl (Errorf ''new_string must differ from old_string'')
      else (let n = bytes_count content (old_string e)
        in if n = 0 then Inl (Errorf (''old_string not found in '' @ p))
           else if \<not> replace_all e \<and> n \<noteq> 1
           then Inl (Errorf (''old_string found '' @ nat_digits n @ '' times in '' @ p))
           else (let k = (if replace_all e then n else 1)
             in Inr (bytes_replace k content (old_string e) (new_string e), k))))"

text \<open>The loop over the edits, with the number of the edit, how many there are and the count so far.\<close>

fun edits_loop :: "string \<Rightarrow> nat \<Rightarrow> nat \<Rightarrow> edit_operation list \<Rightarrow> string \<Rightarrow> nat \<Rightarrow> file_err + string \<times> nat" where
  "edits_loop p i n [] content k = Inr (content, k)"
| "edits_loop p i n (e # es) content k =
     (case applyEdit content e p of
        Inl err \<Rightarrow> Inl (if 1 < n then EditError i n err else err)
      | Inr (content', m) \<Rightarrow> edits_loop p (i + 1) n es content' (k + m))"

definition planEdits :: "tool_options \<Rightarrow> file_state \<Rightarrow> string \<Rightarrow> edit_operation list \<Rightarrow> file_err + change \<times> nat" where
  "planEdits opt st filePath edits =
     (case resolveToolPath (disk st) (workingDir opt) filePath of
        Inl e \<Rightarrow> Inl e
      | Inr resolvedPath \<Rightarrow>
         (case tracker_check opt st resolvedPath of
            Some e \<Rightarrow> Inl e
          | None \<Rightarrow>
             (case stat (disk st) resolvedPath of
                Inl e \<Rightarrow> Inl (OsError e)
              | Inr info \<Rightarrow>
                 if 0 < maxFileSize opt \<and> maxFileSize opt < int (snd (node_stamp info))
                 then Inl (TooLargeError resolvedPath (int (snd (node_stamp info))) (maxFileSize opt))
                 else case read_file (disk st) resolvedPath of
                     Inl e \<Rightarrow> Inl (OsError e)
                   | Inr old \<Rightarrow>
                      (case edits_loop resolvedPath 1 (length edits) edits old 0 of
                         Inl e \<Rightarrow> Inl e
                       | Inr (content, k) \<Rightarrow>
                          Inr (\<lparr>path = resolvedPath, existed = True, before = Some old, after = content,
                                perm = node_perm info\<rparr>, k)))))"

definition plan_edit :: "tool_options \<Rightarrow> file_state \<Rightarrow> string \<Rightarrow> edit_operation \<Rightarrow> file_err + change \<times> nat" where
  "plan_edit opt st filePath e =
     (if blank filePath then Inl ErrPathRequired else planEdits opt st filePath [e])"

definition plan_multi_edit ::
    "tool_options \<Rightarrow> file_state \<Rightarrow> string \<Rightarrow> edit_operation list \<Rightarrow> file_err + change \<times> nat" where
  "plan_multi_edit opt st filePath es =
     (if blank filePath then Inl ErrPathRequired
      else if es = [] then Inl ErrEditsRequired
      else planEdits opt st filePath es)"

definition Preview_edit :: "tool_options \<Rightarrow> file_state \<Rightarrow> string \<Rightarrow> edit_operation \<Rightarrow> file_err + change" where
  "Preview_edit opt st filePath e = map_sum id fst (plan_edit opt st filePath e)"

definition Preview_multi_edit ::
    "tool_options \<Rightarrow> file_state \<Rightarrow> string \<Rightarrow> edit_operation list \<Rightarrow> file_err + change" where
  "Preview_multi_edit opt st filePath es = map_sum id fst (plan_multi_edit opt st filePath es)"

definition run_plan :: "tool_options \<Rightarrow> file_state \<Rightarrow> file_err + change \<times> nat \<Rightarrow> (file_err + nat) \<times> file_state" where
  "run_plan opt st r =
     (case r of
        Inl e \<Rightarrow> (Inl e, st)
      | Inr (ch, k) \<Rightarrow>
          (case applyChange opt ch st of
             (Some e, st') \<Rightarrow> (Inl e, st')
           | (None, st') \<Rightarrow> (Inr k, st')))"

definition edit :: "tool_options \<Rightarrow> file_state \<Rightarrow> string \<Rightarrow> edit_operation \<Rightarrow> (file_err + nat) \<times> file_state" where
  "edit opt st filePath e = run_plan opt st (plan_edit opt st filePath e)"

definition multiEdit ::
    "tool_options \<Rightarrow> file_state \<Rightarrow> string \<Rightarrow> edit_operation list \<Rightarrow> (file_err + nat) \<times> file_state" where
  "multiEdit opt st filePath es = run_plan opt st (plan_multi_edit opt st filePath es)"

end
