(* ===== verification/File_Paths.thy ===== *)
theory File_Paths
  imports File_Core
begin

section \<open>The paths the file tools open\<close>

text \<open>
  What \<open>resolveToolPath\<close> guarantees of the path it returns. The path is \<open>resolved\<close>: it is a place
  that exists and is no link, followed by names that do not exist below it (the first of them may
  be a link that leads nowhere). A later lookup of such a path therefore crosses no link, and with
  a working directory the path lies inside the place that directory resolves to.
\<close>

lemma EvalSymlinks_form:
  assumes "wf_nodes (nodes s)" "EvalSymlinks s p = Inr r"
  obtains q nd where "r = abs_path q" "nodes s q = Some nd" "\<not> is_link (nodes s) q"
    "namei (nodes s) True eval_links [] (from_cwd s p) = Inr q"
proof -
  obtain q where q: "r = abs_path q" "namei (nodes s) True eval_links [] (from_cwd s p) = Inr q"
    using assms(2) by (auto simp: EvalSymlinks_def check_fault_def split: option.splits sum.splits)
  then show ?thesis
    using namei_found[OF assms(1) _ q(2)] that assms(1) by (auto simp: wf_nodes_def)
qed

definition resolved :: "(string list \<Rightarrow> node option) \<Rightarrow> string list \<Rightarrow> bool" where
  "resolved ns t \<longleftrightarrow> list_all name_ok t \<and>
     (\<exists>q ks nd. t = q @ ks \<and> ns q = Some nd \<and> \<not> is_link ns q \<and>
        (ks = [] \<or> is_folder ns q \<and> (ns (q @ [hd ks]) = None \<or> dangling ns (q @ [hd ks]))))"

lemma foldr_Join:
  "list_all name_ok q \<Longrightarrow> list_all name_ok ms \<Longrightarrow>
     foldr (\<lambda>c r. Join [r, c]) ms (abs_path q) = abs_path (q @ rev ms)"
  by (induction ms) (auto simp: Join_abs_path)

lemma EvalSymlinks_namei:
  "fault s OpEval (abs_path es) = None \<Longrightarrow> list_all name_ok es \<Longrightarrow>
     EvalSymlinks s (abs_path es) = map_sum id abs_path (namei (nodes s) True eval_links [] es)"
  by (auto simp: EvalSymlinks_def check_fault_def path_elems_abs_path split: sum.splits)

lemma EvalSymlinks_ENOENT:
  "EvalSymlinks s p = Inl ENOENT \<Longrightarrow> fault s OpEval p = None"
  by (auto simp: EvalSymlinks_def check_fault_def split: option.splits)

lemma EvalSymlinks_no_fault: "EvalSymlinks s p = Inr r \<Longrightarrow> fault s OpEval p = None"
  by (auto simp: EvalSymlinks_def check_fault_def split: option.splits)

lemma resolve_success:
  assumes wf: "wf_nodes (nodes s)" and ok: "list_all name_ok es" "list_all name_ok ms"
    and found: "EvalSymlinks s (abs_path es) = Inr x"
    and missing: "ms \<noteq> [] \<Longrightarrow> EvalSymlinks s (abs_path (es @ [last ms])) = Inl ENOENT"
  shows "\<exists>t. Clean (foldr (\<lambda>c r. Join [r, c]) ms x) = abs_path t \<and> resolved (nodes s) t"
proof -
  obtain q where q1: "x = abs_path q" and n: "namei (nodes s) True eval_links [] es = Inr q"
    using found EvalSymlinks_namei[OF EvalSymlinks_no_fault[OF found] ok(1)]
    by (cases "namei (nodes s) True eval_links [] es") auto
  obtain nd where q: "x = abs_path q" "nodes s q = Some nd" "\<not> is_link (nodes s) q"
    using namei_found[OF wf _ n] wf q1 by (auto simp: wf_nodes_def)
  have okq: "list_all name_ok q" by (rule wf_names[OF wf q(2)])
  have below: "is_folder (nodes s) q \<and>
      (nodes s (q @ [last ms]) = None \<or> dangling (nodes s) (q @ [last ms]))" if ms: "ms \<noteq> []"
  proof -
    have okl: "name_ok (last ms)" using ok(2) ms by (simp add: list_all_iff)
    have "namei (nodes s) True eval_links [] (es @ [last ms]) = Inl ENOENT"
      using missing[OF ms] EvalSymlinks_namei[OF EvalSymlinks_ENOENT[OF missing[OF ms]]] ok okl
      by (auto split: sum.splits simp: map_sum_def)
    then obtain n' where "is_folder (nodes s) q" "namei (nodes s) True n' q [last ms] = Inl ENOENT"
      using namei_append[OF n _ wf, of "last ms"] wf by (auto simp: wf_nodes_def split: if_splits)
    then show ?thesis using namei_missing[OF _ _ okl wf] by (auto simp: dangling_def)
  qed
  have "resolved (nodes s) (q @ rev ms)"
    unfolding resolved_def using okq ok q below
    by (intro conjI exI[of _ q] exI[of _ "rev ms"] exI[of _ nd]) (auto simp: hd_rev)
  then show ?thesis using foldr_Join[OF okq ok(2)] okq ok q(1) by auto
qed

lemma resolve_links_loop_resolved:
  assumes "wf_nodes (nodes s)" "list_all name_ok es" "list_all name_ok ms"
    "resolve_links_loop s (abs_path es) ms = Inr r"
    "ms \<noteq> [] \<Longrightarrow> EvalSymlinks s (abs_path (es @ [last ms])) = Inl ENOENT"
  shows "\<exists>t. r = abs_path t \<and> resolved (nodes s) t"
  using assms(2-)
proof (induction es arbitrary: ms rule: rev_induct)
  case Nil
  show ?case
  proof (cases "EvalSymlinks s (abs_path [])")
    case (Inl e)
    then show ?thesis using Nil(3) by (simp add: resolve_links_loop.simps split: if_splits)
  next
    case (Inr x)
    then show ?thesis
      using resolve_success[OF assms(1) Nil(1,2) Inr Nil(4)] Nil(3)
      by (auto simp: resolve_links_loop.simps[of s "abs_path []"])
  qed
next
  case (snoc c es)
  have ok: "list_all name_ok es" "name_ok c" using snoc.prems(1) by auto
  have Dir: "Dir (abs_path (es @ [c])) = abs_path es" by (rule Dir_abs_path[OF snoc.prems(1)])
  show ?case
  proof (cases "EvalSymlinks s (abs_path (es @ [c]))")
    case (Inl e)
    then have "e = ENOENT" "resolve_links_loop s (abs_path es) (ms @ [c]) = Inr r"
      using snoc.prems(3) by (auto simp: resolve_links_loop.simps[of s "abs_path (es @ [c])"] Dir
          Base_abs_path[OF ok(2)] split: if_splits)
    then show ?thesis using snoc.IH[of "ms @ [c]"] snoc.prems ok Inl by auto
  next
    case (Inr x)
    then show ?thesis
      using resolve_success[OF assms(1) snoc.prems(1,2) Inr snoc.prems(4)] snoc.prems(3)
      by (auto simp: resolve_links_loop.simps[of s "abs_path (es @ [c])"])
  qed
qed

lemma resolveToolPath_resolved:
  assumes wf: "wf_nodes (nodes s)" and r: "resolveToolPath s wd p = Inr r"
  obtains t where "r = abs_path t" "resolved (nodes s) t"
    "wd \<noteq> [] \<Longrightarrow> \<exists>w nd. EvalSymlinks s (Abs s (Clean wd)) = Inr (abs_path w) \<and>
       nodes s w = Some nd \<and> prefix w t"
proof -
  have abs: "IsAbs (Clean p)" using r by (auto simp: resolveToolPath_def Let_def split: if_splits)
  have ap: "Abs s (Clean p) = Clean (Clean p)" using abs by (simp add: Abs_def)
  obtain es where es: "list_all name_ok es" "Clean (Clean p) = abs_path es"
    using Clean_abs[OF abs] by metis
  have rr: "resolvePathWithSymlinks s (abs_path es) = Inr r"
    using r abs unfolding resolveToolPath_def Let_def ap es(2)
    by (auto split: if_splits sum.splits)
  then obtain t where t: "r = abs_path t" "resolved (nodes s) t"
    using resolve_links_loop_resolved[OF wf es(1), of "[]" r] es(1)
    by (auto simp: resolvePathWithSymlinks_def)
  have "\<exists>w nd. EvalSymlinks s (Abs s (Clean wd)) = Inr (abs_path w) \<and> nodes s w = Some nd \<and> prefix w t"
    if ne: "wd \<noteq> []"
  proof -
    obtain rw where rw: "EvalSymlinks s (Abs s (Clean wd)) = Inr rw" "\<not> outside (Rel rw r)"
      using r rr abs ne unfolding resolveToolPath_def Let_def ap es(2)
      by (auto split: if_splits sum.splits)
    then obtain w nd where w: "rw = abs_path w" "nodes s w = Some nd"
      using EvalSymlinks_form[OF wf] by metis
    then have "prefix w t"
      using rw(2) outside_Rel[OF wf_names[OF wf w(2)], of t] t by (auto simp: resolved_def)
    then show ?thesis using rw w by auto
  qed
  then show ?thesis using that t by blast
qed

end
