(* ===== verification/File_Writes.thy ===== *)
theory File_Writes
  imports File_Paths
begin

section \<open>What a write does to the disk\<close>

text \<open>
  The effect of the calls behind \<open>applyChange\<close> on a path without live links: \<open>MkdirAll\<close> only adds
  directories on the way to it, and \<open>atomicWriteFile\<close> replaces the file in one step or leaves the
  disk as it was. Every state on the way is a proper file system in which the file has its old or
  its new content.
\<close>

subsection \<open>Making directories\<close>

lemma resolved_no_live_link:
  assumes "wf_nodes ns" "resolved ns t"
  shows "no_live_link ns t"
proof -
  obtain q ks nd where t: "t = q @ ks" "ns q = Some nd" "\<not> is_link ns q"
      "ks = [] \<or> is_folder ns q \<and> (ns (q @ [hd ks]) = None \<or> dangling ns (q @ [hd ks]))"
    using assms(2) by (auto simp: resolved_def)
  show ?thesis unfolding no_live_link_def
  proof (intro allI impI)
    fix p assume p: "prefix p t" "is_link ns p"
    then obtain nd' where nd': "ns p = Some nd'" by (auto simp: is_link_def split: option.splits)
    show "dangling ns p"
    proof (cases "prefix p q")
      case True
      then obtain r where "q = p @ r" by (auto simp: prefix_def)
      then show ?thesis using t p(2) wf_above[OF assms(1), of p r] by (cases "r = []") (auto simp: is_folder_iff is_link_def)
    next
      case False
      then obtain p' where p': "p = q @ p'" "prefix p' ks" "p' \<noteq> []"
        using p(1) t(1) by (auto simp: prefix_append)
      then obtain k ks' r where ks: "ks = k # ks'" "p = (q @ [k]) @ r"
        by (cases p'; cases ks) auto
      show ?thesis
      proof (cases "r = []")
        case True
        then show ?thesis using ks t(4) nd' by auto
      next
        case False
        then have "is_folder ns (q @ [k])" using wf_above[OF assms(1), of "q @ [k]" r] nd' ks by simp
        then show ?thesis using ks t(4) by (auto simp: is_folder_iff dangling_def is_link_def)
      qed
    qed
  qed
qed

definition grown :: "(string list \<Rightarrow> node option) \<Rightarrow> (string list \<Rightarrow> node option) \<Rightarrow> string list \<Rightarrow> bool" where
  "grown ns ns' t \<longleftrightarrow> (\<forall>p. ns' p \<noteq> ns p \<longrightarrow> prefix p t \<and> ns p = None \<and> is_folder ns' p)"

lemma grown_refl [simp]: "grown ns ns t"
  by (simp add: grown_def)

lemma lstat_folder:
  assumes "wf_nodes (nodes s)" "is_folder (nodes s) d" "name_ok c"
    "lstat s (abs_path (d @ [c])) = Inr (Folder m)"
  shows "is_folder (nodes s) (d @ [c])"
proof -
  have ok: "list_all name_ok (d @ [c])" using assms(1-3) wf_names by (auto simp: is_folder_iff)
  obtain q where q: "namei (nodes s) False kernel_links [] (d @ [c]) = Inr q" "nodes s q = Some (Folder m)"
    using assms(4) ok by (auto simp: lstat_def check_fault_def simp del: append_assoc list_all_append split: option.splits sum.splits)
  then show ?thesis
    using namei_from_folder[of "nodes s" "[]" d False kernel_links "[c]"] assms(1-3)
    by (auto simp: namei.simps(2) name_ok_def is_folder_iff split: option.splits node.splits)
qed

lemma mkdir_tolerant_effect:
  assumes "wf_nodes (nodes s)" "is_folder (nodes s) d" "name_ok c"
    "mkdir_tolerant s (abs_path (d @ [c])) mode = (e, s')"
  shows "s' = s \<and> (e = None \<longrightarrow> is_folder (nodes s) (d @ [c])) \<or>
    e = None \<and> nodes s (d @ [c]) = None \<and> s' = set_node s (d @ [c]) (Some (Folder mode))"
  using assms(4) lstat_folder[OF assms(1-3)] place_known[OF assms(1-3)]
  by (auto simp: mkdir_tolerant_def mkdir_def check_fault_def split: option.splits sum.splits node.splits if_splits)

lemma mkdir_all_effect:
  assumes "wf_nodes (nodes s)" "list_all name_ok ds" "no_live_link (nodes s) (rev ds)"
    "mkdir_all s mode ds = (e, s')"
  shows "wf_nodes (nodes s') \<and> grown (nodes s) (nodes s') (rev ds) \<and> s' = s\<lparr>nodes := nodes s'\<rparr> \<and>
    (e = None \<longrightarrow> is_folder (nodes s') (rev ds))"
  using assms(2-)
proof (induction ds arbitrary: e s')
  case Nil
  have "s' = s"
    using Nil(3) by (auto simp: mkdir_tolerant_def mkdir_def check_fault_def place_def proper_def
        path_elems_abs_path split: sum.splits node.splits option.splits)
  then show ?case using assms(1) by (auto simp: wf_nodes_def)
next
  case (Cons d ds)
  have nl: "no_live_link (nodes s) (rev ds)" using Cons.prems(2) no_live_link_prefix by fastforce
  show ?case
  proof (cases "stat s (abs_path (rev (d # ds)))")
    case (Inr nd)
    then have "nodes s (rev (d # ds)) = Some nd"
      using stat_node(1)[OF assms(1) _ Cons.prems(2) Inr] Cons.prems(1) by (simp add: list_all_iff)
    then show ?thesis using Cons.prems(3) Inr assms(1) by (cases nd) (auto simp: is_folder_iff)
  next
    case (Inl e1)
    obtain e2 s2 where rec: "mkdir_all s mode ds = (e2, s2)" by fastforce
    have IH: "wf_nodes (nodes s2)" "grown (nodes s) (nodes s2) (rev ds)" "s2 = s\<lparr>nodes := nodes s2\<rparr>"
        "e2 = None \<Longrightarrow> is_folder (nodes s2) (rev ds)"
      using Cons.IH[OF _ nl rec] Cons.prems(1) by auto
    have g: "grown (nodes s) (nodes s2) (rev (d # ds))" using IH(2) by (auto simp: grown_def prefix_def)
    show ?thesis
    proof (cases e2)
      case (Some x)
      then have "e \<noteq> None" "s' = s2" using Cons.prems(3) Inl rec by auto
      then show ?thesis using IH(1,3) g by (simp del: not_None_eq)
    next
      case None
      then have mk: "mkdir_tolerant s2 (abs_path (rev ds @ [d])) mode = (e, s')"
        using Cons.prems(3) Inl rec by simp
      have fold: "is_folder (nodes s2) (rev ds)" "name_ok d" using IH None Cons.prems(1) by auto
      show ?thesis
        using mkdir_tolerant_effect[OF IH(1) fold mk]
      proof (elim disjE conjE)
        assume "s' = s2" "e = None \<longrightarrow> is_folder (nodes s2) (rev ds @ [d])"
        then show ?thesis using IH g by simp
      next
        assume new: "e = None" "nodes s2 (rev ds @ [d]) = None"
          "s' = set_node s2 (rev ds @ [d]) (Some (Folder mode))"
        have old: "nodes s (rev ds @ [d]) = None"
          using new(2) g unfolding grown_def by (metis is_folder_iff option.distinct(1))
        have "wf_nodes (nodes s')"
          using wf_set_node[OF IH(1) fold, of "Folder mode"] new(3) by (simp add: set_node_def is_folder_def)
        moreover have "grown (nodes s) (nodes s') (rev (d # ds))"
          using g old new(2,3) by (auto simp: grown_def set_node_def is_folder_iff)
        moreover have "s' = s\<lparr>nodes := nodes s'\<rparr>"
          using new(3) IH(3) by (metis fs.surjective fs.update_convs(1) set_node_def)
        moreover have "is_folder (nodes s') (rev ds @ [d])"
          using new(3) by (simp add: set_node_def is_folder_iff)
        ultimately show ?thesis using new(1) by (metis rev.simps(2))
      qed
    qed
  qed
qed

text \<open>Only the nodes differ.\<close>

definition same_env :: "fs \<Rightarrow> fs \<Rightarrow> bool" where
  "same_env s s' \<longleftrightarrow> s' = s\<lparr>nodes := nodes s'\<rparr>"

lemma same_env_refl [simp]: "same_env s s"
  by (simp add: same_env_def)

lemma same_env_fields:
  "same_env s s' \<Longrightarrow> clock s' = clock s \<and> cwd s' = cwd s \<and> fault s' = fault s \<and> written s' = written s"
  by (cases s; cases s') (simp add: same_env_def)

lemma MkdirAll_effect:
  assumes "wf_nodes (nodes s)" "list_all name_ok d" "no_live_link (nodes s) d"
    "MkdirAll s (abs_path d) mode = (e, s')"
  shows "wf_nodes (nodes s')" "grown (nodes s) (nodes s') d" "same_env s s'"
    "e = None \<Longrightarrow> is_folder (nodes s') d"
  using mkdir_all_effect[of s "rev d" mode e s'] assms unfolding same_env_def by (simp_all add: MkdirAll_def)


subsection \<open>The temporary file\<close>

definition temp_like :: "string \<Rightarrow> bool" where
  "temp_like c \<longleftrightarrow> has_prefix c temp_pattern"

lemma temp_name_fresh:
  "temp_name s d pat k = Some c \<Longrightarrow> nodes s (d @ [c]) = None \<and> (\<exists>n. c = pat @ nat_digits n)"
  by (induction s d pat k rule: temp_name.induct) (subst (asm) (2) temp_name.simps, auto split: if_splits)

lemma temp_name_ok: "name_ok (temp_pattern @ nat_digits n)"
proof -
  have "CHR ''/'' \<notin> set (nat_digits n)" using set_nat_digits[of "CHR ''/''" n] by (auto simp: is_digit_def byte_def)
  then show ?thesis by (auto simp: name_ok_def temp_pattern_def)
qed

lemma slash_suffix_abs_path:
  assumes "list_all name_ok d"
  shows "has_suffix (abs_path d) slash \<longleftrightarrow> d = []"
proof (cases d rule: rev_cases)
  case (snoc e c)
  have c: "c \<noteq> []" "CHR ''/'' \<notin> set c" using assms snoc by (auto simp: name_ok_def)
  obtain u where "abs_path d = u @ c"
  proof
    show "abs_path d = (if e = [] then slash else abs_path e @ slash) @ c" by (simp add: snoc abs_path_snoc)
  qed
  then have "last (abs_path d) = last c" using c by simp
  then have "last (abs_path d) \<noteq> CHR ''/''" using c by (metis last_in_set)
  then show ?thesis by (auto simp: snoc has_suffix_iff slash_def)
qed (simp add: abs_path_def has_suffix_def slash_def)

lemma temp_path:
  "list_all name_ok d \<Longrightarrow>
     (if has_suffix (abs_path d) slash then abs_path d @ c else abs_path d @ slash @ c) = abs_path (d @ [c])"
  by (simp add: slash_suffix_abs_path abs_path_snoc) (simp add: abs_path_def)

lemma CreateTemp_effect:
  assumes "wf_nodes (nodes s)" "list_all name_ok d" "no_live_link (nodes s) d"
    "CreateTemp s (abs_path d) temp_pattern = (Inr (tmp, q), s1)"
  obtains c where "q = d @ [c]" "tmp = abs_path q" "name_ok c" "temp_like c" "is_folder (nodes s) d"
    "nodes s q = None" "s1 = set_node s q (Some (Regular [] (clock s) 384))"
proof -
  obtain d' m c where d': "namei (nodes s) True kernel_links [] d = Inr d'" "nodes s d' = Some (Folder m)"
      "temp_name s d' temp_pattern 0 = Some c"
      "q = d' @ [c]" "s1 = set_node s q (Some (Regular [] (clock s) 384))"
      "tmp = (if has_suffix (abs_path d) slash then abs_path d @ c else abs_path d @ slash @ c)"
    using assms(2,4) by (auto simp: CreateTemp_def check_fault_def split: sum.splits option.splits node.splits)
  have "d' = d" by (rule namei_no_live_link[OF assms(1-3) d'(1)])
  then show ?thesis
    using that[of c] d' temp_name_fresh[OF d'(3)] temp_name_ok temp_path[OF assms(2), of c]
    by (auto simp: is_folder_iff temp_like_def has_prefix_iff)
qed

lemma CreateTemp_fails: "CreateTemp s dir pat = (Inl e, s1) \<Longrightarrow> s1 = s"
  by (auto simp: CreateTemp_def split: sum.splits option.splits node.splits)

text \<open>The states while the temporary file exists: the disk with that file added.\<close>

definition with_temp :: "fs \<Rightarrow> string list \<Rightarrow> node \<Rightarrow> fs" where
  "with_temp s q nd = s\<lparr>nodes := (nodes s)(q \<mapsto> nd)\<rparr>"

lemma with_temp_simps [simp]:
  "set_node s q (Some nd) = with_temp s q nd"
  "put_content (with_temp s q (Regular u tm m)) q t = with_temp s q (Regular t (clock s) m)"
  "put_mode (with_temp s q (Regular u tm m)) q m' = with_temp s q (Regular u tm m')"
  "clock (with_temp s q nd) = clock s" "cwd (with_temp s q nd) = cwd s" "fault (with_temp s q nd) = fault s" "written (with_temp s q nd) = written s"
  "nodes (with_temp s q nd) = (nodes s)(q \<mapsto> nd)"
  by (simp_all add: with_temp_def set_node_def put_content_def put_mode_def)

lemma wf_with_temp:
  "wf_nodes (nodes s) \<Longrightarrow> is_folder (nodes s) d \<Longrightarrow> name_ok c \<Longrightarrow> nodes s (d @ [c]) = None \<Longrightarrow>
     wf_nodes (nodes (with_temp s (d @ [c]) nd))"
  by (auto intro!: wf_set_node simp: is_folder_iff)

lemma remove_temp:
  assumes "wf_nodes (nodes s)" "is_folder (nodes s) d" "name_ok c" "nodes s (d @ [c]) = None"
  shows "remove (with_temp s (d @ [c]) (Regular u tm m)) (abs_path (d @ [c])) = s"
proof -
  let ?s = "with_temp s (d @ [c]) (Regular u tm m)"
  have "place ?s (abs_path (d @ [c])) = Inr (d @ [c])"
    using wf_with_temp[OF assms] assms by (intro place_known) (auto simp: is_folder_upd)
  then show ?thesis using assms(4) by (simp add: remove_def set_node_def with_temp_def fun_upd_idem)
qed

lemma rename_temp:
  assumes "wf_nodes (nodes s)" "is_folder (nodes s) d" "name_ok c" "nodes s (d @ [c]) = None" "name_ok b"
    and "rename (with_temp s (d @ [c]) nd) (abs_path (d @ [c])) (abs_path (d @ [b])) = (e, s')"
    and "\<not> is_folder (\<lambda>_. Some nd) []"
  shows "if e = None then \<not> is_folder (nodes s) (d @ [b]) \<and> s' = set_node s (d @ [b]) (Some nd)
         else s' = with_temp s (d @ [c]) nd"
proof -
  let ?s = "with_temp s (d @ [c]) nd"
  have wf: "wf_nodes (nodes ?s)" "is_folder (nodes ?s) d"
    using wf_with_temp[OF assms(1-4)] assms(2,4) by (auto simp: is_folder_upd)
  have pl: "place ?s (abs_path (d @ [c])) = Inr (d @ [c])" "place ?s (abs_path (d @ [b])) = Inr (d @ [b])"
    using place_known[OF wf] assms by auto
  show ?thesis
  proof (cases "e = None")
    case True
    have upd: "(nodes s)(d @ [c] := None) = nodes s" using assms(4) by (simp add: fun_upd_idem)
    show ?thesis
      using assms(4,6,7) pl upd True
      by (auto simp: rename_def check_fault_def set_node_def with_temp_def is_folder_def
          split: option.splits node.splits if_splits)
  next
    case False
    then show ?thesis
      using assms(6) pl by (auto simp: rename_def check_fault_def split: option.splits node.splits)
  qed
qed


subsection \<open>Replacing a file\<close>

definition temp_state :: "fs \<Rightarrow> string list \<Rightarrow> fs \<Rightarrow> bool" where
  "temp_state s d x \<longleftrightarrow>
     (\<exists>c nd. x = with_temp s (d @ [c]) nd \<and> nodes s (d @ [c]) = None \<and> temp_like c \<and>
        wf_nodes (nodes x))"

lemma Dir_abs_path_butlast: "list_all name_ok t \<Longrightarrow> Dir (abs_path t) = abs_path (butlast t)"
  by (cases t rule: rev_cases) (simp_all add: Dir_abs_path)

lemma rename_to_root:
  "rename s p (abs_path []) = (e, s') \<Longrightarrow> e \<noteq> None \<and> s' = s"
  by (auto simp: rename_def check_fault_def place_def proper_def path_elems_abs_path
      split: option.splits sum.splits)

lemma atomicWriteFile_effect:
  assumes wf: "wf_nodes (nodes s)" and ok: "list_all name_ok t" and nl: "no_live_link (nodes s) t"
    and run: "atomicWriteFile s (abs_path t) data mode = (e, ss)"
  shows "ss \<noteq> [] \<and> list_all (\<lambda>x. x = s \<or> x = last ss \<or> temp_state s (butlast t) x) ss \<and>
    (if e = None
     then t \<noteq> [] \<and> is_folder (nodes s) (butlast t) \<and> \<not> is_folder (nodes s) t \<and>
       last ss = set_node s t (Some (Regular data (clock s) mode))
     else last ss = s)"
proof -
  let ?d = "butlast t"
  have okd: "list_all name_ok ?d" using ok by (metis append_butlast_last_id butlast.simps(1) list_all_append)
  have nld: "no_live_link (nodes s) ?d" by (rule no_live_link_prefix[OF nl]) (simp add: prefixeq_butlast)
  note Dir = Dir_abs_path_butlast[OF ok]
  obtain r s1 where ct: "CreateTemp s (abs_path ?d) temp_pattern = (r, s1)" by fastforce
  show ?thesis
  proof (cases r)
    case (Inl x)
    then show ?thesis using run ct CreateTemp_fails[of s "abs_path ?d" temp_pattern x s1]
      by (auto simp: atomicWriteFile_def Dir)
  next
    case (Inr tq)
    obtain tmp q where tq: "tq = (tmp, q)" by fastforce
    obtain c where c: "q = ?d @ [c]" "tmp = abs_path q" "name_ok c" "temp_like c" "is_folder (nodes s) ?d"
        "nodes s q = None" "s1 = set_node s q (Some (Regular [] (clock s) 384))"
      using CreateTemp_effect[OF wf okd nld ct[unfolded Inr tq]] by metis
    let ?x = "\<lambda>u m. with_temp s q (Regular u (clock s) m)"
    have st: "temp_state s ?d (?x u m)" for u m
      unfolding temp_state_def using c wf_with_temp[OF wf c(5,3)] by blast
    have rm: "remove (?x u m) tmp = s" for u m
      using remove_temp[OF wf c(5,3)] c by simp
    obtain e1 s4 where rn: "rename (?x data mode) tmp (abs_path t) = (e1, s4)" by fastforce
    have s4: "if e1 = None then t \<noteq> [] \<and> \<not> is_folder (nodes s) t \<and>
        s4 = set_node s t (Some (Regular data (clock s) mode)) else s4 = ?x data mode"
    proof (cases t rule: rev_cases)
      case Nil
      then show ?thesis using rn rename_to_root by auto
    next
      case (snoc d b)
      then show ?thesis
        using rename_temp[OF wf c(5,3) c(6)[unfolded c(1)], of b "Regular data (clock s) mode" e1 s4] rn ok c(1,2)
        by (auto simp: is_folder_def)
    qed
    note def = run[unfolded atomicWriteFile_def Dir ct Inr tq prod.case sum.case Let_def c(7) with_temp_simps]
    show ?thesis
    proof (cases "fault s OpWrite tmp")
      case (Some f)
      then show ?thesis using def st rm by auto
    next
      case w: None
      show ?thesis
      proof (cases "fault s OpChmod tmp")
        case (Some f)
        then show ?thesis using def st rm w by auto
      next
        case m: None
        show ?thesis
        proof (cases "fault s OpClose tmp")
          case (Some f)
          then show ?thesis using def st rm w m by auto
        next
          case None
          show ?thesis
          proof (cases e1)
            case (Some f)
            then show ?thesis using def st rm w m None rn s4 by auto
          next
            case e1: None
            then have "e = None" "ss = [?x [] 384, ?x (take (written s) data) 384, ?x data 384, ?x data mode, s4]"
              using def w m None rn by auto
            then show ?thesis using s4 e1 st c(5) by simp
          qed
        qed
      qed
    qed
  qed
qed

end
