(* ===== verification/File_Read.thy ===== *)
theory File_Read
  imports File_Core Go_Errors
begin

section \<open>The \<open>read\<close> tool\<close>

text \<open>
  \<open>tool/file/read.go\<close>: the lines of a file, numbered as \<open>cat -n\<close> does, from an offset and at most a
  limit of them, cut at the tool's output cap with a note that says where to read on. A
  \<open>bufio.Reader\<close> on an open file is the part of its content not read yet. The lemmas say which
  lines a page holds and that following the notes reads every line once.
\<close>

definition defaultReadLimit :: int where "defaultReadLimit = 2000"
definition maxLineChars :: nat where "maxLineChars = 2000"

definition maxLineBytes :: nat where "maxLineBytes = maxLineChars * 4"

text \<open>\<open>int\<close> addition wraps at 64 bits.\<close>

definition add64 :: "int \<Rightarrow> int \<Rightarrow> int" where
  "add64 a b = (a + b + 2 ^ 63) mod 2 ^ 64 - 2 ^ 63"

definition linefeed :: string where "linefeed = [CHR 0x0A]"

definition strip_cr :: "string \<Rightarrow> string" where
  "strip_cr l = (if l \<noteq> [] \<and> last l = CHR 0x0D then butlast l else l)"

definition readLine :: "string \<Rightarrow> (string \<times> string) option" where
  "readLine rd =
     (if rd = [] then None
      else case go_index rd linefeed of
          Some i \<Rightarrow> Some (take maxLineBytes (strip_cr (take i rd)), drop (i + 1) rd)
        | None \<Rightarrow> Some (take maxLineBytes rd, []))"

definition hex_escape :: "string \<Rightarrow> string" where
  "hex_escape ch =
     (if rune_size ch = None
      then [CHR 0x5C, CHR ''x''] @ concat (map (\<lambda>c. [hex_digit (byte c div 16), hex_digit (byte c mod 16)]) ch)
      else ch)"

definition bytesToUTF8WithHexEscapes :: "string \<Rightarrow> string" where
  "bytesToUTF8WithHexEscapes b =
     (if list_all (\<lambda>ch. rune_size ch \<noteq> None) (utf8_chunks b) then b
      else concat (map hex_escape (utf8_chunks b)))"

definition truncateRunes :: "string \<Rightarrow> nat \<Rightarrow> string" where
  "truncateRunes s limit =
     (if limit = 0 then [] else if length (runes s) \<le> limit then s else concat (take limit (runes s)))"

text \<open>\<open>fmt.Sprintf("%6d\t%s\n", n, line)\<close>.\<close>

definition number_line :: "int \<Rightarrow> string \<Rightarrow> string" where
  "number_line n line =
     replicate (6 - length (go_itoa n)) CHR '' '' @ go_itoa n @ [CHR 0x09] @ line @ linefeed"

definition page_line :: "int \<Rightarrow> string \<Rightarrow> string" where
  "page_line i line = number_line (i + 1) (truncateRunes (bytesToUTF8WithHexEscapes line) maxLineChars)"

definition cut_note :: "int \<Rightarrow> int \<Rightarrow> string" where
  "cut_note cap i =
     ''[output cut at '' @ go_itoa cap @ '' characters: read on with offset='' @ go_itoa i @ '']''"

definition trim_newlines :: "string \<Rightarrow> string" where
  "trim_newlines s = drop_while_end (\<lambda>c. c = CHR 0x0A) s"

lemma readLine_shorter: "readLine rd = Some (line, rest) \<Longrightarrow> length rest < length rd"
  by (auto simp: readLine_def linefeed_def split: if_splits option.splits dest: go_index_Some)

function readLines :: "int \<Rightarrow> int \<Rightarrow> int \<Rightarrow> int \<Rightarrow> string \<Rightarrow> string \<Rightarrow> string" where
  "readLines cap offset stop i rd b =
     (if i < stop then
        (case readLine rd of
           None \<Rightarrow> trim_newlines b
         | Some (line, rest) \<Rightarrow>
             if i < offset then readLines cap offset stop (i + 1) rest b
             else (let numbered = page_line i line in
               if 0 < cap \<and> cap < int (length b + length numbered) \<and> b \<noteq> []
               then b @ cut_note cap i
               else readLines cap offset stop (i + 1) rest (b @ numbered)))
      else trim_newlines b)"
  by pat_completeness auto
termination
  by (relation "measure (\<lambda>(cap, offset, stop, i, rd, b). length rd)") (auto simp: readLine_shorter)

declare readLines.simps [simp del]

definition readLimit :: "int \<Rightarrow> int" where
  "readLimit limit = (if limit \<le> 0 \<or> defaultReadLimit < limit then defaultReadLimit else limit)"

definition read_page :: "int \<Rightarrow> int \<Rightarrow> int \<Rightarrow> string \<Rightarrow> string" where
  "read_page cap offset limit content = readLines cap offset (add64 offset limit) 0 content []"

definition read_tool :: "tool_options \<Rightarrow> file_state \<Rightarrow> string \<Rightarrow> int \<Rightarrow> int \<Rightarrow> (file_err + string) \<times> file_state" where
  "read_tool opt st filePath offset limit =
     (if blank filePath then (Inl ErrPathRequired, st)
      else case resolveReadPath (disk st) (workingDir opt) (readRoots opt) filePath of
          Inl e \<Rightarrow> (Inl e, st)
        | Inr resolvedPath \<Rightarrow>
           (case stat (disk st) resolvedPath of
              Inl e \<Rightarrow> (Inl (OsError e), st)
            | Inr (Folder m) \<Rightarrow> (Inl (Errorf (resolvedPath @ '' is a directory'')), st)
            | Inr info \<Rightarrow>
               (let whole = (offset \<le> 0 \<and> limit \<le> 0);
                    n = int (snd (node_stamp info))
                in if whole \<and> 0 < maxFileSize opt \<and> maxFileSize opt < n
                   then (Inl (TooLargeError resolvedPath n (maxFileSize opt)), st)
                   else case read_file (disk st) resolvedPath of
                       Inl e \<Rightarrow> (Inl (OsError e), st)
                     | Inr content \<Rightarrow>
                        (Inr (read_page (maxOutput opt) (max offset 0) (readLimit limit) content),
                         tracker_record opt st resolvedPath))))"

subsection \<open>Which lines a page holds\<close>

function lines_of :: "string \<Rightarrow> string list" where
  "lines_of rd = (case readLine rd of None \<Rightarrow> [] | Some (line, rest) \<Rightarrow> line # lines_of rest)"
  by pat_completeness auto
termination
  by (relation "measure length") (auto simp: readLine_shorter)

declare lines_of.simps [simp del]

fun page_lines :: "int \<Rightarrow> string list \<Rightarrow> string" where
  "page_lines i [] = []"
| "page_lines i (l # ls) = page_line i l @ page_lines (i + 1) ls"

lemma lines_of_None: "readLine rd = None \<Longrightarrow> lines_of rd = []"
  by (subst lines_of.simps) simp

lemma lines_of_Some: "readLine rd = Some (line, rest) \<Longrightarrow> lines_of rd = line # lines_of rest"
  by (subst lines_of.simps) simp

lemma page_line_nonempty [simp]: "page_line i l \<noteq> []"
  by (simp add: page_line_def number_line_def linefeed_def)

lemma page_lines_append: "page_lines i (xs @ ys) = page_lines i xs @ page_lines (i + int (length xs)) ys"
  by (induction i xs rule: page_lines.induct) (auto simp: algebra_simps)

lemma readLines_skip:
  "i \<le> offset \<Longrightarrow> offset < stop \<Longrightarrow>
     \<exists>rest. lines_of rest = drop (nat (offset - i)) (lines_of rd) \<and>
        readLines cap offset stop i rd b = readLines cap offset stop (i + int (length (lines_of rd) - length (lines_of rest))) rest b \<and>
        (lines_of rest = [] \<or> i + int (length (lines_of rd) - length (lines_of rest)) = offset)"
proof (induction "length rd" arbitrary: i rd rule: less_induct)
  case less
  show ?case
  proof (cases "readLine rd")
    case None
    then show ?thesis by (intro exI[of _ rd]) (simp add: lines_of_None)
  next
    case (Some p)
    obtain line rest where p: "readLine rd = Some (line, rest)" using Some by (cases p) auto
    show ?thesis
    proof (cases "i = offset")
      case True
      then show ?thesis by (intro exI[of _ rd]) simp
    next
      case False
      then have lt: "i < offset" "i + 1 \<le> offset" using less.prems by auto
      obtain rest' where r: "lines_of rest' = drop (nat (offset - (i + 1))) (lines_of rest)"
        "readLines cap offset stop (i + 1) rest b =
           readLines cap offset stop (i + 1 + int (length (lines_of rest) - length (lines_of rest'))) rest' b"
        "lines_of rest' = [] \<or> i + 1 + int (length (lines_of rest) - length (lines_of rest')) = offset"
        using less.hyps[OF readLine_shorter[OF p] lt(2)] less.prems by blast
      have n: "nat (offset - i) = Suc (nat (offset - (i + 1)))" using lt by simp
      have le: "length (lines_of rest') \<le> length (lines_of rest)" using r(1) by simp
      show ?thesis
        using r le lt less.prems
        by (intro exI[of _ rest']) (simp add: n lines_of_Some[OF p] p readLines.simps[of cap offset stop i rd] Suc_diff_le algebra_simps)
    qed
  qed
qed

lemma readLines_page:
  "offset \<le> i \<Longrightarrow>
     \<exists>k cut. k \<le> length (lines_of rd) \<and> int k \<le> max 0 (stop - i) \<and>
       (k = 0 \<or> int (length (b @ page_lines i (take k (lines_of rd)))) \<le> cap \<or> cap \<le> 0 \<or> b = [] \<and> k = 1) \<and>
       readLines cap offset stop i rd b =
         (if cut then b @ page_lines i (take k (lines_of rd)) @ cut_note cap (i + int k)
          else trim_newlines (b @ page_lines i (take k (lines_of rd)))) \<and>
       (if cut then k < length (lines_of rd) \<and> int k < stop - i \<and> b @ page_lines i (take k (lines_of rd)) \<noteq> []
        else k = min (length (lines_of rd)) (nat (stop - i)))"
proof (induction "length rd" arbitrary: i rd b rule: less_induct)
  case less
  note step = readLines.simps[of cap offset stop i rd b]
  show ?case
  proof (cases "i < stop")
    case False
    then show ?thesis using step by (intro exI[of _ 0] exI[of _ False]) simp
  next
    case lt: True
    show ?thesis
    proof (cases "readLine rd")
      case None
      then show ?thesis using lt step by (intro exI[of _ 0] exI[of _ False]) (simp add: lines_of_None)
    next
      case (Some p)
      obtain line rest where p: "readLine rd = Some (line, rest)" using Some by (cases p) auto
      note ls = lines_of_Some[OF p]
      show ?thesis
      proof (cases "0 < cap \<and> cap < int (length b + length (page_line i line)) \<and> b \<noteq> []")
        case True
        then have "readLines cap offset stop i rd b = b @ cut_note cap i"
          using step lt p less.prems by (simp add: Let_def)
        then show ?thesis using True lt ls by (intro exI[of _ 0] exI[of _ True]) simp
      next
        case False
        then have go: "readLines cap offset stop i rd b = readLines cap offset stop (i + 1) rest (b @ page_line i line)"
          using step lt p less.prems by (auto simp: Let_def)
        have le: "offset \<le> i + 1" using less.prems by simp
        obtain k cut where k: "k \<le> length (lines_of rest)" "int k \<le> max 0 (stop - (i + 1))"
          "k = 0 \<or> int (length ((b @ page_line i line) @ page_lines (i + 1) (take k (lines_of rest)))) \<le> cap \<or> cap \<le> 0
             \<or> b @ page_line i line = [] \<and> k = 1"
          "readLines cap offset stop (i + 1) rest (b @ page_line i line) =
             (if cut then (b @ page_line i line) @ page_lines (i + 1) (take k (lines_of rest)) @ cut_note cap (i + 1 + int k)
              else trim_newlines ((b @ page_line i line) @ page_lines (i + 1) (take k (lines_of rest))))"
          "if cut then k < length (lines_of rest) \<and> int k < stop - (i + 1) \<and>
             (b @ page_line i line) @ page_lines (i + 1) (take k (lines_of rest)) \<noteq> []
           else k = min (length (lines_of rest)) (nat (stop - (i + 1)))"
          using less.hyps[OF readLine_shorter[OF p] le, of "b @ page_line i line"] by blast
        have n: "nat (stop - i) = Suc (nat (stop - (i + 1)))" using lt by simp
        have size: "Suc k = 0 \<or> int (length (b @ page_lines i (take (Suc k) (lines_of rd)))) \<le> cap \<or> cap \<le> 0 \<or> b = [] \<and> Suc k = 1"
          using k(3) False ls by (cases "k = 0") auto
        have eq: "readLines cap offset stop i rd b =
           (if cut then b @ page_lines i (take (Suc k) (lines_of rd)) @ cut_note cap (i + int (Suc k))
            else trim_newlines (b @ page_lines i (take (Suc k) (lines_of rd))))"
          using go k(4) ls by (simp add: algebra_simps)
        have bounds: "Suc k \<le> length (lines_of rd)" "int (Suc k) \<le> max 0 (stop - i)"
          using k(1,2) lt ls by auto
        have cut: "if cut then Suc k < length (lines_of rd) \<and> int (Suc k) < stop - i \<and>
             b @ page_lines i (take (Suc k) (lines_of rd)) \<noteq> []
           else Suc k = min (length (lines_of rd)) (nat (stop - i))"
          using k(5) ls n by (cases cut) auto
        show ?thesis using size eq bounds cut by blast
      qed
    qed
  qed
qed

lemma add64_in_range: "0 \<le> a \<Longrightarrow> 0 \<le> b \<Longrightarrow> a + b \<le> max_int64 \<Longrightarrow> add64 a b = a + b"
  by (simp add: add64_def max_int64_def)

definition page_from :: "int \<Rightarrow> nat \<Rightarrow> string \<Rightarrow> string" where
  "page_from offset k content = page_lines offset (take k (drop (nat offset) (lines_of content)))"

text \<open>
  A read of the lines from an offset returns whole numbered lines of the file, in order from that
  offset: as many as the limit asks for, or fewer when the file ends or the output cap is reached,
  and then the note gives the line to read on from. At least one line comes back when there is one,
  and the lines stay within the cap unless the first alone passes it.
\<close>

theorem read_returns_page:
  assumes "0 \<le> offset" "0 < limit" "offset + limit \<le> max_int64"
  shows "\<exists>k cut. read_page cap offset limit content =
      (if cut then page_from offset k content @ cut_note cap (offset + int k)
       else trim_newlines (page_from offset k content)) \<and>
    (if cut then int k < limit \<and> offset + int k < int (length (lines_of content))
     else k = min (length (lines_of content) - nat offset) (nat limit)) \<and>
    min 1 (length (lines_of content) - nat offset) \<le> k \<and>
    (if 0 < cap \<and> 1 < k then int (length (page_from offset k content)) \<le> cap else True)"
proof -
  define stop where "stop = offset + limit"
  have rp: "read_page cap offset limit content = readLines cap offset stop 0 content []"
    using assms by (simp add: read_page_def add64_in_range stop_def)
  obtain rest where rest: "lines_of rest = drop (nat offset) (lines_of content)"
    "readLines cap offset stop 0 content [] =
       readLines cap offset stop (int (length (lines_of content) - length (lines_of rest))) rest []"
    "lines_of rest = [] \<or> int (length (lines_of content) - length (lines_of rest)) = offset"
    using readLines_skip[of 0 offset stop content cap "[]"] assms by (auto simp: stop_def)
  show ?thesis
  proof (cases "lines_of rest = []")
    case True
    have r0: "readLine rest = None" using True by (cases "readLine rest") (auto simp: lines_of_Some)
    have "readLines cap offset stop (int (length (lines_of content) - length (lines_of rest))) rest [] = trim_newlines []"
      by (subst readLines.simps) (simp add: r0)
    then show ?thesis
      using True rest rp assms by (intro exI[of _ 0] exI[of _ False]) (simp add: page_from_def)
  next
    case False
    then have i: "int (length (lines_of content) - length (lines_of rest)) = offset" using rest by simp
    obtain k cut where k: "k \<le> length (lines_of rest)" "int k \<le> max 0 (stop - offset)"
       "k = 0 \<or> int (length ([] @ page_lines offset (take k (lines_of rest)))) \<le> cap \<or> cap \<le> 0 \<or> [] = [] \<and> k = 1"
       "readLines cap offset stop offset rest [] =
         (if cut then [] @ page_lines offset (take k (lines_of rest)) @ cut_note cap (offset + int k)
          else trim_newlines ([] @ page_lines offset (take k (lines_of rest))))"
       "if cut then k < length (lines_of rest) \<and> int k < stop - offset \<and> [] @ page_lines offset (take k (lines_of rest)) \<noteq> []
        else k = min (length (lines_of rest)) (nat (stop - offset))"
      using readLines_page[of offset offset rest stop "[]" cap] by blast
    have len: "length (lines_of rest) = length (lines_of content) - nat offset" using rest(1) by simp
    have pos: "0 < length (lines_of rest)" using False by simp
    show ?thesis
    proof (intro exI[of _ k] exI[of _ cut] conjI)
      show "read_page cap offset limit content =
          (if cut then page_from offset k content @ cut_note cap (offset + int k)
           else trim_newlines (page_from offset k content))"
        using rp rest i k(4) by (simp add: page_from_def)
      show "if cut then int k < limit \<and> offset + int k < int (length (lines_of content))
          else k = min (length (lines_of content) - nat offset) (nat limit)"
        using k(5) len assms by (auto simp: stop_def)
      show "min 1 (length (lines_of content) - nat offset) \<le> k"
        using k(5) len pos assms by (cases "k = 0") (auto simp: stop_def split: if_splits)
      show "if 0 < cap \<and> 1 < k then int (length (page_from offset k content)) \<le> cap else True"
        using k(3) rest(1) by (auto simp: page_from_def)
    qed
  qed
qed

text \<open>The same at a file of two lines, and a cap that only the first fits in.\<close>

lemma read_returns_page_witness:
  "\<exists>k cut. read_page 12 0 5 ([CHR ''a''] @ linefeed @ [CHR ''b'']) =
      (if cut then page_from 0 k ([CHR ''a''] @ linefeed @ [CHR ''b'']) @ cut_note 12 (0 + int k)
       else trim_newlines (page_from 0 k ([CHR ''a''] @ linefeed @ [CHR ''b'']))) \<and> 1 \<le> k"
proof -
  have l: "length (lines_of ([CHR ''a''] @ linefeed @ [CHR ''b''])) = 2"
    by (simp add: lines_of.simps readLine_def linefeed_def has_prefix_def strip_cr_def maxLineBytes_def)
  show ?thesis
    using read_returns_page[of 0 5 12 "[CHR ''a''] @ linefeed @ [CHR ''b'']"] l
    by (fastforce simp: max_int64_def)
qed

end
