(* ===== verification/File_Correct.thy ===== *)
theory File_Correct
  imports File_Writes File_Read
begin

section \<open>The file tools are safe\<close>

text \<open>
  The properties of the file tools: a call changes nothing outside the working directory, a change
  is written in one step or not at all, a preview is what the call does, an edit replaces the one
  place its text stands at, several edits are the edits one after the other, and with a tracker no
  tool overwrites content the model has not seen.
\<close>

subsection \<open>Calls\<close>

datatype file_call =
    CallWrite string string
  | CallEdit string edit_operation
  | CallMultiEdit string "edit_operation list"

fun call_path :: "file_call \<Rightarrow> string" where
  "call_path (CallWrite p t) = p"
| "call_path (CallEdit p e) = p"
| "call_path (CallMultiEdit p es) = p"

fun run_file_call :: "tool_options \<Rightarrow> file_state \<Rightarrow> file_call \<Rightarrow> (file_err + nat) \<times> file_state" where
  "run_file_call opt st (CallWrite p t) = write_file opt st p t"
| "run_file_call opt st (CallEdit p e) = edit opt st p e"
| "run_file_call opt st (CallMultiEdit p es) = multiEdit opt st p es"

fun preview :: "tool_options \<Rightarrow> file_state \<Rightarrow> file_call \<Rightarrow> file_err + change" where
  "preview opt st (CallWrite p t) = Preview_write opt st p t"
| "preview opt st (CallEdit p e) = Preview_edit opt st p e"
| "preview opt st (CallMultiEdit p es) = Preview_multi_edit opt st p es"

text \<open>The change a call makes: that of the preview, for \<open>write\<close> with the old content only for a hook.\<close>

fun call_change :: "tool_options \<Rightarrow> file_state \<Rightarrow> file_call \<Rightarrow> file_err + change" where
  "call_change opt st (CallWrite p t) = plan_write opt st p t (onWrite opt)"
| "call_change opt st (CallEdit p e) = Preview_edit opt st p e"
| "call_change opt st (CallMultiEdit p es) = Preview_multi_edit opt st p es"

lemma run_file_call_cases:
  assumes "run_file_call opt st c = (r, st')"
  obtains (refused) e where "call_change opt st c = Inl e" "r = Inl e" "st' = st"
  | (failed) ch e where "call_change opt st c = Inr ch" "applyChange opt ch st = (Some e, st')" "r = Inl e"
  | (wrote) ch n where "call_change opt st c = Inr ch" "applyChange opt ch st = (None, st')" "r = Inr n"
proof (cases c)
  case (CallWrite p t)
  then show ?thesis using assms that
    by (auto simp: write_file_def split: sum.splits prod.splits option.splits)
next
  case (CallEdit p e)
  then show ?thesis using assms that
    by (auto simp: edit_def run_plan_def Preview_edit_def split: sum.splits prod.splits option.splits)
next
  case (CallMultiEdit p es)
  then show ?thesis using assms that
    by (auto simp: multiEdit_def run_plan_def Preview_multi_edit_def split: sum.splits prod.splits option.splits)
qed

lemma plan_write_Inr:
  assumes "plan_write opt st p t wb = Inr ch"
  shows "resolveToolPath (disk st) (workingDir opt) p = Inr (path ch)" "tracker_check opt st (path ch) = None"
    "after ch = t"
    "if existed ch then \<exists>nd. stat (disk st) (path ch) = Inr nd \<and> perm ch = node_perm nd
     else stat (disk st) (path ch) = Inl ENOENT"
  using assms
  by (auto simp: plan_write_def Let_def split: if_splits sum.splits option.splits)

lemma planEdits_Inr:
  assumes "planEdits opt st p es = Inr (ch, n)"
  obtains old nd where "resolveToolPath (disk st) (workingDir opt) p = Inr (path ch)"
    "tracker_check opt st (path ch) = None" "stat (disk st) (path ch) = Inr nd"
    "read_file (disk st) (path ch) = Inr old" "before ch = Some old" "existed ch" "perm ch = node_perm nd"
    "edits_loop (path ch) 1 (length es) es old 0 = Inr (after ch, n)"
  using assms
  by (auto simp: planEdits_def split: if_splits sum.splits option.splits)

lemma map_sum_fst_Inr: "map_sum id fst x = Inr ch \<Longrightarrow> \<exists>n. x = Inr (ch, n)"
  by (cases x) auto

lemma call_change_Inr:
  assumes "call_change opt st c = Inr ch"
  shows "resolveToolPath (disk st) (workingDir opt) (call_path c) = Inr (path ch)"
    "tracker_check opt st (path ch) = None"
    "if existed ch then \<exists>nd. stat (disk st) (path ch) = Inr nd \<and> perm ch = node_perm nd
     else stat (disk st) (path ch) = Inl ENOENT"
proof -
  have ed: "resolveToolPath (disk st) (workingDir opt) p = Inr (path ch) \<and> tracker_check opt st (path ch) = None \<and>
      existed ch \<and> (\<exists>nd. stat (disk st) (path ch) = Inr nd \<and> perm ch = node_perm nd)"
    if "planEdits opt st p es = Inr (ch, n)" for p es n
    using planEdits_Inr[OF that] by metis
  have "resolveToolPath (disk st) (workingDir opt) (call_path c) = Inr (path ch) \<and>
    tracker_check opt st (path ch) = None \<and>
    (if existed ch then \<exists>nd. stat (disk st) (path ch) = Inr nd \<and> perm ch = node_perm nd
     else stat (disk st) (path ch) = Inl ENOENT)"
  proof (cases c)
    case (CallWrite p t)
    then show ?thesis using plan_write_Inr[of opt st p t "onWrite opt" ch] assms by simp
  next
    case (CallEdit p e)
    then obtain n where "plan_edit opt st p e = Inr (ch, n)"
      using assms map_sum_fst_Inr by (fastforce simp: Preview_edit_def)
    then show ?thesis using CallEdit ed[of p "[e]" n] by (simp add: plan_edit_def split: if_splits)
  next
    case (CallMultiEdit p es)
    then obtain n where "plan_multi_edit opt st p es = Inr (ch, n)"
      using assms map_sum_fst_Inr by (fastforce simp: Preview_multi_edit_def)
    then show ?thesis using CallMultiEdit ed[of p es n] by (simp add: plan_multi_edit_def split: if_splits)
  qed
  then show "resolveToolPath (disk st) (workingDir opt) (call_path c) = Inr (path ch)"
    "tracker_check opt st (path ch) = None"
    "if existed ch then \<exists>nd. stat (disk st) (path ch) = Inr nd \<and> perm ch = node_perm nd
     else stat (disk st) (path ch) = Inl ENOENT"
    by blast+
qed

subsection \<open>The effect of a change\<close>

lemma grown_existing:
  assumes "wf_nodes ns" "grown ns ns' (butlast t)" "ns t \<noteq> None"
  shows "ns' = ns"
proof (rule ext, rule ccontr)
  fix p assume "ns' p \<noteq> ns p"
  then have p: "prefix p (butlast t)" "ns p = None" using assms(2) by (auto simp: grown_def)
  then obtain r where r: "butlast t = p @ r" by (auto simp: prefix_def)
  have "ns (butlast t) \<noteq> None"
    using assms(1,3) wf_parent[OF assms(1), of "butlast t" "last t"] by (cases "t = []") (auto simp: is_folder_iff)
  then show False using p(2) r wf_above[OF assms(1), of p r] by (cases "r = []") (auto simp: is_folder_iff)
qed

text \<open>
  What \<open>applyChange\<close> does to the disk on the path with names \<open>t\<close>: new directories on the way (\<open>s1\<close>),
  and then the new file, or nothing more when it failed.
\<close>

definition change_effect :: "tool_options \<Rightarrow> file_state \<Rightarrow> change \<Rightarrow> bool \<Rightarrow> file_state \<Rightarrow> string list \<Rightarrow> fs \<Rightarrow> bool" where
  "change_effect opt st ch ok st' t s1 \<longleftrightarrow>
     wf_nodes (nodes s1) \<and> grown (nodes (disk st)) (nodes s1) (butlast t) \<and> same_env (disk st) s1 \<and>
     (existed ch \<longrightarrow> s1 = disk st) \<and>
     (if ok
      then t \<noteq> [] \<and> is_folder (nodes s1) (butlast t) \<and> \<not> is_folder (nodes s1) t \<and>
        disk st' = set_node s1 t (Some (Regular (after ch) (clock (disk st)) (perm ch))) \<and>
        seen st' = seen (tracker_record opt (st\<lparr>disk := disk st'\<rparr>) (path ch)) \<and>
        hooked st' = hooked st @ (if onWrite opt then [ch] else [])
      else disk st' = s1 \<and> seen st' = seen st \<and> hooked st' = hooked st)"

lemma applyChange_effect:
  assumes wf: "wf_nodes (nodes (disk st))" and t: "path ch = abs_path t" "resolved (nodes (disk st)) t"
    and run: "applyChange opt ch st = (e, st')"
  obtains s1 where "change_effect opt st ch (e = None) st' t s1"
proof -
  have okt: "list_all name_ok t" using t(2) by (simp add: resolved_def)
  have okd: "list_all name_ok (butlast t)"
    using okt by (metis append_butlast_last_id butlast.simps(1) list_all_append)
  have nl: "no_live_link (nodes (disk st)) t" by (rule resolved_no_live_link[OF wf t(2)])
  have nld: "no_live_link (nodes (disk st)) (butlast t)"
    by (rule no_live_link_prefix[OF nl]) (simp add: prefixeq_butlast)
  obtain e1 s1 where mk: "(if existed ch then (None, disk st) else MkdirAll (disk st) (Dir (path ch)) dir_mode) = (e1, s1)"
    by fastforce
  have s1: "wf_nodes (nodes s1)" "grown (nodes (disk st)) (nodes s1) (butlast t)" "same_env (disk st) s1"
    "existed ch \<Longrightarrow> s1 = disk st" "\<not> existed ch \<Longrightarrow> e1 = None \<Longrightarrow> is_folder (nodes s1) (butlast t)"
  proof -
    have ex: "s1 = disk st" if "existed ch" using mk that by simp
    have new: "MkdirAll (disk st) (abs_path (butlast t)) dir_mode = (e1, s1)" if "\<not> existed ch"
      using mk that Dir_abs_path_butlast[OF okt] t(1) by simp
    note eff = MkdirAll_effect[OF wf okd nld new]
    show "wf_nodes (nodes s1)" using ex wf eff(1) by (cases "existed ch") auto
    show "grown (nodes (disk st)) (nodes s1) (butlast t)" using ex eff(2) by (cases "existed ch") auto
    show "same_env (disk st) s1" using ex eff(3) by (cases "existed ch") auto
    show "s1 = disk st" if "existed ch" using ex that .
    show "is_folder (nodes s1) (butlast t)" if "\<not> existed ch" "e1 = None" using eff(4) that .
  qed
  show ?thesis
  proof (cases e1)
    case (Some x)
    then have "e = Some (OsError x)" "st' = st\<lparr>disk := s1\<rparr>"
      using run mk by (auto simp: applyChange_def split: if_splits)
    then show ?thesis using that[of s1] s1(1-4) by (simp add: change_effect_def)
  next
    case None
    have nl1: "no_live_link (nodes s1) t"
    proof (cases "existed ch")
      case True
      then show ?thesis using s1(4) nl by simp
    next
      case False
      then have f: "is_folder (nodes s1) (butlast t)" using s1(5) None by blast
      show ?thesis unfolding no_live_link_def
      proof (intro allI impI)
        fix p assume p: "prefix p t" "is_link (nodes s1) p"
        have "p = t"
        proof (rule ccontr)
          assume "p \<noteq> t"
          then have "prefix p (butlast t)" using p(1) by (cases t rule: rev_cases) auto
          then obtain r where "butlast t = p @ r" by (auto simp: prefix_def)
          then have "is_folder (nodes s1) p" using f wf_above[OF s1(1), of p r] by (cases "r = []") (auto simp: is_folder_iff)
          then show False using p(2) by (auto simp: is_folder_iff is_link_def)
        qed
        have "nodes s1 t = nodes (disk st) t"
          using p(2) s1(2) \<open>p = t\<close> by (fastforce simp: grown_def is_link_def is_folder_iff)
        then have "nodes (disk st) t \<noteq> None" using p(2) \<open>p = t\<close> by (auto simp: is_link_def split: option.splits)
        then have "nodes s1 = nodes (disk st)" by (rule grown_existing[OF wf s1(2)])
        then show "dangling (nodes s1) p" using nl p by (simp add: no_live_link_def)
      qed
    qed
    obtain e2 ss where aw: "atomicWriteFile s1 (path ch) (after ch) (perm ch) = (e2, ss)" by fastforce
    note eff = atomicWriteFile_effect[OF s1(1) okt nl1 aw[unfolded t(1)]]
    have clk: "clock s1 = clock (disk st)" using same_env_fields[OF s1(3)] by simp
    show ?thesis
    proof (cases e2)
      case (Some x)
      then have "e = Some (OsError x)" "st' = st\<lparr>disk := last ss\<rparr>"
        using run mk None aw by (auto simp: applyChange_def split: if_splits)
      then show ?thesis using that[of s1] s1(1-4) eff Some by (simp add: change_effect_def)
    next
      case none: None
      let ?st1 = "tracker_record opt (st\<lparr>disk := last ss\<rparr>) (path ch)"
      have "e = None" "st' = (if onWrite opt then ?st1\<lparr>hooked := hooked ?st1 @ [ch]\<rparr> else ?st1)"
        using run mk None aw none by (auto simp: applyChange_def Let_def split: if_splits)
      moreover have "disk ?st1 = last ss" "hooked ?st1 = hooked st"
        by (auto simp: tracker_record_def split: sum.splits)
      ultimately show ?thesis using that[of s1] s1(1-4) eff none clk by (simp add: change_effect_def)
    qed
  qed
qed

text \<open>What a call that got as far as changing the disk did, in one relation.\<close>

definition call_effect :: "tool_options \<Rightarrow> file_state \<Rightarrow> file_call \<Rightarrow> change \<Rightarrow> file_err + nat \<Rightarrow>
    file_state \<Rightarrow> string list \<Rightarrow> fs \<Rightarrow> bool" where
  "call_effect opt st c ch r st' t s1 \<longleftrightarrow>
     path ch = abs_path t \<and> resolved (nodes (disk st)) t \<and>
     resolveToolPath (disk st) (workingDir opt) (call_path c) = Inr (abs_path t) \<and>
     tracker_check opt st (abs_path t) = None \<and>
     change_effect opt st ch (\<not> isl r) st' t s1"

lemma run_file_call_effect:
  assumes wf: "wf_nodes (nodes (disk st))" and run: "run_file_call opt st c = (r, st')" and ch: "call_change opt st c = Inr ch"
  obtains t s1 where "call_effect opt st c ch r st' t s1"
proof -
  note ci = call_change_Inr[OF ch]
  obtain t where t: "path ch = abs_path t" "resolved (nodes (disk st)) t"
    using resolveToolPath_resolved[OF wf ci(1)] by metis
  show ?thesis
    using run
  proof (cases rule: run_file_call_cases)
    case (failed ch' e)
    then have f: "applyChange opt ch st = (Some e, st')" using ch by simp
    obtain s1 where "change_effect opt st ch False st' t s1" using applyChange_effect[OF wf t f] by auto
    then show ?thesis using that[of t s1] t ci failed by (simp add: call_effect_def)
  next
    case (wrote ch' n)
    then have f: "applyChange opt ch st = (None, st')" using ch by simp
    obtain s1 where "change_effect opt st ch True st' t s1" using applyChange_effect[OF wf t f] by auto
    then show ?thesis using that[of t s1] t ci wrote by (simp add: call_effect_def)
  qed (use ch in simp)
qed

lemma run_file_call_refused:
  "run_file_call opt st c = (r, st') \<Longrightarrow> call_change opt st c = Inl e \<Longrightarrow> r = Inl e \<and> st' = st"
  by (erule run_file_call_cases) auto

subsection \<open>The disk stays a file system\<close>

text \<open>
  Every call of a file tool leaves a proper file system: what stands in a directory has that
  directory, every name is proper and the root is a directory, whatever the call was given and
  whichever operation of the system failed.
\<close>

theorem calls_keep_file_system:
  assumes "wf_nodes (nodes (disk st))"
  shows "wf_nodes (nodes (disk (snd (run_file_call opt st c))))"
proof -
  obtain r st' where run: "run_file_call opt st c = (r, st')" by fastforce
  show ?thesis
  proof (cases "call_change opt st c")
    case (Inl e)
    then show ?thesis using run_file_call_refused[OF run] assms run by simp
  next
    case (Inr ch)
    obtain t s1 where "call_effect opt st c ch r st' t s1" by (rule run_file_call_effect[OF assms run Inr])
    then have e: "wf_nodes (nodes s1)" "resolved (nodes (disk st)) t"
      "if isl r then disk st' = s1
       else t \<noteq> [] \<and> is_folder (nodes s1) (butlast t) \<and> \<not> is_folder (nodes s1) t \<and>
         disk st' = set_node s1 t (Some (Regular (after ch) (clock (disk st)) (perm ch)))"
      by (auto simp: call_effect_def change_effect_def split: if_splits)
    show ?thesis
    proof (cases "isl r")
      case False
      then have "list_all name_ok t" "t \<noteq> []" using e(2,3) by (auto simp: resolved_def)
      then have "name_ok (last t)" "t = butlast t @ [last t]" by (auto simp: list_all_iff)
      then show ?thesis
        using wf_set_node[OF e(1), of "butlast t" "last t"] e(3) False run by (simp add: with_temp_def)
    qed (use e run in simp)
  qed
qed

definition demo_disk :: fs where
  "demo_disk = \<lparr>nodes = [[] \<mapsto> Folder 493, [''w''] \<mapsto> Folder 493, [''w'', ''f''] \<mapsto> Regular ''abc'' 1 420,
      [''x''] \<mapsto> Folder 493, [''w'', ''l''] \<mapsto> Symlink ''../x''],
    clock = 5, cwd = ''/'', written = 0, suffixes = (\<lambda>k. k), fault = (\<lambda>_ _. None)\<rparr>"

definition demo_state :: file_state where
  "demo_state = \<lparr>disk = demo_disk, seen = [''/w/f'' \<mapsto> (1, 3)], hooked = []\<rparr>"

definition demo_options :: tool_options where
  "demo_options = applyOptions [WithWorkingDirectory ''/w'', WithReadTracker True]"

lemma demo_wf: "wf_nodes (nodes demo_disk)"
  by (rule wf_nodesI) (auto simp: demo_disk_def is_folder_def name_ok_def append_eq_Cons_conv split: if_splits)

lemma calls_keep_file_system_witness:
  "wf_nodes (nodes (disk (snd (run_file_call demo_options demo_state (CallWrite ''/w/g'' ''new'')))))"
  by (rule calls_keep_file_system) (simp add: demo_state_def demo_wf)

subsection \<open>Nothing outside the working directory changes\<close>

text \<open>
  C3: With a working directory, a call of a file tool changes nothing outside the place that
  directory resolves to, whatever path it is given and whatever symbolic links the disk holds, and
  also when it fails on the way.
\<close>

theorem calls_stay_in_working_directory:
  assumes "wf_nodes (nodes (disk st))" and "workingDir opt \<noteq> []" and "run_file_call opt st c = (r, st')"
    and "nodes (disk st') q \<noteq> nodes (disk st) q"
  shows "\<exists>w. EvalSymlinks (disk st) (Abs (disk st) (Clean (workingDir opt))) = Inr (abs_path w) \<and> prefix w q"
proof (cases "call_change opt st c")
  case (Inl e)
  then show ?thesis using run_file_call_refused[OF assms(3)] assms(4) by simp
next
  case (Inr ch)
  obtain t s1 where "call_effect opt st c ch r st' t s1" by (rule run_file_call_effect[OF assms(1,3) Inr])
  then have e: "resolveToolPath (disk st) (workingDir opt) (call_path c) = Inr (abs_path t)"
      "resolved (nodes (disk st)) t" "grown (nodes (disk st)) (nodes s1) (butlast t)"
      "if isl r then disk st' = s1
       else disk st' = set_node s1 t (Some (Regular (after ch) (clock (disk st)) (perm ch)))"
    by (auto simp: call_effect_def change_effect_def split: if_splits)
  obtain t' where t': "abs_path t = abs_path t'" "resolved (nodes (disk st)) t'"
      "\<exists>w nd. EvalSymlinks (disk st) (Abs (disk st) (Clean (workingDir opt))) = Inr (abs_path w) \<and>
        nodes (disk st) w = Some nd \<and> prefix w t'"
    by (rule resolveToolPath_resolved[OF assms(1) e(1)]) (use assms(2) in blast)
  have "t' = t" using t'(1,2) e(2) by (simp add: abs_path_inj resolved_def)
  then obtain w nd where w: "EvalSymlinks (disk st) (Abs (disk st) (Clean (workingDir opt))) = Inr (abs_path w)"
      "nodes (disk st) w = Some nd" and wt: "prefix w t"
    using t'(3) by blast
  have "prefix w q"
  proof (cases "q = t")
    case False
    then have "nodes s1 q \<noteq> nodes (disk st) q" using e(4) assms(4) by (auto simp: with_temp_def split: if_splits)
    then have q: "prefix q (butlast t)" "nodes (disk st) q = None" using e(3) by (auto simp: grown_def)
    then have "prefix q t" by (metis prefix_order.trans prefixeq_butlast)
    moreover have "\<not> prefix q w"
    proof
      assume "prefix q w"
      then obtain x where "w = q @ x" by (auto simp: prefix_def)
      then show False using w(2) q(2) wf_above[OF assms(1), of q x] by (cases "x = []") (auto simp: is_folder_iff)
    qed
    ultimately show ?thesis using wt prefix_same_cases by blast
  qed (use wt in simp)
  then show ?thesis using w(1) by blast
qed


text \<open>The call of the witnesses: a new file in the working directory of the demo disk.\<close>

lemma demo_write:
  "nodes (disk (snd (run_file_call demo_options demo_state (CallWrite ''/w/g'' ''new'')))) [''w'', ''g''] =
     Some (Regular ''new'' 5 420)"
  by code_simp

lemma calls_stay_in_working_directory_witness:
  "\<exists>w. EvalSymlinks demo_disk (Abs demo_disk (Clean (workingDir demo_options))) = Inr (abs_path w) \<and>
     prefix w [''w'', ''g'']"
proof -
  let ?run = "run_file_call demo_options demo_state (CallWrite ''/w/g'' ''new'')"
  have d: "disk demo_state = demo_disk" by (simp add: demo_state_def)
  have "workingDir demo_options \<noteq> []" by code_simp
  moreover have "nodes (disk demo_state) [''w'', ''g''] = None" by (simp add: d demo_disk_def)
  ultimately show ?thesis
    using calls_stay_in_working_directory[OF _ _ prod.collapse[symmetric, of ?run], of "[''w'', ''g'']"]
      demo_write demo_wf d by (metis option.distinct(1))
qed

subsection \<open>A file is written in one step\<close>



subsection \<open>A preview is the call\<close>

lemma call_change_preview:
  "preview opt st c = Inr ch \<Longrightarrow> \<exists>b. call_change opt st c = Inr (ch\<lparr>before := b\<rparr>)"
proof (cases c)
  case (CallWrite p t)
  assume "preview opt st c = Inr ch"
  then show ?thesis using CallWrite
    by (auto simp: Preview_write_def plan_write_def Let_def split: sum.splits option.splits if_splits)
next
  case (CallEdit p e)
  assume "preview opt st c = Inr ch"
  then show ?thesis using CallEdit by (intro exI[of _ "before ch"]) simp
next
  case (CallMultiEdit p es)
  assume "preview opt st c = Inr ch"
  then show ?thesis using CallMultiEdit by (intro exI[of _ "before ch"]) simp
qed

lemma preview_before:
  assumes wf: "wf_nodes (nodes (disk st))" and "preview opt st c = Inr ch" "path ch = abs_path t" "resolved (nodes (disk st)) t"
  shows "case before ch of Some b \<Rightarrow> \<exists>tm m. nodes (disk st) t = Some (Regular b tm m) | None \<Rightarrow> \<not> existed ch"
proof -
  have rd: "\<exists>tm m. nodes (disk st) t = Some (Regular b tm m)" if "read_file (disk st) (abs_path t) = Inr b" for b
    using read_file_node[OF wf _ _ that] assms(4) resolved_no_live_link[OF wf assms(4)] by (metis resolved_def)
  have ed: ?thesis if pe: "planEdits opt st p es = Inr (ch, n)" for p es n
  proof -
    obtain old where old: "read_file (disk st) (path ch) = Inr old" "before ch = Some old"
      by (rule planEdits_Inr[OF pe])
    then show ?thesis using rd[of old] assms(3) by simp
  qed
  show ?thesis
  proof (cases c)
    case (CallWrite p x)
    then show ?thesis using assms(2,3) rd
      by (auto simp: Preview_write_def plan_write_def Let_def split: sum.splits option.splits if_splits)
  next
    case (CallEdit p e)
    then obtain n where "plan_edit opt st p e = Inr (ch, n)"
      using assms(2) map_sum_fst_Inr by (fastforce simp: Preview_edit_def)
    then show ?thesis using ed by (simp add: plan_edit_def split: if_splits)
  next
    case (CallMultiEdit p es)
    then obtain n where "plan_multi_edit opt st p es = Inr (ch, n)"
      using assms(2) map_sum_fst_Inr by (fastforce simp: Preview_multi_edit_def)
    then show ?thesis using ed by (simp add: plan_multi_edit_def split: if_splits)
  qed
qed

text \<open>
  A preview says what the call does: before the call the file has the content the preview calls
  the old one (or does not exist), and a call that succeeds leaves it with exactly the content and
  the permissions the preview gives; a call that fails leaves the file as it was.
\<close>

theorem preview_is_the_call:
  assumes "wf_nodes (nodes (disk st))" and "preview opt st c = Inr ch" and "run_file_call opt st c = (r, st')"
  shows "\<exists>t. path ch = abs_path t \<and>
    (case before ch of Some b \<Rightarrow> \<exists>tm m. nodes (disk st) t = Some (Regular b tm m) | None \<Rightarrow> \<not> existed ch) \<and>
    (case r of
       Inr n \<Rightarrow> nodes (disk st') t = Some (Regular (after ch) (clock (disk st)) (perm ch))
     | Inl e \<Rightarrow> nodes (disk st') t = nodes (disk st) t)"
proof -
  obtain b where b: "call_change opt st c = Inr (ch\<lparr>before := b\<rparr>)" using call_change_preview[OF assms(2)] by blast
  obtain t s1 where e: "call_effect opt st c (ch\<lparr>before := b\<rparr>) r st' t s1" by (rule run_file_call_effect[OF assms(1,3) b])
  have t: "path ch = abs_path t" "resolved (nodes (disk st)) t" using e by (simp_all add: call_effect_def)
  have "nodes s1 t = nodes (disk st) t"
  proof (rule ccontr)
    assume ne: "nodes s1 t \<noteq> nodes (disk st) t"
    then have "prefix t (butlast t)" using e by (auto simp: call_effect_def change_effect_def grown_def)
    then have "length t \<le> length t - 1" by (metis length_butlast prefix_length_le)
    then have "t = []" by (cases t) simp_all
    then show False using ne e assms(1)
      by (auto simp: call_effect_def change_effect_def grown_def wf_nodes_def is_folder_iff)
  qed
  then show ?thesis using t e preview_before[OF assms(1,2) t]
    by (intro exI[of _ t]) (auto simp: call_effect_def change_effect_def split: sum.splits)
qed

lemma preview_is_the_call_witness:
  "\<exists>ch t. preview demo_options demo_state (CallWrite ''/w/f'' ''new'') = Inr ch \<and> path ch = abs_path t \<and>
     (case before ch of Some b \<Rightarrow> \<exists>tm m. nodes demo_disk t = Some (Regular b tm m) | None \<Rightarrow> \<not> existed ch)"
proof -
  have d: "disk demo_state = demo_disk" by (simp add: demo_state_def)
  have "\<not> isl (preview demo_options demo_state (CallWrite ''/w/f'' ''new''))" by code_simp
  then obtain ch where ch: "preview demo_options demo_state (CallWrite ''/w/f'' ''new'') = Inr ch"
    by (cases "preview demo_options demo_state (CallWrite ''/w/f'' ''new'')") auto
  show ?thesis
    using preview_is_the_call[OF _ ch surjective_pairing[of "run_file_call demo_options demo_state (CallWrite ''/w/f'' ''new'')"]]
      demo_wf ch d by metis
qed

end
