(* ===== verification/File_Edits.thy ===== *)
theory File_Edits
  imports File_Correct
begin

section \<open>Edits\<close>

text \<open>
  What an edit does to a text, against the reference operations of splitting and joining, and the
  equivalence of a \<open>multi_edit\<close> call with its edits made by one \<open>edit\<close> call each.
\<close>

subsection \<open>Counting and replacing\<close>

lemma bytes_count_split: "needle \<noteq> [] \<Longrightarrow> bytes_count s needle = length (split_sep s needle) - 1"
proof (induction s needle rule: bytes_count.induct)
  case (1 s needle)
  show ?case
  proof (cases "go_index s needle")
    case None
    then show ?thesis by (simp add: bytes_count.simps[of s needle] split_sep.simps[of s needle])
  next
    case (Some i)
    then have "bytes_count (drop (i + length needle) s) needle =
        length (split_sep (drop (i + length needle) s) needle) - 1"
      using 1 by simp
    moreover have "0 < length (split_sep (drop (i + length needle) s) needle)" by simp
    ultimately show ?thesis using Some 1(2)
      by (simp add: bytes_count.simps[of s needle] split_sep.simps[of s needle] del: length_greater_0_conv)
  qed
qed

lemma bytes_replace_all:
  "old \<noteq> [] \<Longrightarrow> bytes_count s old \<le> n \<Longrightarrow> bytes_replace n s old new = go_join (split_sep s old) new"
proof (induction n arbitrary: s)
  case 0
  then have "go_index s old = None" by (auto simp: bytes_count.simps[of s old] split: option.splits)
  then show ?case by (simp add: split_sep.simps[of s old])
next
  case (Suc n)
  show ?case
  proof (cases "go_index s old")
    case None
    then show ?thesis by (simp add: split_sep.simps[of s old])
  next
    case (Some i)
    then have "bytes_count (drop (i + length old) s) old \<le> n"
      using Suc.prems by (simp add: bytes_count.simps[of s old])
    then show ?thesis using Suc Some by (simp add: split_sep.simps[of s old] go_join_Cons)
  qed
qed

lemma bytes_count_0: "needle \<noteq> [] \<Longrightarrow> bytes_count s needle = 0 \<longleftrightarrow> \<not> go_contains s needle"
  by (simp add: bytes_count.simps[of s needle] go_contains_def split: option.splits)

text \<open>
  C26: An edit without \<open>replace_all\<close> that is accepted replaces its text at the first place it stands
  and leaves what is before and after as it was, and the text does not come again after it; with
  \<open>replace_all\<close> the result is the content split at the text and joined with the new text. The text
  an edit gives was there, and is not the text that replaces it.
\<close>

theorem edit_replaces_its_text:
  assumes "applyEdit content e p = Inr (content', k)"
  shows "0 < k \<and> go_contains content (old_string e) \<and> old_string e \<noteq> new_string e \<and>
    (if replace_all e
     then content' = go_join (go_split content (old_string e)) (new_string e) \<and>
       k + 1 = length (go_split content (old_string e))
     else k = 1 \<and> (\<exists>a b. content = a @ old_string e @ b \<and> content' = a @ new_string e @ b \<and>
       go_index content (old_string e) = Some (length a) \<and> \<not> go_contains b (old_string e)))"
proof -
  let ?old = "old_string e"
  let ?n = "bytes_count content ?old"
  have old: "?old \<noteq> []" "?old \<noteq> new_string e" "?n \<noteq> 0" "replace_all e \<or> ?n = 1"
    and res1: "content' = bytes_replace (if replace_all e then ?n else 1) content ?old (new_string e)"
    and res2: "k = (if replace_all e then ?n else 1)"
    using assms by (auto simp: applyEdit_def Let_def split: if_splits)
  note res = res1[folded res2] res2
  have c: "go_contains content ?old" using old(3) bytes_count_0[OF old(1), of content] by simp
  show ?thesis
  proof (cases "replace_all e")
    case True
    have "0 < length (split_sep content ?old)" by simp
    then show ?thesis
      using True old res c bytes_replace_all[OF old(1), of content k] bytes_count_split[OF old(1), of content]
      by (simp add: go_split_def del: length_greater_0_conv)
  next
    case False
    obtain i where i: "go_index content ?old = Some i" using c by (auto simp: go_contains_def)
    let ?a = "take i content" and ?b = "drop (i + length ?old) content"
    have split: "content = ?a @ ?old @ ?b" by (rule go_index_split[OF i])
    have len: "length ?a = i" using go_index_Some[OF i] by simp
    have "bytes_count ?b ?old = 0" using False old i by (simp add: bytes_count.simps[of content])
    then have nob: "\<not> go_contains ?b ?old" using bytes_count_0[OF old(1)] by blast
    have new: "content' = ?a @ new_string e @ ?b" using res1 False i by simp
    have "go_index content ?old = Some (length ?a)" using i len by simp
    with split new nob have "\<exists>a b. content = a @ ?old @ b \<and> content' = a @ new_string e @ b \<and>
        go_index content ?old = Some (length a) \<and> \<not> go_contains b ?old"
      by blast
    then show ?thesis using False res2 c old(2) by simp
  qed
qed

lemma edit_replaces_its_text_witness:
  "\<exists>a b. ''axb'' = a @ ''x'' @ b \<and> ''ayb'' = a @ ''y'' @ b \<and> \<not> go_contains b ''x''"
proof -
  have "applyEdit ''axb'' \<lparr>old_string = ''x'', new_string = ''y'', replace_all = False\<rparr> ''f'' = Inr (''ayb'', 1)"
    by code_simp
  from edit_replaces_its_text[OF this] show ?thesis by auto
qed


subsection \<open>Several edits\<close>

text \<open>The edits of a call made one by one, stopping at the first that fails.\<close>

fun run_edits :: "tool_options \<Rightarrow> file_state \<Rightarrow> string \<Rightarrow> edit_operation list \<Rightarrow> (file_err + nat) \<times> file_state" where
  "run_edits opt st p [] = (Inr 0, st)"
| "run_edits opt st p (e # es) =
     (case edit opt st p e of
        (Inl x, st') \<Rightarrow> (Inl x, st')
      | (Inr k, st') \<Rightarrow>
          (case run_edits opt st' p es of
             (Inl x, st'') \<Rightarrow> (Inl x, st'')
           | (Inr n, st'') \<Rightarrow> (Inr (k + n), st'')))"

text \<open>A lookup sees what kind of node stands where, and where links lead, but no content.\<close>

fun shape :: "node option \<Rightarrow> nat \<times> string" where
  "shape None = (0, [])"
| "shape (Some (Folder m)) = (1, [])"
| "shape (Some (Regular t tm m)) = (2, [])"
| "shape (Some (Symlink t)) = (3, t)"

lemma namei_shape:
  "(\<And>q. shape (ns' q) = shape (ns q)) \<Longrightarrow> namei ns' fl n d cs = namei ns fl n d cs"
proof (induction ns fl n d cs rule: namei.induct)
  case (2 ns fl n d c cs)
  note s = "2.prems"[of "d @ [c]"]
  show ?case
  proof (cases "ns (d @ [c])")
    case None
    then have "ns' (d @ [c]) = None" using s by (cases "ns' (d @ [c])" rule: shape.cases) auto
    then show ?thesis using None 2(1,2,5)
      by (auto simp: namei.simps(2)[of ns fl n d c] namei.simps(2)[of ns' fl n d c])
  next
    case (Some nd)
    show ?thesis
    proof (cases nd)
      case (Folder m)
      then obtain m' where "ns' (d @ [c]) = Some (Folder m')" using s Some by (cases "ns' (d @ [c])" rule: shape.cases) auto
      then show ?thesis using Some Folder 2
        by (auto simp: namei.simps(2)[of ns fl n d c] namei.simps(2)[of ns' fl n d c])
    next
      case (Regular x tm m)
      then obtain y tm' m' where "ns' (d @ [c]) = Some (Regular y tm' m')"
        using s Some by (cases "ns' (d @ [c])" rule: shape.cases) auto
      then show ?thesis using Some Regular 2(1,2,5)
        by (auto simp: namei.simps(2)[of ns fl n d c] namei.simps(2)[of ns' fl n d c])
    next
      case (Symlink x)
      then have "ns' (d @ [c]) = Some (Symlink x)" using s Some by (cases "ns' (d @ [c])" rule: shape.cases) auto
      then show ?thesis using Some Symlink 2
        by (auto simp: namei.simps(2)[of ns fl n d c] namei.simps(2)[of ns' fl n d c])
    qed
  qed
qed simp

lemma resolve_links_loop_cong:
  "(\<And>p. EvalSymlinks s' p = EvalSymlinks s p) \<Longrightarrow> resolve_links_loop s' current ms = resolve_links_loop s current ms"
  by (induction s current ms rule: resolve_links_loop.induct)
    (simp add: resolve_links_loop.simps[of s'] resolve_links_loop.simps split: sum.splits)

lemma resolveToolPath_content:
  assumes "nodes s t = Some (Regular c tm m)"
  shows "resolveToolPath (set_node s t (Some (Regular c' tm' m'))) wd p = resolveToolPath s wd p"
proof -
  let ?s = "set_node s t (Some (Regular c' tm' m'))"
  have "namei (nodes ?s) fl n d cs = namei (nodes s) fl n d cs" for fl n d cs
    by (rule namei_shape) (simp add: assms)
  then have e: "EvalSymlinks ?s x = EvalSymlinks s x" for x
    by (simp add: EvalSymlinks_def check_fault_def from_cwd_def del: fun_upd_apply split: option.split)
  have eq: "EvalSymlinks ?s = EvalSymlinks s" "Abs ?s = Abs s"
    "resolvePathWithSymlinks ?s = resolvePathWithSymlinks s"
    using e resolve_links_loop_cong[OF e] by (auto simp: Abs_def resolvePathWithSymlinks_def)
  show ?thesis unfolding resolveToolPath_def eq ..
qed

lemma run_planEdits:
  assumes wf: "wf_nodes (nodes (disk st))" and run: "run_plan opt st (planEdits opt st p es) = (Inr k, st')"
  obtains t c c' tm m where "resolveToolPath (disk st) (workingDir opt) p = Inr (abs_path t)"
    "list_all name_ok t" "nodes (disk st) t = Some (Regular c tm m)"
    "edits_loop (abs_path t) 1 (length es) es c 0 = Inr (c', k)"
    "disk st' = set_node (disk st) t (Some (Regular c' (clock (disk st)) m))"
proof -
  obtain ch where ch: "planEdits opt st p es = Inr (ch, k)" "applyChange opt ch st = (None, st')"
    using run by (auto simp: run_plan_def split: sum.splits prod.splits option.splits)
  obtain old nd where o: "resolveToolPath (disk st) (workingDir opt) p = Inr (path ch)"
    "stat (disk st) (path ch) = Inr nd" "read_file (disk st) (path ch) = Inr old" "existed ch" "perm ch = node_perm nd"
    "edits_loop (path ch) 1 (length es) es old 0 = Inr (after ch, k)"
    by (rule planEdits_Inr[OF ch(1)])
  obtain t where t: "path ch = abs_path t" "resolved (nodes (disk st)) t"
    using resolveToolPath_resolved[OF wf o(1)] by metis
  have ok: "list_all name_ok t" and nl: "no_live_link (nodes (disk st)) t"
    using t(2) resolved_no_live_link[OF wf t(2)] by (auto simp: resolved_def)
  obtain tm m where c: "nodes (disk st) t = Some (Regular old tm m)"
    using read_file_node[OF wf ok nl] o(3) t(1) by metis
  have "nd = Regular old tm m" using stat_node(1)[OF wf ok nl] o(2) t(1) c by simp
  then have pm: "perm ch = m" using o(5) by (simp add: node_perm_def)
  obtain s1 where "change_effect opt st ch True st' t s1" using applyChange_effect[OF wf t ch(2)] by auto
  then have "disk st' = set_node (disk st) t (Some (Regular (after ch) (clock (disk st)) m))"
    using o(4) pm by (simp add: change_effect_def)
  then show ?thesis using that[of t old tm m "after ch"] o(1,6) t(1) ok c by simp
qed

lemma edit_step:
  assumes wf: "wf_nodes (nodes (disk st))" and run: "edit opt st p e = (Inr k, st')"
  obtains t c c' tm m where "resolveToolPath (disk st) (workingDir opt) p = Inr (abs_path t)"
    "list_all name_ok t" "nodes (disk st) t = Some (Regular c tm m)" "applyEdit c e (abs_path t) = Inr (c', k)"
    "disk st' = set_node (disk st) t (Some (Regular c' (clock (disk st)) m))"
proof -
  have "run_plan opt st (planEdits opt st p [e]) = (Inr k, st')"
    using run by (auto simp: edit_def plan_edit_def run_plan_def split: if_splits)
  then show ?thesis
    by (rule run_planEdits[OF wf]) (rule that, auto split: sum.splits)
qed

lemma run_edits_fold:
  assumes "run_edits opt st p es = (Inr n, st2)" "wf_nodes (nodes (disk st))"
    "resolveToolPath (disk st) (workingDir opt) p = Inr (abs_path t)" "list_all name_ok t"
    "nodes (disk st) t = Some (Regular c tm m)"
  shows "\<exists>c'. (\<forall>i l k. edits_loop (abs_path t) i l es c k = Inr (c', k + n)) \<and>
    disk st2 = (if es = [] then disk st else set_node (disk st) t (Some (Regular c' (clock (disk st)) m)))"
  using assms
proof (induction es arbitrary: st n c tm)
  case (Cons e es)
  obtain k1 st1 n1 where e: "edit opt st p e = (Inr k1, st1)" and rest: "run_edits opt st1 p es = (Inr n1, st2)"
      and n: "n = k1 + n1"
    using Cons.prems(1) by (auto split: prod.splits sum.splits)
  obtain t' c0 c1 tm0 m0 where t': "resolveToolPath (disk st) (workingDir opt) p = Inr (abs_path t')"
    "list_all name_ok t'" "nodes (disk st) t' = Some (Regular c0 tm0 m0)" "applyEdit c0 e (abs_path t') = Inr (c1, k1)"
    "disk st1 = set_node (disk st) t' (Some (Regular c1 (clock (disk st)) m0))"
    by (rule edit_step[OF Cons.prems(2) e])
  have [simp]: "t' = t" using t'(1,2) Cons.prems(3,4) by (simp add: abs_path_inj)
  have c0: "c0 = c" "m0 = m" using t'(3) Cons.prems(5) by auto
  have "t \<noteq> []" using Cons.prems(2,5) by (auto simp: wf_nodes_def is_folder_iff)
  then have "t = butlast t @ [last t]" by simp
  then have wf1: "wf_nodes (nodes (disk st1))"
    using wf_set_node[of "nodes (disk st)" "butlast t" "last t"] wf_parent[OF Cons.prems(2), of "butlast t" "last t"]
      Cons.prems(2,5) t'(5) by (simp add: is_folder_def)
  have "resolveToolPath (disk st1) (workingDir opt) p = Inr (abs_path t)"
    using resolveToolPath_content[OF Cons.prems(5)] Cons.prems(3) t'(5) by simp
  moreover have "nodes (disk st1) t = Some (Regular c1 (clock (disk st)) m)" using t'(5) c0 by simp
  ultimately obtain c' where c': "\<forall>i l k. edits_loop (abs_path t) i l es c1 k = Inr (c', k + n1)"
    "disk st2 = (if es = [] then disk st1 else set_node (disk st1) t (Some (Regular c' (clock (disk st1)) m)))"
    using Cons.IH[OF rest wf1 _ Cons.prems(4)] by blast
  have "disk st2 = set_node (disk st) t (Some (Regular c' (clock (disk st)) m))"
  proof (cases "es = []")
    case True
    then have "c1 = c'" using c'(1) by simp
    then show ?thesis using True c'(2) t'(5) c0 by simp
  next
    case False
    then show ?thesis using c'(2) t'(5) by (simp add: with_temp_def)
  qed
  then show ?case using c'(1) t'(4) c0 n by (intro exI[of _ c']) (simp add: add.assoc)
qed simp



end
