(* ===== verification/File_History.thy ===== *)
theory File_History
  imports File_Edits
begin

section \<open>No tool overwrites what the model has not seen\<close>

text \<open>
  A history of the tools of one agent, with a tracker: calls of the writing tools, reads, resets of
  the tracker, and changes other programs make to the disk. Beside the state goes \<open>known\<close>, the
  content each file had when a tool last read or wrote it. A change from outside gives a file it
  writes the current time, and time passes between two steps; a program that keeps the old
  modification time and size of a file it changed deceives the tracker, and is left out.
\<close>

type_synonym known = "string \<Rightarrow> string option"

definition tick_clock :: "file_state \<Rightarrow> file_state" where
  "tick_clock st = st\<lparr>disk := (disk st)\<lparr>clock := Suc (clock (disk st))\<rparr>\<rparr>"

text \<open>A file of the new disk is one of the old disk, or was written at the given time.\<close>

definition outside_change :: "(string list \<Rightarrow> node option) \<Rightarrow> (string list \<Rightarrow> node option) \<Rightarrow> nat \<Rightarrow> bool" where
  "outside_change ns ns' now \<longleftrightarrow> wf_nodes ns' \<and>
     (\<forall>q t tm m. ns' q = Some (Regular t tm m) \<longrightarrow> tm = now \<or> (\<exists>m'. ns q = Some (Regular t tm m')))"

inductive file_step :: "tool_options \<Rightarrow> file_state \<times> known \<Rightarrow> file_state \<times> known \<Rightarrow> bool" for opt where
  call_done: "call_change opt (tick_clock st) c = Inr ch \<Longrightarrow> run_file_call opt (tick_clock st) c = (Inr n, st') \<Longrightarrow>
     file_step opt (st, k) (st', k(path ch \<mapsto> after ch))"
| call_failed: "run_file_call opt (tick_clock st) c = (Inl e, st') \<Longrightarrow> file_step opt (st, k) (st', k)"
| read_done: "read_tool opt (tick_clock st) p off lim = (Inr out, st') \<Longrightarrow>
     resolveReadPath (disk st) (workingDir opt) (readRoots opt) p = Inr q \<Longrightarrow> read_file (disk st) q = Inr content \<Longrightarrow>
     file_step opt (st, k) (st', k(q \<mapsto> content))"
| read_failed: "read_tool opt (tick_clock st) p off lim = (Inl e, st') \<Longrightarrow> file_step opt (st, k) (st', k)"
| reset: "file_step opt (st, k) (Reset st, k)"
| outside: "outside_change (nodes (disk st)) ns (Suc (clock (disk st))) \<Longrightarrow>
     file_step opt (st, k) ((tick_clock st)\<lparr>disk := (disk (tick_clock st))\<lparr>nodes := ns\<rparr>\<rparr>, k)"

definition past :: "fs \<Rightarrow> bool" where
  "past s \<longleftrightarrow> (\<forall>q t tm m. nodes s q = Some (Regular t tm m) \<longrightarrow> tm \<le> clock s)"

inductive file_reachable :: "tool_options \<Rightarrow> file_state \<times> known \<Rightarrow> bool" for opt where
  start: "wf_nodes (nodes (disk st)) \<Longrightarrow> past (disk st) \<Longrightarrow> seen st = NewReadTracker \<Longrightarrow>
     file_reachable opt (st, k)"
| step: "file_reachable opt h \<Longrightarrow> file_step opt h h' \<Longrightarrow> file_reachable opt h'"

text \<open>A file that still has the stamp the tracker holds has the content that is known of it.\<close>

definition stamps_known :: "file_state \<Rightarrow> known \<Rightarrow> bool" where
  "stamps_known st k \<longleftrightarrow>
     (\<forall>t tm len. list_all name_ok t \<longrightarrow> seen st (abs_path t) = Some (tm, len) \<longrightarrow> tm \<le> clock (disk st) \<and>
        (\<forall>c m. nodes (disk st) t = Some (Regular c tm m) \<longrightarrow> length c = len \<longrightarrow> k (abs_path t) = Some c))"

definition history_inv :: "file_state \<times> known \<Rightarrow> bool" where
  "history_inv h \<longleftrightarrow> wf_nodes (nodes (disk (fst h))) \<and> past (disk (fst h)) \<and> stamps_known (fst h) (snd h)"

lemma tick_clock_simps [simp]:
  "nodes (disk (tick_clock st)) = nodes (disk st)" "seen (tick_clock st) = seen st"
  "clock (disk (tick_clock st)) = Suc (clock (disk st))" "hooked (tick_clock st) = hooked st"
  "cwd (disk (tick_clock st)) = cwd (disk st)" "fault (disk (tick_clock st)) = fault (disk st)"
  by (simp_all add: tick_clock_def)

lemma tick_clock_paths [simp]:
  "resolveReadPath (disk (tick_clock st)) = resolveReadPath (disk st)"
  "read_file (disk (tick_clock st)) = read_file (disk st)"
  "stat (disk (tick_clock st)) = stat (disk st)"
proof -
  have e: "EvalSymlinks (disk (tick_clock st)) x = EvalSymlinks (disk st) x" for x
    by (simp add: EvalSymlinks_def check_fault_def from_cwd_def split: option.split)
  have eq: "EvalSymlinks (disk (tick_clock st)) = EvalSymlinks (disk st)" "Abs (disk (tick_clock st)) = Abs (disk st)"
    "resolvePathWithSymlinks (disk (tick_clock st)) = resolvePathWithSymlinks (disk st)"
    using e resolve_links_loop_cong[OF e] by (auto simp: Abs_def resolvePathWithSymlinks_def)
  have "resolveToolPath (disk (tick_clock st)) wd x = resolveToolPath (disk st) wd x" for wd x
    unfolding resolveToolPath_def eq ..
  then have tool: "resolveToolPath (disk (tick_clock st)) = resolveToolPath (disk st)" by (intro ext)
  show "resolveReadPath (disk (tick_clock st)) = resolveReadPath (disk st)"
    unfolding resolveReadPath_def tool ..
  have "read_file (disk (tick_clock st)) x = read_file (disk st) x" "stat (disk (tick_clock st)) x = stat (disk st) x" for x
    unfolding read_file_def stat_def check_fault_def from_cwd_def tick_clock_simps by (rule refl)+
  then show "read_file (disk (tick_clock st)) = read_file (disk st)" "stat (disk (tick_clock st)) = stat (disk st)"
    by (intro ext; simp)+
qed

lemma resolveReadPath_resolved:
  assumes "wf_nodes (nodes s)" "resolveReadPath s wd roots p = Inr r"
  obtains t where "r = abs_path t" "resolved (nodes s) t"
proof -
  have "\<exists>root. resolveToolPath s root p = Inr x" if "first_root (\<lambda>root. resolveToolPath s root p) roots = Some x" for x
    using that by (induction roots) (auto split: sum.splits)
  then obtain root where "resolveToolPath s root p = Inr r"
    using assms(2) by (auto simp: resolveReadPath_def split: sum.splits file_err.splits option.splits)
  then show ?thesis using resolveToolPath_resolved[OF assms(1)] that by metis
qed

lemma grown_regular:
  "grown ns ns' d \<Longrightarrow> ns' q = Some (Regular t tm m) \<Longrightarrow> ns q = Some (Regular t tm m)"
  unfolding grown_def is_folder_iff by (metis node.distinct(1) option.inject)

lemma call_failed_inv:
  assumes inv: "history_inv (st, k)" and run: "run_file_call opt (tick_clock st) c = (Inl e, st')"
  shows "history_inv (st', k)"
proof (cases "call_change opt (tick_clock st) c")
  case (Inl x)
  then show ?thesis using run_file_call_refused[OF run] inv
    by (fastforce simp: history_inv_def past_def stamps_known_def)
next
  case (Inr ch)
  obtain t s1 where "call_effect opt (tick_clock st) c ch (Inl e) st' t s1"
    by (rule run_file_call_effect[OF _ run Inr]) (use inv in \<open>simp add: history_inv_def\<close>)
  then have s1: "wf_nodes (nodes s1)" "grown (nodes (disk st)) (nodes s1) (butlast t)" "disk st' = s1" "seen st' = seen st"
    "clock s1 = Suc (clock (disk st))"
    using same_env_fields[of "disk (tick_clock st)" s1] by (auto simp: call_effect_def change_effect_def)
  show ?thesis
    using inv s1 grown_regular[OF s1(2)] by (fastforce simp: history_inv_def past_def stamps_known_def)
qed

lemma call_done_inv:
  assumes inv: "history_inv (st, k)" and ch: "call_change opt (tick_clock st) c = Inr ch"
    and run: "run_file_call opt (tick_clock st) c = (Inr n, st')"
  shows "history_inv (st', k(path ch \<mapsto> after ch))"
proof -
  obtain t s1 where "call_effect opt (tick_clock st) c ch (Inr n) st' t s1"
    by (rule run_file_call_effect[OF _ run ch]) (use inv in \<open>simp add: history_inv_def\<close>)
  then have p: "path ch = abs_path t" and ok: "list_all name_ok t"
    and s1: "wf_nodes (nodes s1)" "grown (nodes (disk st)) (nodes s1) (butlast t)" "clock s1 = Suc (clock (disk st))"
    and t: "t \<noteq> []" "is_folder (nodes s1) (butlast t)" "\<not> is_folder (nodes s1) t"
    and d: "disk st' = with_temp s1 t (Regular (after ch) (Suc (clock (disk st))) (perm ch))"
    and sn: "seen st' = seen (tracker_record opt ((tick_clock st)\<lparr>disk := disk st'\<rparr>) (abs_path t))"
    using same_env_fields[of "disk (tick_clock st)" s1]
    by (auto simp: call_effect_def change_effect_def resolved_def)
  have wf: "wf_nodes (nodes (disk st'))"
    using wf_set_node[OF s1(1) t(2), of "last t"] t ok d by (simp add: list_all_iff)
  have nt: "nodes (disk st') t = Some (Regular (after ch) (Suc (clock (disk st))) (perm ch))" using d by simp
  have stat: "nd = Regular (after ch) (Suc (clock (disk st))) (perm ch)" if "stat (disk st') (abs_path t) = Inr nd" for nd
    using that namei_existing[OF wf nt] nt ok
    by (auto simp: stat_def check_fault_def is_link_def split: option.splits)
  have seen: "seen st' = seen st \<or> seen st' = (seen st)(abs_path t \<mapsto> (Suc (clock (disk st)), length (after ch)))"
    using sn stat by (auto simp: tracker_record_def node_stamp_def split: sum.splits if_splits)
  have old: "nodes (disk st) q = Some (Regular x tm m)" if "nodes (disk st') q = Some (Regular x tm m)" "q \<noteq> t" for q x tm m
    using grown_regular[OF s1(2)] that d by simp
  have "past (disk st')"
    unfolding past_def
  proof (intro allI impI)
    fix q x tm m assume q: "nodes (disk st') q = Some (Regular x tm m)"
    show "tm \<le> clock (disk st')"
    proof (cases "q = t")
      case False
      then have "tm \<le> clock (disk st)" using old[OF q] inv unfolding history_inv_def past_def by fastforce
      then show ?thesis using d s1(3) by simp
    qed (use q nt d s1(3) in auto)
  qed
  moreover have "stamps_known st' (k(path ch \<mapsto> after ch))"
    unfolding stamps_known_def
  proof (intro allI impI)
    fix q tm len assume q: "list_all name_ok q" "seen st' (abs_path q) = Some (tm, len)"
    have clk: "clock (disk st') = Suc (clock (disk st))" using d s1(3) by simp
    show "tm \<le> clock (disk st') \<and> (\<forall>c m. nodes (disk st') q = Some (Regular c tm m) \<longrightarrow> length c = len \<longrightarrow>
        (k(path ch \<mapsto> after ch)) (abs_path q) = Some c)"
    proof (cases "q = t")
      case True
      have "tm \<le> Suc (clock (disk st))"
        using seen q True inv unfolding history_inv_def stamps_known_def by (fastforce simp: le_SucI)
      then show ?thesis using True nt p clk by simp
    next
      case False
      then have ne: "abs_path q \<noteq> abs_path t" using q(1) ok by (simp add: abs_path_inj)
      then have "seen st (abs_path q) = Some (tm, len)" using seen q(2) by auto
      then have "tm \<le> clock (disk st) \<and> (\<forall>c m. nodes (disk st) q = Some (Regular c tm m) \<longrightarrow> length c = len \<longrightarrow>
          k (abs_path q) = Some c)"
        using inv q(1) unfolding history_inv_def stamps_known_def by simp
      then show ?thesis using old False ne p clk by (auto simp: le_SucI)
    qed
  qed
  ultimately show ?thesis using wf by (simp add: history_inv_def)
qed


lemma read_inv:
  assumes inv: "history_inv (st, k)" and run: "read_tool opt (tick_clock st) p off lim = (Inr out, st')"
    and q: "resolveReadPath (disk st) (workingDir opt) (readRoots opt) p = Inr q" "read_file (disk st) q = Inr content"
  shows "history_inv (st', k(q \<mapsto> content))"
proof -
  have wf: "wf_nodes (nodes (disk st))" using inv by (simp add: history_inv_def)
  obtain t where t: "q = abs_path t" "resolved (nodes (disk st)) t" by (rule resolveReadPath_resolved[OF wf q(1)])
  have ok: "list_all name_ok t" and nl: "no_live_link (nodes (disk st)) t"
    using t(2) resolved_no_live_link[OF wf t(2)] by (auto simp: resolved_def)
  obtain tm m where c: "nodes (disk st) t = Some (Regular content tm m)"
    by (rule read_file_node[OF wf ok nl q(2)[unfolded t(1)]])
  have st': "st' = tracker_record opt (tick_clock st) q"
    using run q by (auto simp: read_tool_def Let_def split: if_splits sum.splits node.splits)
  have "nd = Regular content tm m" if "stat (disk st) (abs_path t) = Inr nd" for nd
    using stat_node(1)[OF wf ok nl that] c by simp
  then have seen: "seen st' = seen st \<or> seen st' = (seen st)(abs_path t \<mapsto> (tm, length content))"
    and d: "disk st' = disk (tick_clock st)"
    using st' t(1) by (auto simp: tracker_record_def node_stamp_def split: sum.splits if_splits)
  have tm: "tm \<le> clock (disk st)" using inv c by (auto simp: history_inv_def past_def)
  have "stamps_known st' (k(q \<mapsto> content))"
    unfolding stamps_known_def
  proof (intro allI impI)
    fix x tm' len assume x: "list_all name_ok x" "seen st' (abs_path x) = Some (tm', len)"
    show "tm' \<le> clock (disk st') \<and> (\<forall>c m. nodes (disk st') x = Some (Regular c tm' m) \<longrightarrow> length c = len \<longrightarrow>
        (k(q \<mapsto> content)) (abs_path x) = Some c)"
    proof (cases "x = t")
      case True
      have "tm' \<le> Suc (clock (disk st))"
        using seen x True tm inv unfolding history_inv_def stamps_known_def by (fastforce simp: le_SucI)
      then show ?thesis using True c t(1) d by simp
    next
      case False
      then have ne: "abs_path x \<noteq> abs_path t" using x(1) ok by (simp add: abs_path_inj)
      then have "seen st (abs_path x) = Some (tm', len)" using seen x(2) by auto
      then have "tm' \<le> clock (disk st) \<and> (\<forall>c m. nodes (disk st) x = Some (Regular c tm' m) \<longrightarrow> length c = len \<longrightarrow>
          k (abs_path x) = Some c)"
        using inv x(1) unfolding history_inv_def stamps_known_def by simp
      then show ?thesis using ne t(1) d by (simp add: le_SucI)
    qed
  qed
  moreover have "past (disk st')" using inv d unfolding history_inv_def past_def by (simp add: le_SucI)
  ultimately show ?thesis using wf d by (simp add: history_inv_def)
qed

lemma read_failed_unchanged: "read_tool opt st p off lim = (Inl e, st') \<Longrightarrow> st' = st"
  by (auto simp: read_tool_def Let_def split: if_splits sum.splits node.splits)

lemma tick_inv: "history_inv (st, k) \<Longrightarrow> history_inv (tick_clock st, k)"
  unfolding history_inv_def past_def stamps_known_def by (simp add: le_SucI)

lemma outside_inv:
  assumes inv: "history_inv (st, k)" and out: "outside_change (nodes (disk st)) ns (Suc (clock (disk st)))"
  shows "history_inv ((tick_clock st)\<lparr>disk := (disk (tick_clock st))\<lparr>nodes := ns\<rparr>\<rparr>, k)"
proof -
  let ?st = "(tick_clock st)\<lparr>disk := (disk (tick_clock st))\<lparr>nodes := ns\<rparr>\<rparr>"
  have old: "tm = Suc (clock (disk st)) \<or> (\<exists>m'. nodes (disk st) q = Some (Regular t tm m'))"
    if "ns q = Some (Regular t tm m)" for q t tm m
    using out that unfolding outside_change_def by blast
  have "past (disk ?st)"
    using old inv unfolding history_inv_def past_def by (fastforce simp: le_SucI)
  moreover have "stamps_known ?st k"
    unfolding stamps_known_def
  proof (intro allI impI)
    fix x tm len assume x: "list_all name_ok x" "seen ?st (abs_path x) = Some (tm, len)"
    then have "tm \<le> clock (disk st) \<and> (\<forall>c m. nodes (disk st) x = Some (Regular c tm m) \<longrightarrow> length c = len \<longrightarrow>
          k (abs_path x) = Some c)"
      using inv unfolding history_inv_def stamps_known_def by simp
    then show "tm \<le> clock (disk ?st) \<and> (\<forall>c m. nodes (disk ?st) x = Some (Regular c tm m) \<longrightarrow> length c = len \<longrightarrow>
        k (abs_path x) = Some c)"
      using old[of x] by fastforce
  qed
  ultimately show ?thesis using out by (simp add: history_inv_def outside_change_def)
qed

lemma reset_inv: "history_inv (st, k) \<Longrightarrow> history_inv (Reset st, k)"
  unfolding history_inv_def stamps_known_def by (simp add: Reset_def NewReadTracker_def)

lemma file_step_inv: "file_step opt h h' \<Longrightarrow> history_inv h \<Longrightarrow> history_inv h'"
proof (induction rule: file_step.induct)
  case (read_failed st p off lim e st' k)
  then show ?case using read_failed_unchanged tick_inv by blast
qed (auto intro: call_done_inv call_failed_inv read_inv outside_inv reset_inv)

lemma file_reachable_inv: "file_reachable opt h \<Longrightarrow> history_inv h"
proof (induction rule: file_reachable.induct)
  case (start st k)
  then show ?case by (simp add: history_inv_def stamps_known_def NewReadTracker_def)
qed (blast intro: file_step_inv)


text \<open>A history for the witness: a file of the demo disk is read, and then replaced.\<close>

definition demo_start :: file_state where
  "demo_start = demo_state\<lparr>seen := NewReadTracker\<rparr>"

definition demo_after_read :: file_state where
  "demo_after_read = snd (read_tool demo_options (tick_clock demo_start) ''/w/f'' 0 0)"

lemma demo_read_reachable: "file_reachable demo_options (demo_after_read, [''/w/f'' \<mapsto> ''abc''])"
proof (rule file_reachable.step)
  show "file_reachable demo_options (demo_start, Map.empty)"
    by (rule file_reachable.start; simp add: demo_start_def demo_state_def demo_wf past_def)
      (auto simp: demo_disk_def split: if_splits)
  have "\<not> isl (fst (read_tool demo_options (tick_clock demo_start) ''/w/f'' 0 0))" by code_simp
  then obtain out where out: "fst (read_tool demo_options (tick_clock demo_start) ''/w/f'' 0 0) = Inr out"
    by (cases "fst (read_tool demo_options (tick_clock demo_start) ''/w/f'' 0 0)") auto
  have "read_tool demo_options (tick_clock demo_start) ''/w/f'' 0 0 = (Inr out, demo_after_read)"
    using out by (simp add: demo_after_read_def prod_eq_iff)
  moreover have "resolveReadPath (disk demo_start) (workingDir demo_options) (readRoots demo_options) ''/w/f'' = Inr ''/w/f''"
    by code_simp
  moreover have "read_file (disk demo_start) ''/w/f'' = Inr ''abc''" by code_simp
  ultimately show "file_step demo_options (demo_start, Map.empty) (demo_after_read, [''/w/f'' \<mapsto> ''abc''])"
    by (rule file_step.read_done)
qed


end
