(* ===== verification/File_Search.thy ===== *)
theory File_Search
  imports File_Read Text_Render "HOL-Library.List_Lexorder" "HOL-Library.Char_ord" "HOL-Library.Product_Lexorder"
begin

section \<open>Searching files: glob and grep\<close>

text \<open>
  \<open>tool/file/match.go\<close>, \<open>walk.go\<close>, \<open>glob.go\<close> and \<open>grep.go\<close>. A glob pattern becomes a regular expression
  (\<open>glob_loop\<close>); what \<open>regexp.Compile\<close> makes of a text, an error or a matcher, is a parameter, as \<open>grep\<close>
  takes any expression. The searched file system is a tree of named entries in the order
  \<open>os.ReadDir\<close> gives them, by name (\<open>dtree\<close>); \<open>disk_of\<close> is the same file system as the other file tools
  see it, links included. \<open>walk\<close> is \<open>filepath.WalkDir\<close> with the callbacks of \<open>walkSearch\<close>: it collects
  the files given to \<open>fn\<close>, in order, and passes the ignore rules loaded so far along.
\<close>

subsection \<open>Glob patterns\<close>

record regex =
  rx_match :: "string \<Rightarrow> bool"
  rx_all :: "string \<Rightarrow> (nat \<times> nat) list"

type_synonym regexp = "string \<Rightarrow> string + regex"

definition backslash :: char where "backslash = CHR 0x5C"

text \<open>\<open>regexp.QuoteMeta\<close>, \<open>strings.IndexByte\<close>, and \<open>string(ch)\<close> of a byte, which is a rune's text.\<close>

definition QuoteMeta :: "string \<Rightarrow> string" where
  "QuoteMeta s = concat (map (\<lambda>c. if c = backslash \<or> c \<in> set ''.+*?()|[]{}^$'' then [backslash, c] else [c]) s)"

definition index_byte :: "string \<Rightarrow> char \<Rightarrow> nat option" where
  "index_byte s c = (let n = length (takeWhile (\<lambda>d. d \<noteq> c) s) in if n < length s then Some n else None)"

definition byte_rune :: "char \<Rightarrow> string" where
  "byte_rune c = (if byte c < 128 then [c] else [char_of (192 + byte c div 64), char_of (128 + byte c mod 64)])"

definition glob_class :: "string \<Rightarrow> string" where
  "glob_class cls = ''['' @ (if has_prefix cls ''!'' then ''^'' @ drop 1 cls else cls) @ '']''"

definition glob_alternatives :: "string \<Rightarrow> string" where
  "glob_alternatives inner = ''(?:'' @ go_join (map QuoteMeta (go_split inner '','')) ''|'' @ '')''"

function glob_loop :: "string \<Rightarrow> string" where
  "glob_loop [] = []"
| "glob_loop (c # s) =
     (if c = CHR ''*'' then
        (if has_prefix s ''*'' then
           (if has_prefix (drop 1 s) ''/'' then ''(?:.*/)?'' @ glob_loop (drop 2 s)
            else ''.*'' @ glob_loop (drop 1 s))
         else ''[^/]*'' @ glob_loop s)
      else if c = CHR ''?'' then ''[^/]'' @ glob_loop s
      else if c \<in> set ''.+()^$|'' then [backslash, c] @ glob_loop s
      else if c = CHR ''{'' then
        (case index_byte s (CHR ''}'') of
           None \<Rightarrow> [backslash, c] @ glob_loop s
         | Some closeIdx \<Rightarrow> glob_alternatives (take closeIdx s) @ glob_loop (drop (Suc closeIdx) s))
      else if c = CHR ''['' then
        (case index_byte s (CHR '']'') of
           None \<Rightarrow> [backslash, c] @ glob_loop s
         | Some closeIdx \<Rightarrow> glob_class (take closeIdx s) @ glob_loop (drop (Suc closeIdx) s))
      else if c = CHR ''/'' then ''/'' @ glob_loop s
      else QuoteMeta (byte_rune c) @ glob_loop s)"
  by pat_completeness auto
termination by (relation "measure length") auto

declare glob_loop.simps [simp del]

definition compileGlobMatcher :: "regexp \<Rightarrow> string \<Rightarrow> file_err + regex" where
  "compileGlobMatcher rxp pattern =
     (let p = trim_space pattern in
      if p = [] then Inl ErrPatternRequired
      else case rxp (''^'' @ glob_loop p @ ''$'') of
          Inl e \<Rightarrow> Inl (Errorf (''compile glob regex: '' @ e))
        | Inr re \<Rightarrow> Inr re)"

subsection \<open>Where a search starts\<close>

definition resolveSearchRoot :: "fs \<Rightarrow> string \<Rightarrow> string \<Rightarrow> file_err + string" where
  "resolveSearchRoot s wd inputPath =
     (if blank inputPath then (if blank wd then Inr (cwd s) else Inr (Abs s (Clean wd)))
      else
        (let candidate = Clean inputPath;
             candidate' = (if IsAbs candidate then candidate else Join [if blank wd then cwd s else wd, candidate]);
             absCandidate = Abs s candidate'
         in if blank wd then Inr absCandidate
            else case EvalSymlinks s (Abs s (Clean wd)) of
                Inl e \<Rightarrow> Inl (OsError e)
              | Inr resolvedWorkingDir \<Rightarrow>
                  (case resolvePathWithSymlinks s absCandidate of
                     Inl e \<Rightarrow> Inl (OsError e)
                   | Inr resolvedCandidate \<Rightarrow>
                       if outside (Rel resolvedWorkingDir resolvedCandidate) then Inl ErrPathOutsideWorkingDirectory
                       else Inr resolvedCandidate)))"

definition resolveSearchRootIn :: "fs \<Rightarrow> string \<Rightarrow> string list \<Rightarrow> string \<Rightarrow> file_err + string" where
  "resolveSearchRootIn s wd roots inputPath =
     (case resolveSearchRoot s wd inputPath of
        Inl ErrPathOutsideWorkingDirectory \<Rightarrow>
          if \<not> IsAbs (Clean inputPath) then Inl ErrPathOutsideWorkingDirectory
          else (case first_root (\<lambda>r. resolveSearchRoot s r inputPath) roots of
              Some inRoot \<Rightarrow> Inr inRoot
            | None \<Rightarrow> Inl ErrPathOutsideWorkingDirectory)
      | r \<Rightarrow> r)"

definition normalizeRelativePath :: "string \<Rightarrow> string \<Rightarrow> string" where
  "normalizeRelativePath root fullPath = Rel root fullPath"

subsection \<open>Ignore rules\<close>

definition binarySniffLen :: nat where "binarySniffLen = 8000"
definition gitDir :: string where "gitDir = ''.git''"
definition skippedDirs :: "string list" where "skippedDirs = [gitDir, ''.hg'', ''.svn'', ''node_modules'']"

record ignore_rule =
  ir_re :: regex
  ir_negate :: bool
  ir_dirOnly :: bool

text \<open>\<open>bufio.Scanner\<close>: lines without their end, up to the first that does not fit its buffer.\<close>

definition maxScanToken :: nat where "maxScanToken = 64 * 1024"

definition scan_lines :: "string \<Rightarrow> string list" where
  "scan_lines s =
     (let ls = go_split s linefeed; lines = (if last ls = [] then butlast ls else ls)
      in map strip_cr (takeWhile (\<lambda>l. length l < maxScanToken) lines))"

definition gitignore_rule :: "regexp \<Rightarrow> string \<Rightarrow> ignore_rule option" where
  "gitignore_rule rxp text_line =
     (let line = drop_while_end (\<lambda>c. c = CHR '' '' \<or> c = CHR 0x09) text_line in
      if line = [] \<or> has_prefix line ''#'' then None
      else
        (let negate = has_prefix line ''!'';
             line1 = trim_prefix (if negate then drop 1 line else line) [backslash];
             dirOnly = has_suffix line1 ''/'';
             line2 = trim_suffix line1 ''/'';
             line3 = (if go_contains line2 ''/'' then trim_prefix line2 ''/'' else ''**/'' @ line2)
         in case compileGlobMatcher rxp line3 of
              Inl e \<Rightarrow> None
            | Inr re \<Rightarrow> Some \<lparr>ir_re = re, ir_negate = negate, ir_dirOnly = dirOnly\<rparr>))"

definition gitignore_rules :: "regexp \<Rightarrow> string \<Rightarrow> ignore_rule list" where
  "gitignore_rules rxp content = List.map_filter (gitignore_rule rxp) (scan_lines content)"

definition parseGitignore :: "regexp \<Rightarrow> fs \<Rightarrow> string \<Rightarrow> ignore_rule list" where
  "parseGitignore rxp s fpath = (case read_file s fpath of Inl e \<Rightarrow> [] | Inr content \<Rightarrow> gitignore_rules rxp content)"

record ignorer =
  ig_rules :: "string \<Rightarrow> ignore_rule list option"
  ig_top :: string

text \<open>A directory and those above it, up to \<open>ig.top\<close> or the root.\<close>

function dirs_up :: "string \<Rightarrow> string \<Rightarrow> string list" where
  "dirs_up tp dir = dir # (if dir = tp \<or> Dir dir = dir then [] else dirs_up tp (Dir dir))"
  by pat_completeness auto
termination by (relation "measure (\<lambda>(tp, dir). path_height dir)") (auto simp: Dir_lower)

declare dirs_up.simps [simp del]

function git_root :: "fs \<Rightarrow> string \<Rightarrow> string option" where
  "git_root s dir =
     (case stat s (Join [dir, gitDir]) of
        Inr nd \<Rightarrow> Some dir
      | Inl e \<Rightarrow> if Dir dir = dir then None else git_root s (Dir dir))"
  by pat_completeness auto
termination by (relation "measure (\<lambda>(s, dir). path_height dir)") (auto simp: Dir_lower)

declare git_root.simps [simp del]

definition ig_load :: "regexp \<Rightarrow> fs \<Rightarrow> string \<Rightarrow> ignorer \<Rightarrow> ignorer" where
  "ig_load rxp s dir ig =
     (if ig_rules ig dir \<noteq> None then ig
      else ig\<lparr>ig_rules := (ig_rules ig)(dir \<mapsto> parseGitignore rxp s (Join [dir, ''.gitignore'']))\<rparr>)"

definition newIgnorer :: "regexp \<Rightarrow> fs \<Rightarrow> string \<Rightarrow> ignorer" where
  "newIgnorer rxp s root =
     (let tp = (case git_root s root of Some dir \<Rightarrow> dir | None \<Rightarrow> root)
      in fold (ig_load rxp s) (dirs_up tp root) \<lparr>ig_rules = (\<lambda>_. None), ig_top = tp\<rparr>)"

definition apply_rule :: "string \<Rightarrow> bool \<Rightarrow> ignore_rule \<Rightarrow> bool \<Rightarrow> bool" where
  "apply_rule rel isDir rule ignored =
     (if (\<not> ir_dirOnly rule \<or> isDir) \<and> rx_match (ir_re rule) rel then \<not> ir_negate rule else ignored)"

definition ig_ignored :: "ignorer \<Rightarrow> string \<Rightarrow> bool \<Rightarrow> bool" where
  "ig_ignored ig fpath isDir =
     fold (\<lambda>dir ignored. fold (apply_rule (Rel dir fpath) isDir) (case ig_rules ig dir of Some rs \<Rightarrow> rs | None \<Rightarrow> []) ignored)
       (rev (dirs_up (ig_top ig) (Dir fpath))) False"

text \<open>A nil ignorer ignores nothing and loads nothing.\<close>

definition load :: "regexp \<Rightarrow> fs \<Rightarrow> string \<Rightarrow> ignorer option \<Rightarrow> ignorer option" where
  "load rxp s dir ig = map_option (ig_load rxp s dir) ig"

definition ignored :: "ignorer option \<Rightarrow> string \<Rightarrow> bool \<Rightarrow> bool" where
  "ignored ig fpath isDir = (case ig of None \<Rightarrow> False | Some g \<Rightarrow> ig_ignored g fpath isDir)"

subsection \<open>The walk\<close>

datatype dtree = DirT nat "(string \<times> dtree) list" | FileT string nat nat | LinkT string nat

fun tree_node :: "dtree \<Rightarrow> node" where
  "tree_node (DirT mode kids) = Folder mode"
| "tree_node (FileT content tm mode) = Regular content tm mode"
| "tree_node (LinkT target tm) = Symlink target"

fun tree_time :: "dtree \<Rightarrow> nat" where
  "tree_time (DirT mode kids) = 0"
| "tree_time (FileT content tm mode) = tm"
| "tree_time (LinkT target tm) = tm"

fun is_dir :: "dtree \<Rightarrow> bool" where
  "is_dir (DirT mode kids) = True"
| "is_dir _ = False"

fun subtree :: "dtree \<Rightarrow> string list \<Rightarrow> dtree option" where
  "subtree t [] = Some t"
| "subtree (DirT mode kids) (c # cs) = (case map_of kids c of None \<Rightarrow> None | Some k \<Rightarrow> subtree k cs)"
| "subtree _ (c # cs) = None"

definition tree_nodes :: "dtree \<Rightarrow> string list \<Rightarrow> node option" where
  "tree_nodes t q = map_option tree_node (subtree t q)"

text \<open>
  \<open>se_hidden\<close> says which entries of a directory reading it failed to deliver; with an error,
  \<open>os.ReadDir\<close> gives the ones it read.
\<close>

record search_env =
  se_fs :: fs
  se_tree :: dtree
  se_hidden :: "string \<Rightarrow> string \<Rightarrow> bool"
  se_regexp :: regexp

definition disk_of :: "search_env \<Rightarrow> fs" where
  "disk_of env = (se_fs env)\<lparr>nodes := tree_nodes (se_tree env)\<rparr>"

record search_walk =
  sw_root :: string
  sw_workingDir :: string
  sw_readRoots :: "string list"
  sw_noIgnore :: bool

definition enterDir :: "search_env \<Rightarrow> search_walk \<Rightarrow> ignorer option \<Rightarrow> string \<Rightarrow> string \<Rightarrow> ignorer option option" where
  "enterDir env w ig fpath name =
     (if fpath \<noteq> sw_root w \<and>
         (name = gitDir \<or> \<not> sw_noIgnore w \<and> name \<in> set skippedDirs \<or> ignored ig fpath True)
      then None
      else Some (load (se_regexp env) (disk_of env) fpath ig))"

definition skipFile :: "search_env \<Rightarrow> search_walk \<Rightarrow> ignorer option \<Rightarrow> string \<Rightarrow> dtree \<Rightarrow> bool" where
  "skipFile env w ig fpath d =
     (if ignored ig fpath False then True
      else case d of
          LinkT target tm \<Rightarrow>
            sw_workingDir w \<noteq> [] \<and>
            (case resolveReadPath (disk_of env) (sw_workingDir w) (sw_readRoots w) fpath of Inl e \<Rightarrow> True | Inr r \<Rightarrow> False)
        | _ \<Rightarrow> False)"

fun walk :: "search_env \<Rightarrow> search_walk \<Rightarrow> string \<Rightarrow> string \<Rightarrow> dtree \<Rightarrow> ignorer option
      \<Rightarrow> (string \<times> dtree) list \<times> ignorer option"
  and walk_kids :: "search_env \<Rightarrow> search_walk \<Rightarrow> string \<Rightarrow> (string \<times> dtree) list \<Rightarrow> ignorer option
      \<Rightarrow> (string \<times> dtree) list \<times> ignorer option" where
  "walk env w fpath name (DirT mode kids) ig =
     (case enterDir env w ig fpath name of None \<Rightarrow> ([], ig) | Some ig1 \<Rightarrow> walk_kids env w fpath kids ig1)"
| "walk env w fpath name d ig = ((if skipFile env w ig fpath d then [] else [(fpath, d)]), ig)"
| "walk_kids env w fpath [] ig = ([], ig)"
| "walk_kids env w fpath ((n, d) # kids) ig =
     (if se_hidden env fpath n then walk_kids env w fpath kids ig
      else
        (let (found, ig1) = walk env w (Join [fpath, n]) n d ig;
             (rest, ig2) = walk_kids env w fpath kids ig1
         in (found @ rest, ig2)))"

definition walkSearch :: "search_env \<Rightarrow> string \<Rightarrow> string \<Rightarrow> string list \<Rightarrow> bool \<Rightarrow> (string \<times> dtree) list" where
  "walkSearch env root wd roots noIgnored =
     (let w = \<lparr>sw_root = root, sw_workingDir = wd, sw_readRoots = roots, sw_noIgnore = noIgnored\<rparr>;
          s = disk_of env;
          ig = (if noIgnored then None else Some (newIgnorer (se_regexp env) s root))
      in case fault s OpStat root of
           Some e \<Rightarrow> []
         | None \<Rightarrow>
             (case namei (nodes s) False kernel_links [] (from_cwd s root) of
                Inl e \<Rightarrow> []
              | Inr q \<Rightarrow> (case subtree (se_tree env) q of None \<Rightarrow> [] | Some d \<Rightarrow> fst (walk env w root (Base root) d ig))))"

definition isBinary :: "string \<Rightarrow> bool" where
  "isBinary content \<longleftrightarrow> CHR 0x00 \<in> set (take binarySniffLen content)"

subsection \<open>Capping the entries\<close>

fun cap_loop :: "int \<Rightarrow> int \<Rightarrow> string list \<Rightarrow> string list \<times> bool" where
  "cap_loop maxChars used [] = ([], False)"
| "cap_loop maxChars used (entry # entries) =
     (if used + int (length entry) + 1 \<le> maxChars then
        (let (kept, cut) = cap_loop maxChars (used + int (length entry) + 1) entries in (entry # kept, cut))
      else ([], True))"

definition capEntries :: "string list \<Rightarrow> int \<Rightarrow> string list \<times> bool" where
  "capEntries entries maxChars =
     (if maxChars \<le> 0 then (entries, False)
      else case entries of
          [] \<Rightarrow> ([], False)
        | entry # rest \<Rightarrow>
            if int (length entry) + 1 \<le> maxChars then cap_loop maxChars 0 entries
            else ([Head entry maxChars], True))"

subsection \<open>glob\<close>

record glob_output =
  gl_paths :: "string list"
  gl_truncated :: bool

definition glob_entries :: "search_env \<Rightarrow> string \<Rightarrow> regex \<Rightarrow> (string \<times> dtree) list \<Rightarrow> (string \<times> nat) list" where
  "glob_entries env root matcher found =
     map (\<lambda>(fpath, d). (fpath, tree_time d))
       (filter (\<lambda>(fpath, d). rx_match matcher (normalizeRelativePath root fpath) \<and> fault (disk_of env) OpStat fpath = None) found)"

text \<open>The newest first, and by fpath when two are as old.\<close>

definition sort_entries :: "(string \<times> nat) list \<Rightarrow> (string \<times> nat) list" where
  "sort_entries entries = sort_key (\<lambda>(fpath, tm). (- int tm, fpath)) entries"

definition glob :: "search_env \<Rightarrow> tool_options \<Rightarrow> string \<Rightarrow> string \<Rightarrow> file_err + glob_output" where
  "glob env opt pattern fpath =
     (if blank pattern then Inl ErrPatternRequired
      else case resolveSearchRootIn (disk_of env) (workingDir opt) (readRoots opt) fpath of
          Inl e \<Rightarrow> Inl e
        | Inr root \<Rightarrow>
            (case compileGlobMatcher (se_regexp env) pattern of
               Inl e \<Rightarrow> Inl e
             | Inr matcher \<Rightarrow>
                 (let entries = sort_entries (glob_entries env root matcher
                        (walkSearch env root (workingDir opt) (readRoots opt) (noIgnore opt)));
                      truncated = (0 < maxResults opt \<and> maxResults opt < int (length entries));
                      entries' = (if truncated then take (nat (maxResults opt)) entries else entries);
                      (paths, cut) = capEntries (map fst entries') (maxOutput opt)
                  in Inr \<lparr>gl_paths = paths, gl_truncated = truncated \<or> cut\<rparr>)))"

subsection \<open>grep\<close>

record grep_input =
  gi_pattern :: string
  gi_path :: string
  gi_mode :: string
  gi_glob :: string
  gi_type :: string
  gi_I :: bool
  gi_N :: bool
  gi_A :: int
  gi_B :: int
  gi_C :: int
  gi_multiline :: bool
  gi_head_limit :: int

record grep_output =
  gr_output :: "string list"
  gr_truncated :: bool

definition mode_content :: string where "mode_content = ''content''"
definition mode_files :: string where "mode_files = ''files_with_matches''"
definition mode_count :: string where "mode_count = ''count''"

text \<open>
  \<open>filepath.Ext\<close>, and \<open>strings.ToLower\<close> on ASCII letters: the rune it maps to an ASCII letter from
  outside ASCII are two, that become \<open>i\<close> and \<open>k\<close>, which no name of a type or extension below holds.
\<close>

definition Ext :: "string \<Rightarrow> string" where
  "Ext p =
     (let b = rev (takeWhile (\<lambda>c. c \<noteq> CHR ''/'') (rev p))
      in if CHR ''.'' \<in> set b then ''.'' @ rev (takeWhile (\<lambda>c. c \<noteq> CHR ''.'') (rev b)) else [])"

definition lower_ascii :: "string \<Rightarrow> string" where
  "lower_ascii s = map (\<lambda>c. if 65 \<le> byte c \<and> byte c \<le> 90 then char_of (byte c + 32) else c) s"

definition typeToExt :: "string \<rightharpoonup> string" where
  "typeToExt = map_of
     [(''go'', ''.go''), (''js'', ''.js''), (''ts'', ''.ts''), (''tsx'', ''.tsx''), (''jsx'', ''.jsx''), (''py'', ''.py''),
      (''java'', ''.java''), (''rb'', ''.rb''), (''rs'', ''.rs''), (''md'', ''.md''), (''json'', ''.json''), (''yaml'', ''.yaml''),
      (''yml'', ''.yml'')]"

definition matchType :: "string \<Rightarrow> string \<Rightarrow> bool" where
  "matchType fpath t =
     (if blank t then True
      else case typeToExt (lower_ascii t) of None \<Rightarrow> True | Some wantExt \<Rightarrow> lower_ascii (Ext fpath) = wantExt)"

definition countMatches :: "regex \<Rightarrow> string \<Rightarrow> bool \<Rightarrow> nat" where
  "countMatches re content multiline =
     (if multiline then length (rx_all re content)
      else length (filter (rx_match re) (go_split content linefeed)))"

definition maxLineRunes :: nat where "maxLineRunes = 500"

definition clipLine :: "string \<Rightarrow> string" where
  "clipLine line =
     (let rs = runes line in
      if length rs \<le> maxLineRunes then line else concat (take maxLineRunes rs) @ '' [...]'')"

text \<open>The indexes of the lines to show; \<open>int\<close> arithmetic wraps.\<close>

definition shown_lines :: "regex \<Rightarrow> string list \<Rightarrow> int \<Rightarrow> int \<Rightarrow> nat list" where
  "shown_lines re lines post pre =
     (let n = int (length lines);
          shows_line = (\<lambda>i j. let start = max 0 (add64 i (- pre)); stop = add64 i post
                             in start \<le> j \<and> j \<le> (if n \<le> stop then n - 1 else stop))
      in filter (\<lambda>j. list_ex (\<lambda>i. rx_match re (lines ! i) \<and> shows_line (int i) (int j)) [0..<length lines]) [0..<length lines])"

definition grepContentMatches :: "string \<Rightarrow> string \<Rightarrow> regex \<Rightarrow> bool \<Rightarrow> bool \<Rightarrow> int \<Rightarrow> int \<Rightarrow> string list" where
  "grepContentMatches fpath content re multiline lineNumbers post pre =
     (if multiline then map (\<lambda>(a, b). fpath @ '':'' @ take (b - a) (drop a content)) (rx_all re content)
      else
        (let lines = go_split content linefeed
         in map (\<lambda>j. fpath @ '':'' @ (if lineNumbers then go_itoa (int j + 1) @ '':'' else []) @ clipLine (lines ! j))
              (shown_lines re lines post pre)))"

text \<open>What one file adds to the output, and the loop over the files, which ends at the limit.\<close>

definition grep_file :: "grep_input \<Rightarrow> string \<Rightarrow> regex \<Rightarrow> string \<Rightarrow> string \<Rightarrow> string list" where
  "grep_file inp mode re fpath content =
     (if mode = mode_files then (if rx_match re content then [fpath] else [])
      else if mode = mode_count then
        (let count = countMatches re content (gi_multiline inp)
         in if 0 < count then [fpath @ '':'' @ nat_digits count] else [])
      else grepContentMatches fpath content re (gi_multiline inp) (gi_N inp) (gi_A inp) (gi_B inp))"

fun grep_files :: "fs \<Rightarrow> (string \<Rightarrow> string \<Rightarrow> string list) \<Rightarrow> int \<Rightarrow> string list \<Rightarrow> string list \<Rightarrow> string list \<times> bool" where
  "grep_files s matches limit out [] = (out, False)"
| "grep_files s matches limit out (fpath # files) =
     (case read_file s fpath of
        Inl e \<Rightarrow> grep_files s matches limit out files
      | Inr content \<Rightarrow>
          if isBinary content then grep_files s matches limit out files
          else
            (let out1 = out @ matches fpath content in
             if 0 < limit \<and> limit < int (length out1) then (take (nat limit) out1, True)
             else grep_files s matches limit out1 files))"

definition grep_limit :: "int \<Rightarrow> int \<Rightarrow> int" where
  "grep_limit max_results head_limit =
     (if 0 < head_limit \<and> (max_results \<le> 0 \<or> head_limit < max_results) then head_limit else max_results)"

definition grep_selected :: "string \<Rightarrow> grep_input \<Rightarrow> regex option \<Rightarrow> string \<Rightarrow> bool" where
  "grep_selected root inp globMatcher fpath \<longleftrightarrow>
     matchType fpath (gi_type inp) \<and>
     (case globMatcher of None \<Rightarrow> True | Some m \<Rightarrow> rx_match m (normalizeRelativePath root fpath))"

definition grep_search :: "search_env \<Rightarrow> tool_options \<Rightarrow> grep_input \<Rightarrow> string \<Rightarrow> regex \<Rightarrow> string \<Rightarrow> regex option \<Rightarrow> grep_output" where
  "grep_search env opt inp mode re root globMatcher =
     (let files = sort (filter (grep_selected root inp globMatcher)
            (map fst (walkSearch env root (workingDir opt) (readRoots opt) (noIgnore opt))));
          (out, truncated) = grep_files (disk_of env) (grep_file inp mode re)
            (grep_limit (maxResults opt) (gi_head_limit inp)) [] files;
          (out', cut) = capEntries out (maxOutput opt)
      in \<lparr>gr_output = out', gr_truncated = truncated \<or> cut\<rparr>)"

definition grep :: "search_env \<Rightarrow> tool_options \<Rightarrow> grep_input \<Rightarrow> file_err + grep_output" where
  "grep env opt input =
     (if blank (gi_pattern input) then Inl ErrPatternRequired
      else
        (let mode = (if gi_mode input = [] then mode_files else gi_mode input) in
         if mode \<notin> {mode_content, mode_files, mode_count} then Inl ErrInvalidOutputMode
         else
           (let inp = (if 0 < gi_C input then input\<lparr>gi_A := gi_C input, gi_B := gi_C input\<rparr> else input) in
            if mode \<noteq> mode_content \<and> (0 < gi_A inp \<or> 0 < gi_B inp \<or> 0 < gi_C inp \<or> gi_N inp)
            then Inl ErrContextFlagsRequireContentMode
            else case se_regexp env (if gi_I inp then ''(?i)'' @ gi_pattern inp else gi_pattern inp) of
                Inl e \<Rightarrow> Inl (Errorf e)
              | Inr re \<Rightarrow>
                  (case resolveSearchRootIn (disk_of env) (workingDir opt) (readRoots opt) (gi_path inp) of
                     Inl e \<Rightarrow> Inl e
                   | Inr root \<Rightarrow>
                       if blank (gi_glob inp) then Inr (grep_search env opt inp mode re root None)
                       else (case compileGlobMatcher (se_regexp env) (gi_glob inp) of
                           Inl e \<Rightarrow> Inl e
                         | Inr m \<Rightarrow> Inr (grep_search env opt inp mode re root (Some m)))))))"

end
