(* ===== verification/Search_Correct.thy ===== *)
theory Search_Correct
  imports File_Search File_Paths
begin

section \<open>What a search finds\<close>

text \<open>
  The walk of a search against its declarative description. The rules that are loaded on the way decide
  as all the \<open>.gitignore\<close> files of a path would (\<open>walk_visits\<close>), and what the walk finds is what can be
  reached through directories that are not closed (\<open>visible\<close>). From there: \<open>glob\<close> lists exactly the
  visible files its pattern matches, and no search reads a file outside the directories it may read.
\<close>

subsection \<open>Trees\<close>

fun wf_tree :: "dtree \<Rightarrow> bool" where
  "wf_tree (DirT mode kids) \<longleftrightarrow>
     distinct (map fst kids) \<and> list_all (\<lambda>e. name_ok (fst e) \<and> wf_tree (snd e)) kids"
| "wf_tree _ \<longleftrightarrow> True"

lemma subtree_append:
  "subtree t (q @ r) = (case subtree t q of None \<Rightarrow> None | Some u \<Rightarrow> subtree u r)"
  by (induction t q rule: subtree.induct) (auto split: option.splits)

lemma subtree_snoc:
  "subtree t (q @ [c]) = Some u \<Longrightarrow> \<exists>mode kids. subtree t q = Some (DirT mode kids) \<and> map_of kids c = Some u"
  by (auto simp: subtree_append split: option.splits elim!: subtree.elims)

lemma wf_subtree: "wf_tree t \<Longrightarrow> subtree t q = Some u \<Longrightarrow> wf_tree u"
proof (induction t q rule: subtree.induct)
  case (2 mode kids c cs)
  then obtain k where k: "map_of kids c = Some k" "subtree k cs = Some u" by (auto split: option.splits)
  then have "wf_tree k" using 2(2) by (force dest: map_of_SomeD simp: list_all_iff)
  then show ?case using "2.IH" k by simp
qed auto

lemma tree_node_Folder: "tree_node t = Folder m \<Longrightarrow> \<exists>kids. t = DirT m kids"
  by (cases t) auto

lemma tree_nodes_wf:
  assumes "wf_tree t" and "is_dir t"
  shows "wf_nodes (tree_nodes t)"
proof -
  have "is_folder (tree_nodes t) q \<and> name_ok c" if nn: "tree_nodes t (q @ [c]) \<noteq> None" for q c
  proof -
    obtain u where "subtree t (q @ [c]) = Some u" using nn by (auto simp: tree_nodes_def)
    then obtain mode kids where k: "subtree t q = Some (DirT mode kids)" "map_of kids c = Some u"
      using subtree_snoc by blast
    then have "wf_tree (DirT mode kids)" using wf_subtree assms(1) by blast
    then have "name_ok c" using k(2) by (force dest: map_of_SomeD simp: list_all_iff)
    then show ?thesis using k(1) by (simp add: is_folder_def tree_nodes_def)
  qed
  then show ?thesis using assms(2) by (cases t) (auto simp: wf_nodes_def is_folder_def tree_nodes_def)
qed

subsection \<open>The rules that decide\<close>

definition rules_at :: "search_env \<Rightarrow> string \<Rightarrow> ignore_rule list" where
  "rules_at env dir = parseGitignore (se_regexp env) (disk_of env) (Join [dir, ''.gitignore''])"

text \<open>What all the \<open>.gitignore\<close> files from \<open>tp\<close> down to the directory of a path say of it.\<close>

definition ignored_by_files :: "search_env \<Rightarrow> string \<Rightarrow> string \<Rightarrow> bool \<Rightarrow> bool" where
  "ignored_by_files env tp p isDir =
     fold (\<lambda>dir ign. fold (apply_rule (Rel dir p) isDir) (rules_at env dir) ign) (rev (dirs_up tp (Dir p))) False"

definition search_top :: "search_env \<Rightarrow> string \<Rightarrow> string" where
  "search_top env root = (case git_root (disk_of env) root of Some dir \<Rightarrow> dir | None \<Rightarrow> root)"

definition ignoring :: "search_env \<Rightarrow> search_walk \<Rightarrow> string \<Rightarrow> bool \<Rightarrow> bool" where
  "ignoring env w p isDir \<longleftrightarrow> \<not> sw_noIgnore w \<and> ignored_by_files env (search_top env (sw_root w)) p isDir"

definition loaded :: "search_env \<Rightarrow> search_walk \<Rightarrow> ignorer option \<Rightarrow> string set \<Rightarrow> bool" where
  "loaded env w ig D \<longleftrightarrow>
     (case ig of
        None \<Rightarrow> sw_noIgnore w
      | Some g \<Rightarrow> \<not> sw_noIgnore w \<and> ig_top g = search_top env (sw_root w) \<and>
          (\<forall>d rs. ig_rules g d = Some rs \<longrightarrow> rs = rules_at env d) \<and> D \<subseteq> dom (ig_rules g))"

lemma loaded_subset: "loaded env w ig D \<Longrightarrow> E \<subseteq> D \<Longrightarrow> loaded env w ig E"
  by (auto simp: loaded_def split: option.splits)

lemma loaded_load: "loaded env w ig D \<Longrightarrow> loaded env w (load (se_regexp env) (disk_of env) dir ig) (insert dir D)"
proof (cases ig)
  case (Some g)
  assume l: "loaded env w ig D"
  show ?thesis
  proof (cases "ig_rules g dir")
    case None
    then show ?thesis using l Some by (auto simp: loaded_def load_def ig_load_def rules_at_def)
  next
    case (Some rs)
    then show ?thesis using l \<open>ig = Some g\<close> by (auto simp: loaded_def load_def ig_load_def)
  qed
qed (simp add: loaded_def load_def)

lemma fold_cong_set: "(\<And>x a. x \<in> set xs \<Longrightarrow> f x a = g x a) \<Longrightarrow> fold f xs a = fold g xs a"
  by (induction xs arbitrary: a) auto

lemma loaded_ignored:
  assumes "loaded env w ig D" and "set (dirs_up (search_top env (sw_root w)) (Dir p)) \<subseteq> D"
  shows "ignored ig p isDir = ignoring env w p isDir"
proof (cases ig)
  case None
  then show ?thesis using assms(1) by (simp add: ignored_def ignoring_def loaded_def)
next
  case (Some g)
  have g: "\<not> sw_noIgnore w" "ig_top g = search_top env (sw_root w)"
    using assms(1) Some by (simp_all add: loaded_def)
  have rules: "ig_rules g dir = Some (rules_at env dir)" if dir: "dir \<in> set (dirs_up (search_top env (sw_root w)) (Dir p))" for dir
  proof -
    obtain rs where "ig_rules g dir = Some rs" using assms dir Some by (auto simp: loaded_def)
    then show ?thesis using assms(1) Some by (simp add: loaded_def)
  qed
  have "ig_ignored g p isDir = ignored_by_files env (search_top env (sw_root w)) p isDir"
    unfolding ig_ignored_def ignored_by_files_def g by (rule fold_cong_set) (simp add: rules)
  then show ?thesis using Some g by (simp add: ignored_def ignoring_def)
qed

lemma loaded_fold:
  "loaded env w (Some g) D \<Longrightarrow> loaded env w (Some (fold (ig_load (se_regexp env) (disk_of env)) ds g)) (D \<union> set ds)"
proof (induction ds arbitrary: g D)
  case (Cons d ds)
  have "loaded env w (Some (ig_load (se_regexp env) (disk_of env) d g)) (insert d D)"
    using loaded_load [OF Cons.prems, of d] by (simp add: load_def)
  from Cons.IH [OF this] show ?case by simp
qed simp

lemma loaded_newIgnorer:
  assumes "\<not> sw_noIgnore w"
  shows "loaded env w (Some (newIgnorer (se_regexp env) (disk_of env) (sw_root w)))
    (set (dirs_up (search_top env (sw_root w)) (sw_root w)))"
  using loaded_fold [of env w "\<lparr>ig_rules = (\<lambda>_. None), ig_top = search_top env (sw_root w)\<rparr>" "{}"] assms
  by (simp add: newIgnorer_def loaded_def search_top_def [symmetric] Let_def)

lemma dirs_up_below:
  assumes "list_all name_ok (es @ ps)"
  shows "set (dirs_up tp (abs_path (es @ ps))) \<subseteq> set (dirs_up tp (abs_path es)) \<union> {abs_path (es @ qs) | qs. prefix qs ps}"
  using assms
proof (induction ps rule: rev_induct)
  case (snoc c ps)
  have "Dir (abs_path (es @ ps @ [c])) = abs_path (es @ ps)"
    using Dir_abs_path [of "es @ ps" c] snoc.prems by simp
  then have "set (dirs_up tp (abs_path (es @ ps @ [c]))) \<subseteq> insert (abs_path (es @ ps @ [c])) (set (dirs_up tp (abs_path (es @ ps))))"
    by (subst dirs_up.simps) auto
  moreover have "prefix qs ps \<Longrightarrow> prefix qs (ps @ [c])" for qs by (simp add: prefix_append)
  ultimately show ?case using snoc by (auto 0 4)
qed auto

subsection \<open>The walk without its state\<close>

text \<open>
  \<open>es\<close> are the names of the search root and \<open>ps\<close> those below it. A directory is closed by its name or
  by an ignore rule; a file is skipped by a rule, or as a link out of the directories that may be read.
\<close>

definition closed_dir :: "search_env \<Rightarrow> search_walk \<Rightarrow> string list \<Rightarrow> bool" where
  "closed_dir env w q \<longleftrightarrow>
     last q = gitDir \<or> \<not> sw_noIgnore w \<and> last q \<in> set skippedDirs \<or> ignoring env w (abs_path q) True"

definition link_ok :: "search_env \<Rightarrow> search_walk \<Rightarrow> string list \<Rightarrow> bool" where
  "link_ok env w q \<longleftrightarrow>
     sw_workingDir w = [] \<or>
     (case resolveReadPath (disk_of env) (sw_workingDir w) (sw_readRoots w) (abs_path q) of Inl e \<Rightarrow> False | Inr r \<Rightarrow> True)"

definition skipped_file :: "search_env \<Rightarrow> search_walk \<Rightarrow> string list \<Rightarrow> dtree \<Rightarrow> bool" where
  "skipped_file env w q d \<longleftrightarrow>
     ignoring env w (abs_path q) False \<or> (case d of LinkT target tm \<Rightarrow> \<not> link_ok env w q | _ \<Rightarrow> False)"

fun visible :: "search_env \<Rightarrow> search_walk \<Rightarrow> string list \<Rightarrow> dtree \<Rightarrow> string list \<Rightarrow> bool" where
  "visible env w q d [] \<longleftrightarrow> \<not> is_dir d"
| "visible env w q (DirT mode kids) (c # cs) \<longleftrightarrow>
     \<not> se_hidden env (abs_path q) c \<and>
     (case map_of kids c of
        None \<Rightarrow> False
      | Some k \<Rightarrow> \<not> (if is_dir k then closed_dir env w (q @ [c]) else skipped_file env w (q @ [c]) k) \<and>
          visible env w (q @ [c]) k cs)"
| "visible env w q _ (c # cs) \<longleftrightarrow> False"

definition found_below :: "search_env \<Rightarrow> search_walk \<Rightarrow> string list \<Rightarrow> dtree \<Rightarrow> (string \<times> dtree) set" where
  "found_below env w q d = {(abs_path (q @ ps), u) | ps u. visible env w q d ps \<and> subtree d ps = Some u}"

lemma found_below_leaf: "\<not> is_dir d \<Longrightarrow> found_below env w q d = {(abs_path q, d)}"
proof -
  assume d: "\<not> is_dir d"
  have "visible env w q d ps \<longleftrightarrow> ps = []" for ps using d by (cases ps; cases d) auto
  then show ?thesis by (auto simp: found_below_def)
qed


definition blocked :: "search_env \<Rightarrow> search_walk \<Rightarrow> string list \<Rightarrow> dtree \<Rightarrow> bool" where
  "blocked env w q k \<longleftrightarrow> (if is_dir k then closed_dir env w q else skipped_file env w q k)"

definition found_kids :: "search_env \<Rightarrow> search_walk \<Rightarrow> string list \<Rightarrow> (string \<times> dtree) list \<Rightarrow> (string \<times> dtree) set" where
  "found_kids env w q kids =
     {(abs_path (q @ c # cs), u) | c k cs u. (c, k) \<in> set kids \<and> \<not> se_hidden env (abs_path q) c \<and>
        \<not> blocked env w (q @ [c]) k \<and> visible env w (q @ [c]) k cs \<and> subtree k cs = Some u}"

lemma in_found_below:
  "(p, u) \<in> found_below env w q d \<longleftrightarrow> (\<exists>ps. p = abs_path (q @ ps) \<and> visible env w q d ps \<and> subtree d ps = Some u)"
  by (auto simp: found_below_def)

lemma in_found_kids:
  "(p, u) \<in> found_kids env w q kids \<longleftrightarrow>
     (\<exists>c k cs. (c, k) \<in> set kids \<and> \<not> se_hidden env (abs_path q) c \<and> \<not> blocked env w (q @ [c]) k \<and>
        p = abs_path (q @ c # cs) \<and> visible env w (q @ [c]) k cs \<and> subtree k cs = Some u)"
  by (auto simp: found_kids_def)

lemma found_kids_Nil: "found_kids env w q [] = {}"
  by (simp add: found_kids_def)

lemma found_kids_Cons:
  "found_kids env w q ((n, d) # kids) =
     (if se_hidden env (abs_path q) n \<or> blocked env w (q @ [n]) d then {} else found_below env w (q @ [n]) d) \<union>
     found_kids env w q kids"
proof (rule set_eqI)
  fix x :: "string \<times> dtree"
  obtain p u where x: "x = (p, u)" by (cases x)
  have n: "(p, u) \<in> (if se_hidden env (abs_path q) n \<or> blocked env w (q @ [n]) d then {} else found_below env w (q @ [n]) d) \<longleftrightarrow>
      (\<exists>cs. \<not> se_hidden env (abs_path q) n \<and> \<not> blocked env w (q @ [n]) d \<and>
        p = abs_path (q @ n # cs) \<and> visible env w (q @ [n]) d cs \<and> subtree d cs = Some u)"
    by (auto simp: in_found_below)
  show "x \<in> found_kids env w q ((n, d) # kids) \<longleftrightarrow> x \<in> (if se_hidden env (abs_path q) n \<or> blocked env w (q @ [n]) d then {}
      else found_below env w (q @ [n]) d) \<union> found_kids env w q kids"
    unfolding x Un_iff n in_found_kids list.set(2) insert_iff prod.inject by blast
qed

lemmas found_kids_simps = found_kids_Nil found_kids_Cons

lemma found_below_dir:
  assumes "distinct (map fst kids)"
  shows "found_below env w q (DirT mode kids) = found_kids env w q kids"
proof -
  have below: "(p, u) \<in> found_below env w q (DirT mode kids) \<longleftrightarrow>
      (\<exists>c k cs. (c, k) \<in> set kids \<and> \<not> se_hidden env (abs_path q) c \<and> \<not> blocked env w (q @ [c]) k \<and>
        p = abs_path (q @ c # cs) \<and> visible env w (q @ [c]) k cs \<and> subtree k cs = Some u)" for p u
  proof
    assume "(p, u) \<in> found_below env w q (DirT mode kids)"
    then obtain ps where ps: "p = abs_path (q @ ps)" "visible env w q (DirT mode kids) ps" "subtree (DirT mode kids) ps = Some u"
      by (auto simp: found_below_def)
    then obtain c cs where "ps = c # cs" by (cases ps) auto
    then show "\<exists>c k cs. (c, k) \<in> set kids \<and> \<not> se_hidden env (abs_path q) c \<and> \<not> blocked env w (q @ [c]) k \<and>
        p = abs_path (q @ c # cs) \<and> visible env w (q @ [c]) k cs \<and> subtree k cs = Some u"
      using ps by (fastforce simp: blocked_def dest: map_of_SomeD split: option.splits)
  next
    assume "\<exists>c k cs. (c, k) \<in> set kids \<and> \<not> se_hidden env (abs_path q) c \<and> \<not> blocked env w (q @ [c]) k \<and>
        p = abs_path (q @ c # cs) \<and> visible env w (q @ [c]) k cs \<and> subtree k cs = Some u"
    then obtain c k cs where c: "(c, k) \<in> set kids" "\<not> se_hidden env (abs_path q) c" "\<not> blocked env w (q @ [c]) k"
        "p = abs_path (q @ c # cs)" "visible env w (q @ [c]) k cs" "subtree k cs = Some u" by blast
    then have "map_of kids c = Some k" using assms by simp
    then have "visible env w q (DirT mode kids) (c # cs)" "subtree (DirT mode kids) (c # cs) = Some u"
      using c by (simp_all add: blocked_def)
    then show "(p, u) \<in> found_below env w q (DirT mode kids)" using c(4) unfolding found_below_def by blast
  qed
  show ?thesis
  proof (rule set_eqI)
    fix x
    show "x \<in> found_below env w q (DirT mode kids) \<longleftrightarrow> x \<in> found_kids env w q kids"
      by (cases x) (simp only: below in_found_kids)
  qed
qed

text \<open>The directories whose rules are loaded when the walk is in the directory \<open>ps\<close> below the root.\<close>

definition loaded_dirs :: "search_env \<Rightarrow> search_walk \<Rightarrow> string list \<Rightarrow> string list \<Rightarrow> string set" where
  "loaded_dirs env w es ps =
     set (dirs_up (search_top env (sw_root w)) (abs_path es)) \<union> {abs_path (es @ qs) | qs. prefix qs ps}"

lemma loaded_dirs_snoc: "loaded_dirs env w es (ps @ [c]) = insert (abs_path (es @ ps @ [c])) (loaded_dirs env w es ps)"
  by (auto simp: loaded_dirs_def)

lemma loaded_dirs_ignored:
  assumes "loaded env w ig (loaded_dirs env w es ps)" and "list_all name_ok (es @ ps @ [c])"
  shows "ignored ig (abs_path (es @ ps @ [c])) isDir = ignoring env w (abs_path (es @ ps @ [c])) isDir"
proof (rule loaded_ignored [OF assms(1)])
  have "Dir (abs_path (es @ ps @ [c])) = abs_path (es @ ps)" using Dir_abs_path [of "es @ ps" c] assms(2) by simp
  then show "set (dirs_up (search_top env (sw_root w)) (Dir (abs_path (es @ ps @ [c])))) \<subseteq> loaded_dirs env w es ps"
    using dirs_up_below [of es ps] assms(2) by (simp add: loaded_dirs_def)
qed

lemma walk_visits:
  "sw_root w = abs_path es \<Longrightarrow> p = abs_path (es @ ps @ [c]) \<Longrightarrow> name = c \<Longrightarrow> list_all name_ok (es @ ps @ [c]) \<Longrightarrow> wf_tree d \<Longrightarrow>
     loaded env w ig (loaded_dirs env w es ps) \<Longrightarrow>
     set (fst (walk env w p name d ig)) =
       (if blocked env w (es @ ps @ [c]) d then {} else found_below env w (es @ ps @ [c]) d) \<and>
     loaded env w (snd (walk env w p name d ig)) (loaded_dirs env w es ps)"
  "sw_root w = abs_path es \<Longrightarrow> p = abs_path (es @ ps) \<Longrightarrow> list_all name_ok (es @ ps) \<Longrightarrow>
     distinct (map fst kids) \<Longrightarrow> list_all (\<lambda>e. name_ok (fst e) \<and> wf_tree (snd e)) kids \<Longrightarrow>
     loaded env w ig (loaded_dirs env w es ps) \<Longrightarrow>
     set (fst (walk_kids env w p kids ig)) = found_kids env w (es @ ps) kids \<and>
     loaded env w (snd (walk_kids env w p kids ig)) (loaded_dirs env w es ps)"
proof (induction env w p name d ig and env w p kids ig arbitrary: ps c and ps rule: walk_walk_kids.induct [case_names in_dir in_file in_link no_kids kids])
  case (in_dir env w p name mode kids ig)
  have ne: "p \<noteq> sw_root w" using in_dir(2-5) abs_path_inj [of "es @ ps @ [c]" es] by simp
  have e: "enterDir env w ig p name =
      (if closed_dir env w (es @ ps @ [c]) then None else Some (load (se_regexp env) (disk_of env) p ig))"
    using ne in_dir(3,4) loaded_dirs_ignored [OF in_dir(7,5)] by (simp add: enterDir_def closed_dir_def)
  show ?case
  proof (cases "closed_dir env w (es @ ps @ [c])")
    case True
    then show ?thesis using e in_dir(7) by (simp add: blocked_def)
  next
    case False
    let ?ig = "load (se_regexp env) (disk_of env) p ig"
    have l: "loaded env w ?ig (loaded_dirs env w es (ps @ [c]))"
      using loaded_load [OF in_dir(7)] in_dir(3) by (simp add: loaded_dirs_snoc)
    have k: "distinct (map fst kids)" "list_all (\<lambda>e. name_ok (fst e) \<and> wf_tree (snd e)) kids" using in_dir(6) by simp_all
    have "enterDir env w ig p name = Some ?ig" using e False by simp
    from in_dir(1) [OF this in_dir(2) _ _ k l] in_dir(3,5) have found:
      "set (fst (walk_kids env w p kids ?ig)) = found_kids env w (es @ ps @ [c]) kids"
      "loaded env w (snd (walk_kids env w p kids ?ig)) (loaded_dirs env w es (ps @ [c]))" by simp_all
    then have "loaded env w (snd (walk_kids env w p kids ?ig)) (loaded_dirs env w es ps)"
      by (intro loaded_subset [OF found(2)]) (auto simp: loaded_dirs_snoc)
    then show ?thesis using e False found_below_dir [OF k(1)] found(1) by (simp add: blocked_def)
  qed
next
  case (in_file env w p name content tm mode ig)
  then show ?case using loaded_dirs_ignored [OF in_file(6,4)]
    by (simp add: blocked_def skipped_file_def skipFile_def found_below_leaf)
next
  case (in_link env w p name target tm ig)
  then show ?case using loaded_dirs_ignored [OF in_link(6,4)]
    by (auto simp: blocked_def skipped_file_def skipFile_def found_below_leaf link_ok_def split: sum.splits)
next
  case (no_kids env w p ig)
  then show ?case by (simp add: found_kids_simps)
next
  case (kids env w p n d kids ig)
  have ok: "name_ok n" "wf_tree d" "distinct (map fst kids)" "list_all (\<lambda>e. name_ok (fst e) \<and> wf_tree (snd e)) kids"
    using kids(7,8) by simp_all
  show ?case
  proof (cases "se_hidden env p n")
    case True
    from kids(1) [OF True kids(4-6) ok(3,4) kids(9)] True kids(5) show ?thesis by (simp add: found_kids_simps)
  next
    case False
    have j: "Join [p, n] = abs_path (es @ ps @ [n])" using kids(5,6) ok(1) Join_abs_path [of "es @ ps" n] by simp
    obtain found ig1 where w1: "walk env w (Join [p, n]) n d ig = (found, ig1)" by force
    obtain rest ig2 where w2: "walk_kids env w p kids ig1 = (rest, ig2)" by force
    have names: "list_all name_ok (es @ ps @ [n])" using kids(6) ok(1) by simp
    from kids(2) [OF False kids(4) j refl names ok(2) kids(9)] w1
    have 1: "set found = (if blocked env w (es @ ps @ [n]) d then {} else found_below env w (es @ ps @ [n]) d)"
      "loaded env w ig1 (loaded_dirs env w es ps)" by simp_all
    from kids(3) [OF False w1 [symmetric] refl kids(4-6) ok(3,4) 1(2)] w2
    have 2: "set rest = found_kids env w (es @ ps) kids" "loaded env w ig2 (loaded_dirs env w es ps)" by simp_all
    from 1 2 False w1 w2 kids(5) show ?thesis by (simp add: found_kids_simps)
  qed
qed


lemma subtree_names: "wf_tree t \<Longrightarrow> subtree t q = Some u \<Longrightarrow> list_all name_ok q"
proof (induction t q rule: subtree.induct)
  case (2 mode kids c cs)
  then obtain k where k: "map_of kids c = Some k" "subtree k cs = Some u" by (auto split: option.splits)
  then have "(c, k) \<in> set kids" by (rule_tac map_of_SomeD)
  then have "name_ok c" "wf_tree k" using 2(2) by (auto simp: list_all_iff)
  then show ?case using "2.IH" k by simp
qed auto

lemma found_below_paths:
  assumes "wf_tree d" and "(p, u) \<in> found_below env w q d"
  obtains ps where "p = abs_path (q @ ps)" "list_all name_ok ps"
  using assms subtree_names by (auto simp: in_found_below)

lemma walk_distinct:
  "sw_root w = abs_path es \<Longrightarrow> p = abs_path (es @ ps @ [c]) \<Longrightarrow> name = c \<Longrightarrow> list_all name_ok (es @ ps @ [c]) \<Longrightarrow> wf_tree d \<Longrightarrow>
     loaded env w ig (loaded_dirs env w es ps) \<Longrightarrow> distinct (map fst (fst (walk env w p name d ig)))"
  "sw_root w = abs_path es \<Longrightarrow> p = abs_path (es @ ps) \<Longrightarrow> list_all name_ok (es @ ps) \<Longrightarrow>
     distinct (map fst kids) \<Longrightarrow> list_all (\<lambda>e. name_ok (fst e) \<and> wf_tree (snd e)) kids \<Longrightarrow>
     loaded env w ig (loaded_dirs env w es ps) \<Longrightarrow> distinct (map fst (fst (walk_kids env w p kids ig)))"
proof (induction env w p name d ig and env w p kids ig arbitrary: ps c and ps rule: walk_walk_kids.induct [case_names in_dir in_file in_link no_kids kids])
  case (in_dir env w p name mode kids ig)
  have l: "loaded env w (load (se_regexp env) (disk_of env) p ig) (loaded_dirs env w es (ps @ [c]))"
    using loaded_load [OF in_dir(7)] in_dir(3) by (simp add: loaded_dirs_snoc)
  have k: "distinct (map fst kids)" "list_all (\<lambda>e. name_ok (fst e) \<and> wf_tree (snd e)) kids" using in_dir(6) by simp_all
  show ?case
  proof (cases "enterDir env w ig p name")
    case (Some ig1)
    then have i: "ig1 = load (se_regexp env) (disk_of env) p ig" by (auto simp: enterDir_def split: if_splits)
    have "p = abs_path (es @ (ps @ [c]))" "list_all name_ok (es @ (ps @ [c]))" using in_dir(3,5) by simp_all
    from in_dir(1) [OF Some in_dir(2) this k] l i Some show ?thesis by simp
  qed simp
next
  case (kids env w p n d kids ig)
  have ok: "name_ok n" "wf_tree d" "distinct (map fst kids)" "list_all (\<lambda>e. name_ok (fst e) \<and> wf_tree (snd e)) kids"
    using kids(7,8) by simp_all
  show ?case
  proof (cases "se_hidden env p n")
    case True
    from kids(1) [OF True kids(4-6) ok(3,4) kids(9)] True show ?thesis by simp
  next
    case False
    have j: "Join [p, n] = abs_path (es @ ps @ [n])" using kids(5,6) ok(1) Join_abs_path [of "es @ ps" n] by simp
    obtain found ig1 where w1: "walk env w (Join [p, n]) n d ig = (found, ig1)" by force
    obtain rest ig2 where w2: "walk_kids env w p kids ig1 = (rest, ig2)" by force
    have names: "list_all name_ok (es @ ps @ [n])" using kids(6) ok(1) by simp
    from kids(2) [OF False kids(4) j refl names ok(2) kids(9)] w1 have d1: "distinct (map fst found)" by simp
    from walk_visits(1) [OF kids(4) j refl names ok(2) kids(9)] w1
    have 1: "set found \<subseteq> found_below env w (es @ ps @ [n]) d" "loaded env w ig1 (loaded_dirs env w es ps)"
      by (auto split: if_splits)
    from kids(3) [OF False w1 [symmetric] refl kids(4-6) ok(3,4) 1(2)] w2 have d2: "distinct (map fst rest)" by simp
    from walk_visits(2) [OF kids(4-6) ok(3,4) 1(2)] w2 have 2: "set rest = found_kids env w (es @ ps) kids" by simp
    have "x \<noteq> y" if in_both: "(x, u) \<in> set found" "(y, v) \<in> set rest" for x y u v
    proof -
      obtain cs where x: "x = abs_path ((es @ ps @ [n]) @ cs)" "list_all name_ok cs"
        using found_below_paths [OF ok(2)] 1(1) in_both(1) by blast
      obtain c k cs' where y: "(c, k) \<in> set kids" "y = abs_path ((es @ ps) @ c # cs')" "subtree k cs' = Some v"
        using in_both(2) 2 by (auto simp: in_found_kids)
      have "name_ok c" "wf_tree k" using ok(4) y(1) by (auto simp: list_all_iff)
      then have "list_all name_ok ((es @ ps) @ c # cs')" using subtree_names [OF _ y(3)] kids(6) by simp
      moreover have "c \<noteq> n" using y(1) kids(7) by force
      ultimately show ?thesis using x y(2) names abs_path_inj [of "(es @ ps @ [n]) @ cs" "(es @ ps) @ c # cs'"] by auto
    qed
    then have "set (map fst found) \<inter> set (map fst rest) = {}" by fastforce
    then show ?thesis using d1 d2 False w1 w2 by simp
  qed
qed simp_all

subsection \<open>A search from a directory\<close>

definition walk_state :: "tool_options \<Rightarrow> string list \<Rightarrow> search_walk" where
  "walk_state opt es = \<lparr>sw_root = abs_path es, sw_workingDir = workingDir opt, sw_readRoots = readRoots opt, sw_noIgnore = noIgnore opt\<rparr>"

text \<open>
  The search that a path argument starts: its root, by name and by the directory that stands there.
\<close>

definition starts_at :: "search_env \<Rightarrow> tool_options \<Rightarrow> string \<Rightarrow> string list \<Rightarrow> dtree \<Rightarrow> bool" where
  "starts_at env opt arg es d \<longleftrightarrow>
     wf_tree (se_tree env) \<and> is_dir (se_tree env) \<and> list_all name_ok es \<and>
     resolveSearchRootIn (disk_of env) (workingDir opt) (readRoots opt) arg = Inr (abs_path es) \<and>
     fault (disk_of env) OpStat (abs_path es) = None \<and>
     (case namei (nodes (disk_of env)) False kernel_links [] es of
        Inl e \<Rightarrow> False
      | Inr q \<Rightarrow> subtree (se_tree env) q = Some d)"

lemma search_found:
  assumes "starts_at env opt arg es d" and "is_dir d"
  defines "found \<equiv> walkSearch env (abs_path es) (workingDir opt) (readRoots opt) (noIgnore opt)"
  shows "set found = found_below env (walk_state opt es) es d \<and> distinct (map fst found)"
proof -
  let ?w = "walk_state opt es"
  obtain q where es: "list_all name_ok es" and wf: "wf_tree d"
      and q: "namei (nodes (disk_of env)) False kernel_links [] es = Inr q" "subtree (se_tree env) q = Some d"
    using assms(1) wf_subtree by (auto simp: starts_at_def split: sum.splits)
  obtain mode kids where d: "d = DirT mode kids" using assms(2) by (cases d) auto
  define ig where "ig = (if noIgnore opt then None else Some (newIgnorer (se_regexp env) (disk_of env) (abs_path es)))"
  define ig1 where "ig1 = load (se_regexp env) (disk_of env) (abs_path es) ig"
  have w: "sw_root ?w = abs_path es" by (simp add: walk_state_def)
  have "loaded env ?w ig (set (dirs_up (search_top env (sw_root ?w)) (sw_root ?w)))"
    using loaded_newIgnorer [of ?w env] by (auto simp: ig_def walk_state_def loaded_def)
  from loaded_load [OF this] have l: "loaded env ?w ig1 (loaded_dirs env ?w es [])"
    by (auto simp: ig1_def loaded_dirs_def w intro: loaded_subset)
  have "enterDir env ?w ig (abs_path es) (Base (abs_path es)) = Some ig1"
    by (simp add: enterDir_def ig1_def w)
  then have "found = fst (walk_kids env ?w (abs_path es) kids ig1)"
    using q assms(1) d unfolding found_def walkSearch_def
    by (simp add: starts_at_def Let_def from_cwd_abs es ig_def walk_state_def cong: option.case_cong)
  moreover have k: "distinct (map fst kids)" "list_all (\<lambda>e. name_ok (fst e) \<and> wf_tree (snd e)) kids" using wf d by simp_all
  ultimately show ?thesis
    using walk_visits(2) [OF w _ _ k l] walk_distinct(2) [OF w _ _ k l] es found_below_dir [OF k(1)] d by simp
qed


subsection \<open>glob\<close>

definition newer_first :: "string \<times> nat \<Rightarrow> string \<times> nat \<Rightarrow> bool" where
  "newer_first a b \<longleftrightarrow> snd b < snd a \<or> snd a = snd b \<and> fst a \<le> fst b"

lemma sort_entries_sorted: "sorted_wrt newer_first (sort_entries es)"
proof -
  have "sorted (map (\<lambda>(p, tm). (- int tm, p)) (sort_entries es))"
    by (simp add: sort_entries_def del: sorted_map)
  then have "sorted_wrt (\<lambda>a b. (case a of (p, tm) \<Rightarrow> (- int tm, p)) \<le> (case b of (p, tm) \<Rightarrow> (- int tm, p))) (sort_entries es)"
    by (simp add: sorted_map)
  then show ?thesis by (rule sorted_wrt_mono_rel [rotated]) (auto simp: newer_first_def less_eq_prod_def)
qed

lemma cap_loop_prefix: "cap_loop n used es = (out, ct) \<Longrightarrow> if ct then prefix out es else out = es"
  by (induction es arbitrary: used out ct) (auto simp: Let_def split: if_splits prod.splits)

text \<open>What a cut leaves of a list of entries: the first of them whole, or the first one cut.\<close>

definition shortened :: "int \<Rightarrow> string list \<Rightarrow> string list \<Rightarrow> bool" where
  "shortened n out full \<longleftrightarrow> prefix out full \<or> full \<noteq> [] \<and> out = [Head (hd full) n]"

lemma capEntries_shortened: "capEntries es n = (out, ct) \<Longrightarrow> if ct then shortened n out es else out = es"
  using cap_loop_prefix [of n 0 es out ct]
  by (auto simp: capEntries_def shortened_def split: if_splits list.splits)

lemma shortened_take: "shortened n out (take k full) \<Longrightarrow> shortened n out full"
  using prefix_order.trans [OF _ take_is_prefix, of out k full]
  by (cases "k = 0 \<or> full = []") (auto simp: shortened_def hd_take)

lemma rel_elems_below: "rel_elems es (es @ ps) = ps"
  by (induction es) (cases ps, auto)

text \<open>The files below a root that a matcher of paths relative to it accepts, with their times.\<close>

definition matching :: "search_env \<Rightarrow> tool_options \<Rightarrow> string list \<Rightarrow> dtree \<Rightarrow> regex \<Rightarrow> (string \<times> nat) set" where
  "matching env opt es d m =
     {(abs_path (es @ ps), tree_time u) | ps u.
        visible env (walk_state opt es) es d ps \<and> subtree d ps = Some u \<and> rx_match m (go_join ps slash) \<and>
        fault (disk_of env) OpStat (abs_path (es @ ps)) = None}"

lemma glob_entries_matching:
  assumes "starts_at env opt arg es d" and "is_dir d" and "set found = found_below env (walk_state opt es) es d"
  shows "set (glob_entries env (abs_path es) m found) = matching env opt es d m"
proof -
  have es: "list_all name_ok es" and wf: "wf_tree d"
    using assms(1) wf_subtree by (auto simp: starts_at_def split: sum.splits)
  have rel: "normalizeRelativePath (abs_path es) (abs_path (es @ ps)) = go_join ps slash"
    if "visible env (walk_state opt es) es d ps" "subtree d ps = Some u" for ps u
  proof -
    have "list_all name_ok (es @ ps)" using subtree_names [OF wf that(2)] es by simp
    moreover have "ps \<noteq> []" using that(1) assms(2) by auto
    ultimately show ?thesis using es by (simp add: normalizeRelativePath_def Rel_abs_path rel_elems_below Let_def)
  qed
  have "(x, tm) \<in> set (glob_entries env (abs_path es) m found) \<longleftrightarrow> (x, tm) \<in> matching env opt es d m" for x tm
    unfolding glob_entries_def assms(3) set_map set_filter found_below_def matching_def
    using rel by (auto simp: image_iff)
  then show ?thesis by auto
qed

text \<open>
  C28: A \<open>glob\<close> over a directory lists every visible file that matches its pattern and nothing else, newest
  first; only an answer that says it is truncated leaves out any, and then it holds the first of them.
\<close>

theorem glob_lists_matching_files:
  assumes "starts_at env opt arg es d" and "is_dir d"
    and "compileGlobMatcher (se_regexp env) pattern = Inr m"
  shows "\<exists>out full. glob env opt pattern arg = Inr out \<and> set full = matching env opt es d m \<and>
    distinct (map fst full) \<and> sorted_wrt newer_first full \<and>
    (if gl_truncated out then shortened (maxOutput opt) (gl_paths out) (map fst full)
     else gl_paths out = map fst full)"
proof -
  define found where "found = walkSearch env (abs_path es) (workingDir opt) (readRoots opt) (noIgnore opt)"
  define full where "full = sort_entries (glob_entries env (abs_path es) m found)"
  define tr where "tr = (0 < maxResults opt \<and> maxResults opt < int (length full))"
  define kept where "kept = (if tr then take (nat (maxResults opt)) full else full)"
  obtain out ct where cap: "capEntries (map fst kept) (maxOutput opt) = (out, ct)" by force
  have f: "set found = found_below env (walk_state opt es) es d" "distinct (map fst found)"
    using search_found [OF assms(1,2)] by (simp_all add: found_def)
  have "\<not> blank pattern" using assms(3) by (auto simp: compileGlobMatcher_def blank_def Let_def split: if_splits)
  then have g: "glob env opt pattern arg = Inr \<lparr>gl_paths = out, gl_truncated = tr \<or> ct\<rparr>"
    using assms(1,3) cap by (simp add: glob_def starts_at_def Let_def found_def [symmetric] full_def [symmetric] tr_def [symmetric] kept_def [symmetric])
  have s: "set full = matching env opt es d m"
    using glob_entries_matching [OF assms(1,2) f(1)] by (simp add: full_def sort_entries_def)
  have "distinct (map fst (glob_entries env (abs_path es) m found))"
    using f(2) by (simp add: glob_entries_def comp_def case_prod_beta' distinct_map inj_on_def)
  then have "distinct (map fst full)" by (simp add: full_def sort_entries_def distinct_map)
  moreover have "if tr \<or> ct then shortened (maxOutput opt) out (map fst full) else out = map fst full"
    using capEntries_shortened [OF cap] shortened_take [of "maxOutput opt" out "nat (maxResults opt)" "map fst full"]
    by (auto simp: kept_def take_map shortened_def take_is_prefix split: if_splits)
  ultimately show ?thesis using g s sort_entries_sorted [of "glob_entries env (abs_path es) m found"]
    by (auto simp: full_def [symmetric])
qed


subsection \<open>grep\<close>

text \<open>What a file adds to the output of a search, and what a search gives that is not cut.\<close>

definition entries_of :: "fs \<Rightarrow> (string \<Rightarrow> string \<Rightarrow> string list) \<Rightarrow> string \<Rightarrow> string list" where
  "entries_of s matches p =
     (case read_file s p of Inl e \<Rightarrow> [] | Inr content \<Rightarrow> if isBinary content then [] else matches p content)"

lemma grep_files_Cons:
  "grep_files s matches limit out (p # files) =
     (let out1 = out @ entries_of s matches p in
      if entries_of s matches p \<noteq> [] \<and> 0 < limit \<and> limit < int (length out1) then (take (nat limit) out1, True)
      else grep_files s matches limit out1 files)"
  if "\<not> (0 < limit \<and> limit < int (length out))"
  using that by (auto simp: entries_of_def Let_def split: sum.splits)

lemma grep_files_all:
  "\<not> (0 < limit \<and> limit < int (length out)) \<Longrightarrow>
   grep_files s matches limit out files =
     (let full = out @ concat (map (entries_of s matches) files) in
      if 0 < limit \<and> limit < int (length full) then (take (nat limit) full, True) else (full, False))"
proof (induction files arbitrary: out)
  case (Cons p files)
  show ?case
  proof (cases "entries_of s matches p \<noteq> [] \<and> 0 < limit \<and> limit < int (length (out @ entries_of s matches p))")
    case True
    then have "limit < int (length out) + int (length (entries_of s matches p))" by simp
    then have "nat limit \<le> length out + length (entries_of s matches p)" by linarith
    then show ?thesis using True by (simp add: grep_files_Cons [OF Cons.prems] Let_def del: grep_files.simps)
  next
    case False
    then have "\<not> (0 < limit \<and> limit < int (length (out @ entries_of s matches p)))" using Cons.prems by auto
    from Cons.IH [OF this] False show ?thesis by (auto simp: grep_files_Cons [OF Cons.prems] Let_def simp del: grep_files.simps)
  qed
qed (simp add: Let_def)

text \<open>
  A \<open>grep\<close> over a directory reads every visible file its filters select, in the order of their paths, and
  gives what each of them adds; only an answer that says it is truncated is cut, at its limit or its cap.
\<close>

theorem grep_lists_matches:
  assumes "starts_at env opt (gi_path inp) es d" and "is_dir d"
  shows "\<exists>files. sorted files \<and> distinct files \<and>
    set files = {p. p \<in> fst ` found_below env (walk_state opt es) es d \<and> grep_selected (abs_path es) inp gm p} \<and>
    (let full = concat (map (entries_of (disk_of env) (grep_file inp mode re)) files);
         out = grep_search env opt inp mode re (abs_path es) gm
     in if gr_truncated out then shortened (maxOutput opt) (gr_output out) full else gr_output out = full)"
proof -
  define found where "found = walkSearch env (abs_path es) (workingDir opt) (readRoots opt) (noIgnore opt)"
  define files where "files = sort (filter (grep_selected (abs_path es) inp gm) (map fst found))"
  define full where "full = concat (map (entries_of (disk_of env) (grep_file inp mode re)) files)"
  define lim where "lim = grep_limit (maxResults opt) (gi_head_limit inp)"
  obtain out ct where cap: "capEntries (if 0 < lim \<and> lim < int (length full) then take (nat lim) full else full) (maxOutput opt) = (out, ct)"
    by force
  have f: "set found = found_below env (walk_state opt es) es d" "distinct (map fst found)"
    using search_found [OF assms(1,2)] by (simp_all add: found_def)
  have "grep_files (disk_of env) (grep_file inp mode re) lim [] files =
      (if 0 < lim \<and> lim < int (length full) then (take (nat lim) full, True) else (full, False))"
    using grep_files_all [of lim "[]" "disk_of env" "grep_file inp mode re" files] by (simp add: full_def Let_def)
  then have g: "grep_search env opt inp mode re (abs_path es) gm =
      \<lparr>gr_output = out, gr_truncated = (0 < lim \<and> lim < int (length full)) \<or> ct\<rparr>"
    using cap by (auto simp: grep_search_def found_def [symmetric] files_def [symmetric] lim_def [symmetric] Let_def split: if_splits)
  have "if gr_truncated (grep_search env opt inp mode re (abs_path es) gm)
      then shortened (maxOutput opt) (gr_output (grep_search env opt inp mode re (abs_path es) gm)) full
      else gr_output (grep_search env opt inp mode re (abs_path es) gm) = full"
    using g capEntries_shortened [OF cap] shortened_take [of "maxOutput opt" out "nat lim" full]
    by (auto simp: shortened_def take_is_prefix split: if_splits)
  moreover have "sorted files" "distinct files"
    "set files = {p. p \<in> fst ` found_below env (walk_state opt es) es d \<and> grep_selected (abs_path es) inp gm p}"
    using f by (auto simp: files_def)
  ultimately show ?thesis unfolding full_def Let_def by blast
qed

subsection \<open>A tree to search\<close>

definition demo_regexp :: regexp where
  "demo_regexp t = Inr \<lparr>rx_match = (\<lambda>s. has_suffix s (if go_contains t ''log'' then ''.log'' else ''.go'')), rx_all = (\<lambda>s. [])\<rparr>"

definition demo_search :: search_env where
  "demo_search =
     \<lparr>se_fs = \<lparr>nodes = (\<lambda>_. None), clock = 9, cwd = ''/'', written = 0, suffixes = (\<lambda>_. 0), fault = (\<lambda>_ _. None)\<rparr>,
      se_tree = DirT 493 [(''w'', DirT 493 [(''.gitignore'', FileT (''*.log'' @ linefeed) 1 420), (''a.go'', FileT ''x'' 5 420),
         (''b.log'', FileT ''y'' 6 420), (''sub'', DirT 493 [(''c.go'', FileT ''z'' 7 420)])])],
      se_hidden = (\<lambda>_ _. False), se_regexp = demo_regexp\<rparr>"

definition demo_search_options :: tool_options where
  "demo_search_options = applyOptions [WithWorkingDirectory ''/w'']"

lemma demo_starts: "starts_at demo_search demo_search_options ''/w'' [''w'']
   (DirT 493 [(''.gitignore'', FileT (''*.log'' @ linefeed) 1 420), (''a.go'', FileT ''x'' 5 420),
         (''b.log'', FileT ''y'' 6 420), (''sub'', DirT 493 [(''c.go'', FileT ''z'' 7 420)])])"
  by code_simp

lemma demo_matcher: "\<exists>m. compileGlobMatcher (se_regexp demo_search) ''**/*.go'' = Inr m \<and> rx_match m ''sub/c.go''"
proof -
  have "trim_space ''**/*.go'' = ''**/*.go''" by code_simp
  then show ?thesis by (simp add: compileGlobMatcher_def demo_search_def demo_regexp_def) code_simp
qed

theorem glob_lists_matching_files_witness:
  "\<exists>d m out full. starts_at demo_search demo_search_options ''/w'' [''w''] d \<and>
     glob demo_search demo_search_options ''**/*.go'' ''/w'' = Inr out \<and>
     set full = matching demo_search demo_search_options [''w''] d m \<and> sorted_wrt newer_first full"
proof -
  obtain m where m: "compileGlobMatcher (se_regexp demo_search) ''**/*.go'' = Inr m" using demo_matcher by blast
  from glob_lists_matching_files [OF demo_starts _ m] demo_starts show ?thesis by (auto intro!: exI)
qed


definition demo_grep :: grep_input where
  "demo_grep = \<lparr>gi_pattern = ''x'', gi_path = ''/w'', gi_mode = [], gi_glob = [], gi_type = ''go'', gi_I = False, gi_N = False,
     gi_A = 0, gi_B = 0, gi_C = 0, gi_multiline = False, gi_head_limit = 0\<rparr>"

theorem grep_lists_matches_witness:
  "\<exists>d files out. starts_at demo_search demo_search_options (gi_path demo_grep) [''w''] d \<and>
     grep_search demo_search demo_search_options demo_grep mode_files \<lparr>rx_match = (\<lambda>s. s = ''x''), rx_all = (\<lambda>s. [])\<rparr> ''/w'' None = out \<and>
     sorted files \<and> set files = {p. p \<in> fst ` found_below demo_search (walk_state demo_search_options [''w'']) [''w''] d \<and>
       grep_selected ''/w'' demo_grep None p}"
proof -
  let ?re = "\<lparr>rx_match = (\<lambda>s. s = ''x''), rx_all = (\<lambda>s. [])\<rparr>"
  have p: "gi_path demo_grep = ''/w''" "abs_path [''w''] = ''/w''" by code_simp+
  from grep_lists_matches [of demo_search demo_search_options demo_grep "[''w'']" _ None mode_files ?re] demo_starts
  show ?thesis unfolding p by fastforce
qed

end
