(* ===== verification/Search_Safe.thy ===== *)
theory Search_Safe
  imports Search_Correct
begin

section \<open>What a search may read\<close>

text \<open>
  A search reads no file outside the working directory and the read-only roots, however links lie: the
  root of a search is inside one of them, the walk crosses no link below it, and a link that it gives
  to \<open>fn\<close> has been resolved to a place inside.
\<close>

subsection \<open>Lookups\<close>

lemma namei_follow:
  "namei ns fl n d cs = Inr q \<Longrightarrow> \<not> is_link ns q \<Longrightarrow> namei ns True n d cs = Inr q"
proof (induction ns fl n d cs rule: namei.induct)
  case (2 ns fl n d c cs)
  note step = "2.prems"(1)[unfolded namei.simps(2)[of ns fl n d c cs]]
  consider "c = '''' \<or> c = ''.''" | "c \<noteq> ''''" "c \<noteq> ''.''" "c = ''..''"
    | "c \<noteq> ''''" "c \<noteq> ''.''" "c \<noteq> ''..''"
    by blast
  then show ?case
  proof cases
    case 3
    then obtain nd where nd: "ns (d @ [c]) = Some nd" using step by (auto split: option.splits)
    show ?thesis
    proof (cases nd)
      case (Folder m)
      then show ?thesis using 3 nd step "2.IH"(3)[of nd m] "2.prems"(2) by (simp add: namei.simps(2)[of ns True n d c cs])
    next
      case (Regular t tm m)
      then show ?thesis using 3 nd step by (simp add: namei.simps(2)[of ns True n d c cs])
    next
      case (Symlink t)
      then have "\<not> (cs = [] \<and> \<not> fl)" using 3 nd step "2.prems"(2) by (auto simp: is_link_def split: if_splits)
      then show ?thesis using 3 nd step Symlink "2.IH"(4)[of nd t] "2.prems"(2)
        by (auto simp: namei.simps(2)[of ns True n d c cs] split: if_splits)
    qed
  qed (use step "2.IH"(1,2) "2.prems"(2) in \<open>auto simp: namei.simps(2)[of ns True n d c cs]\<close>)
qed simp

lemma namei_through:
  "namei ns True n d as = Inr q \<Longrightarrow> wf_nodes ns \<Longrightarrow> is_folder ns d \<Longrightarrow> is_folder ns q \<Longrightarrow>
     \<exists>n'. \<forall>bs. namei ns True n d (as @ bs) = namei ns True n' q bs"
proof (induction ns "True" n d as rule: namei.induct)
  case (1 ns n d)
  then show ?case by auto
next
  case (2 ns n d c cs)
  note step = "2.prems"(1)[unfolded namei.simps(2)[of ns True n d c cs]]
  have up: "is_folder ns (butlast d)" and root: "is_folder ns []"
    using "2.prems" wf_butlast by (auto simp: wf_nodes_def)
  consider "c = '''' \<or> c = ''.''" | "c \<noteq> ''''" "c \<noteq> ''.''" "c = ''..''"
    | "c \<noteq> ''''" "c \<noteq> ''.''" "c \<noteq> ''..''"
    by blast
  then show ?case
  proof cases
    case 3
    then obtain nd where nd: "ns (d @ [c]) = Some nd" using step by (auto split: option.splits)
    show ?thesis
    proof (cases nd)
      case (Folder m)
      then have "is_folder ns (d @ [c])" using nd by (simp add: is_folder_def)
      then show ?thesis using 3 nd step Folder "2.hyps"(3)[of nd m] "2.prems"
        by (simp add: namei.simps(2)[of ns True n d c])
    next
      case (Regular t tm m)
      then show ?thesis using 3 nd step "2.prems"(4) by (auto simp: is_folder_def split: if_splits)
    next
      case (Symlink t)
      then have "n \<noteq> 0" "namei ns True (n - 1) (if IsAbs t then [] else d) (path_elems t @ cs) = Inr q"
        using 3 nd step by (auto split: if_splits)
      then show ?thesis using 3 nd Symlink "2.hyps"(4)[of nd t] "2.prems" root
        by (simp add: namei.simps(2)[of ns True n d c])
    qed
  next
    case 1
    then show ?thesis using step "2.hyps"(1) "2.prems" by (simp add: namei.simps(2)[of ns True n d c])
  next
    case 2
    then show ?thesis using step "2.hyps"(2) "2.prems" up by (simp add: namei.simps(2)[of ns True n d c])
  qed
qed

text \<open>A lookup of a file of a tree below a place where a lookup found a subtree.\<close>

lemma tree_nodes_subtree: "subtree t q = Some u \<Longrightarrow> tree_nodes t q = Some (tree_node u)"
  by (simp add: tree_nodes_def)

lemma namei_below:
  assumes wf: "wf_tree t" "is_dir t" and es: "namei (tree_nodes t) False n [] es = Inr q0"
    and d0: "subtree t q0 = Some d0" and d: "subtree d0 ps = Some (FileT c tm m)"
  shows "namei (tree_nodes t) True n [] (es @ ps) = Inr (q0 @ ps)"
proof -
  have wn: "wf_nodes (tree_nodes t)" by (rule tree_nodes_wf [OF wf])
  have u: "subtree t (q0 @ ps) = Some (FileT c tm m)" using d0 d by (simp add: subtree_append)
  have nl: "\<not> is_link (tree_nodes t) q0"
    using d0 d by (cases d0; cases ps) (auto simp: is_link_def tree_nodes_def)
  have q0: "namei (tree_nodes t) True n [] es = Inr q0" by (rule namei_follow [OF es nl])
  show ?thesis
  proof (cases "ps = []")
    case False
    then have "is_dir d0" using d by (cases d0; cases ps) auto
    then have f: "is_folder (tree_nodes t) q0" using d0 by (cases d0) (auto simp: is_folder_def tree_nodes_def)
    obtain n' where n': "namei (tree_nodes t) True n [] (es @ ps) = namei (tree_nodes t) True n' q0 ps"
      using namei_through [OF q0 wn _ f] wn by (auto simp: wf_nodes_def)
    have "namei (tree_nodes t) True n' q0 ps = Inr (q0 @ ps)"
    proof (rule namei_real [OF wn _ f])
      show "list_all name_ok ps" using subtree_names [OF wf(1) u] by simp
      show "is_folder (tree_nodes t) (q0 @ e @ [c'])" if p: "prefix (e @ [c']) ps" "e @ [c'] \<noteq> ps" for e c'
      proof -
        obtain r where r: "ps = (e @ [c']) @ r" using p(1) by (auto simp: prefix_def)
        then have "tree_nodes t ((q0 @ e @ [c']) @ r) = Some (Regular c tm m)" "r \<noteq> []"
          using u p(2) by (auto simp: tree_nodes_def)
        then show ?thesis using wf_above [OF wn] by blast
      qed
    qed (use u in \<open>simp add: tree_nodes_def is_link_def\<close>)
    then show ?thesis using n' by simp
  qed (use q0 in simp)
qed

lemma namei_of_resolved:
  assumes wn: "wf_nodes ns" and r: "resolved ns es" and q: "namei ns False n [] es = Inr q" and nl: "\<not> is_link ns q"
  shows "q = es"
proof -
  have t: "namei ns True n [] es = Inr q" by (rule namei_follow [OF q nl])
  obtain p ks nd where p: "es = p @ ks" "ns p = Some nd" "\<not> is_link ns p"
    "ks = [] \<or> is_folder ns p \<and> (ns (p @ [hd ks]) = None \<or> dangling ns (p @ [hd ks]))" and ok: "list_all name_ok es"
    using r unfolding resolved_def by blast
  have "ks = []"
  proof (rule ccontr)
    assume ks: "ks \<noteq> []"
    then have "es = (p @ [hd ks]) @ tl ks" using p(1) by simp
    then obtain x where x: "namei ns True n [] (p @ [hd ks]) = Inr x" using namei_prefix t by metis
    have f: "is_folder ns p" and m: "ns (p @ [hd ks]) = None" using p(4) ks x by (auto simp: dangling_def)
    have "namei ns True n [] (p @ [hd ks]) = namei ns True n p [hd ks]"
      using namei_from_folder [of ns "[]" p True n "[hd ks]"] wn f by simp
    then show False using x m ok p(1) ks by (cases ks) (auto simp: namei.simps(2) name_ok_def)
  qed
  then show ?thesis using namei_existing [OF wn p(2), of False n] p(1) q by simp
qed


subsection \<open>Where a search starts\<close>

text \<open>A place that lies in the directory that a path leads to.\<close>

definition lies_in :: "fs \<Rightarrow> string \<Rightarrow> string list \<Rightarrow> bool" where
  "lies_in s base q \<longleftrightarrow> (\<exists>n w. namei (nodes s) True n [] (from_cwd s (Abs s (Clean base))) = Inr w \<and> prefix w q)"

lemma EvalSymlinks_place:
  assumes "wf_nodes (nodes s)" and "EvalSymlinks s p = Inr (abs_path w)" and "list_all name_ok w"
  shows "namei (nodes s) True eval_links [] (from_cwd s p) = Inr w"
proof -
  obtain q nd where q: "abs_path w = abs_path q" "nodes s q = Some nd" "namei (nodes s) True eval_links [] (from_cwd s p) = Inr q"
    using EvalSymlinks_form [OF assms(1,2)] by metis
  then have "w = q" using abs_path_inj [OF assms(3) wf_names [OF assms(1) q(2)]] by simp
  then show ?thesis using q by simp
qed

lemma lies_in_prefix:
  assumes "wf_nodes (nodes s)" and "EvalSymlinks s (Abs s (Clean base)) = Inr (abs_path w)" and "prefix w q" and "list_all name_ok q"
  shows "lies_in s base q"
proof -
  have "list_all name_ok w" using assms(3,4) by (auto simp: prefix_def)
  from EvalSymlinks_place [OF assms(1,2) this] assms(3) show ?thesis by (auto simp: lies_in_def)
qed

lemma Abs_abs_path:
  assumes c: "IsAbs (cwd s)"
  obtains es where "list_all name_ok es" "Abs s p = abs_path es"
proof -
  have "\<exists>x. IsAbs x \<and> Abs s p = Clean x"
  proof (cases "IsAbs p")
    case False
    have "cwd s \<noteq> []" using c by (auto simp: IsAbs_def has_prefix_def slash_def)
    then have "Abs s p = Clean (go_join [cwd s, p] slash)" using False by (simp add: Abs_def Join_def)
    moreover have "IsAbs (go_join [cwd s, p] slash)" using c by (auto simp: IsAbs_def has_prefix_iff)
    ultimately show ?thesis by blast
  qed (auto simp: Abs_def)
  then show ?thesis using Clean_abs that by metis
qed

lemma resolveSearchRoot_place:
  assumes wn: "wf_nodes (nodes s)" and c: "IsAbs (cwd s)" and b: "\<not> blank base" and r: "resolveSearchRoot s base arg = Inr root"
  obtains (working) "root = Abs s (Clean base)"
    | (inside) es w where "root = abs_path es" "resolved (nodes s) es" "EvalSymlinks s (Abs s (Clean base)) = Inr (abs_path w)" "prefix w es"
proof (cases "blank arg")
  case True
  then show ?thesis using r b working by (simp add: resolveSearchRoot_def)
next
  case False
  define cand where "cand = Abs s (if IsAbs (Clean arg) then Clean arg else Join [base, Clean arg])"
  obtain rw where rw: "EvalSymlinks s (Abs s (Clean base)) = Inr rw" "resolvePathWithSymlinks s cand = Inr root" "\<not> outside (Rel rw root)"
    using r b False by (auto simp: resolveSearchRoot_def Let_def cand_def split: sum.splits if_splits)
  obtain cs where cs: "list_all name_ok cs" "Clean cand = abs_path cs"
    using Abs_abs_path [OF c] Clean_abs_path unfolding cand_def by metis
  have "resolve_links_loop s (abs_path cs) [] = Inr root" using rw(2) cs(2) by (simp add: resolvePathWithSymlinks_def)
  then obtain es where es: "root = abs_path es" "resolved (nodes s) es"
    using resolve_links_loop_resolved [OF wn cs(1), of "[]" root] by auto
  obtain w nd where w: "rw = abs_path w" "nodes s w = Some nd" using EvalSymlinks_form [OF wn rw(1)] by metis
  have "prefix w es" using rw(3) outside_Rel [OF wf_names [OF wn w(2)], of es] es w(1) by (auto simp: resolved_def)
  then show ?thesis using inside es rw(1) w(1) by blast
qed

lemma first_root_Some: "first_root f roots = Some r \<Longrightarrow> \<exists>b \<in> set roots. f b = Inr r"
  by (induction roots) (auto split: sum.splits)

lemma resolveSearchRootIn_base:
  assumes "resolveSearchRootIn s wd roots arg = Inr root"
  shows "\<exists>b \<in> set (wd # roots). resolveSearchRoot s b arg = Inr root"
  using assms first_root_Some [of "\<lambda>b. resolveSearchRoot s b arg" roots root]
  by (auto simp: resolveSearchRootIn_def split: sum.splits file_err.splits if_splits option.splits)

lemma resolveReadPath_base:
  assumes "resolveReadPath s wd roots p = Inr r"
  shows "\<exists>b \<in> set (wd # roots). resolveToolPath s b p = Inr r"
  using assms first_root_Some [of "\<lambda>b. resolveToolPath s b p" roots r]
  by (auto simp: resolveReadPath_def split: sum.splits file_err.splits option.splits)

subsection \<open>What the walk gives\<close>

definition walk_hit :: "search_env \<Rightarrow> search_walk \<Rightarrow> string list \<Rightarrow> (string \<times> dtree) list \<Rightarrow> string \<Rightarrow> dtree \<Rightarrow> bool" where
  "walk_hit env w es kids p u \<longleftrightarrow>
     (\<exists>c k ps. (c, k) \<in> set kids \<and> p = abs_path (es @ c # ps) \<and> subtree k ps = Some u \<and> \<not> is_dir u \<and>
       (\<forall>t tm. u = LinkT t tm \<longrightarrow> link_ok env w (es @ c # ps)))"

lemma walk_hit_Cons: "walk_hit env w es kids p u \<Longrightarrow> walk_hit env w es (e # kids) p u"
  unfolding walk_hit_def list.set(2) by blast

lemma walk_files:
  "(p, u) \<in> set (fst (walk env w x name d ig)) \<Longrightarrow> x = abs_path es \<Longrightarrow> list_all name_ok es \<Longrightarrow> wf_tree d \<Longrightarrow>
     \<exists>ps. p = abs_path (es @ ps) \<and> subtree d ps = Some u \<and> \<not> is_dir u \<and> (\<forall>t tm. u = LinkT t tm \<longrightarrow> link_ok env w (es @ ps))"
  "(p, u) \<in> set (fst (walk_kids env w x kids ig)) \<Longrightarrow> x = abs_path es \<Longrightarrow> list_all name_ok es \<Longrightarrow>
     distinct (map fst kids) \<Longrightarrow> list_all (\<lambda>e. name_ok (fst e) \<and> wf_tree (snd e)) kids \<Longrightarrow>
     walk_hit env w es kids p u"
proof (induction env w x name d ig and env w x kids ig arbitrary: es and es rule: walk_walk_kids.induct [case_names in_dir in_file in_link no_kids kids])
  case (in_dir env w x name mode kids ig)
  then obtain ig1 where e: "enterDir env w ig x name = Some ig1" by (cases "enterDir env w ig x name") auto
  have m: "(p, u) \<in> set (fst (walk_kids env w x kids ig1))" using in_dir(2) e by simp
  have ok: "distinct (map fst kids)" "list_all (\<lambda>e. name_ok (fst e) \<and> wf_tree (snd e)) kids" using in_dir(5) by simp_all
  from in_dir(1) [OF e m in_dir(3,4) ok] obtain c k ps where k: "(c, k) \<in> set kids" "p = abs_path (es @ c # ps)" "subtree k ps = Some u" "\<not> is_dir u"
    "\<forall>t tm. u = LinkT t tm \<longrightarrow> link_ok env w (es @ c # ps)" unfolding walk_hit_def by blast
  then have "subtree (DirT mode kids) (c # ps) = Some u" using in_dir(5) by simp
  then show ?case using k by blast
next
  case (in_file env w x name content tm mode ig)
  then show ?case by (auto split: if_splits intro: exI [of _ "[]"])
next
  case (in_link env w x name target tm ig)
  then show ?case by (auto simp: skipFile_def link_ok_def split: if_splits sum.splits intro!: exI [of _ "[]"])
next
  case (kids env w x n d kids ig)
  show ?case
  proof (cases "se_hidden env x n")
    case True
    then have "walk_hit env w es kids p u" using kids(4-8) by (intro kids(1)) auto
    then show ?thesis by (rule walk_hit_Cons)
  next
    case False
    have j: "Join [x, n] = abs_path (es @ [n])" using kids(5,6,8) Join_abs_path [of es n] by simp
    obtain found ig1 where w1: "walk env w (Join [x, n]) n d ig = (found, ig1)" by force
    obtain rest ig2 where w2: "walk_kids env w x kids ig1 = (rest, ig2)" by force
    consider "(p, u) \<in> set found" | "(p, u) \<in> set rest" using kids(4) False w1 w2 by auto
    then show ?thesis
    proof cases
      case 1
      then have "\<exists>ps. p = abs_path ((es @ [n]) @ ps) \<and> subtree d ps = Some u \<and> \<not> is_dir u \<and>
          (\<forall>t tm. u = LinkT t tm \<longrightarrow> link_ok env w ((es @ [n]) @ ps))"
        using kids(2) [OF False _ j] kids(6,8) w1 by simp
      then show ?thesis unfolding walk_hit_def by (intro exI [of _ n] exI [of _ d]) auto
    next
      case 2
      then have "walk_hit env w es kids p u" using kids(3) [OF False w1 [symmetric] refl, of es] w2 kids(5-8) by simp
      then show ?thesis by (rule walk_hit_Cons)
    qed
  qed
qed simp


subsection \<open>Reads stay inside\<close>

lemma link_read_inside:
  assumes wn: "wf_nodes (nodes s)" and es: "list_all name_ok es"
    and r: "resolveToolPath s base (abs_path es) = Inr r" and b: "base \<noteq> []"
    and q: "namei (nodes s) True kernel_links [] es = Inr q"
  shows "lies_in s base q"
proof -
  obtain t w nd where t: "r = abs_path t" "resolved (nodes s) t" "EvalSymlinks s (Abs s (Clean base)) = Inr (abs_path w)" "prefix w t"
    using resolveToolPath_resolved [OF wn r] b by metis
  have loop: "resolve_links_loop s (abs_path es) [] = Inr r"
    using r es b by (auto simp: resolveToolPath_def Let_def Abs_def resolvePathWithSymlinks_def split: sum.splits if_splits)
  have "EvalSymlinks s (abs_path es) \<noteq> Inl ENOENT"
  proof
    assume h: "EvalSymlinks s (abs_path es) = Inl ENOENT"
    from EvalSymlinks_namei [OF EvalSymlinks_ENOENT [OF h] es] h namei_limit [OF q, of eval_links]
    show False by auto
  qed
  then have e: "EvalSymlinks s (abs_path es) = Inr r'" if "r' = r" for r'
  proof -
    have "\<exists>x. EvalSymlinks s (abs_path es) = Inr x \<and> Clean x = r"
      using loop \<open>EvalSymlinks s (abs_path es) \<noteq> Inl ENOENT\<close>
      by (subst (asm) resolve_links_loop.simps) (auto split: sum.splits if_splits)
    then obtain x where x: "EvalSymlinks s (abs_path es) = Inr x" "Clean x = r" by blast
    then obtain y nd where "x = abs_path y" "nodes s y = Some nd" using EvalSymlinks_form [OF wn] by metis
    then have "Clean x = x" using wf_names [OF wn] by simp
    then show ?thesis using x that by simp
  qed
  have ok: "list_all name_ok t" using t(2) by (simp add: resolved_def)
  have "namei (nodes s) True eval_links [] es = Inr t"
    using EvalSymlinks_place [OF wn _ ok, of "abs_path es"] e t(1) es by simp
  then have "t = q" using namei_limit [OF q, of eval_links] by simp
  then show ?thesis using lies_in_prefix [OF wn t(3,4) ok] by simp
qed

text \<open>
  C27: A file that \<open>glob\<close> or \<open>grep\<close> is given by the walk leads, read through whatever links lie on its
  path, to a place in the working directory or in one of the read-only roots.
\<close>

theorem search_stays_inside:
  assumes wf: "wf_tree (se_tree env)" "is_dir (se_tree env)" and cw: "IsAbs (cwd (se_fs env))"
    and b: "list_all (\<lambda>base. \<not> blank base) (wd # roots)"
    and root: "resolveSearchRootIn (disk_of env) wd roots arg = Inr root"
    and p: "(p, u) \<in> set (walkSearch env root wd roots ni)"
    and q: "namei (nodes (disk_of env)) True kernel_links [] (from_cwd (disk_of env) p) = Inr q"
  shows "list_ex (\<lambda>base. lies_in (disk_of env) base q) (wd # roots)"
proof -
  let ?s = "disk_of env"
  have n: "nodes ?s = tree_nodes (se_tree env)" "cwd ?s = cwd (se_fs env)" by (simp_all add: disk_of_def)
  have wn: "wf_nodes (nodes ?s)" using tree_nodes_wf [OF wf] n by simp
  have c: "IsAbs (cwd ?s)" using cw n by simp
  obtain base where base: "base \<in> set (wd # roots)" "resolveSearchRoot ?s base arg = Inr root"
    using resolveSearchRootIn_base [OF root] by blast
  have bb: "\<not> blank base" using b base(1) unfolding list_all_iff by blast
  note place = resolveSearchRoot_place [OF wn c bb base(2)]
  obtain es where es: "root = abs_path es" "list_all name_ok es"
  proof (rule place)
    assume "root = Abs ?s (Clean base)"
    then show thesis using Abs_abs_path [OF c] that by metis
  qed (use that in \<open>auto simp: resolved_def\<close>)
  obtain q0 d0 ig where d0: "namei (nodes ?s) False kernel_links [] es = Inr q0" "subtree (se_tree env) q0 = Some d0"
      "(p, u) \<in> set (fst (walk env \<lparr>sw_root = root, sw_workingDir = wd, sw_readRoots = roots, sw_noIgnore = ni\<rparr> root (Base root) d0 ig))"
  proof -
    have f: "fault ?s OpStat root = None" using p by (auto simp: walkSearch_def Let_def split: option.splits)
    obtain q0 where q0: "namei (nodes ?s) False kernel_links [] es = Inr q0"
      using p f es by (cases "namei (nodes ?s) False kernel_links [] es") (auto simp: walkSearch_def Let_def)
    obtain d0 where d0: "subtree (se_tree env) q0 = Some d0"
      using p f es q0 by (cases "subtree (se_tree env) q0") (auto simp: walkSearch_def Let_def)
    let ?ig = "if ni then None else Some (newIgnorer (se_regexp env) ?s root)"
    show thesis using p f es q0 d0 by (intro that [OF q0 d0, of ?ig]) (simp add: walkSearch_def Let_def split: if_splits)
  qed
  obtain ps where ps: "p = abs_path (es @ ps)" "subtree d0 ps = Some u" "\<not> is_dir u"
      "\<And>t tm. u = LinkT t tm \<Longrightarrow> link_ok env \<lparr>sw_root = root, sw_workingDir = wd, sw_readRoots = roots, sw_noIgnore = ni\<rparr> (es @ ps)"
    using walk_files(1) [OF d0(3) es wf_subtree [OF wf(1) d0(2)]] by blast
  have names: "list_all name_ok (es @ ps)" using es(2) subtree_names [OF wf_subtree [OF wf(1) d0(2)] ps(2)] by simp
  have q': "namei (nodes ?s) True kernel_links [] (es @ ps) = Inr q" using q ps(1) names by simp
  show ?thesis
  proof (cases u)
    case (LinkT t tm)
    have "wd \<noteq> []" using b by auto
    with ps(4) [OF LinkT] obtain r where "resolveReadPath ?s wd roots (abs_path (es @ ps)) = Inr r"
      by (auto simp: link_ok_def split: sum.splits)
    then obtain base' where b': "base' \<in> set (wd # roots)" "resolveToolPath ?s base' (abs_path (es @ ps)) = Inr r"
      using resolveReadPath_base by blast
    then have "base' \<noteq> []" using b unfolding list_all_iff by force
    from link_read_inside [OF wn names b'(2) this q'] b'(1) show ?thesis unfolding list_ex_iff by blast
  next
    case (FileT content tm m)
    have "namei (tree_nodes (se_tree env)) True kernel_links [] (es @ ps) = Inr (q0 @ ps)"
      using namei_below [OF wf _ d0(2)] d0(1) ps(2) FileT n by simp
    then have qq: "q = q0 @ ps" using q' n by simp
    have nl: "\<not> is_link (nodes ?s) q0"
      using d0(2) ps(2) FileT n by (cases d0; cases ps) (auto simp: is_link_def tree_nodes_def)
    have "lies_in ?s base q0"
    proof (rule place)
      assume "root = Abs ?s (Clean base)"
      then have "namei (nodes ?s) True kernel_links [] (from_cwd ?s (Abs ?s (Clean base))) = Inr q0"
        using namei_follow [OF d0(1) nl] es(2) unfolding \<open>root = Abs ?s (Clean base)\<close> [symmetric] es(1) by simp
      then show ?thesis by (auto simp: lies_in_def)
    next
      fix es' w assume i: "root = abs_path es'" "resolved (nodes ?s) es'" "EvalSymlinks ?s (Abs ?s (Clean base)) = Inr (abs_path w)" "prefix w es'"
      have "es' = es" using i(1,2) es abs_path_inj [of es' es] by (simp add: resolved_def)
      then have "q0 = es" using namei_of_resolved [OF wn _ d0(1) nl] i(2) by simp
      then show ?thesis using lies_in_prefix [OF wn i(3,4)] \<open>es' = es\<close> es(2) by simp
    qed
    then have "lies_in ?s base q" unfolding qq lies_in_def by (auto intro: prefix_prefix)
    then show ?thesis using base(1) unfolding list_ex_iff by blast
  qed (use ps(3) in simp)
qed


text \<open>A link into the working directory and one out of it; only the first is followed.\<close>

definition linked_search :: search_env where
  "linked_search =
     demo_search\<lparr>se_tree := DirT 493
       [(''s'', FileT ''secret'' 1 420),
        (''w'', DirT 493 [(''a'', FileT ''x'' 5 420), (''in'', LinkT ''a'' 2), (''out'', LinkT ''/s'' 3)])]\<rparr>"

theorem search_stays_inside_witness:
  "\<exists>found. walkSearch linked_search ''/w'' ''/w'' [] True = found \<and> map fst found = [''/w/a'', ''/w/in''] \<and>
     lies_in (disk_of linked_search) ''/w'' [''w'', ''a'']"
proof -
  define found where "found = walkSearch linked_search ''/w'' ''/w'' [] True"
  have f: "found = [(''/w/a'', FileT ''x'' 5 420), (''/w/in'', LinkT ''a'' 2)]" unfolding found_def by code_simp
  have wf: "wf_tree (se_tree linked_search)" "is_dir (se_tree linked_search)" "IsAbs (cwd (se_fs linked_search))"
    "list_all (\<lambda>base. \<not> blank base) [''/w'']" by code_simp+
  have root: "resolveSearchRootIn (disk_of linked_search) ''/w'' [] ''/w'' = Inr ''/w''" by code_simp
  have p: "(''/w/in'', LinkT ''a'' 2) \<in> set (walkSearch linked_search ''/w'' ''/w'' [] True)"
    using f by (simp add: found_def [symmetric])
  have q: "namei (nodes (disk_of linked_search)) True kernel_links [] (from_cwd (disk_of linked_search) ''/w/in'') = Inr [''w'', ''a'']"
    by code_simp
  from search_stays_inside [OF wf root p q] f found_def show ?thesis by simp
qed


subsection \<open>Where the code and its comments differ\<close>

text \<open>
  A search without a path in a working directory that is a link finds nothing below it; the same
  search with the path spelled out does.
\<close>

definition link_root_search :: search_env where
  "link_root_search =
     demo_search\<lparr>se_tree := DirT 493 [(''l'', LinkT ''/w'' 2), (''w'', DirT 493 [(''a.go'', FileT ''x'' 5 420)])]\<rparr>"

lemma linked_working_directory_not_searched:
  "resolveSearchRootIn (disk_of link_root_search) ''/l'' [] '''' = Inr ''/l'' \<and>
   walkSearch link_root_search ''/l'' ''/l'' [] True = [(''/l'', LinkT ''/w'' 2)] \<and>
   resolveSearchRootIn (disk_of link_root_search) ''/l'' [] ''/l'' = Inr ''/w'' \<and>
   walkSearch link_root_search ''/w'' ''/l'' [] True = [(''/w/a.go'', FileT ''x'' 5 420)]"
  by (intro conjI; code_simp)

text \<open>Each byte of a character outside ASCII becomes a character of its own in the expression.\<close>

lemma glob_mangles_non_ascii:
  "glob_loop [CHR 0xC3, CHR 0xA9] = [CHR 0xC3, CHR 0x83, CHR 0xC2, CHR 0xA9]"
  by code_simp

text \<open>An entry one byte too long for its separator is returned whole and yet reported as cut.\<close>

lemma whole_entry_reported_cut: "capEntries [''abcd''] 4 = ([''abcd''], True)"
  by code_simp

end
