(* ===== verification/Vector_Filter.thy ===== *)
theory Vector_Filter
  imports Go_Errors Complex_Main
begin

section \<open>Package vectorstore: filters\<close>

text \<open>
  \<open>vectorstore/filter.go\<close>, the reference semantics of a filter, and its translations for two
  backends: \<open>vectorstore/psql/filter.go\<close>, which writes SQL, and \<open>vectorstore/qdrant/filter.go\<close>, which
  builds Qdrant's conditions. A Go value of a payload is a string, a boolean, an integer, a float or
  of another type; a float64 is a rational, an infinity or NaN, and an integer becomes one by rounding
  to 53 bits. A payload is a map. What a backend makes of a condition is an argument of the lemmas.
\<close>

subsection \<open>Values\<close>

datatype f64 = NaN | NInf | Fin rat | PInf

datatype gval = GNil | GStr string | GBool bool | GInt int | GFloat f64 | GOther string

type_synonym payload = "string \<rightharpoonup> gval"

text \<open>The number of bits of a number, and rounding to 53 of them, ties to even.\<close>

fun bit_len :: "nat \<Rightarrow> nat" where
  "bit_len n = (if n = 0 then 0 else Suc (bit_len (n div 2)))"

declare bit_len.simps [simp del]

definition round53 :: "nat \<Rightarrow> nat" where
  "round53 n =
     (if n < 2 ^ 53 then n
      else
        (let e = bit_len n - 53; q = n div 2 ^ e; r = n mod 2 ^ e; half = 2 ^ (e - 1);
             q' = (if half < r \<or> (r = half \<and> odd q) then q + 1 else q)
         in q' * 2 ^ e))"

definition float_of_int :: "int \<Rightarrow> f64" where
  "float_of_int i = Fin (if 0 \<le> i then of_nat (round53 (nat i)) else - of_nat (round53 (nat (- i))))"

definition ToFloat64 :: "gval \<Rightarrow> f64 option" where
  "ToFloat64 v = (case v of GFloat f \<Rightarrow> Some f | GInt i \<Rightarrow> Some (float_of_int i) | _ \<Rightarrow> None)"

definition f_eq :: "f64 \<Rightarrow> f64 \<Rightarrow> bool" where
  "f_eq a b \<longleftrightarrow> a = b \<and> a \<noteq> NaN"

definition f_less :: "f64 \<Rightarrow> f64 \<Rightarrow> bool" where
  "f_less a b \<longleftrightarrow>
     (case (a, b) of
        (Fin x, Fin y) \<Rightarrow> x < y
      | (NInf, Fin y) \<Rightarrow> True
      | (NInf, PInf) \<Rightarrow> True
      | (Fin x, PInf) \<Rightarrow> True
      | _ \<Rightarrow> False)"

definition valuesEqual :: "gval \<Rightarrow> gval \<Rightarrow> bool" where
  "valuesEqual a b \<longleftrightarrow>
     (case ToFloat64 a of
        Some fa \<Rightarrow> (case ToFloat64 b of Some fb \<Rightarrow> f_eq fa fb | None \<Rightarrow> False)
      | None \<Rightarrow>
          (case (a, b) of
             (GStr s, GStr t) \<Rightarrow> s = t
           | (GBool x, GBool y) \<Rightarrow> x = y
           | _ \<Rightarrow> False))"

subsection \<open>Conditions and filters\<close>

datatype op = OpEq | OpNe | OpIn | OpGt | OpGte | OpLt | OpLte | OpOther string

record condition =
  cn_key :: string
  cn_op :: op
  cn_value :: gval
  cn_values :: "gval list"

type_synonym vfilter = "condition list option"

definition cond1 :: "string \<Rightarrow> op \<Rightarrow> gval \<Rightarrow> condition" where
  "cond1 k p v = \<lparr>cn_key = k, cn_op = p, cn_value = v, cn_values = []\<rparr>"

definition NewFilter :: "condition list \<Rightarrow> vfilter" where "NewFilter cs = Some cs"
definition Eq :: "string \<Rightarrow> gval \<Rightarrow> condition" where "Eq k v = cond1 k OpEq v"
definition Ne :: "string \<Rightarrow> gval \<Rightarrow> condition" where "Ne k v = cond1 k OpNe v"
definition In :: "string \<Rightarrow> gval list \<Rightarrow> condition" where
  "In k vs = \<lparr>cn_key = k, cn_op = OpIn, cn_value = GNil, cn_values = vs\<rparr>"
definition Gt :: "string \<Rightarrow> gval \<Rightarrow> condition" where "Gt k v = cond1 k OpGt v"
definition Gte :: "string \<Rightarrow> gval \<Rightarrow> condition" where "Gte k v = cond1 k OpGte v"
definition Lt :: "string \<Rightarrow> gval \<Rightarrow> condition" where "Lt k v = cond1 k OpLt v"
definition Lte :: "string \<Rightarrow> gval \<Rightarrow> condition" where "Lte k v = cond1 k OpLte v"

definition ErrInvalidFilter :: err where
  "ErrInvalidFilter = Sentinel (VarE ''vectorstore.ErrInvalidFilter'' ''invalid filter'')"
definition ErrUnsupportedFilterOp :: err where
  "ErrUnsupportedFilterOp = Sentinel (VarE ''vectorstore.ErrUnsupportedFilterOp'' ''unsupported filter operator'')"

definition check_condition :: "condition \<Rightarrow> err option" where
  "check_condition c =
     (if cn_key c = [] then Some ErrInvalidFilter
      else case cn_op c of
        OpEq \<Rightarrow> if cn_value c = GNil then Some ErrInvalidFilter else None
      | OpNe \<Rightarrow> if cn_value c = GNil then Some ErrInvalidFilter else None
      | OpIn \<Rightarrow> if cn_values c = [] then Some ErrInvalidFilter else None
      | OpOther s \<Rightarrow> Some ErrUnsupportedFilterOp
      | _ \<Rightarrow> if ToFloat64 (cn_value c) = None then Some ErrInvalidFilter else None)"

fun check_conditions :: "condition list \<Rightarrow> err option" where
  "check_conditions [] = None"
| "check_conditions (c # cs) = (case check_condition c of Some e \<Rightarrow> Some e | None \<Rightarrow> check_conditions cs)"

definition Validate_filter :: "vfilter \<Rightarrow> err option" where
  "Validate_filter f = (case f of None \<Rightarrow> None | Some cs \<Rightarrow> check_conditions cs)"

definition range_match :: "op \<Rightarrow> f64 \<Rightarrow> f64 \<Rightarrow> bool" where
  "range_match p got want =
     (case p of
        OpGt \<Rightarrow> f_less want got
      | OpGte \<Rightarrow> f_less want got \<or> f_eq got want
      | OpLt \<Rightarrow> f_less got want
      | _ \<Rightarrow> f_less got want \<or> f_eq got want)"

definition matchCondition :: "condition \<Rightarrow> payload \<Rightarrow> bool" where
  "matchCondition c p =
     (case p (cn_key c) of
        None \<Rightarrow> False
      | Some value \<Rightarrow>
          (case cn_op c of
             OpEq \<Rightarrow> valuesEqual value (cn_value c)
           | OpNe \<Rightarrow> \<not> valuesEqual value (cn_value c)
           | OpIn \<Rightarrow> list_ex (valuesEqual value) (cn_values c)
           | OpOther s \<Rightarrow> False
           | ord \<Rightarrow>
               (case (ToFloat64 value, ToFloat64 (cn_value c)) of
                  (Some got, Some want) \<Rightarrow> range_match ord got want
                | _ \<Rightarrow> False)))"

definition MatchPayload :: "vfilter \<Rightarrow> payload \<Rightarrow> bool" where
  "MatchPayload f p = (case f of None \<Rightarrow> True | Some cs \<Rightarrow> list_all (\<lambda>c. matchCondition c p) cs)"

text \<open>The options of a query.\<close>

definition WithFilter :: "vfilter \<Rightarrow> vfilter \<Rightarrow> vfilter" where "WithFilter f cfg = f"

definition ApplyQueryOptions :: "(vfilter \<Rightarrow> vfilter) option list \<Rightarrow> vfilter" where
  "ApplyQueryOptions opts = fold (\<lambda>opt cfg. case opt of None \<Rightarrow> cfg | Some f \<Rightarrow> f cfg) opts None"

subsection \<open>SQL\<close>

text \<open>
  An argument bound to a placeholder: a key, a document \<open>{key: value}\<close> or a number.
  \<open>json.Marshal\<close> refuses NaN and the infinities; what it says of a value of another type is an argument.
\<close>

datatype sql_arg = ArgText string | ArgDoc string gval | ArgNum f64

definition containmentDoc :: "(string \<Rightarrow> string option) \<Rightarrow> string \<Rightarrow> gval \<Rightarrow> err + sql_arg" where
  "containmentDoc marshal_error key v =
     (let bad = (\<lambda>e. Inl (errorf1 ErrInvalidFilter ('': '' @ e))) in
      case v of
        GFloat NaN \<Rightarrow> bad ''json: unsupported value: NaN''
      | GFloat PInf \<Rightarrow> bad ''json: unsupported value: +Inf''
      | GFloat NInf \<Rightarrow> bad ''json: unsupported value: -Inf''
      | GOther t \<Rightarrow> (case marshal_error t of Some e \<Rightarrow> bad e | None \<Rightarrow> Inr (ArgDoc key v))
      | _ \<Rightarrow> Inr (ArgDoc key v))"

definition sqlComparison :: "op \<Rightarrow> string" where
  "sqlComparison p = (case p of OpGt \<Rightarrow> ''>'' | OpGte \<Rightarrow> ''>='' | OpLt \<Rightarrow> ''<'' | _ \<Rightarrow> ''<='')"

definition placeholder :: "nat \<Rightarrow> string" where "placeholder n = ''$'' @ go_itoa (int n)"

text \<open>The alternatives of an \<open>OpIn\<close>, and a condition: its clause and its arguments, from \<open>next\<close> on.\<close>

fun in_docs :: "(string \<Rightarrow> string option) \<Rightarrow> string \<Rightarrow> nat \<Rightarrow> gval list \<Rightarrow> err + (string list \<times> sql_arg list)" where
  "in_docs enc key n [] = Inr ([], [])"
| "in_docs enc key n (v # vs) =
     (case containmentDoc enc key v of
        Inl e \<Rightarrow> Inl e
      | Inr doc \<Rightarrow>
          (case in_docs enc key (Suc n) vs of
             Inl e \<Rightarrow> Inl e
           | Inr (ors, args) \<Rightarrow> Inr ((''payload @> '' @ placeholder n @ ''::jsonb'') # ors, doc # args)))"

definition sql_clause :: "(string \<Rightarrow> string option) \<Rightarrow> nat \<Rightarrow> condition \<Rightarrow> err + (string \<times> sql_arg list)" where
  "sql_clause enc n c =
     (case cn_op c of
        OpEq \<Rightarrow>
          (case containmentDoc enc (cn_key c) (cn_value c) of
             Inl e \<Rightarrow> Inl e
           | Inr doc \<Rightarrow> Inr ('' AND payload @> '' @ placeholder n @ ''::jsonb'', [doc]))
      | OpNe \<Rightarrow>
          (case containmentDoc enc (cn_key c) (cn_value c) of
             Inl e \<Rightarrow> Inl e
           | Inr doc \<Rightarrow>
               Inr ('' AND (jsonb_exists(payload, '' @ placeholder n @ '') AND NOT payload @> '' @ placeholder (n + 1) @ ''::jsonb)'',
                    [ArgText (cn_key c), doc]))
      | OpIn \<Rightarrow>
          (case in_docs enc (cn_key c) n (cn_values c) of
             Inl e \<Rightarrow> Inl e
           | Inr (ors, args) \<Rightarrow> Inr ('' AND ('' @ go_join ors '' OR '' @ '')'', args))
      | OpOther s \<Rightarrow> Inl ErrUnsupportedFilterOp
      | cmp \<Rightarrow>
          (case ToFloat64 (cn_value c) of
             None \<Rightarrow> Inl ErrInvalidFilter
           | Some f \<Rightarrow>
               Inr ('' AND (jsonb_typeof(payload -> '' @ placeholder n @ '') = '' @ [CHR 0x27] @ ''number'' @ [CHR 0x27] @
                      '' AND (payload ->> '' @ placeholder (n + 1) @ '')::numeric '' @ sqlComparison cmp @ '' '' @ placeholder (n + 2) @ '')'',
                    [ArgText (cn_key c), ArgText (cn_key c), ArgNum f])))"

fun sql_clauses :: "(string \<Rightarrow> string option) \<Rightarrow> nat \<Rightarrow> condition list \<Rightarrow> err + (string \<times> sql_arg list)" where
  "sql_clauses enc n [] = Inr ([], [])"
| "sql_clauses enc n (c # cs) =
     (case sql_clause enc n c of
        Inl e \<Rightarrow> Inl e
      | Inr (t, args) \<Rightarrow>
          (case sql_clauses enc (n + length args) cs of
             Inl e \<Rightarrow> Inl e
           | Inr (u, args') \<Rightarrow> Inr (t @ u, args @ args')))"

definition filterSQL :: "(string \<Rightarrow> string option) \<Rightarrow> vfilter \<Rightarrow> err + (string \<times> sql_arg list)" where
  "filterSQL enc f =
     (case f of
        None \<Rightarrow> Inr ([], [])
      | Some [] \<Rightarrow> Inr ([], [])
      | Some cs \<Rightarrow> (case Validate_filter f of Some e \<Rightarrow> Inl e | None \<Rightarrow> sql_clauses enc 4 cs))"

subsection \<open>Qdrant\<close>

text \<open>Qdrant's conditions, as far as they are built; a range has the bounds that are set.\<close>

record qrange =
  q_gt :: "f64 option"
  q_gte :: "f64 option"
  q_lt :: "f64 option"
  q_lte :: "f64 option"

datatype qcondition =
    MatchKeyword string string
  | MatchBool string bool
  | MatchInt string int
  | Range string qrange
  | IsEmpty string
  | FilterCond qfilter
and qfilter = QFilter (q_must: "qcondition list") (q_must_not: "qcondition list") (q_should: "qcondition list")

definition no_range :: qrange where
  "no_range = \<lparr>q_gt = None, q_gte = None, q_lt = None, q_lte = None\<rparr>"

text \<open>\<open>int64(f)\<close>; out of range Go leaves it to the machine, and this is what amd64 does.\<close>

definition int64_of :: "f64 \<Rightarrow> int" where
  "int64_of f = (case f of
       Fin x \<Rightarrow> (if min_int64 \<le> \<lfloor>x\<rfloor> \<and> \<lfloor>x\<rfloor> \<le> max_int64 then \<lfloor>x\<rfloor> else min_int64)
     | _ \<Rightarrow> min_int64)"

definition eqCondition :: "string \<Rightarrow> gval \<Rightarrow> err + qcondition" where
  "eqCondition key v =
     (case v of
        GStr s \<Rightarrow> Inr (MatchKeyword key s)
      | GBool b \<Rightarrow> Inr (MatchBool key b)
      | GFloat f \<Rightarrow> Inr (Range key (no_range\<lparr>q_gte := Some f, q_lte := Some f\<rparr>))
      | _ \<Rightarrow> (case ToFloat64 v of None \<Rightarrow> Inl ErrInvalidFilter | Some f \<Rightarrow> Inr (MatchInt key (int64_of f))))"

fun eq_conditions :: "string \<Rightarrow> gval list \<Rightarrow> err + qcondition list" where
  "eq_conditions key [] = Inr []"
| "eq_conditions key (v # vs) =
     (case eqCondition key v of
        Inl e \<Rightarrow> Inl e
      | Inr c \<Rightarrow> (case eq_conditions key vs of Inl e \<Rightarrow> Inl e | Inr cs \<Rightarrow> Inr (c # cs)))"

text \<open>What a condition adds to \<open>Must\<close> and to \<open>MustNot\<close>.\<close>

definition translate_condition :: "condition \<Rightarrow> err + (qcondition list \<times> qcondition list)" where
  "translate_condition c =
     (case cn_op c of
        OpEq \<Rightarrow> (case eqCondition (cn_key c) (cn_value c) of Inl e \<Rightarrow> Inl e | Inr q \<Rightarrow> Inr ([q], []))
      | OpNe \<Rightarrow>
          (case eqCondition (cn_key c) (cn_value c) of Inl e \<Rightarrow> Inl e | Inr q \<Rightarrow> Inr ([], [q, IsEmpty (cn_key c)]))
      | OpIn \<Rightarrow>
          (case eq_conditions (cn_key c) (cn_values c) of
             Inl e \<Rightarrow> Inl e
           | Inr qs \<Rightarrow> Inr ([FilterCond (QFilter [] [] qs)], []))
      | OpOther s \<Rightarrow> Inl ErrUnsupportedFilterOp
      | cmp \<Rightarrow>
          (case ToFloat64 (cn_value c) of
             None \<Rightarrow> Inl ErrInvalidFilter
           | Some f \<Rightarrow>
               Inr ([Range (cn_key c)
                       (case cmp of
                          OpGt \<Rightarrow> no_range\<lparr>q_gt := Some f\<rparr>
                        | OpGte \<Rightarrow> no_range\<lparr>q_gte := Some f\<rparr>
                        | OpLt \<Rightarrow> no_range\<lparr>q_lt := Some f\<rparr>
                        | _ \<Rightarrow> no_range\<lparr>q_lte := Some f\<rparr>)], [])))"

fun translate_conditions :: "condition list \<Rightarrow> err + (qcondition list \<times> qcondition list)" where
  "translate_conditions [] = Inr ([], [])"
| "translate_conditions (c # cs) =
     (case translate_condition c of
        Inl e \<Rightarrow> Inl e
      | Inr (m, n) \<Rightarrow>
          (case translate_conditions cs of Inl e \<Rightarrow> Inl e | Inr (m', n') \<Rightarrow> Inr (m @ m', n @ n')))"

definition translateFilter :: "vfilter \<Rightarrow> err + qfilter option" where
  "translateFilter f =
     (case f of
        None \<Rightarrow> Inr None
      | Some [] \<Rightarrow> Inr None
      | Some cs \<Rightarrow>
          (case Validate_filter f of
             Some e \<Rightarrow> Inl e
           | None \<Rightarrow>
               (case translate_conditions cs of
                  Inl e \<Rightarrow> Inl e
                | Inr (m, n) \<Rightarrow> Inr (Some (QFilter m n [])))))"

subsection \<open>The SQL text and the operands\<close>

definition same_shape :: "condition \<Rightarrow> condition \<Rightarrow> bool" where
  "same_shape c d \<longleftrightarrow> cn_op c = cn_op d \<and> (cn_op c \<noteq> OpIn \<or> length (cn_values c) = length (cn_values d))"

lemma in_docs_shape:
  "in_docs enc k n vs = Inr (ors, args) \<Longrightarrow> in_docs enc k' n ws = Inr (ors', args') \<Longrightarrow> length vs = length ws \<Longrightarrow>
   ors = ors' \<and> length args = length args'"
proof (induction enc k n vs arbitrary: ws ors args ors' args' rule: in_docs.induct)
  case (2 enc key n v vs)
  obtain w ws' where ws: "ws = w # ws'" "length vs = length ws'" using "2.prems"(3) by (cases ws) auto
  from "2.prems"(1) obtain d o1 a1 where 1: "containmentDoc enc key v = Inr d" "in_docs enc key (Suc n) vs = Inr (o1, a1)"
    "ors = (''payload @> '' @ placeholder n @ ''::jsonb'') # o1" "args = d # a1" by (auto split: sum.splits)
  from "2.prems"(2) ws obtain d' o2 a2 where 2: "in_docs enc k' (Suc n) ws' = Inr (o2, a2)"
    "ors' = (''payload @> '' @ placeholder n @ ''::jsonb'') # o2" "args' = d' # a2" by (auto split: sum.splits)
  from "2.IH" [OF 1(1,2) 2(1) ws(2)] 1 2 show ?case by simp
qed simp

lemma sql_clause_shape:
  assumes "sql_clause enc n c = Inr (t, args)" "sql_clause enc n d = Inr (u, args')" "same_shape c d"
  shows "t = u \<and> length args = length args'"
proof (cases "cn_op c")
  case OpIn
  obtain ors as where 1: "in_docs enc (cn_key c) n (cn_values c) = Inr (ors, as)" "t = '' AND ('' @ go_join ors '' OR '' @ '')''" "args = as"
    using assms(1) OpIn by (auto simp: sql_clause_def split: sum.splits)
  have d: "cn_op d = OpIn" "length (cn_values c) = length (cn_values d)" using assms(3) OpIn by (auto simp: same_shape_def)
  obtain ors' as' where 2: "in_docs enc (cn_key d) n (cn_values d) = Inr (ors', as')" "u = '' AND ('' @ go_join ors' '' OR '' @ '')''" "args' = as'"
    using assms(2) d(1) by (auto simp: sql_clause_def split: sum.splits)
  from in_docs_shape [OF 1(1) 2(1) d(2)] 1 2 show ?thesis by simp
qed (use assms in \<open>auto simp: sql_clause_def same_shape_def split: sum.splits option.splits\<close>)

lemma sql_clauses_shape:
  "list_all2 same_shape cs ds \<Longrightarrow> sql_clauses enc n cs = Inr (t, args) \<Longrightarrow> sql_clauses enc n ds = Inr (u, args') \<Longrightarrow>
   t = u \<and> length args = length args'"
proof (induction cs ds arbitrary: n t args u args' rule: list_all2_induct)
  case (Cons c cs d ds)
  from Cons.prems(1) obtain t1 a1 t2 a2 where 1: "sql_clause enc n c = Inr (t1, a1)"
    "sql_clauses enc (n + length a1) cs = Inr (t2, a2)" "t = t1 @ t2" "args = a1 @ a2" by (auto split: sum.splits)
  from Cons.prems(2) obtain u1 b1 u2 b2 where 2: "sql_clause enc n d = Inr (u1, b1)"
    "sql_clauses enc (n + length b1) ds = Inr (u2, b2)" "u = u1 @ u2" "args' = b1 @ b2" by (auto split: sum.splits)
  from sql_clause_shape [OF 1(1) 2(1) Cons.hyps(1)] have s: "t1 = u1" "length a1 = length b1" by auto
  from Cons.IH [OF 1(2)] 2(2) s have "t2 = u2 \<and> length a2 = length b2" by simp
  then show ?case using 1 2 s by simp
qed simp

text \<open>
  Nothing of a filter's keys and values reaches the SQL text: two filters with the same operators, and as
  many alternatives, give the same text and bind as many arguments to its placeholders.
\<close>

theorem sql_text_ignores_operands:
  assumes "filterSQL enc (Some cs) = Inr (t, args)" and "filterSQL enc (Some ds) = Inr (u, args')"
    and "list_all2 same_shape cs ds"
  shows "t = u \<and> length args = length args'"
proof (cases cs)
  case Nil
  then show ?thesis using assms by (simp add: filterSQL_def)
next
  case (Cons c cs')
  then obtain d ds' where "ds = d # ds'" using assms(3) by (cases ds) auto
  then show ?thesis using Cons assms sql_clauses_shape [OF assms(3)]
    by (auto simp: filterSQL_def split: option.splits)
qed

theorem sql_text_ignores_operands_witness:
  "\<exists>t a b. filterSQL (\<lambda>t. None) (Some [Eq ''k'' (GStr ''1; DROP''), In ''n'' [GInt 1, GInt 2]]) = Inr (t, a) \<and>
    filterSQL (\<lambda>t. None) (Some [Eq ''x'' (GBool True), In ''y'' [GStr ''a'', GStr ''b'']]) = Inr (t, b) \<and> length a = length b"
proof -
  let ?f = "[Eq ''k'' (GStr ''1; DROP''), In ''n'' [GInt 1, GInt 2]]" and ?g = "[Eq ''x'' (GBool True), In ''y'' [GStr ''a'', GStr ''b'']]"
  obtain t a where 1: "filterSQL (\<lambda>t. None) (Some ?f) = Inr (t, a)"
    by (simp add: filterSQL_def Validate_filter_def check_condition_def Eq_def In_def cond1_def sql_clause_def containmentDoc_def Let_def)
  obtain u b where 2: "filterSQL (\<lambda>t. None) (Some ?g) = Inr (u, b)"
    by (simp add: filterSQL_def Validate_filter_def check_condition_def Eq_def In_def cond1_def sql_clause_def containmentDoc_def Let_def)
  have "list_all2 same_shape ?f ?g" by (simp add: same_shape_def Eq_def In_def cond1_def)
  from sql_text_ignores_operands [OF 1 2 this] 1 2 show ?thesis by blast
qed

subsection \<open>A Qdrant filter means the filter\<close>

text \<open>The documented meaning of the conditions, on payloads of strings, booleans and numbers.\<close>

definition scalar :: "gval \<Rightarrow> bool" where
  "scalar v \<longleftrightarrow> (case v of GNil \<Rightarrow> False | GOther t \<Rightarrow> False | _ \<Rightarrow> True)"

definition bound_ok :: "(f64 \<Rightarrow> f64 \<Rightarrow> bool) \<Rightarrow> f64 option \<Rightarrow> f64 \<Rightarrow> bool" where
  "bound_ok cmp b x \<longleftrightarrow> (case b of None \<Rightarrow> True | Some y \<Rightarrow> cmp x y)"

definition in_range :: "qrange \<Rightarrow> f64 \<Rightarrow> bool" where
  "in_range r x \<longleftrightarrow> bound_ok (range_match OpGt) (q_gt r) x \<and> bound_ok (range_match OpGte) (q_gte r) x \<and>
     bound_ok (range_match OpLt) (q_lt r) x \<and> bound_ok (range_match OpLte) (q_lte r) x"

definition qdrant_semantics :: "(qcondition \<Rightarrow> payload \<Rightarrow> bool) \<Rightarrow> bool" where
  "qdrant_semantics eval \<longleftrightarrow>
     (\<forall>p k. (case p k of None \<Rightarrow> True | Some v \<Rightarrow> scalar v) \<longrightarrow>
        (\<forall>s. eval (MatchKeyword k s) p = (p k = Some (GStr s))) \<and>
        (\<forall>b. eval (MatchBool k b) p = (p k = Some (GBool b))) \<and>
        (\<forall>i. (case p k of Some (GFloat f) \<Rightarrow> False | _ \<Rightarrow> True) \<longrightarrow> eval (MatchInt k i) p = (p k = Some (GInt i))) \<and>
        (\<forall>r. eval (Range k r) p =
           (case p k of Some v \<Rightarrow> (case ToFloat64 v of Some x \<Rightarrow> in_range r x | None \<Rightarrow> False) | None \<Rightarrow> False)) \<and>
        eval (IsEmpty k) p = (p k = None)) \<and>
     (\<forall>p m n s. eval (FilterCond (QFilter m n s)) p =
        (list_all (\<lambda>c. eval c p) m \<and> list_all (\<lambda>c. \<not> eval c p) n \<and> (s = [] \<or> list_ex (\<lambda>c. eval c p) s)))"

text \<open>An integer that a float64 holds exactly, and a value comparable with a payload's.\<close>

definition exact :: "gval \<Rightarrow> bool" where
  "exact v \<longleftrightarrow> (case v of GInt i \<Rightarrow> \<bar>i\<bar> < 2 ^ 53 | _ \<Rightarrow> True)"

definition comparable :: "gval \<Rightarrow> gval \<Rightarrow> bool" where
  "comparable got want \<longleftrightarrow> scalar got \<and> exact got \<and> exact want \<and>
     (case (got, want) of (GFloat f, GInt i) \<Rightarrow> False | _ \<Rightarrow> True)"

definition comparable_condition :: "payload \<Rightarrow> condition \<Rightarrow> bool" where
  "comparable_condition p c \<longleftrightarrow>
     (case p (cn_key c) of
        None \<Rightarrow> True
      | Some v \<Rightarrow> (case cn_op c of
            OpEq \<Rightarrow> comparable v (cn_value c) | OpNe \<Rightarrow> comparable v (cn_value c)
          | OpIn \<Rightarrow> list_all (comparable v) (cn_values c) | _ \<Rightarrow> scalar v))"

lemma float_of_int_exact: "\<bar>i\<bar> < 2 ^ 53 \<Longrightarrow> float_of_int i = Fin (of_int i)"
proof -
  assume a: "\<bar>i\<bar> < 2 ^ 53"
  have n: "nat i < 2 ^ 53 \<or> i < 0" "nat (- i) < 2 ^ 53 \<or> 0 \<le> i" using a by auto
  show ?thesis
  proof (cases "0 \<le> i")
    case True
    then have "round53 (nat i) = nat i" using n by (simp add: round53_def)
    then show ?thesis using True by (simp add: float_of_int_def)
  next
    case False
    then have "round53 (nat (- i)) = nat (- i)" using n by (simp add: round53_def)
    then show ?thesis using False by (simp add: float_of_int_def)
  qed
qed

lemma int64_of_exact: "\<bar>i\<bar> < 2 ^ 53 \<Longrightarrow> int64_of (Fin (of_int i)) = i"
  by (auto simp: int64_of_def min_int64_def max_int64_def)

lemma closed_range: "in_range (no_range\<lparr>q_gte := Some f, q_lte := Some f\<rparr>) x \<longleftrightarrow> f_eq x f"
  by (cases x; cases f) (auto simp: in_range_def no_range_def bound_ok_def range_match_def f_less_def f_eq_def)

lemma open_range:
  "in_range (no_range\<lparr>q_gt := Some f\<rparr>) x \<longleftrightarrow> range_match OpGt x f"
  "in_range (no_range\<lparr>q_gte := Some f\<rparr>) x \<longleftrightarrow> range_match OpGte x f"
  "in_range (no_range\<lparr>q_lt := Some f\<rparr>) x \<longleftrightarrow> range_match OpLt x f"
  "in_range (no_range\<lparr>q_lte := Some f\<rparr>) x \<longleftrightarrow> range_match OpLte x f"
  by (simp_all add: in_range_def no_range_def bound_ok_def)

lemma eval_range:
  assumes "qdrant_semantics eval" and "case p k of None \<Rightarrow> True | Some got \<Rightarrow> scalar got"
  shows "eval (Range k r) p = (case p k of Some v \<Rightarrow> (case ToFloat64 v of Some x \<Rightarrow> in_range r x | None \<Rightarrow> False) | None \<Rightarrow> False)"
  using assms unfolding qdrant_semantics_def by blast

lemma eval_eqCondition:
  assumes "qdrant_semantics eval" and "eqCondition k v = Inr q" and "exact v"
    and "case p k of None \<Rightarrow> True | Some got \<Rightarrow> comparable got v"
  shows "eval q p = (case p k of None \<Rightarrow> False | Some got \<Rightarrow> valuesEqual got v)"
proof -
  have s: "case p k of None \<Rightarrow> True | Some got \<Rightarrow> scalar got" using assms(4) by (auto simp: comparable_def split: option.splits)
  show ?thesis
  proof (cases v)
    case (GInt i)
    then have q: "q = MatchInt k i" and i: "\<bar>i\<bar> < 2 ^ 53"
      using assms(2,3) by (auto simp: eqCondition_def ToFloat64_def exact_def float_of_int_exact int64_of_exact)
    have "case p k of Some (GFloat f) \<Rightarrow> False | _ \<Rightarrow> True"
      using assms(4) GInt by (auto simp: comparable_def split: option.splits gval.splits)
    then have "eval q p = (p k = Some (GInt i))" using assms(1) s unfolding qdrant_semantics_def q by blast
    then show ?thesis using assms(4) GInt i
      by (auto simp: valuesEqual_def comparable_def scalar_def exact_def ToFloat64_def float_of_int_exact f_eq_def split: option.splits gval.splits)
  next
    case (GFloat f)
    then have "q = Range k (no_range\<lparr>q_gte := Some f, q_lte := Some f\<rparr>)" using assms(2) by (simp add: eqCondition_def)
    then have "eval q p = (case p k of Some v \<Rightarrow> (case ToFloat64 v of Some x \<Rightarrow> f_eq x f | None \<Rightarrow> False) | None \<Rightarrow> False)"
      using eval_range [where k = k and p = p, OF assms(1) s] by (simp only: closed_range)
    then show ?thesis using GFloat
      by (auto simp: valuesEqual_def ToFloat64_def split: option.splits gval.splits)
  next
    case (GStr t)
    then have "eval q p = (p k = Some (GStr t))"
      using assms(1,2) s unfolding qdrant_semantics_def by (auto simp: eqCondition_def)
    then show ?thesis using GStr by (auto simp: valuesEqual_def ToFloat64_def split: option.splits gval.splits)
  next
    case (GBool b)
    then have "eval q p = (p k = Some (GBool b))"
      using assms(1,2) s unfolding qdrant_semantics_def by (auto simp: eqCondition_def)
    then show ?thesis using GBool by (auto simp: valuesEqual_def ToFloat64_def split: option.splits gval.splits)
  qed (use assms(2) in \<open>simp_all add: eqCondition_def ToFloat64_def\<close>)
qed

lemma eval_missing:
  assumes "qdrant_semantics eval" and "eqCondition k v = Inr q" and "p k = None"
  shows "\<not> eval q p"
proof -
  have s: "case p k of None \<Rightarrow> True | Some got \<Rightarrow> scalar got" using assms(3) by simp
  have laws: "eval (MatchKeyword k s') p = (p k = Some (GStr s'))" "eval (MatchBool k b) p = (p k = Some (GBool b))"
    "eval (MatchInt k i) p = (p k = Some (GInt i))" for s' b i
    using assms(1,3) s unfolding qdrant_semantics_def by auto
  show ?thesis
    using assms(2,3) laws eval_range [where k = k and p = p, OF assms(1) s]
    by (auto simp: eqCondition_def split: gval.splits option.splits)
qed

lemma eval_equal:
  assumes "qdrant_semantics eval" and "eqCondition k v = Inr q"
    and "case p k of None \<Rightarrow> True | Some got \<Rightarrow> comparable got v"
  shows "eval q p = (case p k of None \<Rightarrow> False | Some got \<Rightarrow> valuesEqual got v)"
proof (cases "p k")
  case None
  then show ?thesis using eval_missing [OF assms(1,2)] by simp
next
  case (Some got)
  then have "exact v" using assms(3) by (simp add: comparable_def)
  then show ?thesis using eval_eqCondition [where p = p, OF assms(1,2)] assms(3) by blast
qed

lemma eval_eq_conditions:
  assumes "qdrant_semantics eval"
  shows "eq_conditions k vs = Inr qs \<Longrightarrow> (case p k of None \<Rightarrow> True | Some got \<Rightarrow> list_all (comparable got) vs) \<Longrightarrow>
    list_ex (\<lambda>q. eval q p) qs = (case p k of None \<Rightarrow> False | Some got \<Rightarrow> list_ex (valuesEqual got) vs)"
proof (induction vs arbitrary: qs)
  case (Cons v vs)
  from Cons.prems(1) obtain q qs' where q: "eqCondition k v = Inr q" "eq_conditions k vs = Inr qs'" "qs = q # qs'"
    by (auto split: sum.splits)
  have c: "case p k of None \<Rightarrow> True | Some got \<Rightarrow> comparable got v"
    "case p k of None \<Rightarrow> True | Some got \<Rightarrow> list_all (comparable got) vs"
    using Cons.prems(2) by (auto split: option.splits)
  from Cons.IH [OF q(2) c(2)] eval_equal [where p = p, OF assms q(1) c(1)] q(3) show ?case by (auto split: option.splits)
qed (auto split: option.splits)

lemma eq_conditions_Nil: "eq_conditions k vs = Inr [] \<Longrightarrow> vs = []"
  by (cases vs) (auto split: sum.splits)

lemma eval_empty:
  assumes "qdrant_semantics eval" and "case p k of None \<Rightarrow> True | Some got \<Rightarrow> scalar got"
  shows "eval (IsEmpty k) p = (p k = None)"
  using assms unfolding qdrant_semantics_def by blast

lemma eval_filter:
  assumes "qdrant_semantics eval"
  shows "eval (FilterCond (QFilter m n s)) p =
    (list_all (\<lambda>c. eval c p) m \<and> list_all (\<lambda>c. \<not> eval c p) n \<and> (s = [] \<or> list_ex (\<lambda>c. eval c p) s))"
  by (rule conjunct2 [OF assms [unfolded qdrant_semantics_def], rule_format])

lemma scalar_of_comparable: "comparable got v \<Longrightarrow> scalar got"
  by (simp add: comparable_def)

lemma eval_ordering:
  assumes "qdrant_semantics eval" and "comparable_condition p c" and "ToFloat64 (cn_value c) = Some f"
    and "cn_op c = cmp" and "(cmp, r) \<in> {(OpGt, no_range\<lparr>q_gt := Some f\<rparr>), (OpGte, no_range\<lparr>q_gte := Some f\<rparr>),
      (OpLt, no_range\<lparr>q_lt := Some f\<rparr>), (OpLte, no_range\<lparr>q_lte := Some f\<rparr>)}"
  shows "eval (Range (cn_key c) r) p = matchCondition c p"
proof -
  have s: "case p (cn_key c) of None \<Rightarrow> True | Some got \<Rightarrow> scalar got"
    using assms(2,4,5) by (auto simp: comparable_condition_def split: option.splits)
  have m: "matchCondition c p =
      (case p (cn_key c) of Some v \<Rightarrow> (case ToFloat64 v of Some x \<Rightarrow> range_match cmp x f | None \<Rightarrow> False) | None \<Rightarrow> False)"
    using assms(3,4,5) by (auto simp: matchCondition_def split: option.splits)
  have "in_range r x = range_match cmp x f" for x using assms(5) by (auto simp only: open_range prod.inject insert_iff empty_iff)
  then show ?thesis using eval_range [where k = "cn_key c" and p = p and r = r, OF assms(1) s] m by (simp only:)
qed

lemma eval_condition:
  assumes sem: "qdrant_semantics eval" and t: "translate_condition c = Inr (m, n)" and c: "comparable_condition p c"
    and v: "check_condition c = None"
  shows "(list_all (\<lambda>q. eval q p) m \<and> list_all (\<lambda>q. \<not> eval q p) n) = matchCondition c p"
proof (cases "cn_op c")
  case OpEq
  then obtain q where q: "eqCondition (cn_key c) (cn_value c) = Inr q" "m = [q]" "n = []"
    using t by (auto simp: translate_condition_def split: sum.splits)
  have "case p (cn_key c) of None \<Rightarrow> True | Some got \<Rightarrow> comparable got (cn_value c)"
    using c OpEq by (auto simp: comparable_condition_def split: option.splits)
  from eval_equal [where p = p, OF sem q(1) this] q OpEq show ?thesis by (auto simp: matchCondition_def split: option.splits)
next
  case OpNe
  then obtain q where q: "eqCondition (cn_key c) (cn_value c) = Inr q" "m = []" "n = [q, IsEmpty (cn_key c)]"
    using t by (auto simp: translate_condition_def split: sum.splits)
  have k: "case p (cn_key c) of None \<Rightarrow> True | Some got \<Rightarrow> comparable got (cn_value c)"
    using c OpNe by (auto simp: comparable_condition_def split: option.splits)
  then have "case p (cn_key c) of None \<Rightarrow> True | Some got \<Rightarrow> scalar got"
    by (auto simp: comparable_def split: option.splits)
  note eval_empty [where p = p, OF sem this]
  with eval_equal [where p = p, OF sem q(1) k] q OpNe show ?thesis by (auto simp: matchCondition_def split: option.splits)
next
  case OpIn
  then obtain qs where q: "eq_conditions (cn_key c) (cn_values c) = Inr qs" "m = [FilterCond (QFilter [] [] qs)]" "n = []"
    using t by (auto simp: translate_condition_def split: sum.splits)
  have "case p (cn_key c) of None \<Rightarrow> True | Some got \<Rightarrow> list_all (comparable got) (cn_values c)"
    using c OpIn by (auto simp: comparable_condition_def split: option.splits)
  note e = eval_eq_conditions [where p = p, OF sem q(1) this]
  have "qs \<noteq> []" using v OpIn eq_conditions_Nil q(1) by (auto simp: check_condition_def split: if_splits)
  then show ?thesis using e q(2,3) OpIn by (auto simp: eval_filter [OF sem] matchCondition_def split: option.splits)
next
  case OpGt
  then obtain f where f: "ToFloat64 (cn_value c) = Some f" "m = [Range (cn_key c) (no_range\<lparr>q_gt := Some f\<rparr>)]" "n = []"
    using t by (auto simp: translate_condition_def split: option.splits)
  show ?thesis using eval_ordering [OF sem c f(1) OpGt, of "no_range\<lparr>q_gt := Some f\<rparr>"] f(2,3) by simp
next
  case OpGte
  then obtain f where f: "ToFloat64 (cn_value c) = Some f" "m = [Range (cn_key c) (no_range\<lparr>q_gte := Some f\<rparr>)]" "n = []"
    using t by (auto simp: translate_condition_def split: option.splits)
  show ?thesis using eval_ordering [OF sem c f(1) OpGte, of "no_range\<lparr>q_gte := Some f\<rparr>"] f(2,3) by simp
next
  case OpLt
  then obtain f where f: "ToFloat64 (cn_value c) = Some f" "m = [Range (cn_key c) (no_range\<lparr>q_lt := Some f\<rparr>)]" "n = []"
    using t by (auto simp: translate_condition_def split: option.splits)
  show ?thesis using eval_ordering [OF sem c f(1) OpLt, of "no_range\<lparr>q_lt := Some f\<rparr>"] f(2,3) by simp
next
  case OpLte
  then obtain f where f: "ToFloat64 (cn_value c) = Some f" "m = [Range (cn_key c) (no_range\<lparr>q_lte := Some f\<rparr>)]" "n = []"
    using t by (auto simp: translate_condition_def split: option.splits)
  show ?thesis using eval_ordering [OF sem c f(1) OpLte, of "no_range\<lparr>q_lte := Some f\<rparr>"] f(2,3) by simp
next
  case (OpOther s)
  then show ?thesis using t by (simp add: translate_condition_def)
qed

lemma eval_conditions:
  assumes sem: "qdrant_semantics eval"
  shows "translate_conditions cs = Inr (m, n) \<Longrightarrow> list_all (comparable_condition p) cs \<Longrightarrow> check_conditions cs = None \<Longrightarrow>
    (list_all (\<lambda>q. eval q p) m \<and> list_all (\<lambda>q. \<not> eval q p) n) = list_all (\<lambda>c. matchCondition c p) cs"
proof (induction cs arbitrary: m n)
  case (Cons c cs)
  from Cons.prems(1) obtain m1 n1 m2 n2 where t: "translate_condition c = Inr (m1, n1)"
    "translate_conditions cs = Inr (m2, n2)" "m = m1 @ m2" "n = n1 @ n2" by (auto split: sum.splits)
  have p: "comparable_condition p c" "list_all (comparable_condition p) cs" "check_condition c = None" "check_conditions cs = None"
    using Cons.prems(2,3) by (auto split: option.splits)
  from Cons.IH [OF t(2) p(2,4)] eval_condition [OF sem t(1) p(1,3)] t(3,4) show ?case by auto
qed simp


text \<open>Qdrant's reading of a condition, for the witness.\<close>

fun q_eval :: "qcondition \<Rightarrow> payload \<Rightarrow> bool" where
  "q_eval (MatchKeyword k s) p = (p k = Some (GStr s))"
| "q_eval (MatchBool k b) p = (p k = Some (GBool b))"
| "q_eval (MatchInt k i) p = (p k = Some (GInt i))"
| "q_eval (Range k r) p =
     (case p k of Some v \<Rightarrow> (case ToFloat64 v of Some x \<Rightarrow> in_range r x | None \<Rightarrow> False) | None \<Rightarrow> False)"
| "q_eval (IsEmpty k) p = (p k = None)"
| "q_eval (FilterCond (QFilter m n s)) p =
     (list_all (\<lambda>c. q_eval c p) m \<and> list_all (\<lambda>c. \<not> q_eval c p) n \<and> (s = [] \<or> list_ex (\<lambda>c. q_eval c p) s))"

lemma q_eval_semantics: "qdrant_semantics q_eval"
  by (simp add: qdrant_semantics_def)

definition ex_filter :: vfilter where
  "ex_filter = NewFilter [Eq ''lang'' (GStr ''go''), Ne ''draft'' (GBool True), In ''year'' [GInt 2024, GInt 2025]]"

definition ex_point :: payload where
  "ex_point = [''lang'' \<mapsto> GStr ''go'', ''draft'' \<mapsto> GBool False, ''year'' \<mapsto> GInt 2025]"


text \<open>
  An integer identifier of 2 to the 53rd and more goes through a float64 on its way to Qdrant: the
  condition asks for another integer than the filter, and the point itself is not found.
\<close>

lemma big_integer_not_found:
  "eqCondition ''id'' (GInt 9007199254740993) = Inr (MatchInt ''id'' 9007199254740992) \<and>
   matchCondition (Eq ''id'' (GInt 9007199254740993)) [''id'' \<mapsto> GInt 9007199254740993] \<and>
   \<not> q_eval (MatchInt ''id'' 9007199254740992) [''id'' \<mapsto> GInt 9007199254740993]"
  by (simp add: eqCondition_def ToFloat64_def float_of_int_def round53_def bit_len.simps Let_def int64_of_def
      min_int64_def max_int64_def matchCondition_def Eq_def cond1_def valuesEqual_def f_eq_def)

end
