(* ===== verification/Bash_Tool.thy ===== *)
theory Bash_Tool
  imports Text_Render Go_Errors "HOL-Library.AList"
begin

section \<open>The bash tool\<close>

text \<open>
  \<open>tool/bash/bash.go\<close>, \<open>session.go\<close> and \<open>runner.go\<close>: the checks and timeouts of a command, its environment
  and the state a persistent shell carries, what a foreground command returns, and the background
  shells with their capped output. The process itself is the environment's: what it prints, how it
  ends and what it reports are arguments (\<open>process_end\<close>); so are regular expressions and the lower case
  of runes outside ASCII. A duration is a signed 64-bit number of nanoseconds.
\<close>

subsection \<open>Data and options\<close>

datatype bash_err =
    ErrCommandRequired | ErrCommandBlocked | ErrCommandNotAllowed | ErrTimeoutTooLarge | ErrBashIDRequired
  | ErrShellIDRequired | ErrShellNotFound | ErrInvalidOutputFilter string | ErrBashClosed | SystemError string

definition millisecond :: int where "millisecond = 1000000"
definition duration_second :: int where "duration_second = 1000 * millisecond"
definition SafeModeTimeout :: int where "SafeModeTimeout = 30 * duration_second"
definition DefaultTimeout :: int where "DefaultTimeout = 120 * duration_second"
definition MaxTimeout :: int where "MaxTimeout = 600 * duration_second"
definition DefaultMaxBackgroundOutput :: int where "DefaultMaxBackgroundOutput = 2 ^ 20"
definition DefaultMaxOutputChars_bash :: int where "DefaultMaxOutputChars_bash = 30000"

definition safeModeBlocklist :: "string list" where
  "safeModeBlocklist =
     [''rm -rf /'', ''rm -fr /'', ''dd if='', ''mkfs'', '':(){ :|:'', ''> /dev/sd'', ''> /dev/hd'', ''> /dev/nvme'',
      ''chmod 777 /'', ''| bash'', ''| sh'']"

record bash_tool =
  bt_workingDir :: string
  bt_timeout :: int
  bt_defaultTimeout :: int
  bt_maxTimeout :: int
  bt_maxOutputChars :: int
  bt_blocklist :: "string list"
  bt_allowlist :: "string list"
  bt_envAllowlist :: "string list option"
  bt_extraEnv :: "string list"
  bt_persistent :: bool
  bt_backgroundTimeout :: int
  bt_maxBackgroundOutput :: int

definition New_bash :: "(bash_tool \<Rightarrow> bash_tool) list \<Rightarrow> bash_tool" where
  "New_bash opts =
     fold (\<lambda>f. f) opts
       \<lparr>bt_workingDir = [], bt_timeout = 0, bt_defaultTimeout = DefaultTimeout, bt_maxTimeout = MaxTimeout,
        bt_maxOutputChars = DefaultMaxOutputChars_bash, bt_blocklist = [], bt_allowlist = [], bt_envAllowlist = None,
        bt_extraEnv = [], bt_persistent = False, bt_backgroundTimeout = 0,
        bt_maxBackgroundOutput = DefaultMaxBackgroundOutput\<rparr>"

text \<open>\<open>strings.ToLower\<close>, rune by rune; \<open>lr\<close> is the lower case of a rune outside ASCII.\<close>

definition go_to_lower :: "(string \<Rightarrow> string) \<Rightarrow> string \<Rightarrow> string" where
  "go_to_lower lr s =
     concat (map (\<lambda>r. case r of
         [c] \<Rightarrow> (if 65 \<le> byte c \<and> byte c \<le> 90 then [char_of (byte c + 32)] else r)
       | _ \<Rightarrow> lr r) (runes s))"

definition WithWorkingDirectory_bash :: "string \<Rightarrow> bash_tool \<Rightarrow> bash_tool" where
  "WithWorkingDirectory_bash d t = t\<lparr>bt_workingDir := d\<rparr>"
definition WithEnvAllowlist :: "string list \<Rightarrow> bash_tool \<Rightarrow> bash_tool" where
  "WithEnvAllowlist names t = t\<lparr>bt_envAllowlist := Some names\<rparr>"
definition WithPersistentShell :: "bash_tool \<Rightarrow> bash_tool" where "WithPersistentShell t = t\<lparr>bt_persistent := True\<rparr>"
definition WithEnv :: "string list \<Rightarrow> bash_tool \<Rightarrow> bash_tool" where
  "WithEnv entries t = t\<lparr>bt_extraEnv := bt_extraEnv t @ entries\<rparr>"
definition WithBackgroundTimeout :: "int \<Rightarrow> bash_tool \<Rightarrow> bash_tool" where
  "WithBackgroundTimeout d t = t\<lparr>bt_backgroundTimeout := d\<rparr>"
definition WithMaxBackgroundOutput :: "int \<Rightarrow> bash_tool \<Rightarrow> bash_tool" where
  "WithMaxBackgroundOutput n t = t\<lparr>bt_maxBackgroundOutput := n\<rparr>"
definition WithTimeout_bash :: "int \<Rightarrow> bash_tool \<Rightarrow> bash_tool" where "WithTimeout_bash d t = t\<lparr>bt_timeout := d\<rparr>"
definition WithDefaultTimeout :: "int \<Rightarrow> bash_tool \<Rightarrow> bash_tool" where
  "WithDefaultTimeout d t = t\<lparr>bt_defaultTimeout := d\<rparr>"
definition WithMaxTimeout :: "int \<Rightarrow> bash_tool \<Rightarrow> bash_tool" where "WithMaxTimeout d t = t\<lparr>bt_maxTimeout := d\<rparr>"
definition WithMaxOutputChars_bash :: "int \<Rightarrow> bash_tool \<Rightarrow> bash_tool" where
  "WithMaxOutputChars_bash n t = t\<lparr>bt_maxOutputChars := n\<rparr>"
definition WithBlocklist :: "(string \<Rightarrow> string) \<Rightarrow> string list \<Rightarrow> bash_tool \<Rightarrow> bash_tool" where
  "WithBlocklist lr pats t = t\<lparr>bt_blocklist := bt_blocklist t @ map (go_to_lower lr) pats\<rparr>"
definition WithAllowlist :: "(string \<Rightarrow> string) \<Rightarrow> string list \<Rightarrow> bash_tool \<Rightarrow> bash_tool" where
  "WithAllowlist lr pats t = t\<lparr>bt_allowlist := bt_allowlist t @ map (go_to_lower lr) pats\<rparr>"
definition WithSafeMode :: "bash_tool \<Rightarrow> bash_tool" where
  "WithSafeMode t =
     t\<lparr>bt_blocklist := bt_blocklist t @ safeModeBlocklist,
       bt_timeout := (if bt_timeout t = 0 then SafeModeTimeout else bt_timeout t)\<rparr>"

subsection \<open>Checks and timeouts\<close>

definition checkCommand :: "(string \<Rightarrow> string) \<Rightarrow> bash_tool \<Rightarrow> string \<Rightarrow> bash_err option" where
  "checkCommand lr t command =
     (let lower = go_to_lower lr command in
      if list_ex (go_contains lower) (bt_blocklist t) then Some ErrCommandBlocked
      else if bt_allowlist t = [] \<or> list_ex (go_contains lower) (bt_allowlist t) then None
      else Some ErrCommandNotAllowed)"

text \<open>\<open>time.Duration(ms) * time.Millisecond\<close>, which wraps.\<close>

definition ms_duration :: "int \<Rightarrow> int" where
  "ms_duration ms = (ms * millisecond + 2 ^ 63) mod 2 ^ 64 - 2 ^ 63"

definition resolveTimeout :: "bash_tool \<Rightarrow> int \<Rightarrow> bash_err + int" where
  "resolveTimeout t timeoutMs =
     (let effective = (if 0 < bt_timeout t then bt_timeout t else bt_defaultTimeout t);
          requested = ms_duration timeoutMs in
      if 0 < timeoutMs \<and> 0 < bt_maxTimeout t \<and> bt_maxTimeout t < requested then Inl ErrTimeoutTooLarge
      else
        (let effective1 = (if 0 < timeoutMs then requested else effective);
             effective2 = (if 0 < bt_timeout t \<and> bt_timeout t < effective1 then bt_timeout t else effective1);
             effective3 = (if 0 < bt_maxTimeout t \<and> bt_maxTimeout t < effective2 then bt_maxTimeout t else effective2)
         in Inr effective3))"

definition resolveBackgroundTimeout :: "bash_tool \<Rightarrow> int \<Rightarrow> int" where
  "resolveBackgroundTimeout t timeoutMs =
     (if timeoutMs \<le> 0 then bt_backgroundTimeout t
      else if 0 < bt_backgroundTimeout t \<and> bt_backgroundTimeout t < ms_duration timeoutMs then bt_backgroundTimeout t
      else ms_duration timeoutMs)"

subsection \<open>Truncated output\<close>

fun runeBoundary_bash :: "string \<Rightarrow> nat \<Rightarrow> nat" where
  "runeBoundary_bash s 0 = 0"
| "runeBoundary_bash s (Suc n) =
     (if Suc n < length s \<and> \<not> rune_start (s ! Suc n) then runeBoundary_bash s n else Suc n)"

text \<open>The first position from \<open>i\<close> on where a character starts, or the end.\<close>

function next_start :: "string \<Rightarrow> nat \<Rightarrow> nat" where
  "next_start s i = (if i < length s \<and> \<not> rune_start (s ! i) then next_start s (Suc i) else i)"
  by pat_completeness auto
termination by (relation "measure (\<lambda>(s, i). length s - i)") auto

declare next_start.simps [simp del]

definition truncation_note :: "nat \<Rightarrow> string" where
  "truncation_note n = [CHR 0x0A] @ ''[... '' @ nat_digits n @ '' bytes truncated ...]'' @ [CHR 0x0A]"

definition truncateOutput :: "bash_tool \<Rightarrow> string \<Rightarrow> string \<times> bool" where
  "truncateOutput t output =
     (if bt_maxOutputChars t \<le> 0 \<or> int (length output) \<le> bt_maxOutputChars t then (output, False)
      else
        (let limit = nat (bt_maxOutputChars t);
             head = runeBoundary_bash output (limit div 2);
             tail = next_start output (length output - (limit - head))
         in (take head output @ truncation_note (tail - head) @ drop tail output, True)))"

subsection \<open>Environments and the persistent shell\<close>

definition env_name :: "string \<Rightarrow> string" where "env_name entry = fst (go_cut entry ''='')"

definition filterEnv :: "string list \<Rightarrow> string list \<Rightarrow> string list" where
  "filterEnv environ names = filter (\<lambda>e. env_name e \<in> set names) environ"

definition commandEnv :: "bash_tool \<Rightarrow> string list \<Rightarrow> string list option" where
  "commandEnv t environ = (case bt_envAllowlist t of None \<Rightarrow> None | Some names \<Rightarrow> Some (filterEnv environ names))"

definition volatileEnv :: "string list" where "volatileEnv = [''PWD'', ''OLDPWD'', ''SHLVL'', ''_'']"

text \<open>A Go map is an association list; the order its entries come in does not matter below.\<close>

definition envMap :: "string list \<Rightarrow> (string \<times> string) list" where
  "envMap env =
     fold (\<lambda>e m. case go_cut e ''='' of (name, val, ok) \<Rightarrow> if ok then AList.update name val m else m) env []"

record shell_state =
  ss_cwd :: string
  ss_set :: "(string \<times> string) list"
  ss_unset :: "string list"

definition new_shell_state :: shell_state where "new_shell_state = \<lparr>ss_cwd = [], ss_set = [], ss_unset = []\<rparr>"

definition shell_dir :: "shell_state \<Rightarrow> string \<Rightarrow> string" where
  "shell_dir s fallback = (if ss_cwd s \<noteq> [] then ss_cwd s else fallback)"

definition shell_apply :: "shell_state \<Rightarrow> string list \<Rightarrow> string list" where
  "shell_apply s env =
     (if ss_set s = [] \<and> ss_unset s = [] then env
      else filter (\<lambda>e. map_of (ss_set s) (env_name e) = None \<and> env_name e \<notin> set (ss_unset s)) env @
        map (\<lambda>(name, val). name @ ''='' @ val) (ss_set s))"

definition lookup_env :: "(string \<times> string) list \<Rightarrow> string \<Rightarrow> string" where
  "lookup_env m name = (case map_of m name of None \<Rightarrow> [] | Some v \<Rightarrow> v)"

definition record_set :: "(string \<times> string) list \<Rightarrow> string \<times> string \<Rightarrow> shell_state \<Rightarrow> shell_state" where
  "record_set old e s =
     (case e of (name, val) \<Rightarrow>
        if name \<notin> set volatileEnv \<and> lookup_env old name \<noteq> val
        then s\<lparr>ss_set := AList.update name val (ss_set s), ss_unset := removeAll name (ss_unset s)\<rparr>
        else s)"

definition record_unset :: "(string \<times> string) list \<Rightarrow> string \<times> string \<Rightarrow> shell_state \<Rightarrow> shell_state" where
  "record_unset new e s =
     (case e of (name, val) \<Rightarrow>
        if map_of new name = None \<and> name \<notin> set volatileEnv
        then s\<lparr>ss_unset := List.insert name (ss_unset s), ss_set := AList.delete name (ss_set s)\<rparr>
        else s)"

definition shell_update :: "string \<Rightarrow> string list \<Rightarrow> string list \<Rightarrow> shell_state \<Rightarrow> shell_state" where
  "shell_update dir old_env new_env s =
     (let old = envMap old_env; new = envMap new_env
      in fold (record_unset new) old (fold (record_set old) new (s\<lparr>ss_cwd := dir\<rparr>)))"

definition persistentScript :: "string \<Rightarrow> string" where
  "persistentScript command =
     (let nl = [CHR 0x0A]; q = [CHR 0x27]; dq = [CHR 0x22]; bs = [CHR 0x5C] in
      ''{'' @ nl @ command @ nl @ ''} 3>&-'' @ nl @ ''__phero_rc=$?'' @ nl @
      ''{ printf '' @ q @ ''%s'' @ bs @ ''0'' @ q @ '' '' @ dq @ ''$PWD'' @ dq @ ''; env -0; } >&3 2>/dev/null'' @ nl @
      ''exit $__phero_rc'' @ nl)"

text \<open>The report of a finished command: the directory, and the environment behind it.\<close>

definition read_report :: "string option \<Rightarrow> (string \<times> string list) option" where
  "read_report report =
     (case report of
        None \<Rightarrow> None
      | Some data \<Rightarrow>
          (let records = go_split data [CHR 0x00] in
           if length records < 2 \<or> hd records = [] then None
           else (let env = tl records in Some (hd records, if last env = [] then butlast env else env))))"

subsection \<open>Foreground commands\<close>

text \<open>
  A command as it is launched, and how its process ends: what it wrote, its report, whether the caller's
  context or the command's own has ended meanwhile, and the error of \<open>Run\<close>.
\<close>

record command =
  cm_script :: string
  cm_dir :: string
  cm_env :: "string list option"
  cm_timeout :: int

datatype run_error = RunOk | ExitCode int | RunFailed string

record process_end =
  pe_output :: string
  pe_report :: "string option"
  pe_ctx_err :: "string option"
  pe_expired :: bool
  pe_error :: run_error

text \<open>What \<open>LocalRunner\<close> makes of \<open>Env\<close> and \<open>ExtraEnv\<close>, and \<open>startEnv\<close>; \<open>None\<close> is the agent's environment.\<close>

definition local_env :: "string list \<Rightarrow> string list option \<Rightarrow> string list \<Rightarrow> string list option" where
  "local_env environ env extra =
     (if extra = [] then env else Some ((case env of None \<Rightarrow> environ | Some e \<Rightarrow> e) @ extra))"

definition start_env :: "string list \<Rightarrow> string list option \<Rightarrow> string list" where
  "start_env environ env = (case env of None \<Rightarrow> environ | Some e \<Rightarrow> e)"

definition newCommand :: "bash_tool \<Rightarrow> string list \<Rightarrow> shell_state \<Rightarrow> string \<Rightarrow> int \<Rightarrow> command" where
  "newCommand t environ s script timeout =
     (let env = local_env environ (commandEnv t environ) (bt_extraEnv t)
      in \<lparr>cm_script = script,
          cm_dir = (if bt_persistent t then shell_dir s (bt_workingDir t) else bt_workingDir t),
          cm_env = (if bt_persistent t then Some (shell_apply s (start_env environ env)) else env),
          cm_timeout = timeout\<rparr>)"

record bash_result =
  bo_output :: string
  bo_id :: string
  bo_running :: bool
  bo_truncated :: bool
  bo_timed_out :: bool

definition end_line :: "string \<Rightarrow> string" where
  "end_line out = (if out \<noteq> [] \<and> \<not> has_suffix out [CHR 0x0A] then out @ [CHR 0x0A] else out)"

text \<open>
  \<open>duration_text\<close> is \<open>Duration.String\<close>; \<open>process\<close> runs a command, or says why it could not be built.
\<close>

definition command_result :: "(int \<Rightarrow> string) \<Rightarrow> bash_tool \<Rightarrow> int \<Rightarrow> process_end \<Rightarrow> bash_err + bash_result" where
  "command_result duration_text t timeout p =
     (let (out, truncated) = truncateOutput t (pe_output p);
          result = \<lparr>bo_output = out, bo_id = [], bo_running = False, bo_truncated = truncated, bo_timed_out = False\<rparr>
      in if pe_error p = RunOk then Inr result
         else case pe_ctx_err p of
             Some c \<Rightarrow> Inl (SystemError c)
           | None \<Rightarrow>
               if pe_expired p then
                 Inr (result\<lparr>bo_output := end_line out @ ''command timed out after '' @ duration_text timeout, bo_timed_out := True\<rparr>)
               else
                 (case pe_error p of
                    ExitCode n \<Rightarrow> Inr (result\<lparr>bo_output := end_line out @ ''exit code: '' @ go_itoa n\<rparr>)
                  | RunFailed m \<Rightarrow> Inl (SystemError m)
                  | RunOk \<Rightarrow> Inr result))"

definition recordState :: "string list \<Rightarrow> command \<Rightarrow> process_end \<Rightarrow> shell_state \<Rightarrow> shell_state" where
  "recordState environ cmd p s =
     (case read_report (pe_report p) of
        Some (dir, env) \<Rightarrow>
          if pe_ctx_err p \<noteq> None \<or> pe_expired p then s else shell_update dir (start_env environ (cm_env cmd)) env s
      | None \<Rightarrow> s)"

definition runForeground ::
  "(int \<Rightarrow> string) \<Rightarrow> bash_tool \<Rightarrow> string list \<Rightarrow> (command \<Rightarrow> string + process_end) \<Rightarrow> string \<Rightarrow> int \<Rightarrow> shell_state
     \<Rightarrow> (bash_err + bash_result) \<times> shell_state" where
  "runForeground duration_text t environ process command timeout s =
     (let cmd = newCommand t environ s (if bt_persistent t then persistentScript command else command) timeout in
      case process cmd of
        Inl e \<Rightarrow> (Inl (SystemError e), s)
      | Inr p \<Rightarrow> (command_result duration_text t timeout p, if bt_persistent t then recordState environ cmd p s else s))"

subsection \<open>Background shells\<close>

record bshell =
  bs_out :: string
  bs_readOffset :: nat
  bs_running :: bool
  bs_maxOut :: int
  bs_unreadDropped :: nat

definition new_bshell :: "bash_tool \<Rightarrow> bshell" where
  "new_bshell t = \<lparr>bs_out = [], bs_readOffset = 0, bs_running = True, bs_maxOut = bt_maxBackgroundOutput t, bs_unreadDropped = 0\<rparr>"

definition shell_write :: "string \<Rightarrow> bshell \<Rightarrow> bshell" where
  "shell_write p s =
     (let data = bs_out s @ p in
      if 0 < bs_maxOut s \<and> bs_maxOut s < int (length data) then
        (let n = next_start data (length data - nat (bs_maxOut s))
         in s\<lparr>bs_out := drop n data, bs_unreadDropped := bs_unreadDropped s + (n - bs_readOffset s),
              bs_readOffset := bs_readOffset s - n\<rparr>)
      else s\<lparr>bs_out := data\<rparr>)"

text \<open>What a read takes: the bytes dropped unread before it, and the output behind the read position.\<close>

definition shell_read :: "bshell \<Rightarrow> (nat \<times> string) \<times> bshell" where
  "shell_read s =
     (let off = min (bs_readOffset s) (length (bs_out s))
      in ((bs_unreadDropped s, drop off (bs_out s)),
          s\<lparr>bs_readOffset := length (bs_out s), bs_unreadDropped := 0\<rparr>))"

record shells =
  sh_shells :: "string \<Rightarrow> bshell option"
  sh_closed :: bool

record output_output =
  oo_output :: string
  oo_running :: bool
  oo_truncated :: bool
  oo_dropped :: nat

definition filter_lines :: "(string \<Rightarrow> bool) \<Rightarrow> string \<Rightarrow> string" where
  "filter_lines m s = go_join (filter m (go_split s [CHR 0x0A])) [CHR 0x0A]"

definition bash_output ::
  "(string \<Rightarrow> string + (string \<Rightarrow> bool)) \<Rightarrow> bash_tool \<Rightarrow> string \<Rightarrow> string \<Rightarrow> shells \<Rightarrow> (bash_err + output_output) \<times> shells" where
  "bash_output rxp t shell_id filter_text st =
     (if blank shell_id then (Inl ErrBashIDRequired, st)
      else case sh_shells st shell_id of
          None \<Rightarrow> (Inl ErrShellNotFound, st)
        | Some s \<Rightarrow>
            (case (if blank filter_text then Inr None else map_sum id Some (rxp filter_text)) of
               Inl e \<Rightarrow> (Inl (ErrInvalidOutputFilter e), st)
             | Inr re \<Rightarrow>
                 (let ((dropped, incremental), s') = shell_read s;
                      shown = (case re of
                          Some m \<Rightarrow> if incremental \<noteq> [] then filter_lines m incremental else incremental
                        | None \<Rightarrow> incremental);
                      (trimmed, truncated) = truncateOutput t shown;
                      note_text = (if 0 < dropped then ''[... '' @ nat_digits dropped @ '' bytes dropped ...]'' @ [CHR 0x0A] else [])
                  in (Inr \<lparr>oo_output = note_text @ trimmed, oo_running = bs_running s, oo_truncated = truncated, oo_dropped = dropped\<rparr>,
                      st\<lparr>sh_shells := (sh_shells st)(shell_id := (if bs_running s then Some s' else None))\<rparr>))))"

text \<open>
  \<open>kill\<close> leaves the state to the process's end; \<open>kill_error\<close> is what the system says. \<open>build_error\<close> is
  what building a command's process says, and \<open>start_error\<close> starting it.
\<close>

definition bash_kill :: "string option \<Rightarrow> string \<Rightarrow> shells \<Rightarrow> bash_err + bool" where
  "bash_kill kill_error shell_id st =
     (if blank shell_id then Inl ErrShellIDRequired
      else case sh_shells st shell_id of
          None \<Rightarrow> Inl ErrShellNotFound
        | Some s \<Rightarrow>
            if \<not> bs_running s then Inr False
            else (case kill_error of Some e \<Rightarrow> Inl (SystemError e) | None \<Rightarrow> Inr True))"

definition startBackground :: "bash_tool \<Rightarrow> string \<Rightarrow> string option \<Rightarrow> string option \<Rightarrow> shells \<Rightarrow> (bash_err + string) \<times> shells" where
  "startBackground t shell_id build_error start_error st =
     (if build_error \<noteq> None then (Inl (SystemError (the build_error)), st)
      else if sh_closed st then (Inl ErrBashClosed, st)
      else case start_error of
          Some e \<Rightarrow> (Inl (SystemError e), st)
        | None \<Rightarrow> (Inr shell_id, st\<lparr>sh_shells := (sh_shells st)(shell_id \<mapsto> new_bshell t)\<rparr>))"

definition process_wrote :: "string \<Rightarrow> string \<Rightarrow> shells \<Rightarrow> shells" where
  "process_wrote shell_id p st =
     (case sh_shells st shell_id of
        None \<Rightarrow> st
      | Some s \<Rightarrow> st\<lparr>sh_shells := (sh_shells st)(shell_id \<mapsto> shell_write p s)\<rparr>)"

definition process_ended :: "string \<Rightarrow> shells \<Rightarrow> shells" where
  "process_ended shell_id st =
     (case sh_shells st shell_id of
        None \<Rightarrow> st
      | Some s \<Rightarrow> st\<lparr>sh_shells := (sh_shells st)(shell_id \<mapsto> s\<lparr>bs_running := False\<rparr>)\<rparr>)"

definition Close_bash :: "shells \<Rightarrow> shells" where "Close_bash st = st\<lparr>sh_closed := True\<rparr>"

text \<open>The tool's handler, with the identifier a background shell gets.\<close>

definition bash_run ::
  "(string \<Rightarrow> string) \<Rightarrow> (int \<Rightarrow> string) \<Rightarrow> bash_tool \<Rightarrow> string list \<Rightarrow> (command \<Rightarrow> string + process_end) \<Rightarrow> string \<Rightarrow> string option \<Rightarrow> string option
     \<Rightarrow> string \<Rightarrow> int \<Rightarrow> bool \<Rightarrow> shell_state \<times> shells \<Rightarrow> (bash_err + bash_result) \<times> shell_state \<times> shells" where
  "bash_run lr duration_text t environ process shell_id build_error start_error command timeoutMs background st =
     (if blank command then (Inl ErrCommandRequired, st)
      else if timeoutMs < 0 then (Inl ErrTimeoutTooLarge, st)
      else case checkCommand lr t command of
          Some e \<Rightarrow> (Inl e, st)
        | None \<Rightarrow>
            if background then
              (case startBackground t shell_id build_error start_error (snd st) of
                 (Inl e, b) \<Rightarrow> (Inl e, fst st, b)
               | (Inr i, b) \<Rightarrow>
                   (Inr \<lparr>bo_output = [], bo_id = i, bo_running = True, bo_truncated = False, bo_timed_out = False\<rparr>, fst st, b))
            else
              (case resolveTimeout t timeoutMs of
                 Inl e \<Rightarrow> (Inl e, st)
               | Inr timeout \<Rightarrow>
                   (case runForeground duration_text t environ process command timeout (fst st) of
                      (r, s') \<Rightarrow> (r, s', snd st))))"

end
