(* ===== verification/Bash_Correct.thy ===== *)
theory Bash_Correct
  imports Bash_Tool "HOL-Library.Sublist"
begin

section \<open>What the bash tool promises\<close>

text \<open>
  Background shells as a step relation: commands that are started, what their processes write, reads,
  ends and the tool's closing, in any order. Every byte a shell writes is given by exactly one read or
  counted as dropped (\<open>reads_account_for_output\<close>). Truncated output keeps its two ends and says how much is
  missing. The environment a command of a persistent shell leaves is the one the next starts with.
\<close>

subsection \<open>Background output\<close>

lemma next_start_le: "i \<le> length s \<Longrightarrow> next_start s i \<le> length s"
  by (induction s i rule: next_start.induct) (subst next_start.simps, auto)

lemma next_start_ge: "i \<le> next_start s i"
  by (induction s i rule: next_start.induct) (subst next_start.simps, auto)

lemma next_start_start: "next_start s i < length s \<Longrightarrow> rune_start (s ! next_start s i)"
  by (induction s i rule: next_start.induct) (subst next_start.simps, subst (asm) next_start.simps, auto split: if_splits)

text \<open>
  What a shell wrote, its reads so far, and its state: the reads, each with the bytes lost before it,
  the bytes counted as lost since, and the output that is not read yet make up the whole.
\<close>

type_synonym shell_reading = "nat \<times> string"

definition replay :: "string list \<Rightarrow> shell_reading list \<Rightarrow> string" where
  "replay losts reads = concat (map2 (\<lambda>lost r. lost @ snd r) losts reads)"

definition accounted :: "string list \<Rightarrow> shell_reading list \<Rightarrow> bool" where
  "accounted losts reads \<longleftrightarrow> map length losts = map fst reads"

definition shell_inv :: "string \<Rightarrow> shell_reading list \<Rightarrow> bshell \<Rightarrow> bool" where
  "shell_inv written reads s \<longleftrightarrow>
     bs_readOffset s \<le> length (bs_out s) \<and>
     (0 < bs_maxOut s \<longrightarrow> int (length (bs_out s)) \<le> bs_maxOut s) \<and>
     (\<exists>losts lost. accounted losts reads \<and> length lost = bs_unreadDropped s \<and>
        written = replay losts reads @ lost @ drop (bs_readOffset s) (bs_out s))"

lemma shell_inv_new: "shell_inv [] [] (new_bshell t)"
  by (auto simp: shell_inv_def new_bshell_def accounted_def replay_def)

lemma shell_inv_write: "shell_inv written reads s \<Longrightarrow> shell_inv (written @ p) reads (shell_write p s)"
proof -
  assume i: "shell_inv written reads s"
  then obtain losts lost where l: "accounted losts reads" "length lost = bs_unreadDropped s"
      "written = replay losts reads @ lost @ drop (bs_readOffset s) (bs_out s)"
    and o: "bs_readOffset s \<le> length (bs_out s)" by (auto simp: shell_inv_def)
  define data where "data = bs_out s @ p"
  have w: "written @ p = replay losts reads @ lost @ drop (bs_readOffset s) data" using l(3) o by (simp add: data_def)
  show ?thesis
  proof (cases "0 < bs_maxOut s \<and> bs_maxOut s < int (length data)")
    case False
    then show ?thesis using l(1,2) w o
      by (auto simp: shell_inv_def shell_write_def data_def [symmetric] Let_def intro!: exI [of _ losts] exI [of _ lost])
        (auto simp: data_def)
  next
    case True
    define n where "n = next_start data (length data - nat (bs_maxOut s))"
    have n: "n \<le> length data" "length data - nat (bs_maxOut s) \<le> n"
      using next_start_le [of "length data - nat (bs_maxOut s)" data] next_start_ge [of "length data - nat (bs_maxOut s)" data]
      by (simp_all add: n_def)
    have e: "shell_write p s = s\<lparr>bs_out := drop n data, bs_unreadDropped := bs_unreadDropped s + (n - bs_readOffset s),
        bs_readOffset := bs_readOffset s - n\<rparr>"
      using True by (simp add: shell_write_def data_def [symmetric] n_def [symmetric] Let_def)
    have od: "bs_readOffset s \<le> length data" using o by (simp add: data_def)
    have "drop (bs_readOffset s) data = take (n - bs_readOffset s) (drop (bs_readOffset s) data) @ drop (bs_readOffset s - n) (drop n data)"
    proof (cases "n \<le> bs_readOffset s")
      case False
      then have "drop (n - bs_readOffset s) (drop (bs_readOffset s) data) = drop n data" by simp
      then show ?thesis using append_take_drop_id [of "n - bs_readOffset s" "drop (bs_readOffset s) data"] False by simp
    qed simp
    then have "written @ p = replay losts reads @ (lost @ take (n - bs_readOffset s) (drop (bs_readOffset s) data)) @
        drop (bs_readOffset s - n) (drop n data)" using w by (metis append.assoc)
    moreover have "length (lost @ take (n - bs_readOffset s) (drop (bs_readOffset s) data)) = bs_unreadDropped s + (n - bs_readOffset s)"
      using l(2) n(1) by simp
    moreover have "int (length (drop n data)) \<le> bs_maxOut s" using n True by auto
    moreover have "bs_readOffset s - n \<le> length (drop n data)" using od n(1) by simp
    ultimately show ?thesis using l(1) unfolding e shell_inv_def
      by (intro conjI exI [of _ losts] exI [of _ "lost @ take (n - bs_readOffset s) (drop (bs_readOffset s) data)"]) simp_all
  qed
qed

lemma replay_snoc: "length losts = length reads \<Longrightarrow> replay (losts @ [lost]) (reads @ [r]) = replay losts reads @ lost @ snd r"
  by (simp add: replay_def)

lemma accounted_length: "accounted losts reads \<Longrightarrow> length losts = length reads"
  unfolding accounted_def by (metis length_map)

lemma shell_inv_read:
  assumes "shell_inv written reads s" and "shell_read s = (r, s')"
  shows "shell_inv written (reads @ [r]) s' \<and> (\<exists>losts. accounted losts (reads @ [r]) \<and> written = replay losts (reads @ [r]))"
proof -
  obtain losts lost where l: "accounted losts reads" "length lost = bs_unreadDropped s"
      "written = replay losts reads @ lost @ drop (bs_readOffset s) (bs_out s)"
    and o: "bs_readOffset s \<le> length (bs_out s)" using assms(1) by (auto simp: shell_inv_def)
  have r: "r = (length lost, drop (bs_readOffset s) (bs_out s))"
    and s': "s' = s\<lparr>bs_readOffset := length (bs_out s), bs_unreadDropped := 0\<rparr>"
    using assms(2) o l(2) by (simp_all add: shell_read_def Let_def min_def split: if_splits)
  have "accounted (losts @ [lost]) (reads @ [r])" using l(1) r by (simp add: accounted_def)
  moreover have "written = replay (losts @ [lost]) (reads @ [r])" using l(3) r replay_snoc [OF accounted_length [OF l(1)]] by simp
  ultimately have a: "accounted (losts @ [lost]) (reads @ [r]) \<and> written = replay (losts @ [lost]) (reads @ [r])" by simp
  then have "shell_inv written (reads @ [r]) s'" using assms(1)
    unfolding shell_inv_def s' by (intro conjI exI [of _ "losts @ [lost]"] exI [of _ "[]"]) auto
  then show ?thesis using a by blast
qed

text \<open>
  The tool's life. Beside its shells stand the identifiers given out, what each shell wrote and its
  reads. Identifiers are random and never given out twice; only a running process writes.
\<close>

record bash_life =
  bl_shells :: shells
  bl_ids :: "string set"
  bl_written :: "string \<Rightarrow> string"
  bl_reads :: "string \<Rightarrow> shell_reading list"

definition bash_birth :: bash_life where
  "bash_birth = \<lparr>bl_shells = \<lparr>sh_shells = (\<lambda>_. None), sh_closed = False\<rparr>, bl_ids = {}, bl_written = (\<lambda>_. []), bl_reads = (\<lambda>_. [])\<rparr>"

inductive bash_step :: "bash_tool \<Rightarrow> bash_life \<Rightarrow> bash_life \<Rightarrow> bool" for t :: bash_tool where
  started: "startBackground t i be se (bl_shells l) = (Inr i, st) \<Longrightarrow> i \<notin> bl_ids l \<Longrightarrow>
    bash_step t l (l\<lparr>bl_shells := st, bl_ids := insert i (bl_ids l), bl_written := (bl_written l)(i := []), bl_reads := (bl_reads l)(i := [])\<rparr>)"
| wrote: "sh_shells (bl_shells l) i = Some s \<Longrightarrow> bs_running s \<Longrightarrow>
    bash_step t l (l\<lparr>bl_shells := process_wrote i p (bl_shells l), bl_written := (bl_written l)(i := bl_written l i @ p)\<rparr>)"
| ended: "bash_step t l (l\<lparr>bl_shells := process_ended i (bl_shells l)\<rparr>)"
| was_read: "bash_output rxp t i f (bl_shells l) = (Inr out, st) \<Longrightarrow> sh_shells (bl_shells l) i = Some s \<Longrightarrow>
    bash_step t l (l\<lparr>bl_shells := st, bl_reads := (bl_reads l)(i := bl_reads l i @ [fst (shell_read s)])\<rparr>)"
| closed: "bash_step t l (l\<lparr>bl_shells := Close_bash (bl_shells l)\<rparr>)"

inductive bash_reach :: "bash_tool \<Rightarrow> bash_life \<Rightarrow> bool" for t :: bash_tool where
  birth: "bash_reach t bash_birth"
| later: "bash_reach t l \<Longrightarrow> bash_step t l l' \<Longrightarrow> bash_reach t l'"

definition life_inv :: "bash_life \<Rightarrow> bool" where
  "life_inv l \<longleftrightarrow>
     (\<forall>i. case sh_shells (bl_shells l) i of
        Some s \<Rightarrow> i \<in> bl_ids l \<and> shell_inv (bl_written l i) (bl_reads l i) s
      | None \<Rightarrow> \<exists>losts. accounted losts (bl_reads l i) \<and> bl_written l i = replay losts (bl_reads l i))"

lemma life_inv_at:
  "life_inv l \<longleftrightarrow>
     (\<forall>i s. sh_shells (bl_shells l) i = Some s \<longrightarrow> i \<in> bl_ids l \<and> shell_inv (bl_written l i) (bl_reads l i) s) \<and>
     (\<forall>i. sh_shells (bl_shells l) i = None \<longrightarrow> (\<exists>losts. accounted losts (bl_reads l i) \<and> bl_written l i = replay losts (bl_reads l i)))"
  unfolding life_inv_def by (auto split: option.splits)

lemma bash_step_inv: "bash_step t l l' \<Longrightarrow> life_inv l \<Longrightarrow> life_inv l'"
proof (induction rule: bash_step.induct)
  case (started i be se l st)
  then have "st = (bl_shells l)\<lparr>sh_shells := (sh_shells (bl_shells l))(i \<mapsto> new_bshell t)\<rparr>"
    by (auto simp: startBackground_def split: if_splits option.splits)
  then show ?case using started.prems shell_inv_new by (auto simp: life_inv_at)
next
  case (wrote l i s p)
  then show ?case using shell_inv_write by (auto simp: life_inv_at process_wrote_def)
next
  case (ended l i)
  have "shell_inv w r (s\<lparr>bs_running := False\<rparr>) = shell_inv w r s" for w r s by (simp add: shell_inv_def)
  then show ?case using ended by (cases "sh_shells (bl_shells l) i") (auto simp: life_inv_at process_ended_def)
next
  case (was_read rxp i f l out st s)
  obtain r s' where r: "shell_read s = (r, s')" by (cases "shell_read s")
  have "st = (bl_shells l)\<lparr>sh_shells := (sh_shells (bl_shells l))(i := (if bs_running s then Some s' else None))\<rparr>"
    using was_read.hyps r by (auto simp: bash_output_def Let_def split: if_splits sum.splits prod.splits option.splits)
  moreover have "shell_inv (bl_written l i) (bl_reads l i) s" "i \<in> bl_ids l" using was_read.prems was_read.hyps(2) by (auto simp: life_inv_at)
  ultimately show ?case using was_read.prems shell_inv_read [OF _ r] r by (auto simp: life_inv_at)
next
  case (closed l)
  then show ?case by (simp add: life_inv_at Close_bash_def)
qed

lemma bash_reach_inv: "bash_reach t l \<Longrightarrow> life_inv l"
proof (induction rule: bash_reach.induct)
  case birth
  show ?case by (simp add: bash_birth_def life_inv_at accounted_def replay_def)
next
  case (later l l')
  then show ?case by (rule_tac bash_step_inv)
qed



text \<open>A shell with room for four bytes that writes six, is read, and writes two more.\<close>

definition small_tool :: bash_tool where "small_tool = New_bash [WithMaxBackgroundOutput 4]"

definition demo_life :: bash_life where
  "demo_life =
     (let st1 = snd (startBackground small_tool ''a'' None None (bl_shells bash_birth));
          st2 = process_wrote ''a'' ''hello!'' st1;
          st3 = snd (bash_output (\<lambda>_. Inl []) small_tool ''a'' [] st2);
          st4 = process_wrote ''a'' ''ab'' st3
      in \<lparr>bl_shells = st4, bl_ids = {''a''}, bl_written = (\<lambda>_. [])(''a'' := ''hello!ab''), bl_reads = (\<lambda>_. [])(''a'' := [(2, ''llo!'')])\<rparr>)"

lemma demo_life_reach: "bash_reach small_tool demo_life"
proof -
  let ?st0 = "bl_shells bash_birth" and ?no = "\<lambda>_::string. Inl [] :: string + (string \<Rightarrow> bool)"
  let ?st1 = "snd (startBackground small_tool ''a'' None None ?st0)"
  let ?st2 = "process_wrote ''a'' ''hello!'' ?st1"
  let ?st3 = "snd (bash_output ?no small_tool ''a'' [] ?st2)"
  let ?l1 = "\<lparr>bl_shells = ?st1, bl_ids = {''a''}, bl_written = (\<lambda>_. [])(''a'' := []), bl_reads = (\<lambda>_. [])(''a'' := [])\<rparr>"
  let ?l2 = "\<lparr>bl_shells = ?st2, bl_ids = {''a''}, bl_written = (\<lambda>_. [])(''a'' := ''hello!''), bl_reads = (\<lambda>_. [])(''a'' := [])\<rparr>"
  let ?l3 = "\<lparr>bl_shells = ?st3, bl_ids = {''a''}, bl_written = (\<lambda>_. [])(''a'' := ''hello!''), bl_reads = (\<lambda>_. [])(''a'' := [(2, ''llo!'')])\<rparr>"
  have "startBackground small_tool ''a'' None None ?st0 = (Inr ''a'', ?st1)"
    by (simp add: startBackground_def bash_birth_def)
  from bash_step.started [OF this] have s1: "bash_step small_tool bash_birth ?l1" by (simp add: bash_birth_def)
  have "sh_shells ?st1 ''a'' = Some (new_bshell small_tool)" by (simp add: startBackground_def bash_birth_def)
  then have s2: "bash_step small_tool ?l1 ?l2"
    using bash_step.wrote [of ?l1 "''a''" "new_bshell small_tool" small_tool "''hello!''"] by (simp add: new_bshell_def)
  have a2: "sh_shells ?st2 ''a'' = Some \<lparr>bs_out = ''llo!'', bs_readOffset = 0, bs_running = True, bs_maxOut = 4, bs_unreadDropped = 2\<rparr>"
    by code_simp
  have "\<exists>out. bash_output ?no small_tool ''a'' [] ?st2 = (Inr out, ?st3)"
    by (rule exI [of _ "\<lparr>oo_output = ''[... 2 bytes dropped ...]'' @ [CHR 0x0A] @ ''llo!'', oo_running = True, oo_truncated = False, oo_dropped = 2\<rparr>"])
      (rule prod_eqI; simp; code_simp)
  then obtain out where o: "bash_output ?no small_tool ''a'' [] ?st2 = (Inr out, ?st3)" by blast
  have s3: "bash_step small_tool ?l2 ?l3"
    using bash_step.was_read [of ?no small_tool "''a''" "[]" ?l2 out ?st3, simplified, OF o a2]
    by (simp add: shell_read_def Let_def)
  have a3: "sh_shells (bl_shells ?l3) ''a'' = Some \<lparr>bs_out = ''llo!'', bs_readOffset = 4, bs_running = True, bs_maxOut = 4, bs_unreadDropped = 0\<rparr>"
    by code_simp
  have s4: "bash_step small_tool ?l3 (?l3\<lparr>bl_shells := process_wrote ''a'' ''ab'' (bl_shells ?l3), bl_written := (bl_written ?l3)(''a'' := bl_written ?l3 ''a'' @ ''ab'')\<rparr>)"
    by (rule bash_step.wrote [OF a3]) simp
  have d: "?l3\<lparr>bl_shells := process_wrote ''a'' ''ab'' (bl_shells ?l3), bl_written := (bl_written ?l3)(''a'' := bl_written ?l3 ''a'' @ ''ab'')\<rparr> = demo_life"
    by (simp add: demo_life_def Let_def)
  show ?thesis
    by (rule bash_reach.later [OF bash_reach.later [OF bash_reach.later [OF bash_reach.later [OF bash_reach.birth s1] s2] s3] s4 [unfolded d]])
qed


subsection \<open>Truncated output\<close>

lemma runeBoundary_bash_le: "runeBoundary_bash s n \<le> n"
  by (induction s n rule: runeBoundary_bash.induct) auto

lemma runeBoundary_bash_start:
  "runeBoundary_bash s n < length s \<Longrightarrow> runeBoundary_bash s n \<noteq> 0 \<Longrightarrow> rune_start (s ! runeBoundary_bash s n)"
  by (induction s n rule: runeBoundary_bash.induct) (auto split: if_splits)

text \<open>
  Output that is truncated keeps its start and its end, together within the cap, and says how many bytes
  it leaves out between them; neither cut splits a character.
\<close>

theorem truncated_output_keeps_ends:
  assumes "truncateOutput t out = (r, True)"
  shows "\<exists>start cut_part rest. out = start @ cut_part @ rest \<and> r = start @ truncation_note (length cut_part) @ rest \<and>
    int (length start + length rest) \<le> bt_maxOutputChars t \<and> cut_part \<noteq> [] \<and>
    (start = [] \<or> rune_start (hd cut_part)) \<and> (rest = [] \<or> rune_start (hd rest))"
proof -
  have m: "0 < bt_maxOutputChars t" "bt_maxOutputChars t < int (length out)"
    using assms by (auto simp: truncateOutput_def split: if_splits)
  define limit where "limit = nat (bt_maxOutputChars t)"
  define h where "h = runeBoundary_bash out (limit div 2)"
  define e where "e = next_start out (length out - (limit - h))"
  have r: "r = take h out @ truncation_note (e - h) @ drop e out"
    using assms m by (simp add: truncateOutput_def limit_def [symmetric] h_def [symmetric] e_def [symmetric] Let_def)
  have lim: "0 < limit" "limit < length out" using m by (auto simp: limit_def)
  have hl: "h \<le> limit div 2" unfolding h_def by (rule runeBoundary_bash_le)
  have e1: "e \<le> length out" unfolding e_def by (rule next_start_le) simp
  have e2: "length out - (limit - h) \<le> e" unfolding e_def by (rule next_start_ge)
  have he: "h < e" using hl e2 lim by linarith
  define mid where "mid = drop h (take e out)"
  have "out = take h out @ mid @ drop e out"
    using he e1 unfolding mid_def by (metis append_take_drop_id append.assoc less_imp_le min.absorb1 take_take)
  moreover have lm: "length mid = e - h" using e1 by (simp add: mid_def)
  moreover have "int (length (take h out) + length (drop e out)) \<le> bt_maxOutputChars t"
    using e1 e2 hl lim m by (simp add: limit_def)
  moreover have "mid \<noteq> []" using lm he by auto
  moreover have "take h out = [] \<or> rune_start (hd mid)"
    using runeBoundary_bash_start [of out "limit div 2"] he e1 lim
    by (auto simp: h_def [symmetric] mid_def hd_drop_conv_nth)
  moreover have "drop e out = [] \<or> rune_start (hd (drop e out))"
  proof (cases "e < length out")
    case True
    then show ?thesis using next_start_start [of out "length out - (limit - h)"] by (simp add: e_def [symmetric] hd_drop_conv_nth)
  qed simp
  ultimately show ?thesis using r by metis
qed

theorem truncated_output_keeps_ends_witness:
  "\<exists>start cut_part rest. ''abcdefgh'' = start @ cut_part @ rest \<and>
    fst (truncateOutput (New_bash [WithMaxOutputChars_bash 4]) ''abcdefgh'') = start @ truncation_note (length cut_part) @ rest \<and>
    length start + length rest \<le> 4"
proof -
  let ?t = "New_bash [WithMaxOutputChars_bash 4]"
  obtain r where r: "truncateOutput ?t ''abcdefgh'' = (r, True)"
  proof -
    have "snd (truncateOutput ?t ''abcdefgh'')" by code_simp
    then show thesis using that [of "fst (truncateOutput ?t ''abcdefgh'')"] by (simp add: prod_eq_iff)
  qed
  have "bt_maxOutputChars ?t = 4" by (simp add: New_bash_def WithMaxOutputChars_bash_def)
  with truncated_output_keeps_ends [OF r] obtain a b c where "''abcdefgh'' = a @ b @ c" "r = a @ truncation_note (length b) @ c"
    "int (length a + length c) \<le> 4" by auto
  then show ?thesis using r by (intro exI [of _ a] exI [of _ b] exI [of _ c]) auto
qed

subsection \<open>The environment from one command to the next\<close>

definition env_step :: "string \<Rightarrow> (string \<times> string) list \<Rightarrow> (string \<times> string) list" where
  "env_step e m = (case go_cut e ''='' of (name, val, ok) \<Rightarrow> if ok then AList.update name val m else m)"

lemma envMap_fold: "envMap env = fold env_step env []"
  by (simp add: envMap_def env_step_def [abs_def])

lemma map_of_env_step:
  "map_of (env_step e m) name =
     (if snd (snd (go_cut e ''='')) \<and> env_name e = name then Some (fst (snd (go_cut e ''=''))) else map_of m name)"
  by (auto simp: env_step_def env_name_def update_conv' split: prod.splits)

text \<open>A variable's value depends on the entries of its name alone.\<close>

lemma env_fold_filter:
  "map_of (fold env_step (filter (\<lambda>e. P (env_name e)) env) []) name = (if P name then map_of (fold env_step env []) name else None)"
  by (induction env rule: rev_induct) (auto simp: map_of_env_step)

text \<open>A key of an environment holds no equals sign; such an entry reads back as it was rendered.\<close>

lemma index_char_first: "go_index s [c] = Some i \<Longrightarrow> c \<notin> set (take i s)"
  by (induction s arbitrary: i) (auto simp: has_prefix_def split: if_splits)

lemma index_char_at: "c \<notin> set s \<Longrightarrow> go_index (s @ c # v) [c] = Some (length s)"
  by (induction s) (auto simp: has_prefix_def)

lemma go_cut_name: "go_cut e ''='' = (name, val, True) \<Longrightarrow> CHR ''='' \<notin> set name"
  by (auto simp: go_cut_def dest: index_char_first split: option.splits)

lemma go_cut_rendered: "CHR ''='' \<notin> set name \<Longrightarrow> go_cut (name @ CHR ''='' # val) ''='' = (name, val, True)"
  by (simp add: go_cut_def index_char_at)

lemma env_step_rendered: "CHR ''='' \<notin> set name \<Longrightarrow> env_step (name @ CHR ''='' # val) m = AList.update name val m"
  unfolding env_step_def by (subst go_cut_rendered) simp_all

definition env_keys :: "(string \<times> string) list \<Rightarrow> bool" where
  "env_keys m \<longleftrightarrow> distinct (map fst m) \<and> (\<forall>k \<in> fst ` set m. CHR ''='' \<notin> set k)"

lemma env_fold_rendered:
  "env_keys sets \<Longrightarrow>
   map_of (fold env_step (map (\<lambda>(name, val). name @ CHR ''='' # val) sets) m) name =
     (case map_of sets name of Some v \<Rightarrow> Some v | None \<Rightarrow> map_of m name)"
proof (induction sets arbitrary: m)
  case (Cons e sets)
  obtain n v where e: "e = (n, v)" by (cases e)
  have "map_of sets n = None" "CHR ''='' \<notin> set n" "env_keys sets"
    using Cons.prems e by (auto simp: map_of_eq_None_iff env_keys_def)
  then show ?case using Cons.IH e
    by (auto simp: env_step_rendered update_conv' split: option.splits)
qed simp

lemma env_keys_update: "env_keys m \<Longrightarrow> CHR ''='' \<notin> set name \<Longrightarrow> env_keys (AList.update name val m)"
  by (auto simp: env_keys_def distinct_update dom_update)

lemma env_keys_delete: "env_keys m \<Longrightarrow> env_keys (AList.delete name m)"
  unfolding env_keys_def AList.delete_eq by (auto intro: distinct_map_filter)

lemma env_keys_step: "env_keys m \<Longrightarrow> env_keys (env_step e m)"
  by (auto simp: env_step_def env_keys_update dest: go_cut_name split: prod.splits)

lemma env_keys_fold: "env_keys m \<Longrightarrow> env_keys (fold env_step env m)"
  by (induction env arbitrary: m) (auto simp: env_keys_step)

lemma envMap_keys: "env_keys (envMap env)"
  unfolding envMap_fold by (rule env_keys_fold) (simp add: env_keys_def)

text \<open>What carrying a state over does to the value of a variable.\<close>

definition shell_ok :: "shell_state \<Rightarrow> bool" where "shell_ok s \<longleftrightarrow> env_keys (ss_set s)"

lemma shell_apply_value:
  assumes "shell_ok s"
  shows "map_of (envMap (shell_apply s env)) name =
    (case map_of (ss_set s) name of
       Some v \<Rightarrow> Some v
     | None \<Rightarrow> if name \<in> set (ss_unset s) then None else map_of (envMap env) name)"
proof (cases "ss_set s = [] \<and> ss_unset s = []")
  case False
  have "map_of (fold env_step (filter (\<lambda>e. map_of (ss_set s) (env_name e) = None \<and> env_name e \<notin> set (ss_unset s)) env) []) name =
      (if map_of (ss_set s) name = None \<and> name \<notin> set (ss_unset s) then map_of (envMap env) name else None)"
    using env_fold_filter [of "\<lambda>n. map_of (ss_set s) n = None \<and> n \<notin> set (ss_unset s)" env name] by (simp add: envMap_fold)
  then show ?thesis using False assms
    by (auto simp: shell_apply_def envMap_fold env_fold_rendered shell_ok_def split: option.splits)
qed (simp add: shell_apply_def)

text \<open>A name whose value the command set, and one it took away.\<close>

definition changed :: "(string \<times> string) list \<Rightarrow> (string \<times> string) list \<Rightarrow> string \<Rightarrow> bool" where
  "changed old new name \<longleftrightarrow>
     name \<notin> set volatileEnv \<and> (case map_of new name of Some v \<Rightarrow> lookup_env old name \<noteq> v | None \<Rightarrow> False)"

definition gone :: "(string \<times> string) list \<Rightarrow> (string \<times> string) list \<Rightarrow> string \<Rightarrow> bool" where
  "gone old new name \<longleftrightarrow> name \<notin> set volatileEnv \<and> map_of old name \<noteq> None \<and> map_of new name = None"

lemma record_set_fold:
  "env_keys new \<Longrightarrow>
   map_of (ss_set (fold (record_set old) new s)) name = (if changed old new name then map_of new name else map_of (ss_set s) name) \<and>
   (name \<in> set (ss_unset (fold (record_set old) new s)) \<longleftrightarrow> name \<in> set (ss_unset s) \<and> \<not> changed old new name)"
proof (induction new arbitrary: s)
  case Nil
  then show ?case by (simp add: changed_def)
next
  case (Cons e new)
  obtain n v where e: "e = (n, v)" by (cases e)
  have new: "map_of new n = None" "env_keys new" using Cons.prems e by (auto simp: map_of_eq_None_iff env_keys_def)
  then show ?case using Cons.IH [OF new(2), of "record_set old e s"] e
    by (auto simp: record_set_def changed_def update_conv' split: if_splits option.splits)
qed

lemma record_set_ok: "env_keys new \<Longrightarrow> shell_ok s \<Longrightarrow> shell_ok (fold (record_set old) new s)"
proof (induction new arbitrary: s)
  case (Cons e new)
  then have "env_keys new" "CHR ''='' \<notin> set (fst e)" by (auto simp: env_keys_def)
  moreover from this(2) Cons.prems(2) have "shell_ok (record_set old e s)"
    by (auto simp: record_set_def shell_ok_def env_keys_update split: prod.splits)
  ultimately have "shell_ok (record_set old e s)" "env_keys new" by simp_all
  then show ?case using Cons.IH by simp
qed simp

lemma record_unset_fold:
  "map_of (ss_set (fold (record_unset new) old s)) name = (if gone old new name then None else map_of (ss_set s) name) \<and>
   (name \<in> set (ss_unset (fold (record_unset new) old s)) \<longleftrightarrow> name \<in> set (ss_unset s) \<or> gone old new name)"
proof (induction old arbitrary: s)
  case Nil
  then show ?case by (simp add: gone_def)
next
  case (Cons e old)
  obtain n v where e: "e = (n, v)" by (cases e)
  show ?case using Cons.IH [of "record_unset new e s"] e
    by (auto simp: record_unset_def gone_def delete_conv' split: if_splits)
qed

lemma record_unset_ok: "shell_ok s \<Longrightarrow> shell_ok (fold (record_unset new) old s)"
proof (induction old arbitrary: s)
  case (Cons e old)
  then have "shell_ok (record_unset new e s)" by (auto simp: record_unset_def shell_ok_def env_keys_delete split: prod.splits)
  then show ?case using Cons.IH by simp
qed simp

lemma shell_update_ok: "shell_ok s \<Longrightarrow> shell_ok (shell_update dir old_env new_env s)"
  unfolding shell_update_def Let_def
  by (rule record_unset_ok [OF record_set_ok [OF envMap_keys]]) (simp add: shell_ok_def)

lemma record_unset_cwd: "ss_cwd (fold (record_unset new) old s) = ss_cwd s"
  by (induction old arbitrary: s) (auto simp: record_unset_def split: prod.splits)

lemma record_set_cwd: "ss_cwd (fold (record_set old) new s) = ss_cwd s"
  by (induction new arbitrary: s) (auto simp: record_set_def split: prod.splits)

lemma shell_update_cwd: "ss_cwd (shell_update dir old_env new_env s) = dir"
  by (simp add: shell_update_def Let_def record_unset_cwd record_set_cwd)

text \<open>The next command's environment, by the one the last reported.\<close>

lemma shell_update_value:
  assumes "shell_ok s" and "name \<notin> set volatileEnv"
    and "\<not> (map_of (envMap (shell_apply s base)) name = None \<and> map_of (envMap left) name = Some [])"
  shows "map_of (envMap (shell_apply (shell_update dir (shell_apply s base) left s) base)) name = map_of (envMap left) name"
proof -
  let ?old = "envMap (shell_apply s base)" and ?new = "envMap left"
  let ?s1 = "fold (record_set ?old) ?new (s\<lparr>ss_cwd := dir\<rparr>)"
  let ?s2 = "fold (record_unset ?new) ?old ?s1"
  have s2: "shell_update dir (shell_apply s base) left s = ?s2" by (simp add: shell_update_def Let_def)
  have ok: "shell_ok ?s2" using shell_update_ok [OF assms(1), of dir "shell_apply s base" left] by (simp add: s2)
  note old = shell_apply_value [OF assms(1), of base name]
  show ?thesis unfolding s2 shell_apply_value [OF ok]
    using record_set_fold [OF envMap_keys, of ?old left "s\<lparr>ss_cwd := dir\<rparr>" name] record_unset_fold [of ?new ?old ?s1 name] old assms(2,3)
    by (auto simp: changed_def gone_def lookup_env_def split: option.splits if_splits)
qed

text \<open>The states a persistent shell can be in: any commands may have run, with any outcome.\<close>

inductive persist_reach :: "bash_tool \<Rightarrow> string list \<Rightarrow> shell_state \<Rightarrow> bool" for t :: bash_tool and environ :: "string list" where
  fresh: "persist_reach t environ new_shell_state"
| ran: "persist_reach t environ s \<Longrightarrow> runForeground dt t environ process command timeout s = (r, s') \<Longrightarrow> persist_reach t environ s'"

lemma persist_reach_ok: "persist_reach t environ s \<Longrightarrow> shell_ok s"
proof (induction rule: persist_reach.induct)
  case fresh
  show ?case by (simp add: shell_ok_def new_shell_state_def env_keys_def)
next
  case (ran s dt process command timeout r s')
  then show ?case
    by (auto simp: runForeground_def recordState_def Let_def shell_update_ok split: sum.splits option.splits if_splits prod.splits)
qed

lemma persistent_env:
  "bt_persistent t \<Longrightarrow> cm_env (newCommand t environ s script timeout) =
     Some (shell_apply s (start_env environ (local_env environ (commandEnv t environ) (bt_extraEnv t))))"
  by (simp add: newCommand_def Let_def)


text \<open>A command that changes \<open>A\<close>, drops \<open>B\<close>, and sets a new \<open>E\<close> to nothing.\<close>

definition demo_bash :: bash_tool where "demo_bash = New_bash [WithPersistentShell]"

definition demo_process :: "command \<Rightarrow> string + process_end" where
  "demo_process cmd =
     Inr \<lparr>pe_output = [], pe_report = Some (''/w'' @ CHR 0x00 # ''A=2'' @ CHR 0x00 # ''E='' @ [CHR 0x00]),
          pe_ctx_err = None, pe_expired = False, pe_error = RunOk\<rparr>"

definition demo_next :: command where
  "demo_next =
     newCommand demo_bash [''A=1'', ''B=1'']
       (snd (runForeground (\<lambda>_. []) demo_bash [''A=1'', ''B=1''] demo_process ''x'' 0 new_shell_state)) ''y'' 0"

lemma demo_left: "read_report (pe_report (projr (demo_process c))) = Some (''/w'', [''A=2'', ''E=''])"
  by (simp add: demo_process_def) code_simp


lemma empty_variable_forgotten:
  "map_of (envMap [''A=2'', ''E='']) ''E'' = Some [] \<and> map_of (envMap (the (cm_env demo_next))) ''E'' = None"
  by code_simp

subsection \<open>Timeouts\<close>

text \<open>
  A command whose timeout in milliseconds fits a duration runs under a positive limit, which neither the tool's
  own timeout nor its maximum is below.
\<close>

theorem command_runs_under_limit:
  assumes "resolveTimeout t ms = Inr d" and "ms * millisecond < 2 ^ 63" and "0 \<le> ms" and "0 < bt_timeout t \<or> 0 < bt_defaultTimeout t"
  shows "0 < d \<and> (if 0 < bt_timeout t then d \<le> bt_timeout t else True) \<and> (if 0 < bt_maxTimeout t then d \<le> bt_maxTimeout t else True)"
proof -
  have "ms_duration ms = ms * millisecond" using assms(2,3) by (simp add: ms_duration_def millisecond_def)
  then show ?thesis using assms by (auto simp: resolveTimeout_def Let_def millisecond_def split: if_splits)
qed

theorem command_runs_under_limit_witness:
  "resolveTimeout (New_bash [WithSafeMode]) 60000 = Inr SafeModeTimeout \<and> 0 < SafeModeTimeout"
proof -
  have r: "resolveTimeout (New_bash [WithSafeMode]) 60000 = Inr SafeModeTimeout" by code_simp
  then show ?thesis using command_runs_under_limit [OF r]
    by (simp add: millisecond_def New_bash_def WithSafeMode_def SafeModeTimeout_def duration_second_def)
qed

text \<open>A larger number of milliseconds wraps: below zero, a command runs without any limit.\<close>

lemma huge_timeout_lifts_limit:
  "resolveTimeout (New_bash [WithSafeMode]) 9223372036855 = Inr (- 9223372036854551616) \<and>
   resolveBackgroundTimeout (New_bash [WithBackgroundTimeout duration_second]) 9223372036855 = - 9223372036854551616"
  by code_simp

end
