(* ===== verification/Bash_Sandbox.thy ===== *)
theory Bash_Sandbox
  imports Bash_Tool Path_Names Os_Files
begin

section \<open>The bubblewrap sandbox\<close>

text \<open>
  \<open>tool/bash/runner_bwrap.go\<close>: the runner that gives a command to \<open>bwrap\<close>, its checks of the mounted
  paths, and the arguments and environment it builds. What \<open>bwrap\<close> does with a list of mounts is its
  documentation's, which the code's comment repeats: a later mount covers an earlier one
  (\<open>mounted_at\<close>). The link that \<open>os.Lstat\<close> finds is the one \<open>os.Readlink\<close> reads.
\<close>

subsection \<open>The runner\<close>

record bwrap_runner =
  bw_bwrap :: string
  bw_workspace :: string
  bw_home :: string
  bw_writable :: "string list"
  bw_readOnly :: "string list"
  bw_network :: bool

datatype bwrap_err = ErrBubblewrapNotFound | ErrPathTooBroad string

definition bwrapBind :: string where "bwrapBind = ''--bind''"
definition bwrapROBind :: string where "bwrapROBind = ''--ro-bind''"

definition SystemPaths :: "string list" where
  "SystemPaths = [''/usr'', ''/bin'', ''/sbin'', ''/lib'', ''/lib32'', ''/lib64'', ''/libx32'', ''/etc'', ''/opt'']"

definition DefaultEnvAllowlist :: "string list" where
  "DefaultEnvAllowlist =
     [''PATH'', ''HOME'', ''USER'', ''LOGNAME'', ''SHELL'', ''LANG'', ''LC_ALL'', ''LC_CTYPE'', ''TERM'', ''TMPDIR'', ''TZ'']"

definition WithNetwork :: "bool \<Rightarrow> bwrap_runner \<Rightarrow> bwrap_runner" where
  "WithNetwork enabled r = r\<lparr>bw_network := enabled\<rparr>"
definition WithWritablePaths :: "string list \<Rightarrow> bwrap_runner \<Rightarrow> bwrap_runner" where
  "WithWritablePaths ps r = r\<lparr>bw_writable := bw_writable r @ ps\<rparr>"
definition WithReadOnlyPaths_bwrap :: "string list \<Rightarrow> bwrap_runner \<Rightarrow> bwrap_runner" where
  "WithReadOnlyPaths_bwrap ps r = r\<lparr>bw_readOnly := bw_readOnly r @ ps\<rparr>"

definition resolvedPath :: "fs \<Rightarrow> string \<Rightarrow> string" where
  "resolvedPath s p = (case EvalSymlinks s p of Inr r \<Rightarrow> r | Inl e \<Rightarrow> Clean p)"

definition bw_homes :: "fs \<Rightarrow> bwrap_runner \<Rightarrow> string list" where
  "bw_homes s r = (if bw_home r \<noteq> [] then [bw_home r, resolvedPath s (bw_home r)] else [])"

definition too_broad :: "string list \<Rightarrow> string \<Rightarrow> bool" where
  "too_broad homes candidate \<longleftrightarrow>
     candidate = slash \<or> list_ex (\<lambda>home. candidate = home \<or> has_prefix home (candidate @ slash)) homes"

definition bw_paths :: "bwrap_runner \<Rightarrow> string list" where
  "bw_paths r = bw_workspace r # bw_writable r @ bw_readOnly r"

definition checkPaths :: "fs \<Rightarrow> bwrap_runner \<Rightarrow> bwrap_err option" where
  "checkPaths s r =
     map_option ErrPathTooBroad
       (List.find (\<lambda>p. list_ex (too_broad (bw_homes s r)) [Clean p, resolvedPath s p]) (bw_paths r))"

text \<open>\<open>bwrap\<close> is what looking up the program gives, and \<open>home\<close> the user's home directory, if it is known.\<close>

definition NewBubblewrapRunner ::
  "fs \<Rightarrow> string option \<Rightarrow> string option \<Rightarrow> string \<Rightarrow> (bwrap_runner \<Rightarrow> bwrap_runner) list \<Rightarrow> bwrap_err + bwrap_runner" where
  "NewBubblewrapRunner s bwrap home workspace opts =
     (case bwrap of
        None \<Rightarrow> Inl ErrBubblewrapNotFound
      | Some b \<Rightarrow>
          (let r = fold (\<lambda>f. f) opts
                 \<lparr>bw_bwrap = b, bw_workspace = [], bw_home = [], bw_writable = [], bw_readOnly = [], bw_network = False\<rparr>;
               r1 = r\<lparr>bw_workspace := Abs s workspace, bw_writable := map (Abs s) (bw_writable r),
                      bw_readOnly := map (Abs s) (bw_readOnly r)\<rparr>;
               r2 = (case home of Some h \<Rightarrow> if IsAbs h then r1\<lparr>bw_home := Clean h\<rparr> else r1 | None \<Rightarrow> r1)
           in case checkPaths s r2 of Some e \<Rightarrow> Inl e | None \<Rightarrow> Inr r2))"

subsection \<open>Mounts and arguments\<close>

definition depth :: "string \<Rightarrow> nat" where
  "depth p = length (filter (\<lambda>c. c = CHR ''/'') (Clean p))"

text \<open>The mounts in the order they are given in; the library's sort is as stable as \<open>SortStableFunc\<close>.\<close>

definition bind_list :: "bwrap_runner \<Rightarrow> (string \<times> string) list" where
  "bind_list r =
     (bwrapBind, bw_workspace r) # map (Pair bwrapBind) (bw_writable r) @ map (Pair bwrapROBind) (bw_readOnly r)"

definition sorted_binds :: "bwrap_runner \<Rightarrow> (string \<times> string) list" where
  "sorted_binds r = sort_key (\<lambda>b. depth (snd b)) (bind_list r)"

definition binds :: "bwrap_runner \<Rightarrow> string list" where
  "binds r = concat (map (\<lambda>(flag, p). [flag, p, p]) (sorted_binds r))"

definition systemMounts :: "fs \<Rightarrow> string list" where
  "systemMounts s =
     concat (map (\<lambda>p. case lstat s p of
         Inl e \<Rightarrow> []
       | Inr (Symlink t) \<Rightarrow> [''--symlink'', t, p]
       | Inr _ \<Rightarrow> [bwrapROBind, p, p]) SystemPaths)"

definition resolvConfMount :: "fs \<Rightarrow> string list" where
  "resolvConfMount s =
     (case EvalSymlinks s ''/etc/resolv.conf'' of
        Inl e \<Rightarrow> []
      | Inr t \<Rightarrow> if has_prefix t ''/run/'' then [bwrapROBind, t, t] else [])"

definition bwrap_args :: "fs \<Rightarrow> bwrap_runner \<Rightarrow> string \<Rightarrow> string \<Rightarrow> string list" where
  "bwrap_args s r command dir =
     systemMounts s @ [''--dev'', ''/dev'', ''--proc'', ''/proc'', ''--tmpfs'', ''/tmp'', ''--tmpfs'', ''/run''] @
     (if bw_home r \<noteq> [] then [''--tmpfs'', bw_home r] else []) @
     (if bw_network r then resolvConfMount s else []) @
     binds r @ [''--unshare-all''] @ (if bw_network r then [''--share-net''] else []) @
     [''--new-session'', ''--die-with-parent'', ''--chdir'', (if dir = [] then bw_workspace r else dir), ''--'', ''bash'', ''-c'', command]"

definition bwrap_env :: "string list \<Rightarrow> string list option \<Rightarrow> string list \<Rightarrow> string list" where
  "bwrap_env environ env extra = (case env of None \<Rightarrow> filterEnv environ DefaultEnvAllowlist | Some e \<Rightarrow> e) @ extra"

definition Command_bwrap ::
  "fs \<Rightarrow> bwrap_runner \<Rightarrow> string list \<Rightarrow> string \<Rightarrow> string \<Rightarrow> string list option \<Rightarrow> string list \<Rightarrow> string \<times> string list \<times> string list" where
  "Command_bwrap s r environ command dir env extra =
     (bw_bwrap r, bwrap_args s r command dir, bwrap_env environ env extra)"

subsection \<open>What is mounted where\<close>

definition covers :: "string \<Rightarrow> string \<Rightarrow> bool" where
  "covers p x \<longleftrightarrow> p = x \<or> has_prefix x (p @ slash)"

text \<open>The mount a path is seen through: the last one that covers it.\<close>

definition mounted_at :: "(string \<times> string) list \<Rightarrow> string \<Rightarrow> (string \<times> string) option" where
  "mounted_at bs x = List.find (\<lambda>b. covers (snd b) x) (rev bs)"

lemma mounted_at_last:
  "mounted_at bs x = (let c = filter (\<lambda>b. covers (snd b) x) bs in if c = [] then None else Some (last c))"
  by (induction bs rule: rev_induct) (auto simp: mounted_at_def Let_def)

text \<open>Two mounts of one depth that cover a path have the same path.\<close>

lemma covers_depth:
  assumes "covers p x" "covers q x" "Clean p = p" "Clean q = q" "depth p = depth q"
  shows "p = q"
proof -
  have step: "p = q" if p: "covers p x" "covers q x" "Clean p = p" "Clean q = q" "depth p = depth q" and l: "length p \<le> length q" for p q
  proof (rule ccontr)
    assume n: "p \<noteq> q"
    obtain u where x: "x = q @ u" using p(2) by (auto simp: covers_def has_prefix_iff)
    have "p \<noteq> x" using l n x by auto
    then obtain v where "x = p @ CHR ''/'' # v" using p(1) by (auto simp: covers_def has_prefix_iff slash_def)
    then obtain t where "q = p @ t" using x l by (auto simp: append_eq_append_conv2)
    moreover from this have "t \<noteq> []" using n by simp
    moreover have "q @ u = p @ CHR ''/'' # v" using x \<open>x = p @ CHR ''/'' # v\<close> by simp
    ultimately obtain t' where "q = p @ CHR ''/'' # t'" by (cases t) auto
    then show False using p(3-5) by (simp add: depth_def)
  qed
  show ?thesis
  proof (cases "length p \<le> length q")
    case True
    then show ?thesis using step assms by blast
  next
    case False
    then have "length q \<le> length p" by simp
    then show ?thesis using step [of q p] assms by metis
  qed
qed

lemma Clean_fixed: "IsAbs p \<Longrightarrow> Clean (Clean p) = Clean p"
  by (erule Clean_abs) simp

lemma Abs_fixed: "IsAbs (cwd s) \<Longrightarrow> Clean (Abs s p) = Abs s p"
proof (cases "IsAbs p")
  case True
  then show ?thesis by (simp add: Abs_def Clean_fixed)
next
  case False
  assume c: "IsAbs (cwd s)"
  then obtain cs where cs: "cwd s = CHR ''/'' # cs" by (auto simp: IsAbs_def has_prefix_iff slash_def)
  then have "Abs s p = Clean (go_join [cwd s, p] slash)" using False by (simp add: Abs_def Join_def)
  moreover have "IsAbs (go_join [cwd s, p] slash)" using cs by (simp add: IsAbs_def has_prefix_def slash_def)
  ultimately show ?thesis by (simp add: Clean_fixed)
qed

lemma NewBubblewrapRunner_ok:
  assumes "NewBubblewrapRunner s bwrap home workspace opts = Inr r" and "IsAbs (cwd s)"
  shows "list_all (\<lambda>p. Clean p = p) (bw_paths r)" and "checkPaths s r = None"
    and "home = Some h \<Longrightarrow> IsAbs h \<Longrightarrow> bw_home r = Clean h \<and> bw_home r \<noteq> []"
proof -
  show "list_all (\<lambda>p. Clean p = p) (bw_paths r)" "checkPaths s r = None"
    using assms by (auto simp: NewBubblewrapRunner_def Let_def bw_paths_def list_all_iff Abs_fixed split: option.splits if_splits)
  show "bw_home r = Clean h \<and> bw_home r \<noteq> []" if "home = Some h" "IsAbs h"
    using assms that IsAbs_Clean [OF that(2)]
    by (auto simp: NewBubblewrapRunner_def Let_def IsAbs_def has_prefix_def slash_def split: option.splits)
qed

lemma last_filter: "xs \<noteq> [] \<Longrightarrow> P (last xs) \<Longrightarrow> last (filter P xs) = last xs"
  by (induction xs rule: rev_induct) auto

lemma sorted_last_max: "sorted (map f xs) \<Longrightarrow> x \<in> set xs \<Longrightarrow> (f x :: nat) \<le> f (last xs)"
  by (induction xs rule: rev_induct) (auto simp: sorted_append)

lemma bind_list_paths: "snd ` set (bind_list r) = set (bw_paths r)"
  by (simp add: bind_list_def bw_paths_def image_Un image_image)

text \<open>The mount that decides on a path is the deepest that covers it; of two on one path it is the read-only one.\<close>

lemma deepest_mount_decides:
  assumes clean: "list_all (\<lambda>p. Clean p = p) (bw_paths r)" and m: "mounted_at (sorted_binds r) x = Some (flag, p)"
  shows "covers p x \<and> p \<in> set (bw_paths r) \<and> list_all (\<lambda>p'. if covers p' x then depth p' \<le> depth p else True) (bw_paths r) \<and>
    flag = (if p \<in> set (bw_readOnly r) then bwrapROBind else bwrapBind)"
proof -
  define C where "C = filter (\<lambda>b. covers (snd b) x) (sorted_binds r)"
  have C: "C \<noteq> []" "last C = (flag, p)" using m by (auto simp: mounted_at_last C_def [symmetric] Let_def split: if_splits)
  have mem: "b \<in> set C \<longleftrightarrow> b \<in> set (bind_list r) \<and> covers (snd b) x" for b by (auto simp: C_def sorted_binds_def)
  have at: "(flag, p) \<in> set (bind_list r)" "covers p x" using last_in_set [OF C(1)] C(2) mem by auto
  have "sorted (map (\<lambda>b. depth (snd b)) C)" unfolding C_def sorted_binds_def by (intro sorted_filter sorted_sort_key)
  then have max: "b \<in> set C \<Longrightarrow> depth (snd b) \<le> depth p" for b using sorted_last_max [of "\<lambda>b. depth (snd b)" C b] C(2) by simp
  have "depth p' \<le> depth p" if "p' \<in> set (bw_paths r)" "covers p' x" for p'
  proof -
    have "p' \<in> snd ` set (bind_list r)" using that(1) by (simp add: bind_list_paths)
    then obtain b where b: "b \<in> set (bind_list r)" "snd b = p'" by auto
    then show ?thesis using max [of b] mem [of b] that(2) by simp
  qed
  moreover have "flag = (if p \<in> set (bw_readOnly r) then bwrapROBind else bwrapBind)"
  proof (cases "p \<in> set (bw_readOnly r)")
    case False
    then show ?thesis using at(1) by (auto simp: bind_list_def)
  next
    case True
    let ?at = "\<lambda>b. depth (snd b) = depth p"
    have "filter ?at C = filter (\<lambda>b. covers (snd b) x) (filter ?at (bind_list r))"
    proof -
      have "filter ?at (sorted_binds r) = filter ?at (bind_list r)" unfolding sorted_binds_def by (rule sort_key_stable)
      then have "filter (\<lambda>b. covers (snd b) x) (filter ?at (sorted_binds r)) = filter (\<lambda>b. covers (snd b) x) (filter ?at (bind_list r))" by simp
      then show ?thesis unfolding C_def filter_filter by (simp add: conj_commute)
    qed
    note fc = this
    define W where "W = (bwrapBind, bw_workspace r) # map (Pair bwrapBind) (bw_writable r)"
    have bl: "bind_list r = W @ map (Pair bwrapROBind) (bw_readOnly r)" by (simp add: bind_list_def W_def)
    have A: "filter ?at C = filter (\<lambda>b. ?at b \<and> covers (snd b) x) W @
        filter (\<lambda>b. ?at b \<and> covers (snd b) x) (map (Pair bwrapROBind) (bw_readOnly r))"
      unfolding fc bl filter_append filter_filter by (simp only: conj_commute)
    define R where "R = filter (\<lambda>b. ?at b \<and> covers (snd b) x) (map (Pair bwrapROBind) (bw_readOnly r))"
    have "(bwrapROBind, p) \<in> set R" using True at(2) by (simp add: R_def)
    then have "R \<noteq> []" by auto
    then have "last (filter ?at C) = last R" "last R \<in> set R" unfolding A R_def [symmetric] by simp_all
    then have "fst (last (filter ?at C)) = bwrapROBind" by (auto simp: R_def)
    moreover have "last (filter ?at C) = (flag, p)" using last_filter [OF C(1), of ?at] C(2) by simp
    ultimately show ?thesis using True by auto
  qed
  moreover have "p \<in> snd ` set (bind_list r)" using at(1) by (rule image_eqI [rotated]) simp
  ultimately show ?thesis using at(2) by (simp add: bind_list_paths list_all_iff)
qed

lemma unmounted: "mounted_at (sorted_binds r) x = None \<longleftrightarrow> list_all (\<lambda>p. \<not> covers p x) (bw_paths r)"
proof -
  have "mounted_at (sorted_binds r) x = None \<longleftrightarrow> (\<forall>p \<in> snd ` set (bind_list r). \<not> covers p x)"
    by (auto simp: mounted_at_last Let_def filter_empty_conv sorted_binds_def)
  then show ?thesis by (simp add: bind_list_paths list_all_iff)
qed


text \<open>A workspace with its \<open>.git\<close> kept read-only.\<close>

definition demo_host :: fs where
  "demo_host =
     \<lparr>nodes = (\<lambda>d. if d = [] \<or> d = [''w''] \<or> d = [''h''] then Some (Folder 0) else None), clock = 0, cwd = ''/w'', written = 0,
      suffixes = (\<lambda>_. 0), fault = (\<lambda>_ _. None)\<rparr>"

definition demo_runner :: bwrap_runner where
  "demo_runner =
     \<lparr>bw_bwrap = ''b'', bw_workspace = ''/w'', bw_home = ''/h'', bw_writable = [], bw_readOnly = [''/w/.git''], bw_network = False\<rparr>"

lemma demo_runner_new: "NewBubblewrapRunner demo_host (Some ''b'') (Some ''/h'') ''/w'' [WithReadOnlyPaths_bwrap [''.git'']] = Inr demo_runner"
  by code_simp


end
