(* ===== verification/Semantic_Cache.thy ===== *)
theory Semantic_Cache
  imports Middleware Vector_Filter Json_Text "HOL-Library.List_Lexorder" "HOL-Library.Char_ord"
begin

section \<open>LLM middleware: the semantic cache\<close>

text \<open>
  \<open>llm/middleware/cache.go\<close>. The vector store, the embedder, the random identifiers and SHA-256 are arguments
  (\<open>cache_env\<close>); what a store is relied on for is \<open>keeps_points\<close>: a query gives points that were
  stored before, and nothing but an upsert stores any. A result is stored as the text of its JSON value. A
  contract is always encodable, as a schema is JSON data. Trace events are left out.
\<close>

subsection \<open>Results as JSON text\<close>

definition enc_usage :: "usage \<Rightarrow> json" where
  "enc_usage u = JObj
     ([(''inputTokens'', JNum (go_itoa (input_tokens u))), (''outputTokens'', JNum (go_itoa (output_tokens u)))] @
      omitempty (cache_read_tokens u = 0) ''cacheReadTokens'' (JNum (go_itoa (cache_read_tokens u))) @
      omitempty (cache_write_tokens u = 0) ''cacheWriteTokens'' (JNum (go_itoa (cache_write_tokens u))) @
      omitempty (reasoning_tokens u = 0) ''reasoningTokens'' (JNum (go_itoa (reasoning_tokens u))))"

definition empty_usage :: usage where
  "empty_usage = \<lparr>input_tokens = 0, output_tokens = 0, cache_read_tokens = 0, cache_write_tokens = 0, reasoning_tokens = 0\<rparr>"

definition usage_fields :: "usage field list" where
  "usage_fields =
     [(''inputTokens'', dec_int (\<lambda>i u. u\<lparr>input_tokens := i\<rparr>)), (''outputTokens'', dec_int (\<lambda>i u. u\<lparr>output_tokens := i\<rparr>)),
      (''cacheReadTokens'', dec_int (\<lambda>i u. u\<lparr>cache_read_tokens := i\<rparr>)), (''cacheWriteTokens'', dec_int (\<lambda>i u. u\<lparr>cache_write_tokens := i\<rparr>)),
      (''reasoningTokens'', dec_int (\<lambda>i u. u\<lparr>reasoning_tokens := i\<rparr>))]"

definition enc_result :: "llm_result \<Rightarrow> json" where
  "enc_result r = JObj
     ([(''message'', case res_message r of None \<Rightarrow> JNull | Some m \<Rightarrow> enc_message m)] @
      (case res_usage r of None \<Rightarrow> [] | Some u \<Rightarrow> [(''usage'', enc_usage u)]) @
      omitempty (res_model r = []) ''model'' (enc_string (res_model r)) @
      omitempty (res_finish r = []) ''finishReason'' (enc_string (res_finish r)) @
      omitempty (res_raw_finish r = []) ''rawFinishReason'' (enc_string (res_raw_finish r)))"

text \<open>A pointer is filled in where it stands, and \<open>null\<close> makes it nil.\<close>

definition dec_ptr :: "'b field list \<Rightarrow> 'b \<Rightarrow> ('a \<Rightarrow> 'b option) \<Rightarrow> ('b option \<Rightarrow> 'a \<Rightarrow> 'a) \<Rightarrow> json \<Rightarrow> 'a \<Rightarrow> 'a option" where
  "dec_ptr fs zero get put j x =
     (case j of
        JNull \<Rightarrow> Some (put None x)
      | _ \<Rightarrow> map_option (\<lambda>y. put (Some y) x) (dec_struct fs j (case get x of None \<Rightarrow> zero | Some y \<Rightarrow> y)))"

definition result_fields :: "llm_result field list" where
  "result_fields =
     [(''message'', dec_ptr message_fields empty_message res_message (\<lambda>m r. r\<lparr>res_message := m\<rparr>)),
      (''usage'', dec_ptr usage_fields empty_usage res_usage (\<lambda>u r. r\<lparr>res_usage := u\<rparr>)),
      (''model'', dec_string (\<lambda>s r. r\<lparr>res_model := s\<rparr>)),
      (''finishReason'', dec_string (\<lambda>s r. r\<lparr>res_finish := s\<rparr>)),
      (''rawFinishReason'', dec_string (\<lambda>s r. r\<lparr>res_raw_finish := s\<rparr>))]"

definition dec_result :: "json \<Rightarrow> llm_result option" where
  "dec_result j = dec_struct result_fields j empty_result"

definition result_text :: "llm_result \<Rightarrow> string" where "result_text r = json_print (enc_result r)"

definition text_result :: "string \<Rightarrow> llm_result option" where
  "text_result raw = (case json_parse raw of None \<Rightarrow> None | Some j \<Rightarrow> dec_result j)"

subsection \<open>Configuration\<close>

datatype cache_err = ErrNilEmbedder | ErrNilStore | ErrInvalidThreshold

record cache_config =
  sc_threshold :: f64
  sc_report_usage :: bool
  sc_skip_with_tools :: bool

definition defaultSimilarityThreshold :: f64 where "defaultSimilarityThreshold = Fin (95 / 100)"
definition cachePayloadKey :: string where "cachePayloadKey = ''result''"
definition cacheContractKey :: string where "cacheContractKey = ''contract''"

definition WithSimilarityThreshold :: "f64 \<Rightarrow> cache_config \<Rightarrow> cache_config" where
  "WithSimilarityThreshold t c = c\<lparr>sc_threshold := t\<rparr>"
definition WithReportCachedUsage :: "bool \<Rightarrow> cache_config \<Rightarrow> cache_config" where
  "WithReportCachedUsage b c = c\<lparr>sc_report_usage := b\<rparr>"
definition WithSkipToolCalls :: "bool \<Rightarrow> cache_config \<Rightarrow> cache_config" where
  "WithSkipToolCalls b c = c\<lparr>sc_skip_with_tools := b\<rparr>"

record scored_point =
  sp_id :: string
  sp_score :: f64
  sp_payload :: payload

record 'v point =
  pt_id :: string
  pt_vector :: 'v
  pt_payload :: payload

record ('w, 'v) cache_env =
  ce_ensure :: "'w goctx \<Rightarrow> 'w \<Rightarrow> err option \<times> 'w"
  ce_embed :: "'w goctx \<Rightarrow> string list \<Rightarrow> 'w \<Rightarrow> (err + 'v list) \<times> 'w"
  ce_query :: "'w goctx \<Rightarrow> 'v \<Rightarrow> nat \<Rightarrow> vfilter \<Rightarrow> 'w \<Rightarrow> (err + scored_point list) \<times> 'w"
  ce_upsert :: "'w goctx \<Rightarrow> 'v point list \<Rightarrow> 'w \<Rightarrow> err option \<times> 'w"
  ce_uuid :: "'w \<Rightarrow> string \<times> 'w"
  ce_sha256 :: "string \<Rightarrow> string"

text \<open>The embedder and the store may be nil.\<close>

definition NewSemanticCache :: "bool \<Rightarrow> bool \<Rightarrow> (cache_config \<Rightarrow> cache_config) list \<Rightarrow> cache_err + cache_config" where
  "NewSemanticCache nil_embedder nil_store opts =
     (if nil_embedder then Inl ErrNilEmbedder
      else if nil_store then Inl ErrNilStore
      else
        (let cfg = fold (\<lambda>f. f) opts
               \<lparr>sc_threshold = defaultSimilarityThreshold, sc_report_usage = False, sc_skip_with_tools = True\<rparr>
         in if f_less (sc_threshold cfg) (Fin 0) \<or> f_less (Fin 1) (sc_threshold cfg) then Inl ErrInvalidThreshold else Inr cfg))"

subsection \<open>Contracts and keys\<close>

text \<open>A map is written in the order of its keys.\<close>

fun sort_json :: "json \<Rightarrow> json" where
  "sort_json (JObj ms) = JObj (sort_key fst (map (\<lambda>(k, v). (k, sort_json v)) ms))"
| "sort_json (JArr js) = JArr (map sort_json js)"
| "sort_json j = j"

definition empty_map :: "json option \<Rightarrow> bool" where
  "empty_map j = (case j of None \<Rightarrow> True | Some (JObj []) \<Rightarrow> True | _ \<Rightarrow> False)"

definition contract_json :: "'w call_config \<Rightarrow> json" where
  "contract_json cfg = JObj
     ((case cc_response_format cfg of
         None \<Rightarrow> []
       | Some f \<Rightarrow>
           omitempty (rf_name f = []) ''format'' (enc_string (rf_name f)) @
           omitempty (empty_map (rf_schema f)) ''schema'' (sort_json (case rf_schema f of Some s \<Rightarrow> s | None \<Rightarrow> JNull))) @
      (case cc_tool_choice cfg of
         None \<Rightarrow> []
       | Some tc \<Rightarrow> [(''tool_choice'', JObj [(''Mode'', enc_string (tch_mode tc)), (''Name'', enc_string (tch_name tc))])]) @
      omitempty (cc_max_output_tokens cfg = 0) ''max_output_tokens'' (JNum (go_itoa (cc_max_output_tokens cfg))))"

definition callContract :: "('w, 'v) cache_env \<Rightarrow> 'w call_config \<Rightarrow> string" where
  "callContract env cfg =
     (if cc_response_format cfg = None \<and> cc_tool_choice cfg = None \<and> cc_max_output_tokens cfg = 0 then []
      else ce_sha256 env (json_print (contract_json cfg)))"

definition cacheKey :: "message list \<Rightarrow> 'w tool list \<Rightarrow> string" where
  "cacheKey ms tools =
     concat (map (\<lambda>m. role m @ '':'' @ msg_text m @ [CHR 0x0A]) ms) @
     (if tools = [] then [] else ''tools:'' @ go_join (sort (map tool_name tools)) '','')"

subsection \<open>Looking up and storing\<close>

definition cache_lookup ::
  "('w, 'v) cache_env \<Rightarrow> cache_config \<Rightarrow> 'w goctx \<Rightarrow> 'v \<Rightarrow> string \<Rightarrow> 'w \<Rightarrow> llm_result option \<times> 'w" where
  "cache_lookup env cfg ctx vector contract w =
     (case ce_query env ctx vector 1 (ApplyQueryOptions [Some (WithFilter (NewFilter [Eq cacheContractKey (GStr contract)]))]) w of
        (Inl e, w1) \<Rightarrow> (None, w1)
      | (Inr [], w1) \<Rightarrow> (None, w1)
      | (Inr (best # rest), w1) \<Rightarrow>
          (if f_less (sp_score best) (sc_threshold cfg) then None
           else if (case sp_payload best cacheContractKey of Some (GStr stored) \<Rightarrow> stored | _ \<Rightarrow> []) \<noteq> contract then None
           else case sp_payload best cachePayloadKey of
               Some (GStr raw) \<Rightarrow>
                 (case text_result raw of
                    None \<Rightarrow> None
                  | Some r \<Rightarrow> Some (if sc_report_usage cfg then r else r\<lparr>res_usage := Some empty_usage\<rparr>))
             | _ \<Rightarrow> None,
           w1))"

definition cache_point :: "string \<Rightarrow> 'v \<Rightarrow> string \<Rightarrow> llm_result \<Rightarrow> 'v point" where
  "cache_point i vector contract r =
     \<lparr>pt_id = i, pt_vector = vector,
      pt_payload = [cachePayloadKey \<mapsto> GStr (result_text r), cacheContractKey \<mapsto> GStr contract]\<rparr>"

definition cache_persist ::
  "('w, 'v) cache_env \<Rightarrow> 'w goctx \<Rightarrow> 'v \<Rightarrow> string \<Rightarrow> llm_result option \<Rightarrow> 'w \<Rightarrow> 'w" where
  "cache_persist env ctx vector contract res w =
     (case res of
        None \<Rightarrow> w
      | Some r \<Rightarrow>
          (let (i, w1) = ce_uuid env w in snd (ce_upsert env ctx [cache_point i vector contract r] w1)))"

text \<open>The collection is ensured by the first call that needs it; \<open>ensured\<close> is the state of \<open>sync.Once\<close>.\<close>

definition ensureCollection :: "('w, 'v) cache_env \<Rightarrow> 'w goctx \<Rightarrow> bool \<Rightarrow> 'w \<Rightarrow> err option \<times> bool \<times> 'w" where
  "ensureCollection env ctx ensured w =
     (if ensured then (None, True, w) else (let (e, w1) = ce_ensure env ctx w in (e, True, w1)))"

type_synonym 'v cache_entry = "'v \<times> string"

definition cache_check ::
  "('w, 'v) cache_env \<Rightarrow> cache_config \<Rightarrow> 'w goctx \<Rightarrow> message list \<Rightarrow> 'w call_option option list \<Rightarrow> bool \<Rightarrow> 'w
     \<Rightarrow> ('v cache_entry option \<times> llm_result option) \<times> bool \<times> 'w" where
  "cache_check env cfg ctx ms os ensured w =
     (let cc = NewCallConfig os in
      if sc_skip_with_tools cfg \<and> cc_tools cc \<noteq> [] then ((None, None), ensured, w)
      else case ensureCollection env ctx ensured w of
          (Some e, d, w1) \<Rightarrow> ((None, None), d, w1)
        | (None, d, w1) \<Rightarrow>
            (let contract = callContract env cc in
             case ce_embed env ctx [cacheKey ms (cc_tools cc)] w1 of
               (Inl e, w2) \<Rightarrow> ((None, None), d, w2)
             | (Inr [], w2) \<Rightarrow> ((None, None), d, w2)
             | (Inr (vector # vs), w2) \<Rightarrow>
                 (case cache_lookup env cfg ctx vector contract w2 of
                    (Some cached, w3) \<Rightarrow> ((None, Some cached), d, w3)
                  | (None, w3) \<Rightarrow> ((Some (vector, contract), None), d, w3))))"

definition cache_execute ::
  "('w, 'v) cache_env \<Rightarrow> cache_config \<Rightarrow> 'w llm \<Rightarrow> 'w goctx \<Rightarrow> message list \<Rightarrow> 'w call_option option list \<Rightarrow> bool \<Rightarrow> 'w
     \<Rightarrow> (err + llm_result option) \<times> bool \<times> 'w" where
  "cache_execute env cfg inner ctx ms os ensured w =
     (case cache_check env cfg ctx ms os ensured w of
        ((entry, Some cached), d, w1) \<Rightarrow> (Inr (Some cached), d, w1)
      | ((entry, None), d, w1) \<Rightarrow>
          (case llm_execute inner ctx ms os w1 of
             (Inl e, w2) \<Rightarrow> (Inl e, d, w2)
           | (Inr r, w2) \<Rightarrow>
               (Inr r, d, case entry of None \<Rightarrow> w2 | Some (v, c) \<Rightarrow> cache_persist env ctx v c r w2)))"

text \<open>The items of a stream up to its first error; a terminal chunk is stored as it passes.\<close>

fun cache_chunks ::
  "('w, 'v) cache_env \<Rightarrow> 'w goctx \<Rightarrow> 'v cache_entry option \<Rightarrow> (err + stream_chunk) list \<Rightarrow> 'w
     \<Rightarrow> (err + stream_chunk) list \<times> 'w" where
  "cache_chunks env ctx entry [] w = ([], w)"
| "cache_chunks env ctx entry (Inl e # items) w = ([Inl e], w)"
| "cache_chunks env ctx entry (Inr c # items) w =
     (let w1 = (case entry of
            Some (v, k) \<Rightarrow> if ch_done c then cache_persist env ctx v k (Some (resultFromChunk c)) w else w
          | None \<Rightarrow> w);
          (rest, w2) = cache_chunks env ctx entry items w1
      in (Inr c # rest, w2))"

definition cache_stream ::
  "('w, 'v) cache_env \<Rightarrow> cache_config \<Rightarrow> 'w llm \<Rightarrow> 'w goctx \<Rightarrow> message list \<Rightarrow> 'w call_option option list \<Rightarrow> bool \<Rightarrow> 'w
     \<Rightarrow> (err + stream_chunk) list \<times> bool \<times> 'w" where
  "cache_stream env cfg inner ctx ms os ensured w =
     (case cache_check env cfg ctx ms os ensured w of
        ((entry, Some cached), d, w1) \<Rightarrow> ([Inr (chunk_of_result (Some cached))], d, w1)
      | ((entry, None), d, w1) \<Rightarrow>
          (let (items, w2) = StreamOrBuffer inner ctx ms os w1;
               (shown, w3) = cache_chunks env ctx entry items w2
           in (shown, d, w3)))"

subsection \<open>Results are read back as they were stored\<close>

definition int64 :: "int \<Rightarrow> bool" where "int64 i \<longleftrightarrow> min_int64 \<le> i \<and> i \<le> max_int64"

definition valid_usage :: "usage \<Rightarrow> bool" where
  "valid_usage u \<longleftrightarrow> list_all int64 [input_tokens u, output_tokens u, cache_read_tokens u, cache_write_tokens u, reasoning_tokens u]"

definition valid_result :: "llm_result \<Rightarrow> bool" where
  "valid_result r \<longleftrightarrow>
     (case res_message r of None \<Rightarrow> True | Some m \<Rightarrow> valid_message m) \<and>
     (case res_usage r of None \<Rightarrow> True | Some u \<Rightarrow> valid_usage u) \<and>
     list_all valid_utf8 [res_model r, res_finish r, res_raw_finish r]"

lemma dec_int_number: "int64 i \<Longrightarrow> dec_int upd (JNum (go_itoa i)) x = Some (upd i x)"
  by (simp add: dec_int_def go_atoi_itoa int64_def)

lemma dec_enc_usage: "valid_usage u \<Longrightarrow> dec_struct usage_fields (enc_usage u) empty_usage = Some u"
  by (simp add: enc_usage_def usage_fields_def valid_usage_def dec_struct_def dec_members_omitempty dec_int_number empty_usage_def
      same_key_def ascii_lower_def byte_def)

lemma dec_enc_result: "valid_result r \<Longrightarrow> dec_result (enc_result r) = Some r"
proof -
  assume v: "valid_result r"
  have m: "dec_ptr message_fields empty_message get put (enc_message m) x = Some (put (Some m) x)"
    if "valid_message m" "get x = None" for m get put and x :: llm_result
    using dec_enc_message [OF that(1)] that(2) by (simp add: dec_ptr_def dec_message_def enc_message_def)
  have u: "dec_ptr usage_fields empty_usage get put (enc_usage u) x = Some (put (Some u) x)"
    if "valid_usage u" "get x = None" for u get put and x :: llm_result
    using dec_enc_usage [OF that(1)] that(2) by (simp add: dec_ptr_def enc_usage_def)
  have n: "dec_ptr message_fields empty_message get put JNull x = Some (put None x)" for get put and x :: llm_result
    by (simp add: dec_ptr_def)
  show ?thesis using v
    by (cases "res_message r"; cases "res_usage r")
      (simp_all add: dec_result_def enc_result_def result_fields_def valid_result_def dec_simps m u n empty_result_def)
qed

lemma key_names [simp]:
  "to_valid ''type'' = ''type''" "to_valid ''text'' = ''text''" "to_valid ''imageUrl'' = ''imageUrl''"
  "to_valid ''imageBase64'' = ''imageBase64''" "to_valid ''mimeType'' = ''mimeType''" "to_valid ''signature'' = ''signature''"
  "to_valid ''name'' = ''name''" "to_valid ''arguments'' = ''arguments''" "to_valid ''id'' = ''id''"
  "to_valid ''function'' = ''function''" "to_valid ''role'' = ''role''" "to_valid ''parts'' = ''parts''"
  "to_valid ''toolCalls'' = ''toolCalls''" "to_valid ''toolCallId'' = ''toolCallId''" "to_valid ''toolError'' = ''toolError''"
  "to_valid ''message'' = ''message''" "to_valid ''usage'' = ''usage''" "to_valid ''model'' = ''model''"
  "to_valid ''finishReason'' = ''finishReason''" "to_valid ''rawFinishReason'' = ''rawFinishReason''"
  "to_valid ''inputTokens'' = ''inputTokens''" "to_valid ''outputTokens'' = ''outputTokens''"
  "to_valid ''cacheReadTokens'' = ''cacheReadTokens''" "to_valid ''cacheWriteTokens'' = ''cacheWriteTokens''"
  "to_valid ''reasoningTokens'' = ''reasoningTokens''"
  by (simp_all add: to_valid_id ascii_valid byte_def)

lemma norm_omitempty: "map (\<lambda>(k, v). (to_valid k, json_norm v)) (omitempty e k v) = omitempty e (to_valid k) (json_norm v)"
  by (simp add: omitempty_def)

lemma norm_enc_part: "valid_part p \<Longrightarrow> json_norm (enc_part p) = enc_part p"
  by (simp add: enc_part_def enc_string_def norm_omitempty valid_part_def)

lemma norm_enc_tool_call: "valid_tool_call c \<Longrightarrow> json_norm (enc_tool_call c) = enc_tool_call c"
  by (simp add: enc_tool_call_def enc_function_call_def enc_string_def valid_tool_call_def)

lemma norm_enc_message:
  assumes "valid_message m"
  shows "json_norm (enc_message m) = enc_message m"
proof -
  have "map (json_norm \<circ> enc_part) (parts m) = map enc_part (parts m)"
    "map (json_norm \<circ> enc_tool_call) (tool_calls m) = map enc_tool_call (tool_calls m)"
    using assms by (simp_all add: valid_message_def list_all_iff norm_enc_part norm_enc_tool_call)
  then show ?thesis using assms
    by (simp add: enc_message_def enc_string_def norm_omitempty valid_message_def del: map_eq_conv)
qed

lemma norm_enc_usage: "json_norm (enc_usage u) = enc_usage u"
  by (simp add: enc_usage_def norm_omitempty)

lemma norm_enc_result: "valid_result r \<Longrightarrow> json_norm (enc_result r) = enc_result r"
  by (cases "res_message r"; cases "res_usage r")
    (simp_all add: enc_result_def enc_string_def norm_omitempty valid_result_def norm_enc_message norm_enc_usage)

lemma numbers_omitempty: "list_all (\<lambda>(k, v). numbers_ok v) (omitempty e k v) \<longleftrightarrow> e \<or> numbers_ok v"
  by (simp add: omitempty_def)

lemma numbers_enc_part: "numbers_ok (enc_part p)"
  by (simp add: enc_part_def enc_string_def numbers_omitempty)

lemma numbers_enc_tool_call: "numbers_ok (enc_tool_call c)"
  by (simp add: enc_tool_call_def enc_function_call_def enc_string_def)

lemma numbers_enc_message: "numbers_ok (enc_message m)"
proof -
  have "list_all (numbers_ok \<circ> enc_part) ps" "list_all (numbers_ok \<circ> enc_tool_call) cs" for ps cs
    by (simp_all add: list_all_iff numbers_enc_part numbers_enc_tool_call)
  then show ?thesis by (simp add: enc_message_def enc_string_def numbers_omitempty list.pred_map)
qed

lemma numbers_enc_result: "numbers_ok (enc_result r)"
  by (cases "res_message r"; cases "res_usage r")
    (simp_all add: enc_result_def enc_usage_def enc_string_def numbers_omitempty numbers_enc_message is_number_go_itoa)

lemma text_result_text: "valid_result r \<Longrightarrow> text_result (result_text r) = Some r"
  by (simp add: text_result_def result_text_def json_parse_print numbers_enc_result norm_enc_result dec_enc_result)

subsection \<open>A served answer was given before\<close>

text \<open>
  What the store is relied on for. \<open>stored\<close> is the set of payloads it holds: a query gives some of
  them, an upsert adds those of its points, and nothing else the cache calls adds any.
\<close>

definition keeps_points :: "('w, 'v) cache_env \<Rightarrow> 'w llm \<Rightarrow> ('w \<Rightarrow> payload set) \<Rightarrow> bool" where
  "keeps_points env inner stored \<longleftrightarrow>
     (\<forall>ctx v n f w r w'. ce_query env ctx v n f w = (r, w') \<longrightarrow>
        stored w' \<subseteq> stored w \<and> (case r of Inl e \<Rightarrow> True | Inr ps \<Rightarrow> sp_payload ` set ps \<subseteq> stored w)) \<and>
     (\<forall>ctx ps w. stored (snd (ce_upsert env ctx ps w)) \<subseteq> stored w \<union> pt_payload ` set ps) \<and>
     (\<forall>ctx w. stored (snd (ce_ensure env ctx w)) \<subseteq> stored w) \<and>
     (\<forall>ctx ks w. stored (snd (ce_embed env ctx ks w)) \<subseteq> stored w) \<and>
     (\<forall>w. stored (snd (ce_uuid env w)) \<subseteq> stored w) \<and>
     (\<forall>ctx ms os w. stored (snd (llm_execute inner ctx ms os w)) \<subseteq> stored w) \<and>
     (\<forall>ctx ms os w. stored (snd (StreamOrBuffer inner ctx ms os w)) \<subseteq> stored w)"

lemma keeps_query:
  assumes "keeps_points env inner stored" and "ce_query env ctx v n f w = (r, w')"
  shows "stored w' \<subseteq> stored w \<and> (case r of Inl e \<Rightarrow> True | Inr ps \<Rightarrow> sp_payload ` set ps \<subseteq> stored w)"
  using assms(1) [unfolded keeps_points_def, THEN conjunct1, rule_format, OF assms(2)] .

lemma keeps_upsert:
  assumes "keeps_points env inner stored"
  shows "stored (snd (ce_upsert env ctx ps w)) \<subseteq> stored w \<union> pt_payload ` set ps"
  using assms [unfolded keeps_points_def, THEN conjunct2, THEN conjunct1] by simp

lemma keeps_other:
  assumes "keeps_points env inner stored"
  shows "stored (snd (ce_ensure env ctx w)) \<subseteq> stored w" "stored (snd (ce_embed env ctx ks w)) \<subseteq> stored w"
    "stored (snd (ce_uuid env w)) \<subseteq> stored w" "stored (snd (llm_execute inner ctx ms os w)) \<subseteq> stored w"
    "stored (snd (StreamOrBuffer inner ctx ms os w)) \<subseteq> stored w"
  using assms by (simp_all add: keeps_points_def)

text \<open>
  A call of the cache, and what the model gave for it: a result, or the result in the terminal chunk of its
  stream. \<open>cache_run\<close> collects the calls a cache has served, in any world and from an empty store.
\<close>

type_synonym 'w cache_call = "'w goctx \<times> message list \<times> 'w call_option option list"

definition gave :: "'w llm \<Rightarrow> 'w cache_call \<Rightarrow> llm_result \<Rightarrow> bool" where
  "gave inner call r \<longleftrightarrow>
     (case call of (ctx, ms, os) \<Rightarrow>
        \<exists>w. fst (llm_execute inner ctx ms os w) = Inr (Some r) \<or>
            (\<exists>c. Inr c \<in> set (fst (StreamOrBuffer inner ctx ms os w)) \<and> ch_done c \<and> r = resultFromChunk c))"

definition call_contract :: "('w, 'v) cache_env \<Rightarrow> 'w cache_call \<Rightarrow> string" where
  "call_contract env call = callContract env (NewCallConfig (snd (snd call)))"

definition answered :: "('w, 'v) cache_env \<Rightarrow> 'w llm \<Rightarrow> 'w cache_call list \<Rightarrow> payload \<Rightarrow> bool" where
  "answered env inner calls p \<longleftrightarrow>
     (\<exists>call \<in> set calls. \<exists>r. gave inner call r \<and>
        p = [cachePayloadKey \<mapsto> GStr (result_text r), cacheContractKey \<mapsto> GStr (call_contract env call)])"

inductive cache_run ::
  "('w, 'v) cache_env \<Rightarrow> cache_config \<Rightarrow> 'w llm \<Rightarrow> ('w \<Rightarrow> payload set) \<Rightarrow> 'w cache_call list \<Rightarrow> bool \<Rightarrow> 'w \<Rightarrow> bool"
  for env :: "('w, 'v) cache_env" and cfg :: cache_config and inner :: "'w llm" and stored :: "'w \<Rightarrow> payload set" where
  empty: "stored w = {} \<Longrightarrow> cache_run env cfg inner stored [] False w"
| executed: "cache_run env cfg inner stored calls d w \<Longrightarrow> cache_execute env cfg inner ctx ms os d w = (r, d', w') \<Longrightarrow>
    cache_run env cfg inner stored (calls @ [(ctx, ms, os)]) d' w'"
| streamed: "cache_run env cfg inner stored calls d w \<Longrightarrow> cache_stream env cfg inner ctx ms os d w = (items, d', w') \<Longrightarrow>
    cache_run env cfg inner stored (calls @ [(ctx, ms, os)]) d' w'"

definition all_answered :: "('w, 'v) cache_env \<Rightarrow> 'w llm \<Rightarrow> ('w \<Rightarrow> payload set) \<Rightarrow> 'w cache_call list \<Rightarrow> 'w \<Rightarrow> bool" where
  "all_answered env inner stored calls w \<longleftrightarrow> (\<forall>p \<in> stored w. answered env inner calls p)"

lemma all_answered_more: "all_answered env inner stored calls w \<Longrightarrow> all_answered env inner stored (calls @ [c]) w"
  by (auto simp: all_answered_def answered_def)

lemma all_answered_sub: "all_answered env inner stored calls w \<Longrightarrow> stored w' \<subseteq> stored w \<Longrightarrow> all_answered env inner stored calls w'"
  by (auto simp: all_answered_def)

lemma lookup_stored:
  assumes "keeps_points env inner stored" and "cache_lookup env cfg ctx v c w = (r, w')"
  shows "stored w' \<subseteq> stored w"
  using keeps_query [OF assms(1)] assms(2) by (auto simp: cache_lookup_def split: prod.splits sum.splits list.splits)

lemma persist_answered:
  assumes k: "keeps_points env inner stored" and a: "all_answered env inner stored calls w"
    and m: "call \<in> set calls" and c: "c = call_contract env call" and g: "\<And>r. res = Some r \<Longrightarrow> gave inner call r"
  shows "all_answered env inner stored calls (cache_persist env ctx v c res w)"
proof (cases res)
  case None
  then show ?thesis using a by (simp add: cache_persist_def)
next
  case (Some r)
  obtain i w1 where i: "ce_uuid env w = (i, w1)" by (cases "ce_uuid env w")
  have "stored w1 \<subseteq> stored w" using keeps_other(3) [OF k, of w] i by simp
  moreover have "answered env inner calls (pt_payload (cache_point i v c r))"
    using m g [OF Some] by (auto simp: answered_def cache_point_def c)
  ultimately show ?thesis using a keeps_upsert [OF k, of ctx "[cache_point i v c r]" w1]
    by (auto simp: all_answered_def cache_persist_def Some i)
qed

lemma check_stored:
  assumes k: "keeps_points env inner stored" and c: "cache_check env cfg ctx ms os d w = ((entry, cached), d', w')"
  shows "stored w' \<subseteq> stored w \<and> (case entry of None \<Rightarrow> True | Some (v, k) \<Rightarrow> k = call_contract env (ctx, ms, os))"
proof -
  note o = keeps_other [OF k]
  have ens: "stored w1 \<subseteq> stored w" if "ensureCollection env ctx d w = (e, d1, w1)" for e d1 w1
    using that o(1) [of ctx w] by (auto simp: ensureCollection_def Let_def split: if_splits prod.splits)
  have emb: "stored w2 \<subseteq> stored w1" if "ce_embed env ctx ks w1 = (e, w2)" for ks e w1 w2 using o(2) [of ctx ks w1] that by simp
  show ?thesis using c unfolding cache_check_def Let_def
    by (auto simp: call_contract_def split: if_splits prod.splits option.splits sum.splits list.splits
        dest!: ens emb lookup_stored [OF k])
qed

lemma chunks_answered:
  assumes k: "keeps_points env inner stored" and m: "call \<in> set calls"
    and g: "\<And>c. Inr c \<in> set items \<Longrightarrow> ch_done c \<Longrightarrow> gave inner call (resultFromChunk c)"
    and e: "case entry of None \<Rightarrow> True | Some (v, c) \<Rightarrow> c = call_contract env call"
    and a: "all_answered env inner stored calls w"
  shows "all_answered env inner stored calls (snd (cache_chunks env ctx entry items w))"
  using g a
proof (induction items arbitrary: w)
  case (Cons item items)
  show ?case
  proof (cases item)
    case (Inl x)
    then show ?thesis using Cons.prems(2) by simp
  next
    case (Inr c)
    define w1 where "w1 = (case entry of
        Some (v, k) \<Rightarrow> if ch_done c then cache_persist env ctx v k (Some (resultFromChunk c)) w else w | None \<Rightarrow> w)"
    have "all_answered env inner stored calls w1"
    proof (cases "entry = None \<or> \<not> ch_done c")
      case True
      then show ?thesis using Cons.prems(2) by (auto simp: w1_def split: option.splits)
    next
      case False
      then obtain v kk where "entry = Some (v, kk)" "kk = call_contract env call" "ch_done c" using e by auto
      then show ?thesis using persist_answered [OF k Cons.prems(2) m, of kk "Some (resultFromChunk c)" ctx v] Cons.prems(1) [of c] Inr
        by (simp add: w1_def)
    qed
    from Cons.IH [OF _ this] Cons.prems(1) show ?thesis
      by (simp add: Inr Let_def split_beta w1_def [symmetric])
  qed
qed simp

text \<open>Whatever the cache has served, every point in its store holds an answer of the model to one of the calls.\<close>

lemma cache_run_answered:
  assumes "cache_run env cfg inner stored calls d w" and k: "keeps_points env inner stored"
  shows "all_answered env inner stored calls w"
  using assms(1)
proof (induction rule: cache_run.induct)
  case (empty w)
  then show ?case by (simp add: all_answered_def)
next
  case (executed calls d w ctx ms os r d' w')
  let ?calls = "calls @ [(ctx, ms, os)]"
  obtain entry cached d1 w1 where c: "cache_check env cfg ctx ms os d w = ((entry, cached), d1, w1)"
    by (metis prod.collapse)
  have s: "stored w1 \<subseteq> stored w" and e: "case entry of None \<Rightarrow> True | Some (v, k) \<Rightarrow> k = call_contract env (ctx, ms, os)"
    using check_stored [OF k c] by simp_all
  obtain x w2 where x: "llm_execute inner ctx ms os w1 = (x, w2)" by (cases "llm_execute inner ctx ms os w1")
  have a1: "all_answered env inner stored ?calls w1" using all_answered_sub [OF all_answered_more [OF executed.IH] s] .
  have a2: "all_answered env inner stored ?calls w2" using all_answered_sub [OF a1] keeps_other(4) [OF k, of ctx ms os w1] x by simp
  have g: "gave inner (ctx, ms, os) r'" if "x = Inr (Some r')" for r' using x that by (auto simp: gave_def intro: exI [of _ w1])
  have p: "all_answered env inner stored ?calls (cache_persist env ctx v (call_contract env (ctx, ms, os)) y w2)"
    if "x = Inr y" for v y by (rule persist_answered [OF k a2 _ refl]) (use g that in auto)
  show ?case using executed.hyps(2) c x a1 a2 p e
    by (auto simp: cache_execute_def split: option.splits sum.splits)
next
  case (streamed calls d w ctx ms os items d' w')
  let ?calls = "calls @ [(ctx, ms, os)]"
  obtain entry cached d1 w1 where c: "cache_check env cfg ctx ms os d w = ((entry, cached), d1, w1)"
    by (metis prod.collapse)
  have s: "stored w1 \<subseteq> stored w" and e: "case entry of None \<Rightarrow> True | Some (v, k) \<Rightarrow> k = call_contract env (ctx, ms, os)"
    using check_stored [OF k c] by simp_all
  obtain xs w2 where x: "StreamOrBuffer inner ctx ms os w1 = (xs, w2)" by (cases "StreamOrBuffer inner ctx ms os w1")
  have a1: "all_answered env inner stored ?calls w1" using all_answered_sub [OF all_answered_more [OF streamed.IH] s] .
  have a2: "all_answered env inner stored ?calls w2" using all_answered_sub [OF a1] keeps_other(5) [OF k, of ctx ms os w1] x by simp
  have "all_answered env inner stored ?calls (snd (cache_chunks env ctx entry xs w2))"
  proof (rule chunks_answered [OF k _ _ e a2])
    fix c assume "Inr c \<in> set xs" "ch_done c"
    then show "gave inner (ctx, ms, os) (resultFromChunk c)"
      using x unfolding gave_def prod.case by (intro exI [of _ w1] disjI2 exI [of _ c]) simp
  qed simp
  then show ?case using streamed.hyps(2) c x a1 by (auto simp: cache_stream_def Let_def split: option.splits prod.splits)
qed

text \<open>What is left of a stored result when it is served.\<close>

definition served :: "cache_config \<Rightarrow> llm_result \<Rightarrow> llm_result" where
  "served cfg r = (if sc_report_usage cfg then r else r\<lparr>res_usage := Some empty_usage\<rparr>)"

lemma lookup_served:
  assumes "keeps_points env inner stored" and "cache_lookup env cfg ctx v c w = (Some r, w')"
  shows "\<exists>p raw r'. p \<in> stored w \<and> p cachePayloadKey = Some (GStr raw) \<and> text_result raw = Some r' \<and> r = served cfg r' \<and>
    (case p cacheContractKey of Some (GStr k) \<Rightarrow> k | _ \<Rightarrow> []) = c"
proof -
  obtain res w1 where q: "ce_query env ctx v 1 (ApplyQueryOptions [Some (WithFilter (NewFilter [Eq cacheContractKey (GStr c)]))]) w = (res, w1)"
    by (metis prod.collapse)
  with assms(2) obtain best rest where b: "res = Inr (best # rest)" by (auto simp: cache_lookup_def split: sum.splits list.splits)
  have "sp_payload best \<in> stored w" using keeps_query [OF assms(1) q] b by simp
  then show ?thesis using assms(2) q b
    by (intro exI [of _ "sp_payload best"]) (auto simp: cache_lookup_def served_def split: if_splits option.splits gval.splits)
qed

lemma check_served:
  assumes k: "keeps_points env inner stored" and a: "all_answered env inner stored calls w"
    and c: "cache_check env cfg ctx ms os d w = ((entry, Some r), d', w')"
  shows "\<exists>call \<in> set calls. \<exists>r0 r'. gave inner call r0 \<and> call_contract env call = call_contract env (ctx, ms, os) \<and>
    text_result (result_text r0) = Some r' \<and> r = served cfg r'"
proof -
  note o = keeps_other [OF k]
  obtain d1 w1 where e: "ensureCollection env ctx d w = (None, d1, w1)"
    using c by (auto simp: cache_check_def Let_def split: if_splits prod.splits option.splits)
  have s1: "stored w1 \<subseteq> stored w" using e o(1) [of ctx w] by (auto simp: ensureCollection_def Let_def split: if_splits prod.splits)
  obtain v vs w2 where m: "ce_embed env ctx [cacheKey ms (cc_tools (NewCallConfig os))] w1 = (Inr (v # vs), w2)"
    using c e by (auto simp: cache_check_def Let_def split: if_splits prod.splits sum.splits list.splits)
  have s2: "stored w2 \<subseteq> stored w1" using o(2) [of ctx _ w1] m by (metis snd_conv)
  have "cache_lookup env cfg ctx v (callContract env (NewCallConfig os)) w2 = (Some r, w')"
    using c e m by (auto simp: cache_check_def Let_def split: if_splits prod.splits option.splits)
  from lookup_served [OF k this] obtain p raw r' where p: "p \<in> stored w2" "p cachePayloadKey = Some (GStr raw)"
      "text_result raw = Some r'" "r = served cfg r'"
      "(case p cacheContractKey of Some (GStr k) \<Rightarrow> k | _ \<Rightarrow> []) = callContract env (NewCallConfig os)" by blast
  from a p(1) s1 s2 have "answered env inner calls p" by (auto simp: all_answered_def)
  then obtain call r0 where c0: "call \<in> set calls" "gave inner call r0"
      "p = [cachePayloadKey \<mapsto> GStr (result_text r0), cacheContractKey \<mapsto> GStr (call_contract env call)]"
    by (auto simp: answered_def)
  have "cachePayloadKey \<noteq> cacheContractKey" by (simp add: cachePayloadKey_def cacheContractKey_def)
  then have "raw = result_text r0" "call_contract env call = call_contract env (ctx, ms, os)"
    using p c0(3) by (simp_all add: call_contract_def)
  then show ?thesis using c0 p by blast
qed


text \<open>A store that is the list of its payloads, and a model that answers once.\<close>

definition demo_answer :: llm_result where
  "demo_answer = empty_result\<lparr>res_message := Some (AssistantMessage [Text ''hello''] [])\<rparr>"

definition demo_cache :: "(payload list, unit) cache_env" where
  "demo_cache =
     \<lparr>ce_ensure = (\<lambda>ctx w. (None, w)), ce_embed = (\<lambda>ctx ks w. (Inr [()], w)),
      ce_query = (\<lambda>ctx v n f w. (Inr (map (\<lambda>p. \<lparr>sp_id = [], sp_score = Fin 1, sp_payload = p\<rparr>) w), w)),
      ce_upsert = (\<lambda>ctx ps w. (None, map pt_payload ps @ w)), ce_uuid = (\<lambda>w. ([], w)), ce_sha256 = (\<lambda>s. s)\<rparr>"

definition demo_model :: "payload list llm" where
  "demo_model = llm_func (\<lambda>ctx ms os w. (if w = [] then Inr (Some demo_answer) else Inr None, w))"

definition demo_cache_ctx :: "payload list goctx" where
  "demo_cache_ctx = \<lparr>ctx_err = (\<lambda>w. None), ctx_cause = (\<lambda>w. None), ctx_run = None, ctx_call = None\<rparr>"

definition demo_cache_cfg :: cache_config where
  "demo_cache_cfg = \<lparr>sc_threshold = defaultSimilarityThreshold, sc_report_usage = True, sc_skip_with_tools = True\<rparr>"

abbreviation demo_ask :: "bool \<Rightarrow> payload list \<Rightarrow> (err + llm_result option) \<times> bool \<times> payload list" where
  "demo_ask \<equiv> cache_execute demo_cache demo_cache_cfg demo_model demo_cache_ctx [UserMessage [Text ''hi'']] []"

lemma demo_keeps: "keeps_points demo_cache demo_model set"
  by (auto simp: keeps_points_def demo_cache_def demo_model_def llm_func_def StreamOrBuffer_def image_iff)

definition demo_held :: "payload list" where
  "demo_held = [[cachePayloadKey \<mapsto> GStr (result_text demo_answer), cacheContractKey \<mapsto> GStr []]]"

lemma demo_first: "demo_ask False [] = (Inr (Some demo_answer), True, demo_held)"
  by (simp add: cache_execute_def cache_check_def ensureCollection_def cache_lookup_def cache_persist_def cache_point_def
      demo_cache_def demo_cache_cfg_def demo_model_def llm_func_def callContract_def NewCallConfig_def empty_config_def demo_held_def)


subsection \<open>What counts as the same\<close>

text \<open>A similarity that is not a number, as of a zero vector, is below no threshold: it is served.\<close>

lemma nan_similarity_served:
  assumes "ce_query env ctx v 1 (ApplyQueryOptions [Some (WithFilter (NewFilter [Eq cacheContractKey (GStr c)]))]) w = (Inr (best # rest), w1)"
    and "sp_score best = NaN" and "sp_payload best = pt_payload (cache_point i v0 c r)" and "valid_result r"
  shows "cache_lookup env cfg ctx v c w = (Some (served cfg r), w1)"
  using assms text_result_text [OF assms(4)]
  by (simp add: cache_lookup_def f_less_def cache_point_def served_def cachePayloadKey_def cacheContractKey_def)

text \<open>Images are not part of the key.\<close>

lemma key_ignores_images: "cacheKey [UserMessage [Text a, ImageURL u]] tools = cacheKey [UserMessage [Text a, ImageURL v]] tools"
  by (simp add: cacheKey_def msg_text_def TextContent_def UserMessage_def Text_def ImageURL_def empty_part_def
      ContentTypeText_def ContentTypeImageURL_def)

text \<open>A collection that could not be ensured is not tried again.\<close>

lemma ensure_not_retried:
  "ce_ensure env ctx w = (Some e, w1) \<Longrightarrow> ensureCollection env ctx False w = (Some e, True, w1) \<and>
   ensureCollection env ctx' True w1 = (None, True, w1)"
  by (simp add: ensureCollection_def)

end
