(* ===== verification/Trace_Context.thy ===== *)
theory Trace_Context
  imports Json_Text
begin

section \<open>Package trace: identifiers and propagation\<close>

text \<open>
  \<open>trace/id.go\<close> and \<open>propagation.go\<close>: the identity of a span, and the W3C \<open>traceparent\<close> header that carries
  it between processes. An identifier is the string of its bytes, 16 for a trace and 8 for a span; the random
  draw of a new one is an argument. \<open>decodeHex\<close> refuses upper case, which for text that is not
  hexadecimal anyway makes no difference, so lowering is that of ASCII.
\<close>

record span_context =
  sc_trace :: string
  sc_span :: string
  sc_sampled :: bool
  sc_remote :: bool
  sc_state :: string

definition zero_id :: "nat \<Rightarrow> string" where "zero_id n = replicate n (CHR 0x00)"

definition no_context :: span_context where
  "no_context = \<lparr>sc_trace = zero_id 16, sc_span = zero_id 8, sc_sampled = False, sc_remote = False, sc_state = []\<rparr>"

definition id_valid :: "string \<Rightarrow> bool" where "id_valid i \<longleftrightarrow> i \<noteq> zero_id (length i)"

definition sc_valid :: "span_context \<Rightarrow> bool" where
  "sc_valid sc \<longleftrightarrow> id_valid (sc_trace sc) \<and> id_valid (sc_span sc)"

text \<open>The types of the fields.\<close>

definition sc_wf :: "span_context \<Rightarrow> bool" where
  "sc_wf sc \<longleftrightarrow> length (sc_trace sc) = 16 \<and> length (sc_span sc) = 8"

text \<open>\<open>draw\<close> holds the first identifiers drawn that are not zero.\<close>

definition newSpanContext :: "string \<times> string \<Rightarrow> span_context \<Rightarrow> span_context" where
  "newSpanContext draw parent =
     (if sc_valid parent
      then \<lparr>sc_trace = sc_trace parent, sc_span = snd draw, sc_sampled = sc_sampled parent, sc_remote = False, sc_state = sc_state parent\<rparr>
      else \<lparr>sc_trace = fst draw, sc_span = snd draw, sc_sampled = True, sc_remote = False, sc_state = []\<rparr>)"

definition hex_encode :: "string \<Rightarrow> string" where
  "hex_encode s = concat (map (\<lambda>c. [hex_digit (byte c div 16), hex_digit (byte c mod 16)]) s)"

fun hex_decode :: "string \<Rightarrow> string option" where
  "hex_decode [] = Some []"
| "hex_decode [c] = None"
| "hex_decode (a # b # cs) =
     (case (hex_val a, hex_val b, hex_decode cs) of
        (Some x, Some y, Some s) \<Rightarrow> Some (char_of (16 * x + y) # s)
      | _ \<Rightarrow> None)"

definition decodeHex :: "nat \<Rightarrow> string \<Rightarrow> string option" where
  "decodeHex n s = (if length s \<noteq> 2 * n \<or> map ascii_lower s \<noteq> s then None else hex_decode s)"

definition traceparentVersion :: string where "traceparentVersion = ''00''"
definition traceparentLen :: nat where "traceparentLen = 55"
definition flagSampled :: string where "flagSampled = ''01''"
definition flagNotSampled :: string where "flagNotSampled = ''00''"

definition Traceparent :: "span_context \<Rightarrow> string" where
  "Traceparent sc =
     (if \<not> sc_valid sc then []
      else traceparentVersion @ ''-'' @ hex_encode (sc_trace sc) @ ''-'' @ hex_encode (sc_span sc) @ ''-'' @
        (if sc_sampled sc then flagSampled else flagNotSampled))"

text \<open>\<open>None\<close> is \<open>ErrInvalidTraceparent\<close>.\<close>

definition ParseTraceparent :: "string \<Rightarrow> span_context option" where
  "ParseTraceparent s0 =
     (let s = trim_space s0; ps = go_split s ''-'' in
      if length s < traceparentLen then None
      else if length ps < 4 \<or> length (hd ps) \<noteq> 2 \<or> hd ps = ''ff'' then None
      else if hd ps = traceparentVersion \<and> length ps \<noteq> 4 then None
      else (case (decodeHex 16 (ps ! 1), decodeHex 8 (ps ! 2), decodeHex 1 (ps ! 3)) of
          (Some t, Some i, Some flags) \<Rightarrow>
            (let sc = \<lparr>sc_trace = t, sc_span = i, sc_sampled = odd (byte (hd flags)), sc_remote = True, sc_state = []\<rparr>
             in if \<not> sc_valid sc then None else Some sc)
        | _ \<Rightarrow> None))"

subsection \<open>Hexadecimal text\<close>

lemma hex_encode_Cons: "hex_encode (c # s) = hex_digit (byte c div 16) # hex_digit (byte c mod 16) # hex_encode s"
  by (simp add: hex_encode_def)

lemma length_hex_encode [simp]: "length (hex_encode s) = 2 * length s"
  by (induction s) (simp_all add: hex_encode_def)

lemma nibbles: "byte c div 16 < 16" "byte c mod 16 < 16"
  using byte_less [of c] by (auto intro: less_mult_imp_div_less)

lemma hex_decode_encode: "hex_decode (hex_encode s) = Some s"
proof (induction s)
  case (Cons c s)
  note nibbles [of c]
  moreover have "16 * (byte c div 16) + byte c mod 16 = byte c" by simp
  ultimately show ?case using Cons by (simp add: hex_encode_def hex_val_digit)
qed (simp add: hex_encode_def)

lemma byte_hex_digit: "n < 16 \<Longrightarrow> byte (hex_digit n) = (if n < 10 then 48 + n else 87 + n)"
  by (simp add: hex_digit_def)

lemma hex_digit_char: "n < 16 \<Longrightarrow> c = hex_digit n \<Longrightarrow> ascii_lower c = c \<and> byte c < 128 \<and> \<not> is_space [c] \<and> c \<noteq> CHR ''-''"
proof -
  assume "n < 16" "c = hex_digit n"
  then have b: "byte c = (if n < 10 then 48 + n else 87 + n)" using byte_hex_digit by simp
  have "byte (CHR ''-'') = 45" by (simp add: byte_def)
  then have "c \<noteq> CHR ''-''" using b by (auto split: if_splits)
  then show ?thesis using b \<open>n < 16\<close> by (auto simp: ascii_lower_def is_space_def)
qed

lemma hex_encode_chars: "c \<in> set (hex_encode s) \<Longrightarrow> ascii_lower c = c \<and> byte c < 128 \<and> \<not> is_space [c] \<and> c \<noteq> CHR ''-''"
proof (induction s)
  case (Cons d s)
  note nibbles [of d]
  then show ?case using Cons hex_digit_char by (auto simp: hex_encode_def)
qed (simp add: hex_encode_def)

lemma decodeHex_encode: "length s = n \<Longrightarrow> decodeHex n (hex_encode s) = Some s"
proof -
  assume "length s = n"
  moreover have "map ascii_lower (hex_encode s) = hex_encode s" by (rule map_idI) (use hex_encode_chars in blast)
  ultimately show ?thesis by (simp add: decodeHex_def hex_decode_encode)
qed

subsection \<open>Round trips\<close>

lemma index_char_None: "c \<notin> set s \<Longrightarrow> go_index s [c] = None"
  by (induction s) (auto simp: has_prefix_def)

lemma index_char_Some: "c \<notin> set s \<Longrightarrow> go_index (s @ c # r) [c] = Some (length s)"
  by (induction s) (auto simp: has_prefix_def)

lemma split_dash: "CHR ''-'' \<notin> set a \<Longrightarrow> go_split (a @ CHR ''-'' # r) ''-'' = a # go_split r ''-''"
  "CHR ''-'' \<notin> set a \<Longrightarrow> go_split a ''-'' = [a]"
  by (simp_all add: go_split_def split_sep.simps [of "a @ CHR ''-'' # r"] split_sep.simps [of a] index_char_Some index_char_None)

definition flag_text :: "span_context \<Rightarrow> string" where
  "flag_text sc = (if sc_sampled sc then flagSampled else flagNotSampled)"

lemma flag_text_chars: "c \<in> set (flag_text sc) \<Longrightarrow> byte c < 128 \<and> \<not> is_space [c] \<and> c \<noteq> CHR ''-''" "length (flag_text sc) = 2"
  "decodeHex 1 (flag_text sc) = Some [char_of (if sc_sampled sc then 1 else 0 :: nat)]"
  by (auto simp: flag_text_def flagSampled_def flagNotSampled_def byte_def is_space_def decodeHex_def ascii_lower_def hex_val_def split: if_splits)

lemma Traceparent_split:
  "go_split (''00-'' @ hex_encode t @ ''-'' @ hex_encode i @ ''-'' @ flag_text sc) ''-'' = [''00'', hex_encode t, hex_encode i, flag_text sc]"
proof -
  have h: "CHR ''-'' \<notin> set (hex_encode s)" for s using hex_encode_chars by blast
  have f: "CHR ''-'' \<notin> set (flag_text sc)" using flag_text_chars(1) by blast
  have "go_split (''00'' @ CHR ''-'' # (hex_encode t @ CHR ''-'' # (hex_encode i @ CHR ''-'' # flag_text sc))) ''-'' =
      [''00'', hex_encode t, hex_encode i, flag_text sc]"
    by (subst split_dash(1), simp, subst split_dash(1) [OF h], subst split_dash(1) [OF h], subst split_dash(2) [OF f], rule refl)
  then show ?thesis by simp
qed

text \<open>
  A valid identity that is sent in a header is the one the receiver reads, with its sampled flag, marked remote; its
  trace state travels in a header of its own.
\<close>

theorem traceparent_roundtrip:
  assumes "sc_wf sc" and "sc_valid sc"
  shows "ParseTraceparent (Traceparent sc) = Some (sc\<lparr>sc_remote := True, sc_state := []\<rparr>)"
proof -
  let ?s = "''00-'' @ hex_encode (sc_trace sc) @ ''-'' @ hex_encode (sc_span sc) @ ''-'' @ flag_text sc"
  have s: "Traceparent sc = ?s" using assms(2) by (simp add: Traceparent_def traceparentVersion_def flag_text_def)
  have c: "byte (CHR ''0'') < 128 \<and> \<not> is_space ''0''" "byte (CHR ''-'') < 128 \<and> \<not> is_space ''-''"
    by (simp_all add: byte_def is_space_def)
  have "list_all (\<lambda>c. byte c < 128 \<and> \<not> is_space [c]) ?s"
    using hex_encode_chars flag_text_chars(1) c by (auto simp: list_all_iff)
  then have t: "trim_space ?s = ?s" by (rule trim_space_id)
  have l: "length ?s = 55" using assms(1) by (simp add: sc_wf_def flag_text_chars)
  have "sc_valid (sc\<lparr>sc_remote := r, sc_state := x\<rparr>)" for r x using assms(2) by (simp add: sc_valid_def)
  then show ?thesis
    unfolding s ParseTraceparent_def Let_def t Traceparent_split l
    using assms by (cases "sc_sampled sc")
      (simp_all add: traceparentLen_def traceparentVersion_def decodeHex_encode sc_wf_def flag_text_chars(3) [unfolded One_nat_def] numeral_2_eq_2 numeral_3_eq_3 sc_valid_def id_valid_def)
qed

definition demo_sc :: span_context where
  "demo_sc = \<lparr>sc_trace = replicate 16 (CHR 0x4B), sc_span = replicate 8 (CHR 0xF0), sc_sampled = True, sc_remote = False, sc_state = ''v=1''\<rparr>"

theorem traceparent_roundtrip_witness:
  "sc_wf demo_sc \<and> sc_valid demo_sc \<and> ParseTraceparent (Traceparent demo_sc) = Some (demo_sc\<lparr>sc_remote := True, sc_state := []\<rparr>)"
proof -
  have "sc_wf demo_sc" "sc_valid demo_sc" by code_simp+
  with traceparent_roundtrip show ?thesis by blast
qed

lemma hex_val_lower: "hex_val c = Some n \<Longrightarrow> ascii_lower c = c \<Longrightarrow> c = hex_digit n \<and> n < 16"
proof -
  assume h: "hex_val c = Some n" and l: "ascii_lower c = c"
  have "\<not> (65 \<le> byte c \<and> byte c \<le> 90)"
  proof
    assume u: "65 \<le> byte c \<and> byte c \<le> 90"
    then have "byte (char_of (byte c + 32)) = byte c + 32" by simp
    moreover have "char_of (byte c + 32) = c" using l u by (simp add: ascii_lower_def)
    ultimately show False by simp
  qed
  then have "byte c = (if n < 10 then 48 + n else 87 + n) \<and> n < 16" using h by (auto simp: hex_val_def Let_def split: if_splits)
  then have "char_of (byte c) = hex_digit n \<and> n < 16" by (auto simp: hex_digit_def)
  then show ?thesis by simp
qed

lemma hex_decode_inverse: "hex_decode s = Some t \<Longrightarrow> map ascii_lower s = s \<Longrightarrow> s = hex_encode t \<and> length s = 2 * length t"
proof (induction s arbitrary: t rule: hex_decode.induct)
  case (3 a b cs)
  then obtain x y t' where h: "hex_val a = Some x" "hex_val b = Some y" "hex_decode cs = Some t'" "t = char_of (16 * x + y) # t'"
    by (auto split: option.splits)
  have a: "a = hex_digit x" "b = hex_digit y" "x < 16" "y < 16" using hex_val_lower h 3(3) by auto
  then have "byte (char_of (16 * x + y)) = 16 * x + y" by simp
  moreover have "(16 * x + y) div 16 = x" "(16 * x + y) mod 16 = y" using a(4) by simp_all
  ultimately show ?case using 3(1) [OF h(3)] 3(3) h(4) a by (simp add: hex_encode_Cons)
qed (simp_all add: hex_encode_def)

lemma decodeHex_inverse: "decodeHex n s = Some t \<Longrightarrow> s = hex_encode t \<and> length t = n"
  by (auto simp: decodeHex_def dest!: hex_decode_inverse split: if_splits)

text \<open>
  What is read from a header of version 00 is what it says: around white space, the header is the version, the
  identifiers in hexadecimal, and two digits of flags, whose lowest bit is the sampled flag.
\<close>

theorem traceparent_says_what_is_read:
  assumes "ParseTraceparent s = Some sc" and "take 2 (trim_space s) = ''00''"
  shows "sc_wf sc \<and> sc_valid sc \<and> sc_remote sc \<and>
    (\<exists>flags. trim_space s = ''00-'' @ hex_encode (sc_trace sc) @ ''-'' @ hex_encode (sc_span sc) @ ''-'' @ hex_encode [flags] \<and>
       sc_sampled sc = odd (byte flags))"
proof -
  define ps where "ps = go_split (trim_space s) ''-''"
  have j: "go_join ps ''-'' = trim_space s" by (simp add: ps_def join_go_split)
  have ok: "\<not> length (trim_space s) < traceparentLen" "4 \<le> length ps" "length (hd ps) = 2" "hd ps = ''00'' \<Longrightarrow> length ps = 4"
    using assms(1) by (auto simp: ParseTraceparent_def ps_def [symmetric] Let_def traceparentVersion_def split: if_splits)
  obtain p0 ps' where p0: "ps = p0 # ps'" using ok(2) by (cases ps) auto
  have "ps' \<noteq> []" using ok(2) p0 by auto
  then have "take 2 (go_join ps ''-'') = p0" using ok(3) p0 by (cases ps') simp_all
  then have h: "hd ps = ''00''" using assms(2) j p0 by simp
  then obtain b c d where ps: "ps = [''00'', b, c, d]" using ok(4) p0 by (auto simp: length_Suc_conv numeral_eq_Suc)
  obtain t i fl where dec: "decodeHex 16 b = Some t" "decodeHex 8 c = Some i" "decodeHex 1 d = Some fl"
    and sc: "sc = \<lparr>sc_trace = t, sc_span = i, sc_sampled = odd (byte (hd fl)), sc_remote = True, sc_state = []\<rparr>" "sc_valid sc"
    using assms(1) ps unfolding ParseTraceparent_def Let_def ps_def [symmetric]
    by (auto simp: numeral_2_eq_2 numeral_3_eq_3 split: if_splits option.splits)
  have e: "b = hex_encode t" "c = hex_encode i" "d = hex_encode fl" "length t = 16" "length i = 8" "length fl = 1"
    using decodeHex_inverse dec by blast+
  then obtain f where f: "fl = [f]" by (auto simp: length_Suc_conv)
  have "trim_space s = ''00-'' @ b @ ''-'' @ c @ ''-'' @ d" using j ps by simp
  then show ?thesis using sc e f by (auto simp: sc_wf_def)
qed

theorem traceparent_says_what_is_read_witness:
  "ParseTraceparent (Traceparent demo_sc) \<noteq> None \<and> take 2 (trim_space (Traceparent demo_sc)) = ''00'' \<and>
   (\<exists>flags. trim_space (Traceparent demo_sc) =
      ''00-'' @ hex_encode (sc_trace demo_sc) @ ''-'' @ hex_encode (sc_span demo_sc) @ ''-'' @ hex_encode [flags] \<and> odd (byte flags))"
proof -
  have "ParseTraceparent (Traceparent demo_sc) = Some (demo_sc\<lparr>sc_remote := True, sc_state := []\<rparr>)" by code_simp
  then obtain sc where sc: "ParseTraceparent (Traceparent demo_sc) = Some sc" "sc = demo_sc\<lparr>sc_remote := True, sc_state := []\<rparr>" by blast
  have v: "take 2 (trim_space (Traceparent demo_sc)) = ''00''" by code_simp
  have s: "sc_trace sc = sc_trace demo_sc" "sc_span sc = sc_span demo_sc" "sc_sampled sc" using sc(2) by (simp_all add: demo_sc_def)
  from traceparent_says_what_is_read [OF sc(1) v] v sc(1) s(3) show ?thesis unfolding s(1,2) by blast
qed


text \<open>The version is not read as hexadecimal.\<close>

lemma version_unchecked:
  "ParseTraceparent (''zz-'' @ hex_encode (sc_trace demo_sc) @ ''-'' @ hex_encode (sc_span demo_sc) @ ''-01'') \<noteq> None"
  by code_simp

end
