(* ===== verification/Trace_Spans.thy ===== *)
theory Trace_Spans
  imports Trace_Context Agent_Run Vector_Filter "HOL-Library.List_Lexorder" "HOL-Library.Char_ord"
begin

section \<open>Package trace: spans and their totals\<close>

text \<open>
  \<open>trace/span.go\<close>, \<open>totals.go\<close>, \<open>summary.go\<close>, \<open>provider.go\<close> and \<open>attrs.go\<close>. Spans stand in a store and point to
  their parents; ending a span is two steps, as in the code: it is marked under its own lock, then
  added to its parent under the parent's. A time is a number of nanoseconds and a Go map a partial function,
  as the loops over one treat every key once. The cost in dollars, a sum of floats, is left out. What
  the payloads hold is the agent's (\<open>Agent_Core\<close>, \<open>Agent_Run\<close>).
\<close>

subsection \<open>Totals\<close>

record usage_summary =
  us_input :: int
  us_output :: int
  us_cache_read :: int
  us_cache_write :: int
  us_reasoning :: int

record model_totals =
  mt_calls :: int
  mt_usage :: usage_summary

record agent_totals =
  at_runs :: int
  at_llm_calls :: int
  at_tool_calls :: int
  at_tool_errors :: int
  at_usage :: usage_summary

record tool_totals =
  tt_calls :: int
  tt_errors :: int
  tt_duration :: int

record totals =
  to_agent_runs :: int
  to_llm_calls :: int
  to_tool_calls :: int
  to_tool_errors :: int
  to_memory_retrieved :: int
  to_memory_saved :: int
  to_usage :: usage_summary
  to_llm_time :: int
  to_tool_time :: int
  to_memory_time :: int
  to_by_model :: "string \<rightharpoonup> model_totals"
  to_by_agent :: "string \<rightharpoonup> agent_totals"
  to_by_tool :: "string \<rightharpoonup> tool_totals"

definition zero_usage :: usage_summary where
  "zero_usage = \<lparr>us_input = 0, us_output = 0, us_cache_read = 0, us_cache_write = 0, us_reasoning = 0\<rparr>"
definition zero_model :: model_totals where "zero_model = \<lparr>mt_calls = 0, mt_usage = zero_usage\<rparr>"
definition zero_agent :: agent_totals where
  "zero_agent = \<lparr>at_runs = 0, at_llm_calls = 0, at_tool_calls = 0, at_tool_errors = 0, at_usage = zero_usage\<rparr>"
definition zero_tool :: tool_totals where "zero_tool = \<lparr>tt_calls = 0, tt_errors = 0, tt_duration = 0\<rparr>"

definition zero_totals :: totals where
  "zero_totals =
     \<lparr>to_agent_runs = 0, to_llm_calls = 0, to_tool_calls = 0, to_tool_errors = 0, to_memory_retrieved = 0, to_memory_saved = 0,
      to_usage = zero_usage, to_llm_time = 0, to_tool_time = 0, to_memory_time = 0,
      to_by_model = (\<lambda>_. None), to_by_agent = (\<lambda>_. None), to_by_tool = (\<lambda>_. None)\<rparr>"

definition usage_add :: "usage_summary \<Rightarrow> usage_summary \<Rightarrow> usage_summary" where
  "usage_add u v =
     \<lparr>us_input = us_input u + us_input v, us_output = us_output u + us_output v, us_cache_read = us_cache_read u + us_cache_read v,
      us_cache_write = us_cache_write u + us_cache_write v, us_reasoning = us_reasoning u + us_reasoning v\<rparr>"

definition usageOf :: "usage option \<Rightarrow> usage_summary" where
  "usageOf u =
     (case u of
        None \<Rightarrow> zero_usage
      | Some x \<Rightarrow> \<lparr>us_input = input_tokens x, us_output = output_tokens x, us_cache_read = cache_read_tokens x,
          us_cache_write = cache_write_tokens x, us_reasoning = reasoning_tokens x\<rparr>)"

definition model_add :: "model_totals \<Rightarrow> model_totals \<Rightarrow> model_totals" where
  "model_add m v = \<lparr>mt_calls = mt_calls m + mt_calls v, mt_usage = usage_add (mt_usage m) (mt_usage v)\<rparr>"

definition agent_add :: "agent_totals \<Rightarrow> agent_totals \<Rightarrow> agent_totals" where
  "agent_add a v =
     \<lparr>at_runs = at_runs a + at_runs v, at_llm_calls = at_llm_calls a + at_llm_calls v, at_tool_calls = at_tool_calls a + at_tool_calls v,
      at_tool_errors = at_tool_errors a + at_tool_errors v, at_usage = usage_add (at_usage a) (at_usage v)\<rparr>"

definition tool_add :: "tool_totals \<Rightarrow> tool_totals \<Rightarrow> tool_totals" where
  "tool_add t v = \<lparr>tt_calls = tt_calls t + tt_calls v, tt_errors = tt_errors t + tt_errors v, tt_duration = tt_duration t + tt_duration v\<rparr>"

text \<open>\<open>model\<close>, \<open>agent\<close> and \<open>tool\<close>: an entry is created at zero when it is first touched.\<close>

definition touch :: "'a \<Rightarrow> string \<Rightarrow> ('a \<Rightarrow> 'a) \<Rightarrow> (string \<rightharpoonup> 'a) \<Rightarrow> (string \<rightharpoonup> 'a)" where
  "touch zero name f m = m(name \<mapsto> f (case m name of None \<Rightarrow> zero | Some v \<Rightarrow> v))"

definition merge_map :: "'a \<Rightarrow> ('a \<Rightarrow> 'a \<Rightarrow> 'a) \<Rightarrow> (string \<rightharpoonup> 'a) \<Rightarrow> (string \<rightharpoonup> 'a) \<Rightarrow> (string \<rightharpoonup> 'a)" where
  "merge_map zero add m other =
     (\<lambda>k. case other k of None \<Rightarrow> m k | Some v \<Rightarrow> Some (add (case m k of None \<Rightarrow> zero | Some x \<Rightarrow> x) v))"

definition totals_add :: "totals \<Rightarrow> totals \<Rightarrow> totals" where
  "totals_add t u =
     \<lparr>to_agent_runs = to_agent_runs t + to_agent_runs u, to_llm_calls = to_llm_calls t + to_llm_calls u,
      to_tool_calls = to_tool_calls t + to_tool_calls u, to_tool_errors = to_tool_errors t + to_tool_errors u,
      to_memory_retrieved = to_memory_retrieved t + to_memory_retrieved u, to_memory_saved = to_memory_saved t + to_memory_saved u,
      to_usage = usage_add (to_usage t) (to_usage u), to_llm_time = to_llm_time t + to_llm_time u,
      to_tool_time = to_tool_time t + to_tool_time u, to_memory_time = to_memory_time t + to_memory_time u,
      to_by_model = merge_map zero_model model_add (to_by_model t) (to_by_model u),
      to_by_agent = merge_map zero_agent agent_add (to_by_agent t) (to_by_agent u),
      to_by_tool = merge_map zero_tool tool_add (to_by_tool t) (to_by_tool u)\<rparr>"

subsection \<open>Payloads\<close>

datatype span_kind =
    KindRun | KindLLM | KindTool | KindHandoff | KindMemory | KindRetrieval | KindEmbedding | KindMiddleware | KindCustom

record handoff_payload =
  hf_from :: string
  hf_to :: string
  hf_context :: string

record hit =
  ht_id :: string
  ht_score :: f64
  ht_content :: string
  ht_metadata :: payload

record retrieval_payload =
  rv_query :: string
  rv_topk :: int
  rv_filter :: gval
  rv_hits :: "hit list"

record embedding_payload =
  em_model :: string
  em_inputs :: int
  em_usage :: usage

record middleware_payload =
  mwp_name :: string
  mwp_attempt :: int
  mwp_wait :: int
  mwp_outcome :: string
  mwp_reason :: string
  mwp_rule :: string

record custom_payload =
  cu_type :: string
  cu_data :: payload

text \<open>Beside its payload a run has the session and the time to its first token.\<close>

datatype span_payload =
    PRun run_payload string int
  | PLLM llm_call
  | PTool tool_payload
  | PMemory memory_payload
  | PHandoff handoff_payload
  | PRetrieval retrieval_payload
  | PEmbedding embedding_payload
  | PMiddleware middleware_payload
  | PCustom custom_payload

fun payload_kind :: "span_payload \<Rightarrow> span_kind" where
  "payload_kind (PRun r s t) = KindRun"
| "payload_kind (PLLM c) = KindLLM"
| "payload_kind (PTool c) = KindTool"
| "payload_kind (PMemory m) = KindMemory"
| "payload_kind (PHandoff h) = KindHandoff"
| "payload_kind (PRetrieval r) = KindRetrieval"
| "payload_kind (PEmbedding e) = KindEmbedding"
| "payload_kind (PMiddleware m) = KindMiddleware"
| "payload_kind (PCustom c) = KindCustom"

definition empty_custom :: span_payload where "empty_custom = PCustom \<lparr>cu_type = [], cu_data = (\<lambda>_. None)\<rparr>"

definition unknownModel :: string where "unknownModel = ''unknown''"

definition addOwn :: "span_payload \<Rightarrow> string \<Rightarrow> int \<Rightarrow> bool \<Rightarrow> totals \<Rightarrow> totals" where
  "addOwn payload agent_name dur failed t =
     (case payload of
        PRun r s ttft \<Rightarrow>
          t\<lparr>to_agent_runs := to_agent_runs t + 1,
            to_by_agent := touch zero_agent (rp_agent r) (\<lambda>a. a\<lparr>at_runs := at_runs a + 1\<rparr>) (to_by_agent t)\<rparr>
      | PLLM c \<Rightarrow>
          (let u = usageOf (lc_usage c);
               m1 = (if lc_response_model c = [] then lc_request_model c else lc_response_model c);
               m = (if m1 = [] then unknownModel else m1)
           in t\<lparr>to_llm_calls := to_llm_calls t + 1, to_usage := usage_add (to_usage t) u, to_llm_time := to_llm_time t + dur,
                to_by_model := touch zero_model m (\<lambda>x. x\<lparr>mt_calls := mt_calls x + 1, mt_usage := usage_add (mt_usage x) u\<rparr>) (to_by_model t),
                to_by_agent := touch zero_agent agent_name
                  (\<lambda>a. a\<lparr>at_llm_calls := at_llm_calls a + 1, at_usage := usage_add (at_usage a) u\<rparr>) (to_by_agent t)\<rparr>)
      | PTool c \<Rightarrow>
          (let errs = (if failed then 1 else 0) in
           t\<lparr>to_tool_calls := to_tool_calls t + 1, to_tool_time := to_tool_time t + dur, to_tool_errors := to_tool_errors t + errs,
             to_by_tool := touch zero_tool (tp_name c)
               (\<lambda>x. x\<lparr>tt_calls := tt_calls x + 1, tt_errors := tt_errors x + errs, tt_duration := tt_duration x + dur\<rparr>) (to_by_tool t),
             to_by_agent := touch zero_agent agent_name
               (\<lambda>a. a\<lparr>at_tool_calls := at_tool_calls a + 1, at_tool_errors := at_tool_errors a + errs\<rparr>) (to_by_agent t)\<rparr>)
      | PMemory p \<Rightarrow>
          (let t1 = t\<lparr>to_memory_time := to_memory_time t + dur\<rparr> in
           case mp_op p of
             MemorySave \<Rightarrow> t1\<lparr>to_memory_saved := to_memory_saved t1 + int (mp_count p)\<rparr>
           | MemoryRetrieve \<Rightarrow> t1\<lparr>to_memory_retrieved := to_memory_retrieved t1 + int (mp_count p)\<rparr>
           | _ \<Rightarrow> t1)
      | _ \<Rightarrow> t)"

subsection \<open>Contexts, providers and spans\<close>

type_synonym attr = "string \<times> gval"

record trace_ctx =
  tx_span :: "nat option"
  tx_remote :: "span_context option"
  tx_provider :: "nat option"
  tx_attrs :: "attr list"
  tx_session :: string
  tx_links :: "span_context list"

definition background :: trace_ctx where
  "background = \<lparr>tx_span = None, tx_remote = None, tx_provider = None, tx_attrs = [], tx_session = [], tx_links = []\<rparr>"

definition WithAttributes :: "attr list \<Rightarrow> trace_ctx \<Rightarrow> trace_ctx" where
  "WithAttributes as ctx = (if as = [] then ctx else ctx\<lparr>tx_attrs := tx_attrs ctx @ as\<rparr>)"
definition WithSession :: "string \<Rightarrow> trace_ctx \<Rightarrow> trace_ctx" where "WithSession i ctx = ctx\<lparr>tx_session := i\<rparr>"
definition WithLinks :: "span_context list \<Rightarrow> trace_ctx \<Rightarrow> trace_ctx" where
  "WithLinks scs ctx = (if scs = [] then ctx else ctx\<lparr>tx_links := scs\<rparr>)"
definition WithProvider :: "nat option \<Rightarrow> trace_ctx \<Rightarrow> trace_ctx" where "WithProvider p ctx = ctx\<lparr>tx_provider := p\<rparr>"

record provider =
  pv_processors :: nat
  pv_ids :: "(trace_ctx \<Rightarrow> span_context \<Rightarrow> span_kind \<Rightarrow> string \<Rightarrow> int \<Rightarrow> span_context) option"
  pv_attrs :: "attr list"
  pv_stopped :: bool

record tspan =
  tn_provider :: "nat option"
  tn_parent :: "nat option"
  tn_sc :: span_context
  tn_parent_sc :: span_context
  tn_name :: string
  tn_payload :: span_payload
  tn_agent :: string
  tn_session :: string
  tn_start :: int
  tn_links :: "span_context list"
  tn_ctx_attrs :: "attr list"
  tn_attrs :: "attr list"
  tn_events :: "(string \<times> int \<times> attr list) list"
  tn_totals :: totals
  tn_end :: int
  tn_err :: "err option"
  tn_ended :: bool

text \<open>
  What a processor is given. \<open>tr_out\<close> holds, in order, the calls of the processors: a start or an end,
  the index of the processor, and its data.
\<close>

record span_data =
  sd_span :: tspan
  sd_attrs :: "attr list"
  sd_end :: "(int \<times> err option \<times> (string \<times> int \<times> attr list) list \<times> totals) option"

record traces =
  tr_spans :: "nat \<Rightarrow> tspan option"
  tr_next :: nat
  tr_providers :: "nat \<Rightarrow> provider"
  tr_out :: "(bool \<times> nat \<times> span_data) list"

definition recording :: "traces \<Rightarrow> nat option \<Rightarrow> bool" where
  "recording st p =
     (case p of None \<Rightarrow> False | Some i \<Rightarrow> 0 < pv_processors (tr_providers st i) \<and> \<not> pv_stopped (tr_providers st i))"

text \<open>The totals a span reports: its descendants' and, once it has ended, its own.\<close>

definition totalsLocked :: "tspan \<Rightarrow> totals" where
  "totalsLocked s =
     (if tn_ended s then addOwn (tn_payload s) (tn_agent s) (tn_end s - tn_start s) (tn_err s \<noteq> None) (tn_totals s) else tn_totals s)"

definition Totals :: "traces \<Rightarrow> nat option \<Rightarrow> totals" where
  "Totals st i = (case i of None \<Rightarrow> zero_totals | Some j \<Rightarrow> (case tr_spans st j of None \<Rightarrow> zero_totals | Some s \<Rightarrow> totalsLocked s))"

definition span_data_of :: "traces \<Rightarrow> bool \<Rightarrow> tspan \<Rightarrow> span_data" where
  "span_data_of st ended s =
     \<lparr>sd_span = s,
      sd_attrs = (case tn_provider s of None \<Rightarrow> [] | Some p \<Rightarrow> pv_attrs (tr_providers st p)) @ tn_ctx_attrs s @ tn_attrs s,
      sd_end = (if ended then Some (tn_end s, tn_err s, tn_events s, totalsLocked s) else None)\<rparr>"

definition notify :: "bool \<Rightarrow> nat option \<Rightarrow> tspan \<Rightarrow> traces \<Rightarrow> traces" where
  "notify ended p s st =
     (if recording st p
      then st\<lparr>tr_out := tr_out st @ map (\<lambda>i. (ended, i, span_data_of st ended s)) [0 ..< pv_processors (tr_providers st (the p))]\<rparr>
      else st)"

definition span_at :: "traces \<Rightarrow> nat option \<Rightarrow> tspan option" where
  "span_at st i = (case i of None \<Rightarrow> None | Some j \<Rightarrow> tr_spans st j)"

text \<open>
  \<open>draw\<close> are the random identifiers, and \<open>start\<close> the time \<open>WithStartTime\<close> gives or that of the call; a nil payload
  is an empty \<open>Custom\<close>.
\<close>

definition new_span ::
  "string \<times> string \<Rightarrow> int \<Rightarrow> span_context list \<Rightarrow> string \<Rightarrow> span_payload \<Rightarrow> trace_ctx \<Rightarrow> traces \<Rightarrow> tspan" where
  "new_span draw start links name payload ctx st =
     (let parent = span_at st (tx_span ctx);
          parentSC = (case parent of Some s \<Rightarrow> tn_sc s | None \<Rightarrow> (case tx_remote ctx of Some sc \<Rightarrow> sc | None \<Rightarrow> no_context));
          p = (case tx_provider ctx of
              Some i \<Rightarrow> Some i
            | None \<Rightarrow> (case parent of Some s \<Rightarrow> tn_provider s | None \<Rightarrow> None));
          sc0 = (if recording st p
              then (case pv_ids (tr_providers st (the p)) of Some f \<Rightarrow> f ctx parentSC (payload_kind payload) name start | None \<Rightarrow> no_context)
              else no_context);
          sc = (if sc_valid sc0 then sc0 else newSpanContext draw parentSC)
      in \<lparr>tn_provider = p, tn_parent = (if parent = None then None else tx_span ctx), tn_sc = sc, tn_parent_sc = parentSC,
          tn_name = name, tn_payload = payload,
          tn_agent = (case payload of PRun r x y \<Rightarrow> rp_agent r | _ \<Rightarrow> (case parent of Some q \<Rightarrow> tn_agent q | None \<Rightarrow> [])),
          tn_session = tx_session ctx, tn_start = start, tn_links = links @ tx_links ctx, tn_ctx_attrs = tx_attrs ctx,
          tn_attrs = [], tn_events = [], tn_totals = zero_totals, tn_end = 0, tn_err = None, tn_ended = False\<rparr>)"

definition Start_span ::
  "string \<times> string \<Rightarrow> int \<Rightarrow> span_context list \<Rightarrow> string \<Rightarrow> span_payload option \<Rightarrow> trace_ctx \<Rightarrow> traces \<Rightarrow> trace_ctx \<times> traces" where
  "Start_span draw start links name payload ctx st =
     (let s = new_span draw start links name (case payload of None \<Rightarrow> empty_custom | Some p \<Rightarrow> p) ctx st;
          st1 = notify False (tn_provider s) s st
      in (ctx\<lparr>tx_span := Some (tr_next st), tx_links := []\<rparr>,
          st1\<lparr>tr_spans := (tr_spans st1)(tr_next st \<mapsto> s), tr_next := Suc (tr_next st)\<rparr>))"

text \<open>The two halves of \<open>End\<close>, with \<open>None\<close> for a call that has no effect, and the roll-up between them.\<close>

definition End_mark :: "int \<Rightarrow> err option \<Rightarrow> nat \<Rightarrow> traces \<Rightarrow> traces option" where
  "End_mark now e i st =
     (case tr_spans st i of
        None \<Rightarrow> None
      | Some s \<Rightarrow>
          if tn_ended s then None
          else Some (st\<lparr>tr_spans := (tr_spans st)(i \<mapsto> s\<lparr>tn_ended := True, tn_end := now, tn_err := e\<rparr>)\<rparr>))"

definition addChild :: "tspan \<Rightarrow> tspan \<Rightarrow> tspan" where
  "addChild c s =
     (if tn_ended s then s
      else s\<lparr>tn_totals := addOwn (tn_payload c) (tn_agent c) (tn_end c - tn_start c) (tn_err c \<noteq> None) (totals_add (tn_totals s) (tn_totals c))\<rparr>)"

definition End_rest :: "nat \<Rightarrow> traces \<Rightarrow> traces" where
  "End_rest i st =
     (case tr_spans st i of
        None \<Rightarrow> st
      | Some c \<Rightarrow>
          (let st1 = (case tn_parent c of
                 None \<Rightarrow> st
               | Some p \<Rightarrow> (case tr_spans st p of None \<Rightarrow> st | Some s \<Rightarrow> st\<lparr>tr_spans := (tr_spans st)(p \<mapsto> addChild c s)\<rparr>))
           in notify True (tn_provider c) c st1))"

definition SetAttributes :: "attr list \<Rightarrow> nat \<Rightarrow> traces \<Rightarrow> traces" where
  "SetAttributes as i st =
     (case tr_spans st i of None \<Rightarrow> st | Some s \<Rightarrow> st\<lparr>tr_spans := (tr_spans st)(i \<mapsto> s\<lparr>tn_attrs := tn_attrs s @ as\<rparr>)\<rparr>)"

definition AddEvent :: "string \<Rightarrow> int \<Rightarrow> attr list \<Rightarrow> nat \<Rightarrow> traces \<Rightarrow> traces" where
  "AddEvent name now as i st =
     (case tr_spans st i of None \<Rightarrow> st | Some s \<Rightarrow> st\<lparr>tr_spans := (tr_spans st)(i \<mapsto> s\<lparr>tn_events := tn_events s @ [(name, now, as)]\<rparr>)\<rparr>)"

definition Shutdown_provider :: "nat \<Rightarrow> traces \<Rightarrow> traces" where
  "Shutdown_provider p st = st\<lparr>tr_providers := (tr_providers st)(p := (tr_providers st p)\<lparr>pv_stopped := True\<rparr>)\<rparr>"

definition currentSpanContext :: "traces \<Rightarrow> trace_ctx \<Rightarrow> span_context" where
  "currentSpanContext st ctx =
     (case span_at st (tx_span ctx) of
        Some s \<Rightarrow> tn_sc s
      | None \<Rightarrow> (case tx_remote ctx of Some sc \<Rightarrow> sc | None \<Rightarrow> no_context))"

definition Inject :: "traces \<Rightarrow> trace_ctx \<Rightarrow> string" where "Inject st ctx = Traceparent (currentSpanContext st ctx)"
definition InjectState :: "traces \<Rightarrow> trace_ctx \<Rightarrow> string" where "InjectState st ctx = sc_state (currentSpanContext st ctx)"

definition Extract :: "string \<Rightarrow> string option \<Rightarrow> trace_ctx \<Rightarrow> trace_ctx" where
  "Extract traceparent tracestate ctx =
     (case ParseTraceparent traceparent of
        None \<Rightarrow> ctx
      | Some sc \<Rightarrow>
          ctx\<lparr>tx_span := None,
              tx_remote := Some (case tracestate of Some x \<Rightarrow> sc\<lparr>sc_state := x\<rparr> | None \<Rightarrow> sc)\<rparr>)"

subsection \<open>Summaries\<close>

record tool_summary =
  tsm_name :: string
  tsm_calls :: int
  tsm_errors :: int
  tsm_duration :: int

record run_summary =
  su_agent :: string
  su_trace :: string
  su_span :: string
  su_session :: string
  su_stop :: stop_reason
  su_iterations :: nat
  su_max_iterations :: int
  su_llm_calls :: int
  su_tool_calls :: int
  su_tool_errors :: int
  su_memory_retrieved :: int
  su_memory_saved :: int
  su_usage :: usage_summary
  su_latency :: "int \<times> int \<times> int \<times> int \<times> int"
  su_tools :: "tool_summary list"
  su_by_model :: "string \<rightharpoonup> model_totals"
  su_by_agent :: "string \<rightharpoonup> agent_totals"
  su_handoffs :: "string list"
  su_error :: string

text \<open>\<open>names\<close> lists the keys of the tool map, in any order.\<close>

definition NewRunSummary :: "int \<Rightarrow> string list \<Rightarrow> tspan option \<Rightarrow> run_summary option" where
  "NewRunSummary now names so =
     (case so of
        None \<Rightarrow> None
      | Some s \<Rightarrow>
          (case tn_payload s of
             PRun r session ttft \<Rightarrow>
               (let t = totalsLocked s in
                Some \<lparr>su_agent = rp_agent r, su_trace = hex_encode (sc_trace (tn_sc s)), su_span = hex_encode (sc_span (tn_sc s)),
                  su_session = session, su_stop = rp_stop_reason r, su_iterations = rp_iterations r,
                  su_max_iterations = rp_max_iterations r, su_llm_calls = to_llm_calls t, su_tool_calls = to_tool_calls t,
                  su_tool_errors = to_tool_errors t, su_memory_retrieved = to_memory_retrieved t, su_memory_saved = to_memory_saved t,
                  su_usage = to_usage t,
                  su_latency = ((if tn_ended s then tn_end s else now) - tn_start s, to_llm_time t, to_tool_time t, to_memory_time t, ttft),
                  su_tools = sort_key tsm_name
                    (map (\<lambda>n. case to_by_tool t n of
                       Some x \<Rightarrow> \<lparr>tsm_name = n, tsm_calls = tt_calls x, tsm_errors = tt_errors x, tsm_duration = tt_duration x\<rparr>
                     | None \<Rightarrow> \<lparr>tsm_name = n, tsm_calls = 0, tsm_errors = 0, tsm_duration = 0\<rparr>) names),
                  su_by_model = to_by_model t, su_by_agent = to_by_agent t, su_handoffs = rp_handoffs r,
                  su_error = (case tn_err s of None \<Rightarrow> [] | Some e \<Rightarrow> err_text e)\<rparr>)
           | _ \<Rightarrow> None))"

end
