(* ===== verification/Trace_Correct.thy ===== *)
theory Trace_Correct
  imports Trace_Spans
begin

section \<open>What the totals of a span count\<close>

text \<open>
  Totals form a commutative monoid (interpretation \<open>tot\<close> of the library's \<open>comm_monoid_set\<close>), and a span's own
  contribution is an element of it. The life of the spans is a step relation: spans start anywhere, are
  filled, marked as ended and rolled up into their parents in any order. In every reachable state the totals of
  an ended span are the sum of the contributions of the spans that reached it (\<open>totals_count_each_span_once\<close>).
\<close>

subsection \<open>The monoid of totals\<close>

lemma usage_add_comm: "usage_add u v = usage_add v u" by (simp add: usage_add_def)
lemma usage_add_assoc: "usage_add (usage_add u v) w = usage_add u (usage_add v w)" by (simp add: usage_add_def)
lemma usage_add_zero: "usage_add zero_usage u = u" "usage_add u zero_usage = u" by (simp_all add: usage_add_def zero_usage_def)

lemma model_add_laws: "model_add m v = model_add v m" "model_add (model_add m v) w = model_add m (model_add v w)" "model_add zero_model m = m"
  by (simp_all add: model_add_def zero_model_def usage_add_zero usage_add_assoc usage_add_comm [of "mt_usage m"])

lemma agent_add_laws: "agent_add m v = agent_add v m" "agent_add (agent_add m v) w = agent_add m (agent_add v w)" "agent_add zero_agent m = m"
  by (simp_all add: agent_add_def zero_agent_def usage_add_zero usage_add_assoc usage_add_comm [of "at_usage m"])

lemma tool_add_laws: "tool_add m v = tool_add v m" "tool_add (tool_add m v) w = tool_add m (tool_add v w)" "tool_add zero_tool m = m"
  by (simp_all add: tool_add_def zero_tool_def)

lemma merge_map_laws:
  assumes "\<And>m v. add m v = add v m" "\<And>m v w. add (add m v) w = add m (add v w)" "\<And>m. add zero m = m"
  shows "merge_map zero add m n = merge_map zero add n m"
    and "merge_map zero add (merge_map zero add m n) k = merge_map zero add m (merge_map zero add n k)"
    and "merge_map zero add (\<lambda>_. None) m = m" and "merge_map zero add m (\<lambda>_. None) = m"
  using assms by (auto simp: merge_map_def fun_eq_iff split: option.splits)

lemmas merge_model = merge_map_laws [of model_add zero_model, OF model_add_laws]
lemmas merge_agent = merge_map_laws [of agent_add zero_agent, OF agent_add_laws]
lemmas merge_tool = merge_map_laws [of tool_add zero_tool, OF tool_add_laws]

lemma totals_add_comm: "totals_add t u = totals_add u t"
  unfolding totals_add_def
  by (simp add: usage_add_comm [of "to_usage t"] merge_model(1) [of "to_by_model t"] merge_agent(1) [of "to_by_agent t"] merge_tool(1) [of "to_by_tool t"])

lemma totals_add_assoc: "totals_add (totals_add t u) v = totals_add t (totals_add u v)"
  by (simp add: totals_add_def usage_add_assoc merge_model(2) merge_agent(2) merge_tool(2))

lemma totals_add_zero: "totals_add t zero_totals = t"
  by (simp add: totals_add_def zero_totals_def usage_add_zero merge_model(4) merge_agent(4) merge_tool(4))

interpretation tot: comm_monoid_set totals_add zero_totals
  by unfold_locales (rule totals_add_assoc totals_add_comm totals_add_zero)+

subsection \<open>A span's own contribution\<close>

definition own_of :: "tspan \<Rightarrow> totals" where
  "own_of s = addOwn (tn_payload s) (tn_agent s) (tn_end s - tn_start s) (tn_err s \<noteq> None) zero_totals"

lemma touch_merge:
  assumes "\<And>m. add zero m = m" and "\<And>x. f x = add x (f zero)"
  shows "touch zero k f m = merge_map zero add m (touch zero k f (\<lambda>_. None))"
proof
  fix j
  show "touch zero k f m j = merge_map zero add m (touch zero k f (\<lambda>_. None)) j"
    using assms(2) [of "case m k of None \<Rightarrow> zero | Some v \<Rightarrow> v"] by (simp add: touch_def merge_map_def)
qed

lemma addOwn_add: "addOwn p a d f t = totals_add t (addOwn p a d f zero_totals)"
proof (cases p)
  case (PRun r s ttft)
  have A: "touch zero_agent n (\<lambda>a. a\<lparr>at_runs := at_runs a + 1\<rparr>) m =
      merge_map zero_agent agent_add m (touch zero_agent n (\<lambda>a. a\<lparr>at_runs := at_runs a + 1\<rparr>) (\<lambda>_. None))" for n m
    by (rule touch_merge [where add = agent_add and zero = zero_agent, OF agent_add_laws(3)]) (simp add: agent_add_def zero_agent_def usage_add_def zero_usage_def)
  show ?thesis using PRun A [of _ "to_by_agent t"]
    by (simp add: addOwn_def totals_add_def zero_totals_def usage_add_zero merge_model(4) merge_tool(4))
next
  case (PLLM c)
  let ?u = "usageOf (lc_usage c)"
  have A: "touch zero_agent n (\<lambda>a. a\<lparr>at_llm_calls := at_llm_calls a + 1, at_usage := usage_add (at_usage a) ?u\<rparr>) m =
      merge_map zero_agent agent_add m (touch zero_agent n (\<lambda>a. a\<lparr>at_llm_calls := at_llm_calls a + 1, at_usage := usage_add (at_usage a) ?u\<rparr>) (\<lambda>_. None))" for n m
    by (rule touch_merge [where add = agent_add and zero = zero_agent, OF agent_add_laws(3)]) (simp add: agent_add_def zero_agent_def usage_add_def zero_usage_def)
  have M: "touch zero_model n (\<lambda>x. x\<lparr>mt_calls := mt_calls x + 1, mt_usage := usage_add (mt_usage x) ?u\<rparr>) m =
      merge_map zero_model model_add m (touch zero_model n (\<lambda>x. x\<lparr>mt_calls := mt_calls x + 1, mt_usage := usage_add (mt_usage x) ?u\<rparr>) (\<lambda>_. None))" for n m
    by (rule touch_merge [where add = model_add and zero = zero_model, OF model_add_laws(3)]) (simp add: model_add_def zero_model_def usage_add_def zero_usage_def)
  show ?thesis using PLLM A [of _ "to_by_agent t"] M [of _ "to_by_model t"]
    by (simp add: addOwn_def Let_def totals_add_def zero_totals_def usage_add_zero merge_tool(4))
next
  case (PTool c)
  define errs :: int where "errs = (if f then 1 else 0)"
  have A: "touch zero_agent n (\<lambda>a. a\<lparr>at_tool_calls := at_tool_calls a + 1, at_tool_errors := at_tool_errors a + errs\<rparr>) m =
      merge_map zero_agent agent_add m (touch zero_agent n (\<lambda>a. a\<lparr>at_tool_calls := at_tool_calls a + 1, at_tool_errors := at_tool_errors a + errs\<rparr>) (\<lambda>_. None))" for n m
    by (rule touch_merge [where add = agent_add and zero = zero_agent, OF agent_add_laws(3)]) (simp add: agent_add_def zero_agent_def usage_add_def zero_usage_def)
  have M: "touch zero_tool n (\<lambda>x. x\<lparr>tt_calls := tt_calls x + 1, tt_errors := tt_errors x + errs, tt_duration := tt_duration x + d\<rparr>) m =
      merge_map zero_tool tool_add m (touch zero_tool n (\<lambda>x. x\<lparr>tt_calls := tt_calls x + 1, tt_errors := tt_errors x + errs, tt_duration := tt_duration x + d\<rparr>) (\<lambda>_. None))" for n m
    by (rule touch_merge [where add = tool_add and zero = zero_tool, OF tool_add_laws(3)]) (simp add: tool_add_def zero_tool_def)
  show ?thesis using PTool A [of _ "to_by_agent t"] M [of _ "to_by_tool t"]
    by (simp add: addOwn_def Let_def errs_def [symmetric] totals_add_def zero_totals_def usage_add_zero merge_model(4))
next
  case (PMemory m)
  then show ?thesis
    by (cases "mp_op m")
      (simp_all add: addOwn_def Let_def totals_add_def zero_totals_def usage_add_zero merge_model(4) merge_agent(4) merge_tool(4))
qed (simp_all add: addOwn_def totals_add_zero)

lemma totalsLocked_ended: "tn_ended s \<Longrightarrow> totalsLocked s = totals_add (own_of s) (tn_totals s)"
  unfolding totalsLocked_def own_of_def by (subst addOwn_add) (simp add: totals_add_comm)

subsection \<open>The life of spans\<close>

text \<open>
  Beside the store: the spans marked as ended whose roll-up is still to come, and those whose roll-up found
  their parent open. Payloads are filled until their span ends.
\<close>

record trace_life =
  tl_st :: traces
  tl_pending :: "nat set"
  tl_rolled :: "nat set"

definition trace_birth :: "(nat \<Rightarrow> provider) \<Rightarrow> trace_life" where
  "trace_birth ps = \<lparr>tl_st = \<lparr>tr_spans = (\<lambda>_. None), tr_next = 0, tr_providers = ps, tr_out = []\<rparr>, tl_pending = {}, tl_rolled = {}\<rparr>"

definition parent_open :: "traces \<Rightarrow> nat \<Rightarrow> bool" where
  "parent_open st i =
     (case tr_spans st i of
        None \<Rightarrow> False
      | Some c \<Rightarrow> (case span_at st (tn_parent c) of None \<Rightarrow> False | Some s \<Rightarrow> \<not> tn_ended s))"

inductive trace_step :: "trace_life \<Rightarrow> trace_life \<Rightarrow> bool" where
  started: "Start_span draw now links name payload ctx (tl_st l) = (ctx', st) \<Longrightarrow> trace_step l (l\<lparr>tl_st := st\<rparr>)"
| filled: "tr_spans (tl_st l) i = Some s \<Longrightarrow> \<not> tn_ended s \<Longrightarrow>
    trace_step l (l\<lparr>tl_st := (tl_st l)\<lparr>tr_spans := (tr_spans (tl_st l))(i \<mapsto> s\<lparr>tn_payload := p\<rparr>)\<rparr>\<rparr>)"
| attrs: "trace_step l (l\<lparr>tl_st := SetAttributes as i (tl_st l)\<rparr>)"
| event: "trace_step l (l\<lparr>tl_st := AddEvent name now as i (tl_st l)\<rparr>)"
| marked: "End_mark now e i (tl_st l) = Some st \<Longrightarrow> trace_step l (l\<lparr>tl_st := st, tl_pending := insert i (tl_pending l)\<rparr>)"
| rolled: "i \<in> tl_pending l \<Longrightarrow>
    trace_step l (l\<lparr>tl_st := End_rest i (tl_st l), tl_pending := tl_pending l - {i},
      tl_rolled := (if parent_open (tl_st l) i then insert i (tl_rolled l) else tl_rolled l)\<rparr>)"
| stopped: "trace_step l (l\<lparr>tl_st := Shutdown_provider p (tl_st l)\<rparr>)"

inductive trace_reach :: "trace_life \<Rightarrow> bool" where
  birth: "trace_reach (trace_birth ps)"
| later: "trace_reach l \<Longrightarrow> trace_step l l' \<Longrightarrow> trace_reach l'"

definition kids :: "trace_life \<Rightarrow> nat \<Rightarrow> nat set" where
  "kids l i = {j \<in> tl_rolled l. \<exists>c. tr_spans (tl_st l) j = Some c \<and> tn_parent c = Some i}"

definition part_of :: "trace_life \<Rightarrow> nat \<Rightarrow> totals" where
  "part_of l j = (case tr_spans (tl_st l) j of None \<Rightarrow> zero_totals | Some c \<Rightarrow> totalsLocked c)"

text \<open>What every step keeps.\<close>

definition ended_at :: "trace_life \<Rightarrow> nat \<Rightarrow> bool" where
  "ended_at l i \<longleftrightarrow> (case tr_spans (tl_st l) i of None \<Rightarrow> False | Some s \<Rightarrow> tn_ended s)"

definition store_inv :: "trace_life \<Rightarrow> bool" where
  "store_inv l \<longleftrightarrow>
     (\<forall>i. tr_next (tl_st l) \<le> i \<longrightarrow> tr_spans (tl_st l) i = None) \<and>
     (\<forall>i s p. tr_spans (tl_st l) i = Some s \<longrightarrow> tn_parent s = Some p \<longrightarrow> p < i) \<and>
     (\<forall>i \<in> tl_rolled l \<union> tl_pending l. ended_at l i) \<and> tl_rolled l \<inter> tl_pending l = {}"

definition sums_inv :: "trace_life \<Rightarrow> bool" where
  "sums_inv l \<longleftrightarrow> (\<forall>i s. tr_spans (tl_st l) i = Some s \<longrightarrow> tn_totals s = tot.F (part_of l) (kids l i))"

lemma tr_spans_notify [simp]: "tr_spans (notify b p s st) = tr_spans st" "tr_next (notify b p s st) = tr_next st"
  by (simp_all add: notify_def)

text \<open>
  A change of one span that keeps its parent, and its part of the totals if it has been rolled up, changes
  nobody's sum but its own.
\<close>

lemma kids_cong:
  assumes "\<And>j. map_option tn_parent (spans' j) = map_option tn_parent (tr_spans (tl_st l) j)" and "tr_spans (tl_st l') = spans'" and "tl_rolled l' = tl_rolled l"
  shows "kids l' i = kids l i"
proof -
  have "(\<exists>c. spans' j = Some c \<and> tn_parent c = Some i) \<longleftrightarrow> (\<exists>c. tr_spans (tl_st l) j = Some c \<and> tn_parent c = Some i)" for j
    using assms(1) [of j] by (cases "spans' j"; cases "tr_spans (tl_st l) j") auto
  then show ?thesis using assms(2,3) by (simp add: kids_def)
qed

lemma changed_span:
  assumes s: "tr_spans (tl_st l) i = Some s" and st: "tr_spans (tl_st l') = (tr_spans (tl_st l))(i \<mapsto> s')" and r: "tl_rolled l' = tl_rolled l"
    and p: "tn_parent s' = tn_parent s" and t: "tn_totals s' = tn_totals s"
    and o: "i \<in> tl_rolled l \<Longrightarrow> totalsLocked s' = totalsLocked s" and inv: "sums_inv l"
  shows "sums_inv l'"
proof -
  have k: "kids l' j = kids l j" for j
    by (rule kids_cong [OF _ st r]) (use s p in auto)
  have "part_of l' j = part_of l j" if "j \<in> tl_rolled l" for j using that s st o by (auto simp: part_of_def)
  then have "tot.F (part_of l') (kids l' j) = tot.F (part_of l) (kids l j)" for j
    unfolding k by (intro tot.cong) (auto simp: kids_def)
  then show ?thesis using inv s st t unfolding sums_inv_def by auto
qed

lemma Start_span_new:
  assumes "Start_span draw now links name payload ctx st = (ctx', st')"
  obtains s where "tr_spans st' = (tr_spans st)(tr_next st \<mapsto> s)" "tr_next st' = Suc (tr_next st)" "\<not> tn_ended s"
    "tn_totals s = zero_totals" "\<And>p. tn_parent s = Some p \<Longrightarrow> tr_spans st p \<noteq> None"
proof -
  define s where "s = new_span draw now links name (case payload of None \<Rightarrow> empty_custom | Some p \<Rightarrow> p) ctx st"
  have "tr_spans st' = (tr_spans st)(tr_next st \<mapsto> s)" "tr_next st' = Suc (tr_next st)"
    using assms by (auto simp: Start_span_def s_def [symmetric] Let_def)
  moreover have "\<not> tn_ended s" "tn_totals s = zero_totals" "\<And>p. tn_parent s = Some p \<Longrightarrow> tr_spans st p \<noteq> None"
    by (auto simp: s_def new_span_def Let_def span_at_def split: if_splits option.splits)
  ultimately show ?thesis using that by blast
qed

lemma End_rest_spans:
  assumes "tr_spans st i = Some c"
  shows "tr_spans (End_rest i st) =
      (if parent_open st i then (tr_spans st)(the (tn_parent c) \<mapsto> addChild c (the (tr_spans st (the (tn_parent c))))) else tr_spans st)"
    and "tr_next (End_rest i st) = tr_next st"
  using assms by (auto simp: End_rest_def Let_def parent_open_def span_at_def addChild_def fun_eq_iff split: option.splits)

lemma store_invI:
  assumes "\<And>i. tr_next (tl_st l) \<le> i \<Longrightarrow> tr_spans (tl_st l) i = None"
    and "\<And>i s p. tr_spans (tl_st l) i = Some s \<Longrightarrow> tn_parent s = Some p \<Longrightarrow> p < i"
    and "\<And>i. i \<in> tl_rolled l \<union> tl_pending l \<Longrightarrow> ended_at l i" and "tl_rolled l \<inter> tl_pending l = {}"
  shows "store_inv l"
  unfolding store_inv_def using assms by blast

lemma store_invD:
  assumes "store_inv l"
  shows "tr_next (tl_st l) \<le> i \<Longrightarrow> tr_spans (tl_st l) i = None"
    and "tr_spans (tl_st l) i = Some s \<Longrightarrow> tn_parent s = Some p \<Longrightarrow> p < i"
    and "i \<in> tl_rolled l \<union> tl_pending l \<Longrightarrow> ended_at l i" and "tl_rolled l \<inter> tl_pending l = {}"
  using assms unfolding store_inv_def by blast+

lemma store_changed:
  assumes inv: "store_inv l" and s: "tr_spans (tl_st l) i = Some s" and n: "tr_next (tl_st l') = tr_next (tl_st l)"
    and st: "tr_spans (tl_st l') = (tr_spans (tl_st l))(i \<mapsto> s')" and p: "tn_parent s' = tn_parent s" and e: "tn_ended s \<Longrightarrow> tn_ended s'"
    and r: "tl_rolled l' \<union> tl_pending l' \<subseteq> tl_rolled l \<union> tl_pending l \<union> (if tn_ended s' then {i} else {})"
    and d: "tl_rolled l' \<inter> tl_pending l' = {}"
  shows "store_inv l'"
proof (rule store_invI)
  have x: "ended_at l j \<Longrightarrow> ended_at l' j" for j using s st e by (auto simp: ended_at_def)
  have y: "tn_ended s' \<Longrightarrow> ended_at l' i" using st by (simp add: ended_at_def)
  show "ended_at l' j" if "j \<in> tl_rolled l' \<union> tl_pending l'" for j
    using that r store_invD(3) [OF inv, of j] x [of j] y by (auto split: if_splits)
  show "tl_rolled l' \<inter> tl_pending l' = {}" by (rule d)
  show "tr_spans (tl_st l') j = None" if "tr_next (tl_st l') \<le> j" for j
    using store_invD(1) [OF inv, of j] that n st s by auto
  show "q < j" if "tr_spans (tl_st l') j = Some x" "tn_parent x = Some q" for j x q
    using store_invD(2) [OF inv, of j] that st s p by (auto split: if_splits)
qed

lemma trace_step_store: "trace_step l l' \<Longrightarrow> store_inv l \<Longrightarrow> store_inv l'"
proof (induction rule: trace_step.induct)
  case (started draw now links name payload ctx l ctx' st)
  from Start_span_new [OF started.hyps] obtain s where s: "tr_spans st = (tr_spans (tl_st l))(tr_next (tl_st l) \<mapsto> s)"
    "tr_next st = Suc (tr_next (tl_st l))" "\<And>p. tn_parent s = Some p \<Longrightarrow> tr_spans (tl_st l) p \<noteq> None" by metis
  note d = store_invD [OF started.prems]
  have new: "tr_spans (tl_st l) (tr_next (tl_st l)) = None" using d(1) by simp
  have par: "p < tr_next (tl_st l)" if "tn_parent s = Some p" for p using s(3) [OF that] d(1) [of p] by (metis not_le)
  have e: "ended_at (l\<lparr>tl_st := st\<rparr>) j" if "ended_at l j" for j using that new s(1) by (auto simp: ended_at_def split: option.splits)
  show ?case
    by (rule store_invI) (use s d par e in \<open>auto split: if_splits dest: d(2)\<close>)
next
  case (filled l i s p)
  show ?case by (rule store_changed [where s' = "s\<lparr>tn_payload := p\<rparr>", OF filled.prems filled.hyps(1)]) (use store_invD(4) [OF filled.prems] in simp_all)
next
  case (attrs l as i)
  show ?case
  proof (cases "tr_spans (tl_st l) i")
    case (Some s)
    show ?thesis by (rule store_changed [where s' = "s\<lparr>tn_attrs := tn_attrs s @ as\<rparr>", OF attrs.prems Some]) (use store_invD(4) [OF attrs.prems] Some in \<open>simp_all add: SetAttributes_def\<close>)
  qed (use attrs.prems in \<open>simp add: SetAttributes_def\<close>)
next
  case (event l name now as i)
  show ?case
  proof (cases "tr_spans (tl_st l) i")
    case (Some s)
    show ?thesis by (rule store_changed [where s' = "s\<lparr>tn_events := tn_events s @ [(name, now, as)]\<rparr>", OF event.prems Some]) (use store_invD(4) [OF event.prems] Some in \<open>simp_all add: AddEvent_def\<close>)
  qed (use event.prems in \<open>simp add: AddEvent_def\<close>)
next
  case (marked now e i l st)
  then obtain s where s: "tr_spans (tl_st l) i = Some s" "\<not> tn_ended s"
    "st = (tl_st l)\<lparr>tr_spans := (tr_spans (tl_st l))(i \<mapsto> s\<lparr>tn_ended := True, tn_end := now, tn_err := e\<rparr>)\<rparr>"
    by (auto simp: End_mark_def split: option.splits if_splits)
  have "i \<notin> tl_rolled l" using store_invD(3) [OF marked.prems, of i] s by (auto simp: ended_at_def)
  then show ?case by (intro store_changed [where s' = "s\<lparr>tn_ended := True, tn_end := now, tn_err := e\<rparr>", OF marked.prems s(1)]) (use store_invD(4) [OF marked.prems] s in auto)
next
  case (rolled i l)
  obtain c where c: "tr_spans (tl_st l) i = Some c" "tn_ended c"
    using store_invD(3) [OF rolled.prems, of i] rolled.hyps by (auto simp: ended_at_def split: option.splits)
  note e = End_rest_spans [of "tl_st l", OF c(1)]
  show ?case
  proof (cases "parent_open (tl_st l) i")
    case True
    then obtain p s where p: "tn_parent c = Some p" "tr_spans (tl_st l) p = Some s" "\<not> tn_ended s"
      using c by (auto simp: parent_open_def span_at_def split: option.splits)
    show ?thesis
      by (rule store_changed [where s' = "addChild c s", OF rolled.prems p(2)])
        (use e p True store_invD(4) [OF rolled.prems] rolled.hyps in \<open>auto simp: addChild_def\<close>)
  next
    case False
    show ?thesis
      by (rule store_changed [where s' = c, OF rolled.prems c(1)]) (use e c False store_invD(4) [OF rolled.prems] rolled.hyps in auto)
  qed
next
  case (stopped l p)
  then show ?case by (simp add: store_inv_def ended_at_def Shutdown_provider_def)
qed

lemma rolled_ended: "store_inv l \<Longrightarrow> i \<in> tl_rolled l \<Longrightarrow> tr_spans (tl_st l) i = Some s \<Longrightarrow> tn_ended s"
  using store_invD(3) [of l i] by (simp add: ended_at_def)

lemma addChild_totals: "tn_ended c \<Longrightarrow> \<not> tn_ended s \<Longrightarrow> addChild c s = s\<lparr>tn_totals := totals_add (tn_totals s) (totalsLocked c)\<rparr>"
  unfolding addChild_def totalsLocked_ended by (subst addOwn_add) (simp add: own_of_def totals_add_assoc totals_add_comm [of "addOwn _ _ _ _ _"])

lemma kids_finite: "store_inv l \<Longrightarrow> finite (kids l i)"
proof -
  assume inv: "store_inv l"
  have "kids l i \<subseteq> {..< tr_next (tl_st l)}"
  proof
    fix j assume "j \<in> kids l i"
    then have "tr_spans (tl_st l) j \<noteq> None" by (auto simp: kids_def)
    then show "j \<in> {..< tr_next (tl_st l)}" using store_invD(1) [OF inv, of j] by (auto simp: not_le [symmetric])
  qed
  then show ?thesis by (rule finite_subset) simp
qed

lemma trace_step_sums: "trace_step l l' \<Longrightarrow> store_inv l \<Longrightarrow> sums_inv l \<Longrightarrow> sums_inv l'"
proof (induction rule: trace_step.induct)
  case (started draw now links name payload ctx l ctx' st)
  let ?n = "tr_next (tl_st l)" and ?l = "l\<lparr>tl_st := st\<rparr>"
  from Start_span_new [OF started.hyps] obtain s where s: "tr_spans st = (tr_spans (tl_st l))(?n \<mapsto> s)"
    "tn_totals s = zero_totals" by metis
  note d = store_invD [OF started.prems(1)]
  have new: "tr_spans (tl_st l) ?n = None" using d(1) by simp
  have nr: "?n \<notin> tl_rolled l" using d(3) [of ?n] new by (auto simp: ended_at_def)
  have k: "kids ?l i = kids l i" for i using s(1) nr by (auto simp: kids_def)
  have z: "kids l ?n = {}" using d(1) d(2) by (force simp: kids_def)
  have "part_of ?l j = part_of l j" if "j \<in> tl_rolled l" for j using that nr s(1) by (auto simp: part_of_def)
  then have "tot.F (part_of ?l) (kids ?l i) = tot.F (part_of l) (kids l i)" for i
    unfolding k by (intro tot.cong) (auto simp: kids_def)
  then show ?case using started.prems(2) s z unfolding sums_inv_def by auto
next
  case (filled l i s p)
  show ?case by (rule changed_span [where s' = "s\<lparr>tn_payload := p\<rparr>", OF filled.hyps(1)])
    (use filled.prems filled.hyps rolled_ended [OF filled.prems(1)] in auto)
next
  case (attrs l as i)
  show ?case
  proof (cases "tr_spans (tl_st l) i")
    case (Some s)
    show ?thesis by (rule changed_span [where s' = "s\<lparr>tn_attrs := tn_attrs s @ as\<rparr>", OF Some])
      (use attrs.prems Some in \<open>simp_all add: SetAttributes_def totalsLocked_def\<close>)
  qed (use attrs.prems in \<open>simp add: SetAttributes_def\<close>)
next
  case (event l name now as i)
  show ?case
  proof (cases "tr_spans (tl_st l) i")
    case (Some s)
    show ?thesis by (rule changed_span [where s' = "s\<lparr>tn_events := tn_events s @ [(name, now, as)]\<rparr>", OF Some])
      (use event.prems Some in \<open>simp_all add: AddEvent_def totalsLocked_def\<close>)
  qed (use event.prems in \<open>simp add: AddEvent_def\<close>)
next
  case (marked now e i l st)
  then obtain s where s: "tr_spans (tl_st l) i = Some s" "\<not> tn_ended s"
    "st = (tl_st l)\<lparr>tr_spans := (tr_spans (tl_st l))(i \<mapsto> s\<lparr>tn_ended := True, tn_end := now, tn_err := e\<rparr>)\<rparr>"
    by (auto simp: End_mark_def split: option.splits if_splits)
  show ?case by (rule changed_span [where s' = "s\<lparr>tn_ended := True, tn_end := now, tn_err := e\<rparr>", OF s(1)])
    (use marked.prems s rolled_ended [OF marked.prems(1) _ s(1)] in auto)
next
  case (rolled i l)
  let ?l = "l\<lparr>tl_st := End_rest i (tl_st l), tl_pending := tl_pending l - {i},
      tl_rolled := (if parent_open (tl_st l) i then insert i (tl_rolled l) else tl_rolled l)\<rparr>"
  note d = store_invD [OF rolled.prems(1)]
  obtain c where c: "tr_spans (tl_st l) i = Some c" "tn_ended c"
    using d(3) [of i] rolled.hyps by (auto simp: ended_at_def split: option.splits)
  note e = End_rest_spans [of "tl_st l", OF c(1)]
  show ?case
  proof (cases "parent_open (tl_st l) i")
    case False
    have "kids ?l j = kids l j" "part_of ?l = part_of l" for j using e(1) False by (auto simp: kids_def part_of_def)
    then show ?thesis using rolled.prems(2) e(1) False by (simp add: sums_inv_def)
  next
    case True
    then obtain p s where p: "tn_parent c = Some p" "tr_spans (tl_st l) p = Some s" "\<not> tn_ended s"
      using c by (auto simp: parent_open_def span_at_def split: option.splits)
    have pi: "p \<noteq> i" using d(2) [OF c(1) p(1)] by simp
    have st: "tr_spans (tl_st ?l) = (tr_spans (tl_st l))(p \<mapsto> addChild c s)" using e(1) True p by simp
    have par: "tn_parent (addChild c s) = tn_parent s" by (simp add: addChild_def)
    have kp: "kids ?l j = (if j = p then insert i (kids l p) else kids l j)" for j
      using st par p c pi True by (auto simp: kids_def split: if_splits)
    have pr: "p \<notin> tl_rolled l" using rolled_ended [OF rolled.prems(1) _ p(2)] p(3) by auto
    have pt: "part_of ?l j = part_of l j" if "j \<noteq> p" for j using st that by (simp add: part_of_def)
    have same: "tot.F (part_of ?l) (kids l j) = tot.F (part_of l) (kids l j)" for j
    proof (rule tot.cong [OF refl])
      fix x assume "x \<in> kids l j"
      then have "x \<noteq> p" using pr by (auto simp: kids_def)
      then show "part_of ?l x = part_of l x" by (rule pt)
    qed
    have ni: "i \<notin> kids l p" using d(4) rolled.hyps by (auto simp: kids_def)
    have "tn_totals (addChild c s) = totals_add (tn_totals s) (totalsLocked c)" using addChild_totals [OF c(2) p(3)] by simp
    also have "\<dots> = totals_add (totalsLocked c) (tot.F (part_of l) (kids l p))"
      using rolled.prems(2) p(2) by (simp add: sums_inv_def totals_add_comm)
    also have "\<dots> = tot.F (part_of ?l) (insert i (kids l p))"
      using tot.insert [OF kids_finite [OF rolled.prems(1)] ni, of "part_of ?l"] pt [of i] pi c(1) same by (simp add: part_of_def)
    finally have "tn_totals (addChild c s) = tot.F (part_of ?l) (kids ?l p)" by (simp add: kp)
    moreover have "tn_totals x = tot.F (part_of ?l) (kids ?l j)" if "tr_spans (tl_st l) j = Some x" "j \<noteq> p" for j x
      using rolled.prems(2) that kp [of j] same [of j] by (simp add: sums_inv_def)
    ultimately show ?thesis unfolding sums_inv_def st by (auto split: if_splits)
  qed
next
  case (stopped l p)
  have "kids (l\<lparr>tl_st := Shutdown_provider p (tl_st l)\<rparr>) i = kids l i" "part_of (l\<lparr>tl_st := Shutdown_provider p (tl_st l)\<rparr>) = part_of l" for i
    by (auto simp: kids_def part_of_def Shutdown_provider_def)
  then show ?case using stopped.prems by (simp add: sums_inv_def Shutdown_provider_def)
qed

lemma trace_reach_inv: "trace_reach l \<Longrightarrow> store_inv l \<and> sums_inv l"
proof (induction rule: trace_reach.induct)
  case (birth ps)
  show ?case by (simp add: trace_birth_def store_inv_def sums_inv_def)
next
  case (later l l')
  then show ?case using trace_step_store trace_step_sums by blast
qed

subsection \<open>What is counted\<close>

text \<open>The spans whose contribution has reached a span: itself, and those rolled up into one that is counted.\<close>

inductive counted :: "trace_life \<Rightarrow> nat \<Rightarrow> nat \<Rightarrow> bool" for l :: trace_life and i :: nat where
  self: "tr_spans (tl_st l) i \<noteq> None \<Longrightarrow> counted l i i"
| below: "counted l i p \<Longrightarrow> j \<in> kids l p \<Longrightarrow> counted l i j"

lemma kids_parent: "j \<in> kids l p \<Longrightarrow> j \<in> kids l q \<Longrightarrow> p = q"
  by (auto simp: kids_def)

lemma kids_less: "store_inv l \<Longrightarrow> j \<in> kids l p \<Longrightarrow> p < j"
  using store_invD(2) by (auto simp: kids_def)

lemma counted_le: "counted l i j \<Longrightarrow> store_inv l \<Longrightarrow> i \<le> j \<and> j < tr_next (tl_st l)"
proof (induction rule: counted.induct)
  case self
  then show ?case using store_invD(1) [OF self(2), of i] by (auto simp: not_le [symmetric])
next
  case (below p j)
  then have "p < j" "tr_spans (tl_st l) j \<noteq> None" using kids_less by (auto simp: kids_def)
  then show ?case using below store_invD(1) [OF below.prems, of j] by (auto simp: not_le [symmetric])
qed

lemma counted_exists: "counted l i j \<Longrightarrow> tr_spans (tl_st l) j \<noteq> None"
  by (induction rule: counted.induct) (auto simp: kids_def)

lemma counted_trans: "counted l c j \<Longrightarrow> counted l i c \<Longrightarrow> counted l i j"
  by (induction rule: counted.induct) (auto intro: counted.below)

lemma counted_first: "counted l i j \<Longrightarrow> j = i \<or> (\<exists>c \<in> kids l i. counted l c j)"
proof (induction rule: counted.induct)
  case (below p j)
  then show ?case
  proof (cases "p = i")
    case True
    have "tr_spans (tl_st l) j \<noteq> None" using below.hyps(2) by (auto simp: kids_def)
    then show ?thesis using below.hyps(2) True counted.self by blast
  next
    case False
    then show ?thesis using below counted.below by blast
  qed
qed simp

lemma counted_linear: "counted l c j \<Longrightarrow> counted l d j \<Longrightarrow> counted l c d \<or> counted l d c"
proof (induction rule: counted.induct)
  case (below p j)
  show ?case using below.prems
  proof (cases rule: counted.cases)
    case self
    then show ?thesis using below.hyps counted.below by blast
  next
    case (below q)
    then show ?thesis using kids_parent [OF below(2) \<open>j \<in> kids l p\<close>] \<open>counted l d p \<Longrightarrow> _\<close> by blast
  qed
qed simp

lemma counted_set:
  assumes "store_inv l" and "tr_spans (tl_st l) i \<noteq> None"
  shows "{j. counted l i j} = insert i (\<Union>c \<in> kids l i. {j. counted l c j})"
proof -
  have "counted l i j" if "c \<in> kids l i" "counted l c j" for c j
    by (rule counted_trans [OF that(2)], rule counted.below [OF counted.self [of l i, OF assms(2)] that(1)])
  moreover have "counted l i i" by (rule counted.self [OF assms(2)])
  moreover have "j = i \<or> (\<exists>c \<in> kids l i. counted l c j)" if "counted l i j" for j by (rule counted_first [OF that])
  ultimately show ?thesis by auto
qed

lemma counted_finite: "store_inv l \<Longrightarrow> finite {j. counted l i j}"
  by (rule finite_subset [of _ "{..< tr_next (tl_st l)}"]) (auto dest: counted_le)

lemma counted_disjoint:
  assumes inv: "store_inv l" and "c \<in> kids l i" "d \<in> kids l i" "c \<noteq> d"
  shows "{j. counted l c j} \<inter> {j. counted l d j} = {}"
proof -
  have no: False if "counted l x y" "x \<in> kids l i" "y \<in> kids l i" "x \<noteq> y" for x y
    using that(1)
  proof (cases rule: counted.cases)
    case (below p)
    then have "counted l x i" using kids_parent [OF below(2) that(3)] by simp
    then show False using counted_le [OF _ inv, of x i] kids_less [OF inv that(2)] by simp
  qed (use that in simp)
  show ?thesis
  proof (rule ccontr)
    assume "\<not> ?thesis"
    then obtain j where j: "counted l c j" "counted l d j" by auto
    show False
      using counted_linear [OF j] no [OF _ assms(2,3,4)] no [OF _ assms(3,2)] assms(4) by metis
  qed
qed

definition own_at :: "trace_life \<Rightarrow> nat \<Rightarrow> totals" where
  "own_at l j = (case tr_spans (tl_st l) j of None \<Rightarrow> zero_totals | Some s \<Rightarrow> own_of s)"

lemma totals_are_sums:
  assumes inv: "store_inv l" "sums_inv l"
  shows "tr_spans (tl_st l) i = Some s \<Longrightarrow> tn_ended s \<Longrightarrow> totalsLocked s = tot.F (own_at l) {j. counted l i j}"
proof (induction "tr_next (tl_st l) - i" arbitrary: i s rule: less_induct)
  case less
  let ?U = "\<Union>c \<in> kids l i. {j. counted l c j}"
  have lt: "i < tr_next (tl_st l)" using store_invD(1) [OF inv(1), of i] less.prems(1) by (auto simp: not_le [symmetric])
  have kid: "part_of l c = tot.F (own_at l) {j. counted l c j}" if c: "c \<in> kids l i" for c
  proof -
    obtain x where x: "tr_spans (tl_st l) c = Some x" "c \<in> tl_rolled l" using c by (auto simp: kids_def)
    have "tr_next (tl_st l) - c < tr_next (tl_st l) - i" using kids_less [OF inv(1) c] lt by simp
    from less.hyps [OF this x(1) rolled_ended [OF inv(1) x(2,1)]] show ?thesis by (simp add: part_of_def x(1))
  qed
  have notin: "i \<notin> ?U" using counted_le [OF _ inv(1)] kids_less [OF inv(1)] by force
  have fin: "finite ?U" using kids_finite [OF inv(1)] counted_finite [OF inv(1)] by blast
  have "totalsLocked s = totals_add (own_of s) (tot.F (part_of l) (kids l i))"
    using totalsLocked_ended [OF less.prems(2)] inv(2) less.prems(1) by (simp add: sums_inv_def)
  also have "tot.F (part_of l) (kids l i) = tot.F (\<lambda>c. tot.F (own_at l) {j. counted l c j}) (kids l i)"
    by (rule tot.cong [OF refl kid])
  also have "\<dots> = tot.F (own_at l) ?U"
    by (rule tot.UNION_disjoint [symmetric])
      (use kids_finite [OF inv(1)] counted_finite [OF inv(1)] counted_disjoint [OF inv(1)] in auto)
  also have "totals_add (own_of s) \<dots> = tot.F (own_at l) (insert i ?U)"
    using tot.insert [OF fin notin, of "own_at l"] less.prems(1) by (simp add: own_at_def)
  finally show ?case using counted_set [OF inv(1), of i] less.prems(1) by simp
qed


lemma tot_hom:
  assumes fin: "finite A" and "h zero_totals = (0::int)" and "\<And>t u. h (totals_add t u) = h t + h u"
  shows "h (tot.F g A) = (\<Sum>j \<in> A. h (g j))"
  using fin by induction (simp_all add: assms)

text \<open>The spans of a kind among those counted, and how often each number of the totals goes up.\<close>

definition counted_with :: "(tspan \<Rightarrow> bool) \<Rightarrow> trace_life \<Rightarrow> nat \<Rightarrow> nat set" where
  "counted_with P l i = {j. counted l i j \<and> (case tr_spans (tl_st l) j of None \<Rightarrow> False | Some s \<Rightarrow> P s)}"

definition is_llm :: "tspan \<Rightarrow> bool" where "is_llm s \<longleftrightarrow> (case tn_payload s of PLLM c \<Rightarrow> True | _ \<Rightarrow> False)"
definition is_tool :: "tspan \<Rightarrow> bool" where "is_tool s \<longleftrightarrow> (case tn_payload s of PTool c \<Rightarrow> True | _ \<Rightarrow> False)"
definition is_run :: "tspan \<Rightarrow> bool" where "is_run s \<longleftrightarrow> (case tn_payload s of PRun r x y \<Rightarrow> True | _ \<Rightarrow> False)"

lemma own_counts:
  "to_llm_calls (own_of s) = of_bool (is_llm s)" "to_tool_calls (own_of s) = of_bool (is_tool s)"
  "to_agent_runs (own_of s) = of_bool (is_run s)" "to_tool_errors (own_of s) = of_bool (is_tool s \<and> tn_err s \<noteq> None)"
  by (auto simp: own_of_def addOwn_def zero_totals_def is_llm_def is_tool_def is_run_def Let_def split: span_payload.splits memory_op.splits)

lemma counted_sum:
  assumes "store_inv l" "h zero_totals = (0::int)" "\<And>t u. h (totals_add t u) = h t + h u" "\<And>s. h (own_of s) = of_bool (P s)"
  shows "h (tot.F (own_at l) {j. counted l i j}) = int (card (counted_with P l i))"
proof -
  have "h (own_at l j) = of_bool (case tr_spans (tl_st l) j of None \<Rightarrow> False | Some s \<Rightarrow> P s)" for j
    using assms(2,4) by (simp add: own_at_def split: option.splits)
  moreover have "counted_with P l i = {j. counted l i j} \<inter> {j. case tr_spans (tl_st l) j of None \<Rightarrow> False | Some s \<Rightarrow> P s}"
    by (auto simp: counted_with_def)
  ultimately show ?thesis
    using tot_hom [where g = "own_at l" and h = h and A = "{j. counted l i j}", OF counted_finite [OF assms(1)] assms(2,3)] counted_finite [OF assms(1)]
    by (simp add: sum_of_bool_eq)
qed

subsection \<open>Property\<close>

text \<open>C39: In every state spans can reach, whatever the order in which they start and end, the totals of an ended span are the sum of the own contributions of itself and of the spans rolled up into it, directly or through others, each counted exactly once: the LLM calls, tool calls, tool errors and runs reported are the numbers of those spans, and the run summary reports the same numbers.\<close>

theorem totals_count_each_span_once:
  assumes "trace_reach l" and "tr_spans (tl_st l) i = Some s" and "tn_ended s"
  shows "totalsLocked s = tot.F (own_at l) {j. counted l i j} \<and> finite {j. counted l i j} \<and> counted l i i \<and>
    to_llm_calls (totalsLocked s) = int (card (counted_with is_llm l i)) \<and>
    to_tool_calls (totalsLocked s) = int (card (counted_with is_tool l i)) \<and>
    to_agent_runs (totalsLocked s) = int (card (counted_with is_run l i)) \<and>
    to_tool_errors (totalsLocked s) = int (card (counted_with (\<lambda>x. is_tool x \<and> tn_err x \<noteq> None) l i)) \<and>
    (case NewRunSummary now names (Some s) of
       None \<Rightarrow> \<not> is_run s
     | Some u \<Rightarrow> is_run s \<and> su_llm_calls u = int (card (counted_with is_llm l i)) \<and> su_tool_calls u = int (card (counted_with is_tool l i)))"
proof -
  from trace_reach_inv [OF assms(1)] have inv: "store_inv l" "sums_inv l" by auto
  note eq = totals_are_sums [OF inv assms(2,3)]
  have c: "to_llm_calls (totalsLocked s) = int (card (counted_with is_llm l i))"
    "to_tool_calls (totalsLocked s) = int (card (counted_with is_tool l i))"
    "to_agent_runs (totalsLocked s) = int (card (counted_with is_run l i))"
    "to_tool_errors (totalsLocked s) = int (card (counted_with (\<lambda>x. is_tool x \<and> tn_err x \<noteq> None) l i))"
    unfolding eq by (rule counted_sum [OF inv(1)]; simp add: own_counts zero_totals_def totals_add_def)+
  have "case NewRunSummary now names (Some s) of
       None \<Rightarrow> \<not> is_run s
     | Some u \<Rightarrow> is_run s \<and> su_llm_calls u = to_llm_calls (totalsLocked s) \<and> su_tool_calls u = to_tool_calls (totalsLocked s)"
    by (simp add: NewRunSummary_def is_run_def Let_def split: span_payload.splits)
  then show ?thesis using eq c counted_finite [OF inv(1)] counted.self [of l i] assms(2) by (simp split: option.splits)
qed


text \<open>A run with one LLM call, which ends before it.\<close>

definition demo_run :: span_payload where
  "demo_run = PRun \<lparr>rp_agent = ''bot'', rp_description = [], rp_input = [], rp_output = [], rp_iterations = 1, rp_max_iterations = 5,
     rp_stop_reason = StopFinal, rp_handoffs = []\<rparr> ''s1'' 0"

definition demo_llm :: span_payload where
  "demo_llm = PLLM \<lparr>lc_provider = ''p'', lc_request_model = ''m'', lc_response_model = [], lc_iteration = 1, lc_message_offset = 0,
     lc_messages = [], lc_tools = [], lc_response_format = [], lc_response = None, lc_usage = None, lc_finish = [], lc_raw_finish = [],
     lc_streaming = False\<rparr>"

definition demo_draw :: "string \<times> string" where "demo_draw = (replicate 16 (CHR ''a''), replicate 8 (CHR ''b''))"
definition demo_provider :: provider where "demo_provider = \<lparr>pv_processors = 0, pv_ids = None, pv_attrs = [], pv_stopped = False\<rparr>"

definition demo_start :: "string \<Rightarrow> span_payload \<Rightarrow> trace_ctx \<Rightarrow> trace_life \<Rightarrow> trace_life" where
  "demo_start name p ctx l = l\<lparr>tl_st := snd (Start_span demo_draw 1 [] name (Some p) ctx (tl_st l))\<rparr>"
definition demo_mark :: "nat \<Rightarrow> trace_life \<Rightarrow> trace_life" where
  "demo_mark i l = l\<lparr>tl_st := the (End_mark 5 None i (tl_st l)), tl_pending := insert i (tl_pending l)\<rparr>"
definition demo_rest :: "nat \<Rightarrow> trace_life \<Rightarrow> trace_life" where
  "demo_rest i l = l\<lparr>tl_st := End_rest i (tl_st l), tl_pending := tl_pending l - {i},
     tl_rolled := (if parent_open (tl_st l) i then insert i (tl_rolled l) else tl_rolled l)\<rparr>"

definition demo_before :: trace_life where
  "demo_before = demo_start ''llm'' demo_llm (background\<lparr>tx_span := Some 0\<rparr>)
     (demo_start ''agent'' demo_run background (trace_birth (\<lambda>_. demo_provider)))"
definition demo_life :: trace_life where "demo_life = demo_mark 0 (demo_rest 1 (demo_mark 1 demo_before))"

lemmas demo_trace_defs = demo_life_def demo_before_def demo_start_def demo_mark_def demo_rest_def demo_run_def demo_llm_def demo_provider_def
  Start_span_def new_span_def background_def trace_birth_def span_at_def notify_def recording_def End_mark_def End_rest_def
  parent_open_def addChild_def

lemma demo_reach: "trace_reach demo_life"
proof -
  have start: "trace_step l (demo_start name p ctx l)" for name p ctx l
    unfolding demo_start_def by (rule started [where ctx' = "fst (Start_span demo_draw 1 [] name (Some p) ctx (tl_st l))"]) simp
  have b: "trace_reach demo_before" unfolding demo_before_def by (intro later [OF later [OF birth start] start])
  have "tr_spans (tl_st demo_before) 1 \<noteq> None \<and> \<not> tn_ended (the (tr_spans (tl_st demo_before) 1))"
    by (simp add: demo_trace_defs Let_def)
  then have m: "trace_step demo_before (demo_mark 1 demo_before)"
    unfolding demo_mark_def by (intro marked) (auto simp: End_mark_def)
  have r: "trace_step (demo_mark 1 demo_before) (demo_rest 1 (demo_mark 1 demo_before))"
    unfolding demo_rest_def by (rule rolled) (simp add: demo_mark_def)
  have "tr_spans (tl_st (demo_rest 1 (demo_mark 1 demo_before))) 0 \<noteq> None \<and> \<not> tn_ended (the (tr_spans (tl_st (demo_rest 1 (demo_mark 1 demo_before))) 0))"
    by (simp add: demo_trace_defs Let_def)
  then have "trace_step (demo_rest 1 (demo_mark 1 demo_before)) demo_life"
    unfolding demo_life_def demo_mark_def [of 0] by (intro marked) (auto simp: End_mark_def)
  with later [OF later [OF b m] r] show ?thesis by (rule later)
qed

lemma demo_spans:
  "\<exists>s. tr_spans (tl_st demo_life) 0 = Some s \<and> tn_ended s \<and> to_llm_calls (totalsLocked s) = 1 \<and> is_run s"
  by (simp add: demo_trace_defs Let_def totalsLocked_def addOwn_def totals_add_def zero_totals_def is_run_def)

theorem totals_count_each_span_once_witness:
  "\<exists>s. tr_spans (tl_st demo_life) 0 = Some s \<and> to_llm_calls (totalsLocked s) = 1 \<and> card (counted_with is_llm demo_life 0) = 1"
proof -
  from demo_spans obtain s where s: "tr_spans (tl_st demo_life) 0 = Some s" "tn_ended s" "to_llm_calls (totalsLocked s) = 1" by blast
  from totals_count_each_span_once [OF demo_reach s(1,2)] have "to_llm_calls (totalsLocked s) = int (card (counted_with is_llm demo_life 0))" by blast
  then show ?thesis using s by simp
qed

end
