(* ===== verification/Trace_Instrument.thy ===== *)
theory Trace_Instrument
  imports Trace_Correct
begin

section \<open>Instrumented models\<close>

text \<open>
  \<open>trace/llm.go\<close>, and \<open>PayloadFrom\<close> of \<open>span.go\<close>. The searches go up the chain of parents; they are partial
  functions, which return in every reachable store (\<open>searches_return\<close>). A model is a function of the context, the
  messages, the options and the store. That wrapping a model twice is wrapping it once is
  \<open>instrumented_once\<close>.
\<close>

subsection \<open>Up the parents\<close>

partial_function (option) inLLMCall :: "traces \<Rightarrow> nat option \<Rightarrow> bool option" where
  "inLLMCall st i =
     (case span_at st i of
        None \<Rightarrow> Some False
      | Some s \<Rightarrow>
          (case tn_payload s of
             PLLM c \<Rightarrow> Some True
           | PMiddleware m \<Rightarrow> inLLMCall st (tn_parent s)
           | _ \<Rightarrow> Some False))"

text \<open>\<open>sel\<close> is the type assertion to \<open>T\<close>.\<close>

partial_function (option) PayloadFrom :: "(span_payload \<Rightarrow> 'a option) \<Rightarrow> traces \<Rightarrow> nat option \<Rightarrow> 'a option option" where
  "PayloadFrom sel st i =
     (case span_at st i of
        None \<Rightarrow> Some None
      | Some s \<Rightarrow> (case sel (tn_payload s) of Some p \<Rightarrow> Some (Some p) | None \<Rightarrow> PayloadFrom sel st (tn_parent s)))"

subsection \<open>InstrumentLLM\<close>

type_synonym 'w traced_llm =
  "trace_ctx \<Rightarrow> message list \<Rightarrow> 'w call_option option list \<Rightarrow> traces \<Rightarrow> (llm_result option \<times> err option) \<times> traces"

definition instrument_call :: "(string \<times> string) option \<Rightarrow> message list \<Rightarrow> 'w call_option option list \<Rightarrow> llm_call" where
  "instrument_call describer ms os =
     (let (prov, model) = (case describer of None \<Rightarrow> ([], []) | Some d \<Rightarrow> d);
          cfg = NewCallConfig os
      in \<lparr>lc_provider = prov, lc_request_model = model, lc_response_model = [], lc_iteration = 0, lc_message_offset = 0,
          lc_messages = ms, lc_tools = map (\<lambda>t. (tool_name t, tool_description t, InputSchema t)) (cc_tools cfg),
          lc_response_format = (case cc_response_format cfg of None \<Rightarrow> [] | Some f \<Rightarrow> rf_name f),
          lc_response = None, lc_usage = None, lc_finish = [], lc_raw_finish = [], lc_streaming = False\<rparr>)"

definition kind_llm :: string where "kind_llm = ''chat''"

definition instrument_name :: "llm_call \<Rightarrow> string" where
  "instrument_name c = (if lc_request_model c \<noteq> [] then kind_llm @ '' '' @ lc_request_model c else kind_llm)"

text \<open>\<open>call.SetResult\<close> changes the call the span points to.\<close>

definition fill_call :: "llm_result option \<Rightarrow> nat \<Rightarrow> traces \<Rightarrow> traces" where
  "fill_call res i st =
     (case tr_spans st i of
        None \<Rightarrow> st
      | Some s \<Rightarrow>
          (case tn_payload s of
             PLLM c \<Rightarrow> st\<lparr>tr_spans := (tr_spans st)(i \<mapsto> s\<lparr>tn_payload := PLLM (SetResult res c)\<rparr>)\<rparr>
           | _ \<Rightarrow> st))"

definition End_span :: "int \<Rightarrow> err option \<Rightarrow> nat \<Rightarrow> traces \<Rightarrow> traces" where
  "End_span now e i st = (case End_mark now e i st of None \<Rightarrow> st | Some st' \<Rightarrow> End_rest i st')"

text \<open>\<open>draw\<close>, \<open>t0\<close> and \<open>t1\<close> are the identifiers and the times of the span. A search that does not end is \<open>None\<close>.\<close>

definition instrumented_Execute ::
  "string \<times> string \<Rightarrow> int \<Rightarrow> int \<Rightarrow> (string \<times> string) option \<Rightarrow> 'w traced_llm \<Rightarrow> trace_ctx \<Rightarrow> message list \<Rightarrow>
     'w call_option option list \<Rightarrow> traces \<Rightarrow> ((llm_result option \<times> err option) \<times> traces) option" where
  "instrumented_Execute draw t0 t1 describer inner ctx ms os st =
     (case inLLMCall st (tx_span ctx) of
        None \<Rightarrow> None
      | Some True \<Rightarrow> Some (inner ctx ms os st)
      | Some False \<Rightarrow>
          (let call = instrument_call describer ms os;
               (ctx', st1) = Start_span draw t0 [] (instrument_name call) (Some (PLLM call)) ctx st;
               i = tr_next st;
               ((res, e), st2) = inner ctx' ms os st1
           in Some ((res, e), End_span t1 e i (fill_call res i st2))))"

text \<open>The wrapped client as a model again.\<close>

definition as_llm :: "('a \<Rightarrow> 'b \<Rightarrow> 'c \<Rightarrow> 'd \<Rightarrow> 'e option) \<Rightarrow> 'a \<Rightarrow> 'b \<Rightarrow> 'c \<Rightarrow> 'd \<Rightarrow> 'e" where
  "as_llm f a b c d = the (f a b c d)"

subsection \<open>The searches return\<close>

lemma store_parent: "store_inv l \<Longrightarrow> span_at (tl_st l) i = Some s \<Longrightarrow> tn_parent s = Some p \<Longrightarrow> p < the i"
  using store_invD(2) [of l] by (auto simp: span_at_def split: option.splits)

lemma search_returns:
  assumes inv: "store_inv l" and step: "\<And>i s. span_at (tl_st l) i = Some s \<Longrightarrow> f i = None \<Longrightarrow> f (tn_parent s) = None"
    and stop: "\<And>i. span_at (tl_st l) i = None \<Longrightarrow> f i \<noteq> None"
  shows "f i \<noteq> None"
proof (cases i)
  case None
  then show ?thesis using stop by (simp add: span_at_def)
next
  case (Some n)
  have "f (Some n) \<noteq> None" for n
  proof (induction n rule: less_induct)
    case (less n)
    show ?case
    proof (cases "span_at (tl_st l) (Some n)")
      case (Some s)
      show ?thesis
      proof (cases "tn_parent s")
        case None
        then show ?thesis using step [OF Some] stop [of None] by (auto simp: span_at_def)
      next
        case (Some p)
        have "p < n" using store_parent [OF inv \<open>span_at _ _ = Some s\<close> Some] by simp
        then have "f (Some p) \<noteq> None" by (rule less)
        then show ?thesis using step [OF \<open>span_at _ _ = Some s\<close>] Some by metis
      qed
    qed (rule stop)
  qed
  then show ?thesis using Some by simp
qed

lemma searches_return_inv:
  assumes "store_inv l"
  shows "inLLMCall (tl_st l) i \<noteq> None" and "PayloadFrom sel (tl_st l) i \<noteq> None"
proof -
  show "inLLMCall (tl_st l) i \<noteq> None"
  proof (rule search_returns [OF assms])
    fix i s assume "span_at (tl_st l) i = Some s" "inLLMCall (tl_st l) i = None"
    then show "inLLMCall (tl_st l) (tn_parent s) = None" by (subst (asm) inLLMCall.simps) (simp split: span_payload.splits)
  qed (subst inLLMCall.simps, simp)
  show "PayloadFrom sel (tl_st l) i \<noteq> None"
  proof (rule search_returns [OF assms])
    fix i s assume "span_at (tl_st l) i = Some s" "PayloadFrom sel (tl_st l) i = None"
    then show "PayloadFrom sel (tl_st l) (tn_parent s) = None" by (subst (asm) PayloadFrom.simps) (simp split: option.splits)
  qed (subst PayloadFrom.simps, simp)
qed

subsection \<open>Properties\<close>

text \<open>In every reachable store the searches up the parents return: \<open>inLLMCall\<close> decides, and \<open>PayloadFrom\<close> finds a payload or none.\<close>

theorem searches_return:
  assumes "trace_reach l"
  shows "\<exists>b p. inLLMCall (tl_st l) i = Some b \<and> PayloadFrom sel (tl_st l) i = Some p"
  using searches_return_inv [of l] trace_reach_inv [OF assms] by (metis not_Some_eq)

theorem searches_return_witness: "\<exists>b p. inLLMCall (tl_st demo_life) (Some 1) = Some b \<and> PayloadFrom (\<lambda>p. Some p) (tl_st demo_life) (Some 1) = Some p"
  by (rule searches_return [OF demo_reach])

lemma Start_llm:
  assumes "Start_span draw t0 links name (Some (PLLM c)) ctx st = (ctx', st')"
  shows "inLLMCall st' (tx_span ctx') = Some True"
proof -
  have "tx_span ctx' = Some (tr_next st)" "\<exists>s. tr_spans st' (tr_next st) = Some s \<and> tn_payload s = PLLM c"
    using assms by (auto simp: Start_span_def new_span_def Let_def)
  then show ?thesis by (subst inLLMCall.simps) (auto simp: span_at_def)
qed

text \<open>Wrapping a client twice is wrapping it once: the call of the inner wrapper runs inside the span of the outer one, or of the agent, and starts none, so a client shared between agents and direct calls is counted once.\<close>

theorem instrumented_once:
  "instrumented_Execute draw t0 t1 describer (as_llm (instrumented_Execute draw' t0' t1' describer' inner)) ctx ms os st =
   instrumented_Execute draw t0 t1 describer inner ctx ms os st"
proof (cases "inLLMCall st (tx_span ctx)")
  case (Some b)
  show ?thesis
  proof (cases b)
    case True
    then show ?thesis using Some by (simp add: instrumented_Execute_def as_llm_def)
  next
    case False
    let ?call = "instrument_call describer ms os"
    obtain ctx' st1 where s: "Start_span draw t0 [] (instrument_name ?call) (Some (PLLM ?call)) ctx st = (ctx', st1)" by fastforce
    have "as_llm (instrumented_Execute draw' t0' t1' describer' inner) ctx' ms os st1 = inner ctx' ms os st1"
      using Start_llm [OF s] by (simp add: instrumented_Execute_def [of draw'] as_llm_def)
    then show ?thesis using Some False s by (simp add: instrumented_Execute_def [of draw] Let_def)
  qed
qed (simp add: instrumented_Execute_def)

end
