(* ===== verification/Trace_Content.thy ===== *)
theory Trace_Content
  imports Trace_Spans
begin

section \<open>What of a payload reaches a processor\<close>

text \<open>
  \<open>trace/content.go\<close>: the policy that clears, truncates or summarizes the content of payloads before a
  processor gets them, and \<open>Redact\<close>. SHA-256 in hexadecimal is an argument. A payload is a value, so the copy that
  \<open>clone\<close> makes is the value itself. Without capture what a processor gets does not depend on any content
  (\<open>uncaptured_content_hidden\<close>); with it strings are cut between characters.
\<close>

record content_policy =
  po_capture :: bool
  po_max_bytes :: int
  po_binary :: bool

definition truncationMark :: string where "truncationMark = [CHR 0xE2, CHR 0x80, CHR 0xA6]"

text \<open>The loop that looks for the start of a character.\<close>

fun cut_back :: "string \<Rightarrow> nat \<Rightarrow> nat" where
  "cut_back s 0 = 0"
| "cut_back s (Suc n) = (if \<not> rune_start (s ! Suc n) then cut_back s n else Suc n)"

definition po_truncate :: "content_policy \<Rightarrow> string \<Rightarrow> string" where
  "po_truncate p s =
     (if po_max_bytes p \<le> 0 \<or> int (length s) \<le> po_max_bytes p then s
      else take (cut_back s (nat (po_max_bytes p))) s @ truncationMark)"

definition po_str :: "content_policy \<Rightarrow> string \<Rightarrow> string" where
  "po_str p s = (if \<not> po_capture p then [] else po_truncate p s)"

text \<open>\<open>base64.StdEncoding.DecodedLen\<close>.\<close>

definition decoded_len :: "nat \<Rightarrow> nat" where "decoded_len n = n div 4 * 3"

definition binarySummary :: "(string \<Rightarrow> string) \<Rightarrow> content_part \<Rightarrow> content_part" where
  "binarySummary sha part =
     empty_part\<lparr>cp_type := ContentTypeText, cp_mime_type := cp_mime_type part,
       cp_text := ''['' @ cp_type part @ '' '' @ cp_mime_type part @ '' ~'' @ go_itoa (int (decoded_len (length (cp_image_base64 part)))) @
         '' bytes sha256:'' @ sha (cp_image_base64 part) @ '']''\<rparr>"

definition po_part :: "(string \<Rightarrow> string) \<Rightarrow> content_policy \<Rightarrow> content_part \<Rightarrow> content_part" where
  "po_part sha p part =
     (if cp_type part = ContentTypeImageBase64 then (if \<not> po_binary p then binarySummary sha part else part)
      else if cp_type part = ContentTypeImageURL then part\<lparr>cp_image_url := po_truncate p (cp_image_url part)\<rparr>
      else part\<lparr>cp_text := po_truncate p (cp_text part)\<rparr>)"

definition po_parts :: "(string \<Rightarrow> string) \<Rightarrow> content_policy \<Rightarrow> content_part list \<Rightarrow> content_part list" where
  "po_parts sha p ps = (if \<not> po_capture p \<or> ps = [] then [] else map (po_part sha p) ps)"

definition po_message :: "(string \<Rightarrow> string) \<Rightarrow> content_policy \<Rightarrow> message \<Rightarrow> message" where
  "po_message sha p m =
     m\<lparr>parts := po_parts sha p (parts m),
       tool_calls := map (\<lambda>tc. tc\<lparr>tc_function := (tc_function tc)\<lparr>fc_arguments := po_str p (fc_arguments (tc_function tc))\<rparr>\<rparr>) (tool_calls m)\<rparr>"

definition po_messages :: "(string \<Rightarrow> string) \<Rightarrow> content_policy \<Rightarrow> message list \<Rightarrow> message list" where
  "po_messages sha p ms = (if \<not> po_capture p \<or> ms = [] then [] else map (po_message sha p) ms)"

fun applyContent :: "(string \<Rightarrow> string) \<Rightarrow> content_policy \<Rightarrow> span_payload \<Rightarrow> span_payload" where
  "applyContent sha p (PRun r s t) = PRun (r\<lparr>rp_input := po_parts sha p (rp_input r), rp_output := po_parts sha p (rp_output r)\<rparr>) s t"
| "applyContent sha p (PLLM c) =
     PLLM (c\<lparr>lc_messages := po_messages sha p (lc_messages c),
       lc_response := (case lc_response c of None \<Rightarrow> None | Some m \<Rightarrow> if \<not> po_capture p then None else Some (po_message sha p m))\<rparr>)"
| "applyContent sha p (PTool t) = PTool (t\<lparr>tp_arguments := po_str p (tp_arguments t), tp_result := po_str p (tp_result t)\<rparr>)"
| "applyContent sha p (PHandoff h) = PHandoff (h\<lparr>hf_context := po_str p (hf_context h)\<rparr>)"
| "applyContent sha p (PMemory m) = PMemory (m\<lparr>mp_query := po_str p (mp_query m), mp_messages := po_messages sha p (mp_messages m)\<rparr>)"
| "applyContent sha p (PRetrieval r) =
     PRetrieval (r\<lparr>rv_query := po_str p (rv_query r),
       rv_hits := map (\<lambda>h. h\<lparr>ht_content := po_str p (ht_content h),
         ht_metadata := (if \<not> po_capture p then (\<lambda>_. None) else ht_metadata h)\<rparr>) (rv_hits r)\<rparr>)"
| "applyContent sha p (PEmbedding e) = PEmbedding e"
| "applyContent sha p (PMiddleware m) = PMiddleware m"
| "applyContent sha p (PCustom c) = PCustom c"

text \<open>The processors \<open>Content\<close> and \<open>Redact\<close>: what the next one gets at the start and at the end of a span.\<close>

type_synonym data_filter = "bool \<Rightarrow> span_data \<Rightarrow> span_data"

definition content_processor :: "(string \<Rightarrow> string) \<Rightarrow> content_policy \<Rightarrow> data_filter" where
  "content_processor sha p ended d = d\<lparr>sd_span := (sd_span d)\<lparr>tn_payload := applyContent sha p (tn_payload (sd_span d))\<rparr>\<rparr>"

definition redact_processor :: "(span_data \<Rightarrow> span_data) \<Rightarrow> data_filter" where
  "redact_processor fn ended d = (if ended then fn d else d)"

subsection \<open>Cutting\<close>

lemma cut_back_le: "cut_back s n \<le> n"
  by (induction n) auto

lemma cut_back_start: "cut_back s n = 0 \<or> rune_start (s ! cut_back s n)"
  by (induction n) auto

lemma cut_back_max: "cut_back s n < i \<Longrightarrow> i \<le> n \<Longrightarrow> \<not> rune_start (s ! i)"
  by (induction n) (auto simp: le_Suc_eq split: if_splits)

lemma po_truncate_short: "int (length s) \<le> po_max_bytes p \<Longrightarrow> po_truncate p s = s" "po_max_bytes p \<le> 0 \<Longrightarrow> po_truncate p s = s"
  by (simp_all add: po_truncate_def)

subsection \<open>The parts of a payload that are content\<close>

text \<open>The payload with its content taken out, which the policy has no say in.\<close>

fun outline :: "span_payload \<Rightarrow> span_payload" where
  "outline (PRun r s t) = PRun (r\<lparr>rp_input := [], rp_output := []\<rparr>) s t"
| "outline (PLLM c) = PLLM (c\<lparr>lc_messages := [], lc_response := None\<rparr>)"
| "outline (PTool t) = PTool (t\<lparr>tp_arguments := [], tp_result := []\<rparr>)"
| "outline (PHandoff h) = PHandoff (h\<lparr>hf_context := []\<rparr>)"
| "outline (PMemory m) = PMemory (m\<lparr>mp_query := [], mp_messages := []\<rparr>)"
| "outline (PRetrieval r) =
     PRetrieval (r\<lparr>rv_query := [], rv_hits := map (\<lambda>h. h\<lparr>ht_content := [], ht_metadata := (\<lambda>_. None)\<rparr>) (rv_hits r)\<rparr>)"
| "outline p = p"

lemma outline_apply: "outline (applyContent sha p x) = outline x"
  by (cases x) (simp_all add: comp_def)

lemma uncaptured_is_outline: "\<not> po_capture p \<Longrightarrow> applyContent sha p x = outline x"
  by (cases x) (auto simp: po_parts_def po_messages_def po_str_def split: option.splits)

lemma outline_kind [simp]: "payload_kind (outline x) = payload_kind x"
  by (cases x) simp_all

lemma outline_own: "addOwn (outline x) a d f t = addOwn x a d f t"
  by (cases x) (simp_all add: addOwn_def Let_def split: memory_op.splits)

lemma applyContent_own: "addOwn (applyContent sha p x) a d f t = addOwn x a d f t"
  using outline_own [of "applyContent sha p x" a d f t] outline_own [of x a d f t] by (simp add: outline_apply)

subsection \<open>Properties\<close>

text \<open>Without capture, two payloads that differ only in prompts, responses, tool arguments and results, handoff contexts, memory messages or what was retrieved reach a processor as the same payload: it cannot tell their content apart. Its kind and what it counts for in totals are those of the payload itself, with or without capture.\<close>

theorem uncaptured_content_hidden:
  "(if \<not> po_capture p \<and> outline x = outline y then applyContent sha p x = applyContent sha p y else True) \<and>
   payload_kind (applyContent sha p x) = payload_kind x \<and> addOwn (applyContent sha p x) a d f t = addOwn x a d f t"
proof -
  have "payload_kind (applyContent sha p x) = payload_kind x" by (cases x) simp_all
  then show ?thesis by (simp add: uncaptured_is_outline applyContent_own)
qed

text \<open>Truncation keeps a string that fits, and cuts any other before the start of a character, as late as the limit allows, with the mark behind: so at most three bytes more than the limit reach the processor.\<close>

theorem truncation_cuts_at_characters:
  assumes "0 < po_max_bytes p" and "po_max_bytes p < int (length s)"
  shows "\<exists>n. po_truncate p s = take n s @ truncationMark \<and> int n \<le> po_max_bytes p \<and> (n = 0 \<or> rune_start (s ! n)) \<and>
    list_all (\<lambda>i. \<not> rune_start (s ! i)) [Suc n ..< Suc (nat (po_max_bytes p))] \<and>
    int (length (po_truncate p s)) \<le> po_max_bytes p + 3"
proof -
  let ?m = "nat (po_max_bytes p)"
  let ?n = "cut_back s ?m"
  have 1: "po_truncate p s = take ?n s @ truncationMark" using assms by (simp add: po_truncate_def)
  have 2: "?n \<le> ?m" by (rule cut_back_le)
  have 3: "list_all (\<lambda>i. \<not> rune_start (s ! i)) [Suc ?n ..< Suc ?m]"
    unfolding list_all_iff by (intro ballI cut_back_max [of s ?m]) auto
  have 4: "int (length (po_truncate p s)) \<le> po_max_bytes p + 3" using 1 2 assms by (simp add: truncationMark_def)
  show ?thesis by (rule exI [of _ ?n]) (use 1 2 3 4 assms cut_back_start [of s ?m] in auto)
qed

definition demo_policy :: content_policy where "demo_policy = \<lparr>po_capture = True, po_max_bytes = 4, po_binary = False\<rparr>"

theorem truncation_cuts_at_characters_witness:
  "\<exists>n. po_truncate demo_policy ''hello'' = take n ''hello'' @ truncationMark \<and> int n \<le> 4"
  using truncation_cuts_at_characters [of demo_policy "''hello''"] by (auto simp: demo_policy_def)

text \<open>The error a span ended with, which for a failed tool call is its result, passes whatever the policy.\<close>

lemma error_passes_policy:
  "map_option (fst \<circ> snd) (sd_end (content_processor sha p ended d)) = map_option (fst \<circ> snd) (sd_end d)"
  by (simp add: content_processor_def)

text \<open>More than \<open>MaxBytes\<close> reaches the processor.\<close>

lemma truncated_string_too_long: "length (po_str demo_policy ''hello'') = 7"
  by (simp add: po_str_def po_truncate_def demo_policy_def truncationMark_def rune_start_def utf8_cont_def byte_def numeral_eq_Suc)

end
