(* ===== verification/Trace_Batch.thy ===== *)
theory Trace_Batch
  imports Trace_Spans "HOL-Library.Sublist"
begin

section \<open>Batched delivery\<close>

text \<open>
  \<open>trace/batch.go\<close>: ended spans pass through a bounded queue to the next processor, which a goroutine
  calls. The steps are those of the goroutines that end spans, of the loop and of \<open>Shutdown\<close>, in any
  order; \<open>OnEnd\<close> holds the read lock and closing the queue the write lock, so each is one step. Beside the
  state of the code stand the spans that ended and the calls the next processor got.
\<close>

definition defaultBatchQueueSize :: nat where "defaultBatchQueueSize = 2048"

datatype 'd batch_call = CallStart 'd | CallEnd 'd | CallShutdown

record 'd batch =
  bt_size :: nat
  bt_queue :: "'d list"
  bt_hand :: "'d option"
  bt_done :: bool
  bt_dropped :: nat
  bt_closed :: bool
  bt_calls :: "'d batch_call list"
  bt_ended :: "'d list"
  bt_accepted :: "'d list"

definition WithQueueSize :: "int \<Rightarrow> nat \<Rightarrow> nat" where "WithQueueSize n sz = (if 0 < n then nat n else sz)"

definition new_batch :: "(nat \<Rightarrow> nat) list \<Rightarrow> 'd batch" where
  "new_batch opts =
     \<lparr>bt_size = fold (\<lambda>f n. f n) opts defaultBatchQueueSize, bt_queue = [], bt_hand = None, bt_done = False, bt_dropped = 0,
      bt_closed = False, bt_calls = [], bt_ended = [], bt_accepted = []\<rparr>"

definition batch_OnStart :: "'d \<Rightarrow> 'd batch \<Rightarrow> 'd batch" where
  "batch_OnStart d b = b\<lparr>bt_calls := bt_calls b @ [CallStart d]\<rparr>"

definition batch_OnEnd :: "'d \<Rightarrow> 'd batch \<Rightarrow> 'd batch" where
  "batch_OnEnd d b0 =
     (let b = b0\<lparr>bt_ended := bt_ended b0 @ [d]\<rparr> in
      if bt_closed b then b\<lparr>bt_dropped := bt_dropped b + 1\<rparr>
      else if length (bt_queue b) < bt_size b then b\<lparr>bt_queue := bt_queue b @ [d], bt_accepted := bt_accepted b @ [d]\<rparr>
      else b\<lparr>bt_dropped := bt_dropped b + 1\<rparr>)"

definition close_queue :: "'d batch \<Rightarrow> 'd batch" where "close_queue b = b\<lparr>bt_closed := True\<rparr>"

definition next_Shutdown :: "'d batch \<Rightarrow> 'd batch" where "next_Shutdown b = b\<lparr>bt_calls := bt_calls b @ [CallShutdown]\<rparr>"

text \<open>
  The loop receives a span, gives it to the next processor, and ends when the closed queue is empty. The
  flag of a step tells that a \<open>Shutdown\<close> whose context ended calls the next processor without waiting.
\<close>

inductive batch_step :: "bool \<Rightarrow> 'd batch \<Rightarrow> 'd batch \<Rightarrow> bool" where
  start: "batch_step False b (batch_OnStart d b)"
| ended: "batch_step False b (batch_OnEnd d b)"
| receive: "bt_hand b = None \<Longrightarrow> \<not> bt_done b \<Longrightarrow> bt_queue b = d # ds \<Longrightarrow> batch_step False b (b\<lparr>bt_queue := ds, bt_hand := Some d\<rparr>)"
| deliver: "bt_hand b = Some d \<Longrightarrow> batch_step False b (b\<lparr>bt_hand := None, bt_calls := bt_calls b @ [CallEnd d]\<rparr>)"
| loop_ends: "bt_hand b = None \<Longrightarrow> bt_queue b = [] \<Longrightarrow> bt_closed b \<Longrightarrow> batch_step False b (b\<lparr>bt_done := True\<rparr>)"
| close: "batch_step False b (close_queue b)"
| shutdown: "bt_closed b \<Longrightarrow> bt_done b \<Longrightarrow> batch_step False b (next_Shutdown b)"
| timeout: "bt_closed b \<Longrightarrow> batch_step True b (next_Shutdown b)"

text \<open>The states reached, and whether a \<open>Shutdown\<close> timed out on the way.\<close>

inductive batch_reach :: "nat \<Rightarrow> bool \<Rightarrow> 'd batch \<Rightarrow> bool" for n :: nat where
  birth: "batch_reach n False (new_batch [WithQueueSize (int n)])"
| later: "batch_reach n t b \<Longrightarrow> batch_step t' b b' \<Longrightarrow> batch_reach n (t \<or> t') b'"

fun delivered :: "'d batch_call list \<Rightarrow> 'd list" where
  "delivered [] = []"
| "delivered (CallEnd d # cs) = d # delivered cs"
| "delivered (c # cs) = delivered cs"

lemma delivered_append [simp]: "delivered (cs @ ds) = delivered cs @ delivered ds"
  by (induction cs rule: delivered.induct) simp_all

text \<open>The calls after the first shutdown of the next processor.\<close>

definition late_calls :: "'d batch_call list \<Rightarrow> 'd batch_call list" where
  "late_calls cs = dropWhile (\<lambda>c. c \<noteq> CallShutdown) cs"

lemma late_calls_append: "late_calls (cs @ ds) = (if CallShutdown \<in> set cs then late_calls cs @ ds else late_calls ds)"
  by (induction cs) (auto simp: late_calls_def)

lemma late_calls_simps [simp]: "late_calls [] = []" "late_calls [c] = (if c = CallShutdown then [c] else [])"
  by (simp_all add: late_calls_def)

definition hand_list :: "'d batch \<Rightarrow> 'd list" where "hand_list b = (case bt_hand b of None \<Rightarrow> [] | Some d \<Rightarrow> [d])"

definition batch_inv :: "nat \<Rightarrow> bool \<Rightarrow> 'd batch \<Rightarrow> bool" where
  "batch_inv n t b \<longleftrightarrow>
     bt_size b = (if n = 0 then defaultBatchQueueSize else n) \<and> length (bt_queue b) \<le> bt_size b \<and>
     delivered (bt_calls b) @ hand_list b @ bt_queue b = bt_accepted b \<and>
     length (bt_ended b) = length (bt_accepted b) + bt_dropped b \<and> subseq (bt_accepted b) (bt_ended b) \<and>
     (bt_done b \<longrightarrow> bt_hand b = None \<and> bt_queue b = [] \<and> bt_closed b) \<and>
     (CallShutdown \<in> set (bt_calls b) \<longrightarrow> bt_closed b \<and> (\<not> t \<longrightarrow> bt_done b)) \<and>
     (\<not> t \<longrightarrow> delivered (late_calls (bt_calls b)) = [])"

lemma batch_step_inv: "batch_step t' b b' \<Longrightarrow> batch_inv n t b \<Longrightarrow> batch_inv n (t \<or> t') b'"
proof (induction rule: batch_step.induct)
  case (deliver b d)
  then show ?case by (auto simp: batch_inv_def hand_list_def late_calls_append)
next
  case (ended b d)
  then show ?case
    by (auto simp: batch_inv_def hand_list_def batch_OnEnd_def Let_def intro: list_emb_append_mono list_emb_append2 split: option.splits)
qed (auto simp: batch_inv_def hand_list_def batch_OnStart_def close_queue_def next_Shutdown_def late_calls_append)

lemma batch_reach_inv: "batch_reach n t b \<Longrightarrow> batch_inv n t b"
proof (induction rule: batch_reach.induct)
  case birth
  show ?case by (simp add: batch_inv_def new_batch_def hand_list_def WithQueueSize_def)
qed (rule batch_step_inv)

subsection \<open>Property\<close>

text \<open>Whatever the order of its goroutines, a batch hands on the spans it accepted in the order they ended, each once: those the next processor got, the one in hand and those in the queue make up the accepted ones, and every other ended span is counted as dropped. The queue never exceeds its size, and when the loop is done everything accepted was delivered. Unless a shutdown ran out of time, the next processor gets no span after it was shut down.\<close>

theorem batch_accounts_for_spans:
  assumes "batch_reach n t b"
  shows "delivered (bt_calls b) @ hand_list b @ bt_queue b = bt_accepted b \<and> subseq (bt_accepted b) (bt_ended b) \<and>
    length (bt_ended b) = length (bt_accepted b) + bt_dropped b \<and> length (bt_queue b) \<le> bt_size b \<and>
    (if bt_done b then delivered (bt_calls b) = bt_accepted b else True) \<and>
    (if t then True else delivered (late_calls (bt_calls b)) = [])"
  using batch_reach_inv [OF assms] by (auto simp: batch_inv_def hand_list_def)

definition batch_demo :: "nat batch" where
  "batch_demo = next_Shutdown ((batch_OnEnd 8 (batch_OnEnd 7 (new_batch [WithQueueSize 1])))\<lparr>bt_queue := [], bt_hand := None,
     bt_calls := [CallEnd 7], bt_closed := True, bt_done := True\<rparr>)"

lemma batch_demo_reach: "batch_reach 1 False batch_demo"
proof -
  let ?b0 = "new_batch [WithQueueSize (int 1)] :: nat batch"
  let ?b1 = "batch_OnEnd 8 (batch_OnEnd 7 ?b0)"
  let ?b2 = "?b1\<lparr>bt_queue := [], bt_hand := Some 7\<rparr>"
  let ?b3 = "?b2\<lparr>bt_hand := None, bt_calls := bt_calls ?b2 @ [CallEnd 7]\<rparr>"
  let ?b4 = "close_queue ?b3"
  let ?b5 = "?b4\<lparr>bt_done := True\<rparr>"
  note defs = new_batch_def WithQueueSize_def batch_OnEnd_def defaultBatchQueueSize_def close_queue_def next_Shutdown_def Let_def
  have step: "batch_reach 1 False c" if "batch_reach 1 False b" "batch_step False b c" for b c :: "nat batch"
    using later [OF that] by simp
  have 1: "batch_reach 1 False ?b1" by (intro step [OF step [OF birth ended] ended])
  have 2: "batch_reach 1 False ?b2" by (rule step [OF 1 receive]) (simp_all add: defs)
  have 3: "batch_reach 1 False ?b3" by (rule step [OF 2 deliver]) simp
  have 4: "batch_reach 1 False ?b4" by (rule step [OF 3 close])
  have 5: "batch_reach 1 False ?b5" by (rule step [OF 4 loop_ends]) (simp_all add: defs)
  have 6: "batch_reach 1 False (next_Shutdown ?b5)" by (rule step [OF 5 shutdown]) (simp_all add: defs)
  have "next_Shutdown ?b5 = batch_demo" by (simp add: batch_demo_def defs)
  with 6 show ?thesis by simp
qed

theorem batch_accounts_for_spans_witness:
  "delivered (bt_calls batch_demo) = [7] \<and> bt_dropped batch_demo = 1 \<and> length (bt_ended batch_demo) = length (bt_accepted batch_demo) + bt_dropped batch_demo"
proof -
  have "delivered (bt_calls batch_demo) = [7] \<and> bt_dropped batch_demo = 1"
    by (simp add: batch_demo_def new_batch_def WithQueueSize_def batch_OnEnd_def next_Shutdown_def)
  then show ?thesis using batch_accounts_for_spans [OF batch_demo_reach] by blast
qed

text \<open>A shutdown that runs out of time leaves the loop running: the next processor gets spans after it was shut down.\<close>

lemma span_after_shutdown:
  "\<exists>b :: nat batch. batch_reach 1 True b \<and> delivered (late_calls (bt_calls b)) = [7]"
proof -
  let ?b0 = "new_batch [WithQueueSize (int 1)] :: nat batch"
  let ?b1 = "batch_OnEnd 7 ?b0"
  let ?b2 = "?b1\<lparr>bt_queue := [], bt_hand := Some 7\<rparr>"
  let ?b4 = "next_Shutdown (close_queue ?b2)"
  let ?b5 = "?b4\<lparr>bt_hand := None, bt_calls := bt_calls ?b4 @ [CallEnd 7]\<rparr>"
  note defs = new_batch_def WithQueueSize_def batch_OnEnd_def close_queue_def next_Shutdown_def Let_def
  have 1: "batch_reach 1 (False \<or> False) ?b1" by (rule later [OF birth ended])
  have 2: "batch_reach 1 ((False \<or> False) \<or> False) ?b2" by (rule later [OF 1 receive]) (simp_all add: defs)
  have 3: "batch_reach 1 (((False \<or> False) \<or> False) \<or> False) (close_queue ?b2)" by (rule later [OF 2 close])
  have 4: "batch_reach 1 ((((False \<or> False) \<or> False) \<or> False) \<or> True) ?b4" by (rule later [OF 3 timeout]) (simp add: defs)
  have 5: "batch_reach 1 (((((False \<or> False) \<or> False) \<or> False) \<or> True) \<or> False) ?b5" by (rule later [OF 4 deliver]) (simp add: defs)
  have "delivered (late_calls (bt_calls ?b5)) = [7]" by (simp add: defs late_calls_def)
  then show ?thesis using 5 by auto
qed

end
