(* ===== verification/Todo_Tool.thy ===== *)
theory Todo_Tool
  imports Json_Text
begin

section \<open>The todo list\<close>

text \<open>
  \<open>tool/todo\<close>: the task list of an agent and the tool that replaces it. A status is the string of the JSON, so
  one outside the three constants is possible; \<open>onChange\<close> acts on the world. What holds of the list whatever
  the model writes is \<open>todo_list_stays_valid\<close>, and that the text the model gets back determines the list is
  \<open>render_parse\<close>.
\<close>

definition Pending :: string where "Pending = ''pending''"
definition InProgress :: string where "InProgress = ''in_progress''"
definition Completed :: string where "Completed = ''completed''"

lemmas todo_statuses = Pending_def InProgress_def Completed_def

record todo_item =
  tdi_content :: string
  tdi_status :: string

datatype todo_item_err = ErrEmptyContent | ErrInvalidStatus

datatype todo_err = TodoNilInput | TodoItem nat todo_item_err | ErrMultipleInProgress

record 'w todo_list =
  td_items :: "todo_item list"
  td_onChange :: "(todo_item list \<Rightarrow> 'w \<Rightarrow> 'w) option"

type_synonym 'w todo_option = "'w todo_list \<Rightarrow> 'w todo_list"

definition WithOnChange :: "(todo_item list \<Rightarrow> 'w \<Rightarrow> 'w) option \<Rightarrow> 'w todo_option" where
  "WithOnChange fn l = l\<lparr>td_onChange := fn\<rparr>"
definition WithItems :: "todo_item list \<Rightarrow> 'w todo_option" where "WithItems items l = l\<lparr>td_items := items\<rparr>"
definition New_todo :: "'w todo_option list \<Rightarrow> 'w todo_list" where
  "New_todo opts = fold (\<lambda>f. f) opts \<lparr>td_items = [], td_onChange = None\<rparr>"
definition Items :: "'w todo_list \<Rightarrow> todo_item list" where "Items l = td_items l"

text \<open>The loop over the items: the number in progress, or the first error.\<close>

fun check_items :: "nat \<Rightarrow> nat \<Rightarrow> todo_item list \<Rightarrow> todo_err + nat" where
  "check_items i inProgress [] = Inr inProgress"
| "check_items i inProgress (x # xs) =
     (if trim_space (tdi_content x) = [] then Inl (TodoItem (i + 1) ErrEmptyContent)
      else if tdi_status x = InProgress then check_items (i + 1) (inProgress + 1) xs
      else if tdi_status x = Pending \<or> tdi_status x = Completed then check_items (i + 1) inProgress xs
      else Inl (TodoItem (i + 1) ErrInvalidStatus))"

definition item_mark :: "string \<Rightarrow> string" where
  "item_mark s = (if s = Completed then ''[x]'' else if s = InProgress then ''[>]'' else ''[ ]'')"

definition newline :: string where "newline = [CHR 0x0A]"

definition Render :: "todo_item list \<Rightarrow> string" where
  "Render items =
     (if items = [] then ''The task list is empty.''
      else concat (map (\<lambda>x. item_mark (tdi_status x) @ '' '' @ tdi_content x @ newline) items) @
        go_itoa (int (length (filter (\<lambda>x. tdi_status x = Completed) items))) @ '' of '' @ go_itoa (int (length items)) @ '' completed'')"

definition write_todo :: "todo_item list option \<Rightarrow> 'w todo_list \<times> 'w \<Rightarrow> (todo_err + string) \<times> 'w todo_list \<times> 'w" where
  "write_todo input lw =
     (case lw of (l, w) \<Rightarrow>
       case input of
         None \<Rightarrow> (Inl TodoNilInput, l, w)
       | Some todos \<Rightarrow>
           (case check_items 0 0 todos of
              Inl e \<Rightarrow> (Inl e, l, w)
            | Inr n \<Rightarrow>
                if 1 < n then (Inl ErrMultipleInProgress, l, w)
                else (Inr (Render todos), l\<lparr>td_items := todos\<rparr>, (case td_onChange l of None \<Rightarrow> w | Some fn \<Rightarrow> fn todos w))))"

subsection \<open>Valid lists\<close>

definition valid_item :: "todo_item \<Rightarrow> bool" where
  "valid_item x \<longleftrightarrow> trim_space (tdi_content x) \<noteq> [] \<and> tdi_status x \<in> {Pending, InProgress, Completed}"

definition valid_items :: "todo_item list \<Rightarrow> bool" where
  "valid_items xs \<longleftrightarrow> list_all valid_item xs \<and> length (filter (\<lambda>x. tdi_status x = InProgress) xs) \<le> 1"

lemma check_items_ok:
  "check_items i n xs = Inr m \<longleftrightarrow> list_all valid_item xs \<and> m = n + length (filter (\<lambda>x. tdi_status x = InProgress) xs)"
  by (induction i n xs rule: check_items.induct) (auto simp: valid_item_def)

lemma check_items_error:
  "check_items i n xs = Inl e \<Longrightarrow> \<exists>k. k < length xs \<and> list_all valid_item (take k xs) \<and> \<not> valid_item (xs ! k) \<and>
     (\<exists>r. e = TodoItem (i + k + 1) r \<and> (r = ErrEmptyContent \<longleftrightarrow> trim_space (tdi_content (xs ! k)) = []))"
proof (induction i n xs arbitrary: e rule: check_items.induct)
  case (2 i n x xs)
  show ?case
  proof (cases "valid_item x")
    case True
    have "\<exists>k. k < length xs \<and> list_all valid_item (take k xs) \<and> \<not> valid_item (xs ! k) \<and>
      (\<exists>r. e = TodoItem (i + 1 + k + 1) r \<and> (r = ErrEmptyContent \<longleftrightarrow> trim_space (tdi_content (xs ! k)) = []))"
    proof (cases "tdi_status x = InProgress")
      case True
      then show ?thesis using 2(3) \<open>valid_item x\<close> by (intro 2(1)) (simp_all add: valid_item_def)
    next
      case False
      then show ?thesis using 2(3) \<open>valid_item x\<close> by (intro 2(2)) (simp_all add: valid_item_def split: if_splits)
    qed
    then obtain k r where k: "k < length xs" "list_all valid_item (take k xs)" "\<not> valid_item (xs ! k)"
      "e = TodoItem (i + 1 + k + 1) r" "r = ErrEmptyContent \<longleftrightarrow> trim_space (tdi_content (xs ! k)) = []" by blast
    show ?thesis by (rule exI [of _ "Suc k"]) (use k True in auto)
  next
    case False
    then show ?thesis using 2(3) by (intro exI [of _ 0]) (auto simp: valid_item_def split: if_splits)
  qed
qed simp

lemma write_todo_ok:
  "write_todo (Some todos) (l, w) =
     (if valid_items todos then (Inr (Render todos), l\<lparr>td_items := todos\<rparr>, (case td_onChange l of None \<Rightarrow> w | Some fn \<Rightarrow> fn todos w))
      else (Inl (case check_items 0 0 todos of Inl e \<Rightarrow> e | Inr n \<Rightarrow> ErrMultipleInProgress), l, w))"
proof (cases "check_items 0 0 todos")
  case (Inl e)
  then have "\<not> list_all valid_item todos" using check_items_ok [of 0 0 todos] by auto
  then show ?thesis using Inl by (simp add: write_todo_def valid_items_def)
next
  case (Inr n)
  then show ?thesis using check_items_ok [of 0 0 todos n] by (simp add: write_todo_def valid_items_def)
qed

text \<open>The calls of a session, in any number.\<close>

fun todo_calls :: "todo_item list option list \<Rightarrow> 'w todo_list \<times> 'w \<Rightarrow> (todo_err + string) list \<times> 'w todo_list \<times> 'w" where
  "todo_calls [] lw = ([], lw)"
| "todo_calls (c # cs) lw = (case write_todo c lw of (r, lw') \<Rightarrow> (case todo_calls cs lw' of (rs, lw'') \<Rightarrow> (r # rs, lw'')))"

definition accepted :: "todo_item list option \<Rightarrow> bool" where
  "accepted c = (case c of None \<Rightarrow> False | Some todos \<Rightarrow> valid_items todos)"

lemma write_todo_list:
  "fst (snd (write_todo c (l, w))) = (if accepted c then l\<lparr>td_items := the c\<rparr> else l)"
  "isl (fst (write_todo c (l, w))) = (\<not> accepted c)"
  by (cases c; simp add: write_todo_ok accepted_def; simp add: write_todo_def)+

lemma write_todo_world: "\<not> accepted c \<Longrightarrow> write_todo c (l, w) = (fst (write_todo c (l, w)), l, w)"
  by (cases c) (simp_all add: write_todo_ok accepted_def, simp add: write_todo_def)

lemma todo_calls_list:
  "td_items (fst (snd (todo_calls cs (l, w)))) = (case filter accepted cs of [] \<Rightarrow> td_items l | ok \<Rightarrow> the (last ok))"
proof (induction cs arbitrary: l w)
  case (Cons c cs)
  obtain r l' w' where x: "write_todo c (l, w) = (r, l', w')" by (metis prod_cases3)
  have "l' = (if accepted c then l\<lparr>td_items := the c\<rparr> else l)" using write_todo_list(1) [of c l w] x by simp
  then show ?case using Cons [of l' w'] x by (auto split: prod.splits list.splits)
qed simp

subsection \<open>Properties\<close>

text \<open>Whatever a model writes, and in how many calls, the list is the last one that was accepted, or the one it started with, and stays valid: no item is blank, every status is one of the three, and at most one item is in progress. A refused call changes nothing and does not call \<open>onChange\<close>.\<close>

theorem todo_list_stays_valid:
  assumes "valid_items (td_items l)"
  shows "valid_items (td_items (fst (snd (todo_calls cs (l, w))))) \<and>
    td_items (fst (snd (todo_calls cs (l, w)))) = (case filter accepted cs of [] \<Rightarrow> td_items l | ok \<Rightarrow> the (last ok)) \<and>
    (if accepted c then True else snd (write_todo c (l, w)) = (l, w))"
proof -
  have "valid_items (case filter accepted cs of [] \<Rightarrow> td_items l | ok \<Rightarrow> the (last ok))"
  proof (cases "filter accepted cs")
    case (Cons a as)
    have "last (a # as) \<in> set (filter accepted cs)" unfolding Cons by (rule last_in_set) simp
    then have "accepted (last (a # as))" by simp
    then show ?thesis using Cons by (auto simp: accepted_def split: option.splits)
  qed (simp add: assms)
  then show ?thesis using todo_calls_list [of cs l w] write_todo_world [of c l w] by (metis snd_conv)
qed

definition todo_demo :: "todo_item list" where
  "todo_demo = [\<lparr>tdi_content = ''a'', tdi_status = Completed\<rparr>, \<lparr>tdi_content = ''b'', tdi_status = InProgress\<rparr>]"

lemma todo_demo_valid: "valid_items todo_demo"
  by (simp add: valid_items_def valid_item_def todo_demo_def todo_statuses) code_simp

theorem todo_list_stays_valid_witness:
  "td_items (fst (snd (todo_calls [Some todo_demo, None] (New_todo [], ())))) = todo_demo"
  using todo_list_stays_valid [of "New_todo [] :: unit todo_list" "[Some todo_demo, None]" "()" None] todo_demo_valid
  by (simp add: New_todo_def valid_items_def accepted_def)

subsection \<open>What the model reads\<close>

text \<open>A reader of the text: the mark gives the status, the rest of the line the content.\<close>

definition mark_status :: "char \<Rightarrow> string" where
  "mark_status c = (if c = CHR ''x'' then Completed else if c = CHR ''>'' then InProgress else Pending)"

definition parse_line :: "string \<Rightarrow> todo_item" where
  "parse_line s = \<lparr>tdi_content = drop 4 s, tdi_status = mark_status (s ! 1)\<rparr>"

definition parse_list :: "string \<Rightarrow> todo_item list" where "parse_list s = map parse_line (butlast (go_split s newline))"

definition one_line :: "todo_item \<Rightarrow> bool" where "one_line x \<longleftrightarrow> CHR 0x0A \<notin> set (tdi_content x)"

lemma split_line: "CHR 0x0A \<notin> set a \<Longrightarrow> go_split (a @ newline @ r) newline = a # go_split r newline"
  "CHR 0x0A \<notin> set a \<Longrightarrow> go_split a newline = [a]"
proof -
  assume a: "CHR 0x0A \<notin> set a"
  then have "go_index (a @ CHR 0x0A # r) [CHR 0x0A] = Some (length a)" "go_index a [CHR 0x0A] = None"
    by (induction a) (auto simp: has_prefix_def)
  then show "go_split (a @ newline @ r) newline = a # go_split r newline" "go_split a newline = [a]"
    by (simp_all add: newline_def go_split_def split_sep.simps [of "a @ CHR 0x0A # r"] split_sep.simps [of a])
qed

definition todo_line :: "todo_item \<Rightarrow> string" where "todo_line x = item_mark (tdi_status x) @ '' '' @ tdi_content x"

lemma todo_line_one: "one_line x \<Longrightarrow> CHR 0x0A \<notin> set (todo_line x)"
  by (auto simp: one_line_def todo_line_def item_mark_def)

lemma parse_todo_line: "valid_item x \<Longrightarrow> parse_line (todo_line x) = x"
  by (cases x) (auto simp: parse_line_def todo_line_def valid_item_def item_mark_def mark_status_def todo_statuses numeral_eq_Suc)

lemma split_lines: "list_all one_line xs \<Longrightarrow> CHR 0x0A \<notin> set r \<Longrightarrow>
    go_split (concat (map (\<lambda>x. todo_line x @ newline) xs) @ r) newline = map todo_line xs @ [r]"
  by (induction xs) (simp_all add: split_line todo_line_one)

lemma itoa_one_line: "CHR 0x0A \<notin> set (go_itoa n)"
proof -
  have "CHR 0x0A \<notin> set (nat_digits m)" for m
    using nat_digits_chars [of m] by (auto simp: list_all_iff is_digit_def byte_def dest!: bspec)
  then show ?thesis by (auto simp: go_itoa_def)
qed

text \<open>What the tool returns for a list that is not empty and whose contents are single lines determines the list: reading the text back gives its items, in order, with their states.\<close>

theorem render_parse:
  assumes "valid_items xs" and "xs \<noteq> []" and "list_all one_line xs"
  shows "parse_list (Render xs) = xs"
proof -
  let ?r = "go_itoa (int (length (filter (\<lambda>x. tdi_status x = Completed) xs))) @ '' of '' @ go_itoa (int (length xs)) @ '' completed''"
  have "Render xs = concat (map (\<lambda>x. todo_line x @ newline) xs) @ ?r" using assms(2) by (simp add: Render_def todo_line_def)
  moreover have "CHR 0x0A \<notin> set ?r" using itoa_one_line by simp
  ultimately have "go_split (Render xs) newline = map todo_line xs @ [?r]" using split_lines [OF assms(3)] by metis
  then have "parse_list (Render xs) = map (\<lambda>x. parse_line (todo_line x)) xs" by (simp add: parse_list_def)
  also have "\<dots> = xs" by (rule map_idI) (use assms(1) parse_todo_line in \<open>auto simp: valid_items_def list_all_iff\<close>)
  finally show ?thesis .
qed

theorem render_parse_witness: "parse_list (Render todo_demo) = todo_demo"
  by (rule render_parse) (simp_all add: todo_demo_valid, simp_all add: todo_demo_def one_line_def)

end
