(* ===== verification/Human_Tool.thy ===== *)
theory Human_Tool
  imports Bash_Tool
begin

section \<open>The user interaction tool\<close>

text \<open>
  \<open>tool/human\<close>: structured questions to the user and the check of the answers. The interactor acts on the
  world; it returns a Go map, whose entries are given in the order the loop meets them, and \<open>None\<close> is the
  nil map. \<open>lr\<close> is the lower case of a rune outside ASCII. What reaches the model is
  \<open>answers_match_questions\<close>.
\<close>

datatype human_err =
    HumanNilInput | ErrInteractorRequired | ErrInteractionFailed string | ErrQuestionsRequired | ErrTooManyQuestions
  | ErrHeaderRequired | ErrHeaderTooLong | ErrDuplicateQuestionHeader | ErrQuestionTextRequired | ErrQuestionMustEndWithQuestionMark
  | ErrInvalidOptionCount | ErrOptionLabelRequired | ErrOptionLabelTooLong | ErrOptionDescriptionRequired
  | ErrInvalidAnswerHeader | ErrInvalidOptionSelection | ErrMultipleSelectionsNotAllowed

definition minQuestions :: nat where "minQuestions = 1"
definition maxQuestions :: nat where "maxQuestions = 4"
definition minOptions :: nat where "minOptions = 2"
definition maxOptions :: nat where "maxOptions = 4"
definition maxHeaderLen :: nat where "maxHeaderLen = 12"
definition maxOptionLabelWord :: nat where "maxOptionLabelWord = 5"

lemmas human_limits = minQuestions_def maxQuestions_def minOptions_def maxOptions_def maxHeaderLen_def maxOptionLabelWord_def

record choice =
  ch_label :: string
  ch_description :: string

record question =
  qu_header :: string
  qu_question :: string
  qu_multi :: bool
  qu_options :: "choice list"

record answer =
  an_selections :: "string list"
  an_other :: string

type_synonym answers = "(string \<times> answer) list"

type_synonym 'w interactor = "question list \<Rightarrow> 'w \<Rightarrow> (string + answers option) \<times> 'w"

text \<open>A nil option is skipped; without an interactor there is no tool.\<close>

definition New_human :: "('w interactor option \<Rightarrow> 'w interactor option) option list \<Rightarrow> human_err + 'w interactor" where
  "New_human opts =
     (case fold (\<lambda>o' t. case o' of None \<Rightarrow> t | Some f \<Rightarrow> f t) opts None of
        None \<Rightarrow> Inl ErrInteractorRequired
      | Some i \<Rightarrow> Inr i)"

definition WithInteractor :: "'w interactor option \<Rightarrow> 'w interactor option \<Rightarrow> 'w interactor option" where
  "WithInteractor i t = i"

definition norm_key :: "(string \<Rightarrow> string) \<Rightarrow> string \<Rightarrow> string" where "norm_key lr s = go_to_lower lr (trim_space s)"

fun check_options :: "choice list \<Rightarrow> human_err option" where
  "check_options [] = None"
| "check_options (x # xs) =
     (let label = trim_space (ch_label x) in
      if label = [] then Some ErrOptionLabelRequired
      else if length (go_fields label) = 0 \<or> maxOptionLabelWord < length (go_fields label) then Some ErrOptionLabelTooLong
      else if trim_space (ch_description x) = [] then Some ErrOptionDescriptionRequired
      else check_options xs)"

fun check_questions :: "(string \<Rightarrow> string) \<Rightarrow> string set \<Rightarrow> question list \<Rightarrow> human_err option" where
  "check_questions lr seen [] = None"
| "check_questions lr seen (q # qs) =
     (let header = trim_space (qu_header q); key = go_to_lower lr header; txt = trim_space (qu_question q) in
      if header = [] then Some ErrHeaderRequired
      else if maxHeaderLen < length (runes header) then Some ErrHeaderTooLong
      else if key \<in> seen then Some ErrDuplicateQuestionHeader
      else if txt = [] then Some ErrQuestionTextRequired
      else if \<not> has_suffix txt ''?'' then Some ErrQuestionMustEndWithQuestionMark
      else if length (qu_options q) < minOptions \<or> maxOptions < length (qu_options q) then Some ErrInvalidOptionCount
      else (case check_options (qu_options q) of
          Some e \<Rightarrow> Some e
        | None \<Rightarrow> check_questions lr (insert key seen) qs))"

definition validateInput :: "(string \<Rightarrow> string) \<Rightarrow> question list \<Rightarrow> human_err option" where
  "validateInput lr qs =
     (if length qs < minQuestions then Some ErrQuestionsRequired
      else if maxQuestions < length qs then Some ErrTooManyQuestions
      else check_questions lr {} qs)"

definition allowed_questions :: "(string \<Rightarrow> string) \<Rightarrow> question list \<Rightarrow> string \<rightharpoonup> question" where
  "allowed_questions lr qs = fold (\<lambda>q m. m(norm_key lr (qu_header q) \<mapsto> q)) qs (\<lambda>_. None)"

definition option_labels :: "(string \<Rightarrow> string) \<Rightarrow> question \<Rightarrow> string set" where
  "option_labels lr q = norm_key lr ` ch_label ` set (qu_options q)"

fun check_answers :: "(string \<Rightarrow> string) \<Rightarrow> (string \<rightharpoonup> question) \<Rightarrow> answers \<Rightarrow> human_err option" where
  "check_answers lr allowed [] = None"
| "check_answers lr allowed ((key, a) # as) =
     (case allowed (norm_key lr key) of
        None \<Rightarrow> Some ErrInvalidAnswerHeader
      | Some q \<Rightarrow>
          if \<not> qu_multi q \<and> 1 < length (an_selections a) then Some ErrMultipleSelectionsNotAllowed
          else if \<not> list_all (\<lambda>s. norm_key lr s \<in> option_labels lr q) (an_selections a) then Some ErrInvalidOptionSelection
          else check_answers lr allowed as)"

definition validateAnswers :: "(string \<Rightarrow> string) \<Rightarrow> question list \<Rightarrow> answers \<Rightarrow> human_err option" where
  "validateAnswers lr qs as = check_answers lr (allowed_questions lr qs) as"

definition ask :: "(string \<Rightarrow> string) \<Rightarrow> 'w interactor \<Rightarrow> question list option \<Rightarrow> 'w \<Rightarrow> (human_err + answers) \<times> 'w" where
  "ask lr interactor input w =
     (case input of
        None \<Rightarrow> (Inl HumanNilInput, w)
      | Some qs \<Rightarrow>
          (case validateInput lr qs of
             Some e \<Rightarrow> (Inl e, w)
           | None \<Rightarrow>
               (case interactor qs w of
                  (Inl e, w') \<Rightarrow> (Inl (ErrInteractionFailed e), w')
                | (Inr as, w') \<Rightarrow>
                    (let answers = (case as of None \<Rightarrow> [] | Some x \<Rightarrow> x) in
                     case validateAnswers lr qs answers of Some e \<Rightarrow> (Inl e, w') | None \<Rightarrow> (Inr answers, w')))))"

subsection \<open>What the checks mean\<close>

definition good_option :: "choice \<Rightarrow> bool" where
  "good_option x \<longleftrightarrow> trim_space (ch_label x) \<noteq> [] \<and> 1 \<le> length (go_fields (trim_space (ch_label x))) \<and>
     length (go_fields (trim_space (ch_label x))) \<le> 5 \<and> trim_space (ch_description x) \<noteq> []"

definition good_question :: "question \<Rightarrow> bool" where
  "good_question q \<longleftrightarrow> trim_space (qu_header q) \<noteq> [] \<and> length (runes (trim_space (qu_header q))) \<le> 12 \<and>
     has_suffix (trim_space (qu_question q)) ''?'' \<and> 2 \<le> length (qu_options q) \<and> length (qu_options q) \<le> 4 \<and> list_all good_option (qu_options q)"

definition good_answer :: "(string \<Rightarrow> string) \<Rightarrow> question list \<Rightarrow> string \<times> answer \<Rightarrow> bool" where
  "good_answer lr qs ka \<longleftrightarrow>
     list_ex (\<lambda>q. norm_key lr (fst ka) = norm_key lr (qu_header q) \<and> (qu_multi q \<or> length (an_selections (snd ka)) \<le> 1) \<and>
       list_all (\<lambda>s. list_ex (\<lambda>x. norm_key lr s = norm_key lr (ch_label x)) (qu_options q)) (an_selections (snd ka))) qs"

lemma check_options_None: "check_options xs = None \<longleftrightarrow> list_all good_option xs"
  by (induction xs) (auto simp: Let_def good_option_def maxOptionLabelWord_def Suc_le_eq)

lemma check_questions_None:
  "check_questions lr seen qs = None \<longleftrightarrow>
     list_all good_question qs \<and> distinct (map (\<lambda>q. norm_key lr (qu_header q)) qs) \<and>
     (\<lambda>q. norm_key lr (qu_header q)) ` set qs \<inter> seen = {}"
proof (induction qs arbitrary: seen)
  case (Cons q qs)
  have no: "has_suffix [] ''?'' = False" by (simp add: has_suffix_def)
  show ?case
  proof (cases "check_options (qu_options q)")
    case None
    then have "list_all good_option (qu_options q)" by (simp add: check_options_None)
    then show ?thesis using no None Cons [of "insert (norm_key lr (qu_header q)) seen"]
      by (auto simp: Let_def good_question_def human_limits norm_key_def)
  next
    case (Some e)
    then have "\<not> list_all good_option (qu_options q)" by (metis check_options_None option.distinct(1))
    then show ?thesis using Some by (simp add: Let_def good_question_def)
  qed
qed simp

lemma allowed_questions_Some: "allowed_questions lr qs k = Some q \<Longrightarrow> q \<in> set qs \<and> norm_key lr (qu_header q) = k"
proof -
  have step: "fold (\<lambda>q m. m(norm_key lr (qu_header q) \<mapsto> q)) qs m k = Some q \<Longrightarrow> q \<in> set qs \<and> norm_key lr (qu_header q) = k \<or> m k = Some q" for m
  proof (induction qs arbitrary: m)
    case (Cons a qs)
    have "q \<in> set qs \<and> norm_key lr (qu_header q) = k \<or> (m(norm_key lr (qu_header a) \<mapsto> a)) k = Some q"
      by (rule Cons.IH) (use Cons.prems in simp)
    then show ?case by (cases "norm_key lr (qu_header a) = k") auto
  qed simp
  show "q \<in> set qs \<and> norm_key lr (qu_header q) = k" if "allowed_questions lr qs k = Some q"
    using step [of "\<lambda>_. None"] that unfolding allowed_questions_def by blast
qed

lemma check_answers_None:
  "check_answers lr (allowed_questions lr qs) as = None \<Longrightarrow> list_all (good_answer lr qs) as"
proof (induction as)
  case (Cons ka as)
  obtain key a where ka: "ka = (key, a)" by force
  obtain q where q: "allowed_questions lr qs (norm_key lr key) = Some q" "qu_multi q \<or> length (an_selections a) \<le> 1"
    "list_all (\<lambda>s. norm_key lr s \<in> option_labels lr q) (an_selections a)"
    using Cons(2) ka by (auto split: option.splits if_splits)
  have "list_all (\<lambda>s. list_ex (\<lambda>x. norm_key lr s = norm_key lr (ch_label x)) (qu_options q)) (an_selections a)"
    using q(3) by (auto simp: list_all_iff list_ex_iff option_labels_def)
  then have "good_answer lr qs ka"
    unfolding good_answer_def list_ex_iff [of _ qs] using allowed_questions_Some [OF q(1)] q(2) ka by (intro bexI [of _ q]) simp_all
  then show ?case using Cons q ka by (simp split: option.splits if_splits)
qed simp

subsection \<open>Property\<close>

text \<open>The user is asked only well-formed questions: one to four of them, their headers different whatever the case, each ending in a question mark with two to four labelled options; a refused call asks nothing. What the model then gets are only answers under the header of a question asked, with options of that question, and more than one of them only where it allows several.\<close>

theorem answers_match_questions:
  "case ask lr interactor input w of
     (Inr as, w') \<Rightarrow>
       (case input of
          None \<Rightarrow> False
        | Some qs \<Rightarrow>
            1 \<le> length qs \<and> length qs \<le> 4 \<and> list_all good_question qs \<and> distinct (map (\<lambda>q. norm_key lr (qu_header q)) qs) \<and>
            (\<exists>r. interactor qs w = (Inr r, w') \<and> as = (case r of None \<Rightarrow> [] | Some x \<Rightarrow> x)) \<and> list_all (good_answer lr qs) as)
   | (Inl e, w') \<Rightarrow> w' = w \<or> (\<exists>qs. input = Some qs \<and> validateInput lr qs = None \<and> w' = snd (interactor qs w))"
proof (cases input)
  case None
  then show ?thesis by (simp add: ask_def)
next
  case (Some qs)
  show ?thesis
  proof (cases "validateInput lr qs")
    case None
    then have v: "1 \<le> length qs" "length qs \<le> 4" "list_all good_question qs" "distinct (map (\<lambda>q. norm_key lr (qu_header q)) qs)"
      by (auto simp: validateInput_def human_limits check_questions_None Suc_le_eq split: if_splits)
    show ?thesis
      using Some None v check_answers_None [of lr qs]
      by (auto simp: ask_def validateAnswers_def Let_def split: prod.splits sum.splits option.splits)
  qed (use Some in \<open>simp add: ask_def\<close>)
qed

text \<open>Keys that differ in case are answers to one question, so a question with one choice can get two.\<close>

definition demo_question :: question where
  "demo_question = \<lparr>qu_header = ''Color'', qu_question = ''Which?'', qu_multi = False,
     qu_options = [\<lparr>ch_label = ''Red'', ch_description = ''r''\<rparr>, \<lparr>ch_label = ''Blue'', ch_description = ''b''\<rparr>]\<rparr>"

definition two_answers :: answers where
  "two_answers = [(''Color'', \<lparr>an_selections = [''Red''], an_other = []\<rparr>), (''color'', \<lparr>an_selections = [''Blue''], an_other = []\<rparr>)]"

lemma single_choice_answered_twice:
  "fst (ask (\<lambda>r. r) (\<lambda>qs w. (Inr (Some two_answers), w)) (Some [demo_question]) ()) = Inr two_answers"
  by code_simp

end
