(* ===== verification/Service_Tools.thy ===== *)
theory Service_Tools
  imports Agent_Correct Nats_Memory
begin

section \<open>Tools in front of a service\<close>

text \<open>
  \<open>tool/agent\<close>, which runs an agent made up by the model, and \<open>tool/kv\<close>, which gives an agent a JetStream
  bucket (opened by \<open>OpenBucket\<close> of \<open>Nats_Memory\<close>), which is the environment's.
\<close>

subsection \<open>Delegation to an agent\<close>

record agent_input =
  ain_name :: string
  ain_description :: string
  ain_input :: string

datatype delegate_err =
    ErrLLMRequired | DelegateNameRequired | DelegateDescriptionRequired | DelegateNilInput | ErrInputRequired | DelegateFailed err

record 'w agent_tool =
  agt_llm :: "'w llm"
  agt_tools :: "'w tool list"

definition New_agent_tool :: "'w llm option \<Rightarrow> 'w tool list \<Rightarrow> delegate_err + 'w agent_tool" where
  "New_agent_tool client tools =
     (case client of None \<Rightarrow> Inl ErrLLMRequired | Some l \<Rightarrow> Inr \<lparr>agt_llm = l, agt_tools = tools\<rparr>)"

fun add_tools :: "'w tool list \<Rightarrow> 'w agent \<Rightarrow> err + 'w agent" where
  "add_tools [] a = Inr a"
| "add_tools (t # ts) a = (case AddTool t a of Inl e \<Rightarrow> Inl e | Inr a' \<Rightarrow> add_tools ts a')"

text \<open>\<open>fuel\<close> bounds the passes of the loop of the agent; \<open>None\<close> is running out of it.\<close>

definition delegate ::
  "nat \<Rightarrow> 'w agent_env \<Rightarrow> 'w agent_tool \<Rightarrow> 'w goctx \<Rightarrow> agent_input option \<Rightarrow> 'w \<Rightarrow> ((delegate_err + string) \<times> 'w) option" where
  "delegate fuel env t ctx input w =
     (case input of
        None \<Rightarrow> Some (Inl DelegateNilInput, w)
      | Some i \<Rightarrow>
          (let name = trim_space (ain_name i); description = trim_space (ain_description i); instructions = trim_space (ain_input i) in
           if name = [] then Some (Inl DelegateNameRequired, w)
           else if description = [] then Some (Inl DelegateDescriptionRequired, w)
           else if instructions = [] then Some (Inl ErrInputRequired, w)
           else (case New_agent (Some (agt_llm t)) name description of
               Inl e \<Rightarrow> Some (Inl (DelegateFailed e), w)
             | Inr a0 \<Rightarrow>
                 (case add_tools (agt_tools t) a0 of
                    Inl e \<Rightarrow> Some (Inl (DelegateFailed e), w)
                  | Inr a \<Rightarrow>
                      (case Run fuel env a ctx [Text instructions] w of
                         None \<Rightarrow> None
                       | Some ((result, Some e), w') \<Rightarrow> Some (Inl (DelegateFailed e), w')
                       | Some ((result, None), w') \<Rightarrow> Some (Inr (result_text result), w'))))))"

lemma AddTool_Inr: "AddTool t a = Inr a' \<Longrightarrow> a' = a\<lparr>ag_tools := ag_tools a @ [t]\<rparr> \<and> tool_name t \<notin> tool_name ` set (ag_tools a)"
  by (auto simp: AddTool_def getTool_def find_None_iff split: if_splits)

lemma AddTool_Inl: "AddTool t a = Inl e \<Longrightarrow> tool_name t \<in> tool_name ` set (ag_tools a)"
  by (auto simp: AddTool_def getTool_def find_Some_iff split: if_splits) (metis image_eqI nth_mem)

lemma add_tools_Inr:
  "add_tools ts a = Inr b \<Longrightarrow> b = a\<lparr>ag_tools := ag_tools a @ ts\<rparr> \<and> distinct (map tool_name ts) \<and>
     tool_name ` set ts \<inter> tool_name ` set (ag_tools a) = {}"
proof (induction ts arbitrary: a)
  case (Cons t ts)
  then obtain a' where a': "AddTool t a = Inr a'" "add_tools ts a' = Inr b" by (auto split: sum.splits)
  show ?case using Cons.IH [OF a'(2)] AddTool_Inr [OF a'(1)] by auto
qed simp

lemma add_tools_Inl:
  "add_tools ts a = Inl e \<Longrightarrow> \<not> (distinct (map tool_name ts) \<and> tool_name ` set ts \<inter> tool_name ` set (ag_tools a) = {})"
proof (induction ts arbitrary: a)
  case (Cons t ts)
  show ?case
  proof (cases "AddTool t a")
    case (Inl e')
    then show ?thesis using AddTool_Inl [OF Inl] by auto
  next
    case (Inr a')
    then have "add_tools ts a' = Inl e" using Cons.prems by simp
    from Cons.IH [OF this] show ?thesis using AddTool_Inr [OF Inr] by auto
  qed
qed simp

text \<open>A delegated task always ends, after at most 27 passes of the loop of its agent, whatever its LLM and tools do. Without a name, a description or instructions, or with two tools of one name, it is refused and nothing happens; else the reply is the text of the run of a new agent, with the tools and nothing else, on the instructions.\<close>

theorem delegated_task_ends:
  "\<exists>r w'. delegate 26 env t ctx (Some i) w = Some (r, w') \<and>
     (if trim_space (ain_name i) = [] \<or> trim_space (ain_description i) = [] \<or> trim_space (ain_input i) = [] \<or>
         \<not> distinct (map tool_name (agt_tools t))
      then isl r \<and> w' = w
      else (\<exists>a res e. New_agent (Some (agt_llm t)) (trim_space (ain_name i)) (trim_space (ain_description i)) = Inr a \<and>
          Run 26 env (a\<lparr>ag_tools := agt_tools t\<rparr>) ctx [Text (trim_space (ain_input i))] w = Some ((res, e), w') \<and>
          r = (case e of None \<Rightarrow> Inr (result_text res) | Some e' \<Rightarrow> Inl (DelegateFailed e'))))"
proof (cases "trim_space (ain_name i) = [] \<or> trim_space (ain_description i) = [] \<or> trim_space (ain_input i) = []")
  case True
  then show ?thesis by (auto simp: delegate_def Let_def)
next
  case False
  then obtain a where a: "New_agent (Some (agt_llm t)) (trim_space (ain_name i)) (trim_space (ain_description i)) = Inr a" "ag_tools a = []"
    "ag_max_iterations a = int (Suc 24)"
    by (simp add: New_agent_def DefaultMaxIterations_def)
  let ?a = "a\<lparr>ag_tools := agt_tools t\<rparr>"
  show ?thesis
  proof (cases "distinct (map tool_name (agt_tools t))")
    case True
    have add: "add_tools (agt_tools t) a = Inr ?a"
      using add_tools_Inr [of "agt_tools t" a] add_tools_Inl [of "agt_tools t" a] True a(2) by (cases "add_tools (agt_tools t) a") auto
    obtain fin rs w' where "run_agent (24 + 2) env ?a ctx None [Text (trim_space (ain_input i))] w = Some (fin, rs, w')"
      using run_returns [of ?a 24 env ctx None "[Text (trim_space (ain_input i))]" w] a(3) by auto
    then have run: "Run 26 env ?a ctx [Text (trim_space (ain_input i))] w = Some (fin, w')" by (simp add: Run_def)
    obtain res e where fin: "fin = (res, e)" by fastforce
    have "delegate 26 env t ctx (Some i) w = Some (case e of None \<Rightarrow> Inr (result_text res) | Some e' \<Rightarrow> Inl (DelegateFailed e'), w')"
      using False a(1) add run fin by (simp add: delegate_def Let_def split: option.splits)
    then show ?thesis using False True a(1) run fin by auto
  next
    case no: False
    obtain e where "add_tools (agt_tools t) a = Inl e"
      using add_tools_Inr [of "agt_tools t" a] no by (cases "add_tools (agt_tools t) a") auto
    then show ?thesis using False no a(1) by (simp add: delegate_def Let_def)
  qed
qed

subsection \<open>A key-value bucket\<close>

record 'w bucket =
  kb_get :: "string \<Rightarrow> 'w \<Rightarrow> (err + string) \<times> 'w"
  kb_put :: "string \<Rightarrow> string \<Rightarrow> 'w \<Rightarrow> err option \<times> 'w"

definition kv_read :: "'w bucket \<Rightarrow> string \<Rightarrow> 'w \<Rightarrow> (err + string) \<times> 'w" where
  "kv_read b key w =
     (case kb_get b key w of
        (Inl e, w') \<Rightarrow> (if err_is e ErrKeyNotFound then Inr [] else Inl e, w')
      | (Inr v, w') \<Rightarrow> (Inr v, w'))"

definition kv_write :: "'w bucket \<Rightarrow> string \<Rightarrow> string \<Rightarrow> 'w \<Rightarrow> (err + string) \<times> 'w" where
  "kv_write b key v w = (case kb_put b key v w of (Some e, w') \<Rightarrow> (Inl e, w') | (None, w') \<Rightarrow> (Inr ''ok'', w'))"

end
