(* ===== verification/Skill_Files.thy ===== *)
theory Skill_Files
  imports File_Search Json_Text
begin

section \<open>Package skill\<close>

text \<open>
  \<open>skill/skill.go\<close>: skills in the directories of a root, their SKILL.md files, and several roots of which the
  earlier one wins. The file system is the tree of the file tools (\<open>File_Search\<close>); the YAML decoder, which is
  not under src/, is the argument \<open>yaml\<close>. Metadata are what it makes of them. That a later root cannot change a
  skill an earlier one holds is \<open>earlier_root_wins\<close>.
\<close>

definition defaultSkillsRootPath :: string where "defaultSkillsRootPath = ''skills''"
definition skillFileName :: string where "skillFileName = ''SKILL.md''"
definition yamlFrontmatterDelim :: string where "yamlFrontmatterDelim = ''---''"
definition yamlFrontmatterSections :: nat where "yamlFrontmatterSections = 3"

record skill =
  sk_root_path :: string
  sk_name :: string
  sk_description :: string
  sk_license :: string
  sk_compatibility :: string
  sk_metadata :: "(string \<times> string) list"
  sk_allowed_tools :: string
  sk_body :: string

datatype skill_err = SkillOs os_err | ErrMissingYAMLFrontmatter | ErrInvalidSkillFormat | YamlError string | SkillNotExist string

type_synonym yaml = "string \<Rightarrow> string + skill"

subsection \<open>Allowed tools\<close>

definition flush_tool :: "string \<Rightarrow> string list" where
  "flush_tool cur = (let t = trim_space cur in if t \<noteq> [] then [t] else [])"

definition tools_separator :: "string \<Rightarrow> bool" where
  "tools_separator r \<longleftrightarrow> r = '','' \<or> r = '' '' \<or> r = [CHR 0x09] \<or> r = [CHR 0x0A]"

fun tools_loop :: "nat \<Rightarrow> string \<Rightarrow> string list \<Rightarrow> string list" where
  "tools_loop depth cur [] = flush_tool cur"
| "tools_loop depth cur (r # rs) =
     (if r = ''('' then tools_loop (depth + 1) (cur @ r) rs
      else if r = '')'' \<and> 0 < depth then tools_loop (depth - 1) (cur @ r) rs
      else if tools_separator r \<and> depth = 0 then flush_tool cur @ tools_loop depth [] rs
      else tools_loop depth (cur @ r) rs)"

definition Tools :: "skill \<Rightarrow> string list" where "Tools s = tools_loop 0 [] (runes (sk_allowed_tools s))"

subsection \<open>SKILL.md\<close>

text \<open>\<open>strings.SplitN\<close> with a separator that is not empty.\<close>

fun split_n :: "nat \<Rightarrow> string \<Rightarrow> string \<Rightarrow> string list" where
  "split_n 0 s sep = []"
| "split_n (Suc 0) s sep = [s]"
| "split_n (Suc (Suc n)) s sep =
     (case go_index s sep of None \<Rightarrow> [s] | Some i \<Rightarrow> take i s # split_n (Suc n) (drop (i + length sep) s) sep)"

definition Parse_skill :: "yaml \<Rightarrow> string \<Rightarrow> skill_err + skill" where
  "Parse_skill yaml data =
     (let content = trim_space data in
      if \<not> has_prefix content yamlFrontmatterDelim then Inl ErrMissingYAMLFrontmatter
      else
        (let ps = split_n yamlFrontmatterSections content yamlFrontmatterDelim in
         if length ps < yamlFrontmatterSections then Inl ErrInvalidSkillFormat
         else (case yaml (ps ! 1) of
             Inl e \<Rightarrow> Inl (YamlError e)
           | Inr s \<Rightarrow> Inr (s\<lparr>sk_body := trim_space (ps ! 2)\<rparr>))))"

subsection \<open>Roots\<close>

definition New_parser :: "string \<Rightarrow> string" where
  "New_parser root = (if root = [] then defaultSkillsRootPath else root)"

text \<open>\<open>os.ReadDir\<close>: the entries by name.\<close>

definition ReadDir :: "search_env \<Rightarrow> string \<Rightarrow> os_err + (string \<times> dtree) list" where
  "ReadDir env p = (let s = disk_of env in check_fault s OpRead p (\<lambda>_.
     (case namei (nodes s) True kernel_links [] (from_cwd s p) of
        Inl e \<Rightarrow> Inl e
      | Inr q \<Rightarrow> (case subtree (se_tree env) q of Some (DirT m kids) \<Rightarrow> Inr kids | Some _ \<Rightarrow> Inl ENOTDIR | None \<Rightarrow> Inl ENOENT))))"

definition skill_file :: "string \<Rightarrow> string \<Rightarrow> string" where "skill_file root name = Join [root, name, skillFileName]"

definition List_root :: "search_env \<Rightarrow> string \<Rightarrow> skill_err + string list" where
  "List_root env root =
     (case ReadDir env root of
        Inl e \<Rightarrow> Inl (SkillOs e)
      | Inr kids \<Rightarrow>
          Inr (map fst (filter (\<lambda>(n, d). is_dir d \<and> (case stat (disk_of env) (skill_file root n) of Inl e \<Rightarrow> False | Inr nd \<Rightarrow> True)) kids)))"

definition Parse_root :: "search_env \<Rightarrow> yaml \<Rightarrow> string \<Rightarrow> string \<Rightarrow> skill_err + skill" where
  "Parse_root env yaml root name =
     (case read_file (disk_of env) (skill_file root name) of
        Inl e \<Rightarrow> Inl (SkillOs e)
      | Inr data \<Rightarrow>
          (case Parse_skill yaml data of
             Inl e \<Rightarrow> Inl e
           | Inr s \<Rightarrow> Inr (s\<lparr>sk_root_path := Abs (disk_of env) (Join [root, name])\<rparr>)))"

text \<open>\<open>errors.Is(err, os.ErrNotExist)\<close>.\<close>

fun not_exist :: "skill_err \<Rightarrow> bool" where
  "not_exist (SkillOs e) = (e = ENOENT)"
| "not_exist (SkillNotExist n) = True"
| "not_exist e = False"

definition NewMulti :: "string list \<Rightarrow> string list" where "NewMulti roots = map New_parser roots"

fun list_multi :: "search_env \<Rightarrow> string list \<Rightarrow> string list \<Rightarrow> skill_err + string list" where
  "list_multi env names [] = Inr names"
| "list_multi env names (p # ps) =
     (case List_root env p of
        Inl e \<Rightarrow> (if not_exist e then list_multi env names ps else Inl e)
      | Inr dirs \<Rightarrow> list_multi env (fold (\<lambda>d ns. if d \<in> set ns then ns else ns @ [d]) dirs names) ps)"

definition List_multi :: "search_env \<Rightarrow> string list \<Rightarrow> skill_err + string list" where
  "List_multi env parsers = list_multi env [] parsers"

fun Parse_multi :: "search_env \<Rightarrow> yaml \<Rightarrow> string list \<Rightarrow> string \<Rightarrow> skill_err + skill" where
  "Parse_multi env yaml [] name = Inl (SkillNotExist name)"
| "Parse_multi env yaml (p # ps) name =
     (case Parse_root env yaml p name of
        Inl e \<Rightarrow> (if not_exist e then Parse_multi env yaml ps name else Inl e)
      | Inr s \<Rightarrow> Inr s)"

subsection \<open>The earlier root wins\<close>

text \<open>A file that \<open>stat\<close> finds, \<open>read_file\<close> does not miss.\<close>

lemma stat_read: "stat s p = Inr nd \<Longrightarrow> read_file s p \<noteq> Inl ENOENT"
  by (auto simp: stat_def read_file_def check_fault_def split: option.splits sum.splits node.splits)

lemma Parse_skill_exists: "Parse_skill yaml data = Inl e \<Longrightarrow> \<not> not_exist e"
  by (auto simp: Parse_skill_def Let_def split: if_splits sum.splits)

lemma Parse_root_exists:
  assumes "stat (disk_of env) (skill_file root name) = Inr nd" and "Parse_root env yaml root name = Inl e"
  shows "\<not> not_exist e"
  using assms stat_read [OF assms(1)] Parse_skill_exists by (auto simp: Parse_root_def split: sum.splits)

lemma listed_stat: "List_root env root = Inr names \<Longrightarrow> n \<in> set names \<Longrightarrow> \<exists>nd. stat (disk_of env) (skill_file root n) = Inr nd"
  by (auto simp: List_root_def split: sum.splits)

lemma Parse_multi_append:
  assumes "List_root env root = Inr names" and "n \<in> set names" and "root \<in> set roots"
  shows "Parse_multi env yaml (roots @ later_roots) n = Parse_multi env yaml roots n"
  using assms(3)
proof (induction roots)
  case (Cons p ps)
  show ?case
  proof (cases "p = root")
    case True
    obtain nd where nd: "stat (disk_of env) (skill_file root n) = Inr nd" using listed_stat [OF assms(1,2)] by blast
    show ?thesis using True Parse_root_exists [OF nd] by (auto split: sum.splits)
  next
    case False
    then show ?thesis using Cons by (simp split: sum.splits)
  qed
qed simp

lemma list_multi_append: "list_multi env names (ps @ qs) = (case list_multi env names ps of Inl e \<Rightarrow> Inl e | Inr ns \<Rightarrow> list_multi env ns qs)"
  by (induction ps arbitrary: names) (auto split: sum.splits)

lemma add_new_names: "\<exists>new. fold (\<lambda>d ns. if d \<in> set ns then ns else ns @ [d]) dirs names = names @ new \<and> set new \<subseteq> set dirs \<and>
    set dirs \<subseteq> set names \<union> set new \<and> (distinct names \<longrightarrow> distinct (names @ new))"
proof (induction dirs arbitrary: names)
  case (Cons d ds)
  obtain new where new: "fold (\<lambda>d ns. if d \<in> set ns then ns else ns @ [d]) ds (if d \<in> set names then names else names @ [d]) =
      (if d \<in> set names then names else names @ [d]) @ new" "set new \<subseteq> set ds"
    "set ds \<subseteq> set (if d \<in> set names then names else names @ [d]) \<union> set new"
    "distinct (if d \<in> set names then names else names @ [d]) \<longrightarrow> distinct ((if d \<in> set names then names else names @ [d]) @ new)"
    using Cons.IH [of "if d \<in> set names then names else names @ [d]"] by blast
  show ?case
    by (rule exI [of _ "(if d \<in> set names then [] else [d]) @ new"]) (use new in \<open>auto split: if_splits\<close>)
qed simp

lemma list_multi_extends:
  "list_multi env names ps = Inr ns \<Longrightarrow> \<exists>new. ns = names @ new \<and> (distinct names \<longrightarrow> distinct ns) \<and>
     list_all (\<lambda>n. list_ex (\<lambda>p. case List_root env p of Inl e \<Rightarrow> False | Inr ds \<Rightarrow> n \<in> set ds) ps) new"
proof (induction ps arbitrary: names)
  case (Cons p ps)
  show ?case
  proof (cases "List_root env p")
    case (Inl e)
    then have "list_multi env names ps = Inr ns" using Cons.prems by (simp split: if_splits)
    from Cons.IH [OF this] show ?thesis by (auto simp: list_all_iff)
  next
    case (Inr dirs)
    obtain new where new: "fold (\<lambda>d ns. if d \<in> set ns then ns else ns @ [d]) dirs names = names @ new" "set new \<subseteq> set dirs"
      "distinct names \<longrightarrow> distinct (names @ new)" using add_new_names [of dirs names] by blast
    then have "list_multi env (names @ new) ps = Inr ns" using Cons.prems Inr by simp
    from Cons.IH [OF this] obtain new2 where "ns = (names @ new) @ new2" "distinct (names @ new) \<longrightarrow> distinct ns"
      "list_all (\<lambda>n. list_ex (\<lambda>p. case List_root env p of Inl e \<Rightarrow> False | Inr ds \<Rightarrow> n \<in> set ds) ps) new2" by blast
    then show ?thesis using new Inr by (intro exI [of _ "new @ new2"]) (auto simp: list_all_iff)
  qed
qed simp

lemma listed_in_root:
  assumes "List_multi env roots = Inr names" and "n \<in> set names"
  obtains root ds where "root \<in> set roots" "List_root env root = Inr ds" "n \<in> set ds"
proof -
  have "list_ex (\<lambda>p. case List_root env p of Inl e \<Rightarrow> False | Inr ds \<Rightarrow> n \<in> set ds) roots"
    using list_multi_extends [of env "[]" roots names] assms by (auto simp: List_multi_def list_all_iff)
  then obtain p where p: "p \<in> set roots" "case List_root env p of Inl e \<Rightarrow> False | Inr ds \<Rightarrow> n \<in> set ds" by (auto simp: list_ex_iff)
  show ?thesis using p that by (cases "List_root env p") auto
qed

lemma listed_parse_same:
  assumes "List_multi env roots = Inr names" and "n \<in> set names"
  shows "Parse_multi env yaml (roots @ later_roots) n = Parse_multi env yaml roots n"
  using listed_in_root [OF assms] Parse_multi_append by metis

subsection \<open>Allowed tools are read back\<close>

text \<open>The depth of the parentheses behind a text without a separator outside them.\<close>

fun scan_tool :: "nat \<Rightarrow> string \<Rightarrow> nat option" where
  "scan_tool d [] = Some d"
| "scan_tool d (c # cs) =
     (if c = CHR ''('' then scan_tool (d + 1) cs
      else if c = CHR '')'' \<and> 0 < d then scan_tool (d - 1) cs
      else if tools_separator [c] \<and> d = 0 then None
      else scan_tool d cs)"

definition tool_entry :: "string \<Rightarrow> bool" where
  "tool_entry t \<longleftrightarrow> t \<noteq> [] \<and> trim_space t = t \<and> list_all (\<lambda>c. byte c < 128) t \<and> scan_tool 0 t = Some 0"

lemma runes_ascii: "list_all (\<lambda>c. byte c < 128) s \<Longrightarrow> runes s = map (\<lambda>c. [c]) s"
  by (simp add: runes_def utf8_chunks_ascii rune_size_ascii list_all_iff)

lemma tools_loop_entry:
  "scan_tool d t = Some d' \<Longrightarrow> tools_loop d cur (map (\<lambda>c. [c]) t @ rs) = tools_loop d' (cur @ t) rs"
  by (induction d t arbitrary: cur rule: scan_tool.induct) (auto simp: tools_separator_def split: if_splits)

lemma tools_loop_separators:
  "list_all tools_separator (map (\<lambda>c. [c]) sep) \<Longrightarrow> tools_loop 0 [] (map (\<lambda>c. [c]) sep @ rs) = tools_loop 0 [] rs"
proof (induction sep)
  case (Cons c cs)
  have "trim_space [] = []" by (simp add: trim_space_def drop_while_end_def)
  then show ?case using Cons by (auto simp: tools_separator_def flush_tool_def)
qed simp

definition tools_sep :: "string \<Rightarrow> bool" where
  "tools_sep sep \<longleftrightarrow> sep \<noteq> [] \<and> list_all (\<lambda>c. tools_separator [c]) sep"

lemma tools_sep_ascii: "tools_sep sep \<Longrightarrow> list_all (\<lambda>c. byte c < 128) sep"
proof -
  have "byte c < 128" if "tools_separator [c]" for c
    using that unfolding tools_separator_def by (elim disjE) (simp_all add: byte_def)
  then show "tools_sep sep \<Longrightarrow> list_all (\<lambda>c. byte c < 128) sep" by (simp add: tools_sep_def list_all_iff)
qed

lemma tools_loop_list:
  assumes "list_all tool_entry ts" and "tools_sep sep"
  shows "tools_loop 0 [] (map (\<lambda>c. [c]) (go_join ts sep)) = ts"
  using assms(1)
proof (induction ts)
  case Nil
  have "trim_space [] = []" by (simp add: trim_space_def drop_while_end_def)
  then show ?case by (simp add: flush_tool_def)
next
  case (Cons t ts)
  have t: "scan_tool 0 t = Some 0" "flush_tool t = [t]" using Cons.prems by (simp_all add: tool_entry_def flush_tool_def)
  show ?case
  proof (cases ts)
    case Nil
    then show ?thesis using tools_loop_entry [OF t(1), of "[]" "[]"] t(2) by simp
  next
    case (Cons u us)
    obtain c cs where sep: "sep = c # cs" "tools_separator [c]" "list_all tools_separator (map (\<lambda>c. [c]) cs)"
      using assms(2) by (cases sep) (auto simp: tools_sep_def list_all_iff)
    have "go_join (t # ts) sep = t @ sep @ go_join ts sep" using Cons by (simp add: go_join_Cons)
    then have "tools_loop 0 [] (map (\<lambda>c. [c]) (go_join (t # ts) sep)) =
        tools_loop 0 t ([c] # map (\<lambda>c. [c]) cs @ map (\<lambda>c. [c]) (go_join ts sep))"
      using tools_loop_entry [OF t(1), of "[]"] sep(1) by simp
    also have "\<dots> = flush_tool t @ tools_loop 0 [] (map (\<lambda>c. [c]) (go_join ts sep))"
      using sep(2) tools_loop_separators [OF sep(3)] by (auto simp: tools_separator_def)
    finally show ?thesis using Cons.IH Cons.prems t(2) by simp
  qed
qed

lemma go_join_ascii: "list_all (\<lambda>t. list_all P t) ts \<Longrightarrow> list_all P sep \<Longrightarrow> list_all P (go_join ts sep)"
proof (induction ts)
  case (Cons t ts)
  then show ?case by (cases "ts = []") (auto simp: go_join_Cons)
qed simp

text \<open>An allowed-tools field that lists entries, whose parentheses are balanced and which hold a separator only within them, reads back as that list, whether they are separated by commas, by white space or by both.\<close>

theorem allowed_tools_read_back:
  assumes "list_all tool_entry ts" and "tools_sep sep" and "sk_allowed_tools s = go_join ts sep"
  shows "Tools s = ts"
proof -
  have "list_all (\<lambda>c. byte c < 128) (go_join ts sep)"
    using assms(1) tools_sep_ascii [OF assms(2)] by (intro go_join_ascii) (auto simp: tool_entry_def list_all_iff)
  then show ?thesis using tools_loop_list [OF assms(1,2)] assms(3) by (simp add: Tools_def runes_ascii)
qed

definition demo_skill :: skill where
  "demo_skill = \<lparr>sk_root_path = [], sk_name = ''s'', sk_description = ''d'', sk_license = [], sk_compatibility = [], sk_metadata = [],
     sk_allowed_tools = ''Bash(git status), Read'', sk_body = []\<rparr>"

theorem allowed_tools_read_back_witness: "Tools demo_skill = [''Bash(git status)'', ''Read'']"
proof (rule allowed_tools_read_back)
  show "list_all tool_entry [''Bash(git status)'', ''Read'']" by code_simp
  show "tools_sep '', ''" by code_simp
  show "sk_allowed_tools demo_skill = go_join [''Bash(git status)'', ''Read''] '', ''" by (simp add: demo_skill_def)
qed

text \<open>A value with three dashes ends the frontmatter: the YAML is cut there and the rest becomes the body.\<close>

lemma dashes_end_frontmatter:
  "split_n 3 (''---'' @ [CHR 0x0A] @ ''name: a---b'' @ [CHR 0x0A] @ ''---'' @ [CHR 0x0A] @ ''body'') yamlFrontmatterDelim =
     [[], [CHR 0x0A] @ ''name: a'', ''b'' @ [CHR 0x0A] @ ''---'' @ [CHR 0x0A] @ ''body'']"
  by code_simp

end
