(* ===== verification/Skill_Tool.thy ===== *)
theory Skill_Tool
  imports Skill_Files Bash_Tool
begin

section \<open>The skill tool\<close>

text \<open>
  \<open>tool/skill/tool.go\<close>: the catalog of the skills a parser finds, the commands that lead to them, the
  description the model reads and the handler that loads one. A parser is a pair of functions, as the interface of the
  code has it; \<open>New\<close> and \<open>WithRoots\<close> give those of \<open>Skill_Files\<close>. \<open>lr\<close> is the lower case of a rune outside ASCII.
  A later root cannot take a command from an earlier one (\<open>commands_of_earlier_roots\<close>).
\<close>

record skill_parser =
  spr_list :: "skill_err + string list"
  spr_parse :: "string \<Rightarrow> skill_err + skill"

definition root_parser :: "search_env \<Rightarrow> yaml \<Rightarrow> string \<Rightarrow> skill_parser" where
  "root_parser env yaml root = \<lparr>spr_list = List_root env (New_parser root), spr_parse = Parse_root env yaml (New_parser root)\<rparr>"

definition WithRoots :: "search_env \<Rightarrow> yaml \<Rightarrow> string list \<Rightarrow> skill_parser" where
  "WithRoots env yaml roots = \<lparr>spr_list = List_multi env (NewMulti roots), spr_parse = Parse_multi env yaml (NewMulti roots)\<rparr>"

record available_skill =
  av_name :: string
  av_description :: string
  av_location :: string

record catalog_entry =
  ce_dir :: string
  ce_skill_path :: string
  ce_skill :: available_skill

datatype skip_reason =
    SkipParse string skill_err | SkipNoName string | SkipNoDescription string | SkipDuplicate string string string

record skill_tool =
  stl_catalog :: "catalog_entry list"
  stl_commands :: "string \<rightharpoonup> catalog_entry"
  stl_skipped :: "skip_reason list"

text \<open>The loop over the directories: the entries, the commands and what was skipped so far.\<close>

type_synonym catalog_state = "catalog_entry list \<times> (string \<rightharpoonup> catalog_entry) \<times> skip_reason list"

definition new_entry :: "string \<Rightarrow> string \<Rightarrow> skill \<Rightarrow> catalog_entry" where
  "new_entry skillsRootPath dir s =
     (let skillPath = (if sk_root_path s \<noteq> [] then sk_root_path s else Clean (Join [skillsRootPath, dir]))
      in \<lparr>ce_dir = dir, ce_skill_path = skillPath,
          ce_skill = \<lparr>av_name = trim_space (sk_name s), av_description = trim_space (sk_description s), av_location = skillPath\<rparr>\<rparr>)"

definition add_dir :: "(string \<Rightarrow> string) \<Rightarrow> (string \<Rightarrow> skill_err + skill) \<Rightarrow> string \<Rightarrow> string \<Rightarrow> catalog_state \<Rightarrow> catalog_state" where
  "add_dir lr parse skillsRootPath dir st =
     (case st of (entries, commands, skipped) \<Rightarrow>
       case parse dir of
         Inl e \<Rightarrow> (entries, commands, skipped @ [SkipParse dir e])
       | Inr s \<Rightarrow>
           (let name = trim_space (sk_name s); description = trim_space (sk_description s) in
            if name = [] then (entries, commands, skipped @ [SkipNoName dir])
            else if description = [] then (entries, commands, skipped @ [SkipNoDescription dir])
            else
              (let entry = new_entry skillsRootPath dir s; normalizedName = go_to_lower lr name in
               case commands normalizedName of
                 Some existing \<Rightarrow> (entries, commands, skipped @ [SkipDuplicate name (ce_dir existing) dir])
               | None \<Rightarrow>
                   (let commands1 = commands(normalizedName \<mapsto> entry);
                        normalizedDir = go_to_lower lr (trim_space dir);
                        commands2 = (if normalizedDir \<noteq> [] \<and> commands1 normalizedDir = None
                                     then commands1(normalizedDir \<mapsto> entry) else commands1)
                    in (entries @ [entry], commands2, skipped)))))"

definition entry_key :: "(string \<Rightarrow> string) \<Rightarrow> catalog_entry \<Rightarrow> string" where
  "entry_key lr e = go_to_lower lr (av_name (ce_skill e))"

definition buildCatalog :: "(string \<Rightarrow> string) \<Rightarrow> skill_parser \<Rightarrow> string \<Rightarrow> skill_err + skill_tool" where
  "buildCatalog lr p skillsRootPath =
     (case spr_list p of
        Inl e \<Rightarrow> Inl e
      | Inr dirs \<Rightarrow>
          (case fold (add_dir lr (spr_parse p) skillsRootPath) dirs ([], (\<lambda>_. None), []) of
             (entries, commands, skipped) \<Rightarrow>
               Inr \<lparr>stl_catalog = sort_key (entry_key lr) entries, stl_commands = commands, stl_skipped = skipped\<rparr>))"

definition New_skill_tool :: "(string \<Rightarrow> string) \<Rightarrow> search_env \<Rightarrow> yaml \<Rightarrow> string \<Rightarrow> skill_parser option \<Rightarrow> skill_err + skill_tool" where
  "New_skill_tool lr env yaml root0 parser =
     (let root = trim_space root0 in
      buildCatalog lr (case parser of None \<Rightarrow> root_parser env yaml root | Some p \<Rightarrow> p) root)"

subsection \<open>What the model reads\<close>

definition escape_char :: "char \<Rightarrow> string" where
  "escape_char c =
     (if c = CHR ''&'' then ''&amp;'' else if c = CHR ''<'' then ''&lt;'' else if c = CHR ''>'' then ''&gt;''
      else if c = CHR 0x22 then ''&quot;'' else if c = CHR 0x27 then ''&apos;'' else [c])"

definition escapeXML :: "string \<Rightarrow> string" where "escapeXML s = concat (map escape_char s)"

definition nl :: string where "nl = [CHR 0x0A]"

definition skill_xml :: "catalog_entry \<Rightarrow> string" where
  "skill_xml e =
     ''  <skill>'' @ nl @ ''    <name>'' @ escapeXML (av_name (ce_skill e)) @ ''</name>'' @ nl @
     ''    <description>'' @ escapeXML (av_description (ce_skill e)) @ ''</description>'' @ nl @
     ''    <location>'' @ escapeXML (av_location (ce_skill e)) @ ''</location>'' @ nl @ ''  </skill>'' @ nl"

definition skill_intro :: string where
  "skill_intro =
     ''Execute a skill within the main conversation.'' @ nl @ nl @ ''<skills_instructions>'' @ nl @
     ''When users ask you to perform tasks, check if any available skill can help complete the task more effectively.'' @ nl @
     ''Invoke this tool with the skill name only in the command field, and any arguments for the skill in the arguments field.'' @ nl @
     ''Do not pass arguments inside command.'' @ nl @
     ''After invocation, use the returned base path and instructions to execute the task in the same conversation.'' @ nl @
     ''</skills_instructions>'' @ nl @ nl @ ''<available_skills>'' @ nl"

definition buildDescription :: "skill_tool \<Rightarrow> string" where
  "buildDescription t = skill_intro @ concat (map skill_xml (stl_catalog t)) @ ''</available_skills>''"

subsection \<open>Loading\<close>

definition argumentsPlaceholder :: string where "argumentsPlaceholder = ''$ARGUMENTS''"

definition withArguments :: "string \<Rightarrow> string \<Rightarrow> string" where
  "withArguments instructions args =
     (if go_contains instructions argumentsPlaceholder then go_join (split_sep instructions argumentsPlaceholder) args
      else if args = [] then instructions
      else instructions @ nl @ nl @ ''ARGUMENTS: '' @ args)"

record skill_output =
  so_launch_message :: string
  so_command_message :: string
  so_command_name :: string
  so_base_path :: string
  so_instructions :: string
  so_expansion :: string
  so_available :: "available_skill list"
  so_allowed_tools :: "string list"

datatype skill_tool_err = SkillNilInput | SkillCommandRequired | SkillInvalidCommand | SkillNotFound string | SkillParse skill_err

text \<open>\<open>onLoad\<close> acts on the world when a skill is loaded.\<close>

definition load_skill ::
  "(string \<Rightarrow> string) \<Rightarrow> skill_parser \<Rightarrow> skill_tool \<Rightarrow> (skill \<Rightarrow> 'w \<Rightarrow> 'w) option \<Rightarrow> (string \<times> string) option \<Rightarrow> 'w \<Rightarrow>
     (skill_tool_err + skill_output) \<times> 'w" where
  "load_skill lr p t onLoad input w =
     (case input of
        None \<Rightarrow> (Inl SkillNilInput, w)
      | Some (command0, arguments) \<Rightarrow>
          (let command = trim_space command0 in
           if command = [] then (Inl SkillCommandRequired, w)
           else if go_fields command \<noteq> [command] then (Inl SkillInvalidCommand, w)
           else (case stl_commands t (go_to_lower lr command) of
               None \<Rightarrow> (Inl (SkillNotFound command), w)
             | Some entry \<Rightarrow>
                 (case spr_parse p (ce_dir entry) of
                    Inl e \<Rightarrow> (Inl (SkillParse e), w)
                  | Inr s \<Rightarrow>
                      (let basePath = (if trim_space (sk_root_path s) = [] then ce_skill_path entry else sk_root_path s);
                           instructions = withArguments (trim_space (sk_body s)) (trim_space arguments);
                           name = av_name (ce_skill entry)
                       in (Inr \<lparr>so_launch_message = ''Launching skill: '' @ name,
                              so_command_message = ''The '' @ [CHR 0x22] @ name @ [CHR 0x22] @ '' skill is running'',
                              so_command_name = name, so_base_path = basePath, so_instructions = instructions,
                              so_expansion = ''Base Path: '' @ basePath @ nl @ nl @ instructions,
                              so_available = map ce_skill (stl_catalog t), so_allowed_tools = Tools s\<rparr>,
                           (case onLoad of None \<Rightarrow> w | Some f \<Rightarrow> f s w)))))))"

subsection \<open>The catalog\<close>

definition cat_inv :: "(string \<Rightarrow> string) \<Rightarrow> catalog_state \<Rightarrow> bool" where
  "cat_inv lr st = (case st of (entries, commands, skipped) \<Rightarrow>
     (\<forall>e \<in> set entries. commands (entry_key lr e) = Some e) \<and> distinct (map (entry_key lr) entries) \<and>
     (\<forall>k e. commands k = Some e \<longrightarrow> e \<in> set entries \<and> (k = entry_key lr e \<or> k = go_to_lower lr (trim_space (ce_dir e)))))"

lemma add_dir_cases:
  assumes "add_dir lr parse root dir (entries, commands, skipped) = (entries', commands', skipped')"
  obtains (skip) "entries' = entries" "commands' = commands"
  | (add) s e where "parse dir = Inr s" "e = new_entry root dir s" "commands (entry_key lr e) = None" "entries' = entries @ [e]" "ce_dir e = dir"
      "commands' = (let c = commands(entry_key lr e \<mapsto> e); k = go_to_lower lr (trim_space dir) in if k \<noteq> [] \<and> c k = None then c(k \<mapsto> e) else c)"
proof (cases "parse dir")
  case (Inl e)
  then show ?thesis using assms skip by (simp add: add_dir_def)
next
  case (Inr s)
  let ?e = "new_entry root dir s"
  have key: "entry_key lr ?e = go_to_lower lr (trim_space (sk_name s))" "ce_dir ?e = dir" by (simp_all add: entry_key_def new_entry_def Let_def)
  show ?thesis
  proof (cases "trim_space (sk_name s) = [] \<or> trim_space (sk_description s) = [] \<or> commands (entry_key lr ?e) \<noteq> None")
    case True
    then show ?thesis using assms Inr key by (intro skip) (auto simp: add_dir_def Let_def split: if_splits option.splits)
  next
    case False
    then show ?thesis using assms Inr key by (intro add [OF Inr refl]) (auto simp: add_dir_def Let_def)
  qed
qed

lemma add_dir_inv: "cat_inv lr st \<Longrightarrow> cat_inv lr (add_dir lr parse root dir st)"
proof -
  assume inv: "cat_inv lr st"
  obtain entries commands skipped where st: "st = (entries, commands, skipped)" by (metis prod_cases3)
  obtain entries' commands' skipped' where st': "add_dir lr parse root dir st = (entries', commands', skipped')" by (metis prod_cases3)
  from st' st have eq: "add_dir lr parse root dir (entries, commands, skipped) = (entries', commands', skipped')" by simp
  then show ?thesis
  proof (cases rule: add_dir_cases)
    case skip
    then show ?thesis using inv st st' by (simp add: cat_inv_def)
  next
    case (add s e)
    have old: "commands (entry_key lr x) = Some x" "entry_key lr x \<noteq> entry_key lr e" if "x \<in> set entries" for x
      using inv st that add(3) by (auto simp: cat_inv_def)
    have new: "entry_key lr e \<notin> entry_key lr ` set entries" using old(2) by (metis imageE)
    define c' where "c' = commands'"
    have c': "c' j = (if j = entry_key lr e then Some e
        else if commands j = None \<and> j = go_to_lower lr (trim_space dir) \<and> j \<noteq> [] then Some e else commands j)" for j
      using add(3,6) by (auto simp: c'_def Let_def)
    have "\<forall>x \<in> set entries'. c' (entry_key lr x) = Some x" using old c' add(4) by auto
    moreover have "distinct (map (entry_key lr) entries')" using inv st add(4) new by (simp add: cat_inv_def)
    moreover have "x \<in> set entries' \<and> (j = entry_key lr x \<or> j = go_to_lower lr (trim_space (ce_dir x)))" if "c' j = Some x" for j x
      using inv st add(4,5) that c' [of j] by (auto simp: cat_inv_def split: if_splits)
    ultimately show ?thesis using st' by (simp add: cat_inv_def c'_def)
  qed
qed

lemma add_dir_keeps: "commands k = Some e \<Longrightarrow> fst (snd (add_dir lr parse root dir (entries, commands, skipped))) k = Some e"
proof -
  assume k: "commands k = Some e"
  obtain entries' commands' skipped' where st: "add_dir lr parse root dir (entries, commands, skipped) = (entries', commands', skipped')" by (metis prod_cases3)
  then have "commands' k = Some e"
    by (cases rule: add_dir_cases) (use k in \<open>auto simp: Let_def split: if_splits\<close>)
  then show ?thesis using st by simp
qed

lemma fold_add_dir_inv: "cat_inv lr st \<Longrightarrow> cat_inv lr (fold (add_dir lr parse root) dirs st)"
  by (induction dirs arbitrary: st) (simp_all add: add_dir_inv)

lemma fold_add_dir_keeps: "fst (snd st) k = Some e \<Longrightarrow> fst (snd (fold (add_dir lr parse root) dirs st)) k = Some e"
proof (induction dirs arbitrary: st)
  case (Cons d ds)
  obtain entries commands skipped where st: "st = (entries, commands, skipped)" by (metis prod_cases3)
  show ?case using Cons.IH [of "add_dir lr parse root d st"] add_dir_keeps [of commands k e lr parse root d entries skipped] Cons.prems st by simp
qed simp

lemma fold_add_dir_cong:
  "(\<And>d. d \<in> set dirs \<Longrightarrow> parse d = parse' d) \<Longrightarrow> fold (add_dir lr parse root) dirs st = fold (add_dir lr parse' root) dirs st"
  by (rule fold_cong) (auto simp: add_dir_def fun_eq_iff)


lemma fold_add_dir_dirs:
  "ce_dir ` set (fst (fold (add_dir lr parse root) dirs st)) \<subseteq> ce_dir ` set (fst st) \<union> set dirs"
proof (induction dirs arbitrary: st)
  case (Cons d ds)
  obtain entries commands skipped where st: "st = (entries, commands, skipped)" by (metis prod_cases3)
  obtain entries' commands' skipped' where st': "add_dir lr parse root d (entries, commands, skipped) = (entries', commands', skipped')" by (metis prod_cases3)
  have "ce_dir ` set entries' \<subseteq> ce_dir ` set entries \<union> {d}"
    using st' by (cases rule: add_dir_cases) auto
  moreover have "ce_dir ` set (fst (fold (add_dir lr parse root) ds (entries', commands', skipped'))) \<subseteq> ce_dir ` set entries' \<union> set ds"
    using Cons.IH [of "(entries', commands', skipped')"] by simp
  ultimately have "ce_dir ` set (fst (fold (add_dir lr parse root) ds (entries', commands', skipped'))) \<subseteq> ce_dir ` set entries \<union> set (d # ds)"
    by auto (metis (no_types, lifting) UnE image_eqI insertE subsetD)
  then show ?case using st st' by simp
qed simp

lemma cat_inv_start: "cat_inv lr ([], (\<lambda>_. None), [])"
  by (simp add: cat_inv_def)

lemma WithRoots_fields:
  "spr_list (WithRoots env yaml roots) = List_multi env (NewMulti roots)"
  "spr_parse (WithRoots env yaml roots) = Parse_multi env yaml (NewMulti roots)"
  by (simp_all add: WithRoots_def)

lemma catalog_extends:
  assumes "buildCatalog lr (WithRoots env yaml (roots @ later_roots)) root = Inr t'"
  obtains t where "buildCatalog lr (WithRoots env yaml roots) root = Inr t"
    "\<And>k e. stl_commands t k = Some e \<Longrightarrow> stl_commands t' k = Some e \<and>
       Parse_multi env yaml (NewMulti (roots @ later_roots)) (ce_dir e) = Parse_multi env yaml (NewMulti roots) (ce_dir e)"
proof -
  let ?init = "([], (\<lambda>_. None), []) :: catalog_state"
  let ?p = "Parse_multi env yaml (NewMulti roots)" and ?p' = "Parse_multi env yaml (NewMulti (roots @ later_roots))"
  have app: "NewMulti (roots @ later_roots) = NewMulti roots @ NewMulti later_roots" by (simp add: NewMulti_def)
  obtain ns' where ns': "list_multi env [] (NewMulti roots @ NewMulti later_roots) = Inr ns'"
    using assms by (auto simp: buildCatalog_def WithRoots_fields List_multi_def app split: sum.splits)
  then obtain ns where ns: "list_multi env [] (NewMulti roots) = Inr ns" "list_multi env ns (NewMulti later_roots) = Inr ns'"
    by (auto simp: list_multi_append split: sum.splits)
  from list_multi_extends [OF ns(2)] obtain new where new: "ns' = ns @ new" by blast
  have same: "?p d = ?p' d" if "d \<in> set ns" for d
    using listed_parse_same [of env "NewMulti roots" ns d yaml "NewMulti later_roots"] ns(1) that by (simp add: List_multi_def app)
  let ?st = "fold (add_dir lr ?p root) ns ?init"
  have eq: "fold (add_dir lr ?p' root) ns' ?init = fold (add_dir lr ?p' root) new ?st"
  proof -
    have "?st = fold (add_dir lr ?p' root) ns ?init" by (rule fold_add_dir_cong [of ns ?p ?p', OF same])
    then show ?thesis by (simp only: new fold_append o_apply)
  qed
  obtain entries commands skipped where st: "?st = (entries, commands, skipped)" by (metis prod_cases3)
  obtain entries' commands' skipped' where st': "fold (add_dir lr ?p' root) ns' ?init = (entries', commands', skipped')" by (metis prod_cases3)
  let ?t = "\<lparr>stl_catalog = sort_key (entry_key lr) entries, stl_commands = commands, stl_skipped = skipped\<rparr>"
  have t: "buildCatalog lr (WithRoots env yaml roots) root = Inr ?t"
    using ns(1) st by (simp add: buildCatalog_def WithRoots_fields List_multi_def)
  have t': "stl_commands t' = commands'"
    using assms ns' st' by (simp add: buildCatalog_def WithRoots_fields List_multi_def app split: prod.splits) auto
  have "commands' k = Some e \<and> ?p' (ce_dir e) = ?p (ce_dir e)" if "commands k = Some e" for k e
  proof -
    have "fst (snd ?st) k = Some e" using st that by simp
    from fold_add_dir_keeps [OF this] have "commands' k = Some e" using eq st' by (metis fst_conv snd_conv)
    moreover have "e \<in> set entries" using fold_add_dir_inv [OF cat_inv_start, of lr ?p root ns] st that by (auto simp: cat_inv_def)
    then have "ce_dir e \<in> set ns" using fold_add_dir_dirs [of lr ?p root ns ?init] st by auto
    ultimately show ?thesis using same [of "ce_dir e"] by simp
  qed
  then show ?thesis using that [OF t] t' by simp
qed

subsection \<open>Properties\<close>

text \<open>C31: Adding roots behind the ones given takes no command away from them: every command of the catalog over the first roots leads, in the catalog over all of them, to the same entry, and loads the same skill. So a project cannot answer to the name or the directory of a skill the user trusts, whatever its own skills are called.\<close>

theorem commands_of_earlier_roots:
  assumes "New_skill_tool lr env yaml root (Some (WithRoots env yaml (roots @ later_roots))) = Inr t'"
  shows "\<exists>t. New_skill_tool lr env yaml root (Some (WithRoots env yaml roots)) = Inr t \<and>
    (case stl_commands t k of
       None \<Rightarrow> True
     | Some e \<Rightarrow> stl_commands t' k = Some e \<and>
         spr_parse (WithRoots env yaml (roots @ later_roots)) (ce_dir e) = spr_parse (WithRoots env yaml roots) (ce_dir e))"
proof -
  from assms have "buildCatalog lr (WithRoots env yaml (roots @ later_roots)) (trim_space root) = Inr t'" by (simp add: New_skill_tool_def Let_def)
  from catalog_extends [OF this] obtain t where t: "buildCatalog lr (WithRoots env yaml roots) (trim_space root) = Inr t"
    "\<And>k e. stl_commands t k = Some e \<Longrightarrow> stl_commands t' k = Some e \<and>
       Parse_multi env yaml (NewMulti (roots @ later_roots)) (ce_dir e) = Parse_multi env yaml (NewMulti roots) (ce_dir e)" by blast
  then show ?thesis by (intro exI [of _ t]) (simp add: New_skill_tool_def Let_def WithRoots_fields split: option.splits)
qed

text \<open>Two roots with a directory of one name.\<close>

definition skills_demo :: search_env where
  "skills_demo =
     \<lparr>se_fs = \<lparr>nodes = (\<lambda>_. None), clock = 0, cwd = ''/'', written = 0, suffixes = (\<lambda>n. n), fault = (\<lambda>_ _. None)\<rparr>,
      se_tree = DirT 0 [(''p'', DirT 0 [(''s'', DirT 0 [(''SKILL.md'', FileT ''---a---p'' 0 0)])]),
        (''u'', DirT 0 [(''s'', DirT 0 [(''SKILL.md'', FileT ''---a---u'' 0 0)])])],
      se_hidden = (\<lambda>_ _. False), se_regexp = (\<lambda>_. Inl [])\<rparr>"

definition yaml_demo :: yaml where "yaml_demo t = Inr (demo_skill\<lparr>sk_name := t\<rparr>)"

abbreviation demo_catalog :: "string list \<Rightarrow> skill_err + skill_tool" where
  "demo_catalog roots \<equiv> New_skill_tool (\<lambda>r. r) skills_demo yaml_demo [] (Some (WithRoots skills_demo yaml_demo roots))"

lemma demo_catalog_eval:
  "(case demo_catalog [''/u'', ''/p''] of Inl e \<Rightarrow> False | Inr t \<Rightarrow> True)"
  "(case demo_catalog [''/u''] of Inl e \<Rightarrow> None | Inr t \<Rightarrow> map_option ce_dir (stl_commands t ''a'')) = Some ''s''"
  by code_simp+

theorem commands_of_earlier_roots_witness:
  "\<exists>t t' e. demo_catalog [''/u''] = Inr t \<and> demo_catalog [''/u'', ''/p''] = Inr t' \<and> stl_commands t ''a'' = Some e \<and> stl_commands t' ''a'' = Some e"
proof -
  obtain t' where t': "demo_catalog ([''/u''] @ [''/p'']) = Inr t'"
    using demo_catalog_eval(1) by (cases "demo_catalog [''/u'', ''/p'']") simp_all
  from commands_of_earlier_roots [OF t', of "''a''"] obtain t where t: "demo_catalog [''/u''] = Inr t"
    "case stl_commands t ''a'' of None \<Rightarrow> True | Some e \<Rightarrow> stl_commands t' ''a'' = Some e \<and>
         spr_parse (WithRoots skills_demo yaml_demo ([''/u''] @ [''/p''])) (ce_dir e) = spr_parse (WithRoots skills_demo yaml_demo [''/u'']) (ce_dir e)"
    by blast
  then obtain e where "stl_commands t ''a'' = Some e" using demo_catalog_eval(2) by auto
  then show ?thesis using t t' by auto
qed

text \<open>Every skill of the catalog is found under its own name, whatever the case; names differ, the entries are sorted by them, and every command leads to an entry of the catalog.\<close>

theorem catalog_names_lead_to_entries:
  assumes "New_skill_tool lr env yaml root p = Inr t"
  shows "list_all (\<lambda>e. stl_commands t (entry_key lr e) = Some e) (stl_catalog t) \<and> distinct (map (entry_key lr) (stl_catalog t)) \<and>
    sorted (map (entry_key lr) (stl_catalog t)) \<and> (case stl_commands t k of None \<Rightarrow> True | Some e \<Rightarrow> e \<in> set (stl_catalog t))"
proof -
  obtain q r dirs entries commands skipped where st: "fold (add_dir lr q r) dirs ([], (\<lambda>_. None), []) = (entries, commands, skipped)"
    "t = \<lparr>stl_catalog = sort_key (entry_key lr) entries, stl_commands = commands, stl_skipped = skipped\<rparr>"
    using assms by (auto simp: New_skill_tool_def buildCatalog_def Let_def split: sum.splits prod.splits)
  from fold_add_dir_inv [OF cat_inv_start, of lr q r dirs] st(1) have inv: "cat_inv lr (entries, commands, skipped)" by simp
  then have "\<forall>e \<in> set entries. commands (entry_key lr e) = Some e" "distinct (map (entry_key lr) entries)"
    "commands k = Some e \<Longrightarrow> e \<in> set entries" for e by (auto simp: cat_inv_def)
  moreover have "distinct (map (entry_key lr) (sort_key (entry_key lr) entries))"
    using calculation(2) by (simp add: distinct_map)
  ultimately show ?thesis using st(2) by (simp add: list_all_iff split: option.splits)
qed

theorem catalog_names_lead_to_entries_witness:
  "\<exists>t. demo_catalog [''/u''] = Inr t \<and> list_all (\<lambda>e. stl_commands t (entry_key (\<lambda>r. r) e) = Some e) (stl_catalog t)"
proof -
  obtain t where t: "demo_catalog [''/u''] = Inr t" using demo_catalog_eval(2) by (cases "demo_catalog [''/u'']") simp_all
  from catalog_names_lead_to_entries [OF t] t show ?thesis by blast
qed

text \<open>What stands in an XML element of the description.\<close>

function unescapeXML :: "string \<Rightarrow> string" where
  "unescapeXML [] = []"
| "unescapeXML (c # cs) =
     (if c \<noteq> CHR ''&'' then c # unescapeXML cs
      else if has_prefix cs ''amp;'' then CHR ''&'' # unescapeXML (drop 4 cs)
      else if has_prefix cs ''lt;'' then CHR ''<'' # unescapeXML (drop 3 cs)
      else if has_prefix cs ''gt;'' then CHR ''>'' # unescapeXML (drop 3 cs)
      else if has_prefix cs ''quot;'' then CHR 0x22 # unescapeXML (drop 5 cs)
      else if has_prefix cs ''apos;'' then CHR 0x27 # unescapeXML (drop 5 cs)
      else c # unescapeXML cs)"
  by pat_completeness auto
termination by (relation "measure length") auto

lemma unescape_char: "unescapeXML (escape_char c @ r) = c # unescapeXML r"
  by (simp add: escape_char_def has_prefix_def numeral_eq_Suc)

text \<open>The names, descriptions and locations of skills stand escaped in the description: none of them can open or close an element, and each reads back as itself.\<close>

theorem escaped_text_reads_back:
  "unescapeXML (escapeXML s) = s \<and> CHR ''<'' \<notin> set (escapeXML s) \<and> CHR ''>'' \<notin> set (escapeXML s)"
proof -
  have "unescapeXML (escapeXML s) = s" by (induction s) (simp_all add: escapeXML_def unescape_char)
  moreover have "CHR ''<'' \<notin> set (escape_char c)" "CHR ''>'' \<notin> set (escape_char c)" for c by (auto simp: escape_char_def)
  ultimately show ?thesis by (auto simp: escapeXML_def)
qed

text \<open>A skill whose name has a space is in the catalog, but its name is refused as a command.\<close>

lemma spaced_name_not_loadable: "load_skill lr p t onLoad (Some (''my skill'', [])) w = (Inl SkillInvalidCommand, w)"
proof -
  have "trim_space ''my skill'' = ''my skill''" "go_fields ''my skill'' = [''my'', ''skill'']" by code_simp+
  then show ?thesis by (simp add: load_skill_def)
qed

end
