(* ===== verification/Spec2Isabelle.thy ===== *)
theory Spec2Isabelle
  imports Simple_Memory Json_Memory Nats_Memory Nats_Demo Nats_Drain Agent_Correct Permission_Correct Middleware Limiter
    Text_Splitter File_History Search_Safe Vector_Filter Bash_Correct Bash_Sandbox Semantic_Cache Trace_Instrument Trace_Content Trace_Batch
    Todo_Tool Human_Tool Service_Tools Skill_Tool
begin

text \<open>
  A verification development for Phero (\<open>github.com/henomis/phero\<close>), a Go framework of LLM agents.

  \<^bold>\<open>The program.\<close> An agent (\<open>agent/\<close>) runs a loop: it asks an LLM (\<open>llm/\<close>, behind middlewares) for an
  answer, runs the tools the answer calls (\<open>tool/\<close>, behind a permission policy), gives the results back,
  and ends with an answer, an error or a limit. Between runs a memory (\<open>memory/\<close>) holds the conversation
  of a session, and a compactor replaces its oldest part by a summary. Over NATS (\<open>nats/\<close>) an agent
  serves prompts of others, is discovered by them and watched by its heartbeats.

  \<^bold>\<open>Go.\<close> \<open>Go_Base\<close> and \<open>Go_Errors\<close>: strings are byte strings, with \<open>utf8\<close>, \<open>strings\<close> and \<open>strconv\<close>;
  errors are trees with \<open>errors.Is\<close> and \<open>errors.As\<close>; \<open>Inl\<close> is an error. \<open>Go_Path\<close> and \<open>Path_Names\<close>:
  \<open>filepath\<close>; \<open>Os_Files\<close>: a file system with symbolic links. \<open>Json_Text\<close>: \<open>encoding/json\<close>, with the
  round trip of printing and parsing. A call that may block, sleep or reach the network is a function of
  the environment record of its component, which takes and returns the world \<open>'w\<close>.

  \<^bold>\<open>The parts.\<close>
  \<^item> \<open>Llm\<close>: messages, options, tools, handlers and streams of package \<open>llm\<close>. \<open>Message_Json\<close>: their JSON.
    \<open>Text_Render\<close>: \<open>internal/textcut\<close> and \<open>internal/summary\<close>.
  \<^item> \<open>Memory_Core\<close>: snapshots, cursors and splits (\<open>memory/*.go\<close>), with the contract \<open>snapshot_store\<close>.
    \<open>Ring_Buffer\<close>, \<open>Simple_Memory\<close>: \<open>memory/simple\<close>; \<open>Session_Log\<close>, \<open>Json_Memory\<close>: \<open>memory/jsonfile\<close>;
    \<open>Nats_Memory\<close>: \<open>memory/nats\<close>, writers that share a session in a key-value bucket.
  \<^item> \<open>Agent_Compact\<close>: the compactors (\<open>agent/compact.go\<close>), with the contract \<open>valid_compactor\<close>. \<open>Agent_Core\<close>:
    the agent and its messages; \<open>Agent_Run\<close>: the loop (\<open>run_loop\<close> and its pass \<open>loop_pass\<close>), rounds of
    tool calls, streaming, checkpoints; \<open>Agent_Round\<close>, \<open>Agent_Loop\<close>: invariants of a round and of the
    loop, by induction over the states a run reaches; \<open>Agent_Correct\<close>: the properties of a run.
  \<^item> \<open>Permission_Rules\<close>, \<open>Permission_Shell\<close>, \<open>Permission\<close>: \<open>tool/permission\<close>; \<open>Permission_Correct\<close>: what the
    policy promises.
  \<^item> \<open>File_Core\<close>: paths, tracker, atomic writes, write, edit and multi_edit of \<open>tool/file\<close>; \<open>File_Read\<close>: read;
    \<open>File_Paths\<close>, \<open>File_Writes\<close>, \<open>File_Edits\<close>: lemmas; \<open>File_Correct\<close>, \<open>File_History\<close>: the properties.
  \<^item> \<open>Middleware\<close>: retries and guardrails of \<open>llm/middleware\<close>; \<open>Limiter\<close>: its limiter as a step relation.
  \<^item> \<open>Nats_Subject\<close>, \<open>Nats_Wire\<close>, \<open>Nats_Config\<close>: subjects, discovery, envelopes, chunks, error bodies, and
    what a server registers. \<open>Nats_Stream\<close>: a prompt on the server and a reply on the client.
    \<open>Nats_Exchange\<close>, \<open>Nats_Correct\<close>, \<open>Nats_Demo\<close>: the two composed. \<open>Nats_Drain\<close>: starting, admission and drain
    as a step relation. \<open>Nats_Resolver\<close>, \<open>Nats_Liveness\<close>: heartbeats and the resolver, with the
    contract \<open>discovery\<close>.
  \<^item> \<open>Text_Splitter\<close>: \<open>textsplitter\<close>. \<open>Vector_Filter\<close>: \<open>vectorstore/filter.go\<close> and its translations.

  \<^bold>\<open>Contracts.\<close> A locale states what a client relies on, and an interpretation on the model of every
  provider discharges it: \<open>snapshot_store\<close> (memories and the agent that compacts them) on the in-process
  and the file memory, \<open>valid_compactor\<close> on the summary compactor, \<open>bounded_buffer\<close> on the ring, and
  \<open>discovery\<close> on the client of the resolver.

  \<^bold>\<open>Fuel and bounds.\<close> Loops over data are structural or have a measure. The agent loop recurses on the
  passes its limit leaves: with a limit, \<open>run_ends\<close> shows that a run returns. Waits and retries recurse on
  the attempts that are left. Integers are \<open>int\<close> with the 64-bit wrap written out where a value can leave
  the range (durations, token counts); sizes of slices are natural numbers.

  \<^bold>\<open>Not modelled.\<close> The LLM providers, exporters of traces and vector stores convert to and from SDKs that are
  not part of the repository; \<open>tool/bash\<close> runs processes; the examples and tests are glue. The components
  that remain are planned in this order: search of files (\<open>glob\<close>, \<open>grep\<close>, \<open>.gitignore\<close>), the response
  cache, the todo and key-value tools, schemas, trace totals, skills.
\<close>

end
